(* ===== verification/Prelude.thy ===== *)
theory Prelude
  imports Main "HOL-Library.Code_Target_Nat"
begin

text \<open>
  Shared vocabulary of the development: results as sums, Go's \<open>int64\<close> arithmetic with its
  wrap-around written out, truncating division, Go maps \<open>map[uint]int64\<close> as association lists
  sorted by key, and the generic lemmas on lists the components share.
\<close>

section \<open>Results and errors\<close>

text \<open>
  One value per error the modelled packages return. Human-readable texts are dropped, a
  \<open>ValidationError\<close> keeps the names of its failing fields. \<open>ErrNamed n\<close> is the error value of the
  package variable \<open>n\<close>, \<open>ErrBackend\<close> any error of a repository.
\<close>

datatype go_error =
    ErrValueEvidence
  | ErrCanceled
  | ErrCalendar
  | ErrSettlementConflict
  | ErrDiscountQuoteInvalid
  | ErrDiscountRedemptionConflict
  | ErrDiscountRedemptionUnsupported
  | ErrPermission
  | ErrOrderPermission
  | ErrNotFound
  | ErrBuyerUnavailable
  | ErrSubscriptionValueUnavailable
  | ErrWalletUnavailable
  | ErrPlanRevision nat bool
  | ErrIdentifierConflict "string list"
  | ErrValidation "string list"
  | ErrQuoted string
  | ErrRenewalWindow
  | ErrGrantRejected string
  | ErrQuotaRequestInvalid
  | ErrMutationInvalid
  | ErrMutationUnavailable
  | ErrAccessPermission
  | ErrAccessNotFound
  | ErrBackend nat
  | ErrNamed string

type_synonym 'a result = "go_error + 'a"

text \<open>\<open>x, err := f(); if err != nil \<lbrace> return err \<rbrace>\<close>.\<close>

definition try_bind :: "'a result \<Rightarrow> ('a \<Rightarrow> 'b result) \<Rightarrow> 'b result" where
  "try_bind r f = (case r of Inl e \<Rightarrow> Inl e | Inr x \<Rightarrow> f x)"

lemma try_bind_simps [simp]:
  "try_bind (Inl e) f = Inl e"
  "try_bind (Inr x) f = f x"
  by (simp_all add: try_bind_def)

lemma try_bind_Inr_iff [simp]: "try_bind r f = Inr y \<longleftrightarrow> (\<exists>x. r = Inr x \<and> f x = Inr y)"
  by (cases r) auto

lemma try_bind_cong [fundef_cong]:
  "r = r' \<Longrightarrow> (\<And>x. r' = Inr x \<Longrightarrow> f x = g x) \<Longrightarrow> try_bind r f = try_bind r' g"
  by (cases r') auto

lemma if_Inl_Inr_iff [simp]:
  "(if b then Inl e else r) = Inr x \<longleftrightarrow> \<not> b \<and> r = Inr x"
  by auto

lemma case_result_Inr_iff [simp]:
  "(case r of Inl d \<Rightarrow> Inl e | Inr x \<Rightarrow> f x) = Inr y \<longleftrightarrow> (\<exists>x. r = Inr x \<and> f x = Inr y)"
  "(case m of None \<Rightarrow> Inl e | Some z \<Rightarrow> g z) = Inr y \<longleftrightarrow> (\<exists>z. m = Some z \<and> g z = Inr y)"
  by (cases r; auto) (cases m; auto)

lemma case_result_holds: "(case r of Inl d \<Rightarrow> False | Inr x \<Rightarrow> P x) \<longleftrightarrow> (\<exists>x. r = Inr x \<and> P x)"
  by (cases r) auto

section \<open>Signed 64-bit integers\<close>

named_theorems int64_simps \<open>unfolding rules of the int64 operations\<close>

definition max64 :: int where "max64 = 9223372036854775807"
definition min64 :: int where "min64 = - 9223372036854775808"

definition in64 :: "int \<Rightarrow> bool" where
  "in64 x \<longleftrightarrow> min64 \<le> x \<and> x \<le> max64"

definition wrap64 :: "int \<Rightarrow> int" where
  "wrap64 x = (x + 9223372036854775808) mod 18446744073709551616 - 9223372036854775808"

definition add64 :: "int \<Rightarrow> int \<Rightarrow> int" where "add64 a b = wrap64 (a + b)"
definition sub64 :: "int \<Rightarrow> int \<Rightarrow> int" where "sub64 a b = wrap64 (a - b)"
definition mul64 :: "int \<Rightarrow> int \<Rightarrow> int" where "mul64 a b = wrap64 (a * b)"

declare max64_def [int64_simps] min64_def [int64_simps] in64_def [int64_simps]

lemma wrap64_id [simp]: "in64 x \<Longrightarrow> wrap64 x = x"
  by (simp add: wrap64_def int64_simps)

lemma wrap64_in64: "in64 (wrap64 x)"
  using pos_mod_bound[of 18446744073709551616 "x + 9223372036854775808"]
    pos_mod_sign[of 18446744073709551616 "x + 9223372036854775808"]
  by (simp add: wrap64_def int64_simps)

lemma in64_nonneg: "0 \<le> x \<Longrightarrow> x \<le> max64 \<Longrightarrow> in64 x"
  by (simp add: int64_simps)

lemma add64_exact: "in64 (a + b) \<Longrightarrow> add64 a b = a + b"
  by (simp add: add64_def)

lemma sub64_exact: "in64 (a - b) \<Longrightarrow> sub64 a b = a - b"
  by (simp add: sub64_def)

lemma mul64_exact: "in64 (a * b) \<Longrightarrow> mul64 a b = a * b"
  by (simp add: mul64_def)

text \<open>The guard \<open>t > math.MaxInt64 - a\<close> the code writes before each addition of amounts.\<close>

lemma add64_guarded: "0 \<le> t \<Longrightarrow> 0 \<le> a \<Longrightarrow> \<not> max64 - a < t \<Longrightarrow> add64 t a = t + a"
  by (rule add64_exact) (auto simp: int64_simps)

lemma sub64_nonneg: "0 \<le> b \<Longrightarrow> b \<le> a \<Longrightarrow> a \<le> max64 \<Longrightarrow> sub64 a b = a - b"
  by (rule sub64_exact) (auto simp: int64_simps)

lemma add64_commute: "add64 a b = add64 b a"
  by (simp add: add64_def add.commute)

lemma add64_zero [simp]: "in64 a \<Longrightarrow> add64 a 0 = a"
  by (simp add: add64_def)

section \<open>Truncating division\<close>

text \<open>Go's \<open>/\<close> and \<open>%\<close>, and \<open>big.Int.Quo\<close>, round towards zero.\<close>

definition quo :: "int \<Rightarrow> int \<Rightarrow> int" where
  "quo a b = sgn a * sgn b * (\<bar>a\<bar> div \<bar>b\<bar>)"

definition rem :: "int \<Rightarrow> int \<Rightarrow> int" where
  "rem a b = a - b * quo a b"

lemma quo_nonneg [simp]: "0 \<le> a \<Longrightarrow> 0 < b \<Longrightarrow> quo a b = a div b"
  by (cases "a = 0") (simp_all add: quo_def)

lemma rem_nonneg [simp]: "0 \<le> a \<Longrightarrow> 0 < b \<Longrightarrow> rem a b = a mod b"
  by (simp add: rem_def minus_mult_div_eq_mod)

lemma quo_rem: "a = b * quo a b + rem a b"
  by (simp add: rem_def)

section \<open>Go maps from identifiers to amounts\<close>

text \<open>
  A \<open>map[uint]int64\<close> is an association list strictly sorted by key: \<open>amt m k\<close> is \<open>m[k]\<close>
  (zero when absent), \<open>put k v m\<close> is \<open>m[k] = v\<close>, \<open>del k m\<close> is \<open>delete(m, k)\<close>. Iteration goes
  through the keys in ascending order; Go's order is random, so the theorems about loops over
  maps state that their outcome does not depend on it.
\<close>

type_synonym amounts = "(nat \<times> int) list"

definition amt :: "amounts \<Rightarrow> nat \<Rightarrow> int" where
  "amt m k = (case map_of m k of None \<Rightarrow> 0 | Some v \<Rightarrow> v)"

fun put :: "nat \<Rightarrow> int \<Rightarrow> amounts \<Rightarrow> amounts" where
  "put k v [] = [(k, v)]"
| "put k v ((k', v') # m) =
     (if k < k' then (k, v) # (k', v') # m
      else if k = k' then (k, v) # m
      else (k', v') # put k v m)"

fun del :: "nat \<Rightarrow> amounts \<Rightarrow> amounts" where
  "del k [] = []"
| "del k ((k', v') # m) = (if k = k' then m else (k', v') # del k m)"

definition wf_amounts :: "amounts \<Rightarrow> bool" where
  "wf_amounts m \<longleftrightarrow> sorted_wrt (<) (map fst m)"

definition sum_amounts :: "amounts \<Rightarrow> int" where
  "sum_amounts m = sum_list (map snd m)"

lemma amt_Nil [simp]: "amt [] k = 0"
  by (simp add: amt_def)

lemma amt_Cons: "amt ((k', v) # m) k = (if k = k' then v else amt m k)"
  by (simp add: amt_def)

lemma sum_amounts_simps [simp]: "sum_amounts [] = 0" "sum_amounts ((k, v) # m) = v + sum_amounts m"
  by (simp_all add: sum_amounts_def)

lemma wf_amounts_Nil [simp]: "wf_amounts []"
  by (simp add: wf_amounts_def)

lemma wf_amounts_Cons [simp]:
  "wf_amounts ((k, v) # m) \<longleftrightarrow> (\<forall>k' \<in> fst ` set m. k < k') \<and> wf_amounts m"
  by (auto simp: wf_amounts_def)

lemma keys_put: "fst ` set (put k v m) = insert k (fst ` set m)"
  by (induction k v m rule: put.induct) auto

lemma wf_put [simp]: "wf_amounts m \<Longrightarrow> wf_amounts (put k v m)"
  by (induction k v m rule: put.induct) (auto simp: keys_put)

lemma keys_del: "wf_amounts m \<Longrightarrow> fst ` set (del k m) = fst ` set m - {k}"
  by (induction k m rule: del.induct) force+

lemma wf_del [simp]: "wf_amounts m \<Longrightarrow> wf_amounts (del k m)"
  by (induction k m rule: del.induct) (auto simp: keys_del)

lemma amt_absent: "k \<notin> fst ` set m \<Longrightarrow> amt m k = 0"
  by (induction m) (auto simp: amt_Cons)

lemma amt_put [simp]: "amt (put k v m) j = (if j = k then v else amt m j)"
  by (induction k v m rule: put.induct) (auto simp: amt_Cons)

lemma amt_del: "wf_amounts m \<Longrightarrow> amt (del k m) j = (if j = k then 0 else amt m j)"
proof (induction k m rule: del.induct)
  case (2 k k' v' m)
  have "k' \<notin> fst ` set m" using "2.prems" by auto
  then have "amt m k' = 0" by (rule amt_absent)
  with 2 show ?case by (auto simp: amt_Cons)
qed simp

lemma sum_amounts_put: "wf_amounts m \<Longrightarrow> sum_amounts (put k v m) = sum_amounts m - amt m k + v"
proof (induction k v m rule: put.induct)
  case (2 k v k' v' m)
  show ?case
  proof (cases "k < k'")
    case True
    with 2 have "k \<notin> fst ` set ((k', v') # m)" by auto
    then have "amt ((k', v') # m) k = 0" by (rule amt_absent)
    with True show ?thesis by simp
  next
    case False
    with 2 show ?thesis by (auto simp: amt_Cons)
  qed
qed simp

lemma sum_amounts_del: "wf_amounts m \<Longrightarrow> sum_amounts (del k m) = sum_amounts m - amt m k"
proof (induction k m rule: del.induct)
  case (2 k k' v' m)
  then show ?case by (auto simp: amt_Cons)
qed simp

lemma amt_member: "wf_amounts m \<Longrightarrow> (k, v) \<in> set m \<Longrightarrow> amt m k = v"
  by (induction m) (force simp: amt_Cons)+

lemma amt_in_set: "k \<in> fst ` set m \<Longrightarrow> (k, amt m k) \<in> set m"
  by (induction m) (force simp: amt_Cons)+

lemma amounts_ext:
  assumes "wf_amounts m" "wf_amounts n" "fst ` set m = fst ` set n" "\<And>k. amt m k = amt n k"
  shows "m = n"
proof -
  have keys: "map fst m = map fst n"
    using assms(1-3) strict_sorted_equal[of "map fst m" "map fst n"]
    by (simp add: wf_amounts_def)
  have rep: "xs = map (\<lambda>k. (k, amt xs k)) (map fst xs)" if "wf_amounts xs" for xs :: amounts
    unfolding map_map comp_def
    by (rule map_idI[symmetric]) (use that in \<open>auto simp: amt_member\<close>)
  have "m = map (\<lambda>k. (k, amt m k)) (map fst m)" using assms(1) by (rule rep)
  also have "\<dots> = map (\<lambda>k. (k, amt n k)) (map fst n)" using keys assms(4) by simp
  also have "\<dots> = n" using assms(2) by (rule rep [symmetric])
  finally show ?thesis .
qed

section \<open>Integers and lists\<close>

lemma div_bounds:
  assumes "0 < (c::int)"
  shows "c * (n div c) \<le> n" and "n < c * (n div c) + c"
proof -
  have "c * (n div c) + n mod c = n" by simp
  moreover have "0 \<le> n mod c" "n mod c < c" using assms by simp_all
  ultimately show "c * (n div c) \<le> n" and "n < c * (n div c) + c" by linarith+
qed

lemma div_mod_succ:
  assumes "1 < (c::int)"
  shows "(n + 1) div c = (if n mod c = c - 1 then n div c + 1 else n div c) \<and>
    (n + 1) mod c = (if n mod c = c - 1 then 0 else n mod c + 1)"
proof -
  define q r where "q = n div c" and "r = n mod c"
  have n: "n + 1 = c * q + (r + 1)" by (simp add: q_def r_def)
  have r: "0 \<le> r" "r < c" using assms by (simp_all add: r_def)
  show ?thesis
  proof (cases "r = c - 1")
    case True
    with n have "n + 1 = c * (q + 1) + 0" by (simp add: distrib_left)
    from int_div_pos_eq[OF this] int_mod_pos_eq[OF this] True assms show ?thesis
      unfolding q_def r_def by simp
  next
    case False
    with r have "0 \<le> r + 1" "r + 1 < c" by auto
    from int_div_pos_eq[OF n this] int_mod_pos_eq[OF n this] False show ?thesis
      unfolding q_def r_def by simp
  qed
qed

lemmas div_succ = div_mod_succ [THEN conjunct1]
lemmas mod_succ = div_mod_succ [THEN conjunct2]

lemma div_step:
  assumes "1 < (c::int)"
  shows "n div c = (n - 1) div c + (if n mod c = 0 then 1 else 0)"
proof -
  have "0 \<le> (n - 1) mod c" using assms by simp
  then have "(n - 1) mod c = c - 1 \<longleftrightarrow> n mod c = 0"
    using mod_succ[OF assms, of "n - 1"] by (auto split: if_splits)
  then show ?thesis using div_succ[OF assms, of "n - 1"] by simp
qed

lemma sum_list_nonneg_int: "\<forall>x \<in> set xs. (0::int) \<le> x \<Longrightarrow> 0 \<le> sum_list xs"
  by (induction xs) auto

lemma distinct_map_eq: "distinct (map f xs) \<Longrightarrow> x \<in> set xs \<Longrightarrow> y \<in> set xs \<Longrightarrow> f x = f y \<Longrightarrow> x = y"
  by (auto simp: distinct_map dest: inj_onD)

lemma find_member: "List.find P xs = Some x \<Longrightarrow> x \<in> set xs \<and> P x"
  by (induction xs) (auto split: if_splits)

end
