(* ===== verification/GoTime.thy ===== *)
theory GoTime
  imports Prelude
begin

text \<open>
  The part of Go's \<open>time\<close> package the program relies on. A \<open>time.Time\<close> is the number of
  nanoseconds since 0001-01-01T00:00:00Z, Go's own zero instant, so \<open>IsZero\<close> is equality with
  0 and \<open>Before\<close>, \<open>After\<close>, \<open>Equal\<close> are the order of integers. Calendar fields are those of
  UTC, the location every modelled caller normalises to.
\<close>

type_synonym gotime = int

definition nanos_per_sec :: int where "nanos_per_sec = 1000000000"
definition nanos_per_day :: int where "nanos_per_day = 86400000000000"
definition millisecond :: int where "millisecond = 1000000"
definition hour :: int where "hour = 3600000000000"

definition is_zero :: "gotime \<Rightarrow> bool" where "is_zero t \<longleftrightarrow> t = 0"

text \<open>\<open>t.Unix()\<close>: whole seconds since 1970-01-01, rounded down.\<close>

definition unix :: "gotime \<Rightarrow> int" where
  "unix t = t div nanos_per_sec - 62135596800"

text \<open>\<open>t.Sub(u)\<close> is a \<open>Duration\<close>, an \<open>int64\<close> that saturates.\<close>

definition time_sub :: "gotime \<Rightarrow> gotime \<Rightarrow> int" where
  "time_sub t u = max min64 (min max64 (t - u))"

text \<open>\<open>t.Round(time.Millisecond)\<close>: half a millisecond rounds up.\<close>

definition round_ms :: "gotime \<Rightarrow> gotime" where
  "round_ms t = (let r = t mod millisecond in if r + r < millisecond then t - r else t + (millisecond - r))"

section \<open>The proleptic Gregorian calendar\<close>

definition is_leap :: "int \<Rightarrow> bool" where
  "is_leap y \<longleftrightarrow> y mod 4 = 0 \<and> (y mod 100 \<noteq> 0 \<or> y mod 400 = 0)"

text \<open>Days from 0001-01-01 to the first day of year \<open>y\<close>.\<close>

definition year_days :: "int \<Rightarrow> int" where
  "year_days y = (let n = y - 1 in 365 * n + n div 4 - n div 100 + n div 400)"

text \<open>Days of a year before its \<open>m\<close>-th month, \<open>m = 0 \<dots> 12\<close> counted from January.\<close>

definition days_before :: "bool \<Rightarrow> int \<Rightarrow> int" where
  "days_before leap m =
     (if m \<le> 0 then 0 else if m = 1 then 31
      else (if m = 2 then 59 else if m = 3 then 90 else if m = 4 then 120 else if m = 5 then 151
            else if m = 6 then 181 else if m = 7 then 212 else if m = 8 then 243
            else if m = 9 then 273 else if m = 10 then 304 else if m = 11 then 334 else 365)
        + (if leap then 1 else 0))"

text \<open>First day of the \<open>k\<close>-th month counted from January of year 0, and the month's length.\<close>

definition month_start :: "int \<Rightarrow> int" where
  "month_start k = year_days (k div 12) + days_before (is_leap (k div 12)) (k mod 12)"

definition month_len :: "int \<Rightarrow> int" where
  "month_len k = month_start (k + 1) - month_start k"

text \<open>Year, month index within the year and day of month of a day number.\<close>

definition year_of :: "int \<Rightarrow> int" where
  "year_of d =
     (let y = (400 * d) div 146097 + 1
      in if d < year_days y then y - 1 else if year_days (y + 1) \<le> d then y + 1 else y)"

definition month_index_of :: "bool \<Rightarrow> int \<Rightarrow> int" where
  "month_index_of leap d =
     (if d < days_before leap 1 then 0 else if d < days_before leap 2 then 1
      else if d < days_before leap 3 then 2 else if d < days_before leap 4 then 3
      else if d < days_before leap 5 then 4 else if d < days_before leap 6 then 5
      else if d < days_before leap 7 then 6 else if d < days_before leap 8 then 7
      else if d < days_before leap 9 then 8 else if d < days_before leap 10 then 9
      else if d < days_before leap 11 then 10 else 11)"

definition day_number :: "gotime \<Rightarrow> int" where "day_number t = t div nanos_per_day"
definition time_of_day :: "gotime \<Rightarrow> int" where "time_of_day t = t mod nanos_per_day"

text \<open>\<open>t.Year()\<close>, \<open>t.Month()\<close> (January is 1) and \<open>t.Day()\<close>.\<close>

definition t_year :: "gotime \<Rightarrow> int" where "t_year t = year_of (day_number t)"

definition t_month :: "gotime \<Rightarrow> int" where
  "t_month t =
     (let d = day_number t; y = year_of d in month_index_of (is_leap y) (d - year_days y) + 1)"

definition t_day :: "gotime \<Rightarrow> int" where
  "t_day t = day_number t - month_start (12 * t_year t + t_month t - 1) + 1"

text \<open>
  \<open>time.Date(y, m, d, \<dots>, UTC)\<close> with the time of day given in nanoseconds: months and days out
  of range are normalised, \<open>m = 13\<close> is January of the next year, \<open>d = 0\<close> the last day of the
  previous month.
\<close>

definition go_date :: "int \<Rightarrow> int \<Rightarrow> int \<Rightarrow> int \<Rightarrow> gotime" where
  "go_date y m d tod = (month_start (12 * y + m - 1) + d - 1) * nanos_per_day + tod"

text \<open>\<open>t.AddDate(0, 0, n)\<close>.\<close>

definition add_days :: "gotime \<Rightarrow> int \<Rightarrow> gotime" where
  "add_days t n = go_date (t_year t) (t_month t) (t_day t + n) (time_of_day t)"

section \<open>Calendar facts\<close>

lemma year_days_bounds:
  "146097 * (y - 1) - 699 \<le> 400 * year_days y" "400 * year_days y \<le> 146097 * (y - 1) + 396"
  using div_bounds[of 4 "y - 1"] div_bounds[of 100 "y - 1"] div_bounds[of 400 "y - 1"]
  by (simp_all add: year_days_def Let_def)

lemma year_days_Suc: "year_days (y + 1) = year_days y + (if is_leap y then 366 else 365)"
proof -
  define a b c where "a \<longleftrightarrow> y mod 4 = 0" and "b \<longleftrightarrow> y mod 100 = 0" and "c \<longleftrightarrow> y mod 400 = 0"
  note defs = a_def b_def c_def
  have "(4::int) dvd 100" "(100::int) dvd 400" by simp_all
  then have "b \<longrightarrow> a" "c \<longrightarrow> b"
    unfolding defs mod_eq_0_iff_dvd by (iprover intro: dvd_trans [of 4 100 y] dvd_trans [of 100 400 y])+
  moreover have "is_leap y \<longleftrightarrow> a \<and> (\<not> b \<or> c)" by (simp only: defs is_leap_def)
  ultimately have leap: "(if is_leap y then 366 else 365) = (365::int) + (if a then 1 else 0)
      - (if b then 1 else 0) + (if c then 1 else 0)"
    by (cases a; cases b; cases c) simp_all
  have arith: "yd0 = 365 * (y - 1) + a1 - b1 + c1 \<Longrightarrow> yd1 = 365 * y + a2 - b2 + c2 \<Longrightarrow>
      a2 = a1 + da \<Longrightarrow> b2 = b1 + db \<Longrightarrow> c2 = c1 + dc \<Longrightarrow> l = 365 + da - db + dc \<Longrightarrow>
      yd1 = yd0 + l" for yd0 yd1 a1 a2 b1 b2 c1 c2 da db dc l :: int
    by simp
  have "year_days y = 365 * (y - 1) + (y - 1) div 4 - (y - 1) div 100 + (y - 1) div 400"
    "year_days (y + 1) = 365 * y + y div 4 - y div 100 + y div 400"
    by (simp_all add: year_days_def Let_def)
  from arith [OF this _ _ _ leap] show ?thesis
    using div_step[of 4 y] div_step[of 100 y] div_step[of 400 y] unfolding defs by simp
qed

lemma year_of_bounds: "year_days (year_of d) \<le> d" "d < year_days (year_of d + 1)"
proof -
  define y where "y = (400 * d) div 146097 + 1"
  have "146097 * (y - 1) \<le> 400 * d" "400 * d < 146097 * y"
    using div_bounds[of 146097 "400 * d"] by (simp_all add: y_def)
  then have "year_days (y - 1) \<le> d" and "d < year_days (y + 2)"
    using year_days_bounds(2)[of "y - 1"] year_days_bounds(1)[of "y + 2"] by simp_all
  moreover have "y + 1 + 1 = y + 2" "y - 1 + 1 = y" by simp_all
  ultimately show "year_days (year_of d) \<le> d" "d < year_days (year_of d + 1)"
    unfolding year_of_def Let_def y_def[symmetric] by (metis not_le)+
qed

lemma days_before_ends [simp]: "days_before l 0 = 0"
  "days_before l 12 = (if l then 366 else 365)"
  by (auto simp: days_before_def)

lemma int_below_12: "0 \<le> m \<Longrightarrow> m < 12 \<Longrightarrow> 
    m = 0 \<or> m = 1 \<or> m = 2 \<or> m = 3 \<or> m = 4 \<or> m = 5 \<or> m = 6 \<or> m = 7 \<or> m = 8 \<or> m = 9 \<or> m = 10 \<or> m = (11::int)"
  by presburger

lemma days_before_step:
  assumes "0 \<le> m" "m < 12"
  shows "days_before l m + 28 \<le> days_before l (m + 1)"
    "days_before l (m + 1) \<le> days_before l m + 31"
  using int_below_12[OF assms] by (auto simp: days_before_def)

lemma month_start_Suc: "month_start (k + 1) =
  year_days (k div 12) + days_before (is_leap (k div 12)) (k mod 12 + 1)"
proof (cases "k mod 12 = 11")
  case True
  then have "(k + 1) div 12 = k div 12 + 1" "(k + 1) mod 12 = 0"
    using div_succ[of 12 k] mod_succ[of 12 k] by simp_all
  with True show ?thesis by (simp add: month_start_def year_days_Suc)
next
  case False
  then have "(k + 1) div 12 = k div 12" "(k + 1) mod 12 = k mod 12 + 1"
    using div_succ[of 12 k] mod_succ[of 12 k] by simp_all
  then show ?thesis by (simp only: month_start_def)
qed

lemma month_len_bounds: "28 \<le> month_len k" "month_len k \<le> 31"
  using days_before_step[of "k mod 12" "is_leap (k div 12)"]
  by (simp_all add: month_len_def month_start_Suc) (simp_all add: month_start_def)

lemma month_start_less: "k < l \<Longrightarrow> month_start k + month_len k \<le> month_start l"
proof (induction "nat (l - k - 1)" arbitrary: l)
  case 0
  then have "l = k + 1" by simp
  then show ?case by (simp add: month_len_def)
next
  case (Suc n)
  then have "n = nat ((l - 1) - k - 1)" "k < l - 1" by auto
  then have "month_start k + month_len k \<le> month_start (l - 1)" by (rule Suc.hyps(1))
  also have "\<dots> \<le> month_start l"
    using month_len_bounds[of "l - 1"] by (simp add: month_len_def)
  finally show ?case .
qed

lemma month_start_mono: "k \<le> l \<Longrightarrow> month_start k \<le> month_start l"
  using month_start_less[of k l] month_len_bounds[of k] by (cases "k = l") auto

lemma month_index_range: "0 \<le> month_index_of l d" "month_index_of l d < 12"
  by (auto simp: month_index_of_def)

lemma month_index_spec:
  assumes "0 \<le> d" "d < days_before l 12"
  shows "days_before l (month_index_of l d) \<le> d" "d < days_before l (month_index_of l d + 1)"
  using assms by (auto simp: month_index_of_def simp del: days_before_ends(2))

text \<open>The month number of a day, counted from January of year 0.\<close>

definition month_no :: "int \<Rightarrow> int" where
  "month_no d = (let y = year_of d in 12 * y + month_index_of (is_leap y) (d - year_days y))"

lemma month_no_bounds: "month_start (month_no d) \<le> d" "d < month_start (month_no d + 1)"
proof -
  define y where "y = year_of d"
  define m where "m = month_index_of (is_leap y) (d - year_days y)"
  have m: "0 \<le> m" "m < 12" by (simp_all add: m_def month_index_range)
  have "0 \<le> d - year_days y" "d - year_days y < days_before (is_leap y) 12"
    using year_of_bounds[of d] by (simp_all add: y_def year_days_Suc)
  from month_index_spec[OF this]
  have "days_before (is_leap y) m \<le> d - year_days y" "d - year_days y < days_before (is_leap y) (m + 1)"
    unfolding m_def[symmetric] .
  moreover have "month_no d = 12 * y + m"
    unfolding month_no_def Let_def y_def m_def ..
  moreover have "(12 * y + m) div 12 = y" "(12 * y + m) mod 12 = m" using m by simp_all
  ultimately show "month_start (month_no d) \<le> d" "d < month_start (month_no d + 1)"
    by (simp_all only: month_start_Suc) (simp_all add: month_start_def)
qed

lemma month_no_unique:
  assumes "month_start k \<le> d" "d < month_start (k + 1)"
  shows "month_no d = k"
proof (rule ccontr)
  assume "month_no d \<noteq> k"
  then consider "k + 1 \<le> month_no d" | "month_no d + 1 \<le> k" by linarith
  then show False
  proof cases
    case 1 from month_start_mono[OF 1] month_no_bounds(1)[of d] assms(2) show False by linarith
  next
    case 2 from month_start_mono[OF 2] month_no_bounds(2)[of d] assms(1) show False by linarith
  qed
qed

lemma t_month_no: "12 * t_year t + t_month t - 1 = month_no (day_number t)"
  by (simp add: t_year_def t_month_def month_no_def Let_def)

lemma t_month_range: "1 \<le> t_month t" "t_month t \<le> 12"
  using month_index_range by (auto simp: t_month_def Let_def add1_zle_eq)

lemma t_day_eq: "t_day t = day_number t - month_start (month_no (day_number t)) + 1"
  by (simp add: t_day_def t_month_no)

lemma t_day_range: "1 \<le> t_day t" "t_day t \<le> month_len (month_no (day_number t))"
  using month_no_bounds[of "day_number t"] by (simp_all add: t_day_eq month_len_def)

lemma time_of_day_range: "0 \<le> time_of_day t" "time_of_day t < nanos_per_day"
  by (simp_all add: time_of_day_def nanos_per_day_def)

lemma time_split: "t = day_number t * nanos_per_day + time_of_day t"
  by (simp add: day_number_def time_of_day_def)

lemma day_number_mult [simp]: "0 \<le> r \<Longrightarrow> r < nanos_per_day \<Longrightarrow> day_number (n * nanos_per_day + r) = n"
  by (simp add: day_number_def nanos_per_day_def)

lemma time_of_day_mult [simp]: "0 \<le> r \<Longrightarrow> r < nanos_per_day \<Longrightarrow> time_of_day (n * nanos_per_day + r) = r"
  by (simp add: time_of_day_def nanos_per_day_def)

text \<open>Instants compare by day first, then by time of day.\<close>

lemma day_less: "day_number t < day_number u \<Longrightarrow> t < u"
  by (simp add: day_number_def nanos_per_day_def)

lemma go_date_split:
  assumes "0 \<le> r" "r < nanos_per_day"
  shows "day_number (go_date y m d r) = month_start (12 * y + m - 1) + d - 1"
    and "time_of_day (go_date y m d r) = r"
  using assms by (simp_all add: go_date_def)

lemma go_date_fields:
  assumes "1 \<le> d" "d \<le> month_len (12 * y + m - 1)" "0 \<le> r" "r < nanos_per_day"
  shows "month_no (day_number (go_date y m d r)) = 12 * y + m - 1" "t_day (go_date y m d r) = d"
proof -
  show no: "month_no (day_number (go_date y m d r)) = 12 * y + m - 1"
    unfolding go_date_split(1)[OF assms(3,4)]
    using assms(1,2) by (intro month_no_unique) (simp_all add: month_len_def)
  show "t_day (go_date y m d r) = d"
    by (simp add: t_day_eq no) (simp add: go_date_split(1)[OF assms(3,4)])
qed

lemma go_date_roundtrip: "go_date (t_year t) (t_month t) (t_day t) (time_of_day t) = t"
  using time_split[of t] by (simp add: go_date_def t_month_no t_day_eq)

lemma unix_mono: "t \<le> u \<Longrightarrow> unix t \<le> unix u"
  by (simp add: unix_def nanos_per_sec_def zdiv_mono1)

lemma unix_less: "unix t < unix u \<Longrightarrow> t < u"
  using unix_mono[of u t] by linarith

end
