(* ===== verification/Calendar.thy ===== *)
theory Calendar
  imports GoTime
begin

text \<open>
  \<^verbatim>\<open>entitlements/calendar.go\<close>: calendar-month arithmetic with the day clamped to the target
  month, billing periods and the schedule of traffic resets. Years, months and billing values are
  unbounded integers; instants outside Go's representable range are not modelled.
\<close>

section \<open>The code\<close>

definition perpetual_end :: gotime where
  "perpetual_end = go_date 9999 12 31 (86399 * nanos_per_sec)"

definition add_calendar_months :: "gotime \<Rightarrow> int \<Rightarrow> gotime" where
  "add_calendar_months base months =
     (let month_index = t_month base - 1 + months;
          year = t_year base + quo month_index 12;
          month_index = rem month_index 12;
          (month_index, year) = (if month_index < 0 then (month_index + 12, year - 1)
                                 else (month_index, year));
          month = month_index + 1;
          last_day = t_day (go_date year (month + 1) 0 0);
          day = (if last_day < t_day base then last_day else t_day base)
      in go_date year month day (time_of_day base))"

text \<open>
  The loops \<open>for months = max(1, months); ; months++\<close> of policies 2 and 4, which stop at the
  first multiple of the period after \<open>after\<close>. They return because \<open>add_calendar_months\<close> is
  strictly increasing.
\<close>

lemma add_calendar_months_eq:
  "add_calendar_months t n =
     (let k = month_no (day_number t) + n
      in (month_start k + min (t_day t) (month_len k) - 1) * nanos_per_day + time_of_day t)"
proof -
  define mi where "mi = t_month t - 1 + n"
  define y where "y = (if rem mi 12 < 0 then t_year t + quo mi 12 - 1 else t_year t + quo mi 12)"
  define m where "m = (if rem mi 12 < 0 then rem mi 12 + 12 else rem mi 12)"
  define k where "k = month_no (day_number t) + n"
  have "mi = 12 * quo mi 12 + rem mi 12" by (rule quo_rem)
  then have k: "12 * y + (m + 1) - 1 = k"
    using t_month_no[of t] by (simp add: y_def m_def mi_def k_def)
  have "t_day (go_date y (m + 1 + 1) 0 0) = month_len k"
  proof -
    have d: "day_number (go_date y (m + 1 + 1) 0 0) = month_start (k + 1) - 1"
      using k by (subst go_date_split) (simp_all add: nanos_per_day_def algebra_simps)
    have "month_no (month_start (k + 1) - 1) = k"
      using month_len_bounds[of k] by (intro month_no_unique) (simp_all add: month_len_def)
    then show ?thesis unfolding t_day_eq d month_len_def by simp
  qed
  moreover have "add_calendar_months t n =
      go_date y (m + 1) (if t_day (go_date y (m + 1 + 1) 0 0) < t_day t
        then t_day (go_date y (m + 1 + 1) 0 0) else t_day t) (time_of_day t)"
    unfolding add_calendar_months_def Let_def mi_def[symmetric]
    by (cases "rem mi 12 < 0") (simp_all add: y_def m_def)
  ultimately have "add_calendar_months t n =
      go_date y (m + 1) (min (t_day t) (month_len k)) (time_of_day t)"
    by (simp add: min_def)
  then show ?thesis unfolding go_date_def k by (simp add: Let_def k_def)
qed

lemma day_add_calendar_months:
  "day_number (add_calendar_months t n) =
     (let k = month_no (day_number t) + n in month_start k + min (t_day t) (month_len k) - 1)"
  using time_of_day_range[of t] by (simp add: add_calendar_months_eq Let_def)

lemma add_calendar_months_strict:
  assumes "m < n"
  shows "add_calendar_months t m < add_calendar_months t n"
proof (rule day_less)
  let ?k = "month_no (day_number t) + m" and ?l = "month_no (day_number t) + n"
  have "month_start ?k + month_len ?k \<le> month_start ?l"
    using assms by (intro month_start_less) simp
  then show "day_number (add_calendar_months t m) < day_number (add_calendar_months t n)"
    using t_day_range(1)[of t] month_len_bounds[of ?l]
    by (simp add: day_add_calendar_months Let_def min_def split: if_splits)
qed

lemma add_calendar_months_0 [simp]: "add_calendar_months t 0 = t"
  using time_split[of t] t_day_range[of t] by (simp add: add_calendar_months_eq t_day_eq)

function reset_search :: "gotime \<Rightarrow> int \<Rightarrow> gotime \<Rightarrow> int \<Rightarrow> gotime" where
  "reset_search anchor step after n =
     (let nxt = add_calendar_months anchor (n * max 1 step)
      in if after < nxt then nxt else reset_search anchor step after (n + 1))"
  by pat_completeness auto
termination
proof (relation "measure (\<lambda>(anchor, step, after, n).
      nat (after + 1 - add_calendar_months anchor (n * max 1 step)))",
      goal_cases)
  case (2 anchor step after n nxt)
  have "add_calendar_months anchor (n * max 1 step) <
      add_calendar_months anchor ((n + 1) * max 1 step)"
    by (intro add_calendar_months_strict mult_strict_right_mono) auto
  with 2 show ?case by simp
qed simp

declare reset_search.simps [simp del]

definition next_traffic_reset_after :: "gotime \<Rightarrow> int \<Rightarrow> gotime \<Rightarrow> gotime option" where
  "next_traffic_reset_after anchor policy after =
     (if policy = 1 then Some (go_date (t_year after) (t_month after + 1) 1 0)
      else if policy = 2 then
        (let months = (t_year after - t_year anchor) * 12 + (t_month after - t_month anchor)
         in Some (reset_search anchor 1 after (max 1 months)))
      else if policy = 3 then Some (go_date (t_year after + 1) 1 1 0)
      else if policy = 4 then
        Some (reset_search anchor 12 after (max 1 (t_year after - t_year anchor)))
      else None)"

definition next_traffic_reset :: "gotime \<Rightarrow> int \<Rightarrow> gotime option" where
  "next_traffic_reset base policy = next_traffic_reset_after base policy base"

definition effective_reset_policy :: "string \<Rightarrow> int \<Rightarrow> int" where
  "effective_reset_policy billing_unit plan_policy =
     (if billing_unit = ''once'' then 5 else plan_policy)"

definition is_perpetual_end :: "gotime \<Rightarrow> bool" where
  "is_perpetual_end t \<longleftrightarrow> \<not> is_zero t \<and> t_year perpetual_end \<le> t_year t"

definition add_billing_period :: "gotime \<Rightarrow> string \<Rightarrow> int \<Rightarrow> gotime result" where
  "add_billing_period base unit val =
     (if val \<le> 0 then Inl ErrCalendar
      else if unit = ''day'' then Inr (add_days base val)
      else if unit = ''month'' then Inr (add_calendar_months base val)
      else if unit = ''year'' then Inr (add_calendar_months base (mul64 val 12))
      else if unit = ''once'' then Inr perpetual_end
      else Inl ErrCalendar)"

section \<open>Facts\<close>

lemma month_no_add_calendar_months:
  "month_no (day_number (add_calendar_months t n)) = month_no (day_number t) + n"
proof (rule month_no_unique)
  let ?k = "month_no (day_number t) + n"
  have d: "day_number (add_calendar_months t n) = month_start ?k + min (t_day t) (month_len ?k) - 1"
    by (simp add: day_add_calendar_months Let_def)
  show "month_start ?k \<le> day_number (add_calendar_months t n)"
    using t_day_range(1)[of t] month_len_bounds(1)[of ?k] unfolding d by simp
  show "day_number (add_calendar_months t n) < month_start (?k + 1)"
    unfolding d month_len_def by simp
qed

lemma t_day_add_calendar_months:
  "t_day (add_calendar_months t n) = min (t_day t) (month_len (month_no (day_number t) + n))"
  unfolding t_day_eq[of "add_calendar_months t n"] month_no_add_calendar_months
  by (simp add: day_add_calendar_months Let_def)

lemma time_of_day_add_calendar_months: "time_of_day (add_calendar_months t n) = time_of_day t"
  using time_of_day_range[of t] by (simp add: add_calendar_months_eq Let_def)

lemma month_no_mono: "t \<le> u \<Longrightarrow> month_no (day_number t) \<le> month_no (day_number u)"
proof (rule ccontr)
  assume "t \<le> u" "\<not> month_no (day_number t) \<le> month_no (day_number u)"
  then have "month_start (month_no (day_number u) + 1) \<le> month_start (month_no (day_number t))"
    by (intro month_start_mono) simp
  then have "day_number u < day_number t"
    using month_no_bounds[of "day_number u"] month_no_bounds[of "day_number t"] by linarith
  with \<open>t \<le> u\<close> show False using day_less[of u t] by simp
qed

lemma month_no_less: "month_no (day_number t) < month_no (day_number u) \<Longrightarrow> t < u"
  using month_no_mono[of u t] by linarith

lemma add_calendar_months_mono: "m \<le> n \<Longrightarrow> add_calendar_months t m \<le> add_calendar_months t n"
  using add_calendar_months_strict[of m n t] by (cases "m = n") auto

lemma add_days_eq: "add_days t n = t + n * nanos_per_day"
  using go_date_roundtrip[of t] by (simp add: add_days_def go_date_def algebra_simps)

text \<open>A billing period of calendar units ends after it starts, unless the count overflows.\<close>

lemma add_billing_period_after:
  assumes "add_billing_period t unit val = Inr e" "unit \<noteq> ''once''" "val * 12 \<le> max64"
  shows "t < e"
proof -
  have "mul64 val 12 = val * 12" if "0 < val"
    using that assms(3) by (intro mul64_exact) (simp add: int64_simps)
  with assms(1,2) show ?thesis
    using add_calendar_months_strict[of 0 _ t]
    by (auto simp: add_billing_period_def add_days_eq nanos_per_day_def split: if_splits)
qed

text \<open>The loop returns the first multiple of the period after \<open>after\<close>, from its start on.\<close>

lemma reset_search_spec:
  assumes "1 \<le> step"
  shows "\<exists>k \<ge> n. reset_search anchor step after n = add_calendar_months anchor (k * step) \<and>
      after < add_calendar_months anchor (k * step) \<and>
      (\<forall>j. n \<le> j \<and> j < k \<longrightarrow> add_calendar_months anchor (j * step) \<le> after)"
  using assms
proof (induction anchor step after n rule: reset_search.induct)
  case (1 anchor step after n)
  have step: "max 1 step = step" using 1 by simp
  show ?case
  proof (cases "after < add_calendar_months anchor (n * step)")
    case True
    then show ?thesis
      by (intro exI[of _ n]) (simp add: reset_search.simps[of anchor step after n] step)
  next
    case False
    with "1.IH" "1.prems" obtain k where k: "n + 1 \<le> k"
      "reset_search anchor step after (n + 1) = add_calendar_months anchor (k * step)"
      "after < add_calendar_months anchor (k * step)"
      "\<forall>j. n + 1 \<le> j \<and> j < k \<longrightarrow> add_calendar_months anchor (j * step) \<le> after"
      using step by auto
    have "\<forall>j. n \<le> j \<and> j < k \<longrightarrow> add_calendar_months anchor (j * step) \<le> after"
      using k(4) False by (metis add1_zle_eq linorder_not_less order_le_less)
    with k False step show ?thesis
      by (intro exI[of _ k]) (simp add: reset_search.simps[of anchor step after n])
  qed
qed

lemma t_year_month_no: "t_year t = month_no (day_number t) div 12"
  using t_month_no[of t] t_month_range[of t] by linarith

text \<open>
  The anniversaries of \<open>anchor\<close>, one every \<open>step\<close> months; \<open>is_next\<close> says which instant of a
  schedule comes next.
\<close>

definition anniversaries :: "gotime \<Rightarrow> int \<Rightarrow> gotime set" where
  "anniversaries anchor step = {add_calendar_months anchor (k * step) | k. 1 \<le> k}"

definition month_starts :: "gotime set" where
  "month_starts = {month_start k * nanos_per_day | k. True}"

definition year_starts :: "gotime set" where
  "year_starts = {month_start (12 * y) * nanos_per_day | y. True}"

definition is_next :: "gotime set \<Rightarrow> gotime \<Rightarrow> gotime \<Rightarrow> bool" where
  "is_next S c x \<longleftrightarrow> x \<in> S \<and> c < x \<and> (\<forall>y \<in> S. c < y \<longrightarrow> x \<le> y)"

lemma is_next_stable: "is_next S c x \<Longrightarrow> c \<le> d \<Longrightarrow> d < x \<Longrightarrow> is_next S d y \<Longrightarrow> y = x"
  unfolding is_next_def by (meson order_le_less_trans order_antisym)

lemma reset_search_next:
  assumes step: "1 \<le> step" and "1 \<le> n"
    and before: "\<And>j. 1 \<le> j \<Longrightarrow> j < n \<Longrightarrow> add_calendar_months anchor (j * step) \<le> after"
  shows "is_next (anniversaries anchor step) after (reset_search anchor step after n)"
proof -
  obtain k where k: "n \<le> k" "reset_search anchor step after n = add_calendar_months anchor (k * step)"
    "after < add_calendar_months anchor (k * step)"
    "\<And>j. n \<le> j \<Longrightarrow> j < k \<Longrightarrow> add_calendar_months anchor (j * step) \<le> after"
    using reset_search_spec[OF step] by blast
  have "add_calendar_months anchor (k * step) \<le> add_calendar_months anchor (j * step)"
    if "1 \<le> j" "after < add_calendar_months anchor (j * step)" for j
  proof -
    have "k \<le> j"
      using that before[of j] k(4)[of j] by (cases "j < n"; cases "j < k") auto
    then show ?thesis using step by (intro add_calendar_months_mono mult_right_mono) auto
  qed
  with k(1-3) \<open>1 \<le> n\<close> show ?thesis unfolding is_next_def anniversaries_def by force
qed

lemma month_start_after: "c < month_start k * nanos_per_day \<longleftrightarrow> month_no (day_number c) < k"
proof -
  have "c < month_start k * nanos_per_day \<longleftrightarrow> day_number c < month_start k"
    by (simp add: day_number_def nanos_per_day_def) linarith
  also have "\<dots> \<longleftrightarrow> month_no (day_number c) < k"
    using month_no_bounds[of "day_number c"] month_start_mono[of "month_no (day_number c) + 1" k]
      month_start_mono[of k "month_no (day_number c)"] by linarith
  finally show ?thesis .
qed

lemma month_start_times_mono: "k \<le> l \<Longrightarrow> month_start k * nanos_per_day \<le> month_start l * nanos_per_day"
  by (simp add: month_start_mono nanos_per_day_def)

lemma next_month_start: "is_next month_starts c (month_start (month_no (day_number c) + 1) * nanos_per_day)"
  unfolding is_next_def month_starts_def
  by (auto simp: month_start_after intro!: month_start_times_mono)

lemma next_year_start: "is_next year_starts c (month_start (12 * (t_year c + 1)) * nanos_per_day)"
proof -
  have "month_no (day_number c) < 12 * (t_year c + 1)"
    using div_bounds(2)[of 12 "month_no (day_number c)"] by (simp add: t_year_month_no)
  moreover have "12 * (t_year c + 1) \<le> 12 * y" if "month_no (day_number c) < 12 * y" for y
  proof -
    have "12 * (month_no (day_number c) div 12) < 12 * y"
      using that div_bounds(1)[of 12 "month_no (day_number c)"] by simp
    then have "month_no (day_number c) div 12 < y" by simp
    then show ?thesis by (simp add: t_year_month_no)
  qed
  ultimately show ?thesis
    unfolding is_next_def year_starts_def
    by (fastforce simp: month_start_after intro!: month_start_times_mono)
qed

text \<open>Which instants a policy resets the traffic at.\<close>

definition reset_instants :: "gotime \<Rightarrow> int \<Rightarrow> gotime set" where
  "reset_instants anchor policy =
     (if policy = 1 then month_starts else if policy = 2 then anniversaries anchor 1
      else if policy = 3 then year_starts else if policy = 4 then anniversaries anchor 12 else {})"

lemma anniversary_before:
  assumes "month_no (day_number anchor) + k < month_no (day_number after)"
  shows "add_calendar_months anchor k \<le> after"
  using assms month_no_less[of "add_calendar_months anchor k" after]
  by (simp add: month_no_add_calendar_months)

lemma next_traffic_reset_is_next:
  "(case next_traffic_reset_after anchor policy c of
      None \<Rightarrow> policy \<notin> {1, 2, 3, 4}
    | Some x \<Rightarrow> is_next (reset_instants anchor policy) c x)"
proof -
  have "t_month c - t_month anchor + (t_year c - t_year anchor) * 12 =
      month_no (day_number c) - month_no (day_number anchor)"
    using t_month_no[of c] t_month_no[of anchor] by (simp add: algebra_simps)
  then have p2: "is_next (anniversaries anchor 1) c
      (reset_search anchor 1 c (max 1 ((t_year c - t_year anchor) * 12 + (t_month c - t_month anchor))))"
    by (intro reset_search_next) (auto intro!: anniversary_before)
  have p4: "is_next (anniversaries anchor 12) c (reset_search anchor 12 c (max 1 (t_year c - t_year anchor)))"
  proof (intro reset_search_next)
    fix j assume "j < max 1 (t_year c - t_year anchor)" "1 \<le> j"
    then have "j * 12 + month_no (day_number anchor) < month_no (day_number c)"
      using t_month_no[of c] t_month_no[of anchor] t_month_range[of c] t_month_range[of anchor]
      by (simp add: max_def split: if_splits)
    then show "add_calendar_months anchor (j * 12) \<le> c"
      by (intro anniversary_before) simp
  qed simp_all
  have p1: "go_date (t_year c) (t_month c + 1) 1 0 =
      month_start (month_no (day_number c) + 1) * nanos_per_day"
    using t_month_no[of c] by (simp add: go_date_def algebra_simps)
  have p3: "go_date (t_year c + 1) 1 1 0 = month_start (12 * (t_year c + 1)) * nanos_per_day"
    by (simp add: go_date_def algebra_simps)
  note next_traffic_reset_after_def [simp] reset_instants_def [simp] Let_def [simp]
  consider "policy = 1" | "policy = 2" | "policy = 3" | "policy = 4" | "policy \<notin> {1, 2, 3, 4}"
    by blast
  then show ?thesis
  proof cases
    case 1 then show ?thesis using next_month_start[of c] p1 by simp
  next
    case 2 then show ?thesis using p2 by simp
  next
    case 3 then show ?thesis using next_year_start[of c] p3 by simp
  next
    case 4 then show ?thesis using p4 by simp
  next
    case 5 then show ?thesis by simp
  qed
qed

lemma next_reset_is_next:
  "next_traffic_reset_after anchor policy c = Some x \<Longrightarrow> is_next (reset_instants anchor policy) c x"
  using next_traffic_reset_is_next[where anchor = anchor and policy = policy and c = c] by simp

lemma next_reset_None_iff: "next_traffic_reset_after anchor policy c = None \<longleftrightarrow> policy \<notin> {1, 2, 3, 4}"
  by (simp add: next_traffic_reset_after_def Let_def)

section \<open>Reset schedules as an interface\<close>

text \<open>
  What the valuation of paid time needs from a reset schedule: the next reset lies strictly
  after the asked instant, and asking again before it gives the same answer.
\<close>

locale reset_schedule =
  fixes nxt :: "gotime \<Rightarrow> gotime option"
  assumes nxt_after: "nxt c = Some x \<Longrightarrow> c < x"
    and nxt_stable: "nxt c = Some x \<Longrightarrow> c \<le> d \<Longrightarrow> d < x \<Longrightarrow> nxt d = Some x"
begin

lemma nxt_mono:
  assumes "nxt c = Some x" "c \<le> d" "nxt d = Some y"
  shows "x \<le> y"
proof (cases "d < x")
  case True
  from nxt_stable[OF assms(1,2) this] assms(3) show ?thesis by simp
next
  case False
  with nxt_after[OF assms(3)] show ?thesis by simp
qed

end

interpretation calendar_resets: reset_schedule "next_traffic_reset_after anchor policy" for anchor policy
proof
  show "c < x" if "next_traffic_reset_after anchor policy c = Some x" for c x
    using that next_reset_is_next[of anchor policy c x] by (simp add: is_next_def)
  show "next_traffic_reset_after anchor policy d = Some x"
    if "next_traffic_reset_after anchor policy c = Some x" "c \<le> d" "d < x" for c d x
  proof -
    have "next_traffic_reset_after anchor policy d \<noteq> None"
      using that(1) by (metis next_reset_None_iff option.distinct(1))
    then obtain y where y: "next_traffic_reset_after anchor policy d = Some y" by auto
    from is_next_stable[OF next_reset_is_next[OF that(1)] that(2,3) next_reset_is_next[OF y]] y
    show ?thesis by simp
  qed
qed

section \<open>Properties\<close>

text \<open>
  The traffic reset that \<open>NextTrafficResetAfter\<close> returns is the first instant of the policy's
  schedule strictly after the asked one: the next month or year start, or the next monthly or yearly
  anniversary of the anchor. The other policies have no reset, and only they.
\<close>

theorem next_traffic_reset_is_first:
  "(case next_traffic_reset_after anchor policy after of
      None \<Rightarrow> policy \<notin> {1, 2, 3, 4}
    | Some x \<Rightarrow> is_next (reset_instants anchor policy) after x)"
  by (rule next_traffic_reset_is_next)

text \<open>
  Adding calendar months moves exactly that many months, keeps the time of day, and keeps the day
  of the month unless the target month is shorter, in which case it is that month's last day.
\<close>

theorem add_calendar_months_clamps:
  "month_no (day_number (add_calendar_months t n)) = month_no (day_number t) + n
    \<and> t_day (add_calendar_months t n) = min (t_day t) (month_len (month_no (day_number t) + n))
    \<and> time_of_day (add_calendar_months t n) = time_of_day t"
  by (simp add: month_no_add_calendar_months t_day_add_calendar_months time_of_day_add_calendar_months)

end
