(* ===== verification/ValueAllocation.thy ===== *)
theory ValueAllocation
  imports Calendar
begin

text \<open>
  \<^verbatim>\<open>commerce/value_allocation.go\<close> and the two proportions of \<^verbatim>\<open>commerce/order_quote.go\<close>:
  rounding of cumulative shares, the split of paid money over paid units and quota cycles, and the
  remaining value of a basis under elapsed time and used quota.
\<close>

section \<open>Rounded shares\<close>

text \<open>Products use \<open>math/big\<close>; only the final \<open>Int64()\<close> is 64 bits wide.\<close>

definition cumulative_half_up :: "int \<Rightarrow> int \<Rightarrow> int \<Rightarrow> int" where
  "cumulative_half_up amount num den =
     (if num \<le> 0 then 0
      else if den \<le> num then amount
      else wrap64 (quo (amount * num * 2 + den) (den * 2)))"

definition proportional_value :: "int \<Rightarrow> int \<Rightarrow> int \<Rightarrow> int" where
  "proportional_value val remaining whole =
     (if remaining \<le> 0 \<or> whole \<le> 0 then 0
      else if whole \<le> remaining then val
      else wrap64 (quo (val * remaining + quo whole 2) whole))"

definition exact_time_span :: "gotime \<Rightarrow> gotime \<Rightarrow> int" where
  "exact_time_span t u = unix u - unix t"

definition remaining_credit :: "int \<Rightarrow> gotime \<Rightarrow> gotime \<Rightarrow> gotime \<Rightarrow> int \<Rightarrow> int \<Rightarrow> int \<times> int" where
  "remaining_credit val start stop now quota used =
     (if val \<le> 0 then (0, 0)
      else (if start < stop
              then proportional_value val (sub64 (unix stop) (unix now)) (sub64 (unix stop) (unix start))
              else 0,
            if 0 < quota then proportional_value val (sub64 quota used) quota else 0))"

text \<open>
  What the allocators rely on: shares grow with the numerator from nothing to the whole amount.
\<close>

locale cumulative_share =
  fixes share :: "int \<Rightarrow> int \<Rightarrow> int \<Rightarrow> int"
  assumes share_none: "num \<le> 0 \<Longrightarrow> share amount num den = 0"
    and share_all: "0 < num \<Longrightarrow> den \<le> num \<Longrightarrow> share amount num den = amount"
    and share_mono: "0 \<le> amount \<Longrightarrow> amount \<le> max64 \<Longrightarrow> m \<le> n \<Longrightarrow> share amount m den \<le> share amount n den"
begin

lemma share_nonneg: "0 \<le> amount \<Longrightarrow> amount \<le> max64 \<Longrightarrow> 0 \<le> share amount n den"
  using share_mono[of amount "min 0 n" n den] share_none[of "min 0 n" amount den] by simp

lemma share_le: "0 \<le> amount \<Longrightarrow> amount \<le> max64 \<Longrightarrow> share amount n den \<le> amount"
  using share_mono[of amount n "max 1 (max n den)" den] share_all[of "max 1 (max n den)" den amount]
  by simp

lemma share_sub64: "0 \<le> amount \<Longrightarrow> amount \<le> max64 \<Longrightarrow> m \<le> n \<Longrightarrow>
    sub64 (share amount n den) (share amount m den) = share amount n den - share amount m den"
  using share_mono[of amount m n den] share_nonneg[of amount m den] share_le[of amount n den]
  by (intro sub64_nonneg) auto

end

lemma half_up_quotient:
  assumes "0 \<le> amount" "amount \<le> max64" "0 < num" "num < den"
  shows "cumulative_half_up amount num den = (amount * num * 2 + den) div (den * 2)"
    "0 \<le> cumulative_half_up amount num den" "cumulative_half_up amount num den \<le> amount"
proof -
  let ?q = "(amount * num * 2 + den) div (den * 2)"
  have "0 \<le> amount * num" using assms by simp
  moreover have "amount * num \<le> amount * den" using assms by (intro mult_left_mono) auto
  ultimately have "0 \<le> ?q" "?q \<le> (amount * den * 2 + den) div (den * 2)"
    using assms by (auto intro!: zdiv_mono1 simp: pos_imp_zdiv_nonneg_iff)
  moreover have "(amount * den * 2 + den) div (den * 2) = amount"
    using assms by (intro int_div_pos_eq[of _ _ _ den]) auto
  moreover have "quo (amount * num * 2 + den) (den * 2) = ?q"
    using assms \<open>0 \<le> amount * num\<close> by (intro quo_nonneg) auto
  moreover have "in64 ?q" using calculation(1-3) assms(2) by (intro in64_nonneg) auto
  ultimately show "cumulative_half_up amount num den = ?q"
    "0 \<le> cumulative_half_up amount num den" "cumulative_half_up amount num den \<le> amount"
    using assms(3,4) by (simp_all add: cumulative_half_up_def)
qed

interpretation half_up: cumulative_share cumulative_half_up
proof
  fix amount m n den :: int
  show "m \<le> 0 \<Longrightarrow> cumulative_half_up amount m den = 0"
    and "0 < m \<Longrightarrow> den \<le> m \<Longrightarrow> cumulative_half_up amount m den = amount"
    by (simp_all add: cumulative_half_up_def)
  assume a: "0 \<le> amount" "amount \<le> max64" "m \<le> n"
  consider "m \<le> 0" | "den \<le> n" "0 < m" | "0 < m" "n < den" by linarith
  then show "cumulative_half_up amount m den \<le> cumulative_half_up amount n den"
  proof cases
    case 1
    then show ?thesis using a half_up_quotient(2)[of amount n den] by (auto simp: cumulative_half_up_def)
  next
    case 2
    then show ?thesis using a half_up_quotient(3)[of amount m den] by (auto simp: cumulative_half_up_def)
  next
    case 3
    then have "(amount * m * 2 + den) div (den * 2) \<le> (amount * n * 2 + den) div (den * 2)"
      using a by (intro zdiv_mono1) (auto intro!: mult_left_mono)
    with 3 a show ?thesis by (simp add: half_up_quotient(1))
  qed
qed

text \<open>The order quote and the value allocator round a proportion to the same minor unit.\<close>

lemma proportional_value_half_up:
  assumes "0 \<le> val" "val \<le> max64" "0 < whole"
  shows "proportional_value val remaining whole = cumulative_half_up val remaining whole"
proof (cases "0 < remaining \<and> remaining < whole")
  case True
  let ?x = "val * remaining"
  have x: "0 \<le> ?x" using assms True by simp
  have "(?x * 2 + whole) div (whole * 2) = (?x * 2 + whole) div 2 div whole"
    using zdiv_zmult2_eq[of whole "?x * 2 + whole" 2] assms(3) by (simp add: mult.commute)
  also have "(?x * 2 + whole) div 2 = ?x + whole div 2" by simp
  finally have eq: "(?x + whole div 2) div whole = (?x * 2 + whole) div (whole * 2)" by simp
  have "in64 ((?x * 2 + whole) div (whole * 2))"
    using half_up_quotient[of val remaining whole] assms True by (intro in64_nonneg) auto
  with eq x assms True show ?thesis
    by (simp add: proportional_value_def half_up_quotient(1))
next
  case False
  with assms show ?thesis by (auto simp: proportional_value_def cumulative_half_up_def)
qed

section \<open>Paid periods and quota cycles\<close>

record paid_period =
  pp_start :: gotime
  pp_end :: gotime
  pp_amount :: int

record value_cycle =
  vc_start :: gotime
  vc_end :: gotime
  vc_amount :: int

definition max_value_periods :: nat where "max_value_periods = 4096"

fun uniform_units :: "gotime \<Rightarrow> string \<Rightarrow> int \<Rightarrow> int \<Rightarrow> int list \<Rightarrow> gotime \<Rightarrow> int \<Rightarrow> paid_period list result" where
  "uniform_units start step units whole [] cursor previous = Inr []"
| "uniform_units start step units whole (i # is) cursor previous =
     try_bind (add_billing_period start step i) (\<lambda>cut.
       let cumulative = cumulative_half_up whole i units in
       try_bind (uniform_units start step units whole is cut cumulative) (\<lambda>rest.
         Inr (\<lparr>pp_start = cursor, pp_end = cut, pp_amount = sub64 cumulative previous\<rparr> # rest)))"

definition uniform_paid_periods ::
  "gotime \<Rightarrow> gotime \<Rightarrow> string \<Rightarrow> int \<Rightarrow> int \<Rightarrow> paid_period list result" where
  "uniform_paid_periods start stop unit count whole =
     (if is_zero start \<or> \<not> start < stop \<or> whole < 0 \<or> count < 1 then Inl ErrValueEvidence
      else if unit = ''year'' \<and> count > int max_value_periods div 12 then Inl ErrValueEvidence
      else if unit \<noteq> ''year'' \<and> unit \<noteq> ''month'' \<and> unit \<noteq> ''day'' then Inl ErrValueEvidence
      else
        let units = (if unit = ''year'' then count * 12 else count);
            step = (if unit = ''day'' then ''day'' else ''month'')
        in if units > int max_value_periods then Inl ErrValueEvidence
           else case add_billing_period start unit count of
               Inl e \<Rightarrow> Inl ErrValueEvidence
             | Inr expected \<Rightarrow>
                 if expected \<noteq> stop then Inl ErrValueEvidence
                 else uniform_units start step units whole [1..units] start 0)"

text \<open>
  \<open>walkValueAllocations\<close>: the cycles before the period are skipped for good, then every cycle
  that starts before the period's end is visited with its rounded share.
\<close>

fun skip_cycles :: "gotime \<Rightarrow> nat \<Rightarrow> value_cycle list \<Rightarrow> nat \<times> value_cycle list" where
  "skip_cycles start i [] = (i, [])"
| "skip_cycles start i (c # cs) =
     (if \<not> start < vc_end c then skip_cycles start (Suc i) cs else (i, c # cs))"

definition allocation_delta :: "paid_period \<Rightarrow> gotime \<Rightarrow> gotime \<Rightarrow> int" where
  "allocation_delta p left right =
     (let duration = exact_time_span (pp_start p) (pp_end p)
      in sub64 (cumulative_half_up (pp_amount p) (exact_time_span (pp_start p) right) duration)
           (cumulative_half_up (pp_amount p) (exact_time_span (pp_start p) left) duration))"

type_synonym 's visitor = "nat \<Rightarrow> nat \<Rightarrow> int \<Rightarrow> 's \<Rightarrow> 's result"

fun walk_period :: "'s visitor \<Rightarrow> nat \<Rightarrow> paid_period \<Rightarrow> nat \<Rightarrow> value_cycle list \<Rightarrow> 's \<Rightarrow> 's result" where
  "walk_period visit n p i [] st = Inr st"
| "walk_period visit n p i (c # cs) st =
     (if \<not> vc_start c < pp_end p then Inr st
      else
        let left = (if vc_start c < pp_start p then pp_start p else vc_start c);
            right = (if pp_end p < vc_end c then pp_end p else vc_end c)
        in if \<not> left < right then walk_period visit n p (Suc i) cs st
           else if allocation_delta p left right < 0 then Inl ErrValueEvidence
           else try_bind (visit n i (allocation_delta p left right) st)
                  (walk_period visit n p (Suc i) cs))"

fun walk_periods :: "'s visitor \<Rightarrow> nat \<Rightarrow> paid_period list \<Rightarrow> nat \<Rightarrow> value_cycle list \<Rightarrow> 's \<Rightarrow> 's result" where
  "walk_periods visit n [] i cs st = Inr st"
| "walk_periods visit n (p # ps) i cs st =
     (case skip_cycles (pp_start p) i cs of (i', cs') \<Rightarrow>
        try_bind (walk_period visit n p i' cs' st) (walk_periods visit (Suc n) ps i' cs'))"

definition walk_value_allocations :: "'s visitor \<Rightarrow> paid_period list \<Rightarrow> value_cycle list \<Rightarrow> 's \<Rightarrow> 's result" where
  "walk_value_allocations visit ps cs st = walk_periods visit 0 ps 0 cs st"

text \<open>
  \<open>SplitPaidValue\<close>: validation of the paid units, the loop that cuts the cycles (\<open>room\<close> is what
  is left of \<open>maxValuePeriods\<close>), then the allocation.
\<close>

fun check_paid_periods :: "paid_period option \<Rightarrow> int \<Rightarrow> paid_period list \<Rightarrow> int result" where
  "check_paid_periods prev paid [] = Inr paid"
| "check_paid_periods prev paid (p # ps) =
     (if pp_amount p < 0 \<or> \<not> pp_start p < pp_end p \<or> unix (pp_end p) \<le> unix (pp_start p)
         \<or> (case prev of None \<Rightarrow> False | Some q \<Rightarrow> pp_start p \<noteq> pp_end q)
         \<or> paid > max64 - pp_amount p
      then Inl ErrValueEvidence
      else check_paid_periods (Some p) (add64 paid (pp_amount p)) ps)"

fun split_cycles :: "(gotime \<Rightarrow> gotime option) \<Rightarrow> nat \<Rightarrow> gotime \<Rightarrow> gotime \<Rightarrow> value_cycle list result" where
  "split_cycles nxt 0 cursor stop = (if cursor < stop then Inl ErrValueEvidence else Inr [])"
| "split_cycles nxt (Suc room) cursor stop =
     (if \<not> cursor < stop then Inr []
      else
        let cut = (case nxt cursor of None \<Rightarrow> stop | Some x \<Rightarrow> if x < stop then x else stop)
        in if \<not> cursor < cut then Inl ErrValueEvidence
           else try_bind (split_cycles nxt room cut stop) (\<lambda>rest.
                  Inr (\<lparr>vc_start = cursor, vc_end = cut, vc_amount = 0\<rparr> # rest)))"

definition allocate_visit :: "(value_cycle list \<times> int) visitor" where
  "allocate_visit n i delta st =
     (case st of (cycles, allocated) \<Rightarrow>
        if vc_amount (cycles ! i) > max64 - delta \<or> allocated > max64 - delta
        then Inl ErrValueEvidence
        else Inr (cycles[i := (cycles ! i)\<lparr>vc_amount := add64 (vc_amount (cycles ! i)) delta\<rparr>],
                  add64 allocated delta))"

definition split_paid_value :: "paid_period list \<Rightarrow> gotime \<Rightarrow> int \<Rightarrow> value_cycle list result" where
  "split_paid_value periods anchor reset_policy =
     (if periods = [] \<or> length periods > max_value_periods \<or> is_zero anchor
         \<or> reset_policy < 0 \<or> reset_policy > 5
      then Inl ErrValueEvidence
      else
        let start = pp_start (hd periods); stop = pp_end (last periods) in
        if start < anchor \<or> is_zero start \<or> \<not> start < stop then Inl ErrValueEvidence
        else
          try_bind (check_paid_periods None 0 periods) (\<lambda>paid.
          try_bind (split_cycles (next_traffic_reset_after anchor reset_policy)
                      max_value_periods start stop) (\<lambda>cycles.
          try_bind (walk_value_allocations allocate_visit periods cycles (cycles, 0))
            (\<lambda>(cycles, allocated).
              if allocated \<noteq> paid then Inl ErrValueEvidence else Inr cycles))))"

section \<open>Remaining value\<close>

record value_basis =
  vb_at :: gotime
  vb_end :: gotime
  vb_amount :: int
  vb_used :: int
  vb_quota :: int

definition time_remaining :: "value_basis \<Rightarrow> gotime \<Rightarrow> int result" where
  "time_remaining b now =
     (if is_zero (vb_at b) \<or> \<not> vb_at b < vb_end b \<or> unix (vb_end b) \<le> unix (vb_at b)
         \<or> vb_amount b < 0 \<or> now < vb_at b
      then Inl ErrValueEvidence
      else if \<not> now < vb_end b then Inr 0
      else Inr (cumulative_half_up (vb_amount b) (exact_time_span now (vb_end b))
                  (exact_time_span (vb_at b) (vb_end b))))"

definition remaining_value :: "value_basis \<Rightarrow> gotime \<Rightarrow> int \<Rightarrow> int result" where
  "remaining_value b now cumulative_used =
     (if vb_used b < 0 \<or> vb_quota b \<le> 0 \<or> cumulative_used < vb_used b then Inl ErrValueEvidence
      else try_bind (time_remaining b now) (\<lambda>time_value.
        let used = sub64 cumulative_used (vb_used b);
            flow_value = proportional_value (vb_amount b)
                           (sub64 (vb_quota b) (min used (vb_quota b))) (vb_quota b)
        in Inr (min time_value flow_value)))"

definition paid_reset :: "value_basis \<Rightarrow> gotime \<Rightarrow> int \<Rightarrow> int \<Rightarrow> int \<Rightarrow> (value_basis \<times> int) result" where
  "paid_reset b now cumulative_used actual_paid restored_quota =
     (case remaining_value b now cumulative_used of
        Inl e \<Rightarrow> Inl ErrValueEvidence
      | Inr before \<Rightarrow>
          if (\<not> now < vb_end b \<or> unix (vb_end b) \<le> unix now) \<or> actual_paid < 0
             \<or> restored_quota \<le> 0 \<or> before > max64 - actual_paid
          then Inl ErrValueEvidence
          else Inr (\<lparr>vb_at = now, vb_end = vb_end b, vb_amount = add64 before actual_paid,
                     vb_used = cumulative_used, vb_quota = restored_quota\<rparr>, before))"

section \<open>Partitions of time\<close>

text \<open>A list of adjacent, nonempty intervals from \<open>a\<close> to \<open>b\<close>.\<close>

fun chain :: "gotime \<Rightarrow> (gotime \<times> gotime) list \<Rightarrow> gotime \<Rightarrow> bool" where
  "chain a [] b \<longleftrightarrow> a = b"
| "chain a ((s, e) # xs) b \<longleftrightarrow> s = a \<and> s < e \<and> chain e xs b"

abbreviation periods_chain :: "gotime \<Rightarrow> paid_period list \<Rightarrow> gotime \<Rightarrow> bool" where
  "periods_chain a ps b \<equiv> chain a (map (\<lambda>p. (pp_start p, pp_end p)) ps) b"

abbreviation cycles_chain :: "gotime \<Rightarrow> value_cycle list \<Rightarrow> gotime \<Rightarrow> bool" where
  "cycles_chain a cs b \<equiv> chain a (map (\<lambda>c. (vc_start c, vc_end c)) cs) b"

lemma chain_le: "chain a xs b \<Longrightarrow> a \<le> b"
  by (induction a xs b rule: chain.induct) auto

lemma chain_bounds: "chain a xs b \<Longrightarrow> (s, e) \<in> set xs \<Longrightarrow> a \<le> s \<and> s < e \<and> e \<le> b"
  by (induction a xs b rule: chain.induct) (auto dest: chain_le)

lemma chain_nonempty: "chain a xs b \<Longrightarrow> xs \<noteq> [] \<Longrightarrow> a < b"
  by (cases xs) (force dest: chain_le)+

lemma chain_last: "chain a xs b \<Longrightarrow> xs \<noteq> [] \<Longrightarrow> snd (last xs) = b \<and> fst (hd xs) = a"
  by (induction a xs b rule: chain.induct) (auto split: if_splits)

lemma cycles_chain_bounds:
  "cycles_chain a cs b \<Longrightarrow> c \<in> set cs \<Longrightarrow> a \<le> vc_start c \<and> vc_start c < vc_end c \<and> vc_end c \<le> b"
  by (rule chain_bounds[of a _ b]) auto

lemma periods_chain_bounds:
  "periods_chain a ps b \<Longrightarrow> p \<in> set ps \<Longrightarrow> a \<le> pp_start p \<and> pp_start p < pp_end p \<and> pp_end p \<le> b"
  by (rule chain_bounds[of a _ b]) auto

section \<open>Shares of a period\<close>

text \<open>The paid amount of \<open>p\<close> is in range, and it lasts at least one second.\<close>

definition wf_period :: "paid_period \<Rightarrow> bool" where
  "wf_period p \<longleftrightarrow> 0 \<le> pp_amount p \<and> pp_amount p \<le> max64 \<and> unix (pp_start p) < unix (pp_end p)"

definition share_upto :: "paid_period \<Rightarrow> gotime \<Rightarrow> int" where
  "share_upto p t = cumulative_half_up (pp_amount p) (unix t - unix (pp_start p))
                      (unix (pp_end p) - unix (pp_start p))"

definition clip :: "paid_period \<Rightarrow> gotime \<Rightarrow> gotime" where
  "clip p t = max (pp_start p) (min (pp_end p) t)"

definition cycle_share :: "paid_period \<Rightarrow> value_cycle \<Rightarrow> int" where
  "cycle_share p c = share_upto p (clip p (vc_end c)) - share_upto p (clip p (vc_start c))"

lemma share_upto_mono: "wf_period p \<Longrightarrow> t \<le> u \<Longrightarrow> share_upto p t \<le> share_upto p u"
  using unix_mono[of t u] by (simp add: share_upto_def wf_period_def half_up.share_mono)

lemma share_upto_ends [simp]:
  "share_upto p (pp_start p) = 0"
  "wf_period p \<Longrightarrow> share_upto p (pp_end p) = pp_amount p"
  by (simp_all add: share_upto_def wf_period_def half_up.share_none half_up.share_all)

lemma wf_period_less: "wf_period p \<Longrightarrow> pp_start p < pp_end p"
  by (simp add: wf_period_def unix_less)

lemma clip_mono: "t \<le> u \<Longrightarrow> clip p t \<le> clip p u"
  by (auto simp: clip_def)

lemma cycle_share_nonneg: "wf_period p \<Longrightarrow> vc_start c \<le> vc_end c \<Longrightarrow> 0 \<le> cycle_share p c"
  by (simp add: cycle_share_def share_upto_mono clip_mono)

lemma cycle_share_outside:
  assumes "wf_period p" "vc_start c < vc_end c" "vc_end c \<le> pp_start p \<or> pp_end p \<le> vc_start c"
  shows "cycle_share p c = 0"
proof -
  from assms(2,3) have "clip p (vc_end c) = clip p (vc_start c)"
    using wf_period_less[OF assms(1)] by (auto simp: clip_def max_def min_def)
  then show ?thesis by (simp add: cycle_share_def)
qed

lemma allocation_delta_eq:
  assumes "wf_period p" "t \<le> u"
  shows "allocation_delta p t u = share_upto p u - share_upto p t"
  using assms unix_mono[of t u]
  by (simp add: allocation_delta_def exact_time_span_def Let_def share_upto_def wf_period_def
      half_up.share_sub64)

lemma sum_cycle_share:
  "cycles_chain a cs b \<Longrightarrow>
    sum_list (map (cycle_share p) cs) = share_upto p (clip p b) - share_upto p (clip p a)"
  by (induction cs arbitrary: a) (auto simp: cycle_share_def)

text \<open>Every minor unit of a period covered by the cycles is shared out.\<close>

lemma sum_cycle_share_covered:
  assumes "cycles_chain a cs b" "wf_period p" "a \<le> pp_start p" "pp_end p \<le> b"
  shows "sum_list (map (cycle_share p) cs) = pp_amount p"
proof -
  have "clip p b = pp_end p" "clip p a = pp_start p"
    using assms(3,4) wf_period_less[OF assms(2)] by (auto simp: clip_def)
  with assms(2) show ?thesis by (simp add: sum_cycle_share[OF assms(1)])
qed

section \<open>Walking periods and cycles\<close>

text \<open>
  The contract of a visitor of \<open>walkValueAllocations\<close>: \<open>room st r\<close> says that the state can take
  \<open>r\<close> more minor units, and \<open>gauge\<close> is any total of the state that grows by the delta of the pairs
  of a period and a cycle it counts, those of \<open>weight\<close> 1. From it the whole walk succeeds and its
  effect on every gauge is the sum of the shares.
\<close>

locale allocation_visitor =
  fixes visit :: "'s visitor"
    and rows cols :: nat
    and room :: "'s \<Rightarrow> int \<Rightarrow> bool"
    and gauge :: "'s \<Rightarrow> int"
    and weight :: "nat \<Rightarrow> nat \<Rightarrow> int"
  assumes visit_ok: "n < rows \<Longrightarrow> i < cols \<Longrightarrow> room st r \<Longrightarrow> 0 \<le> d \<Longrightarrow> d \<le> r \<Longrightarrow>
    \<exists>st'. visit n i d st = Inr st' \<and> room st' (r - d) \<and> gauge st' = gauge st + weight n i * d"

lemma shares_beyond:
  assumes "wf_period p" "cycles_chain x cs y" "pp_end p \<le> x" "c \<in> set cs"
  shows "cycle_share p c = 0"
  using assms(1,3) cycles_chain_bounds[OF assms(2,4)] by (intro cycle_share_outside) auto

definition weighted :: "(nat \<Rightarrow> int) \<Rightarrow> paid_period \<Rightarrow> nat \<Rightarrow> value_cycle list \<Rightarrow> int" where
  "weighted w p i cs = sum_list (map (\<lambda>(k, c). w k * cycle_share p c) (enumerate i cs))"

lemma weighted_simps [simp]:
  "weighted w p i [] = 0"
  "weighted w p i (c # cs) = w i * cycle_share p c + weighted w p (Suc i) cs"
  by (simp_all add: weighted_def)

lemma weighted_zero: "(\<And>c. c \<in> set cs \<Longrightarrow> cycle_share p c = 0) \<Longrightarrow> weighted w p i cs = 0"
  by (induction cs arbitrary: i) auto

lemma weighted_append: "weighted w p i (xs @ ys) = weighted w p i xs + weighted w p (i + length xs) ys"
  by (induction xs arbitrary: i) auto

lemma weighted_one: "weighted (\<lambda>_. 1) p i cs = sum_list (map (cycle_share p) cs)"
  by (induction cs arbitrary: i) auto

lemma sum_shares_zero:
  "(\<And>c. c \<in> set cs \<Longrightarrow> cycle_share p c = 0) \<Longrightarrow> sum_list (map (cycle_share p) cs) = 0"
  by (induction cs) auto

lemma visited_share:
  assumes "wf_period p" "vc_start c < vc_end c" "vc_start c < pp_end p"
  defines "left \<equiv> if vc_start c < pp_start p then pp_start p else vc_start c"
    and "right \<equiv> if pp_end p < vc_end c then pp_end p else vc_end c"
  shows "\<not> left < right \<Longrightarrow> cycle_share p c = 0"
    and "left < right \<Longrightarrow> allocation_delta p left right = cycle_share p c"
proof -
  note less = wf_period_less[OF assms(1)]
  show "\<not> left < right \<Longrightarrow> cycle_share p c = 0"
    using assms(2,3) less
    by (intro cycle_share_outside[OF assms(1)]) (auto simp: left_def right_def split: if_splits)
  assume lr: "left < right"
  then have "left = clip p (vc_start c)" "right = clip p (vc_end c)"
    using assms(2,3) less by (auto simp: clip_def left_def right_def split: if_splits)
  with allocation_delta_eq[OF assms(1), of left right] lr
  show "allocation_delta p left right = cycle_share p c" by (simp add: cycle_share_def)
qed

context allocation_visitor
begin

lemma walk_period_ok:
  assumes "wf_period p" "cycles_chain x cs y" "n < rows" "i + length cs \<le> cols"
    "room st r" "sum_list (map (cycle_share p) cs) \<le> r"
  shows "\<exists>st'. walk_period visit n p i cs st = Inr st' \<and>
    room st' (r - sum_list (map (cycle_share p) cs)) \<and>
    gauge st' = gauge st + weighted (weight n) p i cs"
  using assms
proof (induction cs arbitrary: i st r x)
  case Nil
  then show ?case by simp
next
  case (Cons c cs)
  note p = \<open>wf_period p\<close>
  from Cons.prems(2) have c: "vc_start c < vc_end c" "cycles_chain (vc_end c) cs y" by auto
  have nonneg: "0 \<le> sum_list (map (cycle_share p) cs)"
    using p cycles_chain_bounds[OF c(2)]
    by (intro sum_list_nonneg_int) (auto intro: cycle_share_nonneg less_imp_le)
  let ?left = "if vc_start c < pp_start p then pp_start p else vc_start c"
  let ?right = "if pp_end p < vc_end c then pp_end p else vc_end c"
  consider "\<not> vc_start c < pp_end p" | "vc_start c < pp_end p" "\<not> ?left < ?right"
    | "vc_start c < pp_end p" "?left < ?right" by blast
  then show ?case
  proof cases
    case 1
    with p c have z: "\<And>d. d \<in> set (c # cs) \<Longrightarrow> cycle_share p d = 0"
      using shares_beyond[OF p c(2)] cycle_share_outside[OF p c(1)] by auto
    have "weighted (weight n) p i (c # cs) = 0" "sum_list (map (cycle_share p) (c # cs)) = 0"
      using z by (blast intro: weighted_zero sum_shares_zero)+
    with 1 Cons.prems(5) show ?thesis by (simp del: weighted_simps list.map sum_list.Cons)
  next
    case 2
    then have z: "cycle_share p c = 0" using visited_share(1)[OF p c(1)] by simp
    from Cons.IH[OF p c(2) Cons.prems(3) _ Cons.prems(5), of "Suc i"] Cons.prems(4,6) 2 z
    show ?thesis by (simp add: Let_def)
  next
    case 3
    then have d: "allocation_delta p ?left ?right = cycle_share p c"
      using visited_share(2)[OF p c(1)] by simp
    have share: "0 \<le> cycle_share p c" "cycle_share p c \<le> r"
      using cycle_share_nonneg[OF p, of c] c(1) nonneg Cons.prems(6) by auto
    from visit_ok[OF Cons.prems(3) _ Cons.prems(5) share, of i] Cons.prems(4)
    obtain st' where st': "visit n i (cycle_share p c) st = Inr st'" "room st' (r - cycle_share p c)"
      "gauge st' = gauge st + weight n i * cycle_share p c" by auto
    from Cons.IH[OF p c(2) Cons.prems(3) _ st'(2), of "Suc i"] Cons.prems(4,6)
    obtain st'' where "walk_period visit n p (Suc i) cs st' = Inr st''"
      "room st'' (r - cycle_share p c - sum_list (map (cycle_share p) cs))"
      "gauge st'' = gauge st' + weighted (weight n) p (Suc i) cs" by auto
    with 3 d share st' show ?thesis by (simp add: Let_def algebra_simps)
  qed
qed

end

lemma skip_cycles_spec:
  assumes "skip_cycles s i cs = (i', cs')" "cycles_chain x cs y" "x \<le> s"
  shows "\<exists>pre x'. cs = pre @ cs' \<and> i' = i + length pre \<and> (\<forall>c \<in> set pre. vc_end c \<le> s) \<and>
    cycles_chain x' cs' y \<and> x' \<le> s"
  using assms
proof (induction s i cs arbitrary: x rule: skip_cycles.induct)
  case (1 s i)
  then show ?case by auto
next
  case (2 s i c cs)
  show ?case
  proof (cases "s < vc_end c")
    case True
    with 2 show ?thesis by (intro exI[of _ "[]"] exI[of _ x]) auto
  next
    case False
    with 2 have "skip_cycles s (Suc i) cs = (i', cs')" "cycles_chain (vc_end c) cs y" "vc_end c \<le> s"
      by auto
    from "2.IH"[OF False this] obtain pre x' where "cs = pre @ cs'" "i' = Suc i + length pre"
      "\<forall>c \<in> set pre. vc_end c \<le> s" "cycles_chain x' cs' y" "x' \<le> s" by blast
    with False show ?thesis by (intro exI[of _ "c # pre"] exI[of _ x']) auto
  qed
qed

definition weighted_sum :: "(nat \<Rightarrow> nat \<Rightarrow> int) \<Rightarrow> nat \<Rightarrow> paid_period list \<Rightarrow> nat \<Rightarrow> value_cycle list \<Rightarrow> int" where
  "weighted_sum w n ps i cs = sum_list (map (\<lambda>(m, p). weighted (w m) p i cs) (enumerate n ps))"

lemma weighted_sum_simps [simp]:
  "weighted_sum w n [] i cs = 0"
  "weighted_sum w n (p # ps) i cs = weighted (w n) p i cs + weighted_sum w (Suc n) ps i cs"
  by (simp_all add: weighted_sum_def)

lemma weighted_sum_skipped:
  assumes "\<forall>p \<in> set ps. wf_period p \<and> s \<le> pp_start p" "\<forall>c \<in> set pre. vc_start c < vc_end c \<and> vc_end c \<le> s"
  shows "weighted_sum w n ps i (pre @ cs) = weighted_sum w n ps (i + length pre) cs"
  using assms(1)
proof (induction ps arbitrary: n)
  case (Cons p ps)
  have "weighted (w n) p i pre = 0"
    using Cons.prems assms(2) by (intro weighted_zero cycle_share_outside) auto
  with Cons show ?case by (simp add: weighted_append)
qed simp

context allocation_visitor
begin

lemma walk_periods_ok:
  assumes "\<forall>p \<in> set ps. wf_period p" "periods_chain a ps b" "cycles_chain x cs y" "x \<le> a" "b \<le> y"
    "n + length ps \<le> rows" "i + length cs \<le> cols" "room st (sum_list (map pp_amount ps))"
  shows "\<exists>st'. walk_periods visit n ps i cs st = Inr st' \<and> room st' 0 \<and>
    gauge st' = gauge st + weighted_sum weight n ps i cs"
  using assms
proof (induction ps arbitrary: n i cs st a x)
  case Nil
  then show ?case by simp
next
  case (Cons p ps)
  from Cons.prems have p: "wf_period p" and ps: "\<forall>p \<in> set ps. wf_period p"
    and a: "pp_start p = a" and chain: "periods_chain (pp_end p) ps b" by auto
  obtain i' cs' where skip: "skip_cycles (pp_start p) i cs = (i', cs')" by force
  from skip_cycles_spec[OF skip Cons.prems(3)] Cons.prems(4) a obtain pre x' where
    pre: "cs = pre @ cs'" "i' = i + length pre" "\<forall>c \<in> set pre. vc_end c \<le> pp_start p"
    and x': "cycles_chain x' cs' y" "x' \<le> pp_start p" by auto
  have "\<forall>q \<in> set (p # ps). wf_period q \<and> pp_start p \<le> pp_start q"
    using p ps periods_chain_bounds[OF chain] wf_period_less[OF p] by force
  moreover have "\<forall>c \<in> set pre. vc_start c < vc_end c \<and> vc_end c \<le> pp_start p"
    using pre cycles_chain_bounds[OF Cons.prems(3)] by auto
  ultimately have same: "weighted_sum weight n (p # ps) i cs = weighted_sum weight n (p # ps) i' cs'"
    using weighted_sum_skipped pre(1,2) by metis
  have "pp_end p \<le> y" using chain_le[OF chain] Cons.prems(5) by simp
  from sum_cycle_share_covered[OF x'(1) p x'(2) this]
  have paid: "sum_list (map (cycle_share p) cs') = pp_amount p" .
  have "0 \<le> sum_list (map pp_amount ps)"
    using ps by (intro sum_list_nonneg_int) (auto simp: wf_period_def)
  with walk_period_ok[OF p x'(1) _ _ Cons.prems(8), of n i'] paid pre(1,2) Cons.prems(6,7)
  obtain st' where st': "walk_period visit n p i' cs' st = Inr st'"
    "room st' (sum_list (map pp_amount ps))" "gauge st' = gauge st + weighted (weight n) p i' cs'"
    by auto
  from Cons.IH[OF ps chain x'(1) _ Cons.prems(5) _ _ st'(2), of "Suc n" i'] x'(2)
    wf_period_less[OF p] Cons.prems(6,7) pre(1,2)
  obtain st'' where "walk_periods visit (Suc n) ps i' cs' st' = Inr st''" "room st'' 0"
    "gauge st'' = gauge st' + weighted_sum weight (Suc n) ps i' cs'" by auto
  with skip st' same show ?case by simp
qed

end

section \<open>The split of paid value\<close>

definition spans :: "value_cycle list \<Rightarrow> (gotime \<times> gotime) list" where
  "spans cs = map (\<lambda>c. (vc_start c, vc_end c)) cs"

definition allocate_room :: "(gotime \<times> gotime) list \<Rightarrow> value_cycle list \<times> int \<Rightarrow> int \<Rightarrow> bool" where
  "allocate_room sp st r \<longleftrightarrow> (case st of (cycles, allocated) \<Rightarrow>
     spans cycles = sp \<and> allocated + r \<le> max64 \<and>
     (\<forall>c \<in> set cycles. 0 \<le> vc_amount c \<and> vc_amount c \<le> allocated))"

lemma spans_length: "spans cs = sp \<Longrightarrow> length cs = length sp"
  by (auto simp: spans_def)

lemma spans_update: "i < length cs \<Longrightarrow> spans (cs[i := (cs ! i)\<lparr>vc_amount := v\<rparr>]) = spans cs"
  by (simp add: spans_def map_update list_update_same_conv)

lemma allocate_visit_ok:
  assumes "i < length sp" "allocate_room sp st r" "0 \<le> d" "d \<le> r"
  shows "\<exists>st'. allocate_visit n i d st = Inr st' \<and> allocate_room sp st' (r - d) \<and>
    snd st' = snd st + d \<and>
    (\<forall>k. vc_amount (fst st' ! k) = vc_amount (fst st ! k) + (if i = k then 1 else 0) * d)"
proof -
  obtain cycles allocated where st: "st = (cycles, allocated)" by force
  let ?a = "vc_amount (cycles ! i)"
  have len: "length cycles = length sp" using assms(2) st by (simp add: allocate_room_def spans_length)
  with assms(1,2) st have a: "0 \<le> ?a" "?a \<le> allocated" "allocated + r \<le> max64"
    by (auto simp: allocate_room_def)
  then have ok: "\<not> max64 - d < ?a" "\<not> max64 - d < allocated" "add64 ?a d = ?a + d"
    "add64 allocated d = allocated + d"
    using assms(3,4) by (auto intro: add64_guarded)
  have "allocate_room sp (cycles[i := (cycles ! i)\<lparr>vc_amount := ?a + d\<rparr>], allocated + d) (r - d)"
    using assms st a len spans_update[of i cycles "?a + d"]
    by (fastforce simp: allocate_room_def dest!: subsetD[OF set_update_subset_insert])
  with st ok len assms(1) show ?thesis
    by (auto simp: allocate_visit_def nth_list_update)
qed

interpretation split_total: allocation_visitor allocate_visit rows "length sp" "allocate_room sp"
  snd "\<lambda>_ _. 1" for rows sp
  using allocate_visit_ok by unfold_locales fastforce

interpretation split_cycle: allocation_visitor allocate_visit rows "length sp" "allocate_room sp"
  "\<lambda>st. vc_amount (fst st ! j)" "\<lambda>_ k. if k = j then 1 else 0" for rows sp j
  using allocate_visit_ok by unfold_locales fastforce

lemma check_paid_periods_chain:
  "check_paid_periods prev sum0 ps = Inr s \<Longrightarrow> ps \<noteq> [] \<Longrightarrow>
    (\<forall>q. prev = Some q \<longrightarrow> pp_end q = pp_start (hd ps)) \<and>
    periods_chain (pp_start (hd ps)) ps (pp_end (last ps))"
proof (induction prev sum0 ps rule: check_paid_periods.induct)
  case (2 prev sum0 p ps)
  then show ?case by (cases ps) (auto split: if_splits option.splits)
qed simp

lemma check_paid_periods_sum:
  "check_paid_periods prev sum0 ps = Inr s \<Longrightarrow> 0 \<le> sum0 \<Longrightarrow> sum0 \<le> max64 \<Longrightarrow>
    s = sum0 + sum_list (map pp_amount ps) \<and> s \<le> max64 \<and> (\<forall>p \<in> set ps. wf_period p)"
proof (induction prev sum0 ps rule: check_paid_periods.induct)
  case (2 prev sum0 p ps)
  from "2.prems" have ok: "0 \<le> pp_amount p" "\<not> max64 - pp_amount p < sum0"
    "unix (pp_start p) < unix (pp_end p)"
    "check_paid_periods (Some p) (add64 sum0 (pp_amount p)) ps = Inr s"
    by (simp_all split: if_splits)
  have add: "add64 sum0 (pp_amount p) = sum0 + pp_amount p"
    using ok "2.prems" by (intro add64_guarded) auto
  with 2 ok have "s = sum0 + pp_amount p + sum_list (map pp_amount ps) \<and> s \<le> max64 \<and>
      (\<forall>p \<in> set ps. wf_period p)" by (simp split: if_splits)
  with ok "2.prems" show ?case by (auto simp: wf_period_def)
qed simp

lemma check_paid_periods_complete:
  "periods_chain a ps b \<Longrightarrow> \<forall>p \<in> set ps. wf_period p \<Longrightarrow> 0 \<le> sum0 \<Longrightarrow>
    sum0 + sum_list (map pp_amount ps) \<le> max64 \<Longrightarrow> (\<And>q. prev = Some q \<Longrightarrow> pp_end q = a) \<Longrightarrow>
    check_paid_periods prev sum0 ps = Inr (sum0 + sum_list (map pp_amount ps))"
proof (induction prev sum0 ps arbitrary: a rule: check_paid_periods.induct)
  case (2 prev sum0 p ps)
  then have p: "0 \<le> pp_amount p" "pp_start p < pp_end p" "unix (pp_start p) < unix (pp_end p)"
    "pp_start p = a" "periods_chain (pp_end p) ps b"
    and rest: "0 \<le> sum_list (map pp_amount ps)"
    by (auto simp: wf_period_def intro!: sum_list_nonneg_int)
  then have add: "add64 sum0 (pp_amount p) = sum0 + pp_amount p" "\<not> max64 - pp_amount p < sum0"
    using "2.prems"(3,4) by (auto intro!: add64_guarded)
  have linked: "(case prev of None \<Rightarrow> False | Some q \<Rightarrow> pp_start p \<noteq> pp_end q) = False"
    using "2.prems"(5) p(4) by (cases prev) simp_all
  have guard: "\<not> (pp_amount p < 0 \<or> \<not> pp_start p < pp_end p \<or> unix (pp_end p) \<le> unix (pp_start p) \<or>
      (case prev of None \<Rightarrow> False | Some q \<Rightarrow> pp_start p \<noteq> pp_end q) \<or> max64 - pp_amount p < sum0)"
    using p add(2) by (simp add: linked)
  have "check_paid_periods (Some p) (sum0 + pp_amount p) ps =
      Inr (sum0 + pp_amount p + sum_list (map pp_amount ps))"
    using "2.IH"[OF guard p(5)] "2.prems"(2-4) add(1) p(1) by (simp add: add.assoc)
  with guard add(1) show ?case by (simp add: add.assoc)
qed simp

context reset_schedule
begin

lemma split_cycles_chain:
  "split_cycles nxt n cursor stop = Inr cs \<Longrightarrow> cursor \<le> stop \<Longrightarrow>
    cycles_chain cursor cs stop \<and> length cs \<le> n \<and>
    (\<forall>c \<in> set cs. vc_amount c = 0 \<and> (vc_end c \<noteq> stop \<longrightarrow> nxt (vc_start c) = Some (vc_end c)))"
  by (induction nxt n cursor stop arbitrary: cs rule: split_cycles.induct)
    (auto simp: Let_def split: if_splits option.splits)

lemma split_cycles_cut:
  "split_cycles nxt n cursor stop = Inr cs \<Longrightarrow> c \<in> set cs \<Longrightarrow> nxt (vc_start c) = Some x \<Longrightarrow> vc_end c \<le> x"
proof (induction n arbitrary: cursor cs)
  case (Suc n)
  define cut where "cut = (case nxt cursor of None \<Rightarrow> stop | Some x \<Rightarrow> if x < stop then x else stop)"
  from Suc.prems(1) consider "cs = []" | rest where "split_cycles nxt n cut stop = Inr rest"
      "cs = \<lparr>vc_start = cursor, vc_end = cut, vc_amount = 0\<rparr> # rest"
    by (auto simp: Let_def cut_def[symmetric] split: if_splits)
  then show ?case
  proof cases
    case 2
    with Suc.prems(2) consider "c = \<lparr>vc_start = cursor, vc_end = cut, vc_amount = 0\<rparr>" | "c \<in> set rest" by auto
    then show ?thesis
    proof cases
      case 1
      with Suc.prems(3) show ?thesis by (simp add: cut_def)
    qed (use Suc.IH[OF 2(1)] Suc.prems(3) in blast)
  qed (use Suc.prems(2) in simp)
qed (auto split: if_splits)

text \<open>The only failure is running out of the \<open>maxValuePeriods\<close> cycles: a cut always advances.\<close>

lemma split_cycles_fails:
  "split_cycles nxt n cursor stop = Inl e \<Longrightarrow>
    \<exists>cs x. cycles_chain cursor cs x \<and> length cs = n \<and> x < stop"
proof (induction n arbitrary: cursor)
  case 0
  then show ?case by (intro exI[of _ "[]"] exI[of _ cursor]) (auto split: if_splits)
next
  case (Suc n)
  define cut where "cut = (case nxt cursor of None \<Rightarrow> stop | Some x \<Rightarrow> if x < stop then x else stop)"
  from Suc.prems have less: "cursor < stop" by (simp split: if_splits)
  then have cut: "cursor < cut" using nxt_after by (auto simp: cut_def split: option.splits)
  with Suc.prems less have "split_cycles nxt n cut stop = Inl e"
    by (cases "split_cycles nxt n cut stop") (auto simp: cut_def[symmetric])
  from Suc.IH[OF this] obtain cs x where "cycles_chain cut cs x" "length cs = n" "x < stop" by blast
  with cut show ?case
    by (intro exI[of _ "\<lparr>vc_start = cursor, vc_end = cut, vc_amount = 0\<rparr> # cs"] exI[of _ x]) simp
qed

end

lemma weighted_single:
  "weighted (\<lambda>k. if k = j then 1 else 0) p i cs =
    (if i \<le> j \<and> j < i + length cs then cycle_share p (cs ! (j - i)) else 0)"
proof (induction cs arbitrary: i)
  case (Cons c cs)
  consider "j = i" | "j < i" | "i < j" by linarith
  then show ?case
  proof cases
    case 3
    then have "j - i = Suc (j - Suc i)" by simp
    with 3 Cons[of "Suc i"] show ?thesis by simp
  qed (use Cons[of "Suc i"] in simp_all)
qed simp

lemma cycle_share_cong:
  "vc_start c = vc_start d \<Longrightarrow> vc_end c = vc_end d \<Longrightarrow> cycle_share p c = cycle_share p d"
  by (simp add: cycle_share_def)

lemma spans_nth: "spans cs = spans ds \<Longrightarrow> j < length cs \<Longrightarrow>
    vc_start (cs ! j) = vc_start (ds ! j) \<and> vc_end (cs ! j) = vc_end (ds ! j)"
proof -
  assume eq: "spans cs = spans ds" and j: "j < length cs"
  from eq have "length ds = length cs" using spans_length[OF eq] by (simp add: spans_def)
  moreover from eq have "spans cs ! j = spans ds ! j" by simp
  ultimately show ?thesis using j by (simp add: spans_def)
qed

lemma weighted_sum_shares:
  "weighted_sum (\<lambda>_ k. if k = j then 1 else 0) n ps 0 cs =
    (if j < length cs then sum_list (map (\<lambda>p. cycle_share p (cs ! j)) ps) else 0)"
  by (induction ps arbitrary: n) (auto simp: weighted_single)

lemma weighted_sum_total:
  assumes "\<forall>p \<in> set ps. wf_period p \<and> a \<le> pp_start p \<and> pp_end p \<le> b" "cycles_chain a cs b"
  shows "weighted_sum (\<lambda>_ _. 1) n ps 0 cs = sum_list (map pp_amount ps)"
  using assms(1) sum_cycle_share_covered[OF assms(2)]
  by (induction ps arbitrary: n) (auto simp: weighted_one)

text \<open>The allocation loop of \<open>SplitPaidValue\<close> on validated periods and a matching partition.\<close>

lemma allocate_walk:
  assumes ps: "\<forall>p \<in> set ps. wf_period p" "periods_chain a ps b" "sum_list (map pp_amount ps) \<le> max64"
    and cs: "cycles_chain a cs b" "\<forall>c \<in> set cs. vc_amount c = 0"
  shows "\<exists>cs'. walk_value_allocations allocate_visit ps cs (cs, 0) = Inr (cs', sum_list (map pp_amount ps))
    \<and> spans cs' = spans cs \<and> (\<forall>c \<in> set cs'. 0 \<le> vc_amount c)
    \<and> (\<forall>j < length cs. vc_amount (cs' ! j) = sum_list (map (\<lambda>p. cycle_share p (cs' ! j)) ps))"
proof -
  let ?W = "walk_value_allocations allocate_visit ps cs (cs, 0)"
  let ?T = "sum_list (map pp_amount ps)"
  have len: "length (spans cs) = length cs" by (simp add: spans_def)
  have room: "allocate_room (spans cs) (cs, 0) ?T" using ps(3) cs(2) by (simp add: allocate_room_def)
  from split_total.walk_periods_ok[OF ps(1,2) cs(1) order_refl order_refl, of 0 "length ps" 0 "spans cs" "(cs, 0)"]
  obtain st where st: "?W = Inr st" "allocate_room (spans cs) st 0"
    "snd st = weighted_sum (\<lambda>_ _. 1) 0 ps 0 cs"
    using room len by (auto simp: walk_value_allocations_def)
  have total: "snd st = ?T"
    using ps(1) periods_chain_bounds[OF ps(2)] st(3) weighted_sum_total[OF _ cs(1)] by simp
  have amount: "vc_amount (fst st ! j) = sum_list (map (\<lambda>p. cycle_share p (cs ! j)) ps)"
    if "j < length cs" for j
    using split_cycle.walk_periods_ok[OF ps(1,2) cs(1) order_refl order_refl,
        of 0 "length ps" 0 "spans cs" "(cs, 0)" j] room len that st(1) cs(2)
    by (auto simp: walk_value_allocations_def weighted_sum_shares cong: if_cong)
  have sp: "spans (fst st) = spans cs" "\<forall>c \<in> set (fst st). 0 \<le> vc_amount c"
    using st(2) by (auto simp: allocate_room_def split: prod.splits)
  have "cycle_share p (fst st ! j) = cycle_share p (cs ! j)" if "j < length cs" for p j
    using spans_nth[OF sp(1)] spans_length[OF sp(1)] len that by (intro cycle_share_cong) auto
  moreover from total have "st = (fst st, ?T)" by (simp add: prod_eq_iff)
  ultimately show ?thesis using amount sp st(1) by (intro exI[of _ "fst st"]) auto
qed

lemma split_paid_value_cases:
  "split_paid_value ps anchor policy = Inr cs \<Longrightarrow>
    ps \<noteq> [] \<and> check_paid_periods None 0 ps = Inr (sum_list (map pp_amount ps)) \<and>
    (\<exists>cs0. split_cycles (next_traffic_reset_after anchor policy) max_value_periods
        (pp_start (hd ps)) (pp_end (last ps)) = Inr cs0 \<and> pp_start (hd ps) < pp_end (last ps) \<and>
      walk_value_allocations allocate_visit ps cs0 (cs0, 0) = Inr (cs, sum_list (map pp_amount ps)))"
  using check_paid_periods_sum[of None 0 ps]
  by (auto simp: split_paid_value_def Let_def max64_def split: if_splits prod.splits)

lemma split_paid_value_parts:
  assumes "split_paid_value ps anchor policy = Inr cs"
  shows "cycles_chain (pp_start (hd ps)) cs (pp_end (last ps))"
    and "periods_chain (pp_start (hd ps)) ps (pp_end (last ps))"
    and "\<forall>p \<in> set ps. wf_period p" "sum_list (map pp_amount ps) \<le> max64"
    and "\<forall>c \<in> set cs. 0 \<le> vc_amount c" "length cs \<le> max_value_periods"
    and "j < length cs \<Longrightarrow> vc_amount (cs ! j) = sum_list (map (\<lambda>p. cycle_share p (cs ! j)) ps)"
    and "c \<in> set cs \<Longrightarrow> vc_end c \<noteq> pp_end (last ps) \<Longrightarrow>
      next_traffic_reset_after anchor policy (vc_start c) = Some (vc_end c)"
proof -
  let ?a = "pp_start (hd ps)" and ?b = "pp_end (last ps)" and ?nxt = "next_traffic_reset_after anchor policy"
  from split_paid_value_cases[OF assms] obtain cs0 where
    ps: "ps \<noteq> []" "check_paid_periods None 0 ps = Inr (sum_list (map pp_amount ps))"
    and cs0: "split_cycles ?nxt max_value_periods ?a ?b = Inr cs0" "?a < ?b"
    and walk: "walk_value_allocations allocate_visit ps cs0 (cs0, 0) = Inr (cs, sum_list (map pp_amount ps))"
    by blast
  from check_paid_periods_chain[OF ps(2,1)] show chain: "periods_chain ?a ps ?b" by simp
  from check_paid_periods_sum[OF ps(2)] show wf: "\<forall>p \<in> set ps. wf_period p"
    and le: "sum_list (map pp_amount ps) \<le> max64" by (simp_all add: max64_def)
  from calendar_resets.split_cycles_chain[OF cs0(1)] cs0(2)
  have c0: "cycles_chain ?a cs0 ?b" "length cs0 \<le> max_value_periods" "\<forall>c \<in> set cs0. vc_amount c = 0"
    "\<And>c. c \<in> set cs0 \<Longrightarrow> vc_end c \<noteq> ?b \<Longrightarrow> ?nxt (vc_start c) = Some (vc_end c)" by auto
  from allocate_walk[OF wf chain le c0(1,3)] walk
  have sp: "spans cs = spans cs0" and amounts: "\<forall>c \<in> set cs. 0 \<le> vc_amount c"
    and share: "\<forall>j < length cs0. vc_amount (cs ! j) = sum_list (map (\<lambda>p. cycle_share p (cs ! j)) ps)"
    by auto
  from sp have len: "length cs = length cs0" using spans_length[OF sp] by (simp add: spans_def)
  show "cycles_chain ?a cs ?b" using sp c0(1) by (simp add: spans_def)
  show "\<forall>c \<in> set cs. 0 \<le> vc_amount c" by (rule amounts)
  show "length cs \<le> max_value_periods" using len c0(2) by simp
  show "j < length cs \<Longrightarrow> vc_amount (cs ! j) = sum_list (map (\<lambda>p. cycle_share p (cs ! j)) ps)"
    using share len by simp
  show "?nxt (vc_start c) = Some (vc_end c)" if "c \<in> set cs" "vc_end c \<noteq> ?b"
  proof -
    from that(1) obtain i where "i < length cs" "c = cs ! i" by (auto simp: in_set_conv_nth)
    with spans_nth[OF sp, of i] c0(4)[of "cs0 ! i"] that(2) len show ?thesis by auto
  qed
qed

lemma split_paid_value_cut:
  assumes "split_paid_value ps anchor policy = Inr cs" "c \<in> set cs"
    and "next_traffic_reset_after anchor policy (vc_start c) = Some x"
  shows "vc_end c \<le> x"
proof -
  let ?a = "pp_start (hd ps)" and ?b = "pp_end (last ps)"
  from split_paid_value_cases[OF assms(1)] obtain cs0 where
    ps: "ps \<noteq> []" "check_paid_periods None 0 ps = Inr (sum_list (map pp_amount ps))"
    and cs0: "split_cycles (next_traffic_reset_after anchor policy) max_value_periods ?a ?b = Inr cs0" "?a < ?b"
    and walk: "walk_value_allocations allocate_visit ps cs0 (cs0, 0) = Inr (cs, sum_list (map pp_amount ps))"
    by blast
  note parts = split_paid_value_parts[OF assms(1)]
  from calendar_resets.split_cycles_chain[OF cs0(1)] cs0(2)
  have c0: "cycles_chain ?a cs0 ?b" "\<forall>c \<in> set cs0. vc_amount c = 0" by auto
  from allocate_walk[OF parts(3,2,4) c0] walk have sp: "spans cs = spans cs0" by auto
  from assms(2) obtain i where i: "i < length cs" "c = cs ! i" by (auto simp: in_set_conv_nth)
  from sp have "length cs = length cs0" using spans_length[OF sp] by (simp add: spans_def)
  with i spans_nth[OF sp i(1)] calendar_resets.split_cycles_cut[OF cs0(1), of "cs0 ! i"] assms(3)
  show ?thesis by simp
qed

lemma sum_list_shares:
  assumes "cycles_chain a cs b" "\<forall>p \<in> set ps. wf_period p \<and> a \<le> pp_start p \<and> pp_end p \<le> b"
  shows "sum_list (map (\<lambda>c. sum_list (map (\<lambda>p. cycle_share p c) ps)) cs) = sum_list (map pp_amount ps)"
  using assms(2)
proof (induction ps)
  case Nil
  show ?case by (simp add: sum_list_0)
next
  case (Cons p ps)
  then show ?case using sum_cycle_share_covered[OF assms(1), of p] by (simp add: sum_list_addf)
qed

section \<open>Uniform units\<close>

text \<open>The instant \<open>k\<close> days or months after \<open>t\<close>.\<close>

definition unit_cut :: "gotime \<Rightarrow> string \<Rightarrow> int \<Rightarrow> gotime" where
  "unit_cut t step k = (if step = ''day'' then add_days t k else add_calendar_months t k)"

lemma unit_cut_0 [simp]: "unit_cut t step 0 = t"
  by (simp add: unit_cut_def add_days_eq)

lemma unit_cut_strict: "j < k \<Longrightarrow> unit_cut t step j < unit_cut t step k"
  by (simp add: unit_cut_def add_days_eq add_calendar_months_strict nanos_per_day_def)

lemma add_billing_period_unit:
  "0 < k \<Longrightarrow> step \<in> {''day'', ''month''} \<Longrightarrow> add_billing_period t step k = Inr (unit_cut t step k)"
  by (auto simp: add_billing_period_def unit_cut_def)

definition unit_share :: "int \<Rightarrow> int \<Rightarrow> int \<Rightarrow> int" where
  "unit_share whole units k = cumulative_half_up whole k units"

definition unit_period :: "gotime \<Rightarrow> string \<Rightarrow> int \<Rightarrow> int \<Rightarrow> int \<Rightarrow> paid_period" where
  "unit_period start step units whole k =
     \<lparr>pp_start = unit_cut start step (k - 1), pp_end = unit_cut start step k,
      pp_amount = unit_share whole units k - unit_share whole units (k - 1)\<rparr>"

lemma uniform_units_eq:
  assumes "0 \<le> whole" "whole \<le> max64" "step \<in> {''day'', ''month''}" "1 \<le> i"
  shows "uniform_units start step units whole [i..units] (unit_cut start step (i - 1)) (unit_share whole units (i - 1))
    = Inr (map (unit_period start step units whole) [i..units])"
  using assms(4)
proof (induction "nat (units + 1 - i)" arbitrary: i)
  case 0
  then show ?case by simp
next
  case (Suc n)
  then have list: "[i..units] = i # [i + 1..units]" by (simp add: upto_rec1)
  from Suc(1)[of "i + 1"] Suc(2,3) have IH:
    "uniform_units start step units whole [i + 1..units] (unit_cut start step i) (unit_share whole units i)
      = Inr (map (unit_period start step units whole) [i + 1..units])" by simp
  have "sub64 (unit_share whole units i) (unit_share whole units (i - 1)) =
      unit_share whole units i - unit_share whole units (i - 1)"
    unfolding unit_share_def using assms(1,2) by (intro half_up.share_sub64) simp_all
  then show ?case
    using IH Suc.prems add_billing_period_unit[OF _ assms(3), of i start]
    by (simp add: list unit_period_def Let_def flip: unit_share_def)
qed

lemma unit_periods_chain:
  "periods_chain (unit_cut start step (i - 1)) (map (unit_period start step units whole) [i..n])
    (unit_cut start step (max (i - 1) n))"
proof (induction "nat (n + 1 - i)" arbitrary: i)
  case 0
  then have "max (i - 1) n = i - 1" by simp
  with 0 show ?case by simp
next
  case (Suc k)
  then have list: "[i..n] = i # [i + 1..n]" by (simp add: upto_rec1)
  from Suc(2) have i: "i \<le> n" and k: "k = nat (n + 1 - (i + 1))" by simp_all
  then have max: "max (i - 1) n = n" "max i n = n" by simp_all
  from Suc(1)[OF k] max show ?case
    by (simp only: list) (simp add: unit_period_def unit_cut_strict)
qed

lemma unit_periods_sum:
  "sum_list (map pp_amount (map (unit_period start step units whole) [i..n])) =
    unit_share whole units (max (i - 1) n) - unit_share whole units (i - 1)"
proof (induction "nat (n + 1 - i)" arbitrary: i)
  case 0
  then have "max (i - 1) n = i - 1" by simp
  with 0 show ?case by simp
next
  case (Suc k)
  then have list: "[i..n] = i # [i + 1..n]" by (simp add: upto_rec1)
  from Suc(2) have i: "i \<le> n" and k: "k = nat (n + 1 - (i + 1))" by simp_all
  then have max: "max (i - 1) n = n" "max i n = n" by simp_all
  from Suc(1)[OF k] max show ?case
    by (simp only: list) (simp add: unit_period_def)
qed

lemma unit_share_quotient:
  assumes "0 \<le> whole" "whole \<le> max64" "0 < units" "0 \<le> k" "k \<le> units"
  shows "unit_share whole units k = (whole * k * 2 + units) div (units * 2)"
proof -
  consider "k = 0" | "k = units" | "0 < k" "k < units" using assms by linarith
  then show ?thesis
  proof cases
    case 1
    with assms(3) show ?thesis by (simp add: unit_share_def half_up.share_none)
  next
    case 2
    have "(whole * units * 2 + units) div (units * 2) = whole"
      using assms(3) by (intro int_div_pos_eq[of _ _ _ units]) auto
    with 2 assms(3) show ?thesis by (simp add: unit_share_def half_up.share_all)
  next
    case 3
    with assms show ?thesis by (simp add: unit_share_def half_up_quotient(1))
  qed
qed

lemma unit_share_fair:
  assumes "0 \<le> whole" "whole \<le> max64" "1 \<le> k" "k \<le> units"
  shows "whole div units \<le> unit_share whole units k - unit_share whole units (k - 1)"
    "unit_share whole units k - unit_share whole units (k - 1) \<le> whole div units + 1"
proof -
  define q r x where "q = whole div units" and "r = whole mod units" and "x = whole * (k - 1) * 2 + units"
  have units: "0 < units" using assms by simp
  then have r: "0 \<le> r" "r < units" by (simp_all add: r_def)
  have "whole * k * 2 + units = (x + 2 * r) + q * (units * 2)"
  proof -
    have "whole * 2 = 2 * (r + units * q)" unfolding q_def r_def by simp
    then show ?thesis by (simp add: x_def algebra_simps)
  qed
  then have "unit_share whole units k = q + (x + 2 * r) div (units * 2)"
    using assms units by (simp add: unit_share_quotient)
  moreover have "unit_share whole units (k - 1) = x div (units * 2)"
    using assms units by (simp add: unit_share_quotient x_def)
  moreover have "x div (units * 2) \<le> (x + 2 * r) div (units * 2)"
    "(x + 2 * r) div (units * 2) \<le> (x + 1 * (units * 2)) div (units * 2)"
    using r units by (intro zdiv_mono1; simp)+
  moreover have "(x + 1 * (units * 2)) div (units * 2) = x div (units * 2) + 1"
    using units by (subst div_mult_self1) auto
  ultimately show "whole div units \<le> unit_share whole units k - unit_share whole units (k - 1)"
    "unit_share whole units k - unit_share whole units (k - 1) \<le> whole div units + 1"
    by (simp_all add: q_def)
qed

lemma uniform_paid_periods_eq:
  assumes "uniform_paid_periods start stop unit count whole = Inr ps" "whole \<le> max64"
  defines "units \<equiv> if unit = ''year'' then count * 12 else count"
    and "step \<equiv> if unit = ''day'' then ''day'' else ''month''"
  shows "ps = map (unit_period start step units whole) [1..units]"
    and "1 \<le> units" "units \<le> int max_value_periods" "0 \<le> whole" "unit_cut start step units = stop"
proof -
  from assms(1) have ok: "0 \<le> whole" "1 \<le> count" "units \<le> int max_value_periods"
    "unit \<in> {''year'', ''month'', ''day''}" "add_billing_period start unit count = Inr stop"
    and loop: "uniform_units start step units whole [1..units] start 0 = Inr ps"
    by (auto simp: uniform_paid_periods_def Let_def units_def step_def split: if_splits sum.splits)
  have "step \<in> {''day'', ''month''}" by (simp add: step_def)
  from uniform_units_eq[OF ok(1) assms(2) this, of 1 start units] loop
  show "ps = map (unit_period start step units whole) [1..units]"
    by (simp add: unit_share_def half_up.share_none)
  show "1 \<le> units" using ok(2) by (simp add: units_def)
  show "units \<le> int max_value_periods" "0 \<le> whole" by (fact ok)+
  have "mul64 count 12 = count * 12" if "unit = ''year''"
    using that ok(2,3) by (intro mul64_exact) (simp add: units_def max_value_periods_def int64_simps)
  then show "unit_cut start step units = stop"
    using ok(2,4,5) by (auto simp: add_billing_period_def unit_cut_def units_def step_def)
qed

section \<open>Remaining value of a basis\<close>

definition wf_basis :: "value_basis \<Rightarrow> bool" where
  "wf_basis b \<longleftrightarrow> \<not> is_zero (vb_at b) \<and> unix (vb_at b) < unix (vb_end b) \<and>
     0 \<le> vb_amount b \<and> vb_amount b \<le> max64 \<and> 0 \<le> vb_used b \<and> 0 < vb_quota b \<and> vb_quota b \<le> max64"

lemma time_remaining_eq:
  assumes "wf_basis b" "vb_at b \<le> now"
  shows "time_remaining b now = Inr (cumulative_half_up (vb_amount b)
    (if now < vb_end b then unix (vb_end b) - unix now else 0) (unix (vb_end b) - unix (vb_at b)))"
  using assms unix_less[of "vb_at b" "vb_end b"]
  by (simp add: time_remaining_def wf_basis_def exact_time_span_def half_up.share_none)

lemma remaining_value_eq:
  assumes "wf_basis b" "vb_at b \<le> now" "vb_used b \<le> used" "used \<le> max64"
  shows "remaining_value b now used = Inr (min
    (cumulative_half_up (vb_amount b) (if now < vb_end b then unix (vb_end b) - unix now else 0)
      (unix (vb_end b) - unix (vb_at b)))
    (cumulative_half_up (vb_amount b) (vb_quota b - (used - vb_used b)) (vb_quota b)))"
proof -
  from assms have "sub64 used (vb_used b) = used - vb_used b"
    "sub64 (vb_quota b) (min (used - vb_used b) (vb_quota b)) = vb_quota b - min (used - vb_used b) (vb_quota b)"
    by (auto simp: wf_basis_def intro!: sub64_nonneg)
  moreover have "cumulative_half_up (vb_amount b) (vb_quota b - min (used - vb_used b) (vb_quota b)) (vb_quota b) =
      cumulative_half_up (vb_amount b) (vb_quota b - (used - vb_used b)) (vb_quota b)"
    by (simp add: min_def half_up.share_none)
  ultimately show ?thesis
    using assms by (simp add: remaining_value_def time_remaining_eq Let_def wf_basis_def proportional_value_half_up)
qed

lemma remaining_value_wf:
  assumes "remaining_value b now used = Inr v" "vb_amount b \<le> max64" "vb_quota b \<le> max64"
  shows "wf_basis b" "vb_at b \<le> now" "vb_used b \<le> used"
  using assms by (auto simp: remaining_value_def time_remaining_def wf_basis_def split: if_splits)

section \<open>Properties\<close>

text \<open>
  C29. Splitting paid periods into quota cycles loses and invents no money: the cycles partition the
  paid time, each cut inside it is the next reset of the policy, every cycle gets exactly the rounded
  shares of the periods that overlap it, and the amounts add up to what was paid.
\<close>

theorem split_paid_value_conserves:
  assumes "split_paid_value periods anchor policy = Inr cycles"
  shows "cycles_chain (pp_start (hd periods)) cycles (pp_end (last periods))
    \<and> (\<forall>c \<in> set cycles. vc_end c \<noteq> pp_end (last periods) \<longrightarrow>
         next_traffic_reset_after anchor policy (vc_start c) = Some (vc_end c))
    \<and> (\<forall>c \<in> set cycles. 0 \<le> vc_amount c
         \<and> vc_amount c = sum_list (map (\<lambda>p. cycle_share p c) periods))
    \<and> sum_list (map vc_amount cycles) = sum_list (map pp_amount periods)"
proof -
  note parts = split_paid_value_parts[OF assms]
  have amount: "vc_amount c = sum_list (map (\<lambda>p. cycle_share p c) periods)" if "c \<in> set cycles" for c
    using that parts(7) by (auto simp: in_set_conv_nth)
  then have "map vc_amount cycles = map (\<lambda>c. sum_list (map (\<lambda>p. cycle_share p c) periods)) cycles"
    by simp
  moreover have "\<forall>p \<in> set periods. wf_period p \<and> pp_start (hd periods) \<le> pp_start p
      \<and> pp_end p \<le> pp_end (last periods)"
    using parts(3) periods_chain_bounds[OF parts(2)] by auto
  ultimately have "sum_list (map vc_amount cycles) = sum_list (map pp_amount periods)"
    using sum_list_shares[OF parts(1)] by metis
  with parts(1,5,8) amount show ?thesis by blast
qed

theorem split_paid_value_conserves_witness:
  "sum_list (map vc_amount [\<lparr>vc_start = 86400000000000, vc_end = 172800000000000, vc_amount = 7\<rparr>]) = 7"
  using split_paid_value_conserves
    [of "[\<lparr>pp_start = 86400000000000, pp_end = 172800000000000, pp_amount = 7\<rparr>]" 86400000000000 0
        "[\<lparr>vc_start = 86400000000000, vc_end = 172800000000000, vc_amount = 7\<rparr>]"]
  by (simp add: split_paid_value_def max_value_periods_def numeral_eq_Suc is_zero_def)



lemma uniform_paid_periods_facts:
  assumes "uniform_paid_periods start stop unit count whole = Inr periods" "whole \<le> max64"
  shows "periods_chain start periods stop
    \<and> int (length periods) = (if unit = ''year'' then count * 12 else count)
    \<and> sum_list (map pp_amount periods) = whole
    \<and> (\<forall>p \<in> set periods. pp_amount p \<in> {whole div int (length periods) .. whole div int (length periods) + 1})"
proof -
  define units step where "units = (if unit = ''year'' then count * 12 else count)"
    and "step = (if unit = ''day'' then ''day'' else ''month'')"
  note eq = uniform_paid_periods_eq[OF assms, folded units_def step_def]
  have len: "int (length periods) = units" using eq(1,2) by simp
  have max: "max 0 units = units" using eq(2) by simp
  from unit_periods_chain[of start step 1 units whole units] max eq(1,5)
  have "periods_chain start periods stop" by simp
  moreover have "sum_list (map pp_amount periods) = whole"
    using unit_periods_sum[of start step units whole 1 units] max eq(1,2)
    by (simp add: unit_share_def half_up.share_none half_up.share_all)
  moreover have "pp_amount p \<in> {whole div units .. whole div units + 1}" if "p \<in> set periods" for p
  proof -
    from that eq(1) obtain k where k: "1 \<le> k" "k \<le> units" "p = unit_period start step units whole k" by auto
    from k(3) unit_share_fair[OF eq(4) assms(2) k(1,2)] show ?thesis by (simp add: unit_period_def)
  qed
  ultimately show ?thesis unfolding len by (simp add: units_def)
qed

text \<open>
  Uniform paid units are exact even where cents do not divide evenly: the units are adjacent
  calendar days or months from the start to the recorded end, their amounts add up to the total, and
  any two of them differ by at most one minor unit.
\<close>

theorem uniform_paid_periods_exact:
  assumes "uniform_paid_periods start stop unit count whole = Inr periods" "whole \<le> max64"
  shows "periods_chain start periods stop
    \<and> int (length periods) = (if unit = ''year'' then count * 12 else count)
    \<and> sum_list (map pp_amount periods) = whole
    \<and> (\<forall>p \<in> set periods. pp_amount p \<in> {whole div int (length periods) .. whole div int (length periods) + 1})"
  by (rule uniform_paid_periods_facts[OF assms])

theorem uniform_paid_periods_exact_witness:
  "sum_list (map pp_amount
     [\<lparr>pp_start = 86400000000000, pp_end = 172800000000000, pp_amount = 2\<rparr>,
      \<lparr>pp_start = 172800000000000, pp_end = 259200000000000, pp_amount = 1\<rparr>]) = 3"
  using uniform_paid_periods_exact[of 86400000000000 259200000000000 "''day''" 2 3
    "[\<lparr>pp_start = 86400000000000, pp_end = 172800000000000, pp_amount = 2\<rparr>,
      \<lparr>pp_start = 172800000000000, pp_end = 259200000000000, pp_amount = 1\<rparr>]"]
  by (simp add: uniform_paid_periods_def is_zero_def max_value_periods_def add_billing_period_def
      add_days_eq nanos_per_day_def upto_rec1 cumulative_half_up_def quo_def max64_def wrap64_def
      sub64_def)

text \<open>
  The refundable value of a basis only falls: once a valuation succeeds, every later one with at
  least as much cumulative usage succeeds too, and its value lies between zero and the earlier one,
  which itself never exceeds the amount of the basis.
\<close>

theorem remaining_value_falls:
  assumes "remaining_value b now used = Inr v" "now \<le> now'" "used \<le> used'" "used' \<le> max64"
    and "vb_amount b \<le> max64" "vb_quota b \<le> max64"
  shows "\<exists>v'. remaining_value b now' used' = Inr v' \<and> 0 \<le> v' \<and> v' \<le> v \<and> v \<le> vb_amount b"
proof -
  note wf = remaining_value_wf[OF assms(1,5,6)]
  define T where "T = (\<lambda>t. cumulative_half_up (vb_amount b)
      (if t < vb_end b then unix (vb_end b) - unix t else 0) (unix (vb_end b) - unix (vb_at b)))"
  define F where "F = (\<lambda>u. cumulative_half_up (vb_amount b) (vb_quota b - (u - vb_used b)) (vb_quota b))"
  have amount: "0 \<le> vb_amount b" using wf(1) by (simp add: wf_basis_def)
  have le: "remaining_value b now used = Inr (min (T now) (F used))"
    "remaining_value b now' used' = Inr (min (T now') (F used'))"
    using wf assms(2-4) by (simp_all add: remaining_value_eq T_def F_def)
  have "unix now \<le> unix now'" "now < vb_end b \<Longrightarrow> unix now \<le> unix (vb_end b)"
    using assms(2) by (simp_all add: unix_mono)
  then have "T now' \<le> T now" "F used' \<le> F used"
    using amount assms(2,3,5) unfolding T_def F_def by (auto intro!: half_up.share_mono)
  moreover have "0 \<le> T now'" "0 \<le> F used'" "T now \<le> vb_amount b"
    using amount assms(5) unfolding T_def F_def by (auto intro!: half_up.share_nonneg half_up.share_le)
  ultimately show ?thesis using le assms(1) by (auto simp: min_le_iff_disj)
qed

theorem remaining_value_falls_witness:
  "\<exists>v'. remaining_value \<lparr>vb_at = 1000000000, vb_end = 11000000000, vb_amount = 10, vb_used = 0, vb_quota = 5\<rparr>
      6000000000 1 = Inr v' \<and> 0 \<le> v' \<and> v' \<le> 9 \<and> 9 \<le> (10::int)"
proof -
  let ?b = "\<lparr>vb_at = 1000000000, vb_end = 11000000000, vb_amount = 10, vb_used = 0, vb_quota = 5\<rparr>"
  have "remaining_value ?b 2000000000 0 = Inr 9" by code_simp
  from remaining_value_falls[OF this, of 6000000000 1] show ?thesis by (simp add: max64_def)
qed

text \<open>
  A paid reset neither destroys nor creates value: it settles the old basis at the reset instant
  and the new basis, asked at that instant, is worth exactly the settled value plus what was paid.
\<close>

theorem paid_reset_continuous:
  assumes "paid_reset b now used paid quota = Inr (b', before)"
    and "vb_amount b \<le> max64" "vb_quota b \<le> max64" "used \<le> max64" "quota \<le> max64" "\<not> is_zero now"
  shows "remaining_value b now used = Inr before
    \<and> remaining_value b' now used = Inr (before + paid)
    \<and> vb_end b' = vb_end b \<and> vb_quota b' = quota"
proof -
  from assms(1) have before: "remaining_value b now used = Inr before"
    and ok: "now < vb_end b" "unix now < unix (vb_end b)" "0 \<le> paid" "0 < quota" "before \<le> max64 - paid"
    and b': "b' = \<lparr>vb_at = now, vb_end = vb_end b, vb_amount = add64 before paid, vb_used = used, vb_quota = quota\<rparr>"
    by (auto simp: paid_reset_def split: if_splits sum.splits)
  note wf = remaining_value_wf[OF before assms(2,3)]
  have "0 \<le> before"
    using before remaining_value_eq[OF wf assms(4)] wf(1) assms(2)
    by (auto simp: wf_basis_def intro!: half_up.share_nonneg)
  with ok have add: "add64 before paid = before + paid" "before + paid \<le> max64" "0 \<le> before + paid"
    by (auto intro!: add64_guarded)
  have "wf_basis b'"
    using add ok assms(5,6) wf by (simp add: b' wf_basis_def)
  from remaining_value_eq[OF this _ _ assms(4), of now] ok add
  have "remaining_value b' now used = Inr (before + paid)"
    by (simp add: b' half_up.share_all)
  with before show ?thesis by (simp add: b')
qed

theorem paid_reset_continuous_witness:
  "remaining_value \<lparr>vb_at = 6000000000, vb_end = 11000000000, vb_amount = 8, vb_used = 1, vb_quota = 4\<rparr>
     6000000000 1 = Inr 8"
proof -
  have "paid_reset \<lparr>vb_at = 1000000000, vb_end = 11000000000, vb_amount = 10, vb_used = 0, vb_quota = 5\<rparr>
      6000000000 1 3 4 =
    Inr (\<lparr>vb_at = 6000000000, vb_end = 11000000000, vb_amount = 8, vb_used = 1, vb_quota = 4\<rparr>, 5)"
    by code_simp
  from paid_reset_continuous[OF this] show ?thesis by (simp add: max64_def is_zero_def)
qed

end
