(* ===== verification/ValueSources.thy ===== *)
theory ValueSources
  imports ValueAllocation "HOL-Library.Multiset"
begin

text \<open>
  Cash sources of a value, from \<^verbatim>\<open>commerce/value_projection.go\<close> (\<open>addValueAmounts\<close>,
  \<open>proportionValueSources\<close>) and \<^verbatim>\<open>commerce/administrative_refund.go\<close>: maps from the
  identifier of a paid order to minor units, added, shared out in proportion and refunded.
\<close>

section \<open>The code\<close>

text \<open>The loop over \<open>source\<close>; on an error the partially updated map is discarded by every caller.\<close>

fun add_value_amounts :: "amounts \<Rightarrow> (nat \<times> int) list \<Rightarrow> amounts result" where
  "add_value_amounts target [] = Inr target"
| "add_value_amounts target ((oid, amount) # source) =
     (if amount < 0 \<or> amt target oid > max64 - amount then Inl ErrValueEvidence
      else add_value_amounts (put oid (add64 (amt target oid) amount) target) source)"

fun weigh_sources :: "(nat \<times> int) list \<Rightarrow> int \<Rightarrow> int result" where
  "weigh_sources [] weight = Inr weight"
| "weigh_sources ((oid, amount) # sources) weight =
     (if oid = 0 \<or> amount < 0 \<or> weight > max64 - amount then Inl ErrValueEvidence
      else weigh_sources sources (add64 weight amount))"

fun share_sources :: "int \<Rightarrow> int \<Rightarrow> amounts \<Rightarrow> nat list \<Rightarrow> int \<Rightarrow> int \<Rightarrow> amounts \<Rightarrow> amounts" where
  "share_sources whole weight sources [] cumulative previous out = out"
| "share_sources whole weight sources (oid # ids) cumulative previous out =
     (let cumulative = add64 cumulative (amt sources oid);
          rounded = cumulative_half_up whole cumulative weight
      in share_sources whole weight sources ids cumulative rounded
           (if rounded > previous then put oid (sub64 rounded previous) out else out))"

definition proportion_value_sources :: "int \<Rightarrow> amounts \<Rightarrow> amounts result" where
  "proportion_value_sources whole sources =
     try_bind (weigh_sources sources 0) (\<lambda>weight.
       if whole < 0 \<or> whole > weight then Inl ErrValueEvidence
       else if weight = 0 then (if whole = 0 then Inr [] else Inl ErrValueEvidence)
       else Inr (share_sources whole weight sources (sort (map fst sources)) 0 0 []))"

fun sum_limits :: "(nat \<times> int) list \<Rightarrow> int \<Rightarrow> int result" where
  "sum_limits [] maximum = Inr maximum"
| "sum_limits ((oid, limit) # limits) maximum =
     (if oid = 0 \<or> limit < 0 \<or> maximum > max64 - limit then Inl ErrSettlementConflict
      else sum_limits limits (add64 maximum limit))"

fun sum_residual :: "amounts \<Rightarrow> (nat \<times> int) list \<Rightarrow> int \<Rightarrow> int result" where
  "sum_residual limits [] residual = Inr residual"
| "sum_residual limits ((oid, part) # remaining) residual =
     (if part < 0 \<or> part > amt limits oid \<or> residual > max64 - part then Inl ErrSettlementConflict
      else sum_residual limits remaining (add64 residual part))"

definition allocate_administrative_refund :: "int \<Rightarrow> amounts \<Rightarrow> amounts \<Rightarrow> amounts result" where
  "allocate_administrative_refund amount remaining limits =
     (if amount < 0 then Inl ErrSettlementConflict
      else try_bind (sum_limits limits 0) (\<lambda>maximum.
           try_bind (sum_residual limits remaining 0) (\<lambda>residual.
             if amount > maximum then Inl ErrSettlementConflict
             else if amount \<le> residual then proportion_value_sources amount remaining
             else
               let out = map (\<lambda>(oid, limit). (oid, amt remaining oid)) limits;
                   spare = map (\<lambda>(oid, limit). (oid, sub64 limit (amt remaining oid))) limits
               in try_bind (proportion_value_sources (sub64 amount residual) spare)
                    (\<lambda>extra. add_value_amounts out extra))))"

section \<open>Adding amounts\<close>

text \<open>A map of sources whose amounts are not negative.\<close>

definition wf_sources :: "amounts \<Rightarrow> bool" where
  "wf_sources m \<longleftrightarrow> wf_amounts m \<and> (\<forall>kv \<in> set m. 0 \<le> snd kv)"

lemma wf_sources_Nil [simp]: "wf_sources []"
  by (simp add: wf_sources_def)

lemma wf_sources_amounts: "wf_sources m \<Longrightarrow> wf_amounts m"
  by (simp add: wf_sources_def)

lemma wf_sources_Cons: "wf_sources ((k, v) # m) \<longleftrightarrow> 0 \<le> v \<and> (\<forall>k' \<in> fst ` set m. k < k') \<and> wf_sources m"
  by (auto simp: wf_sources_def)

lemma amt_nonneg: "wf_sources m \<Longrightarrow> 0 \<le> amt m k"
  by (induction m) (auto simp: wf_sources_Cons amt_Cons)

lemma set_put: "wf_amounts m \<Longrightarrow> set (put k v m) \<subseteq> insert (k, v) (set m)"
  by (induction k v m rule: put.induct) auto

lemma wf_sources_put: "wf_sources m \<Longrightarrow> 0 \<le> v \<Longrightarrow> wf_sources (put k v m)"
  using set_put[of m k v] by (fastforce simp: wf_sources_def)

lemma sum_sources_nonneg: "wf_sources m \<Longrightarrow> 0 \<le> sum_amounts m"
  by (induction m) (auto simp: wf_sources_Cons)

lemma amt_le_sum: "wf_sources m \<Longrightarrow> amt m k \<le> sum_amounts m"
  by (induction m) (auto simp: wf_sources_Cons amt_Cons dest: sum_sources_nonneg)

text \<open>What a successful addition of distinct sources is: pointwise addition, in any order.\<close>

definition addable :: "amounts \<Rightarrow> (nat \<times> int) list \<Rightarrow> bool" where
  "addable target source \<longleftrightarrow> (\<forall>(k, a) \<in> set source. 0 \<le> a \<and> amt target k \<le> max64 - a)"

lemma addable_Cons: "addable target ((k, a) # source) \<longleftrightarrow>
    0 \<le> a \<and> amt target k \<le> max64 - a \<and> addable target source"
  by (simp add: addable_def)

lemma addable_cong:
  "(\<And>k. k \<in> fst ` set source \<Longrightarrow> amt t k = amt t' k) \<Longrightarrow> addable t source = addable t' source"
  by (induction source) (auto simp: addable_Cons, auto simp: addable_def)

lemma add_value_amounts_spec:
  "wf_sources target \<Longrightarrow> distinct (map fst source) \<Longrightarrow>
    (case add_value_amounts target source of
       Inl e \<Rightarrow> e = ErrValueEvidence \<and> \<not> addable target source
     | Inr r \<Rightarrow> addable target source \<and> wf_sources r \<and> (\<forall>k. amt r k = amt target k + amt source k)
         \<and> fst ` set r = fst ` set target \<union> fst ` set source
         \<and> sum_amounts r = sum_amounts target + sum_amounts source)"
proof (induction target source rule: add_value_amounts.induct)
  case (2 target oid amount source)
  show ?case
  proof (cases "amount < 0 \<or> amt target oid > max64 - amount")
    case True
    then show ?thesis by (auto simp: addable_Cons)
  next
    case False
    have nonneg: "0 \<le> amt target oid" by (rule amt_nonneg[OF "2.prems"(1)])
    have add: "add64 (amt target oid) amount = amt target oid + amount"
      using False nonneg by (intro add64_guarded) auto
    let ?t = "put oid (amt target oid + amount) target"
    have fresh: "oid \<notin> fst ` set source" "distinct (map fst source)" using "2.prems"(2) by auto
    have wf: "wf_sources ?t" using "2.prems"(1) nonneg False by (intro wf_sources_put) auto
    have same: "addable ?t source = addable target source"
      using fresh(1) by (intro addable_cong) auto
    have "addable target ((oid, amount) # source) = addable target source"
      using False by (simp add: addable_Cons)
    moreover have "sum_amounts ?t = sum_amounts target + amount"
      using sum_amounts_put[of target] wf_sources_amounts[OF "2.prems"(1)] by simp
    moreover have step: "add_value_amounts target ((oid, amount) # source) = add_value_amounts ?t source"
      using False by (simp add: add)
    note IH = "2.IH"[OF False, unfolded add, OF wf fresh(2)]
    show ?thesis
    proof (cases "add_value_amounts ?t source")
      case (Inl e)
      with IH same calculation(1) show ?thesis unfolding step by simp
    next
      case (Inr r)
      with IH have r: "addable ?t source" "wf_sources r" "\<forall>k. amt r k = amt ?t k + amt source k"
        "fst ` set r = fst ` set ?t \<union> fst ` set source" "sum_amounts r = sum_amounts ?t + sum_amounts source"
        by simp_all
      have "amt r k = amt target k + amt ((oid, amount) # source) k" for k
        using r(3) amt_absent[OF fresh(1)] by (simp add: amt_Cons)
      moreover have "fst ` set r = fst ` set target \<union> fst ` set ((oid, amount) # source)"
        using r(4) by (simp add: keys_put)
      ultimately show ?thesis
        using Inr r(1,2,5) same \<open>addable target ((oid, amount) # source) = addable target source\<close>
          \<open>sum_amounts ?t = sum_amounts target + amount\<close>
        unfolding step by simp
    qed
  qed
qed (simp add: addable_def)

lemma add_value_amounts_Inr:
  assumes "wf_sources target" "distinct (map fst source)" "add_value_amounts target source = Inr r"
  shows "wf_sources r" "amt r k = amt target k + amt source k" "addable target source"
    "fst ` set r = fst ` set target \<union> fst ` set source" "sum_amounts r = sum_amounts target + sum_amounts source"
  using add_value_amounts_spec[OF assms(1,2)] assms(3) by simp_all

lemma add_value_amounts_ok:
  assumes "wf_sources target" "distinct (map fst source)" "addable target source"
  obtains r where "add_value_amounts target source = Inr r"
  using add_value_amounts_spec[OF assms(1,2)] assms(3) by (cases "add_value_amounts target source") simp_all

lemma wf_distinct: "wf_amounts m \<Longrightarrow> distinct (map fst m)"
  unfolding wf_amounts_def by (simp add: strict_sorted_iff)

section \<open>Sharing in proportion\<close>

lemma weigh_sources_spec:
  "0 \<le> weight \<Longrightarrow> weight \<le> max64 \<Longrightarrow> weigh_sources sources weight = Inr w \<longleftrightarrow>
    (\<forall>(k, a) \<in> set sources. k \<noteq> 0 \<and> 0 \<le> a) \<and> weight + sum_amounts sources \<le> max64 \<and>
    w = weight + sum_amounts sources"
proof (induction sources weight rule: weigh_sources.induct)
  case (2 oid amount sources weight)
  show ?case
  proof (cases "oid = 0 \<or> amount < 0 \<or> weight > max64 - amount")
    case True
    have "max64 < weight + (amount + sum_amounts sources)"
      if "\<forall>(k, a) \<in> set sources. k \<noteq> 0 \<and> 0 \<le> a" "max64 - amount < weight"
      using that sum_list_nonneg_int[of "map snd sources"] by (fastforce simp: sum_amounts_def)
    with True show ?thesis by fastforce
  next
    case False
    with "2.prems" have "add64 weight amount = weight + amount" by (intro add64_guarded) auto
    with 2 False show ?thesis by (simp add: add.assoc)
  qed
qed auto

lemma sum_limits_weigh: "sum_limits limits m = Inr w \<longleftrightarrow> weigh_sources limits m = Inr w"
  by (induction limits m rule: sum_limits.induct) auto

lemma sum_residual_spec:
  "0 \<le> residual \<Longrightarrow> residual \<le> max64 \<Longrightarrow> sum_residual limits remaining residual = Inr w \<longleftrightarrow>
    (\<forall>(k, a) \<in> set remaining. 0 \<le> a \<and> a \<le> amt limits k) \<and>
    residual + sum_amounts remaining \<le> max64 \<and> w = residual + sum_amounts remaining"
proof (induction limits remaining residual rule: sum_residual.induct)
  case (2 limits oid part remaining residual)
  show ?case
  proof (cases "part < 0 \<or> part > amt limits oid \<or> residual > max64 - part")
    case True
    have "max64 < residual + (part + sum_amounts remaining)"
      if "\<forall>(k, a) \<in> set remaining. 0 \<le> a \<and> a \<le> amt limits k" "max64 - part < residual"
      using that sum_list_nonneg_int[of "map snd remaining"] by (fastforce simp: sum_amounts_def)
    with True show ?thesis by fastforce
  next
    case False
    with "2.prems" have "add64 residual part = residual + part" by (intro add64_guarded) auto
    with 2 False show ?thesis by (simp add: add.assoc)
  qed
qed auto

lemma half_up_div:
  assumes "0 \<le> whole" "whole \<le> max64" "0 < weight" "0 \<le> c" "c \<le> weight"
  shows "cumulative_half_up whole c weight = (whole * c * 2 + weight) div (weight * 2)"
  using unit_share_quotient[OF assms] by (simp add: unit_share_def)

lemma half_up_step_le:
  assumes "0 \<le> whole" "whole \<le> weight" "weight \<le> max64" "0 < weight" "0 \<le> c" "0 \<le> v" "c + v \<le> weight"
  shows "cumulative_half_up whole (c + v) weight - cumulative_half_up whole c weight \<le> v"
proof -
  have "whole * (c + v) * 2 + weight \<le> (whole * c * 2 + weight) + v * (weight * 2)"
    using mult_right_mono[OF assms(2,6)] by (simp add: algebra_simps)
  then have "(whole * (c + v) * 2 + weight) div (weight * 2)
      \<le> ((whole * c * 2 + weight) + v * (weight * 2)) div (weight * 2)"
    using assms(4) by (intro zdiv_mono1) auto
  also have "\<dots> = (whole * c * 2 + weight) div (weight * 2) + v"
    using assms(4) by (subst div_mult_self1) auto
  finally show ?thesis using assms by (simp add: half_up_div)
qed

text \<open>Each source gets the rounded share of its own interval of cumulative weight.\<close>

lemma share_sources_spec:
  fixes whole weight sources
  defines "R \<equiv> \<lambda>c. cumulative_half_up whole c weight"
  assumes "0 \<le> whole" "whole \<le> max64" "weight \<le> max64"
  shows "distinct ids \<Longrightarrow> set ids \<inter> fst ` set out = {} \<Longrightarrow> wf_sources out \<Longrightarrow>
    \<forall>k \<in> set ids. 0 \<le> amt sources k \<Longrightarrow> 0 \<le> c \<Longrightarrow> c + sum_list (map (amt sources) ids) \<le> weight \<Longrightarrow>
    previous = R c \<Longrightarrow>
    (let r = share_sources whole weight sources ids c previous out in
      wf_sources r \<and> fst ` set r \<subseteq> fst ` set out \<union> set ids \<and> (\<forall>k. k \<notin> set ids \<longrightarrow> amt r k = amt out k)
      \<and> (\<forall>k \<in> set ids. \<exists>c'. 0 \<le> c' \<and> c' + amt sources k \<le> weight \<and> amt r k = R (c' + amt sources k) - R c')
      \<and> sum_amounts r = sum_amounts out + R (c + sum_list (map (amt sources) ids)) - R c)"
proof (induction ids arbitrary: c previous out)
  case (Cons oid ids)
  let ?v = "amt sources oid"
  let ?d = "R (c + ?v) - R c"
  have R: "cumulative_half_up whole x weight = R x" for x by (simp add: R_def)
  let ?out = "if R (c + ?v) > R c then put oid ?d out else out"
  from Cons.prems have v: "0 \<le> ?v" "0 \<le> sum_list (map (amt sources) ids)"
    by (auto intro!: sum_list_nonneg_int)
  have add: "add64 c ?v = c + ?v"
    using Cons.prems v assms(4) by (intro add64_exact in64_nonneg) auto
  have mono: "R c \<le> R (c + ?v)" unfolding R_def using assms(2,3) v by (intro half_up.share_mono) auto
  have sub: "sub64 (R (c + ?v)) (R c) = ?d" unfolding R_def using assms(2,3) v
    by (intro half_up.share_sub64) auto
  have oid: "oid \<notin> fst ` set out" "oid \<notin> set ids" "amt out oid = 0" using Cons.prems by (auto intro!: amt_absent)
  have out: "wf_sources ?out" "fst ` set ?out \<subseteq> insert oid (fst ` set out)" "amt ?out oid = ?d"
    "\<And>k. k \<noteq> oid \<Longrightarrow> amt ?out k = amt out k" "sum_amounts ?out = sum_amounts out + ?d"
    using Cons.prems(3) mono oid sum_amounts_put[OF wf_sources_amounts[OF Cons.prems(3)], of oid ?d]
    by (auto simp: wf_sources_put keys_put)
  have disj: "set ids \<inter> fst ` set ?out = {}"
    using out(2) oid(2) Cons.prems(2) unfolding list.set by blast
  have IH: "let r = share_sources whole weight sources ids (c + ?v) (R (c + ?v)) ?out in
      wf_sources r \<and> fst ` set r \<subseteq> fst ` set ?out \<union> set ids \<and> (\<forall>k. k \<notin> set ids \<longrightarrow> amt r k = amt ?out k)
      \<and> (\<forall>k \<in> set ids. \<exists>c'. 0 \<le> c' \<and> c' + amt sources k \<le> weight \<and> amt r k = R (c' + amt sources k) - R c')
      \<and> sum_amounts r = sum_amounts ?out + R (c + ?v + sum_list (map (amt sources) ids)) - R (c + ?v)"
    using Cons.prems(1,4-6) v disj by (intro Cons.IH out(1)) (simp_all add: add.assoc)
  define r where "r = share_sources whole weight sources ids (c + ?v) (R (c + ?v)) ?out"
  have r: "share_sources whole weight sources (oid # ids) c previous out = r"
    unfolding r_def using Cons.prems(7) by (simp add: Let_def add sub R)
  note IH' = IH[folded r_def, unfolded Let_def]
  have "amt r oid = ?d" using IH' oid out(3) by simp
  moreover have "c + ?v \<le> weight" using Cons.prems(6) v(2) by simp
  ultimately have "\<exists>c'. 0 \<le> c' \<and> c' + ?v \<le> weight \<and> amt r oid = R (c' + ?v) - R c'"
    using Cons.prems(5) by blast
  moreover have "\<forall>k. k \<notin> set (oid # ids) \<longrightarrow> amt r k = amt out k" using IH' out(4) by auto
  moreover from IH' have "fst ` set r \<subseteq> fst ` set ?out \<union> set ids" by blast
  then have "fst ` set r \<subseteq> fst ` set out \<union> set (oid # ids)" using out(2) unfolding list.set by blast
  ultimately show ?case unfolding r Let_def using IH' out(5) by (simp add: add.assoc)
qed simp

lemma sum_list_keys: "wf_amounts m \<Longrightarrow> sum_list (map (amt m) (map fst m)) = sum_amounts m"
proof -
  assume "wf_amounts m"
  then have "map (amt m) (map fst m) = map snd m" unfolding map_map
    by (intro map_cong) (auto simp: amt_member)
  then show ?thesis by (simp only: sum_amounts_def)
qed

lemma sort_keys: "wf_amounts m \<Longrightarrow> sort (map fst m) = map fst m"
  unfolding wf_amounts_def by (simp add: sorted_sort_id strict_sorted_iff)

lemma proportion_value_sources_cases:
  assumes "wf_amounts sources"
  shows "proportion_value_sources whole sources = Inr r \<longleftrightarrow>
    (\<forall>(k, a) \<in> set sources. k \<noteq> 0 \<and> 0 \<le> a) \<and> sum_amounts sources \<le> max64 \<and>
    0 \<le> whole \<and> whole \<le> sum_amounts sources \<and>
    r = (if sum_amounts sources = 0 then []
         else share_sources whole (sum_amounts sources) sources (map fst sources) 0 0 [])"
  using weigh_sources_spec[of 0 sources] sort_keys[OF assms]
  by (auto simp: proportion_value_sources_def max64_def)

lemma proportion_value_sources_spec:
  assumes "wf_amounts sources" "proportion_value_sources whole sources = Inr r"
  shows "wf_sources r" "sum_amounts r = whole" "amt r k \<le> amt sources k"
    "fst ` set r \<subseteq> fst ` set sources" "wf_sources sources"
proof -
  let ?w = "sum_amounts sources"
  note ok = proportion_value_sources_cases[OF assms(1), of whole r, THEN iffD1, OF assms(2)]
  then show src: "wf_sources sources" using assms(1) by (auto simp: wf_sources_def)
  have "wf_sources r \<and> sum_amounts r = whole \<and> amt r k \<le> amt sources k \<and> fst ` set r \<subseteq> fst ` set sources"
  proof (cases "?w = 0")
    case True
    with ok show ?thesis using amt_nonneg[OF src] by simp
  next
    case False
    with ok have w: "0 < ?w" "whole \<le> max64" by auto
    note share_sources_spec[where whole = whole and weight = ?w and sources = sources
      and ids = "map fst sources" and out = "[]" and c = 0 and previous = 0]
    with ok False have r: "wf_sources r" "fst ` set r \<subseteq> fst ` set sources"
      "\<And>k. k \<notin> fst ` set sources \<Longrightarrow> amt r k = 0" "sum_amounts r = whole"
      "\<And>k. k \<in> fst ` set sources \<Longrightarrow> \<exists>c'. 0 \<le> c' \<and> c' + amt sources k \<le> ?w \<and>
         amt r k = cumulative_half_up whole (c' + amt sources k) ?w - cumulative_half_up whole c' ?w"
      using w wf_distinct[OF assms(1)] sum_list_keys[OF assms(1)] amt_nonneg[OF src]
      by (auto simp: Let_def half_up.share_none half_up.share_all)
    have "amt r k \<le> amt sources k"
    proof (cases "k \<in> fst ` set sources")
      case True
      then obtain c' where c': "0 \<le> c'" "c' + amt sources k \<le> ?w"
        "amt r k = cumulative_half_up whole (c' + amt sources k) ?w - cumulative_half_up whole c' ?w"
        using r(5) by blast
      have "cumulative_half_up whole (c' + amt sources k) ?w - cumulative_half_up whole c' ?w \<le> amt sources k"
        using ok w amt_nonneg[OF src] c' by (intro half_up_step_le) auto
      with c'(3) show ?thesis by simp
    next
      case False
      with r(3)[of k] amt_nonneg[OF src] show ?thesis by simp
    qed
    with r show ?thesis by simp
  qed
  then show "wf_sources r" "sum_amounts r = whole" "amt r k \<le> amt sources k" "fst ` set r \<subseteq> fst ` set sources"
    by simp_all
qed


section \<open>Administrative refunds\<close>

text \<open>The default residual, read off on the keys of the limits.\<close>

definition restrict_to :: "amounts \<Rightarrow> amounts \<Rightarrow> amounts" where
  "restrict_to limits m = map (\<lambda>(k, _). (k, amt m k)) limits"

definition spare_of :: "amounts \<Rightarrow> amounts \<Rightarrow> amounts" where
  "spare_of limits m = map (\<lambda>(k, limit). (k, limit - amt m k)) limits"

lemma keys_map: "map fst (map (\<lambda>(k, v). (k, f k v)) m) = map fst m"
  by (simp add: comp_def case_prod_beta)

lemma wf_map: "wf_amounts (map (\<lambda>(k, v). (k, f k v)) m) \<longleftrightarrow> wf_amounts m"
  by (simp only: wf_amounts_def keys_map)

lemma amt_map: "amt (map (\<lambda>(k, v). (k, f k v)) m) k = (if k \<in> fst ` set m then f k (amt m k) else 0)"
  by (induction m) (force simp: amt_Cons)+

lemma amt_restrict_to: "amt (restrict_to limits m) k = (if k \<in> fst ` set limits then amt m k else 0)"
  unfolding restrict_to_def using amt_map[of "\<lambda>k _. amt m k"] by simp

lemma amt_spare_of: "amt (spare_of limits m) k = (if k \<in> fst ` set limits then amt limits k - amt m k else 0)"
  unfolding spare_of_def using amt_map[of "\<lambda>k v. v - amt m k"] by simp

lemma wf_restrict_to: "wf_amounts limits \<Longrightarrow> wf_sources m \<Longrightarrow> wf_sources (restrict_to limits m)"
  using wf_map[of "\<lambda>k _. amt m k" limits] amt_nonneg[of m]
  by (auto simp: restrict_to_def wf_sources_def)

lemma wf_spare_of:
  assumes "wf_amounts limits" "\<And>k. amt m k \<le> amt limits k"
  shows "wf_sources (spare_of limits m)"
proof -
  have "wf_amounts (spare_of limits m)"
    using assms(1) wf_map[of "\<lambda>k v. v - amt m k" limits] by (simp add: spare_of_def)
  moreover have "0 \<le> v - amt m k" if "(k, v) \<in> set limits" for k v
    using assms(2)[of k] amt_member[OF assms(1) that] by simp
  ultimately show ?thesis by (auto simp: wf_sources_def spare_of_def)
qed

text \<open>Dropping keys that are absent from the limits drops only zero amounts.\<close>

lemma sum_restrict_to:
  assumes "wf_sources m" "wf_amounts limits" "\<And>k. k \<notin> fst ` set limits \<Longrightarrow> amt m k = 0"
  shows "sum_amounts (restrict_to limits m) = sum_amounts m"
proof -
  have set_sum: "sum_amounts n = (\<Sum>k \<in> fst ` set n. amt n k)" if "wf_amounts n" for n
    using sum_list_keys[OF that] sum_list_distinct_conv_sum_set[OF wf_distinct[OF that], of "amt n"] by simp
  let ?r = "restrict_to limits m"
  have keys: "fst ` set ?r = fst ` set limits" unfolding restrict_to_def by force
  have "sum_amounts ?r = (\<Sum>k \<in> fst ` set limits. amt m k)"
    using set_sum[OF wf_sources_amounts[OF wf_restrict_to[OF assms(2,1)]]] by (simp add: keys amt_restrict_to)
  also have "\<dots> = (\<Sum>k \<in> fst ` set limits \<union> fst ` set m. amt m k)"
    using assms(3) by (intro sum.mono_neutral_left) auto
  also have "\<dots> = (\<Sum>k \<in> fst ` set m. amt m k)"
    by (intro sum.mono_neutral_right) (auto intro!: amt_absent simp: image_iff)
  finally show ?thesis using set_sum[OF wf_sources_amounts[OF assms(1)]] by simp
qed

lemma sum_spare_of: "sum_amounts (spare_of limits m) = sum_amounts limits - sum_amounts (restrict_to limits m)"
  by (induction limits) (auto simp: spare_of_def restrict_to_def)

text \<open>The guards of \<open>AllocateAdministrativeRefund\<close>.\<close>

definition refundable :: "int \<Rightarrow> amounts \<Rightarrow> amounts \<Rightarrow> bool" where
  "refundable amount remaining limits \<longleftrightarrow>
     0 \<le> amount \<and> (\<forall>(k, a) \<in> set limits. k \<noteq> 0 \<and> 0 \<le> a) \<and> sum_amounts limits \<le> max64 \<and>
     (\<forall>(k, a) \<in> set remaining. 0 \<le> a \<and> a \<le> amt limits k) \<and> sum_amounts remaining \<le> max64 \<and>
     amount \<le> sum_amounts limits"

lemma refund_cases:
  assumes "wf_amounts remaining" "wf_amounts limits"
  shows "allocate_administrative_refund amount remaining limits = Inr r \<longleftrightarrow>
    refundable amount remaining limits \<and>
    (if amount \<le> sum_amounts remaining then proportion_value_sources amount remaining = Inr r
     else \<exists>extra. proportion_value_sources (amount - sum_amounts remaining) (spare_of limits remaining) = Inr extra
            \<and> add_value_amounts (restrict_to limits remaining) extra = Inr r)"
proof -
  have sub: "sub64 amount (sum_amounts remaining) = amount - sum_amounts remaining"
    if "refundable amount remaining limits" "\<not> amount \<le> sum_amounts remaining"
  proof (intro sub64_nonneg)
    have "wf_sources remaining" using assms(1) that(1) by (auto simp: refundable_def wf_sources_def)
    then show "0 \<le> sum_amounts remaining" by (rule sum_sources_nonneg)
  qed (use that in \<open>auto simp: refundable_def\<close>)
  have spare: "map (\<lambda>(k, limit). (k, sub64 limit (amt remaining k))) limits = spare_of limits remaining"
    if ok: "refundable amount remaining limits"
  proof -
    have src: "wf_sources limits" using assms(2) ok by (auto simp: wf_sources_def refundable_def)
    have "sub64 v (amt remaining k) = v - amt remaining k" if "(k, v) \<in> set limits" for k v
    proof (rule sub64_nonneg)
      have v: "amt limits k = v" by (rule amt_member[OF assms(2) that])
      then show "v \<le> max64" using amt_le_sum[OF src, of k] ok by (simp add: refundable_def)
      show "0 \<le> amt remaining k" using assms(1) ok by (intro amt_nonneg) (auto simp: wf_sources_def refundable_def)
      show "amt remaining k \<le> v"
      proof (cases "k \<in> fst ` set remaining")
        case True
        with amt_in_set[OF True] ok v show ?thesis by (auto simp: refundable_def)
      next
        case False
        with amt_absent[OF False] amt_nonneg[OF src, of k] v show ?thesis by simp
      qed
    qed
    then show ?thesis unfolding spare_of_def by auto
  qed
  define tail where "tail \<longleftrightarrow>
    (if amount \<le> sum_amounts remaining then proportion_value_sources amount remaining = Inr r
     else \<exists>extra. proportion_value_sources (sub64 amount (sum_amounts remaining))
              (map (\<lambda>(k, limit). (k, sub64 limit (amt remaining k))) limits) = Inr extra
            \<and> add_value_amounts (restrict_to limits remaining) extra = Inr r)"
  have lim: "sum_limits limits 0 = Inr w \<longleftrightarrow> (\<forall>(k, a) \<in> set limits. k \<noteq> 0 \<and> 0 \<le> a) \<and>
      sum_amounts limits \<le> max64 \<and> w = sum_amounts limits" for w
    using sum_limits_weigh[of limits 0] weigh_sources_spec[of 0 limits] by (simp add: max64_def)
  have res: "sum_residual limits remaining 0 = Inr w \<longleftrightarrow> (\<forall>(k, a) \<in> set remaining. 0 \<le> a \<and> a \<le> amt limits k) \<and>
      sum_amounts remaining \<le> max64 \<and> w = sum_amounts remaining" for w
    using sum_residual_spec[of 0 limits remaining] by (simp add: max64_def)
  have "allocate_administrative_refund amount remaining limits = Inr r \<longleftrightarrow>
    0 \<le> amount \<and> (\<exists>w. sum_limits limits 0 = Inr w \<and> (\<exists>v. sum_residual limits remaining 0 = Inr v \<and>
      amount \<le> w \<and> (if amount \<le> v then proportion_value_sources amount remaining = Inr r
     else \<exists>extra. proportion_value_sources (sub64 amount v)
              (map (\<lambda>(k, limit). (k, sub64 limit (amt remaining k))) limits) = Inr extra
            \<and> add_value_amounts (restrict_to limits remaining) extra = Inr r)))"
    unfolding allocate_administrative_refund_def Let_def restrict_to_def by (simp add: not_less not_le)
  also have "\<dots> \<longleftrightarrow> refundable amount remaining limits \<and> tail"
    unfolding lim res refundable_def tail_def by blast
  finally have eq: "allocate_administrative_refund amount remaining limits = Inr r \<longleftrightarrow>
    refundable amount remaining limits \<and> tail" .
  show ?thesis
  proof (cases "refundable amount remaining limits")
    case True
    then show ?thesis unfolding eq tail_def spare[OF True] using sub[OF True] by simp
  qed (simp add: eq)
qed

lemma refundable_le:
  assumes "refundable amount remaining limits" "wf_amounts remaining" "wf_amounts limits"
  shows "wf_sources remaining" "wf_sources limits" "amt remaining k \<le> amt limits k"
    "k \<notin> fst ` set limits \<Longrightarrow> amt remaining k = 0"
proof -
  from assms show r: "wf_sources remaining" and l: "wf_sources limits"
    by (auto simp: refundable_def wf_sources_def)
  show le: "amt remaining k \<le> amt limits k"
  proof (cases "k \<in> fst ` set remaining")
    case True
    with amt_in_set[OF True] assms(1) show ?thesis by (auto simp: refundable_def)
  next
    case False
    with amt_absent[OF False] amt_nonneg[OF l, of k] show ?thesis by simp
  qed
  show "k \<notin> fst ` set limits \<Longrightarrow> amt remaining k = 0"
    using le amt_absent[of k limits] amt_nonneg[OF r, of k] by simp
qed

lemma spare_extra:
  assumes "refundable amount remaining limits" "wf_amounts remaining" "wf_amounts limits"
    and "\<not> amount \<le> sum_amounts remaining"
  shows "\<exists>extra r. proportion_value_sources (amount - sum_amounts remaining) (spare_of limits remaining) = Inr extra
    \<and> add_value_amounts (restrict_to limits remaining) extra = Inr r"
proof -
  let ?out = "restrict_to limits remaining" and ?spare = "spare_of limits remaining"
  note le = refundable_le[OF assms(1-3)]
  have wf: "wf_sources ?out" "wf_sources ?spare"
    using assms(3) le by (simp_all add: wf_restrict_to wf_spare_of)
  have sums: "sum_amounts ?out = sum_amounts remaining"
    "sum_amounts ?spare = sum_amounts limits - sum_amounts remaining"
    using sum_restrict_to[OF le(1) assms(3) le(4)] by (simp_all add: sum_spare_of)
  have rem: "0 \<le> sum_amounts remaining" by (rule sum_sources_nonneg[OF le(1)])
  have keys: "\<forall>(k, a) \<in> set ?spare. k \<noteq> 0 \<and> 0 \<le> a"
    using assms(1) wf(2) by (fastforce simp: refundable_def wf_sources_def spare_of_def)
  obtain extra where extra: "proportion_value_sources (amount - sum_amounts remaining) ?spare = Inr extra"
    using proportion_value_sources_cases[OF wf_sources_amounts[OF wf(2)]] keys sums(2) rem assms(1,4)
    by (auto simp: refundable_def)
  note spec = proportion_value_sources_spec[OF wf_sources_amounts[OF wf(2)] extra]
  have "0 \<le> a \<and> amt ?out k \<le> max64 - a" if "(k, a) \<in> set extra" for k a
  proof -
    have a: "amt extra k = a" by (rule amt_member[OF wf_sources_amounts[OF spec(1)] that])
    have "amt limits k \<le> max64" using amt_le_sum[OF le(2), of k] assms(1) by (simp add: refundable_def)
    moreover have "0 \<le> a" using amt_nonneg[OF spec(1), of k] a by simp
    moreover have "k \<in> fst ` set limits" using spec(4) that by (force simp: spare_of_def)
    ultimately show ?thesis using spec(3)[of k] a by (simp add: amt_restrict_to amt_spare_of)
  qed
  then have "addable ?out extra" by (auto simp: addable_def)
  from add_value_amounts_ok[OF wf(1) wf_distinct[OF wf_sources_amounts[OF spec(1)]] this] extra
  show ?thesis by blast
qed

section \<open>Properties\<close>

text \<open>
  Sharing a value over its cash sources is exact and never overdraws one: the shares add up to the
  value, and no source gives more than it holds. It succeeds for every value the sources can cover.
\<close>

theorem proportion_value_sources_exact:
  assumes "wf_amounts sources"
  shows "(case proportion_value_sources whole sources of
      Inr r \<Rightarrow> wf_amounts r \<and> sum_amounts r = whole \<and> 0 \<le> amt r k \<and> amt r k \<le> amt sources k
    | Inl e \<Rightarrow> e = ErrValueEvidence \<and> (whole < 0 \<or> sum_amounts sources < whole \<or> max64 < sum_amounts sources
        \<or> (\<exists>(i, a) \<in> set sources. i = 0 \<or> a < 0)))"
proof (cases "proportion_value_sources whole sources")
  case (Inr r)
  note spec = proportion_value_sources_spec[OF assms Inr]
  then show ?thesis using Inr amt_nonneg[OF spec(1)] by (simp add: wf_sources_amounts)
next
  case (Inl e)
  have "weigh_sources xs w = Inl e \<Longrightarrow> e = ErrValueEvidence" for xs w e
    by (induction xs w rule: weigh_sources.induct) (auto split: if_splits)
  with Inl have "e = ErrValueEvidence"
    by (auto simp: proportion_value_sources_def try_bind_def split: sum.splits if_splits)
  with Inl proportion_value_sources_cases[OF assms, of whole] show ?thesis by force
qed

theorem proportion_value_sources_exact_witness:
  "sum_amounts [(3, 3), (5, 4), (8, 3)] = 10 \<and> (0::int) \<le> 4 \<and> (4::int) \<le> 7"
proof -
  have "proportion_value_sources 10 [(3, 7), (5, 7), (8, 7)] = Inr [(3, 3), (5, 4), (8, 3)]"
    by code_simp
  with proportion_value_sources_exact[of "[(3, 7), (5, 7), (8, 7)]" 10 5] show ?thesis
    by (simp add: amt_Cons)
qed

text \<open>
  C17. An administrative refund is exact and fully funded: it adds up to the approved amount and takes
  from no order more than its limit; up to the residual value it only scales the residual sources
  down, and above it every residual source is kept in full.
\<close>

theorem administrative_refund_funded:
  assumes "wf_amounts remaining" "wf_amounts limits"
    and "allocate_administrative_refund amount remaining limits = Inr r"
  shows "sum_amounts r = amount \<and> 0 \<le> amt r k \<and> amt r k \<le> amt limits k
    \<and> (if amount \<le> sum_amounts remaining then amt r k \<le> amt remaining k else amt remaining k \<le> amt r k)"
proof -
  note cases = refund_cases[OF assms(1,2), THEN iffD1, OF assms(3)]
  note le = refundable_le[OF conjunct1[OF cases] assms(1,2)]
  show ?thesis
  proof (cases "amount \<le> sum_amounts remaining")
    case True
    with cases have "proportion_value_sources amount remaining = Inr r" by simp
    note spec = proportion_value_sources_spec[OF assms(1) this]
    from order_trans[OF spec(3)[of k] le(3)[of k]] True show ?thesis
      using amt_nonneg[OF spec(1), of k] spec(2) spec(3)[of k] by simp
  next
    case False
    let ?out = "restrict_to limits remaining" and ?spare = "spare_of limits remaining"
    from cases False obtain extra where extra:
      "proportion_value_sources (amount - sum_amounts remaining) ?spare = Inr extra"
      "add_value_amounts ?out extra = Inr r" by auto
    have wf: "wf_sources ?out" "wf_amounts ?spare"
      using assms(2) le by (simp_all add: wf_restrict_to wf_spare_of wf_sources_amounts)
    note spec = proportion_value_sources_spec[OF wf(2) extra(1)]
    note add = add_value_amounts_Inr[OF wf(1) wf_distinct[OF wf_sources_amounts[OF spec(1)]] extra(2)]
    have "sum_amounts r = amount" using add(5) spec(2) sum_restrict_to[OF le(1) assms(2) le(4)] by simp
    moreover have "0 \<le> amt extra k" by (rule amt_nonneg[OF spec(1)])
    moreover have "amt r k = amt remaining k + amt extra k" "amt extra k \<le> amt limits k - amt remaining k"
      using add(2)[of k] spec(3)[of k] le(3,4)[of k] amt_absent[of k limits]
      by (cases "k \<in> fst ` set limits"; simp add: amt_restrict_to amt_spare_of)+
    ultimately show ?thesis using False amt_nonneg[OF le(1), of k] by simp
  qed
qed

theorem administrative_refund_funded_witness:
  "sum_amounts [(3, 4), (5, 2)] = 6 \<and> (0::int) \<le> 2 \<and> (2::int) \<le> 5"
proof -
  have "allocate_administrative_refund 6 [(3, 3)] [(3, 4), (5, 2)] = Inr [(3, 4), (5, 2)]"
    by code_simp
  from administrative_refund_funded[OF _ _ this, of 3] show ?thesis by simp
qed

text \<open>
  A refund that the limits can fund is never refused: with limits and residuals of real orders,
  residuals inside the limits and the amount at most the sum of the limits, the allocation succeeds.
\<close>

theorem administrative_refund_succeeds:
  assumes "wf_amounts remaining" "wf_amounts limits" "refundable amount remaining limits"
    and "\<forall>(order, part) \<in> set remaining. order \<noteq> 0"
  shows "\<exists>r. allocate_administrative_refund amount remaining limits = Inr r"
proof (cases "amount \<le> sum_amounts remaining")
  case True
  with assms have "\<exists>r. proportion_value_sources amount remaining = Inr r"
    by (auto simp: proportion_value_sources_cases[OF assms(1)] refundable_def)
  with True assms(3) show ?thesis by (auto simp: refund_cases[OF assms(1,2)])
next
  case False
  with spare_extra[OF assms(3,1,2)] assms(3) show ?thesis by (auto simp: refund_cases[OF assms(1,2)])
qed

theorem administrative_refund_succeeds_witness:
  "\<exists>r. allocate_administrative_refund 6 [(3, 3)] [(3, 4), (5, 2)] = Inr r"
  by (rule administrative_refund_succeeds) (simp_all add: refundable_def max64_def amt_Cons)

text \<open>
  The order in which Go iterates over the source map does not matter: every order of the same
  entries is accepted or refused alike and leaves the same map.
\<close>

theorem add_value_amounts_any_order:
  assumes "wf_sources target" "distinct (map fst source)" "mset source' = mset source"
  shows "add_value_amounts target source' = add_value_amounts target source"
proof -
  have "mset (map fst source') = mset (map fst source)" using assms(3) by simp
  from mset_eq_imp_distinct_iff[OF this] mset_eq_setD[OF assms(3)] assms(2)
  have perm: "set source' = set source" "distinct (map fst source')" by simp_all
  then have same: "addable target source' \<longleftrightarrow> addable target source" "amt source' = amt source"
    using map_of_inject_set[OF assms(2) perm(2)] by (simp_all add: addable_def amt_def fun_eq_iff)
  note specs = add_value_amounts_spec[OF assms(1,2)] add_value_amounts_spec[OF assms(1) perm(2)]
  show ?thesis
  proof (cases "add_value_amounts target source")
    case (Inl e)
    with specs same show ?thesis by (cases "add_value_amounts target source'") auto
  next
    case (Inr r)
    with specs(1) same(1) have "addable target source'" by simp
    from add_value_amounts_ok[OF assms(1) perm(2) this]
    obtain r' where r': "add_value_amounts target source' = Inr r'" .
    note a = add_value_amounts_Inr[OF assms(1,2) Inr] and b = add_value_amounts_Inr[OF assms(1) perm(2) r']
    have "r' = r" using a(1,4) b(1,4) a(2) b(2) same(2) perm(1)
      by (intro amounts_ext) (simp_all add: wf_sources_amounts)
    with Inr r' show ?thesis by simp
  qed
qed

theorem add_value_amounts_any_order_witness:
  "add_value_amounts [(2, 1)] [(7, 3), (2, 5)] = add_value_amounts [(2, 1)] [(2, 5), (7, 3)]"
  by (rule add_value_amounts_any_order) (simp_all add: wf_sources_def)

end
