(* ===== verification/ValueTypes.thy ===== *)
theory ValueTypes
  imports ValueSources
begin

text \<open>
  The evidence the value engine replays: \<^verbatim>\<open>commerce/entitlement_value.go\<close>, the records of
  \<^verbatim>\<open>value_projection.go\<close>, \<^verbatim>\<open>value_perpetual_sync_types.go\<close> and
  \<^verbatim>\<open>value_timed_plan_sync.go\<close>, and the payloads their fingerprints are computed from. Times are
  instants: the location of a \<open>time.Time\<close> is not modelled, so \<open>reflect.DeepEqual\<close> on records is
  equality.
\<close>

section \<open>Snapshots of an entitlement\<close>

record entitlement_state =
  es_plan :: nat
  es_sku :: nat
  es_start :: gotime
  es_end :: gotime
  es_status :: string
  es_ended :: "gotime option"
  es_end_reason :: string
  es_total :: int
  es_used :: int
  es_cycle_used :: int
  es_reset_quota :: int
  es_policy :: int
  es_next_reset :: "gotime option"

record entitlement_snapshot =
  sn_event_id :: nat
  sn_event_at :: gotime
  sn_periods :: "paid_period list"
  sn_version :: int
  sn_order :: nat
  sn_subscription :: nat
  sn_currency :: string
  sn_paid :: int
  sn_verified :: bool
  sn_payment_basis :: string
  sn_kind :: string
  sn_mode :: string
  sn_captured :: gotime
  sn_term_start :: gotime
  sn_term_end :: gotime
  sn_billing_unit :: string
  sn_billing_value :: int
  sn_model :: string
  sn_before :: "entitlement_state option"
  sn_after :: entitlement_state
  sn_legacy_transfer :: bool

record value_projection =
  vp_model :: string
  vp_root :: nat
  vp_current :: int
  vp_future :: int
  vp_total :: int
  vp_sources :: amounts
  vp_fingerprint :: string
  vp_cycle :: value_cycle

text \<open>The zero values of Go.\<close>

definition zero_cycle :: value_cycle where
  "zero_cycle = \<lparr>vc_start = 0, vc_end = 0, vc_amount = 0\<rparr>"

definition empty_projection :: value_projection where
  "empty_projection = \<lparr>vp_model = [], vp_root = 0, vp_current = 0, vp_future = 0, vp_total = 0,
     vp_sources = [], vp_fingerprint = [], vp_cycle = zero_cycle\<rparr>"

section \<open>Quota synchronisations\<close>

record perpetual_sync_detail =
  pd_version :: int
  pd_kind :: string
  pd_subscription :: nat
  pd_epoch :: nat
  pd_plan :: nat
  pd_revision :: nat
  pd_base_order :: nat
  pd_old_base :: int
  pd_new_base :: int
  pd_used :: int
  pd_base_consumed :: int
  pd_remaining_before :: int
  pd_remaining_after :: int
  pd_before :: entitlement_state
  pd_after :: entitlement_state
  pd_fingerprint :: string

record perpetual_sync_event =
  pe_id :: nat
  pe_at :: gotime
  pe_detail :: perpetual_sync_detail

record perpetual_lot =
  pl_order :: nat
  pl_quota :: int
  pl_consumed :: int
  pl_paid :: int

record timed_sync_detail =
  td_version :: int
  td_kind :: string
  td_subscription :: nat
  td_epoch :: nat
  td_plan :: nat
  td_revision :: nat
  td_old_base :: int
  td_new_base :: int
  td_addon :: int
  td_before :: entitlement_state
  td_after :: entitlement_state
  td_current_before :: int
  td_current_after :: int
  td_captured :: gotime
  td_fingerprint :: string

record legacy_timed_sync =
  ls_plan :: nat
  ls_revision :: nat
  ls_actor :: nat
  ls_previous_total :: int
  ls_total :: int
  ls_used :: int
  ls_previous_reset :: int
  ls_reset :: int

record timed_sync_event =
  te_id :: nat
  te_at :: gotime
  te_epoch :: nat
  te_detail :: "timed_sync_detail option"
  te_legacy :: "legacy_timed_sync option"

section \<open>Fingerprints\<close>

text \<open>
  The structures that are marshalled and hashed. The digest function \<open>hex (sha256 (json x))\<close> is a
  parameter of the model, a result because \<open>json.Marshal\<close> can fail. A quote is hashed without the
  fields its JSON tags drop.
\<close>

datatype value_source =
    PaidGrant entitlement_snapshot
  | BaseSync perpetual_sync_event
  | PlanSync timed_sync_event

datatype value_payload =
    QuotePayload "entitlement_snapshot list" entitlement_state value_projection
  | LinkPayload nat string string value_source
  | PerpetualPayload nat string entitlement_state "perpetual_lot list" "value_projection option" "amounts option"
  | TimedPayload nat string entitlement_state value_projection amounts

type_synonym digest = "value_payload \<Rightarrow> string result"

definition quote_json :: "value_projection \<Rightarrow> value_projection" where
  "quote_json q = q\<lparr>vp_sources := [], vp_cycle := zero_cycle\<rparr>"

text \<open>The hexadecimal form of the zero \<open>[32]byte\<close>.\<close>

definition zero_digest :: string where
  "zero_digest = replicate 64 (CHR ''0'')"

definition fingerprint_value_projection ::
  "digest \<Rightarrow> entitlement_snapshot list \<Rightarrow> entitlement_state \<Rightarrow> value_projection \<Rightarrow> value_projection result" where
  "fingerprint_value_projection digest records current out =
     try_bind (digest (QuotePayload records current (quote_json out))) (\<lambda>sum.
       Inr (out\<lparr>vp_fingerprint := sum\<rparr>))"

section \<open>Shared tests\<close>

definition quota_for_value :: "entitlement_state \<Rightarrow> int result" where
  "quota_for_value s =
     (if es_used s < 0 \<or> es_cycle_used s < 0 \<or> es_used s < es_cycle_used s \<or> es_total s < es_cycle_used s
      then Inl ErrValueEvidence
      else Inr (sub64 (es_total s) (es_cycle_used s)))"

definition same_value_reset :: "gotime option \<Rightarrow> gotime option \<Rightarrow> bool" where
  "same_value_reset left right =
     (case (left, right) of
        (Some l, Some r) \<Rightarrow> l = r
      | (None, None) \<Rightarrow> True
      | _ \<Rightarrow> False)"

definition same_perpetual_state_identity :: "entitlement_state \<Rightarrow> entitlement_state \<Rightarrow> bool" where
  "same_perpetual_state_identity left right \<longleftrightarrow>
     es_plan left = es_plan right \<and> es_sku left = es_sku right \<and> es_start left = es_start right
     \<and> es_end left = es_end right \<and> is_perpetual_end (es_end left)
     \<and> es_cycle_used left = es_cycle_used right \<and> es_policy left = es_policy right
     \<and> (es_policy left = 0 \<or> es_policy left = 5)
     \<and> es_next_reset left = None \<and> es_next_reset right = None \<and> es_ended left = None"

text \<open>One millisecond of tolerance between a stored row and an exact instant.\<close>

definition perpetual_sync_time_before :: "gotime \<Rightarrow> gotime \<Rightarrow> bool" where
  "perpetual_sync_time_before nxt previous \<longleftrightarrow> nxt + millisecond < previous"

definition is_term_root :: "string \<Rightarrow> bool" where
  "is_term_root mode \<longleftrightarrow> mode = ''new_term'' \<or> mode = ''recovery_term'' \<or> mode = ''replacement_term''"

text \<open>
  The records sorted by event and cut at the last term start of the current entitlement. \<open>sort.Slice\<close>
  may order equal identifiers either way; every replay refuses two equal identifiers after the root.
\<close>

fun last_root :: "gotime \<Rightarrow> entitlement_snapshot list \<Rightarrow> entitlement_snapshot list option \<Rightarrow>
    entitlement_snapshot list option" where
  "last_root start [] found = found"
| "last_root start (s # rest) found =
     last_root start rest
       (if is_term_root (sn_mode s) \<and> es_start (sn_after s) = start then Some (s # rest) else found)"

definition records_from_root :: "entitlement_snapshot list \<Rightarrow> gotime \<Rightarrow> entitlement_snapshot list option" where
  "records_from_root records start = last_root start (sort_key sn_event_id records) None"

lemma last_root_Some:
  "last_root start xs found = Some r \<Longrightarrow> found = Some r \<or>
    (\<exists>s rest pre. r = s # rest \<and> xs = pre @ r \<and> is_term_root (sn_mode s) \<and> es_start (sn_after s) = start)"
proof (induction start xs found rule: last_root.induct)
  case (2 start s xs found)
  let ?root = "is_term_root (sn_mode s) \<and> es_start (sn_after s) = start"
  from "2.prems" have "last_root start xs (if ?root then Some (s # xs) else found) = Some r" by simp
  from "2.IH"[OF this] consider "(if ?root then Some (s # xs) else found) = Some r"
    | t rest pre where "r = t # rest" "xs = pre @ r" "is_term_root (sn_mode t)" "es_start (sn_after t) = start"
    by blast
  then show ?case
  proof cases
    case 1
    then show ?thesis
    proof (cases ?root)
      case True
      with 1 have "r = s # xs" "s # xs = [] @ r" by simp_all
      with True show ?thesis by blast
    qed simp
  next
    case 2
    then have "s # xs = (s # pre) @ r" by simp
    with 2 show ?thesis by blast
  qed
qed simp

text \<open>The chosen records are the sorted ones from the last matching term start on.\<close>

lemma records_from_root_Some:
  assumes "records_from_root records start = Some r"
  obtains s rest pre where "r = s # rest" "sort_key sn_event_id records = pre @ r"
    "is_term_root (sn_mode s)" "es_start (sn_after s) = start"
  using last_root_Some[OF assms[unfolded records_from_root_def]] by blast

end
