(* ===== verification/ValueFrame.thy ===== *)
theory ValueFrame
  imports ValueTypes
begin

text \<open>
  \<open>valueFrame\<close> of \<^verbatim>\<open>commerce/value_projection.go\<close>: the paid periods of one term with their
  owning orders, partitioned into quota cycles with a cache, and \<open>project\<close>, the refundable value of
  the current and future cycles with its cash sources.
\<close>

section \<open>The code\<close>

record value_basis_evidence =
  be_captured :: gotime
  be_time_only :: bool
  be_basis :: value_basis
  be_cycle_start :: gotime
  be_total_quota :: int
  be_sources :: amounts

record value_frame_cycles =
  fc_periods :: nat
  fc_policy :: int
  fc_cycles :: "value_cycle list"
  fc_sources :: "amounts list"

record value_frame =
  vf_periods :: "paid_period list"
  vf_owners :: "nat list"
  vf_anchor :: gotime
  vf_end :: gotime
  vf_basis :: "value_basis_evidence option"
  vf_cache :: "value_frame_cycles option"

text \<open>\<open>valueFrame.cycles\<close> without its cache, and then with it.\<close>

definition source_visit :: "nat list \<Rightarrow> amounts list visitor" where
  "source_visit owners n i delta sources =
     try_bind (add_value_amounts (sources ! i) [(owners ! n, delta)]) (\<lambda>m. Inr (sources[i := m]))"

definition frame_cycles :: "value_frame \<Rightarrow> int \<Rightarrow> (value_cycle list \<times> amounts list) result" where
  "frame_cycles f policy =
     try_bind (split_paid_value (vf_periods f) (vf_anchor f) policy) (\<lambda>cycles.
       if length (vf_owners f) \<noteq> length (vf_periods f) then Inl ErrValueEvidence
       else if 0 \<in> set (vf_owners f) then Inl ErrValueEvidence
       else try_bind (walk_value_allocations (source_visit (vf_owners f)) (vf_periods f) cycles
                        (replicate (length cycles) [])) (\<lambda>sources.
              Inr (cycles, sources)))"

definition cached_cycles ::
  "value_frame \<Rightarrow> int \<Rightarrow> (value_cycle list \<times> amounts list) result \<times> value_frame" where
  "cached_cycles f policy =
     (let miss = (case frame_cycles f policy of
          Inl e \<Rightarrow> (Inl e, f)
        | Inr (cycles, sources) \<Rightarrow>
            (Inr (cycles, sources),
             f\<lparr>vf_cache := Some \<lparr>fc_periods = length (vf_periods f), fc_policy = policy,
                                 fc_cycles = cycles, fc_sources = sources\<rparr>\<rparr>))
      in case vf_cache f of
          None \<Rightarrow> miss
        | Some c \<Rightarrow>
            if fc_periods c = length (vf_periods f) \<and> fc_policy c = policy
            then (Inr (fc_cycles c, fc_sources c), f) else miss)"

text \<open>\<open>valueFrame.project\<close>: the basis that values the current cycle, its value, and the loop.\<close>

definition basis_applies :: "value_frame \<Rightarrow> value_cycle \<Rightarrow> value_basis_evidence option" where
  "basis_applies f c =
     (case vf_basis f of
        None \<Rightarrow> None
      | Some e \<Rightarrow> if be_cycle_start e = vc_start c \<and> vb_end (be_basis e) = vc_end c then Some e else None)"

definition current_basis :: "value_frame \<Rightarrow> entitlement_state \<Rightarrow> gotime \<Rightarrow> int \<Rightarrow> value_cycle \<Rightarrow> amounts \<Rightarrow>
    (value_basis \<times> amounts \<times> gotime) result" where
  "current_basis f s at quota c sources =
     (case basis_applies f c of
        None \<Rightarrow> Inr (\<lparr>vb_at = vc_start c, vb_end = vc_end c, vb_amount = vc_amount c,
                      vb_used = es_cycle_used s, vb_quota = quota\<rparr>, sources, at)
      | Some e \<Rightarrow>
          let basis = be_basis e;
              captured = be_captured e;
              value_at = (if at < vb_at basis \<and> \<not> is_zero captured \<and> \<not> at < captured
                             \<and> \<not> vb_at basis < captured \<and> vb_at basis = round_ms captured
                          then vb_at basis else at);
              change = sub64 quota (be_total_quota e)
          in if change > 0 \<and> vb_quota basis > max64 - change then Inl ErrValueEvidence
             else Inr (basis\<lparr>vb_quota := add64 (vb_quota basis) change\<rparr>, be_sources e, value_at))"

definition current_value :: "value_frame \<Rightarrow> entitlement_state \<Rightarrow> value_cycle \<Rightarrow> value_basis \<Rightarrow> gotime \<Rightarrow> int result" where
  "current_value f s c basis value_at =
     (let time_only = (case basis_applies f c of None \<Rightarrow> False | Some e \<Rightarrow> be_time_only e)
      in try_bind
           (if time_only \<and> vb_quota basis \<le> 0 then
              (if es_used s \<noteq> vb_used basis then Inl ErrValueEvidence else time_remaining basis value_at)
            else Inr 0)
           (\<lambda>val. if vb_quota basis > 0 then remaining_value basis value_at (es_used s) else Inr val))"

fun project_cycles :: "value_frame \<Rightarrow> entitlement_state \<Rightarrow> gotime \<Rightarrow> int \<Rightarrow> (value_cycle \<times> amounts) list \<Rightarrow>
    value_projection \<Rightarrow> value_projection result" where
  "project_cycles f s at quota [] out = Inr out"
| "project_cycles f s at quota ((c, sources) # rest) out =
     (if \<not> at < vc_end c then project_cycles f s at quota rest out
      else if at < vc_start c then
        (if vp_future out > max64 - vc_amount c then Inl ErrValueEvidence
         else try_bind (add_value_amounts (vp_sources out) sources) (\<lambda>m.
           project_cycles f s at quota rest
             (out\<lparr>vp_future := add64 (vp_future out) (vc_amount c), vp_sources := m\<rparr>)))
      else
        try_bind (current_basis f s at quota c sources) (\<lambda>(basis, basis_sources, value_at).
        try_bind (current_value f s c basis value_at) (\<lambda>val.
        try_bind (proportion_value_sources val basis_sources) (\<lambda>shares.
        try_bind (add_value_amounts (vp_sources out) shares) (\<lambda>m.
          project_cycles f s at quota rest
            (out\<lparr>vp_cycle := c, vp_current := val, vp_sources := m\<rparr>))))))"

definition project :: "value_frame \<Rightarrow> entitlement_state \<Rightarrow> gotime \<Rightarrow> value_projection result" where
  "project f s at =
     try_bind (frame_cycles f (es_policy s)) (\<lambda>(cycles, sources).
     try_bind (quota_for_value s) (\<lambda>quota.
     try_bind (project_cycles f s at quota (zip cycles sources) empty_projection) (\<lambda>out.
       if vp_current out > max64 - vp_future out then Inl ErrValueEvidence
       else Inr (out\<lparr>vp_total := add64 (vp_current out) (vp_future out)\<rparr>))))"

text \<open>\<open>appendValuePeriods\<close>.\<close>

fun append_periods :: "gotime \<Rightarrow> nat \<Rightarrow> paid_period option \<Rightarrow> int \<Rightarrow> paid_period list \<Rightarrow> value_frame \<Rightarrow>
    (int \<times> value_frame) result" where
  "append_periods term_start order prev paid [] f = Inr (paid, f)"
| "append_periods term_start order prev paid (p # ps) f =
     (if pp_amount p < 0 \<or> paid > max64 - pp_amount p then Inl ErrValueEvidence
      else if (case prev of None \<Rightarrow> pp_start p \<noteq> term_start | Some q \<Rightarrow> pp_start p \<noteq> pp_end q)
      then Inl ErrValueEvidence
      else append_periods term_start order (Some p) (add64 paid (pp_amount p)) ps
             (f\<lparr>vf_periods := vf_periods f @ [p], vf_owners := vf_owners f @ [order]\<rparr>))"

definition append_value_periods :: "value_frame \<Rightarrow> entitlement_snapshot \<Rightarrow> value_frame result" where
  "append_value_periods f s =
     (if sn_periods s = [] \<or> sn_model s \<noteq> ''uniform_paid_units_v1'' \<or> \<not> sn_verified s
         \<or> sn_paid s < 0 \<or> sn_legacy_transfer s
      then Inl ErrValueEvidence
      else try_bind (append_periods (sn_term_start s) (sn_order s) None 0 (sn_periods s) f) (\<lambda>(paid, f').
        if paid \<noteq> sn_paid s \<or> pp_end (last (sn_periods s)) \<noteq> sn_term_end s then Inl ErrValueEvidence
        else Inr f'))"

text \<open>\<open>currentProjectionSources\<close>: the quote's sources less those of the future cycles.\<close>

fun subtract_sources :: "amounts \<Rightarrow> (nat \<times> int) list \<Rightarrow> amounts result" where
  "subtract_sources out [] = Inr out"
| "subtract_sources out ((order, amount) # sources) =
     (if amt out order < amount then Inl ErrValueEvidence
      else
        let left = sub64 (amt out order) amount
        in subtract_sources (if left = 0 then del order (put order left out) else put order left out) sources)"

fun subtract_future :: "gotime \<Rightarrow> (value_cycle \<times> amounts) list \<Rightarrow> amounts \<Rightarrow> amounts result" where
  "subtract_future at [] out = Inr out"
| "subtract_future at ((c, sources) # rest) out =
     (if at < vc_start c then try_bind (subtract_sources out sources) (subtract_future at rest)
      else subtract_future at rest out)"

fun sum_current :: "(nat \<times> int) list \<Rightarrow> int \<Rightarrow> int result" where
  "sum_current [] acc = Inr acc"
| "sum_current ((order, amount) # rest) acc =
     (if acc > max64 - amount then Inl ErrValueEvidence else sum_current rest (add64 acc amount))"

definition current_projection_sources ::
  "value_projection \<Rightarrow> value_frame \<Rightarrow> entitlement_state \<Rightarrow> gotime \<Rightarrow> amounts result" where
  "current_projection_sources quote frame s at =
     try_bind (add_value_amounts [] (vp_sources quote)) (\<lambda>out.
     try_bind (frame_cycles frame (es_policy s)) (\<lambda>(cycles, sources).
     try_bind (subtract_future at (zip cycles sources) out) (\<lambda>out.
     try_bind (sum_current out 0) (\<lambda>acc.
       if acc \<noteq> vp_current quote then Inl ErrValueEvidence else Inr out))))"

section \<open>The cache\<close>

text \<open>
  The cache belongs to a prefix of the periods that was partitioned under the same policy. Frames only
  grow, so a hit means the whole list.
\<close>

definition cache_ok :: "value_frame \<Rightarrow> bool" where
  "cache_ok f \<longleftrightarrow> (case vf_cache f of
     None \<Rightarrow> True
   | Some c \<Rightarrow> fc_periods c \<le> length (vf_periods f) \<and>
       frame_cycles (f\<lparr>vf_periods := take (fc_periods c) (vf_periods f),
                       vf_owners := take (fc_periods c) (vf_owners f)\<rparr>) (fc_policy c)
         = Inr (fc_cycles c, fc_sources c))"

lemma frame_cycles_cong:
  "vf_periods f = vf_periods g \<Longrightarrow> vf_owners f = vf_owners g \<Longrightarrow> vf_anchor f = vf_anchor g \<Longrightarrow>
    frame_cycles f policy = frame_cycles g policy"
  by (simp only: frame_cycles_def)

lemma frame_cycles_lengths:
  "frame_cycles f policy = Inr r \<Longrightarrow> length (vf_owners f) = length (vf_periods f)"
  by (auto simp: frame_cycles_def)

lemma frame_cycles_length: "frame_cycles f policy = Inr (cycles, sources) \<Longrightarrow>
    split_paid_value (vf_periods f) (vf_anchor f) policy = Inr cycles"
  by (auto simp: frame_cycles_def)

section \<open>Sources of the cycles\<close>

text \<open>A total of the periods that order \<open>k\<close> paid for.\<close>

definition owned :: "(paid_period \<Rightarrow> int) \<Rightarrow> paid_period list \<Rightarrow> nat list \<Rightarrow> nat \<Rightarrow> int" where
  "owned g ps owners k = sum_list (map (\<lambda>(p, order). if order = k then g p else 0) (zip ps owners))"

lemma owned_simps [simp]:
  "owned g [] owners k = 0"
  "owned g (p # ps) (order # owners) k = (if order = k then g p else 0) + owned g ps owners k"
  by (simp_all add: owned_def)

lemma owned_append:
  "length ps = length owners \<Longrightarrow>
    owned g (ps @ ps') (owners @ owners') k = owned g ps owners k + owned g ps' owners' k"
  by (simp add: owned_def)

lemma owned_mono:
  "\<forall>p \<in> set ps. g p \<le> h p \<Longrightarrow> owned g ps owners k \<le> owned h ps owners k"
  by (induction ps owners rule: list_induct2') (auto simp: owned_def)

lemma owned_diff: "owned (\<lambda>p. g p - h p) ps owners k = owned g ps owners k - owned h ps owners k"
  by (induction ps owners rule: list_induct2') (auto simp: owned_def)

lemma owned_sum: "owned (\<lambda>p. \<Sum>c \<leftarrow> cs. g p c) ps owners k = (\<Sum>c \<leftarrow> cs. owned (\<lambda>p. g p c) ps owners k)"
  by (induction ps owners rule: list_induct2') (auto simp: owned_def sum_list_addf)

lemma owned_cong: "(\<And>p. p \<in> set ps \<Longrightarrow> g p = h p) \<Longrightarrow> owned g ps owners k = owned h ps owners k"
  by (induction ps owners rule: list_induct2') (auto simp: owned_def)

lemma owned_absent: "k \<notin> set owners \<Longrightarrow> owned g ps owners k = 0"
  by (induction ps owners rule: list_induct2') (auto simp: owned_def)

lemma owned_replicate: "owned g ps (replicate (length ps) order) k = (if order = k then sum_list (map g ps) else 0)"
  by (induction ps) (auto simp: owned_def)

definition source_room :: "nat \<Rightarrow> amounts list \<Rightarrow> int \<Rightarrow> bool" where
  "source_room cols st r \<longleftrightarrow> length st = cols \<and> (\<forall>m \<in> set st. wf_sources m \<and> sum_amounts m + r \<le> max64)"

lemma source_visit_ok:
  assumes "i < cols" "source_room cols st r" "0 \<le> d" "d \<le> r"
  shows "\<exists>st'. source_visit owners n i d st = Inr st' \<and> source_room cols st' (r - d)
    \<and> (\<forall>j. sum_amounts (st' ! j) = sum_amounts (st ! j) + (if i = j then 1 else 0) * d)
    \<and> (\<forall>j k. amt (st' ! j) k = amt (st ! j) k + (if i = j \<and> owners ! n = k then 1 else 0) * d)"
proof -
  let ?m = "st ! i" and ?one = "[(owners ! n, d)]"
  have m: "wf_sources ?m" "sum_amounts ?m + r \<le> max64" and len: "length st = cols"
    using assms(1,2) by (auto simp: source_room_def)
  have "addable ?m ?one" using m amt_le_sum[OF m(1), of "owners ! n"] assms(3,4) by (simp add: addable_def)
  from add_value_amounts_ok[OF m(1) _ this] obtain r' where r': "add_value_amounts ?m ?one = Inr r'" by auto
  have spec: "wf_sources r'" "sum_amounts r' = sum_amounts ?m + d"
    "\<And>k. amt r' k = amt ?m k + (if owners ! n = k then d else 0)"
    using add_value_amounts_Inr[OF m(1) _ r'] by (auto simp: amt_Cons)
  have "source_room cols (st[i := r']) (r - d)"
    using assms(2-4) spec m
    by (fastforce simp: source_room_def dest!: subsetD[OF set_update_subset_insert])
  with r' spec len assms(1) show ?thesis
    by (auto simp: source_visit_def nth_list_update)
qed

interpretation cycle_sources: allocation_visitor "source_visit owners" rows cols "source_room cols"
  "\<lambda>st. sum_amounts (st ! j)" "\<lambda>_ i. if i = j then 1 else 0" for owners rows cols j
  using source_visit_ok by unfold_locales fastforce

interpretation order_sources: allocation_visitor "source_visit owners" rows cols "source_room cols"
  "\<lambda>st. amt (st ! j) k" "\<lambda>n i. if i = j \<and> owners ! n = k then 1 else 0" for owners rows cols j k
proof
  fix n i st r d
  assume "n < rows" and a: "i < cols" "source_room cols st r" "0 \<le> d" "d \<le> r"
  from source_visit_ok[OF a, of owners n] show "\<exists>st'. source_visit owners n i d st = Inr st' \<and>
      source_room cols st' (r - d) \<and>
      amt (st' ! j) k = amt (st ! j) k + (if i = j \<and> owners ! n = k then 1 else 0) * d" by blast
qed

lemma weighted_none: "weighted (\<lambda>_. 0) p i cs = 0"
  by (induction cs arbitrary: i) auto

lemma weighted_sum_owned:
  "length owners = length ps \<Longrightarrow> n + length ps = length (pre @ owners) \<Longrightarrow>
    weighted_sum (\<lambda>m i. if i = j \<and> (pre @ owners) ! m = k then 1 else 0) n ps 0 cs =
      (if j < length cs then owned (\<lambda>p. cycle_share p (cs ! j)) ps owners k else 0)"
proof (induction owners ps arbitrary: n pre rule: list_induct2)
  case (Cons order owners p ps)
  then have n: "n = length pre" by simp
  have here: "weighted (\<lambda>i. if i = j \<and> order = k then 1 else 0) p 0 cs =
      (if order = k then (if j < length cs then cycle_share p (cs ! j) else 0) else 0)"
    using weighted_single[of j p 0 cs] weighted_none[of p 0 cs] by (cases "order = k") simp_all
  show ?case using Cons.IH[of "Suc n" "pre @ [order]"] Cons.prems
    by (simp add: n nth_append here)
qed simp

lemma frame_cycles_spec:
  assumes "frame_cycles f policy = Inr (cs, srcs)"
  defines "ps \<equiv> vf_periods f" and "owners \<equiv> vf_owners f"
  shows "split_paid_value ps (vf_anchor f) policy = Inr cs" "length srcs = length cs" "length owners = length ps"
    "j < length cs \<Longrightarrow> wf_sources (srcs ! j)"
    "j < length cs \<Longrightarrow> sum_amounts (srcs ! j) = vc_amount (cs ! j)"
    "j < length cs \<Longrightarrow> amt (srcs ! j) k = owned (\<lambda>p. cycle_share p (cs ! j)) ps owners k"
    "0 \<notin> set owners"
proof -
  from assms(1) show split: "split_paid_value ps (vf_anchor f) policy = Inr cs"
    and len: "length owners = length ps" and "0 \<notin> set owners"
    by (auto simp: frame_cycles_def ps_def owners_def)
  from assms(1) have walk: "walk_periods (source_visit owners) 0 ps 0 cs (replicate (length cs) []) = Inr srcs"
    by (auto simp: frame_cycles_def ps_def owners_def walk_value_allocations_def)
  note parts = split_paid_value_parts[OF split]
  have room: "source_room (length cs) (replicate (length cs) []) (sum_list (map pp_amount ps))"
    using parts(4) by (auto simp: source_room_def)
  note total = cycle_sources.walk_periods_ok[OF parts(3,2,1) order_refl order_refl _ _ room,
      of 0 "length ps" 0 owners] and order = order_sources.walk_periods_ok[OF parts(3,2,1) order_refl order_refl _ _ room,
      of 0 "length ps" 0 owners]
  from total[of undefined] walk have "source_room (length cs) srcs 0" by auto
  then show "length srcs = length cs" "j < length cs \<Longrightarrow> wf_sources (srcs ! j)"
    by (auto simp: source_room_def)
  show "sum_amounts (srcs ! j) = vc_amount (cs ! j)" if "j < length cs"
    using total[of j] walk that parts(7)[OF that] by (auto simp: weighted_sum_shares cong: if_cong)
  show "amt (srcs ! j) k = owned (\<lambda>p. cycle_share p (cs ! j)) ps owners k" if "j < length cs"
    using order[of j k] walk that weighted_sum_owned[of owners ps 0 "[]" j k cs] len by auto
qed

section \<open>Value after an instant\<close>

text \<open>What order \<open>k\<close> paid for the time after \<open>t\<close>, and what all orders did.\<close>

definition owned_after :: "value_frame \<Rightarrow> nat \<Rightarrow> gotime \<Rightarrow> int" where
  "owned_after f k t = owned (\<lambda>p. pp_amount p - share_upto p (clip p t)) (vf_periods f) (vf_owners f) k"

definition paid_after :: "value_frame \<Rightarrow> gotime \<Rightarrow> int" where
  "paid_after f t = (\<Sum>p \<leftarrow> vf_periods f. pp_amount p - share_upto p (clip p t))"

definition owned_paid :: "value_frame \<Rightarrow> nat \<Rightarrow> int" where
  "owned_paid f k = owned pp_amount (vf_periods f) (vf_owners f) k"

definition wf_frame :: "value_frame \<Rightarrow> bool" where
  "wf_frame f \<longleftrightarrow> (\<forall>p \<in> set (vf_periods f). wf_period p) \<and> length (vf_owners f) = length (vf_periods f)"

lemma share_upto_nonneg: "wf_period p \<Longrightarrow> 0 \<le> share_upto p t"
  by (simp add: share_upto_def wf_period_def half_up.share_nonneg)

lemma share_upto_le: "wf_period p \<Longrightarrow> share_upto p t \<le> pp_amount p"
  by (simp add: share_upto_def wf_period_def half_up.share_le)

lemma owned_after_antimono: "wf_frame f \<Longrightarrow> t \<le> u \<Longrightarrow> owned_after f k u \<le> owned_after f k t"
  unfolding owned_after_def wf_frame_def by (intro owned_mono) (auto intro: share_upto_mono clip_mono)

lemma owned_after_le: "wf_frame f \<Longrightarrow> owned_after f k t \<le> owned_paid f k"
  unfolding owned_after_def owned_paid_def wf_frame_def
  by (intro owned_mono) (auto intro: share_upto_nonneg)

lemma owned_nonneg: "\<forall>p \<in> set ps. 0 \<le> g p \<Longrightarrow> 0 \<le> owned g ps owners k"
  by (induction ps owners rule: list_induct2') (auto simp: owned_def)

lemma owned_after_nonneg: "wf_frame f \<Longrightarrow> 0 \<le> owned_after f k t"
  unfolding owned_after_def wf_frame_def by (intro owned_nonneg) (auto intro: share_upto_le)

lemma frame_cycles_wf: "frame_cycles f policy = Inr r \<Longrightarrow> wf_frame f"
  using frame_cycles_spec(1,3)[of f policy] split_paid_value_parts(3)[of "vf_periods f" "vf_anchor f" policy]
  by (cases r) (auto simp: wf_frame_def)

text \<open>The cycles of a frame with their sources, as an interface for the loops over them.\<close>

definition sourced :: "value_frame \<Rightarrow> (value_cycle \<times> amounts) list \<Rightarrow> gotime \<Rightarrow> bool" where
  "sourced f zs t \<longleftrightarrow> cycles_chain t (map fst zs) (pp_end (last (vf_periods f)))
     \<and> (\<forall>(c, m) \<in> set zs. wf_sources m \<and> 0 \<le> vc_amount c \<and> sum_amounts m = vc_amount c
          \<and> (\<forall>k. amt m k = owned (\<lambda>p. cycle_share p c) (vf_periods f) (vf_owners f) k))"

lemma sourced_Cons: "sourced f ((c, m) # zs) t \<longleftrightarrow> vc_start c = t \<and> vc_start c < vc_end c \<and> wf_sources m
    \<and> 0 \<le> vc_amount c \<and> sum_amounts m = vc_amount c
    \<and> (\<forall>k. amt m k = owned (\<lambda>p. cycle_share p c) (vf_periods f) (vf_owners f) k) \<and> sourced f zs (vc_end c)"
  by (auto simp: sourced_def)

lemma frame_cycles_sourced:
  assumes "frame_cycles f policy = Inr (cs, srcs)"
  shows "sourced f (zip cs srcs) (pp_start (hd (vf_periods f)))" "map fst (zip cs srcs) = cs"
proof -
  note spec = frame_cycles_spec[OF assms]
  note parts = split_paid_value_parts[OF spec(1)]
  show fst: "map fst (zip cs srcs) = cs" using spec(2) by simp
  have "wf_sources m \<and> 0 \<le> vc_amount c \<and> sum_amounts m = vc_amount c
      \<and> (\<forall>k. amt m k = owned (\<lambda>p. cycle_share p c) (vf_periods f) (vf_owners f) k)"
    if "(c, m) \<in> set (zip cs srcs)" for c m
  proof -
    from that spec(2) obtain j where j: "j < length cs" "c = cs ! j" "m = srcs ! j"
      by (auto simp: in_set_conv_nth)
    with spec(4,5)[OF j(1)] spec(6)[OF j(1)] parts(5) show ?thesis by simp
  qed
  with parts(1) fst show "sourced f (zip cs srcs) (pp_start (hd (vf_periods f)))"
    by (auto simp: sourced_def)
qed

text \<open>The sources of all cycles from \<open>t\<close> on are what was paid for the time after \<open>t\<close>.\<close>

lemma sourced_owned_after:
  assumes "sourced f zs t" "wf_frame f" "\<forall>p \<in> set (vf_periods f). pp_end p \<le> pp_end (last (vf_periods f))"
  shows "(\<Sum>(c, m) \<leftarrow> zs. amt m k) = owned_after f k t"
    and "(\<Sum>(c, m) \<leftarrow> zs. vc_amount c) = (\<Sum>(c, m) \<leftarrow> zs. sum_amounts m)"
proof -
  let ?b = "pp_end (last (vf_periods f))"
  have chain: "cycles_chain t (map fst zs) ?b" using assms(1) by (simp add: sourced_def)
  have "(\<Sum>(c, m) \<leftarrow> zs. amt m k) = (\<Sum>c \<leftarrow> map fst zs. owned (\<lambda>p. cycle_share p c) (vf_periods f) (vf_owners f) k)"
    using assms(1) unfolding sourced_def map_map
    by (intro arg_cong[where f = sum_list] map_cong) (auto simp: split_beta)
  also have "\<dots> = owned (\<lambda>p. \<Sum>c \<leftarrow> map fst zs. cycle_share p c) (vf_periods f) (vf_owners f) k"
    by (rule owned_sum[symmetric])
  also have "\<dots> = owned_after f k t"
    unfolding owned_after_def
  proof (rule owned_cong)
    fix p assume p: "p \<in> set (vf_periods f)"
    then have "wf_period p" "clip p ?b = pp_end p" using assms(2,3) wf_period_less[of p]
      by (auto simp: wf_frame_def clip_def)
    with sum_cycle_share[OF chain, of p] show "(\<Sum>c \<leftarrow> map fst zs. cycle_share p c) = pp_amount p - share_upto p (clip p t)"
      by simp
  qed
  finally show "(\<Sum>(c, m) \<leftarrow> zs. amt m k) = owned_after f k t" .
  show "(\<Sum>(c, m) \<leftarrow> zs. vc_amount c) = (\<Sum>(c, m) \<leftarrow> zs. sum_amounts m)"
    using assms(1) by (intro arg_cong[where f = sum_list] map_cong) (auto simp: sourced_def)
qed

section \<open>The projection loop\<close>

lemma project_future:
  "project_cycles f s at quota zs out = Inr out' \<Longrightarrow> sourced f zs t \<Longrightarrow> at < t \<Longrightarrow>
    wf_sources (vp_sources out) \<Longrightarrow> 0 \<le> vp_future out \<Longrightarrow> vp_future out \<le> max64 \<Longrightarrow>
    vp_cycle out' = vp_cycle out \<and> vp_current out' = vp_current out
    \<and> vp_future out' = vp_future out + (\<Sum>(c, m) \<leftarrow> zs. vc_amount c)
    \<and> 0 \<le> vp_future out' \<and> vp_future out' \<le> max64 \<and> wf_sources (vp_sources out')
    \<and> (\<forall>k. amt (vp_sources out') k = amt (vp_sources out) k + (\<Sum>(c, m) \<leftarrow> zs. amt m k))
    \<and> sum_amounts (vp_sources out') = sum_amounts (vp_sources out) + (\<Sum>(c, m) \<leftarrow> zs. sum_amounts m)"
proof (induction zs arbitrary: out t)
  case (Cons z zs)
  obtain c m where z: "z = (c, m)" by force
  from Cons.prems(2) have c: "vc_start c = t" "t < vc_end c" "wf_sources m" "0 \<le> vc_amount c" "sourced f zs (vc_end c)"
    by (auto simp: z sourced_Cons)
  with Cons.prems(1,3) obtain m' where m': "add_value_amounts (vp_sources out) m = Inr m'"
    and guard: "\<not> vp_future out > max64 - vc_amount c"
    and rest: "project_cycles f s at quota zs
      (out\<lparr>vp_future := add64 (vp_future out) (vc_amount c), vp_sources := m'\<rparr>) = Inr out'"
    by (auto simp: z split: if_splits)
  have add: "add64 (vp_future out) (vc_amount c) = vp_future out + vc_amount c"
    using Cons.prems(5) c(4) guard by (intro add64_guarded) auto
  note m = add_value_amounts_Inr[OF Cons.prems(4) wf_distinct[OF wf_sources_amounts[OF c(3)]] m']
  have "at < vc_end c" using Cons.prems(3) c(2) by simp
  from Cons.IH[OF rest c(5) this] m(1,2,5) add guard c(4) Cons.prems(5) show ?case
    by (simp add: z add.assoc)
qed simp

text \<open>
  What a successful projection consists of: the shares \<open>cur\<close> of the current value, and the sources
  of the time from \<open>t\<close> on, the end of the current cycle if there is one.
\<close>

definition current_part :: "value_frame \<Rightarrow> entitlement_state \<Rightarrow> gotime \<Rightarrow> value_projection \<Rightarrow> (value_cycle \<times> amounts) list \<Rightarrow>
    amounts \<Rightarrow> gotime \<Rightarrow> bool" where
  "current_part f s at q zs cur t \<longleftrightarrow>
     (\<exists>quota m basis srcs value_at. (vp_cycle q, m) \<in> set zs \<and> t = vc_end (vp_cycle q)
        \<and> vc_start (vp_cycle q) \<le> at \<and> at < t \<and> quota_for_value s = Inr quota
        \<and> current_basis f s at quota (vp_cycle q) m = Inr (basis, srcs, value_at)
        \<and> current_value f s (vp_cycle q) basis value_at = Inr (vp_current q)
        \<and> proportion_value_sources (vp_current q) srcs = Inr cur)"

definition no_current_part :: "gotime \<Rightarrow> value_projection \<Rightarrow> (value_cycle \<times> amounts) list \<Rightarrow> amounts \<Rightarrow> gotime \<Rightarrow> bool" where
  "no_current_part at q zs cur t \<longleftrightarrow> vp_cycle q = zero_cycle \<and> vp_current q = 0 \<and> cur = []
     \<and> (\<forall>(c, m) \<in> set zs. \<not> (vc_start c \<le> at \<and> at < vc_end c))"

lemma sourced_after: "sourced f zs t \<Longrightarrow> (c, m) \<in> set zs \<Longrightarrow> t \<le> vc_start c \<and> vc_start c < vc_end c"
  unfolding sourced_def using cycles_chain_bounds[of t "map fst zs" _ c] by force

abbreviation future_cycles :: "gotime \<Rightarrow> (value_cycle \<times> amounts) list \<Rightarrow> (value_cycle \<times> amounts) list" where
  "future_cycles at zs \<equiv> filter (\<lambda>(c, m). at < vc_start c) zs"

lemma future_cycles_all: "sourced f zs t \<Longrightarrow> at < t \<Longrightarrow> future_cycles at zs = zs"
  using sourced_after[of f zs t] by (fastforce simp: filter_id_conv)

definition basis_sources_ok :: "value_frame \<Rightarrow> bool" where
  "basis_sources_ok f \<longleftrightarrow> (\<forall>e. vf_basis f = Some e \<longrightarrow> wf_sources (be_sources e))"

lemma current_basis_sources:
  assumes "current_basis f s at quota c m = Inr (basis, srcs, value_at)"
  shows "srcs = (case basis_applies f c of None \<Rightarrow> m | Some e \<Rightarrow> be_sources e)"
  using assms by (auto simp: current_basis_def Let_def split: option.splits if_splits)

lemma current_basis_wf:
  assumes "current_basis f s at quota c m = Inr (basis, srcs, value_at)" "wf_sources m" "basis_sources_ok f"
  shows "wf_sources srcs"
  using current_basis_sources[OF assms(1)] assms(2,3)
  by (auto simp: basis_applies_def basis_sources_ok_def split: option.splits if_splits)

definition parts_add_up :: "value_projection \<Rightarrow> (value_cycle \<times> amounts) list \<Rightarrow> amounts \<Rightarrow> bool" where
  "parts_add_up q ys cur \<longleftrightarrow> wf_sources cur \<and> sum_amounts cur = vp_current q \<and> wf_sources (vp_sources q)
     \<and> (\<forall>k. amt (vp_sources q) k = amt cur k + (\<Sum>(c, m) \<leftarrow> ys. amt m k))
     \<and> sum_amounts (vp_sources q) = vp_current q + vp_future q
     \<and> vp_future q = (\<Sum>(c, m) \<leftarrow> ys. vc_amount c) \<and> 0 \<le> vp_future q \<and> vp_future q \<le> max64"

lemma empty_projection_simps [simp]:
  "vp_current empty_projection = 0" "vp_future empty_projection = 0" "vp_sources empty_projection = []"
  "vp_cycle empty_projection = zero_cycle" "vp_total empty_projection = 0"
  by (simp_all add: empty_projection_def)

lemma project_future_parts:
  assumes "project_cycles f s at quota zs out = Inr q" "sourced f zs t" "at < t"
    and "wf_sources (vp_sources out)" "sum_amounts (vp_sources out) = vp_current out" "vp_future out = 0"
  shows "parts_add_up q zs (vp_sources out)" "vp_cycle q = vp_cycle out" "vp_current q = vp_current out"
proof -
  have amounts: "(\<Sum>(c, m) \<leftarrow> zs. vc_amount c) = (\<Sum>(c, m) \<leftarrow> zs. sum_amounts m)"
    using assms(2) by (intro arg_cong[where f = sum_list] map_cong) (auto simp: sourced_def)
  note future = project_future[OF assms(1-4)]
  show "parts_add_up q zs (vp_sources out)" "vp_cycle q = vp_cycle out" "vp_current q = vp_current out"
    using future assms(4-6) amounts by (simp_all add: parts_add_up_def max64_def)
qed

lemma project_loop:
  assumes "project_cycles f s at quota zs empty_projection = Inr q" "sourced f zs t0"
    and "quota_for_value s = Inr quota" "basis_sources_ok f"
  shows "\<exists>cur t. (current_part f s at q zs cur t \<or> no_current_part at q zs cur t)
    \<and> sourced f (future_cycles at zs) t \<and> parts_add_up q (future_cycles at zs) cur"
  using assms(1,2)
proof (induction zs arbitrary: t0)
  case Nil
  then show ?case
    by (intro exI[of _ "[]"] exI[of _ t0]) (auto simp: no_current_part_def parts_add_up_def max64_def)
next
  case (Cons z zs)
  obtain c m where z: "z = (c, m)" by force
  from Cons.prems(2) have c: "vc_start c = t0" "t0 < vc_end c" "wf_sources m" "sourced f zs (vc_end c)"
    by (auto simp: z sourced_Cons)
  consider "vc_end c \<le> at" | "at < t0" | "t0 \<le> at" "at < vc_end c" by linarith
  then show ?case
  proof cases
    case 1
    with Cons.prems(1) have "project_cycles f s at quota zs empty_projection = Inr q" by (simp add: z)
    from Cons.IH[OF this c(4)] obtain cur t where IH:
      "current_part f s at q zs cur t \<or> no_current_part at q zs cur t" "sourced f (future_cycles at zs) t"
      "parts_add_up q (future_cycles at zs) cur" by blast
    have "future_cycles at (z # zs) = future_cycles at zs" using 1 c(1,2) by (simp add: z)
    moreover from IH(1) have "current_part f s at q (z # zs) cur t \<or> no_current_part at q (z # zs) cur t"
      using 1 unfolding current_part_def no_current_part_def z set_simps by (auto 4 3)
    ultimately show ?thesis using IH(2,3) by metis
  next
    case 2
    from project_future_parts[OF Cons.prems 2] future_cycles_all[OF Cons.prems(2) 2]
    have "parts_add_up q (future_cycles at (z # zs)) []" "vp_cycle q = zero_cycle" "vp_current q = 0"
      "future_cycles at (z # zs) = z # zs" by simp_all
    moreover have "\<forall>(c, m) \<in> set (z # zs). \<not> (vc_start c \<le> at \<and> at < vc_end c)"
      using sourced_after[OF Cons.prems(2)] 2 by fastforce
    ultimately show ?thesis using Cons.prems(2)
      by (intro exI[of _ "[]"] exI[of _ t0]) (simp add: no_current_part_def)
  next
    case 3
    with Cons.prems(1) c(1) obtain basis srcs value_at val shares m' where cur:
      "current_basis f s at quota c m = Inr (basis, srcs, value_at)"
      "current_value f s c basis value_at = Inr val" "proportion_value_sources val srcs = Inr shares"
      "add_value_amounts [] shares = Inr m'"
      and rest: "project_cycles f s at quota zs
        (empty_projection\<lparr>vp_cycle := c, vp_current := val, vp_sources := m'\<rparr>) = Inr q"
      by (auto simp: z)
    have srcs: "wf_amounts srcs" using current_basis_wf[OF cur(1) c(3) assms(4)] by (rule wf_sources_amounts)
    note shares = proportion_value_sources_spec[OF srcs cur(3)]
    note m' = add_value_amounts_Inr[OF wf_sources_Nil wf_distinct[OF wf_sources_amounts[OF shares(1)]] cur(4)]
    have "m' = shares"
      using m'(1,4) m'(2) shares(1) by (intro amounts_ext) (simp_all add: wf_sources_amounts)
    with project_future_parts[OF rest c(4) 3(2)] shares(1,2)
    have q: "parts_add_up q zs shares" "vp_cycle q = c" "vp_current q = val" by simp_all
    have "current_part f s at q (z # zs) shares (vc_end c)"
      unfolding current_part_def using 3 c(1) assms(3) cur(1-3) q(2,3) by (auto simp: z)
    moreover have "future_cycles at (z # zs) = zs"
      using future_cycles_all[OF c(4) 3(2)] 3 c(1) by (simp add: z)
    ultimately show ?thesis using q(1) c(4) by metis
  qed
qed

lemma project_parts:
  assumes "project f s at = Inr q" "basis_sources_ok f"
  obtains cs srcs cur t where "frame_cycles f (es_policy s) = Inr (cs, srcs)"
    "sourced f (zip cs srcs) (pp_start (hd (vf_periods f)))"
    "current_part f s at q (zip cs srcs) cur t \<or> no_current_part at q (zip cs srcs) cur t"
    "parts_add_up q (future_cycles at (zip cs srcs)) cur"
    "vp_total q = vp_current q + vp_future q" "vp_total q \<le> max64"
    "\<forall>k. (\<Sum>(c, m) \<leftarrow> future_cycles at (zip cs srcs). amt m k) = owned_after f k t"
proof -
  from assms(1) obtain cs srcs quota out where
    cycles: "frame_cycles f (es_policy s) = Inr (cs, srcs)" and quota: "quota_for_value s = Inr quota"
    and loop: "project_cycles f s at quota (zip cs srcs) empty_projection = Inr out"
    and guard: "\<not> vp_current out > max64 - vp_future out"
    and q: "q = out\<lparr>vp_total := add64 (vp_current out) (vp_future out)\<rparr>"
    by (auto simp: project_def)
  let ?zs = "zip cs srcs"
  from project_loop[OF loop frame_cycles_sourced(1)[OF cycles] quota assms(2)] obtain cur t where
    parts: "current_part f s at out ?zs cur t \<or> no_current_part at out ?zs cur t"
    "sourced f (future_cycles at ?zs) t" "parts_add_up out (future_cycles at ?zs) cur" by blast
  have nonneg: "0 \<le> vp_current out" "0 \<le> vp_future out"
    using parts(3) sum_sources_nonneg[of cur] by (auto simp: parts_add_up_def)
  then have add: "add64 (vp_current out) (vp_future out) = vp_current out + vp_future out"
    "vp_current out + vp_future out \<le> max64" using guard by (simp_all add: add64_def in64_nonneg)
  have split: "periods_chain (pp_start (hd (vf_periods f))) (vf_periods f) (pp_end (last (vf_periods f)))"
    using split_paid_value_parts(2)[OF frame_cycles_spec(1)[OF cycles]] .
  have "(\<Sum>(c, m) \<leftarrow> future_cycles at ?zs. amt m k) = owned_after f k t" for k
    using periods_chain_bounds[OF split] by (intro sourced_owned_after[OF parts(2) frame_cycles_wf[OF cycles]]) blast
  with cycles parts add frame_cycles_sourced(1)[OF cycles] show thesis
    by (intro that[of cs srcs cur t])
      (simp_all add: q current_part_def no_current_part_def parts_add_up_def)
qed

section \<open>Budgets\<close>

text \<open>
  \<open>budget k\<close> bounds what order \<open>k\<close> has paid: its periods, and the sources of the basis together with
  the time after the basis cycle.
\<close>

definition funded :: "value_frame \<Rightarrow> (nat \<Rightarrow> int) \<Rightarrow> bool" where
  "funded f budget \<longleftrightarrow> basis_sources_ok f \<and> (\<forall>k. owned_paid f k \<le> budget k)
     \<and> (\<forall>e k. vf_basis f = Some e \<longrightarrow>
          amt (be_sources e) k + owned_after f k (vb_end (be_basis e)) \<le> budget k)"

lemma funded_basis: "funded f budget \<Longrightarrow> basis_sources_ok f"
  by (simp add: funded_def)

lemma owned_after_step:
  "owned (\<lambda>p. cycle_share p c) (vf_periods f) (vf_owners f) k + owned_after f k (vc_end c) = owned_after f k (vc_start c)"
  unfolding owned_after_def cycle_share_def owned_diff by simp

lemma parts_in_budget:
  assumes "funded f budget" "wf_frame f" "sourced f zs t0"
    and "current_part f s at q zs cur t \<or> no_current_part at q zs cur t"
  shows "amt cur k + owned_after f k t \<le> budget k"
proof -
  have paid: "owned_after f k u \<le> budget k" for u
    using owned_after_le[OF assms(2), of k u] assms(1) by (simp add: funded_def order_trans)
  from assms(4) show ?thesis
  proof
    assume "current_part f s at q zs cur t"
    then obtain quota m basis srcs value_at where c: "(vp_cycle q, m) \<in> set zs" "t = vc_end (vp_cycle q)"
      "current_basis f s at quota (vp_cycle q) m = Inr (basis, srcs, value_at)"
      "proportion_value_sources (vp_current q) srcs = Inr cur"
      by (auto simp: current_part_def)
    from assms(3) c(1) have m: "wf_sources m" "amt m k = owned (\<lambda>p. cycle_share p (vp_cycle q)) (vf_periods f) (vf_owners f) k"
      by (auto simp: sourced_def)
    have "wf_amounts srcs" using current_basis_wf[OF c(3) m(1) funded_basis[OF assms(1)]] by (rule wf_sources_amounts)
    from proportion_value_sources_spec(3)[OF this c(4)] have le: "amt cur k \<le> amt srcs k" .
    show ?thesis
    proof (cases "basis_applies f (vp_cycle q)")
      case None
      with current_basis_sources[OF c(3)] have "srcs = m" by simp
      with le m(2) owned_after_step[of "vp_cycle q" f k] paid[of "vc_start (vp_cycle q)"] c(2) show ?thesis by simp
    next
      case (Some e)
      with current_basis_sources[OF c(3)] have "srcs = be_sources e" by simp
      moreover from Some have "vf_basis f = Some e" "vb_end (be_basis e) = t"
        by (auto simp: basis_applies_def c(2) split: option.splits if_splits)
      moreover from this assms(1) have "amt (be_sources e) k + owned_after f k (vb_end (be_basis e)) \<le> budget k"
        unfolding funded_def by blast
      ultimately show ?thesis using le by simp
    qed
  next
    assume "no_current_part at q zs cur t"
    with paid[of t] show ?thesis by (simp add: no_current_part_def)
  qed
qed

section \<open>The current sources of a quote\<close>

lemma wf_sources_del: "wf_sources m \<Longrightarrow> wf_sources (del k m)"
proof -
  have "set (del k m) \<subseteq> set m" by (induction k m rule: del.induct) auto
  then show "wf_sources m \<Longrightarrow> wf_sources (del k m)" by (auto simp: wf_sources_def)
qed

lemma subtract_sources_ok:
  "wf_sources out \<Longrightarrow> wf_sources src \<Longrightarrow> \<forall>k. amt src k \<le> amt out k \<Longrightarrow> sum_amounts out \<le> max64 \<Longrightarrow>
    \<exists>r. subtract_sources out src = Inr r \<and> wf_sources r \<and> (\<forall>k. amt r k = amt out k - amt src k)
      \<and> sum_amounts r = sum_amounts out - sum_amounts src"
proof (induction src arbitrary: out)
  case (Cons z src)
  obtain order a where z: "z = (order, a)" by force
  from Cons.prems(2) have a: "0 \<le> a" "wf_sources src" "order \<notin> fst ` set src" by (auto simp: z wf_sources_Cons)
  have absent: "amt src order = 0" by (rule amt_absent[OF a(3)])
  have le: "a \<le> amt out order" using Cons.prems(3)[rule_format, of order] by (simp add: z amt_Cons)
  have sub: "sub64 (amt out order) a = amt out order - a"
    using le a(1) amt_le_sum[OF Cons.prems(1), of order] Cons.prems(4) by (intro sub64_nonneg) auto
  let ?left = "amt out order - a"
  let ?out = "if ?left = 0 then del order (put order ?left out) else put order ?left out"
  have put: "wf_sources (put order ?left out)" using Cons.prems(1) le by (intro wf_sources_put) auto
  have out: "wf_sources ?out" "\<And>k. amt ?out k = amt out k - (if k = order then a else 0)"
    "sum_amounts ?out = sum_amounts out - a"
    using put amt_del[OF wf_sources_amounts[OF put]] sum_amounts_del[OF wf_sources_amounts[OF put], of order]
      sum_amounts_put[OF wf_sources_amounts[OF Cons.prems(1)], of order ?left]
    by (auto simp: wf_sources_del)
  have "\<forall>k. amt src k \<le> amt ?out k"
  proof
    fix k
    show "amt src k \<le> amt ?out k"
      using Cons.prems(3)[rule_format, of k] le absent unfolding out(2) by (auto simp: z amt_Cons)
  qed
  from Cons.IH[OF out(1) a(2) this] out(3) Cons.prems(4) a(1) obtain r where
    r: "subtract_sources ?out src = Inr r" "wf_sources r" "\<forall>k. amt r k = amt ?out k - amt src k"
      "sum_amounts r = sum_amounts ?out - sum_amounts src" by auto
  have "subtract_sources out (z # src) = Inr r" using r(1) le by (simp add: z sub Let_def)
  moreover have "\<forall>k. amt r k = amt out k - amt (z # src) k"
    using r(3) absent unfolding out(2) by (simp add: z amt_Cons)
  ultimately show ?case using r(2,4) out(3) by (auto simp: z)
qed simp

lemma subtract_future_ok:
  "wf_sources out \<Longrightarrow> \<forall>(c, m) \<in> set zs. wf_sources m \<Longrightarrow>
    \<forall>k. (\<Sum>(c, m) \<leftarrow> future_cycles at zs. amt m k) \<le> amt out k \<Longrightarrow> sum_amounts out \<le> max64 \<Longrightarrow>
    \<exists>r. subtract_future at zs out = Inr r \<and> wf_sources r
      \<and> (\<forall>k. amt r k = amt out k - (\<Sum>(c, m) \<leftarrow> future_cycles at zs. amt m k))
      \<and> sum_amounts r = sum_amounts out - (\<Sum>(c, m) \<leftarrow> future_cycles at zs. sum_amounts m)"
proof (induction zs arbitrary: out)
  case (Cons z zs)
  obtain c m where z: "z = (c, m)" by force
  show ?case
  proof (cases "at < vc_start c")
    case True
    have m: "wf_sources m" "\<forall>(c, m) \<in> set zs. wf_sources m" using Cons.prems(2) by (auto simp: z)
    have rest: "0 \<le> (\<Sum>(c, m) \<leftarrow> future_cycles at zs. amt m k)" for k
      using m(2) amt_nonneg by (intro sum_list_nonneg_int) auto
    have "\<forall>k. amt m k \<le> amt out k"
    proof
      fix k
      show "amt m k \<le> amt out k" using Cons.prems(3)[rule_format, of k] rest[of k] True by (simp add: z)
    qed
    from subtract_sources_ok[OF Cons.prems(1) m(1) this Cons.prems(4)] obtain r where
      r: "subtract_sources out m = Inr r" "wf_sources r" "\<forall>k. amt r k = amt out k - amt m k"
        "sum_amounts r = sum_amounts out - sum_amounts m" by blast
    have "\<forall>k. (\<Sum>(c, m) \<leftarrow> future_cycles at zs. amt m k) \<le> amt r k"
    proof
      fix k
      show "(\<Sum>(c, m) \<leftarrow> future_cycles at zs. amt m k) \<le> amt r k"
        using Cons.prems(3)[rule_format, of k] r(3) True by (simp add: z)
    qed
    moreover have "sum_amounts r \<le> max64" using r(4) Cons.prems(4) sum_sources_nonneg[OF m(1)] by simp
    ultimately obtain r' where "subtract_future at zs r = Inr r'" "wf_sources r'"
      "\<forall>k. amt r' k = amt r k - (\<Sum>(c, m) \<leftarrow> future_cycles at zs. amt m k)"
      "sum_amounts r' = sum_amounts r - (\<Sum>(c, m) \<leftarrow> future_cycles at zs. sum_amounts m)"
      using Cons.IH[OF r(2) m(2)] by blast
    with True r show ?thesis by (simp add: z)
  next
    case False
    with Cons show ?thesis by (simp add: z)
  qed
qed simp

lemma sum_current_ok:
  "\<forall>kv \<in> set m. 0 \<le> snd kv \<Longrightarrow> 0 \<le> acc \<Longrightarrow> acc + sum_amounts m \<le> max64 \<Longrightarrow>
    sum_current m acc = Inr (acc + sum_amounts m)"
proof (induction m arbitrary: acc)
  case (Cons z m)
  obtain order a where z: "z = (order, a)" by force
  have "0 \<le> sum_amounts m"
    using Cons.prems(1) by (auto simp: sum_amounts_def intro!: sum_list_nonneg_int)
  then have "add64 acc a = acc + a" "\<not> max64 - a < acc"
    using Cons.prems by (auto simp: z intro!: add64_guarded)
  with Cons.IH[of "acc + a"] Cons.prems show ?case by (simp add: z add.assoc)
qed simp

text \<open>The current shares of a quote are recovered from it, and this never fails.\<close>

lemma current_sources_recovered:
  assumes "frame_cycles f (es_policy s) = Inr (cs, srcs)" "zs = zip cs srcs"
    and "parts_add_up q (future_cycles at zs) cur" "vp_current q + vp_future q \<le> max64"
    and "vp_sources q' = vp_sources q" "vp_current q' = vp_current q"
  obtains r where "current_projection_sources q' f s at = Inr r" "wf_sources r" "\<And>k. amt r k = amt cur k"
    "sum_amounts r = vp_current q"
proof -
  from assms(3) have src: "wf_sources (vp_sources q)" "sum_amounts (vp_sources q) = vp_current q + vp_future q"
    "\<And>k. amt (vp_sources q) k = amt cur k + (\<Sum>(c, m) \<leftarrow> future_cycles at zs. amt m k)"
    and cur: "wf_sources cur" and fut: "vp_future q = (\<Sum>(c, m) \<leftarrow> future_cycles at zs. vc_amount c)"
    by (auto simp: parts_add_up_def)
  have sourced: "sourced f zs (pp_start (hd (vf_periods f)))"
    using frame_cycles_sourced(1)[OF assms(1)] assms(2) by simp
  then have wf: "\<forall>(c, m) \<in> set zs. wf_sources m" by (auto simp: sourced_def)
  have same: "vp_future q = (\<Sum>(c, m) \<leftarrow> future_cycles at zs. sum_amounts m)"
    unfolding fut using sourced by (intro arg_cong[where f = sum_list] map_cong) (auto simp: sourced_def)
  have "amt (vp_sources q) k \<le> max64" for k using amt_le_sum[OF src(1), of k] src(2) assms(4) by simp
  then have "addable [] (vp_sources q)"
    using src(1) amt_member[OF wf_sources_amounts[OF src(1)]] by (fastforce simp: addable_def wf_sources_def)
  from add_value_amounts_ok[OF wf_sources_Nil wf_distinct[OF wf_sources_amounts[OF src(1)]] this]
  obtain out where out: "add_value_amounts [] (vp_sources q) = Inr out" .
  note copy = add_value_amounts_Inr[OF wf_sources_Nil wf_distinct[OF wf_sources_amounts[OF src(1)]] out]
  have "out = vp_sources q"
    using copy(1,2,4) src(1) by (intro amounts_ext) (simp_all add: wf_sources_amounts)
  with out have out: "add_value_amounts [] (vp_sources q) = Inr (vp_sources q)" by simp
  have "\<forall>k. (\<Sum>(c, m) \<leftarrow> future_cycles at zs. amt m k) \<le> amt (vp_sources q) k"
    using src(3) amt_nonneg[OF cur] by simp
  from subtract_future_ok[OF src(1) wf this] src(2) assms(4) same obtain r where
    r: "subtract_future at zs (vp_sources q) = Inr r" "wf_sources r" "sum_amounts r = vp_current q"
    "\<forall>k. amt r k = amt (vp_sources q) k - (\<Sum>(c, m) \<leftarrow> future_cycles at zs. amt m k)" by auto
  have "0 \<le> vp_future q" using assms(3) by (simp add: parts_add_up_def)
  with sum_current_ok[of r 0] r(2,3) assms(4) have "sum_current r 0 = Inr (vp_current q)"
    by (simp add: wf_sources_def)
  with out r(1) assms(1,2,5,6) have "current_projection_sources q' f s at = Inr r"
    by (simp add: current_projection_sources_def)
  with r src(3) show thesis by (intro that) simp_all
qed

section \<open>Appending periods\<close>

lemma append_periods_spec:
  "append_periods term_start order prev paid ps f = Inr (paid', f') \<Longrightarrow> 0 \<le> paid \<Longrightarrow> paid \<le> max64 \<Longrightarrow>
    f' = f\<lparr>vf_periods := vf_periods f @ ps, vf_owners := vf_owners f @ replicate (length ps) order\<rparr>
    \<and> paid' = paid + sum_list (map pp_amount ps) \<and> paid' \<le> max64
    \<and> (\<forall>p \<in> set ps. 0 \<le> pp_amount p)"
proof (induction ps arbitrary: prev paid f)
  case (Cons p ps)
  from Cons.prems(1) have ok: "0 \<le> pp_amount p" "\<not> max64 - pp_amount p < paid"
    and rest: "append_periods term_start order (Some p) (add64 paid (pp_amount p)) ps
      (f\<lparr>vf_periods := vf_periods f @ [p], vf_owners := vf_owners f @ [order]\<rparr>) = Inr (paid', f')"
    by (auto split: if_splits option.splits)
  have add: "add64 paid (pp_amount p) = paid + pp_amount p" using ok Cons.prems(2) by (intro add64_guarded) auto
  from Cons.IH[OF rest] ok Cons.prems(2) add show ?case by (simp add: add.assoc)
qed simp

lemma append_value_periods_spec:
  assumes "append_value_periods f s = Inr f'"
  shows "f' = f\<lparr>vf_periods := vf_periods f @ sn_periods s,
      vf_owners := vf_owners f @ replicate (length (sn_periods s)) (sn_order s)\<rparr>"
    "sum_list (map pp_amount (sn_periods s)) = sn_paid s" "\<forall>p \<in> set (sn_periods s). 0 \<le> pp_amount p"
    "sn_paid s \<le> max64" "0 \<le> sn_paid s" "sn_periods s \<noteq> []" "pp_end (last (sn_periods s)) = sn_term_end s"
  using assms append_periods_spec[of "sn_term_start s" "sn_order s" None 0 "sn_periods s" f]
  by (auto simp: append_value_periods_def max64_def)

lemma cache_ok_append:
  assumes "append_value_periods f s = Inr f'" "cache_ok f" "length (vf_owners f) = length (vf_periods f)"
  shows "cache_ok f'"
proof (cases "vf_cache f")
  case None
  then show ?thesis by (simp add: append_value_periods_spec(1)[OF assms(1)] cache_ok_def)
next
  case (Some c)
  with assms(2) have c: "fc_periods c \<le> length (vf_periods f)"
    "frame_cycles (f\<lparr>vf_periods := take (fc_periods c) (vf_periods f),
       vf_owners := take (fc_periods c) (vf_owners f)\<rparr>) (fc_policy c) = Inr (fc_cycles c, fc_sources c)"
    by (simp_all add: cache_ok_def)
  have "frame_cycles (f'\<lparr>vf_periods := take (fc_periods c) (vf_periods f'),
       vf_owners := take (fc_periods c) (vf_owners f')\<rparr>) (fc_policy c) = Inr (fc_cycles c, fc_sources c)"
    unfolding c(2)[symmetric]
    by (intro frame_cycles_cong) (use c(1) assms(3) in \<open>simp_all add: append_value_periods_spec(1)[OF assms(1)]\<close>)
  with Some c(1) show ?thesis by (simp add: append_value_periods_spec(1)[OF assms(1)] cache_ok_def)
qed

lemma sum_list_le_member: "\<forall>x \<in> set xs. (0::int) \<le> x \<Longrightarrow> x \<in> set xs \<Longrightarrow> x \<le> sum_list xs"
  by (induction xs) (auto dest: sum_list_nonneg_int)

text \<open>A paid extension keeps every basis within the budget once the order's payment is added to it.\<close>

lemma funded_append:
  assumes "append_value_periods f s = Inr f'" "funded f budget" "length (vf_owners f) = length (vf_periods f)"
  shows "funded f' (\<lambda>k. budget k + (if k = sn_order s then sn_paid s else 0))"
proof -
  note spec = append_value_periods_spec[OF assms(1)]
  have paid: "owned_paid f' k = owned_paid f k + (if sn_order s = k then sn_paid s else 0)" for k
    using assms(3) spec(2) by (simp add: owned_paid_def spec(1) owned_append owned_replicate)
  have le: "owned_after f' k t \<le> owned_after f k t + (if k = sn_order s then sn_paid s else 0)" for k t
  proof -
    have "0 \<le> share_upto p (clip p t)" if "p \<in> set (sn_periods s)" for p
      using that spec(2-4) sum_list_le_member[of "map pp_amount (sn_periods s)" "pp_amount p"]
      by (auto simp: share_upto_def intro!: half_up.share_nonneg)
    then have "(\<Sum>p \<leftarrow> sn_periods s. pp_amount p - share_upto p (clip p t)) \<le> sn_paid s"
      unfolding spec(2)[symmetric] by (intro sum_list_mono) simp
    then show ?thesis using assms(3) by (auto simp: owned_after_def spec(1) owned_append owned_replicate)
  qed
  show ?thesis
    unfolding funded_def
  proof (intro conjI allI impI)
    show "basis_sources_ok f'" using funded_basis[OF assms(2)] by (simp add: basis_sources_ok_def spec(1))
    show "owned_paid f' k \<le> budget k + (if k = sn_order s then sn_paid s else 0)" for k
      using paid[of k] assms(2) by (auto simp: funded_def)
    fix e k
    assume "vf_basis f' = Some e"
    then have "vf_basis f = Some e" by (simp add: spec(1))
    with assms(2) have "amt (be_sources e) k + owned_after f k (vb_end (be_basis e)) \<le> budget k"
      unfolding funded_def by blast
    with le[of k "vb_end (be_basis e)"]
    show "amt (be_sources e) k + owned_after f' k (vb_end (be_basis e))
        \<le> budget k + (if k = sn_order s then sn_paid s else 0)" by simp
  qed
qed

lemma project_sources:
  assumes "project f s at = Inr q" "funded f budget"
  shows "vp_total q = vp_current q + vp_future q" "sum_amounts (vp_sources q) = vp_total q" "0 \<le> vp_current q"
    "0 \<le> vp_future q" "0 \<le> amt (vp_sources q) k" "amt (vp_sources q) k \<le> budget k"
proof -
  from project_parts[OF assms(1) funded_basis[OF assms(2)]] obtain cs srcs cur t where
    cycles: "frame_cycles f (es_policy s) = Inr (cs, srcs)"
    and sourced: "sourced f (zip cs srcs) (pp_start (hd (vf_periods f)))"
    and cur: "current_part f s at q (zip cs srcs) cur t \<or> no_current_part at q (zip cs srcs) cur t"
    and parts: "parts_add_up q (future_cycles at (zip cs srcs)) cur"
    and total: "vp_total q = vp_current q + vp_future q" "vp_total q \<le> max64"
    and after: "\<forall>k. (\<Sum>(c, m) \<leftarrow> future_cycles at (zip cs srcs). amt m k) = owned_after f k t" .
  from parts have p: "wf_sources cur" "sum_amounts cur = vp_current q" "wf_sources (vp_sources q)"
    "amt (vp_sources q) k = amt cur k + owned_after f k t"
    "sum_amounts (vp_sources q) = vp_current q + vp_future q" "0 \<le> vp_future q"
    by (simp_all add: parts_add_up_def after)
  from parts_in_budget[OF assms(2) frame_cycles_wf[OF cycles] sourced cur, of k] p(4)
  show "amt (vp_sources q) k \<le> budget k" by simp
  show "vp_total q = vp_current q + vp_future q" "sum_amounts (vp_sources q) = vp_total q" "0 \<le> vp_future q"
    using total p by simp_all
  show "0 \<le> vp_current q" using sum_sources_nonneg[OF p(1)] p(2) by simp
  show "0 \<le> amt (vp_sources q) k" by (rule amt_nonneg[OF p(3)])
qed

section \<open>Properties\<close>

text \<open>One paid day of order 9, half elapsed, a fifth of its quota used.\<close>

definition sample_frame :: value_frame where
  "sample_frame = \<lparr>vf_periods = [\<lparr>pp_start = 86400000000000, pp_end = 172800000000000, pp_amount = 10\<rparr>],
     vf_owners = [9], vf_anchor = 86400000000000, vf_end = 172800000000000, vf_basis = None, vf_cache = None\<rparr>"

definition sample_state :: entitlement_state where
  "sample_state = \<lparr>es_plan = 1, es_sku = 1, es_start = 86400000000000, es_end = 172800000000000,
     es_status = ''active'', es_ended = None, es_end_reason = [], es_total = 100, es_used = 20,
     es_cycle_used = 0, es_reset_quota = 0, es_policy = 0, es_next_reset = None\<rparr>"

text \<open>
  The cache of a frame's cycles never changes an answer: a cached partition is returned only for
  the periods and the policy it was computed from, and this holds again after a lookup and after paid
  periods are appended.
\<close>

theorem cached_cycles_transparent:
  assumes "cache_ok f" "length (vf_owners f) = length (vf_periods f)"
  shows "fst (cached_cycles f policy) = frame_cycles f policy
    \<and> cache_ok (snd (cached_cycles f policy))
    \<and> (snd (cached_cycles f policy))\<lparr>vf_cache := vf_cache f\<rparr> = f
    \<and> (append_value_periods f s = Inr f' \<longrightarrow> cache_ok f')"
proof -
  have hit: "frame_cycles f policy = Inr (fc_cycles c, fc_sources c)"
    if "vf_cache f = Some c" "fc_periods c = length (vf_periods f)" "fc_policy c = policy" for c
  proof -
    have "f\<lparr>vf_periods := take (fc_periods c) (vf_periods f), vf_owners := take (fc_periods c) (vf_owners f)\<rparr> = f"
      using that(2) assms(2) by simp
    with assms(1) that(1,3) show ?thesis unfolding cache_ok_def by simp
  qed
  have fill: "cache_ok (f\<lparr>vf_cache := Some \<lparr>fc_periods = length (vf_periods f), fc_policy = policy,
      fc_cycles = cs, fc_sources = srcs\<rparr>\<rparr>)" if "frame_cycles f policy = Inr (cs, srcs)" for cs srcs
    using that assms(2) by (simp add: cache_ok_def frame_cycles_def)
  define hits where "hits = (\<exists>c. vf_cache f = Some c \<and> fc_periods c = length (vf_periods f) \<and> fc_policy c = policy)"
  have "fst (cached_cycles f policy) = frame_cycles f policy \<and> cache_ok (snd (cached_cycles f policy))
      \<and> (snd (cached_cycles f policy))\<lparr>vf_cache := vf_cache f\<rparr> = f"
  proof (cases hits)
    case True
    then obtain c where "vf_cache f = Some c" "fc_periods c = length (vf_periods f)" "fc_policy c = policy"
      by (auto simp: hits_def)
    with hit[OF this] assms(1) show ?thesis by (simp add: cached_cycles_def)
  next
    case False
    have "cached_cycles f policy = (case frame_cycles f policy of Inl e \<Rightarrow> (Inl e, f)
        | Inr (cycles, sources) \<Rightarrow> (Inr (cycles, sources),
            f\<lparr>vf_cache := Some \<lparr>fc_periods = length (vf_periods f), fc_policy = policy,
                                fc_cycles = cycles, fc_sources = sources\<rparr>\<rparr>))"
      using False unfolding cached_cycles_def Let_def hits_def by (cases "vf_cache f") auto
    with fill assms(1) show ?thesis by (cases "frame_cycles f policy") (auto split: prod.splits)
  qed
  with cache_ok_append[OF _ assms] show ?thesis by blast
qed

theorem cached_cycles_transparent_witness:
  "fst (cached_cycles \<lparr>vf_periods = [], vf_owners = [], vf_anchor = 1, vf_end = 2, vf_basis = None, vf_cache = None\<rparr> 1)
    = frame_cycles \<lparr>vf_periods = [], vf_owners = [], vf_anchor = 1, vf_end = 2, vf_basis = None, vf_cache = None\<rparr> 1"
  using cached_cycles_transparent
    [of "\<lparr>vf_periods = [], vf_owners = [], vf_anchor = 1, vf_end = 2, vf_basis = None, vf_cache = None\<rparr>" 1]
  by (simp add: cache_ok_def)

text \<open>
  A value quote is balanced: its total is the current plus the future value, both not negative, and
  its cash sources add up to exactly that total; and the sources of the current part can be recovered
  from the quote and add up to the current value.
\<close>

theorem project_balanced:
  assumes "project f s at = Inr q" "basis_sources_ok f"
  shows "0 \<le> vp_current q \<and> 0 \<le> vp_future q \<and> vp_total q = vp_current q + vp_future q \<and> vp_total q \<le> max64
    \<and> sum_amounts (vp_sources q) = vp_total q \<and> (\<forall>k. 0 \<le> amt (vp_sources q) k)
    \<and> (\<exists>cur. current_projection_sources q f s at = Inr cur \<and> sum_amounts cur = vp_current q
         \<and> (\<forall>k. amt cur k \<le> amt (vp_sources q) k))"
proof -
  from project_parts[OF assms] obtain cs srcs cur t where
    cycles: "frame_cycles f (es_policy s) = Inr (cs, srcs)"
    and sourced: "sourced f (zip cs srcs) (pp_start (hd (vf_periods f)))"
    and cur: "current_part f s at q (zip cs srcs) cur t \<or> no_current_part at q (zip cs srcs) cur t"
    and parts: "parts_add_up q (future_cycles at (zip cs srcs)) cur"
    and total: "vp_total q = vp_current q + vp_future q" "vp_total q \<le> max64"
    and after: "\<forall>k. (\<Sum>(c, m) \<leftarrow> future_cycles at (zip cs srcs). amt m k) = owned_after f k t" .
  from parts have p: "wf_sources cur" "sum_amounts cur = vp_current q" "wf_sources (vp_sources q)"
    "\<And>k. amt (vp_sources q) k = amt cur k + owned_after f k t"
    "sum_amounts (vp_sources q) = vp_current q + vp_future q" "0 \<le> vp_future q"
    by (auto simp: parts_add_up_def after)
  have fits: "vp_current q + vp_future q \<le> max64" using total by simp
  obtain r where r: "current_projection_sources q f s at = Inr r" "\<And>k. amt r k = amt cur k" "sum_amounts r = vp_current q"
    using current_sources_recovered[OF cycles refl parts fits refl refl] by blast
  have "\<forall>k. amt r k \<le> amt (vp_sources q) k"
    using p(4) r(2) owned_after_nonneg[OF frame_cycles_wf[OF cycles]] by simp
  with r(1,3) total p amt_nonneg[OF p(3)] sum_sources_nonneg[OF p(1)] show ?thesis by auto
qed

theorem project_balanced_witness:
  "\<exists>q. project sample_frame sample_state 129600000000000 = Inr q \<and> sum_amounts (vp_sources q) = 5"
proof -
  have "case project sample_frame sample_state 129600000000000 of Inl _ \<Rightarrow> False | Inr q \<Rightarrow> vp_total q = 5"
    by code_simp
  then obtain q where q: "project sample_frame sample_state 129600000000000 = Inr q" "vp_total q = 5"
    by (auto split: sum.splits)
  from project_balanced[OF q(1)] q show ?thesis by (simp add: basis_sources_ok_def sample_frame_def)
qed

text \<open>
  A quote stays within the money each order paid: if the frame is funded by the orders' budgets, no
  source of the quote exceeds the budget of its order.
\<close>

theorem project_within_budget:
  assumes "project f s at = Inr q" "funded f budget"
  shows "amt (vp_sources q) k \<le> budget k"
  by (rule project_sources(6)[OF assms])

theorem project_within_budget_witness:
  "\<exists>q. project sample_frame sample_state 129600000000000 = Inr q \<and> amt (vp_sources q) 9 \<le> 10"
proof -
  have "case project sample_frame sample_state 129600000000000 of Inl _ \<Rightarrow> False | Inr q \<Rightarrow> vp_total q = 5"
    by code_simp
  then obtain q where q: "project sample_frame sample_state 129600000000000 = Inr q"
    by (auto split: sum.splits)
  have "funded sample_frame (\<lambda>_. 10)"
    by (simp add: funded_def basis_sources_ok_def owned_paid_def sample_frame_def)
  from project_within_budget[OF q this] q show ?thesis by blast
qed

end
