(* ===== verification/TimedReplay.thy ===== *)
theory TimedReplay
  imports ValueFrame
begin

text \<open>
  \<open>timedQuotaReplay\<close> of \<^verbatim>\<open>commerce/value_timed_plan_sync.go\<close>: the replay of free plan quota
  synchronisations beside the paid facts of a timed term. The Go object shares its frame with the
  projection by a pointer; here the frame is an argument and a result of the operations that change
  it. \<open>next\<close>, an index into the events, is the list of events still to apply.
\<close>

section \<open>State\<close>

definition timed_sync_kind :: string where "timed_sync_kind = ''timed_plan_base_quota_sync''"
definition timed_sync_allocation :: string where "timed_sync_allocation = ''timed_free_plan_quota_sync_v1''"

record timed_replay =
  tr_epoch :: nat
  tr_digest :: string
  tr_root :: entitlement_snapshot
  tr_state :: entitlement_state
  tr_cycle_start :: gotime
  tr_base :: int
  tr_addon :: int
  tr_last_id :: nat
  tr_last_at :: gotime
  tr_last_revision :: nat
  tr_pending :: "timed_sync_event list"
  tr_typed :: bool

section \<open>The code\<close>

text \<open>\<open>bind\<close> links one source into the hash chain, \<open>fingerprint\<close> closes it over a quote.\<close>

definition replay_bind :: "digest \<Rightarrow> timed_replay \<Rightarrow> string \<Rightarrow> value_source \<Rightarrow> timed_replay result" where
  "replay_bind digest r kind source =
     try_bind (digest (LinkPayload (tr_epoch r) (tr_digest r) kind source)) (\<lambda>d. Inr (r\<lparr>tr_digest := d\<rparr>))"

definition replay_fingerprint ::
  "digest \<Rightarrow> timed_replay \<Rightarrow> entitlement_state \<Rightarrow> value_projection \<Rightarrow> value_projection result" where
  "replay_fingerprint digest r s out =
     try_bind (digest (TimedPayload (tr_epoch r) (tr_digest r) s (quote_json out) (vp_sources out)))
       (\<lambda>sum. Inr (out\<lparr>vp_fingerprint := sum\<rparr>))"

definition replay_cycle :: "value_frame \<Rightarrow> timed_replay \<Rightarrow> gotime \<Rightarrow> value_cycle result" where
  "replay_cycle frame r at =
     try_bind (frame_cycles frame (es_policy (tr_state r))) (\<lambda>(cycles, _).
       let effective = (if \<not> at < vf_end frame then vf_end frame - 1 else at)
       in case find (\<lambda>c. \<not> effective < vc_start c \<and> effective < vc_end c) cycles of
            None \<Rightarrow> Inl ErrValueEvidence
          | Some c \<Rightarrow> Inr c)"

fun events_ordered :: "nat \<Rightarrow> timed_sync_event list \<Rightarrow> bool" where
  "events_ordered last_id [] = True"
| "events_ordered last_id (e # es) \<longleftrightarrow>
     last_id < te_id e \<and> \<not> is_zero (te_at e) \<and> (te_detail e = None) \<noteq> (te_legacy e = None)
     \<and> events_ordered (te_id e) es"

definition replay_seed ::
  "digest \<Rightarrow> nat \<Rightarrow> timed_sync_event list \<Rightarrow> value_frame \<Rightarrow> entitlement_snapshot \<Rightarrow> timed_replay result" where
  "replay_seed digest epoch events frame s =
     (case quota_for_value (sn_after s) of
        Inl e \<Rightarrow> Inl ErrValueEvidence
      | Inr q \<Rightarrow>
          if es_reset_quota (sn_after s) < 0 then Inl ErrValueEvidence
          else
            let r = \<lparr>tr_epoch = epoch, tr_digest = zero_digest, tr_root = s, tr_state = sn_after s,
                     tr_cycle_start = 0, tr_base = q, tr_addon = 0, tr_last_id = sn_event_id s,
                     tr_last_at = sn_event_at s, tr_last_revision = 0, tr_pending = events,
                     tr_typed = False\<rparr>
            in try_bind (replay_cycle frame r (sn_event_at s)) (\<lambda>c.
                 if \<not> events_ordered (sn_event_id s) events then Inl ErrValueEvidence
                 else replay_bind digest (r\<lparr>tr_cycle_start := vc_start c\<rparr>) ''paid_grant'' (PaidGrant s)))"

definition replay_advance :: "value_frame \<Rightarrow> timed_replay \<Rightarrow> entitlement_state \<Rightarrow> gotime \<Rightarrow> timed_replay result" where
  "replay_advance frame r nxt at =
     (let old = tr_state r in
      if es_plan nxt \<noteq> es_plan old \<or> es_sku nxt \<noteq> es_sku old \<or> es_start nxt \<noteq> es_start old
         \<or> es_end nxt \<noteq> es_end old \<or> es_policy nxt \<noteq> es_policy old \<or> es_used nxt < es_used old
         \<or> es_cycle_used nxt < 0 \<or> es_used nxt < es_cycle_used nxt \<or> es_total nxt < es_cycle_used nxt
         \<or> es_reset_quota nxt \<noteq> es_reset_quota old \<or> es_ended nxt \<noteq> None
         \<or> es_end_reason nxt \<noteq> es_end_reason old
         \<or> (es_status nxt \<noteq> ''active'' \<and> es_status nxt \<noteq> ''expired'')
      then Inl ErrValueEvidence
      else try_bind (replay_cycle frame r at) (\<lambda>c.
        if vc_start c = tr_cycle_start r then
          (if es_cycle_used nxt \<noteq> es_cycle_used old \<or> es_total nxt \<noteq> es_total old
              \<or> \<not> same_value_reset (es_next_reset nxt) (es_next_reset old)
           then Inl ErrValueEvidence
           else Inr (r\<lparr>tr_state := nxt\<rparr>))
        else
          let reset_quota = (if es_reset_quota old = 0 then tr_base r else es_reset_quota old) in
          if (case es_next_reset old of None \<Rightarrow> True | Some t \<Rightarrow> at < t)
             \<or> es_cycle_used nxt < es_cycle_used old \<or> es_cycle_used nxt > max64 - reset_quota
          then Inl ErrValueEvidence
          else
            let expected = max (add64 (es_cycle_used nxt) reset_quota) (es_used nxt);
                effective = (if \<not> at < es_end nxt then es_end nxt - 1 else at);
                expected_next = next_traffic_reset_after (es_start nxt) (es_policy nxt) effective
            in if es_total nxt \<noteq> expected \<or> \<not> same_value_reset (es_next_reset nxt) expected_next
               then Inl ErrValueEvidence
               else Inr (r\<lparr>tr_base := reset_quota, tr_addon := 0, tr_cycle_start := vc_start c,
                           tr_state := nxt\<rparr>)))"

definition replay_prepare :: "value_frame \<Rightarrow> timed_replay \<Rightarrow> entitlement_state \<Rightarrow> gotime \<Rightarrow> int \<Rightarrow> nat \<Rightarrow> string \<Rightarrow>
    timed_sync_detail result" where
  "replay_prepare frame r before at new_base revision fingerprint =
     (if new_base \<le> 0 \<or> revision = 0 \<or> revision \<le> tr_last_revision r \<or> es_ended before \<noteq> None
         \<or> fingerprint = [] \<or> es_cycle_used before > max64 - new_base
         \<or> add64 (es_cycle_used before) new_base > max64 - tr_addon r
      then Inl ErrValueEvidence
      else
        let after = before\<lparr>es_total := add64 (add64 (es_cycle_used before) new_base) (tr_addon r),
                           es_reset_quota := new_base, es_status := ''active''\<rparr>
        in try_bind (project frame before at) (\<lambda>old.
           if \<not> is_zero (vc_end (vp_cycle old)) \<and> unix (vc_end (vp_cycle old)) \<le> unix at
           then Inl ErrValueEvidence
           else try_bind (project frame after at) (\<lambda>changed.
             if vp_future old \<noteq> vp_future changed then Inl ErrValueEvidence
             else Inr \<lparr>td_version = 1, td_kind = timed_sync_kind,
                        td_subscription = sn_subscription (tr_root r), td_epoch = tr_epoch r,
                        td_plan = es_plan before, td_revision = revision, td_old_base = tr_base r,
                        td_new_base = new_base, td_addon = tr_addon r, td_before = before,
                        td_after = after, td_current_before = vp_current old,
                        td_current_after = min (vp_current old) (vp_current changed),
                        td_captured = at, td_fingerprint = fingerprint\<rparr>)))"

text \<open>
  The two branches of \<open>applyBefore\<close>: a typed synchronisation, which rebases the current cycle on its
  capped value, and a legacy one.
\<close>

definition typed_rebase :: "value_frame \<Rightarrow> value_projection \<Rightarrow> timed_sync_detail \<Rightarrow> value_frame result" where
  "typed_rebase frame before d =
     (if is_zero (vc_end (vp_cycle before)) then Inr frame
      else
        try_bind (current_projection_sources before frame (td_before d) (td_captured d)) (\<lambda>shares.
        try_bind (proportion_value_sources (td_current_after d) shares) (\<lambda>shares.
        try_bind (quota_for_value (td_after d)) (\<lambda>quota.
          Inr (frame\<lparr>vf_basis := Some
                 \<lparr>be_captured = 0, be_time_only = False,
                  be_basis = \<lparr>vb_at = td_captured d, vb_end = vc_end (vp_cycle before),
                              vb_amount = td_current_after d, vb_used = es_used (td_after d),
                              vb_quota = max 0 (sub64 (es_total (td_after d)) (es_used (td_after d)))\<rparr>,
                  be_cycle_start = vc_start (vp_cycle before), be_total_quota = quota,
                  be_sources = shares\<rparr>\<rparr>)))))"

definition apply_typed :: "digest \<Rightarrow> entitlement_snapshot list \<Rightarrow> timed_sync_event \<Rightarrow> timed_sync_detail \<Rightarrow>
    value_frame \<Rightarrow> timed_replay \<Rightarrow> (value_frame \<times> timed_replay) result" where
  "apply_typed digest records e d frame r =
     (let event_at = td_captured d in
      if is_zero event_at \<or> time_sub event_at (te_at e) > millisecond \<or> time_sub (te_at e) event_at > millisecond
      then Inl ErrValueEvidence
      else if te_epoch e \<noteq> tr_epoch r \<or> td_epoch d \<noteq> tr_epoch r
         \<or> td_subscription d \<noteq> sn_subscription (tr_root r) \<or> td_plan d \<noteq> es_plan (tr_state r)
      then Inl ErrValueEvidence
      else
        try_bind (replay_advance frame r (td_before d) event_at) (\<lambda>r.
        try_bind (project frame (td_before d) event_at) (\<lambda>quote.
        try_bind
          (if tr_typed r
           then replay_fingerprint digest r (td_before d)
                  (quote\<lparr>vp_root := sn_order (tr_root r), vp_model := timed_sync_allocation\<rparr>)
           else fingerprint_value_projection digest records (td_before d)
                  (quote\<lparr>vp_root := sn_order (tr_root r), vp_model := ''remaining_value_basis_v1''\<rparr>))
        (\<lambda>before.
          case replay_prepare frame r (td_before d) event_at (td_new_base d) (td_revision d) (vp_fingerprint before) of
            Inl err \<Rightarrow> Inl ErrValueEvidence
          | Inr expected \<Rightarrow>
              if expected \<noteq> d then Inl ErrValueEvidence
              else
                let r' = r\<lparr>tr_state := td_after d, tr_base := td_new_base d,
                           tr_last_revision := td_revision d, tr_typed := True\<rparr>
                in try_bind (typed_rebase frame before d) (\<lambda>frame. Inr (frame, r'))))))"

definition apply_legacy :: "timed_sync_event \<Rightarrow> legacy_timed_sync \<Rightarrow> value_frame \<Rightarrow> timed_replay \<Rightarrow> timed_replay result" where
  "apply_legacy e d frame r =
     (if tr_typed r \<or> ls_actor d = 0 \<or> ls_plan d \<noteq> es_plan (tr_state r) \<or> ls_revision d \<le> tr_last_revision r
         \<or> ls_previous_total d < 0 \<or> ls_used d < es_used (tr_state r) \<or> ls_previous_reset d \<le> 0
         \<or> ls_reset d \<le> 0 \<or> tr_addon r \<noteq> 0
      then Inl ErrValueEvidence
      else if ls_previous_total d < ls_previous_reset d then Inl ErrValueEvidence
      else
        let before = (tr_state r)\<lparr>es_used := ls_used d, es_total := ls_previous_total d,
                        es_cycle_used := sub64 (ls_previous_total d) (ls_previous_reset d)\<rparr>
        in try_bind (replay_cycle frame r (te_at e)) (\<lambda>cycle.
           let before = (if vc_start cycle \<noteq> tr_cycle_start r
                         then before\<lparr>es_next_reset :=
                                next_traffic_reset_after (es_start before) (es_policy before) (te_at e)\<rparr>
                         else before)
           in try_bind (replay_advance frame r before (te_at e)) (\<lambda>r.
              if ls_previous_total d \<noteq> es_total before \<or> ls_previous_reset d \<noteq> es_reset_quota before
                 \<or> es_cycle_used before > max64 - ls_reset d
                 \<or> ls_total d \<noteq> add64 (es_cycle_used before) (ls_reset d)
              then Inl ErrValueEvidence
              else Inr (r\<lparr>tr_state := (tr_state r)\<lparr>es_total := ls_total d, es_reset_quota := ls_reset d,
                                                   es_status := ''active''\<rparr>,
                          tr_base := ls_reset d, tr_last_revision := ls_revision d\<rparr>))))"

text \<open>
  One round of the loop. An event with neither detail would be a nil dereference; \<open>replay_seed\<close> has
  refused such events.
\<close>

definition apply_event :: "digest \<Rightarrow> entitlement_snapshot list \<Rightarrow> gotime \<Rightarrow> timed_sync_event \<Rightarrow> value_frame \<Rightarrow>
    timed_replay \<Rightarrow> (value_frame \<times> timed_replay) result" where
  "apply_event digest records at e frame r =
     (if te_id e \<le> tr_last_id r \<or> perpetual_sync_time_before (te_at e) (tr_last_at r)
         \<or> perpetual_sync_time_before at (te_at e)
      then Inl ErrValueEvidence
      else try_bind
        (case te_detail e of
           Some d \<Rightarrow> apply_typed digest records e d frame r
         | None \<Rightarrow> (case te_legacy e of
                Some d \<Rightarrow> try_bind (apply_legacy e d frame r) (\<lambda>r. Inr (frame, r))
              | None \<Rightarrow> Inl ErrValueEvidence))
        (\<lambda>(frame, r). try_bind (replay_bind digest r ''plan_quota_sync'' (PlanSync e)) (\<lambda>r.
           Inr (frame, r\<lparr>tr_last_id := te_id e, tr_last_at := te_at e\<rparr>))))"

fun apply_events :: "digest \<Rightarrow> entitlement_snapshot list \<Rightarrow> nat \<Rightarrow> gotime \<Rightarrow> timed_sync_event list \<Rightarrow> value_frame \<Rightarrow>
    timed_replay \<Rightarrow> (value_frame \<times> timed_replay) result" where
  "apply_events digest records eid at [] frame r = Inr (frame, r\<lparr>tr_pending := []\<rparr>)"
| "apply_events digest records eid at (e # es) frame r =
     (if te_id e < eid then
        try_bind (apply_event digest records at e frame r) (\<lambda>(frame, r).
          apply_events digest records eid at es frame r)
      else if te_id e = eid then Inl ErrValueEvidence
      else Inr (frame, r\<lparr>tr_pending := e # es\<rparr>))"

definition apply_before :: "digest \<Rightarrow> entitlement_snapshot list \<Rightarrow> nat \<Rightarrow> gotime \<Rightarrow> value_frame \<Rightarrow> timed_replay \<Rightarrow>
    (value_frame \<times> timed_replay) result" where
  "apply_before digest records eid at frame r = apply_events digest records eid at (tr_pending r) frame r"

definition replay_before_grant :: "digest \<Rightarrow> entitlement_snapshot list \<Rightarrow> entitlement_snapshot \<Rightarrow> entitlement_state \<Rightarrow>
    value_frame \<Rightarrow> timed_replay \<Rightarrow> (value_frame \<times> timed_replay) result" where
  "replay_before_grant digest records s before frame r =
     (if sn_event_id s \<le> tr_last_id r \<or> perpetual_sync_time_before (sn_event_at s) (tr_last_at r)
      then Inl ErrValueEvidence
      else try_bind (apply_before digest records (sn_event_id s) (sn_event_at s) frame r) (\<lambda>(frame, r).
           try_bind (replay_advance frame r before (sn_event_at s)) (\<lambda>r. Inr (frame, r))))"

definition replay_grant_at :: "value_frame \<Rightarrow> timed_replay \<Rightarrow> entitlement_snapshot \<Rightarrow> gotime result" where
  "replay_grant_at frame r s =
     (let at = sn_event_at s in
      case vf_basis frame of
        None \<Rightarrow> Inr at
      | Some e \<Rightarrow>
          let basis_at = vb_at (be_basis e) in
          if tr_typed r \<and> at < basis_at then
            (if time_sub basis_at at > millisecond \<or> sn_captured s < basis_at
                \<or> time_sub (sn_captured s) at > millisecond \<or> time_sub at (sn_captured s) > millisecond
             then Inl ErrValueEvidence
             else Inr (sn_captured s))
          else Inr at)"

definition replay_accept_grant :: "digest \<Rightarrow> value_frame \<Rightarrow> timed_replay \<Rightarrow> entitlement_snapshot \<Rightarrow> entitlement_state \<Rightarrow>
    timed_replay result" where
  "replay_accept_grant digest frame r s before =
     try_bind
       (if sn_mode s = ''timed_quota_addition'' then
          (let delta = sub64 (es_total (sn_after s)) (es_total before)
           in if delta \<le> 0 \<or> tr_addon r > max64 - delta then Inl ErrValueEvidence
              else Inr (r\<lparr>tr_addon := add64 (tr_addon r) delta\<rparr>))
        else if sn_mode s = ''paid_reset'' then
          (case quota_for_value (sn_after s) of
             Inl e \<Rightarrow> Inl ErrValueEvidence
           | Inr q \<Rightarrow> if q \<le> 0 then Inl ErrValueEvidence else Inr (r\<lparr>tr_base := q, tr_addon := 0\<rparr>))
        else if sn_mode s = ''extended_term'' then Inr r
        else Inl ErrValueEvidence)
       (\<lambda>r.
         let r = r\<lparr>tr_state := sn_after s, tr_last_id := sn_event_id s, tr_last_at := sn_event_at s\<rparr>
         in try_bind (replay_cycle frame r (sn_event_at s)) (\<lambda>c.
              replay_bind digest (r\<lparr>tr_cycle_start := vc_start c\<rparr>) ''paid_grant'' (PaidGrant s)))"

text \<open>\<open>finish\<close>, with \<open>max_uint\<close> for \<open>^uint(0)\<close>.\<close>

definition max_uint :: nat where "max_uint = 18446744073709551615"

definition replay_finish :: "digest \<Rightarrow> entitlement_snapshot list \<Rightarrow> entitlement_state \<Rightarrow> gotime \<Rightarrow> value_frame \<Rightarrow>
    timed_replay \<Rightarrow> (value_frame \<times> timed_replay) result" where
  "replay_finish digest records current at frame r =
     try_bind (apply_before digest records max_uint at frame r) (\<lambda>(frame, r).
       if tr_pending r \<noteq> [] \<or> perpetual_sync_time_before at (tr_last_at r) then Inl ErrValueEvidence
       else if at < es_end current then
         try_bind (replay_advance frame r current at) (\<lambda>r. Inr (frame, r))
       else
         try_bind
           (case es_ended current of
              None \<Rightarrow> Inr current
            | Some ended \<Rightarrow>
                if es_status current \<noteq> ''expired'' \<or> es_end_reason current \<noteq> ''expired'' \<or> ended \<noteq> es_end current
                then Inl ErrValueEvidence
                else Inr (current\<lparr>es_ended := None, es_end_reason := es_end_reason (tr_state r)\<rparr>))
           (\<lambda>nxt.
             if es_total nxt = es_total (tr_state r) \<and> es_cycle_used nxt = es_cycle_used (tr_state r)
                \<and> es_reset_quota nxt = es_reset_quota (tr_state r)
                \<and> same_value_reset (es_next_reset nxt) (es_next_reset (tr_state r))
             then try_bind (replay_advance frame r nxt (tr_cycle_start r)) (\<lambda>r. Inr (frame, r))
             else
               case es_next_reset nxt of
                 None \<Rightarrow> Inl ErrValueEvidence
               | Some t \<Rightarrow>
                   let observed = (if \<not> t - 1 < es_end nxt then es_end nxt - 1 else t - 1)
                   in try_bind (replay_advance frame r nxt observed) (\<lambda>r. Inr (frame, r))))"

end
