(* ===== verification/TimedValue.thy ===== *)
theory TimedValue
  imports TimedReplay
begin

text \<open>
  \<open>projectTimedValueEvents\<close> of \<^verbatim>\<open>commerce/value_projection.go\<close> and its entry points in
  \<^verbatim>\<open>value_timed_plan_sync.go\<close>: paid grants of a term are replayed in event order into a frame,
  together with the plan synchronisations when the replay is strict, and the frame is projected at
  the asked instant.
\<close>

section \<open>The code\<close>

definition timed_quota_addition_allocation :: string where
  "timed_quota_addition_allocation = ''timed_quota_addition_v1''"

definition snapshot_ok :: "string \<Rightarrow> nat \<Rightarrow> entitlement_snapshot \<Rightarrow> bool" where
  "snapshot_ok currency subscription s \<longleftrightarrow>
     \<not> (sn_version s \<noteq> 1 \<or> sn_order s = 0 \<or> sn_event_id s = 0 \<or> is_zero (sn_event_at s)
        \<or> sn_currency s \<noteq> currency \<or> \<not> sn_verified s \<or> sn_legacy_transfer s
        \<or> sn_subscription s \<noteq> subscription \<or> sn_paid s < 0 \<or> is_zero (sn_captured s))"

definition snapshot_continues :: "entitlement_snapshot \<Rightarrow> entitlement_snapshot \<Rightarrow> entitlement_state \<Rightarrow> bool" where
  "snapshot_continues last_s s before \<longleftrightarrow>
     \<not> (sn_event_id s \<le> sn_event_id last_s \<or> es_start before \<noteq> es_start (sn_after last_s)
        \<or> es_end before \<noteq> es_end (sn_after last_s) \<or> es_plan before \<noteq> es_plan (sn_after last_s)
        \<or> es_sku before \<noteq> es_sku (sn_after last_s) \<or> es_policy before \<noteq> es_policy (sn_after last_s)
        \<or> es_used before < es_used (sn_after last_s))"

text \<open>
  The three modes of a later grant. The cycle of an extended term that contains the event gets a new
  basis when its end moved or the new payment reaches into it.
\<close>

definition extend_current_cycle :: "value_frame \<Rightarrow> value_frame \<Rightarrow> value_projection \<Rightarrow> entitlement_snapshot \<Rightarrow>
    entitlement_state \<Rightarrow> gotime \<Rightarrow> value_cycle \<Rightarrow> amounts \<Rightarrow> value_frame result" where
  "extend_current_cycle frame prior quote s before event_at c m =
     (let after = sn_after s; added = amt m (sn_order s) in
      if vc_end c \<noteq> vc_end (vp_cycle quote) \<or> added > 0 then
        if vp_current quote > max64 - added then Inl ErrValueEvidence
        else
          try_bind (current_projection_sources quote prior before event_at) (\<lambda>shares.
          try_bind (add_value_amounts shares [(sn_order s, added)]) (\<lambda>shares.
          try_bind (quota_for_value after) (\<lambda>total_quota.
            let remaining = max 0 (sub64 (es_total after) (es_used after)) in
            Inr (frame\<lparr>vf_basis := Some
              \<lparr>be_captured = sn_captured s, be_time_only = (remaining = 0),
               be_basis = \<lparr>vb_at = event_at, vb_end = vc_end c,
                           vb_amount = add64 (vp_current quote) added,
                           vb_used = es_used after, vb_quota = remaining\<rparr>,
               be_cycle_start = vc_start c, be_total_quota = total_quota,
               be_sources = shares\<rparr>\<rparr>))))
      else Inr frame)"

definition extend_term :: "value_frame \<Rightarrow> value_projection \<Rightarrow> entitlement_snapshot \<Rightarrow> entitlement_state \<Rightarrow> gotime \<Rightarrow>
    value_frame result" where
  "extend_term prior quote s before event_at =
     (let after = sn_after s in
      if es_used before \<noteq> es_used after \<or> es_total before \<noteq> es_total after
         \<or> es_cycle_used before \<noteq> es_cycle_used after \<or> es_policy before \<noteq> es_policy after
         \<or> \<not> same_value_reset (es_next_reset before) (es_next_reset after)
      then Inl ErrValueEvidence
      else if sn_term_start s \<noteq> es_end before \<or> sn_term_end s \<noteq> es_end after \<or> \<not> es_end before < es_end after
      then Inl ErrValueEvidence
      else
        try_bind (append_value_periods prior s) (\<lambda>frame.
        let frame = frame\<lparr>vf_end := es_end after\<rparr> in
        try_bind (frame_cycles frame (es_policy after)) (\<lambda>(cycles, sources).
          case find (\<lambda>(c, m). \<not> (event_at < vc_start c \<or> \<not> event_at < vc_end c)) (zip cycles sources) of
            None \<Rightarrow> Inr frame
          | Some (c, m) \<Rightarrow> extend_current_cycle frame prior quote s before event_at c m)))"

definition add_timed_quota :: "value_frame \<Rightarrow> value_projection \<Rightarrow> entitlement_snapshot \<Rightarrow> entitlement_state \<Rightarrow> gotime \<Rightarrow>
    value_frame result" where
  "add_timed_quota frame quote s before event_at =
     (let after = sn_after s in
      if sn_kind s \<noteq> ''traffic_pack'' \<or> sn_model s \<noteq> timed_quota_addition_allocation \<or> sn_periods s \<noteq> []
         \<or> sn_term_start s \<noteq> sn_captured s \<or> \<not> event_at < sn_term_end s
         \<or> es_start before \<noteq> es_start after \<or> es_end before \<noteq> es_end after
         \<or> es_plan before \<noteq> es_plan after \<or> es_sku before \<noteq> es_sku after
         \<or> es_policy before \<noteq> es_policy after \<or> es_reset_quota before \<noteq> es_reset_quota after
         \<or> \<not> same_value_reset (es_next_reset before) (es_next_reset after)
         \<or> es_used after \<noteq> es_used before \<or> es_cycle_used after \<noteq> es_cycle_used before
         \<or> es_total after \<le> es_total before \<or> sn_term_end s \<noteq> vc_end (vp_cycle quote)
         \<or> vp_current quote > max64 - sn_paid s
      then Inl ErrValueEvidence
      else
        try_bind (current_projection_sources quote frame before event_at) (\<lambda>shares.
        try_bind (add_value_amounts shares [(sn_order s, sn_paid s)]) (\<lambda>shares.
        try_bind (quota_for_value after) (\<lambda>quota.
          let remaining = max 0 (sub64 (es_total after) (es_used after)) in
          if remaining = 0 then Inl ErrValueEvidence
          else Inr (frame\<lparr>vf_basis := Some
            \<lparr>be_captured = sn_captured s, be_time_only = False,
             be_basis = \<lparr>vb_at = event_at, vb_end = vc_end (vp_cycle quote),
                         vb_amount = add64 (vp_current quote) (sn_paid s),
                         vb_used = es_used after, vb_quota = remaining\<rparr>,
             be_cycle_start = vc_start (vp_cycle quote), be_total_quota = quota,
             be_sources = shares\<rparr>\<rparr>)))))"

definition apply_paid_reset :: "value_frame \<Rightarrow> value_projection \<Rightarrow> entitlement_snapshot \<Rightarrow> entitlement_state \<Rightarrow> gotime \<Rightarrow>
    value_frame result" where
  "apply_paid_reset frame quote s before event_at =
     (let after = sn_after s in
      if sn_model s \<noteq> ''reset_value_continuity_v1'' \<or> es_end before \<noteq> es_end after
         \<or> es_next_reset before = None \<or> es_next_reset after = None
         \<or> es_next_reset before \<noteq> es_next_reset after
         \<or> es_used after \<noteq> es_used before \<or> es_cycle_used after \<noteq> es_used after
         \<or> vp_current quote > max64 - sn_paid s
      then Inl ErrValueEvidence
      else
        try_bind (current_projection_sources quote frame before event_at) (\<lambda>shares.
        try_bind (add_value_amounts shares [(sn_order s, sn_paid s)]) (\<lambda>shares.
        try_bind (quota_for_value after) (\<lambda>quota.
          Inr (frame\<lparr>vf_basis := Some
            \<lparr>be_captured = sn_captured s, be_time_only = False,
             be_basis = \<lparr>vb_at = event_at, vb_end = vc_end (vp_cycle quote),
                         vb_amount = add64 (vp_current quote) (sn_paid s),
                         vb_used = es_used after, vb_quota = quota\<rparr>,
             be_cycle_start = vc_start (vp_cycle quote), be_total_quota = quota,
             be_sources = shares\<rparr>\<rparr>)))))"

definition apply_paid_mode :: "value_frame \<Rightarrow> value_projection \<Rightarrow> entitlement_snapshot \<Rightarrow> entitlement_state \<Rightarrow> gotime \<Rightarrow>
    value_frame result" where
  "apply_paid_mode frame quote s before event_at =
     (if sn_mode s = ''extended_term'' then extend_term frame quote s before event_at
      else if sn_mode s = ''timed_quota_addition'' then add_timed_quota frame quote s before event_at
      else if sn_mode s = ''paid_reset'' then apply_paid_reset frame quote s before event_at
      else Inl ErrValueEvidence)"

text \<open>The root of a term, one later grant, and the loop over them.\<close>

definition timed_root :: "digest \<Rightarrow> string \<Rightarrow> nat \<Rightarrow> timed_sync_event list \<Rightarrow> bool \<Rightarrow> entitlement_snapshot \<Rightarrow>
    (value_frame \<times> timed_replay option) result" where
  "timed_root digest currency epoch events strict s =
     (if \<not> snapshot_ok currency (sn_subscription s) s then Inl ErrValueEvidence
      else if \<not> is_term_root (sn_mode s) \<or> sn_term_start s \<noteq> es_start (sn_after s)
         \<or> sn_term_end s \<noteq> es_end (sn_after s)
      then Inl ErrValueEvidence
      else
        try_bind (append_value_periods
            \<lparr>vf_periods = [], vf_owners = [], vf_anchor = es_start (sn_after s), vf_end = es_end (sn_after s),
             vf_basis = None, vf_cache = None\<rparr> s) (\<lambda>frame.
          if strict then try_bind (replay_seed digest epoch events frame s) (\<lambda>r. Inr (frame, Some r))
          else Inr (frame, None)))"

definition timed_step :: "digest \<Rightarrow> string \<Rightarrow> nat \<Rightarrow> entitlement_snapshot list \<Rightarrow> entitlement_snapshot \<Rightarrow>
    value_frame \<Rightarrow> timed_replay option \<Rightarrow> entitlement_snapshot \<Rightarrow> (value_frame \<times> timed_replay option) result" where
  "timed_step digest currency subscription before_records last_s frame tracker s =
     (if \<not> snapshot_ok currency subscription s then Inl ErrValueEvidence
      else case sn_before s of
        None \<Rightarrow> Inl ErrValueEvidence
      | Some before \<Rightarrow>
          if \<not> snapshot_continues last_s s before then Inl ErrValueEvidence
          else
            try_bind
              (case tracker of
                 None \<Rightarrow> Inr (frame, None, sn_event_at s)
               | Some r \<Rightarrow>
                   try_bind (replay_before_grant digest before_records s before frame r) (\<lambda>(frame, r).
                   try_bind (replay_grant_at frame r s) (\<lambda>event_at. Inr (frame, Some r, event_at))))
              (\<lambda>(frame, tracker, event_at).
                try_bind (project frame before event_at) (\<lambda>quote.
                try_bind (apply_paid_mode frame quote s before event_at) (\<lambda>frame.
                  case tracker of
                    None \<Rightarrow> Inr (frame, None)
                  | Some r \<Rightarrow>
                      try_bind (replay_accept_grant digest frame r s before) (\<lambda>r. Inr (frame, Some r))))))"

fun timed_steps :: "digest \<Rightarrow> string \<Rightarrow> nat \<Rightarrow> entitlement_snapshot list \<Rightarrow> entitlement_snapshot \<Rightarrow>
    value_frame \<Rightarrow> timed_replay option \<Rightarrow> entitlement_snapshot list \<Rightarrow>
    (value_frame \<times> timed_replay option \<times> entitlement_snapshot) result" where
  "timed_steps digest currency subscription seen last_s frame tracker [] = Inr (frame, tracker, last_s)"
| "timed_steps digest currency subscription seen last_s frame tracker (s # rest) =
     try_bind (timed_step digest currency subscription seen last_s frame tracker s) (\<lambda>(frame, tracker).
       timed_steps digest currency subscription (seen @ [s]) s frame tracker rest)"

definition project_timed_value_events :: "digest \<Rightarrow> entitlement_snapshot list \<Rightarrow> entitlement_state \<Rightarrow> string \<Rightarrow>
    gotime \<Rightarrow> timed_sync_event list \<Rightarrow> nat \<Rightarrow> bool \<Rightarrow>
    (value_projection \<times> value_frame \<times> timed_replay option) result" where
  "project_timed_value_events digest records current currency at events epoch strict =
     (case records of
        [] \<Rightarrow> Inl ErrValueEvidence
      | root # rest \<Rightarrow>
          try_bind (timed_root digest currency epoch events strict root) (\<lambda>(frame, tracker).
          try_bind (timed_steps digest currency (sn_subscription root) [root] root frame tracker rest)
            (\<lambda>(frame, tracker, last_s).
          try_bind
            (case tracker of
               None \<Rightarrow> Inr (frame, None)
             | Some r \<Rightarrow> try_bind (replay_finish digest records current at frame r) (\<lambda>(frame, r). Inr (frame, Some r)))
            (\<lambda>(frame, tracker).
              if es_plan current \<noteq> es_plan (sn_after last_s) \<or> es_sku current \<noteq> es_sku (sn_after last_s)
                 \<or> es_start current \<noteq> es_start (sn_after last_s) \<or> es_end current \<noteq> es_end (sn_after last_s)
                 \<or> es_policy current \<noteq> es_policy (sn_after last_s) \<or> es_used current < es_used (sn_after last_s)
              then Inl ErrValueEvidence
              else
                try_bind (project frame current at) (\<lambda>out.
                let out = out\<lparr>vp_model := ''remaining_value_basis_v1'', vp_root := sn_order root\<rparr> in
                try_bind
                  (case tracker of
                     None \<Rightarrow> fingerprint_value_projection digest records current out
                   | Some r \<Rightarrow>
                       if tr_typed r
                       then replay_fingerprint digest r current (out\<lparr>vp_model := timed_sync_allocation\<rparr>)
                       else fingerprint_value_projection digest records current out)
                  (\<lambda>out. Inr (out, frame, tracker)))))))"

text \<open>Contexts: \<open>nil\<close>, live, or already canceled when the call starts.\<close>

datatype goctx = NilCtx | LiveCtx | DoneCtx

definition timed_plan_records :: "goctx \<Rightarrow> entitlement_snapshot list \<Rightarrow> entitlement_state \<Rightarrow> gotime \<Rightarrow>
    entitlement_snapshot list result" where
  "timed_plan_records ctx records current at =
     (if ctx = NilCtx \<or> records = [] \<or> is_zero at \<or> is_perpetual_end (es_end current) then Inl ErrValueEvidence
      else if ctx = DoneCtx then Inl ErrCanceled
      else case records_from_root records (es_start current) of
          None \<Rightarrow> Inl ErrValueEvidence
        | Some rs \<Rightarrow> Inr rs)"

fun same_base :: "int \<Rightarrow> entitlement_snapshot list \<Rightarrow> int option" where
  "same_base base [] = Some base"
| "same_base base (s # rest) =
     (case sn_before s of
        None \<Rightarrow> None
      | Some b \<Rightarrow> if es_reset_quota b \<noteq> base then None else same_base (es_reset_quota (sn_after s)) rest)"

definition project_timed_entitlement_value_with_plan_sync :: "digest \<Rightarrow> goctx \<Rightarrow> entitlement_snapshot list \<Rightarrow>
    timed_sync_event list \<Rightarrow> entitlement_state \<Rightarrow> string \<Rightarrow> gotime \<Rightarrow> nat \<Rightarrow> value_projection result" where
  "project_timed_entitlement_value_with_plan_sync digest ctx records events current currency at epoch =
     try_bind (timed_plan_records ctx records current at) (\<lambda>records.
       let legacy = (events = [] \<and> at < es_end current \<and> es_ended current = None \<and> es_end_reason current = []
               \<and> (case es_next_reset current of None \<Rightarrow> True | Some t \<Rightarrow> at < t)
               \<and> same_base (es_reset_quota (sn_after (hd records))) (tl records) = Some (es_reset_quota current))
       in if legacy
          then try_bind (project_timed_value_events digest records current currency at [] 0 False) (\<lambda>(out, _). Inr out)
          else try_bind (project_timed_value_events digest records current currency at events epoch True)
                 (\<lambda>(out, _). Inr out))"

definition prepare_timed_plan_quota_sync :: "digest \<Rightarrow> goctx \<Rightarrow> entitlement_snapshot list \<Rightarrow>
    timed_sync_event list \<Rightarrow> entitlement_state \<Rightarrow> string \<Rightarrow> gotime \<Rightarrow> nat \<Rightarrow> int \<Rightarrow> nat \<Rightarrow> timed_sync_detail result" where
  "prepare_timed_plan_quota_sync digest ctx records events current currency at epoch new_base revision =
     try_bind (timed_plan_records ctx records current at) (\<lambda>records.
       if \<not> at < es_end current then Inl ErrValueEvidence
       else try_bind (project_timed_value_events digest records current currency at events epoch True)
         (\<lambda>(quote, frame, tracker).
           case tracker of
             None \<Rightarrow> Inl ErrValueEvidence
           | Some r \<Rightarrow> replay_prepare frame r current at new_base revision (vp_fingerprint quote)))"

section \<open>Budgets of the replay\<close>

definition frame_inv :: "value_frame \<Rightarrow> (nat \<Rightarrow> int) \<Rightarrow> bool" where
  "frame_inv f budget \<longleftrightarrow> funded f budget \<and> length (vf_owners f) = length (vf_periods f)"

text \<open>What order \<open>k\<close> actually paid in the records.\<close>

definition paid_by :: "entitlement_snapshot list \<Rightarrow> nat \<Rightarrow> int" where
  "paid_by records k = (\<Sum>s \<leftarrow> records. if sn_order s = k then sn_paid s else 0)"

lemma paid_by_simps [simp]:
  "paid_by [] k = 0"
  "paid_by (rs @ [s]) k = paid_by rs k + (if sn_order s = k then sn_paid s else 0)"
  by (simp_all add: paid_by_def)

lemma owned_after_cong: "vf_periods f = vf_periods g \<Longrightarrow> vf_owners f = vf_owners g \<Longrightarrow> owned_after f k t = owned_after g k t"
  by (simp add: owned_after_def)

lemma cycle_end_grows:
  assumes "frame_cycles f policy = Inr (cs, srcs)" "frame_cycles f' policy = Inr (cs', srcs')"
    and "vf_periods f' = vf_periods f @ new" "vf_anchor f' = vf_anchor f"
    and c: "c \<in> set cs" "vc_start c \<le> at" "at < vc_end c" and c': "c' \<in> set cs'" "vc_start c' \<le> at" "at < vc_end c'"
  shows "vc_end c \<le> vc_end c'"
proof (rule ccontr)
  assume less: "\<not> vc_end c \<le> vc_end c'"
  let ?nxt = "next_traffic_reset_after (vf_anchor f) policy"
  note split = frame_cycles_spec(1)[OF assms(1)] and split' = frame_cycles_spec(1)[OF assms(2)]
  note parts = split_paid_value_parts[OF split] and parts' = split_paid_value_parts[OF split']
  have ne: "vf_periods f \<noteq> []" using split_paid_value_cases[OF split] by blast
  have "pp_end (last (vf_periods f)) \<le> pp_end (last (vf_periods f'))"
    using periods_chain_bounds[OF parts'(2), of "last (vf_periods f)"] ne by (auto simp: assms(3))
  moreover have "vc_end c \<le> pp_end (last (vf_periods f))" using cycles_chain_bounds[OF parts(1) c(1)] by simp
  ultimately have "vc_end c' \<noteq> pp_end (last (vf_periods f'))" using less by simp
  from parts'(8)[OF c'(1) this] have "?nxt (vc_start c') = Some (vc_end c')" by (simp add: assms(4))
  from calendar_resets.nxt_stable[OF this c'(2,3)] have at: "?nxt at = Some (vc_end c')" .
  show False
  proof (cases "?nxt (vc_start c)")
    case None
    with at next_reset_None_iff show False by (metis option.distinct(1))
  next
    case (Some x)
    from split_paid_value_cut[OF split c(1) Some] have x: "vc_end c \<le> x" .
    with c(3) have "at < x" by simp
    from calendar_resets.nxt_stable[OF Some c(2) this] at x less show False by simp
  qed
qed

text \<open>The current shares of a quote, with whatever was paid for the time after its cycle.\<close>

lemma shares_in_budget:
  assumes "project f s at = Inr q" "funded f budget"
    and "current_projection_sources q' f s at = Inr shares"
    and "vp_sources q' = vp_sources q" "vp_current q' = vp_current q"
    and later: "\<And>cs srcs. frame_cycles f (es_policy s) = Inr (cs, srcs) \<Longrightarrow> vp_cycle q \<in> set cs \<Longrightarrow>
      vc_start (vp_cycle q) \<le> at \<Longrightarrow> at < vc_end (vp_cycle q) \<Longrightarrow> vc_end (vp_cycle q) \<le> t'"
  shows "wf_sources shares" "amt shares k + owned_after f k t' \<le> budget k" "sum_amounts shares = vp_current q"
    "0 \<le> vp_current q"
proof -
  from project_parts[OF assms(1) funded_basis[OF assms(2)]] obtain cs srcs cur t where
    cycles: "frame_cycles f (es_policy s) = Inr (cs, srcs)"
    and sourced: "sourced f (zip cs srcs) (pp_start (hd (vf_periods f)))"
    and cur: "current_part f s at q (zip cs srcs) cur t \<or> no_current_part at q (zip cs srcs) cur t"
    and parts: "parts_add_up q (future_cycles at (zip cs srcs)) cur"
    and total: "vp_total q = vp_current q + vp_future q" "vp_total q \<le> max64"
    and after: "\<forall>k. (\<Sum>(c, m) \<leftarrow> future_cycles at (zip cs srcs). amt m k) = owned_after f k t" .
  have fits: "vp_current q + vp_future q \<le> max64" using total by simp
  obtain r where r: "current_projection_sources q' f s at = Inr r" "wf_sources r" "\<And>k. amt r k = amt cur k"
    "sum_amounts r = vp_current q"
    using current_sources_recovered[OF cycles refl parts fits assms(4,5)] by blast
  with assms(3) have eq: "r = shares" by simp
  show "wf_sources shares" "sum_amounts shares = vp_current q" using r eq by auto
  show "0 \<le> vp_current q" using sum_sources_nonneg[OF r(2)] r(4) by simp
  note wf = frame_cycles_wf[OF cycles]
  from parts_in_budget[OF assms(2) wf sourced cur, of k] r(3)[of k] eq
  have budget: "amt shares k + owned_after f k t \<le> budget k" by simp
  from cur show "amt shares k + owned_after f k t' \<le> budget k"
  proof
    assume c: "current_part f s at q (zip cs srcs) cur t"
    then have "vp_cycle q \<in> set cs" "t = vc_end (vp_cycle q)" "vc_start (vp_cycle q) \<le> at" "at < t"
      by (auto simp: current_part_def dest: set_zip_leftD)
    with later[OF cycles] have "t \<le> t'" by simp
    from owned_after_antimono[OF wf this, of k] budget show ?thesis by simp
  next
    assume "no_current_part at q (zip cs srcs) cur t"
    then have "amt shares k = 0" using r(3)[of k] eq by (simp add: no_current_part_def)
    moreover have "owned_after f k t' \<le> budget k"
      using owned_after_le[OF wf, of k t'] assms(2) by (simp add: funded_def order_trans)
    ultimately show ?thesis by simp
  qed
qed

text \<open>Replacing the basis of a frame.\<close>

lemma frame_inv_rebase:
  assumes "frame_inv f budget" "\<And>k. budget k \<le> budget' k" "wf_sources (be_sources e)"
    and "\<And>k. amt (be_sources e) k + owned_after f k (vb_end (be_basis e)) \<le> budget' k"
  shows "frame_inv (f\<lparr>vf_basis := Some e\<rparr>) budget'"
proof -
  have "owned_paid (f\<lparr>vf_basis := Some e\<rparr>) k \<le> budget' k" for k
    using assms(1) order_trans[OF _ assms(2)[of k]] by (simp add: frame_inv_def funded_def owned_paid_def)
  moreover have "owned_after (f\<lparr>vf_basis := Some e\<rparr>) k t = owned_after f k t" for k t
    by (rule owned_after_cong) simp_all
  ultimately show ?thesis using assms by (auto simp: frame_inv_def funded_def basis_sources_ok_def)
qed

lemma add_one_source:
  assumes "wf_sources m" "add_value_amounts m [(order, a)] = Inr m'"
  shows "wf_sources m'" "amt m' k = amt m k + (if k = order then a else 0)" "0 \<le> a"
  using add_value_amounts_Inr[OF assms(1) _ assms(2)] by (auto simp: amt_Cons addable_def)

lemma rebase_in_budget:
  assumes "frame_inv f budget" "project f s at = Inr q" "0 \<le> paid"
    and "current_projection_sources q f s at = Inr shares"
    and "add_value_amounts shares [(order, paid)] = Inr shares'"
    and "be_sources e = shares'" "vb_end (be_basis e) = vc_end (vp_cycle q)"
  shows "frame_inv (f\<lparr>vf_basis := Some e\<rparr>) (\<lambda>k. budget k + (if k = order then paid else 0))"
proof -
  have fd: "funded f budget" using assms(1) by (simp add: frame_inv_def)
  note shares = shares_in_budget[OF assms(2) fd assms(4) refl refl, of "vc_end (vp_cycle q)"]
  have wf: "wf_sources shares" using shares(1) by blast
  note add = add_one_source[OF wf assms(5)]
  show ?thesis
  proof (rule frame_inv_rebase[OF assms(1)])
    show "wf_sources (be_sources e)" using add(1) assms(6) by simp
    fix k
    show "budget k \<le> budget k + (if k = order then paid else 0)" using assms(3) by simp
    show "amt (be_sources e) k + owned_after f k (vb_end (be_basis e)) \<le> budget k + (if k = order then paid else 0)"
      using shares(2)[of k] add(2)[of k] assms(6,7) by simp
  qed
qed

section \<open>Each grant keeps the budgets\<close>

lemma apply_paid_reset_inv:
  assumes "apply_paid_reset f q s before at = Inr f'" "project f before at = Inr q"
    and "frame_inv f budget" "0 \<le> sn_paid s"
  shows "frame_inv f' (\<lambda>k. budget k + (if k = sn_order s then sn_paid s else 0))"
  using assms(1) unfolding apply_paid_reset_def Let_def
  by (auto intro!: rebase_in_budget[OF assms(3,2,4)])

lemma add_timed_quota_inv:
  assumes "add_timed_quota f q s before at = Inr f'" "project f before at = Inr q"
    and "frame_inv f budget" "0 \<le> sn_paid s"
  shows "frame_inv f' (\<lambda>k. budget k + (if k = sn_order s then sn_paid s else 0))"
  using assms(1) unfolding add_timed_quota_def Let_def
  by (auto intro!: rebase_in_budget[OF assms(3,2,4)])

lemma extend_current_cycle_cases:
  assumes "extend_current_cycle frame prior quote s before at c m = Inr f'"
  shows "f' = frame \<or> (\<exists>shares e. vf_basis f' = Some e \<and> f' = frame\<lparr>vf_basis := vf_basis f'\<rparr>
    \<and> current_projection_sources quote prior before at = Inr shares
    \<and> add_value_amounts shares [(sn_order s, amt m (sn_order s))] = Inr (be_sources e)
    \<and> vb_end (be_basis e) = vc_end c)"
proof (cases "vc_end c \<noteq> vc_end (vp_cycle quote) \<or> 0 < amt m (sn_order s)")
  case True
  with assms show ?thesis unfolding extend_current_cycle_def Let_def
    by (intro disjI2) (auto simp del: add_value_amounts.simps)
qed (use assms in \<open>simp add: extend_current_cycle_def Let_def\<close>)

lemma project_wf: "project f s at = Inr q \<Longrightarrow> wf_frame f"
  by (auto simp: project_def dest: frame_cycles_wf)

lemma extend_term_inv:
  assumes "extend_term f q s before at = Inr f'" "project f before at = Inr q"
    and "frame_inv f budget" "0 \<le> sn_paid s" "budget (sn_order s) \<le> 0"
  shows "frame_inv f' (\<lambda>k. budget k + (if k = sn_order s then sn_paid s else 0))"
proof -
  let ?budget = "\<lambda>k. budget k + (if k = sn_order s then sn_paid s else 0)"
  from assms(1) obtain g where append: "append_value_periods f s = Inr g"
    by (auto simp: extend_term_def Let_def split: if_splits)
  define h where "h = g\<lparr>vf_end := es_end (sn_after s)\<rparr>"
  from assms(1) append obtain cs srcs where policy: "es_policy before = es_policy (sn_after s)"
    and cycles: "frame_cycles h (es_policy (sn_after s)) = Inr (cs, srcs)"
    and found: "(case find (\<lambda>(c, m). \<not> (at < vc_start c \<or> \<not> at < vc_end c)) (zip cs srcs) of
        None \<Rightarrow> Inr h | Some (c, m) \<Rightarrow> extend_current_cycle h f q s before at c m) = Inr f'"
    unfolding extend_term_def Let_def h_def by (auto split: if_splits)
  note spec = append_value_periods_spec[OF append]
  have fd: "funded f budget" and len: "length (vf_owners f) = length (vf_periods f)"
    using assms(3) by (simp_all add: frame_inv_def)
  have same: "vf_periods h = vf_periods f @ sn_periods s" "vf_anchor h = vf_anchor f"
    "vf_owners h = vf_owners f @ replicate (length (sn_periods s)) (sn_order s)" "vf_basis h = vf_basis f"
    by (simp_all add: h_def spec(1))
  have inv: "frame_inv h ?budget"
    using funded_append[OF append fd len] len spec(1)
    by (auto simp: frame_inv_def funded_def h_def basis_sources_ok_def owned_paid_def owned_after_def)
  show ?thesis
  proof (cases "find (\<lambda>(c, m). \<not> (at < vc_start c \<or> \<not> at < vc_end c)) (zip cs srcs)")
    case None
    with found inv show ?thesis by simp
  next
    case (Some z)
    obtain c m where z: "z = (c, m)" by force
    from find_Some_iff[THEN iffD1, OF Some] have in_zs: "(c, m) \<in> set (zip cs srcs)"
      and c: "vc_start c \<le> at" "at < vc_end c" unfolding z by (auto simp: in_set_conv_nth)
    from in_zs have c_in: "c \<in> set cs" by (rule set_zip_leftD)
    from found Some z have "extend_current_cycle h f q s before at c m = Inr f'" by simp
    from extend_current_cycle_cases[OF this] consider "f' = h"
      | shares e where "current_projection_sources q f before at = Inr shares"
        "add_value_amounts shares [(sn_order s, amt m (sn_order s))] = Inr (be_sources e)"
        "f' = h\<lparr>vf_basis := Some e\<rparr>" "vb_end (be_basis e) = vc_end c" by metis
    then show ?thesis
    proof cases
      case 1
      with inv show ?thesis by simp
    next
      case 2
      have later: "vc_end (vp_cycle q) \<le> vc_end c"
        if "frame_cycles f (es_policy before) = Inr (cs0, srcs0)" "vp_cycle q \<in> set cs0"
          "vc_start (vp_cycle q) \<le> at" "at < vc_end (vp_cycle q)" for cs0 srcs0
        using cycle_end_grows[OF that(1)[unfolded policy] cycles same(1,2) that(2-4) c_in c] .
      have shares: "wf_sources shares" "amt shares k + owned_after f k (vc_end c) \<le> budget k" for k
        by (rule shares_in_budget(1,2)[OF assms(2) fd 2(1) refl refl], rule later, assumption+)+
      note add = add_one_source[OF shares(1) 2(2)]
      have wf: "wf_frame f" by (rule project_wf[OF assms(2)])
      have "amt (be_sources e) k + owned_after h k (vb_end (be_basis e)) \<le> ?budget k" for k
      proof (cases "k = sn_order s")
        case True
        have "amt shares k \<le> 0"
          using shares(2)[of k] owned_after_nonneg[OF wf, of k "vc_end c"] assms(5) True by simp
        moreover have "amt m k + owned_after h k (vc_end c) = owned_after h k (vc_start c)"
          using frame_cycles_sourced(1)[OF cycles] in_zs owned_after_step[of c h k] by (auto simp: sourced_def)
        moreover have "owned_after h k (vc_start c) \<le> ?budget k"
          using owned_after_le[OF frame_cycles_wf[OF cycles], of k "vc_start c"] inv
          by (simp add: frame_inv_def funded_def order_trans)
        ultimately show ?thesis using add(2)[of k] 2(4) True by simp
      next
        case False
        have "owned_after h k (vc_end c) = owned_after f k (vc_end c)"
          using False len by (simp add: owned_after_def same owned_append owned_replicate)
        with shares(2)[of k] add(2)[of k] 2(4) False show ?thesis by simp
      qed
      with add(1) 2(3) show ?thesis by (auto intro!: frame_inv_rebase[OF inv])
    qed
  qed
qed

lemma apply_paid_mode_inv:
  assumes "apply_paid_mode f q s before at = Inr f'" "project f before at = Inr q"
    and "frame_inv f budget" "0 \<le> sn_paid s" "budget (sn_order s) \<le> 0"
  shows "frame_inv f' (\<lambda>k. budget k + (if k = sn_order s then sn_paid s else 0))"
  using assms(1) extend_term_inv[OF _ assms(2-5)] add_timed_quota_inv[OF _ assms(2-4)]
    apply_paid_reset_inv[OF _ assms(2-4)]
  unfolding apply_paid_mode_def by (auto split: if_splits)

section \<open>Synchronisations keep the budgets\<close>

lemma fingerprint_keeps:
  "fingerprint_value_projection digest rs c out = Inr out' \<Longrightarrow>
    vp_sources out' = vp_sources out \<and> vp_current out' = vp_current out \<and> vp_future out' = vp_future out
    \<and> vp_total out' = vp_total out \<and> vp_cycle out' = vp_cycle out"
  "replay_fingerprint digest r c out = Inr out' \<Longrightarrow>
    vp_sources out' = vp_sources out \<and> vp_current out' = vp_current out \<and> vp_future out' = vp_future out
    \<and> vp_total out' = vp_total out \<and> vp_cycle out' = vp_cycle out"
  by (auto simp: fingerprint_value_projection_def replay_fingerprint_def)

lemma typed_rebase_cases:
  assumes "typed_rebase f before d = Inr f'"
  shows "f' = f \<or> (\<exists>shares b. vf_basis f' = Some b \<and> f' = f\<lparr>vf_basis := vf_basis f'\<rparr>
    \<and> current_projection_sources before f (td_before d) (td_captured d) = Inr shares
    \<and> proportion_value_sources (td_current_after d) shares = Inr (be_sources b)
    \<and> vb_end (be_basis b) = vc_end (vp_cycle before))"
proof (cases "is_zero (vc_end (vp_cycle before))")
  case False
  with assms show ?thesis unfolding typed_rebase_def by (intro disjI2) auto
qed (use assms in \<open>simp add: typed_rebase_def\<close>)

lemma apply_typed_inv:
  assumes "apply_typed digest records e d f r = Inr (f', r')" "frame_inv f budget"
  shows "frame_inv f' budget"
proof -
  let ?at = "td_captured d"
  from assms(1) obtain quote before where project: "project f (td_before d) ?at = Inr quote"
    and same: "vp_sources before = vp_sources quote" "vp_current before = vp_current quote" "vp_cycle before = vp_cycle quote"
    and result: "f' = f \<or> (\<exists>shares b. vf_basis f' = Some b \<and> f' = f\<lparr>vf_basis := vf_basis f'\<rparr>
        \<and> current_projection_sources before f (td_before d) ?at = Inr shares
        \<and> proportion_value_sources (td_current_after d) shares = Inr (be_sources b)
        \<and> vb_end (be_basis b) = vc_end (vp_cycle quote))"
  proof -
    from assms(1) obtain r1 quote before where project: "project f (td_before d) ?at = Inr quote"
      and fp: "(if tr_typed r1 then replay_fingerprint digest r1 (td_before d)
          (quote\<lparr>vp_root := sn_order (tr_root r1), vp_model := timed_sync_allocation\<rparr>)
        else fingerprint_value_projection digest records (td_before d)
          (quote\<lparr>vp_root := sn_order (tr_root r1), vp_model := ''remaining_value_basis_v1''\<rparr>)) = Inr before"
      and tail: "typed_rebase f before d = Inr f'"
      unfolding apply_typed_def Let_def by auto
    from fp have same: "vp_sources before = vp_sources quote" "vp_current before = vp_current quote"
        "vp_cycle before = vp_cycle quote"
      by (auto split: if_splits dest: fingerprint_keeps)
    from typed_rebase_cases[OF tail] same project show thesis by (intro that) simp_all
  qed
  from result show ?thesis
  proof
    assume "\<exists>shares b. vf_basis f' = Some b \<and> f' = f\<lparr>vf_basis := vf_basis f'\<rparr>
        \<and> current_projection_sources before f (td_before d) ?at = Inr shares
        \<and> proportion_value_sources (td_current_after d) shares = Inr (be_sources b)
        \<and> vb_end (be_basis b) = vc_end (vp_cycle quote)"
    then obtain shares b where b: "current_projection_sources before f (td_before d) ?at = Inr shares"
      "proportion_value_sources (td_current_after d) shares = Inr (be_sources b)"
      "f' = f\<lparr>vf_basis := Some b\<rparr>" "vb_end (be_basis b) = vc_end (vp_cycle quote)" by metis
    have fd: "funded f budget" using assms(2) by (simp add: frame_inv_def)
    note shares = shares_in_budget[OF project fd b(1) same(1,2), of "vc_end (vp_cycle quote)"]
    have "wf_amounts shares" using shares(1) by (blast intro: wf_sources_amounts)
    note spec = proportion_value_sources_spec[OF this b(2)]
    have "amt (be_sources b) k + owned_after f k (vc_end (vp_cycle quote)) \<le> budget k" for k
      using shares(2)[of k] spec(3)[of k] by simp
    with spec(1) b(3,4) show ?thesis by (auto intro!: frame_inv_rebase[OF assms(2)])
  qed (use assms(2) in simp)
qed

lemma apply_event_inv:
  assumes "apply_event digest records at e f r = Inr (f', r')" "frame_inv f budget"
  shows "frame_inv f' budget"
  using assms apply_typed_inv[of digest records e _ f r]
  by (auto simp: apply_event_def split: if_splits option.splits)

lemma apply_events_inv:
  "apply_events digest records eid at es f r = Inr (f', r') \<Longrightarrow> frame_inv f budget \<Longrightarrow> frame_inv f' budget"
proof (induction es arbitrary: f r)
  case (Cons e es)
  show ?case
  proof (cases "te_id e < eid")
    case True
    with Cons.prems(1) obtain g q where "apply_event digest records at e f r = Inr (g, q)"
      "apply_events digest records eid at es g q = Inr (f', r')" by auto
    with apply_event_inv[OF _ Cons.prems(2)] Cons.IH show ?thesis by blast
  qed (use Cons.prems in \<open>auto split: if_splits\<close>)
qed simp

lemma replay_before_grant_inv:
  "replay_before_grant digest records s before f r = Inr (f', r') \<Longrightarrow> frame_inv f budget \<Longrightarrow> frame_inv f' budget"
  unfolding replay_before_grant_def apply_before_def by (auto split: if_splits dest: apply_events_inv)

lemma replay_finish_inv:
  "replay_finish digest records current at f r = Inr (f', r') \<Longrightarrow> frame_inv f budget \<Longrightarrow> frame_inv f' budget"
  unfolding replay_finish_def apply_before_def Let_def
  by (auto split: if_splits option.splits dest: apply_events_inv)

section \<open>The whole replay\<close>

lemma timed_step_inv:
  assumes "timed_step digest currency subscription seen last_s f tracker s = Inr (f', tracker')"
    and "frame_inv f (paid_by seen)" "sn_order s \<notin> sn_order ` set seen"
  shows "frame_inv f' (paid_by (seen @ [s]))"
proof -
  have zero: "paid_by seen (sn_order s) = 0"
    using assms(3) unfolding paid_by_def by (induction seen) auto
  obtain before g event_at q where paid: "0 \<le> sn_paid s"
    and g: "frame_inv g (paid_by seen)" and project: "project g before event_at = Inr q"
    and grant: "apply_paid_mode g q s before event_at = Inr f'"
  proof (cases tracker)
    case None
    with assms(1,2) that show thesis by (auto simp: timed_step_def snapshot_ok_def)
  next
    case (Some r)
    with assms(1) obtain before g r' event_at q where "0 \<le> sn_paid s"
      "replay_before_grant digest seen s before f r = Inr (g, r')" "project g before event_at = Inr q"
      "apply_paid_mode g q s before event_at = Inr f'"
      by (auto simp: timed_step_def snapshot_ok_def)
    with replay_before_grant_inv[OF _ assms(2)] that show thesis by blast
  qed
  have eq: "paid_by (seen @ [s]) = (\<lambda>k. paid_by seen k + (if k = sn_order s then sn_paid s else 0))"
    by (auto simp: fun_eq_iff)
  from apply_paid_mode_inv[OF grant project g paid] zero show ?thesis unfolding eq by simp
qed

lemma timed_steps_inv:
  "timed_steps digest currency subscription seen last_s f tracker rest = Inr (f', tracker', last') \<Longrightarrow>
    frame_inv f (paid_by seen) \<Longrightarrow> distinct (map sn_order (seen @ rest)) \<Longrightarrow> frame_inv f' (paid_by (seen @ rest))"
proof (induction rest arbitrary: seen last_s f tracker)
  case (Cons s rest)
  from Cons.prems(1) obtain g tr where step:
    "timed_step digest currency subscription seen last_s f tracker s = Inr (g, tr)"
    "timed_steps digest currency subscription (seen @ [s]) s g tr rest = Inr (f', tracker', last')" by auto
  have "frame_inv g (paid_by (seen @ [s]))"
    using Cons.prems(3) by (intro timed_step_inv[OF step(1) Cons.prems(2)]) auto
  from Cons.IH[OF step(2) this] Cons.prems(3) show ?case by simp
qed simp

lemma timed_root_inv:
  assumes "timed_root digest currency epoch events strict s = Inr (f, tracker)"
  shows "frame_inv f (paid_by [s])"
proof -
  let ?empty = "\<lparr>vf_periods = [], vf_owners = [], vf_anchor = es_start (sn_after s), vf_end = es_end (sn_after s),
      vf_basis = None, vf_cache = None\<rparr>"
  from assms have append: "append_value_periods ?empty s = Inr f"
    by (auto simp: timed_root_def split: if_splits)
  have "funded ?empty (\<lambda>_. 0)" by (simp add: funded_def basis_sources_ok_def owned_paid_def)
  from funded_append[OF append this] append_value_periods_spec(1)[OF append]
  have "frame_inv f (\<lambda>k. 0 + (if k = sn_order s then sn_paid s else 0))" by (simp add: frame_inv_def)
  moreover have "(\<lambda>k. 0 + (if k = sn_order s then sn_paid s else 0)) = paid_by [s]"
    by (auto simp: paid_by_def fun_eq_iff)
  ultimately show ?thesis by simp
qed

lemma project_timed_value_events_inv:
  assumes "project_timed_value_events digest records current currency at events epoch strict = Inr (q, f, tracker)"
    and "distinct (map sn_order records)"
  obtains out where "frame_inv f (paid_by records)" "project f current at = Inr out"
    "vp_sources q = vp_sources out" "vp_current q = vp_current out" "vp_future q = vp_future out" "vp_total q = vp_total out"
proof -
  from assms(1) obtain root rest where records: "records = root # rest"
    by (auto simp: project_timed_value_events_def split: list.splits)
  from assms(1) obtain f1 t1 f2 t2 last_s where
    root: "timed_root digest currency epoch events strict root = Inr (f1, t1)"
    and steps: "timed_steps digest currency (sn_subscription root) [root] root f1 t1 rest = Inr (f2, t2, last_s)"
    and finish: "(case t2 of None \<Rightarrow> Inr (f2, None)
        | Some r \<Rightarrow> try_bind (replay_finish digest records current at f2 r) (\<lambda>(f, r). Inr (f, Some r))) = Inr (f, tracker)"
    and out: "\<exists>out. project f current at = Inr out \<and> vp_sources q = vp_sources out \<and> vp_current q = vp_current out
        \<and> vp_future q = vp_future out \<and> vp_total q = vp_total out"
    unfolding project_timed_value_events_def records list.case Let_def
    by (fastforce dest: fingerprint_keeps split: if_splits option.splits prod.splits)
  have "frame_inv f2 (paid_by records)"
    using timed_steps_inv[OF steps timed_root_inv[OF root]] assms(2) by (simp add: records)
  with finish have "frame_inv f (paid_by records)"
    by (auto split: option.splits dest: replay_finish_inv)
  with out that show thesis by blast
qed

section \<open>Properties\<close>

text \<open>A day bought by order 9 and extended by a second day of order 10 at half time.\<close>

definition sample_root :: entitlement_snapshot where
  "sample_root = \<lparr>sn_event_id = 1, sn_event_at = 86400000000000,
     sn_periods = [\<lparr>pp_start = 86400000000000, pp_end = 172800000000000, pp_amount = 10\<rparr>],
     sn_version = 1, sn_order = 9, sn_subscription = 4, sn_currency = ''USD'', sn_paid = 10, sn_verified = True,
     sn_payment_basis = [], sn_kind = ''new'', sn_mode = ''new_term'', sn_captured = 86400000000000,
     sn_term_start = 86400000000000, sn_term_end = 172800000000000, sn_billing_unit = ''day'',
     sn_billing_value = 1, sn_model = ''uniform_paid_units_v1'', sn_before = None,
     sn_after = sample_state\<lparr>es_used := 0\<rparr>, sn_legacy_transfer = False\<rparr>"

definition sample_extension :: entitlement_snapshot where
  "sample_extension = sample_root\<lparr>sn_event_id := 2, sn_event_at := 129600000000000,
     sn_periods := [\<lparr>pp_start = 172800000000000, pp_end = 259200000000000, pp_amount = 6\<rparr>],
     sn_order := 10, sn_paid := 6, sn_kind := ''renewal'', sn_mode := ''extended_term'',
     sn_captured := 129600000000000, sn_term_start := 172800000000000, sn_term_end := 259200000000000,
     sn_before := Some sample_state, sn_after := sample_state\<lparr>es_end := 259200000000000\<rparr>\<rparr>"

text \<open>
  C1. The refundable value of a timed term is balanced and never exceeds what was paid: after replaying
  any sequence of verified grants of distinct orders, and any plan quota synchronisations, the sources
  of the quote add up to its total and no order is credited more than it actually paid.
\<close>

theorem timed_value_within_payments:
  assumes "project_timed_value_events digest records current currency at events epoch strict = Inr (q, f, tracker)"
    and "distinct (map sn_order records)"
  shows "vp_total q = vp_current q + vp_future q \<and> sum_amounts (vp_sources q) = vp_total q
    \<and> 0 \<le> vp_current q \<and> 0 \<le> vp_future q
    \<and> 0 \<le> amt (vp_sources q) k \<and> amt (vp_sources q) k \<le> paid_by records k"
proof -
  from project_timed_value_events_inv[OF assms] obtain out where inv: "frame_inv f (paid_by records)"
    and out: "project f current at = Inr out"
    and same: "vp_sources q = vp_sources out" "vp_current q = vp_current out" "vp_future q = vp_future out"
      "vp_total q = vp_total out" .
  have fd: "funded f (paid_by records)" using inv by (simp add: frame_inv_def)
  from project_sources(1-4)[OF out fd] project_sources(5,6)[OF out fd, of k] same show ?thesis by simp
qed

theorem timed_value_within_payments_witness:
  "\<exists>q f tracker. project_timed_value_events (\<lambda>_. Inr ''f'') [sample_root, sample_extension]
      (sample_state\<lparr>es_end := 259200000000000, es_used := 30\<rparr>) ''USD'' 172800000000000 [] 0 False = Inr (q, f, tracker)
    \<and> vp_total q = 7 \<and> sum_amounts (vp_sources q) = 7 \<and> amt (vp_sources q) 9 \<le> 10"
proof -
  let ?p = "project_timed_value_events (\<lambda>_. Inr ''f'') [sample_root, sample_extension]
      (sample_state\<lparr>es_end := 259200000000000, es_used := 30\<rparr>) ''USD'' 172800000000000 [] 0 False"
  have "case ?p of Inl e \<Rightarrow> False | Inr (q, f, tracker) \<Rightarrow> vp_total q = 7" by code_simp
  then obtain q f tracker where p: "?p = Inr (q, f, tracker)" "vp_total q = 7"
    by (cases ?p) auto
  have "distinct (map sn_order [sample_root, sample_extension])"
    "paid_by [sample_root, sample_extension] 9 = 10" by code_simp+
  with timed_value_within_payments[OF p(1), of 9] p show ?thesis by auto
qed

text \<open>
  C36. A free plan quota synchronisation never raises the refundable value: the recorded value after it is
  at most the settled value before, future paid cycles keep theirs, the new total is exactly the used
  baseline plus the new base and the add-ons, and the plan revision advances.
\<close>

theorem plan_sync_never_raises_value:
  assumes "replay_prepare f r before at new_base revision fp = Inr d" "0 \<le> tr_addon r"
  shows "td_current_after d \<le> td_current_before d
    \<and> (\<exists>old changed. project f before at = Inr old \<and> project f (td_after d) at = Inr changed
         \<and> td_current_before d = vp_current old \<and> vp_future changed = vp_future old
         \<and> td_current_after d \<le> vp_current changed)
    \<and> es_total (td_after d) = es_cycle_used before + new_base + tr_addon r
    \<and> tr_last_revision r < td_revision d"
proof -
  let ?after = "before\<lparr>es_total := add64 (add64 (es_cycle_used before) new_base) (tr_addon r),
      es_reset_quota := new_base, es_status := ''active''\<rparr>"
  from assms(1) obtain old changed where ok: "0 < new_base" "tr_last_revision r < revision"
      "\<not> max64 - new_base < es_cycle_used before"
      "\<not> max64 - tr_addon r < add64 (es_cycle_used before) new_base"
    and p: "project f before at = Inr old" "project f ?after at = Inr changed" "vp_future old = vp_future changed"
    and d: "td_current_before d = vp_current old" "td_current_after d = min (vp_current old) (vp_current changed)"
      "td_after d = ?after" "td_revision d = revision"
    by (auto simp: replay_prepare_def Let_def)
  from p(1) have "0 \<le> es_cycle_used before"
    by (auto simp: project_def quota_for_value_def)
  then have base: "add64 (es_cycle_used before) new_base = es_cycle_used before + new_base"
    using ok by (intro add64_guarded) auto
  have sum: "add64 (es_cycle_used before + new_base) (tr_addon r) = es_cycle_used before + new_base + tr_addon r"
    using ok assms(2) \<open>0 \<le> es_cycle_used before\<close> unfolding base by (intro add64_guarded) auto
  show ?thesis using d p ok(2) base sum by auto
qed

theorem plan_sync_never_raises_value_witness:
  "\<exists>r d. replay_prepare sample_frame r sample_state 129600000000000 150 1 ''f'' = Inr d \<and> td_current_after d \<le> 5"
proof -
  let ?r = "\<lparr>tr_epoch = 0, tr_digest = [], tr_root = sample_root, tr_state = sample_state, tr_cycle_start = 86400000000000,
    tr_base = 100, tr_addon = 0, tr_last_id = 1, tr_last_at = 86400000000000, tr_last_revision = 0,
    tr_pending = [], tr_typed = False\<rparr>"
  let ?p = "replay_prepare sample_frame ?r sample_state 129600000000000 150 1 ''f''"
  have "case ?p of Inl e \<Rightarrow> False | Inr d \<Rightarrow> td_current_before d = 5" by code_simp
  then obtain d where p: "?p = Inr d" "td_current_before d = 5" by (cases ?p) auto
  from plan_sync_never_raises_value[OF p(1)] p show ?thesis by auto
qed

end
