(* ===== verification/FifoLots.thy ===== *)
theory FifoLots
  imports Prelude
begin

text \<open>
  The first-in-first-out consumption of paid lots that \<^verbatim>\<open>commerce/value_perpetual.go\<close> and
  \<^verbatim>\<open>commerce/value_perpetual_sync.go\<close> both contain: a loop that takes usage from the first lot
  with something left and never visits an exhausted lot again. The two files have lots of different
  types, so the loop is written once over what a lot has left and how it is charged; each file
  instantiates it and interprets the contract.
\<close>

section \<open>The loop\<close>

text \<open>
  \<open>for firstUnspent < len(lots) && used > 0\<close>, on the lots from \<open>firstUnspent\<close> on. The result is the
  lots, the number of lots passed and the usage no lot covered.
\<close>

fun fifo_walk :: "('l \<Rightarrow> int) \<Rightarrow> (int \<Rightarrow> 'l \<Rightarrow> 'l) \<Rightarrow> int \<Rightarrow> 'l list \<Rightarrow> 'l list \<times> nat \<times> int" where
  "fifo_walk left charge used [] = ([], 0, used)"
| "fifo_walk left charge used (l # ls) =
     (if \<not> used > 0 then (l # ls, 0, used)
      else
        let taken = min used (left l); l' = charge taken l; used' = sub64 used taken
        in if left l' = 0 then
             (case fifo_walk left charge used' ls of (ls', n, rest) \<Rightarrow> (l' # ls', Suc n, rest))
           else (l' # ls, 0, used'))"

definition fifo_consume :: "('l \<Rightarrow> int) \<Rightarrow> (int \<Rightarrow> 'l \<Rightarrow> 'l) \<Rightarrow> nat \<Rightarrow> int \<Rightarrow> 'l list \<Rightarrow> 'l list \<times> nat \<times> int" where
  "fifo_consume left charge first used lots =
     (case fifo_walk left charge used (drop first lots) of
        (ls, n, rest) \<Rightarrow> (take first lots @ ls, first + n, rest))"

text \<open>
  The reference: usage fills the lots from the front, whatever was exhausted before; and what the
  lots have left together.
\<close>

fun fifo_reference :: "('l \<Rightarrow> int) \<Rightarrow> (int \<Rightarrow> 'l \<Rightarrow> 'l) \<Rightarrow> int \<Rightarrow> 'l list \<Rightarrow> 'l list" where
  "fifo_reference left charge used [] = []"
| "fifo_reference left charge used (l # ls) =
     (let taken = max 0 (min used (left l))
      in charge taken l # fifo_reference left charge (used - taken) ls)"

definition fifo_available :: "('l \<Rightarrow> int) \<Rightarrow> 'l list \<Rightarrow> int" where
  "fifo_available left ls = (\<Sum>l \<leftarrow> ls. left l)"

lemma fifo_available_simps [simp]:
  "fifo_available left [] = 0" "fifo_available left (l # ls) = left l + fifo_available left ls"
  "fifo_available left (ls @ ks) = fifo_available left ls + fifo_available left ks"
  by (simp_all add: fifo_available_def)

section \<open>The contract of a lot\<close>

text \<open>Charging a lot takes exactly that much of what is left; \<open>ok\<close> is the lot's own invariant.\<close>

locale fifo_lot =
  fixes left :: "'l \<Rightarrow> int" and charge :: "int \<Rightarrow> 'l \<Rightarrow> 'l" and ok :: "'l \<Rightarrow> bool"
  assumes left_range: "ok l \<Longrightarrow> 0 \<le> left l \<and> left l \<le> max64"
    and charge_left: "ok l \<Longrightarrow> 0 \<le> t \<Longrightarrow> t \<le> left l \<Longrightarrow> left (charge t l) = left l - t \<and> ok (charge t l)"
    and charge_zero: "ok l \<Longrightarrow> charge 0 l = l"
begin

abbreviation "reference \<equiv> fifo_reference left charge"
abbreviation "available \<equiv> fifo_available left"

lemma available_nonneg: "\<forall>l \<in> set ls. ok l \<Longrightarrow> 0 \<le> available ls"
  unfolding fifo_available_def using left_range by (intro sum_list_nonneg_int) auto

lemma walk_ok:
  assumes "\<forall>l \<in> set ls. ok l" "0 \<le> used" "used \<le> max64"
  shows "case fifo_walk left charge used ls of (ls', n, rest) \<Rightarrow>
    length ls' = length ls \<and> n \<le> length ls \<and> (\<forall>l \<in> set ls'. ok l)
    \<and> (\<forall>l \<in> set (take n ls'). left l = 0)
    \<and> 0 \<le> rest \<and> available ls' = available ls - (used - rest) \<and> (0 < rest \<longrightarrow> n = length ls)"
  using assms
proof (induction ls arbitrary: used)
  case (Cons l ls)
  let ?t = "min used (left l)"
  from Cons.prems have l: "ok l" "\<forall>l \<in> set ls. ok l" by auto
  note range = left_range[OF l(1)]
  show ?case
  proof (cases "used > 0")
    case True
    have t: "0 \<le> ?t" "?t \<le> left l" using True range by auto
    have sub: "sub64 used ?t = used - ?t" using t True Cons.prems by (intro sub64_nonneg) auto
    note charged = charge_left[OF l(1) t]
    show ?thesis
    proof (cases "left l - ?t = 0")
      case True2: True
      obtain ls' n rest where walk: "fifo_walk left charge (used - ?t) ls = (ls', n, rest)" by (metis prod_cases3)
      have "0 \<le> used - ?t" "used - ?t \<le> max64" using Cons.prems t by auto
      from Cons.IH[OF l(2) this] walk True True2 charged sub show ?thesis by (auto simp: Let_def)
    next
      case False
      then have "?t = used" using True range by (auto simp: min_def split: if_splits)
      with False True charged sub l range show ?thesis by (auto simp: Let_def)
    qed
  next
    case False
    with Cons.prems l show ?thesis by auto
  qed
qed simp

lemma reference_zero: "\<forall>l \<in> set ls. ok l \<Longrightarrow> used \<le> 0 \<Longrightarrow> reference used ls = ls"
proof (induction ls arbitrary: used)
  case (Cons l ls)
  then have "max 0 (min used (left l)) = 0" by simp
  with Cons charge_zero show ?case by simp
qed simp

lemma walk_reference:
  assumes "\<forall>l \<in> set ls. ok l" "0 \<le> used" "used \<le> max64"
  shows "fst (fifo_walk left charge used ls) = reference used ls"
  using assms
proof (induction ls arbitrary: used)
  case (Cons l ls)
  let ?t = "min used (left l)"
  from Cons.prems have l: "ok l" "\<forall>l \<in> set ls. ok l" by auto
  note range = left_range[OF l(1)]
  show ?case
  proof (cases "used > 0")
    case True
    have t: "0 \<le> ?t" "?t \<le> left l" using True range by auto
    have sub: "sub64 used ?t = used - ?t" using t True Cons.prems by (intro sub64_nonneg) auto
    note charged = charge_left[OF l(1) t]
    have max: "max 0 ?t = ?t" using t by simp
    show ?thesis
    proof (cases "left l - ?t = 0")
      case True2: True
      have "0 \<le> used - ?t" "used - ?t \<le> max64" using Cons.prems t by auto
      moreover obtain ls' n rest where "fifo_walk left charge (used - ?t) ls = (ls', n, rest)" by (metis prod_cases3)
      ultimately show ?thesis using Cons.IH[OF l(2), of "used - ?t"] True True2 charged sub max
        by (simp add: Let_def)
    next
      case False
      then have "?t = used" using True range by (auto simp: min_def split: if_splits)
      with False True charged sub max reference_zero[OF l(2), of 0] show ?thesis by (simp add: Let_def)
    qed
  next
    case False
    with Cons.prems reference_zero[OF Cons.prems(1), of used] show ?thesis by simp
  qed
qed simp

text \<open>Skipping the exhausted lots changes nothing.\<close>

lemma reference_skips:
  assumes "\<forall>l \<in> set ls. ok l" "\<forall>l \<in> set ls. left l = 0" "0 \<le> used"
  shows "reference used (ls @ ks) = ls @ reference used ks"
  using assms charge_zero by (induction ls) (auto simp: Let_def)

lemma consume_reference:
  assumes "\<forall>l \<in> set lots. ok l" "0 \<le> used" "used \<le> max64"
    and "\<forall>l \<in> set (take first lots). left l = 0"
  shows "fst (fifo_consume left charge first used lots) = reference used lots"
proof -
  have "\<forall>l \<in> set (drop first lots). ok l" "\<forall>l \<in> set (take first lots). ok l"
    using assms(1) by (auto dest: in_set_dropD in_set_takeD)
  with walk_reference[OF _ assms(2,3), of "drop first lots"] reference_skips[OF _ assms(4,2), of "drop first lots"]
  show ?thesis by (simp add: fifo_consume_def split: prod.splits) (metis fst_conv)
qed

lemma consume_ok:
  assumes "\<forall>l \<in> set lots. ok l" "0 \<le> used" "used \<le> max64" "first \<le> length lots"
    and "\<forall>l \<in> set (take first lots). left l = 0"
    and "fifo_consume left charge first used lots = (lots', first', rest)"
  shows "length lots' = length lots" "first' \<le> length lots'" "\<forall>l \<in> set lots'. ok l"
    "\<forall>l \<in> set (take first' lots'). left l = 0" "0 \<le> rest" "available lots' = available lots - (used - rest)"
    "0 < rest \<Longrightarrow> first' = length lots"
proof -
  obtain ls n where walk: "fifo_walk left charge used (drop first lots) = (ls, n, rest)"
    and lots': "lots' = take first lots @ ls" "first' = first + n"
    using assms(6) by (auto simp: fifo_consume_def split: prod.splits)
  have drop: "\<forall>l \<in> set (drop first lots). ok l" and take: "\<forall>l \<in> set (take first lots). ok l"
    using assms(1) by (auto dest: in_set_dropD in_set_takeD)
  from walk_ok[OF drop assms(2,3)] walk have w: "length ls = length lots - first" "n \<le> length lots - first"
    "\<forall>l \<in> set ls. ok l" "\<forall>l \<in> set (take n ls). left l = 0" "0 \<le> rest"
    "available ls = available (drop first lots) - (used - rest)" "0 < rest \<longrightarrow> n = length lots - first" by auto
  show "length lots' = length lots" "first' \<le> length lots'" "0 < rest \<Longrightarrow> first' = length lots"
    using w assms(4) by (auto simp: lots')
  show "\<forall>l \<in> set lots'. ok l" using w(3) take by (auto simp: lots')
  show "\<forall>l \<in> set (take first' lots'). left l = 0" using w(4) assms(4,5) by (auto simp: lots')
  show "0 \<le> rest" by (rule w)
  have "available lots = available (take first lots) + available (drop first lots)"
    using fifo_available_simps(3)[of left "take first lots" "drop first lots"] by simp
  with w(6) show "available lots' = available lots - (used - rest)" by (simp add: lots')
qed

end

end
