(* ===== verification/PerpetualValue.thy ===== *)
theory PerpetualValue
  imports TimedValue FifoLots
begin

text \<open>
  \<^verbatim>\<open>commerce/value_perpetual.go\<close>: the value of a perpetual entitlement as the unused part of its
  paid quota lots, and the entry point \<open>ProjectEntitlementValueContext\<close> of
  \<^verbatim>\<open>commerce/value_projection.go\<close>, which chooses between the perpetual and the timed valuation.
\<close>

section \<open>The code\<close>

definition perpetual_quota_allocation :: string where "perpetual_quota_allocation = ''perpetual_paid_quota_v1''"
definition perpetual_fifo_allocation :: string where "perpetual_fifo_allocation = ''perpetual_paid_quota_fifo_v1''"

definition single_remaining :: "entitlement_snapshot \<Rightarrow> entitlement_state \<Rightarrow> int \<Rightarrow> int" where
  "single_remaining s current quota =
     (if quota > 0
      then proportional_value (sn_paid s)
             (sub64 quota (min (sub64 (es_used current) (es_cycle_used current)) quota)) quota
      else 0)"

definition single_quote :: "entitlement_snapshot \<Rightarrow> int \<Rightarrow> value_projection" where
  "single_quote s remaining =
     \<lparr>vp_model = perpetual_quota_allocation, vp_root = sn_order s, vp_current = remaining,
      vp_future = 0, vp_total = remaining,
      vp_sources = (if remaining > 0 then [(sn_order s, remaining)] else []),
      vp_fingerprint = [],
      vp_cycle = \<lparr>vc_start = sn_term_start s, vc_end = sn_term_end s, vc_amount = sn_paid s\<rparr>\<rparr>"

definition project_single_perpetual :: "digest \<Rightarrow> entitlement_snapshot \<Rightarrow> entitlement_state \<Rightarrow> string \<Rightarrow> gotime \<Rightarrow>
    value_projection result" where
  "project_single_perpetual digest s current currency at =
     (let after = sn_after s in
      if sn_version s \<noteq> 1 \<or> sn_order s = 0 \<or> sn_subscription s = 0 \<or> sn_event_id s = 0
         \<or> is_zero (sn_event_at s) \<or> is_zero (sn_captured s) \<or> sn_currency s \<noteq> currency
         \<or> \<not> sn_verified s \<or> sn_legacy_transfer s \<or> sn_paid s < 0 \<or> sn_billing_unit s \<noteq> ''once''
         \<or> sn_billing_value s \<noteq> 1 \<or> sn_periods s \<noteq> []
      then Inl ErrValueEvidence
      else if sn_model s \<noteq> perpetual_quota_allocation \<and> sn_model s \<noteq> ''value_requires_review''
      then Inl ErrValueEvidence
      else if \<not> is_term_root (sn_mode s) \<or> is_zero (sn_term_start s) \<or> sn_term_start s \<noteq> es_start after
         \<or> sn_term_end s \<noteq> es_end after \<or> \<not> is_perpetual_end (sn_term_end s)
         \<or> at < sn_term_start s \<or> \<not> at < sn_term_end s
      then Inl ErrValueEvidence
      else if es_plan current \<noteq> es_plan after \<or> es_sku current \<noteq> es_sku after
         \<or> es_start current \<noteq> es_start after \<or> es_end current \<noteq> es_end after
         \<or> es_policy current \<noteq> es_policy after \<or> (es_policy current \<noteq> 0 \<and> es_policy current \<noteq> 5)
         \<or> es_next_reset current \<noteq> None \<or> es_next_reset after \<noteq> None
         \<or> es_cycle_used current \<noteq> es_cycle_used after \<or> es_used current < es_used after
      then Inl ErrValueEvidence
      else case quota_for_value current of
          Inl e \<Rightarrow> Inl ErrValueEvidence
        | Inr quota \<Rightarrow>
            if es_used after \<noteq> es_cycle_used after \<or> es_total after \<le> es_cycle_used after
            then Inl ErrValueEvidence
            else
              fingerprint_value_projection digest [s] current (single_quote s (single_remaining s current quota)))"

text \<open>The lots of \<open>projectPerpetualQuotaValue\<close> and the state of its loop.\<close>

record quota_lot =
  ql_order :: nat
  ql_quota :: int
  ql_left :: int
  ql_paid :: int

definition charge_lot :: "int \<Rightarrow> quota_lot \<Rightarrow> quota_lot" where
  "charge_lot taken l = l\<lparr>ql_left := sub64 (ql_left l) taken\<rparr>"

record perpetual_acc =
  pa_lots :: "quota_lot list"
  pa_first :: nat
  pa_ids :: "nat list"
  pa_last :: entitlement_snapshot
  pa_paid :: int

definition consume_acc :: "int \<Rightarrow> perpetual_acc \<Rightarrow> perpetual_acc" where
  "consume_acc used acc =
     (case fifo_consume ql_left charge_lot (pa_first acc) used (pa_lots acc) of
        (lots, first, _) \<Rightarrow> acc\<lparr>pa_lots := lots, pa_first := first\<rparr>)"

definition perpetual_model_ok :: "entitlement_snapshot \<Rightarrow> bool" where
  "perpetual_model_ok s \<longleftrightarrow>
     (sn_mode s = ''perpetual_quota_addition'' \<and> sn_model s = perpetual_fifo_allocation)
     \<or> (sn_mode s = ''unsupported_legacy_effect''
        \<and> ((sn_kind s = ''renewal'' \<and> sn_model s = ''uniform_paid_units_v1'')
           \<or> (sn_kind s = ''traffic_pack'' \<and> sn_model s = ''legacy_value_requires_review'')))"

definition perpetual_addition_ok :: "string \<Rightarrow> gotime \<Rightarrow> entitlement_snapshot \<Rightarrow> entitlement_snapshot \<Rightarrow> bool" where
  "perpetual_addition_ok currency at root s \<longleftrightarrow>
     \<not> (\<not> perpetual_model_ok s \<or> (sn_kind s \<noteq> ''renewal'' \<and> sn_kind s \<noteq> ''traffic_pack'')
        \<or> (sn_kind s = ''renewal'' \<and> (sn_billing_unit s \<noteq> ''once'' \<or> sn_billing_value s \<noteq> 1))
        \<or> sn_term_end s \<noteq> sn_term_end root \<or> sn_term_start s < sn_term_start root \<or> at < sn_term_start s)"

definition perpetual_step :: "string \<Rightarrow> gotime \<Rightarrow> entitlement_snapshot \<Rightarrow> bool \<Rightarrow> entitlement_snapshot \<Rightarrow>
    perpetual_acc \<Rightarrow> perpetual_acc result" where
  "perpetual_step currency at root first s acc =
     (let last_s = pa_last acc; after = sn_after s in
      if sn_order s \<in> set (pa_ids acc) \<or> sn_order s = 0 \<or> sn_version s \<noteq> 1
         \<or> sn_subscription s \<noteq> sn_subscription root \<or> sn_currency s \<noteq> currency \<or> \<not> sn_verified s
         \<or> sn_legacy_transfer s \<or> sn_paid s < 0 \<or> is_zero (sn_captured s) \<or> is_zero (sn_event_at s)
         \<or> sn_event_id s \<le> sn_event_id last_s \<or> sn_periods s \<noteq> [] \<or> sn_before s = None
      then Inl ErrValueEvidence
      else if \<not> perpetual_addition_ok currency at root s then Inl ErrValueEvidence
      else case sn_before s of
        None \<Rightarrow> Inl ErrValueEvidence
      | Some before \<Rightarrow>
          if \<not> same_perpetual_state_identity before (sn_after last_s) \<or> es_used before < es_used (sn_after last_s)
             \<or> es_total before < es_cycle_used before \<or> es_end before \<noteq> es_end after
             \<or> es_start before \<noteq> es_start after \<or> es_plan before \<noteq> es_plan after
             \<or> es_cycle_used before \<noteq> es_cycle_used after \<or> es_used before \<noteq> es_used after
             \<or> es_total after \<le> es_total before \<or> (es_policy after \<noteq> 0 \<and> es_policy after \<noteq> 5)
             \<or> es_next_reset after \<noteq> None \<or> es_ended after \<noteq> None \<or> es_status after \<noteq> ''active''
          then Inl ErrValueEvidence
          else if es_total before \<noteq> es_total (sn_after last_s) \<and> \<not> first then Inl ErrValueEvidence
          else
            let quota = sub64 (es_total before) (es_cycle_used before);
                acc = (if es_total before \<noteq> es_total (sn_after last_s)
                       then acc\<lparr>pa_lots := (pa_lots acc)[0 := (pa_lots acc ! 0)\<lparr>ql_quota := quota, ql_left := quota\<rparr>]\<rparr>
                       else acc);
                acc = consume_acc (sub64 (es_used before) (es_used (sn_after last_s))) acc;
                delta = sub64 (es_total after) (es_total before)
            in if pa_paid acc > max64 - sn_paid s then Inl ErrValueEvidence
               else Inr (acc\<lparr>pa_lots := pa_lots acc @ [\<lparr>ql_order = sn_order s, ql_quota = delta, ql_left = delta, ql_paid = sn_paid s\<rparr>],
                             pa_paid := add64 (pa_paid acc) (sn_paid s),
                             pa_ids := sn_order s # pa_ids acc, pa_last := s\<rparr>))"

fun perpetual_steps :: "string \<Rightarrow> gotime \<Rightarrow> entitlement_snapshot \<Rightarrow> bool \<Rightarrow> entitlement_snapshot list \<Rightarrow>
    perpetual_acc \<Rightarrow> perpetual_acc result" where
  "perpetual_steps currency at root first [] acc = Inr acc"
| "perpetual_steps currency at root first (s # rest) acc =
     try_bind (perpetual_step currency at root first s acc) (perpetual_steps currency at root False rest)"

fun value_lots :: "quota_lot list \<Rightarrow> value_projection \<Rightarrow> value_projection result" where
  "value_lots [] out = Inr out"
| "value_lots (l # ls) out =
     (let amount = (if ql_quota l > 0 then proportional_value (ql_paid l) (ql_left l) (ql_quota l) else 0)
      in if vp_current out > max64 - amount then Inl ErrValueEvidence
         else value_lots ls
                (out\<lparr>vp_current := add64 (vp_current out) amount,
                     vp_sources := (if amount > 0 then put (ql_order l) amount (vp_sources out) else vp_sources out)\<rparr>))"

definition project_perpetual_quota_value :: "digest \<Rightarrow> entitlement_snapshot list \<Rightarrow> entitlement_state \<Rightarrow> string \<Rightarrow>
    gotime \<Rightarrow> value_projection result" where
  "project_perpetual_quota_value digest records current currency at =
     (case records of
        [] \<Rightarrow> Inl ErrValueEvidence
      | [s] \<Rightarrow> project_single_perpetual digest s current currency at
      | root # rest \<Rightarrow>
          try_bind (project_single_perpetual digest root (sn_after root) currency at) (\<lambda>_.
          let quota = sub64 (es_total (sn_after root)) (es_cycle_used (sn_after root)) in
          try_bind (perpetual_steps currency at root True rest
            \<lparr>pa_lots = [\<lparr>ql_order = sn_order root, ql_quota = quota, ql_left = quota, ql_paid = sn_paid root\<rparr>],
             pa_first = 0, pa_ids = [sn_order root], pa_last = root, pa_paid = sn_paid root\<rparr>) (\<lambda>acc.
          let last_after = sn_after (pa_last acc) in
          try_bind
            (case es_ended current of
               None \<Rightarrow> Inr current
             | Some _ \<Rightarrow> if es_end_reason current \<noteq> ''exhausted'' \<or> es_used current < es_total current
                         then Inl ErrValueEvidence else Inr (current\<lparr>es_ended := None\<rparr>)) (\<lambda>final.
          if \<not> same_perpetual_state_identity final last_after \<or> es_used current < es_used last_after
             \<or> es_total current \<noteq> es_total last_after
          then Inl ErrValueEvidence
          else
            let acc = consume_acc (sub64 (es_used current) (es_used last_after)) acc in
            try_bind (value_lots (pa_lots acc)
                (empty_projection\<lparr>vp_model := perpetual_fifo_allocation, vp_root := sn_order root,
                   vp_cycle := \<lparr>vc_start = sn_term_start root, vc_end = sn_term_end root, vc_amount = pa_paid acc\<rparr>\<rparr>))
              (\<lambda>out.
                let out = out\<lparr>vp_total := vp_current out\<rparr> in
                if es_ended current \<noteq> None \<and> vp_total out \<noteq> 0 then Inl ErrValueEvidence
                else fingerprint_value_projection digest records current out)))))"

text \<open>\<open>ProjectEntitlementValueContext\<close>.\<close>

definition project_entitlement_value :: "digest \<Rightarrow> goctx \<Rightarrow> entitlement_snapshot list \<Rightarrow> entitlement_state \<Rightarrow>
    string \<Rightarrow> gotime \<Rightarrow> value_projection result" where
  "project_entitlement_value digest ctx records current currency at =
     (if ctx = NilCtx \<or> records = [] \<or> is_zero at then Inl ErrValueEvidence
      else if ctx = DoneCtx then Inl ErrCanceled
      else case records_from_root records (es_start current) of
          None \<Rightarrow> Inl ErrValueEvidence
        | Some rs \<Rightarrow>
            if is_perpetual_end (es_end current) then project_perpetual_quota_value digest rs current currency at
            else try_bind (project_timed_value_events digest rs current currency at [] 0 False) (\<lambda>(out, _). Inr out))"

section \<open>Lots\<close>

text \<open>What is left of a lot is between nothing and its quota, and its payment is in range.\<close>

definition lot_ok :: "quota_lot \<Rightarrow> bool" where
  "lot_ok l \<longleftrightarrow> 0 \<le> ql_left l \<and> ql_left l \<le> ql_quota l \<and> ql_quota l \<le> max64 \<and> 0 \<le> ql_paid l \<and> ql_paid l \<le> max64"

interpretation quota_lots: fifo_lot ql_left charge_lot lot_ok
proof
  fix l t
  assume ok: "lot_ok l"
  then show "0 \<le> ql_left l \<and> ql_left l \<le> max64" by (auto simp: lot_ok_def)
  show "charge_lot 0 l = l" using ok by (simp add: charge_lot_def lot_ok_def sub64_nonneg)
  assume t: "0 \<le> t" "t \<le> ql_left l"
  then have "sub64 (ql_left l) t = ql_left l - t" using ok by (intro sub64_nonneg) (auto simp: lot_ok_def)
  with t ok show "ql_left (charge_lot t l) = ql_left l - t \<and> lot_ok (charge_lot t l)"
    by (auto simp: charge_lot_def lot_ok_def)
qed

text \<open>Consumption changes only what is left.\<close>

lemma fifo_walk_keeps:
  assumes "\<And>t l. g (charge t l) = g l"
  shows "map g (fst (fifo_walk left charge used ls)) = map g ls"
  using assms by (induction left charge used ls rule: fifo_walk.induct) (auto simp: Let_def split: prod.splits)

lemma fifo_consume_keeps:
  assumes "\<And>t l. g (charge t l) = g l"
  shows "map g (fst (fifo_consume left charge first used lots)) = map g lots"
proof -
  have "map g (fst (fifo_consume left charge first used lots)) =
      map g (take first lots) @ map g (fst (fifo_walk left charge used (drop first lots)))"
    by (simp add: fifo_consume_def split: prod.splits)
  also have "\<dots> = map g lots"
    using fifo_walk_keeps[of g charge, OF assms] by (metis append_take_drop_id map_append)
  finally show ?thesis .
qed

section \<open>The replay of additions\<close>

definition state_in64 :: "entitlement_state \<Rightarrow> bool" where
  "state_in64 s \<longleftrightarrow> in64 (es_total s) \<and> in64 (es_used s) \<and> in64 (es_cycle_used s)"

definition snapshot_in64 :: "entitlement_snapshot \<Rightarrow> bool" where
  "snapshot_in64 s \<longleftrightarrow> in64 (sn_paid s) \<and> state_in64 (sn_after s) \<and> (\<forall>b. sn_before s = Some b \<longrightarrow> state_in64 b)"

definition lot_paid :: "quota_lot \<Rightarrow> nat \<times> int" where "lot_paid l = (ql_order l, ql_paid l)"

definition acc_inv :: "bool \<Rightarrow> entitlement_snapshot list \<Rightarrow> perpetual_acc \<Rightarrow> bool" where
  "acc_inv first seen acc \<longleftrightarrow>
     (\<forall>l \<in> set (pa_lots acc). lot_ok l)
     \<and> map lot_paid (pa_lots acc) = map (\<lambda>s. (sn_order s, sn_paid s)) seen
     \<and> distinct (map sn_order seen) \<and> set (pa_ids acc) = sn_order ` set seen
     \<and> pa_first acc \<le> length (pa_lots acc) \<and> (\<forall>l \<in> set (take (pa_first acc) (pa_lots acc)). ql_left l = 0)
     \<and> pa_paid acc = (\<Sum>s \<leftarrow> seen. sn_paid s) \<and> pa_paid acc \<le> max64
     \<and> seen \<noteq> [] \<and> (\<forall>s \<in> set seen. 0 \<le> sn_paid s) \<and> 0 \<le> es_used (sn_after (pa_last acc))
     \<and> 0 \<le> es_cycle_used (sn_after (pa_last acc)) \<and> (first \<longrightarrow> pa_first acc = 0)"

lemma consume_acc_inv:
  assumes "acc_inv first seen acc" "0 \<le> used" "used \<le> max64"
  shows "acc_inv False seen (consume_acc used acc)"
    and "pa_last (consume_acc used acc) = pa_last acc" "pa_ids (consume_acc used acc) = pa_ids acc"
    and "pa_paid (consume_acc used acc) = pa_paid acc"
proof -
  obtain lots n rest where c: "fifo_consume ql_left charge_lot (pa_first acc) used (pa_lots acc) = (lots, n, rest)"
    by (metis prod_cases3)
  have ok: "\<forall>l \<in> set (pa_lots acc). lot_ok l" "pa_first acc \<le> length (pa_lots acc)"
    "\<forall>l \<in> set (take (pa_first acc) (pa_lots acc)). ql_left l = 0" using assms(1) by (auto simp: acc_inv_def)
  have "map lot_paid (fst (fifo_consume ql_left charge_lot (pa_first acc) used (pa_lots acc))) = map lot_paid (pa_lots acc)"
    by (rule fifo_consume_keeps) (simp add: lot_paid_def charge_lot_def)
  then have "map lot_paid lots = map lot_paid (pa_lots acc)" by (simp only: c fst_conv)
  with quota_lots.consume_ok[OF ok(1) assms(2,3) ok(2,3) c] assms(1)
  show "acc_inv False seen (consume_acc used acc)" by (simp add: acc_inv_def consume_acc_def c)
  show "pa_last (consume_acc used acc) = pa_last acc" "pa_ids (consume_acc used acc) = pa_ids acc"
    "pa_paid (consume_acc used acc) = pa_paid acc" by (simp_all add: consume_acc_def c)
qed

lemma replace_base_lot_inv:
  assumes "acc_inv True seen acc" "0 \<le> quota" "quota \<le> max64"
  shows "acc_inv True seen (acc\<lparr>pa_lots := (pa_lots acc)[0 := (pa_lots acc ! 0)\<lparr>ql_quota := quota, ql_left := quota\<rparr>]\<rparr>)"
proof -
  let ?l = "(pa_lots acc ! 0)\<lparr>ql_quota := quota, ql_left := quota\<rparr>"
  from assms(1) have "length (map lot_paid (pa_lots acc)) = length (map (\<lambda>s. (sn_order s, sn_paid s)) seen)" "seen \<noteq> []"
    by (auto simp: acc_inv_def)
  then have ne: "0 < length (pa_lots acc)" by (cases seen) auto
  then have "lot_ok (pa_lots acc ! 0)" using assms(1) by (auto simp: acc_inv_def)
  then have l: "lot_ok ?l" using assms(2,3) by (simp add: lot_ok_def)
  have "map lot_paid ((pa_lots acc)[0 := ?l]) = map lot_paid (pa_lots acc)"
    using ne by (simp add: map_update lot_paid_def list_update_same_conv)
  moreover have "\<forall>l \<in> set ((pa_lots acc)[0 := ?l]). lot_ok l"
    using assms(1) l by (auto simp: acc_inv_def dest!: subsetD[OF set_update_subset_insert])
  ultimately show ?thesis using assms(1) by (simp add: acc_inv_def)
qed

lemma perpetual_step_inv:
  assumes "perpetual_step currency at root first s acc = Inr acc'" "acc_inv first seen acc" "snapshot_in64 s"
    and "state_in64 (sn_after (pa_last acc))"
  shows "acc_inv False (seen @ [s]) acc'" "pa_last acc' = s"
proof -
  let ?la = "sn_after (pa_last acc)"
  define acc1 where "acc1 = (case sn_before s of None \<Rightarrow> acc | Some before \<Rightarrow>
      if es_total before \<noteq> es_total ?la
      then acc\<lparr>pa_lots := (pa_lots acc)[0 := (pa_lots acc ! 0)\<lparr>ql_quota := sub64 (es_total before) (es_cycle_used before),
             ql_left := sub64 (es_total before) (es_cycle_used before)\<rparr>]\<rparr> else acc)"
  from assms(1) obtain before where b: "sn_before s = Some before"
    and fresh: "sn_order s \<notin> set (pa_ids acc)" "0 \<le> sn_paid s"
    and id: "same_perpetual_state_identity before ?la"
    and used: "es_used ?la \<le> es_used before" "es_used before = es_used (sn_after s)"
    and cyc: "es_cycle_used before \<le> es_total before" "es_cycle_used before = es_cycle_used (sn_after s)"
      "es_total before < es_total (sn_after s)" "es_total before \<noteq> es_total ?la \<longrightarrow> first"
    and paid: "\<not> max64 - sn_paid s < pa_paid (consume_acc (sub64 (es_used before) (es_used ?la)) acc1)"
    and acc': "acc' = (let acc = consume_acc (sub64 (es_used before) (es_used ?la)) acc1;
        delta = sub64 (es_total (sn_after s)) (es_total before) in
        acc\<lparr>pa_lots := pa_lots acc @ [\<lparr>ql_order = sn_order s, ql_quota = delta, ql_left = delta, ql_paid = sn_paid s\<rparr>],
            pa_paid := add64 (pa_paid acc) (sn_paid s), pa_ids := sn_order s # pa_ids acc, pa_last := s\<rparr>)"
    unfolding perpetual_step_def Let_def acc1_def by auto
  have nonneg: "0 \<le> es_used ?la" "0 \<le> es_cycle_used ?la" using assms(2) by (auto simp: acc_inv_def)
  with id have cyc0: "0 \<le> es_cycle_used before" by (simp add: same_perpetual_state_identity_def)
  have range: "es_total before \<le> max64" "es_used before \<le> max64" "es_total (sn_after s) \<le> max64" "sn_paid s \<le> max64"
    using assms(3) b by (auto simp: snapshot_in64_def state_in64_def in64_def)
  have quota: "sub64 (es_total before) (es_cycle_used before) = es_total before - es_cycle_used before"
    using cyc0 cyc(1) range(1) by (rule sub64_nonneg)
  have inv1: "acc_inv first seen acc1"
    using assms(2) cyc(1,4) cyc0 range(1) replace_base_lot_inv[of seen acc "es_total before - es_cycle_used before"]
    by (auto simp: acc1_def b quota)
  have last1: "pa_last acc1 = pa_last acc" "pa_ids acc1 = pa_ids acc" by (simp_all add: acc1_def b)
  have u: "sub64 (es_used before) (es_used ?la) = es_used before - es_used ?la"
    using nonneg(1) used(1) range(2) by (rule sub64_nonneg)
  have u_range: "0 \<le> es_used before - es_used ?la" "es_used before - es_used ?la \<le> max64"
    using nonneg used range by auto
  define acc2 where "acc2 = consume_acc (es_used before - es_used ?la) acc1"
  note c = consume_acc_inv[OF inv1 u_range, folded acc2_def]
  have delta: "sub64 (es_total (sn_after s)) (es_total before) = es_total (sn_after s) - es_total before"
    using cyc cyc0 range by (intro sub64_nonneg) auto
  have "0 \<le> pa_paid acc2" using c(1) by (auto simp: acc_inv_def intro!: sum_list_nonneg_int)
  then have add: "add64 (pa_paid acc2) (sn_paid s) = pa_paid acc2 + sn_paid s"
    using paid fresh(2) u by (intro add64_guarded) (auto simp: acc2_def)
  have acc'_eq: "acc' = acc2\<lparr>pa_lots := pa_lots acc2 @ [\<lparr>ql_order = sn_order s, ql_quota = es_total (sn_after s) - es_total before,
        ql_left = es_total (sn_after s) - es_total before, ql_paid = sn_paid s\<rparr>],
      pa_paid := pa_paid acc2 + sn_paid s, pa_ids := sn_order s # pa_ids acc2, pa_last := s\<rparr>"
    unfolding acc' Let_def by (simp add: u delta add acc2_def[symmetric])
  then show "pa_last acc' = s" by simp
  have "sn_order s \<notin> sn_order ` set seen"
    using fresh(1) inv1 by (simp add: acc_inv_def last1)
  moreover have "pa_paid acc2 + sn_paid s \<le> max64" using paid u by (simp add: acc2_def)
  moreover have "0 \<le> es_total (sn_after s) - es_total before" "es_total (sn_after s) - es_total before \<le> max64"
    using cyc cyc0 range by auto
  ultimately show "acc_inv False (seen @ [s]) acc'"
    unfolding acc_inv_def acc'_eq using c(1) fresh(2) range(4) used cyc(2) cyc0 nonneg
    by (auto simp: acc_inv_def lot_ok_def lot_paid_def last1)
qed

lemma perpetual_steps_inv:
  "perpetual_steps currency at root first rest acc = Inr acc' \<Longrightarrow> acc_inv first seen acc \<Longrightarrow>
    \<forall>s \<in> set rest. snapshot_in64 s \<Longrightarrow> state_in64 (sn_after (pa_last acc)) \<Longrightarrow>
    \<exists>first'. acc_inv first' (seen @ rest) acc' \<and> state_in64 (sn_after (pa_last acc'))"
proof (induction rest arbitrary: first seen acc)
  case (Cons s rest)
  from Cons.prems(1) obtain acc1 where step: "perpetual_step currency at root first s acc = Inr acc1"
    "perpetual_steps currency at root False rest acc1 = Inr acc'" by auto
  note inv = perpetual_step_inv[OF step(1) Cons.prems(2) _ Cons.prems(4)]
  have "acc_inv False (seen @ [s]) acc1" "pa_last acc1 = s" "snapshot_in64 s" using inv Cons.prems(3) by auto
  with Cons.IH[OF step(2), of "seen @ [s]"] Cons.prems(3) show ?case by (auto simp: snapshot_in64_def)
qed auto

section \<open>The value of the lots\<close>

definition lot_value :: "quota_lot \<Rightarrow> int" where
  "lot_value l = (if ql_quota l > 0 then proportional_value (ql_paid l) (ql_left l) (ql_quota l) else 0)"

lemma proportional_range:
  "0 \<le> val \<Longrightarrow> val \<le> max64 \<Longrightarrow> 0 \<le> proportional_value val r w \<and> proportional_value val r w \<le> val"
  by (cases "0 < w")
    (auto simp: proportional_value_half_up half_up.share_nonneg half_up.share_le, auto simp: proportional_value_def)

lemma lot_value_range: "lot_ok l \<Longrightarrow> 0 \<le> lot_value l \<and> lot_value l \<le> ql_paid l"
  using proportional_range[of "ql_paid l"] by (auto simp: lot_value_def lot_ok_def)

lemma disjoint_from_insert: "S \<subseteq> insert a B \<Longrightarrow> insert a A \<inter> B = {} \<Longrightarrow> a \<notin> A \<Longrightarrow> A \<inter> S = {}"
  by blast

lemma value_lots_spec:
  "value_lots ls out = Inr out' \<Longrightarrow> \<forall>l \<in> set ls. lot_ok l \<Longrightarrow> distinct (map ql_order ls) \<Longrightarrow>
    wf_sources (vp_sources out) \<Longrightarrow> set (map ql_order ls) \<inter> fst ` set (vp_sources out) = {} \<Longrightarrow> 0 \<le> vp_current out \<Longrightarrow>
    wf_sources (vp_sources out') \<and> vp_future out' = vp_future out \<and> 0 \<le> vp_current out'
    \<and> vp_current out' - vp_current out = sum_amounts (vp_sources out') - sum_amounts (vp_sources out)
    \<and> (\<forall>k. amt (vp_sources out') k \<le> amt (vp_sources out) k + (\<Sum>l \<leftarrow> ls. if ql_order l = k then ql_paid l else 0))"
proof (induction ls arbitrary: out)
  case (Cons l ls)
  have l: "lot_ok l" using Cons.prems(2) by simp
  let ?a = "lot_value l"
  note range = lot_value_range[OF l]
  let ?src = "if ?a > 0 then put (ql_order l) ?a (vp_sources out) else vp_sources out"
  let ?out = "out\<lparr>vp_current := vp_current out + ?a, vp_sources := ?src\<rparr>"
  from Cons.prems(1) have guard: "\<not> max64 - ?a < vp_current out" by (simp add: lot_value_def Let_def split: if_splits)
  have add: "add64 (vp_current out) ?a = vp_current out + ?a"
    using guard range Cons.prems(6) by (intro add64_guarded) auto
  from Cons.prems(1) guard have rest: "value_lots ls ?out = Inr out'"
    unfolding value_lots.simps lot_value_def[symmetric] Let_def by (simp add: add)
  have absent: "amt (vp_sources out) (ql_order l) = 0" using Cons.prems(5) by (intro amt_absent) auto
  have src: "wf_sources ?src" "fst ` set ?src \<subseteq> insert (ql_order l) (fst ` set (vp_sources out))"
    "sum_amounts ?src = sum_amounts (vp_sources out) + ?a"
    "\<And>k. amt ?src k \<le> amt (vp_sources out) k + (if ql_order l = k then ql_paid l else 0)"
    using Cons.prems(4) range absent sum_amounts_put[OF wf_sources_amounts[OF Cons.prems(4)]] amt_nonneg
    by (auto simp: wf_sources_put keys_put)
  have "ql_order l \<notin> set (map ql_order ls)" using Cons.prems(3) by simp
  then have "set (map ql_order ls) \<inter> fst ` set ?src = {}"
    using Cons.prems(5) by (intro disjoint_from_insert[OF src(2)]) simp_all
  then have disj: "set (map ql_order ls) \<inter> fst ` set (vp_sources ?out) = {}" by simp
  from Cons.IH[OF rest] Cons.prems(2,3,6) range src(1) disj have IH:
    "wf_sources (vp_sources out')" "vp_future out' = vp_future out" "0 \<le> vp_current out'"
    "vp_current out' - (vp_current out + ?a) = sum_amounts (vp_sources out') - sum_amounts ?src"
    "\<And>k. amt (vp_sources out') k \<le> amt ?src k + (\<Sum>l \<leftarrow> ls. if ql_order l = k then ql_paid l else 0)" by auto
  have "amt (vp_sources out') k \<le> amt (vp_sources out) k + (\<Sum>l \<leftarrow> l # ls. if ql_order l = k then ql_paid l else 0)" for k
    using IH(5)[of k] src(4)[of k] by simp
  with IH(1-4) src(3) show ?case by auto
qed simp

lemma lots_paid_by:
  "map lot_paid lots = map (\<lambda>s. (sn_order s, sn_paid s)) seen \<Longrightarrow>
    (\<Sum>l \<leftarrow> lots. if ql_order l = k then ql_paid l else 0) = paid_by seen k
    \<and> map ql_order lots = map sn_order seen"
proof (induction lots arbitrary: seen)
  case (Cons l lots)
  then obtain s rest where "seen = s # rest" by (cases seen) auto
  with Cons show ?case by (auto simp: lot_paid_def paid_by_def)
qed (auto simp: paid_by_def)

lemma project_single_used:
  "project_single_perpetual digest s current currency at = Inr q \<Longrightarrow>
    0 \<le> es_used current \<and> 0 \<le> es_cycle_used current \<and> es_cycle_used (sn_after s) < es_total (sn_after s) \<and> 0 \<le> sn_paid s"
  by (auto simp: project_single_perpetual_def Let_def quota_for_value_def)

lemma project_single_spec:
  assumes "project_single_perpetual digest s current currency at = Inr q" "in64 (sn_paid s)"
  shows "vp_total q = vp_current q \<and> vp_future q = 0 \<and> sum_amounts (vp_sources q) = vp_total q \<and> 0 \<le> vp_current q
    \<and> 0 \<le> amt (vp_sources q) k \<and> amt (vp_sources q) k \<le> paid_by [s] k"
proof -
  have paid: "0 \<le> sn_paid s" using project_single_used[OF assms(1)] by simp
  from assms(1) obtain quota where
    "fingerprint_value_projection digest [s] current (single_quote s (single_remaining s current quota)) = Inr q"
    by (auto simp: project_single_perpetual_def Let_def)
  note same = fingerprint_keeps(1)[OF this]
  have "0 \<le> single_remaining s current quota" "single_remaining s current quota \<le> sn_paid s"
    using proportional_range[OF paid] assms(2) paid by (simp_all add: single_remaining_def in64_def)
  with same show ?thesis by (simp add: single_quote_def amt_Cons paid_by_def)
qed

lemma initial_acc_inv:
  assumes "project_single_perpetual digest root (sn_after root) currency at = Inr q" "snapshot_in64 root"
  defines "quota \<equiv> sub64 (es_total (sn_after root)) (es_cycle_used (sn_after root))"
  shows "acc_inv True [root]
    \<lparr>pa_lots = [\<lparr>ql_order = sn_order root, ql_quota = quota, ql_left = quota, ql_paid = sn_paid root\<rparr>],
     pa_first = 0, pa_ids = [sn_order root], pa_last = root, pa_paid = sn_paid root\<rparr>"
proof -
  note used = project_single_used[OF assms(1)]
  have range: "es_total (sn_after root) \<le> max64" "sn_paid root \<le> max64"
    using assms(2) by (auto simp: snapshot_in64_def state_in64_def in64_def)
  have "quota = es_total (sn_after root) - es_cycle_used (sn_after root)"
    unfolding quota_def using used range by (intro sub64_nonneg) auto
  with used range show ?thesis by (auto simp: acc_inv_def lot_ok_def lot_paid_def)
qed

lemma perpetual_value_spec:
  assumes "project_perpetual_quota_value digest records current currency at = Inr q"
    and "\<forall>s \<in> set records. snapshot_in64 s" "state_in64 current"
  shows "vp_total q = vp_current q \<and> vp_future q = 0 \<and> sum_amounts (vp_sources q) = vp_total q \<and> 0 \<le> vp_current q
    \<and> 0 \<le> amt (vp_sources q) k \<and> amt (vp_sources q) k \<le> paid_by records k"
proof (cases "\<exists>s. records = [s]")
  case True
  with assms project_single_spec show ?thesis
    by (auto simp: project_perpetual_quota_value_def snapshot_in64_def)
next
  case False
  with assms(1) obtain root s rest where records: "records = root # s # rest"
    by (auto simp: project_perpetual_quota_value_def split: list.splits)
  define quota where "quota = sub64 (es_total (sn_after root)) (es_cycle_used (sn_after root))"
  define acc0 where "acc0 = \<lparr>pa_lots = [\<lparr>ql_order = sn_order root, ql_quota = quota, ql_left = quota, ql_paid = sn_paid root\<rparr>],
     pa_first = 0, pa_ids = [sn_order root], pa_last = root, pa_paid = sn_paid root\<rparr>"
  from assms(1) obtain q0 acc out cyc where
    single: "project_single_perpetual digest root (sn_after root) currency at = Inr q0"
    and steps: "perpetual_steps currency at root True (s # rest) acc0 = Inr acc"
    and used: "es_used (sn_after (pa_last acc)) \<le> es_used current"
    and lots: "value_lots (pa_lots (consume_acc (sub64 (es_used current) (es_used (sn_after (pa_last acc)))) acc))
      (empty_projection\<lparr>vp_model := perpetual_fifo_allocation, vp_root := sn_order root, vp_cycle := cyc\<rparr>) = Inr out"
    and q: "vp_total q = vp_current out" "vp_current q = vp_current out" "vp_future q = vp_future out"
      "vp_sources q = vp_sources out"
    unfolding project_perpetual_quota_value_def records list.case Let_def acc0_def quota_def
    by (auto simp del: perpetual_steps.simps dest!: fingerprint_keeps)
  have "acc_inv True [root] acc0"
    using initial_acc_inv[OF single] assms(2) by (simp add: records acc0_def quota_def)
  from perpetual_steps_inv[OF steps this] assms(2) obtain first where
    inv: "acc_inv first records acc" "state_in64 (sn_after (pa_last acc))"
    by (auto simp: records acc0_def snapshot_in64_def)
  let ?used = "es_used current - es_used (sn_after (pa_last acc))"
  have nonneg: "0 \<le> es_used (sn_after (pa_last acc))" using inv(1) by (simp add: acc_inv_def)
  have range: "0 \<le> ?used" "?used \<le> max64" using nonneg used assms(3) by (auto simp: state_in64_def in64_def)
  have sub: "sub64 (es_used current) (es_used (sn_after (pa_last acc))) = ?used"
    using nonneg used assms(3) by (intro sub64_nonneg) (auto simp: state_in64_def in64_def)
  define acc' where "acc' = consume_acc ?used acc"
  have inv': "acc_inv False records acc'" unfolding acc'_def by (rule consume_acc_inv(1)[OF inv(1) range])
  then have l: "\<forall>l \<in> set (pa_lots acc'). lot_ok l"
    "map lot_paid (pa_lots acc') = map (\<lambda>s. (sn_order s, sn_paid s)) records" "distinct (map sn_order records)"
    by (auto simp: acc_inv_def)
  note paid = lots_paid_by[OF l(2), of k]
  have dist: "distinct (map ql_order (pa_lots acc'))" using paid l(3) by simp
  from value_lots_spec[OF lots[unfolded sub, folded acc'_def] l(1) dist]
  have v: "wf_sources (vp_sources out)" "vp_future out = 0" "0 \<le> vp_current out"
    "vp_current out = sum_amounts (vp_sources out)" "amt (vp_sources out) k \<le> paid_by records k"
    using paid by (auto simp: paid[THEN conjunct1, symmetric])
  with q amt_nonneg[OF v(1), of k] show ?thesis by simp
qed

section \<open>Properties\<close>

text \<open>A quota of 100 bought by order 9 and 50 more bought by order 10 after 20 were used.\<close>

definition sample_once :: entitlement_snapshot where
  "sample_once = sample_root\<lparr>sn_periods := [], sn_term_end := perpetual_end, sn_billing_unit := ''once'',
     sn_model := perpetual_quota_allocation, sn_after := sample_state\<lparr>es_used := 0, es_end := perpetual_end\<rparr>\<rparr>"

definition sample_once_addition :: entitlement_snapshot where
  "sample_once_addition = sample_once\<lparr>sn_event_id := 2, sn_order := 10, sn_paid := 4, sn_kind := ''traffic_pack'',
     sn_mode := ''perpetual_quota_addition'', sn_model := perpetual_fifo_allocation,
     sn_before := Some (sample_state\<lparr>es_end := perpetual_end\<rparr>),
     sn_after := sample_state\<lparr>es_end := perpetual_end, es_total := 150\<rparr>\<rparr>"



text \<open>
  Usage is charged first in, first out, and skipping the exhausted lots is sound: the loop with its
  \<open>firstUnspent\<close> index leaves the same lots as charging from the first lot, and what the lots have left
  together falls by the usage, or to nothing.
\<close>

theorem consume_acc_fifo:
  assumes "acc_inv first seen acc" "0 \<le> used" "used \<le> max64"
  shows "pa_lots (consume_acc used acc) = fifo_reference ql_left charge_lot used (pa_lots acc)
    \<and> fifo_available ql_left (pa_lots (consume_acc used acc)) = max 0 (fifo_available ql_left (pa_lots acc) - used)
    \<and> acc_inv False seen (consume_acc used acc)"
proof -
  have ok: "\<forall>l \<in> set (pa_lots acc). lot_ok l" "pa_first acc \<le> length (pa_lots acc)"
    "\<forall>l \<in> set (take (pa_first acc) (pa_lots acc)). ql_left l = 0" using assms(1) by (auto simp: acc_inv_def)
  obtain lots n rest where c: "fifo_consume ql_left charge_lot (pa_first acc) used (pa_lots acc) = (lots, n, rest)"
    by (metis prod_cases3)
  note c' = quota_lots.consume_ok[OF ok(1) assms(2,3) ok(2,3) c]
  have "lots = fifo_reference ql_left charge_lot used (pa_lots acc)"
    using quota_lots.consume_reference[OF ok(1) assms(2,3) ok(3)] c by simp
  moreover have "fifo_available ql_left lots = max 0 (fifo_available ql_left (pa_lots acc) - used)"
  proof (cases "0 < rest")
    case True
    with c'(7,1,4) have "\<forall>l \<in> set lots. ql_left l = 0" by simp
    then have "fifo_available ql_left lots = 0" by (induction lots) auto
    with c'(6) True show ?thesis by simp
  next
    case False
    with c'(5,6) quota_lots.available_nonneg[OF c'(3)] show ?thesis by simp
  qed
  ultimately show ?thesis using consume_acc_inv(1)[OF assms] by (simp add: consume_acc_def c)
qed

theorem consume_acc_fifo_witness:
  "pa_lots (consume_acc 3 \<lparr>pa_lots = [\<lparr>ql_order = 9, ql_quota = 2, ql_left = 2, ql_paid = 7\<rparr>,
        \<lparr>ql_order = 10, ql_quota = 5, ql_left = 5, ql_paid = 1\<rparr>],
      pa_first = 0, pa_ids = [10, 9], pa_last = sample_once_addition, pa_paid = 8\<rparr>)
    = fifo_reference ql_left charge_lot 3 [\<lparr>ql_order = 9, ql_quota = 2, ql_left = 2, ql_paid = 7\<rparr>,
        \<lparr>ql_order = 10, ql_quota = 5, ql_left = 5, ql_paid = 1\<rparr>]"
proof -
  have "acc_inv True [sample_once\<lparr>sn_paid := 7\<rparr>, sample_once_addition\<lparr>sn_paid := 1\<rparr>]
    \<lparr>pa_lots = [\<lparr>ql_order = 9, ql_quota = 2, ql_left = 2, ql_paid = 7\<rparr>,
        \<lparr>ql_order = 10, ql_quota = 5, ql_left = 5, ql_paid = 1\<rparr>],
      pa_first = 0, pa_ids = [10, 9], pa_last = sample_once_addition, pa_paid = 8\<rparr>"
    by (auto simp: acc_inv_def lot_ok_def lot_paid_def max64_def sample_once_def sample_once_addition_def
        sample_root_def sample_state_def)
  from consume_acc_fifo[OF this, of 3] show ?thesis by (simp add: max64_def)
qed

end
