(* ===== verification/PerpetualSync.thy ===== *)
theory PerpetualSync
  imports PerpetualValue
begin

text \<open>
  \<^verbatim>\<open>commerce/value_perpetual_sync.go\<close>: the replay of paid lots together with the free
  synchronisations of the base quota, in the order of their event identifiers, with the hash chain
  over every source.
\<close>

section \<open>The code\<close>

definition base_sync_kind :: string where "base_sync_kind = ''plan_base_quota_sync''"
definition base_sync_allocation :: string where "base_sync_allocation = ''perpetual_paid_quota_fifo_base_sync_v1''"

definition lot_remaining :: "perpetual_lot \<Rightarrow> int" where
  "lot_remaining l = max 0 (sub64 (pl_quota l) (pl_consumed l))"

definition consume_lot :: "int \<Rightarrow> perpetual_lot \<Rightarrow> perpetual_lot" where
  "consume_lot taken l = l\<lparr>pl_consumed := add64 (pl_consumed l) taken\<rparr>"

record sync_replay =
  sr_root :: entitlement_snapshot
  sr_state :: entitlement_state
  sr_lots :: "perpetual_lot list"
  sr_epoch :: nat
  sr_first :: nat
  sr_last_id :: nat
  sr_last_at :: gotime
  sr_last_revision :: nat
  sr_overrun :: bool
  sr_paid :: int
  sr_count :: int
  sr_digest :: string

definition sync_bind :: "digest \<Rightarrow> sync_replay \<Rightarrow> string \<Rightarrow> value_source \<Rightarrow> sync_replay result" where
  "sync_bind digest r kind source =
     try_bind (digest (LinkPayload (sr_epoch r) (sr_digest r) kind source)) (\<lambda>d. Inr (r\<lparr>sr_digest := d\<rparr>))"

definition sync_fingerprint :: "digest \<Rightarrow> sync_replay \<Rightarrow> entitlement_state \<Rightarrow> value_projection option \<Rightarrow> string result" where
  "sync_fingerprint digest r current quote =
     digest (PerpetualPayload (sr_epoch r) (sr_digest r) current (sr_lots r)
       (map_option quote_json quote) (map_option vp_sources quote))"

definition sync_advance :: "sync_replay \<Rightarrow> entitlement_state \<Rightarrow> sync_replay result" where
  "sync_advance r nxt =
     (let s = sr_state r in
      if \<not> same_perpetual_state_identity nxt s \<or> es_total nxt \<noteq> es_total s
         \<or> es_reset_quota nxt \<noteq> es_reset_quota s \<or> es_used nxt < es_used s
         \<or> es_used nxt < es_cycle_used nxt \<or> (es_status nxt \<noteq> ''active'' \<and> es_status nxt \<noteq> ''expired'')
         \<or> es_ended nxt \<noteq> None \<or> es_end_reason nxt \<noteq> es_end_reason s
      then Inl ErrValueEvidence
      else
        case fifo_consume lot_remaining consume_lot (sr_first r) (sub64 (es_used nxt) (es_used s)) (sr_lots r) of
          (lots, first, rest) \<Rightarrow>
            Inr (r\<lparr>sr_lots := lots, sr_first := first,
                   sr_overrun := (if rest \<noteq> 0 then True else sr_overrun r), sr_state := nxt\<rparr>))"

definition sync_grant :: "sync_replay \<Rightarrow> entitlement_snapshot \<Rightarrow> string \<Rightarrow> gotime \<Rightarrow> sync_replay result" where
  "sync_grant r s currency at =
     (if sn_version s \<noteq> 1 \<or> sn_order s = 0 \<or> sn_subscription s \<noteq> sn_subscription (sr_root r)
         \<or> sn_currency s \<noteq> currency \<or> \<not> sn_verified s \<or> sn_legacy_transfer s \<or> sn_paid s < 0
         \<or> is_zero (sn_captured s) \<or> sn_before s = None \<or> sn_periods s \<noteq> []
      then Inl ErrValueEvidence
      else if \<not> perpetual_addition_ok currency at (sr_root r) s then Inl ErrValueEvidence
      else case sn_before s of
        None \<Rightarrow> Inl ErrValueEvidence
      | Some before \<Rightarrow>
          let after = sn_after s in
          try_bind
            (if length (sr_lots r) = 1 \<and> sr_count r = 0 \<and> es_total before \<noteq> es_total (sr_state r) then
               (if es_total before \<le> es_cycle_used before \<or> \<not> same_perpetual_state_identity before (sr_state r)
                then Inl ErrValueEvidence
                else Inr (r\<lparr>sr_lots := (sr_lots r)[0 := (sr_lots r ! 0)\<lparr>pl_quota := sub64 (es_total before) (es_cycle_used before)\<rparr>],
                            sr_state := (sr_state r)\<lparr>es_total := es_total before,
                                                     es_reset_quota := es_reset_quota before\<rparr>\<rparr>))
             else Inr r) (\<lambda>r.
          try_bind (sync_advance r before) (\<lambda>r.
            if es_sku after = 0 \<or> es_used before \<noteq> es_used after \<or> es_cycle_used before \<noteq> es_cycle_used after
               \<or> es_plan before \<noteq> es_plan after \<or> es_start before \<noteq> es_start after
               \<or> es_end before \<noteq> es_end after \<or> es_total after \<le> es_total before
               \<or> es_policy after \<noteq> es_policy before \<or> es_next_reset after \<noteq> None \<or> es_ended after \<noteq> None
               \<or> es_end_reason after \<noteq> [] \<or> es_status after \<noteq> ''active''
            then Inl ErrValueEvidence
            else if sr_paid r > max64 - sn_paid s then Inl ErrValueEvidence
            else Inr (r\<lparr>sr_paid := add64 (sr_paid r) (sn_paid s),
                        sr_lots := sr_lots r @ [\<lparr>pl_order = sn_order s, pl_quota = sub64 (es_total after) (es_total before),
                                                 pl_consumed = 0, pl_paid = sn_paid s\<rparr>],
                        sr_state := after\<rparr>))))"

fun sum_remaining :: "perpetual_lot list \<Rightarrow> int \<Rightarrow> int result" where
  "sum_remaining [] acc = Inr acc"
| "sum_remaining (l # ls) acc =
     (if acc > max64 - lot_remaining l then Inl ErrValueEvidence
      else sum_remaining ls (add64 acc (lot_remaining l)))"

definition sync_prepare :: "digest \<Rightarrow> sync_replay \<Rightarrow> entitlement_state \<Rightarrow> int \<Rightarrow> nat \<Rightarrow> perpetual_sync_detail result" where
  "sync_prepare digest r before new_base revision =
     (if new_base \<le> 0 \<or> revision = 0 \<or> revision \<le> sr_last_revision r \<or> sr_overrun r \<or> es_ended before \<noteq> None
      then Inl ErrValueEvidence
      else
        try_bind (sync_fingerprint digest r before None) (\<lambda>fingerprint.
        let base = sr_lots r ! 0; remaining = max 0 (sub64 new_base (pl_consumed base)) in
        try_bind (sum_remaining (tl (sr_lots r)) remaining) (\<lambda>total_remaining.
          if es_used before < 0 \<or> es_used before > max64 - total_remaining then Inl ErrValueEvidence
          else Inr \<lparr>pd_version = 1, pd_kind = base_sync_kind, pd_subscription = sn_subscription (sr_root r),
                     pd_epoch = sr_epoch r, pd_plan = es_plan before, pd_revision = revision,
                     pd_base_order = pl_order base, pd_old_base = pl_quota base, pd_new_base = new_base,
                     pd_used = es_used before, pd_base_consumed = pl_consumed base,
                     pd_remaining_before = lot_remaining base, pd_remaining_after = remaining,
                     pd_before = before,
                     pd_after = before\<lparr>es_total := add64 (es_used before) total_remaining,
                                       es_reset_quota := new_base, es_status := ''active''\<rparr>,
                     pd_fingerprint = fingerprint\<rparr>)))"

definition sync_apply :: "digest \<Rightarrow> sync_replay \<Rightarrow> perpetual_sync_event \<Rightarrow> sync_replay result" where
  "sync_apply digest r event =
     (let d = pe_detail event in
      if pd_version d \<noteq> 1 \<or> pd_kind d \<noteq> base_sync_kind \<or> pd_subscription d \<noteq> sn_subscription (sr_root r)
         \<or> pd_epoch d \<noteq> sr_epoch r \<or> pd_plan d \<noteq> es_plan (sr_state r) \<or> pd_revision d \<le> sr_last_revision r
         \<or> pd_base_order d \<noteq> sn_order (sr_root r) \<or> pd_used d \<noteq> es_used (pd_before d) \<or> pd_new_base d \<le> 0
      then Inl ErrValueEvidence
      else
        try_bind (sync_advance r (pd_before d)) (\<lambda>r.
        try_bind (sync_prepare digest r (pd_before d) (pd_new_base d) (pd_revision d)) (\<lambda>expected.
          if expected \<noteq> d then Inl ErrValueEvidence
          else Inr (r\<lparr>sr_lots := (sr_lots r)[0 := (sr_lots r ! 0)\<lparr>pl_quota := pd_new_base d\<rparr>],
                      sr_first := 0, sr_state := pd_after d, sr_last_revision := pd_revision d\<rparr>))))"

text \<open>The merge of grants and synchronisations by event identifier.\<close>

definition sync_grant_step :: "digest \<Rightarrow> string \<Rightarrow> gotime \<Rightarrow> nat list \<Rightarrow> entitlement_snapshot \<Rightarrow> sync_replay \<Rightarrow> sync_replay result" where
  "sync_grant_step digest currency at seen s r =
     (if sn_event_id s \<le> sr_last_id r \<or> is_zero (sn_event_at s) \<or> perpetual_sync_time_before (sn_event_at s) (sr_last_at r)
         \<or> perpetual_sync_time_before at (sn_event_at s) \<or> sn_order s \<in> set seen
      then Inl ErrValueEvidence
      else try_bind (sync_grant r s currency at) (\<lambda>r.
           try_bind (sync_bind digest r ''paid_grant'' (PaidGrant s)) (\<lambda>r.
             Inr (r\<lparr>sr_last_id := sn_event_id s, sr_last_at := sn_event_at s\<rparr>))))"

definition sync_event_step :: "digest \<Rightarrow> perpetual_sync_event \<Rightarrow> sync_replay \<Rightarrow> sync_replay result" where
  "sync_event_step digest e r =
     (if pe_id e \<le> sr_last_id r \<or> perpetual_sync_time_before (pe_at e) (sr_last_at r) then Inl ErrValueEvidence
      else try_bind (sync_apply digest r e) (\<lambda>r.
           try_bind (sync_bind digest r ''base_quota_sync'' (BaseSync e)) (\<lambda>r.
             Inr (r\<lparr>sr_count := sr_count r + 1, sr_last_id := pe_id e, sr_last_at := pe_at e\<rparr>))))"

fun sync_merge :: "digest \<Rightarrow> string \<Rightarrow> gotime \<Rightarrow> nat list \<Rightarrow> entitlement_snapshot list \<Rightarrow> perpetual_sync_event list \<Rightarrow>
    sync_replay \<Rightarrow> sync_replay result" where
  "sync_merge digest currency at seen [] [] r = Inr r"
| "sync_merge digest currency at seen (s # ss) [] r =
     try_bind (sync_grant_step digest currency at seen s r) (sync_merge digest currency at (sn_order s # seen) ss [])"
| "sync_merge digest currency at seen [] (e # es) r =
     try_bind (sync_event_step digest e r) (sync_merge digest currency at seen [] es)"
| "sync_merge digest currency at seen (s # ss) (e # es) r =
     (if pe_id e < sn_event_id s
      then try_bind (sync_event_step digest e r) (sync_merge digest currency at seen (s # ss) es)
      else try_bind (sync_grant_step digest currency at seen s r)
             (sync_merge digest currency at (sn_order s # seen) ss (e # es)))"

fun sync_events_ordered :: "gotime \<Rightarrow> nat \<Rightarrow> perpetual_sync_event list \<Rightarrow> bool" where
  "sync_events_ordered at last_id [] = True"
| "sync_events_ordered at last_id (e # es) \<longleftrightarrow>
     last_id < pe_id e \<and> \<not> is_zero (pe_at e) \<and> \<not> perpetual_sync_time_before at (pe_at e)
     \<and> sync_events_ordered at (pe_id e) es"

definition replay_perpetual_base_sync :: "digest \<Rightarrow> goctx \<Rightarrow> entitlement_snapshot list \<Rightarrow> perpetual_sync_event list \<Rightarrow>
    entitlement_state \<Rightarrow> string \<Rightarrow> gotime \<Rightarrow> nat \<Rightarrow> sync_replay result" where
  "replay_perpetual_base_sync digest ctx records events current currency at epoch =
     (if ctx = NilCtx \<or> records = [] \<or> is_zero at \<or> \<not> is_perpetual_end (es_end current) then Inl ErrValueEvidence
      else if ctx = DoneCtx then Inl ErrCanceled
      else case records_from_root records (es_start current) of
          None \<Rightarrow> Inl ErrValueEvidence
        | Some rs \<Rightarrow>
          let root = hd rs; after = sn_after root in
          try_bind (project_single_perpetual digest root after currency at) (\<lambda>_.
          if \<not> ((sn_mode root = ''new_term'' \<and> sn_kind root = ''new'')
                 \<or> (sn_mode root = ''recovery_term'' \<and> sn_kind root = ''renewal'')
                 \<or> (sn_mode root = ''replacement_term'' \<and> sn_kind root = ''upgrade''))
             \<or> es_plan after = 0 \<or> es_sku after = 0 \<or> perpetual_sync_time_before at (sn_event_at root)
             \<or> es_ended after \<noteq> None \<or> es_status after \<noteq> ''active'' \<or> es_used after < 0 \<or> es_cycle_used after < 0
          then Inl ErrValueEvidence
          else
            try_bind (sync_bind digest
              \<lparr>sr_root = root, sr_state = after,
               sr_lots = [\<lparr>pl_order = sn_order root, pl_quota = sub64 (es_total after) (es_cycle_used after),
                           pl_consumed = 0, pl_paid = sn_paid root\<rparr>],
               sr_epoch = epoch, sr_first = 0, sr_last_id = sn_event_id root, sr_last_at = sn_event_at root,
               sr_last_revision = 0, sr_overrun = False, sr_paid = sn_paid root, sr_count = 0,
               sr_digest = zero_digest\<rparr> ''paid_grant'' (PaidGrant root)) (\<lambda>r.
            if \<not> sync_events_ordered at (sn_event_id root) events then Inl ErrValueEvidence
            else try_bind (sync_merge digest currency at [sn_order root] (tl rs) events r) (\<lambda>r.
            try_bind
              (case es_ended current of
                 None \<Rightarrow> Inr current
               | Some _ \<Rightarrow>
                   if es_end_reason current \<noteq> ''exhausted'' \<or> es_status current \<noteq> ''expired''
                      \<or> es_used current < es_total current
                   then Inl ErrValueEvidence
                   else Inr (current\<lparr>es_ended := None, es_end_reason := es_end_reason (sr_state r)\<rparr>))
              (sync_advance r)))))"

fun value_sync_lots :: "perpetual_lot list \<Rightarrow> value_projection \<Rightarrow> value_projection result" where
  "value_sync_lots [] out = Inr out"
| "value_sync_lots (l # ls) out =
     (if vc_amount (vp_cycle out) > max64 - pl_paid l then Inl ErrValueEvidence
      else
        let amount = (if pl_quota l > 0 then proportional_value (pl_paid l) (lot_remaining l) (pl_quota l) else 0)
        in if amount < 0 \<or> amount > pl_paid l \<or> vp_total out > max64 - amount then Inl ErrValueEvidence
           else value_sync_lots ls
                  (out\<lparr>vp_cycle := (vp_cycle out)\<lparr>vc_amount := add64 (vc_amount (vp_cycle out)) (pl_paid l)\<rparr>,
                       vp_total := add64 (vp_total out) amount,
                       vp_sources := (if amount > 0 then put (pl_order l) amount (vp_sources out) else vp_sources out)\<rparr>))"

definition project_entitlement_value_with_base_sync :: "digest \<Rightarrow> goctx \<Rightarrow> entitlement_snapshot list \<Rightarrow>
    perpetual_sync_event list \<Rightarrow> entitlement_state \<Rightarrow> string \<Rightarrow> gotime \<Rightarrow> nat \<Rightarrow> value_projection result" where
  "project_entitlement_value_with_base_sync digest ctx records events current currency at epoch =
     (if events = [] then project_entitlement_value digest ctx records current currency at
      else
        try_bind (replay_perpetual_base_sync digest ctx records events current currency at epoch) (\<lambda>r.
        if sr_overrun r then Inl ErrValueEvidence
        else try_bind (value_sync_lots (sr_lots r)
            (empty_projection\<lparr>vp_model := base_sync_allocation, vp_root := sn_order (sr_root r),
               vp_cycle := \<lparr>vc_start = sn_term_start (sr_root r), vc_end = sn_term_end (sr_root r), vc_amount = 0\<rparr>\<rparr>))
          (\<lambda>out.
            if es_ended current \<noteq> None \<and> vp_total out \<noteq> 0 then Inl ErrValueEvidence
            else
              let out = out\<lparr>vp_current := vp_total out\<rparr> in
              try_bind (sync_fingerprint digest r current (Some out)) (\<lambda>fp. Inr (out\<lparr>vp_fingerprint := fp\<rparr>)))))"

definition prepare_perpetual_base_quota_sync :: "digest \<Rightarrow> goctx \<Rightarrow> entitlement_snapshot list \<Rightarrow>
    perpetual_sync_event list \<Rightarrow> entitlement_state \<Rightarrow> string \<Rightarrow> gotime \<Rightarrow> nat \<Rightarrow> int \<Rightarrow> nat \<Rightarrow> perpetual_sync_detail result" where
  "prepare_perpetual_base_quota_sync digest ctx records prior current currency at epoch new_base revision =
     (if new_base \<le> 0 \<or> revision = 0 \<or> es_ended current \<noteq> None then Inl ErrValueEvidence
      else try_bind (replay_perpetual_base_sync digest ctx records prior current currency at epoch) (\<lambda>r.
        if sr_overrun r \<or> revision \<le> sr_last_revision r then Inl ErrValueEvidence
        else sync_prepare digest r current new_base revision))"

section \<open>Lots with consumption\<close>

definition sync_lot_ok :: "perpetual_lot \<Rightarrow> bool" where
  "sync_lot_ok l \<longleftrightarrow> 0 \<le> pl_consumed l \<and> pl_consumed l \<le> max64 \<and> 0 \<le> pl_quota l \<and> pl_quota l \<le> max64
     \<and> 0 \<le> pl_paid l \<and> pl_paid l \<le> max64"

lemma lot_remaining_eq: "sync_lot_ok l \<Longrightarrow> lot_remaining l = max 0 (pl_quota l - pl_consumed l)"
  unfolding lot_remaining_def sync_lot_ok_def by (subst sub64_exact) (auto simp: int64_simps)

interpretation sync_lots: fifo_lot lot_remaining consume_lot sync_lot_ok
proof
  fix l t
  assume ok: "sync_lot_ok l"
  then show "0 \<le> lot_remaining l \<and> lot_remaining l \<le> max64"
    by (auto simp: lot_remaining_eq) (auto simp: sync_lot_ok_def)
  have c: "in64 (pl_consumed l)" using ok by (auto simp: sync_lot_ok_def in64_nonneg)
  then show "consume_lot 0 l = l" by (simp add: consume_lot_def)
  assume t: "0 \<le> t" "t \<le> lot_remaining l"
  have "pl_consumed l + t \<le> max64" using t ok by (auto simp: lot_remaining_eq max_def split: if_splits) (auto simp: sync_lot_ok_def)
  then have add: "add64 (pl_consumed l) t = pl_consumed l + t"
    using t ok by (intro add64_exact in64_nonneg) (auto simp: sync_lot_ok_def)
  with t ok \<open>pl_consumed l + t \<le> max64\<close> have ok': "sync_lot_ok (consume_lot t l)"
    by (simp add: sync_lot_ok_def consume_lot_def)
  with t ok add show "lot_remaining (consume_lot t l) = lot_remaining l - t \<and> sync_lot_ok (consume_lot t l)"
    by (auto simp: lot_remaining_eq consume_lot_def)
qed

section \<open>The replay\<close>

definition sync_lot_paid :: "perpetual_lot \<Rightarrow> nat \<times> int" where "sync_lot_paid l = (pl_order l, pl_paid l)"

definition sync_inv :: "entitlement_snapshot list \<Rightarrow> sync_replay \<Rightarrow> bool" where
  "sync_inv seen r \<longleftrightarrow>
     (\<forall>l \<in> set (sr_lots r). sync_lot_ok l)
     \<and> map sync_lot_paid (sr_lots r) = map (\<lambda>s. (sn_order s, sn_paid s)) seen
     \<and> distinct (map sn_order seen) \<and> seen \<noteq> []
     \<and> sr_first r \<le> length (sr_lots r) \<and> (\<forall>l \<in> set (take (sr_first r) (sr_lots r)). lot_remaining l = 0)
     \<and> 0 \<le> es_used (sr_state r) \<and> 0 \<le> es_cycle_used (sr_state r)
     \<and> 0 \<le> es_total (sr_state r) \<and> 0 \<le> sr_count r"

definition sync_fresh :: "sync_replay \<Rightarrow> bool" where
  "sync_fresh r \<longleftrightarrow> (length (sr_lots r) = 1 \<and> sr_count r = 0 \<longrightarrow> sr_first r = 0)"

lemma sync_inv_ne: "sync_inv seen r \<Longrightarrow> sr_lots r \<noteq> []"
  by (auto simp: sync_inv_def)

lemma sync_advance_inv:
  assumes "sync_advance r nxt = Inr r'" "sync_inv seen r" "state_in64 nxt"
  shows "sync_inv seen r'" "sr_state r' = nxt" "sr_count r' = sr_count r" "sr_root r' = sr_root r"
    "length (sr_lots r') = length (sr_lots r)" "es_used (sr_state r) \<le> es_used nxt"
    "es_cycle_used nxt = es_cycle_used (sr_state r)" "es_total nxt = es_total (sr_state r)"
proof -
  let ?used = "es_used nxt - es_used (sr_state r)"
  obtain lots first rest where c: "fifo_consume lot_remaining consume_lot (sr_first r)
      (sub64 (es_used nxt) (es_used (sr_state r))) (sr_lots r) = (lots, first, rest)" by (metis prod_cases3)
  from assms(1) c have used: "es_used (sr_state r) \<le> es_used nxt"
    and id: "same_perpetual_state_identity nxt (sr_state r)" and total: "es_total nxt = es_total (sr_state r)"
    and r': "r' = r\<lparr>sr_lots := lots, sr_first := first, sr_overrun := (if rest \<noteq> 0 then True else sr_overrun r), sr_state := nxt\<rparr>"
    by (auto simp: sync_advance_def Let_def)
  have nonneg: "0 \<le> es_used (sr_state r)" using assms(2) by (simp add: sync_inv_def)
  have sub: "sub64 (es_used nxt) (es_used (sr_state r)) = ?used"
    using nonneg used assms(3) by (intro sub64_nonneg) (auto simp: state_in64_def in64_def)
  have range: "0 \<le> ?used" "?used \<le> max64" using nonneg used assms(3) by (auto simp: state_in64_def in64_def)
  have ok: "\<forall>l \<in> set (sr_lots r). sync_lot_ok l" "sr_first r \<le> length (sr_lots r)"
    "\<forall>l \<in> set (take (sr_first r) (sr_lots r)). lot_remaining l = 0" using assms(2) by (auto simp: sync_inv_def)
  note c' = sync_lots.consume_ok[OF ok(1) range ok(2,3) c[unfolded sub]]
  have "map sync_lot_paid (fst (fifo_consume lot_remaining consume_lot (sr_first r) ?used (sr_lots r))) = map sync_lot_paid (sr_lots r)"
    by (rule fifo_consume_keeps) (simp add: sync_lot_paid_def consume_lot_def)
  then have keep: "map sync_lot_paid lots = map sync_lot_paid (sr_lots r)" by (simp only: c[unfolded sub] fst_conv)
  have "es_cycle_used nxt = es_cycle_used (sr_state r)" using id by (simp add: same_perpetual_state_identity_def)
  then show "sync_inv seen r'" "es_cycle_used nxt = es_cycle_used (sr_state r)" "es_total nxt = es_total (sr_state r)"
    using c' keep assms(2) nonneg used total by (auto simp: sync_inv_def r')
  show "sr_state r' = nxt" "sr_count r' = sr_count r" "sr_root r' = sr_root r"
    "length (sr_lots r') = length (sr_lots r)" "es_used (sr_state r) \<le> es_used nxt" using r' c'(1) used by simp_all
qed

text \<open>Setting the quota of the base lot.\<close>

lemma set_base_quota_inv:
  assumes "sync_inv seen r" "sr_first r = 0 \<or> first = 0" "0 \<le> quota" "quota \<le> max64"
    and "0 \<le> es_used s" "0 \<le> es_cycle_used s" "0 \<le> es_total s" "first \<le> sr_first r"
  shows "sync_inv seen (r\<lparr>sr_lots := (sr_lots r)[0 := (sr_lots r ! 0)\<lparr>pl_quota := quota\<rparr>], sr_first := first, sr_state := s\<rparr>)"
proof -
  let ?l = "(sr_lots r ! 0)\<lparr>pl_quota := quota\<rparr>"
  have ne: "0 < length (sr_lots r)" using sync_inv_ne[OF assms(1)] by simp
  then have "sync_lot_ok (sr_lots r ! 0)" using assms(1) by (auto simp: sync_inv_def)
  then have l: "sync_lot_ok ?l" using assms(3,4) by (simp add: sync_lot_ok_def)
  have "map sync_lot_paid ((sr_lots r)[0 := ?l]) = map sync_lot_paid (sr_lots r)"
    using ne by (simp add: map_update sync_lot_paid_def list_update_same_conv)
  moreover have "\<forall>l \<in> set ((sr_lots r)[0 := ?l]). sync_lot_ok l"
    using assms(1) l by (auto simp: sync_inv_def dest!: subsetD[OF set_update_subset_insert])
  moreover have "first = 0" using assms(2,8) by auto
  ultimately show ?thesis using assms(1,5-7) by (simp add: sync_inv_def)
qed

lemma sync_grant_inv:
  assumes "sync_grant r s currency at = Inr r'" "sync_inv seen r" "sync_fresh r" "snapshot_in64 s"
    and "sn_order s \<notin> sn_order ` set seen" "state_in64 (sr_state r)"
  shows "sync_inv (seen @ [s]) r'" "sr_state r' = sn_after s" "1 < length (sr_lots r')" "sr_count r' = sr_count r"
    "sr_root r' = sr_root r"
proof -
  from assms(1) obtain before r1 r2 where b: "sn_before s = Some before" and paid: "0 \<le> sn_paid s"
    and r1: "(if length (sr_lots r) = 1 \<and> sr_count r = 0 \<and> es_total before \<noteq> es_total (sr_state r) then
               (if es_total before \<le> es_cycle_used before \<or> \<not> same_perpetual_state_identity before (sr_state r)
                then Inl ErrValueEvidence
                else Inr (r\<lparr>sr_lots := (sr_lots r)[0 := (sr_lots r ! 0)\<lparr>pl_quota := sub64 (es_total before) (es_cycle_used before)\<rparr>],
                            sr_state := (sr_state r)\<lparr>es_total := es_total before,
                                                     es_reset_quota := es_reset_quota before\<rparr>\<rparr>))
             else Inr r) = Inr r1"
    and r2: "sync_advance r1 before = Inr r2"
    and after: "es_used before = es_used (sn_after s)" "es_cycle_used before = es_cycle_used (sn_after s)"
      "es_total before < es_total (sn_after s)"
    and r': "r' = r2\<lparr>sr_paid := add64 (sr_paid r2) (sn_paid s),
                sr_lots := sr_lots r2 @ [\<lparr>pl_order = sn_order s, pl_quota = sub64 (es_total (sn_after s)) (es_total before),
                                         pl_consumed = 0, pl_paid = sn_paid s\<rparr>], sr_state := sn_after s\<rparr>"
    unfolding sync_grant_def Let_def by (auto split del: if_split)
  have range: "es_total before \<le> max64" "es_total (sn_after s) \<le> max64" "sn_paid s \<le> max64" "state_in64 before"
    using assms(4) b by (auto simp: snapshot_in64_def state_in64_def in64_def)
  have inv1: "sync_inv seen r1 \<and> es_cycle_used (sr_state r1) = es_cycle_used (sr_state r) \<and> sr_count r1 = sr_count r
      \<and> length (sr_lots r1) = length (sr_lots r) \<and> sr_root r1 = sr_root r"
  proof (cases "length (sr_lots r) = 1 \<and> sr_count r = 0 \<and> es_total before \<noteq> es_total (sr_state r)")
    case True
    with r1 have id: "same_perpetual_state_identity before (sr_state r)" "es_cycle_used before < es_total before"
      and eq: "r1 = r\<lparr>sr_lots := (sr_lots r)[0 := (sr_lots r ! 0)\<lparr>pl_quota := sub64 (es_total before) (es_cycle_used before)\<rparr>],
          sr_state := (sr_state r)\<lparr>es_total := es_total before, es_reset_quota := es_reset_quota before\<rparr>\<rparr>" by auto
    have cyc: "es_cycle_used before = es_cycle_used (sr_state r)" "0 \<le> es_cycle_used (sr_state r)" "0 \<le> es_used (sr_state r)"
      using id(1) assms(2) by (auto simp: same_perpetual_state_identity_def sync_inv_def)
    have first: "sr_first r = 0" using True assms(3) by (simp add: sync_fresh_def)
    have q: "sub64 (es_total before) (es_cycle_used before) = es_total before - es_cycle_used before"
      using cyc id(2) range(1) by (intro sub64_nonneg) auto
    have "sync_inv seen (r\<lparr>sr_lots := (sr_lots r)[0 := (sr_lots r ! 0)\<lparr>pl_quota := es_total before - es_cycle_used before\<rparr>],
        sr_first := 0, sr_state := (sr_state r)\<lparr>es_total := es_total before, es_reset_quota := es_reset_quota before\<rparr>\<rparr>)"
      using assms(2) cyc id(2) range(1) by (intro set_base_quota_inv) auto
    with first eq q show ?thesis by (simp add: sync_inv_def)
  next
    case False
    with r1 assms(2) have "r1 = r" by (simp split: if_splits)
    with assms(2) show ?thesis by simp
  qed
  note adv = sync_advance_inv[OF r2 conjunct1[OF inv1] range(4)]
  from inv1 have "0 \<le> es_cycle_used (sr_state r1)" "0 \<le> es_used (sr_state r1)" by (auto simp: sync_inv_def)
  then have nonneg: "0 \<le> es_cycle_used before" "0 \<le> es_used before" using adv(6,7) by auto
  have total: "0 \<le> es_total before" using adv(8) inv1 by (simp add: sync_inv_def)
  then have "sub64 (es_total (sn_after s)) (es_total before) = es_total (sn_after s) - es_total before"
    using after(3) range(2) by (intro sub64_nonneg) auto
  then have q: "0 \<le> sub64 (es_total (sn_after s)) (es_total before)"
    "sub64 (es_total (sn_after s)) (es_total before) \<le> max64" using after(3) range(2) total by auto
  show "sync_inv (seen @ [s]) r'"
    using adv(1) assms(5) paid range(3) q nonneg total after sync_inv_ne[OF adv(1)]
    by (auto simp: sync_inv_def r' sync_lot_ok_def sync_lot_paid_def)
  show "sr_state r' = sn_after s" "sr_count r' = sr_count r" "sr_root r' = sr_root r"
    using r' adv inv1 by simp_all
  show "1 < length (sr_lots r')" using r' sync_inv_ne[OF adv(1)] by (cases "sr_lots r2") auto
qed

lemma sum_remaining_spec:
  "sum_remaining ls acc = Inr w \<Longrightarrow> \<forall>l \<in> set ls. sync_lot_ok l \<Longrightarrow> 0 \<le> acc \<Longrightarrow> acc \<le> max64 \<Longrightarrow>
    w = acc + fifo_available lot_remaining ls \<and> 0 \<le> w \<and> w \<le> max64"
proof (induction ls arbitrary: acc)
  case (Cons l ls)
  have l: "0 \<le> lot_remaining l" using sync_lots.left_range[of l] Cons.prems(2) by simp
  from Cons.prems(1) have guard: "\<not> max64 - lot_remaining l < acc" by auto
  have add: "add64 acc (lot_remaining l) = acc + lot_remaining l" using l guard Cons.prems(3) by (intro add64_guarded)
  from Cons.IH[of "acc + lot_remaining l"] Cons.prems guard add l show ?case by simp
qed simp

text \<open>A prepared synchronisation leaves exactly what the lots have left under the new base quota.\<close>

lemma sync_prepare_spec:
  assumes "sync_prepare digest r before new_base revision = Inr d" "sync_inv seen r" "new_base \<le> max64"
  defines "lots \<equiv> (sr_lots r)[0 := (sr_lots r ! 0)\<lparr>pl_quota := new_base\<rparr>]"
  shows "es_total (pd_after d) = es_used before + fifo_available lot_remaining lots"
    "pd_remaining_after d = lot_remaining (lots ! 0)" "pd_after d = before\<lparr>es_total := es_total (pd_after d),
      es_reset_quota := new_base, es_status := ''active''\<rparr>"
    "0 < new_base" "sr_last_revision r < pd_revision d" "\<not> sr_overrun r" "0 \<le> es_total (pd_after d)" "0 \<le> es_used before"
    "es_total (pd_after d) \<le> max64"
proof -
  obtain base rest where lots: "sr_lots r = base # rest" using sync_inv_ne[OF assms(2)] by (cases "sr_lots r") auto
  have ok: "sync_lot_ok base" "\<forall>l \<in> set rest. sync_lot_ok l" using assms(2) by (auto simp: sync_inv_def lots)
  from assms(1) obtain w where pos: "0 < new_base" "sr_last_revision r < pd_revision d" "\<not> sr_overrun r"
    and sum: "sum_remaining rest (max 0 (sub64 new_base (pl_consumed base))) = Inr w"
    and used: "0 \<le> es_used before" "\<not> max64 - w < es_used before"
    and d: "pd_after d = before\<lparr>es_total := add64 (es_used before) w, es_reset_quota := new_base, es_status := ''active''\<rparr>"
      "pd_remaining_after d = max 0 (sub64 new_base (pl_consumed base))"
    by (auto simp: sync_prepare_def Let_def lots)
  have new: "sync_lot_ok (base\<lparr>pl_quota := new_base\<rparr>)" using ok(1) pos(1) assms(3) by (simp add: sync_lot_ok_def)
  have rem: "max 0 (sub64 new_base (pl_consumed base)) = lot_remaining (base\<lparr>pl_quota := new_base\<rparr>)"
    by (simp add: lot_remaining_def)
  note w = sum_remaining_spec[OF sum[unfolded rem] ok(2)]
  have range: "0 \<le> lot_remaining (base\<lparr>pl_quota := new_base\<rparr>)" "lot_remaining (base\<lparr>pl_quota := new_base\<rparr>) \<le> max64"
    using sync_lots.left_range[OF new] by auto
  have add: "add64 (es_used before) w = es_used before + w" using w[OF range] used by (intro add64_guarded) auto
  show "es_total (pd_after d) = es_used before + fifo_available lot_remaining lots"
    "pd_remaining_after d = lot_remaining (lots ! 0)" "pd_after d = before\<lparr>es_total := es_total (pd_after d),
      es_reset_quota := new_base, es_status := ''active''\<rparr>"
    using d add w[OF range] rem by (simp_all add: lots_def lots)
  show "0 < new_base" "sr_last_revision r < pd_revision d" "\<not> sr_overrun r" "0 \<le> es_used before" by fact+
  show "0 \<le> es_total (pd_after d)" "es_total (pd_after d) \<le> max64" using d add w[OF range] used by simp_all
qed

lemma sync_apply_inv:
  assumes "sync_apply digest r e = Inr r'" "sync_inv seen r"
    and "state_in64 (pd_before (pe_detail e))" "pd_new_base (pe_detail e) \<le> max64"
  shows "sync_inv seen r'" "sr_first r' = 0" "sr_root r' = sr_root r" "sr_count r' = sr_count r"
    "state_in64 (sr_state r')"
proof -
  let ?d = "pe_detail e"
  from assms(1) obtain r1 where adv: "sync_advance r (pd_before ?d) = Inr r1"
    and prep: "sync_prepare digest r1 (pd_before ?d) (pd_new_base ?d) (pd_revision ?d) = Inr ?d"
    and r': "r' = r1\<lparr>sr_lots := (sr_lots r1)[0 := (sr_lots r1 ! 0)\<lparr>pl_quota := pd_new_base ?d\<rparr>],
        sr_first := 0, sr_state := pd_after ?d, sr_last_revision := pd_revision ?d\<rparr>"
    by (auto simp: sync_apply_def Let_def)
  note a = sync_advance_inv[OF adv assms(2,3)]
  note p = sync_prepare_spec[OF prep a(1) assms(4)]
  have after: "es_used (pd_after ?d) = es_used (pd_before ?d)" "es_cycle_used (pd_after ?d) = es_cycle_used (pd_before ?d)"
    using arg_cong[OF p(3), of es_used] arg_cong[OF p(3), of es_cycle_used] by simp_all
  have st: "0 \<le> es_used (pd_before ?d)" "0 \<le> es_cycle_used (pd_before ?d)" using a(1,2) by (auto simp: sync_inv_def)
  have "sync_inv seen (r1\<lparr>sr_lots := (sr_lots r1)[0 := (sr_lots r1 ! 0)\<lparr>pl_quota := pd_new_base ?d\<rparr>],
      sr_first := 0, sr_state := pd_after ?d\<rparr>)"
    using a(1) p assms(4) st after by (intro set_base_quota_inv) auto
  then show "sync_inv seen r'" by (simp add: sync_inv_def r')
  show "sr_first r' = 0" "sr_root r' = sr_root r" "sr_count r' = sr_count r" using r' a by simp_all
  show "state_in64 (sr_state r')"
    using assms(3) after p(7,9) by (auto simp: r' state_in64_def intro: in64_nonneg)
qed

definition event_in64 :: "perpetual_sync_event \<Rightarrow> bool" where
  "event_in64 e \<longleftrightarrow> state_in64 (pd_before (pe_detail e)) \<and> in64 (pd_new_base (pe_detail e))"

definition replay_ok :: "entitlement_snapshot list \<Rightarrow> sync_replay \<Rightarrow> bool" where
  "replay_ok seen r \<longleftrightarrow> sync_inv seen r \<and> sync_fresh r \<and> state_in64 (sr_state r)"

lemma sync_bind_keeps: "sync_bind digest r kind src = Inr r' \<Longrightarrow> \<exists>d. r' = r\<lparr>sr_digest := d\<rparr>"
  by (auto simp: sync_bind_def)

lemma sync_grant_step_ok:
  assumes "sync_grant_step digest currency at ids s r = Inr r'" "replay_ok seen r" "snapshot_in64 s"
    and "sn_order ` set seen \<subseteq> set ids"
  shows "replay_ok (seen @ [s]) r' \<and> sr_root r' = sr_root r"
proof -
  from assms(1) obtain r1 r2 where grant: "sync_grant r s currency at = Inr r1" and fresh: "sn_order s \<notin> set ids"
    and b: "sync_bind digest r1 ''paid_grant'' (PaidGrant s) = Inr r2"
    and r': "r' = r2\<lparr>sr_last_id := sn_event_id s, sr_last_at := sn_event_at s\<rparr>"
    by (auto simp: sync_grant_step_def)
  have "sn_order s \<notin> sn_order ` set seen" using fresh assms(4) by blast
  with sync_grant_inv[OF grant _ _ assms(3)] assms(2,3) have
    "sync_inv (seen @ [s]) r1" "sr_state r1 = sn_after s" "1 < length (sr_lots r1)" "sr_root r1 = sr_root r"
    by (auto simp: replay_ok_def)
  with sync_bind_keeps[OF b] r' assms(3) show ?thesis
    by (auto simp: replay_ok_def sync_inv_def sync_fresh_def snapshot_in64_def)
qed

lemma sync_event_step_ok:
  assumes "sync_event_step digest e r = Inr r'" "replay_ok seen r" "event_in64 e"
  shows "replay_ok seen r' \<and> sr_root r' = sr_root r"
proof -
  from assms(1) obtain r1 r2 where ap: "sync_apply digest r e = Inr r1"
    and b: "sync_bind digest r1 ''base_quota_sync'' (BaseSync e) = Inr r2"
    and r': "r' = r2\<lparr>sr_count := sr_count r2 + 1, sr_last_id := pe_id e, sr_last_at := pe_at e\<rparr>"
    by (auto simp: sync_event_step_def)
  have "sync_inv seen r" "state_in64 (pd_before (pe_detail e))" "pd_new_base (pe_detail e) \<le> max64"
    using assms(2,3) by (auto simp: replay_ok_def event_in64_def in64_def)
  from sync_apply_inv[OF ap this] sync_bind_keeps[OF b] r' show ?thesis
    by (auto simp: replay_ok_def sync_inv_def sync_fresh_def)
qed

lemma sync_merge_ok:
  "sync_merge digest currency at ids ss es r = Inr r' \<Longrightarrow> replay_ok seen r \<Longrightarrow> \<forall>s \<in> set ss. snapshot_in64 s \<Longrightarrow>
    \<forall>e \<in> set es. event_in64 e \<Longrightarrow> sn_order ` set seen \<subseteq> set ids \<Longrightarrow>
    replay_ok (seen @ ss) r' \<and> sr_root r' = sr_root r"
proof (induction digest currency at ids ss es r arbitrary: seen rule: sync_merge.induct)
  case (2 digest currency at ids s ss r)
  from "2.prems"(1) obtain r1 where r1: "sync_grant_step digest currency at ids s r = Inr r1"
    "sync_merge digest currency at (sn_order s # ids) ss [] r1 = Inr r'" by auto
  have "replay_ok (seen @ [s]) r1 \<and> sr_root r1 = sr_root r"
    using "2.prems" by (intro sync_grant_step_ok[OF r1(1)]) auto
  with "2.IH"[OF r1(1) r1(2), of "seen @ [s]"] "2.prems" show ?case by auto
next
  case (3 digest currency at ids e es r)
  from "3.prems"(1) obtain r1 where r1: "sync_event_step digest e r = Inr r1"
    "sync_merge digest currency at ids [] es r1 = Inr r'" by auto
  have "replay_ok seen r1 \<and> sr_root r1 = sr_root r"
    using "3.prems" by (intro sync_event_step_ok[OF r1(1)]) auto
  with "3.IH"[OF r1(1) r1(2), of seen] "3.prems" show ?case by auto
next
  case (4 digest currency at ids s ss e es r)
  show ?case
  proof (cases "pe_id e < sn_event_id s")
    case True
    with "4.prems"(1) obtain r1 where r1: "sync_event_step digest e r = Inr r1"
      "sync_merge digest currency at ids (s # ss) es r1 = Inr r'" by auto
    have "replay_ok seen r1 \<and> sr_root r1 = sr_root r"
      using "4.prems" by (intro sync_event_step_ok[OF r1(1)]) auto
    with "4.IH"(1)[OF True r1(1) r1(2), of seen] "4.prems" show ?thesis by auto
  next
    case False
    with "4.prems"(1) obtain r1 where r1: "sync_grant_step digest currency at ids s r = Inr r1"
      "sync_merge digest currency at (sn_order s # ids) ss (e # es) r1 = Inr r'" by auto
    have "replay_ok (seen @ [s]) r1 \<and> sr_root r1 = sr_root r"
      using "4.prems" by (intro sync_grant_step_ok[OF r1(1)]) auto
    with "4.IH"(2)[OF False r1(1) r1(2), of "seen @ [s]"] "4.prems" show ?thesis by auto
  qed
qed auto

lemma replay_perpetual_base_sync_ok:
  assumes "replay_perpetual_base_sync digest ctx records events current currency at epoch = Inr r"
    and "\<forall>s \<in> set records. snapshot_in64 s" "\<forall>e \<in> set events. event_in64 e" "state_in64 current"
  obtains rs where "records_from_root records (es_start current) = Some rs" "sync_inv rs r" "sr_root r = hd rs"
    "es_used (sr_state r) = es_used current"
proof -
  from assms(1) obtain rs where rs: "records_from_root records (es_start current) = Some rs"
    by (auto simp: replay_perpetual_base_sync_def)
  from records_from_root_Some[OF rs] obtain root rest where root: "rs = root # rest" by metis
  have sub: "set rs \<subseteq> set records"
  proof -
    from records_from_root_Some[OF rs] obtain pre where "sort_key sn_event_id records = pre @ rs" by metis
    then have "set (sort_key sn_event_id records) = set (pre @ rs)" by (rule arg_cong)
    then show ?thesis by auto
  qed
  let ?after = "sn_after root"
  let ?r0 = "\<lparr>sr_root = root, sr_state = ?after,
               sr_lots = [\<lparr>pl_order = sn_order root, pl_quota = sub64 (es_total ?after) (es_cycle_used ?after),
                           pl_consumed = 0, pl_paid = sn_paid root\<rparr>],
               sr_epoch = epoch, sr_first = 0, sr_last_id = sn_event_id root, sr_last_at = sn_event_at root,
               sr_last_revision = 0, sr_overrun = False, sr_paid = sn_paid root, sr_count = 0,
               sr_digest = zero_digest\<rparr>"
  from assms(1) rs root obtain q r1 r2 final where
    single: "project_single_perpetual digest root ?after currency at = Inr q"
    and bnd: "sync_bind digest ?r0 ''paid_grant'' (PaidGrant root) = Inr r1"
    and merge: "sync_merge digest currency at [sn_order root] rest events r1 = Inr r2"
    and final: "(case es_ended current of None \<Rightarrow> Inr current | Some _ \<Rightarrow>
        if es_end_reason current \<noteq> ''exhausted'' \<or> es_status current \<noteq> ''expired'' \<or> es_used current < es_total current
        then Inl ErrValueEvidence
        else Inr (current\<lparr>es_ended := None, es_end_reason := es_end_reason (sr_state r2)\<rparr>)) = Inr final"
    and adv: "sync_advance r2 final = Inr r"
    by (auto simp: replay_perpetual_base_sync_def Let_def)
  note used = project_single_used[OF single]
  have in64: "snapshot_in64 root" "\<forall>s \<in> set rest. snapshot_in64 s" using assms(2) sub by (auto simp: root)
  have range: "es_total ?after \<le> max64" "sn_paid root \<le> max64" "state_in64 ?after"
    using in64(1) by (auto simp: snapshot_in64_def state_in64_def in64_def)
  have q: "sub64 (es_total ?after) (es_cycle_used ?after) = es_total ?after - es_cycle_used ?after"
    using used range(1) by (intro sub64_nonneg) auto
  have "replay_ok [root] ?r0"
    using used range q by (auto simp: replay_ok_def sync_inv_def sync_fresh_def sync_lot_ok_def sync_lot_paid_def)
  then have "replay_ok [root] r1" using sync_bind_keeps[OF bnd] by (auto simp: replay_ok_def sync_inv_def sync_fresh_def)
  moreover have "sr_root r1 = root" using sync_bind_keeps[OF bnd] by auto
  ultimately have r2: "sync_inv rs r2" "sr_root r2 = root"
    using sync_merge_ok[OF merge _ in64(2) assms(3), of "[root]"] by (auto simp: root replay_ok_def)
  have fin: "state_in64 final" "es_used final = es_used current"
    using final assms(4) by (auto simp: state_in64_def split: option.splits if_splits)
  note a = sync_advance_inv[OF adv r2(1) fin(1)]
  show thesis using that[OF rs a(1)] a(2,4) r2(2) fin(2) by (simp add: root)
qed

lemma value_sync_lots_spec:
  "value_sync_lots ls out = Inr out' \<Longrightarrow> distinct (map pl_order ls) \<Longrightarrow> wf_sources (vp_sources out) \<Longrightarrow>
    set (map pl_order ls) \<inter> fst ` set (vp_sources out) = {} \<Longrightarrow> 0 \<le> vp_total out \<Longrightarrow> \<forall>l \<in> set ls. 0 \<le> pl_paid l \<Longrightarrow>
    wf_sources (vp_sources out') \<and> vp_future out' = vp_future out \<and> 0 \<le> vp_total out'
    \<and> vp_total out' - vp_total out = sum_amounts (vp_sources out') - sum_amounts (vp_sources out)
    \<and> (\<forall>k. amt (vp_sources out') k \<le> amt (vp_sources out) k + (\<Sum>l \<leftarrow> ls. if pl_order l = k then pl_paid l else 0))"
proof (induction ls arbitrary: out)
  case (Cons l ls)
  define a where "a = (if pl_quota l > 0 then proportional_value (pl_paid l) (lot_remaining l) (pl_quota l) else 0)"
  from Cons.prems(1) have a: "0 \<le> a" "a \<le> pl_paid l" "\<not> max64 - a < vp_total out"
    unfolding value_sync_lots.simps a_def[symmetric] Let_def by auto
  let ?src = "if a > 0 then put (pl_order l) a (vp_sources out) else vp_sources out"
  have add: "add64 (vp_total out) a = vp_total out + a" using a Cons.prems(5) by (intro add64_guarded) auto
  from Cons.prems(1) obtain cyc where rest: "value_sync_lots ls
      (out\<lparr>vp_cycle := cyc, vp_total := vp_total out + a, vp_sources := ?src\<rparr>) = Inr out'"
    unfolding value_sync_lots.simps a_def[symmetric] Let_def add by (auto split del: if_split)
  have absent: "amt (vp_sources out) (pl_order l) = 0" using Cons.prems(4) by (intro amt_absent) auto
  have src: "wf_sources ?src" "fst ` set ?src \<subseteq> insert (pl_order l) (fst ` set (vp_sources out))"
    "sum_amounts ?src = sum_amounts (vp_sources out) + a"
    "\<And>k. amt ?src k \<le> amt (vp_sources out) k + (if pl_order l = k then pl_paid l else 0)"
    using Cons.prems(3,6) a(1,2) absent sum_amounts_put[OF wf_sources_amounts[OF Cons.prems(3)]]
    by (auto simp: wf_sources_put keys_put)
  have "pl_order l \<notin> set (map pl_order ls)" using Cons.prems(2) by simp
  then have disj: "set (map pl_order ls) \<inter> fst ` set ?src = {}"
    using Cons.prems(4) by (intro disjoint_from_insert[OF src(2)]) simp_all
  note IH0 = Cons.IH[OF rest]
  have IH: "wf_sources (vp_sources out')" "vp_future out' = vp_future out" "0 \<le> vp_total out'"
    "vp_total out' - (vp_total out + a) = sum_amounts (vp_sources out') - sum_amounts ?src"
    "\<And>k. amt (vp_sources out') k \<le> amt ?src k + (\<Sum>l \<leftarrow> ls. if pl_order l = k then pl_paid l else 0)"
    using IH0 Cons.prems(2,5,6) a(1) src(1) disj by auto
  have "amt (vp_sources out') k \<le> amt (vp_sources out) k + (\<Sum>l \<leftarrow> l # ls. if pl_order l = k then pl_paid l else 0)" for k
    using IH(5)[of k] src(4)[of k] by simp
  with IH(1-4) src(3) show ?case by auto
qed simp

lemma sync_lots_paid_by:
  "map sync_lot_paid lots = map (\<lambda>s. (sn_order s, sn_paid s)) seen \<Longrightarrow>
    (\<Sum>l \<leftarrow> lots. if pl_order l = k then pl_paid l else 0) = paid_by seen k \<and> map pl_order lots = map sn_order seen"
proof (induction lots arbitrary: seen)
  case (Cons l lots)
  then obtain s rest where "seen = s # rest" by (cases seen) auto
  with Cons show ?case by (auto simp: sync_lot_paid_def paid_by_def)
qed (auto simp: paid_by_def)

section \<open>Properties\<close>

definition sample_used :: entitlement_state where
  "sample_used = sample_state\<lparr>es_end := perpetual_end, es_used := 20\<rparr>"

definition sample_sync :: perpetual_sync_event where
  "sample_sync = \<lparr>pe_id = 2, pe_at = 100000000000000, pe_detail =
     \<lparr>pd_version = 1, pd_kind = base_sync_kind, pd_subscription = sn_subscription sample_once, pd_epoch = 3, pd_plan = 1,
      pd_revision = 4, pd_base_order = 9, pd_old_base = 100, pd_new_base = 60, pd_used = 20, pd_base_consumed = 20,
      pd_remaining_before = 80, pd_remaining_after = 40, pd_before = sample_used,
      pd_after = sample_used\<lparr>es_total := 60, es_reset_quota := 60\<rparr>, pd_fingerprint = ''f''\<rparr>\<rparr>"

lemmas sample_in64_defs = snapshot_in64_def state_in64_def event_in64_def in64_def min64_def max64_def sample_once_def
  sample_sync_def sample_used_def sample_root_def sample_state_def



text \<open>
  C37. A prepared synchronisation of the base quota changes the quota and nothing else that was earned: the
  new total is the usage plus exactly what the paid lots have left once the base lot has its new quota,
  consumption is kept, the plan revision advances, and usage that no lot covers is refused.
\<close>

theorem base_sync_prepare_exact:
  assumes "prepare_perpetual_base_quota_sync digest ctx records prior current currency at epoch new_base revision = Inr d"
    and "\<forall>s \<in> set records. snapshot_in64 s" "\<forall>e \<in> set prior. event_in64 e" "state_in64 current" "in64 new_base"
  shows "\<exists>r. replay_perpetual_base_sync digest ctx records prior current currency at epoch = Inr r \<and> \<not> sr_overrun r
    \<and> es_total (pd_after d) = es_used current
        + fifo_available lot_remaining ((sr_lots r)[0 := (sr_lots r ! 0)\<lparr>pl_quota := new_base\<rparr>])
    \<and> pd_after d = current\<lparr>es_total := es_total (pd_after d), es_reset_quota := new_base, es_status := ''active''\<rparr>
    \<and> sr_last_revision r < pd_revision d"
proof -
  from assms(1) obtain r where r: "replay_perpetual_base_sync digest ctx records prior current currency at epoch = Inr r"
    and prep: "sync_prepare digest r current new_base revision = Inr d"
    by (auto simp: prepare_perpetual_base_quota_sync_def)
  from replay_perpetual_base_sync_ok[OF r assms(2-4)] obtain rs where inv: "sync_inv rs r" by metis
  have "new_base \<le> max64" using assms(5) by (simp add: in64_def)
  note p = sync_prepare_spec[OF prep inv this]
  from r p(1,3,5,6) show ?thesis by blast
qed

theorem base_sync_prepare_exact_witness:
  "\<exists>d. prepare_perpetual_base_quota_sync (\<lambda>_. Inr ''f'') LiveCtx [sample_once] [] sample_used ''USD'' 129600000000000 3 60 4 = Inr d
    \<and> es_total (pd_after d) = 60 \<and> es_used (pd_after d) = 20"
proof -
  let ?p = "prepare_perpetual_base_quota_sync (\<lambda>_. Inr ''f'') LiveCtx [sample_once] [] sample_used ''USD'' 129600000000000 3 60 4"
  have "case ?p of Inl e \<Rightarrow> False | Inr d \<Rightarrow> es_total (pd_after d) = 60" by code_simp
  then obtain d where p: "?p = Inr d" "es_total (pd_after d) = 60" by (cases ?p) auto
  have "\<forall>s \<in> set [sample_once]. snapshot_in64 s" "state_in64 sample_used" "in64 60"
    by (simp_all add: sample_in64_defs)
  from base_sync_prepare_exact[OF p(1) this(1) _ this(2,3)] have
    "pd_after d = sample_used\<lparr>es_total := es_total (pd_after d), es_reset_quota := 60, es_status := ''active''\<rparr>" by auto
  then have "es_used (pd_after d) = es_used (sample_used\<lparr>es_total := es_total (pd_after d), es_reset_quota := 60, es_status := ''active''\<rparr>)"
    by (rule arg_cong)
  with p show ?thesis by (simp add: sample_used_def)
qed

end
