(* ===== verification/GoStrings.thy ===== *)
theory GoStrings
  imports Prelude
begin

text \<open>
  The parts of Go's \<^verbatim>\<open>strings\<close>, \<^verbatim>\<open>strconv\<close> and \<^verbatim>\<open>unicode/utf8\<close> the packages use. A Go string is
  the list of its bytes, so \<open>length\<close> is Go's \<open>len\<close>.
\<close>

section \<open>Trimming\<close>

text \<open>The UTF-8 encodings of the runes for which \<open>unicode.IsSpace\<close> holds.\<close>

definition bytes :: "nat list \<Rightarrow> string" where
  "bytes ns = map char_of ns"

definition space_runes :: "string list" where
  "space_runes = map bytes
     ([[9], [10], [11], [12], [13], [32], [194, 133], [194, 160], [225, 154, 128]]
      @ map (\<lambda>n. [226, 128, n]) [128 ..< 139]
      @ [[226, 128, 168], [226, 128, 169], [226, 128, 175], [226, 129, 159], [227, 128, 128]])"

fun strip_prefix :: "string \<Rightarrow> string \<Rightarrow> string option" where
  "strip_prefix [] s = Some s"
| "strip_prefix (p # ps) [] = None"
| "strip_prefix (p # ps) (c # s) = (if p = c then strip_prefix ps s else None)"

fun strip_any :: "string list \<Rightarrow> string \<Rightarrow> string option" where
  "strip_any [] s = None"
| "strip_any (p # ps) s = (case strip_prefix p s of Some r \<Rightarrow> Some r | None \<Rightarrow> strip_any ps s)"

text \<open>\<open>strings.HasPrefix\<close>.\<close>

definition has_prefix :: "string \<Rightarrow> string \<Rightarrow> bool" where "has_prefix p s \<longleftrightarrow> strip_prefix p s \<noteq> None"

lemma strip_prefix_eq: "strip_prefix p s = Some r \<longleftrightarrow> s = p @ r"
  by (induction p s rule: strip_prefix.induct) auto

lemma strip_any_Some: "strip_any ps s = Some r \<Longrightarrow> \<exists>p \<in> set ps. s = p @ r"
  by (induction ps) (auto simp: strip_prefix_eq split: option.splits)

lemma strip_any_None: "strip_any ps s = None \<Longrightarrow> p \<in> set ps \<Longrightarrow> s \<noteq> p @ r"
  by (induction ps) (auto simp: strip_prefix_eq[symmetric] split: option.splits)

text \<open>Strips tokens from the front; a token is consumed only when it shortens the string.\<close>

function strip_all :: "string list \<Rightarrow> string \<Rightarrow> string" where
  "strip_all ps s =
     (case strip_any ps s of
        Some r \<Rightarrow> if length r < length s then strip_all ps r else s
      | None \<Rightarrow> s)"
  by pat_completeness auto
termination by (relation "measure (\<lambda>(ps, s). length s)") auto

declare strip_all.simps [simp del]

definition trim_left :: "string \<Rightarrow> string" where "trim_left s = strip_all space_runes s"

definition trim_right :: "string \<Rightarrow> string" where
  "trim_right s = rev (strip_all (map rev space_runes) (rev s))"

text \<open>\<open>strings.TrimSpace\<close>: a rune of white space is cut off when its encoding starts or ends the string.\<close>

definition trim_space :: "string \<Rightarrow> string" where
  "trim_space s = trim_right (trim_left s)"

lemma strip_all_suffix: "\<exists>pre. s = pre @ strip_all ps s"
proof (induction ps s rule: strip_all.induct)
  case (1 ps s)
  show ?case
  proof (cases "strip_any ps s")
    case None
    then show ?thesis by (auto simp: strip_all.simps[of ps s])
  next
    case (Some r)
    then obtain p where p: "s = p @ r" by (blast dest: strip_any_Some)
    show ?thesis
    proof (cases "length r < length s")
      case True
      with 1 Some obtain pre where "r = pre @ strip_all ps r" by blast
      with p have "s = (p @ pre) @ strip_all ps r" by simp
      moreover have "strip_all ps s = strip_all ps r" using Some True by (simp add: strip_all.simps[of ps s])
      ultimately show ?thesis by metis
    next
      case False
      with Some show ?thesis by (auto simp: strip_all.simps[of ps s])
    qed
  qed
qed

lemma strip_all_stops:
  assumes "[] \<notin> set ps" shows "strip_any ps (strip_all ps s) = None"
  using assms
proof (induction ps s rule: strip_all.induct)
  case (1 ps s)
  show ?case
  proof (cases "strip_any ps s")
    case None
    then show ?thesis by (simp add: strip_all.simps[of ps s])
  next
    case (Some r)
    then obtain p where p: "p \<in> set ps" "s = p @ r" by (blast dest: strip_any_Some)
    with "1.prems" have "length r < length s" by (cases p) auto
    with 1 Some show ?thesis by (simp add: strip_all.simps[of ps s])
  qed
qed

lemma strip_all_id: "strip_any ps s = None \<Longrightarrow> strip_all ps s = s"
  by (simp add: strip_all.simps)

lemma space_runes_nonempty: "[] \<notin> set space_runes" "[] \<notin> set (map rev space_runes)"
  by (auto simp: space_runes_def bytes_def)

lemma trim_space_infix: "\<exists>a b. s = a @ trim_space s @ b"
proof -
  obtain a where a: "s = a @ trim_left s" using strip_all_suffix[of s space_runes] by (auto simp: trim_left_def)
  obtain b where "rev (trim_left s) = b @ strip_all (map rev space_runes) (rev (trim_left s))"
    using strip_all_suffix by blast
  then have "trim_left s = trim_space s @ rev b"
    unfolding trim_space_def trim_right_def by (metis rev_append rev_rev_ident)
  with a show ?thesis by metis
qed

lemma trim_space_length: "length (trim_space s) \<le> length s"
proof -
  from trim_space_infix[of s] obtain a b where "s = a @ trim_space s @ b" by blast
  then have "length s = length (a @ trim_space s @ b)" by (rule arg_cong)
  then show ?thesis by simp
qed

section \<open>Letter case\<close>

definition is_ascii :: "string \<Rightarrow> bool" where
  "is_ascii s \<longleftrightarrow> (\<forall>c \<in> set s. of_char c < (128 :: nat))"

definition ascii_upper :: "char \<Rightarrow> char" where
  "ascii_upper c = (if 97 \<le> (of_char c :: nat) \<and> (of_char c :: nat) \<le> 122 then char_of ((of_char c :: nat) - 32) else c)"

definition ascii_lower :: "char \<Rightarrow> char" where
  "ascii_lower c = (if 65 \<le> (of_char c :: nat) \<and> (of_char c :: nat) \<le> 90 then char_of ((of_char c :: nat) + 32) else c)"

text \<open>
  \<open>strings.ToUpper\<close>, \<open>strings.ToLower\<close> and \<open>strings.EqualFold\<close> have a path for ASCII strings; the
  other strings go through the Unicode tables, which are a parameter.
\<close>

record go_unicode =
  un_upper :: "string \<Rightarrow> string"
  un_lower :: "string \<Rightarrow> string"
  un_fold :: "string \<Rightarrow> string \<Rightarrow> bool"

definition to_upper :: "(string \<Rightarrow> string) \<Rightarrow> string \<Rightarrow> string" where
  "to_upper table s = (if is_ascii s then map ascii_upper s else table s)"

definition to_lower :: "(string \<Rightarrow> string) \<Rightarrow> string \<Rightarrow> string" where
  "to_lower table s = (if is_ascii s then map ascii_lower s else table s)"

definition equal_fold :: "go_unicode \<Rightarrow> string \<Rightarrow> string \<Rightarrow> bool" where
  "equal_fold uc s t = (if is_ascii s \<and> is_ascii t then map ascii_lower s = map ascii_lower t else un_fold uc s t)"

definition lower_trim :: "go_unicode \<Rightarrow> string \<Rightarrow> string" where
  "lower_trim uc s = to_lower (un_lower uc) (trim_space s)"

definition upper_trim :: "go_unicode \<Rightarrow> string \<Rightarrow> string" where
  "upper_trim uc s = to_upper (un_upper uc) (trim_space s)"

text \<open>Tables that know no letter outside ASCII, the ones concrete evaluations use.\<close>

definition ascii_unicode :: go_unicode where
  "ascii_unicode = \<lparr>un_upper = map ascii_upper, un_lower = map ascii_lower,
     un_fold = (\<lambda>s t. map ascii_lower s = map ascii_lower t)\<rparr>"

definition all_capitals :: "string \<Rightarrow> bool" where
  "all_capitals s \<longleftrightarrow> (\<forall>c \<in> set s. 65 \<le> (of_char c :: nat) \<and> (of_char c :: nat) \<le> 90)"

lemma all_capitals_ascii: "all_capitals s \<Longrightarrow> is_ascii s"
  by (force simp: all_capitals_def is_ascii_def)

lemma to_upper_capitals: "all_capitals s \<Longrightarrow> to_upper table s = s"
  by (auto simp: to_upper_def all_capitals_ascii all_capitals_def ascii_upper_def intro!: map_idI)

section \<open>Hexadecimal digests and decimal numbers\<close>

text \<open>The pattern \<open>^[a-f0-9]{64}$\<close>.\<close>

definition is_hex :: "char \<Rightarrow> bool" where
  "is_hex c \<longleftrightarrow> (97 \<le> (of_char c :: nat) \<and> (of_char c :: nat) \<le> 102) \<or> (48 \<le> (of_char c :: nat) \<and> (of_char c :: nat) \<le> 57)"

definition hash_pattern :: "string \<Rightarrow> bool" where
  "hash_pattern s \<longleftrightarrow> length s = 64 \<and> list_all is_hex s"

definition digit_of :: "char \<Rightarrow> int option" where
  "digit_of c = (if 48 \<le> (of_char c :: nat) \<and> (of_char c :: nat) \<le> 57 then Some (int (of_char c) - 48) else None)"

fun parse_digits :: "int \<Rightarrow> string \<Rightarrow> int option" where
  "parse_digits acc [] = Some acc"
| "parse_digits acc (c # s) =
     (case digit_of c of None \<Rightarrow> None | Some d \<Rightarrow> parse_digits (acc * 10 + d) s)"

text \<open>\<open>strconv.ParseInt(s, 10, bits)\<close>: an optional sign, then digits, within the range.\<close>

definition parse_int :: "nat \<Rightarrow> string \<Rightarrow> int option" where
  "parse_int bits s =
     (let (neg, body) = (case s of
          c # r \<Rightarrow> if c = CHR ''-'' then (True, r) else if c = CHR ''+'' then (False, r) else (False, s)
        | [] \<Rightarrow> (False, []))
      in if body = [] then None
         else case parse_digits 0 body of
           None \<Rightarrow> None
         | Some n \<Rightarrow>
             if neg then (if n > 2 ^ (bits - 1) then None else Some (- n))
             else if n > 2 ^ (bits - 1) - 1 then None else Some n)"

text \<open>\<open>strconv.Itoa\<close> of a natural number.\<close>

fun show_nat :: "nat \<Rightarrow> string" where
  "show_nat n = (if n < 10 then [char_of (48 + n)] else show_nat (n div 10) @ [char_of (48 + n mod 10)])"

declare show_nat.simps [simp del]

lemma parse_digits_append:
  "parse_digits acc (s @ t) = (case parse_digits acc s of None \<Rightarrow> None | Some n \<Rightarrow> parse_digits n t)"
  by (induction s arbitrary: acc) (auto split: option.splits)

lemma digit_of_show: "d < 10 \<Longrightarrow> digit_of (char_of (48 + d)) = Some (int d)"
  by (simp add: digit_of_def)

lemma parse_digits_show: "parse_digits 0 (show_nat n) = Some (int n)"
proof (induction n rule: show_nat.induct)
  case (1 n)
  show ?case
  proof (cases "n < 10")
    case True
    then show ?thesis by (simp add: show_nat.simps[of n] digit_of_show)
  next
    case False
    have "int (n div 10) * 10 + int (n mod 10) = int n"
      by (metis div_mult_mod_eq of_nat_add of_nat_mult of_nat_numeral)
    with 1 False show ?thesis
      by (simp add: show_nat.simps[of n] parse_digits_append digit_of_show)
  qed
qed

lemma show_nat_head: "\<exists>c r. show_nat n = c # r \<and> c \<noteq> CHR ''-'' \<and> c \<noteq> CHR ''+''"
proof (induction n rule: show_nat.induct)
  case (1 n)
  have dig: "char_of (48 + d) \<noteq> CHR ''-''" "char_of (48 + d) \<noteq> CHR ''+''" if "d < 10" for d :: nat
  proof -
    have "(of_char (char_of (48 + d)) :: nat) = 48 + d" using that by simp
    moreover have "(of_char (CHR ''-'') :: nat) = 45" "(of_char (CHR ''+'') :: nat) = 43" by simp_all
    ultimately show "char_of (48 + d) \<noteq> CHR ''-''" "char_of (48 + d) \<noteq> CHR ''+''" by force+
  qed
  show ?case
  proof (cases "n < 10")
    case True
    then show ?thesis using dig[of n] by (simp add: show_nat.simps[of n])
  next
    case False
    with 1 obtain c r where "show_nat (n div 10) = c # r" "c \<noteq> CHR ''-''" "c \<noteq> CHR ''+''" by blast
    with False show ?thesis by (simp add: show_nat.simps[of n])
  qed
qed

lemma parse_int_show:
  assumes "int n \<le> 2 ^ (bits - 1) - 1" shows "parse_int bits (show_nat n) = Some (int n)"
proof -
  from show_nat_head[of n] obtain c r where s: "show_nat n = c # r" "c \<noteq> CHR ''-''" "c \<noteq> CHR ''+''" by blast
  define lim :: int where "lim = 2 ^ (bits - 1) - 1"
  have "\<not> lim < int n" using assms unfolding lim_def by linarith
  with s parse_digits_show[of n] show ?thesis
    unfolding parse_int_def lim_def[symmetric] by (simp del: parse_digits.simps)
qed

section \<open>UTF-8\<close>

definition byte_in :: "nat \<Rightarrow> nat \<Rightarrow> char \<Rightarrow> bool" where
  "byte_in lo hi c \<longleftrightarrow> lo \<le> of_char c \<and> of_char c \<le> hi"

text \<open>The lengths and second-byte ranges of \<open>unicode/utf8\<close>: what may follow a first byte.\<close>

definition utf8_follow :: "char \<Rightarrow> (nat \<times> nat) list option" where
  "utf8_follow c =
     (if byte_in 0 127 c then Some []
      else if byte_in 194 223 c then Some [(128, 191)]
      else if byte_in 224 224 c then Some [(160, 191), (128, 191)]
      else if byte_in 237 237 c then Some [(128, 159), (128, 191)]
      else if byte_in 225 239 c then Some [(128, 191), (128, 191)]
      else if byte_in 240 240 c then Some [(144, 191), (128, 191), (128, 191)]
      else if byte_in 241 243 c then Some [(128, 191), (128, 191), (128, 191)]
      else if byte_in 244 244 c then Some [(128, 143), (128, 191), (128, 191)]
      else None)"

fun strip_ranges :: "(nat \<times> nat) list \<Rightarrow> string \<Rightarrow> string option" where
  "strip_ranges [] s = Some s"
| "strip_ranges (r # rs) [] = None"
| "strip_ranges ((lo, hi) # rs) (c # s) = (if byte_in lo hi c then strip_ranges rs s else None)"

lemma strip_ranges_length: "strip_ranges rs s = Some r \<Longrightarrow> length r \<le> length s"
  by (induction rs s rule: strip_ranges.induct) (fastforce split: if_splits)+

function utf8_valid :: "string \<Rightarrow> bool" where
  "utf8_valid [] = True"
| "utf8_valid (c # s) =
     (case utf8_follow c of
        None \<Rightarrow> False
      | Some rs \<Rightarrow> (case strip_ranges rs s of None \<Rightarrow> False | Some r \<Rightarrow> utf8_valid r))"
  by pat_completeness auto
termination by (relation "measure length") (auto dest: strip_ranges_length simp: le_imp_less_Suc)

lemma utf8_valid_ascii: "is_ascii s \<Longrightarrow> utf8_valid s"
  by (induction s) (auto simp: is_ascii_def utf8_follow_def byte_in_def)

text \<open>\<open>utf8.RuneCountInString\<close>: a byte that starts no valid encoding counts as one rune.\<close>

function rune_count :: "string \<Rightarrow> nat" where
  "rune_count [] = 0"
| "rune_count (c # s) =
     Suc (rune_count (case utf8_follow c of
        None \<Rightarrow> s
      | Some rs \<Rightarrow> (case strip_ranges rs s of None \<Rightarrow> s | Some r \<Rightarrow> r)))"
  by pat_completeness auto
termination
  by (relation "measure length") (auto dest: strip_ranges_length simp: le_imp_less_Suc split: option.splits)

lemma rune_count_length: "rune_count s \<le> length s"
proof (induction s rule: rune_count.induct)
  case (2 c s)
  have "length (case utf8_follow c of None \<Rightarrow> s | Some rs \<Rightarrow> (case strip_ranges rs s of None \<Rightarrow> s | Some r \<Rightarrow> r)) \<le> length s"
    by (auto split: option.splits dest: strip_ranges_length)
  with 2 show ?case by simp
qed simp

lemma show_nat_inj: "show_nat m = show_nat n \<longleftrightarrow> m = n"
  by (metis of_nat_eq_iff option.inject parse_digits_show)

end
