(* ===== verification/EntitlementCommands.thy ===== *)
theory EntitlementCommands
  imports GoStrings GoTime "HOL-Library.Sublist"
begin

text \<open>
  The command side of \<^verbatim>\<open>entitlements/\<close>: quota adjustments and their batch requests, subscription
  mutations, direct quota edits, access, credential expiry and reconciliation, the recovery window
  setting. A repository is a function parameter: it answers with a result, and a command that refuses
  its input never asks it.
\<close>

section \<open>Quota adjustments\<close>

record quota_adjustment =
  qa_delta_mb :: int
  qa_reason :: string

record quota_scope =
  qs_users :: "nat list"
  qs_subscriptions :: "nat list"
  qs_all_active :: bool

record quota_request =
  qr_scope :: quota_scope
  qr_content :: quota_adjustment
  qr_key :: string
  qr_replay :: bool
  qr_origin :: string
  qr_priority :: int
  qr_max_attempts :: int
  qr_auto_run :: bool

definition max_quota_targets :: nat where "max_quota_targets = 10000"

definition delta_ok :: "int \<Rightarrow> bool" where
  "delta_ok d \<longleftrightarrow> \<not> (d = 0 \<or> d < -1000000000 \<or> d > 1000000000)"

definition adjust_quota :: "int \<Rightarrow> int \<Rightarrow> quota_adjustment \<Rightarrow> (int \<times> int) result" where
  "adjust_quota whole used a =
     (if \<not> delta_ok (qa_delta_mb a) \<or> length (trim_space (qa_reason a)) < 3 \<or> length (qa_reason a) > 255
      then Inl ErrQuotaRequestInvalid
      else
        let delta = mul64 (mul64 (qa_delta_mb a) 1024) 1024 in
        if whole < 0 \<or> used < 0 \<or> (delta > 0 \<and> whole > max64 - delta) \<or> (delta < 0 \<and> whole < - delta)
        then Inl ErrQuotaRequestInvalid
        else
          let nxt = add64 whole delta in
          if nxt < used then Inl ErrQuotaRequestInvalid else Inr (nxt, delta))"

fun quota_ids_from :: "nat list \<Rightarrow> nat list \<Rightarrow> nat list" where
  "quota_ids_from seen [] = []"
| "quota_ids_from seen (i # is) =
     (if i > 0 \<and> i \<notin> set seen then i # quota_ids_from (i # seen) is else quota_ids_from seen is)"

definition quota_ids :: "nat list \<Rightarrow> nat list" where
  "quota_ids ids = quota_ids_from [] ids"

text \<open>\<open>uuid\<close> is the fresh identifier of \<open>uuid.NewString\<close>.\<close>

definition quota_request_create ::
  "(nat \<Rightarrow> quota_request \<Rightarrow> 'r result) \<Rightarrow> string \<Rightarrow> nat \<Rightarrow> quota_request \<Rightarrow> 'r result" where
  "quota_request_create create uuid actor r =
     (if actor = 0 then Inl ErrAccessPermission
      else
        let reason = trim_space (qa_reason (qr_content r)) in
        if \<not> delta_ok (qa_delta_mb (qr_content r)) \<or> length reason < 3 \<or> length reason > 255
        then Inl ErrQuotaRequestInvalid
        else if length (qs_users (qr_scope r)) > max_quota_targets \<or> length (qs_subscriptions (qr_scope r)) > max_quota_targets
        then Inl ErrQuotaRequestInvalid
        else
          let users = quota_ids (qs_users (qr_scope r)); subs = quota_ids (qs_subscriptions (qr_scope r)) in
          if \<not> qs_all_active (qr_scope r) \<and> length users + length subs = 0 then Inl ErrQuotaRequestInvalid
          else
            let attempts = (if qr_max_attempts r = 0 then 3 else qr_max_attempts r) in
            if attempts < 1 \<or> attempts > 10 \<or> qr_priority r < -100 \<or> qr_priority r > 100 then Inl ErrQuotaRequestInvalid
            else
              let trimmed = trim_space (qr_key r); key = (if trimmed = [] then uuid else trimmed) in
              if length key > 128 then Inl ErrQuotaRequestInvalid
              else if length (qr_origin r) > 191 then Inl ErrQuotaRequestInvalid
              else create actor
                (r\<lparr>qr_content := (qr_content r)\<lparr>qa_reason := reason\<rparr>,
                   qr_scope := (qr_scope r)\<lparr>qs_users := users, qs_subscriptions := subs\<rparr>,
                   qr_max_attempts := attempts, qr_key := key\<rparr>))"

section \<open>Execution of a claimed item\<close>

record execution_claim =
  ec_task :: nat
  ec_item :: nat
  ec_token :: string

definition quota_execution_execute :: "(execution_claim \<Rightarrow> unit result) \<Rightarrow> execution_claim \<Rightarrow> unit result" where
  "quota_execution_execute execute claim =
     (if ec_task claim = 0 \<or> ec_item claim = 0 \<or> ec_token claim = [] then Inl (ErrNamed ''ErrLeaseLost'') else execute claim)"

section \<open>Subscription mutations and direct quota edits\<close>

definition subscription_extend :: string where "subscription_extend = ''term.extend''"
definition subscription_cancel :: string where "subscription_cancel = ''status.cancel''"

record mutation_input =
  mi_subscription :: nat
  mi_kind :: string
  mi_days :: int
  mi_reason :: string
  mi_key :: string
  mi_origin :: string

text \<open>An absent repository is \<open>None\<close>.\<close>

definition subscription_mutations_apply ::
  "(nat \<Rightarrow> mutation_input \<Rightarrow> 'r result) option \<Rightarrow> nat \<Rightarrow> mutation_input \<Rightarrow> 'r result" where
  "subscription_mutations_apply repository actor m =
     (if actor = 0 then Inl ErrAccessPermission
      else
        let m = m\<lparr>mi_reason := trim_space (mi_reason m), mi_key := trim_space (mi_key m)\<rparr> in
        if mi_subscription m = 0 \<or> length (mi_reason m) < 3 \<or> length (mi_reason m) > 255 \<or> mi_key m = []
           \<or> length (mi_key m) > 128 \<or> length (mi_origin m) > 191
        then Inl ErrMutationInvalid
        else if mi_kind m = subscription_extend \<and> (mi_days m < 1 \<or> mi_days m > 3650) then Inl ErrMutationInvalid
        else if mi_kind m = subscription_cancel \<and> mi_days m \<noteq> 0 then Inl ErrMutationInvalid
        else if mi_kind m \<noteq> subscription_extend \<and> mi_kind m \<noteq> subscription_cancel then Inl ErrMutationInvalid
        else case repository of None \<Rightarrow> Inl ErrMutationUnavailable | Some apply_mutation \<Rightarrow> apply_mutation actor m)"

record quota_edit =
  qe_subscription :: nat
  qe_total :: "int option"
  qe_used :: "int option"
  qe_reset :: "int option"
  qe_expected_total :: int
  qe_expected_used :: int
  qe_expected_reset :: int
  qe_reason :: string
  qe_key :: string

definition edit_value_bad :: "int option \<Rightarrow> bool" where
  "edit_value_bad v = (case v of None \<Rightarrow> False | Some x \<Rightarrow> x < 0 \<or> x > 9007199254740991)"

definition subscription_quota_update :: "(nat \<Rightarrow> quota_edit \<Rightarrow> unit result) option \<Rightarrow> nat \<Rightarrow> quota_edit \<Rightarrow> unit result" where
  "subscription_quota_update repository actor q =
     (if actor = 0 then Inl (ErrNamed ''ErrAdministrativeRead'')
      else
        let q = q\<lparr>qe_reason := trim_space (qe_reason q), qe_key := trim_space (qe_key q)\<rparr> in
        if qe_subscription q = 0 \<or> length (qe_reason q) < 3 \<or> length (qe_reason q) > 255 \<or> qe_key q = []
           \<or> length (qe_key q) > 128
        then Inl (ErrNamed ''ErrSubscriptionQuotaInvalid'')
        else if qe_total q = None \<and> qe_used q = None \<and> qe_reset q = None then Inl (ErrNamed ''ErrSubscriptionQuotaInvalid'')
        else if list_ex edit_value_bad [qe_total q, qe_used q, qe_reset q] then Inl (ErrNamed ''ErrSubscriptionQuotaInvalid'')
        else case repository of None \<Rightarrow> Inl ErrMutationUnavailable | Some update \<Rightarrow> update actor q)"

section \<open>Access\<close>

definition access_run :: "(nat \<Rightarrow> nat \<Rightarrow> string \<Rightarrow> 'v result) \<Rightarrow> nat \<Rightarrow> nat \<Rightarrow> string \<Rightarrow> 'v result" where
  "access_run execute actor sub operation =
     (if actor = 0 then Inl ErrAccessPermission
      else if sub = 0 then Inl ErrAccessNotFound
      else execute actor sub operation)"

definition access_read where "access_read execute actor sub = access_run execute actor sub ''read''"
definition access_rotate where "access_rotate execute actor sub = access_run execute actor sub ''rotate''"
definition access_revoke where "access_revoke execute actor sub = access_run execute actor sub ''revoke''"

section \<open>Recovery window\<close>

definition maximum_recovery_grace_days :: int where "maximum_recovery_grace_days = 3650"

definition parse_recovery_grace_days :: "string \<Rightarrow> int result" where
  "parse_recovery_grace_days s =
     (case parse_int 32 s of
        None \<Rightarrow> Inl (ErrNamed ''recovery window'')
      | Some days \<Rightarrow>
          if days < 0 \<or> days > maximum_recovery_grace_days
          then Inl (ErrNamed ''recovery window'')
          else Inr (mul64 (mul64 days 24) hour))"

section \<open>Credential expiry and reconciliation\<close>

text \<open>
  Errors as the expiry sees them: the scope budget, the mutable-order budget around a cause, an error
  that unwraps to one other, and an error with no single cause (plain or joined).
\<close>

datatype expiry_error =
    ScopeBudget
  | MutableBudget expiry_error
  | Wraps string expiry_error
  | Opaque string

fun credential_expiry_budget_reason :: "expiry_error \<Rightarrow> string" where
  "credential_expiry_budget_reason ScopeBudget = ''order_identity_budget''"
| "credential_expiry_budget_reason (MutableBudget cause) = ''mutable_order_budget''"
| "credential_expiry_budget_reason (Wraps text cause) = credential_expiry_budget_reason cause"
| "credential_expiry_budget_reason (Opaque text) = []"

definition new_mutable_budget_error :: "expiry_error option \<Rightarrow> expiry_error" where
  "new_mutable_budget_error cause =
     (case cause of None \<Rightarrow> Opaque ''credential expiry unavailable'' | Some e \<Rightarrow> MutableBudget e)"

definition expire_limit :: "int \<Rightarrow> int" where "expire_limit limit = (if limit \<le> 0 then 200 else limit)"

definition expire_due :: "(gotime \<Rightarrow> int \<Rightarrow> 'c result) option \<Rightarrow> gotime \<Rightarrow> int \<Rightarrow> 'c result" where
  "expire_due repository now limit =
     (case repository of None \<Rightarrow> Inl (ErrNamed ''ErrCredentialExpiryUnavailable'') | Some expire \<Rightarrow> expire now (expire_limit limit))"

definition has_due :: "(gotime \<Rightarrow> bool result) option \<Rightarrow> gotime \<Rightarrow> bool result" where
  "has_due repository now =
     (case repository of None \<Rightarrow> Inl (ErrNamed ''ErrCredentialExpiryUnavailable'') | Some due \<Rightarrow> due now)"

definition expire_access_due :: "(gotime \<Rightarrow> int \<Rightarrow> int result) option \<Rightarrow> gotime \<Rightarrow> int \<Rightarrow> int result" where
  "expire_access_due repository now limit =
     (case repository of None \<Rightarrow> Inl (ErrNamed ''ErrCredentialExpiryUnavailable'') | Some expire \<Rightarrow> expire now (expire_limit limit))"

definition reconcile_group :: "(nat \<Rightarrow> gotime \<Rightarrow> unit result) option \<Rightarrow> gotime \<Rightarrow> nat \<Rightarrow> unit result" where
  "reconcile_group repository now group_id =
     (if group_id = 0 then Inl (ErrNamed ''ErrCredentialReconciliationInvalid'')
      else case repository of None \<Rightarrow> Inl (ErrNamed ''ErrCredentialReconciliationUnavailable'') | Some reconcile \<Rightarrow> reconcile group_id now)"

definition reconcile_node :: "(nat \<Rightarrow> gotime \<Rightarrow> unit result) option \<Rightarrow> gotime \<Rightarrow> nat \<Rightarrow> unit result" where
  "reconcile_node repository now node_id =
     (if node_id = 0 then Inl (ErrNamed ''ErrCredentialReconciliationInvalid'')
      else case repository of None \<Rightarrow> Inl (ErrNamed ''ErrCredentialReconciliationUnavailable'') | Some reconcile \<Rightarrow> reconcile node_id now)"

section \<open>Facts\<close>

lemma quota_ids_from_spec:
  "distinct (quota_ids_from seen is) \<and> set (quota_ids_from seen is) = set is - set seen - {0}
    \<and> subseq (quota_ids_from seen is) is"
  by (induction seen "is" rule: quota_ids_from.induct) auto

lemma delta_mb: "delta_ok d \<Longrightarrow> mul64 (mul64 d 1024) 1024 = d * 1048576"
  by (simp add: delta_ok_def mul64_def int64_simps)

section \<open>Properties\<close>

text \<open>
  C40. A quota adjustment is exact and can be undone: an accepted adjustment adds the stated mebibytes
  without overflow, never leaves less quota than was used, and the opposite adjustment with the same
  reason brings the old quota back, provided usage was covered before.
\<close>

theorem adjust_quota_undo:
  assumes "adjust_quota whole used a = Inr (nxt, delta)" "used \<le> whole" "whole \<le> max64"
  shows "nxt = whole + qa_delta_mb a * 1048576 \<and> delta = qa_delta_mb a * 1048576 \<and> used \<le> nxt \<and> nxt \<le> max64
    \<and> adjust_quota nxt used (a\<lparr>qa_delta_mb := - qa_delta_mb a\<rparr>) = Inr (whole, - delta)"
proof -
  let ?d = "qa_delta_mb a"
  from assms(1) have ok: "delta_ok ?d" "\<not> length (trim_space (qa_reason a)) < 3" "\<not> length (qa_reason a) > 255"
    by (auto simp: adjust_quota_def split: if_splits)
  note d = delta_mb[OF ok(1)]
  from assms(1) have g: "0 \<le> whole" "0 \<le> used" "0 < ?d \<Longrightarrow> whole \<le> max64 - ?d * 1048576"
    "?d < 0 \<Longrightarrow> - (?d * 1048576) \<le> whole" "delta = ?d * 1048576" "nxt = add64 whole delta" "used \<le> nxt"
    unfolding adjust_quota_def d Let_def by (auto split: if_splits)
  have nxt: "nxt = whole + ?d * 1048576" "0 \<le> nxt" "nxt \<le> max64"
  proof -
    have "0 \<le> whole + ?d * 1048576 \<and> whole + ?d * 1048576 \<le> max64"
      using g(1,3,4) assms(3) by (cases "0 < ?d") (auto simp: not_less, cases "?d = 0", auto)
    then show "nxt = whole + ?d * 1048576" "0 \<le> nxt" "nxt \<le> max64"
      using add64_exact[of whole "?d * 1048576"] g(5,6) by (auto simp: in64_nonneg)
  qed
  have neg: "delta_ok (- ?d)" using ok(1) by (auto simp: delta_ok_def)
  have "add64 nxt (- ?d * 1048576) = whole"
    using nxt(1) g(1) assms(3) add64_exact[of nxt "- ?d * 1048576"] by (simp add: in64_nonneg)
  then have "adjust_quota nxt used (a\<lparr>qa_delta_mb := - ?d\<rparr>) = Inr (whole, - ?d * 1048576)"
    unfolding adjust_quota_def using neg delta_mb[OF neg] ok(2,3) g(1,2) nxt assms(2,3) by (auto simp: Let_def)
  with g nxt show ?thesis by simp
qed

theorem adjust_quota_undo_witness:
  "adjust_quota 3145728 100 \<lparr>qa_delta_mb = 2, qa_reason = ''goodwill''\<rparr> = Inr (5242880, 2097152)
    \<and> adjust_quota 5242880 100 \<lparr>qa_delta_mb = -2, qa_reason = ''goodwill''\<rparr> = Inr (3145728, -2097152)"
proof -
  have a: "adjust_quota 3145728 100 \<lparr>qa_delta_mb = 2, qa_reason = ''goodwill''\<rparr> = Inr (5242880, 2097152)"
    by code_simp
  from adjust_quota_undo[OF a] a show ?thesis by (simp add: max64_def)
qed

text \<open>
  The target lists of a batch are made canonical: zero and repeated identifiers are dropped, every
  other identifier is kept once and in the given order, and doing it again changes nothing.
\<close>

theorem quota_ids_canonical:
  "distinct (quota_ids ids) \<and> set (quota_ids ids) = set ids - {0} \<and> subseq (quota_ids ids) ids
    \<and> quota_ids (quota_ids ids) = quota_ids ids"
proof -
  have spec: "distinct (quota_ids xs)" "set (quota_ids xs) = set xs - {0}" "subseq (quota_ids xs) xs" for xs
    using quota_ids_from_spec[of "[]" xs] by (auto simp: quota_ids_def)
  have "set (quota_ids (quota_ids ids)) = set (quota_ids ids)" unfolding spec(2) by blast
  then have "length (quota_ids (quota_ids ids)) = length (quota_ids ids)"
    using distinct_card[OF spec(1), of ids] distinct_card[OF spec(1), of "quota_ids ids"] by simp
  then have "quota_ids (quota_ids ids) = quota_ids ids" using spec(3) by (metis subseq_same_length)
  with spec show ?thesis by blast
qed

definition quota_request_ready :: "quota_request \<Rightarrow> bool" where
  "quota_request_ready r \<longleftrightarrow>
     delta_ok (qa_delta_mb (qr_content r))
     \<and> 3 \<le> length (qa_reason (qr_content r)) \<and> length (qa_reason (qr_content r)) \<le> 255
     \<and> distinct (qs_users (qr_scope r)) \<and> 0 \<notin> set (qs_users (qr_scope r))
     \<and> distinct (qs_subscriptions (qr_scope r)) \<and> 0 \<notin> set (qs_subscriptions (qr_scope r))
     \<and> length (qs_users (qr_scope r)) \<le> max_quota_targets \<and> length (qs_subscriptions (qr_scope r)) \<le> max_quota_targets
     \<and> (qs_all_active (qr_scope r) \<or> qs_users (qr_scope r) \<noteq> [] \<or> qs_subscriptions (qr_scope r) \<noteq> [])
     \<and> 1 \<le> qr_max_attempts r \<and> qr_max_attempts r \<le> 10 \<and> -100 \<le> qr_priority r \<and> qr_priority r \<le> 100
     \<and> qr_key r \<noteq> [] \<and> length (qr_key r) \<le> 128 \<and> length (qr_origin r) \<le> 191"

lemma quota_ids_length: "length (quota_ids ids) \<le> length ids"
  using quota_ids_from_spec[of "[]" ids] by (auto simp: quota_ids_def dest: list_emb_length)

text \<open>
  A batch request reaches the store only in normal form: the store is called at most once, with a
  trimmed reason of 3 to 255 bytes, a delta in range, canonical targets or the flag for all, 1 to 10
  attempts, a priority between -100 and 100 and a key of 1 to 128 bytes; everything else is refused.
\<close>

theorem quota_request_gate:
  assumes "uuid \<noteq> []"
  shows "quota_request_create create uuid actor r \<in> {Inl ErrAccessPermission, Inl ErrQuotaRequestInvalid}
    \<or> (\<exists>r'. quota_request_create create uuid actor r = create actor r' \<and> quota_request_ready r' \<and> actor \<noteq> 0
         \<and> set (qs_users (qr_scope r')) = set (qs_users (qr_scope r)) - {0})"
proof -
  let ?reason = "trim_space (qa_reason (qr_content r))" and ?users = "quota_ids (qs_users (qr_scope r))"
    and ?subs = "quota_ids (qs_subscriptions (qr_scope r))"
  let ?attempts = "if qr_max_attempts r = 0 then 3 else qr_max_attempts r"
    and ?key = "if trim_space (qr_key r) = [] then uuid else trim_space (qr_key r)"
  let ?r' = "r\<lparr>qr_content := (qr_content r)\<lparr>qa_reason := ?reason\<rparr>,
      qr_scope := (qr_scope r)\<lparr>qs_users := ?users, qs_subscriptions := ?subs\<rparr>,
      qr_max_attempts := ?attempts, qr_key := ?key\<rparr>"
  let ?made = "quota_request_create create uuid actor r"
  let ?bad = "\<not> delta_ok (qa_delta_mb (qr_content r)) \<or> length ?reason < 3 \<or> length ?reason > 255
    \<or> length (qs_users (qr_scope r)) > max_quota_targets \<or> length (qs_subscriptions (qr_scope r)) > max_quota_targets
    \<or> (\<not> qs_all_active (qr_scope r) \<and> length ?users + length ?subs = 0)
    \<or> ?attempts < 1 \<or> ?attempts > 10 \<or> qr_priority r < -100 \<or> qr_priority r > 100
    \<or> length ?key > 128 \<or> length (qr_origin r) > 191"
  have "?made = (if actor = 0 then Inl ErrAccessPermission else if ?bad then Inl ErrQuotaRequestInvalid else create actor ?r')"
    unfolding quota_request_create_def Let_def by (simp del: quota_ids_from.simps cong: if_cong)
  moreover have "quota_request_ready ?r' \<and> set ?users = set (qs_users (qr_scope r)) - {0}" if "\<not> ?bad"
    using that assms quota_ids_from_spec[of "[]"] quota_ids_length[of "qs_users (qr_scope r)"]
      quota_ids_length[of "qs_subscriptions (qr_scope r)"]
    by (simp add: quota_request_ready_def quota_ids_def not_less)
  ultimately show ?thesis by (cases "actor = 0"; cases ?bad) auto
qed

theorem quota_request_gate_witness:
  "quota_request_create (\<lambda>a r. Inr (qs_users (qr_scope r), qr_key r)) ''k1'' 4
     \<lparr>qr_scope = \<lparr>qs_users = [5, 0, 5, 2], qs_subscriptions = [], qs_all_active = False\<rparr>,
      qr_content = \<lparr>qa_delta_mb = 1, qa_reason = '' extra ''\<rparr>, qr_key = [], qr_replay = False, qr_origin = [],
      qr_priority = 0, qr_max_attempts = 0, qr_auto_run = True\<rparr> = Inr ([5, 2], ''k1'')"
proof -
  let ?r = "\<lparr>qr_scope = \<lparr>qs_users = [5, 0, 5, 2], qs_subscriptions = [], qs_all_active = False\<rparr>,
      qr_content = \<lparr>qa_delta_mb = 1, qa_reason = '' extra ''\<rparr>, qr_key = [], qr_replay = False, qr_origin = [],
      qr_priority = 0, qr_max_attempts = 0, qr_auto_run = True\<rparr>"
  have "quota_request_create (\<lambda>a r. Inr (qs_users (qr_scope r), qr_key r)) ''k1'' 4 ?r = Inr ([5, 2], ''k1'')"
    by code_simp
  with quota_request_gate[of "''k1''" "\<lambda>a r. Inr (qs_users (qr_scope r), qr_key r)" 4 ?r] show ?thesis by simp
qed

text \<open>
  The recovery window setting reads back every day count it admits: the decimal form of a number of
  days up to the maximum is parsed to exactly that many days, and any larger number is refused.
\<close>

theorem recovery_grace_roundtrip:
  "parse_recovery_grace_days (show_nat n) =
     (if n \<le> 3650 then Inr (int n * nanos_per_day) else Inl (ErrNamed ''recovery window''))"
proof (cases "int n \<le> 2 ^ (32 - 1) - 1")
  case True
  have "mul64 (mul64 (int n) 24) hour = int n * nanos_per_day" if "n \<le> 3650"
    using that by (simp add: mul64_def hour_def nanos_per_day_def int64_simps)
  with parse_int_show[OF True] show ?thesis
    by (auto simp: parse_recovery_grace_days_def maximum_recovery_grace_days_def)
next
  case False
  have "parse_int 32 (show_nat n) = None \<or> parse_int 32 (show_nat n) = Some (int n)"
  proof -
    from show_nat_head[of n] obtain c r where "show_nat n = c # r" "c \<noteq> CHR ''-''" "c \<noteq> CHR ''+''" by blast
    with parse_digits_show[of n] show ?thesis by (simp add: parse_int_def del: parse_digits.simps)
  qed
  with False show ?thesis by (auto simp: parse_recovery_grace_days_def maximum_recovery_grace_days_def)
qed

inductive unwraps :: "expiry_error \<Rightarrow> expiry_error \<Rightarrow> bool" where
  here: "unwraps e e"
| inside: "unwraps cause e \<Longrightarrow> unwraps (Wraps text cause) e"

lemma budget_reason_unwraps:
  "unwraps e b \<Longrightarrow> credential_expiry_budget_reason e = credential_expiry_budget_reason b"
  by (induction rule: unwraps.induct) auto

lemma budget_reason_found:
  "credential_expiry_budget_reason e \<noteq> [] \<Longrightarrow> unwraps e ScopeBudget \<or> (\<exists>c. unwraps e (MutableBudget c))"
  by (induction e rule: credential_expiry_budget_reason.induct) (auto intro: unwraps.intros)

text \<open>
  Only an explicit budget failure lets a retirement be deferred: a reason is given exactly when the
  error, unwrapped one cause at a time, is one of the two budgets, and the outermost budget decides.
\<close>

theorem budget_reason_explicit:
  "(credential_expiry_budget_reason e = ''order_identity_budget'' \<longleftrightarrow> unwraps e ScopeBudget)
    \<and> (credential_expiry_budget_reason e = ''mutable_order_budget'' \<longleftrightarrow> (\<exists>c. unwraps e (MutableBudget c)))
    \<and> credential_expiry_budget_reason e \<in> {[], ''order_identity_budget'', ''mutable_order_budget''}"
proof -
  have "credential_expiry_budget_reason e \<in> {[], ''order_identity_budget'', ''mutable_order_budget''}"
    by (induction e rule: credential_expiry_budget_reason.induct) auto
  moreover have "credential_expiry_budget_reason e = ''order_identity_budget''" if "unwraps e ScopeBudget"
    using budget_reason_unwraps[OF that] by simp
  moreover have "credential_expiry_budget_reason e = ''mutable_order_budget''" if "unwraps e (MutableBudget c)" for c
    using budget_reason_unwraps[OF that] by simp
  ultimately show ?thesis using budget_reason_found[of e] by fastforce
qed

end
