(* ===== verification/Orders.thy ===== *)
theory Orders
  imports ValueTypes GoStrings
begin

text \<open>
  The order, purchase and change snapshots of \<^verbatim>\<open>commerce/order.go\<close>, \<^verbatim>\<open>purchase_snapshot.go\<close>,
  \<^verbatim>\<open>change_snapshot.go\<close> with the discount evidence they carry (\<^verbatim>\<open>discount_quote.go\<close>,
  \<^verbatim>\<open>discount_source_snapshot.go\<close>, \<^verbatim>\<open>purchase_discount.go\<close>).
\<close>

record order =
  or_value_snapshot :: string
  or_purchase_snapshot :: string
  or_creation_key :: "string option"
  or_creation_fingerprint :: string
  or_sub_ended :: "gotime option"
  or_sub_end_reason :: string
  or_sub_final_total :: int
  or_sub_final_used :: int
  or_change :: string
  or_assigned_by :: nat
  or_assignment_note :: string
  or_assignment_fingerprint :: string
  or_id :: nat
  or_user :: nat
  or_subscription :: nat
  or_plan :: nat
  or_sku :: nat
  or_trade_no :: string
  or_type :: string
  or_target :: "nat option"
  or_amount :: int
  or_payable :: int
  or_paid :: int
  or_refund :: int
  or_discount :: int
  or_currency :: string
  or_channel :: string
  or_provider_trade_no :: "string option"
  or_status :: string
  or_plan_name :: string
  or_sku_name :: string
  or_unit :: string
  or_value :: int
  or_effect :: string
  or_traffic :: int
  or_device :: int
  or_speed :: int
  or_raw_callback :: string
  or_paid_at :: "gotime option"
  or_canceled_at :: "gotime option"
  or_fulfilled_at :: "gotime option"
  or_refunded_at :: "gotime option"
  or_failure :: string
  or_created :: gotime
  or_updated :: gotime

record change_snapshot =
  cs_version :: int
  cs_full_term :: bool
  cs_epoch :: nat
  cs_residual :: int
  cs_applied :: int
  cs_surplus :: int
  cs_fingerprint :: string
  cs_sources :: amounts
  cs_plan :: nat
  cs_sku :: nat
  cs_end :: gotime
  cs_cycle_used :: int
  cs_reset_quota :: int
  cs_source_order :: nat
  cs_quota_event :: nat
  cs_quoted :: gotime
  cs_credit :: int

record discount_agreement =
  da_id :: string
  da_version :: string
  da_scope :: string
  da_hash :: string
  da_terms :: string

record discount_context =
  dq_version :: int
  dq_buyer :: nat
  dq_operation :: string
  dq_plan :: nat
  dq_sku :: nat
  dq_target :: nat
  dq_source :: nat
  dq_base :: int
  dq_currency :: string
  dq_unit :: string
  dq_value :: int
  dq_fingerprint :: string
  dq_selection :: string
  dq_agreement :: "discount_agreement option"

record discount_offer =
  do_redemption :: string
  do_status :: string
  do_fingerprint :: string
  do_currency :: string
  do_discount :: int
  do_agreement :: "discount_agreement option"
  do_expires :: gotime
  do_message :: string

record discount_provider =
  dp_plugin :: string
  dp_signer :: string
  dp_package :: string
  dp_generation :: nat
  dp_config :: nat

record discount_quote =
  qt_provider :: discount_provider
  qt_offer :: discount_offer

record discount_source =
  ds_version :: int
  ds_subscription :: nat
  ds_root :: nat
  ds_base :: nat
  ds_agreement_order :: nat
  ds_fingerprint :: string
  ds_epoch :: nat
  ds_provider :: string
  ds_signer :: string
  ds_agreement :: discount_agreement
  ds_selection :: string

record purchase_discount =
  pu_version :: int
  pu_context :: discount_context
  pu_quote :: discount_quote
  pu_final :: int
  pu_accepted :: gotime
  pu_source :: "discount_source option"

record renewal_target =
  rt_start :: gotime
  rt_end :: gotime
  rt_sku :: nat
  rt_reset_quota :: int
  rt_policy :: int
  rt_calc_mode :: int
  rt_device :: int
  rt_speed :: int
  rt_family :: int

record purchase_snapshot =
  ps_discount :: "purchase_discount option"
  ps_model :: string
  ps_version :: int
  ps_base :: int
  ps_currency :: string
  ps_unit :: string
  ps_value :: int
  ps_effect :: string
  ps_renewable :: bool
  ps_policy :: int
  ps_calc_mode :: int
  ps_family :: int
  ps_renewal_target :: "renewal_target option"

end
