(* ===== verification/Discounts.thy ===== *)
theory Discounts
  imports Orders
begin

text \<open>
  \<^verbatim>\<open>commerce/discount_quote.go\<close>, \<^verbatim>\<open>purchase_discount.go\<close>, \<^verbatim>\<open>recurring_discount.go\<close>,
  \<^verbatim>\<open>operation_discount.go\<close> and \<^verbatim>\<open>discount_source_snapshot.go\<close>: what a plugin's discount must prove
  before it lowers the price of an order.
\<close>

section \<open>Encodings\<close>

text \<open>
  The values that are marshalled. \<open>cd_json\<close> is \<open>json.Marshal\<close>, \<open>cd_sha\<close> the hexadecimal SHA-256 of
  a text, \<open>cd_compact\<close> is \<open>json.Compact\<close> on the texts \<open>json.Valid\<close> accepts, \<open>cd_change\<close> and
  \<open>cd_purchase\<close> decode exactly one JSON value with no unknown field, \<open>cd_upper\<close> is the Unicode part of
  \<open>strings.ToUpper\<close>.
\<close>

record redemption_binding =
  rb_version :: int
  rb_key :: string
  rb_order :: nat
  rb_buyer :: nat
  rb_fingerprint :: string
  rb_provider :: discount_provider
  rb_agreement :: string
  rb_agreement_version :: string
  rb_terms_hash :: string
  rb_base :: int
  rb_discount :: int
  rb_payable :: int
  rb_currency :: string

record order_facts =
  of_plan_name :: string
  of_sku_name :: string
  of_effect :: string
  of_traffic :: int
  of_device :: int
  of_speed :: int

datatype discount_json =
    ContextJson discount_context
  | OfferJson discount_offer
  | AgreementJson "discount_agreement option"
  | BindingJson redemption_binding
  | PurchaseFacts discount_context purchase_snapshot order_facts
  | RecurringFacts discount_context purchase_snapshot "discount_source option" order_facts
  | OperationFacts discount_context purchase_snapshot "change_snapshot option" order_facts

record discount_codec =
  cd_json :: "discount_json \<Rightarrow> string result"
  cd_sha :: "string \<Rightarrow> string"
  cd_compact :: "string \<Rightarrow> string option"
  cd_change :: "string \<Rightarrow> change_snapshot option"
  cd_purchase :: "string \<Rightarrow> purchase_snapshot option"
  cd_upper :: "string \<Rightarrow> string"

text \<open>\<open>a, _ := json.Marshal(v); string(a)\<close>: the empty text when marshalling fails.\<close>

definition json_text :: "discount_codec \<Rightarrow> discount_json \<Rightarrow> string" where
  "json_text cd v = (case cd_json cd v of Inl e \<Rightarrow> [] | Inr t \<Rightarrow> t)"

definition facts_of :: "order \<Rightarrow> order_facts" where
  "facts_of r = \<lparr>of_plan_name = or_plan_name r, of_sku_name = or_sku_name r, of_effect = or_effect r,
     of_traffic = or_traffic r, of_device = or_device r, of_speed = or_speed r\<rparr>"

section \<open>Quotes\<close>

definition max_discount_quote_bytes :: nat where "max_discount_quote_bytes = 16384"
definition max_discount_terms_bytes :: nat where "max_discount_terms_bytes = 8192"
definition max_purchase_snapshot_bytes :: nat where "max_purchase_snapshot_bytes = 61440"
definition operation_discount_scope :: string where "operation_discount_scope = ''order_only''"
definition discount_redemption_guarantee :: string where
  "discount_redemption_guarantee = ''exclusive_until_core_finalization_v1''"

definition discount_terms_hash :: "discount_codec \<Rightarrow> string \<Rightarrow> string result" where
  "discount_terms_hash cd terms =
     (if terms = [] \<or> length terms > max_discount_terms_bytes \<or> \<not> utf8_valid terms then Inl ErrDiscountQuoteInvalid
      else case cd_compact cd terms of
        None \<Rightarrow> Inl ErrDiscountQuoteInvalid
      | Some compact \<Rightarrow>
          if trim_space terms = ''null'' then Inl ErrDiscountQuoteInvalid else Inr (cd_sha cd compact))"

definition validate_discount_agreement :: "discount_codec \<Rightarrow> discount_agreement option \<Rightarrow> unit result" where
  "validate_discount_agreement cd agreement =
     (case agreement of
        None \<Rightarrow> Inl ErrDiscountQuoteInvalid
      | Some a \<Rightarrow>
          if trim_space (da_id a) = [] \<or> length (da_id a) > 128 \<or> trim_space (da_version a) = [] \<or> length (da_version a) > 64
             \<or> (da_scope a \<noteq> ''initial_only'' \<and> da_scope a \<noteq> ''recurring'' \<and> da_scope a \<noteq> operation_discount_scope)
             \<or> \<not> hash_pattern (da_hash a)
          then Inl ErrDiscountQuoteInvalid
          else case discount_terms_hash cd (da_terms a) of
            Inl e \<Rightarrow> Inl ErrDiscountQuoteInvalid
          | Inr hash \<Rightarrow> if hash \<noteq> da_hash a then Inl ErrDiscountQuoteInvalid else Inr ())"

text \<open>The size of a marshalled value against the limit.\<close>

definition json_fits :: "discount_codec \<Rightarrow> discount_json \<Rightarrow> bool" where
  "json_fits cd v = (case cd_json cd v of Inl e \<Rightarrow> False | Inr raw \<Rightarrow> length raw \<le> max_discount_quote_bytes)"

definition context_operation_ok :: "discount_context \<Rightarrow> bool" where
  "context_operation_ok c =
     (if dq_operation c = ''new'' then dq_target c = 0
      else dq_operation c \<in> {''renewal'', ''upgrade'', ''traffic_reset'', ''traffic_pack''} \<and> dq_target c \<noteq> 0)"

definition validate_discount_quote_context :: "discount_codec \<Rightarrow> discount_context \<Rightarrow> unit result" where
  "validate_discount_quote_context cd c =
     (if dq_version c \<noteq> 1 \<or> dq_buyer c = 0 \<or> dq_plan c = 0 \<or> dq_sku c = 0 \<or> dq_base c < 0
         \<or> length (dq_currency c) \<noteq> 3 \<or> dq_currency c \<noteq> to_upper (cd_upper cd) (dq_currency c)
         \<or> \<not> hash_pattern (dq_fingerprint c) \<or> length (dq_selection c) > 256 \<or> dq_value c \<le> 0
      then Inl ErrDiscountQuoteInvalid
      else if \<not> all_capitals (dq_currency c) then Inl ErrDiscountQuoteInvalid
      else if \<not> context_operation_ok c then Inl ErrDiscountQuoteInvalid
      else if dq_unit c \<notin> {''day'', ''week'', ''month'', ''year'', ''once''} then Inl ErrDiscountQuoteInvalid
      else
        try_bind (case dq_agreement c of None \<Rightarrow> Inr () | Some a \<Rightarrow> validate_discount_agreement cd (Some a)) (\<lambda>_.
          if \<not> json_fits cd (ContextJson c) then Inl ErrDiscountQuoteInvalid else Inr ()))"

definition same_agreement :: "discount_agreement \<Rightarrow> discount_agreement \<Rightarrow> bool" where
  "same_agreement a b \<longleftrightarrow> da_id a = da_id b \<and> da_version a = da_version b \<and> da_scope a = da_scope b \<and> da_hash a = da_hash b"

text \<open>The part of \<open>ValidateDiscountOffer\<close> for an offer that can lower the price.\<close>

definition validate_priced_offer :: "discount_codec \<Rightarrow> discount_context \<Rightarrow> discount_offer \<Rightarrow> gotime \<Rightarrow> unit result" where
  "validate_priced_offer cd c offer now =
     (if is_zero (do_expires offer) \<or> \<not> now < do_expires offer then Inl ErrDiscountQuoteInvalid
      else case do_agreement offer of
        None \<Rightarrow> Inl ErrDiscountQuoteInvalid
      | Some a \<Rightarrow>
          if validate_discount_agreement cd (Some a) \<noteq> Inr () then Inl ErrDiscountQuoteInvalid
          else if da_scope a = operation_discount_scope
              \<and> (dq_operation c \<noteq> ''upgrade'' \<and> dq_operation c \<noteq> ''traffic_reset'' \<and> dq_operation c \<noteq> ''traffic_pack'')
          then Inl ErrDiscountQuoteInvalid
          else if da_scope a = ''initial_only'' \<and> dq_operation c \<noteq> ''new'' then Inl ErrDiscountQuoteInvalid
          else if (case dq_agreement c of None \<Rightarrow> False | Some b \<Rightarrow> \<not> same_agreement b a) \<and> do_status offer \<noteq> ''requires_confirmation''
          then Inl ErrDiscountQuoteInvalid
          else Inr ())"

definition validate_discount_offer :: "discount_codec \<Rightarrow> discount_context \<Rightarrow> discount_offer \<Rightarrow> gotime \<Rightarrow> unit result" where
  "validate_discount_offer cd c offer now =
     try_bind (validate_discount_quote_context cd c) (\<lambda>_.
     if do_redemption offer \<noteq> [] \<and> do_redemption offer \<noteq> discount_redemption_guarantee then Inl ErrDiscountRedemptionUnsupported
     else if do_fingerprint offer \<noteq> dq_fingerprint c \<or> do_currency offer \<noteq> dq_currency c \<or> do_discount offer < 0
             \<or> do_discount offer > dq_base c \<or> length (do_message offer) > 512
     then Inl ErrDiscountQuoteInvalid
     else
       try_bind
         (if do_status offer = ''available'' \<or> do_status offer = ''requires_confirmation''
          then validate_priced_offer cd c offer now
          else if do_status offer = ''unavailable'' then
            (if do_discount offer \<noteq> 0 \<or> do_agreement offer \<noteq> None \<or> trim_space (do_message offer) = []
             then Inl ErrDiscountQuoteInvalid else Inr ())
          else Inl ErrDiscountQuoteInvalid) (\<lambda>_.
         if \<not> json_fits cd (OfferJson offer) then Inl ErrDiscountQuoteInvalid else Inr ()))"

definition provider_ok :: "discount_provider \<Rightarrow> bool" where
  "provider_ok p \<longleftrightarrow> \<not> (dp_plugin p = [] \<or> length (dp_plugin p) > 160 \<or> \<not> hash_pattern (dp_signer p)
     \<or> \<not> hash_pattern (dp_package p) \<or> dp_generation p = 0 \<or> dp_config p = 0)"

definition validate_discount_quote :: "discount_codec \<Rightarrow> discount_context \<Rightarrow> discount_quote \<Rightarrow> gotime \<Rightarrow> unit result" where
  "validate_discount_quote cd c q now =
     (if \<not> provider_ok (qt_provider q) then Inl ErrDiscountQuoteInvalid
      else validate_discount_offer cd c (qt_offer q) now)"

definition validate_discount_source :: "discount_codec \<Rightarrow> discount_source option \<Rightarrow> unit result" where
  "validate_discount_source cd source =
     (case source of
        None \<Rightarrow> Inl ErrDiscountQuoteInvalid
      | Some s \<Rightarrow>
          if ds_version s \<noteq> 1 \<or> ds_subscription s = 0 \<or> ds_root s = 0 \<or> ds_base s \<noteq> ds_root s \<or> ds_agreement_order s < ds_root s
             \<or> ds_provider s = [] \<or> length (ds_provider s) > 160 \<or> \<not> hash_pattern (ds_signer s) \<or> \<not> hash_pattern (ds_fingerprint s)
             \<or> length (ds_selection s) > 256 \<or> da_scope (ds_agreement s) \<noteq> ''recurring''
             \<or> validate_discount_agreement cd (Some (ds_agreement s)) \<noteq> Inr ()
          then Inl ErrDiscountQuoteInvalid
          else Inr ())"

section \<open>Contexts of an order\<close>

definition policy_matches :: "order \<Rightarrow> purchase_snapshot \<Rightarrow> bool" where
  "policy_matches r p \<longleftrightarrow> ps_version p = 1 \<and> ps_base p = or_amount r \<and> ps_currency p = or_currency r
     \<and> ps_unit p = or_unit r \<and> ps_value p = or_value r \<and> ps_effect p = or_effect r"

definition order_context :: "order \<Rightarrow> string \<Rightarrow> discount_context" where
  "order_context r selection =
     \<lparr>dq_version = 1, dq_buyer = or_user r, dq_operation = or_type r, dq_plan = or_plan r, dq_sku = or_sku r,
      dq_target = 0, dq_source = 0, dq_base = or_amount r, dq_currency = or_currency r, dq_unit = or_unit r,
      dq_value = or_value r, dq_fingerprint = [], dq_selection = selection, dq_agreement = None\<rparr>"

text \<open>Hashing the facts into the context and validating the result, the common tail of the three.\<close>

definition seal_context :: "discount_codec \<Rightarrow> discount_context \<Rightarrow> discount_json \<Rightarrow> discount_context result" where
  "seal_context cd c facts =
     (case cd_json cd facts of
        Inl e \<Rightarrow> Inl ErrDiscountQuoteInvalid
      | Inr raw \<Rightarrow>
          let c = c\<lparr>dq_fingerprint := cd_sha cd raw\<rparr> in
          try_bind (validate_discount_quote_context cd c) (\<lambda>_. Inr c))"

definition new_purchase_discount_context :: "discount_codec \<Rightarrow> order \<Rightarrow> purchase_snapshot \<Rightarrow> string \<Rightarrow> discount_context result" where
  "new_purchase_discount_context cd r p selection =
     (if or_type r \<noteq> ''new'' \<or> or_target r \<noteq> None \<or> \<not> policy_matches r p then Inl ErrDiscountQuoteInvalid
      else
        let c = order_context r selection in
        seal_context cd c (PurchaseFacts c (p\<lparr>ps_discount := None\<rparr>) (facts_of r)))"

definition new_recurring_discount_context :: "discount_codec \<Rightarrow> order \<Rightarrow> purchase_snapshot \<Rightarrow> string \<Rightarrow> discount_source option \<Rightarrow>
    discount_context result" where
  "new_recurring_discount_context cd r p selection source =
     (if \<not> policy_matches r p then Inl ErrDiscountQuoteInvalid
      else if or_type r = ''new'' then
        (if or_target r \<noteq> None \<or> source \<noteq> None then Inl ErrDiscountQuoteInvalid
         else new_purchase_discount_context cd r p selection)
      else if or_type r = ''renewal'' then
        (case source of
           None \<Rightarrow> Inl ErrDiscountQuoteInvalid
         | Some s \<Rightarrow>
             if validate_discount_source cd source \<noteq> Inr () \<or> or_target r \<noteq> Some (ds_subscription s)
                \<or> ps_renewal_target p = None \<or> selection \<noteq> ds_selection s
             then Inl ErrDiscountQuoteInvalid
             else
               let c = (order_context r selection)\<lparr>dq_target := ds_subscription s, dq_source := ds_base s,
                          dq_agreement := Some (ds_agreement s)\<rparr>
               in seal_context cd c (RecurringFacts c (p\<lparr>ps_discount := None\<rparr>) source (facts_of r)))
      else Inl ErrDiscountQuoteInvalid)"

definition change_target_ok :: "order \<Rightarrow> change_snapshot \<Rightarrow> bool" where
  "change_target_ok r v =
     (if or_type r = ''upgrade'' then
        \<not> (cs_version v \<noteq> 2 \<or> \<not> cs_full_term v \<or> cs_residual v < 0 \<or> cs_applied v \<noteq> min (cs_residual v) (or_payable r)
           \<or> cs_surplus v \<noteq> sub64 (cs_residual v) (cs_applied v) \<or> cs_credit v \<noteq> cs_applied v)
      else if or_type r = ''traffic_reset'' then \<not> (cs_version v \<noteq> 0 \<or> cs_full_term v \<or> cs_credit v \<noteq> 0)
      else False)"

definition operation_discount_target :: "discount_codec \<Rightarrow> order \<Rightarrow> change_snapshot option result" where
  "operation_discount_target cd r =
     (if or_type r = ''traffic_pack'' \<and> or_change r = [] then Inr None
      else if or_change r = [] \<or> length (or_change r) > 262144 then Inl ErrDiscountQuoteInvalid
      else case cd_change cd (or_change r) of
        None \<Rightarrow> Inl ErrDiscountQuoteInvalid
      | Some v \<Rightarrow>
          if cs_plan v = 0 \<or> is_zero (cs_end v) \<or> is_zero (cs_quoted v) then Inl ErrDiscountQuoteInvalid
          else if \<not> change_target_ok r v then Inl ErrDiscountQuoteInvalid
          else Inr (Some (v\<lparr>cs_quoted := 0, cs_fingerprint := [], cs_applied := 0, cs_surplus := 0, cs_credit := 0\<rparr>)))"

definition new_operation_discount_context :: "discount_codec \<Rightarrow> order \<Rightarrow> purchase_snapshot \<Rightarrow> string \<Rightarrow> discount_context result" where
  "new_operation_discount_context cd r p selection =
     (case or_target r of
        None \<Rightarrow> Inl ErrDiscountQuoteInvalid
      | Some target_id \<Rightarrow>
          if (or_type r \<noteq> ''upgrade'' \<and> or_type r \<noteq> ''traffic_reset'' \<and> or_type r \<noteq> ''traffic_pack'') \<or> target_id = 0
             \<or> or_amount r < 0 \<or> or_payable r < 0 \<or> \<not> policy_matches r p
          then Inl ErrDiscountQuoteInvalid
          else try_bind (operation_discount_target cd r) (\<lambda>target.
            let c = (order_context r selection)\<lparr>dq_target := target_id,
                       dq_source := (case target of None \<Rightarrow> 0 | Some v \<Rightarrow> cs_source_order v)\<rparr>
            in seal_context cd c (OperationFacts c (p\<lparr>ps_discount := None\<rparr>) target (facts_of r))))"

section \<open>Accepted discounts\<close>

text \<open>What the three kinds of acceptance check of the saved evidence and of the money.\<close>

definition saved_ok :: "discount_codec \<Rightarrow> purchase_discount \<Rightarrow> int \<Rightarrow> string \<Rightarrow> bool" where
  "saved_ok cd saved version scope \<longleftrightarrow>
     pu_version saved = version \<and> \<not> is_zero (pu_accepted saved) \<and> do_status (qt_offer (pu_quote saved)) = ''available''
     \<and> (case do_agreement (qt_offer (pu_quote saved)) of None \<Rightarrow> False | Some a \<Rightarrow> da_scope a = scope)
     \<and> validate_discount_quote cd (pu_context saved) (pu_quote saved) (pu_accepted saved) = Inr ()"

definition saved_price_ok :: "discount_codec \<Rightarrow> order \<Rightarrow> purchase_snapshot \<Rightarrow> purchase_discount \<Rightarrow> discount_context \<Rightarrow> bool" where
  "saved_price_ok cd r p saved current \<longleftrightarrow>
     json_text cd (ContextJson current) = json_text cd (ContextJson (pu_context saved))
     \<and> do_discount (qt_offer (pu_quote saved)) = or_discount r
     \<and> pu_final saved = or_payable r
     \<and> pu_final saved = sub64 (ps_base p) (do_discount (qt_offer (pu_quote saved)))"

definition validate_operation_purchase_discount :: "discount_codec \<Rightarrow> order \<Rightarrow> purchase_snapshot \<Rightarrow> unit result" where
  "validate_operation_purchase_discount cd r p =
     (case ps_discount p of
        None \<Rightarrow> Inl ErrDiscountQuoteInvalid
      | Some saved \<Rightarrow>
          if pu_source saved \<noteq> None \<or> \<not> saved_ok cd saved 3 operation_discount_scope then Inl ErrDiscountQuoteInvalid
          else try_bind (new_operation_discount_context cd r p (dq_selection (pu_context saved))) (\<lambda>current.
            if \<not> saved_price_ok cd r p saved current then Inl ErrDiscountQuoteInvalid else Inr ()))"

definition recurring_source_ok :: "discount_codec \<Rightarrow> purchase_discount \<Rightarrow> bool" where
  "recurring_source_ok cd saved =
     (case pu_source saved of
        None \<Rightarrow> True
      | Some s \<Rightarrow>
          json_text cd (AgreementJson (do_agreement (qt_offer (pu_quote saved)))) = json_text cd (AgreementJson (Some (ds_agreement s)))
          \<and> dp_plugin (qt_provider (pu_quote saved)) = ds_provider s
          \<and> dp_signer (qt_provider (pu_quote saved)) = ds_signer s)"

definition validate_recurring_purchase_discount :: "discount_codec \<Rightarrow> order \<Rightarrow> purchase_snapshot \<Rightarrow> unit result" where
  "validate_recurring_purchase_discount cd r p =
     (case ps_discount p of
        None \<Rightarrow> Inl ErrDiscountQuoteInvalid
      | Some saved \<Rightarrow>
          if \<not> saved_ok cd saved 2 ''recurring'' then Inl ErrDiscountQuoteInvalid
          else try_bind (new_recurring_discount_context cd r p (dq_selection (pu_context saved)) (pu_source saved)) (\<lambda>current.
            if \<not> saved_price_ok cd r p saved current then Inl ErrDiscountQuoteInvalid
            else if \<not> recurring_source_ok cd saved then Inl ErrDiscountQuoteInvalid
            else Inr ()))"

definition validate_purchase_discount :: "discount_codec \<Rightarrow> order \<Rightarrow> purchase_snapshot \<Rightarrow> unit result" where
  "validate_purchase_discount cd r p =
     (case ps_discount p of
        None \<Rightarrow> Inl ErrDiscountQuoteInvalid
      | Some saved \<Rightarrow>
          if pu_version saved = 3 then validate_operation_purchase_discount cd r p
          else if pu_version saved = 2 then validate_recurring_purchase_discount cd r p
          else if pu_source saved \<noteq> None \<or> \<not> saved_ok cd saved 1 ''initial_only'' then Inl ErrDiscountQuoteInvalid
          else try_bind (new_purchase_discount_context cd r p (dq_selection (pu_context saved))) (\<lambda>current.
            if \<not> saved_price_ok cd r p saved current then Inl ErrDiscountQuoteInvalid else Inr ()))"

definition purchase_quote_policy :: "purchase_snapshot \<Rightarrow> purchase_snapshot" where
  "purchase_quote_policy p =
     (case ps_discount p of
        None \<Rightarrow> p
      | Some saved \<Rightarrow>
          p\<lparr>ps_discount := Some (saved\<lparr>pu_accepted := 0,
               pu_quote := (pu_quote saved)\<lparr>qt_offer := (qt_offer (pu_quote saved))\<lparr>do_expires := 0, do_message := []\<rparr>\<rparr>\<rparr>)\<rparr>)"

definition decode_purchase_snapshot :: "discount_codec \<Rightarrow> string \<Rightarrow> purchase_snapshot result" where
  "decode_purchase_snapshot cd raw =
     (if raw = [] \<or> length raw > max_purchase_snapshot_bytes \<or> \<not> utf8_valid raw then Inl ErrDiscountQuoteInvalid
      else case cd_purchase cd raw of
        None \<Rightarrow> Inl ErrDiscountQuoteInvalid
      | Some out \<Rightarrow> if ps_version out \<noteq> 1 then Inl ErrDiscountQuoteInvalid else Inr out)"

section \<open>What a validated quote proves\<close>

lemma json_fits_text: "json_fits cd v \<Longrightarrow> cd_json cd v = Inr (json_text cd v)"
  by (auto simp: json_fits_def json_text_def split: sum.splits)

lemma valid_context:
  assumes "validate_discount_quote_context cd c = Inr ()"
  shows "0 \<le> dq_base c" "all_capitals (dq_currency c)" "length (dq_currency c) = 3" "hash_pattern (dq_fingerprint c)"
    "context_operation_ok c" "json_fits cd (ContextJson c)"
  using assms by (auto simp: validate_discount_quote_context_def)

lemma valid_priced_offer:
  assumes "validate_priced_offer cd c offer now = Inr ()"
  obtains a where "do_agreement offer = Some a" "now < do_expires offer" "validate_discount_agreement cd (Some a) = Inr ()"
    "da_scope a = operation_discount_scope \<Longrightarrow> dq_operation c \<in> {''upgrade'', ''traffic_reset'', ''traffic_pack''}"
    "da_scope a = ''initial_only'' \<Longrightarrow> dq_operation c = ''new''"
    "\<And>b. dq_agreement c = Some b \<Longrightarrow> \<not> same_agreement b a \<Longrightarrow> do_status offer = ''requires_confirmation''"
  using assms by (auto simp: validate_priced_offer_def split: option.splits)

lemma valid_agreement_hash:
  "validate_discount_agreement cd (Some a) = Inr () \<Longrightarrow> discount_terms_hash cd (da_terms a) = Inr (da_hash a)"
  by (auto simp: validate_discount_agreement_def)

lemma valid_offer:
  assumes "validate_discount_offer cd c offer now = Inr ()"
  shows "validate_discount_quote_context cd c = Inr ()" "do_fingerprint offer = dq_fingerprint c"
    "do_currency offer = dq_currency c" "0 \<le> do_discount offer" "do_discount offer \<le> dq_base c"
    "do_redemption offer \<in> {[], discount_redemption_guarantee}"
    "do_status offer \<in> {''available'', ''requires_confirmation''} \<and> validate_priced_offer cd c offer now = Inr ()
      \<or> do_status offer = ''unavailable'' \<and> do_discount offer = 0 \<and> do_agreement offer = None"
  using assms by (auto simp: validate_discount_offer_def split: if_splits)

lemma valid_quote_offer:
  "validate_discount_quote cd c q now = Inr () \<Longrightarrow> provider_ok (qt_provider q) \<and> validate_discount_offer cd c (qt_offer q) now = Inr ()"
  by (auto simp: validate_discount_quote_def)

lemma sealed_context:
  assumes "seal_context cd c facts = Inr c'"
  shows "dq_base c' = dq_base c" "dq_target c' = dq_target c" "json_fits cd (ContextJson c')"
    "\<exists>raw. cd_json cd facts = Inr raw \<and> dq_fingerprint c' = cd_sha cd raw"
  using assms by (auto simp: seal_context_def Let_def dest: valid_context)

lemma purchase_context_base:
  assumes "new_purchase_discount_context cd r p selection = Inr c"
  shows "dq_base c = or_amount r \<and> json_fits cd (ContextJson c) \<and> ps_base p = or_amount r \<and> or_type r = ''new''"
proof -
  from assms obtain facts where "seal_context cd (order_context r selection) facts = Inr c" "policy_matches r p" "or_type r = ''new''"
    by (auto simp: new_purchase_discount_context_def Let_def)
  with sealed_context[OF this(1)] show ?thesis by (simp add: order_context_def policy_matches_def)
qed

lemma recurring_context_base:
  assumes "new_recurring_discount_context cd r p selection source = Inr c"
  shows "dq_base c = or_amount r \<and> json_fits cd (ContextJson c) \<and> ps_base p = or_amount r \<and> or_type r \<in> {''new'', ''renewal''}"
proof (cases "or_type r = ''new''")
  case True
  with assms have "new_purchase_discount_context cd r p selection = Inr c"
    by (auto simp: new_recurring_discount_context_def)
  from purchase_context_base[OF this] show ?thesis by simp
next
  case False
  with assms obtain k l m facts where
    "seal_context cd ((order_context r selection)\<lparr>dq_target := k, dq_source := l, dq_agreement := m\<rparr>) facts = Inr c"
    "policy_matches r p" "or_type r = ''renewal''"
    by (auto simp: new_recurring_discount_context_def Let_def split: option.splits if_splits)
  with sealed_context[OF this(1)] show ?thesis by (auto simp: order_context_def policy_matches_def)
qed

lemma operation_context_base:
  assumes "new_operation_discount_context cd r p selection = Inr c"
  shows "dq_base c = or_amount r \<and> json_fits cd (ContextJson c) \<and> ps_base p = or_amount r
    \<and> or_type r \<in> {''upgrade'', ''traffic_reset'', ''traffic_pack''} \<and> or_target r = Some (dq_target c)"
proof -
  from assms obtain k l facts where
    "seal_context cd ((order_context r selection)\<lparr>dq_target := k, dq_source := l\<rparr>) facts = Inr c"
    "policy_matches r p" "or_type r \<in> {''upgrade'', ''traffic_reset'', ''traffic_pack''}" "or_target r = Some k"
    by (auto simp: new_operation_discount_context_def Let_def)
  with sealed_context[OF this(1)] show ?thesis by (auto simp: order_context_def policy_matches_def)
qed

text \<open>
  Equal texts of two contexts come from equal prices: \<open>encoding/json\<close> writes integers exactly.
\<close>

definition exact_prices :: "discount_codec \<Rightarrow> bool" where
  "exact_prices cd \<longleftrightarrow> (\<forall>c d t. cd_json cd (ContextJson c) = Inr t \<longrightarrow> cd_json cd (ContextJson d) = Inr t \<longrightarrow> dq_base c = dq_base d)"

lemma saved_money:
  assumes "saved_ok cd saved v scope" "saved_price_ok cd r p saved current" "dq_base current = or_amount r"
    "json_fits cd (ContextJson current)" "ps_base p = or_amount r" "exact_prices cd" "or_amount r \<le> max64"
  shows "0 \<le> or_discount r" "or_discount r \<le> or_amount r" "or_payable r = or_amount r - or_discount r"
    "pu_accepted saved < do_expires (qt_offer (pu_quote saved))" "do_status (qt_offer (pu_quote saved)) = ''available''"
    "pu_version saved = v" "\<exists>a. do_agreement (qt_offer (pu_quote saved)) = Some a \<and> da_scope a = scope"
proof -
  let ?offer = "qt_offer (pu_quote saved)"
  from assms(1) have q: "validate_discount_quote cd (pu_context saved) (pu_quote saved) (pu_accepted saved) = Inr ()"
    and st: "do_status ?offer = ''available''" "pu_version saved = v"
    "\<exists>a. do_agreement ?offer = Some a \<and> da_scope a = scope"
    by (auto simp: saved_ok_def split: option.splits)
  note o = valid_offer[OF conjunct2[OF valid_quote_offer[OF q]]]
  have "cd_json cd (ContextJson (pu_context saved)) = Inr (json_text cd (ContextJson (pu_context saved)))"
    using valid_context(6)[OF o(1)] by (rule json_fits_text)
  moreover have "cd_json cd (ContextJson current) = Inr (json_text cd (ContextJson current))"
    using assms(4) by (rule json_fits_text)
  ultimately have base: "dq_base (pu_context saved) = or_amount r"
    using assms(2,3,6) unfolding exact_prices_def saved_price_ok_def by metis
  have d: "0 \<le> or_discount r" "or_discount r \<le> or_amount r"
    using o(4,5) base assms(2) by (auto simp: saved_price_ok_def)
  then show "0 \<le> or_discount r" "or_discount r \<le> or_amount r" by auto
  show "or_payable r = or_amount r - or_discount r"
    using assms(2,5,7) d sub64_nonneg[of "or_discount r" "or_amount r"] by (auto simp: saved_price_ok_def)
  from o(7) st(1) have "validate_priced_offer cd (pu_context saved) ?offer (pu_accepted saved) = Inr ()" by auto
  from valid_priced_offer[OF this] show "pu_accepted saved < do_expires ?offer" by metis
  show "do_status ?offer = ''available''" "pu_version saved = v" "\<exists>a. do_agreement ?offer = Some a \<and> da_scope a = scope"
    by (fact st)+
qed

section \<open>Samples\<close>

definition sample_codec :: discount_codec where
  "sample_codec = \<lparr>cd_json = (\<lambda>v. case v of
       ContextJson c \<Rightarrow> Inr (if 0 \<le> dq_base c then replicate (nat (dq_base c)) CHR ''a'' else replicate (nat (- dq_base c)) CHR ''b'')
     | _ \<Rightarrow> Inr ''j''),
     cd_sha = (\<lambda>t. replicate 64 CHR ''0''), cd_compact = Some, cd_change = (\<lambda>t. None), cd_purchase = (\<lambda>t. None),
     cd_upper = (\<lambda>t. t)\<rparr>"

definition sample_agreement :: discount_agreement where
  "sample_agreement = \<lparr>da_id = ''welcome'', da_version = ''1'', da_scope = ''initial_only'', da_hash = replicate 64 CHR ''0'', da_terms = ''{}''\<rparr>"

definition sample_provider :: discount_provider where
  "sample_provider = \<lparr>dp_plugin = ''coupon'', dp_signer = replicate 64 CHR ''0'', dp_package = replicate 64 CHR ''0'',
     dp_generation = 1, dp_config = 1\<rparr>"

definition sample_offer :: discount_offer where
  "sample_offer = \<lparr>do_redemption = [], do_status = ''available'', do_fingerprint = replicate 64 CHR ''0'', do_currency = ''USD'',
     do_discount = 3, do_agreement = Some sample_agreement, do_expires = 200, do_message = []\<rparr>"

definition sample_order :: order where
  "sample_order = \<lparr>or_value_snapshot = [], or_purchase_snapshot = [], or_creation_key = None, or_creation_fingerprint = [],
     or_sub_ended = None, or_sub_end_reason = [], or_sub_final_total = 0, or_sub_final_used = 0, or_change = [],
     or_assigned_by = 0, or_assignment_note = [], or_assignment_fingerprint = [], or_id = 11, or_user = 3, or_subscription = 0,
     or_plan = 1, or_sku = 1, or_trade_no = ''t'', or_type = ''new'', or_target = None, or_amount = 10, or_payable = 7,
     or_paid = 0, or_refund = 0, or_discount = 3, or_currency = ''USD'', or_channel = ''manual'', or_provider_trade_no = None,
     or_status = ''pending'', or_plan_name = ''p'', or_sku_name = ''s'', or_unit = ''month'', or_value = 1, or_effect = [],
     or_traffic = 100, or_device = 0, or_speed = 0, or_raw_callback = [], or_paid_at = None, or_canceled_at = None,
     or_fulfilled_at = None, or_refunded_at = None, or_failure = [], or_created = 100, or_updated = 100\<rparr>"

definition sample_context :: discount_context where
  "sample_context = (order_context sample_order [])\<lparr>dq_fingerprint := replicate 64 CHR ''0''\<rparr>"

definition sample_purchase :: purchase_snapshot where
  "sample_purchase = \<lparr>ps_discount = Some \<lparr>pu_version = 1, pu_context = sample_context,
       pu_quote = \<lparr>qt_provider = sample_provider, qt_offer = sample_offer\<rparr>, pu_final = 7, pu_accepted = 100, pu_source = None\<rparr>,
     ps_model = [], ps_version = 1, ps_base = 10, ps_currency = ''USD'', ps_unit = ''month'', ps_value = 1, ps_effect = [],
     ps_renewable = True, ps_policy = 0, ps_calc_mode = 0, ps_family = 0, ps_renewal_target = None\<rparr>"

lemma sample_codec_exact: "exact_prices sample_codec"
proof -
  have "dq_base c = dq_base d"
    if "cd_json sample_codec (ContextJson c) = cd_json sample_codec (ContextJson d)" for c d
  proof -
    let ?t = "\<lambda>n :: int. if 0 \<le> n then replicate (nat n) CHR ''a'' else replicate (nat (- n)) CHR ''b''"
    from that have eq: "?t (dq_base c) = ?t (dq_base d)" by (simp add: sample_codec_def)
    have len: "length (?t n) = nat \<bar>n\<bar>" for n :: int by simp
    have "nat \<bar>dq_base c\<bar> = nat \<bar>dq_base d\<bar>" using arg_cong[OF eq, of length] unfolding len .
    moreover have neg: "CHR ''b'' \<in> set (?t n) \<longleftrightarrow> n < 0" for n :: int by (auto simp: set_replicate_conv_if)
    have "(CHR ''b'' \<in> set (?t (dq_base c))) = (CHR ''b'' \<in> set (?t (dq_base d)))"
      by (rule arg_cong[OF eq, of "\<lambda>t. CHR ''b'' \<in> set t"])
    then have "dq_base c < 0 \<longleftrightarrow> dq_base d < 0" unfolding neg .
    ultimately show ?thesis by linarith
  qed
  then show ?thesis by (auto simp: exact_prices_def)
qed

section \<open>Properties\<close>



text \<open>
  A validated offer is bound to its question and to its terms: it answers this input in this currency,
  reduces by at most the base price, an offer that lowers the price is unexpired and carries the agreement
  whose terms hash is the recorded one, an agreement that differs from the customer's needs confirmation,
  and an unavailable offer carries no reduction and no agreement.
\<close>

theorem validated_offer_sound:
  assumes "validate_discount_offer cd c offer now = Inr ()"
  shows "do_fingerprint offer = dq_fingerprint c \<and> do_currency offer = dq_currency c
    \<and> 0 \<le> do_discount offer \<and> do_discount offer \<le> dq_base c
    \<and> (if do_status offer = ''unavailable'' then do_discount offer = 0 \<and> do_agreement offer = None
       else now < do_expires offer \<and> (\<exists>a. do_agreement offer = Some a \<and> discount_terms_hash cd (da_terms a) = Inr (da_hash a)
         \<and> (\<forall>b. dq_agreement c = Some b \<longrightarrow> same_agreement b a \<or> do_status offer = ''requires_confirmation'')))"
proof -
  note o = valid_offer[OF assms]
  show ?thesis
  proof (cases "do_status offer = ''unavailable''")
    case True
    with o show ?thesis by auto
  next
    case False
    with o(7) have "validate_priced_offer cd c offer now = Inr ()" by auto
    from valid_priced_offer[OF this] obtain a where "do_agreement offer = Some a" "now < do_expires offer"
      "validate_discount_agreement cd (Some a) = Inr ()"
      "\<And>b. dq_agreement c = Some b \<Longrightarrow> \<not> same_agreement b a \<Longrightarrow> do_status offer = ''requires_confirmation''" by metis
    with False o show ?thesis by (auto dest: valid_agreement_hash)
  qed
qed

theorem validated_offer_sound_witness:
  "validate_discount_offer sample_codec sample_context sample_offer 100 = Inr () \<and> do_discount sample_offer \<le> dq_base sample_context"
proof -
  have v: "validate_discount_offer sample_codec sample_context sample_offer 100 = Inr ()" by code_simp
  from validated_offer_sound[OF v] v show ?thesis by blast
qed

text \<open>
  The commercial context of a purchase does not depend on how it is funded or what was quoted before:
  changing the channel, the trade number, the status, the paid and discounted amounts, the callback or the
  previously saved discount gives the same context, with the same fingerprint.
\<close>

theorem discount_context_ignores_funding:
  "new_purchase_discount_context cd (r\<lparr>or_channel := ch, or_trade_no := tn, or_status := st, or_paid := pd, or_payable := py,
       or_discount := di, or_raw_callback := cb, or_id := i\<rparr>) (p\<lparr>ps_discount := x\<rparr>) selection
     = new_purchase_discount_context cd r p selection
   \<and> new_recurring_discount_context cd (r\<lparr>or_channel := ch, or_trade_no := tn, or_status := st, or_paid := pd, or_payable := py,
       or_discount := di, or_raw_callback := cb, or_id := i\<rparr>) (p\<lparr>ps_discount := x\<rparr>) selection source
     = new_recurring_discount_context cd r p selection source"
proof -
  let ?r = "r\<lparr>or_channel := ch, or_trade_no := tn, or_status := st, or_paid := pd, or_payable := py,
       or_discount := di, or_raw_callback := cb, or_id := i\<rparr>"
  have same: "policy_matches ?r (p\<lparr>ps_discount := x\<rparr>) = policy_matches r p" "order_context ?r selection = order_context r selection"
    "facts_of ?r = facts_of r" "or_type ?r = or_type r" "or_target ?r = or_target r"
    by (simp_all add: policy_matches_def order_context_def facts_of_def)
  have new: "new_purchase_discount_context cd ?r (p\<lparr>ps_discount := x\<rparr>) selection = new_purchase_discount_context cd r p selection"
    unfolding new_purchase_discount_context_def same by simp
  show ?thesis unfolding new_recurring_discount_context_def new same by (cases source) simp_all
qed

text \<open>
  Confirming a preview ignores the clock and nothing else: two purchase policies have the same quote
  policy exactly when they agree except for the acceptance time, the expiry and the message of the offer.
\<close>

theorem quote_policy_ignores_clock:
  "purchase_quote_policy p = purchase_quote_policy q \<longleftrightarrow>
     (\<exists>at ex msg. p = (case ps_discount q of None \<Rightarrow> q
        | Some d \<Rightarrow> q\<lparr>ps_discount := Some (d\<lparr>pu_accepted := at,
            pu_quote := (pu_quote d)\<lparr>qt_offer := (qt_offer (pu_quote d))\<lparr>do_expires := ex, do_message := msg\<rparr>\<rparr>\<rparr>)\<rparr>))"
    (is "?same \<longleftrightarrow> ?differ")
proof
  let ?put = "\<lambda>d at ex msg. d\<lparr>pu_accepted := at,
            pu_quote := (pu_quote d)\<lparr>qt_offer := (qt_offer (pu_quote d))\<lparr>do_expires := ex, do_message := msg\<rparr>\<rparr>\<rparr>"
  assume eq: ?same
  show ?differ
  proof (cases "ps_discount q")
    case None
    with eq show ?thesis by (cases "ps_discount p") (auto simp: purchase_quote_policy_def dest: arg_cong[where f = ps_discount])
  next
    case (Some d)
    note q = this
    show ?thesis
    proof (cases "ps_discount p")
      case None
      with eq q show ?thesis by (auto simp: purchase_quote_policy_def dest: arg_cong[where f = ps_discount])
    next
      case (Some e)
      with eq q have clock: "p\<lparr>ps_discount := Some (?put e 0 0 [])\<rparr> = q\<lparr>ps_discount := Some (?put d 0 0 [])\<rparr>"
        by (simp add: purchase_quote_policy_def)
      let ?ex = "do_expires (qt_offer (pu_quote e))" and ?msg = "do_message (qt_offer (pu_quote e))"
      from arg_cong[OF clock, of ps_discount] have "?put e 0 0 [] = ?put d 0 0 []" by simp
      from arg_cong[OF this, of "\<lambda>x. ?put x (pu_accepted e) ?ex ?msg"] have "e = ?put d (pu_accepted e) ?ex ?msg" by simp
      moreover from arg_cong[OF clock, of "\<lambda>x. x\<lparr>ps_discount := Some e\<rparr>"] have "p\<lparr>ps_discount := Some e\<rparr> = q\<lparr>ps_discount := Some e\<rparr>" by simp
      moreover have "p\<lparr>ps_discount := Some e\<rparr> = p" using Some by (cases p) simp
      ultimately have "p = q\<lparr>ps_discount := Some (?put d (pu_accepted e) ?ex ?msg)\<rparr>" by simp
      with q show ?thesis by (simp only: option.case) blast
    qed
  qed
next
  assume ?differ
  then show ?same by (cases "ps_discount q") (auto simp: purchase_quote_policy_def)
qed

end
