(* ===== verification/Redemption.thy ===== *)
theory Redemption
  imports Discounts
begin

text \<open>
  \<^verbatim>\<open>commerce/discount_redemption.go\<close>: the evidence a provider's reservation must carry, and the
  protocol that drives a reservation to its end.
\<close>

section \<open>The code\<close>

record redemption_request =
  rq_version :: int
  rq_action :: string
  rq_binding :: redemption_binding
  rq_hash :: string
  rq_token :: string

record redemption_result =
  rs_version :: int
  rs_key :: string
  rs_hash :: string
  rs_state :: string
  rs_guarantee :: string
  rs_token :: string
  rs_message :: string

definition discount_redemption_hash :: "discount_codec \<Rightarrow> redemption_binding \<Rightarrow> string result" where
  "discount_redemption_hash cd b =
     (if rb_version b \<noteq> 1 \<or> length (rb_key b) \<noteq> 64 \<or> \<not> hash_pattern (rb_key b) \<or> rb_order b = 0 \<or> rb_buyer b = 0
         \<or> \<not> hash_pattern (rb_fingerprint b) \<or> \<not> hash_pattern (rb_terms_hash b) \<or> \<not> provider_ok (rb_provider b)
         \<or> trim_space (rb_agreement b) = [] \<or> length (rb_agreement b) > 128
         \<or> trim_space (rb_agreement_version b) = [] \<or> length (rb_agreement_version b) > 64
         \<or> rb_base b < 0 \<or> rb_discount b < 0 \<or> rb_discount b > rb_base b
         \<or> rb_payable b \<noteq> sub64 (rb_base b) (rb_discount b) \<or> length (rb_currency b) \<noteq> 3
      then Inl ErrDiscountRedemptionConflict
      else if \<not> all_capitals (rb_currency b) then Inl ErrDiscountRedemptionConflict
      else try_bind (cd_json cd (BindingJson b)) (\<lambda>raw. Inr (cd_sha cd raw)))"

definition validate_discount_redemption_request :: "discount_codec \<Rightarrow> redemption_request \<Rightarrow> unit result" where
  "validate_discount_redemption_request cd r =
     (case discount_redemption_hash cd (rq_binding r) of
        Inl e \<Rightarrow> Inl ErrDiscountRedemptionConflict
      | Inr hash \<Rightarrow>
          if rq_version r \<noteq> 1 \<or> rq_hash r \<noteq> hash \<or> length (rq_token r) > 512 then Inl ErrDiscountRedemptionConflict
          else if rq_action r \<in> {''query'', ''reserve'', ''release''} then Inr ()
          else if rq_action r = ''commit'' then (if rq_token r = [] then Inl ErrDiscountRedemptionConflict else Inr ())
          else Inl ErrDiscountRedemptionConflict)"

definition result_token_ok :: "redemption_request \<Rightarrow> redemption_result \<Rightarrow> bool" where
  "result_token_ok r out =
     (if rs_state out \<in> {''reserved'', ''committed''} then \<not> (rs_token out = [] \<or> (rq_token r \<noteq> [] \<and> rq_token r \<noteq> rs_token out))
      else if rs_state out \<in> {''absent'', ''released'', ''rejected''}
      then \<not> (rs_token out \<noteq> [] \<and> rq_token r \<noteq> [] \<and> rs_token out \<noteq> rq_token r)
      else False)"

definition result_state_ok :: "string \<Rightarrow> string \<Rightarrow> bool" where
  "result_state_ok action state =
     (if action = ''reserve'' then state \<in> {''reserved'', ''committed'', ''released'', ''rejected''}
      else if action = ''commit'' then state \<in> {''committed'', ''reserved''}
      else if action = ''release'' then state \<in> {''released'', ''committed''}
      else True)"

definition validate_discount_redemption_result :: "discount_codec \<Rightarrow> redemption_request \<Rightarrow> redemption_result \<Rightarrow> unit result" where
  "validate_discount_redemption_result cd r out =
     (if validate_discount_redemption_request cd r \<noteq> Inr () \<or> rs_version out \<noteq> 1 \<or> rs_key out \<noteq> rb_key (rq_binding r)
         \<or> rs_hash out \<noteq> rq_hash r \<or> length (rs_message out) > 512 \<or> length (rs_token out) > 512
      then Inl ErrDiscountRedemptionConflict
      else if rs_guarantee out \<noteq> discount_redemption_guarantee then Inl ErrDiscountRedemptionUnsupported
      else if \<not> result_token_ok r out then Inl ErrDiscountRedemptionConflict
      else if \<not> result_state_ok (rq_action r) (rs_state out) then Inl ErrDiscountRedemptionConflict
      else Inr ())"

definition next_discount_redemption_action :: "string \<Rightarrow> string \<Rightarrow> string result" where
  "next_discount_redemption_action desired observed =
     (if desired = ''reserve'' then
        (if observed = ''absent'' then Inr ''reserve''
         else if observed = ''reserved'' then Inr []
         else if observed \<in> {''rejected'', ''released''} then Inl ErrDiscountRedemptionUnsupported
         else Inl ErrDiscountRedemptionConflict)
      else if desired = ''commit'' then
        (if observed = ''reserved'' then Inr ''commit''
         else if observed = ''committed'' then Inr []
         else Inl ErrDiscountRedemptionConflict)
      else if desired = ''release'' then
        (if observed \<in> {''absent'', ''reserved'', ''rejected''} then Inr ''release''
         else if observed = ''released'' then Inr []
         else Inl ErrDiscountRedemptionConflict)
      else Inl ErrDiscountRedemptionConflict)"

section \<open>The protocol\<close>

text \<open>
  One exchange: the action the core chooses for the observed state is sent, and the provider answers with
  a state that the validation of results admits for that action.
\<close>

inductive exchange :: "string \<Rightarrow> string \<Rightarrow> string \<Rightarrow> bool" for desired where
  sent: "next_discount_redemption_action desired s = Inr a \<Longrightarrow> a \<noteq> [] \<Longrightarrow> result_state_ok a t \<Longrightarrow> exchange desired s t"

inductive_cases exchangeE: "exchange desired s t"

lemma exchange_action:
  assumes "exchange desired s t"
  shows "(desired = ''reserve'' \<and> s = ''absent'' \<and> t \<in> {''reserved'', ''committed'', ''released'', ''rejected''})
    \<or> (desired = ''commit'' \<and> s = ''reserved'' \<and> t \<in> {''committed'', ''reserved''})
    \<or> (desired = ''release'' \<and> s \<in> {''absent'', ''reserved'', ''rejected''} \<and> t \<in> {''released'', ''committed''})"
  using assms
  by (elim exchangeE) (auto simp: next_discount_redemption_action_def result_state_ok_def split: if_splits)

lemma exchange_final: "exchange desired s t \<Longrightarrow> s \<noteq> ''committed'' \<and> s \<noteq> ''released''"
  by (drule exchange_action) (elim disjE conjE insertE emptyE; simp)

lemma run_final: "(exchange desired)\<^sup>*\<^sup>* s t \<Longrightarrow> s = ''committed'' \<or> s = ''released'' \<Longrightarrow> t = s"
  by (induction rule: rtranclp_induct) (metis exchange_final)+

lemma exchange_commit: "exchange ''commit'' s t \<Longrightarrow> t = ''committed'' \<or> t = ''reserved''"
  by (drule exchange_action) simp

lemma run_commit: "(exchange ''commit'')\<^sup>*\<^sup>* s t \<Longrightarrow> t = s \<or> t = ''committed'' \<or> t = ''reserved''"
  by (induction rule: rtranclp_induct) (auto dest: exchange_commit)

lemma exchange_release: "exchange ''release'' s t \<Longrightarrow> t = ''released'' \<or> t = ''committed''"
  by (drule exchange_action) simp

lemma run_release: "(exchange ''release'')\<^sup>*\<^sup>* s t \<Longrightarrow> t = s \<or> t = ''released'' \<or> t = ''committed''"
  by (induction rule: rtranclp_induct) (auto dest: exchange_release)

lemma commit_release_exclusive:
  "next_discount_redemption_action ''commit'' t = Inr [] \<longleftrightarrow> t = ''committed''"
  "next_discount_redemption_action ''release'' t = Inr [] \<longleftrightarrow> t = ''released''"
  "next_discount_redemption_action ''release'' ''committed'' = Inl ErrDiscountRedemptionConflict"
  "next_discount_redemption_action ''commit'' ''released'' = Inl ErrDiscountRedemptionConflict"
  by (simp_all add: next_discount_redemption_action_def)

section \<open>Samples\<close>

definition sample_binding :: redemption_binding where
  "sample_binding = \<lparr>rb_version = 1, rb_key = replicate 64 CHR ''1'', rb_order = 11, rb_buyer = 3,
     rb_fingerprint = replicate 64 CHR ''0'', rb_provider = sample_provider, rb_agreement = ''welcome'', rb_agreement_version = ''1'',
     rb_terms_hash = replicate 64 CHR ''0'', rb_base = 10, rb_discount = 3, rb_payable = 7, rb_currency = ''USD''\<rparr>"

definition sample_commit :: redemption_request where
  "sample_commit = \<lparr>rq_version = 1, rq_action = ''commit'', rq_binding = sample_binding, rq_hash = replicate 64 CHR ''0'', rq_token = ''t1''\<rparr>"

definition sample_committed :: redemption_result where
  "sample_committed = \<lparr>rs_version = 1, rs_key = replicate 64 CHR ''1'', rs_hash = replicate 64 CHR ''0'', rs_state = ''committed'',
     rs_guarantee = discount_redemption_guarantee, rs_token = ''t1'', rs_message = []\<rparr>"

section \<open>Properties\<close>

text \<open>
  A reservation is finalised once: whatever exchanges happen, a committed or a released reservation is
  never acted on again, committing never loses the hold, releasing can only end in released or, when the
  provider had already committed, in committed, and no state satisfies both a commit and a release.
\<close>

theorem redemption_finalised_once:
  assumes "(exchange desired)\<^sup>*\<^sup>* s t"
  shows "(s = ''committed'' \<or> s = ''released'' \<longrightarrow> t = s)
    \<and> (desired = ''commit'' \<longrightarrow> t = s \<or> t = ''committed'' \<or> t = ''reserved'')
    \<and> (desired = ''release'' \<longrightarrow> t = s \<or> t = ''released'' \<or> t = ''committed'')
    \<and> (next_discount_redemption_action ''commit'' t = Inr [] \<longrightarrow>
        next_discount_redemption_action ''release'' t = Inl ErrDiscountRedemptionConflict)
    \<and> (next_discount_redemption_action ''release'' t = Inr [] \<longrightarrow>
        next_discount_redemption_action ''commit'' t = Inl ErrDiscountRedemptionConflict)"
proof (intro conjI impI)
  show "t = s" if "s = ''committed'' \<or> s = ''released''" using run_final[OF assms that] .
  show "t = s \<or> t = ''committed'' \<or> t = ''reserved''" if "desired = ''commit''" by (rule run_commit[OF assms[unfolded that]])
  show "t = s \<or> t = ''released'' \<or> t = ''committed''" if "desired = ''release''" by (rule run_release[OF assms[unfolded that]])
qed (simp_all only: commit_release_exclusive)

theorem redemption_finalised_once_witness:
  "(exchange ''commit'')\<^sup>*\<^sup>* ''reserved'' ''committed''
    \<and> next_discount_redemption_action ''release'' ''committed'' = Inl ErrDiscountRedemptionConflict"
proof -
  have "exchange ''commit'' ''reserved'' ''committed''"
    by (rule exchange.sent[of _ _ "''commit''"]) (simp_all add: next_discount_redemption_action_def result_state_ok_def)
  then have run: "(exchange ''commit'')\<^sup>*\<^sup>* ''reserved'' ''committed''" by blast
  from redemption_finalised_once[OF this] run show ?thesis by (simp only: commit_release_exclusive simp_thms)
qed

text \<open>
  A provider's answer counts only for the reservation it was asked about: a validated result names the
  key and the hash of this binding, gives the exclusive guarantee, and a held or committed reservation
  carries a token, the very token of the request where there was one. The binding itself has a payable
  amount equal to base minus discount, between zero and the base.
\<close>

theorem validated_result_bound:
  assumes "validate_discount_redemption_result cd r out = Inr ()" "rb_base (rq_binding r) \<le> max64"
  shows "rs_key out = rb_key (rq_binding r) \<and> discount_redemption_hash cd (rq_binding r) = Inr (rs_hash out)
    \<and> rs_guarantee out = discount_redemption_guarantee
    \<and> (rs_state out \<in> {''reserved'', ''committed''} \<longrightarrow> rs_token out \<noteq> [] \<and> (rq_token r \<noteq> [] \<longrightarrow> rs_token out = rq_token r))
    \<and> rb_payable (rq_binding r) = rb_base (rq_binding r) - rb_discount (rq_binding r)
    \<and> 0 \<le> rb_payable (rq_binding r) \<and> rb_payable (rq_binding r) \<le> rb_base (rq_binding r)"
proof -
  let ?b = "rq_binding r"
  from assms(1) have v: "validate_discount_redemption_request cd r = Inr ()" "rs_key out = rb_key ?b" "rs_hash out = rq_hash r"
    "rs_guarantee out = discount_redemption_guarantee" "result_token_ok r out"
    by (auto simp: validate_discount_redemption_result_def split: if_splits)
  from v(1) have h: "discount_redemption_hash cd ?b = Inr (rq_hash r)"
    by (auto simp: validate_discount_redemption_request_def split: if_splits)
  then have m: "0 \<le> rb_base ?b" "0 \<le> rb_discount ?b" "rb_discount ?b \<le> rb_base ?b"
    "rb_payable ?b = sub64 (rb_base ?b) (rb_discount ?b)"
    by (auto simp: discount_redemption_hash_def)
  then have "rb_payable ?b = rb_base ?b - rb_discount ?b" using assms(2) by (simp add: sub64_nonneg)
  with m v h show ?thesis by (auto simp: result_token_ok_def)
qed

theorem validated_result_bound_witness:
  "validate_discount_redemption_result sample_codec sample_commit sample_committed = Inr () \<and> rs_token sample_committed = rq_token sample_commit"
proof -
  have v: "validate_discount_redemption_result sample_codec sample_commit sample_committed = Inr ()" by code_simp
  have "rb_base (rq_binding sample_commit) \<le> max64" by (simp add: sample_commit_def sample_binding_def max64_def)
  from validated_result_bound[OF v this] v show ?thesis by (simp add: sample_commit_def sample_committed_def)
qed

end
