(* ===== verification/Catalog.thy ===== *)
theory Catalog
  imports GoStrings Calendar "HOL-Library.Multiset"
begin

text \<open>
  The catalogue rules of \<^verbatim>\<open>commerce/sku.go\<close>, \<^verbatim>\<open>sku_rules.go\<close>, \<^verbatim>\<open>sku_legacy.go\<close>,
  \<^verbatim>\<open>sku_creation.go\<close>, \<^verbatim>\<open>sku_update.go\<close>: what may be sold and under which operations. A validation
  error carries the names of the failing fields.
\<close>

section \<open>Data\<close>

record sku_request =
  kq_code :: string
  kq_name :: string
  kq_type :: string
  kq_billing_mode :: string
  kq_entitlement_mode :: string
  kq_effect :: string
  kq_operations :: "string list"
  kq_unit :: string
  kq_value :: int
  kq_price :: int
  kq_currency :: string
  kq_grant :: int
  kq_traffic :: int
  kq_device :: int
  kq_speed :: int
  kq_active :: "bool option"
  kq_sort :: int

record legacy_sku_request =
  lq_code :: string
  lq_name :: string
  lq_type :: string
  lq_unit :: string
  lq_value :: int
  lq_price :: int
  lq_currency :: string
  lq_traffic :: int
  lq_device :: int
  lq_speed :: int
  lq_active :: "bool option"
  lq_sort :: int

record sku =
  sk_id :: nat
  sk_plan :: nat
  sk_code :: string
  sk_name :: string
  sk_type :: string
  sk_billing_mode :: string
  sk_entitlement_mode :: string
  sk_effect :: string
  sk_unit :: string
  sk_value :: int
  sk_price :: int
  sk_currency :: string
  sk_traffic :: int
  sk_device :: int
  sk_speed :: int
  sk_active :: bool
  sk_sort :: int
  sk_created :: gotime
  sk_updated :: gotime
  sk_archived :: "gotime option"

record normalized_sku =
  ns_sku :: sku
  ns_billing_mode :: string
  ns_entitlement_mode :: string
  ns_effect :: string
  ns_operations :: "string list"

record sku_view =
  sv_sku :: sku
  sv_operations :: "string list"
  sv_grant :: int

section \<open>Operations\<close>

definition operation_rank :: "string \<Rightarrow> nat option" where
  "operation_rank op =
     (if op = ''purchase'' then Some 0 else if op = ''renew'' then Some 1 else if op = ''change'' then Some 2
      else if op = ''addon'' then Some 3 else if op = ''reset'' then Some 4 else None)"

text \<open>A Go map answers zero for an absent key.\<close>

definition rank_of :: "string \<Rightarrow> nat" where
  "rank_of op = (case operation_rank op of None \<Rightarrow> 0 | Some r \<Rightarrow> r)"

definition contains_operation :: "string list \<Rightarrow> string \<Rightarrow> bool" where
  "contains_operation ops target \<longleftrightarrow> target \<in> set ops"

definition legacy_sku_type_operation :: "go_unicode \<Rightarrow> string \<Rightarrow> string" where
  "legacy_sku_type_operation uc val =
     (let v = lower_trim uc val in
      if v = ''renewal'' then ''renew'' else if v = ''upgrade'' then ''change''
      else if v = ''traffic_pack'' then ''addon'' else if v = ''traffic_reset'' then ''reset'' else ''purchase'')"

definition compatibility_sku_type :: "string \<Rightarrow> string list \<Rightarrow> string" where
  "compatibility_sku_type mode ops =
     (if mode = ''traffic_reset'' then ''traffic_reset''
      else if mode = ''traffic_addon'' then ''traffic_pack''
      else if contains_operation ops ''purchase'' then ''new''
      else if contains_operation ops ''renew'' then ''renewal''
      else ''upgrade'')"

fun collect_operations :: "go_unicode \<Rightarrow> string list \<Rightarrow> string list \<Rightarrow> string list result" where
  "collect_operations uc [] ops = Inr ops"
| "collect_operations uc (v # vs) ops =
     (let op = lower_trim uc v in
      if operation_rank op = None then Inl (ErrValidation [''allowed_operations''])
      else collect_operations uc vs (if op \<in> set ops then ops else ops @ [op]))"

definition normalize_operations :: "go_unicode \<Rightarrow> string list \<Rightarrow> string \<Rightarrow> string list result" where
  "normalize_operations uc vals legacy_type =
     try_bind (collect_operations uc (if vals = [] then [legacy_sku_type_operation uc legacy_type] else vals) []) (\<lambda>ops.
       if ops = [] then Inl (ErrValidation [''allowed_operations'']) else Inr (sort_key rank_of ops))"

definition default_renewal_effect :: "string \<Rightarrow> string \<Rightarrow> string list \<Rightarrow> string" where
  "default_renewal_effect unit mode ops =
     (if mode = ''traffic_addon'' \<or> \<not> contains_operation ops ''renew'' then ''none''
      else if unit = ''once'' then ''add_quota_only'' else ''extend_only'')"

section \<open>Specifications\<close>

text \<open>\<open>fields[k] = message\<close> under a condition: the failing fields, each once.\<close>

definition flag :: "bool \<Rightarrow> string \<Rightarrow> string list \<Rightarrow> string list" where
  "flag b k fs = (if b \<and> k \<notin> set fs then fs @ [k] else fs)"

definition build_legacy_sku :: "go_unicode \<Rightarrow> nat \<Rightarrow> legacy_sku_request \<Rightarrow> sku result" where
  "build_legacy_sku uc plan_id r =
     (let code = lower_trim uc (lq_code r); name = trim_space (lq_name r);
          sku_type = (let t = lower_trim uc (lq_type r) in if t = [] then ''new'' else t);
          unit = lower_trim uc (lq_unit r); currency = upper_trim uc (lq_currency r);
          unit_known = (unit \<in> {''day'', ''month'', ''year'', ''once''});
          other_entitlement = (lq_device r \<noteq> 0 \<or> lq_speed r \<noteq> 0);
          fs = flag (code = []) ''code'' [];
          fs = flag (name = []) ''name'' fs;
          fs = flag (currency = []) ''currency'' fs;
          fs = flag (sku_type \<notin> {''new'', ''renewal'', ''upgrade'', ''traffic_pack'', ''traffic_reset''}) ''sku_type'' fs;
          fs = flag (unit_known \<and> lq_value r \<le> 0) ''billing_value'' fs;
          fs = flag (\<not> unit_known) ''billing_unit'' fs;
          fs = flag (lq_price r < 0) ''price_cents'' fs;
          fs = flag (sku_type = ''traffic_pack'' \<and> lq_traffic r \<le> 0) ''grant_traffic_bytes'' fs;
          fs = flag (if sku_type = ''traffic_pack'' then other_entitlement else lq_traffic r \<noteq> 0 \<or> other_entitlement)
                     ''entitlements'' fs
      in if fs \<noteq> [] then Inl (ErrValidation fs)
         else Inr \<lparr>sk_id = 0, sk_plan = plan_id, sk_code = code, sk_name = name, sk_type = sku_type, sk_billing_mode = [],
                    sk_entitlement_mode = [], sk_effect = [], sk_unit = unit, sk_value = lq_value r, sk_price = lq_price r,
                    sk_currency = currency, sk_traffic = lq_traffic r, sk_device = lq_device r, sk_speed = lq_speed r,
                    sk_active = (case lq_active r of None \<Rightarrow> True | Some a \<Rightarrow> a), sk_sort = lq_sort r,
                    sk_created = 0, sk_updated = 0, sk_archived = None\<rparr>)"

definition requested_billing_mode :: "go_unicode \<Rightarrow> sku_request \<Rightarrow> string" where
  "requested_billing_mode uc r =
     (let m = lower_trim uc (kq_billing_mode r) in
      if m \<noteq> [] then m
      else if equal_fold uc (trim_space (kq_unit r)) ''once'' \<or> equal_fold uc (trim_space (kq_type r)) ''traffic_pack''
      then ''one_time'' else ''periodic'')"

definition requested_entitlement_mode :: "go_unicode \<Rightarrow> sku_request \<Rightarrow> string list \<Rightarrow> string" where
  "requested_entitlement_mode uc r ops =
     (let m = lower_trim uc (kq_entitlement_mode r) in
      if m \<noteq> [] then m
      else if equal_fold uc (trim_space (kq_type r)) ''traffic_reset'' \<or> contains_operation ops ''reset'' then ''traffic_reset''
      else if equal_fold uc (trim_space (kq_type r)) ''traffic_pack'' \<or> contains_operation ops ''addon'' then ''traffic_addon''
      else ''plan'')"

definition requested_effect :: "go_unicode \<Rightarrow> sku_request \<Rightarrow> string \<Rightarrow> string \<Rightarrow> string list \<Rightarrow> string" where
  "requested_effect uc r unit mode ops =
     (let e = lower_trim uc (kq_effect r) in
      if mode = ''traffic_addon'' \<or> \<not> contains_operation ops ''renew'' then ''none''
      else if e = [] then (if unit = ''once'' then ''add_quota_only'' else ''extend_only'')
      else e)"

text \<open>The failing fields of a request for traffic to add, for a reset, and for a plan.\<close>

definition addon_fields :: "sku_request \<Rightarrow> string \<Rightarrow> string \<Rightarrow> string list \<Rightarrow> int \<Rightarrow> string list" where
  "addon_fields r billing unit ops traffic =
     (let fs = flag (billing \<noteq> ''one_time'') ''billing_mode'' [];
          fs = flag (unit \<noteq> ''once'') ''billing_unit'' fs;
          fs = flag (ops \<noteq> [''addon'']) ''allowed_operations'' fs;
          fs = flag (traffic \<le> 0) ''grant_traffic_bytes'' fs
      in flag (kq_device r \<noteq> 0 \<or> kq_speed r \<noteq> 0) ''entitlements'' fs)"

definition overrides_entitlement :: "sku_request \<Rightarrow> bool" where
  "overrides_entitlement r \<longleftrightarrow> kq_grant r \<noteq> 0 \<or> kq_traffic r \<noteq> 0 \<or> kq_device r \<noteq> 0 \<or> kq_speed r \<noteq> 0"

definition reset_fields :: "sku_request \<Rightarrow> string \<Rightarrow> string \<Rightarrow> string list \<Rightarrow> string list" where
  "reset_fields r billing unit ops =
     (let fs = flag (billing \<noteq> ''one_time'') ''billing_mode'' [];
          fs = flag (unit \<noteq> ''once'' \<or> kq_value r \<noteq> 1) ''billing_unit'' fs;
          fs = flag (ops \<noteq> [''reset'']) ''allowed_operations'' fs
      in flag (overrides_entitlement r) ''entitlements'' fs)"

definition plan_fields :: "sku_request \<Rightarrow> string \<Rightarrow> string \<Rightarrow> string \<Rightarrow> string list \<Rightarrow> string list" where
  "plan_fields r billing unit effect ops =
     (let fs = flag (billing = ''periodic'' \<and> unit = ''once'') ''billing_unit'' [];
          fs = flag (contains_operation ops ''reset'') ''allowed_operations'' fs;
          fs = flag (contains_operation ops ''addon'') ''allowed_operations'' fs;
          fs = flag (contains_operation ops ''renew'' \<and> unit = ''once'' \<and> effect \<noteq> ''add_quota_only'') ''renewal_effect'' fs;
          fs = flag (contains_operation ops ''renew'' \<and> unit \<noteq> ''once'' \<and> effect \<noteq> ''extend_only''
                         \<and> effect \<noteq> ''extend_and_add_quota'') ''renewal_effect'' fs
      in flag (overrides_entitlement r) ''entitlements'' fs)"

definition sku_mode_fields :: "sku_request \<Rightarrow> string \<Rightarrow> string \<Rightarrow> string \<Rightarrow> string \<Rightarrow> string list \<Rightarrow> int \<Rightarrow> string list" where
  "sku_mode_fields r billing unit mode effect ops traffic =
     (if mode = ''traffic_addon'' then addon_fields r billing unit ops traffic
      else if mode = ''traffic_reset'' then reset_fields r billing unit ops
      else if mode = ''plan'' then plan_fields r billing unit effect ops
      else [''entitlement_mode''])"

definition normalize_sku :: "go_unicode \<Rightarrow> nat \<Rightarrow> sku_request \<Rightarrow> normalized_sku result" where
  "normalize_sku uc plan_id r =
     (let billing = requested_billing_mode uc r in
      if billing \<noteq> ''periodic'' \<and> billing \<noteq> ''one_time'' then Inl (ErrValidation [''billing_mode''])
      else try_bind (normalize_operations uc (kq_operations r) (kq_type r)) (\<lambda>ops.
        let grant = (if kq_grant r = 0 then kq_traffic r else kq_grant r);
            unit = lower_trim uc (kq_unit r);
            mode = requested_entitlement_mode uc r ops;
            effect = requested_effect uc r unit mode ops;
            fs = sku_mode_fields r billing unit mode effect ops grant;
            traffic = (if mode = ''traffic_addon'' then grant else 0)
        in if fs \<noteq> [] then Inl (ErrValidation fs)
           else try_bind (build_legacy_sku uc plan_id
               \<lparr>lq_code = kq_code r, lq_name = kq_name r, lq_type = compatibility_sku_type mode ops, lq_unit = kq_unit r,
                lq_value = kq_value r, lq_price = kq_price r, lq_currency = kq_currency r, lq_traffic = traffic,
                lq_device = 0, lq_speed = 0, lq_active = kq_active r, lq_sort = kq_sort r\<rparr>) (\<lambda>s.
             Inr \<lparr>ns_sku = s\<lparr>sk_billing_mode := billing, sk_entitlement_mode := mode, sk_effect := effect\<rparr>,
                  ns_billing_mode = billing, ns_entitlement_mode = mode, ns_effect = effect, ns_operations = ops\<rparr>)))"

section \<open>Creation and update\<close>

definition sku_creation_create ::
  "go_unicode \<Rightarrow> (nat \<Rightarrow> normalized_sku \<Rightarrow> sku result) \<Rightarrow> nat \<Rightarrow> nat \<Rightarrow> sku_request \<Rightarrow> sku_view result" where
  "sku_creation_create uc create actor plan_id r =
     (if actor = 0 then Inl ErrPermission
      else if plan_id = 0 then Inl ErrNotFound
      else try_bind (normalize_sku uc plan_id r) (\<lambda>n.
           try_bind (create actor n) (\<lambda>s.
             Inr \<lparr>sv_sku = s, sv_operations = ns_operations n, sv_grant = sk_traffic s\<rparr>)))"

definition sku_update_update ::
  "go_unicode \<Rightarrow> (nat \<Rightarrow> nat \<Rightarrow> normalized_sku \<Rightarrow> sku result) \<Rightarrow> nat \<Rightarrow> nat \<Rightarrow> sku_request \<Rightarrow> sku_view result" where
  "sku_update_update uc update actor sku_id r =
     (if actor = 0 then Inl ErrPermission
      else if sku_id = 0 then Inl ErrNotFound
      else try_bind (normalize_sku uc 0 r) (\<lambda>n.
           try_bind (update actor sku_id n) (\<lambda>s.
             Inr \<lparr>sv_sku = s, sv_operations = ns_operations n, sv_grant = sk_traffic s\<rparr>)))"

definition validate_sku_availability :: "bool \<Rightarrow> int \<Rightarrow> normalized_sku \<Rightarrow> unit result" where
  "validate_sku_availability published other candidate =
     (if \<not> published \<or> (sk_active (ns_sku candidate) \<and> contains_operation (ns_operations candidate) ''purchase'') \<or> other > 0
      then Inr () else Inl (ErrValidation [''allowed_operations'']))"

definition validate_publication :: "bool \<Rightarrow> int \<Rightarrow> unit result" where
  "validate_publication published purchasable =
     (if \<not> published \<or> purchasable > 0 then Inr () else Inl (ErrValidation [''is_active'']))"

section \<open>Facts\<close>

lemma flag_Nil [simp]: "flag b k fs = [] \<longleftrightarrow> \<not> b \<and> fs = []"
  by (auto simp: flag_def)

lemma rank_of_inj: "inj_on rank_of {op. operation_rank op \<noteq> None}"
  by (rule inj_onI) (simp add: rank_of_def operation_rank_def split: if_splits)

lemma known_operations:
  "operation_rank op \<noteq> None \<longleftrightarrow> op \<in> {''purchase'', ''renew'', ''change'', ''addon'', ''reset''}"
  by (simp add: operation_rank_def)

lemma collect_operations_spec:
  "collect_operations uc vs ops = Inr r \<Longrightarrow> distinct ops \<Longrightarrow>
    distinct r \<and> set r = set ops \<union> lower_trim uc ` set vs \<and> (\<forall>v \<in> set vs. operation_rank (lower_trim uc v) \<noteq> None)"
  by (induction uc vs ops rule: collect_operations.induct) (auto simp: Let_def split: if_splits)

lemma collect_operations_known:
  "\<forall>v \<in> set vs. operation_rank (lower_trim uc v) \<noteq> None \<Longrightarrow> \<exists>r. collect_operations uc vs ops = Inr r"
  by (induction uc vs ops rule: collect_operations.induct) (auto simp: Let_def)

lemma normalize_operations_spec:
  assumes "normalize_operations uc vs t = Inr ops"
  defines "ws \<equiv> if vs = [] then [legacy_sku_type_operation uc t] else vs"
  shows "distinct ops" "sorted (map rank_of ops)" "set ops = lower_trim uc ` set ws" "ops \<noteq> []"
    "\<forall>op \<in> set ops. operation_rank op \<noteq> None"
proof -
  from assms obtain r where r: "collect_operations uc ws [] = Inr r" "r \<noteq> []" "ops = sort_key rank_of r"
    by (auto simp: normalize_operations_def ws_def split: if_splits)
  with collect_operations_spec[OF r(1)] show "distinct ops" "sorted (map rank_of ops)" "set ops = lower_trim uc ` set ws"
    "ops \<noteq> []" "\<forall>op \<in> set ops. operation_rank op \<noteq> None"
    by (auto dest: arg_cong[of _ "[]" set])
qed

lemma normal_operations_unique:
  assumes "distinct xs" "distinct ys" "set xs = set ys" "sorted (map rank_of xs)" "sorted (map rank_of ys)"
    "\<forall>op \<in> set xs. operation_rank op \<noteq> None"
  shows "xs = ys"
proof -
  have m: "mset xs = mset ys" using assms(1-3) by (simp add: set_eq_iff_mset_eq_distinct)
  have inj: "inj_on rank_of (set xs)" using assms(6) by (auto intro: inj_on_subset[OF rank_of_inj])
  have "sort_key rank_of xs = ys" by (rule sort_key_inj_key_eq[OF m inj assms(5)])
  moreover have "sort_key rank_of xs = xs" by (rule sort_key_inj_key_eq[OF refl inj assms(4)])
  ultimately show ?thesis by simp
qed

lemma lower_trim_types [simp]:
  "lower_trim uc ''new'' = ''new''" "lower_trim uc ''renewal'' = ''renewal''" "lower_trim uc ''upgrade'' = ''upgrade''"
  "lower_trim uc ''traffic_pack'' = ''traffic_pack''" "lower_trim uc ''traffic_reset'' = ''traffic_reset''"
  by code_simp+

lemma compatibility_type_cases:
  "compatibility_sku_type mode ops \<in> {''new'', ''renewal'', ''upgrade'', ''traffic_pack'', ''traffic_reset''}"
  "compatibility_sku_type mode ops = ''traffic_pack'' \<longleftrightarrow> mode = ''traffic_addon''"
  "lower_trim uc (compatibility_sku_type mode ops) = compatibility_sku_type mode ops"
  by (simp_all add: compatibility_sku_type_def)

lemma build_legacy_sku_spec:
  assumes "build_legacy_sku uc plan_id r = Inr s"
  shows "sk_unit s = lower_trim uc (lq_unit r)" "sk_unit s \<in> {''day'', ''month'', ''year'', ''once''}" "0 < sk_value s"
    "sk_value s = lq_value r" "0 \<le> sk_price s" "sk_code s \<noteq> []" "sk_name s \<noteq> []" "sk_currency s \<noteq> []"
    "sk_traffic s = lq_traffic r" "sk_device s = lq_device r" "sk_speed s = lq_speed r" "sk_plan s = plan_id"
    "sk_type s = (let t = lower_trim uc (lq_type r) in if t = [] then ''new'' else t)"
proof -
  have ok: "(if fs \<noteq> [] then Inl e else Inr x) = Inr y \<longleftrightarrow> fs = [] \<and> x = y" for fs :: "string list" and e x and y :: sku
    by simp
  note f = assms[unfolded build_legacy_sku_def Let_def, unfolded ok, unfolded flag_Nil]
  have s: "s = \<lparr>sk_id = 0, sk_plan = plan_id, sk_code = lower_trim uc (lq_code r), sk_name = trim_space (lq_name r),
      sk_type = (let t = lower_trim uc (lq_type r) in if t = [] then ''new'' else t), sk_billing_mode = [],
      sk_entitlement_mode = [], sk_effect = [], sk_unit = lower_trim uc (lq_unit r), sk_value = lq_value r, sk_price = lq_price r,
      sk_currency = upper_trim uc (lq_currency r), sk_traffic = lq_traffic r, sk_device = lq_device r, sk_speed = lq_speed r,
      sk_active = (case lq_active r of None \<Rightarrow> True | Some a \<Rightarrow> a), sk_sort = lq_sort r,
      sk_created = 0, sk_updated = 0, sk_archived = None\<rparr>"
    unfolding Let_def by (rule conjunct2[OF f, symmetric])
  have u: "lower_trim uc (lq_unit r) \<in> {''day'', ''month'', ''year'', ''once''}" using f by blast
  with f have "0 < lq_value r" "0 \<le> lq_price r" "lower_trim uc (lq_code r) \<noteq> []" "trim_space (lq_name r) \<noteq> []"
    "upper_trim uc (lq_currency r) \<noteq> []" by linarith+
  with u show "sk_unit s = lower_trim uc (lq_unit r)" "sk_unit s \<in> {''day'', ''month'', ''year'', ''once''}" "0 < sk_value s"
    "sk_value s = lq_value r" "0 \<le> sk_price s" "sk_code s \<noteq> []" "sk_name s \<noteq> []" "sk_currency s \<noteq> []"
    "sk_traffic s = lq_traffic r" "sk_device s = lq_device r" "sk_speed s = lq_speed r" "sk_plan s = plan_id"
    "sk_type s = (let t = lower_trim uc (lq_type r) in if t = [] then ''new'' else t)"
    unfolding s sku.select_convs by - (assumption | rule refl)+
qed

text \<open>A specification that may be sold: its three purposes exclude each other and fix everything else.\<close>

definition sellable :: "normalized_sku \<Rightarrow> bool" where
  "sellable n \<longleftrightarrow>
     sk_unit (ns_sku n) \<in> {''day'', ''month'', ''year'', ''once''} \<and> 0 < sk_value (ns_sku n) \<and> 0 \<le> sk_price (ns_sku n)
     \<and> sk_device (ns_sku n) = 0 \<and> sk_speed (ns_sku n) = 0
     \<and> (ns_entitlement_mode n = ''traffic_addon'' \<and> ns_operations n = [''addon''] \<and> ns_billing_mode n = ''one_time''
          \<and> sk_unit (ns_sku n) = ''once'' \<and> 0 < sk_traffic (ns_sku n) \<and> ns_effect n = ''none''
        \<or> ns_entitlement_mode n = ''traffic_reset'' \<and> ns_operations n = [''reset''] \<and> ns_billing_mode n = ''one_time''
          \<and> sk_unit (ns_sku n) = ''once'' \<and> sk_traffic (ns_sku n) = 0 \<and> ns_effect n = ''none''
        \<or> ns_entitlement_mode n = ''plan'' \<and> ns_operations n \<noteq> [] \<and> set (ns_operations n) \<subseteq> {''purchase'', ''renew'', ''change''}
          \<and> sk_traffic (ns_sku n) = 0 \<and> (ns_billing_mode n = ''periodic'' \<longrightarrow> sk_unit (ns_sku n) \<noteq> ''once'')
          \<and> (if ''renew'' \<in> set (ns_operations n)
             then (if sk_unit (ns_sku n) = ''once'' then ns_effect n = ''add_quota_only''
                   else ns_effect n \<in> {''extend_only'', ''extend_and_add_quota''})
             else ns_effect n = ''none''))"

lemma mode_fields_sound:
  assumes "sku_mode_fields r billing unit mode (requested_effect uc r unit mode ops) ops traffic = []"
    "\<forall>op \<in> set ops. operation_rank op \<noteq> None"
  shows "mode = ''traffic_addon'' \<and> ops = [''addon''] \<and> billing = ''one_time'' \<and> unit = ''once'' \<and> 0 < traffic
    \<or> mode = ''traffic_reset'' \<and> ops = [''reset''] \<and> billing = ''one_time'' \<and> unit = ''once''
    \<or> mode = ''plan'' \<and> set ops \<subseteq> {''purchase'', ''renew'', ''change''} \<and> (billing = ''periodic'' \<longrightarrow> unit \<noteq> ''once'')
      \<and> (''renew'' \<in> set ops \<longrightarrow> (if unit = ''once'' then requested_effect uc r unit mode ops = ''add_quota_only''
           else requested_effect uc r unit mode ops \<in> {''extend_only'', ''extend_and_add_quota''}))"
proof -
  consider "mode = ''traffic_addon''" | "mode = ''traffic_reset''" | "mode = ''plan''"
    using assms(1) by (auto simp: sku_mode_fields_def split: if_splits)
  then show ?thesis
  proof cases
    case 1
    with assms(1) show ?thesis by (simp add: sku_mode_fields_def addon_fields_def Let_def)
  next
    case 2
    with assms(1) show ?thesis by (simp add: sku_mode_fields_def reset_fields_def Let_def)
  next
    case 3
    with assms(1) have f: "plan_fields r billing unit (requested_effect uc r unit mode ops) ops = []"
      by (simp add: sku_mode_fields_def)
    then have "''reset'' \<notin> set ops" "''addon'' \<notin> set ops" by (simp_all add: plan_fields_def contains_operation_def Let_def)
    with assms(2) have "set ops \<subseteq> {''purchase'', ''renew'', ''change''}" unfolding known_operations by blast
    moreover have "billing = ''periodic'' \<longrightarrow> unit \<noteq> ''once''"
      and "''renew'' \<in> set ops \<longrightarrow> unit = ''once'' \<longrightarrow> requested_effect uc r unit mode ops = ''add_quota_only''"
      and "''renew'' \<in> set ops \<longrightarrow> unit \<noteq> ''once'' \<longrightarrow>
        requested_effect uc r unit mode ops \<in> {''extend_only'', ''extend_and_add_quota''}"
      using f unfolding plan_fields_def contains_operation_def Let_def flag_Nil insert_iff empty_iff by blast+
    ultimately show ?thesis using 3 by (simp only: if_split) blast
  qed
qed

lemma normalize_sku_elim:
  assumes "normalize_sku uc plan_id r = Inr n"
  obtains ops s where "normalize_operations uc (kq_operations r) (kq_type r) = Inr ops"
    and "sku_mode_fields r (requested_billing_mode uc r) (lower_trim uc (kq_unit r)) (requested_entitlement_mode uc r ops)
      (requested_effect uc r (lower_trim uc (kq_unit r)) (requested_entitlement_mode uc r ops) ops) ops
      (if kq_grant r = 0 then kq_traffic r else kq_grant r) = []"
    and "build_legacy_sku uc plan_id
       \<lparr>lq_code = kq_code r, lq_name = kq_name r, lq_type = compatibility_sku_type (requested_entitlement_mode uc r ops) ops,
        lq_unit = kq_unit r, lq_value = kq_value r, lq_price = kq_price r, lq_currency = kq_currency r,
        lq_traffic = (if requested_entitlement_mode uc r ops = ''traffic_addon'' then (if kq_grant r = 0 then kq_traffic r else kq_grant r) else 0),
        lq_device = 0, lq_speed = 0, lq_active = kq_active r, lq_sort = kq_sort r\<rparr> = Inr s"
    and "n = \<lparr>ns_sku = s\<lparr>sk_billing_mode := requested_billing_mode uc r, sk_entitlement_mode := requested_entitlement_mode uc r ops,
          sk_effect := requested_effect uc r (lower_trim uc (kq_unit r)) (requested_entitlement_mode uc r ops) ops\<rparr>,
        ns_billing_mode = requested_billing_mode uc r, ns_entitlement_mode = requested_entitlement_mode uc r ops,
        ns_effect = requested_effect uc r (lower_trim uc (kq_unit r)) (requested_entitlement_mode uc r ops) ops, ns_operations = ops\<rparr>"
  using assms unfolding normalize_sku_def Let_def by auto

lemma normalize_sku_sellable:
  assumes "normalize_sku uc plan_id r = Inr n"
  shows "sellable n"
  using assms
proof (rule normalize_sku_elim)
  let ?unit = "lower_trim uc (kq_unit r)"
  fix ops s
  assume ops: "normalize_operations uc (kq_operations r) (kq_type r) = Inr ops"
    and fs: "sku_mode_fields r (requested_billing_mode uc r) (lower_trim uc (kq_unit r)) (requested_entitlement_mode uc r ops)
      (requested_effect uc r (lower_trim uc (kq_unit r)) (requested_entitlement_mode uc r ops) ops) ops
      (if kq_grant r = 0 then kq_traffic r else kq_grant r) = []"
    and s: "build_legacy_sku uc plan_id
       \<lparr>lq_code = kq_code r, lq_name = kq_name r, lq_type = compatibility_sku_type (requested_entitlement_mode uc r ops) ops,
        lq_unit = kq_unit r, lq_value = kq_value r, lq_price = kq_price r, lq_currency = kq_currency r,
        lq_traffic = (if requested_entitlement_mode uc r ops = ''traffic_addon'' then (if kq_grant r = 0 then kq_traffic r else kq_grant r) else 0),
        lq_device = 0, lq_speed = 0, lq_active = kq_active r, lq_sort = kq_sort r\<rparr> = Inr s"
    and n: "n = \<lparr>ns_sku = s\<lparr>sk_billing_mode := requested_billing_mode uc r, sk_entitlement_mode := requested_entitlement_mode uc r ops,
          sk_effect := requested_effect uc r (lower_trim uc (kq_unit r)) (requested_entitlement_mode uc r ops) ops\<rparr>,
        ns_billing_mode = requested_billing_mode uc r, ns_entitlement_mode = requested_entitlement_mode uc r ops,
        ns_effect = requested_effect uc r (lower_trim uc (kq_unit r)) (requested_entitlement_mode uc r ops) ops, ns_operations = ops\<rparr>"
  define mode where "mode = requested_entitlement_mode uc r ops"
  define effect where "effect = requested_effect uc r ?unit mode ops"
  note o = normalize_operations_spec[OF ops]
  note b = build_legacy_sku_spec[OF s]
  have eff: "mode = ''traffic_addon'' \<or> ''renew'' \<notin> set ops \<Longrightarrow> effect = ''none''"
    by (auto simp: effect_def requested_effect_def contains_operation_def Let_def)
  from mode_fields_sound[OF fs o(5)] b o(4) eff show ?thesis
    unfolding sellable_def n mode_def[symmetric] effect_def[symmetric] by (elim disjE conjE) (simp_all split: if_splits)
qed

lemma normalize_sku_type:
  assumes "normalize_sku uc plan_id r = Inr n"
  shows "sk_plan (ns_sku n) = plan_id" "sk_type (ns_sku n) = compatibility_sku_type (ns_entitlement_mode n) (ns_operations n)"
    "sk_billing_mode (ns_sku n) = ns_billing_mode n" "sk_entitlement_mode (ns_sku n) = ns_entitlement_mode n"
    "sk_effect (ns_sku n) = ns_effect n" "sk_currency (ns_sku n) \<noteq> []" "ns_billing_mode n \<in> {''periodic'', ''one_time''}"
proof -
  from assms show "ns_billing_mode n \<in> {''periodic'', ''one_time''}"
    by (auto simp: normalize_sku_def Let_def split: if_splits)
  from assms obtain ops s plan_req where s: "build_legacy_sku uc plan_id plan_req = Inr s"
    "lq_type plan_req = compatibility_sku_type (ns_entitlement_mode n) (ns_operations n)"
    "ns_sku n = s\<lparr>sk_billing_mode := ns_billing_mode n, sk_entitlement_mode := ns_entitlement_mode n, sk_effect := ns_effect n\<rparr>"
    by (elim normalize_sku_elim) simp
  note b = build_legacy_sku_spec[OF s(1)]
  have t: "compatibility_sku_type m os \<noteq> []" for m os by (simp add: compatibility_sku_type_def)
  from b show "sk_plan (ns_sku n) = plan_id" "sk_type (ns_sku n) = compatibility_sku_type (ns_entitlement_mode n) (ns_operations n)"
    "sk_billing_mode (ns_sku n) = ns_billing_mode n" "sk_entitlement_mode (ns_sku n) = ns_entitlement_mode n"
    "sk_effect (ns_sku n) = ns_effect n" "sk_currency (ns_sku n) \<noteq> []"
    by (simp_all add: s t Let_def compatibility_type_cases)
qed

section \<open>A concrete request\<close>

definition sample_sku_request :: sku_request where
  "sample_sku_request = \<lparr>kq_code = ''Pro-M'', kq_name = ''Pro monthly'', kq_type = ''new'', kq_billing_mode = [], kq_entitlement_mode = [],
     kq_effect = [], kq_operations = [''renew'', ''Purchase''], kq_unit = ''Month'', kq_value = 1, kq_price = 990,
     kq_currency = ''usd'', kq_grant = 0, kq_traffic = 0, kq_device = 0, kq_speed = 0, kq_active = None, kq_sort = 1\<rparr>"

section \<open>Properties\<close>

text \<open>
  \<open>NormalizeOperations\<close> is a normal form: its result is exactly the set of the trimmed lower-cased inputs,
  without repetition, in the order purchase, renew, change, addon, reset; two lists naming the same operations
  in any order, spelling and multiplicity give the same result.
\<close>
theorem normalize_operations_canonical:
  assumes "normalize_operations uc vals t = Inr ops" "vals \<noteq> []"
  shows "distinct ops \<and> sorted (map rank_of ops) \<and> set ops = lower_trim uc ` set vals
    \<and> set ops \<subseteq> {''purchase'', ''renew'', ''change'', ''addon'', ''reset''}
    \<and> (vals' \<noteq> [] \<and> lower_trim uc ` set vals' = lower_trim uc ` set vals \<longrightarrow> normalize_operations uc vals' t' = Inr ops)"
proof -
  note o = normalize_operations_spec[OF assms(1)]
  have same: "normalize_operations uc vals' t' = Inr ops"
    if v: "vals' \<noteq> []" "lower_trim uc ` set vals' = lower_trim uc ` set vals"
  proof -
    have "operation_rank (lower_trim uc v) \<noteq> None" if "v \<in> set vals'" for v
    proof -
      have "lower_trim uc v \<in> set ops" using that v o(3) assms(2) by auto
      with o(5) show ?thesis by blast
    qed
    then obtain w where w: "collect_operations uc vals' [] = Inr w" using collect_operations_known by blast
    with v(1) collect_operations_spec[OF w] have n: "normalize_operations uc vals' t' = Inr (sort_key rank_of w)"
      by (auto simp: normalize_operations_def)
    note o' = normalize_operations_spec[OF n]
    from normal_operations_unique[OF o(1) o'(1) _ o(2) o'(2) o(5)] o(3) o'(3) v assms(2) n show ?thesis by simp
  qed
  have "set ops \<subseteq> {''purchase'', ''renew'', ''change'', ''addon'', ''reset''}"
    using o(5) known_operations by (simp only: subset_iff) blast
  with o(1-3) assms(2) same show ?thesis by simp
qed

theorem normalize_operations_canonical_witness:
  "normalize_operations ascii_unicode ['' Renew'', ''purchase'', ''RENEW''] [] = Inr [''purchase'', ''renew'']
    \<and> normalize_operations ascii_unicode [''purchase'', ''renew''] [] = Inr [''purchase'', ''renew'']"
proof -
  have a: "normalize_operations ascii_unicode ['' Renew'', ''purchase'', ''RENEW''] [] = Inr [''purchase'', ''renew'']"
    by code_simp
  have "[''purchase'', ''renew''] \<noteq> [] \<and> lower_trim ascii_unicode ` set [''purchase'', ''renew''] = lower_trim ascii_unicode ` set ['' Renew'', ''purchase'', ''RENEW'']"
    by code_simp
  with normalize_operations_canonical[OF a, of "[''purchase'', ''renew'']" "[]"] a show ?thesis by blast
qed

text \<open>
  C39. Every specification \<open>NormalizeSKU\<close> accepts may be sold: its unit is a billing unit with a positive value, its
  price is not negative, exactly one of the three purposes (traffic to add, traffic reset, plan) holds with the
  operations, billing mode, traffic and renewal effect that purpose needs, and its compatibility type is
  \<open>traffic_pack\<close> exactly for traffic to add. The calendar can therefore always bill it.
\<close>
theorem normalized_sku_billable:
  assumes "normalize_sku uc plan_id r = Inr n"
  shows "sellable n \<and> sk_plan (ns_sku n) = plan_id
    \<and> (sk_type (ns_sku n) = ''traffic_pack'' \<longleftrightarrow> ns_entitlement_mode n = ''traffic_addon'')
    \<and> (\<exists>e. add_billing_period t (sk_unit (ns_sku n)) (sk_value (ns_sku n)) = Inr e)"
proof -
  have s: "sellable n" by (rule normalize_sku_sellable[OF assms])
  then have "\<exists>e. add_billing_period t (sk_unit (ns_sku n)) (sk_value (ns_sku n)) = Inr e"
    by (auto simp: sellable_def add_billing_period_def)
  with s normalize_sku_type[OF assms] show ?thesis by (simp add: compatibility_type_cases)
qed

theorem normalized_sku_billable_witness:
  "\<exists>n. normalize_sku ascii_unicode 7 sample_sku_request = Inr n \<and> sellable n \<and> ns_operations n = [''purchase'', ''renew'']
    \<and> (\<exists>e. add_billing_period 0 (sk_unit (ns_sku n)) (sk_value (ns_sku n)) = Inr e)"
proof -
  have "(case normalize_sku ascii_unicode 7 sample_sku_request of Inl _ \<Rightarrow> False | Inr n \<Rightarrow> ns_operations n = [''purchase'', ''renew''])"
    by code_simp
  then obtain n where n: "normalize_sku ascii_unicode 7 sample_sku_request = Inr n" "ns_operations n = [''purchase'', ''renew'']"
    by (auto split: sum.splits)
  from n normalized_sku_billable[OF n(1), of 0] show ?thesis by blast
qed

end
