(* ===== verification/WalletLedger.thy ===== *)
theory WalletLedger
  imports Orders
begin

text \<open>
  The wallet ledger of \<^verbatim>\<open>adapters/persistence/commercestore/wallet_credit.go\<close> with the tables it reads
  and writes (\<^verbatim>\<open>model/wallet.go\<close>, \<^verbatim>\<open>wallet_adjustment.go\<close>, \<^verbatim>\<open>order_funding.go\<close>). The database is
  one record of tables; an operation returns the new tables or an error, and an error rolls the
  transaction back. Row locks serialise transactions, so an operation sees the tables of the last
  committed one. The columns \<open>gorm\<close> fills by itself (\<open>created_at\<close> of an account) are left out.
\<close>

section \<open>Tables\<close>

record user_row =
  ur_status :: string
  ur_admin :: bool
  ur_deleted :: bool

record wallet_account =
  wa_balance :: int
  wa_reserved :: int
  wa_revision :: nat

record wallet_entry =
  en_id :: nat
  en_key :: string
  en_user :: nat
  en_currency :: string
  en_kind :: string
  en_balance_delta :: int
  en_reserved_delta :: int
  en_balance_before :: int
  en_balance_after :: int
  en_reserved_before :: int
  en_reserved_after :: int
  en_order :: "nat option"
  en_reason :: string
  en_created :: gotime

record wallet_adjustment =
  ad_id :: nat
  ad_key :: string
  ad_fingerprint :: string
  ad_user :: nat
  ad_currency :: string
  ad_amount :: int
  ad_reason :: string
  ad_ticket :: nat
  ad_actor :: nat
  ad_entry :: nat
  ad_reversal_entry :: "nat option"
  ad_reversal_actor :: "nat option"
  ad_reversal_reason :: string
  ad_status :: string
  ad_created :: gotime
  ad_updated :: gotime

record wallet_payout =
  py_id :: nat
  py_adjustment :: nat
  py_key :: string
  py_fingerprint :: string
  py_actor :: nat
  py_outcome :: string
  py_reference :: string
  py_note :: string
  py_occurred :: gotime
  py_created :: gotime

record order_funding =
  fu_entitlement :: int
  fu_order :: nat
  fu_user :: nat
  fu_currency :: string
  fu_use_balance :: bool
  fu_amount :: int
  fu_wallet :: int
  fu_cash :: int
  fu_state :: string
  fu_expires :: gotime
  fu_captured :: "gotime option"
  fu_released :: "gotime option"
  fu_release_reason :: string

text \<open>Of a settlement of replaced value only the columns the wallet reads are kept.\<close>

record value_settlement =
  vs_key :: string
  vs_user :: nat
  vs_kind :: string
  vs_applied :: int
  vs_currency :: string

text \<open>An audit row keeps its account, action and target; the actor label and detail are text.\<close>

record audit_row =
  au_user :: "nat option"
  au_action :: string
  au_target :: string

text \<open>
  The sequences are the counters behind the automatic primary keys; of the payment attempts and events only
  the order each belongs to is kept.
\<close>

record shop_db =
  db_users :: "nat \<Rightarrow> user_row option"
  db_tickets :: "nat \<Rightarrow> nat option"
  db_accounts :: "nat \<times> string \<Rightarrow> wallet_account option"
  db_entries :: "wallet_entry list"
  db_entry_seq :: nat
  db_adjustments :: "wallet_adjustment list"
  db_adjustment_seq :: nat
  db_payouts :: "wallet_payout list"
  db_payout_seq :: nat
  db_orders :: "nat \<Rightarrow> order option"
  db_fundings :: "order_funding list"
  db_attempts :: "nat list"
  db_events :: "nat list"
  db_settlements :: "value_settlement list"
  db_audit :: "audit_row list"

definition empty_db :: shop_db where
  "empty_db = \<lparr>db_users = (\<lambda>_. None), db_tickets = (\<lambda>_. None), db_accounts = (\<lambda>_. None), db_entries = [], db_entry_seq = 0,
     db_adjustments = [], db_adjustment_seq = 0, db_payouts = [], db_payout_seq = 0, db_orders = (\<lambda>_. None),
     db_fundings = [], db_attempts = [], db_events = [], db_settlements = [], db_audit = []\<rparr>"

definition audit :: "nat option \<Rightarrow> string \<Rightarrow> string \<Rightarrow> shop_db \<Rightarrow> shop_db" where
  "audit user action target db = db\<lparr>db_audit := db_audit db @ [\<lparr>au_user = user, au_action = action, au_target = target\<rparr>]\<rparr>"

text \<open>
  What the store takes from outside: the Unicode tables, SHA-256 in hexadecimal (\<open>walletKey\<close>) and the
  JSON text of the two requests that are fingerprinted.
\<close>

record debit_request =
  dr_idempotency :: string
  dr_user :: nat
  dr_currency :: string
  dr_amount :: int
  dr_ticket :: nat
  dr_reason :: string

record payout_request =
  pr_idempotency :: string
  pr_outcome :: string
  pr_reference :: string
  pr_note :: string
  pr_occurred :: gotime

record wallet_env =
  we_unicode :: go_unicode
  we_hash :: "string \<Rightarrow> string"
  we_debit_json :: "debit_request \<Rightarrow> string"
  we_payout_json :: "nat \<Rightarrow> payout_request \<Rightarrow> string"

section \<open>Authority\<close>

text \<open>\<open>orderReader\<close>: the actor must be a current active user, and an administrator where asked.\<close>

definition order_reader :: "shop_db \<Rightarrow> nat \<Rightarrow> bool \<Rightarrow> unit result" where
  "order_reader db actor admin =
     (if actor = 0 then Inl ErrOrderPermission
      else case db_users db actor of
          None \<Rightarrow> Inl ErrOrderPermission
        | Some u \<Rightarrow> if ur_deleted u then Inl ErrOrderPermission
            else if ur_status u \<noteq> ''active'' \<or> (admin \<and> \<not> ur_admin u) then Inl ErrOrderPermission else Inr ())"

section \<open>The ledger\<close>

definition normalize_wallet_currency :: "go_unicode \<Rightarrow> string \<Rightarrow> string result" where
  "normalize_wallet_currency uc s =
     (let c = upper_trim uc s in
      if length c \<noteq> 3 then Inl (ErrValidation []) else if \<not> all_capitals c then Inl (ErrValidation []) else Inr c)"

definition add_wallet_minor :: "int \<Rightarrow> int \<Rightarrow> int option" where
  "add_wallet_minor val delta =
     (if val < 0 \<or> delta = min64 \<or> (delta > 0 \<and> val > sub64 max64 delta) \<or> (delta < 0 \<and> val < sub64 0 delta) then None
      else Some (add64 val delta))"

definition account_broken :: "wallet_account \<Rightarrow> bool" where
  "account_broken a \<longleftrightarrow> wa_balance a < 0 \<or> wa_reserved a < 0 \<or> wa_reserved a > wa_balance a"

definition entries_of :: "shop_db \<Rightarrow> nat \<Rightarrow> string \<Rightarrow> wallet_entry list" where
  "entries_of db user currency = filter (\<lambda>e. en_user e = user \<and> en_currency e = currency) (db_entries db)"

definition wallet_available :: "shop_db \<Rightarrow> nat \<Rightarrow> string \<Rightarrow> int result" where
  "wallet_available db user currency =
     (case db_accounts db (user, currency) of
        None \<Rightarrow> if entries_of db user currency \<noteq> [] then Inl ErrWalletUnavailable else Inr 0
      | Some a \<Rightarrow> if account_broken a then Inl ErrWalletUnavailable else Inr (sub64 (wa_balance a) (wa_reserved a)))"

definition lock_wallet_account :: "shop_db \<Rightarrow> nat \<Rightarrow> string \<Rightarrow> (wallet_account \<times> shop_db) result" where
  "lock_wallet_account db user currency =
     try_bind (wallet_available db user currency) (\<lambda>_.
       case db_accounts db (user, currency) of
         None \<Rightarrow> (let a = \<lparr>wa_balance = 0, wa_reserved = 0, wa_revision = 1\<rparr>
                  in Inr (a, db\<lparr>db_accounts := (db_accounts db)((user, currency) := Some a)\<rparr>))
       | Some a \<Rightarrow> Inr (a, db))"

definition find_entry :: "shop_db \<Rightarrow> string \<Rightarrow> wallet_entry option" where
  "find_entry db key = List.find (\<lambda>e. en_key e = key) (db_entries db)"

record entry_source =
  src_user :: nat
  src_currency :: string
  src_order :: "nat option"

definition append_wallet_entry :: "go_unicode \<Rightarrow> shop_db \<Rightarrow> entry_source \<Rightarrow> string \<Rightarrow> string \<Rightarrow> string \<Rightarrow> int \<Rightarrow> int \<Rightarrow> gotime \<Rightarrow>
    (nat \<times> shop_db) result" where
  "append_wallet_entry uc db src key kind reason bd rd now =
     (if bd = 0 \<and> rd = 0 then Inl ErrWalletUnavailable
      else if normalize_wallet_currency uc (src_currency src) \<noteq> Inr (src_currency src) then Inl (ErrNamed ''ErrPaymentFactConflict'')
      else try_bind (lock_wallet_account db (src_user src) (src_currency src)) (\<lambda>(a, db).
        case find_entry db key of
          Some e \<Rightarrow>
            if en_user e \<noteq> src_user src \<or> en_currency e \<noteq> src_currency src \<or> en_balance_delta e \<noteq> bd \<or> en_reserved_delta e \<noteq> rd
               \<or> en_kind e \<noteq> kind \<or> en_order e \<noteq> src_order src then Inl (ErrNamed ''ErrPaymentFactConflict'')
            else Inr (en_id e, db)
        | None \<Rightarrow>
            if account_broken a then Inl ErrWalletUnavailable
            else case add_wallet_minor (wa_balance a) bd of
                None \<Rightarrow> Inl (ErrNamed ''ErrWalletRange'')
              | Some balance_after \<Rightarrow> (case add_wallet_minor (wa_reserved a) rd of
                  None \<Rightarrow> Inl ErrWalletUnavailable
                | Some reserved_after \<Rightarrow>
                    if reserved_after > balance_after then Inl ErrWalletUnavailable
                    else let i = Suc (db_entry_seq db);
                             e = \<lparr>en_id = i, en_key = key, en_user = src_user src, en_currency = src_currency src, en_kind = kind,
                                  en_balance_delta = bd, en_reserved_delta = rd, en_balance_before = wa_balance a,
                                  en_balance_after = balance_after, en_reserved_before = wa_reserved a,
                                  en_reserved_after = reserved_after, en_order = src_order src, en_reason = reason, en_created = now\<rparr>
                         in Inr (i, db\<lparr>db_entries := db_entries db @ [e], db_entry_seq := i,
                              db_accounts := (db_accounts db)((src_user src, src_currency src) :=
                                Some (a\<lparr>wa_balance := balance_after, wa_reserved := reserved_after, wa_revision := Suc (wa_revision a)\<rparr>))\<rparr>))))"

definition append_wallet_change :: "go_unicode \<Rightarrow> shop_db \<Rightarrow> order \<Rightarrow> string \<Rightarrow> string \<Rightarrow> string \<Rightarrow> int \<Rightarrow> int \<Rightarrow> gotime \<Rightarrow>
    (nat \<times> shop_db) result" where
  "append_wallet_change uc db r key kind reason bd rd now =
     (if or_id r = 0 then Inl ErrWalletUnavailable
      else append_wallet_entry uc db \<lparr>src_user = or_user r, src_currency = or_currency r, src_order = Some (or_id r)\<rparr>
        key kind reason bd rd now)"

definition append_wallet_credit :: "go_unicode \<Rightarrow> shop_db \<Rightarrow> order \<Rightarrow> string \<Rightarrow> string \<Rightarrow> string \<Rightarrow> int \<Rightarrow> gotime \<Rightarrow>
    (nat \<times> shop_db) result" where
  "append_wallet_credit uc db r key kind reason amount now =
     (if amount \<le> 0 then Inl (ErrNamed ''ErrPaymentFactConflict'') else append_wallet_change uc db r key kind reason amount 0 now)"

section \<open>What a sound ledger is\<close>

text \<open>
  The reference reading of a ledger: replaying the entries of one account from zero, each entry must
  start where the previous one ended, add its deltas exactly and leave the reserve covered.
\<close>

fun replay_entries :: "int \<Rightarrow> int \<Rightarrow> wallet_entry list \<Rightarrow> (int \<times> int) option" where
  "replay_entries b r [] = Some (b, r)"
| "replay_entries b r (e # es) =
     (if en_balance_before e = b \<and> en_reserved_before e = r \<and> en_balance_after e = b + en_balance_delta e
         \<and> en_reserved_after e = r + en_reserved_delta e \<and> 0 \<le> en_reserved_after e
         \<and> en_reserved_after e \<le> en_balance_after e \<and> en_balance_after e \<le> max64
      then replay_entries (en_balance_after e) (en_reserved_after e) es else None)"

definition balance_of :: "shop_db \<Rightarrow> nat \<Rightarrow> string \<Rightarrow> int" where
  "balance_of db u c = (case db_accounts db (u, c) of None \<Rightarrow> 0 | Some a \<Rightarrow> wa_balance a)"

definition reserved_of :: "shop_db \<Rightarrow> nat \<Rightarrow> string \<Rightarrow> int" where
  "reserved_of db u c = (case db_accounts db (u, c) of None \<Rightarrow> 0 | Some a \<Rightarrow> wa_reserved a)"

definition ledger_ok :: "shop_db \<Rightarrow> bool" where
  "ledger_ok db \<longleftrightarrow> distinct (map en_key (db_entries db)) \<and> distinct (map en_id (db_entries db))
     \<and> (\<forall>e \<in> set (db_entries db). en_id e \<le> db_entry_seq db)
     \<and> (\<forall>u c. replay_entries 0 0 (entries_of db u c) = Some (balance_of db u c, reserved_of db u c)
          \<and> (db_accounts db (u, c) = None \<longrightarrow> entries_of db u c = []))"

lemma replay_append:
  "replay_entries b r (es @ fs) = (case replay_entries b r es of None \<Rightarrow> None | Some (b', r') \<Rightarrow> replay_entries b' r' fs)"
  by (induction b r es rule: replay_entries.induct) simp_all

lemma replay_bounds:
  "replay_entries b r es = Some (b', r') \<Longrightarrow> 0 \<le> r \<Longrightarrow> r \<le> b \<Longrightarrow> b \<le> max64 \<Longrightarrow> 0 \<le> r' \<and> r' \<le> b' \<and> b' \<le> max64"
  by (induction b r es rule: replay_entries.induct) (auto split: if_splits)

lemma replay_sums:
  "replay_entries b r es = Some (b', r') \<Longrightarrow>
     b' = b + sum_list (map en_balance_delta es) \<and> r' = r + sum_list (map en_reserved_delta es)"
  by (induction b r es rule: replay_entries.induct) (auto split: if_splits)

lemma max64_nonneg: "0 \<le> max64" by (simp add: max64_def)

lemma ledger_bounds:
  assumes "ledger_ok db"
  shows "0 \<le> reserved_of db u c" "reserved_of db u c \<le> balance_of db u c" "balance_of db u c \<le> max64"
  using replay_bounds[of 0 0 "entries_of db u c"] assms max64_nonneg by (auto simp: ledger_ok_def)

lemma ledger_account_sound:
  assumes "ledger_ok db" "db_accounts db (u, c) = Some a"
  shows "\<not> account_broken a"
  using ledger_bounds[OF assms(1), of u c] assms(2) by (simp add: account_broken_def balance_of_def reserved_of_def)

lemma ledger_account_exists: "ledger_ok db \<Longrightarrow> db_accounts db (u, c) = None \<Longrightarrow> entries_of db u c = []"
  by (simp add: ledger_ok_def)

lemma find_entry_None: "find_entry db key = None \<longleftrightarrow> key \<notin> en_key ` set (db_entries db)"
  by (auto simp: find_entry_def find_None_iff)

lemma find_entry_Some:
  "find_entry db key = Some e \<Longrightarrow> e \<in> set (db_entries db) \<and> en_key e = key"
  by (auto simp: find_entry_def find_Some_iff)

lemma find_entry_unique:
  assumes "ledger_ok db" "e \<in> set (db_entries db)"
  shows "find_entry db (en_key e) = Some e"
proof (cases "find_entry db (en_key e)")
  case None
  with assms(2) show ?thesis by (auto simp: find_entry_None)
next
  case (Some f)
  from find_entry_Some[OF this] assms have "f = e" by (auto simp: ledger_ok_def distinct_map dest: inj_onD)
  with Some show ?thesis by simp
qed

lemma add_wallet_minor_exact:
  assumes "add_wallet_minor v d = Some w" "v \<le> max64" "in64 d"
  shows "w = v + d" "0 \<le> w" "w \<le> max64"
proof -
  have v: "0 \<le> v" "d \<noteq> min64" "d > 0 \<longrightarrow> v \<le> sub64 max64 d" "d < 0 \<longrightarrow> sub64 0 d \<le> v" "w = add64 v d"
    using assms(1) by (auto simp: add_wallet_minor_def split: if_splits)
  have m: "d > 0 \<Longrightarrow> sub64 max64 d = max64 - d" "d < 0 \<Longrightarrow> sub64 0 d = - d"
    using assms(3) v(2) by (auto simp: int64_simps sub64_def)
  have b: "0 \<le> v + d" "v + d \<le> max64" using v m assms(2) by (cases "d > 0"; cases "d < 0"; simp)+
  then have "add64 v d = v + d" by (intro add64_exact) (simp add: int64_simps)
  with v(5) b show "w = v + d" "0 \<le> w" "w \<le> max64" by simp_all
qed

lemma wallet_available_value:
  assumes "ledger_ok db"
  shows "wallet_available db u c = Inr (balance_of db u c - reserved_of db u c)"
proof (cases "db_accounts db (u, c)")
  case None
  with assms show ?thesis by (simp add: wallet_available_def balance_of_def reserved_of_def ledger_ok_def)
next
  case (Some a)
  with ledger_bounds[OF assms, of u c] show ?thesis
    by (simp add: wallet_available_def ledger_account_sound[OF assms Some] balance_of_def reserved_of_def sub64_nonneg)
qed

section \<open>Appending keeps the ledger sound\<close>

definition new_entry :: "shop_db \<Rightarrow> entry_source \<Rightarrow> string \<Rightarrow> string \<Rightarrow> string \<Rightarrow> int \<Rightarrow> int \<Rightarrow> gotime \<Rightarrow> wallet_entry" where
  "new_entry db src key kind reason bd rd now =
     (let b = balance_of db (src_user src) (src_currency src); r = reserved_of db (src_user src) (src_currency src) in
      \<lparr>en_id = Suc (db_entry_seq db), en_key = key, en_user = src_user src, en_currency = src_currency src, en_kind = kind,
       en_balance_delta = bd, en_reserved_delta = rd, en_balance_before = b, en_balance_after = b + bd,
       en_reserved_before = r, en_reserved_after = r + rd, en_order = src_order src, en_reason = reason, en_created = now\<rparr>)"

definition same_entry :: "wallet_entry \<Rightarrow> entry_source \<Rightarrow> string \<Rightarrow> int \<Rightarrow> int \<Rightarrow> bool" where
  "same_entry e src kind bd rd \<longleftrightarrow> en_user e = src_user src \<and> en_currency e = src_currency src \<and> en_balance_delta e = bd
     \<and> en_reserved_delta e = rd \<and> en_kind e = kind \<and> en_order e = src_order src"

definition post_entry :: "shop_db \<Rightarrow> wallet_entry \<Rightarrow> nat \<Rightarrow> shop_db" where
  "post_entry db e vn = db\<lparr>db_entries := db_entries db @ [e], db_entry_seq := en_id e,
     db_accounts := (db_accounts db)((en_user e, en_currency e) :=
       Some \<lparr>wa_balance = en_balance_after e, wa_reserved = en_reserved_after e, wa_revision = vn\<rparr>)\<rparr>"

lemma append_wallet_entry_cases:
  assumes "append_wallet_entry uc db src key kind reason bd rd now = Inr (i, db')" "ledger_ok db" "in64 bd" "in64 rd"
  obtains (again) e where "e \<in> set (db_entries db)" "en_key e = key" "same_entry e src kind bd rd" "i = en_id e" "db' = db"
  | (fresh) e vn where "key \<notin> en_key ` set (db_entries db)" "e = new_entry db src key kind reason bd rd now" "i = en_id e"
      "db' = post_entry db e vn" "0 \<le> en_reserved_after e" "en_reserved_after e \<le> en_balance_after e" "en_balance_after e \<le> max64"
proof -
  let ?k = "(src_user src, src_currency src)"
  obtain a db1 where lock: "lock_wallet_account db (src_user src) (src_currency src) = Inr (a, db1)"
    using assms(1) by (auto simp: append_wallet_entry_def split: if_splits)
  have a: "wa_balance a = balance_of db (src_user src) (src_currency src)" "wa_reserved a = reserved_of db (src_user src) (src_currency src)"
    "db1 = db \<or> db_accounts db ?k = None \<and> db1 = db\<lparr>db_accounts := (db_accounts db)(?k := Some a)\<rparr>"
    using lock by (auto simp: lock_wallet_account_def balance_of_def reserved_of_def Let_def split: option.splits)
  have ents: "db_entries db1 = db_entries db" "db_entry_seq db1 = db_entry_seq db" "find_entry db1 key = find_entry db key"
    using a(3) by (auto simp: find_entry_def)
  have accs: "(db_accounts db1)(?k := x) = (db_accounts db)(?k := x)" for x using a(3) by auto
  show ?thesis
  proof (cases "find_entry db key")
    case (Some e)
    note e = find_entry_Some[OF Some]
    have same: "same_entry e src kind bd rd" "i = en_id e" "db' = db1"
      using assms(1) Some lock ents by (auto simp: append_wallet_entry_def same_entry_def split: if_splits)
    have "e \<in> set (entries_of db (src_user src) (src_currency src))"
      using e same(1) by (simp add: entries_of_def same_entry_def)
    with ledger_account_exists[OF assms(2)] have "db_accounts db ?k \<noteq> None" by fastforce
    with a(3) same(3) have "db' = db" by simp
    with e same show ?thesis by (intro again) auto
  next
    case None
    obtain b r where br: "add_wallet_minor (wa_balance a) bd = Some b" "add_wallet_minor (wa_reserved a) rd = Some r" "r \<le> b"
      and i: "i = Suc (db_entry_seq db)"
      and db': "db' = db1\<lparr>db_entries := db_entries db @ [\<lparr>en_id = i, en_key = key, en_user = src_user src, en_currency = src_currency src, en_kind = kind,
                                  en_balance_delta = bd, en_reserved_delta = rd, en_balance_before = wa_balance a,
                                  en_balance_after = b, en_reserved_before = wa_reserved a,
                                  en_reserved_after = r, en_order = src_order src, en_reason = reason, en_created = now\<rparr>],
             db_entry_seq := i, db_accounts := (db_accounts db)(?k := Some (a\<lparr>wa_balance := b, wa_reserved := r, wa_revision := Suc (wa_revision a)\<rparr>))\<rparr>"
      using assms(1) None lock ents accs
      by (auto simp: append_wallet_entry_def Let_def split: if_splits option.splits)
    have bounds: "wa_balance a \<le> max64" "wa_reserved a \<le> max64"
      using ledger_bounds[OF assms(2), of "src_user src" "src_currency src"] a by simp_all
    note B = add_wallet_minor_exact[OF br(1) bounds(1) assms(3)] and R = add_wallet_minor_exact[OF br(2) bounds(2) assms(4)]
    define e where "e = new_entry db src key kind reason bd rd now"
    have e: "e = \<lparr>en_id = i, en_key = key, en_user = src_user src, en_currency = src_currency src, en_kind = kind,
        en_balance_delta = bd, en_reserved_delta = rd, en_balance_before = wa_balance a, en_balance_after = b,
        en_reserved_before = wa_reserved a, en_reserved_after = r, en_order = src_order src, en_reason = reason, en_created = now\<rparr>"
      by (simp add: e_def new_entry_def Let_def i a B(1) R(1))
    have "db' = post_entry db e (Suc (wa_revision a))"
      using a(3) unfolding db' post_entry_def by (cases a) (auto simp: e)
    with e B R br(3) None show ?thesis by (intro fresh[OF _ e_def]) (auto simp: find_entry_None)
  qed
qed

lemma post_entry_reads:
  "balance_of (post_entry db e vn) u c = (if u = en_user e \<and> c = en_currency e then en_balance_after e else balance_of db u c)"
  "reserved_of (post_entry db e vn) u c = (if u = en_user e \<and> c = en_currency e then en_reserved_after e else reserved_of db u c)"
  "entries_of (post_entry db e vn) u c = entries_of db u c @ (if u = en_user e \<and> c = en_currency e then [e] else [])"
  by (auto simp: post_entry_def balance_of_def reserved_of_def entries_of_def)

lemma append_wallet_entry_ledger:
  assumes "append_wallet_entry uc db src key kind reason bd rd now = Inr (i, db')" "ledger_ok db" "in64 bd" "in64 rd"
  shows "ledger_ok db'"
  using assms
proof (cases rule: append_wallet_entry_cases)
  case (again e)
  with assms(2) show ?thesis by simp
next
  case (fresh e vn)
  have ent: "db_entries db' = db_entries db @ [e]" "db_entry_seq db' = Suc (db_entry_seq db)"
    "en_key e = key" "en_id e = Suc (db_entry_seq db)" "en_user e = src_user src" "en_currency e = src_currency src"
    using fresh by (simp_all add: post_entry_def new_entry_def Let_def)
  have "replay_entries 0 0 (entries_of db' u c) = Some (balance_of db' u c, reserved_of db' u c)
      \<and> (db_accounts db' (u, c) = None \<longrightarrow> entries_of db' u c = [])" for u c
  proof (cases "u = en_user e \<and> c = en_currency e")
    case True
    with assms(2) fresh(5-7) have "replay_entries 0 0 (entries_of db u c @ [e]) = Some (en_balance_after e, en_reserved_after e)"
      unfolding fresh(2) by (simp add: replay_append ledger_ok_def new_entry_def Let_def)
    with True show ?thesis unfolding fresh(4) by (simp add: post_entry_reads) (simp add: post_entry_def)
  next
    case False
    with assms(2) show ?thesis unfolding fresh(4) ledger_ok_def
      by (auto simp: post_entry_reads) (auto simp: post_entry_def split: if_splits)
  qed
  with assms(2) fresh(1) ent show ?thesis unfolding ledger_ok_def by (auto simp: le_Suc_eq)
qed

end
