(* ===== verification/WalletAdjustments.thy ===== *)
theory WalletAdjustments
  imports WalletLedger
begin

text \<open>
  The services of \<^verbatim>\<open>commerce/wallet.go\<close> and \<^verbatim>\<open>commerce/wallet_adjustments.go\<close> and the transactions behind
  them (\<^verbatim>\<open>commercestore/wallet_adjustments.go\<close>, \<^verbatim>\<open>wallet_admin_credit.go\<close>, \<^verbatim>\<open>wallet.go\<close>): administrative
  credits and debits of a wallet, the observed result of a payout and the reversal of a failed one. A
  service checks a request and passes its normal form to the transaction it is given.
\<close>

section \<open>Services\<close>

definition max_wallet_input :: int where "max_wallet_input = 9007199254740991"

record credit_request =
  cr_idempotency :: string
  cr_user :: nat
  cr_currency :: string
  cr_amount :: int
  cr_reason :: string

record topup_request =
  tu_idempotency :: string
  tu_amount :: int
  tu_currency :: string

definition idempotency_length :: "string \<Rightarrow> bool" where
  "idempotency_length k \<longleftrightarrow> 8 \<le> length k \<and> length k \<le> 80"

definition wallet_read :: "go_unicode \<Rightarrow> (nat \<Rightarrow> string \<Rightarrow> nat \<Rightarrow> int \<Rightarrow> 'a result) \<Rightarrow> nat \<Rightarrow> string \<Rightarrow> nat \<Rightarrow> int \<Rightarrow> 'a result" where
  "wallet_read uc read actor currency cursor lim =
     (if actor = 0 then Inl ErrOrderPermission
      else try_bind (normalize_wallet_currency uc currency) (\<lambda>currency.
        if lim < 1 \<or> lim > 100 then Inl (ErrValidation []) else read actor currency cursor lim))"

definition wallet_create_top_up :: "go_unicode \<Rightarrow> (nat \<Rightarrow> topup_request \<Rightarrow> 'a result) \<Rightarrow> nat \<Rightarrow> topup_request \<Rightarrow> 'a result" where
  "wallet_create_top_up uc create actor rq =
     (if actor = 0 then Inl ErrOrderPermission
      else try_bind (normalize_wallet_currency uc (tu_currency rq)) (\<lambda>currency.
        if tu_amount rq \<le> 0 \<or> tu_amount rq > max_wallet_input \<or> \<not> idempotency_length (tu_idempotency rq) then Inl (ErrValidation [])
        else create actor (rq\<lparr>tu_currency := currency\<rparr>)))"

definition wallet_adjustments_credit :: "go_unicode \<Rightarrow> (nat \<Rightarrow> credit_request \<Rightarrow> 'a result) \<Rightarrow> nat \<Rightarrow> credit_request \<Rightarrow> 'a result" where
  "wallet_adjustments_credit uc credit actor rq =
     (if actor = 0 then Inl ErrOrderPermission
      else try_bind (normalize_wallet_currency uc (cr_currency rq)) (\<lambda>currency.
        let reason = trim_space (cr_reason rq) in
        if cr_user rq = 0 \<or> cr_amount rq \<le> 0 \<or> cr_amount rq > max_wallet_input \<or> reason = [] \<or> rune_count reason > 400
           \<or> \<not> idempotency_length (cr_idempotency rq) then Inl (ErrValidation [])
        else credit actor (rq\<lparr>cr_currency := currency, cr_reason := reason\<rparr>)))"

definition wallet_adjustments_debit :: "go_unicode \<Rightarrow> (nat \<Rightarrow> debit_request \<Rightarrow> 'a result) \<Rightarrow> nat \<Rightarrow> debit_request \<Rightarrow> 'a result" where
  "wallet_adjustments_debit uc debit actor rq =
     (if actor = 0 then Inl ErrOrderPermission
      else try_bind (normalize_wallet_currency uc (dr_currency rq)) (\<lambda>currency.
        let reason = trim_space (dr_reason rq) in
        if dr_user rq = 0 \<or> dr_ticket rq = 0 \<or> dr_amount rq \<le> 0 \<or> dr_amount rq > max_wallet_input
           \<or> length reason < 3 \<or> length reason > 400 \<or> \<not> idempotency_length (dr_idempotency rq) then Inl (ErrValidation [])
        else debit actor (rq\<lparr>dr_currency := currency, dr_reason := reason\<rparr>)))"

definition wallet_adjustments_read :: "(nat \<Rightarrow> nat \<Rightarrow> 'a result) \<Rightarrow> nat \<Rightarrow> nat \<Rightarrow> 'a result" where
  "wallet_adjustments_read read actor i =
     (if actor = 0 then Inl ErrOrderPermission else if i = 0 then Inl ErrNotFound else read actor i)"

definition wallet_adjustments_list :: "go_unicode \<Rightarrow> (nat \<Rightarrow> nat \<Rightarrow> string \<Rightarrow> nat \<Rightarrow> int \<Rightarrow> 'a result) \<Rightarrow> nat \<Rightarrow> nat \<Rightarrow> string \<Rightarrow> nat \<Rightarrow>
    int \<Rightarrow> 'a result" where
  "wallet_adjustments_list uc lister actor user currency cursor lim =
     (if actor = 0 then Inl ErrOrderPermission
      else if user = 0 \<or> lim < 1 \<or> lim > 100 then Inl (ErrValidation [])
      else try_bind (normalize_wallet_currency uc currency) (\<lambda>currency. lister actor user currency cursor lim))"

definition administrative_wallet :: "go_unicode \<Rightarrow> (nat \<Rightarrow> nat \<Rightarrow> string \<Rightarrow> nat \<Rightarrow> int \<Rightarrow> 'a result) \<Rightarrow> nat \<Rightarrow> nat \<Rightarrow> string \<Rightarrow> nat \<Rightarrow>
    int \<Rightarrow> 'a result" where
  "administrative_wallet uc read actor user currency cursor lim =
     (if actor = 0 then Inl ErrOrderPermission
      else if user = 0 \<or> lim < 1 \<or> lim > 100 then Inl (ErrValidation [])
      else try_bind (normalize_wallet_currency uc currency) (\<lambda>currency. read actor user currency cursor lim))"

definition wallet_adjustments_record_payout ::
  "go_unicode \<Rightarrow> (nat \<Rightarrow> nat \<Rightarrow> payout_request \<Rightarrow> 'a result) \<Rightarrow> gotime \<Rightarrow> nat \<Rightarrow> nat \<Rightarrow> payout_request \<Rightarrow> 'a result" where
  "wallet_adjustments_record_payout uc record_it now actor i rq =
     (if actor = 0 then Inl ErrOrderPermission
      else if i = 0 then Inl ErrNotFound
      else let outcome = lower_trim uc (pr_outcome rq); reference = trim_space (pr_reference rq); note = trim_space (pr_note rq) in
        if (outcome \<noteq> ''unknown'' \<and> outcome \<noteq> ''succeeded'' \<and> outcome \<noteq> ''failed'') \<or> length reference > 128 \<or> length note > 500
           \<or> is_zero (pr_occurred rq) \<or> pr_occurred rq > now + 600 * nanos_per_sec \<or> \<not> idempotency_length (pr_idempotency rq)
        then Inl (ErrValidation [])
        else if outcome \<noteq> ''unknown'' \<and> reference = [] \<and> length note < 3 then Inl (ErrValidation [])
        else record_it actor i (rq\<lparr>pr_outcome := outcome, pr_reference := reference, pr_note := note\<rparr>))"

definition wallet_adjustments_reverse :: "(nat \<Rightarrow> nat \<Rightarrow> string \<Rightarrow> 'a result) \<Rightarrow> nat \<Rightarrow> nat \<Rightarrow> string \<Rightarrow> 'a result" where
  "wallet_adjustments_reverse reverse actor i reason =
     (if actor = 0 then Inl ErrOrderPermission
      else if i = 0 then Inl ErrNotFound
      else let reason = trim_space reason in
        if length reason < 3 \<or> length reason > 400 then Inl (ErrValidation []) else reverse actor i reason)"

section \<open>Transactions\<close>

text \<open>The pattern \<open>^[a-zA-Z0-9_-]{8,80}$\<close>.\<close>

definition key_char :: "char \<Rightarrow> bool" where
  "key_char c \<longleftrightarrow> byte_in 97 122 c \<or> byte_in 65 90 c \<or> byte_in 48 57 c \<or> c = CHR ''_'' \<or> c = CHR ''-''"

definition creation_key_pattern :: "string \<Rightarrow> bool" where
  "creation_key_pattern k \<longleftrightarrow> 8 \<le> length k \<and> length k \<le> 80 \<and> list_all key_char k"

text \<open>The fixed parts of the entry texts, in UTF-8.\<close>

definition credit_prefix :: string where
  "credit_prefix = bytes [231, 174, 161, 231, 144, 134, 229, 145, 152, 229, 162, 158, 229, 138, 160, 228, 189, 153, 233, 162, 157, 239, 188, 154]"
definition debit_prefix :: string where
  "debit_prefix = bytes [228, 186, 186, 229, 183, 165, 230, 137, 163, 229, 135, 143, 239, 188, 154]"
definition reversal_prefix :: string where
  "reversal_prefix = bytes [229, 135, 186, 230, 172, 190, 231, 161, 174, 232, 174, 164, 229, 164, 177, 232, 180, 165, 230, 129, 162, 229, 164, 141, 239, 188, 154]"
definition ticket_note :: "nat \<Rightarrow> string" where
  "ticket_note t = bytes [239, 188, 136, 229, 183, 165, 229, 141, 149, 35] @ show_nat t @ bytes [239, 188, 137]"
definition topup_text :: string where
  "topup_text = bytes [229, 183, 178, 230, 160, 184, 233, 170, 140, 231, 154, 132, 230, 184, 160, 233, 129, 147, 229, 133, 133, 229, 128, 188, 229, 133, 165, 232, 180, 166]"

record entry_view =
  ev_id :: nat
  ev_kind :: string
  ev_balance_delta :: int
  ev_reserved_delta :: int
  ev_balance_after :: int
  ev_reserved_after :: int
  ev_order :: "nat option"
  ev_reason :: string
  ev_created :: gotime

definition view_entry :: "wallet_entry \<Rightarrow> entry_view" where
  "view_entry e = \<lparr>ev_id = en_id e, ev_kind = en_kind e, ev_balance_delta = en_balance_delta e, ev_reserved_delta = en_reserved_delta e,
     ev_balance_after = en_balance_after e, ev_reserved_after = en_reserved_after e, ev_order = en_order e,
     ev_reason = en_reason e, ev_created = en_created e\<rparr>"

record adjustment_summary =
  as_id :: nat
  as_user :: nat
  as_currency :: string
  as_amount :: int
  as_reason :: string
  as_ticket :: nat
  as_actor :: nat
  as_entry :: nat
  as_reversal_entry :: "nat option"
  as_reversal_actor :: "nat option"
  as_reversal_reason :: string
  as_status :: string
  as_created :: gotime
  as_updated :: gotime

definition summarize_wallet_adjustment :: "wallet_adjustment \<Rightarrow> adjustment_summary" where
  "summarize_wallet_adjustment a = \<lparr>as_id = ad_id a, as_user = ad_user a, as_currency = ad_currency a, as_amount = ad_amount a,
     as_reason = ad_reason a, as_ticket = ad_ticket a, as_actor = ad_actor a, as_entry = ad_entry a,
     as_reversal_entry = ad_reversal_entry a, as_reversal_actor = ad_reversal_actor a, as_reversal_reason = ad_reversal_reason a,
     as_status = ad_status a, as_created = ad_created a, as_updated = ad_updated a\<rparr>"

definition adjustment_conflict :: go_error where "adjustment_conflict = ErrNamed ''ErrWalletAdjustmentConflict''"

definition adjustment_error :: "'a result \<Rightarrow> 'a result" where
  "adjustment_error r = (case r of
      Inl e \<Rightarrow> Inl (if e = ErrNamed ''ErrPaymentFactConflict'' then adjustment_conflict else e)
    | Inr x \<Rightarrow> Inr x)"

definition match_credit :: "credit_request \<Rightarrow> string \<Rightarrow> wallet_entry \<Rightarrow> shop_db \<Rightarrow> (entry_view \<times> shop_db) result" where
  "match_credit rq reason e db =
     (if en_user e \<noteq> cr_user rq \<or> en_currency e \<noteq> cr_currency rq \<or> en_kind e \<noteq> ''admin_credit'' \<or> en_balance_delta e \<noteq> cr_amount rq
         \<or> en_reserved_delta e \<noteq> 0 \<or> en_order e \<noteq> None \<or> en_reason e \<noteq> reason then Inl adjustment_conflict
      else Inr (view_entry e, db))"

definition credit_key :: "wallet_env \<Rightarrow> nat \<Rightarrow> credit_request \<Rightarrow> string" where
  "credit_key env actor rq = we_hash env (''admin-credit:'' @ show_nat actor @ '':'' @ cr_idempotency rq)"

definition store_credit :: "wallet_env \<Rightarrow> shop_db \<Rightarrow> gotime \<Rightarrow> nat \<Rightarrow> credit_request \<Rightarrow> (entry_view \<times> shop_db) result" where
  "store_credit env db now actor rq =
     (if \<not> creation_key_pattern (cr_idempotency rq) then Inl (ErrValidation [])
      else let key = credit_key env actor rq; reason = credit_prefix @ cr_reason rq in
        adjustment_error (try_bind (order_reader db actor True) (\<lambda>_.
          case find_entry db key of
            Some e \<Rightarrow> match_credit rq reason e db
          | None \<Rightarrow>
              if (case db_users db (cr_user rq) of None \<Rightarrow> True | Some u \<Rightarrow> ur_deleted u) then Inl ErrNotFound
              else try_bind (lock_wallet_account db (cr_user rq) (cr_currency rq)) (\<lambda>(_, db).
                case find_entry db key of
                  Some e \<Rightarrow> match_credit rq reason e db
                | None \<Rightarrow>
                    try_bind (append_wallet_entry (we_unicode env) db \<lparr>src_user = cr_user rq, src_currency = cr_currency rq, src_order = None\<rparr>
                        key ''admin_credit'' reason (cr_amount rq) 0 now) (\<lambda>(i, db).
                      case List.find (\<lambda>e. en_id e = i) (db_entries db) of
                        None \<Rightarrow> Inl (ErrNamed ''ErrRecordNotFound'')
                      | Some e \<Rightarrow> match_credit rq reason e (audit (Some actor) ''wallet.adjustment.credit'' (''wallet-entry:'' @ show_nat i) db))))))"

definition find_adjustment :: "shop_db \<Rightarrow> string \<Rightarrow> wallet_adjustment option" where
  "find_adjustment db key = List.find (\<lambda>a. ad_key a = key) (db_adjustments db)"

definition adjustment_by_id :: "shop_db \<Rightarrow> nat \<Rightarrow> wallet_adjustment option" where
  "adjustment_by_id db i = List.find (\<lambda>a. ad_id a = i) (db_adjustments db)"

definition match_debit :: "string \<Rightarrow> wallet_adjustment \<Rightarrow> shop_db \<Rightarrow> (adjustment_summary \<times> shop_db) result" where
  "match_debit fingerprint a db =
     (if ad_fingerprint a \<noteq> fingerprint then Inl adjustment_conflict else Inr (summarize_wallet_adjustment a, db))"

definition debit_key :: "wallet_env \<Rightarrow> debit_request \<Rightarrow> string" where
  "debit_key env rq = we_hash env (''wallet-adjustment:'' @ dr_idempotency rq)"

definition debit_row :: "nat \<Rightarrow> string \<Rightarrow> string \<Rightarrow> nat \<Rightarrow> debit_request \<Rightarrow> nat \<Rightarrow> gotime \<Rightarrow> wallet_adjustment" where
  "debit_row i key fingerprint actor rq entry now =
     \<lparr>ad_id = i, ad_key = key, ad_fingerprint = fingerprint, ad_user = dr_user rq, ad_currency = dr_currency rq,
      ad_amount = dr_amount rq, ad_reason = dr_reason rq, ad_ticket = dr_ticket rq, ad_actor = actor,
      ad_entry = entry, ad_reversal_entry = None, ad_reversal_actor = None, ad_reversal_reason = [],
      ad_status = ''pending'', ad_created = now, ad_updated = now\<rparr>"

definition store_debit :: "wallet_env \<Rightarrow> shop_db \<Rightarrow> gotime \<Rightarrow> nat \<Rightarrow> debit_request \<Rightarrow> (adjustment_summary \<times> shop_db) result" where
  "store_debit env db now actor rq =
     (if \<not> creation_key_pattern (dr_idempotency rq) then Inl (ErrValidation [])
      else let key = debit_key env rq; fingerprint = we_hash env (we_debit_json env rq) in
        adjustment_error (try_bind (order_reader db actor True) (\<lambda>_.
          case find_adjustment db key of
            Some a \<Rightarrow> match_debit fingerprint a db
          | None \<Rightarrow>
              if db_users db (dr_user rq) = None then Inl ErrNotFound
              else if db_tickets db (dr_ticket rq) \<noteq> Some (dr_user rq) then Inl (ErrValidation [])
              else try_bind (wallet_available db (dr_user rq) (dr_currency rq)) (\<lambda>available.
                case find_adjustment db key of
                  Some a \<Rightarrow> match_debit fingerprint a db
                | None \<Rightarrow>
                    if available < dr_amount rq then Inl (ErrValidation [])
                    else try_bind (append_wallet_entry (we_unicode env) db \<lparr>src_user = dr_user rq, src_currency = dr_currency rq, src_order = None\<rparr>
                        (we_hash env (''adjustment-debit:'' @ key)) ''admin_debit''
                        (debit_prefix @ dr_reason rq @ ticket_note (dr_ticket rq)) (- dr_amount rq) 0 now) (\<lambda>(entry, db).
                      let i = Suc (db_adjustment_seq db);
                          a = debit_row i key fingerprint actor rq entry now
                      in Inr (summarize_wallet_adjustment a,
                           audit (Some actor) ''wallet.adjustment.debit'' (''wallet-adjustment:'' @ show_nat i)
                             (db\<lparr>db_adjustments := db_adjustments db @ [a], db_adjustment_seq := i\<rparr>)))))))"

definition update_adjustment :: "shop_db \<Rightarrow> wallet_adjustment \<Rightarrow> shop_db" where
  "update_adjustment db a = db\<lparr>db_adjustments := map (\<lambda>b. if ad_id b = ad_id a then a else b) (db_adjustments db)\<rparr>"

definition payout_row :: "nat \<Rightarrow> nat \<Rightarrow> string \<Rightarrow> string \<Rightarrow> nat \<Rightarrow> payout_request \<Rightarrow> gotime \<Rightarrow> wallet_payout" where
  "payout_row n i key fingerprint actor rq now =
     \<lparr>py_id = n, py_adjustment = i, py_key = key, py_fingerprint = fingerprint, py_actor = actor,
      py_outcome = pr_outcome rq, py_reference = pr_reference rq, py_note = pr_note rq,
      py_occurred = pr_occurred rq, py_created = now\<rparr>"

definition store_record_payout :: "wallet_env \<Rightarrow> shop_db \<Rightarrow> gotime \<Rightarrow> nat \<Rightarrow> nat \<Rightarrow> payout_request \<Rightarrow> (adjustment_summary \<times> shop_db) result" where
  "store_record_payout env db now actor i rq =
     (if \<not> creation_key_pattern (pr_idempotency rq) then Inl (ErrValidation [])
      else let key = we_hash env (''wallet-payout-result:'' @ pr_idempotency rq); fingerprint = we_hash env (we_payout_json env i rq) in
        adjustment_error (try_bind (order_reader db actor True) (\<lambda>_.
          case adjustment_by_id db i of
            None \<Rightarrow> Inl ErrNotFound
          | Some a \<Rightarrow> (case List.find (\<lambda>p. py_key p = key) (db_payouts db) of
              Some p \<Rightarrow> if py_adjustment p \<noteq> i \<or> py_fingerprint p \<noteq> fingerprint then Inl adjustment_conflict
                        else Inr (summarize_wallet_adjustment a, db)
            | None \<Rightarrow>
                if (ad_status a = ''succeeded'' \<or> ad_status a = ''failed'') \<and> ad_status a \<noteq> pr_outcome rq then Inl adjustment_conflict
                else let n = Suc (db_payout_seq db);
                         p = payout_row n i key fingerprint actor rq now;
                         b = a\<lparr>ad_status := pr_outcome rq, ad_updated := now\<rparr>
                     in Inr (summarize_wallet_adjustment b,
                          audit (Some actor) ''wallet.payout.report'' (''wallet-adjustment:'' @ show_nat i)
                            (update_adjustment (db\<lparr>db_payouts := db_payouts db @ [p], db_payout_seq := n\<rparr>) b))))))"

definition reversal_key :: "wallet_env \<Rightarrow> nat \<Rightarrow> string" where
  "reversal_key env i = we_hash env (''adjustment-reversal:'' @ show_nat i)"

definition store_reverse :: "wallet_env \<Rightarrow> shop_db \<Rightarrow> gotime \<Rightarrow> nat \<Rightarrow> nat \<Rightarrow> string \<Rightarrow> (adjustment_summary \<times> shop_db) result" where
  "store_reverse env db now actor i reason =
     try_bind (order_reader db actor True) (\<lambda>_.
       case adjustment_by_id db i of
         None \<Rightarrow> Inl ErrNotFound
       | Some a \<Rightarrow>
           if ad_reversal_entry a \<noteq> None then Inr (summarize_wallet_adjustment a, db)
           else if ad_status a \<noteq> ''failed'' then Inl adjustment_conflict
           else try_bind (append_wallet_entry (we_unicode env) db \<lparr>src_user = ad_user a, src_currency = ad_currency a, src_order = None\<rparr>
               (reversal_key env i) ''admin_debit_reversal'' (reversal_prefix @ reason @ ticket_note (ad_ticket a)) (ad_amount a) 0 now) (\<lambda>(entry, db).
             let b = a\<lparr>ad_reversal_entry := Some entry, ad_reversal_actor := Some actor, ad_reversal_reason := reason, ad_updated := now\<rparr>
             in Inr (summarize_wallet_adjustment b,
                  audit (Some actor) ''wallet.adjustment.reverse'' (''wallet-adjustment:'' @ show_nat i) (update_adjustment db b))))"

text \<open>The only caller of \<open>creditTopUp\<close> runs inside the transaction of a verified payment.\<close>

definition credit_top_up :: "wallet_env \<Rightarrow> shop_db \<Rightarrow> gotime \<Rightarrow> order \<Rightarrow> (nat \<times> shop_db) result" where
  "credit_top_up env db now r =
     (if or_type r \<noteq> ''topup'' \<or> or_payable r \<le> 0 \<or> or_amount r \<noteq> or_payable r \<or> or_discount r \<noteq> 0
      then Inl (ErrNamed ''ErrPaymentFactConflict'')
      else try_bind (normalize_wallet_currency (we_unicode env) (or_currency r)) (\<lambda>_.
        append_wallet_credit (we_unicode env) db r (we_hash env (''topup-order:'' @ show_nat (or_id r))) ''topup'' topup_text (or_payable r) now))"

section \<open>Sound books\<close>

definition debit_entry_key :: "wallet_env \<Rightarrow> string \<Rightarrow> string" where
  "debit_entry_key env k = we_hash env (''adjustment-debit:'' @ k)"

text \<open>
  Every adjustment rests on exactly one debit entry; a reversal exists only for a payout observed to have
  failed and rests on one entry of the opposite amount; entries under the keys of adjustments belong to them.
\<close>

definition debited :: "wallet_env \<Rightarrow> wallet_entry list \<Rightarrow> wallet_adjustment \<Rightarrow> bool" where
  "debited env es a \<longleftrightarrow> (\<exists>e \<in> set es. en_id e = ad_entry a \<and> en_key e = debit_entry_key env (ad_key a) \<and> en_user e = ad_user a
     \<and> en_currency e = ad_currency a \<and> en_balance_delta e = - ad_amount a \<and> en_reserved_delta e = 0)"

definition reversed :: "wallet_env \<Rightarrow> wallet_entry list \<Rightarrow> wallet_adjustment \<Rightarrow> bool" where
  "reversed env es a \<longleftrightarrow> (\<exists>e \<in> set es. Some (en_id e) = ad_reversal_entry a \<and> en_key e = reversal_key env (ad_id a) \<and> en_user e = ad_user a
     \<and> en_currency e = ad_currency a \<and> en_balance_delta e = ad_amount a \<and> en_reserved_delta e = 0)"

definition adjustment_ok :: "wallet_env \<Rightarrow> nat \<Rightarrow> wallet_entry list \<Rightarrow> wallet_adjustment \<Rightarrow> bool" where
  "adjustment_ok env n es a \<longleftrightarrow> ad_id a \<le> n \<and> 0 < ad_amount a \<and> ad_amount a \<le> max_wallet_input \<and> debited env es a
     \<and> (ad_reversal_entry a \<noteq> None \<longrightarrow> ad_status a = ''failed'' \<and> reversed env es a)"

definition adjustments_ok :: "wallet_env \<Rightarrow> wallet_adjustment list \<Rightarrow> nat \<Rightarrow> wallet_entry list \<Rightarrow> bool" where
  "adjustments_ok env as n es \<longleftrightarrow> distinct (map ad_id as) \<and> (\<forall>a \<in> set as. adjustment_ok env n es a)
     \<and> (\<forall>e \<in> set es. \<forall>i. en_key e = reversal_key env i \<longrightarrow> (\<exists>a \<in> set as. ad_id a = i \<and> ad_reversal_entry a \<noteq> None))
     \<and> (\<forall>e \<in> set es. \<forall>k. en_key e = debit_entry_key env k \<longrightarrow> (\<exists>a \<in> set as. ad_key a = k))"

definition books_ok :: "wallet_env \<Rightarrow> shop_db \<Rightarrow> bool" where
  "books_ok env db \<longleftrightarrow> ledger_ok db \<and> adjustments_ok env (db_adjustments db) (db_adjustment_seq db) (db_entries db)"

lemma adjustment_ok_mono: "adjustment_ok env n es a \<Longrightarrow> n \<le> m \<Longrightarrow> set es \<subseteq> set fs \<Longrightarrow> adjustment_ok env m fs a"
  unfolding adjustment_ok_def debited_def reversed_def by (meson order_trans subsetD)

lemma adjustments_ok_entry:
  assumes "adjustments_ok env as n es" "\<forall>i. en_key e \<noteq> reversal_key env i" "\<forall>k. en_key e \<noteq> debit_entry_key env k"
  shows "adjustments_ok env as n (es @ [e])"
  using assms adjustment_ok_mono[of env n es _ n "es @ [e]"] unfolding adjustments_ok_def by auto

lemma hash_apart:
  assumes "inj (we_hash env)" "take 11 s \<noteq> ''adjustment-''"
  shows "we_hash env s \<noteq> reversal_key env i" "we_hash env s \<noteq> debit_entry_key env k"
proof -
  have "take 11 (''adjustment-reversal:'' @ t) = ''adjustment-''" "take 11 (''adjustment-debit:'' @ t) = ''adjustment-''" for t
    by simp_all
  with assms(2) have "s \<noteq> ''adjustment-reversal:'' @ t" "s \<noteq> ''adjustment-debit:'' @ t" for t by metis+
  then show "we_hash env s \<noteq> reversal_key env i" "we_hash env s \<noteq> debit_entry_key env k"
    by (simp_all add: reversal_key_def debit_entry_key_def inj_eq[OF assms(1)])
qed

lemma debit_reversal_apart:
  assumes "inj (we_hash env)"
  shows "debit_entry_key env k \<noteq> reversal_key env i" "debit_entry_key env k = debit_entry_key env l \<longleftrightarrow> k = l"
    "reversal_key env i = reversal_key env j \<longleftrightarrow> i = j" "reversal_key env i \<noteq> debit_entry_key env k"
  by (simp_all add: reversal_key_def debit_entry_key_def inj_eq[OF assms] show_nat_inj)

lemma adjustments_ok_debit:
  assumes "adjustments_ok env as n es" "inj (we_hash env)" "debited env (es @ [e]) a" "ad_id a = Suc n" "ad_reversal_entry a = None"
    "0 < ad_amount a" "ad_amount a \<le> max_wallet_input" "en_key e = debit_entry_key env (ad_key a)"
  shows "adjustments_ok env (as @ [a]) (Suc n) (es @ [e])"
proof -
  have old: "\<forall>b \<in> set as. adjustment_ok env (Suc n) (es @ [e]) b"
    using assms(1) adjustment_ok_mono[of env n es _ "Suc n" "es @ [e]"] by (auto simp: adjustments_ok_def)
  have "\<forall>b \<in> set as. ad_id b \<noteq> Suc n" using assms(1) by (auto simp: adjustments_ok_def adjustment_ok_def)
  moreover have "adjustment_ok env (Suc n) (es @ [e]) a" using assms(3-7) by (simp add: adjustment_ok_def)
  ultimately show ?thesis using assms(1,4,8) old debit_reversal_apart[OF assms(2)] by (auto simp: adjustments_ok_def)
qed

lemma adjustments_ok_update:
  assumes "adjustments_ok env as n es" "adjustment_ok env n fs b" "set es \<subseteq> set fs"
    "\<And>a. a \<in> set as \<Longrightarrow> ad_id a = ad_id b \<Longrightarrow> ad_key a = ad_key b \<and> (ad_reversal_entry a \<noteq> None \<longrightarrow> ad_reversal_entry b \<noteq> None)"
    "\<And>e. e \<in> set fs \<Longrightarrow> e \<notin> set es \<Longrightarrow> (\<forall>k. en_key e \<noteq> debit_entry_key env k)
        \<and> (\<forall>i. en_key e = reversal_key env i \<longrightarrow> i = ad_id b \<and> ad_reversal_entry b \<noteq> None \<and> i \<in> ad_id ` set as)"
  shows "adjustments_ok env (map (\<lambda>a. if ad_id a = ad_id b then b else a) as) n fs"
proof -
  let ?f = "\<lambda>a. if ad_id a = ad_id b then b else a"
  have ids: "map ad_id (map ?f as) = map ad_id as" by simp
  have ok: "\<forall>a \<in> set as. adjustment_ok env n fs (?f a)"
    using assms(1,2,3) adjustment_ok_mono[of env n es _ n fs] by (auto simp: adjustments_ok_def)
  have rv: "\<exists>a \<in> set as. ad_id a = i \<and> ad_reversal_entry (?f a) \<noteq> None" if "e \<in> set fs" "en_key e = reversal_key env i" for e i
  proof (cases "e \<in> set es")
    case True
    with that assms(1) obtain a where "a \<in> set as" "ad_id a = i" "ad_reversal_entry a \<noteq> None" unfolding adjustments_ok_def by blast
    with assms(4) show ?thesis by (intro bexI[of _ a]) auto
  next
    case False
    with assms(5)[OF that(1)] that(2) have "i = ad_id b" "ad_reversal_entry b \<noteq> None" "i \<in> ad_id ` set as" by blast+
    then show ?thesis by auto
  qed
  have db: "\<exists>a \<in> set as. ad_key (?f a) = k" if "e \<in> set fs" "en_key e = debit_entry_key env k" for e k
  proof -
    have "e \<in> set es" using assms(5)[OF that(1)] that(2) by blast
    with that(2) assms(1) obtain a where "a \<in> set as" "ad_key a = k" unfolding adjustments_ok_def by blast
    with assms(4) show ?thesis by (intro bexI[of _ a]) auto
  qed
  have "\<exists>a \<in> set (map ?f as). ad_id a = i \<and> ad_reversal_entry a \<noteq> None" if "e \<in> set fs" "en_key e = reversal_key env i" for e i
  proof -
    from rv[OF that] obtain a where "a \<in> set as" "ad_id a = i" "ad_reversal_entry (?f a) \<noteq> None" by blast
    then show ?thesis by (intro bexI[of _ "?f a"]) (simp, subst set_map, rule imageI)
  qed
  moreover have "\<exists>a \<in> set (map ?f as). ad_key a = k" if "e \<in> set fs" "en_key e = debit_entry_key env k" for e k
    using db[OF that] unfolding set_map by blast
  moreover have "distinct (map ad_id (map ?f as))" unfolding ids using assms(1) by (simp add: adjustments_ok_def)
  moreover have "\<forall>a \<in> set (map ?f as). adjustment_ok env n fs a" using ok unfolding set_map by blast
  ultimately show ?thesis unfolding adjustments_ok_def by blast
qed

section \<open>The composed operations\<close>

text \<open>A service with the transactions of the store as its repository.\<close>

definition credit_wallet :: "wallet_env \<Rightarrow> gotime \<Rightarrow> nat \<Rightarrow> credit_request \<Rightarrow> shop_db \<Rightarrow> (entry_view \<times> shop_db) result" where
  "credit_wallet env now actor rq db = wallet_adjustments_credit (we_unicode env) (store_credit env db now) actor rq"

definition debit_wallet :: "wallet_env \<Rightarrow> gotime \<Rightarrow> nat \<Rightarrow> debit_request \<Rightarrow> shop_db \<Rightarrow> (adjustment_summary \<times> shop_db) result" where
  "debit_wallet env now actor rq db = wallet_adjustments_debit (we_unicode env) (store_debit env db now) actor rq"

definition report_payout :: "wallet_env \<Rightarrow> gotime \<Rightarrow> nat \<Rightarrow> nat \<Rightarrow> payout_request \<Rightarrow> shop_db \<Rightarrow> (adjustment_summary \<times> shop_db) result" where
  "report_payout env now actor i rq db =
     wallet_adjustments_record_payout (we_unicode env) (store_record_payout env db now) now actor i rq"

definition reverse_debit :: "wallet_env \<Rightarrow> gotime \<Rightarrow> nat \<Rightarrow> nat \<Rightarrow> string \<Rightarrow> shop_db \<Rightarrow> (adjustment_summary \<times> shop_db) result" where
  "reverse_debit env now actor i reason db = wallet_adjustments_reverse (store_reverse env db now) actor i reason"

lemma adjustment_error_Inr [simp]: "adjustment_error r = Inr x \<longleftrightarrow> r = Inr x"
  by (cases r) (simp_all add: adjustment_error_def)

lemma audit_reads [simp]:
  "db_accounts (audit u a t db) = db_accounts db" "db_entries (audit u a t db) = db_entries db"
  "db_entry_seq (audit u a t db) = db_entry_seq db" "db_adjustments (audit u a t db) = db_adjustments db"
  "db_adjustment_seq (audit u a t db) = db_adjustment_seq db" "db_fundings (audit u a t db) = db_fundings db"
  "db_orders (audit u a t db) = db_orders db" "db_settlements (audit u a t db) = db_settlements db" "balance_of (audit u a t db) v c = balance_of db v c"
  "reserved_of (audit u a t db) v c = reserved_of db v c" "entries_of (audit u a t db) v c = entries_of db v c"
  by (simp_all add: audit_def balance_of_def reserved_of_def entries_of_def)

lemma ledger_ok_cong:
  assumes "db_entries db' = db_entries db" "db_entry_seq db' = db_entry_seq db" "db_accounts db' = db_accounts db"
  shows "ledger_ok db' = ledger_ok db" "balance_of db' u c = balance_of db u c" "reserved_of db' u c = reserved_of db u c"
  using assms by (simp_all add: ledger_ok_def entries_of_def balance_of_def reserved_of_def)

lemma ledger_ok_audit [simp]: "ledger_ok (audit u a t db) = ledger_ok db"
  by (rule ledger_ok_cong) simp_all

lemma lock_wallet_account_spec:
  assumes "lock_wallet_account db u c = Inr (a, db')" "ledger_ok db"
  shows "ledger_ok db'" "db_entries db' = db_entries db" "db_adjustments db' = db_adjustments db"
    "db_adjustment_seq db' = db_adjustment_seq db" "db_fundings db' = db_fundings db" "db_orders db' = db_orders db"
    "balance_of db' v d = balance_of db v d" "reserved_of db' v d = reserved_of db v d"
proof -
  have db': "db' = db \<or> db_accounts db (u, c) = None
      \<and> db' = db\<lparr>db_accounts := (db_accounts db)((u, c) := Some \<lparr>wa_balance = 0, wa_reserved = 0, wa_revision = 1\<rparr>)\<rparr>"
    using assms(1) by (auto simp: lock_wallet_account_def Let_def split: option.splits)
  then have same: "balance_of db' x y = balance_of db x y" "reserved_of db' x y = reserved_of db x y" for x y
    by (auto simp: balance_of_def reserved_of_def)
  then show "balance_of db' v d = balance_of db v d" "reserved_of db' v d = reserved_of db v d" by simp_all
  from db' show "db_entries db' = db_entries db" "db_adjustments db' = db_adjustments db" "db_adjustment_seq db' = db_adjustment_seq db"
    "db_fundings db' = db_fundings db" "db_orders db' = db_orders db" by auto
  have seq: "db_entry_seq db' = db_entry_seq db" and ent: "entries_of db' x y = entries_of db x y" and E: "db_entries db' = db_entries db"
    and acc: "db_accounts db' (x, y) = None \<Longrightarrow> db_accounts db (x, y) = None" for x y
    using db' by (auto simp: entries_of_def split: if_splits)
  show "ledger_ok db'" using assms(2) unfolding ledger_ok_def by (simp add: same seq ent E acc)
qed

lemma post_entry_tables [simp]:
  "db_adjustments (post_entry db e vn) = db_adjustments db" "db_adjustment_seq (post_entry db e vn) = db_adjustment_seq db"
  "db_entries (post_entry db e vn) = db_entries db @ [e]" "db_fundings (post_entry db e vn) = db_fundings db"
  "db_orders (post_entry db e vn) = db_orders db"
  by (simp_all add: post_entry_def)

lemma new_entry_reads [simp]:
  "en_id (new_entry db src key kind reason bd rd now) = Suc (db_entry_seq db)" "en_key (new_entry db src key kind reason bd rd now) = key"
  "en_user (new_entry db src key kind reason bd rd now) = src_user src" "en_kind (new_entry db src key kind reason bd rd now) = kind"
  "en_currency (new_entry db src key kind reason bd rd now) = src_currency src" "en_reason (new_entry db src key kind reason bd rd now) = reason"
  "en_balance_delta (new_entry db src key kind reason bd rd now) = bd" "en_reserved_delta (new_entry db src key kind reason bd rd now) = rd"
  "en_balance_after (new_entry db src key kind reason bd rd now) = balance_of db (src_user src) (src_currency src) + bd"
  "en_reserved_after (new_entry db src key kind reason bd rd now) = reserved_of db (src_user src) (src_currency src) + rd"
  "en_order (new_entry db src key kind reason bd rd now) = src_order src"
  by (simp_all add: new_entry_def Let_def)

lemma books_append:
  assumes "append_wallet_entry uc db src key kind reason bd rd now = Inr (i, db')" "books_ok env db" "in64 bd" "in64 rd"
    "\<forall>i. key \<noteq> reversal_key env i" "\<forall>k. key \<noteq> debit_entry_key env k"
  shows "books_ok env db'"
  using assms(1) assms(2)[unfolded books_ok_def, THEN conjunct1] assms(3,4)
proof (cases rule: append_wallet_entry_cases)
  case (again e)
  with assms(2) show ?thesis by simp
next
  case (fresh e vn)
  have "ledger_ok db'" by (rule append_wallet_entry_ledger[OF assms(1) _ assms(3,4)]) (use assms(2) in \<open>simp add: books_ok_def\<close>)
  with fresh assms(2,5,6) show ?thesis by (auto simp: books_ok_def intro: adjustments_ok_entry)
qed

lemma find_by_id:
  assumes "ledger_ok db" "e \<in> set (db_entries db)" "List.find (\<lambda>x. en_id x = en_id e) (db_entries db) = Some f"
  shows "f = e"
proof -
  from assms(3) have "f \<in> set (db_entries db)" "en_id f = en_id e" by (auto simp: find_Some_iff)
  with assms(1,2) show ?thesis by (auto simp: ledger_ok_def distinct_map dest: inj_onD)
qed

lemma max_wallet_in64: "0 < x \<Longrightarrow> x \<le> max_wallet_input \<Longrightarrow> in64 x \<and> in64 (- x) \<and> in64 0"
  by (simp add: max_wallet_input_def int64_simps)

lemma credit_wallet_cases:
  assumes "credit_wallet env now actor rq db = Inr (v, db')" "books_ok env db" "inj (we_hash env)"
  obtains (again) e where "e \<in> set (db_entries db)" "en_key e = credit_key env actor rq" "v = view_entry e" "db' = db"
      "normalize_wallet_currency (we_unicode env) (cr_currency rq) = Inr (en_currency e)" "en_user e = cr_user rq"
      "en_balance_delta e = cr_amount rq" "en_reserved_delta e = 0"
  | (fresh) e c where "credit_key env actor rq \<notin> en_key ` set (db_entries db)" "books_ok env db'" "db_entries db' = db_entries db @ [e]"
      "en_key e = credit_key env actor rq" "v = view_entry e" "normalize_wallet_currency (we_unicode env) (cr_currency rq) = Inr c"
      "en_user e = cr_user rq" "en_currency e = c" "en_balance_delta e = cr_amount rq" "en_reserved_delta e = 0"
      "\<And>u d. balance_of db' u d = balance_of db u d + (if u = cr_user rq \<and> d = c then cr_amount rq else 0)"
      "\<And>u d. reserved_of db' u d = reserved_of db u d" "db_adjustments db' = db_adjustments db" "db_fundings db' = db_fundings db"
proof -
  obtain c where c: "normalize_wallet_currency (we_unicode env) (cr_currency rq) = Inr c"
    and amount: "0 < cr_amount rq" "cr_amount rq \<le> max_wallet_input"
    and st: "store_credit env db now actor (rq\<lparr>cr_currency := c, cr_reason := trim_space (cr_reason rq)\<rparr>) = Inr (v, db')"
    using assms(1) by (auto simp: credit_wallet_def wallet_adjustments_credit_def Let_def split: if_splits)
  let ?rq = "rq\<lparr>cr_currency := c, cr_reason := trim_space (cr_reason rq)\<rparr>" and ?key = "credit_key env actor rq"
  have key: "credit_key env actor ?rq = ?key" by (simp add: credit_key_def)
  have L: "ledger_ok db" using assms(2) by (simp add: books_ok_def)
  show ?thesis
  proof (cases "find_entry db ?key")
    case (Some e)
    then have m: "match_credit ?rq (credit_prefix @ trim_space (cr_reason rq)) e db = Inr (v, db')"
      using st by (auto simp: store_credit_def key Let_def)
    show ?thesis by (rule again[of e]) (use m find_entry_Some[OF Some] c in \<open>auto simp: match_credit_def split: if_splits\<close>)
  next
    case None
    obtain a db1 i db2 f where lock: "lock_wallet_account db (cr_user rq) c = Inr (a, db1)"
      and app: "append_wallet_entry (we_unicode env) db1 \<lparr>src_user = cr_user rq, src_currency = c, src_order = None\<rparr> ?key ''admin_credit''
          (credit_prefix @ trim_space (cr_reason rq)) (cr_amount rq) 0 now = Inr (i, db2)"
      and f: "List.find (\<lambda>e. en_id e = i) (db_entries db2) = Some f"
      and m: "match_credit ?rq (credit_prefix @ trim_space (cr_reason rq)) f
          (audit (Some actor) ''wallet.adjustment.credit'' (''wallet-entry:'' @ show_nat i) db2) = Inr (v, db')"
    proof -
      have "\<And>a db1. lock_wallet_account db (cr_user rq) c = Inr (a, db1) \<Longrightarrow> find_entry db1 ?key = None"
        using None lock_wallet_account_spec(2)[OF _ L] by (auto simp: find_entry_def)
      then show ?thesis using st None that by (auto simp: store_credit_def key Let_def split: if_splits option.splits)
    qed
    note l = lock_wallet_account_spec[OF lock L]
    have B1: "books_ok env db1" using assms(2) l by (simp add: books_ok_def)
    have amt: "in64 (cr_amount rq)" "in64 0" using max_wallet_in64[OF amount] by auto
    have apart: "\<forall>i. ?key \<noteq> reversal_key env i" "\<forall>k. ?key \<noteq> debit_entry_key env k"
      unfolding credit_key_def using hash_apart[OF assms(3)] by simp_all
    note B2 = books_append[OF app B1 amt apart]
    from app l(1) amt show ?thesis
    proof (cases rule: append_wallet_entry_cases)
      case (again e)
      have "en_key e \<in> en_key ` set (db_entries db)" using again(1) l(2) by (intro imageI) simp
      with again(2) None show ?thesis by (simp add: find_entry_None)
    next
      case (fresh e vn)
      have fe: "f = e" by (rule find_by_id[of db2]) (use B2 fresh f in \<open>simp_all add: books_ok_def\<close>)
      have db': "db' = audit (Some actor) ''wallet.adjustment.credit'' (''wallet-entry:'' @ show_nat i) db2" "v = view_entry e"
        using m by (auto simp: match_credit_def fe split: if_splits)
      show ?thesis
        by (rule that(2)[of e c]) (use None B2 fresh l db' c in \<open>auto simp: find_entry_None books_ok_def post_entry_reads\<close>)
    qed
  qed
qed

lemma find_adjustment_None: "find_adjustment db k = None \<longleftrightarrow> (\<forall>a \<in> set (db_adjustments db). ad_key a \<noteq> k)"
  by (auto simp: find_adjustment_def find_None_iff)

lemma adjustment_by_id_Some:
  assumes "adjustment_by_id db i = Some a"
  shows "a \<in> set (db_adjustments db)" "ad_id a = i"
  using assms by (auto simp: adjustment_by_id_def find_Some_iff)

lemma books_adjustment:
  assumes "books_ok env db" "a \<in> set (db_adjustments db)"
  shows "adjustment_ok env (db_adjustment_seq db) (db_entries db) a"
  using assms by (simp add: books_ok_def adjustments_ok_def)

lemma books_adjustment_unique:
  assumes "books_ok env db" "a \<in> set (db_adjustments db)" "b \<in> set (db_adjustments db)" "ad_id a = ad_id b"
  shows "a = b"
  using assms by (auto simp: books_ok_def adjustments_ok_def distinct_map dest: inj_onD)

lemma debit_wallet_cases:
  assumes "debit_wallet env now actor rq db = Inr (v, db')" "books_ok env db" "inj (we_hash env)"
  obtains (again) a where "a \<in> set (db_adjustments db)" "ad_key a = debit_key env rq" "v = summarize_wallet_adjustment a" "db' = db"
  | (fresh) a e c where "books_ok env db'" "db_entries db' = db_entries db @ [e]" "db_adjustments db' = db_adjustments db @ [a]"
      "v = summarize_wallet_adjustment a" "ad_key a = debit_key env rq" "ad_status a = ''pending''" "ad_reversal_entry a = None"
      "normalize_wallet_currency (we_unicode env) (dr_currency rq) = Inr c" "ad_user a = dr_user rq" "ad_currency a = c"
      "ad_amount a = dr_amount rq" "0 < dr_amount rq" "dr_amount rq \<le> balance_of db (dr_user rq) c - reserved_of db (dr_user rq) c"
      "\<And>u d. balance_of db' u d = balance_of db u d - (if u = dr_user rq \<and> d = c then dr_amount rq else 0)"
      "\<And>u d. reserved_of db' u d = reserved_of db u d" "db_fundings db' = db_fundings db"
      "db_tickets db (dr_ticket rq) = Some (dr_user rq)" "en_key e = debit_entry_key env (debit_key env rq)"
proof -
  obtain c where c: "normalize_wallet_currency (we_unicode env) (dr_currency rq) = Inr c"
    and amount: "0 < dr_amount rq" "dr_amount rq \<le> max_wallet_input"
    and st: "store_debit env db now actor (rq\<lparr>dr_currency := c, dr_reason := trim_space (dr_reason rq)\<rparr>) = Inr (v, db')"
    using assms(1) by (auto simp: debit_wallet_def wallet_adjustments_debit_def Let_def split: if_splits)
  let ?rq = "rq\<lparr>dr_currency := c, dr_reason := trim_space (dr_reason rq)\<rparr>" and ?key = "debit_key env rq"
  have key: "debit_key env ?rq = ?key" by (simp add: debit_key_def)
  have L: "ledger_ok db" using assms(2) by (simp add: books_ok_def)
  show ?thesis
  proof (cases "find_adjustment db ?key")
    case (Some a)
    then have "v = summarize_wallet_adjustment a" "db' = db"
      using st by (auto simp: store_debit_def key Let_def match_debit_def split: if_splits)
    moreover have "a \<in> set (db_adjustments db)" "ad_key a = ?key" using Some by (auto simp: find_adjustment_def find_Some_iff)
    ultimately show ?thesis by (intro again)
  next
    case None
    define row where "row i n = debit_row n ?key (we_hash env (we_debit_json env ?rq)) actor ?rq i now" for i n
    obtain i db1 where av: "dr_amount rq \<le> balance_of db (dr_user rq) c - reserved_of db (dr_user rq) c"
        "db_tickets db (dr_ticket rq) = Some (dr_user rq)"
      and app: "append_wallet_entry (we_unicode env) db \<lparr>src_user = dr_user rq, src_currency = c, src_order = None\<rparr> (debit_entry_key env ?key)
          ''admin_debit'' (debit_prefix @ trim_space (dr_reason rq) @ ticket_note (dr_ticket rq)) (- dr_amount rq) 0 now = Inr (i, db1)"
      and a: "v = summarize_wallet_adjustment (row i (Suc (db_adjustment_seq db1)))"
        "db' = audit (Some actor) ''wallet.adjustment.debit'' (''wallet-adjustment:'' @ show_nat (Suc (db_adjustment_seq db1)))
           (db1\<lparr>db_adjustments := db_adjustments db1 @ [row i (Suc (db_adjustment_seq db1))], db_adjustment_seq := Suc (db_adjustment_seq db1)\<rparr>)"
      using st None wallet_available_value[OF L]
      by (auto simp: store_debit_def key Let_def debit_entry_key_def row_def split: if_splits)
    have amt: "in64 (- dr_amount rq)" "in64 0" using max_wallet_in64[OF amount] by auto
    from app L amt show ?thesis
    proof (cases rule: append_wallet_entry_cases)
      case (again e)
      with assms(2) None show ?thesis unfolding books_ok_def adjustments_ok_def find_adjustment_None by metis
    next
      case (fresh e vn)
      define a where "a = row i (Suc (db_adjustment_seq db1))"
      have af: "ad_id a = Suc (db_adjustment_seq db1)" "ad_key a = ?key" "ad_user a = dr_user rq" "ad_currency a = c"
        "ad_amount a = dr_amount rq" "ad_entry a = i" "ad_reversal_entry a = None" "ad_status a = ''pending''"
        by (simp_all add: a_def row_def debit_row_def)
      note db' = a(2)[folded a_def] and v = a(1)[folded a_def]
      have e: "e = new_entry db \<lparr>src_user = dr_user rq, src_currency = c, src_order = None\<rparr> (debit_entry_key env ?key)
          ''admin_debit'' (debit_prefix @ trim_space (dr_reason rq) @ ticket_note (dr_ticket rq)) (- dr_amount rq) 0 now" by (rule fresh(2))
      have seq: "db_adjustment_seq db1 = db_adjustment_seq db" "db_adjustments db1 = db_adjustments db" "db_entries db1 = db_entries db @ [e]"
        using fresh(4) by simp_all
      have "debited env (db_entries db @ [e]) a" using af fresh(3) e by (simp add: debited_def)
      with adjustments_ok_debit[of env "db_adjustments db" "db_adjustment_seq db" "db_entries db" e a] assms(2,3) af amount seq e
      have A: "adjustments_ok env (db_adjustments db @ [a]) (Suc (db_adjustment_seq db)) (db_entries db @ [e])"
        by (simp add: books_ok_def)
      have "ledger_ok db1" by (rule append_wallet_entry_ledger[OF app L amt])
      then have "ledger_ok db'" using ledger_ok_cong(1)[of db' db1] db' by simp
      with A db' af(1) seq have B: "books_ok env db'" by (simp add: books_ok_def)
      have R: "balance_of db' u d = balance_of db1 u d" "reserved_of db' u d = reserved_of db1 u d" for u d
        using db' by (simp_all add: balance_of_def reserved_of_def)
      show ?thesis
        by (rule that(2)[of e a c]) (use B af v db' seq c av amount e fresh(4) R in \<open>auto simp: post_entry_reads\<close>)
    qed
  qed
qed

lemma update_adjustment_tables [simp]:
  "db_entries (update_adjustment db b) = db_entries db" "db_entry_seq (update_adjustment db b) = db_entry_seq db"
  "db_accounts (update_adjustment db b) = db_accounts db" "db_adjustment_seq (update_adjustment db b) = db_adjustment_seq db"
  "db_adjustments (update_adjustment db b) = map (\<lambda>a. if ad_id a = ad_id b then b else a) (db_adjustments db)"
  "db_fundings (update_adjustment db b) = db_fundings db"
  by (simp_all add: update_adjustment_def)

lemma adjustment_ok_status:
  assumes "adjustment_ok env n es a" "ad_status a = ''failed'' \<longrightarrow> s = ''failed''"
  shows "adjustment_ok env n es (a\<lparr>ad_status := s, ad_updated := t\<rparr>)"
  using assms by (cases "ad_reversal_entry a") (simp_all add: adjustment_ok_def debited_def reversed_def)

lemma report_payout_cases:
  assumes "report_payout env now actor i rq db = Inr (v, db')" "books_ok env db"
  obtains (again) a where "adjustment_by_id db i = Some a" "v = summarize_wallet_adjustment a" "db' = db"
  | (fresh) a b where "adjustment_by_id db i = Some a" "b = a\<lparr>ad_status := lower_trim (we_unicode env) (pr_outcome rq), ad_updated := now\<rparr>"
      "ad_status a \<in> {''succeeded'', ''failed''} \<Longrightarrow> ad_status b = ad_status a" "v = summarize_wallet_adjustment b" "books_ok env db'"
      "db_adjustments db' = map (\<lambda>x. if ad_id x = ad_id b then b else x) (db_adjustments db)" "db_entries db' = db_entries db"
      "\<And>u c. balance_of db' u c = balance_of db u c" "\<And>u c. reserved_of db' u c = reserved_of db u c" "db_fundings db' = db_fundings db"
proof -
  let ?out = "lower_trim (we_unicode env) (pr_outcome rq)"
  let ?rq = "rq\<lparr>pr_outcome := ?out, pr_reference := trim_space (pr_reference rq), pr_note := trim_space (pr_note rq)\<rparr>"
  have st: "store_record_payout env db now actor i ?rq = Inr (v, db')"
    using assms(1) by (auto simp: report_payout_def wallet_adjustments_record_payout_def Let_def split: if_splits)
  then obtain a where a: "adjustment_by_id db i = Some a"
    and gate: "creation_key_pattern (pr_idempotency rq)" "order_reader db actor True = Inr ()"
    by (auto simp: store_record_payout_def Let_def split: if_splits)
  note ai = adjustment_by_id_Some[OF a]
  let ?key = "we_hash env (''wallet-payout-result:'' @ pr_idempotency rq)"
  show ?thesis
  proof (cases "List.find (\<lambda>p. py_key p = ?key) (db_payouts db)")
    case (Some p)
    with st a show ?thesis by (intro again) (auto simp: store_record_payout_def Let_def split: if_splits)
  next
    case None
    define b where "b = a\<lparr>ad_status := ?out, ad_updated := now\<rparr>"
    define ps where "ps = db_payouts db @ [payout_row (Suc (db_payout_seq db)) i ?key (we_hash env (we_payout_json env i ?rq)) actor ?rq now]"
    define bad where "bad \<longleftrightarrow> (ad_status a = ''succeeded'' \<or> ad_status a = ''failed'') \<and> ad_status a \<noteq> ?out"
    define db1 where "db1 = audit (Some actor) ''wallet.payout.report'' (''wallet-adjustment:'' @ show_nat i)
         (update_adjustment (db\<lparr>db_payouts := ps, db_payout_seq := Suc (db_payout_seq db)\<rparr>) b)"
    have "store_record_payout env db now actor i ?rq =
        adjustment_error (if bad then Inl adjustment_conflict else Inr (summarize_wallet_adjustment b, db1))"
      using None by (simp add: store_record_payout_def Let_def gate a bad_def ps_def b_def db1_def)
    with st have b: "\<not> bad" "v = summarize_wallet_adjustment b" "db' = db1" by (simp_all split: if_splits)
    note db' = b(3)[unfolded db1_def]
    have keep: "ad_status a \<in> {''succeeded'', ''failed''} \<Longrightarrow> ?out = ad_status a"
      using b(1) by (cases "ad_status a = ?out") (simp_all add: bad_def)
    have ok: "adjustment_ok env (db_adjustment_seq db) (db_entries db) a" by (rule books_adjustment[OF assms(2) ai(1)])
    have eqs: "ad_id b = ad_id a" "ad_amount b = ad_amount a" "ad_reversal_entry b = ad_reversal_entry a" "ad_status b = ?out"
      by (simp_all add: b_def)
    have "?out = ''failed''" if "ad_status a = ''failed''"
    proof -
      have "ad_status a \<in> {''succeeded'', ''failed''}" using that by simp
      from keep[OF this] that show ?thesis by (rule trans)
    qed
    then have "adjustment_ok env (db_adjustment_seq db) (db_entries db) b"
      unfolding b_def by (intro adjustment_ok_status[OF ok] impI)
    moreover have "ad_key x = ad_key b \<and> (ad_reversal_entry x \<noteq> None \<longrightarrow> ad_reversal_entry b \<noteq> None)"
      if "x \<in> set (db_adjustments db)" "ad_id x = ad_id b" for x
      using books_adjustment_unique[OF assms(2) that(1) ai(1)] that(2) by (simp add: b_def)
    ultimately have A: "adjustments_ok env (map (\<lambda>x. if ad_id x = ad_id b then b else x) (db_adjustments db)) (db_adjustment_seq db) (db_entries db)"
      by (intro adjustments_ok_update[OF assms(2)[unfolded books_ok_def, THEN conjunct2]]) simp_all
    have "ledger_ok db'" using assms(2) ledger_ok_cong(1)[of db' db] db' by (simp add: books_ok_def)
    with A db' have B: "books_ok env db'" by (simp add: books_ok_def)
    have R: "balance_of db' u c = balance_of db u c" "reserved_of db' u c = reserved_of db u c" for u c
      using db' by (simp_all add: balance_of_def reserved_of_def)
    have "ad_status a \<in> {''succeeded'', ''failed''} \<Longrightarrow> ad_status b = ad_status a" unfolding eqs by (rule keep)
    then show ?thesis by (rule fresh[OF a b_def _ b(2) B]) (use db' R in simp_all)
  qed
qed

lemma reverse_debit_cases:
  assumes "reverse_debit env now actor i reason db = Inr (v, db')" "books_ok env db" "inj (we_hash env)"
  obtains (again) a where "adjustment_by_id db i = Some a" "ad_reversal_entry a \<noteq> None" "v = summarize_wallet_adjustment a" "db' = db"
  | (fresh) a b e where "adjustment_by_id db i = Some a" "ad_status a = ''failed''" "ad_reversal_entry a = None"
      "b = a\<lparr>ad_reversal_entry := Some (en_id e), ad_reversal_actor := Some actor, ad_reversal_reason := trim_space reason, ad_updated := now\<rparr>"
      "v = summarize_wallet_adjustment b" "books_ok env db'" "db_entries db' = db_entries db @ [e]"
      "db_adjustments db' = map (\<lambda>x. if ad_id x = ad_id b then b else x) (db_adjustments db)"
      "\<And>u c. balance_of db' u c = balance_of db u c + (if u = ad_user a \<and> c = ad_currency a then ad_amount a else 0)"
      "\<And>u c. reserved_of db' u c = reserved_of db u c" "db_fundings db' = db_fundings db" "en_key e = reversal_key env i"
proof -
  have st: "store_reverse env db now actor i (trim_space reason) = Inr (v, db')"
    using assms(1) by (auto simp: reverse_debit_def wallet_adjustments_reverse_def Let_def split: if_splits)
  then obtain a where a: "adjustment_by_id db i = Some a" by (auto simp: store_reverse_def)
  note ai = adjustment_by_id_Some[OF a]
  have L: "ledger_ok db" using assms(2) by (simp add: books_ok_def)
  show ?thesis
  proof (cases "ad_reversal_entry a")
    case (Some r)
    with st a show ?thesis by (intro again) (auto simp: store_reverse_def)
  next
    case None
    obtain n db1 where failed: "ad_status a = ''failed''"
      and app: "append_wallet_entry (we_unicode env) db \<lparr>src_user = ad_user a, src_currency = ad_currency a, src_order = None\<rparr>
          (reversal_key env i) ''admin_debit_reversal'' (reversal_prefix @ trim_space reason @ ticket_note (ad_ticket a)) (ad_amount a) 0 now = Inr (n, db1)"
      and b: "v = summarize_wallet_adjustment (a\<lparr>ad_reversal_entry := Some n, ad_reversal_actor := Some actor, ad_reversal_reason := trim_space reason, ad_updated := now\<rparr>)"
        "db' = audit (Some actor) ''wallet.adjustment.reverse'' (''wallet-adjustment:'' @ show_nat i)
           (update_adjustment db1 (a\<lparr>ad_reversal_entry := Some n, ad_reversal_actor := Some actor, ad_reversal_reason := trim_space reason, ad_updated := now\<rparr>))"
      using st a None by (auto simp: store_reverse_def Let_def split: if_splits)
    have ok: "adjustment_ok env (db_adjustment_seq db) (db_entries db) a" by (rule books_adjustment[OF assms(2) ai(1)])
    then have amt: "in64 (ad_amount a)" "in64 0" using max_wallet_in64[of "ad_amount a"] by (auto simp: adjustment_ok_def)
    from app L amt show ?thesis
    proof (cases rule: append_wallet_entry_cases)
      case (again e)
      with assms(2) obtain x where "x \<in> set (db_adjustments db)" "ad_id x = i" "ad_reversal_entry x \<noteq> None"
        unfolding books_ok_def adjustments_ok_def by blast
      with books_adjustment_unique[OF assms(2) _ ai(1)] ai(2) None show ?thesis by auto
    next
      case (fresh e vn)
      define b where "b = a\<lparr>ad_reversal_entry := Some n, ad_reversal_actor := Some actor, ad_reversal_reason := trim_space reason, ad_updated := now\<rparr>"
      note db' = b(2)[folded b_def] and v = b(1)[folded b_def]
      have tabs: "db_entries db1 = db_entries db @ [e]" "db_adjustments db1 = db_adjustments db" "db_adjustment_seq db1 = db_adjustment_seq db"
        using fresh(4) by simp_all
      have key: "en_key e = reversal_key env i" "en_user e = ad_user a" "en_currency e = ad_currency a" "en_balance_delta e = ad_amount a"
        "en_reserved_delta e = 0" using fresh(2) by simp_all
      have "adjustment_ok env (db_adjustment_seq db) (db_entries db @ [e]) a" by (rule adjustment_ok_mono[OF ok]) auto
      then have bok: "adjustment_ok env (db_adjustment_seq db) (db_entries db @ [e]) b"
        using failed fresh(3) key ai(2) by (auto simp: b_def adjustment_ok_def debited_def reversed_def)
      have same: "ad_key x = ad_key b \<and> (ad_reversal_entry x \<noteq> None \<longrightarrow> ad_reversal_entry b \<noteq> None)"
        if "x \<in> set (db_adjustments db)" "ad_id x = ad_id b" for x
        using books_adjustment_unique[OF assms(2) that(1) ai(1)] that(2) by (simp add: b_def)
      have A: "adjustments_ok env (map (\<lambda>x. if ad_id x = ad_id b then b else x) (db_adjustments db)) (db_adjustment_seq db) (db_entries db @ [e])"
      proof (rule adjustments_ok_update[OF _ bok])
        show "(\<forall>k. en_key x \<noteq> debit_entry_key env k) \<and> (\<forall>j. en_key x = reversal_key env j \<longrightarrow>
            j = ad_id b \<and> ad_reversal_entry b \<noteq> None \<and> j \<in> ad_id ` set (db_adjustments db))"
          if "x \<in> set (db_entries db @ [e])" "x \<notin> set (db_entries db)" for x
          using that key(1) ai debit_reversal_apart[OF assms(3)] by (auto simp: b_def)
      qed (use assms(2) in \<open>auto simp: books_ok_def dest: same\<close>)
      have "ledger_ok db1" by (rule append_wallet_entry_ledger[OF app L amt])
      then have "ledger_ok db'" using ledger_ok_cong(1)[of db' db1] db' by simp
      with A db' tabs have B: "books_ok env db'" by (simp add: books_ok_def)
      have R: "balance_of db' u c = balance_of db1 u c" "reserved_of db' u c = reserved_of db1 u c" for u c
        using db' by (simp_all add: balance_of_def reserved_of_def)
      show ?thesis
        by (rule that(2)[of a b e]) (use a failed None B v db' tabs fresh R in \<open>auto simp: post_entry_reads b_def\<close>)
    qed
  qed
qed

section \<open>Writers of the ledger\<close>

text \<open>
  What every operation on the wallet promises: it keeps the books sound, only appends to the ledger, and
  leaves reserves, fundings of orders and the entry keys of fundings alone.
  An entry, once committed, is found again under its key after any number of writes.
\<close>

definition foreign_keys :: "wallet_env \<Rightarrow> shop_db \<Rightarrow> shop_db \<Rightarrow> bool" where
  "foreign_keys env db db' \<longleftrightarrow> (\<forall>e \<in> set (db_entries db') - set (db_entries db). \<exists>s. en_key e = we_hash env s \<and>
     take 8 s \<noteq> ''reserve-'' \<and> take 8 s \<noteq> ''release-'' \<and> take 8 s \<noteq> ''capture-'')"

lemma foreign_keys_refl [simp]: "foreign_keys env db db"
  by (simp add: foreign_keys_def)

lemma foreign_keys_one:
  assumes "db_entries db' = db_entries db @ [e]" "en_key e = we_hash env s"
    "take 8 s \<noteq> ''reserve-''" "take 8 s \<noteq> ''release-''" "take 8 s \<noteq> ''capture-''"
  shows "foreign_keys env db db'"
  using assms unfolding foreign_keys_def by auto

locale wallet_writer =
  fixes env :: wallet_env and run :: "shop_db \<Rightarrow> ('v \<times> shop_db) result"
  assumes keeps: "run db = Inr (v, db') \<Longrightarrow> books_ok env db \<Longrightarrow> inj (we_hash env) \<Longrightarrow> books_ok env db'"
    and extends: "run db = Inr (v, db') \<Longrightarrow> books_ok env db \<Longrightarrow> inj (we_hash env) \<Longrightarrow> \<exists>es. db_entries db' = db_entries db @ es"
    and adjusts: "run db = Inr (v, db') \<Longrightarrow> books_ok env db \<Longrightarrow> inj (we_hash env) \<Longrightarrow> a \<in> set (db_adjustments db) \<Longrightarrow>
      \<exists>b \<in> set (db_adjustments db'). ad_id b = ad_id a \<and> (ad_reversal_entry a \<noteq> None \<longrightarrow> ad_reversal_entry b \<noteq> None)"
    and spares: "run db = Inr (v, db') \<Longrightarrow> books_ok env db \<Longrightarrow> inj (we_hash env) \<Longrightarrow>
      db_fundings db' = db_fundings db \<and> reserved_of db' = reserved_of db \<and> foreign_keys env db db'"
begin

lemma entry_survives:
  assumes "run db = Inr (v, db')" "books_ok env db" "inj (we_hash env)" "find_entry db k = Some e"
  shows "find_entry db' k = Some e"
proof -
  from extends[OF assms(1-3)] obtain es where "db_entries db' = db_entries db @ es" by blast
  moreover have "e \<in> set (db_entries db)" "en_key e = k" using find_entry_Some[OF assms(4)] by auto
  ultimately show ?thesis
    using find_entry_unique[of db' e] keeps[OF assms(1-3)] by (simp add: books_ok_def)
qed

lemma reversal_survives:
  assumes "run db = Inr (v, db')" "books_ok env db" "inj (we_hash env)" "adjustment_by_id db i = Some a" "ad_reversal_entry a \<noteq> None"
  shows "\<exists>b. adjustment_by_id db' i = Some b \<and> ad_reversal_entry b \<noteq> None"
proof -
  note ai = adjustment_by_id_Some[OF assms(4)]
  from adjusts[OF assms(1-3) ai(1)] ai(2) assms(5) obtain b where b: "b \<in> set (db_adjustments db')" "ad_id b = i" "ad_reversal_entry b \<noteq> None"
    by auto
  then have "adjustment_by_id db' i \<noteq> None" by (auto simp: adjustment_by_id_def find_None_iff)
  then obtain x where x: "adjustment_by_id db' i = Some x" by blast
  with adjustment_by_id_Some[OF x] b books_adjustment_unique[OF keeps[OF assms(1-3)]] have "x = b" by auto
  with x b show ?thesis by blast
qed

end

lemma adjustments_updated:
  assumes "a \<in> set as" "ad_id b = ad_id c" "c \<in> set as" "ad_reversal_entry c \<noteq> None \<longrightarrow> ad_reversal_entry b \<noteq> None" "distinct (map ad_id as)"
  shows "\<exists>x \<in> set (map (\<lambda>x. if ad_id x = ad_id b then b else x) as). ad_id x = ad_id a \<and> (ad_reversal_entry a \<noteq> None \<longrightarrow> ad_reversal_entry x \<noteq> None)"
proof (cases "ad_id a = ad_id b")
  case True
  with assms have "a = c" by (auto simp: distinct_map dest: inj_onD)
  with True assms show ?thesis by (intro bexI[of _ b]) (auto intro!: image_eqI[of _ _ a])
next
  case False
  with assms(1) show ?thesis by (intro bexI[of _ a]) (auto intro!: image_eqI[of _ _ a])
qed

lemma books_distinct: "books_ok env db \<Longrightarrow> distinct (map ad_id (db_adjustments db))"
  by (simp add: books_ok_def adjustments_ok_def)

interpretation credit: wallet_writer env "credit_wallet env now actor rq" for env now actor rq
proof (unfold_locales, goal_cases)
  case (1 db v db')
  from 1 show ?case by (cases rule: credit_wallet_cases) (use 1(2) in simp_all)
next
  case (2 db v db')
  then show ?case by (cases rule: credit_wallet_cases) simp_all
next
  case (3 db v db' a)
  from 3(1-3) show ?case by (cases rule: credit_wallet_cases) (use 3(4) in auto)
next
  case (4 db v db')
  then show ?case
  proof (cases rule: credit_wallet_cases)
    case (fresh e c)
    have "foreign_keys env db db'"
      by (rule foreign_keys_one[OF fresh(3) fresh(4)[unfolded credit_key_def]]) simp_all
    with fresh show ?thesis by (simp add: fun_eq_iff)
  qed simp
qed

interpretation debit: wallet_writer env "debit_wallet env now actor rq" for env now actor rq
proof (unfold_locales, goal_cases)
  case (1 db v db')
  from 1 show ?case by (cases rule: debit_wallet_cases) (use 1(2) in simp_all)
next
  case (2 db v db')
  then show ?case by (cases rule: debit_wallet_cases) simp_all
next
  case (3 db v db' a)
  from 3(1-3) show ?case by (cases rule: debit_wallet_cases) (use 3(4) in auto)
next
  case (4 db v db')
  then show ?case
  proof (cases rule: debit_wallet_cases)
    case (fresh a e c)
    have "foreign_keys env db db'"
      by (rule foreign_keys_one[OF fresh(2) fresh(18)[unfolded debit_entry_key_def]]) simp_all
    with fresh show ?thesis by (simp add: fun_eq_iff)
  qed simp
qed

interpretation payout: wallet_writer env "report_payout env now actor i rq" for env now actor i rq
proof (unfold_locales, goal_cases)
  case (1 db v db')
  from 1(1,2) show ?case by (cases rule: report_payout_cases) (use 1(2) in simp_all)
next
  case (2 db v db')
  from 2(1,2) show ?case by (cases rule: report_payout_cases) simp_all
next
  case (3 db v db' a)
  from 3(1,2) show ?case
  proof (cases rule: report_payout_cases)
    case (again c)
    with 3(4) show ?thesis by auto
  next
    case (fresh c b)
    from adjustments_updated[OF 3(4) _ adjustment_by_id_Some(1)[OF fresh(1)] _ books_distinct[OF 3(2)], of b] fresh(2,6)
    show ?thesis by simp
  qed
next
  case (4 db v db')
  from 4(1,2) show ?case
    by (cases rule: report_payout_cases) (simp_all add: fun_eq_iff foreign_keys_def)
qed

interpretation reversal: wallet_writer env "reverse_debit env now actor i reason" for env now actor i reason
proof (unfold_locales, goal_cases)
  case (1 db v db')
  from 1 show ?case by (cases rule: reverse_debit_cases) (use 1(2) in simp_all)
next
  case (2 db v db')
  then show ?case by (cases rule: reverse_debit_cases) simp_all
next
  case (3 db v db' a)
  from 3(1-3) show ?case
  proof (cases rule: reverse_debit_cases)
    case (again c)
    with 3(4) show ?thesis by auto
  next
    case (fresh c b e)
    from adjustments_updated[OF 3(4) _ adjustment_by_id_Some(1)[OF fresh(1)] _ books_distinct[OF 3(2)], of b] fresh(4,8)
    show ?thesis by simp
  qed
next
  case (4 db v db')
  then show ?case
  proof (cases rule: reverse_debit_cases)
    case (fresh a b e)
    have "foreign_keys env db db'" by (rule foreign_keys_one[OF fresh(7) fresh(12)[unfolded reversal_key_def]]) simp_all
    with fresh show ?thesis by (simp add: fun_eq_iff)
  qed simp
qed

text \<open>A credit that belongs to an order, under a key that no adjustment and no order funding uses.\<close>

lemma order_credit_cases:
  assumes "append_wallet_credit (we_unicode env) db r (we_hash env s) kind text amount now = Inr (i, db')" "books_ok env db" "inj (we_hash env)"
    "amount \<le> max64" "take 11 s \<noteq> ''adjustment-''" "take 8 s \<noteq> ''reserve-''" "take 8 s \<noteq> ''release-''" "take 8 s \<noteq> ''capture-''"
  shows "books_ok env db'" "\<exists>es. db_entries db' = db_entries db @ es" "db_adjustments db' = db_adjustments db"
    "db_fundings db' = db_fundings db" "reserved_of db' u c = reserved_of db u c"
    "balance_of db' u c = balance_of db u c
       + (if u = or_user r \<and> c = or_currency r \<and> we_hash env s \<notin> en_key ` set (db_entries db) then amount else 0)"
    "foreign_keys env db db'"
    "\<exists>e \<in> set (db_entries db'). en_id e = i \<and> en_key e = we_hash env s \<and> en_user e = or_user r \<and> en_currency e = or_currency r
       \<and> en_balance_delta e = amount \<and> en_reserved_delta e = 0 \<and> en_kind e = kind"
proof -
  let ?key = "we_hash env s"
  have app: "append_wallet_entry (we_unicode env) db \<lparr>src_user = or_user r, src_currency = or_currency r, src_order = Some (or_id r)\<rparr>
      ?key kind text amount 0 now = Inr (i, db')" and pos: "0 < amount"
    using assms(1) by (auto simp: append_wallet_credit_def append_wallet_change_def split: if_splits)
  have L: "ledger_ok db" using assms(2) by (simp add: books_ok_def)
  have amt: "in64 amount" "in64 0" using pos assms(4) by (simp_all add: int64_simps)
  have apart: "\<forall>i. ?key \<noteq> reversal_key env i" "\<forall>k. ?key \<noteq> debit_entry_key env k"
    using hash_apart[OF assms(3,5)] by blast+
  from books_append[OF app assms(2) amt apart] show "books_ok env db'" .
  show "\<exists>es. db_entries db' = db_entries db @ es" "db_adjustments db' = db_adjustments db" "db_fundings db' = db_fundings db"
    "reserved_of db' u c = reserved_of db u c"
    by (rule append_wallet_entry_cases[OF app L amt]; simp add: post_entry_reads)+
  show "balance_of db' u c = balance_of db u c + (if u = or_user r \<and> c = or_currency r \<and> ?key \<notin> en_key ` set (db_entries db) then amount else 0)"
  proof (rule append_wallet_entry_cases[OF app L amt])
    fix e assume "e \<in> set (db_entries db)" "en_key e = ?key" "db' = db"
    moreover from this have "?key \<in> en_key ` set (db_entries db)" by (metis imageI)
    ultimately show ?thesis by simp
  qed (simp add: post_entry_reads)
  show "foreign_keys env db db'"
    by (rule append_wallet_entry_cases[OF app L amt]) (use assms(6-8) in \<open>auto simp: foreign_keys_def\<close>)
  show "\<exists>e \<in> set (db_entries db'). en_id e = i \<and> en_key e = ?key \<and> en_user e = or_user r \<and> en_currency e = or_currency r
      \<and> en_balance_delta e = amount \<and> en_reserved_delta e = 0 \<and> en_kind e = kind"
    by (rule append_wallet_entry_cases[OF app L amt]) (auto simp: same_entry_def post_entry_reads intro!: bexI)
qed

lemma credit_top_up_credit:
  assumes "credit_top_up env db now r = Inr (i, db')"
  shows "append_wallet_credit (we_unicode env) db r (we_hash env (''topup-order:'' @ show_nat (or_id r))) ''topup'' topup_text (or_payable r) now = Inr (i, db')"
  using assms by (auto simp: credit_top_up_def split: if_splits)

section \<open>Histories\<close>

text \<open>
  A step of a running shop as far as wallets go: one of the operations commits, money of a payment receipt or an
  approved refund is credited, or other parts change users, tickets, orders, payments and settlements of value.
\<close>

inductive book_step :: "wallet_env \<Rightarrow> shop_db \<Rightarrow> shop_db \<Rightarrow> bool" for env where
  credit: "credit_wallet env now actor rq db = Inr (v, db') \<Longrightarrow> book_step env db db'"
| debit: "debit_wallet env now actor dq db = Inr (a, db') \<Longrightarrow> book_step env db db'"
| payout: "report_payout env now actor i pq db = Inr (a, db') \<Longrightarrow> book_step env db db'"
| reversal: "reverse_debit env now actor i reason db = Inr (a, db') \<Longrightarrow> book_step env db db'"
| top_up: "credit_top_up env db now r = Inr (i, db') \<Longrightarrow> or_payable r \<le> max64 \<Longrightarrow> book_step env db db'"
| receipt: "append_wallet_credit (we_unicode env) db r (we_hash env s) kind text amount now = Inr (i, db') \<Longrightarrow> amount \<le> max64 \<Longrightarrow>
    take 8 s \<in> {''payment-'', ''consumpt''} \<Longrightarrow> book_step env db db'"
| elsewhere: "book_step env db (db\<lparr>db_users := us, db_tickets := ts, db_orders := os, db_attempts := ats, db_events := evs, db_settlements := ss\<rparr>)"
| audited: "book_step env db (db\<lparr>db_audit := as\<rparr>)"

inductive_cases book_stepE: "book_step env db db'"

lemma books_elsewhere:
  "books_ok env (db\<lparr>db_users := us, db_tickets := ts, db_orders := os, db_attempts := ats, db_events := evs, db_settlements := ss\<rparr>) = books_ok env db"
  using ledger_ok_cong(1)[of "db\<lparr>db_users := us, db_tickets := ts, db_orders := os, db_attempts := ats, db_events := evs, db_settlements := ss\<rparr>" db]
  by (simp add: books_ok_def)

lemma books_audited: "books_ok env (db\<lparr>db_audit := as\<rparr>) = books_ok env db"
  using ledger_ok_cong(1)[of "db\<lparr>db_audit := as\<rparr>" db] by (simp add: books_ok_def)

lemma book_step_writer:
  assumes "book_step env db db'"
  obtains run where "wallet_writer env run" "run db = Inr ((), db')"
proof -
  have "wallet_writer env (\<lambda>x. if x = db then Inr ((), db') else Inl ErrNotFound)"
    using assms
  proof cases
    case (credit now actor rq v)
    show ?thesis
      by unfold_locales (use credit credit.keeps[of env now actor rq] credit.extends[of env now actor rq] credit.adjusts[of env now actor rq] credit.spares[of env now actor rq] in \<open>auto split: if_splits\<close>)
  next
    case (debit now actor rq v)
    show ?thesis
      by unfold_locales (use debit debit.keeps[of env now actor rq] debit.extends[of env now actor rq] debit.adjusts[of env now actor rq] debit.spares[of env now actor rq] in \<open>auto split: if_splits\<close>)
  next
    case (payout now actor i rq v)
    show ?thesis
      by unfold_locales (use payout payout.keeps[of env now actor i rq] payout.extends[of env now actor i rq] payout.adjusts[of env now actor i rq] payout.spares[of env now actor i rq] in \<open>auto split: if_splits\<close>)
  next
    case (reversal now actor i reason v)
    show ?thesis
      by unfold_locales (use reversal reversal.keeps[of env now actor i reason] reversal.extends[of env now actor i reason] reversal.adjusts[of env now actor i reason] reversal.spares[of env now actor i reason] in \<open>auto split: if_splits\<close>)
  next
    case (top_up now r i)
    note credit_top_up_credit[OF top_up(1)]
    from order_credit_cases[OF this] top_up(2) show ?thesis by unfold_locales (auto simp: fun_eq_iff split: if_splits)
  next
    case (receipt r s kind words amount now i)
    have "take 11 s \<noteq> ''adjustment-''"
    proof
      assume "take 11 s = ''adjustment-''"
      then have "take 8 (take 11 s) = take 8 ''adjustment-''" by (rule arg_cong)
      with receipt(3) show False by auto
    qed
    with order_credit_cases[OF receipt(1) _ _ receipt(2)] receipt(3) show ?thesis by unfold_locales (auto simp: fun_eq_iff split: if_splits)
  next
    case (elsewhere us ts os ats evs ss)
    then show ?thesis by unfold_locales (auto simp: books_elsewhere reserved_of_def foreign_keys_def fun_eq_iff split: if_splits)
  next
    case (audited as)
    then show ?thesis by unfold_locales (auto simp: books_audited reserved_of_def foreign_keys_def fun_eq_iff split: if_splits)
  qed
  then show ?thesis by (rule that) simp
qed

lemma books_step: "book_step env db db' \<Longrightarrow> books_ok env db \<Longrightarrow> inj (we_hash env) \<Longrightarrow> books_ok env db'"
  by (erule book_step_writer) (rule wallet_writer.keeps)

lemma books_history:
  "(book_step env)\<^sup>*\<^sup>* db db' \<Longrightarrow> books_ok env db \<Longrightarrow> inj (we_hash env) \<Longrightarrow> books_ok env db'"
  by (induction rule: rtranclp_induct) (auto intro: books_step)

lemma entry_history:
  assumes "(book_step env)\<^sup>*\<^sup>* db db'" "books_ok env db" "inj (we_hash env)" "find_entry db k = Some e"
  shows "find_entry db' k = Some e"
  using assms(1)
proof (induction rule: rtranclp_induct)
  case (step y z)
  from step(2) obtain run where "wallet_writer env run" "run y = Inr ((), z)" by (rule book_step_writer)
  from wallet_writer.entry_survives[OF this books_history[OF step(1) assms(2,3)] assms(3) step(3)] show ?case .
qed (rule assms(4))

lemma reversal_history:
  assumes "(book_step env)\<^sup>*\<^sup>* db db'" "books_ok env db" "inj (we_hash env)" "adjustment_by_id db i = Some a" "ad_reversal_entry a \<noteq> None"
  shows "\<exists>b. adjustment_by_id db' i = Some b \<and> ad_reversal_entry b \<noteq> None"
  using assms(1)
proof (induction rule: rtranclp_induct)
  case (step y z)
  from step(2) obtain run where "wallet_writer env run" "run y = Inr ((), z)" by (rule book_step_writer)
  with wallet_writer.reversal_survives[OF this books_history[OF step(1) assms(2,3)] assms(3)] step(3) show ?case by blast
qed (use assms(4,5) in blast)

lemma books_empty: "books_ok env empty_db"
  by (simp add: books_ok_def empty_db_def ledger_ok_def adjustments_ok_def entries_of_def balance_of_def reserved_of_def)

section \<open>A concrete shop\<close>

definition sample_env :: wallet_env where
  "sample_env = \<lparr>we_unicode = ascii_unicode, we_hash = (\<lambda>s. s), we_debit_json = dr_idempotency, we_payout_json = (\<lambda>i rq. pr_outcome rq)\<rparr>"

definition sample_shop :: shop_db where
  "sample_shop = empty_db\<lparr>
     db_users := (\<lambda>u. if u = 1 then Some \<lparr>ur_status = ''active'', ur_admin = True, ur_deleted = False\<rparr>
       else if u = 2 then Some \<lparr>ur_status = ''active'', ur_admin = False, ur_deleted = False\<rparr> else None),
     db_tickets := (\<lambda>t. if t = 5 then Some 2 else None), db_orders := (\<lambda>_. None),
     db_attempts := [], db_events := [], db_settlements := []\<rparr>"

definition sample_credit :: credit_request where
  "sample_credit = \<lparr>cr_idempotency = ''credit-01'', cr_user = 2, cr_currency = ''usd'', cr_amount = 500, cr_reason = ''gift''\<rparr>"

definition sample_debit :: debit_request where
  "sample_debit = \<lparr>dr_idempotency = ''debit-001'', dr_user = 2, dr_currency = ''USD'', dr_amount = 200, dr_ticket = 5, dr_reason = ''refund paid out''\<rparr>"

definition sample_payout :: payout_request where
  "sample_payout = \<lparr>pr_idempotency = ''payout-01'', pr_outcome = ''Failed'', pr_reference = ''bank-7'', pr_note = [], pr_occurred = 10\<rparr>"

lemma sample_inj: "inj (we_hash sample_env)"
  by (simp add: sample_env_def inj_def)

lemma sample_shop_step: "book_step sample_env empty_db sample_shop"
  unfolding sample_shop_def by (rule book_step.elsewhere)

lemma sample_history:
  obtains v db1 w db1' a db2 b db3 c db4 d db5 where
    "credit_wallet sample_env 100 1 sample_credit sample_shop = Inr (v, db1)" "balance_of db1 2 ''USD'' = 500"
    "credit_wallet sample_env 900 1 sample_credit db1 = Inr (w, db1')"
    "debit_wallet sample_env 200 1 sample_debit db1 = Inr (a, db2)" "balance_of db2 2 ''USD'' = 300"
    "report_payout sample_env 300 1 1 sample_payout db2 = Inr (b, db3)"
    "reverse_debit sample_env 400 1 1 ''returned'' db3 = Inr (c, db4)" "balance_of db4 2 ''USD'' = 500"
    "reverse_debit sample_env 500 1 1 ''again'' db4 = Inr (d, db5)"
proof -
  have "(case credit_wallet sample_env 100 1 sample_credit sample_shop of Inl _ \<Rightarrow> False | Inr x \<Rightarrow> (let db1 = snd x in
      balance_of db1 2 ''USD'' = 500 \<and> (case credit_wallet sample_env 900 1 sample_credit db1 of Inl _ \<Rightarrow> False | Inr _ \<Rightarrow> True) \<and>
      (case debit_wallet sample_env 200 1 sample_debit db1 of Inl _ \<Rightarrow> False | Inr x \<Rightarrow> balance_of (snd x) 2 ''USD'' = 300 \<and>
        (case report_payout sample_env 300 1 1 sample_payout (snd x) of Inl _ \<Rightarrow> False | Inr x \<Rightarrow>
          (case reverse_debit sample_env 400 1 1 ''returned'' (snd x) of Inl _ \<Rightarrow> False | Inr x \<Rightarrow> balance_of (snd x) 2 ''USD'' = 500 \<and>
            (case reverse_debit sample_env 500 1 1 ''again'' (snd x) of Inl _ \<Rightarrow> False | Inr _ \<Rightarrow> True))))))"
    by code_simp
  then show ?thesis unfolding case_result_holds Let_def by (auto intro: that)
qed

lemma sample_shop_books: "books_ok sample_env sample_shop"
  by (rule books_step[OF sample_shop_step books_empty sample_inj])

section \<open>Properties\<close>

text \<open>
  C32. In every history of credits, debits, payout reports, reversals and verified top-ups the books stay sound:
  the balance and the reserve of every account are the sums of its ledger entries, the reserve is never
  negative and never above the balance, the balance never overflows, no entry key is used twice, and a debit
  is reversed only after its payout was reported as failed.
\<close>
theorem wallet_books_sound:
  assumes "(book_step env)\<^sup>*\<^sup>* empty_db db" "inj (we_hash env)"
  shows "ledger_ok db \<and> balance_of db u c = sum_list (map en_balance_delta (entries_of db u c))
    \<and> reserved_of db u c = sum_list (map en_reserved_delta (entries_of db u c))
    \<and> 0 \<le> reserved_of db u c \<and> reserved_of db u c \<le> balance_of db u c \<and> balance_of db u c \<le> max64
    \<and> distinct (map en_key (db_entries db))
    \<and> (\<forall>a \<in> set (db_adjustments db). ad_reversal_entry a \<noteq> None \<longrightarrow> ad_status a = ''failed'')"
proof -
  have B: "books_ok env db" by (rule books_history[OF assms(1) books_empty assms(2)])
  then have L: "ledger_ok db" by (simp add: books_ok_def)
  then have "replay_entries 0 0 (entries_of db u c) = Some (balance_of db u c, reserved_of db u c)" "distinct (map en_key (db_entries db))"
    by (simp_all add: ledger_ok_def)
  moreover have "\<forall>a \<in> set (db_adjustments db). ad_reversal_entry a \<noteq> None \<longrightarrow> ad_status a = ''failed''"
    using books_adjustment[OF B] by (simp add: adjustment_ok_def)
  ultimately show ?thesis using L ledger_bounds[OF L, of u c] replay_sums[of 0 0 "entries_of db u c"] by simp
qed

theorem wallet_books_sound_witness:
  "\<exists>db. (book_step sample_env)\<^sup>*\<^sup>* empty_db db \<and> balance_of db 2 ''USD'' = 500
    \<and> sum_list (map en_balance_delta (entries_of db 2 ''USD'')) = 500"
proof -
  obtain v db where c: "credit_wallet sample_env 100 1 sample_credit sample_shop = Inr (v, db)" "balance_of db 2 ''USD'' = 500"
    by (rule sample_history)
  have "(book_step sample_env)\<^sup>*\<^sup>* sample_shop db" using book_step.credit[OF c(1)] by (rule r_into_rtranclp[of "book_step sample_env"])
  with sample_shop_step have "(book_step sample_env)\<^sup>*\<^sup>* empty_db db" by (rule converse_rtranclp_into_rtranclp[of "book_step sample_env"])
  with wallet_books_sound[OF this sample_inj, of 2 "''USD''"] c(2) show ?thesis by (intro exI[of _ db]) simp
qed

text \<open>
  A credit counts once: when a credit was accepted and the same administrator sends the same request again,
  after whatever happened to the wallets in between, nothing changes and the entry of the first time is returned.
\<close>
theorem credit_counts_once:
  assumes "credit_wallet env now actor rq db = Inr (v, db1)" "books_ok env db" "inj (we_hash env)"
    "(book_step env)\<^sup>*\<^sup>* db1 db2" "credit_wallet env later actor rq db2 = Inr (w, db3)"
  shows "db3 = db2 \<and> w = v \<and> ev_balance_delta v = cr_amount rq"
proof -
  have B1: "books_ok env db1" by (rule credit.keeps[OF assms(1-3)])
  have B2: "books_ok env db2" by (rule books_history[OF assms(4) B1 assms(3)])
  obtain e where e: "e \<in> set (db_entries db1)" "en_key e = credit_key env actor rq" "v = view_entry e" "en_balance_delta e = cr_amount rq"
    using assms(1-3) by (cases rule: credit_wallet_cases) auto
  have "find_entry db1 (credit_key env actor rq) = Some e" using find_entry_unique[of db1 e] B1 e by (simp add: books_ok_def)
  then have f: "find_entry db2 (credit_key env actor rq) = Some e" by (rule entry_history[OF assms(4) B1 assms(3)])
  from assms(5) B2 assms(3) show ?thesis
  proof (cases rule: credit_wallet_cases)
    case (again x)
    then have "find_entry db2 (credit_key env actor rq) = Some x" using find_entry_unique[of db2 x] B2 by (simp add: books_ok_def)
    with f again e show ?thesis by (simp add: view_entry_def)
  next
    case (fresh x c)
    with f show ?thesis by (simp add: find_entry_None[symmetric])
  qed
qed

theorem credit_counts_once_witness:
  "\<exists>v db1 w db3. credit_wallet sample_env 100 1 sample_credit sample_shop = Inr (v, db1)
    \<and> credit_wallet sample_env 900 1 sample_credit db1 = Inr (w, db3) \<and> db3 = db1 \<and> w = v"
proof -
  obtain v db1 w db3 where c: "credit_wallet sample_env 100 1 sample_credit sample_shop = Inr (v, db1)"
    "credit_wallet sample_env 900 1 sample_credit db1 = Inr (w, db3)" by (rule sample_history)
  from credit_counts_once[OF c(1) sample_shop_books sample_inj rtranclp.rtrancl_refl c(2)] c show ?thesis by blast
qed

text \<open>
  C33. A debit takes free money only: an accepted debit is either the repetition of a recorded one and changes
  nothing, or takes exactly its amount from an account whose unreserved balance covered it, leaves every
  reserve and every other account alone, and names a ticket of the same user.
\<close>
theorem debit_takes_free_money:
  assumes "debit_wallet env now actor rq db = Inr (v, db')" "books_ok env db" "inj (we_hash env)"
  shows "db' = db \<and> (\<exists>a \<in> set (db_adjustments db). ad_key a = debit_key env rq)
    \<or> (\<exists>c. normalize_wallet_currency (we_unicode env) (dr_currency rq) = Inr c \<and> as_amount v = dr_amount rq \<and> 0 < dr_amount rq
        \<and> dr_amount rq \<le> balance_of db (dr_user rq) c - reserved_of db (dr_user rq) c
        \<and> db_tickets db (dr_ticket rq) = Some (dr_user rq)
        \<and> (\<forall>u d. balance_of db' u d = balance_of db u d - (if u = dr_user rq \<and> d = c then dr_amount rq else 0)
             \<and> reserved_of db' u d = reserved_of db u d))"
  using assms
proof (cases rule: debit_wallet_cases)
  case (again a)
  then show ?thesis by blast
next
  case (fresh a e c)
  then show ?thesis by (intro disjI2 exI[of _ c]) (simp add: summarize_wallet_adjustment_def)
qed

theorem debit_takes_free_money_witness:
  "\<exists>v db. credit_wallet sample_env 100 1 sample_credit sample_shop = Inr (v, db) \<and> dr_amount sample_debit = 200
    \<and> (\<exists>a db'. debit_wallet sample_env 200 1 sample_debit db = Inr (a, db') \<and> balance_of db' 2 ''USD'' = 300
        \<and> reserved_of db' 2 ''USD'' = reserved_of db 2 ''USD'')"
proof -
  obtain v db a db' where c: "credit_wallet sample_env 100 1 sample_credit sample_shop = Inr (v, db)" "balance_of db 2 ''USD'' = 500"
    and d: "debit_wallet sample_env 200 1 sample_debit db = Inr (a, db')" "balance_of db' 2 ''USD'' = 300"
    by (rule sample_history)
  have "books_ok sample_env db" by (rule credit.keeps[OF c(1) sample_shop_books sample_inj])
  from debit_takes_free_money[OF d(1) this sample_inj] c d have "reserved_of db' 2 ''USD'' = reserved_of db 2 ''USD''" by auto
  with c d show ?thesis by (auto simp: sample_debit_def)
qed

text \<open>
  A failed payout is given back exactly once: an accepted reversal belongs to a debit whose payout was
  reported as failed; it either was done before and changes nothing, or returns exactly the debited amount
  to the debited account; after it, in every later state, reversing again changes nothing.
\<close>
theorem failed_payout_returned_once:
  assumes "reverse_debit env now actor i reason db = Inr (v, db1)" "books_ok env db" "inj (we_hash env)"
    "(book_step env)\<^sup>*\<^sup>* db1 db2" "reverse_debit env later admin i why db2 = Inr (w, db3)"
  shows "as_status v = ''failed'' \<and> as_reversal_entry v \<noteq> None \<and> db3 = db2
    \<and> (db1 = db \<or> (\<forall>u c. balance_of db1 u c = balance_of db u c + (if u = as_user v \<and> c = as_currency v then as_amount v else 0)
         \<and> reserved_of db1 u c = reserved_of db u c))"
proof -
  have B1: "books_ok env db1" by (rule reversal.keeps[OF assms(1-3)])
  have first: "as_status v = ''failed'' \<and> as_reversal_entry v \<noteq> None
      \<and> (db1 = db \<or> (\<forall>u c. balance_of db1 u c = balance_of db u c + (if u = as_user v \<and> c = as_currency v then as_amount v else 0)
         \<and> reserved_of db1 u c = reserved_of db u c))
      \<and> (\<exists>a. adjustment_by_id db1 i = Some a \<and> ad_reversal_entry a \<noteq> None)"
    using assms(1-3)
  proof (cases rule: reverse_debit_cases)
    case (again a)
    with books_adjustment[OF assms(2) adjustment_by_id_Some(1)[OF again(1)]] show ?thesis
      by (simp add: adjustment_ok_def summarize_wallet_adjustment_def)
  next
    case (fresh a b e)
    have b: "b \<in> set (db_adjustments db1)" "ad_id b = i"
      using fresh(4,8) adjustment_by_id_Some[OF fresh(1)] by (auto intro!: image_eqI[of _ _ a])
    then obtain x where x: "adjustment_by_id db1 i = Some x"
      by (cases "adjustment_by_id db1 i") (auto simp: adjustment_by_id_def find_None_iff)
    with b adjustment_by_id_Some[OF x] books_adjustment_unique[OF B1] have "x = b" by auto
    with fresh x show ?thesis by (simp add: summarize_wallet_adjustment_def)
  qed
  then obtain a where "adjustment_by_id db1 i = Some a" "ad_reversal_entry a \<noteq> None" by blast
  from reversal_history[OF assms(4) B1 assms(3) this] obtain b where b: "adjustment_by_id db2 i = Some b" "ad_reversal_entry b \<noteq> None" by blast
  have "db3 = db2"
    using assms(5) books_history[OF assms(4) B1 assms(3)] assms(3)
    by (cases rule: reverse_debit_cases) (use b in auto)
  with first show ?thesis by blast
qed

theorem failed_payout_returned_once_witness:
  "\<exists>db v db1. books_ok sample_env db \<and> reverse_debit sample_env 400 1 1 ''returned'' db = Inr (v, db1) \<and> balance_of db1 2 ''USD'' = 500
    \<and> as_status v = ''failed'' \<and> (\<exists>w db2. reverse_debit sample_env 500 1 1 ''again'' db1 = Inr (w, db2) \<and> db2 = db1)"
proof -
  obtain v db1 a db2 b db3 c db4 d db5 where h: "credit_wallet sample_env 100 1 sample_credit sample_shop = Inr (v, db1)"
    "debit_wallet sample_env 200 1 sample_debit db1 = Inr (a, db2)" "report_payout sample_env 300 1 1 sample_payout db2 = Inr (b, db3)"
    "reverse_debit sample_env 400 1 1 ''returned'' db3 = Inr (c, db4)" "balance_of db4 2 ''USD'' = 500"
    "reverse_debit sample_env 500 1 1 ''again'' db4 = Inr (d, db5)" by (rule sample_history)
  have "books_ok sample_env db1" by (rule credit.keeps[OF h(1) sample_shop_books sample_inj])
  then have "books_ok sample_env db2" by (rule debit.keeps[OF h(2) _ sample_inj])
  then have B: "books_ok sample_env db3" by (rule payout.keeps[OF h(3) _ sample_inj])
  from failed_payout_returned_once[OF h(4) B sample_inj rtranclp.rtrancl_refl h(6)] B h show ?thesis by blast
qed

end
