(* ===== verification/WalletBank.thy ===== *)
theory WalletBank
  imports WalletAdjustments
begin

text \<open>
  The abstract specification of the wallet: a bank is the list of its postings, each under a key of its own; the
  balance and reserve of an account are the sums of what was posted to it. Posting succeeds when the key is new and
  the account stays covered, or when the same posting was made before. The accounts, identifiers, running balances
  and checked 64-bit sums of \<^verbatim>\<open>commercestore/wallet_credit.go\<close> implement exactly this.
\<close>

section \<open>The bank\<close>

record posting =
  po_user :: nat
  po_currency :: string
  po_kind :: string
  po_order :: "nat option"
  po_balance :: int
  po_reserved :: int

type_synonym bank = "(string \<times> posting) list"

definition account_postings :: "bank \<Rightarrow> nat \<Rightarrow> string \<Rightarrow> posting list" where
  "account_postings b u c = filter (\<lambda>p. po_user p = u \<and> po_currency p = c) (map snd b)"

definition bank_balance :: "bank \<Rightarrow> nat \<Rightarrow> string \<Rightarrow> int" where
  "bank_balance b u c = sum_list (map po_balance (account_postings b u c))"

definition bank_reserved :: "bank \<Rightarrow> nat \<Rightarrow> string \<Rightarrow> int" where
  "bank_reserved b u c = sum_list (map po_reserved (account_postings b u c))"

definition bank_post :: "bank \<Rightarrow> string \<Rightarrow> posting \<Rightarrow> bank option" where
  "bank_post b key p =
     (case map_of b key of
        Some q \<Rightarrow> if q = p then Some b else None
      | None \<Rightarrow>
          let balance = bank_balance b (po_user p) (po_currency p) + po_balance p; reserved = bank_reserved b (po_user p) (po_currency p) + po_reserved p in
          if 0 \<le> reserved \<and> reserved \<le> balance \<and> balance \<le> max64 then Some (b @ [(key, p)]) else None)"

fun bank_run :: "bank \<Rightarrow> (string \<times> posting) list \<Rightarrow> bank" where
  "bank_run b [] = b"
| "bank_run b ((key, p) # ps) = bank_run (case bank_post b key p of None \<Rightarrow> b | Some b' \<Rightarrow> b') ps"

section \<open>The ledger as a bank\<close>

definition posting_of :: "wallet_entry \<Rightarrow> posting" where
  "posting_of e = \<lparr>po_user = en_user e, po_currency = en_currency e, po_kind = en_kind e, po_order = en_order e,
     po_balance = en_balance_delta e, po_reserved = en_reserved_delta e\<rparr>"

definition bank_of :: "shop_db \<Rightarrow> bank" where
  "bank_of db = map (\<lambda>e. (en_key e, posting_of e)) (db_entries db)"

text \<open>A posting the ledger accepts as such: it moves something within 64 bits, in a normal currency.\<close>

definition proper_posting :: "go_unicode \<Rightarrow> posting \<Rightarrow> bool" where
  "proper_posting uc p \<longleftrightarrow> (po_balance p \<noteq> 0 \<or> po_reserved p \<noteq> 0) \<and> in64 (po_balance p) \<and> in64 (po_reserved p)
     \<and> normalize_wallet_currency uc (po_currency p) = Inr (po_currency p)"

definition post_ledger :: "go_unicode \<Rightarrow> shop_db \<Rightarrow> string \<Rightarrow> posting \<Rightarrow> string \<Rightarrow> gotime \<Rightarrow> (nat \<times> shop_db) result" where
  "post_ledger uc db key p reason now =
     append_wallet_entry uc db \<lparr>src_user = po_user p, src_currency = po_currency p, src_order = po_order p\<rparr> key (po_kind p) reason (po_balance p) (po_reserved p) now"

definition accepted :: "('b \<times> shop_db) result \<Rightarrow> shop_db option" where
  "accepted r = (case r of Inl _ \<Rightarrow> None | Inr (_, db) \<Rightarrow> Some db)"

fun ledger_run :: "go_unicode \<Rightarrow> string \<Rightarrow> gotime \<Rightarrow> shop_db \<Rightarrow> (string \<times> posting) list \<Rightarrow> shop_db" where
  "ledger_run uc reason now db [] = db"
| "ledger_run uc reason now db ((key, p) # ps) =
     ledger_run uc reason now (case accepted (post_ledger uc db key p reason now) of None \<Rightarrow> db | Some db' \<Rightarrow> db') ps"

lemma account_postings_of: "account_postings (bank_of db) u c = map posting_of (entries_of db u c)"
proof -
  have "filter (\<lambda>p. po_user p = u \<and> po_currency p = c) (map posting_of es) = map posting_of (filter (\<lambda>e. en_user e = u \<and> en_currency e = c) es)" for es
    by (induction es) (auto simp: posting_of_def)
  then show ?thesis by (simp add: account_postings_def bank_of_def entries_of_def comp_def)
qed

lemma bank_reads:
  assumes "ledger_ok db"
  shows "bank_balance (bank_of db) u c = balance_of db u c" "bank_reserved (bank_of db) u c = reserved_of db u c"
proof -
  have "replay_entries 0 0 (entries_of db u c) = Some (balance_of db u c, reserved_of db u c)" using assms by (simp add: ledger_ok_def)
  from replay_sums[OF this] show "bank_balance (bank_of db) u c = balance_of db u c" "bank_reserved (bank_of db) u c = reserved_of db u c"
    by (simp_all add: bank_balance_def bank_reserved_def account_postings_of comp_def posting_of_def)
qed

lemma bank_lookup:
  assumes "ledger_ok db"
  shows "map_of (bank_of db) key = map_option posting_of (find_entry db key)"
proof -
  have "map_of (map (\<lambda>e. (en_key e, posting_of e)) es) key = map_option posting_of (List.find (\<lambda>e. en_key e = key) es)" for es
    by (induction es) auto
  then show ?thesis by (simp add: bank_of_def find_entry_def)
qed

text \<open>The checked sum is the sum whenever the sum is a valid amount, and fails otherwise.\<close>

lemma add_wallet_minor_iff:
  assumes "0 \<le> v" "v \<le> max64" "in64 d"
  shows "add_wallet_minor v d = (if 0 \<le> v + d \<and> v + d \<le> max64 then Some (v + d) else None)"
proof (cases "add_wallet_minor v d")
  case (Some w)
  from add_wallet_minor_exact[OF this assms(2,3)] Some show ?thesis by simp
next
  case None
  have "\<not> (0 \<le> v + d \<and> v + d \<le> max64)"
  proof (cases "d = min64")
    case True
    with assms(2) show ?thesis by (simp add: min64_def max64_def)
  next
    case False
    have m: "d > 0 \<Longrightarrow> sub64 max64 d = max64 - d" "d < 0 \<Longrightarrow> sub64 0 d = - d" using assms(3) False by (auto simp: int64_simps sub64_def)
    have "\<not> v < 0" using assms(1) by simp
    with None False have "d > 0 \<and> v > sub64 max64 d \<or> d < 0 \<and> v < sub64 0 d" unfolding add_wallet_minor_def by (auto split: if_splits)
    with m show ?thesis by auto
  qed
  with None show ?thesis by simp
qed

section \<open>Refinement\<close>

lemma lock_found:
  assumes "ledger_ok db"
  shows "\<exists>a db1. lock_wallet_account db u c = Inr (a, db1) \<and> find_entry db1 key = find_entry db key \<and> wa_balance a = balance_of db u c \<and> wa_reserved a = reserved_of db u c \<and> \<not> account_broken a"
  using wallet_available_value[OF assms, of u c] ledger_account_sound[OF assms, of u c]
  by (cases "db_accounts db (u, c)") (auto simp: lock_wallet_account_def balance_of_def reserved_of_def find_entry_def account_broken_def Let_def)

lemma post_refined:
  assumes "ledger_ok db" "proper_posting uc p"
  shows "map_option bank_of (accepted (post_ledger uc db key p reason now)) = bank_post (bank_of db) key p"
    "accepted (post_ledger uc db key p reason now) = Some db' \<Longrightarrow> ledger_ok db'"
proof -
  let ?src = "\<lparr>src_user = po_user p, src_currency = po_currency p, src_order = po_order p\<rparr>" and ?k = "(po_user p, po_currency p)"
  let ?b = "balance_of db (po_user p) (po_currency p)" and ?r = "reserved_of db (po_user p) (po_currency p)"
  note bounds = ledger_bounds[OF assms(1), of "po_user p" "po_currency p"]
  have in64: "in64 (po_balance p)" "in64 (po_reserved p)" using assms(2) by (simp_all add: proper_posting_def)
  have args: "\<not> (po_balance p = 0 \<and> po_reserved p = 0)" "normalize_wallet_currency uc (po_currency p) = Inr (po_currency p)"
    using assms(2) by (auto simp: proper_posting_def)
  show "map_option bank_of (accepted (post_ledger uc db key p reason now)) = bank_post (bank_of db) key p"
  proof (cases "post_ledger uc db key p reason now")
    case (Inr x)
    obtain i db2 where x: "x = (i, db2)" by force
    from Inr have run: "append_wallet_entry uc db ?src key (po_kind p) reason (po_balance p) (po_reserved p) now = Inr (i, db2)" by (simp add: post_ledger_def x)
    have "bank_post (bank_of db) key p = Some (bank_of db2)"
    proof (rule append_wallet_entry_cases[OF run assms(1) in64])
      fix e assume e: "e \<in> set (db_entries db)" "en_key e = key" "same_entry e ?src (po_kind p) (po_balance p) (po_reserved p)" "db2 = db"
      have "find_entry db key = Some e" using find_entry_unique[OF assms(1) e(1)] e(2) by simp
      moreover have "posting_of e = p" using e(3) by (cases p) (simp add: same_entry_def posting_of_def)
      ultimately show ?thesis using e(4) by (simp add: bank_post_def bank_lookup[OF assms(1)])
    next
      fix e vn assume e: "key \<notin> en_key ` set (db_entries db)" "e = new_entry db ?src key (po_kind p) reason (po_balance p) (po_reserved p) now"
        "db2 = post_entry db e vn" "0 \<le> en_reserved_after e" "en_reserved_after e \<le> en_balance_after e" "en_balance_after e \<le> max64"
      have "bank_of db2 = bank_of db @ [(key, p)]" by (cases p) (simp add: e(2,3) post_entry_def bank_of_def new_entry_def posting_of_def Let_def)
      moreover have "map_of (bank_of db) key = None" using e(1) by (simp add: bank_lookup[OF assms(1)] find_entry_None)
      ultimately show ?thesis using e(4-6) by (simp add: bank_post_def bank_reads[OF assms(1)] e(2) new_entry_def Let_def)
    qed
    with Inr x show ?thesis by (simp add: accepted_def)
  next
    case (Inl err)
    have "bank_post (bank_of db) key p = None"
    proof (cases "find_entry db key")
      case (Some e)
      have "posting_of e \<noteq> p"
      proof
        assume "posting_of e = p"
        then have "en_user e = po_user p" "en_currency e = po_currency p" "en_balance_delta e = po_balance p" "en_reserved_delta e = po_reserved p"
          "en_kind e = po_kind p" "en_order e = po_order p" by (auto simp: posting_of_def)
        with Inl Some args lock_found[OF assms(1), of "po_user p" "po_currency p" key] show False
          by (auto simp: post_ledger_def append_wallet_entry_def)
      qed
      with Some show ?thesis by (simp add: bank_post_def bank_lookup[OF assms(1)])
    next
      case None
      have "\<not> (0 \<le> ?r + po_reserved p \<and> ?r + po_reserved p \<le> ?b + po_balance p \<and> ?b + po_balance p \<le> max64)"
      proof
        assume ok: "0 \<le> ?r + po_reserved p \<and> ?r + po_reserved p \<le> ?b + po_balance p \<and> ?b + po_balance p \<le> max64"
        have sums: "add_wallet_minor ?b (po_balance p) = Some (?b + po_balance p)" "add_wallet_minor ?r (po_reserved p) = Some (?r + po_reserved p)"
          using ok bounds by (auto simp: add_wallet_minor_iff in64)
        from lock_found[OF assms(1), of "po_user p" "po_currency p" key] obtain a db1 where
          "lock_wallet_account db (po_user p) (po_currency p) = Inr (a, db1)" "find_entry db1 key = find_entry db key" "wa_balance a = ?b" "wa_reserved a = ?r" "\<not> account_broken a" by blast
        with Inl None args sums ok show False by (simp add: post_ledger_def append_wallet_entry_def Let_def)
      qed
      with None show ?thesis by (auto simp: bank_post_def bank_lookup[OF assms(1)] bank_reads[OF assms(1)] Let_def)
    qed
    with Inl show ?thesis by (simp add: accepted_def)
  qed
  assume "accepted (post_ledger uc db key p reason now) = Some db'"
  then obtain i where "append_wallet_entry uc db ?src key (po_kind p) reason (po_balance p) (po_reserved p) now = Inr (i, db')"
    by (auto simp: accepted_def post_ledger_def split: sum.splits)
  from append_wallet_entry_ledger[OF this assms(1) in64] show "ledger_ok db'" .
qed

lemma run_refined:
  assumes "ledger_ok db" "\<forall>(key, p) \<in> set ps. proper_posting uc p"
  shows "bank_of (ledger_run uc reason now db ps) = bank_run (bank_of db) ps \<and> ledger_ok (ledger_run uc reason now db ps)"
  using assms
proof (induction ps arbitrary: db)
  case (Cons x ps)
  obtain key p where x: "x = (key, p)" by force
  have proper: "proper_posting uc p" using Cons.prems(2) x by simp
  note r = post_refined[OF Cons.prems(1) proper, where key = key and reason = reason and now = now]
  show ?case
  proof (cases "accepted (post_ledger uc db key p reason now)")
    case None
    with r(1) have "bank_post (bank_of db) key p = None" by simp
    with None Cons x show ?thesis by simp
  next
    case (Some db')
    with r(1) have "bank_post (bank_of db) key p = Some (bank_of db')" by simp
    with Some Cons.IH[OF r(2)[OF Some]] Cons.prems(2) x show ?thesis by simp
  qed
qed simp

section \<open>Properties\<close>

text \<open>
  C7. The ledger implements the bank: on a sound ledger a posting is accepted exactly when the bank accepts it and
  leads to the bank's next state, so every sequence of postings, accepted or refused, repeated or new, leaves the
  ledger with exactly the postings, balances and reserves the bank has, whatever its identifiers, running balances
  and 64-bit sums are.
\<close>
theorem ledger_refines_bank:
  assumes "ledger_ok db" "\<forall>(key, p) \<in> set ps. proper_posting uc p"
  shows "bank_of (ledger_run uc reason now db ps) = bank_run (bank_of db) ps
    \<and> (\<forall>u c. balance_of (ledger_run uc reason now db ps) u c = bank_balance (bank_run (bank_of db) ps) u c
          \<and> reserved_of (ledger_run uc reason now db ps) u c = bank_reserved (bank_run (bank_of db) ps) u c)
    \<and> (\<forall>key p. proper_posting uc p \<longrightarrow>
          map_option bank_of (accepted (post_ledger uc (ledger_run uc reason now db ps) key p reason now)) = bank_post (bank_run (bank_of db) ps) key p)"
proof -
  note r = run_refined[OF assms, where reason = reason and now = now]
  then have ok: "ledger_ok (ledger_run uc reason now db ps)" and eq: "bank_of (ledger_run uc reason now db ps) = bank_run (bank_of db) ps" by simp_all
  note reads = bank_reads[OF ok, unfolded eq]
  note step = post_refined(1)[OF ok, unfolded eq]
  from eq reads step show ?thesis by simp
qed

theorem ledger_refines_bank_witness:
  "balance_of (ledger_run ascii_unicode ''gift'' 5 empty_db [(''k'', \<lparr>po_user = 2, po_currency = ''USD'', po_kind = ''gift'', po_order = None, po_balance = 40, po_reserved = 0\<rparr>),
     (''k'', \<lparr>po_user = 2, po_currency = ''USD'', po_kind = ''gift'', po_order = None, po_balance = 40, po_reserved = 0\<rparr>)]) 2 ''USD'' = 40"
proof -
  let ?p = "\<lparr>po_user = 2, po_currency = ''USD'', po_kind = ''gift'', po_order = None, po_balance = 40, po_reserved = 0\<rparr>" and ?e = "[] :: bank"
  have proper: "\<forall>(key, p) \<in> set [(''k'', ?p), (''k'', ?p)]. proper_posting ascii_unicode p"
  proof -
    have "proper_posting ascii_unicode ?p" by code_simp
    then show ?thesis by simp
  qed
  have sound: "ledger_ok empty_db" by (simp add: ledger_ok_def empty_db_def entries_of_def balance_of_def reserved_of_def)
  have start: "bank_of empty_db = ?e" by (simp add: bank_of_def empty_db_def)
  have "bank_balance (bank_run ?e [(''k'', ?p), (''k'', ?p)]) 2 ''USD'' = 40" by code_simp
  with ledger_refines_bank[OF sound proper, of "''gift''" 5, unfolded start] show ?thesis by simp
qed

end
