(* ===== verification/OrderFunding.thy ===== *)
theory OrderFunding
  imports WalletAdjustments
begin

text \<open>
  How an order is paid from the wallet (\<^verbatim>\<open>commercestore/wallet_payments.go\<close>,
  \<^verbatim>\<open>full_replacement_settlement.go\<close>, \<^verbatim>\<open>full_replacement_quote.go\<close>, \<^verbatim>\<open>order_cancellation.go\<close>) with the services in
  front of it (\<^verbatim>\<open>commerce/wallet_payments.go\<close>, \<^verbatim>\<open>commerce/order_cancellation.go\<close>, \<^verbatim>\<open>order_transition.go\<close>): a funding
  splits the payable amount into wallet and cash, reserves the wallet part for half an hour, and is then
  captured by the payment or released.
\<close>

section \<open>Services and transitions\<close>

definition order_transition_allowed :: "string \<Rightarrow> string \<Rightarrow> bool \<Rightarrow> bool" where
  "order_transition_allowed current target force =
     (if current = target then True
      else if target = ''paid'' then current = ''pending'' \<or> current = ''failed'' \<or> (force \<and> current = ''canceled'')
      else if target = ''failed'' then current = ''pending''
      else if target = ''canceled'' then current = ''pending'' \<or> (force \<and> current = ''failed'')
      else False)"

definition wallet_payments_read :: "(nat \<Rightarrow> nat \<Rightarrow> 'a result) \<Rightarrow> nat \<Rightarrow> nat \<Rightarrow> 'a result" where
  "wallet_payments_read read actor i =
     (if actor = 0 then Inl ErrOrderPermission else if i = 0 then Inl ErrNotFound else read actor i)"

definition wallet_payments_configure :: "(nat \<Rightarrow> nat \<Rightarrow> bool \<Rightarrow> 'a result) \<Rightarrow> nat \<Rightarrow> nat \<Rightarrow> bool \<Rightarrow> 'a result" where
  "wallet_payments_configure configure actor i use =
     (if actor = 0 then Inl ErrOrderPermission else if i = 0 then Inl ErrNotFound else configure actor i use)"

definition wallet_payments_pay :: "(nat \<Rightarrow> nat \<Rightarrow> 'a result) \<Rightarrow> nat \<Rightarrow> nat \<Rightarrow> 'a result" where
  "wallet_payments_pay pay actor i =
     (if actor = 0 then Inl ErrOrderPermission else if i = 0 then Inl ErrNotFound else pay actor i)"

definition wallet_payments_expire :: "(gotime \<Rightarrow> int \<Rightarrow> 'a result) \<Rightarrow> gotime \<Rightarrow> int \<Rightarrow> 'a result" where
  "wallet_payments_expire expire now lim =
     (if is_zero now \<or> lim < 1 \<or> lim > 200 then Inl (ErrValidation []) else expire now lim)"

definition order_cancellation_owned :: "(nat \<Rightarrow> nat \<Rightarrow> bool \<Rightarrow> bool \<Rightarrow> 'a result) \<Rightarrow> nat \<Rightarrow> nat \<Rightarrow> 'a result" where
  "order_cancellation_owned cancel actor i =
     (if actor = 0 then Inl ErrOrderPermission else if i = 0 then Inl ErrNotFound else cancel actor i False False)"

definition order_cancellation_administrative :: "(nat \<Rightarrow> nat \<Rightarrow> bool \<Rightarrow> bool \<Rightarrow> 'a result) \<Rightarrow> nat \<Rightarrow> nat \<Rightarrow> bool \<Rightarrow> 'a result" where
  "order_cancellation_administrative cancel actor i force =
     (if actor = 0 then Inl ErrOrderPermission else if i = 0 then Inl ErrNotFound else cancel actor i True force)"

section \<open>Fundings\<close>

text \<open>
  Beside the wallet's environment: the JSON decoder of a change snapshot, and the two operations on discount
  reservations of an order, which work on tables outside this model.
\<close>

record funding_env =
  fe_wallet :: wallet_env
  fe_decode :: "string \<Rightarrow> change_snapshot option"
  fe_require :: "order \<Rightarrow> gotime \<Rightarrow> unit result"
  fe_release :: "order \<Rightarrow> gotime \<Rightarrow> unit result"

definition order_funding_lifetime :: int where "order_funding_lifetime = 1800 * nanos_per_sec"

definition funding_conflict :: go_error where "funding_conflict = ErrNamed ''ErrFundingConflict''"

definition full_replacement_snapshot :: "funding_env \<Rightarrow> order \<Rightarrow> change_snapshot option result" where
  "full_replacement_snapshot fe r =
     (if or_type r \<noteq> ''upgrade'' \<or> or_change r = [] then Inr None
      else case fe_decode fe (or_change r) of
          None \<Rightarrow> Inl (ErrValidation [])
        | Some s \<Rightarrow>
            if cs_version s = 0 \<and> \<not> cs_full_term s then Inr None
            else if cs_version s \<noteq> 2 \<or> \<not> cs_full_term s \<or> or_target r = None \<or> is_zero (cs_quoted s) \<or> cs_residual s < 0
                \<or> cs_applied s < 0 \<or> cs_applied s > cs_residual s \<or> cs_surplus s \<noteq> sub64 (cs_residual s) (cs_applied s)
                \<or> cs_applied s \<noteq> min (cs_residual s) (or_payable r) then Inl (ErrValidation [])
            else Inr (Some s))"

definition funding_broken :: "order_funding \<Rightarrow> order \<Rightarrow> bool" where
  "funding_broken f r \<longleftrightarrow> fu_user f \<noteq> or_user r \<or> fu_currency f \<noteq> or_currency r \<or> fu_amount f \<noteq> or_payable r \<or> fu_amount f < 0
     \<or> fu_wallet f < 0 \<or> fu_cash f < 0 \<or> fu_wallet f > fu_amount f \<or> sub64 (fu_amount f) (fu_wallet f) \<noteq> fu_cash f
     \<or> fu_entitlement f < 0 \<or> fu_entitlement f > fu_wallet f"

definition find_order_funding :: "funding_env \<Rightarrow> shop_db \<Rightarrow> order \<Rightarrow> order_funding option result" where
  "find_order_funding fe db r =
     (case List.find (\<lambda>f. fu_order f = or_id r) (db_fundings db) of
        None \<Rightarrow> Inr None
      | Some f \<Rightarrow>
          if funding_broken f r then Inl ErrWalletUnavailable
          else if fu_entitlement f > 0 then
            try_bind (full_replacement_snapshot fe r) (\<lambda>s. case s of
                None \<Rightarrow> Inl ErrWalletUnavailable
              | Some s \<Rightarrow> if cs_applied s \<noteq> fu_entitlement f then Inl ErrWalletUnavailable else Inr (Some f))
          else Inr (Some f))"

definition update_funding :: "shop_db \<Rightarrow> order_funding \<Rightarrow> shop_db" where
  "update_funding db f = db\<lparr>db_fundings := map (\<lambda>g. if fu_order g = fu_order f then f else g) (db_fundings db)\<rparr>"

definition order_key :: "funding_env \<Rightarrow> string \<Rightarrow> nat \<Rightarrow> string" where
  "order_key fe tag i = we_hash (fe_wallet fe) (tag @ show_nat i)"

definition reserve_text :: string where
  "reserve_text = bytes [232, 174, 162, 229, 141, 149, 228, 187, 152, 230, 172, 190, 233, 162, 132, 231, 149, 153, 228, 189, 153, 233, 162, 157]"
definition release_text :: string where
  "release_text = bytes [232, 174, 162, 229, 141, 149, 229, 143, 150, 230, 182, 136, 227, 128, 129, 229, 164, 177, 232, 180, 165, 230, 136, 150, 229, 164, 177, 230, 149, 136, 233, 135, 138, 230, 148, 190, 228, 189, 153, 233, 162, 157]"
definition purchase_text :: string where
  "purchase_text = bytes [232, 174, 162, 229, 141, 149, 228, 189, 153, 233, 162, 157, 228, 187, 152, 230, 172, 190]"

text \<open>What of the payable amount is taken from the wallet: the value of a replaced subscription and, when asked, free balance.\<close>

definition new_funding :: "order \<Rightarrow> bool \<Rightarrow> int \<Rightarrow> int \<Rightarrow> gotime \<Rightarrow> order_funding" where
  "new_funding r use entitlement reserved now =
     \<lparr>fu_entitlement = entitlement, fu_order = or_id r, fu_user = or_user r, fu_currency = or_currency r, fu_use_balance = use,
      fu_amount = or_payable r, fu_wallet = add64 entitlement reserved, fu_cash = sub64 (or_payable r) (add64 entitlement reserved),
      fu_state = ''reserved'', fu_expires = now + order_funding_lifetime, fu_captured = None, fu_released = None, fu_release_reason = []\<rparr>"

definition reserve_for_order :: "funding_env \<Rightarrow> shop_db \<Rightarrow> order \<Rightarrow> int \<Rightarrow> gotime \<Rightarrow> shop_db result" where
  "reserve_for_order fe db r reserved now =
     (if reserved > 0 then
        (if or_id r \<in> set (db_attempts db) \<or> or_id r \<in> set (db_events db) \<or> or_provider_trade_no r \<noteq> None then Inl (ErrValidation [])
         else try_bind (append_wallet_change (we_unicode (fe_wallet fe)) db r (order_key fe ''reserve-order:'' (or_id r)) ''reserve'' reserve_text 0 reserved now)
           (\<lambda>(_, db). Inr db))
      else Inr db)"

definition configure_order_funding :: "funding_env \<Rightarrow> shop_db \<Rightarrow> order \<Rightarrow> bool \<Rightarrow> gotime \<Rightarrow> shop_db result" where
  "configure_order_funding fe db r use now =
     try_bind (if or_status r = ''pending'' \<or> or_status r = ''failed'' then fe_require fe r now else Inr ()) (\<lambda>_.
     if or_type r = ''topup'' then Inl (ErrValidation [])
     else try_bind (normalize_wallet_currency (we_unicode (fe_wallet fe)) (or_currency r)) (\<lambda>_.
          try_bind (find_order_funding fe db r) (\<lambda>found. case found of
              Some f \<Rightarrow> if fu_use_balance f \<noteq> use then Inl funding_conflict else Inr db
            | None \<Rightarrow>
                if or_status r \<noteq> ''pending'' \<and> or_status r \<noteq> ''failed'' then Inl funding_conflict
                else if or_payable r < 0 then Inl (ErrNamed ''ErrWalletRange'')
                else try_bind (wallet_available db (or_user r) (or_currency r)) (\<lambda>available.
                  try_bind (full_replacement_snapshot fe r) (\<lambda>s.
                    let entitlement = (case s of None \<Rightarrow> 0 | Some s \<Rightarrow> cs_applied s);
                        reserved = (if use then min available (sub64 (or_payable r) entitlement) else 0)
                    in try_bind (reserve_for_order fe db r reserved now) (\<lambda>db.
                      Inr (audit (Some (or_user r)) ''commerce.funding.reserve'' (''order:'' @ show_nat (or_id r))
                        (db\<lparr>db_fundings := db_fundings db @ [new_funding r use entitlement reserved now]\<rparr>))))))))"

definition release_order_funding :: "funding_env \<Rightarrow> shop_db \<Rightarrow> order \<Rightarrow> string \<Rightarrow> gotime \<Rightarrow> shop_db result" where
  "release_order_funding fe db r reason now =
     try_bind (fe_release fe r now) (\<lambda>_.
     try_bind (find_order_funding fe db r) (\<lambda>found. case found of
         None \<Rightarrow> Inr db
       | Some f \<Rightarrow>
           if fu_state f = ''released'' \<or> fu_state f = ''captured'' then Inr db
           else if fu_state f \<noteq> ''reserved'' then Inl ErrWalletUnavailable
           else let reserved = sub64 (fu_wallet f) (fu_entitlement f) in
             try_bind (if reserved > 0
                 then try_bind (append_wallet_change (we_unicode (fe_wallet fe)) db r (order_key fe ''release-order:'' (or_id r)) ''reserve_release''
                        release_text 0 (sub64 0 reserved) now) (\<lambda>(_, db). Inr db)
                 else Inr db) (\<lambda>db.
               Inr (update_funding db (f\<lparr>fu_state := ''released'', fu_released := Some now, fu_release_reason := reason\<rparr>)))))"

definition verify_replacement_reservation :: "funding_env \<Rightarrow> shop_db \<Rightarrow> order \<Rightarrow> order_funding \<Rightarrow> unit result" where
  "verify_replacement_reservation fe db r f =
     (if fu_entitlement f = 0 then Inr ()
      else case List.find (\<lambda>v. vs_key v = order_key fe ''full-change-order:'' (or_id r) \<and> vs_user v = or_user r) (db_settlements db) of
          None \<Rightarrow> Inl funding_conflict
        | Some v \<Rightarrow>
            if vs_kind v \<noteq> ''change'' \<or> vs_applied v \<noteq> fu_entitlement f \<or> vs_currency v \<noteq> or_currency r then Inl funding_conflict
            else case List.find (\<lambda>e. en_key e = order_key fe ''reserve-entitlement-order:'' (or_id r) \<and> en_user e = or_user r
                                     \<and> en_currency e = or_currency r) (db_entries db) of
                None \<Rightarrow> Inl funding_conflict
              | Some e \<Rightarrow>
                  if en_kind e \<noteq> ''reserve'' \<or> en_balance_delta e \<noteq> 0 \<or> en_reserved_delta e \<noteq> fu_entitlement f
                     \<or> en_order e \<noteq> Some (or_id r) then Inl funding_conflict
                  else Inr ())"

definition capture_order_funding :: "funding_env \<Rightarrow> shop_db \<Rightarrow> order \<Rightarrow> gotime \<Rightarrow> shop_db result" where
  "capture_order_funding fe db r now =
     try_bind (find_order_funding fe db r) (\<lambda>found. case found of
         None \<Rightarrow> Inr db
       | Some f \<Rightarrow>
           if fu_state f \<noteq> ''reserved'' \<or> \<not> now < fu_expires f then Inl funding_conflict
           else try_bind (verify_replacement_reservation fe db r f) (\<lambda>_.
             try_bind (if fu_wallet f > 0
                 then try_bind (append_wallet_change (we_unicode (fe_wallet fe)) db r (order_key fe ''capture-order:'' (or_id r)) ''purchase''
                        purchase_text (sub64 0 (fu_wallet f)) (sub64 0 (fu_wallet f)) now) (\<lambda>(_, db). Inr db)
                 else Inr db) (\<lambda>db.
               Inr (update_funding db (f\<lparr>fu_state := ''captured'', fu_captured := Some now\<rparr>)))))"

text \<open>
  The wallet part of a full replacement (\<open>settleFullReplacement\<close>): the value of the old subscription enters the
  wallet and what the new order uses of it is reserved. \<open>row\<close> is the identifier of the settlement that is
  recorded, \<open>refunded\<close> what the refunds of its source orders add up to.
\<close>

definition refund_text :: string where
  "refund_text = bytes [230, 141, 162, 232, 180, 173, 230, 151, 167, 230, 157, 131, 231, 155, 138, 231, 187, 147, 231, 174, 151, 229, 133, 165, 228, 189, 153, 233, 162, 157]"
definition applied_text :: string where
  "applied_text = bytes [230, 141, 162, 232, 180, 173, 229, 183, 178, 231, 187, 147, 231, 174, 151, 230, 157, 131, 231, 155, 138, 231, 148, 168, 228, 186, 142, 230, 156, 172, 229, 141, 149, 228, 189, 153, 233, 162, 157, 233, 162, 132, 231, 149, 153]"

definition replacement_funding :: "funding_env \<Rightarrow> shop_db \<Rightarrow> order \<Rightarrow> change_snapshot \<Rightarrow> gotime \<Rightarrow> order_funding result" where
  "replacement_funding fe db r s now =
     (if List.find (\<lambda>v. vs_key v = order_key fe ''full-change-order:'' (or_id r)) (db_settlements db) \<noteq> None
      then Inl (ErrNamed ''ErrSubscriptionSettlementConflict'')
      else try_bind (find_order_funding fe db r) (\<lambda>found. case found of
          None \<Rightarrow> Inl funding_conflict
        | Some f \<Rightarrow> if fu_state f \<noteq> ''reserved'' \<or> fu_entitlement f \<noteq> cs_applied s \<or> \<not> now < fu_expires f then Inl funding_conflict else Inr f))"

definition settle_replacement_wallet :: "funding_env \<Rightarrow> shop_db \<Rightarrow> order \<Rightarrow> change_snapshot \<Rightarrow> nat \<Rightarrow> int \<Rightarrow> gotime \<Rightarrow> shop_db result" where
  "settle_replacement_wallet fe db r s row refunded now =
     try_bind (replacement_funding fe db r s now) (\<lambda>_.
       if refunded \<noteq> cs_residual s then Inl ErrSubscriptionValueUnavailable
       else let db = db\<lparr>db_settlements := db_settlements db @ [\<lparr>vs_key = order_key fe ''full-change-order:'' (or_id r), vs_user = or_user r,
                  vs_kind = ''change'', vs_applied = cs_applied s, vs_currency = or_currency r\<rparr>]\<rparr> in
         try_bind (if refunded > 0
             then try_bind (append_wallet_entry (we_unicode (fe_wallet fe)) db \<lparr>src_user = or_user r, src_currency = or_currency r, src_order = None\<rparr>
                    (order_key fe ''change-refund:'' row) ''subscription_change_refund'' refund_text refunded 0 now) (\<lambda>(_, db). Inr db)
             else Inr db) (\<lambda>db.
         if cs_applied s > 0
         then try_bind (append_wallet_change (we_unicode (fe_wallet fe)) db r (order_key fe ''reserve-entitlement-order:'' (or_id r)) ''reserve''
                applied_text 0 (cs_applied s) now) (\<lambda>(_, db). Inr db)
         else Inr db))"

section \<open>Expiry and cancellation\<close>

definition set_order :: "shop_db \<Rightarrow> order \<Rightarrow> shop_db" where
  "set_order db r = db\<lparr>db_orders := (db_orders db)(or_id r := Some r)\<rparr>"

text \<open>The transaction of one expired funding; the flag tells whether it changed anything.\<close>

definition expire_funding :: "funding_env \<Rightarrow> shop_db \<Rightarrow> gotime \<Rightarrow> nat \<Rightarrow> (bool \<times> shop_db) result" where
  "expire_funding fe db now i =
     (case db_orders db i of
        None \<Rightarrow> Inl (ErrNamed ''ErrRecordNotFound'')
      | Some r \<Rightarrow> try_bind (find_order_funding fe db r) (\<lambda>found. case found of
            None \<Rightarrow> Inr (False, db)
          | Some f \<Rightarrow>
              if fu_state f \<noteq> ''reserved'' \<or> now < fu_expires f then Inr (False, db)
              else if or_status r \<noteq> ''pending'' \<and> or_status r \<noteq> ''failed'' \<and> or_status r \<noteq> ''canceled'' then Inl ErrWalletUnavailable
              else try_bind (release_order_funding fe db r ''expired'' now) (\<lambda>db.
                Inr (True, audit None ''commerce.funding.expire'' (''order:'' @ show_nat i)
                  (set_order db (r\<lparr>or_status := ''canceled'', or_canceled_at := Some now, or_updated := now\<rparr>))))))"

fun expire_fundings :: "funding_env \<Rightarrow> shop_db \<Rightarrow> gotime \<Rightarrow> nat list \<Rightarrow> nat \<Rightarrow> nat \<times> go_error option \<times> shop_db" where
  "expire_fundings fe db now [] n = (n, None, db)"
| "expire_fundings fe db now (i # is) n =
     (case expire_funding fe db now i of
        Inl e \<Rightarrow> (n, Some e, db)
      | Inr (changed, db) \<Rightarrow> expire_fundings fe db now is (if changed then Suc n else n))"

definition due_fundings :: "shop_db \<Rightarrow> gotime \<Rightarrow> nat \<Rightarrow> nat list" where
  "due_fundings db now lim = take lim (map fu_order (sort_key fu_expires (sort_key fu_order
     (filter (\<lambda>f. fu_state f = ''reserved'' \<and> fu_expires f \<le> now) (db_fundings db)))))"

definition store_expire :: "funding_env \<Rightarrow> shop_db \<Rightarrow> gotime \<Rightarrow> nat \<Rightarrow> nat \<times> go_error option \<times> shop_db" where
  "store_expire fe db now lim = expire_fundings fe db now (due_fundings db now lim) 0"

definition cancel_order :: "funding_env \<Rightarrow> shop_db \<Rightarrow> gotime \<Rightarrow> nat \<Rightarrow> nat \<Rightarrow> bool \<Rightarrow> bool \<Rightarrow> (order \<times> shop_db) result" where
  "cancel_order fe db now actor i admin force =
     (if actor = 0 \<or> (force \<and> \<not> admin) then Inl ErrOrderPermission
      else if i = 0 then Inl ErrNotFound
      else case db_orders db i of
          None \<Rightarrow> Inl ErrNotFound
        | Some r \<Rightarrow> (case db_users db actor of
            None \<Rightarrow> Inl ErrOrderPermission
          | Some u \<Rightarrow>
              if ur_deleted u then Inl ErrOrderPermission
              else if ur_status u \<noteq> ''active'' \<or> (admin \<and> \<not> ur_admin u) \<or> (\<not> admin \<and> or_user r \<noteq> actor) then Inl ErrOrderPermission
              else if \<not> order_transition_allowed (or_status r) ''canceled'' force then Inl (ErrNamed ''ErrOrderNotCancelable'')
              else if or_status r = ''canceled'' then try_bind (release_order_funding fe db r ''canceled'' now) (\<lambda>db. Inr (r, db))
              else try_bind (release_order_funding fe db r ''canceled'' now) (\<lambda>db.
                let r = r\<lparr>or_status := ''canceled'', or_updated := now, or_canceled_at := Some now\<rparr>
                in Inr (r, audit (Some actor) ''order.cancel'' (''order:'' @ show_nat i) (set_order db r)))))"

section \<open>Sound fundings\<close>

text \<open>What a funding holds of an account's reserve.\<close>

definition held :: "nat \<Rightarrow> string \<Rightarrow> order_funding \<Rightarrow> int" where
  "held u c f = (if fu_state f = ''reserved'' \<and> fu_user f = u \<and> fu_currency f = c then fu_wallet f - fu_entitlement f else 0)"

definition held_total :: "order_funding list \<Rightarrow> nat \<Rightarrow> string \<Rightarrow> int" where
  "held_total fs u c = sum_list (map (held u c) fs)"

definition funding_ok :: "order_funding \<Rightarrow> bool" where
  "funding_ok f \<longleftrightarrow> 0 \<le> fu_entitlement f \<and> fu_entitlement f \<le> fu_wallet f \<and> fu_wallet f \<le> fu_amount f \<and> fu_amount f \<le> max64
     \<and> fu_cash f = fu_amount f - fu_wallet f \<and> fu_state f \<in> {''reserved'', ''released'', ''captured''}"

definition in_state :: "order_funding list \<Rightarrow> nat \<Rightarrow> string \<Rightarrow> bool" where
  "in_state fs n st \<longleftrightarrow> (\<exists>f \<in> set fs. fu_order f = n \<and> fu_state f = st)"

definition entry_fits :: "funding_env \<Rightarrow> order_funding list \<Rightarrow> string \<Rightarrow> bool" where
  "entry_fits fe fs key \<longleftrightarrow> (\<forall>n. (key = order_key fe ''reserve-order:'' n \<longrightarrow> n \<in> fu_order ` set fs)
     \<and> (key = order_key fe ''release-order:'' n \<longrightarrow> in_state fs n ''released'')
     \<and> (key = order_key fe ''capture-order:'' n \<longrightarrow> in_state fs n ''captured'')
     \<and> (key = order_key fe ''reserve-entitlement-order:'' n \<longrightarrow> in_state fs n ''captured''))"

definition fundings_ok :: "funding_env \<Rightarrow> shop_db \<Rightarrow> bool" where
  "fundings_ok fe db \<longleftrightarrow> books_ok (fe_wallet fe) db \<and> distinct (map fu_order (db_fundings db)) \<and> (\<forall>f \<in> set (db_fundings db). funding_ok f)
     \<and> (\<forall>u c. reserved_of db u c = held_total (db_fundings db) u c)
     \<and> (\<forall>e \<in> set (db_entries db). entry_fits fe (db_fundings db) (en_key e))"

text \<open>A funding only moves from reserved to one of the two final states.\<close>

definition settles :: "order_funding list \<Rightarrow> order_funding list \<Rightarrow> bool" where
  "settles fs gs \<longleftrightarrow> (\<forall>f \<in> set fs. \<exists>g \<in> set gs. fu_order g = fu_order f \<and> fu_amount g = fu_amount f \<and> fu_wallet g = fu_wallet f
     \<and> (fu_state f \<noteq> ''reserved'' \<longrightarrow> g = f))"

lemma settles_refl [simp]: "settles fs fs"
  by (auto simp: settles_def)

lemma settles_append [simp]: "settles fs (fs @ gs)"
  by (auto simp: settles_def)

lemma settles_trans: "settles fs gs \<Longrightarrow> settles gs hs \<Longrightarrow> settles fs hs"
  unfolding settles_def by (metis (no_types, lifting))

lemma settles_in_state: "settles fs gs \<Longrightarrow> st \<noteq> ''reserved'' \<Longrightarrow> in_state fs n st \<Longrightarrow> in_state gs n st"
  unfolding settles_def in_state_def by metis

lemma settles_orders: "settles fs gs \<Longrightarrow> n \<in> fu_order ` set fs \<Longrightarrow> n \<in> fu_order ` set gs"
  unfolding settles_def image_iff by metis

lemma entry_fits_settles:
  assumes "settles fs gs" "entry_fits fe fs key" shows "entry_fits fe gs key"
proof -
  have "in_state fs n ''released'' \<Longrightarrow> in_state gs n ''released''" "in_state fs n ''captured'' \<Longrightarrow> in_state gs n ''captured''"
    "n \<in> fu_order ` set fs \<Longrightarrow> n \<in> fu_order ` set gs" for n
    using settles_in_state[OF assms(1)] settles_orders[OF assms(1)] by simp_all
  with assms(2) show ?thesis unfolding entry_fits_def by simp
qed

lemma order_key_eq:
  assumes "inj (we_hash (fe_wallet fe))"
  shows "order_key fe t n = order_key fe t' m \<longleftrightarrow> t @ show_nat n = t' @ show_nat m"
  by (simp add: order_key_def inj_eq[OF assms])

lemma entry_fits_new:
  assumes "inj (we_hash (fe_wallet fe))"
  shows "n \<in> fu_order ` set fs \<Longrightarrow> entry_fits fe fs (order_key fe ''reserve-order:'' n)"
    "in_state fs n ''released'' \<Longrightarrow> entry_fits fe fs (order_key fe ''release-order:'' n)"
    "in_state fs n ''captured'' \<Longrightarrow> entry_fits fe fs (order_key fe ''capture-order:'' n)"
    "in_state fs n ''captured'' \<Longrightarrow> entry_fits fe fs (order_key fe ''reserve-entitlement-order:'' n)"
    "entry_fits fe fs (order_key fe ''change-refund:'' n)"
  by (simp_all add: entry_fits_def order_key_eq[OF assms] show_nat_inj)

lemma entry_fits_foreign:
  assumes "inj (we_hash (fe_wallet fe))" "take 8 s \<noteq> ''reserve-''" "take 8 s \<noteq> ''release-''" "take 8 s \<noteq> ''capture-''"
  shows "entry_fits fe fs (we_hash (fe_wallet fe) s)"
proof -
  have t: "take 8 (''reserve-order:'' @ x) = ''reserve-''" "take 8 (''release-order:'' @ x) = ''release-''"
    "take 8 (''capture-order:'' @ x) = ''capture-''" "take 8 (''reserve-entitlement-order:'' @ x) = ''reserve-''" for x by simp_all
  have "s \<noteq> ''reserve-order:'' @ x" "s \<noteq> ''release-order:'' @ x" "s \<noteq> ''capture-order:'' @ x" "s \<noteq> ''reserve-entitlement-order:'' @ x" for x
    using assms(2-4) t[of x] by metis+
  then show ?thesis by (simp add: entry_fits_def order_key_def inj_eq[OF assms(1)])
qed

lemma order_key_apart:
  assumes "inj (we_hash (fe_wallet fe))" "take 11 t = t' " "length t' = 11" "t' \<noteq> ''adjustment-''"
  shows "\<forall>i. order_key fe t n \<noteq> reversal_key (fe_wallet fe) i" "\<forall>k. order_key fe t n \<noteq> debit_entry_key (fe_wallet fe) k"
proof -
  have l: "length (take 11 t) = 11" using assms(2,3) by simp
  then have "11 \<le> length t" by simp
  with assms(2) have "take 11 (t @ show_nat n) = t'" by simp
  with assms(4) have d: "take 11 (t @ show_nat n) \<noteq> ''adjustment-''" by simp
  show "\<forall>i. order_key fe t n \<noteq> reversal_key (fe_wallet fe) i" "\<forall>k. order_key fe t n \<noteq> debit_entry_key (fe_wallet fe) k"
    unfolding order_key_def using hash_apart[OF assms(1) d] by blast+
qed

lemma held_total_update:
  assumes "distinct (map fu_order fs)" "f \<in> set fs" "fu_order g = fu_order f"
  shows "held_total (map (\<lambda>x. if fu_order x = fu_order g then g else x) fs) u c = held_total fs u c - held u c f + held u c g"
  using assms
proof (induction fs)
  case (Cons x fs)
  show ?case
  proof (cases "x = f")
    case True
    with Cons.prems have "\<forall>y \<in> set fs. fu_order y \<noteq> fu_order g" by (auto simp: image_iff)
    then have "map (\<lambda>x. if fu_order x = fu_order g then g else x) fs = fs" by (intro map_idI) auto
    with True Cons.prems(3) show ?thesis by (simp add: held_total_def)
  next
    case False
    with Cons.prems have "f \<in> set fs" "fu_order x \<noteq> fu_order g" by auto
    with Cons show ?thesis by (simp add: held_total_def)
  qed
qed simp

lemma settles_update:
  assumes "f \<in> set fs" "distinct (map fu_order fs)" "fu_state f = ''reserved''" "fu_order g = fu_order f" "fu_amount g = fu_amount f" "fu_wallet g = fu_wallet f"
  shows "settles fs (map (\<lambda>x. if fu_order x = fu_order g then g else x) fs)" "in_state (map (\<lambda>x. if fu_order x = fu_order g then g else x) fs) (fu_order f) (fu_state g)"
proof -
  let ?h = "\<lambda>x. if fu_order x = fu_order g then g else x"
  have same: "x = f" if "x \<in> set fs" "fu_order x = fu_order g" for x
    using that assms(1,2,4) by (auto simp: distinct_map dest: inj_onD)
  have in_map: "?h x \<in> set (map ?h fs)" if "x \<in> set fs" for x using that by (subst set_map) (rule imageI)
  show "settles fs (map ?h fs)"
    unfolding settles_def
  proof (intro ballI bexI)
    fix x assume "x \<in> set fs"
    then show "?h x \<in> set (map ?h fs)" by (rule in_map)
    show "fu_order (?h x) = fu_order x \<and> fu_amount (?h x) = fu_amount x \<and> fu_wallet (?h x) = fu_wallet x
        \<and> (fu_state x \<noteq> ''reserved'' \<longrightarrow> ?h x = x)"
    proof (cases "fu_order x = fu_order g")
      case True
      from same[OF \<open>x \<in> set fs\<close> True] True assms(3-6) show ?thesis by simp
    qed simp
  qed
  show "in_state (map ?h fs) (fu_order f) (fu_state g)"
    unfolding in_state_def using in_map[OF assms(1)] assms(4) by auto
qed

section \<open>The operations keep fundings sound\<close>

lemma books_ok_cong:
  assumes "db_entries db' = db_entries db" "db_entry_seq db' = db_entry_seq db" "db_accounts db' = db_accounts db"
    "db_adjustments db' = db_adjustments db" "db_adjustment_seq db' = db_adjustment_seq db"
  shows "books_ok env db' = books_ok env db"
  using ledger_ok_cong(1)[OF assms(1-3)] assms by (simp add: books_ok_def)

lemma update_funding_tables [simp]:
  "db_entries (update_funding db f) = db_entries db" "db_entry_seq (update_funding db f) = db_entry_seq db"
  "db_accounts (update_funding db f) = db_accounts db" "db_adjustments (update_funding db f) = db_adjustments db"
  "db_adjustment_seq (update_funding db f) = db_adjustment_seq db" "db_orders (update_funding db f) = db_orders db"
  "db_fundings (update_funding db f) = map (\<lambda>g. if fu_order g = fu_order f then f else g) (db_fundings db)"
  "balance_of (update_funding db f) u c = balance_of db u c" "reserved_of (update_funding db f) u c = reserved_of db u c"
  by (simp_all add: update_funding_def balance_of_def reserved_of_def)

lemma fundings_okI:
  assumes "fundings_ok fe db" "books_ok (fe_wallet fe) db'" "db_entries db' = db_entries db @ es"
    "\<forall>e \<in> set es. entry_fits fe (db_fundings db') (en_key e)" "settles (db_fundings db) (db_fundings db')"
    "distinct (map fu_order (db_fundings db'))" "\<forall>f \<in> set (db_fundings db'). funding_ok f"
    "\<forall>u c. reserved_of db' u c = held_total (db_fundings db') u c"
  shows "fundings_ok fe db'"
  using assms entry_fits_settles[OF assms(5)] unfolding fundings_ok_def by auto

lemma funding_found:
  assumes "find_order_funding fe db r = Inr (Some f)"
  shows "f \<in> set (db_fundings db)" "fu_order f = or_id r" "fu_user f = or_user r" "fu_currency f = or_currency r" "fu_amount f = or_payable r"
    "\<not> funding_broken f r"
proof -
  from assms have l: "List.find (\<lambda>f. fu_order f = or_id r) (db_fundings db) = Some f" and b: "\<not> funding_broken f r"
    by (auto simp: find_order_funding_def split: option.splits if_splits)
  from l show "f \<in> set (db_fundings db)" "fu_order f = or_id r" by (auto simp: find_Some_iff)
  from b show "fu_user f = or_user r" "fu_currency f = or_currency r" "fu_amount f = or_payable r" "\<not> funding_broken f r"
    by (auto simp: funding_broken_def)
qed

lemma funding_not_found:
  assumes "find_order_funding fe db r = Inr None"
  shows "or_id r \<notin> fu_order ` set (db_fundings db)"
  using assms by (auto simp: find_order_funding_def find_None_iff split: option.splits if_splits)

lemma one_state:
  assumes "distinct (map fu_order fs)" "f \<in> set fs" "fu_state f = ''reserved''" "st \<noteq> ''reserved''"
  shows "\<not> in_state fs (fu_order f) st"
proof
  assume "in_state fs (fu_order f) st"
  then obtain g where g: "g \<in> set fs" "fu_order g = fu_order f" "fu_state g = st" by (auto simp: in_state_def)
  have "g = f" by (rule distinct_map_eq[OF assms(1) g(1) assms(2) g(2)])
  with g(3) assms(3,4) show False by simp
qed

lemma reserved_not_final:
  assumes "fundings_ok fe db" "f \<in> set (db_fundings db)" "fu_state f = ''reserved''" "st \<noteq> ''reserved''"
  shows "\<not> in_state (db_fundings db) (fu_order f) st"
  by (rule one_state[OF _ assms(2-4)]) (use assms(1) in \<open>simp add: fundings_ok_def\<close>)

lemma key_absent:
  assumes "fundings_ok fe db"
  shows "n \<notin> fu_order ` set (db_fundings db) \<Longrightarrow> order_key fe ''reserve-order:'' n \<notin> en_key ` set (db_entries db)"
    "\<not> in_state (db_fundings db) n ''released'' \<Longrightarrow> order_key fe ''release-order:'' n \<notin> en_key ` set (db_entries db)"
    "\<not> in_state (db_fundings db) n ''captured'' \<Longrightarrow> order_key fe ''capture-order:'' n \<notin> en_key ` set (db_entries db)"
    "\<not> in_state (db_fundings db) n ''captured'' \<Longrightarrow> order_key fe ''reserve-entitlement-order:'' n \<notin> en_key ` set (db_entries db)"
  using assms unfolding fundings_ok_def entry_fits_def image_iff by metis+

lemma append_fresh:
  assumes "append_wallet_entry uc db src key kind text bd rd now = Inr (i, db1)" "books_ok env db" "in64 bd" "in64 rd"
    "key \<notin> en_key ` set (db_entries db)" "\<forall>i. key \<noteq> reversal_key env i" "\<forall>k. key \<noteq> debit_entry_key env k"
  obtains e where "db_entries db1 = db_entries db @ [e]" "en_key e = key" "books_ok env db1" "db_fundings db1 = db_fundings db"
    "db_orders db1 = db_orders db" "en_user e = src_user src" "en_currency e = src_currency src" "en_balance_delta e = bd" "en_reserved_delta e = rd"
    "\<And>u c. balance_of db1 u c = balance_of db u c + (if u = src_user src \<and> c = src_currency src then bd else 0)"
    "\<And>u c. reserved_of db1 u c = reserved_of db u c + (if u = src_user src \<and> c = src_currency src then rd else 0)"
proof -
  have L: "ledger_ok db" using assms(2) by (simp add: books_ok_def)
  from assms(1) L assms(3,4) show ?thesis
  proof (cases rule: append_wallet_entry_cases)
    case (again e)
    with assms(5) show ?thesis by (metis imageI)
  next
    case (fresh e vn)
    with books_append[OF assms(1-4,6,7)] show ?thesis by (intro that[of e]) (auto simp: post_entry_reads)
  qed
qed

lemma change_is_entry:
  assumes "append_wallet_change uc db r key kind text bd rd now = Inr (i, db1)"
  shows "append_wallet_entry uc db \<lparr>src_user = or_user r, src_currency = or_currency r, src_order = Some (or_id r)\<rparr> key kind text bd rd now = Inr (i, db1)"
  using assms by (simp add: append_wallet_change_def split: if_splits)

lemma apart_tags:
  assumes "inj (we_hash (fe_wallet fe))" "t \<in> {''reserve-order:'', ''release-order:'', ''capture-order:'', ''reserve-entitlement-order:'', ''change-refund:''}"
  shows "\<forall>i. order_key fe t n \<noteq> reversal_key (fe_wallet fe) i" "\<forall>k. order_key fe t n \<noteq> debit_entry_key (fe_wallet fe) k"
  using assms(2) order_key_apart[OF assms(1) refl] by auto

lemma optional_entry:
  assumes "(if b then try_bind app (\<lambda>(_, db). Inr db) else Inr db) = Inr db1"
    "\<And>i. app = Inr (i, db1) \<Longrightarrow> append_wallet_entry uc db \<lparr>src_user = u0, src_currency = c0, src_order = o0\<rparr> key kind text bd rd now = Inr (i, db1)"
    "books_ok env db" "in64 bd" "in64 rd" "key \<notin> en_key ` set (db_entries db)" "\<forall>i. key \<noteq> reversal_key env i" "\<forall>k. key \<noteq> debit_entry_key env k"
    "\<not> b \<Longrightarrow> bd = 0 \<and> rd = 0"
  obtains es where "db_entries db1 = db_entries db @ es" "\<forall>e \<in> set es. en_key e = key" "books_ok env db1" "db_fundings db1 = db_fundings db"
    "\<And>u c. balance_of db1 u c = balance_of db u c + (if u = u0 \<and> c = c0 then bd else 0)"
    "\<And>u c. reserved_of db1 u c = reserved_of db u c + (if u = u0 \<and> c = c0 then rd else 0)"
    "db_orders db1 = db_orders db"
proof (cases b)
  case True
  with assms(1) obtain i where app: "app = Inr (i, db1)" by auto
  obtain e where "db_entries db1 = db_entries db @ [e]" "en_key e = key" "books_ok env db1" "db_fundings db1 = db_fundings db" "db_orders db1 = db_orders db"
    "\<And>u c. balance_of db1 u c = balance_of db u c + (if u = u0 \<and> c = c0 then bd else 0)"
    "\<And>u c. reserved_of db1 u c = reserved_of db u c + (if u = u0 \<and> c = c0 then rd else 0)"
    by (rule append_fresh[OF assms(2)[OF app] assms(3-8)]) simp
  then show ?thesis by (intro that[of "[e]"]) simp_all
next
  case False
  with assms(1,3,9) show ?thesis by (intro that[of "[]"]) simp_all
qed

lemma release_order_funding_cases:
  assumes "release_order_funding fe db r reason now = Inr db'"
  obtains "db' = db" "\<And>f. find_order_funding fe db r = Inr (Some f) \<Longrightarrow> fu_state f \<noteq> ''reserved''"
  | f db1 where "find_order_funding fe db r = Inr (Some f)" "fu_state f = ''reserved''"
    "(if sub64 (fu_wallet f) (fu_entitlement f) > 0
       then try_bind (append_wallet_change (we_unicode (fe_wallet fe)) db r (order_key fe ''release-order:'' (or_id r)) ''reserve_release''
              release_text 0 (sub64 0 (sub64 (fu_wallet f) (fu_entitlement f))) now) (\<lambda>(_, db). Inr db)
       else Inr db) = Inr db1"
    "db' = update_funding db1 (f\<lparr>fu_state := ''released'', fu_released := Some now, fu_release_reason := reason\<rparr>)"
proof -
  obtain found where found: "fe_release fe r now = Inr ()" "find_order_funding fe db r = Inr found"
    using assms by (auto simp: release_order_funding_def)
  show ?thesis
  proof (cases found)
    case None
    with found assms show ?thesis by (intro that(1)) (simp_all add: release_order_funding_def)
  next
    case (Some f)
    show ?thesis
    proof (cases "fu_state f = ''reserved''")
      case True
      from assms found Some True have "try_bind (if sub64 (fu_wallet f) (fu_entitlement f) > 0
          then try_bind (append_wallet_change (we_unicode (fe_wallet fe)) db r (order_key fe ''release-order:'' (or_id r)) ''reserve_release''
                 release_text 0 (sub64 0 (sub64 (fu_wallet f) (fu_entitlement f))) now) (\<lambda>(_, db). Inr db)
          else Inr db) (\<lambda>db. Inr (update_funding db (f\<lparr>fu_state := ''released'', fu_released := Some now, fu_release_reason := reason\<rparr>))) = Inr db'"
        by (simp add: release_order_funding_def Let_def del: try_bind_Inr_iff)
      then show ?thesis unfolding try_bind_Inr_iff[of "if _ then _ else _"] using that(2)[OF found(2)[unfolded Some] True] by blast
    next
      case False
      with assms found Some have "db' = db" by (simp add: release_order_funding_def split: if_splits)
      with False Some found show ?thesis by (intro that(1)) simp_all
    qed
  qed
qed

lemma release_core:
  assumes "release_order_funding fe db r reason now = Inr db'" "inj (we_hash (fe_wallet fe))" "books_ok (fe_wallet fe) db"
    "distinct (map fu_order (db_fundings db))" "\<forall>f \<in> set (db_fundings db). funding_ok f"
    "\<And>f. f \<in> set (db_fundings db) \<Longrightarrow> fu_order f = or_id r \<Longrightarrow> fu_state f = ''reserved'' \<Longrightarrow>
      order_key fe ''release-order:'' (or_id r) \<notin> en_key ` set (db_entries db)"
  obtains (idle) "db' = db" "\<And>f. find_order_funding fe db r = Inr (Some f) \<Longrightarrow> fu_state f \<noteq> ''reserved''"
  | (freed) f es where "f \<in> set (db_fundings db)" "fu_order f = or_id r" "fu_state f = ''reserved''" "fu_user f = or_user r" "fu_currency f = or_currency r"
      "books_ok (fe_wallet fe) db'" "db_entries db' = db_entries db @ es" "\<forall>e \<in> set es. en_key e = order_key fe ''release-order:'' (or_id r)"
      "db_fundings db' = map (\<lambda>g. if fu_order g = or_id r then f\<lparr>fu_state := ''released'', fu_released := Some now, fu_release_reason := reason\<rparr> else g) (db_fundings db)"
      "settles (db_fundings db) (db_fundings db')" "in_state (db_fundings db') (or_id r) ''released''"
      "distinct (map fu_order (db_fundings db'))" "\<forall>f \<in> set (db_fundings db'). funding_ok f" "\<And>u c. balance_of db' u c = balance_of db u c"
      "\<And>u c. reserved_of db' u c = reserved_of db u c - (if u = or_user r \<and> c = or_currency r then fu_wallet f - fu_entitlement f else 0)"
      "\<And>u c. held_total (db_fundings db') u c = held_total (db_fundings db) u c - (if u = or_user r \<and> c = or_currency r then fu_wallet f - fu_entitlement f else 0)"
proof -
  show ?thesis
    using assms(1)
  proof (cases rule: release_order_funding_cases)
    case 1
    then show ?thesis by (rule idle)
  next
    case (2 f db1)
    note ff = funding_found[OF 2(1)]
    have fok: "funding_ok f" using assms(5) ff(1) by simp
    let ?amount = "fu_wallet f - fu_entitlement f" and ?g = "f\<lparr>fu_state := ''released'', fu_released := Some now, fu_release_reason := reason\<rparr>"
    have amt: "sub64 (fu_wallet f) (fu_entitlement f) = ?amount" "sub64 0 ?amount = - ?amount" "in64 (- ?amount)" "0 \<le> ?amount"
      using fok by (auto simp: funding_ok_def sub64_nonneg int64_simps sub64_def)
    have db1: "(if ?amount > 0 then try_bind (append_wallet_change (we_unicode (fe_wallet fe)) db r (order_key fe ''release-order:'' (or_id r)) ''reserve_release''
              release_text 0 (- ?amount) now) (\<lambda>(_, db). Inr db) else Inr db) = Inr db1" "db' = update_funding db1 ?g"
      using 2(3,4) unfolding amt(1,2) by simp_all
    note absent = assms(6)[OF ff(1,2) 2(2)]
    have ap: "\<forall>i. order_key fe ''release-order:'' n \<noteq> reversal_key (fe_wallet fe) i"
      "\<forall>k. order_key fe ''release-order:'' n \<noteq> debit_entry_key (fe_wallet fe) k" for n
      by (rule apart_tags[OF assms(2)]; simp)+
    have B: "in64 0" "\<not> 0 < ?amount \<Longrightarrow> 0 = (0 :: int) \<and> - ?amount = 0" using amt(4) by (simp_all add: int64_simps)
    obtain es where es: "db_entries db1 = db_entries db @ es" "\<forall>e \<in> set es. en_key e = order_key fe ''release-order:'' (or_id r)"
      "books_ok (fe_wallet fe) db1" "db_fundings db1 = db_fundings db"
      "\<And>u c. balance_of db1 u c = balance_of db u c + (if u = or_user r \<and> c = or_currency r then 0 else 0)"
      "\<And>u c. reserved_of db1 u c = reserved_of db u c + (if u = or_user r \<and> c = or_currency r then - ?amount else 0)"
      by (rule optional_entry[OF db1(1) change_is_entry assms(3) B(1) amt(3) absent ap B(2)]; (assumption | rule that))
    note st = settles_update[OF ff(1) assms(4) 2(2), of ?g, simplified]
    have fs': "db_fundings db' = map (\<lambda>g. if fu_order g = or_id r then ?g else g) (db_fundings db)" using db1(2) es(4) ff(2) by simp
    have books: "books_ok (fe_wallet fe) db'" using es(3) books_ok_cong[of db' db1] db1(2) by simp
    have dist: "distinct (map fu_order (db_fundings db'))" using assms(4) fs' ff(2) by (simp add: comp_def if_distrib cong: if_cong)
    have foks: "\<forall>f \<in> set (db_fundings db'). funding_ok f" using assms(5) fok unfolding fs' by (auto simp: funding_ok_def)
    have st1: "settles (db_fundings db) (db_fundings db')" "in_state (db_fundings db') (or_id r) ''released''" using st fs' ff(2) by simp_all
    show ?thesis
    proof (rule freed[OF ff(1,2) 2(2) ff(3,4) books _ es(2) fs' st1 dist foks])
      show "held_total (db_fundings db') u c = held_total (db_fundings db) u c - (if u = or_user r \<and> c = or_currency r then ?amount else 0)" for u c
        unfolding fs' using held_total_update[OF assms(4) ff(1), of ?g u c] ff 2(2) by (auto simp: held_def)
    qed (use es db1 in simp_all)
  qed
qed

lemma release_order_funding_spec:
  assumes "release_order_funding fe db r reason now = Inr db'" "fundings_ok fe db" "inj (we_hash (fe_wallet fe))"
  obtains (idle) "db' = db" "\<And>f. find_order_funding fe db r = Inr (Some f) \<Longrightarrow> fu_state f \<noteq> ''reserved''"
  | (freed) f where "f \<in> set (db_fundings db)" "fu_order f = or_id r" "fu_state f = ''reserved''" "fundings_ok fe db'"
      "db_fundings db' = map (\<lambda>g. if fu_order g = or_id r then f\<lparr>fu_state := ''released'', fu_released := Some now, fu_release_reason := reason\<rparr> else g) (db_fundings db)"
      "settles (db_fundings db) (db_fundings db')" "\<And>u c. balance_of db' u c = balance_of db u c"
      "\<And>u c. reserved_of db' u c = reserved_of db u c - (if u = or_user r \<and> c = or_currency r then fu_wallet f - fu_entitlement f else 0)"
proof -
  have ok: "books_ok (fe_wallet fe) db" "distinct (map fu_order (db_fundings db))" "\<forall>f \<in> set (db_fundings db). funding_ok f"
    using assms(2) by (simp_all add: fundings_ok_def)
  have absent: "order_key fe ''release-order:'' (or_id r) \<notin> en_key ` set (db_entries db)"
    if "f \<in> set (db_fundings db)" "fu_order f = or_id r" "fu_state f = ''reserved''" for f
    using reserved_not_final[OF assms(2) that(1,3), of "''released''"] key_absent(2)[OF assms(2)] that(2) by simp
  show ?thesis
  proof (rule release_core[OF assms(1,3) ok])
    fix f es assume f: "f \<in> set (db_fundings db)" "fu_order f = or_id r" "fu_state f = ''reserved''"
      and c: "books_ok (fe_wallet fe) db'" "db_entries db' = db_entries db @ es" "\<forall>e \<in> set es. en_key e = order_key fe ''release-order:'' (or_id r)"
        "db_fundings db' = map (\<lambda>g. if fu_order g = or_id r then f\<lparr>fu_state := ''released'', fu_released := Some now, fu_release_reason := reason\<rparr> else g) (db_fundings db)"
        "settles (db_fundings db) (db_fundings db')" "in_state (db_fundings db') (or_id r) ''released''"
        "distinct (map fu_order (db_fundings db'))" "\<forall>f \<in> set (db_fundings db'). funding_ok f"
      and v: "\<And>u c. balance_of db' u c = balance_of db u c"
        "\<And>u c. reserved_of db' u c = reserved_of db u c - (if u = or_user r \<and> c = or_currency r then fu_wallet f - fu_entitlement f else 0)"
        "\<And>u c. held_total (db_fundings db') u c = held_total (db_fundings db) u c - (if u = or_user r \<and> c = or_currency r then fu_wallet f - fu_entitlement f else 0)"
    have "fundings_ok fe db'"
      by (rule fundings_okI[OF assms(2) c(1,2) _ c(5,7,8)])
        (use c(3) entry_fits_new(2)[OF assms(3) c(6)] v(2,3) assms(2) in \<open>simp_all add: fundings_ok_def\<close>)
    then show ?thesis by (rule freed[OF f _ c(4,5) v(1,2)])
  qed (use absent idle in simp_all)
qed

lemma capture_core:
  assumes "capture_order_funding fe db r now = Inr db'" "find_order_funding fe db r = Inr (Some f)" "books_ok (fe_wallet fe) db"
    "funding_ok f" "inj (we_hash (fe_wallet fe))" "order_key fe ''capture-order:'' (or_id r) \<notin> en_key ` set (db_entries db)"
  obtains es where "fu_state f = ''reserved''" "now < fu_expires f" "verify_replacement_reservation fe db r f = Inr ()"
    "db_entries db' = db_entries db @ es" "\<forall>e \<in> set es. en_key e = order_key fe ''capture-order:'' (or_id r)" "books_ok (fe_wallet fe) db'"
    "db_fundings db' = map (\<lambda>g. if fu_order g = fu_order f then f\<lparr>fu_state := ''captured'', fu_captured := Some now\<rparr> else g) (db_fundings db)"
    "\<And>u c. balance_of db' u c = balance_of db u c + (if u = or_user r \<and> c = or_currency r then - fu_wallet f else 0)"
    "\<And>u c. reserved_of db' u c = reserved_of db u c + (if u = or_user r \<and> c = or_currency r then - fu_wallet f else 0)"
proof -
  let ?g = "f\<lparr>fu_state := ''captured'', fu_captured := Some now\<rparr>"
  have amt: "sub64 0 (fu_wallet f) = - fu_wallet f" "in64 (- fu_wallet f)" "0 \<le> fu_wallet f"
    using assms(4) by (auto simp: funding_ok_def int64_simps sub64_def)
  obtain db1 where db1: "(if fu_wallet f > 0 then try_bind (append_wallet_change (we_unicode (fe_wallet fe)) db r (order_key fe ''capture-order:'' (or_id r)) ''purchase''
            purchase_text (- fu_wallet f) (- fu_wallet f) now) (\<lambda>(_, db). Inr db) else Inr db) = Inr db1"
    and db': "db' = update_funding db1 ?g" and st: "fu_state f = ''reserved''" "now < fu_expires f"
      "verify_replacement_reservation fe db r f = Inr ()"
    using assms(1,2) by (auto simp: capture_order_funding_def amt(1) split: if_splits)
  have ap: "\<forall>i. order_key fe ''capture-order:'' n \<noteq> reversal_key (fe_wallet fe) i"
    "\<forall>k. order_key fe ''capture-order:'' n \<noteq> debit_entry_key (fe_wallet fe) k" for n
    by (rule apart_tags[OF assms(5)]; simp)+
  have z: "\<not> fu_wallet f > 0 \<Longrightarrow> - fu_wallet f = 0 \<and> - fu_wallet f = 0" using amt(3) by simp
  obtain es where es: "db_entries db1 = db_entries db @ es" "\<forall>e \<in> set es. en_key e = order_key fe ''capture-order:'' (or_id r)"
    "books_ok (fe_wallet fe) db1" "db_fundings db1 = db_fundings db"
    "\<And>u c. balance_of db1 u c = balance_of db u c + (if u = or_user r \<and> c = or_currency r then - fu_wallet f else 0)"
    "\<And>u c. reserved_of db1 u c = reserved_of db u c + (if u = or_user r \<and> c = or_currency r then - fu_wallet f else 0)"
    by (rule optional_entry[OF db1 change_is_entry assms(3) amt(2,2) assms(6) ap z]; (assumption | rule that))
  have "books_ok (fe_wallet fe) db'" using es(3) books_ok_cong[of db' db1] db' by simp
  with es db' st show ?thesis by (intro that[of es]) simp_all
qed

lemma captured_ok:
  assumes "fundings_ok fe db" "inj (we_hash (fe_wallet fe))" "f \<in> set (db_fundings db)" "fu_state f = ''reserved''"
    "books_ok (fe_wallet fe) db'" "db_entries db' = db_entries db @ es" "fu_user f = u0" "fu_currency f = c0"
    "\<forall>e \<in> set es. en_key e \<in> {order_key fe ''capture-order:'' (fu_order f), order_key fe ''reserve-entitlement-order:'' (fu_order f)} \<or> (\<exists>n. en_key e = order_key fe ''change-refund:'' n)"
    "db_fundings db' = map (\<lambda>g. if fu_order g = fu_order f then f\<lparr>fu_state := ''captured'', fu_captured := Some now\<rparr> else g) (db_fundings db)"
    "\<And>u c. reserved_of db' u c = reserved_of db u c - (if u = u0 \<and> c = c0 then fu_wallet f - fu_entitlement f else 0)"
  shows "fundings_ok fe db'" "settles (db_fundings db) (db_fundings db')"
proof -
  let ?g = "f\<lparr>fu_state := ''captured'', fu_captured := Some now\<rparr>"
  have dist: "distinct (map fu_order (db_fundings db))" and fok: "funding_ok f" using assms(1,3) by (simp_all add: fundings_ok_def)
  note st = settles_update[OF assms(3) dist assms(4), of ?g, simplified]
  from st assms(10) show settled: "settles (db_fundings db) (db_fundings db')" by simp
  have held: "held_total (db_fundings db') u c = held_total (db_fundings db) u c - (if u = u0 \<and> c = c0 then fu_wallet f - fu_entitlement f else 0)" for u c
    unfolding assms(10) using held_total_update[OF dist assms(3), of ?g u c] assms(4,7,8) by (auto simp: held_def)
  show "fundings_ok fe db'"
  proof (rule fundings_okI[OF assms(1,5,6) _ settled])
    show "\<forall>e \<in> set es. entry_fits fe (db_fundings db') (en_key e)"
      using assms(9,10) st(2) entry_fits_new(3,4,5)[OF assms(2)] by fastforce
    show "distinct (map fu_order (db_fundings db'))" using dist assms(10) by (simp add: comp_def if_distrib cong: if_cong)
    show "\<forall>f \<in> set (db_fundings db'). funding_ok f" using assms(1) fok unfolding assms(10) by (auto simp: fundings_ok_def funding_ok_def)
    show "\<forall>u c. reserved_of db' u c = held_total (db_fundings db') u c" using held assms(1,11) by (simp add: fundings_ok_def)
  qed
qed

lemma capture_order_funding_spec:
  assumes "capture_order_funding fe db r now = Inr db'" "fundings_ok fe db" "inj (we_hash (fe_wallet fe))"
  obtains (idle) "db' = db" "find_order_funding fe db r = Inr None"
  | (paid) f where "find_order_funding fe db r = Inr (Some f)" "f \<in> set (db_fundings db)" "fu_order f = or_id r" "fu_state f = ''reserved''"
      "now < fu_expires f" "fu_entitlement f = 0" "fundings_ok fe db'"
      "in_state (db_fundings db') (or_id r) ''captured''" "settles (db_fundings db) (db_fundings db')"
      "\<And>u c. balance_of db' u c = balance_of db u c - (if u = or_user r \<and> c = or_currency r then fu_wallet f else 0)"
      "\<And>u c. reserved_of db' u c = reserved_of db u c - (if u = or_user r \<and> c = or_currency r then fu_wallet f else 0)"
proof -
  obtain found where found: "find_order_funding fe db r = Inr found"
    using assms(1) by (auto simp: capture_order_funding_def)
  show ?thesis
  proof (cases found)
    case None
    with found assms(1) show ?thesis by (intro idle) (simp_all add: capture_order_funding_def)
  next
    case (Some f)
    note F = found[unfolded Some]
    note ff = funding_found[OF F]
    have B: "books_ok (fe_wallet fe) db" and fok: "funding_ok f" and st: "fu_state f = ''reserved''"
      using assms(1,2) ff(1) F by (auto simp: fundings_ok_def capture_order_funding_def split: if_splits)
    have nc: "\<not> in_state (db_fundings db) (or_id r) ''captured''"
      using reserved_not_final[OF assms(2) ff(1) st, of "''captured''"] ff(2) by simp
    obtain es where c: "now < fu_expires f" "verify_replacement_reservation fe db r f = Inr ()"
      "db_entries db' = db_entries db @ es" "\<forall>e \<in> set es. en_key e = order_key fe ''capture-order:'' (or_id r)" "books_ok (fe_wallet fe) db'"
      "db_fundings db' = map (\<lambda>g. if fu_order g = fu_order f then f\<lparr>fu_state := ''captured'', fu_captured := Some now\<rparr> else g) (db_fundings db)"
      "\<And>u c. balance_of db' u c = balance_of db u c + (if u = or_user r \<and> c = or_currency r then - fu_wallet f else 0)"
      "\<And>u c. reserved_of db' u c = reserved_of db u c + (if u = or_user r \<and> c = or_currency r then - fu_wallet f else 0)"
      by (rule capture_core[OF assms(1) F B fok assms(3) key_absent(3)[OF assms(2) nc]]; (rule that; assumption))
    have ent: "fu_entitlement f = 0"
    proof (rule ccontr)
      assume "fu_entitlement f \<noteq> 0"
      with c(2) have "order_key fe ''reserve-entitlement-order:'' (or_id r) \<in> en_key ` set (db_entries db)"
        by (auto simp: verify_replacement_reservation_def find_Some_iff image_iff split: option.splits if_splits) (metis nth_mem)+
      with key_absent(4)[OF assms(2) nc] show False by blast
    qed
    have dist: "distinct (map fu_order (db_fundings db))" using assms(2) by (simp add: fundings_ok_def)
    have captured: "in_state (db_fundings db') (or_id r) ''captured''"
      using settles_update(2)[OF ff(1) dist st, of "f\<lparr>fu_state := ''captured'', fu_captured := Some now\<rparr>", simplified] c(6) ff(2) by simp
    have keys: "\<forall>e \<in> set es. en_key e \<in> {order_key fe ''capture-order:'' (fu_order f), order_key fe ''reserve-entitlement-order:'' (fu_order f)}
        \<or> (\<exists>n. en_key e = order_key fe ''change-refund:'' n)" using c(4) ff(2) by simp
    note ok = captured_ok[OF assms(2,3) ff(1) st c(5,3) ff(3,4) keys c(6)]
    have r: "reserved_of db' u d = reserved_of db u d - (if u = or_user r \<and> d = or_currency r then fu_wallet f - fu_entitlement f else 0)" for u d
      using c(8) ent by simp
    show ?thesis by (rule paid[OF F ff(1,2) st c(1) ent ok(1)[OF r] captured ok(2)[OF r]]) (simp_all add: c(7,8))
  qed
qed

lemma snapshot_applied:
  assumes "full_replacement_snapshot fe r = Inr (Some s)"
  shows "0 \<le> cs_applied s" "cs_applied s \<le> cs_residual s" "cs_applied s \<le> or_payable r"
  using assms by (auto simp: full_replacement_snapshot_def split: option.splits if_splits)

lemma configure_order_funding_spec:
  assumes "configure_order_funding fe db r use now = Inr db'" "fundings_ok fe db" "inj (we_hash (fe_wallet fe))" "or_payable r \<le> max64"
  obtains (kept) f where "db' = db" "f \<in> set (db_fundings db)" "fu_order f = or_id r" "fu_use_balance f = use"
  | (fresh) sn entitlement reserved where "full_replacement_snapshot fe r = Inr sn" "entitlement = (case sn of None \<Rightarrow> 0 | Some s \<Rightarrow> cs_applied s)" "or_id r \<notin> fu_order ` set (db_fundings db)" "or_type r \<noteq> ''topup''"
      "0 \<le> entitlement" "0 \<le> reserved" "entitlement + reserved \<le> or_payable r" "reserved \<le> balance_of db (or_user r) (or_currency r) - reserved_of db (or_user r) (or_currency r)"
      "reserved = (if use then min (balance_of db (or_user r) (or_currency r) - reserved_of db (or_user r) (or_currency r)) (or_payable r - entitlement) else 0)"
      "fundings_ok fe db'" "db_fundings db' = db_fundings db @ [new_funding r use entitlement reserved now]" "funding_ok (new_funding r use entitlement reserved now)"
      "\<And>u c. balance_of db' u c = balance_of db u c"
      "\<And>u c. reserved_of db' u c = reserved_of db u c + (if u = or_user r \<and> c = or_currency r then reserved else 0)"
proof -
  let ?avail = "balance_of db (or_user r) (or_currency r) - reserved_of db (or_user r) (or_currency r)"
  have B: "books_ok (fe_wallet fe) db" and L: "ledger_ok db" using assms(2) by (simp_all add: fundings_ok_def books_ok_def)
  obtain found where found: "find_order_funding fe db r = Inr found" and type: "or_type r \<noteq> ''topup''"
    using assms(1) by (auto simp: configure_order_funding_def split: if_splits)
  show ?thesis
  proof (cases found)
    case (Some f)
    with found assms(1) have "db' = db" "fu_use_balance f = use" by (auto simp: configure_order_funding_def split: if_splits)
    with funding_found[of fe db r f] found Some show ?thesis by (intro kept) simp_all
  next
    case None
    note none = funding_not_found[OF found[unfolded None]]
    obtain sn where sn: "full_replacement_snapshot fe r = Inr sn" and pay: "0 \<le> or_payable r"
      using assms(1) found None by (auto simp: configure_order_funding_def Let_def split: if_splits)
    define ent where "ent = (case sn of None \<Rightarrow> 0 | Some s \<Rightarrow> cs_applied s)"
    have e: "0 \<le> ent" "ent \<le> or_payable r" using snapshot_applied[of fe r] sn pay by (auto simp: ent_def split: option.splits)
    have sub: "sub64 (or_payable r) ent = or_payable r - ent" using e assms(4) by (simp add: sub64_nonneg)
    define res where "res = (if use then min ?avail (or_payable r - ent) else 0)"
    have av: "0 \<le> ?avail" using ledger_bounds[OF L] by simp
    have res: "0 \<le> res" "res \<le> ?avail" "ent + res \<le> or_payable r" "in64 res" "in64 0"
      using e av assms(4) by (auto simp: res_def int64_simps)
    obtain db1 where db1: "reserve_for_order fe db r res now = Inr db1"
      and db': "db' = audit (Some (or_user r)) ''commerce.funding.reserve'' (''order:'' @ show_nat (or_id r))
            (db1\<lparr>db_fundings := db_fundings db1 @ [new_funding r use ent res now]\<rparr>)"
      using assms(1) found None sn wallet_available_value[OF L] sub unfolding res_def
      by (auto simp: configure_order_funding_def Let_def ent_def[symmetric] split: if_splits)
    have opt: "(if res > 0 then try_bind (append_wallet_change (we_unicode (fe_wallet fe)) db r (order_key fe ''reserve-order:'' (or_id r)) ''reserve'' reserve_text 0 res now)
        (\<lambda>(_, db). Inr db) else Inr db) = Inr db1"
      using db1 by (auto simp: reserve_for_order_def split: if_splits)
    have ap: "\<forall>i. order_key fe ''reserve-order:'' n \<noteq> reversal_key (fe_wallet fe) i"
      "\<forall>k. order_key fe ''reserve-order:'' n \<noteq> debit_entry_key (fe_wallet fe) k" for n
      by (rule apart_tags[OF assms(3)]; simp)+
    have z: "\<not> 0 < res \<Longrightarrow> 0 = (0 :: int) \<and> res = 0" using res(1) by simp
    obtain es where es: "db_entries db1 = db_entries db @ es" "\<forall>e \<in> set es. en_key e = order_key fe ''reserve-order:'' (or_id r)"
      "books_ok (fe_wallet fe) db1" "db_fundings db1 = db_fundings db"
      "\<And>u c. balance_of db1 u c = balance_of db u c + (if u = or_user r \<and> c = or_currency r then 0 else 0)"
      "\<And>u c. reserved_of db1 u c = reserved_of db u c + (if u = or_user r \<and> c = or_currency r then res else 0)"
      by (rule optional_entry[OF opt change_is_entry B res(5,4) key_absent(1)[OF assms(2) none] ap z]; (assumption | rule that))
    let ?f = "new_funding r use ent res now"
    have add: "add64 ent res = ent + res" "sub64 (or_payable r) (ent + res) = or_payable r - (ent + res)"
      using e res assms(4) by (simp_all add: add64_exact int64_simps sub64_nonneg)
    have fok: "funding_ok ?f" using e res assms(4) by (simp add: funding_ok_def new_funding_def add)
    have fs': "db_fundings db' = db_fundings db @ [?f]" using db' es(4) by simp
    have R: "balance_of db' u c = balance_of db1 u c" "reserved_of db' u c = reserved_of db1 u c" for u c
      using db' by (simp_all add: balance_of_def reserved_of_def)
    have ok: "fundings_ok fe db'"
    proof (rule fundings_okI[OF assms(2), of db' es])
      show "books_ok (fe_wallet fe) db'" using es(3) books_ok_cong[of db' db1] db' by simp
      show "\<forall>e \<in> set es. entry_fits fe (db_fundings db') (en_key e)"
        using es(2) entry_fits_new(1)[OF assms(3), of "or_id r"] fs' by (simp add: new_funding_def)
      show "distinct (map fu_order (db_fundings db'))" using assms(2) none fs' by (auto simp: fundings_ok_def new_funding_def)
      show "\<forall>f \<in> set (db_fundings db'). funding_ok f" using assms(2) fok fs' by (auto simp: fundings_ok_def)
      show "\<forall>u c. reserved_of db' u c = held_total (db_fundings db') u c"
        using assms(2) es(6) unfolding R fs' by (auto simp: fundings_ok_def held_total_def held_def new_funding_def add)
    qed (use es db' fs' in simp_all)
    show ?thesis
      by (rule fresh[OF sn ent_def none type e(1) res(1,3,2) res_def ok fs' fok]) (simp_all add: R es(5,6))
  qed
qed

text \<open>
  Between the settlement of the old subscription and the capture the account holds, beside the open fundings,
  the value that order \<open>n\<close> has taken over.
\<close>

definition part_settled :: "funding_env \<Rightarrow> nat \<Rightarrow> shop_db \<Rightarrow> bool" where
  "part_settled fe n db \<longleftrightarrow> books_ok (fe_wallet fe) db \<and> distinct (map fu_order (db_fundings db)) \<and> (\<forall>f \<in> set (db_fundings db). funding_ok f)
     \<and> (\<exists>f \<in> set (db_fundings db). fu_order f = n \<and> fu_state f = ''reserved''
          \<and> (\<forall>u c. reserved_of db u c = held_total (db_fundings db) u c + (if u = fu_user f \<and> c = fu_currency f then fu_entitlement f else 0)))
     \<and> (\<forall>e \<in> set (db_entries db). entry_fits fe (db_fundings db) (en_key e) \<or> en_key e = order_key fe ''reserve-entitlement-order:'' n)"

lemma part_settled_cong:
  assumes "db_entries db' = db_entries db" "db_entry_seq db' = db_entry_seq db" "db_accounts db' = db_accounts db"
    "db_adjustments db' = db_adjustments db" "db_adjustment_seq db' = db_adjustment_seq db" "db_fundings db' = db_fundings db"
  shows "part_settled fe n db' = part_settled fe n db"
  using books_ok_cong[OF assms(1-5)] ledger_ok_cong(3)[OF assms(1-3)] assms by (simp add: part_settled_def)

lemma settle_replacement_spec:
  assumes "settle_replacement_wallet fe db r s row refunded now = Inr db1" "fundings_ok fe db" "inj (we_hash (fe_wallet fe))"
    "0 \<le> refunded" "refunded \<le> max64" "order_key fe ''change-refund:'' row \<notin> en_key ` set (db_entries db)"
  obtains f where "find_order_funding fe db r = Inr (Some f)" "fu_state f = ''reserved''" "part_settled fe (or_id r) db1" "refunded = cs_residual s"
    "fu_entitlement f = cs_applied s" "db_fundings db1 = db_fundings db"
    "\<And>u c. balance_of db1 u c = balance_of db u c + (if u = or_user r \<and> c = or_currency r then refunded else 0)"
    "\<And>u c. reserved_of db1 u c = reserved_of db u c + (if u = or_user r \<and> c = or_currency r then cs_applied s else 0)"
proof -
  let ?row = "\<lparr>vs_key = order_key fe ''full-change-order:'' (or_id r), vs_user = or_user r, vs_kind = ''change'', vs_applied = cs_applied s, vs_currency = or_currency r\<rparr>"
  define dbs where "dbs = db\<lparr>db_settlements := db_settlements db @ [?row]\<rparr>"
  obtain f dba where F: "find_order_funding fe db r = Inr (Some f)" and st: "fu_state f = ''reserved''" "fu_entitlement f = cs_applied s" "refunded = cs_residual s"
    and refund: "(if refunded > 0 then try_bind (append_wallet_entry (we_unicode (fe_wallet fe)) dbs \<lparr>src_user = or_user r, src_currency = or_currency r, src_order = None\<rparr>
          (order_key fe ''change-refund:'' row) ''subscription_change_refund'' refund_text refunded 0 now) (\<lambda>(_, db). Inr db) else Inr dbs) = Inr dba"
    and hold: "(if cs_applied s > 0 then try_bind (append_wallet_change (we_unicode (fe_wallet fe)) dba r (order_key fe ''reserve-entitlement-order:'' (or_id r)) ''reserve''
          applied_text 0 (cs_applied s) now) (\<lambda>(_, db). Inr db) else Inr dba) = Inr db1"
    using assms(1) unfolding settle_replacement_wallet_def replacement_funding_def dbs_def by (auto simp: Let_def split: option.splits if_splits)
  note ff = funding_found[OF F]
  have fok: "funding_ok f" using assms(2) ff(1) by (simp add: fundings_ok_def)
  have nc: "\<not> in_state (db_fundings db) (or_id r) ''captured''"
    using reserved_not_final[OF assms(2) ff(1) st(1), of "''captured''"] ff(2) by simp
  have apc: "\<forall>i. order_key fe ''change-refund:'' n \<noteq> reversal_key (fe_wallet fe) i"
    "\<forall>k. order_key fe ''change-refund:'' n \<noteq> debit_entry_key (fe_wallet fe) k" for n
    by (rule apart_tags[OF assms(3)]; simp)+
  have apr: "\<forall>i. order_key fe ''reserve-entitlement-order:'' n \<noteq> reversal_key (fe_wallet fe) i"
    "\<forall>k. order_key fe ''reserve-entitlement-order:'' n \<noteq> debit_entry_key (fe_wallet fe) k" for n
    by (rule apart_tags[OF assms(3)]; simp)+
  have B: "books_ok (fe_wallet fe) dbs" using assms(2) books_ok_cong[of dbs db] by (simp add: dbs_def fundings_ok_def)
  have amt: "in64 refunded" "in64 0" "in64 (cs_applied s)" "\<not> 0 < refunded \<Longrightarrow> refunded = 0 \<and> 0 = (0 :: int)" "\<not> 0 < cs_applied s \<Longrightarrow> 0 = (0 :: int) \<and> cs_applied s = 0"
    using assms(4,5) fok st(2) by (auto simp: int64_simps funding_ok_def)
  have absent1: "order_key fe ''change-refund:'' row \<notin> en_key ` set (db_entries dbs)" using assms(6) by (simp add: dbs_def)
  obtain es1 where e1: "db_entries dba = db_entries dbs @ es1" "\<forall>e \<in> set es1. en_key e = order_key fe ''change-refund:'' row" "books_ok (fe_wallet fe) dba"
    "db_fundings dba = db_fundings dbs" "\<And>u c. balance_of dba u c = balance_of dbs u c + (if u = or_user r \<and> c = or_currency r then refunded else 0)"
    "\<And>u c. reserved_of dba u c = reserved_of dbs u c + (if u = or_user r \<and> c = or_currency r then 0 else 0)"
    by (rule optional_entry[OF refund _ B amt(1,2) absent1 apc amt(4)]; (assumption | rule that))
  have absent2: "order_key fe ''reserve-entitlement-order:'' (or_id r) \<notin> en_key ` set (db_entries dba)"
    using key_absent(4)[OF assms(2) nc] e1(1,2) order_key_eq[OF assms(3)] by (auto simp: dbs_def)
  obtain es2 where e2: "db_entries db1 = db_entries dba @ es2" "\<forall>e \<in> set es2. en_key e = order_key fe ''reserve-entitlement-order:'' (or_id r)"
    "books_ok (fe_wallet fe) db1" "db_fundings db1 = db_fundings dba"
    "\<And>u c. balance_of db1 u c = balance_of dba u c + (if u = or_user r \<and> c = or_currency r then 0 else 0)"
    "\<And>u c. reserved_of db1 u c = reserved_of dba u c + (if u = or_user r \<and> c = or_currency r then cs_applied s else 0)"
    by (rule optional_entry[OF hold change_is_entry e1(3) amt(2,3) absent2 apr amt(5)]; (assumption | rule that))
  have dbs: "balance_of dbs u c = balance_of db u c" "reserved_of dbs u c = reserved_of db u c" "db_entries dbs = db_entries db" "db_fundings dbs = db_fundings db" for u c
    by (simp_all add: dbs_def balance_of_def reserved_of_def)
  have fs1: "db_fundings db1 = db_fundings db" using e1(4) e2(4) dbs(4) by simp
  have R: "reserved_of db1 u c = reserved_of db u c + (if u = or_user r \<and> c = or_currency r then cs_applied s else 0)"
    and Bal: "balance_of db1 u c = balance_of db u c + (if u = or_user r \<and> c = or_currency r then refunded else 0)" for u c
    using e1(5,6) e2(5,6) dbs(1,2) by simp_all
  have "part_settled fe (or_id r) db1"
    unfolding part_settled_def
  proof (intro conjI)
    show "\<exists>f \<in> set (db_fundings db1). fu_order f = or_id r \<and> fu_state f = ''reserved''
        \<and> (\<forall>u c. reserved_of db1 u c = held_total (db_fundings db1) u c + (if u = fu_user f \<and> c = fu_currency f then fu_entitlement f else 0))"
      unfolding fs1 using R assms(2) ff st by (intro bexI[of _ f]) (simp_all add: fundings_ok_def)
    show "\<forall>e \<in> set (db_entries db1). entry_fits fe (db_fundings db1) (en_key e) \<or> en_key e = order_key fe ''reserve-entitlement-order:'' (or_id r)"
      unfolding fs1 e2(1) e1(1) dbs(3) using assms(2) e1(2) e2(2) entry_fits_new(5)[OF assms(3)] by (auto simp: fundings_ok_def)
  qed (use assms(2) e2(3) fs1 in \<open>simp_all add: fundings_ok_def\<close>)
  then show ?thesis by (rule that[OF F st(1) _ st(3,2) fs1 Bal R])
qed

lemma part_settled_release:
  assumes "release_order_funding fe db r reason now = Inr db'" "part_settled fe n db" "or_id r \<noteq> n" "inj (we_hash (fe_wallet fe))"
  shows "part_settled fe n db'" "settles (db_fundings db) (db_fundings db')"
proof (atomize (full))
  obtain f0 where ok: "books_ok (fe_wallet fe) db" "distinct (map fu_order (db_fundings db))" "\<forall>f \<in> set (db_fundings db). funding_ok f"
    and f0: "f0 \<in> set (db_fundings db)" "fu_order f0 = n" "fu_state f0 = ''reserved''"
      "\<And>u c. reserved_of db u c = held_total (db_fundings db) u c + (if u = fu_user f0 \<and> c = fu_currency f0 then fu_entitlement f0 else 0)"
    and fits: "\<And>e. e \<in> set (db_entries db) \<Longrightarrow> entry_fits fe (db_fundings db) (en_key e) \<or> en_key e = order_key fe ''reserve-entitlement-order:'' n"
    using assms(2) by (auto simp: part_settled_def)
  have absent: "order_key fe ''release-order:'' (or_id r) \<notin> en_key ` set (db_entries db)"
    if "f \<in> set (db_fundings db)" "fu_order f = or_id r" "fu_state f = ''reserved''" for f
  proof
    assume "order_key fe ''release-order:'' (or_id r) \<in> en_key ` set (db_entries db)"
    then obtain e where "e \<in> set (db_entries db)" "en_key e = order_key fe ''release-order:'' (or_id r)" by auto
    with fits[of e] order_key_eq[OF assms(4)] have "in_state (db_fundings db) (or_id r) ''released''" by (auto simp: entry_fits_def)
    with one_state[OF ok(2) that(1,3), of "''released''"] that(2) show False by simp
  qed
  show "part_settled fe n db' \<and> settles (db_fundings db) (db_fundings db')"
  proof (rule release_core[OF assms(1,4) ok])
    fix f es assume f: "f \<in> set (db_fundings db)" "fu_order f = or_id r" "fu_state f = ''reserved''"
      and c: "books_ok (fe_wallet fe) db'" "db_entries db' = db_entries db @ es" "\<forall>e \<in> set es. en_key e = order_key fe ''release-order:'' (or_id r)"
        "db_fundings db' = map (\<lambda>g. if fu_order g = or_id r then f\<lparr>fu_state := ''released'', fu_released := Some now, fu_release_reason := reason\<rparr> else g) (db_fundings db)"
        "settles (db_fundings db) (db_fundings db')" "in_state (db_fundings db') (or_id r) ''released''"
        "distinct (map fu_order (db_fundings db'))" "\<forall>f \<in> set (db_fundings db'). funding_ok f"
      and v: "\<And>u c. reserved_of db' u c = reserved_of db u c - (if u = or_user r \<and> c = or_currency r then fu_wallet f - fu_entitlement f else 0)"
        "\<And>u c. held_total (db_fundings db') u c = held_total (db_fundings db) u c - (if u = or_user r \<and> c = or_currency r then fu_wallet f - fu_entitlement f else 0)"
    have "f0 \<in> set (db_fundings db')" unfolding c(4) using f0(1,2) assms(3) by (auto intro: image_eqI[of _ _ f0])
    moreover have "entry_fits fe (db_fundings db') (en_key e) \<or> en_key e = order_key fe ''reserve-entitlement-order:'' n" if "e \<in> set (db_entries db')" for e
      using that fits[of e] c(2,3) entry_fits_settles[OF c(5)] entry_fits_new(2)[OF assms(4) c(6)] by auto
    ultimately have "part_settled fe n db'" unfolding part_settled_def using c(1,7,8) f0(2-4) v by auto
    with c(5) show ?thesis by simp
  qed (use absent assms(2) in simp_all)
qed

text \<open>While a replacement is pending, orders of the old subscription are closed and their fundings released.\<close>

inductive superseded :: "funding_env \<Rightarrow> nat \<Rightarrow> shop_db \<Rightarrow> shop_db \<Rightarrow> bool" for fe n where
  superseded_none: "superseded fe n db db"
| superseded_release: "superseded fe n db db1 \<Longrightarrow> or_id r \<noteq> n \<Longrightarrow> release_order_funding fe db1 r reason now = Inr db2 \<Longrightarrow> superseded fe n db db2"
| superseded_rows: "superseded fe n db db1 \<Longrightarrow> superseded fe n db (db1\<lparr>db_orders := os, db_audit := as\<rparr>)"

lemma superseded_keeps:
  assumes "superseded fe n db db'" "part_settled fe n db" "inj (we_hash (fe_wallet fe))"
  shows "part_settled fe n db' \<and> settles (db_fundings db) (db_fundings db')"
  using assms(1,2)
proof (induction rule: superseded.induct)
  case (superseded_release db db1 r reason now db2)
  then have k: "part_settled fe n db1" "settles (db_fundings db) (db_fundings db1)" by blast+
  note r = part_settled_release[OF superseded_release(3) k(1) superseded_release(2) assms(3)]
  show ?case using r(1) settles_trans[OF k(2) r(2)] by blast
next
  case (superseded_rows db db1 as os)
  moreover have "part_settled fe n (db1\<lparr>db_orders := os, db_audit := as\<rparr>) = part_settled fe n db1" by (rule part_settled_cong) simp_all
  ultimately show ?case by simp
qed simp

lemma capture_replacement:
  assumes "capture_order_funding fe db r now = Inr db'" "part_settled fe (or_id r) db" "inj (we_hash (fe_wallet fe))"
  obtains f where "f \<in> set (db_fundings db)" "fu_order f = or_id r" "fu_state f = ''reserved''" "fundings_ok fe db'"
    "settles (db_fundings db) (db_fundings db')" "in_state (db_fundings db') (or_id r) ''captured''"
    "\<And>u c. balance_of db' u c = balance_of db u c - (if u = or_user r \<and> c = or_currency r then fu_wallet f else 0)"
    "\<And>u c. reserved_of db' u c = reserved_of db u c - (if u = or_user r \<and> c = or_currency r then fu_wallet f else 0)"
proof -
  obtain f0 where ok: "books_ok (fe_wallet fe) db" "distinct (map fu_order (db_fundings db))" "\<forall>f \<in> set (db_fundings db). funding_ok f"
    and f0: "f0 \<in> set (db_fundings db)" "fu_order f0 = or_id r" "fu_state f0 = ''reserved''"
      "\<And>u c. reserved_of db u c = held_total (db_fundings db) u c + (if u = fu_user f0 \<and> c = fu_currency f0 then fu_entitlement f0 else 0)"
    and fits: "\<And>e. e \<in> set (db_entries db) \<Longrightarrow> entry_fits fe (db_fundings db) (en_key e) \<or> en_key e = order_key fe ''reserve-entitlement-order:'' (or_id r)"
    using assms(2) by (auto simp: part_settled_def)
  obtain found where found: "find_order_funding fe db r = Inr found" using assms(1) by (auto simp: capture_order_funding_def)
  have "found \<noteq> None" using funding_not_found[of fe db r] found f0(1,2) by (metis imageI)
  then obtain f where F: "find_order_funding fe db r = Inr (Some f)" using found by auto
  note ff = funding_found[OF F]
  have same: "f = f0" by (rule distinct_map_eq[OF ok(2) ff(1) f0(1)]) (simp add: ff(2) f0(2))
  have fok: "funding_ok f" using ok(3) ff(1) by simp
  have absent: "order_key fe ''capture-order:'' (or_id r) \<notin> en_key ` set (db_entries db)"
  proof
    assume "order_key fe ''capture-order:'' (or_id r) \<in> en_key ` set (db_entries db)"
    then obtain e where "e \<in> set (db_entries db)" "en_key e = order_key fe ''capture-order:'' (or_id r)" by auto
    with fits[of e] order_key_eq[OF assms(3)] have "in_state (db_fundings db) (or_id r) ''captured''" by (auto simp: entry_fits_def)
    with one_state[OF ok(2) f0(1,3), of "''captured''"] f0(2) show False by simp
  qed
  let ?g = "f\<lparr>fu_state := ''captured'', fu_captured := Some now\<rparr>"
  obtain es where c: "db_entries db' = db_entries db @ es" "\<forall>e \<in> set es. en_key e = order_key fe ''capture-order:'' (or_id r)" "books_ok (fe_wallet fe) db'"
    "db_fundings db' = map (\<lambda>g. if fu_order g = fu_order f then ?g else g) (db_fundings db)"
    "\<And>u c. balance_of db' u c = balance_of db u c + (if u = or_user r \<and> c = or_currency r then - fu_wallet f else 0)"
    "\<And>u c. reserved_of db' u c = reserved_of db u c + (if u = or_user r \<and> c = or_currency r then - fu_wallet f else 0)"
    by (rule capture_core[OF assms(1) F ok(1) fok assms(3) absent]; (rule that; assumption))
  note st = settles_update[OF ff(1) ok(2) f0(3)[folded same], of ?g, simplified]
  have st': "settles (db_fundings db) (db_fundings db')" "in_state (db_fundings db') (or_id r) ''captured''" using st c(4) ff(2) by simp_all
  have held: "held_total (db_fundings db') u d = held_total (db_fundings db) u d - (if u = or_user r \<and> d = or_currency r then fu_wallet f - fu_entitlement f else 0)" for u d
    unfolding c(4) using held_total_update[OF ok(2) ff(1), of ?g u d] f0(3) same ff(3,4) by (auto simp: held_def)
  have "fundings_ok fe db'"
    unfolding fundings_ok_def
  proof (intro conjI)
    show "distinct (map fu_order (db_fundings db'))" using ok(2) c(4) by (simp add: comp_def if_distrib cong: if_cong)
    show "\<forall>f \<in> set (db_fundings db'). funding_ok f" using ok(3) fok unfolding c(4) by (auto simp: funding_ok_def)
    show "\<forall>u d. reserved_of db' u d = held_total (db_fundings db') u d" using held c(6) f0(4) same ff(3,4) by simp
    show "\<forall>e \<in> set (db_entries db'). entry_fits fe (db_fundings db') (en_key e)"
    proof
      fix e assume "e \<in> set (db_entries db')"
      then consider "entry_fits fe (db_fundings db) (en_key e)" | "en_key e = order_key fe ''reserve-entitlement-order:'' (or_id r)"
        | "en_key e = order_key fe ''capture-order:'' (or_id r)" using c(1,2) fits[of e] by auto
      then show "entry_fits fe (db_fundings db') (en_key e)"
        by cases (simp_all add: entry_fits_settles[OF st'(1)] entry_fits_new(3,4)[OF assms(3) st'(2)])
    qed
  qed (rule c(3))
  then show ?thesis by (rule that[OF ff(1,2) f0(3)[folded same] _ st']) (simp_all add: c(5,6))
qed

lemma find_order_funding_cong:
  "db_fundings db' = db_fundings db \<Longrightarrow> find_order_funding fe db' r = find_order_funding fe db r"
  by (simp add: find_order_funding_def)

section \<open>Histories\<close>

text \<open>
  The wallet part of a running shop: the operations of the ledger, fundings configured, released (an order
  canceled, failed, expired or superseded), captured by a payment, or captured by a full replacement that
  first settles the old subscription. A replacement records its refund under a new settlement.
\<close>

inductive shop_step :: "funding_env \<Rightarrow> shop_db \<Rightarrow> shop_db \<Rightarrow> bool" for fe where
  wallet: "book_step (fe_wallet fe) db db' \<Longrightarrow> shop_step fe db db'"
| configure: "configure_order_funding fe db r use now = Inr db' \<Longrightarrow> or_payable r \<le> max64 \<Longrightarrow> shop_step fe db db'"
| release: "release_order_funding fe db r reason now = Inr db' \<Longrightarrow> shop_step fe db db'"
| capture: "capture_order_funding fe db r now = Inr db' \<Longrightarrow> shop_step fe db db'"
| replacement: "settle_replacement_wallet fe db r s row refunded now = Inr db1 \<Longrightarrow> superseded fe (or_id r) db1 db2 \<Longrightarrow>
    capture_order_funding fe db2 r later = Inr db' \<Longrightarrow> 0 \<le> refunded \<Longrightarrow> refunded \<le> max64 \<Longrightarrow> order_key fe ''change-refund:'' row \<notin> en_key ` set (db_entries db) \<Longrightarrow> shop_step fe db db'"
| expire: "expire_funding fe db now i = Inr (changed, db') \<Longrightarrow> shop_step fe db db'"
| cancel: "cancel_order fe db now actor i admin force = Inr (r, db') \<Longrightarrow> shop_step fe db db'"

inductive_cases shop_stepE: "shop_step fe db db'"

lemma fundings_ok_cong:
  assumes "db_entries db' = db_entries db" "db_entry_seq db' = db_entry_seq db" "db_accounts db' = db_accounts db"
    "db_adjustments db' = db_adjustments db" "db_adjustment_seq db' = db_adjustment_seq db" "db_fundings db' = db_fundings db"
  shows "fundings_ok fe db' = fundings_ok fe db"
  using books_ok_cong[OF assms(1-5)] ledger_ok_cong(3)[OF assms(1-3)] assms by (simp add: fundings_ok_def)

lemma set_order_tables [simp]:
  "db_entries (set_order db r) = db_entries db" "db_entry_seq (set_order db r) = db_entry_seq db"
  "db_accounts (set_order db r) = db_accounts db" "db_adjustments (set_order db r) = db_adjustments db"
  "db_adjustment_seq (set_order db r) = db_adjustment_seq db" "db_fundings (set_order db r) = db_fundings db"
  by (simp_all add: set_order_def)

lemma expire_funding_spec:
  assumes "expire_funding fe db now i = Inr (changed, db')"
  obtains "db' = db" "\<not> changed"
  | r db1 where "changed" "db_orders db i = Some r" "release_order_funding fe db r ''expired'' now = Inr db1"
      "db' = audit None ''commerce.funding.expire'' (''order:'' @ show_nat i) (set_order db1 (r\<lparr>or_status := ''canceled'', or_canceled_at := Some now, or_updated := now\<rparr>))"
  using assms unfolding expire_funding_def by (auto split: option.splits if_splits)

lemma cancel_order_spec:
  assumes "cancel_order fe db now actor i admin force = Inr (r', db')"
  obtains (again) r where "db_orders db i = Some r" "r' = r" "or_status r = ''canceled''" "release_order_funding fe db r ''canceled'' now = Inr db'"
  | (now_canceled) r db1 where "db_orders db i = Some r" "order_transition_allowed (or_status r) ''canceled'' force"
      "r' = r\<lparr>or_status := ''canceled'', or_updated := now, or_canceled_at := Some now\<rparr>" "release_order_funding fe db r ''canceled'' now = Inr db1"
      "db' = audit (Some actor) ''order.cancel'' (''order:'' @ show_nat i) (set_order db1 r')"
  using assms unfolding cancel_order_def by (auto simp: Let_def split: option.splits if_splits)

lemma release_keeps:
  assumes "release_order_funding fe db r reason now = Inr db'" "fundings_ok fe db" "inj (we_hash (fe_wallet fe))"
  shows "fundings_ok fe db'" "settles (db_fundings db) (db_fundings db')"
  by (rule release_order_funding_spec[OF assms]; use assms(2) in simp)+

lemma shop_step_keeps:
  assumes "shop_step fe db db'" "fundings_ok fe db" "inj (we_hash (fe_wallet fe))"
  shows "fundings_ok fe db' \<and> settles (db_fundings db) (db_fundings db')"
  using assms(1)
proof cases
  case wallet
  have B: "books_ok (fe_wallet fe) db" using assms(2) by (simp add: fundings_ok_def)
  obtain run where run: "wallet_writer (fe_wallet fe) run" "run db = Inr ((), db')" by (rule book_step_writer[OF wallet])
  note spare = wallet_writer.spares[OF run B assms(3)]
  obtain es where es: "db_entries db' = db_entries db @ es" using wallet_writer.extends[OF run B assms(3)] by blast
  have fits: "entry_fits fe (db_fundings db) (en_key e)" if "e \<in> set (db_entries db')" for e
  proof (cases "e \<in> set (db_entries db)")
    case True
    with assms(2) show ?thesis by (simp add: fundings_ok_def)
  next
    case False
    with that spare show ?thesis unfolding foreign_keys_def using entry_fits_foreign[OF assms(3)] by (metis DiffI)
  qed
  have "fundings_ok fe db'"
    using assms(2) spare fits wallet_writer.keeps[OF run B assms(3)] by (simp add: fundings_ok_def)
  with spare show ?thesis by simp
next
  case (configure r use now)
  show ?thesis
    by (rule configure_order_funding_spec[OF configure(1) assms(2,3) configure(2)]) (use assms(2) in simp_all)
next
  case (release r reason now)
  with release_keeps[OF release assms(2,3)] show ?thesis by simp
next
  case (capture r now)
  show ?thesis by (rule capture_order_funding_spec[OF capture assms(2,3)]) (use assms(2) in simp_all)
next
  case (replacement r s row refunded now db1 db2 later)
  have p: "part_settled fe (or_id r) db1" "db_fundings db1 = db_fundings db"
    by (rule settle_replacement_spec[OF replacement(1) assms(2,3) replacement(4-6)]; simp)+
  note k = superseded_keeps[OF replacement(2) p(1) assms(3)]
  show ?thesis by (rule capture_replacement[OF replacement(3) conjunct1[OF k] assms(3)]) (use k p(2) in \<open>auto intro: settles_trans\<close>)
next
  case (expire now i changed)
  then show ?thesis
  proof (cases rule: expire_funding_spec)
    case (2 r db1)
    note k = release_keeps[OF 2(3) assms(2,3)]
    have "fundings_ok fe db' = fundings_ok fe db1" by (rule fundings_ok_cong) (simp_all add: 2(4))
    with k 2(4) show ?thesis by simp
  qed (use assms(2) in simp)
next
  case (cancel now actor i admin force r)
  then show ?thesis
  proof (cases rule: cancel_order_spec)
    case (again x)
    with release_keeps[OF again(4) assms(2,3)] show ?thesis by simp
  next
    case (now_canceled x db1)
    note k = release_keeps[OF now_canceled(4) assms(2,3)]
    have "fundings_ok fe db' = fundings_ok fe db1" by (rule fundings_ok_cong) (simp_all add: now_canceled(5))
    with k now_canceled(5) show ?thesis by simp
  qed
qed

lemma shop_history:
  assumes "(shop_step fe)\<^sup>*\<^sup>* db db'" "fundings_ok fe db" "inj (we_hash (fe_wallet fe))"
  shows "fundings_ok fe db' \<and> settles (db_fundings db) (db_fundings db')"
  using assms(1)
proof (induction rule: rtranclp_induct)
  case (step y z)
  with shop_step_keeps[OF step(2) _ assms(3)] show ?case by (blast intro: settles_trans)
qed (simp add: assms(2))

lemma fundings_empty: "fundings_ok fe empty_db"
  using books_empty by (simp add: fundings_ok_def empty_db_def held_total_def reserved_of_def)

definition orders_ok :: "shop_db \<Rightarrow> bool" where
  "orders_ok db \<longleftrightarrow> (\<forall>i r. db_orders db i = Some r \<longrightarrow> or_id r = i)"

definition due :: "gotime \<Rightarrow> order_funding \<Rightarrow> bool" where
  "due now f \<longleftrightarrow> fu_state f = ''reserved'' \<and> fu_expires f \<le> now"

lemma append_orders: "append_wallet_entry uc db src key kind text bd rd now = Inr (i, db') \<Longrightarrow> db_orders db' = db_orders db"
  by (auto simp: append_wallet_entry_def lock_wallet_account_def Let_def split: if_splits option.splits)

lemma release_orders:
  assumes "release_order_funding fe db r reason now = Inr db'"
  shows "db_orders db' = db_orders db"
  using assms
proof (cases rule: release_order_funding_cases)
  case (2 f db1)
  then have "db_orders db1 = db_orders db" by (auto dest!: change_is_entry append_orders split: if_splits)
  with 2 show ?thesis by simp
qed simp

lemma find_by_order:
  assumes "f \<in> set fs" "distinct (map fu_order fs)"
  shows "List.find (\<lambda>g. fu_order g = fu_order f) fs = Some f"
  using assms by (induction fs) auto

lemma expire_funding_step:
  assumes "expire_funding fe db now i = Inr (changed, db')" "fundings_ok fe db" "inj (we_hash (fe_wallet fe))" "orders_ok db"
  shows "fundings_ok fe db'" "orders_ok db'" "f \<in> set (db_fundings db') \<Longrightarrow> due now f \<Longrightarrow> f \<in> set (db_fundings db) \<and> fu_order f \<noteq> i"
    "balance_of db' u c = balance_of db u c"
proof -
  obtain r where r: "db_orders db i = Some r" using assms(1) by (auto simp: expire_funding_def split: option.splits)
  then have i: "or_id r = i" using assms(4) by (simp add: orders_ok_def)
  have dist: "distinct (map fu_order (db_fundings db))" using assms(2) by (simp add: fundings_ok_def)
  show "fundings_ok fe db'" using shop_step_keeps[OF shop_step.expire[OF assms(1)] assms(2,3)] by simp
  show "orders_ok db'" "f \<in> set (db_fundings db') \<Longrightarrow> due now f \<Longrightarrow> f \<in> set (db_fundings db) \<and> fu_order f \<noteq> i"
    "balance_of db' u c = balance_of db u c"
    using assms(1)
  proof (atomize (full), cases rule: expire_funding_spec)
    case 1
    have "fu_order f \<noteq> i" if "f \<in> set (db_fundings db)" "due now f"
    proof
      assume "fu_order f = i"
      with find_by_order[OF that(1) dist] i have l: "List.find (\<lambda>f. fu_order f = or_id r) (db_fundings db) = Some f" by simp
      obtain found where "find_order_funding fe db r = Inr found" using assms(1) r by (auto simp: expire_funding_def)
      with l have "find_order_funding fe db r = Inr (Some f)" by (auto simp: find_order_funding_def split: if_splits option.splits)
      with assms(1) r 1 that(2) show False by (auto simp: expire_funding_def due_def split: if_splits)
    qed
    with 1 assms(4) show "orders_ok db' \<and> (f \<in> set (db_fundings db') \<longrightarrow> due now f \<longrightarrow> f \<in> set (db_fundings db) \<and> fu_order f \<noteq> i)
        \<and> balance_of db' u c = balance_of db u c" by simp
  next
    case (2 x db1)
    with r have x: "x = r" by simp
    have ords: "orders_ok db'" using assms(4) release_orders[OF 2(3)] x i r unfolding 2(4) orders_ok_def by (auto simp: set_order_def)
    have fs: "db_fundings db' = db_fundings db1" "balance_of db' u c = balance_of db1 u c" using 2(4) by (simp_all add: balance_of_def)
    obtain found where found: "find_order_funding fe db r = Inr found" using assms(1) r by (auto simp: expire_funding_def)
    obtain f0 where f0: "find_order_funding fe db r = Inr (Some f0)" "fu_state f0 = ''reserved''"
      using assms(1) r found 2(1) by (auto simp: expire_funding_def split: option.splits if_splits)
    from 2(3)[unfolded x] assms(2,3) show "orders_ok db' \<and> (f \<in> set (db_fundings db') \<longrightarrow> due now f \<longrightarrow> f \<in> set (db_fundings db) \<and> fu_order f \<noteq> i)
        \<and> balance_of db' u c = balance_of db u c"
    proof (cases rule: release_order_funding_spec)
      case idle
      with f0 show ?thesis by simp
    next
      case (freed g)
      with ords fs i show ?thesis by (auto simp: due_def)
    qed
  qed
qed

lemma expire_fundings_clear:
  assumes "expire_fundings fe db now is n = (k, None, db')" "fundings_ok fe db" "inj (we_hash (fe_wallet fe))" "orders_ok db"
  shows "fundings_ok fe db' \<and> (\<forall>f \<in> set (db_fundings db'). due now f \<longrightarrow> f \<in> set (db_fundings db) \<and> fu_order f \<notin> set is)
    \<and> balance_of db' u c = balance_of db u c"
  using assms(1,2,4)
proof (induction "is" arbitrary: db n)
  case (Cons i "is")
  then obtain changed db1 where step: "expire_funding fe db now i = Inr (changed, db1)"
    and rest: "expire_fundings fe db1 now is (if changed then Suc n else n) = (k, None, db')"
    by (auto split: sum.splits)
  note s = expire_funding_step[OF step Cons.prems(2) assms(3) Cons.prems(3)]
  from Cons.IH[OF rest s(1,2)] s(3,4) show ?case by fastforce
qed simp

lemma due_fundings_all:
  assumes "length (filter (due now) (db_fundings db)) \<le> lim" "f \<in> set (db_fundings db)" "due now f"
  shows "fu_order f \<in> set (due_fundings db now lim)"
  using assms unfolding due_fundings_def due_def by simp

section \<open>A concrete order\<close>

definition sample_funding_env :: funding_env where
  "sample_funding_env = \<lparr>fe_wallet = sample_env, fe_decode = (\<lambda>_. None), fe_require = (\<lambda>_ _. Inr ()), fe_release = (\<lambda>_ _. Inr ())\<rparr>"

definition sample_order :: order where
  "sample_order = \<lparr>or_value_snapshot = [], or_purchase_snapshot = [], or_creation_key = None, or_creation_fingerprint = [], or_sub_ended = None,
     or_sub_end_reason = [], or_sub_final_total = 0, or_sub_final_used = 0, or_change = [], or_assigned_by = 0, or_assignment_note = [],
     or_assignment_fingerprint = [], or_id = 7, or_user = 2, or_subscription = 0, or_plan = 3, or_sku = 4, or_trade_no = ''Z7'', or_type = ''new'',
     or_target = None, or_amount = 300, or_payable = 300, or_paid = 0, or_refund = 0, or_discount = 0, or_currency = ''USD'', or_channel = [],
     or_provider_trade_no = None, or_status = ''pending'', or_plan_name = ''P'', or_sku_name = ''S'', or_unit = ''month'', or_value = 1,
     or_effect = [], or_traffic = 0, or_device = 0, or_speed = 0, or_raw_callback = [], or_paid_at = None, or_canceled_at = None,
     or_fulfilled_at = None, or_refunded_at = None, or_failure = [], or_created = 10, or_updated = 10\<rparr>"

definition sample_market :: shop_db where
  "sample_market = empty_db\<lparr>
     db_users := (\<lambda>u. if u = 1 then Some \<lparr>ur_status = ''active'', ur_admin = True, ur_deleted = False\<rparr>
       else if u = 2 then Some \<lparr>ur_status = ''active'', ur_admin = False, ur_deleted = False\<rparr> else None),
     db_tickets := (\<lambda>_. None), db_orders := (\<lambda>i. if i = 7 then Some sample_order else None),
     db_attempts := [], db_events := [], db_settlements := []\<rparr>"

lemma sample_funding_inj: "inj (we_hash (fe_wallet sample_funding_env))"
  using sample_inj by (simp add: sample_funding_env_def)

lemma sample_funding_history:
  obtains v db0 db1 db2 db3 db4 n where
    "credit_wallet sample_env 100 1 sample_credit sample_market = Inr (v, db0)" "balance_of db0 2 ''USD'' = 500" "reserved_of db0 2 ''USD'' = 0"
    "db_fundings db0 = []"
    "configure_order_funding sample_funding_env db0 sample_order True 200 = Inr db1" "reserved_of db1 2 ''USD'' = 300"
    "db_fundings db1 = [new_funding sample_order True 0 300 200]"
    "capture_order_funding sample_funding_env db1 sample_order 300 = Inr db2" "balance_of db2 2 ''USD'' = 200"
    "db_fundings db2 = [(new_funding sample_order True 0 300 200)\<lparr>fu_state := ''captured'', fu_captured := Some 300\<rparr>]"
    "release_order_funding sample_funding_env db1 sample_order ''failed'' 300 = Inr db3" "reserved_of db3 2 ''USD'' = 0"
    "store_expire sample_funding_env db1 (200 + order_funding_lifetime) 50 = (n, None, db4)" "n = 1"
    "map fu_state (db_fundings db4) = [''released'']" "find_order_funding sample_funding_env db0 sample_order = Inr None"
proof -
  have "(case credit_wallet sample_env 100 1 sample_credit sample_market of Inl _ \<Rightarrow> False | Inr x \<Rightarrow> (let db0 = snd x in
      balance_of db0 2 ''USD'' = 500 \<and> reserved_of db0 2 ''USD'' = 0 \<and> db_fundings db0 = [] \<and>
      (case configure_order_funding sample_funding_env db0 sample_order True 200 of Inl _ \<Rightarrow> False | Inr db1 \<Rightarrow>
        reserved_of db1 2 ''USD'' = 300 \<and> db_fundings db1 = [new_funding sample_order True 0 300 200] \<and>
        (case capture_order_funding sample_funding_env db1 sample_order 300 of Inl _ \<Rightarrow> False | Inr db2 \<Rightarrow> balance_of db2 2 ''USD'' = 200 \<and>
           db_fundings db2 = [(new_funding sample_order True 0 300 200)\<lparr>fu_state := ''captured'', fu_captured := Some 300\<rparr>]) \<and>
        (case release_order_funding sample_funding_env db1 sample_order ''failed'' 300 of Inl _ \<Rightarrow> False | Inr db3 \<Rightarrow> reserved_of db3 2 ''USD'' = 0) \<and>
        (case store_expire sample_funding_env db1 (200 + order_funding_lifetime) 50 of (n, e, db4) \<Rightarrow>
           n = 1 \<and> e = None \<and> map fu_state (db_fundings db4) = [''released'']))))"
    by code_simp
  moreover have "find_order_funding sample_funding_env db sample_order = Inr None" if "db_fundings db = []" for db
    using that by (simp add: find_order_funding_def)
  ultimately show ?thesis unfolding case_result_holds Let_def by (auto intro: that)
qed

lemma sample_funding_ok: "(shop_step sample_funding_env)\<^sup>*\<^sup>* empty_db sample_market" "fundings_ok sample_funding_env sample_market"
proof -
  have "book_step (fe_wallet sample_funding_env) empty_db sample_market" unfolding sample_market_def by (rule book_step.elsewhere)
  then have s: "shop_step sample_funding_env empty_db sample_market" by (rule shop_step.wallet)
  then show "(shop_step sample_funding_env)\<^sup>*\<^sup>* empty_db sample_market" by (rule r_into_rtranclp[of "shop_step sample_funding_env"])
  show "fundings_ok sample_funding_env sample_market" using shop_step_keeps[OF s fundings_empty sample_funding_inj] by simp
qed

lemma sample_credit_step:
  assumes "credit_wallet sample_env 100 1 sample_credit sample_market = Inr (v, db)"
  shows "shop_step sample_funding_env sample_market db" "fundings_ok sample_funding_env db"
proof -
  have "book_step (fe_wallet sample_funding_env) sample_market db" using book_step.credit[OF assms] by (simp add: sample_funding_env_def)
  then show s: "shop_step sample_funding_env sample_market db" by (rule shop_step.wallet)
  show "fundings_ok sample_funding_env db" using shop_step_keeps[OF s sample_funding_ok(2) sample_funding_inj] by simp
qed

lemma sample_configure_step:
  assumes "configure_order_funding sample_funding_env db sample_order use now = Inr db'"
  shows "shop_step sample_funding_env db db'"
  by (rule shop_step.configure[OF assms]) (simp add: sample_order_def max64_def)

section \<open>Properties\<close>

text \<open>
  C18. Every reserve is held by an order: in every history of wallet operations, funding choices, payments,
  releases, replacements, expiries and cancellations that starts from an empty shop, the reserve of each account
  is exactly what its open order fundings hold, it is covered by the balance, and every funding splits the
  payable amount into wallet and cash without a rest.
\<close>
theorem funding_reserves_exact:
  assumes "(shop_step fe)\<^sup>*\<^sup>* empty_db db" "inj (we_hash (fe_wallet fe))"
  shows "reserved_of db u c = held_total (db_fundings db) u c \<and> 0 \<le> reserved_of db u c \<and> reserved_of db u c \<le> balance_of db u c
    \<and> distinct (map fu_order (db_fundings db))
    \<and> (\<forall>f \<in> set (db_fundings db). fu_wallet f + fu_cash f = fu_amount f \<and> 0 \<le> fu_cash f \<and> 0 \<le> fu_entitlement f \<and> fu_entitlement f \<le> fu_wallet f)"
proof -
  have F: "fundings_ok fe db" using shop_history[OF assms(1) fundings_empty assms(2)] by simp
  then have "ledger_ok db" by (simp add: fundings_ok_def books_ok_def)
  from ledger_bounds[OF this, of u c] F show ?thesis by (auto simp: fundings_ok_def funding_ok_def)
qed

theorem funding_reserves_exact_witness:
  "\<exists>db. (shop_step sample_funding_env)\<^sup>*\<^sup>* empty_db db \<and> reserved_of db 2 ''USD'' = 300 \<and> held_total (db_fundings db) 2 ''USD'' = 300"
proof -
  obtain v db0 db1 where h: "credit_wallet sample_env 100 1 sample_credit sample_market = Inr (v, db0)"
    "configure_order_funding sample_funding_env db0 sample_order True 200 = Inr db1" "reserved_of db1 2 ''USD'' = 300"
    by (rule sample_funding_history)
  have "shop_step sample_funding_env db0 db1" by (rule sample_configure_step[OF h(2)])
  with sample_funding_ok(1) sample_credit_step(1)[OF h(1)] have "(shop_step sample_funding_env)\<^sup>*\<^sup>* empty_db db1"
    by (meson rtranclp.rtrancl_into_rtrancl)
  with funding_reserves_exact[OF this sample_funding_inj, of 2 "''USD''"] h(3) show ?thesis by (intro exI[of _ db1]) simp
qed

text \<open>
  A funding is settled once: as soon as it is released or captured it never changes again, whatever else
  happens in the shop, and its order never gets another one.
\<close>
theorem funding_settled_once:
  assumes "fundings_ok fe db" "inj (we_hash (fe_wallet fe))" "f \<in> set (db_fundings db)" "fu_state f \<noteq> ''reserved''"
    "(shop_step fe)\<^sup>*\<^sup>* db db'"
  shows "f \<in> set (db_fundings db') \<and> (\<forall>g \<in> set (db_fundings db'). fu_order g = fu_order f \<longrightarrow> g = f)"
proof -
  have F: "fundings_ok fe db'" "settles (db_fundings db) (db_fundings db')" using shop_history[OF assms(5,1,2)] by simp_all
  then have "f \<in> set (db_fundings db')" using assms(3,4) by (auto simp: settles_def)
  with F(1) show ?thesis by (auto simp: fundings_ok_def distinct_map dest: inj_onD)
qed

theorem funding_settled_once_witness:
  "\<exists>db f. fundings_ok sample_funding_env db \<and> f \<in> set (db_fundings db) \<and> fu_state f = ''captured''
    \<and> (\<forall>db'. (shop_step sample_funding_env)\<^sup>*\<^sup>* db db' \<longrightarrow> f \<in> set (db_fundings db'))"
proof -
  let ?f = "(new_funding sample_order True 0 300 200)\<lparr>fu_state := ''captured'', fu_captured := Some 300\<rparr>"
  obtain v db0 db1 db2 where h: "credit_wallet sample_env 100 1 sample_credit sample_market = Inr (v, db0)"
    "configure_order_funding sample_funding_env db0 sample_order True 200 = Inr db1"
    "capture_order_funding sample_funding_env db1 sample_order 300 = Inr db2" "db_fundings db2 = [?f]"
    by (rule sample_funding_history)
  have "shop_step sample_funding_env db0 db1" by (rule sample_configure_step[OF h(2)])
  then have "fundings_ok sample_funding_env db1" using shop_step_keeps sample_credit_step(2)[OF h(1)] sample_funding_inj by blast
  then have F: "fundings_ok sample_funding_env db2" using shop_step_keeps[OF shop_step.capture[OF h(3)]] sample_funding_inj by blast
  have f: "?f \<in> set (db_fundings db2)" "fu_state ?f \<noteq> ''reserved''" using h(4) by simp_all
  from funding_settled_once[OF F sample_funding_inj f] F f(1) show ?thesis by (intro exI[of _ db2] exI[of _ ?f]) simp
qed

lemma same_funding:
  assumes "fundings_ok fe db" "f \<in> set (db_fundings db)" "g \<in> set (db_fundings db)" "fu_order f = fu_order g"
  shows "f = g"
  using assms by (auto simp: fundings_ok_def distinct_map dest: inj_onD)

lemma capture_needs_reserve:
  assumes "capture_order_funding fe db r now = Inr db'" "fundings_ok fe db" "inj (we_hash (fe_wallet fe))"
    "f \<in> set (db_fundings db)" "fu_order f = or_id r"
  shows "find_order_funding fe db r = Inr (Some f)" "fu_state f = ''reserved''"
proof -
  have "find_order_funding fe db r = Inr (Some f) \<and> fu_state f = ''reserved''"
    using assms(1-3)
  proof (cases rule: capture_order_funding_spec)
    case idle
    with funding_not_found[OF idle(2)] assms(4,5) show ?thesis by (metis imageI)
  next
    case (paid g)
    with same_funding[OF assms(2,4), of g] assms(5) show ?thesis by simp
  qed
  then show "find_order_funding fe db r = Inr (Some f)" "fu_state f = ''reserved''" by simp_all
qed

text \<open>
  Choosing how to pay splits the amount: the value of a replaced subscription first, then, when asked, as
  much free balance as there is, the rest in cash. Only the balance share is reserved, for half an hour, the
  balance itself is not touched, and the choice cannot be changed afterwards.
\<close>
theorem configure_splits_payable:
  assumes "configure_order_funding fe db r use now = Inr db'" "fundings_ok fe db" "inj (we_hash (fe_wallet fe))" "or_payable r \<le> max64"
    "or_id r \<notin> fu_order ` set (db_fundings db)"
  shows "(\<exists>sn f. full_replacement_snapshot fe r = Inr sn \<and> db_fundings db' = db_fundings db @ [f] \<and> fu_order f = or_id r
      \<and> fu_state f = ''reserved'' \<and> fu_expires f = now + order_funding_lifetime
      \<and> fu_entitlement f = (case sn of None \<Rightarrow> 0 | Some s \<Rightarrow> cs_applied s)
      \<and> fu_wallet f = fu_entitlement f + (if use then min (balance_of db (or_user r) (or_currency r) - reserved_of db (or_user r) (or_currency r))
            (or_payable r - fu_entitlement f) else 0)
      \<and> fu_cash f = or_payable r - fu_wallet f
      \<and> (\<forall>u c. balance_of db' u c = balance_of db u c
           \<and> reserved_of db' u c = reserved_of db u c + (if u = or_user r \<and> c = or_currency r then fu_wallet f - fu_entitlement f else 0)))
    \<and> (\<forall>later x. configure_order_funding fe db' r (\<not> use) later \<noteq> Inr x)"
  using assms(1-4)
proof (cases rule: configure_order_funding_spec)
  case (kept f)
  with assms(5) show ?thesis by (metis imageI)
next
  case (fresh sn e m)
  let ?f = "new_funding r use e m now"
  have "add64 e m = e + m" "sub64 (or_payable r) (e + m) = or_payable r - (e + m)"
    using fresh(5-7) assms(4) by (simp_all add: add64_exact int64_simps sub64_nonneg)
  then have f: "fu_order ?f = or_id r" "fu_state ?f = ''reserved''" "fu_expires ?f = now + order_funding_lifetime" "fu_entitlement ?f = e"
    "fu_wallet ?f = e + m" "fu_cash ?f = or_payable r - (e + m)" "fu_use_balance ?f = use" by (simp_all add: new_funding_def)
  have "configure_order_funding fe db' r (\<not> use) later \<noteq> Inr x" for later x
  proof
    assume "configure_order_funding fe db' r (\<not> use) later = Inr x"
    from this fresh(10) assms(3,4) show False
    proof (cases rule: configure_order_funding_spec)
      case (kept g)
      with same_funding[OF fresh(10), of g ?f] f fresh(11) show False by simp
    next
      case (fresh sn e m)
      with f(1) \<open>db_fundings db' = _\<close> show False by simp
    qed
  qed
  then show ?thesis
    by (intro conjI allI exI[of _ sn] exI[of _ ?f]) (simp_all only: f fresh(1,11,13,14) fresh(2)[symmetric] fresh(9)[symmetric] add_diff_cancel_left' not_False_eq_True)
qed

theorem configure_splits_payable_witness:
  "\<exists>db db'. balance_of db 2 ''USD'' = 500 \<and> configure_order_funding sample_funding_env db sample_order True 200 = Inr db'
    \<and> reserved_of db' 2 ''USD'' = reserved_of db 2 ''USD'' + 300"
proof -
  obtain v db0 db1 where h: "credit_wallet sample_env 100 1 sample_credit sample_market = Inr (v, db0)" "balance_of db0 2 ''USD'' = 500"
    "reserved_of db0 2 ''USD'' = 0" "db_fundings db0 = []" "configure_order_funding sample_funding_env db0 sample_order True 200 = Inr db1"
    by (rule sample_funding_history)
  have p: "or_payable sample_order \<le> max64" "or_id sample_order \<notin> fu_order ` set (db_fundings db0)" "full_replacement_snapshot sample_funding_env sample_order = Inr None"
    "or_user sample_order = 2" "or_currency sample_order = ''USD''" "or_payable sample_order = 300"
    by (simp_all add: h(4) sample_order_def max64_def full_replacement_snapshot_def)
  from configure_splits_payable[OF h(5) sample_credit_step(2)[OF h(1)] sample_funding_inj p(1,2)] p(3-) h
  show ?thesis by (intro exI[of _ db0] exI[of _ db1]) auto
qed

text \<open>
  A payment takes exactly the wallet share: an accepted capture of a funded order finds its funding reserved
  and in time, takes the share from the balance and gives back as much of the reserve, touches no other
  account, and cannot be repeated.
\<close>
theorem capture_charges_wallet_share:
  assumes "capture_order_funding fe db r now = Inr db'" "fundings_ok fe db" "inj (we_hash (fe_wallet fe))"
    "f \<in> set (db_fundings db)" "fu_order f = or_id r"
  shows "fu_state f = ''reserved'' \<and> now < fu_expires f
    \<and> (\<forall>u c. let share = (if u = fu_user f \<and> c = fu_currency f then fu_wallet f else 0)
         in balance_of db' u c = balance_of db u c - share \<and> reserved_of db' u c = reserved_of db u c - share)
    \<and> (\<forall>later x. capture_order_funding fe db' r later \<noteq> Inr x)"
  using assms(1-3)
proof (cases rule: capture_order_funding_spec)
  case idle
  with funding_not_found[OF idle(2)] assms(4,5) show ?thesis by (metis imageI)
next
  case (paid g)
  note F = capture_needs_reserve[OF assms]
  from F(1) paid(1) have g: "g = f" by simp
  from paid(8) obtain h where h: "h \<in> set (db_fundings db')" "fu_order h = or_id r" "fu_state h = ''captured''" by (auto simp: in_state_def)
  have "capture_order_funding fe db' r later \<noteq> Inr x" for later x
    using capture_needs_reserve(2)[OF _ paid(7) assms(3) h(1,2)] h(3) by fastforce
  with paid g funding_found(3,4)[OF F(1)] show ?thesis by (simp add: Let_def)
qed

theorem capture_charges_wallet_share_witness:
  "\<exists>db db'. balance_of db 2 ''USD'' = 500 \<and> capture_order_funding sample_funding_env db sample_order 300 = Inr db'
    \<and> balance_of db' 2 ''USD'' = 200 \<and> (\<forall>x. capture_order_funding sample_funding_env db' sample_order 301 \<noteq> Inr x)"
proof -
  let ?f = "new_funding sample_order True 0 300 200"
  obtain v db0 db1 db2 where h: "credit_wallet sample_env 100 1 sample_credit sample_market = Inr (v, db0)"
    "configure_order_funding sample_funding_env db0 sample_order True 200 = Inr db1" "db_fundings db1 = [?f]"
    "capture_order_funding sample_funding_env db1 sample_order 300 = Inr db2" "balance_of db2 2 ''USD'' = 200"
    by (rule sample_funding_history)
  have F: "fundings_ok sample_funding_env db1"
    using shop_step_keeps[OF sample_configure_step[OF h(2)] sample_credit_step(2)[OF h(1)] sample_funding_inj] by simp
  have f: "?f \<in> set (db_fundings db1)" "fu_order ?f = or_id sample_order" "fu_user ?f = 2" "fu_currency ?f = ''USD''" "fu_wallet ?f = 300"
    using h(3) by (simp_all add: new_funding_def sample_order_def add64_exact int64_simps)
  note c = capture_charges_wallet_share[OF h(4) F sample_funding_inj f(1,2)]
  then have "balance_of db2 2 ''USD'' = balance_of db1 2 ''USD'' - 300" using f(3-5) by (simp add: Let_def)
  with c h show ?thesis by (intro exI[of _ db1] exI[of _ db2]) simp
qed

text \<open>
  C19. A released order is never charged: once the funding of an unpaid order has been released (canceled, failed,
  expired or superseded), no later state of the shop lets a capture for that order succeed.
\<close>
theorem released_never_charged:
  assumes "release_order_funding fe db r reason now = Inr db1" "fundings_ok fe db" "inj (we_hash (fe_wallet fe))"
    "find_order_funding fe db r = Inr (Some f)" "(shop_step fe)\<^sup>*\<^sup>* db1 db2" "or_id r' = or_id r"
  shows "capture_order_funding fe db2 r' later \<noteq> Inr db3"
proof
  assume cap: "capture_order_funding fe db2 r' later = Inr db3"
  note F = shop_history[OF assms(5) release_keeps(1)[OF assms(1-3)] assms(3)]
  have "\<exists>g \<in> set (db_fundings db1). fu_order g = or_id r \<and> fu_state g \<noteq> ''reserved''"
    using assms(1-3)
  proof (cases rule: release_order_funding_spec)
    case idle
    with assms(4) funding_found[OF assms(4)] show ?thesis by blast
  next
    case (freed g)
    let ?g = "g\<lparr>fu_state := ''released'', fu_released := Some now, fu_release_reason := reason\<rparr>"
    have "?g \<in> set (db_fundings db1)" using freed(1,2) unfolding freed(5) by (auto intro!: image_eqI[of _ _ g])
    with freed(2) show ?thesis by (intro bexI[of _ ?g]) simp_all
  qed
  then obtain g where g: "g \<in> set (db_fundings db1)" "fu_order g = or_id r" "fu_state g \<noteq> ''reserved''" by blast
  with F have "g \<in> set (db_fundings db2)" by (auto simp: settles_def)
  with capture_needs_reserve(2)[OF cap conjunct1[OF F] assms(3), of g] g assms(6) show False by simp
qed

theorem released_never_charged_witness:
  "\<exists>db db1. release_order_funding sample_funding_env db sample_order ''failed'' 300 = Inr db1 \<and> reserved_of db 2 ''USD'' = 300
    \<and> reserved_of db1 2 ''USD'' = 0 \<and> (\<forall>x. capture_order_funding sample_funding_env db1 sample_order 400 \<noteq> Inr x)"
proof -
  let ?f = "new_funding sample_order True 0 300 200"
  obtain v db0 db1 db3 where h: "credit_wallet sample_env 100 1 sample_credit sample_market = Inr (v, db0)"
    "configure_order_funding sample_funding_env db0 sample_order True 200 = Inr db1" "reserved_of db1 2 ''USD'' = 300" "db_fundings db1 = [?f]"
    "release_order_funding sample_funding_env db1 sample_order ''failed'' 300 = Inr db3" "reserved_of db3 2 ''USD'' = 0"
    by (rule sample_funding_history)
  have F: "fundings_ok sample_funding_env db1"
    using shop_step_keeps[OF sample_configure_step[OF h(2)] sample_credit_step(2)[OF h(1)] sample_funding_inj] by simp
  have f: "find_order_funding sample_funding_env db1 sample_order = Inr (Some ?f)"
    using h(4) by (simp add: find_order_funding_def funding_broken_def new_funding_def sample_order_def add64_exact int64_simps sub64_def)
  show ?thesis
    by (rule exI[of _ db1], rule exI[of _ db3]) (use released_never_charged[OF h(5) F sample_funding_inj f rtranclp.rtrancl_refl refl] h in simp)
qed

text \<open>
  C34. Expiry leaves nothing due: a run of the expiry job that reports no error and was allowed to take all due
  fundings leaves no reserved funding past its time, keeps the fundings sound and takes nothing from any balance.
\<close>
theorem expiry_clears_due:
  assumes "store_expire fe db now lim = (k, None, db')" "fundings_ok fe db" "inj (we_hash (fe_wallet fe))"
    "\<forall>i r. db_orders db i = Some r \<longrightarrow> or_id r = i" "length (filter (due now) (db_fundings db)) \<le> lim"
  shows "fundings_ok fe db' \<and> (\<forall>f \<in> set (db_fundings db'). \<not> (fu_state f = ''reserved'' \<and> fu_expires f \<le> now))
    \<and> balance_of db' u c = balance_of db u c"
  using expire_fundings_clear[OF assms(1)[unfolded store_expire_def] assms(2,3)] due_fundings_all[OF assms(5)] assms(4)
  unfolding orders_ok_def due_def by blast

theorem expiry_clears_due_witness:
  "\<exists>db db'. configure_order_funding sample_funding_env sample_market sample_order False 200 = Inr db
    \<and> store_expire sample_funding_env db (200 + order_funding_lifetime) 1 = (1, None, db')
    \<and> (\<forall>f \<in> set (db_fundings db'). fu_state f \<noteq> ''reserved'' \<or> fu_expires f > 200 + order_funding_lifetime)"
proof -
  have "case configure_order_funding sample_funding_env sample_market sample_order False 200 of Inl _ \<Rightarrow> False | Inr db \<Rightarrow>
      length (db_fundings db) = 1 \<and> (case store_expire sample_funding_env db (200 + order_funding_lifetime) 1 of (k, e, db') \<Rightarrow> k = 1 \<and> e = None)"
    by code_simp
  then obtain db db' where h: "configure_order_funding sample_funding_env sample_market sample_order False 200 = Inr db" "length (db_fundings db) = 1"
    "store_expire sample_funding_env db (200 + order_funding_lifetime) 1 = (1, None, db')"
    unfolding case_result_holds case_prod_beta by (metis prod.collapse)
  have F: "fundings_ok sample_funding_env db"
    using shop_step_keeps[OF sample_configure_step[OF h(1)] sample_funding_ok(2) sample_funding_inj] by simp
  have "db_orders db = db_orders sample_market" using h(1)
    by (auto simp: configure_order_funding_def reserve_for_order_def audit_def Let_def dest!: change_is_entry append_orders split: if_splits option.splits)
  then have o: "\<forall>i r. db_orders db i = Some r \<longrightarrow> or_id r = i" by (simp add: sample_market_def sample_order_def)
  have "length (filter (due (200 + order_funding_lifetime)) (db_fundings db)) \<le> 1" using h(2) by (metis length_filter_le)
  from expiry_clears_due[OF h(3) F sample_funding_inj o this, of 0 "[]"]
  have "\<forall>f \<in> set (db_fundings db'). fu_state f \<noteq> ''reserved'' \<or> fu_expires f > 200 + order_funding_lifetime" by fastforce
  with h(1,3) show ?thesis by blast
qed

end
