(* ===== verification/RefundBudgets.thy ===== *)
theory RefundBudgets
  imports OrderFunding
begin

text \<open>
  Refunds of paid orders (\<^verbatim>\<open>commerce/consumption_refunds.go\<close>, \<^verbatim>\<open>commercestore/consumption_refunds.go\<close>,
  \<^verbatim>\<open>value_refund_sources.go\<close>, \<^verbatim>\<open>order_settlement_authority.go\<close>). Every order that is ever refunded has a
  budget, opened with what was actually paid for it; approved refunds and settlements of replaced or ended
  subscriptions draw on the same budget.
\<close>

section \<open>Tables\<close>

record value_budget =
  bu_order :: nat
  bu_user :: nat
  bu_currency :: string
  bu_funding :: int
  bu_refunded :: int
  bu_converted :: int
  bu_fingerprint :: string
  bu_revision :: nat

record settlement_source =
  so_settlement :: nat
  so_order :: nat
  so_amount :: int

record consumption_refund =
  rr_id :: nat
  rr_key :: string
  rr_fingerprint :: string
  rr_order :: nat
  rr_user :: nat
  rr_currency :: string
  rr_amount :: int
  rr_ticket :: nat
  rr_actor :: nat
  rr_reason :: string
  rr_entry :: nat
  rr_created :: gotime

record refund_db =
  rf_shop :: shop_db
  rf_budgets :: "nat \<Rightarrow> value_budget option"
  rf_refunds :: "consumption_refund list"
  rf_refund_seq :: nat
  rf_sources :: "settlement_source list"

record refund_request =
  rq_idempotency :: string
  rq_amount :: int
  rq_ticket :: nat
  rq_reason :: string

text \<open>Beside the shop's environment: the JSON decoder of a value snapshot and the JSON text of a request.\<close>

record refund_env =
  re_funding :: funding_env
  re_decode :: "string \<Rightarrow> entitlement_snapshot option"
  re_json :: "nat \<Rightarrow> refund_request \<Rightarrow> string"

abbreviation re_hash :: "refund_env \<Rightarrow> string \<Rightarrow> string" where
  "re_hash re \<equiv> we_hash (fe_wallet (re_funding re))"

abbreviation re_unicode :: "refund_env \<Rightarrow> go_unicode" where
  "re_unicode re \<equiv> we_unicode (fe_wallet (re_funding re))"

section \<open>Authority\<close>

text \<open>The owner and the administrator, read in the order of their identifiers.\<close>

definition settlement_user :: "shop_db \<Rightarrow> nat \<Rightarrow> nat \<Rightarrow> unit result" where
  "settlement_user db actor i =
     (case db_users db i of
        None \<Rightarrow> Inl (if i = actor then ErrOrderPermission else ErrNamed ''ErrRecordNotFound'')
      | Some u \<Rightarrow>
          if ur_deleted u then Inl (if i = actor then ErrOrderPermission else ErrNamed ''ErrRecordNotFound'')
          else if i = actor \<and> (ur_status u \<noteq> ''active'' \<or> \<not> ur_admin u) then Inl ErrOrderPermission
          else Inr ())"

definition lock_settlement_users :: "shop_db \<Rightarrow> nat \<Rightarrow> nat \<Rightarrow> unit result" where
  "lock_settlement_users db buyer actor =
     (if actor = 0 then Inl ErrOrderPermission
      else if actor = buyer then settlement_user db actor buyer
      else try_bind (settlement_user db actor (min actor buyer)) (\<lambda>_. settlement_user db actor (max actor buyer)))"

section \<open>Budgets\<close>

definition budget_broken :: "refund_env \<Rightarrow> order \<Rightarrow> value_budget \<Rightarrow> bool" where
  "budget_broken re r b \<longleftrightarrow> bu_user b \<noteq> or_user r \<or> bu_currency b \<noteq> or_currency r \<or> bu_funding b \<noteq> or_paid r
     \<or> bu_fingerprint b \<noteq> re_hash re (or_value_snapshot r) \<or> bu_refunded b \<noteq> or_refund r \<or> bu_refunded b < 0 \<or> bu_converted b < 0
     \<or> bu_refunded b > bu_funding b \<or> bu_converted b > sub64 (bu_funding b) (bu_refunded b)"

definition value_proven :: "refund_env \<Rightarrow> order \<Rightarrow> bool" where
  "value_proven re r \<longleftrightarrow> or_status r = ''paid'' \<and> or_type r \<noteq> ''topup'' \<and> 0 < or_paid r \<and> or_fulfilled_at r \<noteq> None
     \<and> (case re_decode re (or_value_snapshot r) of
          None \<Rightarrow> False
        | Some f \<Rightarrow> sn_version f = 1 \<and> sn_verified f \<and> sn_order f = or_id r \<and> sn_subscription f = or_subscription r
            \<and> sn_currency f = or_currency r \<and> sn_paid f = or_paid r)"

definition opening_budget :: "refund_env \<Rightarrow> order \<Rightarrow> value_budget" where
  "opening_budget re r = \<lparr>bu_order = or_id r, bu_user = or_user r, bu_currency = or_currency r, bu_funding = or_paid r, bu_refunded = 0,
     bu_converted = 0, bu_fingerprint = re_hash re (or_value_snapshot r), bu_revision = 1\<rparr>"

definition lock_order_refund_budget :: "refund_env \<Rightarrow> refund_db \<Rightarrow> order \<Rightarrow> (value_budget \<times> refund_db) result" where
  "lock_order_refund_budget re db r =
     (if \<not> value_proven re r then Inl ErrSubscriptionValueUnavailable
      else try_bind (case rf_budgets db (or_id r) of
          Some b \<Rightarrow> Inr (b, db)
        | None \<Rightarrow>
            if (\<exists>s \<in> set (rf_sources db). so_order s = or_id r) \<or> or_refund r \<noteq> 0 then Inl ErrSubscriptionValueUnavailable
            else let b = opening_budget re r in Inr (b, db\<lparr>rf_budgets := (rf_budgets db)(or_id r := Some b)\<rparr>)) (\<lambda>(b, db).
        if budget_broken re r b then Inl (ErrNamed ''ErrSubscriptionSettlementConflict'') else Inr (b, db)))"

definition consume_order_refund_budget :: "refund_db \<Rightarrow> order \<Rightarrow> value_budget \<Rightarrow> int \<Rightarrow> gotime \<Rightarrow> refund_db result" where
  "consume_order_refund_budget db r b amount now =
     (if amount \<le> 0 \<or> amount > sub64 (sub64 (bu_funding b) (bu_refunded b)) (bu_converted b)
      then Inl (ErrNamed ''ErrSubscriptionSettlementConflict'')
      else let refunded = add64 (bu_refunded b) amount; shop = rf_shop db in
        Inr (db\<lparr>rf_budgets := (rf_budgets db)(or_id r := map_option (\<lambda>x. x\<lparr>bu_refunded := refunded, bu_revision := Suc (bu_revision x)\<rparr>)
                   (rf_budgets db (or_id r))),
             rf_shop := shop\<lparr>db_orders := (db_orders shop)(or_id r := map_option (\<lambda>x. x\<lparr>or_refund := refunded, or_refunded_at := Some now, or_updated := now\<rparr>)
                   (db_orders shop (or_id r)))\<rparr>\<rparr>))"

text \<open>
  The refunds of a settlement, one per source order in the order of their identifiers; \<open>indexed\<close> is a map, so of
  two rows with one identifier the later counts.
\<close>

fun refund_sources :: "refund_env \<Rightarrow> refund_db \<Rightarrow> nat \<Rightarrow> string \<Rightarrow> nat \<Rightarrow> amounts \<Rightarrow> order list \<Rightarrow> gotime \<Rightarrow> int \<Rightarrow> (int \<times> refund_db) result" where
  "refund_sources re db actor currency settlement [] orders now acc = Inr (acc, db)"
| "refund_sources re db actor currency settlement ((i, amount) # sources) orders now acc =
     (case List.find (\<lambda>r. or_id r = i) (rev orders) of
        None \<Rightarrow> Inl ErrSubscriptionValueUnavailable
      | Some r \<Rightarrow>
          if or_status r \<noteq> ''paid'' \<or> or_currency r \<noteq> currency \<or> or_user r \<noteq> actor \<or> amount \<le> 0 \<or> amount > or_paid r \<or> or_refund r \<noteq> 0
          then Inl ErrSubscriptionValueUnavailable
          else try_bind (lock_order_refund_budget re db r) (\<lambda>(b, db).
               try_bind (consume_order_refund_budget db r b amount now) (\<lambda>db.
               if \<exists>s \<in> set (rf_sources db). so_settlement s = settlement \<and> so_order s = i then Inl (ErrNamed ''ErrDuplicatedKey'')
               else let db = db\<lparr>rf_sources := rf_sources db @ [\<lparr>so_settlement = settlement, so_order = i, so_amount = amount\<rparr>]\<rparr> in
                 case add_wallet_minor acc amount of
                   None \<Rightarrow> Inl (ErrNamed ''ErrWalletRange'')
                 | Some acc \<Rightarrow> refund_sources re db actor currency settlement sources orders now acc)))"

definition refund_value_sources :: "refund_env \<Rightarrow> refund_db \<Rightarrow> nat \<Rightarrow> string \<Rightarrow> nat \<Rightarrow> amounts \<Rightarrow> order list \<Rightarrow> gotime \<Rightarrow> (int \<times> refund_db) result" where
  "refund_value_sources re db actor currency settlement sources orders now =
     refund_sources re db actor currency settlement (filter (\<lambda>(i, amount). amount > 0) sources) orders now 0"

section \<open>Approved refunds\<close>

record refund_summary =
  rs_id :: nat
  rs_order :: nat
  rs_user :: nat
  rs_currency :: string
  rs_amount :: int
  rs_ticket :: nat
  rs_actor :: nat
  rs_reason :: string
  rs_entry :: nat
  rs_created :: gotime

definition consumption_refund_summary :: "consumption_refund \<Rightarrow> refund_summary" where
  "consumption_refund_summary x = \<lparr>rs_id = rr_id x, rs_order = rr_order x, rs_user = rr_user x, rs_currency = rr_currency x,
     rs_amount = rr_amount x, rs_ticket = rr_ticket x, rs_actor = rr_actor x, rs_reason = rr_reason x, rs_entry = rr_entry x,
     rs_created = rr_created x\<rparr>"

definition refund_prefix :: string where
  "refund_prefix = bytes [232, 142, 183, 230, 137, 185, 230, 182, 136, 232, 180, 185, 233, 128, 128, 230, 172, 190, 239, 188, 154]"

definition refund_conflict :: go_error where "refund_conflict = ErrNamed ''ErrConsumptionRefundConflict''"

definition refund_error :: "'a result \<Rightarrow> 'a result" where
  "refund_error x = (case x of
      Inl e \<Rightarrow> Inl (if e = ErrNamed ''ErrPaymentFactConflict'' \<or> e = ErrNamed ''ErrDuplicatedKey'' then refund_conflict else e)
    | Inr y \<Rightarrow> Inr y)"

definition refund_key :: "refund_env \<Rightarrow> refund_request \<Rightarrow> string" where
  "refund_key re rq = re_hash re (''consumption-refund:'' @ rq_idempotency rq)"

definition refund_entry_key :: "refund_env \<Rightarrow> string \<Rightarrow> string" where
  "refund_entry_key re key = re_hash re (''consumption-refund-entry:'' @ key)"

definition find_refund :: "refund_db \<Rightarrow> string \<Rightarrow> consumption_refund option" where
  "find_refund db key = List.find (\<lambda>x. rr_key x = key) (rf_refunds db)"

definition refund_row :: "nat \<Rightarrow> string \<Rightarrow> string \<Rightarrow> nat \<Rightarrow> order \<Rightarrow> nat \<Rightarrow> refund_request \<Rightarrow> nat \<Rightarrow> gotime \<Rightarrow> consumption_refund" where
  "refund_row n key fingerprint i r actor rq entry now =
     \<lparr>rr_id = n, rr_key = key, rr_fingerprint = fingerprint, rr_order = i, rr_user = or_user r, rr_currency = or_currency r,
      rr_amount = rq_amount rq, rr_ticket = rq_ticket rq, rr_actor = actor, rr_reason = rq_reason rq, rr_entry = entry, rr_created = now\<rparr>"

text \<open>What an approval does once it is known to be new: the budget is drawn on and the wallet credited.\<close>

definition grant_refund :: "refund_env \<Rightarrow> refund_db \<Rightarrow> gotime \<Rightarrow> nat \<Rightarrow> nat \<Rightarrow> order \<Rightarrow> refund_request \<Rightarrow> (refund_summary \<times> refund_db) result" where
  "grant_refund re db now actor i r rq =
     (let key = refund_key re rq in
      try_bind (lock_order_refund_budget re db r) (\<lambda>(b, db).
      try_bind (consume_order_refund_budget db r b (rq_amount rq) now) (\<lambda>db.
      try_bind (append_wallet_credit (re_unicode re) (rf_shop db) r (refund_entry_key re key) ''consumption_refund''
          (refund_prefix @ rq_reason rq @ ticket_note (rq_ticket rq)) (rq_amount rq) now) (\<lambda>(entry, shop).
        let n = Suc (rf_refund_seq db);
            row = refund_row n key (re_hash re (re_json re i rq)) i r actor rq entry now
        in Inr (consumption_refund_summary row,
             db\<lparr>rf_shop := audit (Some actor) ''order.consumption_refund'' (''order:'' @ show_nat i) shop,
                rf_refunds := rf_refunds db @ [row], rf_refund_seq := n\<rparr>)))))"

definition store_approve :: "refund_env \<Rightarrow> refund_db \<Rightarrow> gotime \<Rightarrow> nat \<Rightarrow> nat \<Rightarrow> refund_request \<Rightarrow> (refund_summary \<times> refund_db) result" where
  "store_approve re db now actor i rq =
     (if \<not> creation_key_pattern (rq_idempotency rq) then Inl (ErrValidation [])
      else refund_error (case db_orders (rf_shop db) i of
          None \<Rightarrow> Inl ErrNotFound
        | Some r \<Rightarrow> try_bind (lock_settlement_users (rf_shop db) (or_user r) actor) (\<lambda>_.
            case find_refund db (refund_key re rq) of
              Some x \<Rightarrow>
                if rr_order x \<noteq> i \<or> rr_fingerprint x \<noteq> re_hash re (re_json re i rq) then Inl refund_conflict
                else Inr (consumption_refund_summary x, db)
            | None \<Rightarrow>
                if or_type r = ''topup'' then Inl (ErrValidation [])
                else if or_sub_ended r = None \<or> or_sub_end_reason r = [] then Inl (ErrNamed ''ErrConsumptionRefundReview'')
                else if db_tickets (rf_shop db) (rq_ticket rq) \<noteq> Some (or_user r) then Inl (ErrValidation [])
                else grant_refund re db now actor i r rq)))"

definition consumption_refunds_approve :: "(nat \<Rightarrow> nat \<Rightarrow> refund_request \<Rightarrow> 'a result) option \<Rightarrow> nat \<Rightarrow> nat \<Rightarrow> refund_request \<Rightarrow> 'a result" where
  "consumption_refunds_approve repo actor i rq =
     (if actor = 0 then Inl ErrOrderPermission
      else if i = 0 then Inl ErrNotFound
      else let reason = trim_space (rq_reason rq) in
        if rq_amount rq \<le> 0 \<or> rq_amount rq > max_wallet_input \<or> rq_ticket rq = 0 \<or> length reason < 3 \<or> length reason > 400
           \<or> \<not> idempotency_length (rq_idempotency rq) then Inl (ErrValidation [])
        else case repo of None \<Rightarrow> Inl ErrWalletUnavailable | Some approve \<Rightarrow> approve actor i (rq\<lparr>rq_reason := reason\<rparr>))"

definition consumption_refunds_read :: "(nat \<Rightarrow> nat \<Rightarrow> 'a result) option \<Rightarrow> nat \<Rightarrow> nat \<Rightarrow> 'a result" where
  "consumption_refunds_read repo actor i =
     (if actor = 0 then Inl ErrOrderPermission
      else if i = 0 then Inl ErrNotFound
      else case repo of None \<Rightarrow> Inl ErrWalletUnavailable | Some read \<Rightarrow> read actor i)"

definition store_read_refund :: "refund_db \<Rightarrow> nat \<Rightarrow> nat \<Rightarrow> refund_summary result" where
  "store_read_refund db actor i =
     try_bind (order_reader (rf_shop db) actor True) (\<lambda>_.
       case List.find (\<lambda>x. rr_id x = i) (rf_refunds db) of
         None \<Rightarrow> Inl ErrNotFound
       | Some x \<Rightarrow> Inr (consumption_refund_summary x))"

definition approve_refund :: "refund_env \<Rightarrow> gotime \<Rightarrow> nat \<Rightarrow> nat \<Rightarrow> refund_request \<Rightarrow> refund_db \<Rightarrow> (refund_summary \<times> refund_db) result" where
  "approve_refund re now actor i rq db = consumption_refunds_approve (Some (store_approve re db now)) actor i rq"

section \<open>The ledger only grows\<close>

definition grows :: "shop_db \<Rightarrow> shop_db \<Rightarrow> bool" where
  "grows db db' \<longleftrightarrow> (\<exists>es. db_entries db' = db_entries db @ es)"

lemma grows_refl [simp]: "grows db db"
  by (simp add: grows_def)

lemma grows_trans: "grows a b \<Longrightarrow> grows b c \<Longrightarrow> grows a c"
  by (auto simp: grows_def)

lemma grows_same: "db_entries db' = db_entries db \<Longrightarrow> grows db db'"
  by (simp add: grows_def)

lemma grows_member: "grows db db' \<Longrightarrow> e \<in> set (db_entries db) \<Longrightarrow> e \<in> set (db_entries db')"
  by (auto simp: grows_def)

lemma append_grows: "append_wallet_entry uc db src key kind reason bd rd now = Inr (i, db') \<Longrightarrow> grows db db'"
  by (auto simp: append_wallet_entry_def lock_wallet_account_def grows_def Let_def split: if_splits option.splits)

lemma change_grows: "append_wallet_change uc db r key kind reason bd rd now = Inr (i, db') \<Longrightarrow> grows db db'"
  by (drule change_is_entry) (rule append_grows)

lemma optional_grows:
  assumes "(if b then try_bind app (\<lambda>(_, db). Inr db) else Inr db) = Inr db1" "\<And>i. app = Inr (i, db1) \<Longrightarrow> grows db db1"
  shows "grows db db1"
  using assms by (auto split: if_splits)

lemma release_grows: "release_order_funding fe db r reason now = Inr db' \<Longrightarrow> grows db db'"
proof (erule release_order_funding_cases)
  fix f db1
  assume a: "(if 0 < sub64 (fu_wallet f) (fu_entitlement f)
      then try_bind (append_wallet_change (we_unicode (fe_wallet fe)) db r (order_key fe ''release-order:'' (or_id r)) ''reserve_release''
             release_text 0 (sub64 0 (sub64 (fu_wallet f) (fu_entitlement f))) now) (\<lambda>(_, db). Inr db)
      else Inr db) = Inr db1"
    "db' = update_funding db1 (f\<lparr>fu_state := ''released'', fu_released := Some now, fu_release_reason := reason\<rparr>)"
  from optional_grows[OF a(1)] change_grows have "grows db db1" by blast
  with a(2) show "grows db db'" by (simp add: grows_def)
qed simp

lemma capture_grows:
  assumes "capture_order_funding fe db r now = Inr db'"
  shows "grows db db'"
proof -
  obtain found where found: "find_order_funding fe db r = Inr found" using assms by (auto simp: capture_order_funding_def)
  show ?thesis
  proof (cases found)
    case None
    with found assms show ?thesis by (simp add: capture_order_funding_def)
  next
    case (Some f)
    with found assms obtain db1 where a: "(if fu_wallet f > 0
        then try_bind (append_wallet_change (we_unicode (fe_wallet fe)) db r (order_key fe ''capture-order:'' (or_id r)) ''purchase''
               purchase_text (sub64 0 (fu_wallet f)) (sub64 0 (fu_wallet f)) now) (\<lambda>(_, db). Inr db) else Inr db) = Inr db1"
      "db' = update_funding db1 (f\<lparr>fu_state := ''captured'', fu_captured := Some now\<rparr>)"
      by (auto simp: capture_order_funding_def split: if_splits)
    from optional_grows[OF a(1)] change_grows have "grows db db1" by blast
    with a(2) show ?thesis by (simp add: grows_def)
  qed
qed

lemma reserve_grows: "reserve_for_order fe db r reserved now = Inr db' \<Longrightarrow> grows db db'"
  by (auto simp: reserve_for_order_def dest: change_grows split: if_splits)

lemma configure_grows:
  assumes "configure_order_funding fe db r use now = Inr db'"
  shows "grows db db'"
proof -
  obtain found where found: "find_order_funding fe db r = Inr found" using assms by (auto simp: configure_order_funding_def split: if_splits)
  show ?thesis
  proof (cases found)
    case None
    with found assms obtain reserved db1 where "reserve_for_order fe db r reserved now = Inr db1" "db_entries db' = db_entries db1"
      by (auto simp: configure_order_funding_def audit_def Let_def split: if_splits)
    with reserve_grows show ?thesis by (simp add: grows_def)
  next
    case (Some f)
    with found assms show ?thesis by (auto simp: configure_order_funding_def split: if_splits)
  qed
qed

lemma settle_replacement_grows:
  assumes "settle_replacement_wallet fe db r s row refunded now = Inr db'"
  shows "grows db db'"
proof -
  let ?row = "\<lparr>vs_key = order_key fe ''full-change-order:'' (or_id r), vs_user = or_user r, vs_kind = ''change'', vs_applied = cs_applied s, vs_currency = or_currency r\<rparr>"
  let ?dbs = "db\<lparr>db_settlements := db_settlements db @ [?row]\<rparr>"
  obtain dba where a: "(if refunded > 0 then try_bind (append_wallet_entry (we_unicode (fe_wallet fe)) ?dbs \<lparr>src_user = or_user r, src_currency = or_currency r, src_order = None\<rparr>
        (order_key fe ''change-refund:'' row) ''subscription_change_refund'' refund_text refunded 0 now) (\<lambda>(_, db). Inr db) else Inr ?dbs) = Inr dba"
    and b: "(if cs_applied s > 0 then try_bind (append_wallet_change (we_unicode (fe_wallet fe)) dba r (order_key fe ''reserve-entitlement-order:'' (or_id r)) ''reserve''
        applied_text 0 (cs_applied s) now) (\<lambda>(_, db). Inr db) else Inr dba) = Inr db'"
    using assms unfolding settle_replacement_wallet_def by (auto simp: Let_def split: if_splits)
  have "grows db ?dbs" by (simp add: grows_def)
  moreover have "grows ?dbs dba" using optional_grows[OF a] append_grows by blast
  moreover have "grows dba db'" using optional_grows[OF b] change_grows by blast
  ultimately show ?thesis by (blast intro: grows_trans)
qed

lemma superseded_grows: "superseded fe n db db' \<Longrightarrow> grows db db'"
proof (induction rule: superseded.induct)
  case (superseded_release db db1 r reason now db2)
  then show ?case by (blast intro: grows_trans release_grows)
qed (simp_all add: grows_def)

lemma shop_step_grows:
  assumes "shop_step fe db db'" "fundings_ok fe db" "inj (we_hash (fe_wallet fe))"
  shows "grows db db'"
  using assms(1)
proof cases
  case wallet
  obtain run where run: "wallet_writer (fe_wallet fe) run" "run db = Inr ((), db')" by (rule book_step_writer[OF wallet])
  have "books_ok (fe_wallet fe) db" using assms(2) by (simp add: fundings_ok_def)
  with wallet_writer.extends[OF run _ assms(3)] show ?thesis by (simp add: grows_def)
next
  case (replacement r s row refunded now db1 db2 later)
  then show ?thesis by (blast intro: grows_trans settle_replacement_grows superseded_grows capture_grows)
next
  case (expire now i changed)
  then show ?thesis by (cases rule: expire_funding_spec) (auto dest!: release_grows simp: grows_def)
next
  case (cancel now actor i admin force r)
  then show ?thesis by (cases rule: cancel_order_spec) (auto dest!: release_grows simp: grows_def)
qed (auto intro: configure_grows release_grows capture_grows)

lemma shop_history_grows:
  assumes "(shop_step fe)\<^sup>*\<^sup>* db db'" "fundings_ok fe db" "inj (we_hash (fe_wallet fe))"
  shows "grows db db'"
  using assms(1)
proof (induction rule: rtranclp_induct)
  case (step y z)
  with shop_step_grows[OF step(2) conjunct1[OF shop_history[OF step(1) assms(2,3)]] assms(3)] show ?case by (blast intro: grows_trans)
qed simp

section \<open>Sound budgets\<close>

text \<open>What was refunded of an order: its approved refunds and its shares of settlements.\<close>

definition refunded_of :: "refund_db \<Rightarrow> nat \<Rightarrow> int" where
  "refunded_of db i = sum_list (map rr_amount (filter (\<lambda>x. rr_order x = i) (rf_refunds db)))
     + sum_list (map so_amount (filter (\<lambda>x. so_order x = i) (rf_sources db)))"

definition budget_ok :: "refund_db \<Rightarrow> nat \<Rightarrow> bool" where
  "budget_ok db i \<longleftrightarrow> (case rf_budgets db i of
      None \<Rightarrow> refunded_of db i = 0
    | Some b \<Rightarrow> bu_refunded b = refunded_of db i \<and> 0 \<le> bu_refunded b \<and> 0 \<le> bu_converted b
        \<and> bu_refunded b + bu_converted b \<le> bu_funding b \<and> bu_funding b \<le> max64)"

text \<open>Every approved refund has an entry of its own in the ledger, of exactly its amount.\<close>

definition refund_backed :: "refund_env \<Rightarrow> shop_db \<Rightarrow> consumption_refund \<Rightarrow> bool" where
  "refund_backed re db x \<longleftrightarrow> 0 < rr_amount x \<and> (\<exists>e \<in> set (db_entries db). en_id e = rr_entry x \<and> en_key e = refund_entry_key re (rr_key x)
     \<and> en_user e = rr_user x \<and> en_currency e = rr_currency x \<and> en_balance_delta e = rr_amount x \<and> en_reserved_delta e = 0)"

definition refunds_ok :: "refund_env \<Rightarrow> refund_db \<Rightarrow> bool" where
  "refunds_ok re db \<longleftrightarrow> fundings_ok (re_funding re) (rf_shop db) \<and> (\<forall>i. budget_ok db i)
     \<and> distinct (map rr_key (rf_refunds db)) \<and> (\<forall>x \<in> set (rf_refunds db). refund_backed re (rf_shop db) x)"

lemma refunded_of_cong:
  "rf_refunds db' = rf_refunds db \<Longrightarrow> rf_sources db' = rf_sources db \<Longrightarrow> refunded_of db' = refunded_of db"
  by (simp add: refunded_of_def fun_eq_iff)

lemma budget_ok_cong: "rf_budgets db' i = rf_budgets db i \<Longrightarrow> refunded_of db' i = refunded_of db i \<Longrightarrow> budget_ok db' i = budget_ok db i"
  by (simp add: budget_ok_def cong: option.case_cong)

lemma refund_backed_grows: "refund_backed re db x \<Longrightarrow> grows db db' \<Longrightarrow> refund_backed re db' x"
  unfolding refund_backed_def using grows_member by blast

lemma lock_order_refund_budget_spec:
  assumes "lock_order_refund_budget re db r = Inr (b, db')" "refunds_ok re db" "or_paid r \<le> max64"
  shows "refunds_ok re db'" "rf_budgets db' (or_id r) = Some b" "rf_shop db' = rf_shop db" "rf_refunds db' = rf_refunds db"
    "rf_refund_seq db' = rf_refund_seq db" "rf_sources db' = rf_sources db" "bu_funding b = or_paid r" "bu_refunded b = or_refund r"
    "value_proven re r"
proof -
  have proven: "value_proven re r" using assms(1) by (auto simp: lock_order_refund_budget_def split: if_splits)
  then show "value_proven re r" .
  have sound: "\<not> budget_broken re r b" using assms(1) by (auto simp: lock_order_refund_budget_def split: if_splits prod.splits)
  then show "bu_funding b = or_paid r" "bu_refunded b = or_refund r" by (auto simp: budget_broken_def)
  have step: "(rf_budgets db (or_id r) = Some b \<and> db' = db)
      \<or> (rf_budgets db (or_id r) = None \<and> b = opening_budget re r \<and> db' = db\<lparr>rf_budgets := (rf_budgets db)(or_id r := Some b)\<rparr>)"
    using assms(1) by (auto simp: lock_order_refund_budget_def Let_def split: if_splits option.splits)
  then show "rf_budgets db' (or_id r) = Some b" "rf_shop db' = rf_shop db" "rf_refunds db' = rf_refunds db"
    "rf_refund_seq db' = rf_refund_seq db" "rf_sources db' = rf_sources db" by auto
  from step show "refunds_ok re db'"
  proof (elim disjE conjE)
    assume n: "rf_budgets db (or_id r) = None" "b = opening_budget re r" "db' = db\<lparr>rf_budgets := (rf_budgets db)(or_id r := Some b)\<rparr>"
    have same: "refunded_of db' = refunded_of db" using n(3) by (intro refunded_of_cong) simp_all
    have zero: "refunded_of db (or_id r) = 0" using assms(2) n(1) by (auto simp: refunds_ok_def budget_ok_def dest!: spec[of _ "or_id r"])
    have "budget_ok db' i" for i
    proof (cases "i = or_id r")
      case True
      with n zero same proven assms(3) show ?thesis by (simp add: budget_ok_def opening_budget_def value_proven_def)
    next
      case False
      with n(3) same budget_ok_cong[of db' i db] assms(2) show ?thesis by (simp add: refunds_ok_def)
    qed
    with n(3) assms(2) show ?thesis by (simp add: refunds_ok_def)
  qed (use assms(2) in simp)
qed

lemma orders_elsewhere:
  "shop_step fe db (db\<lparr>db_orders := os\<rparr>)"
proof -
  have "book_step (fe_wallet fe) db (db\<lparr>db_users := db_users db, db_tickets := db_tickets db, db_orders := os, db_attempts := db_attempts db,
      db_events := db_events db, db_settlements := db_settlements db\<rparr>)" by (rule book_step.elsewhere)
  then show ?thesis by (intro shop_step.wallet) simp
qed

lemma audit_elsewhere: "fundings_ok fe (audit u a t db) = fundings_ok fe db"
  by (rule fundings_ok_cong) (simp_all add: audit_def)

text \<open>
  The two users of a budget have the same shape: lock it, draw an amount, and record a row of that amount for the
  order. The new row restores the balance between budget and rows.
\<close>

lemma consume_order_refund_budget_spec:
  assumes "consume_order_refund_budget db r b amount now = Inr db'" "refunds_ok re db" "rf_budgets db (or_id r) = Some b"
    "inj (re_hash re)"
  shows "0 < amount" "bu_refunded b + amount \<le> bu_funding b" "fundings_ok (re_funding re) (rf_shop db')" "grows (rf_shop db) (rf_shop db')"
    "rf_refunds db' = rf_refunds db" "rf_refund_seq db' = rf_refund_seq db" "rf_sources db' = rf_sources db"
    "\<And>db'' x. rf_budgets db'' = rf_budgets db' \<Longrightarrow> refunded_of db'' x = refunded_of db x + (if x = or_id r then amount else 0) \<Longrightarrow> budget_ok db'' x"
    "rf_shop db' = (rf_shop db)\<lparr>db_orders := db_orders (rf_shop db')\<rparr>"
proof -
  have B: "budget_ok db i" for i using assms(2) by (simp add: refunds_ok_def)
  have b: "bu_refunded b = refunded_of db (or_id r)" "0 \<le> bu_refunded b" "0 \<le> bu_converted b" "bu_refunded b + bu_converted b \<le> bu_funding b"
    "bu_funding b \<le> max64"
    using B[of "or_id r"] assms(3) by (simp_all add: budget_ok_def)
  then have left: "sub64 (sub64 (bu_funding b) (bu_refunded b)) (bu_converted b) = bu_funding b - bu_refunded b - bu_converted b"
    by (simp add: sub64_nonneg)
  then have g: "0 < amount" "amount \<le> bu_funding b - bu_refunded b - bu_converted b"
    using assms(1) by (auto simp: consume_order_refund_budget_def split: if_splits)
  then have add: "add64 (bu_refunded b) amount = bu_refunded b + amount" using b by (simp add: add64_exact int64_simps)
  from g b show "0 < amount" "bu_refunded b + amount \<le> bu_funding b" by simp_all
  have db': "db' = db\<lparr>rf_budgets := (rf_budgets db)(or_id r := Some (b\<lparr>bu_refunded := bu_refunded b + amount, bu_revision := Suc (bu_revision b)\<rparr>)),
      rf_shop := rf_shop db'\<rparr>" and shop: "\<exists>os. rf_shop db' = (rf_shop db)\<lparr>db_orders := os\<rparr>"
    using assms(1,3) add by (auto simp: consume_order_refund_budget_def Let_def split: if_splits)
  from shop obtain os where os: "rf_shop db' = (rf_shop db)\<lparr>db_orders := os\<rparr>" by blast
  have F: "fundings_ok (re_funding re) (rf_shop db)" using assms(2) by (simp add: refunds_ok_def)
  from shop_step_keeps[OF orders_elsewhere F assms(4)] os show "fundings_ok (re_funding re) (rf_shop db')" by simp
  from os show "grows (rf_shop db) (rf_shop db')" "rf_shop db' = (rf_shop db)\<lparr>db_orders := db_orders (rf_shop db')\<rparr>" by (simp_all add: grows_def)
  show "rf_refunds db' = rf_refunds db" "rf_refund_seq db' = rf_refund_seq db" "rf_sources db' = rf_sources db"
    by (subst db', simp)+
  show "budget_ok db'' x" if "rf_budgets db'' = rf_budgets db'" "refunded_of db'' x = refunded_of db x + (if x = or_id r then amount else 0)" for db'' x
  proof (cases "x = or_id r")
    case True
    have "rf_budgets db'' x = Some (b\<lparr>bu_refunded := bu_refunded b + amount, bu_revision := Suc (bu_revision b)\<rparr>)"
      unfolding that(1) by (subst db') (simp add: True)
    with True that b g show ?thesis by (simp add: budget_ok_def)
  next
    case False
    have "rf_budgets db'' x = rf_budgets db x" unfolding that(1) by (subst db') (simp add: False)
    with False that B[of x] budget_ok_cong[of db'' x db] show ?thesis by simp
  qed
qed

lemma refunded_of_source:
  "refunded_of (db\<lparr>rf_sources := rf_sources db @ [\<lparr>so_settlement = n, so_order = i, so_amount = m\<rparr>]\<rparr>) x = refunded_of db x + (if x = i then m else 0)"
  by (simp add: refunded_of_def)

lemma refunds_okI:
  assumes "fundings_ok (re_funding re) (rf_shop db')" "\<And>i. budget_ok db' i" "refunds_ok re db" "grows (rf_shop db) (rf_shop db')"
    "rf_refunds db' = rf_refunds db @ xs" "distinct (map rr_key (rf_refunds db'))" "\<forall>x \<in> set xs. refund_backed re (rf_shop db') x"
  shows "refunds_ok re db'"
  using assms refund_backed_grows[OF _ assms(4)] unfolding refunds_ok_def by auto

lemma refund_sources_keeps:
  assumes "refund_sources re db actor currency n ss orders now acc = Inr (t, db')" "refunds_ok re db" "inj (re_hash re)"
    "\<forall>r \<in> set orders. or_paid r \<le> max64"
  shows "refunds_ok re db' \<and> (0 \<le> acc \<longrightarrow> acc \<le> t) \<and> (\<forall>i. refunded_of db' i = refunded_of db i + sum_list (map snd (filter (\<lambda>x. fst x = i) ss)))
    \<and> (acc \<in> {0..max64} \<longrightarrow> t = acc + sum_list (map snd ss) \<and> t \<le> max64)"
  using assms
proof (induction ss arbitrary: db acc)
  case Nil
  then show ?case by auto
next
  case (Cons s ss)
  obtain i amount where s: "s = (i, amount)" by force
  from Cons.prems(1) s obtain r b db1 db2 acc' where r: "List.find (\<lambda>r. or_id r = i) (rev orders) = Some r"
    and lock: "lock_order_refund_budget re db r = Inr (b, db1)" and consume: "consume_order_refund_budget db1 r b amount now = Inr db2"
    and add: "add_wallet_minor acc amount = Some acc'" and pos: "0 < amount" and le: "amount \<le> or_paid r"
    and rest: "refund_sources re (db2\<lparr>rf_sources := rf_sources db2 @ [\<lparr>so_settlement = n, so_order = i, so_amount = amount\<rparr>]\<rparr>) actor currency n ss orders now acc' = Inr (t, db')"
    by (auto simp: Let_def split: option.splits if_splits)
  from find_member[OF r] Cons.prems(4) have id: "or_id r = i" "or_paid r \<le> max64" by simp_all
  note l = lock_order_refund_budget_spec[OF lock Cons.prems(2) id(2)]
  note c = consume_order_refund_budget_spec[OF consume l(1,2) Cons.prems(3)]
  let ?db = "db2\<lparr>rf_sources := rf_sources db2 @ [\<lparr>so_settlement = n, so_order = i, so_amount = amount\<rparr>]\<rparr>"
  have same: "refunded_of db2 = refunded_of db" using c(5,7) l(4,6) by (intro refunded_of_cong) simp_all
  have ref: "refunded_of ?db x = refunded_of db x + (if x = i then amount else 0)" for x
    using refunded_of_source[of db2 n i amount x] same by simp
  have same1: "refunded_of db1 = refunded_of db" using l(4,6) by (intro refunded_of_cong) simp_all
  have "refunds_ok re ?db"
  proof (rule refunds_okI[of re ?db db "[]"])
    show "budget_ok ?db x" for x by (rule c(8)) (use ref[of x] same1 id in simp_all)
    show "distinct (map rr_key (rf_refunds ?db))" using Cons.prems(2) c(5) l(4) by (simp add: refunds_ok_def)
  qed (use c l Cons.prems(2) in simp_all)
  note ih = Cons.IH[OF rest this Cons.prems(3,4)]
  have "acc' = acc + amount \<and> acc' \<le> max64" if "0 \<le> acc" "acc \<le> max64"
    using add pos le id(2) that by (auto simp: add_wallet_minor_def sub64_nonneg add64_exact int64_simps split: if_splits)
  moreover have "0 \<le> acc \<Longrightarrow> acc' = acc + amount" using add pos le id(2)
    by (auto simp: add_wallet_minor_def sub64_nonneg add64_exact int64_simps split: if_splits)
  ultimately show ?case using ih ref s pos by auto
qed

lemma refund_error_Inr [simp]: "refund_error x = Inr y \<longleftrightarrow> x = Inr y"
  by (cases x) (simp_all add: refund_error_def)

lemma find_refund_Some: "find_refund db key = Some x \<Longrightarrow> x \<in> set (rf_refunds db) \<and> rr_key x = key"
  unfolding find_refund_def by (rule find_member)

lemma find_refund_None: "find_refund db key = None \<longleftrightarrow> key \<notin> rr_key ` set (rf_refunds db)"
  by (auto simp: find_refund_def find_None_iff)

lemma grant_refund_spec:
  assumes "grant_refund re db now actor i r rq = Inr (v, db')" "refunds_ok re db" "inj (re_hash re)" "or_id r = i" "or_paid r \<le> max64"
    "refund_key re rq \<notin> rr_key ` set (rf_refunds db)"
  obtains row where "refunds_ok re db'" "rf_refunds db' = rf_refunds db @ [row]" "rf_sources db' = rf_sources db" "v = consumption_refund_summary row"
    "rr_key row = refund_key re rq" "rr_order row = i" "rr_amount row = rq_amount rq" "rr_fingerprint row = re_hash re (re_json re i rq)"
    "rr_user row = or_user r" "rr_currency row = or_currency r" "0 < rq_amount rq" "value_proven re r"
    "refunded_of db i = or_refund r" "refunded_of db' i = or_refund r + rq_amount rq" "refunded_of db' i \<le> or_paid r" "grows (rf_shop db) (rf_shop db')"
    "\<And>u c. reserved_of (rf_shop db') u c = reserved_of (rf_shop db) u c"
    "\<And>u c. balance_of (rf_shop db') u c = balance_of (rf_shop db) u c + (if u = or_user r \<and> c = or_currency r
         \<and> refund_entry_key re (refund_key re rq) \<notin> en_key ` set (db_entries (rf_shop db)) then rq_amount rq else 0)"
proof -
  let ?key = "refund_key re rq"
  obtain b db1 db2 entry shop where lock: "lock_order_refund_budget re db r = Inr (b, db1)"
    and consume: "consume_order_refund_budget db1 r b (rq_amount rq) now = Inr db2"
    and credit: "append_wallet_credit (re_unicode re) (rf_shop db2) r (refund_entry_key re ?key) ''consumption_refund''
          (refund_prefix @ rq_reason rq @ ticket_note (rq_ticket rq)) (rq_amount rq) now = Inr (entry, shop)"
    and out: "v = consumption_refund_summary (refund_row (Suc (rf_refund_seq db2)) ?key (re_hash re (re_json re i rq)) i r actor rq entry now)"
      "db' = db2\<lparr>rf_shop := audit (Some actor) ''order.consumption_refund'' (''order:'' @ show_nat i) shop,
         rf_refunds := rf_refunds db2 @ [refund_row (Suc (rf_refund_seq db2)) ?key (re_hash re (re_json re i rq)) i r actor rq entry now],
         rf_refund_seq := Suc (rf_refund_seq db2)\<rparr>"
    using assms(1) by (auto simp: grant_refund_def Let_def)
  let ?row = "refund_row (Suc (rf_refund_seq db2)) ?key (re_hash re (re_json re i rq)) i r actor rq entry now"
  note l = lock_order_refund_budget_spec[OF lock assms(2,5)]
  note c = consume_order_refund_budget_spec[OF consume l(1,2) assms(3)]
  have m: "rq_amount rq \<le> max64" using c(2) l(7,8) assms(5) l(1,2) by (auto simp: refunds_ok_def budget_ok_def dest!: spec[of _ "or_id r"])
  have B: "books_ok (fe_wallet (re_funding re)) (rf_shop db2)" using c(3) by (simp add: fundings_ok_def)
  note k = order_credit_cases[OF credit[unfolded refund_entry_key_def] B assms(3) m]
  have step: "shop_step (re_funding re) (rf_shop db2) shop"
    by (rule shop_step.wallet, rule book_step.receipt[OF credit[unfolded refund_entry_key_def] m]) simp
  have F: "fundings_ok (re_funding re) (rf_shop db')" using shop_step_keeps[OF step c(3) assms(3)] out(2) by (simp add: audit_elsewhere)
  have g: "grows (rf_shop db) (rf_shop db')"
    using shop_step_grows[OF step c(3) assms(3)] c(4) l(3) out(2) by (auto simp: grows_def audit_def)
  have rows: "rf_refunds db' = rf_refunds db @ [?row]" "rf_sources db' = rf_sources db" using out(2) c(5,7) l(4,6) by simp_all
  have ref: "refunded_of db' x = refunded_of db x + (if x = i then rq_amount rq else 0)" for x
    using rows by (simp add: refunded_of_def refund_row_def)
  have old: "refunded_of db i = or_refund r"
  proof -
    have "refunded_of db1 = refunded_of db" using l(4,6) by (intro refunded_of_cong) simp_all
    with l(1,2,8) assms(4) show ?thesis by (auto simp: refunds_ok_def budget_ok_def dest!: spec[of _ "or_id r"])
  qed
  have "budget_ok db' x" for x
  proof (rule c(8))
    show "rf_budgets db' = rf_budgets db2" using out(2) by simp
    have "refunded_of db1 = refunded_of db" using l(4,6) by (intro refunded_of_cong) simp_all
    with ref[of x] assms(4) show "refunded_of db' x = refunded_of db1 x + (if x = or_id r then rq_amount rq else 0)" by simp
  qed
  moreover have "refund_backed re (rf_shop db') ?row"
    using k(8) c(1) out(2) by (auto simp: refund_backed_def refund_row_def refund_entry_key_def audit_def)
  ultimately have "refunds_ok re db'"
    by (intro refunds_okI[OF F _ assms(2) g rows(1)]) (use assms(2,6) rows(1) in \<open>auto simp: refunds_ok_def refund_row_def\<close>)
  moreover have "balance_of (rf_shop db') u c = balance_of shop u c" "reserved_of (rf_shop db') u c = reserved_of shop u c" for u c
    using out(2) by simp_all
  moreover have "balance_of (rf_shop db2) u c = balance_of (rf_shop db) u c" "reserved_of (rf_shop db2) u c = reserved_of (rf_shop db) u c"
    "db_entries (rf_shop db2) = db_entries (rf_shop db)" for u c
    by (subst c(9), simp add: balance_of_def reserved_of_def l(3))+
  ultimately show ?thesis
    using k(5,6) ref[of i] old c(1,2) l(7,8,9) g rows out(1) by (intro that[of ?row]) (simp_all add: refund_row_def refund_entry_key_def)
qed

lemma approve_refund_cases:
  assumes "approve_refund re now actor i rq db = Inr (v, db')"
  obtains (again) r x where "db_orders (rf_shop db) i = Some r" "find_refund db (refund_key re rq) = Some x" "rr_order x = i"
      "v = consumption_refund_summary x" "db' = db" "rr_fingerprint x = re_hash re (re_json re i (rq\<lparr>rq_reason := trim_space (rq_reason rq)\<rparr>))"
  | (fresh) r where "db_orders (rf_shop db) i = Some r" "find_refund db (refund_key re rq) = None"
      "or_type r \<noteq> ''topup''" "or_sub_ended r \<noteq> None" "db_tickets (rf_shop db) (rq_ticket rq) = Some (or_user r)"
      "grant_refund re db now actor i r (rq\<lparr>rq_reason := trim_space (rq_reason rq)\<rparr>) = Inr (v, db')"
      "lock_settlement_users (rf_shop db) (or_user r) actor = Inr ()"
proof -
  let ?rq = "rq\<lparr>rq_reason := trim_space (rq_reason rq)\<rparr>"
  have "store_approve re db now actor i ?rq = Inr (v, db')"
    using assms by (auto simp: approve_refund_def consumption_refunds_approve_def Let_def split: if_splits)
  then obtain r where r: "db_orders (rf_shop db) i = Some r" "lock_settlement_users (rf_shop db) (or_user r) actor = Inr ()"
    and rest: "(case find_refund db (refund_key re ?rq) of
              Some x \<Rightarrow>
                if rr_order x \<noteq> i \<or> rr_fingerprint x \<noteq> re_hash re (re_json re i ?rq) then Inl refund_conflict
                else Inr (consumption_refund_summary x, db)
            | None \<Rightarrow>
                if or_type r = ''topup'' then Inl (ErrValidation [])
                else if or_sub_ended r = None \<or> or_sub_end_reason r = [] then Inl (ErrNamed ''ErrConsumptionRefundReview'')
                else if db_tickets (rf_shop db) (rq_ticket ?rq) \<noteq> Some (or_user r) then Inl (ErrValidation [])
                else grant_refund re db now actor i r ?rq) = Inr (v, db')"
    by (auto simp: store_approve_def Let_def split: if_splits option.splits)
  have key: "refund_key re ?rq = refund_key re rq" by (simp add: refund_key_def)
  show ?thesis
  proof (cases "find_refund db (refund_key re rq)")
    case None
    with r rest key show ?thesis by (intro fresh[of r]) (simp_all split: if_splits)
  next
    case (Some x)
    with r rest key show ?thesis by (intro again[of r x]) (simp_all split: if_splits)
  qed
qed

section \<open>Histories\<close>

text \<open>
  A refund is approved, a settlement draws on its source orders, or the rest of the shop moves on. The side
  conditions state what the tables give by themselves: a row is found under its own identifier and its columns
  are 64-bit integers.
\<close>

inductive refund_step :: "refund_env \<Rightarrow> refund_db \<Rightarrow> refund_db \<Rightarrow> bool" for re where
  elsewhere: "shop_step (re_funding re) (rf_shop db) shop \<Longrightarrow> refund_step re db (db\<lparr>rf_shop := shop\<rparr>)"
| approve: "approve_refund re now actor i rq db = Inr (v, db') \<Longrightarrow>
    (\<And>r. db_orders (rf_shop db) i = Some r \<Longrightarrow> or_id r = i \<and> or_paid r \<le> max64) \<Longrightarrow> refund_step re db db'"
| settle: "refund_value_sources re db actor currency n sources orders now = Inr (t, db') \<Longrightarrow>
    \<forall>r \<in> set orders. or_paid r \<le> max64 \<Longrightarrow> refund_step re db db'"

inductive_cases refund_stepE: "refund_step re db db'"

lemma refund_sources_refunds:
  "refund_sources re db actor currency n ss orders now acc = Inr (t, db') \<Longrightarrow> rf_refunds db' = rf_refunds db"
proof (induction ss arbitrary: db acc)
  case (Cons s ss)
  obtain i amount where s: "s = (i, amount)" by force
  from Cons.prems s obtain r b db1 db2 acc' where lock: "lock_order_refund_budget re db r = Inr (b, db1)"
    and consume: "consume_order_refund_budget db1 r b amount now = Inr db2"
    and rest: "refund_sources re (db2\<lparr>rf_sources := rf_sources db2 @ [\<lparr>so_settlement = n, so_order = i, so_amount = amount\<rparr>]\<rparr>) actor currency n ss orders now acc' = Inr (t, db')"
    by (auto simp: Let_def split: option.splits if_splits)
  have "rf_refunds db1 = rf_refunds db" using lock by (auto simp: lock_order_refund_budget_def Let_def split: if_splits option.splits)
  moreover have "rf_refunds db2 = rf_refunds db1" using consume by (auto simp: consume_order_refund_budget_def Let_def split: if_splits)
  ultimately show ?case using Cons.IH[OF rest] by simp
qed simp

lemma refund_step_keeps:
  assumes "refund_step re db db'" "refunds_ok re db" "inj (re_hash re)"
  shows "refunds_ok re db' \<and> (\<exists>xs. rf_refunds db' = rf_refunds db @ xs) \<and> (\<forall>i. refunded_of db i \<le> refunded_of db' i)"
  using assms(1)
proof cases
  case (elsewhere shop)
  have F: "fundings_ok (re_funding re) (rf_shop db)" using assms(2) by (simp add: refunds_ok_def)
  have "refunded_of db' = refunded_of db" using elsewhere by (intro refunded_of_cong) simp_all
  moreover have "refunds_ok re db'"
  proof (rule refunds_okI[OF _ _ assms(2), of _ "[]"])
    show "fundings_ok (re_funding re) (rf_shop db')" using shop_step_keeps[OF elsewhere(2) F assms(3)] elsewhere(1) by simp
    show "budget_ok db' i" for i using budget_ok_cong[of db' i db] calculation elsewhere(1) assms(2) by (simp add: refunds_ok_def)
    show "grows (rf_shop db) (rf_shop db')" using shop_step_grows[OF elsewhere(2) F assms(3)] elsewhere(1) by simp
  qed (use elsewhere(1) assms(2) in \<open>simp_all add: refunds_ok_def\<close>)
  ultimately show ?thesis using elsewhere(1) by simp
next
  case (approve now actor i rq v)
  from approve(1) show ?thesis
  proof (cases rule: approve_refund_cases)
    case (again r x)
    with assms(2) show ?thesis by simp
  next
    case (fresh r)
    have "refund_key re (rq\<lparr>rq_reason := trim_space (rq_reason rq)\<rparr>) \<notin> rr_key ` set (rf_refunds db)"
      using fresh(2) by (simp add: find_refund_None refund_key_def)
    moreover have "or_id r = i" "or_paid r \<le> max64" using approve(2)[OF fresh(1)] by simp_all
    ultimately obtain row where g: "refunds_ok re db'" "rf_refunds db' = rf_refunds db @ [row]" "rf_sources db' = rf_sources db"
      "rr_order row = i" "rr_amount row = rq_amount rq" "0 < rq_amount rq"
      using grant_refund_spec[OF fresh(6) assms(2,3)] by (metis refund_request.select_convs(2) refund_request.update_convs(4) refund_request.surjective)
    then show ?thesis by (simp add: refunded_of_def)
  qed
next
  case (settle actor currency n sources orders now t)
  note s = settle(1)[unfolded refund_value_sources_def]
  have "0 \<le> sum_list (map snd (filter (\<lambda>x. fst x = i) (filter (\<lambda>(i, amount). amount > 0) sources)))" for i :: nat
    by (rule sum_list_nonneg) auto
  with refund_sources_keeps[OF s assms(2,3) settle(2)] refund_sources_refunds[OF s] show ?thesis by simp
qed

lemma refund_history:
  assumes "(refund_step re)\<^sup>*\<^sup>* db db'" "refunds_ok re db" "inj (re_hash re)"
  shows "refunds_ok re db' \<and> (\<exists>xs. rf_refunds db' = rf_refunds db @ xs) \<and> (\<forall>i. refunded_of db i \<le> refunded_of db' i)"
  using assms(1)
proof (induction rule: rtranclp_induct)
  case (step y z)
  with refund_step_keeps[OF step(2) _ assms(3)] obtain xs ys where
    "refunds_ok re z" "rf_refunds y = rf_refunds db @ xs" "rf_refunds z = rf_refunds y @ ys"
    "\<forall>i. refunded_of db i \<le> refunded_of y i" "\<forall>i. refunded_of y i \<le> refunded_of z i" by blast
  then show ?case by (auto intro: order_trans)
qed (use assms(2) in simp)

definition empty_refunds :: "shop_db \<Rightarrow> refund_db" where
  "empty_refunds shop = \<lparr>rf_shop = shop, rf_budgets = (\<lambda>_. None), rf_refunds = [], rf_refund_seq = 0, rf_sources = []\<rparr>"

lemma refunds_empty: "fundings_ok (re_funding re) shop \<Longrightarrow> refunds_ok re (empty_refunds shop)"
  by (simp add: refunds_ok_def empty_refunds_def budget_ok_def refunded_of_def)

lemma case_result_error: "(case r of Inl e \<Rightarrow> P e | Inr x \<Rightarrow> False) \<longleftrightarrow> (\<exists>e. r = Inl e \<and> P e)"
  by (cases r) simp_all

lemma refund_entries_distinct:
  assumes "refunds_ok re db" "inj (re_hash re)"
  shows "distinct (map rr_entry (rf_refunds db))"
proof -
  have ids: "distinct (map en_id (db_entries (rf_shop db)))"
    using assms(1) by (simp add: refunds_ok_def fundings_ok_def books_ok_def ledger_ok_def)
  have "rr_key x = rr_key y" if xy: "x \<in> set (rf_refunds db)" "y \<in> set (rf_refunds db)" "rr_entry x = rr_entry y" for x y
  proof -
    from xy assms(1) obtain e f where e: "e \<in> set (db_entries (rf_shop db))" "en_id e = rr_entry x" "en_key e = refund_entry_key re (rr_key x)"
      and f: "f \<in> set (db_entries (rf_shop db))" "en_id f = rr_entry y" "en_key f = refund_entry_key re (rr_key y)"
      unfolding refunds_ok_def refund_backed_def by meson
    have "e = f" by (rule distinct_map_eq[OF ids e(1) f(1)]) (simp add: e(2) f(2) xy(3))
    with e f show ?thesis by (simp add: refund_entry_key_def inj_eq[OF assms(2)])
  qed
  with assms(1) show ?thesis unfolding refunds_ok_def distinct_map inj_on_def by blast
qed

section \<open>A concrete refund\<close>

definition sample_state :: entitlement_state where
  "sample_state = \<lparr>es_plan = 3, es_sku = 4, es_start = 20, es_end = 100, es_status = ''active'', es_ended = None, es_end_reason = [], es_total = 0,
     es_used = 0, es_cycle_used = 0, es_reset_quota = 0, es_policy = 0, es_next_reset = None\<rparr>"

definition sample_fact :: entitlement_snapshot where
  "sample_fact = \<lparr>sn_event_id = 0, sn_event_at = 0, sn_periods = [], sn_version = 1, sn_order = 7, sn_subscription = 6, sn_currency = ''USD'', sn_paid = 300,
     sn_verified = True, sn_payment_basis = [], sn_kind = [], sn_mode = [], sn_captured = 20, sn_term_start = 20, sn_term_end = 100,
     sn_billing_unit = ''month'', sn_billing_value = 1, sn_model = [], sn_before = None, sn_after = sample_state, sn_legacy_transfer = False\<rparr>"

definition sample_refund_env :: refund_env where
  "sample_refund_env = \<lparr>re_funding = sample_funding_env, re_decode = (\<lambda>s. if s = ''fact'' then Some sample_fact else None), re_json = (\<lambda>_. rq_reason)\<rparr>"

definition sample_ended_order :: order where
  "sample_ended_order = sample_order\<lparr>or_status := ''paid'', or_paid := 300, or_subscription := 6, or_fulfilled_at := Some 20, or_value_snapshot := ''fact'',
     or_sub_ended := Some 60, or_sub_end_reason := ''ended''\<rparr>"

definition sample_refunds :: refund_db where
  "sample_refunds = empty_refunds (empty_db\<lparr>
     db_users := (\<lambda>u. if u = 1 then Some \<lparr>ur_status = ''active'', ur_admin = True, ur_deleted = False\<rparr>
       else if u = 2 then Some \<lparr>ur_status = ''active'', ur_admin = False, ur_deleted = False\<rparr> else None),
     db_tickets := (\<lambda>t. if t = 5 then Some 2 else None), db_orders := (\<lambda>i. if i = 7 then Some sample_ended_order else None),
     db_attempts := [], db_events := [], db_settlements := []\<rparr>)"

definition sample_refund :: refund_request where
  "sample_refund = \<lparr>rq_idempotency = ''refund-01'', rq_amount = 120, rq_ticket = 5, rq_reason = ''agreed''\<rparr>"

lemma sample_refund_inj: "inj (re_hash sample_refund_env)"
  using sample_funding_inj by (simp add: sample_refund_env_def)

lemma sample_refunds_step: "shop_step (re_funding re) empty_db (rf_shop sample_refunds)"
  unfolding sample_refunds_def empty_refunds_def by (simp, rule shop_step.wallet, rule book_step.elsewhere)

lemma sample_refunds_ok: "refunds_ok sample_refund_env sample_refunds"
proof -
  have "fundings_ok (re_funding sample_refund_env) (rf_shop sample_refunds)"
    using shop_step_keeps[OF sample_refunds_step fundings_empty sample_refund_inj] by simp
  from refunds_empty[OF this] show ?thesis by (simp add: sample_refunds_def empty_refunds_def)
qed

lemma sample_refund_history:
  obtains v db1 w db2 where "approve_refund sample_refund_env 70 1 7 sample_refund sample_refunds = Inr (v, db1)"
    "refunded_of db1 7 = 120" "approve_refund sample_refund_env 90 1 7 sample_refund db1 = Inr (w, db2)"
    "approve_refund sample_refund_env 90 1 7 (sample_refund\<lparr>rq_idempotency := ''refund-02'', rq_amount := 181\<rparr>) db1 = Inl (ErrNamed ''ErrSubscriptionSettlementConflict'')"
proof -
  have "(case approve_refund sample_refund_env 70 1 7 sample_refund sample_refunds of Inl _ \<Rightarrow> False | Inr x \<Rightarrow> (let db1 = snd x in
      refunded_of db1 7 = 120 \<and> (case approve_refund sample_refund_env 90 1 7 sample_refund db1 of Inl _ \<Rightarrow> False | Inr _ \<Rightarrow> True) \<and>
      (case approve_refund sample_refund_env 90 1 7 (sample_refund\<lparr>rq_idempotency := ''refund-02'', rq_amount := 181\<rparr>) db1 of
         Inl e \<Rightarrow> e = ErrNamed ''ErrSubscriptionSettlementConflict'' | Inr _ \<Rightarrow> False)))"
    by code_simp
  then show ?thesis unfolding case_result_holds case_result_error Let_def by (auto intro: that)
qed

lemma sample_refund_rows:
  "db_orders (rf_shop sample_refunds) 7 = Some r \<Longrightarrow> or_id r = 7 \<and> or_paid r \<le> max64"
  by (auto simp: sample_refunds_def empty_refunds_def sample_ended_order_def sample_order_def max64_def)

section \<open>Properties\<close>

text \<open>
  C23. No order is refunded beyond what was paid for it: in every history of approved refunds and settlements,
  interleaved with anything else the shop does, what was taken out of an order is exactly what its budget
  records and stays within its funding, and every approved refund stands on a ledger entry of its own, of
  exactly its amount, to the account of the order.
\<close>
theorem refunds_within_payment:
  assumes "(refund_step re)\<^sup>*\<^sup>* (empty_refunds empty_db) db" "inj (re_hash re)"
  shows "(case rf_budgets db i of None \<Rightarrow> refunded_of db i = 0
      | Some b \<Rightarrow> refunded_of db i = bu_refunded b \<and> 0 \<le> refunded_of db i \<and> refunded_of db i + bu_converted b \<le> bu_funding b)
    \<and> distinct (map rr_entry (rf_refunds db))
    \<and> (\<forall>x \<in> set (rf_refunds db). \<exists>e \<in> set (db_entries (rf_shop db)). en_id e = rr_entry x \<and> en_user e = rr_user x
        \<and> en_currency e = rr_currency x \<and> en_balance_delta e = rr_amount x \<and> 0 < rr_amount x)"
proof -
  have R: "refunds_ok re db" using refund_history[OF assms(1) refunds_empty[OF fundings_empty] assms(2)] by simp
  then have "budget_ok db i" "\<forall>x \<in> set (rf_refunds db). refund_backed re (rf_shop db) x" by (simp_all add: refunds_ok_def)
  then show ?thesis using refund_entries_distinct[OF R assms(2)]
    by (auto simp: budget_ok_def refund_backed_def split: option.splits)
qed

theorem refunds_within_payment_witness:
  "\<exists>db. (refund_step sample_refund_env)\<^sup>*\<^sup>* (empty_refunds empty_db) db \<and> refunded_of db 7 = 120
    \<and> (\<exists>b. rf_budgets db 7 = Some b \<and> bu_refunded b = 120)"
proof -
  obtain v db1 where h: "approve_refund sample_refund_env 70 1 7 sample_refund sample_refunds = Inr (v, db1)" "refunded_of db1 7 = 120"
    by (rule sample_refund_history)
  have "(empty_refunds empty_db)\<lparr>rf_shop := rf_shop sample_refunds\<rparr> = sample_refunds" by (simp add: sample_refunds_def empty_refunds_def)
  moreover have "shop_step (re_funding sample_refund_env) (rf_shop (empty_refunds empty_db)) (rf_shop sample_refunds)"
    using sample_refunds_step by (simp add: empty_refunds_def)
  ultimately have "refund_step sample_refund_env (empty_refunds empty_db) sample_refunds"
    using refund_step.elsewhere by metis
  moreover have "refund_step sample_refund_env sample_refunds db1" by (rule refund_step.approve[OF h(1) sample_refund_rows])
  ultimately have run: "(refund_step sample_refund_env)\<^sup>*\<^sup>* (empty_refunds empty_db) db1" by (meson rtranclp.simps)
  from refunds_within_payment[OF this sample_refund_inj, of 7] run h(2) show ?thesis
    by (intro exI[of _ db1]) (auto split: option.splits)
qed

text \<open>
  C24. An approved refund is covered by a verified payment: a new approval needs a paid order whose value snapshot
  proves a verified payment of exactly the paid amount, a subscription that has ended and a ticket of the same
  account; it raises what was refunded of this order, and of no other, by exactly its amount, and the sum stays
  within the payment.
\<close>
theorem approved_refund_exact:
  assumes "approve_refund re now actor i rq db = Inr (v, db')" "refunds_ok re db" "inj (re_hash re)"
    "db_orders (rf_shop db) i = Some r" "or_id r = i" "or_paid r \<le> max64" "find_refund db (refund_key re rq) = None"
  shows "value_proven re r \<and> or_sub_ended r \<noteq> None \<and> db_tickets (rf_shop db) (rq_ticket rq) = Some (or_user r)
    \<and> rs_amount v = rq_amount rq \<and> 0 < rq_amount rq \<and> refunded_of db' i \<le> or_paid r
    \<and> (\<forall>k. refunded_of db' k = refunded_of db k + (if k = i then rq_amount rq else 0))
    \<and> (\<exists>e \<in> set (db_entries (rf_shop db')). en_id e = rs_entry v \<and> en_user e = or_user r \<and> en_currency e = or_currency r
         \<and> en_balance_delta e = rq_amount rq \<and> en_reserved_delta e = 0)"
  using assms(1)
proof (cases rule: approve_refund_cases)
  case (again r x)
  with assms(7) show ?thesis by simp
next
  case (fresh r')
  let ?rq = "rq\<lparr>rq_reason := trim_space (rq_reason rq)\<rparr>"
  from fresh(1) assms(4) have r: "r' = r" by simp
  have key: "refund_key re ?rq \<notin> rr_key ` set (rf_refunds db)" using assms(7) by (simp add: find_refund_None refund_key_def)
  obtain row where g: "refunds_ok re db'" "rf_refunds db' = rf_refunds db @ [row]" "rf_sources db' = rf_sources db" "v = consumption_refund_summary row"
    "rr_order row = i" "rr_amount row = rq_amount ?rq" "rr_user row = or_user r" "rr_currency row = or_currency r"
    "0 < rq_amount ?rq" "value_proven re r" "refunded_of db' i \<le> or_paid r"
    by (rule grant_refund_spec[OF fresh(6)[unfolded r] assms(2,3,5,6) key])
  have "refund_backed re (rf_shop db') row" using g(1,2) by (simp add: refunds_ok_def)
  with g fresh r show ?thesis by (auto simp: refund_backed_def consumption_refund_summary_def refunded_of_def)
qed

theorem approved_refund_exact_witness:
  "\<exists>v db. approve_refund sample_refund_env 70 1 7 sample_refund sample_refunds = Inr (v, db) \<and> refunded_of db 7 = 120 \<and> rs_amount v = 120
    \<and> approve_refund sample_refund_env 90 1 7 (sample_refund\<lparr>rq_idempotency := ''refund-02'', rq_amount := 181\<rparr>) db = Inl (ErrNamed ''ErrSubscriptionSettlementConflict'')"
proof -
  obtain v db1 where h: "approve_refund sample_refund_env 70 1 7 sample_refund sample_refunds = Inr (v, db1)" "refunded_of db1 7 = 120"
    "approve_refund sample_refund_env 90 1 7 (sample_refund\<lparr>rq_idempotency := ''refund-02'', rq_amount := 181\<rparr>) db1 = Inl (ErrNamed ''ErrSubscriptionSettlementConflict'')"
    by (rule sample_refund_history)
  have r: "db_orders (rf_shop sample_refunds) 7 = Some sample_ended_order" by (simp add: sample_refunds_def empty_refunds_def)
  have n: "find_refund sample_refunds k = None" for k by (simp add: sample_refunds_def empty_refunds_def find_refund_def)
  have "or_id sample_ended_order = 7" "or_paid sample_ended_order \<le> max64" using sample_refund_rows[OF r] by simp_all
  from approved_refund_exact[OF h(1) sample_refunds_ok sample_refund_inj r this n] h show ?thesis
    by (intro exI[of _ v] exI[of _ db1]) (simp add: sample_refund_def)
qed

text \<open>
  A refund is approved once: when a request was accepted and the same request is accepted again, whatever
  happened in between, nothing changes and the summary of the first approval is returned.
\<close>
theorem refund_counts_once:
  assumes "approve_refund re now actor i rq db = Inr (v, db1)" "refunds_ok re db" "inj (re_hash re)"
    "\<And>r. db_orders (rf_shop db) i = Some r \<Longrightarrow> or_id r = i \<and> or_paid r \<le> max64"
    "(refund_step re)\<^sup>*\<^sup>* db1 db2" "approve_refund re later admin j rq db2 = Inr (w, db3)"
  shows "db3 = db2 \<and> w = v \<and> j = i"
proof -
  have R1: "refunds_ok re db1" using refund_step_keeps[OF refund_step.approve[OF assms(1,4)] assms(2,3)] by simp
  let ?rq = "rq\<lparr>rq_reason := trim_space (rq_reason rq)\<rparr>" and ?key = "refund_key re rq"
  have key: "refund_key re ?rq = ?key" by (simp add: refund_key_def)
  have "\<exists>x \<in> set (rf_refunds db1). rr_key x = ?key \<and> rr_order x = i \<and> v = consumption_refund_summary x"
    using assms(1)
  proof (cases rule: approve_refund_cases)
    case (again r x)
    with find_refund_Some[OF again(2)] show ?thesis by auto
  next
    case (fresh r)
    have k: "refund_key re ?rq \<notin> rr_key ` set (rf_refunds db)" using fresh(2) key by (simp add: find_refund_None)
    obtain row where "rf_refunds db1 = rf_refunds db @ [row]" "v = consumption_refund_summary row" "rr_key row = refund_key re ?rq" "rr_order row = i"
      by (rule grant_refund_spec[OF fresh(6) assms(2,3) conjunct1[OF assms(4)[OF fresh(1)]] conjunct2[OF assms(4)[OF fresh(1)]] k])
    with key show ?thesis by auto
  qed
  then obtain x where x: "x \<in> set (rf_refunds db1)" "rr_key x = ?key" "rr_order x = i" "v = consumption_refund_summary x" by blast
  note h = refund_history[OF assms(5) R1 assms(3)]
  then have x2: "x \<in> set (rf_refunds db2)" "distinct (map rr_key (rf_refunds db2))" using x(1) by (auto simp: refunds_ok_def)
  from assms(6) show ?thesis
  proof (cases rule: approve_refund_cases)
    case (again r y)
    have "y = x" by (rule distinct_map_eq[OF x2(2) _ x2(1)]) (use find_refund_Some[OF again(2)] x(2) in simp_all)
    with again x show ?thesis by simp
  next
    case (fresh r)
    with x(2) x2(1) show ?thesis by (metis find_refund_None imageI)
  qed
qed

theorem refund_counts_once_witness:
  "\<exists>v db w. approve_refund sample_refund_env 70 1 7 sample_refund sample_refunds = Inr (v, db)
    \<and> approve_refund sample_refund_env 90 1 7 sample_refund db = Inr (w, db) \<and> w = v"
proof -
  obtain v db1 w db2 where h: "approve_refund sample_refund_env 70 1 7 sample_refund sample_refunds = Inr (v, db1)"
    "approve_refund sample_refund_env 90 1 7 sample_refund db1 = Inr (w, db2)"
    by (rule sample_refund_history)
  from refund_counts_once[OF h(1) sample_refunds_ok sample_refund_inj sample_refund_rows rtranclp.rtrancl_refl h(2)] h show ?thesis by blast
qed

end
