(* ===== verification/Grants.thy ===== *)
theory Grants
  imports GoStrings Calendar
begin

text \<open>
  \<^verbatim>\<open>entitlements/subscription.go\<close>, \<^verbatim>\<open>lifecycle.go\<close>, \<^verbatim>\<open>renewal.go\<close>, \<^verbatim>\<open>grant.go\<close> and \<^verbatim>\<open>replacement.go\<close>:
  the subscription of a user, its lifecycle, and the grants that paid orders make on it.
\<close>

section \<open>Subscriptions\<close>

record subscription =
  sb_epoch :: nat
  sb_kernel_revision :: nat
  sb_kernel_fingerprint :: string
  sb_lifecycle :: string
  sb_ends_on_exhaustion :: bool
  sb_ended :: "gotime option"
  sb_end_reason :: string
  sb_retirement_retry :: "gotime option"
  sb_id :: nat
  sb_user :: nat
  sb_plan :: nat
  sb_sku :: nat
  sb_group :: nat
  sb_type :: int
  sb_start :: gotime
  sb_end :: gotime
  sb_status :: string
  sb_total :: int
  sb_used :: int
  sb_reset_quota :: int
  sb_cycle_used :: int
  sb_speed :: int
  sb_device :: int
  sb_family :: int
  sb_renewal_price :: int
  sb_policy :: int
  sb_next_reset :: "gotime option"
  sb_calc_mode :: int
  sb_config :: string
  sb_created :: gotime
  sb_updated :: gotime

definition cycle_quota :: "subscription \<Rightarrow> int \<times> int" where
  "cycle_quota s =
     (let b = (if sb_cycle_used s < 0 \<or> sb_used s < sb_cycle_used s \<or> sb_total s < sb_cycle_used s
               then 0 else sb_cycle_used s)
      in (sub64 (sb_total s) b, sub64 (sb_used s) b))"

definition access_available :: "subscription \<Rightarrow> gotime \<Rightarrow> bool" where
  "access_available s now \<longleftrightarrow>
     sb_ended s = None \<and> sb_status s = ''active'' \<and> now < sb_end s \<and> sb_used s < sb_total s"

section \<open>Lifecycle\<close>

definition renewal_grace_period :: int where "renewal_grace_period = 7 * 24 * hour"

definition can_change_at :: "subscription \<Rightarrow> gotime \<Rightarrow> bool" where
  "can_change_at s now \<longleftrightarrow>
     sb_ended s = None \<and> now < sb_end s \<and> \<not> is_perpetual_end (sb_end s)
     \<and> (\<not> sb_ends_on_exhaustion s \<or> sb_used s < sb_total s)
     \<and> (sb_status s = ''active''
        \<or> (sb_status s = ''expired'' \<and> 0 < sb_total s \<and> sb_total s \<le> sb_used s))"

definition can_replace_at :: "subscription \<Rightarrow> gotime \<Rightarrow> bool" where
  "can_replace_at s now =
     (if \<not> is_perpetual_end (sb_end s) then can_change_at s now
      else sb_ended s = None \<and> now < sb_end s \<and> sb_status s = ''active''
        \<and> (sb_policy s = 0 \<or> sb_policy s = 5) \<and> sb_next_reset s = None
        \<and> 0 < sb_total s \<and> 0 \<le> sb_used s \<and> sb_used s < sb_total s)"

definition record_quota_exhaustion :: "subscription \<Rightarrow> gotime \<Rightarrow> subscription" where
  "record_quota_exhaustion s now =
     (if (sb_status s \<noteq> ''active'' \<and> sb_status s \<noteq> ''expired'') \<or> \<not> sb_ends_on_exhaustion s
         \<or> sb_used s < sb_total s \<or> sb_ended s \<noteq> None
      then s
      else
        let (ended, reason) = (if \<not> now < sb_end s then (sb_end s, ''expired'') else (now, ''exhausted''))
        in s\<lparr>sb_ended := Some ended, sb_end_reason := reason, sb_status := ''expired''\<rparr>)"

text \<open>The variadic \<open>configuredGrace\<close> is an option: only its first element is read.\<close>

definition renewal_deadline :: "subscription \<Rightarrow> gotime \<Rightarrow> int option \<Rightarrow> gotime option" where
  "renewal_deadline s now configured =
     (let grace = (case configured of None \<Rightarrow> renewal_grace_period | Some g \<Rightarrow> g) in
      if grace < 0 then None
      else if sb_status s = ''canceled'' \<or> sb_status s = ''ended'' \<or> sb_end_reason s = ''canceled'' then None
      else if sb_lifecycle s \<noteq> ''renewable'' \<and> sb_lifecycle s \<noteq> [] then None
      else
        let ended = (if sb_ended s = None \<and> \<not> now < sb_end s then Some (sb_end s) else sb_ended s)
        in map_option (\<lambda>e. e + grace) ended)"

definition can_renew_at :: "subscription \<Rightarrow> gotime \<Rightarrow> int option \<Rightarrow> bool" where
  "can_renew_at s now configured =
     (if (case configured of None \<Rightarrow> False | Some g \<Rightarrow> g < 0) then False
      else if sb_status s \<noteq> ''active'' \<and> sb_status s \<noteq> ''expired'' then False
      else if sb_lifecycle s \<noteq> ''renewable'' \<and> sb_lifecycle s \<noteq> [] then False
      else case renewal_deadline s now configured of
        Some deadline \<Rightarrow> now < deadline
      | None \<Rightarrow> now < sb_end s)"

section \<open>Grants\<close>

record grant_request =
  gr_replace_term :: bool
  gr_id :: nat
  gr_target :: "nat option"
  gr_user :: nat
  gr_plan :: nat
  gr_sku :: nat
  gr_order_type :: string
  gr_unit :: string
  gr_effect :: string
  gr_value :: int
  gr_traffic :: int
  gr_speed :: int
  gr_device :: int

record grant_policy =
  gp_grace :: "int option"
  gp_max_active :: int
  gp_group :: nat
  gp_renewable :: bool
  gp_renewal_price :: int
  gp_family :: int
  gp_reset :: int
  gp_calc_mode :: int

record grant =
  gt_subscription :: subscription
  gt_delta :: int
  gt_before :: int
  gt_after :: int

record renewal =
  rn_extend :: bool
  rn_add_quota :: bool
  rn_permanent :: bool

definition no_renewal :: renewal where
  "no_renewal = \<lparr>rn_extend = False, rn_add_quota = False, rn_permanent = False\<rparr>"

definition quota_ends_service :: "string \<Rightarrow> bool \<Rightarrow> int \<Rightarrow> bool" where
  "quota_ends_service unit renewable reset \<longleftrightarrow>
     (unit = ''once'' \<or> \<not> renewable) \<and> (reset = 0 \<or> reset = 5)"

definition renewal_for_grant :: "grant_request \<Rightarrow> renewal result" where
  "renewal_for_grant order =
     (if gr_order_type order = ''traffic_pack'' then Inr (no_renewal\<lparr>rn_add_quota := True\<rparr>)
      else if gr_order_type order = ''traffic_reset'' then Inr no_renewal
      else if gr_order_type order = ''upgrade'' then Inr no_renewal
      else if gr_order_type order = ''renewal'' then
        let trimmed = trim_space (gr_effect order);
            effect = (if trimmed = [] then (if gr_unit order = ''once'' then ''add_quota_only'' else ''extend_and_add_quota'')
                      else trimmed)
        in if effect = ''extend_only'' then Inr (no_renewal\<lparr>rn_extend := True\<rparr>)
           else if effect = ''extend_and_add_quota'' then Inr (no_renewal\<lparr>rn_extend := True, rn_add_quota := True\<rparr>)
           else if effect = ''add_quota_only'' then
             Inr (no_renewal\<lparr>rn_add_quota := True, rn_permanent := (gr_unit order = ''once'')\<rparr>)
           else Inl (ErrGrantRejected ''unsupported renewal effect'')
      else Inr (no_renewal\<lparr>rn_extend := True, rn_add_quota := True\<rparr>))"

definition new_grant :: "grant_request \<Rightarrow> grant_policy \<Rightarrow> gotime \<Rightarrow> grant result" where
  "new_grant request policy now =
     try_bind (add_billing_period now (gr_unit request) (gr_value request)) (\<lambda>end_at.
     let reset = effective_reset_policy (gr_unit request) (gp_reset policy) in
       Inr \<lparr>gt_subscription =
              \<lparr>sb_epoch = 0, sb_kernel_revision = 0, sb_kernel_fingerprint = [],
               sb_lifecycle = (if gp_renewable policy then ''renewable'' else ''fixed''),
               sb_ends_on_exhaustion = quota_ends_service (gr_unit request) (gp_renewable policy) reset,
               sb_ended = None, sb_end_reason = [], sb_retirement_retry = None,
               sb_id = 0, sb_user = gr_user request, sb_plan = gr_plan request, sb_sku = gr_sku request,
               sb_group = gp_group policy, sb_type = 1, sb_start = now, sb_end = end_at, sb_status = ''active'',
               sb_total = gr_traffic request, sb_used = 0, sb_reset_quota = gr_traffic request, sb_cycle_used = 0,
               sb_speed = gr_speed request, sb_device = gr_device request, sb_family = gp_family policy,
               sb_renewal_price = (if gp_renewable policy then gp_renewal_price policy else 0),
               sb_policy = reset, sb_next_reset = next_traffic_reset now reset,
               sb_calc_mode = gp_calc_mode policy, sb_config = ''{}'', sb_created = 0, sb_updated = 0\<rparr>,
            gt_delta = gr_traffic request, gt_before = 0, gt_after = gr_traffic request\<rparr>)"

text \<open>A full replacement settles the old rights elsewhere and starts a complete new term.\<close>

definition replacement_grant :: "subscription \<Rightarrow> grant_request \<Rightarrow> grant_policy \<Rightarrow> gotime \<Rightarrow> grant result" where
  "replacement_grant previous request policy now =
     (if gr_order_type request \<noteq> ''upgrade'' \<or> \<not> can_replace_at previous now \<or> gr_user request \<noteq> sb_user previous
         \<or> (case gr_target request of None \<Rightarrow> False | Some t \<Rightarrow> t \<noteq> sb_id previous)
      then Inl (ErrGrantRejected ''full replacement requires an eligible owned subscription'')
      else if sb_used previous < 0 \<or> gr_traffic request < 0 \<or> sb_used previous > max64 - gr_traffic request
      then Inl (ErrGrantRejected ''replacement quota exceeds supported range'')
      else
        try_bind (new_grant request policy now) (\<lambda>fresh.
        let before = max 0 (sub64 (sb_total previous) (sb_used previous)) in
          Inr \<lparr>gt_subscription = (gt_subscription fresh)
                 \<lparr>sb_id := sb_id previous, sb_user := sb_user previous, sb_type := sb_type previous,
                  sb_config := sb_config previous, sb_created := sb_created previous, sb_updated := now,
                  sb_epoch := sb_epoch previous, sb_kernel_revision := sb_kernel_revision previous,
                  sb_kernel_fingerprint := sb_kernel_fingerprint previous,
                  sb_used := sb_used previous, sb_cycle_used := sb_used previous,
                  sb_total := add64 (sb_used previous) (gr_traffic request)\<rparr>,
               gt_delta = sub64 (gr_traffic request) before, gt_before = before,
               gt_after = gr_traffic request\<rparr>))"

text \<open>\<open>ApplyGrant\<close> in its three parts: the new end of the term, the new quota, the new commercial terms.\<close>

definition granted_end :: "renewal \<Rightarrow> bool \<Rightarrow> subscription \<Rightarrow> grant_request \<Rightarrow> gotime \<Rightarrow> gotime result" where
  "granted_end fulfillment recovering s request now =
     (if rn_permanent fulfillment then Inr perpetual_end
      else if rn_extend fulfillment \<or> recovering then
        add_billing_period
          (if sb_end s < now \<or> (is_perpetual_end (sb_end s) \<and> gr_unit request \<noteq> ''once'') then now else sb_end s)
          (gr_unit request) (gr_value request)
      else Inr (sb_end s))"

definition reset_traffic :: "subscription \<Rightarrow> grant_request \<Rightarrow> gotime \<Rightarrow> (subscription \<times> int) result" where
  "reset_traffic s request now =
     (if sb_plan s \<noteq> gr_plan request \<or> (sb_status s \<noteq> ''active'' \<and> sb_status s \<noteq> ''expired'') \<or> \<not> now < sb_end s
         \<or> is_perpetual_end (sb_end s) \<or> gr_traffic request \<le> 0 \<or> gr_traffic request \<noteq> sb_reset_quota s
         \<or> sb_used s > max64 - gr_traffic request
      then Inl (ErrGrantRejected ''traffic reset requires a valid timed subscription and its base quota'')
      else
        let total' = add64 (sb_used s) (gr_traffic request) in
          Inr (s\<lparr>sb_total := total', sb_cycle_used := sb_used s\<rparr>, sub64 total' (sb_total s)))"

definition change_plan_quota :: "subscription \<Rightarrow> grant_request \<Rightarrow> gotime \<Rightarrow> (subscription \<times> int) result" where
  "change_plan_quota s request now =
     (if \<not> can_change_at s now then Inl (ErrGrantRejected ''plan change requires an active subscription'')
      else
        let cycle_used = snd (cycle_quota s); baseline = sub64 (sb_used s) cycle_used in
        if gr_traffic request < cycle_used \<or> gr_traffic request > sub64 max64 baseline
        then Inl (ErrGrantRejected ''new plan quota cannot cover current-cycle usage'')
        else
          let total' = add64 baseline (gr_traffic request) in
            Inr (s\<lparr>sb_total := total'\<rparr>, sub64 total' (sb_total s)))"

definition recover_quota :: "subscription \<Rightarrow> grant_request \<Rightarrow> gotime \<Rightarrow> (subscription \<times> int) result" where
  "recover_quota s request now =
     (if gr_traffic request \<le> 0 \<or> sb_used s > max64 - gr_traffic request
      then Inl (ErrGrantRejected ''invalid renewal recovery quota'')
      else
        let total' = add64 (sb_used s) (gr_traffic request) in
          Inr (s\<lparr>sb_cycle_used := sb_used s, sb_total := total', sb_start := now, sb_ended := None, sb_end_reason := []\<rparr>,
               sub64 total' (sb_total s)))"

definition add_quota :: "subscription \<Rightarrow> grant_request \<Rightarrow> (subscription \<times> int) result" where
  "add_quota s request =
     (if gr_traffic request < 0 \<or> sb_total s > max64 - gr_traffic request
      then Inl (ErrGrantRejected ''invalid additional quota'')
      else Inr (s\<lparr>sb_total := add64 (sb_total s) (gr_traffic request)\<rparr>, gr_traffic request))"

definition granted_quota :: "renewal \<Rightarrow> bool \<Rightarrow> subscription \<Rightarrow> grant_request \<Rightarrow> gotime \<Rightarrow> (subscription \<times> int) result" where
  "granted_quota fulfillment recovering s request now =
     (if gr_order_type request = ''traffic_reset'' then reset_traffic s request now
      else if gr_order_type request = ''upgrade'' then change_plan_quota s request now
      else if recovering then recover_quota s request now
      else if rn_add_quota fulfillment then add_quota s request
      else Inr (s, 0))"

definition granted_terms :: "bool \<Rightarrow> subscription \<Rightarrow> grant_request \<Rightarrow> grant_policy \<Rightarrow> gotime \<Rightarrow> subscription" where
  "granted_terms recovering s request policy now =
     (let s = s\<lparr>sb_status := ''active'', sb_retirement_retry := None\<rparr> in
      if gr_order_type request = ''traffic_pack'' \<or> gr_order_type request = ''traffic_reset'' then s
      else
        let reset = effective_reset_policy (gr_unit request) (gp_reset policy);
            next_reset = (if reset \<noteq> sb_policy s \<or> (case sb_next_reset s of None \<Rightarrow> True | Some t \<Rightarrow> now < t)
                          then next_traffic_reset_after (sb_start s) reset now else sb_next_reset s)
        in s\<lparr>sb_lifecycle := (if gp_renewable policy then ''renewable'' else ''fixed''),
             sb_ends_on_exhaustion := quota_ends_service (gr_unit request) (gp_renewable policy) reset,
             sb_plan := gr_plan request, sb_sku := gr_sku request, sb_group := gp_group policy,
             sb_speed := gr_speed request, sb_device := gr_device request, sb_family := gp_family policy,
             sb_reset_quota := (if 0 < gr_traffic request then gr_traffic request else sb_reset_quota s),
             sb_policy := reset,
             sb_next_reset := (if recovering then next_traffic_reset now reset else next_reset),
             sb_calc_mode := gp_calc_mode policy,
             sb_renewal_price := (if gp_renewable policy then gp_renewal_price policy else 0)\<rparr>)"

definition grant_refused :: "bool \<Rightarrow> subscription \<Rightarrow> grant_request \<Rightarrow> grant_policy \<Rightarrow> gotime \<Rightarrow> go_error option" where
  "grant_refused is_renewal s request policy now =
     (let grace = (case gp_grace policy of None \<Rightarrow> renewal_grace_period | Some g \<Rightarrow> g) in
      if \<not> gp_renewable policy \<and> is_renewal then Some (ErrGrantRejected ''plan does not support renewal'')
      else if is_renewal \<and> (\<not> can_renew_at s now (Some grace) \<or> sb_plan s \<noteq> gr_plan request) then Some ErrRenewalWindow
      else if \<not> is_renewal \<and> (sb_ended s \<noteq> None \<or> \<not> now < sb_end s \<or> (sb_ends_on_exhaustion s \<and> sb_total s \<le> sb_used s))
      then Some (ErrGrantRejected ''subscription has ended'')
      else None)"

definition apply_grant :: "subscription \<Rightarrow> grant_request \<Rightarrow> grant_policy \<Rightarrow> gotime \<Rightarrow> grant result" where
  "apply_grant s request policy now =
     (if gr_replace_term request then replacement_grant s request policy now
      else
        try_bind (renewal_for_grant request) (\<lambda>fulfillment.
        let is_renewal = (gr_order_type request = ''renewal'');
            recovering = (is_renewal \<and> (sb_ended s \<noteq> None \<or> \<not> now < sb_end s)) in
        case grant_refused is_renewal s request policy now of
          Some e \<Rightarrow> Inl e
        | None \<Rightarrow>
          try_bind (granted_end fulfillment recovering s request now) (\<lambda>end_at.
          let s = s\<lparr>sb_end := end_at\<rparr>; before = sub64 (sb_total s) (sb_used s) in
          try_bind (granted_quota fulfillment recovering s request now) (\<lambda>(s', delta).
            Inr \<lparr>gt_subscription = granted_terms recovering s' request policy now, gt_delta = delta,
                 gt_before = before, gt_after = add64 before delta\<rparr>))))"

section \<open>Accounting of grants\<close>

definition sub_ok :: "subscription \<Rightarrow> bool" where
  "sub_ok s \<longleftrightarrow> 0 \<le> sb_cycle_used s \<and> sb_cycle_used s \<le> sb_used s \<and> sb_cycle_used s \<le> sb_total s
     \<and> sb_used s \<le> max64 \<and> sb_total s \<le> max64"

lemma sub_ok_balance: "sub_ok s \<Longrightarrow> sub64 (sb_total s) (sb_used s) = sb_total s - sb_used s"
  by (rule sub64_exact) (auto simp: sub_ok_def int64_simps)

lemma sub_ok_cycle: "sub_ok s \<Longrightarrow> cycle_quota s = (sb_total s - sb_cycle_used s, sb_used s - sb_cycle_used s)"
  unfolding cycle_quota_def by (auto simp: Let_def sub_ok_def intro!: sub64_nonneg)

lemma sub_ok_end [simp]: "sub_ok (s\<lparr>sb_end := e\<rparr>) = sub_ok s"
  by (simp add: sub_ok_def)

lemma restart_quota:
  assumes "sub_ok s" "0 \<le> q" "sb_used s \<le> max64 - q"
  shows "add64 (sb_used s) q = sb_used s + q" "sub64 (sb_used s + q) (sb_total s) = sb_used s + q - sb_total s"
  using assms by (auto simp: sub_ok_def intro!: add64_exact sub64_exact) (auto simp: int64_simps)

text \<open>What every way of granting quota keeps.\<close>

definition quota_step :: "subscription \<Rightarrow> subscription \<times> int \<Rightarrow> bool" where
  "quota_step s r \<longleftrightarrow> sub_ok (fst r) \<and> sb_used (fst r) = sb_used s \<and> snd r = sb_total (fst r) - sb_total s
     \<and> sb_id (fst r) = sb_id s \<and> sb_user (fst r) = sb_user s \<and> sb_end (fst r) = sb_end s"

lemma reset_traffic_step: "reset_traffic s rq now = Inr r \<Longrightarrow> sub_ok s \<Longrightarrow> quota_step s r"
  using restart_quota[of s "gr_traffic rq"]
  by (auto simp: reset_traffic_def Let_def quota_step_def sub_ok_def)

lemma recover_quota_step: "recover_quota s rq now = Inr r \<Longrightarrow> sub_ok s \<Longrightarrow> quota_step s r"
  using restart_quota[of s "gr_traffic rq"]
  by (auto simp: recover_quota_def Let_def quota_step_def sub_ok_def)

lemma add_quota_step: "add_quota s rq = Inr r \<Longrightarrow> sub_ok s \<Longrightarrow> quota_step s r"
  using add64_guarded[of "sb_total s" "gr_traffic rq"]
  by (auto simp: add_quota_def quota_step_def sub_ok_def)

lemma change_plan_quota_step:
  assumes "change_plan_quota s rq now = Inr r" "sub_ok s"
  shows "quota_step s r"
proof -
  let ?b = "sb_cycle_used s"
  note c = sub_ok_cycle[OF assms(2)]
  have b: "sub64 (sb_used s) (sb_used s - ?b) = ?b" "sub64 max64 ?b = max64 - ?b"
    using sub64_exact[of "sb_used s" "sb_used s - ?b"] sub64_exact[of max64 ?b] assms(2)
    by (auto simp: sub_ok_def int64_simps)
  from assms(1) have t: "sb_used s - ?b \<le> gr_traffic rq" "gr_traffic rq \<le> max64 - ?b"
    and r: "r = (s\<lparr>sb_total := add64 ?b (gr_traffic rq)\<rparr>, sub64 (add64 ?b (gr_traffic rq)) (sb_total s))"
    by (auto simp: change_plan_quota_def Let_def c b)
  have "add64 ?b (gr_traffic rq) = ?b + gr_traffic rq"
    using t assms(2) by (intro add64_exact) (auto simp: sub_ok_def int64_simps)
  moreover have "sub64 (?b + gr_traffic rq) (sb_total s) = ?b + gr_traffic rq - sb_total s"
    using t assms(2) by (intro sub64_exact) (auto simp: sub_ok_def int64_simps)
  ultimately show ?thesis using r t assms(2) by (auto simp: quota_step_def sub_ok_def)
qed

lemma granted_quota_step: "granted_quota f rec s rq now = Inr r \<Longrightarrow> sub_ok s \<Longrightarrow> quota_step s r"
  by (auto simp: granted_quota_def split: if_splits
      dest: reset_traffic_step recover_quota_step add_quota_step change_plan_quota_step)
    (auto simp: quota_step_def)

lemma granted_terms_keeps [simp]:
  "sb_used (granted_terms rec s rq p now) = sb_used s" "sb_total (granted_terms rec s rq p now) = sb_total s"
  "sb_cycle_used (granted_terms rec s rq p now) = sb_cycle_used s" "sb_id (granted_terms rec s rq p now) = sb_id s"
  "sb_user (granted_terms rec s rq p now) = sb_user s" "sb_end (granted_terms rec s rq p now) = sb_end s"
  "sb_ended (granted_terms rec s rq p now) = sb_ended s" "sb_start (granted_terms rec s rq p now) = sb_start s"
  "sb_status (granted_terms rec s rq p now) = ''active''" "sb_retirement_retry (granted_terms rec s rq p now) = None"
  by (simp_all add: granted_terms_def Let_def)

lemma granted_terms_ok [simp]: "sub_ok (granted_terms rec s rq p now) = sub_ok s"
  by (simp add: sub_ok_def)

lemma replacement_grant_spec:
  assumes "replacement_grant s rq p now = Inr g" "sub_ok s"
  shows "sub_ok (gt_subscription g)" "sb_used (gt_subscription g) = sb_used s"
    "gt_after g = sb_total (gt_subscription g) - sb_used (gt_subscription g)" "gt_after g = gt_before g + gt_delta g"
    "sb_id (gt_subscription g) = sb_id s" "sb_user (gt_subscription g) = sb_user s"
    "add_billing_period now (gr_unit rq) (gr_value rq) = Inr (sb_end (gt_subscription g))"
    "sb_status (gt_subscription g) = ''active''" "sb_ended (gt_subscription g) = None"
    "sb_retirement_retry (gt_subscription g) = None" "can_replace_at s now" "gr_order_type rq = ''upgrade''"
proof -
  let ?before = "max 0 (sb_total s - sb_used s)"
  have b: "sub64 (sb_total s) (sb_used s) = sb_total s - sb_used s" by (rule sub_ok_balance) fact
  from assms(1) have t: "0 \<le> gr_traffic rq" "sb_used s \<le> max64 - gr_traffic rq" "can_replace_at s now"
    "gr_order_type rq = ''upgrade''"
    by (auto simp: replacement_grant_def)
  note q = restart_quota(1)[OF assms(2) t(1,2)]
  have d: "sub64 (gr_traffic rq) ?before = gr_traffic rq - ?before"
    using t assms(2) by (intro sub64_exact) (auto simp: sub_ok_def int64_simps)
  from assms(1) obtain e where e: "add_billing_period now (gr_unit rq) (gr_value rq) = Inr e"
    and sub: "sb_used (gt_subscription g) = sb_used s" "sb_cycle_used (gt_subscription g) = sb_used s"
      "sb_total (gt_subscription g) = sb_used s + gr_traffic rq" "sb_id (gt_subscription g) = sb_id s"
      "sb_user (gt_subscription g) = sb_user s" "sb_end (gt_subscription g) = e"
      "sb_status (gt_subscription g) = ''active''" "sb_ended (gt_subscription g) = None"
      "sb_retirement_retry (gt_subscription g) = None"
    and bal: "gt_before g = ?before" "gt_delta g = gr_traffic rq - ?before" "gt_after g = gr_traffic rq"
    by (auto simp: replacement_grant_def new_grant_def Let_def b q d)
  show "sub_ok (gt_subscription g)" using t assms(2) by (auto simp: sub_ok_def sub)
  from e sub bal t show "sb_used (gt_subscription g) = sb_used s"
    "gt_after g = sb_total (gt_subscription g) - sb_used (gt_subscription g)" "gt_after g = gt_before g + gt_delta g"
    "sb_id (gt_subscription g) = sb_id s" "sb_user (gt_subscription g) = sb_user s"
    "add_billing_period now (gr_unit rq) (gr_value rq) = Inr (sb_end (gt_subscription g))"
    "sb_status (gt_subscription g) = ''active''" "sb_ended (gt_subscription g) = None"
    "sb_retirement_retry (gt_subscription g) = None" "can_replace_at s now" "gr_order_type rq = ''upgrade''" by auto
qed

lemma apply_grant_cases:
  assumes "apply_grant s rq p now = Inr g" "\<not> gr_replace_term rq"
  obtains f e s' delta where "renewal_for_grant rq = Inr f"
    "grant_refused (gr_order_type rq = ''renewal'') s rq p now = None"
    "granted_end f (gr_order_type rq = ''renewal'' \<and> (sb_ended s \<noteq> None \<or> \<not> now < sb_end s)) s rq now = Inr e"
    "granted_quota f (gr_order_type rq = ''renewal'' \<and> (sb_ended s \<noteq> None \<or> \<not> now < sb_end s)) (s\<lparr>sb_end := e\<rparr>) rq now
      = Inr (s', delta)"
    "gt_subscription g
      = granted_terms (gr_order_type rq = ''renewal'' \<and> (sb_ended s \<noteq> None \<or> \<not> now < sb_end s)) s' rq p now"
    "gt_delta g = delta" "gt_before g = sub64 (sb_total s) (sb_used s)"
    "gt_after g = add64 (sub64 (sb_total s) (sb_used s)) delta"
proof -
  let ?rec = "gr_order_type rq = ''renewal'' \<and> (sb_ended s \<noteq> None \<or> \<not> now < sb_end s)"
  from assms obtain f where f: "renewal_for_grant rq = Inr f"
    and ref: "grant_refused (gr_order_type rq = ''renewal'') s rq p now = None"
    by (auto simp: apply_grant_def Let_def split: option.splits)
  with assms obtain e s' delta where "granted_end f ?rec s rq now = Inr e"
    "granted_quota f ?rec (s\<lparr>sb_end := e\<rparr>) rq now = Inr (s', delta)"
    "g = \<lparr>gt_subscription = granted_terms ?rec s' rq p now, gt_delta = delta,
           gt_before = sub64 (sb_total s) (sb_used s), gt_after = add64 (sub64 (sb_total s) (sb_used s)) delta\<rparr>"
    by (auto simp: apply_grant_def Let_def)
  with f ref show thesis by (intro that[of f e s' delta]) simp_all
qed

section \<open>Sample subscription\<close>

definition sample_subscription :: subscription where
  "sample_subscription = \<lparr>sb_epoch = 1, sb_kernel_revision = 0, sb_kernel_fingerprint = [], sb_lifecycle = ''renewable'',
     sb_ends_on_exhaustion = False, sb_ended = None, sb_end_reason = [], sb_retirement_retry = None, sb_id = 7, sb_user = 3,
     sb_plan = 1, sb_sku = 1, sb_group = 1, sb_type = 1, sb_start = 86400000000000, sb_end = 864000000000000,
     sb_status = ''active'', sb_total = 100, sb_used = 40, sb_reset_quota = 100, sb_cycle_used = 10, sb_speed = 0,
     sb_device = 0, sb_family = 0, sb_renewal_price = 5, sb_policy = 0, sb_next_reset = None, sb_calc_mode = 0,
     sb_config = ''{}'', sb_created = 0, sb_updated = 0\<rparr>"

definition sample_request :: grant_request where
  "sample_request = \<lparr>gr_replace_term = False, gr_id = 5, gr_target = Some 7, gr_user = 3, gr_plan = 1, gr_sku = 1,
     gr_order_type = ''renewal'', gr_unit = ''day'', gr_effect = '' extend_only '', gr_value = 2, gr_traffic = 100,
     gr_speed = 0, gr_device = 0\<rparr>"

definition sample_policy :: grant_policy where
  "sample_policy = \<lparr>gp_grace = None, gp_max_active = 1, gp_group = 1, gp_renewable = True, gp_renewal_price = 5,
     gp_family = 0, gp_reset = 0, gp_calc_mode = 0\<rparr>"

lemma sample_ok: "sub_ok sample_subscription"
  by (simp add: sub_ok_def sample_subscription_def max64_def)

lemma sample_trim: "trim_space '' extend_only '' = ''extend_only''"
  by code_simp

lemma sample_after_end: "\<exists>g. apply_grant sample_subscription sample_request sample_policy 900000000000000 = Inr g"
proof -
  have "case apply_grant sample_subscription sample_request sample_policy 900000000000000 of Inl e \<Rightarrow> False | Inr g \<Rightarrow> True"
    by code_simp
  then show ?thesis by (auto split: sum.splits)
qed

section \<open>Properties\<close>

lemma granted_quota_ended:
  assumes "granted_quota f rec s rq now = Inr (s', d)" "gr_order_type rq \<noteq> ''upgrade'' \<or> \<not> rec" "gr_order_type rq \<noteq> ''traffic_reset'' \<or> \<not> rec"
  shows "sb_ended s' = (if rec then None else sb_ended s)"
  using assms
  by (auto simp: granted_quota_def reset_traffic_def change_plan_quota_def recover_quota_def add_quota_def Let_def
      split: if_splits)

lemma granted_end_after:
  assumes "granted_end f rec s rq now = Inr e" "gr_value rq * 12 \<le> max64" "now < perpetual_end" "rec \<or> now < sb_end s"
  shows "now < e"
proof -
  let ?base = "if sb_end s < now \<or> (is_perpetual_end (sb_end s) \<and> gr_unit rq \<noteq> ''once'') then now else sb_end s"
  have base: "now \<le> ?base" by simp
  show ?thesis
  proof (cases "rn_permanent f")
    case True
    with assms show ?thesis by (simp add: granted_end_def)
  next
    case False
    show ?thesis
    proof (cases "rn_extend f \<or> rec")
      case True
      with False assms(1) have p: "add_billing_period ?base (gr_unit rq) (gr_value rq) = Inr e"
        by (simp add: granted_end_def)
      show ?thesis
      proof (cases "gr_unit rq = ''once''")
        case True
        with p assms(3) show ?thesis by (simp add: add_billing_period_def split: if_splits)
      next
        case False
        from add_billing_period_after[OF p this assms(2)] base show ?thesis by linarith
      qed
    next
      case F: False
      with False assms show ?thesis by (simp add: granted_end_def)
    qed
  qed
qed

text \<open>
  C31. Every accepted grant keeps the accounts of the subscription: cumulative usage and identity are
  untouched, the usage baseline of the cycle stays covered, no addition overflows, and the recorded
  balance after the grant is both the balance before plus the granted delta and what is really left.
\<close>

theorem apply_grant_accounting:
  assumes "apply_grant s rq p now = Inr g" "sub_ok s"
  shows "sub_ok (gt_subscription g) \<and> sb_used (gt_subscription g) = sb_used s
    \<and> sb_id (gt_subscription g) = sb_id s \<and> sb_user (gt_subscription g) = sb_user s
    \<and> gt_after g = gt_before g + gt_delta g
    \<and> gt_after g = sb_total (gt_subscription g) - sb_used (gt_subscription g)"
proof (cases "gr_replace_term rq")
  case True
  with assms(1) have "replacement_grant s rq p now = Inr g" by (simp add: apply_grant_def)
  from replacement_grant_spec[OF this assms(2)] show ?thesis by simp
next
  case False
  from apply_grant_cases[OF assms(1) this] obtain f e s' delta where
    q: "granted_quota f (gr_order_type rq = ''renewal'' \<and> (sb_ended s \<noteq> None \<or> \<not> now < sb_end s)) (s\<lparr>sb_end := e\<rparr>) rq now
      = Inr (s', delta)"
    and g: "gt_subscription g
      = granted_terms (gr_order_type rq = ''renewal'' \<and> (sb_ended s \<noteq> None \<or> \<not> now < sb_end s)) s' rq p now"
      "gt_delta g = delta" "gt_before g = sub64 (sb_total s) (sb_used s)"
      "gt_after g = add64 (sub64 (sb_total s) (sb_used s)) delta" by metis
  have "quota_step (s\<lparr>sb_end := e\<rparr>) (s', delta)" using q assms(2) by (intro granted_quota_step) simp_all
  then have st: "sub_ok s'" "sb_used s' = sb_used s" "delta = sb_total s' - sb_total s" "sb_id s' = sb_id s"
    "sb_user s' = sb_user s" by (auto simp: quota_step_def)
  have "add64 (sb_total s - sb_used s) delta = sb_total s - sb_used s + delta"
    using st assms(2) by (intro add64_exact) (auto simp: sub_ok_def int64_simps)
  with st g sub_ok_balance[OF assms(2)] show ?thesis by simp
qed

theorem apply_grant_accounting_witness:
  "\<exists>g. apply_grant sample_subscription sample_request sample_policy 900000000000000 = Inr g
    \<and> sb_used (gt_subscription g) = 40 \<and> gt_after g = gt_before g + gt_delta g"
proof -
  obtain g where g: "apply_grant sample_subscription sample_request sample_policy 900000000000000 = Inr g"
    using sample_after_end by blast
  from apply_grant_accounting[OF g sample_ok] g show ?thesis by (simp add: sample_subscription_def)
qed

text \<open>
  An accepted grant always leaves a running term: the subscription is active, has not ended, no
  retirement is pending and its end lies after the present, also when the grant recovers a term that
  had already ended. What was paid for is served as soon as there is quota left.
\<close>

theorem apply_grant_serves:
  assumes "apply_grant s rq p now = Inr g" "sub_ok s" "gr_value rq * 12 \<le> max64" "now < perpetual_end"
  shows "sb_status (gt_subscription g) = ''active'' \<and> sb_ended (gt_subscription g) = None
    \<and> sb_retirement_retry (gt_subscription g) = None \<and> now < sb_end (gt_subscription g)
    \<and> (access_available (gt_subscription g) now \<longleftrightarrow> 0 < gt_after g)"
proof -
  let ?s = "gt_subscription g"
  have "sb_status ?s = ''active'' \<and> sb_ended ?s = None \<and> sb_retirement_retry ?s = None \<and> now < sb_end ?s
    \<and> gt_after g = sb_total ?s - sb_used ?s"
  proof (cases "gr_replace_term rq")
    case True
    with assms(1) have "replacement_grant s rq p now = Inr g" by (simp add: apply_grant_def)
    note r = replacement_grant_spec[OF this assms(2)]
    have "now < sb_end ?s"
      using add_billing_period_after[OF r(7) _ assms(3)] r(7) assms(4)
      by (cases "gr_unit rq = ''once''") (auto simp: add_billing_period_def split: if_splits)
    with r show ?thesis by simp
  next
    case False
    let ?rec = "gr_order_type rq = ''renewal'' \<and> (sb_ended s \<noteq> None \<or> \<not> now < sb_end s)"
    from apply_grant_cases[OF assms(1) False] obtain f e s' delta where
      ref: "grant_refused (gr_order_type rq = ''renewal'') s rq p now = None"
      and e: "granted_end f ?rec s rq now = Inr e"
      and q: "granted_quota f ?rec (s\<lparr>sb_end := e\<rparr>) rq now = Inr (s', delta)"
      and g: "?s = granted_terms ?rec s' rq p now" "gt_after g = add64 (sub64 (sb_total s) (sb_used s)) delta" by metis
    have "quota_step (s\<lparr>sb_end := e\<rparr>) (s', delta)" using q assms(2) by (intro granted_quota_step) simp_all
    then have st: "sb_used s' = sb_used s" "delta = sb_total s' - sb_total s" "sb_end s' = e" "sub_ok s'"
      by (auto simp: quota_step_def)
    have live: "?rec \<or> (sb_ended s = None \<and> now < sb_end s)"
      using ref by (auto simp: grant_refused_def Let_def split: if_splits)
    then have "now < e" using granted_end_after[OF e assms(3,4)] by blast
    moreover have "sb_ended s' = None" using granted_quota_ended[OF q] live by auto
    moreover have "add64 (sb_total s - sb_used s) delta = sb_total s - sb_used s + delta"
      using st assms(2) by (intro add64_exact) (auto simp: sub_ok_def int64_simps)
    ultimately show ?thesis using st g sub_ok_balance[OF assms(2)] by simp
  qed
  then show ?thesis by (auto simp: access_available_def)
qed

theorem apply_grant_serves_witness:
  "\<exists>g. apply_grant sample_subscription sample_request sample_policy 900000000000000 = Inr g
    \<and> sb_ended (gt_subscription g) = None \<and> 900000000000000 < sb_end (gt_subscription g)"
proof -
  obtain g where g: "apply_grant sample_subscription sample_request sample_policy 900000000000000 = Inr g"
    using sample_after_end by blast
  have "gr_value sample_request * 12 \<le> max64" by (simp add: sample_request_def max64_def)
  moreover have "(900000000000000 :: int) < perpetual_end" by code_simp
  ultimately show ?thesis using apply_grant_serves[OF g sample_ok] g by simp
qed

text \<open>
  A renewal that only extends buys exactly one billing period: it is counted from the old end of a
  term still running or from the present, never loses time already paid, and leaves the quota of a
  running term alone, while a recovered term starts now with exactly the purchased quota.
\<close>

theorem renewal_extends_one_period:
  assumes "apply_grant s rq p now = Inr g" "\<not> gr_replace_term rq" "gr_order_type rq = ''renewal''"
    "trim_space (gr_effect rq) = ''extend_only''" "\<not> is_perpetual_end (sb_end s)" "sub_ok s"
  shows "add_billing_period (max (sb_end s) now) (gr_unit rq) (gr_value rq) = Inr (sb_end (gt_subscription g))
    \<and> (if sb_ended s = None \<and> now < sb_end s
       then sb_total (gt_subscription g) = sb_total s \<and> sb_cycle_used (gt_subscription g) = sb_cycle_used s
         \<and> sb_start (gt_subscription g) = sb_start s
       else gt_after g = gr_traffic rq \<and> sb_cycle_used (gt_subscription g) = sb_used s \<and> sb_start (gt_subscription g) = now)"
proof -
  let ?rec = "gr_order_type rq = ''renewal'' \<and> (sb_ended s \<noteq> None \<or> \<not> now < sb_end s)"
  from apply_grant_cases[OF assms(1,2)] obtain f e s' delta where
    f: "renewal_for_grant rq = Inr f" and e: "granted_end f ?rec s rq now = Inr e"
    and q: "granted_quota f ?rec (s\<lparr>sb_end := e\<rparr>) rq now = Inr (s', delta)"
    and g: "gt_subscription g = granted_terms ?rec s' rq p now"
      "gt_after g = add64 (sub64 (sb_total s) (sb_used s)) delta" by metis
  from f assms(3,4) have f': "f = no_renewal\<lparr>rn_extend := True\<rparr>" by (simp add: renewal_for_grant_def Let_def)
  have "(if sb_end s < now then now else sb_end s) = max (sb_end s) now" by (simp add: max_def)
  with e f' assms(5) have fin: "add_billing_period (max (sb_end s) now) (gr_unit rq) (gr_value rq) = Inr e"
    by (simp add: granted_end_def no_renewal_def)
  show ?thesis
  proof (cases "sb_ended s = None \<and> now < sb_end s")
    case True
    with q f' assms(3) have "s' = s\<lparr>sb_end := e\<rparr>" by (simp add: granted_quota_def no_renewal_def)
    with True fin g show ?thesis by simp
  next
    case False
    have ok: "sub_ok (s\<lparr>sb_end := e\<rparr>)" using assms(6) by simp
    from False q assms(3) have rq: "recover_quota (s\<lparr>sb_end := e\<rparr>) rq now = Inr (s', delta)"
      by (auto simp: granted_quota_def)
    then have t: "0 \<le> gr_traffic rq" "sb_used s \<le> max64 - gr_traffic rq" by (auto simp: recover_quota_def)
    note r = restart_quota[OF assms(6) t]
    from rq r have s': "sb_cycle_used s' = sb_used s" "sb_start s' = now" "delta = sb_used s + gr_traffic rq - sb_total s"
      "sb_end s' = e" by (auto simp: recover_quota_def Let_def)
    have "add64 (sb_total s - sb_used s) delta = gr_traffic rq"
      using s'(3) t assms(6) add64_exact[of "sb_total s - sb_used s" delta] by (simp add: int64_simps sub_ok_def)
    with False s' fin g sub_ok_balance[OF assms(6)] show ?thesis by auto
  qed
qed

theorem renewal_extends_one_period_witness:
  "\<exists>g. apply_grant sample_subscription sample_request sample_policy 900000000000000 = Inr g
    \<and> gt_after g = 100 \<and> sb_start (gt_subscription g) = 900000000000000"
proof -
  obtain g where g: "apply_grant sample_subscription sample_request sample_policy 900000000000000 = Inr g"
    using sample_after_end by blast
  have "\<not> is_perpetual_end (sb_end sample_subscription)" by code_simp
  with renewal_extends_one_period[OF g _ _ _ _ sample_ok] g sample_trim show ?thesis
    by (simp add: sample_subscription_def sample_request_def)
qed

lemma can_renew_at_window:
  assumes "case grace of None \<Rightarrow> True | Some g \<Rightarrow> 0 \<le> g"
  shows "can_renew_at s now grace \<longleftrightarrow>
    (sb_status s = ''active'' \<or> sb_status s = ''expired'') \<and> (sb_lifecycle s = ''renewable'' \<or> sb_lifecycle s = [])
    \<and> (if sb_end_reason s = ''canceled'' \<or> (sb_ended s = None \<and> now < sb_end s) then now < sb_end s
       else now < (case sb_ended s of None \<Rightarrow> sb_end s | Some e \<Rightarrow> e)
         + (case grace of None \<Rightarrow> renewal_grace_period | Some g \<Rightarrow> g))"
proof -
  have "0 \<le> (case grace of None \<Rightarrow> renewal_grace_period | Some g \<Rightarrow> g)"
    using assms by (auto simp: renewal_grace_period_def hour_def split: option.splits)
  moreover have "\<not> (case grace of None \<Rightarrow> False | Some g \<Rightarrow> g < 0)" using assms by (auto split: option.splits)
  ultimately show ?thesis
    by (cases "sb_ended s") (simp_all add: can_renew_at_def renewal_deadline_def Let_def)
qed

text \<open>
  The renewal window only closes: while the subscription is unchanged, a renewal refused at one
  instant is refused at every later one, whatever non-negative grace is configured.
\<close>

theorem renewal_window_closes:
  assumes "can_renew_at s later grace" "now \<le> later" "case grace of None \<Rightarrow> True | Some g \<Rightarrow> 0 \<le> g"
  shows "can_renew_at s now grace"
proof -
  let ?g = "case grace of None \<Rightarrow> renewal_grace_period | Some g \<Rightarrow> g"
  have g: "0 \<le> ?g"
    using assms(3) by (auto simp: renewal_grace_period_def hour_def split: option.splits)
  show ?thesis
  proof (cases "sb_ended s")
    case None
    then show ?thesis using assms(1,2) g by (simp add: can_renew_at_window[OF assms(3)] split: if_splits)
  next
    case (Some e)
    then show ?thesis using assms(1,2) by (simp add: can_renew_at_window[OF assms(3)] split: if_splits)
  qed
qed

theorem renewal_window_closes_witness: "can_renew_at sample_subscription 500000000000000 None"
proof -
  have "can_renew_at sample_subscription 900000000000000 None" by code_simp
  from renewal_window_closes[OF this, of 500000000000000] show ?thesis by simp
qed

text \<open>
  The end of an exhausted service is recorded once and no worker delay extends it: recording again
  changes nothing, the recorded end is never after the observation or the end of the term, and the
  deadline for a recovery is that end plus the grace period at every later time.
\<close>

theorem quota_exhaustion_recorded_once:
  assumes "record_quota_exhaustion s now \<noteq> s"
  shows "record_quota_exhaustion (record_quota_exhaustion s now) later = record_quota_exhaustion s now
    \<and> \<not> access_available (record_quota_exhaustion s now) later
    \<and> sb_ended (record_quota_exhaustion s now) = Some (min now (sb_end s))
    \<and> (renewal_deadline (record_quota_exhaustion s now) later grace \<in>
         {None, Some (min now (sb_end s) + (case grace of None \<Rightarrow> renewal_grace_period | Some g \<Rightarrow> g))})"
proof -
  let ?r = "record_quota_exhaustion s now"
  have ended: "sb_ended ?r = Some (min now (sb_end s))" using assms by (auto simp: record_quota_exhaustion_def Let_def min_def split: if_splits)
  then have "record_quota_exhaustion ?r later = ?r" by (simp add: record_quota_exhaustion_def[of ?r])
  with ended show ?thesis by (auto simp: access_available_def renewal_deadline_def[of ?r] Let_def)
qed

theorem quota_exhaustion_recorded_once_witness:
  "sb_ended (record_quota_exhaustion (sample_subscription\<lparr>sb_ends_on_exhaustion := True, sb_used := 100\<rparr>) 800000000000000)
    = Some 800000000000000"
proof -
  let ?s = "sample_subscription\<lparr>sb_ends_on_exhaustion := True, sb_used := 100\<rparr>"
  have "record_quota_exhaustion ?s 800000000000000 \<noteq> ?s"
    by (simp add: record_quota_exhaustion_def Let_def sample_subscription_def)
  from quota_exhaustion_recorded_once[OF this] show ?thesis by (simp add: sample_subscription_def)
qed

end
