(* ===== verification/ValueCapture.thy ===== *)
theory ValueCapture
  imports RefundBudgets Grants PerpetualValue Discounts
begin

text \<open>
  The value evidence a payment leaves on its order (\<^verbatim>\<open>commercestore/entitlement_value.go\<close>): what was paid, for which
  term, and how the payment may later be divided. Refunds, replacements and the value projections read nothing else.
\<close>

section \<open>The code\<close>

definition entitlement_value_state :: "subscription \<Rightarrow> entitlement_state" where
  "entitlement_value_state s = \<lparr>es_plan = sb_plan s, es_sku = sb_sku s, es_start = sb_start s, es_end = sb_end s, es_status = sb_status s,
     es_ended = sb_ended s, es_end_reason = sb_end_reason s, es_total = sb_total s, es_used = sb_used s, es_cycle_used = sb_cycle_used s,
     es_reset_quota = sb_reset_quota s, es_policy = sb_policy s, es_next_reset = sb_next_reset s\<rparr>"

text \<open>The snapshot before its mode is known. An order that costs nothing counts as verified.\<close>

definition opening_snapshot :: "order \<Rightarrow> subscription \<Rightarrow> subscription option \<Rightarrow> bool \<Rightarrow> gotime \<Rightarrow> entitlement_snapshot" where
  "opening_snapshot r sub previous verified now =
     \<lparr>sn_event_id = 0, sn_event_at = 0, sn_periods = [], sn_version = 1, sn_order = or_id r, sn_subscription = sb_id sub, sn_currency = or_currency r,
      sn_paid = or_payable r, sn_verified = (verified \<or> or_payable r = 0),
      sn_payment_basis = (if or_payable r = 0 then ''zero_additional_payment'' else if verified then ''verified_cash_or_wallet'' else ''manual_record_unverified''),
      sn_kind = or_type r, sn_mode = ''unsupported_legacy_effect'', sn_captured = now, sn_term_start = now, sn_term_end = sb_end sub,
      sn_billing_unit = or_unit r, sn_billing_value = or_value r, sn_model = ''uniform_paid_units_v1'',
      sn_before = map_option entitlement_value_state previous, sn_after = entitlement_value_state sub, sn_legacy_transfer = False\<rparr>"

text \<open>A cycle that resets before the term ends bounds what a reset or an addition is worth.\<close>

definition cycle_end :: "subscription \<Rightarrow> gotime \<Rightarrow> gotime" where
  "cycle_end sub stop = (case sb_next_reset sub of None \<Rightarrow> stop | Some t \<Rightarrow> if t < stop then t else stop)"

definition timed_addition :: "order \<Rightarrow> subscription \<Rightarrow> subscription \<Rightarrow> bool" where
  "timed_addition r sub p \<longleftrightarrow> \<not> is_perpetual_end (sb_end sub) \<and> sb_start sub = sb_start p \<and> sb_end sub = sb_end p \<and> sb_plan sub = sb_plan p
     \<and> sb_sku sub = sb_sku p \<and> sb_policy sub = sb_policy p \<and> sb_reset_quota sub = sb_reset_quota p
     \<and> same_value_reset (sb_next_reset p) (sb_next_reset sub) \<and> sb_used sub = sb_used p \<and> sb_cycle_used sub = sb_cycle_used p
     \<and> 0 < or_traffic r \<and> sb_total p < sb_total sub \<and> sub64 (sb_total sub) (sb_total p) = or_traffic r"

definition capture_renewal :: "subscription \<Rightarrow> subscription option \<Rightarrow> gotime \<Rightarrow> entitlement_snapshot \<Rightarrow> entitlement_snapshot" where
  "capture_renewal sub previous now snap =
     (case previous of
        None \<Rightarrow> snap
      | Some p \<Rightarrow>
          if sb_ended p \<noteq> None \<or> \<not> now < sb_end p then snap\<lparr>sn_mode := ''recovery_term'', sn_term_start := sb_start sub\<rparr>
          else if sb_end p < sb_end sub then snap\<lparr>sn_mode := ''extended_term'', sn_term_start := sb_end p\<rparr>
          else snap)"

definition capture_pack :: "order \<Rightarrow> subscription \<Rightarrow> subscription option \<Rightarrow> entitlement_snapshot \<Rightarrow> entitlement_snapshot" where
  "capture_pack r sub previous snap =
     (let snap = snap\<lparr>sn_model := ''legacy_value_requires_review''\<rparr> in
      case previous of
        None \<Rightarrow> snap
      | Some p \<Rightarrow>
          if sn_verified snap \<and> timed_addition r sub p
          then snap\<lparr>sn_mode := ''timed_quota_addition'', sn_model := timed_quota_addition_allocation, sn_term_end := cycle_end sub (sn_term_end snap)\<rparr>
          else snap)"

definition capture_mode :: "funding_env \<Rightarrow> order \<Rightarrow> subscription \<Rightarrow> subscription option \<Rightarrow> gotime \<Rightarrow> entitlement_snapshot \<Rightarrow> entitlement_snapshot result" where
  "capture_mode fe r sub previous now snap =
     (if or_type r = ''new'' then Inr (snap\<lparr>sn_mode := ''new_term'', sn_term_start := sb_start sub\<rparr>)
      else if or_type r = ''renewal'' then Inr (capture_renewal sub previous now snap)
      else if or_type r = ''traffic_reset'' then
        Inr (snap\<lparr>sn_mode := ''paid_reset'', sn_model := ''reset_value_continuity_v1'', sn_term_end := cycle_end sub (sn_term_end snap)\<rparr>)
      else if or_type r = ''traffic_pack'' then Inr (capture_pack r sub previous snap)
      else if or_type r = ''upgrade'' then
        try_bind (full_replacement_snapshot fe r) (\<lambda>full. Inr (case full of
            Some _ \<Rightarrow> snap\<lparr>sn_mode := ''replacement_term'', sn_term_start := sb_start sub\<rparr>
          | None \<Rightarrow> snap\<lparr>sn_mode := ''legacy_change'', sn_legacy_transfer := (or_change r \<noteq> []), sn_model := ''legacy_value_requires_review''\<rparr>))
      else Inr (snap\<lparr>sn_model := ''legacy_value_requires_review''\<rparr>))"

definition perpetual_addition :: "order \<Rightarrow> subscription \<Rightarrow> subscription \<Rightarrow> bool" where
  "perpetual_addition r sub p \<longleftrightarrow> is_perpetual_end (sb_end p) \<and> sb_end sub = sb_end p \<and> sb_start sub = sb_start p \<and> sb_used p = sb_used sub
     \<and> sb_cycle_used p = sb_cycle_used sub \<and> sb_total p < sb_total sub \<and> sub64 (sb_total sub) (sb_total p) = or_traffic r
     \<and> sb_next_reset sub = None \<and> (sb_policy sub = 0 \<or> sb_policy sub = 5)
     \<and> (or_type r = ''traffic_pack'' \<or> or_type r = ''renewal'' \<and> or_unit r = ''once'')"

definition capture_allocation :: "order \<Rightarrow> subscription \<Rightarrow> subscription option \<Rightarrow> entitlement_snapshot \<Rightarrow> entitlement_snapshot" where
  "capture_allocation r sub previous snap =
     (case previous of
        None \<Rightarrow> snap
      | Some p \<Rightarrow>
          if sn_model snap \<noteq> ''purchase_value_policy_unavailable'' \<and> sn_verified snap \<and> perpetual_addition r sub p
          then snap\<lparr>sn_mode := ''perpetual_quota_addition'', sn_model := perpetual_fifo_allocation\<rparr> else snap)"

definition capture_periods :: "subscription \<Rightarrow> entitlement_snapshot \<Rightarrow> entitlement_snapshot" where
  "capture_periods sub snap =
     (if sn_model snap = ''uniform_paid_units_v1'' \<and> sn_verified snap
         \<and> (sn_mode snap = ''new_term'' \<or> sn_mode snap = ''extended_term'' \<or> sn_mode snap = ''recovery_term'' \<or> sn_mode snap = ''replacement_term'')
      then
        (if sn_billing_unit snap = ''once'' \<and> sn_billing_value snap = 1 \<and> is_perpetual_end (sn_term_end snap)
            \<and> (sb_policy sub = 0 \<or> sb_policy sub = 5) \<and> sb_next_reset sub = None \<and> sn_mode snap \<noteq> ''extended_term''
         then snap\<lparr>sn_model := perpetual_quota_allocation\<rparr>
         else case uniform_paid_periods (sn_term_start snap) (sn_term_end snap) (sn_billing_unit snap) (sn_billing_value snap) (sn_paid snap) of
             Inr ps \<Rightarrow> snap\<lparr>sn_periods := ps\<rparr>
           | Inl _ \<Rightarrow> snap\<lparr>sn_model := ''value_requires_review''\<rparr>)
      else snap)"

text \<open>The quota event is the last one the order itself left on the subscription; the purchase snapshot is read as plain JSON.\<close>

definition capture_snapshot :: "funding_env \<Rightarrow> (string \<Rightarrow> purchase_snapshot option) \<Rightarrow> order \<Rightarrow> subscription \<Rightarrow> subscription option \<Rightarrow> bool \<Rightarrow>
    (nat \<times> gotime) option \<Rightarrow> gotime \<Rightarrow> entitlement_snapshot result" where
  "capture_snapshot fe purchase r sub previous verified event now =
     (if or_value_snapshot r \<noteq> [] then Inl (ErrNamed ''EvidencePresent'')
      else try_bind (capture_mode fe r sub previous now (opening_snapshot r sub previous verified now)) (\<lambda>snap.
        case event of
          None \<Rightarrow> Inl (ErrNamed ''ErrRecordNotFound'')
        | Some (n, at) \<Rightarrow>
            let snap = snap\<lparr>sn_event_id := n, sn_event_at := at\<rparr>;
                snap = (case purchase (or_purchase_snapshot r) of
                    None \<Rightarrow> snap\<lparr>sn_model := ''purchase_value_policy_unavailable''\<rparr>
                  | Some p \<Rightarrow> if ps_model p = [] then snap\<lparr>sn_model := ''purchase_value_policy_unavailable''\<rparr> else snap)
            in Inr (capture_periods sub (capture_allocation r sub previous snap))))"

text \<open>The evidence is written only to an order that has none and is not paid yet.\<close>

definition write_evidence :: "shop_db \<Rightarrow> order \<Rightarrow> string \<Rightarrow> (order \<times> shop_db) result" where
  "write_evidence shop r payload =
     (case db_orders shop (or_id r) of
        None \<Rightarrow> Inl (ErrNamed ''EvidenceChanged'')
      | Some row \<Rightarrow>
          if (or_status row = ''pending'' \<or> or_status row \<noteq> ''paid'') \<and> or_value_snapshot row = []
          then Inr (r\<lparr>or_value_snapshot := payload\<rparr>, set_order shop (row\<lparr>or_value_snapshot := payload\<rparr>))
          else Inl (ErrNamed ''EvidenceChanged''))"

section \<open>What the evidence says\<close>

lemma capture_periods_facts:
  "sn_version (capture_periods sub s) = sn_version s" "sn_order (capture_periods sub s) = sn_order s"
  "sn_subscription (capture_periods sub s) = sn_subscription s" "sn_currency (capture_periods sub s) = sn_currency s"
  "sn_paid (capture_periods sub s) = sn_paid s" "sn_verified (capture_periods sub s) = sn_verified s"
  "sn_legacy_transfer (capture_periods sub s) = sn_legacy_transfer s" "sn_event_id (capture_periods sub s) = sn_event_id s"
  "sn_event_at (capture_periods sub s) = sn_event_at s" "sn_captured (capture_periods sub s) = sn_captured s"
  "sn_mode (capture_periods sub s) = sn_mode s" "sn_term_start (capture_periods sub s) = sn_term_start s"
  "sn_term_end (capture_periods sub s) = sn_term_end s" "sn_after (capture_periods sub s) = sn_after s"
  by (auto simp: capture_periods_def split: sum.splits)

lemma capture_allocation_facts:
  "sn_version (capture_allocation r sub p s) = sn_version s" "sn_order (capture_allocation r sub p s) = sn_order s"
  "sn_subscription (capture_allocation r sub p s) = sn_subscription s" "sn_currency (capture_allocation r sub p s) = sn_currency s"
  "sn_paid (capture_allocation r sub p s) = sn_paid s" "sn_verified (capture_allocation r sub p s) = sn_verified s"
  "sn_legacy_transfer (capture_allocation r sub p s) = sn_legacy_transfer s" "sn_event_id (capture_allocation r sub p s) = sn_event_id s"
  "sn_event_at (capture_allocation r sub p s) = sn_event_at s" "sn_captured (capture_allocation r sub p s) = sn_captured s"
  "sn_term_start (capture_allocation r sub p s) = sn_term_start s" "sn_term_end (capture_allocation r sub p s) = sn_term_end s"
  "sn_after (capture_allocation r sub p s) = sn_after s" "sn_periods (capture_allocation r sub p s) = sn_periods s"
  "sn_mode (capture_allocation r sub p s) \<noteq> ''perpetual_quota_addition'' \<Longrightarrow> capture_allocation r sub p s = s"
  by (auto simp: capture_allocation_def split: option.splits)

lemma capture_renewal_facts:
  "sn_version (capture_renewal sub p now s) = sn_version s" "sn_order (capture_renewal sub p now s) = sn_order s"
  "sn_subscription (capture_renewal sub p now s) = sn_subscription s" "sn_currency (capture_renewal sub p now s) = sn_currency s"
  "sn_paid (capture_renewal sub p now s) = sn_paid s" "sn_verified (capture_renewal sub p now s) = sn_verified s"
  "sn_captured (capture_renewal sub p now s) = sn_captured s" "sn_after (capture_renewal sub p now s) = sn_after s"
  "sn_periods (capture_renewal sub p now s) = sn_periods s" "sn_term_end (capture_renewal sub p now s) = sn_term_end s"
  "sn_legacy_transfer (capture_renewal sub p now s) = sn_legacy_transfer s"
  by (simp_all add: capture_renewal_def split: option.splits)

lemma capture_renewal_root:
  assumes "is_term_root (sn_mode (capture_renewal sub p now s))" "\<not> is_term_root (sn_mode s)"
  shows "sn_term_start (capture_renewal sub p now s) = sb_start sub"
proof (cases p)
  case (Some q)
  show ?thesis
  proof (cases "sb_ended q \<noteq> None \<or> \<not> now < sb_end q")
    case False
    with Some assms show ?thesis by (cases "sb_end q < sb_end sub") (simp_all add: capture_renewal_def is_term_root_def)
  qed (simp add: capture_renewal_def Some)
qed (use assms in \<open>simp add: capture_renewal_def\<close>)

lemma capture_pack_facts:
  "sn_version (capture_pack r sub p s) = sn_version s" "sn_order (capture_pack r sub p s) = sn_order s"
  "sn_subscription (capture_pack r sub p s) = sn_subscription s" "sn_currency (capture_pack r sub p s) = sn_currency s"
  "sn_paid (capture_pack r sub p s) = sn_paid s" "sn_verified (capture_pack r sub p s) = sn_verified s"
  "sn_captured (capture_pack r sub p s) = sn_captured s" "sn_after (capture_pack r sub p s) = sn_after s"
  "sn_periods (capture_pack r sub p s) = sn_periods s" "\<not> is_term_root (sn_mode s) \<Longrightarrow> \<not> is_term_root (sn_mode (capture_pack r sub p s))"
  by (simp_all add: capture_pack_def Let_def is_term_root_def split: option.splits)

lemma capture_mode_cases:
  assumes "capture_mode fe r sub p now s = Inr s'"
  obtains (rooted) mode where "is_term_root mode" "s' = s\<lparr>sn_mode := mode, sn_term_start := sb_start sub\<rparr>"
  | (renewal) "s' = capture_renewal sub p now s"
  | (reset) "s' = s\<lparr>sn_mode := ''paid_reset'', sn_model := ''reset_value_continuity_v1'', sn_term_end := cycle_end sub (sn_term_end s)\<rparr>"
  | (pack) "s' = capture_pack r sub p s"
  | (change) l where "s' = s\<lparr>sn_mode := ''legacy_change'', sn_legacy_transfer := l, sn_model := ''legacy_value_requires_review''\<rparr>"
  | (other) "s' = s\<lparr>sn_model := ''legacy_value_requires_review''\<rparr>"
proof -
  have root: "is_term_root ''new_term''" "is_term_root ''replacement_term''" by (simp_all add: is_term_root_def)
  consider "or_type r = ''new''" | "or_type r = ''renewal''" | "or_type r = ''traffic_reset''" | "or_type r = ''traffic_pack''"
    | full where "or_type r = ''upgrade''" "full_replacement_snapshot fe r = Inr full"
    | "or_type r \<notin> {''new'', ''renewal'', ''traffic_reset'', ''traffic_pack'', ''upgrade''}"
    using assms by (cases "or_type r = ''upgrade''"; fastforce simp: capture_mode_def)
  then show ?thesis
  proof cases
    case (5 full)
    with assms show ?thesis by (cases full) (auto simp: capture_mode_def intro: rooted[OF root(2)] change)
  qed (use assms root in \<open>simp_all add: capture_mode_def that\<close>)
qed

lemma capture_mode_facts:
  assumes "capture_mode fe r sub p now s = Inr s'"
  shows "sn_version s' = sn_version s" "sn_order s' = sn_order s" "sn_subscription s' = sn_subscription s" "sn_currency s' = sn_currency s"
    "sn_paid s' = sn_paid s" "sn_verified s' = sn_verified s" "sn_captured s' = sn_captured s" "sn_after s' = sn_after s" "sn_periods s' = sn_periods s"
  by (cases rule: capture_mode_cases[OF assms]; simp add: capture_renewal_facts capture_pack_facts)+

lemma capture_mode_root:
  assumes "capture_mode fe r sub p now s = Inr s'" "\<not> is_term_root (sn_mode s)" "sn_term_end s = sb_end sub" "\<not> sn_legacy_transfer s"
    "is_term_root (sn_mode s')"
  shows "sn_term_start s' = sb_start sub \<and> sn_term_end s' = sb_end sub \<and> \<not> sn_legacy_transfer s'"
  using assms(1)
proof (cases rule: capture_mode_cases)
  case reset
  with assms(5) show ?thesis by (simp add: is_term_root_def)
next
  case (change l)
  with assms(5) show ?thesis by (simp add: is_term_root_def)
qed (use assms in \<open>simp_all add: capture_renewal_facts capture_renewal_root capture_pack_facts\<close>)

lemma append_periods_chain:
  assumes "periods_chain (case prev of None \<Rightarrow> start | Some q \<Rightarrow> pp_end q) ps stop" "\<forall>p \<in> set ps. 0 \<le> pp_amount p"
    "0 \<le> paid" "paid + sum_list (map pp_amount ps) \<le> max64"
  shows "append_periods start order prev paid ps f = Inr (paid + sum_list (map pp_amount ps),
    f\<lparr>vf_periods := vf_periods f @ ps, vf_owners := vf_owners f @ replicate (length ps) order\<rparr>)"
  using assms
proof (induction ps arbitrary: prev paid f)
  case (Cons p ps)
  have rest: "0 \<le> sum_list (map pp_amount ps)" using Cons.prems(2) by (intro sum_list_nonneg_int) auto
  have p: "0 \<le> pp_amount p" "paid + pp_amount p \<le> max64" "add64 paid (pp_amount p) = paid + pp_amount p"
    using Cons.prems(2-4) rest by (auto simp: add64_exact int64_simps)
  have c: "pp_start p = (case prev of None \<Rightarrow> start | Some q \<Rightarrow> pp_end q)" "periods_chain (case Some p of None \<Rightarrow> start | Some q \<Rightarrow> pp_end q) ps stop"
    using Cons.prems(1) by auto
  show ?case
    using Cons.IH[OF c(2), of "paid + pp_amount p"] Cons.prems(2-4) p c(1) by (auto simp: replicate_append_same split: option.splits)
qed simp

lemma capture_snapshot_cases:
  assumes "capture_snapshot fe purchase r sub p verified event now = Inr s"
  obtains n at s1 s2 where "or_value_snapshot r = []" "event = Some (n, at)" "capture_mode fe r sub p now (opening_snapshot r sub p verified now) = Inr s1"
    "s2 = s1\<lparr>sn_event_id := n, sn_event_at := at\<rparr> \<or> s2 = s1\<lparr>sn_event_id := n, sn_event_at := at, sn_model := ''purchase_value_policy_unavailable''\<rparr>"
    "s = capture_periods sub (capture_allocation r sub p s2)"
proof -
  obtain n at s1 where e: "or_value_snapshot r = []" "event = Some (n, at)" "capture_mode fe r sub p now (opening_snapshot r sub p verified now) = Inr s1"
    using assms by (auto simp: capture_snapshot_def split: option.splits)
  then have "s = capture_periods sub (capture_allocation r sub p (case purchase (or_purchase_snapshot r) of
        None \<Rightarrow> s1\<lparr>sn_event_id := n, sn_event_at := at, sn_model := ''purchase_value_policy_unavailable''\<rparr>
      | Some q \<Rightarrow> if ps_model q = [] then s1\<lparr>sn_event_id := n, sn_event_at := at, sn_model := ''purchase_value_policy_unavailable''\<rparr>
          else s1\<lparr>sn_event_id := n, sn_event_at := at\<rparr>))"
    using assms by (simp add: capture_snapshot_def Let_def)
  then consider "s = capture_periods sub (capture_allocation r sub p (s1\<lparr>sn_event_id := n, sn_event_at := at\<rparr>))"
    | "s = capture_periods sub (capture_allocation r sub p (s1\<lparr>sn_event_id := n, sn_event_at := at, sn_model := ''purchase_value_policy_unavailable''\<rparr>))"
    by (cases "purchase (or_purchase_snapshot r)") (simp_all split: if_splits)
  then show ?thesis by cases (rule that[OF e _ _], simp_all)+
qed

lemma opening_snapshot_facts [simp]:
  "sn_version (opening_snapshot r sub p v now) = 1" "sn_order (opening_snapshot r sub p v now) = or_id r"
  "sn_subscription (opening_snapshot r sub p v now) = sb_id sub" "sn_currency (opening_snapshot r sub p v now) = or_currency r"
  "sn_paid (opening_snapshot r sub p v now) = or_payable r" "sn_verified (opening_snapshot r sub p v now) = (v \<or> or_payable r = 0)"
  "sn_captured (opening_snapshot r sub p v now) = now" "sn_after (opening_snapshot r sub p v now) = entitlement_value_state sub"
  "sn_periods (opening_snapshot r sub p v now) = []" "sn_term_end (opening_snapshot r sub p v now) = sb_end sub"
  "\<not> sn_legacy_transfer (opening_snapshot r sub p v now)" "\<not> is_term_root (sn_mode (opening_snapshot r sub p v now))"
  by (simp_all add: opening_snapshot_def is_term_root_def)

lemma capture_snapshot_facts:
  assumes "capture_snapshot fe purchase r sub p verified (Some (n, at)) now = Inr s"
  shows "sn_version s = 1" "sn_order s = or_id r" "sn_subscription s = sb_id sub" "sn_currency s = or_currency r" "sn_paid s = or_payable r"
    "sn_verified s = (verified \<or> or_payable r = 0)" "sn_captured s = now" "sn_after s = entitlement_value_state sub" "sn_event_id s = n" "sn_event_at s = at"
    "is_term_root (sn_mode s) \<Longrightarrow> sn_term_start s = sb_start sub \<and> sn_term_end s = sb_end sub \<and> \<not> sn_legacy_transfer s"
proof -
  obtain n' at' s1 s2 where c: "Some (n, at) = Some (n', at')" "capture_mode fe r sub p now (opening_snapshot r sub p verified now) = Inr s1"
    "s2 = s1\<lparr>sn_event_id := n', sn_event_at := at'\<rparr> \<or> s2 = s1\<lparr>sn_event_id := n', sn_event_at := at', sn_model := ''purchase_value_policy_unavailable''\<rparr>"
    "s = capture_periods sub (capture_allocation r sub p s2)"
    by (rule capture_snapshot_cases[OF assms])
  note m = capture_mode_facts[OF c(2)]
  have s2: "sn_version s2 = 1" "sn_order s2 = or_id r" "sn_subscription s2 = sb_id sub" "sn_currency s2 = or_currency r" "sn_paid s2 = or_payable r"
    "sn_verified s2 = (verified \<or> or_payable r = 0)" "sn_captured s2 = now" "sn_after s2 = entitlement_value_state sub" "sn_event_id s2 = n" "sn_event_at s2 = at"
    "sn_mode s2 = sn_mode s1" "sn_term_start s2 = sn_term_start s1" "sn_term_end s2 = sn_term_end s1" "sn_legacy_transfer s2 = sn_legacy_transfer s1"
    using c(1,3) m by auto
  then show "sn_version s = 1" "sn_order s = or_id r" "sn_subscription s = sb_id sub" "sn_currency s = or_currency r" "sn_paid s = or_payable r"
    "sn_verified s = (verified \<or> or_payable r = 0)" "sn_captured s = now" "sn_after s = entitlement_value_state sub" "sn_event_id s = n" "sn_event_at s = at"
    by (simp_all add: c(4) capture_periods_facts capture_allocation_facts)
  show "sn_term_start s = sb_start sub \<and> sn_term_end s = sb_end sub \<and> \<not> sn_legacy_transfer s" if root: "is_term_root (sn_mode s)"
  proof -
    have "sn_mode (capture_allocation r sub p s2) \<noteq> ''perpetual_quota_addition''"
      using root by (auto simp: c(4) capture_periods_facts is_term_root_def)
    then have same: "capture_allocation r sub p s2 = s2" by (rule capture_allocation_facts)
    with root s2 have "is_term_root (sn_mode s1)" by (simp add: c(4) capture_periods_facts)
    with capture_mode_root[OF c(2)] s2 show ?thesis by (simp add: c(4) capture_periods_facts same)
  qed
qed

lemma capture_periods_exact:
  assumes "sn_model (capture_periods sub s) = ''uniform_paid_units_v1''" "is_term_root (sn_mode s)" "sn_verified s"
  shows "uniform_paid_periods (sn_term_start s) (sn_term_end s) (sn_billing_unit s) (sn_billing_value s) (sn_paid s) = Inr (sn_periods (capture_periods sub s))"
proof -
  have m: "sn_model s = ''uniform_paid_units_v1''" using assms(1) by (auto simp: capture_periods_def perpetual_quota_allocation_def split: if_splits sum.splits)
  have mode: "sn_mode s = ''new_term'' \<or> sn_mode s = ''extended_term'' \<or> sn_mode s = ''recovery_term'' \<or> sn_mode s = ''replacement_term''"
    using assms(2) unfolding is_term_root_def by argo
  from assms(1) m mode assms(3) show ?thesis
    by (auto simp: capture_periods_def perpetual_quota_allocation_def split: if_splits sum.splits)
qed

section \<open>A concrete payment\<close>

definition sample_term :: subscription where
  "sample_term = sample_subscription\<lparr>sb_id := 6, sb_user := 2, sb_plan := 3, sb_sku := 4, sb_start := 86400000000000, sb_end := 86400000000000 + 2 * nanos_per_day,
     sb_ended := None, sb_next_reset := None\<rparr>"

definition sample_bought :: order where
  "sample_bought = OrderFunding.sample_order\<lparr>or_unit := ''day'', or_value := 2, or_payable := 300, or_purchase_snapshot := ''policy''\<rparr>"

definition sample_purchase_text :: "string \<Rightarrow> purchase_snapshot option" where
  "sample_purchase_text s = (if s = ''policy'' then Some \<lparr>ps_discount = None, ps_model = ''uniform_paid_units_v1'', ps_version = 1, ps_base = 300, ps_currency = ''USD'',
     ps_unit = ''day'', ps_value = 2, ps_effect = [], ps_renewable = True, ps_policy = 0, ps_calc_mode = 0, ps_family = 0, ps_renewal_target = None\<rparr> else None)"

lemma sample_capture:
  obtains s where "capture_snapshot sample_funding_env sample_purchase_text sample_bought sample_term None True (Some (9, 86400000000000)) 86400000000000 = Inr s"
    "sn_mode s = ''new_term''" "sn_model s = ''uniform_paid_units_v1''"
proof -
  have "(case capture_snapshot sample_funding_env sample_purchase_text sample_bought sample_term None True (Some (9, 86400000000000)) 86400000000000 of
      Inl _ \<Rightarrow> False | Inr s \<Rightarrow> sn_mode s = ''new_term'' \<and> sn_model s = ''uniform_paid_units_v1'')" by code_simp
  then show ?thesis unfolding case_result_holds by (auto intro: that)
qed

section \<open>Properties\<close>

text \<open>
  C16. The evidence captured by a payment is the evidence the valuation accepts: a paid term opens a value frame
  exactly when its payment is verified and its purchase allows uniform units, and the frame then holds the
  captured periods, owned by the order, whose amounts add up to exactly what was paid. In every other case the
  valuation refuses the record, it never values a payment it cannot divide.
\<close>
theorem captured_term_valued:
  assumes "capture_snapshot fe purchase r sub previous verified (Some (n, at)) now = Inr s" "or_id r \<noteq> 0" "n \<noteq> 0" "\<not> is_zero at" "\<not> is_zero now"
    "0 \<le> or_payable r" "or_payable r \<le> max64"
  shows "timed_root digest (or_currency r) epoch events False s =
      (if is_term_root (sn_mode s) \<and> sn_model s = ''uniform_paid_units_v1'' \<and> (verified \<or> or_payable r = 0)
       then Inr (\<lparr>vf_periods = sn_periods s, vf_owners = replicate (length (sn_periods s)) (or_id r), vf_anchor = sb_start sub, vf_end = sb_end sub,
              vf_basis = None, vf_cache = None\<rparr>, None)
       else Inl ErrValueEvidence)
    \<and> (is_term_root (sn_mode s) \<and> sn_model s = ''uniform_paid_units_v1'' \<and> (verified \<or> or_payable r = 0) \<longrightarrow>
         sum_list (map pp_amount (sn_periods s)) = or_payable r)"
proof -
  note f = capture_snapshot_facts[OF assms(1)]
  have state: "es_start (sn_after s) = sb_start sub" "es_end (sn_after s) = sb_end sub" by (simp_all add: f entitlement_value_state_def)
  show ?thesis
  proof (cases "is_term_root (sn_mode s) \<and> sn_model s = ''uniform_paid_units_v1'' \<and> (verified \<or> or_payable r = 0)")
    case True
    then have root: "is_term_root (sn_mode s)" and model: "sn_model s = ''uniform_paid_units_v1''" and ver: "sn_verified s" using f(6) by auto
    note t = f(11)[OF root]
    obtain s3 where s3: "s = capture_periods sub s3" using capture_snapshot_cases[OF assms(1)] by metis
    have up: "uniform_paid_periods (sn_term_start s) (sn_term_end s) (sn_billing_unit s3) (sn_billing_value s3) (or_payable r) = Inr (sn_periods s)"
      using capture_periods_exact[of sub s3] model root ver f(5) s3 by (simp add: capture_periods_facts)
    note u = uniform_paid_periods_facts[OF up assms(7)]
    have pos: "\<forall>p \<in> set (sn_periods s). 0 \<le> pp_amount p"
    proof
      fix p assume "p \<in> set (sn_periods s)"
      with u have "or_payable r div int (length (sn_periods s)) \<le> pp_amount p" by auto
      moreover have "0 \<le> or_payable r div int (length (sn_periods s))" using assms(6) by (simp add: div_int_pos_iff)
      ultimately show "0 \<le> pp_amount p" by simp
    qed
    have chain: "periods_chain (sb_start sub) (sn_periods s) (sb_end sub)" "sum_list (map pp_amount (sn_periods s)) = or_payable r" using u t by simp_all
    have ne: "sn_periods s \<noteq> []" using u up by (auto simp: uniform_paid_periods_def)
    have "pp_end (last (sn_periods s)) = sb_end sub" using chain_last[OF chain(1)] ne by (simp add: last_map)
    moreover have "append_periods (sb_start sub) (or_id r) None 0 (sn_periods s) fr = Inr (or_payable r,
        fr\<lparr>vf_periods := vf_periods fr @ sn_periods s, vf_owners := vf_owners fr @ replicate (length (sn_periods s)) (or_id r)\<rparr>)" for fr
      using append_periods_chain[where prev = None and start = "sb_start sub" and ps = "sn_periods s" and stop = "sb_end sub" and paid = 0 and order = "or_id r" and f = fr] chain pos assms(7) by simp
    ultimately have "timed_root digest (or_currency r) epoch events False s =
        Inr (\<lparr>vf_periods = sn_periods s, vf_owners = replicate (length (sn_periods s)) (or_id r), vf_anchor = sb_start sub, vf_end = sb_end sub,
              vf_basis = None, vf_cache = None\<rparr>, None)"
      using root model ver t ne assms by (simp add: timed_root_def snapshot_ok_def append_value_periods_def state f(1-7,9,10))
    with True chain(2) show ?thesis by simp
  next
    case False
    then have "timed_root digest (or_currency r) epoch events False s = Inl ErrValueEvidence"
      using f(6) by (auto simp: timed_root_def append_value_periods_def snapshot_ok_def)
    with False show ?thesis by argo
  qed
qed

theorem captured_term_valued_witness:
  "\<exists>s. timed_root (\<lambda>_. Inr []) ''USD'' 0 [] False s = Inr (\<lparr>vf_periods = sn_periods s, vf_owners = replicate (length (sn_periods s)) 7,
      vf_anchor = 86400000000000, vf_end = 86400000000000 + 2 * nanos_per_day, vf_basis = None, vf_cache = None\<rparr>, None)
    \<and> sum_list (map pp_amount (sn_periods s)) = 300"
proof -
  obtain s where s: "capture_snapshot sample_funding_env sample_purchase_text sample_bought sample_term None True (Some (9, 86400000000000)) 86400000000000 = Inr s"
    "sn_mode s = ''new_term''" "sn_model s = ''uniform_paid_units_v1''" by (rule sample_capture)
  have o: "or_id sample_bought = 7" "or_currency sample_bought = ''USD''" "or_payable sample_bought = 300" "sb_start sample_term = 86400000000000"
    "sb_end sample_term = 86400000000000 + 2 * nanos_per_day"
    by (simp_all add: sample_bought_def OrderFunding.sample_order_def sample_term_def)
  have root: "is_term_root (sn_mode s)" by (simp add: s(2) is_term_root_def)
  have pre: "or_id sample_bought \<noteq> 0" "(9 :: nat) \<noteq> 0" "\<not> is_zero 86400000000000" "0 \<le> or_payable sample_bought" "or_payable sample_bought \<le> max64"
    by (simp_all add: o is_zero_def max64_def)
  note v = captured_term_valued[OF s(1) pre(1,2,3,3,4,5), where digest = "\<lambda>_. Inr []" and epoch = 0 and events = "[]"]
  show ?thesis by (rule exI[of _ s]) (use v root s(3) o in simp)
qed

text \<open>
  C28. Only verified money can come back: once an order is paid on its captured evidence, its refund budget opens at
  exactly the amount paid if the payment was verified by a channel or the wallet, and a payment an administrator
  merely recorded never opens a budget, so no refund, replacement or termination pays it out.
\<close>
theorem refundable_iff_verified:
  assumes "capture_snapshot fe purchase r sub previous verified (Some (n, at)) now = Inr s" "re_decode re payload = Some s" "or_type r \<noteq> ''topup''"
    "0 < or_payable r" "or_payable r \<le> max64" "rf_budgets db (or_id r) = None" "\<forall>x \<in> set (rf_sources db). so_order x \<noteq> or_id r" "or_refund r = 0"
    "paid = r\<lparr>or_status := ''paid'', or_subscription := sb_id sub, or_paid := or_payable r, or_fulfilled_at := Some later, or_value_snapshot := payload\<rparr>"
  shows "lock_order_refund_budget re db paid =
    (if verified then Inr (opening_budget re paid, db\<lparr>rf_budgets := (rf_budgets db)(or_id r := Some (opening_budget re paid))\<rparr>)
     else Inl ErrSubscriptionValueUnavailable)"
proof -
  note f = capture_snapshot_facts[OF assms(1)]
  have p: "or_id paid = or_id r" "or_user paid = or_user r" "or_currency paid = or_currency r" "or_refund paid = 0" "or_paid paid = or_payable r"
    using assms(8,9) by simp_all
  have "value_proven re paid \<longleftrightarrow> verified" using assms(2-4,9) f by (simp add: value_proven_def)
  moreover have "\<not> budget_broken re paid (opening_budget re paid)"
    using assms(4,5) p by (simp add: budget_broken_def opening_budget_def sub64_nonneg)
  ultimately show ?thesis using assms(6,7) p by (auto simp: lock_order_refund_budget_def Let_def)
qed

theorem refundable_iff_verified_witness:
  "\<exists>s paid. lock_order_refund_budget \<lparr>re_funding = sample_funding_env, re_decode = (\<lambda>_. Some s), re_json = (\<lambda>_ _. [])\<rparr> (empty_refunds empty_db) paid
     = Inl ErrSubscriptionValueUnavailable \<and> or_status paid = ''paid'' \<and> or_paid paid = 300"
proof -
  have "(case capture_snapshot sample_funding_env sample_purchase_text sample_bought sample_term None False (Some (9, 86400000000000)) 86400000000000 of
      Inl _ \<Rightarrow> False | Inr s \<Rightarrow> True)" by code_simp
  then obtain s where s: "capture_snapshot sample_funding_env sample_purchase_text sample_bought sample_term None False (Some (9, 86400000000000)) 86400000000000 = Inr s"
    unfolding case_result_holds by blast
  have o: "or_type sample_bought \<noteq> ''topup''" "or_payable sample_bought = 300" "or_refund sample_bought = 0"
    by (simp_all add: sample_bought_def OrderFunding.sample_order_def)
  let ?re = "\<lparr>re_funding = sample_funding_env, re_decode = (\<lambda>_. Some s), re_json = (\<lambda>_ _. [])\<rparr>"
  let ?paid = "sample_bought\<lparr>or_status := ''paid'', or_subscription := sb_id sample_term, or_paid := or_payable sample_bought,
    or_fulfilled_at := Some 5, or_value_snapshot := []\<rparr>"
  have "lock_order_refund_budget ?re (empty_refunds empty_db) ?paid = Inl ErrSubscriptionValueUnavailable"
    using refundable_iff_verified[OF s, of ?re "[]" "empty_refunds empty_db" ?paid 5] o by (simp add: empty_refunds_def max64_def)
  then show ?thesis by (intro exI[of _ s] exI[of _ ?paid]) (simp add: o)
qed

end
