(* ===== verification/Settlement.thy ===== *)
theory Settlement
  imports ValueCapture
begin

text \<open>
  How an order becomes paid (\<^verbatim>\<open>commercestore/order_fulfillment.go\<close>, \<^verbatim>\<open>order_settlement.go\<close>,
  \<^verbatim>\<open>full_replacement_settlement.go\<close>, the snapshot checks of \<^verbatim>\<open>purchase_snapshot.go\<close> and the payment by balance of
  \<^verbatim>\<open>wallet_payments.go\<close>): gates, the policy of the purchase, settlement of a replaced subscription, the grant, the
  capture of the reserved money, the value evidence and the paid row, in one transaction. Subscriptions, plans,
  credentials and discount reservations live in tables outside this model: the state \<open>'w\<close> stands for them and
  \<open>market\<close> for the operations on them.
\<close>

section \<open>State and environment\<close>

record plan_row =
  pn_group :: nat
  pn_renewable :: bool
  pn_family :: int
  pn_reset :: int
  pn_calc_mode :: int
  pn_max_active :: int

text \<open>What a grant reports: the subscription, its state before, and the orders whose term it closed.\<close>

record ended_order =
  eo_order :: nat
  eo_at :: gotime
  eo_reason :: string
  eo_total :: int
  eo_used :: int

record 'w fulfilment =
  fm_sub :: subscription
  fm_previous :: "subscription option"
  fm_ended :: "ended_order list"
  fm_world :: 'w

record 'w market =
  mk_refund :: refund_env
  mk_codec :: discount_codec
  mk_fields :: "string \<Rightarrow> (string \<Rightarrow> string option) option"
  mk_purchase :: "string \<Rightarrow> purchase_snapshot option"
  mk_evidence :: "entitlement_snapshot \<Rightarrow> string result"
  mk_sub :: "'w \<Rightarrow> nat \<Rightarrow> subscription option"
  mk_plan :: "'w \<Rightarrow> nat \<Rightarrow> plan_row option"
  mk_sku :: "'w \<Rightarrow> nat \<Rightarrow> bool"
  mk_renew_skus :: "'w \<Rightarrow> nat \<Rightarrow> nat"
  mk_grace :: "'w \<Rightarrow> int result"
  mk_agreement :: "'w \<Rightarrow> shop_db \<Rightarrow> order \<Rightarrow> nat \<Rightarrow> (int \<times> bool) result"
  mk_replacement_quote :: "'w \<Rightarrow> shop_db \<Rightarrow> order \<Rightarrow> change_snapshot \<Rightarrow> gotime \<Rightarrow> unit result"
  mk_change_quote :: "'w \<Rightarrow> shop_db \<Rightarrow> order \<Rightarrow> gotime \<Rightarrow> unit result"
  mk_scope :: "'w \<Rightarrow> shop_db \<Rightarrow> nat \<Rightarrow> nat \<Rightarrow> nat \<Rightarrow> bool \<Rightarrow> unit result"
  mk_budget :: "order list \<Rightarrow> unit result"
  mk_fulfil :: "'w \<Rightarrow> grant_request \<Rightarrow> grant_policy \<Rightarrow> gotime \<Rightarrow> 'w fulfilment result"
  mk_event :: "'w \<Rightarrow> nat \<Rightarrow> nat \<Rightarrow> (nat \<times> gotime) option"
  mk_stop_renewal :: "'w \<Rightarrow> nat \<Rightarrow> gotime \<Rightarrow> 'w"
  mk_commit :: "'w \<Rightarrow> order \<Rightarrow> gotime \<Rightarrow> 'w result"
  mk_publish :: "'w \<Rightarrow> nat \<Rightarrow> nat \<Rightarrow> 'w result"

abbreviation mk_funding :: "'w market \<Rightarrow> funding_env" where "mk_funding mk \<equiv> re_funding (mk_refund mk)"
abbreviation mk_hash :: "'w market \<Rightarrow> string \<Rightarrow> string" where "mk_hash mk \<equiv> re_hash (mk_refund mk)"

text \<open>
  The books, the counters behind the primary keys of orders and settlements, the root orders that have a
  settlement, and the rest of the database.
\<close>

record 'w sale_db =
  sx_books :: refund_db
  sx_order_seq :: nat
  sx_settlement_seq :: nat
  sx_settled_roots :: "nat list"
  sx_world :: 'w

abbreviation shop_of :: "('w, 'z) sale_db_scheme \<Rightarrow> shop_db" where "shop_of db \<equiv> rf_shop (sx_books db)"

definition with_shop :: "('w, 'z) sale_db_scheme \<Rightarrow> shop_db \<Rightarrow> ('w, 'z) sale_db_scheme" where
  "with_shop db shop = db\<lparr>sx_books := (sx_books db)\<lparr>rf_shop := shop\<rparr>\<rparr>"

definition on_shop :: "('w, 'z) sale_db_scheme \<Rightarrow> shop_db result \<Rightarrow> ('w, 'z) sale_db_scheme result" where
  "on_shop db x = try_bind x (\<lambda>shop. Inr (with_shop db shop))"

definition update_row :: "nat \<Rightarrow> (order \<Rightarrow> order) \<Rightarrow> shop_db \<Rightarrow> shop_db" where
  "update_row i f shop = shop\<lparr>db_orders := (db_orders shop)(i := map_option f (db_orders shop i))\<rparr>"

text \<open>The two error texts that are compared, and the error of a quote.\<close>

definition grant_target_text :: string where
  "grant_target_text = bytes [229, 142, 134, 229, 143, 178, 232, 174, 162, 229, 141, 149, 231, 188, 186, 229, 176, 145, 229, 143, 175, 230, 160, 184, 229, 175, 185, 231, 154, 132, 231, 139, 172, 231, 171, 139, 232, 174, 162, 233, 152, 133, 231, 155, 174, 230, 160, 135, 239, 188, 140, 232, 175, 183, 233, 128, 154, 232, 191, 135, 229, 183, 165, 229, 141, 149, 230, 160, 184, 229, 175, 185]"
definition renewal_window_text :: string where
  "renewal_window_text = bytes [232, 174, 162, 233, 152, 133, 229, 183, 178, 231, 187, 147, 230, 157, 159, 228, 184, 148, 228, 184, 141, 230, 148, 175, 230, 140, 129, 231, 187, 173, 232, 180, 185, 239, 188, 140, 230, 136, 150, 229, 183, 178, 232, 182, 133, 232, 191, 135, 231, 187, 173, 232, 180, 185, 228, 191, 157, 231, 149, 153, 230, 156, 159, 239, 188, 140, 232, 175, 183, 230, 150, 176, 232, 180, 173, 229, 165, 151, 233, 164, 144, 227, 128, 130]"

definition quote_error :: go_error where "quote_error = ErrValidation [''target_subscription_id'']"

definition is_validation :: "go_error \<Rightarrow> bool" where
  "is_validation e = (case e of ErrValidation _ \<Rightarrow> True | ErrQuoted _ \<Rightarrow> True | _ \<Rightarrow> False)"

section \<open>The policy of the purchase\<close>

text \<open>The keys every snapshot must carry, and the ones that are checked when they are present.\<close>

definition snapshot_keys :: "string list" where
  "snapshot_keys = [''version'', ''base_price_minor'', ''currency'', ''billing_unit'', ''billing_value'', ''renewal_effect'', ''renewable'',
     ''reset_policy'', ''traffic_calc_mode'', ''family_limit'']"

definition json_null :: "string \<Rightarrow> bool" where "json_null raw \<longleftrightarrow> trim_space raw = ''null''"

definition snapshot_agrees :: "order \<Rightarrow> purchase_snapshot \<Rightarrow> bool" where
  "snapshot_agrees r p \<longleftrightarrow> \<not> (ps_version p \<noteq> 1 \<or> ps_base p < 0 \<or> ps_base p \<noteq> or_amount r \<or> ps_currency p \<noteq> or_currency r \<or> ps_unit p \<noteq> or_unit r
     \<or> ps_value p \<noteq> or_value r \<or> ps_effect p \<noteq> or_effect r \<or> ps_policy p < 0 \<or> ps_policy p > 5 \<or> ps_calc_mode p < 0 \<or> ps_calc_mode p > 2 \<or> ps_family p < 0)"

definition model_agrees :: "(string \<Rightarrow> string option) \<Rightarrow> order \<Rightarrow> purchase_snapshot \<Rightarrow> bool" where
  "model_agrees cols r p = (case cols ''value_allocation_model'' of
      None \<Rightarrow> True
    | Some raw \<Rightarrow> \<not> json_null raw
        \<and> ps_model p = (if or_type r = ''traffic_reset'' then ''paid_reset_continuity_v1'' else ''uniform_paid_units_v1''))"

definition target_agrees :: "(string \<Rightarrow> string option) \<Rightarrow> order \<Rightarrow> purchase_snapshot \<Rightarrow> bool" where
  "target_agrees cols r p = (case cols ''renewal_target'' of
      None \<Rightarrow> True
    | Some raw \<Rightarrow> \<not> json_null raw \<and> or_type r = ''renewal''
        \<and> (case ps_renewal_target p of None \<Rightarrow> False | Some t \<Rightarrow> \<not> is_zero (rt_end t)))"

definition discount_agrees :: "'w market \<Rightarrow> (string \<Rightarrow> string option) \<Rightarrow> order \<Rightarrow> bool" where
  "discount_agrees mk cols r = (case cols ''discount'' of
      None \<Rightarrow> True
    | Some raw \<Rightarrow> (case decode_purchase_snapshot (mk_codec mk) (or_purchase_snapshot r) of
          Inl _ \<Rightarrow> False
        | Inr strict \<Rightarrow> \<not> json_null raw \<and> validate_purchase_discount (mk_codec mk) r strict = Inr ()))"

definition apply_purchase_snapshot :: "'w market \<Rightarrow> order \<Rightarrow> grant_policy \<Rightarrow> grant_policy result" where
  "apply_purchase_snapshot mk r policy =
     (if or_purchase_snapshot r = [] then Inr policy
      else case mk_fields mk (or_purchase_snapshot r) of
          None \<Rightarrow> Inl quote_error
        | Some cols \<Rightarrow>
            if \<exists>k \<in> set snapshot_keys. (case cols k of None \<Rightarrow> True | Some raw \<Rightarrow> json_null raw) then Inl quote_error
            else case mk_purchase mk (or_purchase_snapshot r) of
                None \<Rightarrow> Inl quote_error
              | Some p \<Rightarrow>
                  if snapshot_agrees r p \<and> model_agrees cols r p \<and> target_agrees cols r p \<and> discount_agrees mk cols r
                  then Inr (policy\<lparr>gp_renewable := ps_renewable p, gp_reset := ps_policy p, gp_calc_mode := ps_calc_mode p, gp_family := ps_family p\<rparr>)
                  else Inl quote_error)"

definition renewal_target_snapshot :: "subscription \<Rightarrow> renewal_target" where
  "renewal_target_snapshot s = \<lparr>rt_start = sb_start s, rt_end = sb_end s, rt_sku = sb_sku s, rt_reset_quota = sb_reset_quota s, rt_policy = sb_policy s,
     rt_calc_mode = sb_calc_mode s, rt_device = sb_device s, rt_speed = sb_speed s, rt_family = sb_family s\<rparr>"

definition owned_subscription :: "'w market \<Rightarrow> 'w \<Rightarrow> nat \<Rightarrow> nat \<Rightarrow> subscription option" where
  "owned_subscription mk w i u = (case mk_sub mk w i of None \<Rightarrow> None | Some s \<Rightarrow> if sb_user s = u then Some s else None)"

definition validate_renewal_target :: "'w market \<Rightarrow> 'w \<Rightarrow> order \<Rightarrow> unit result" where
  "validate_renewal_target mk w r =
     (if or_type r \<noteq> ''renewal'' \<or> or_purchase_snapshot r = [] then Inr ()
      else case mk_purchase mk (or_purchase_snapshot r) of
          None \<Rightarrow> Inl quote_error
        | Some p \<Rightarrow> (case ps_renewal_target p of
              None \<Rightarrow> Inr ()
            | Some expected \<Rightarrow> (case or_target r of
                  None \<Rightarrow> Inl quote_error
                | Some i \<Rightarrow> (case owned_subscription mk w i (or_user r) of
                      None \<Rightarrow> Inl quote_error
                    | Some s \<Rightarrow> if renewal_target_snapshot s = expected then Inr () else Inl quote_error))))"

definition validate_target_quote :: "'w market \<Rightarrow> 'w \<Rightarrow> shop_db \<Rightarrow> order \<Rightarrow> gotime \<Rightarrow> unit result" where
  "validate_target_quote mk w shop r now =
     try_bind (full_replacement_snapshot (mk_funding mk) r) (\<lambda>full. case full of
         Some s \<Rightarrow> mk_replacement_quote mk w shop r s now
       | None \<Rightarrow> if or_type r \<noteq> ''upgrade'' \<and> or_type r \<noteq> ''traffic_reset'' then Inr () else mk_change_quote mk w shop r now)"

section \<open>Replacing a subscription\<close>

definition configure_missing :: "funding_env \<Rightarrow> shop_db \<Rightarrow> order \<Rightarrow> gotime \<Rightarrow> shop_db result" where
  "configure_missing fe shop r now =
     try_bind (full_replacement_snapshot fe r) (\<lambda>full. case full of
         None \<Rightarrow> Inr shop
       | Some _ \<Rightarrow> try_bind (find_order_funding fe shop r) (\<lambda>found.
           if found \<noteq> None then Inr shop else configure_order_funding fe shop r False now))"

text \<open>The orders of a subscription whose money or term is still open: the paid ones of the current term, and every attempt that holds funds.\<close>

definition related_order :: "shop_db \<Rightarrow> nat \<Rightarrow> subscription \<Rightarrow> order \<Rightarrow> bool" where
  "related_order shop user sub r \<longleftrightarrow> or_user r = user \<and> (or_subscription r = sb_id sub \<or> or_target r = Some (sb_id sub))
     \<and> ((case or_sub_ended r of None \<Rightarrow> True | Some t \<Rightarrow> sb_start sub < t) \<or> or_status r = ''pending''
        \<or> (or_status r = ''canceled'' \<or> or_status r = ''failed'')
           \<and> (\<exists>f \<in> set (db_fundings shop). fu_order f = or_id r \<and> fu_state f = ''reserved''))"

definition related_orders :: "shop_db \<Rightarrow> nat \<Rightarrow> nat \<Rightarrow> subscription \<Rightarrow> order list" where
  "related_orders shop seq user sub = filter (related_order shop user sub) (List.map_filter (db_orders shop) [1..<Suc seq])"

definition closed_by_change :: "int \<Rightarrow> int \<Rightarrow> gotime \<Rightarrow> bool \<Rightarrow> order \<Rightarrow> order" where
  "closed_by_change last_total last_used now unpaid x =
     (let x = x\<lparr>or_sub_ended := Some now, or_sub_end_reason := ''changed'', or_sub_final_total := last_total, or_sub_final_used := last_used, or_updated := now\<rparr>
      in if unpaid then x\<lparr>or_status := ''canceled'', or_canceled_at := Some now\<rparr> else x)"

fun supersede_orders :: "funding_env \<Rightarrow> shop_db \<Rightarrow> nat \<Rightarrow> int \<Rightarrow> int \<Rightarrow> gotime \<Rightarrow> order list \<Rightarrow> shop_db result" where
  "supersede_orders fe shop i last_total last_used now [] = Inr shop"
| "supersede_orders fe shop i last_total last_used now (p # ps) =
     (let unpaid = (or_status p = ''pending'' \<or> or_status p = ''failed'') in
      if or_id p = i \<or> or_sub_ended p \<noteq> None \<and> \<not> unpaid then supersede_orders fe shop i last_total last_used now ps
      else try_bind (if unpaid then release_order_funding fe shop p ''subscription_changed'' now else Inr shop) (\<lambda>shop.
        supersede_orders fe (update_row (or_id p) (closed_by_change last_total last_used now unpaid) shop) i last_total last_used now ps))"

definition settle_full_replacement :: "'w market \<Rightarrow> ('w, 'z) sale_db_scheme \<Rightarrow> order \<Rightarrow> change_snapshot \<Rightarrow> gotime \<Rightarrow> ('w, 'z) sale_db_scheme result" where
  "settle_full_replacement mk db r s now =
     try_bind (replacement_funding (mk_funding mk) (shop_of db) r s now) (\<lambda>_.
     case (case or_target r of None \<Rightarrow> None | Some i \<Rightarrow> owned_subscription mk (sx_world db) i (or_user r)) of
       None \<Rightarrow> Inl ErrNotFound
     | Some sub \<Rightarrow>
         try_bind (mk_replacement_quote mk (sx_world db) (shop_of db) r s now) (\<lambda>_.
         let orders = related_orders (shop_of db) (sx_order_seq db) (or_user r) sub; row = Suc (sx_settlement_seq db) in
         try_bind (mk_budget mk orders) (\<lambda>_.
         if cs_source_order s \<in> set (sx_settled_roots db) then Inl (ErrNamed ''ErrDuplicatedKey'')
         else try_bind (refund_value_sources (mk_refund mk) (sx_books db) (or_user r) (or_currency r) row (cs_sources s) orders now) (\<lambda>(refunded, books).
           try_bind (settle_replacement_wallet (mk_funding mk) (rf_shop books) r s row refunded now) (\<lambda>shop.
           try_bind (supersede_orders (mk_funding mk) shop (or_id r) (fst (cycle_quota sub)) (snd (cycle_quota sub)) now orders) (\<lambda>shop.
             Inr (db\<lparr>sx_books := books\<lparr>rf_shop := audit (Some (or_user r)) ''subscription.change.settle'' (''order:'' @ show_nat (or_id r)) shop\<rparr>,
                     sx_settlement_seq := row, sx_settled_roots := sx_settled_roots db @ [cs_source_order s],
                     sx_world := mk_stop_renewal mk (sx_world db) (sb_id sub) now\<rparr>)))))))"

section \<open>Paying an order\<close>

text \<open>\<open>setPaidWithFunding\<close> up to its second reading of the clock; the funding found here is checked again later.\<close>

definition ended_target :: "'w market \<Rightarrow> 'w \<Rightarrow> order \<Rightarrow> bool" where
  "ended_target mk w r \<longleftrightarrow> or_sub_ended r \<noteq> None \<and> (case or_target r of
      None \<Rightarrow> or_type r \<noteq> ''new''
    | Some i \<Rightarrow> (case owned_subscription mk w i (or_user r) of
          None \<Rightarrow> True
        | Some s \<Rightarrow> sb_status s = ''ended'' \<or> sb_status s = ''canceled''))"

definition paid_gates :: "'w market \<Rightarrow> ('w, 'z) sale_db_scheme \<Rightarrow> order \<Rightarrow> gotime \<Rightarrow> bool \<Rightarrow>
    (change_snapshot option \<times> order_funding option \<times> ('w, 'z) sale_db_scheme) result" where
  "paid_gates mk db r now confirmed =
     (let fe = mk_funding mk in
      try_bind (fe_require fe r now) (\<lambda>_.
      if or_type r \<noteq> ''new'' \<and> or_target r = None then Inl (ErrQuoted grant_target_text)
      else try_bind (full_replacement_snapshot fe r) (\<lambda>full.
        try_bind (on_shop db (configure_missing fe (shop_of db) r now)) (\<lambda>db.
        try_bind (find_order_funding fe (shop_of db) r) (\<lambda>found.
        try_bind (case found of
            None \<Rightarrow> Inr ()
          | Some f \<Rightarrow> if fu_state f \<noteq> ''reserved'' \<or> \<not> now < fu_expires f then Inl funding_conflict
                     else if fu_wallet f > 0 \<and> \<not> confirmed then Inl quote_error else Inr ()) (\<lambda>_.
        if ended_target mk (sx_world db) r then Inl (ErrQuoted renewal_window_text)
        else Inr (full, found, db)))))))"

definition paid_request :: "order \<Rightarrow> bool \<Rightarrow> grant_request" where
  "paid_request r replace = \<lparr>gr_replace_term = replace, gr_id = or_id r, gr_target = or_target r, gr_user = or_user r, gr_plan = or_plan r,
     gr_sku = or_sku r, gr_order_type = or_type r, gr_unit = or_unit r, gr_effect = or_effect r, gr_value = or_value r, gr_traffic = or_traffic r,
     gr_speed = or_speed r, gr_device = or_device r\<rparr>"

text \<open>The price a renewal agrees for the future; a missing historical snapshot keeps the price of the order itself.\<close>

definition agreed_renewal_price :: "'w market \<Rightarrow> 'w \<Rightarrow> shop_db \<Rightarrow> order \<Rightarrow> int result" where
  "agreed_renewal_price mk w shop r =
     (if or_type r \<noteq> ''renewal'' then Inr (or_amount r)
      else case or_target r of
          None \<Rightarrow> Inr (or_amount r)
        | Some i \<Rightarrow> (case mk_agreement mk w shop r i of
              Inr (price, purchased) \<Rightarrow> Inr (if purchased then price else or_amount r)
            | Inl e \<Rightarrow> if is_validation e then Inr (or_amount r) else Inl e))"

definition paid_grace :: "'w market \<Rightarrow> 'w \<Rightarrow> order \<Rightarrow> int option result" where
  "paid_grace mk w r =
     (if or_type r \<noteq> ''renewal'' then Inr None
      else try_bind (mk_grace mk w) (\<lambda>grace.
        case (case or_target r of None \<Rightarrow> None | Some i \<Rightarrow> owned_subscription mk w i (or_user r)) of
          None \<Rightarrow> Inl quote_error
        | Some _ \<Rightarrow> Inr (Some grace)))"

text \<open>The policy of the grant: the current plan, overridden by what the buyer confirmed at purchase.\<close>

definition paid_policy :: "'w market \<Rightarrow> ('w, 'z) sale_db_scheme \<Rightarrow> order \<Rightarrow> order_funding option \<Rightarrow> gotime \<Rightarrow> grant_policy result" where
  "paid_policy mk db r found later =
     (let w = sx_world db in
      case mk_plan mk w (or_plan r) of
        None \<Rightarrow> Inl (ErrNamed ''ErrRecordNotFound'')
      | Some plan \<Rightarrow>
          if \<not> mk_sku mk w (or_sku r) then Inl (ErrNamed ''ErrRecordNotFound'')
          else try_bind (paid_grace mk w r) (\<lambda>grace.
            try_bind (fe_require (mk_funding mk) r later) (\<lambda>_.
            if (case found of None \<Rightarrow> False | Some f \<Rightarrow> fu_state f = ''reserved'' \<and> \<not> later < fu_expires f) then Inl quote_error
            else try_bind (validate_target_quote mk w (shop_of db) r later) (\<lambda>_.
              try_bind (agreed_renewal_price mk w (shop_of db) r) (\<lambda>price.
              try_bind (apply_purchase_snapshot mk r
                  \<lparr>gp_grace = grace, gp_max_active = pn_max_active plan, gp_group = pn_group plan,
                   gp_renewable = (pn_renewable plan \<and> 0 < mk_renew_skus mk w (or_plan r)), gp_renewal_price = price,
                   gp_family = pn_family plan, gp_reset = pn_reset plan, gp_calc_mode = pn_calc_mode plan\<rparr>) (\<lambda>policy.
              try_bind (validate_renewal_target mk w r) (\<lambda>_. Inr policy)))))))"

definition close_term :: "ended_order \<Rightarrow> shop_db \<Rightarrow> shop_db" where
  "close_term e = update_row (eo_order e) (\<lambda>x. x\<lparr>or_sub_ended := Some (eo_at e), or_sub_end_reason := eo_reason e,
     or_sub_final_total := eo_total e, or_sub_final_used := eo_used e\<rparr>)"

definition grant_error :: "go_error \<Rightarrow> go_error" where
  "grant_error e = (if e = ErrRenewalWindow then ErrQuoted renewal_window_text
     else if e = ErrNamed ''ErrGrantTargetRequired'' then ErrQuoted grant_target_text else e)"

definition capture_entitlement_value :: "'w market \<Rightarrow> ('w, 'z) sale_db_scheme \<Rightarrow> order \<Rightarrow> nat \<Rightarrow> subscription option \<Rightarrow> bool \<Rightarrow> gotime \<Rightarrow>
    (order \<times> ('w, 'z) sale_db_scheme) result" where
  "capture_entitlement_value mk db r i previous verified now =
     (case mk_sub mk (sx_world db) i of
        None \<Rightarrow> Inl (ErrNamed ''ErrRecordNotFound'')
      | Some sub \<Rightarrow>
          try_bind (capture_snapshot (mk_funding mk) (mk_purchase mk) r sub previous verified (mk_event mk (sx_world db) i (or_id r)) now) (\<lambda>snap.
          try_bind (mk_evidence mk snap) (\<lambda>payload.
          try_bind (write_evidence (shop_of db) r payload) (\<lambda>(r, shop). Inr (r, with_shop db shop)))))"

definition paid_row :: "order \<Rightarrow> nat \<Rightarrow> gotime \<Rightarrow> order \<Rightarrow> order" where
  "paid_row r sub now x = x\<lparr>or_status := ''paid'', or_subscription := sub, or_paid := or_payable r, or_paid_at := Some now, or_fulfilled_at := Some now,
     or_updated := now, or_sub_ended := None, or_sub_end_reason := [], or_sub_final_total := 0, or_sub_final_used := 0\<rparr>"

definition mark_order_paid :: "'w market \<Rightarrow> ('w, 'z) sale_db_scheme \<Rightarrow> order \<Rightarrow> nat \<Rightarrow> gotime \<Rightarrow> (order \<times> ('w, 'z) sale_db_scheme) result" where
  "mark_order_paid mk db r sub now =
     try_bind (mk_commit mk (sx_world db) r now) (\<lambda>w.
       Inr (paid_row r sub now r, with_shop (db\<lparr>sx_world := w\<rparr>) (update_row (or_id r) (paid_row r sub now) (shop_of db))))"

definition grant_paid :: "'w market \<Rightarrow> ('w, 'z) sale_db_scheme \<Rightarrow> order \<Rightarrow> bool \<Rightarrow> grant_policy \<Rightarrow> gotime \<Rightarrow> bool \<Rightarrow>
    (order \<times> ('w, 'z) sale_db_scheme) result" where
  "grant_paid mk db r replace policy now confirmed =
     (case mk_fulfil mk (sx_world db) (paid_request r replace) policy now of
        Inl e \<Rightarrow> Inl (grant_error e)
      | Inr g \<Rightarrow>
          let db = with_shop (db\<lparr>sx_world := fm_world g\<rparr>) (fold close_term (fm_ended g) (shop_of db)) in
          try_bind (on_shop db (capture_order_funding (mk_funding mk) (shop_of db) r now)) (\<lambda>db.
          try_bind (capture_entitlement_value mk db r (sb_id (fm_sub g)) (fm_previous g) confirmed now) (\<lambda>(r, db).
            mark_order_paid mk db r (sb_id (fm_sub g)) now)))"

definition set_paid_with_funding :: "'w market \<Rightarrow> ('w, 'z) sale_db_scheme \<Rightarrow> order \<Rightarrow> gotime \<Rightarrow> gotime \<Rightarrow> bool \<Rightarrow>
    (order \<times> ('w, 'z) sale_db_scheme) result" where
  "set_paid_with_funding mk db r now later confirmed =
     (if or_type r = ''topup'' then Inl quote_error
      else if or_status r = ''paid'' then Inr (r, db)
      else try_bind (paid_gates mk db r now confirmed) (\<lambda>(full, found, db).
        try_bind (paid_policy mk db r found later) (\<lambda>policy.
        try_bind (case full of None \<Rightarrow> Inr db | Some s \<Rightarrow> settle_full_replacement mk db r s later) (\<lambda>db.
          grant_paid mk db r (full \<noteq> None) policy later confirmed))))"

definition set_verified_paid :: "'w market \<Rightarrow> ('w, 'z) sale_db_scheme \<Rightarrow> order \<Rightarrow> gotime \<Rightarrow> gotime \<Rightarrow> (order \<times> ('w, 'z) sale_db_scheme) result" where
  "set_verified_paid mk db r now later =
     (if or_type r \<noteq> ''topup'' then set_paid_with_funding mk db r now later True
      else if or_status r = ''paid'' then Inr (r, db)
      else try_bind (credit_top_up (fe_wallet (mk_funding mk)) (shop_of db) now r) (\<lambda>(_, shop).
        mark_order_paid mk (with_shop db shop) r 0 now))"

section \<open>The services\<close>

record settlement_command =
  sc_order :: nat
  sc_status :: string
  sc_force :: bool
  sc_callback :: "string option"

definition order_settlement_apply :: "go_unicode \<Rightarrow> (nat \<Rightarrow> settlement_command \<Rightarrow> 'a result) \<Rightarrow> nat \<Rightarrow> settlement_command \<Rightarrow> 'a result" where
  "order_settlement_apply uc apply actor c =
     (if actor = 0 then Inl ErrOrderPermission
      else if sc_order c = 0 then Inl ErrNotFound
      else let st = lower_trim uc (sc_status c); st = (if st = [] \<or> st = ''success'' then ''paid'' else st) in
        if st \<in> {''paid'', ''failed'', ''canceled''} then apply actor (c\<lparr>sc_status := st\<rparr>) else Inl (ErrValidation []))"

text \<open>An administrator records the outcome of an order; a manual payment is not verified money.\<close>

definition settle_status :: "'w market \<Rightarrow> ('w, 'z) sale_db_scheme \<Rightarrow> nat \<Rightarrow> order \<Rightarrow> string \<Rightarrow> gotime \<Rightarrow> gotime \<Rightarrow>
    (order \<times> bool \<times> ('w, 'z) sale_db_scheme) result" where
  "settle_status mk db actor r status now later =
     (if status = ''paid'' then
        try_bind (set_paid_with_funding mk db r now later False) (\<lambda>(r', db).
        if or_status r \<noteq> ''paid''
        then try_bind (mk_publish mk (sx_world db) (or_subscription r') actor) (\<lambda>w. Inr (r', True, db\<lparr>sx_world := w\<rparr>))
        else Inr (r', False, db))
      else if or_status r \<noteq> status then
        try_bind (if status = ''canceled'' \<or> status = ''failed''
            then on_shop db (release_order_funding (mk_funding mk) (shop_of db) r status now) else Inr db) (\<lambda>db.
        let closed = (\<lambda>x. if status = ''canceled'' then x\<lparr>or_status := status, or_updated := now, or_canceled_at := Some now\<rparr>
                          else x\<lparr>or_status := status, or_updated := now\<rparr>)
        in Inr (closed r, False, with_shop db (update_row (or_id r) closed (shop_of db))))
      else Inr (r, False, db))"

definition store_apply :: "'w market \<Rightarrow> ('w, 'z) sale_db_scheme \<Rightarrow> gotime \<Rightarrow> gotime \<Rightarrow> nat \<Rightarrow> settlement_command \<Rightarrow>
    ((order \<times> bool) \<times> ('w, 'z) sale_db_scheme) result" where
  "store_apply mk db now later actor c =
     try_bind (mk_scope mk (sx_world db) (shop_of db) (sc_order c) 0 actor True) (\<lambda>_.
     case db_orders (shop_of db) (sc_order c) of
       None \<Rightarrow> Inl ErrNotFound
     | Some r \<Rightarrow>
         try_bind (lock_settlement_users (shop_of db) (or_user r) actor) (\<lambda>_.
         if \<not> order_transition_allowed (or_status r) (sc_status c) (sc_force c) then Inl (ErrNamed ''ErrOrderTransition'')
         else try_bind (settle_status mk db actor r (sc_status c) now later) (\<lambda>(r', fulfilled, db).
           let note = (case sc_callback c of None \<Rightarrow> id | Some raw \<Rightarrow> (\<lambda>x. x\<lparr>or_raw_callback := raw, or_updated := now\<rparr>));
               shop = update_row (or_id r) note (shop_of db);
               action = (if sc_callback c = None then ''order.pay'' else ''order.payment_result'');
               shop = (if or_status r \<noteq> or_status r' then audit (Some actor) action (''order:'' @ show_nat (or_id r)) shop else shop)
           in Inr ((note r', fulfilled), with_shop db shop))))"

record wallet_result =
  wr_order :: nat
  wr_subscription :: nat
  wr_status :: string
  wr_fulfilled :: bool

definition pay_reserved_wallet_order :: "'w market \<Rightarrow> ('w, 'z) sale_db_scheme \<Rightarrow> order \<Rightarrow> nat \<Rightarrow> gotime \<Rightarrow> gotime \<Rightarrow>
    (wallet_result \<times> ('w, 'z) sale_db_scheme) result" where
  "pay_reserved_wallet_order mk db r actor now later =
     try_bind (find_order_funding (mk_funding mk) (shop_of db) r) (\<lambda>found. case found of
         None \<Rightarrow> Inl quote_error
       | Some f \<Rightarrow>
           if or_type r = ''topup'' \<or> fu_cash f \<noteq> 0 then Inl quote_error
           else if or_status r = ''paid'' \<and> fu_state f = ''captured'' \<and> or_channel r = ''wallet''
           then Inr (\<lparr>wr_order = or_id r, wr_subscription = or_subscription r, wr_status = or_status r, wr_fulfilled = False\<rparr>, db)
           else if (or_status r \<noteq> ''pending'' \<and> or_status r \<noteq> ''failed'') \<or> fu_state f \<noteq> ''reserved'' \<or> \<not> now < fu_expires f then Inl quote_error
           else try_bind (set_paid_with_funding mk db r now later True) (\<lambda>(r, db).
             let db = with_shop db (update_row (or_id r) (\<lambda>x. x\<lparr>or_channel := ''wallet''\<rparr>) (shop_of db)) in
             try_bind (if or_subscription r \<noteq> 0 then mk_publish mk (sx_world db) (or_subscription r) actor else Inr (sx_world db)) (\<lambda>w.
               Inr (\<lparr>wr_order = or_id r, wr_subscription = or_subscription r, wr_status = or_status r, wr_fulfilled = True\<rparr>,
                 with_shop (db\<lparr>sx_world := w\<rparr>) (audit (Some actor) ''commerce.wallet.pay'' (''order:'' @ show_nat (or_id r)) (shop_of db))))))"

definition store_pay :: "'w market \<Rightarrow> ('w, 'z) sale_db_scheme \<Rightarrow> gotime \<Rightarrow> gotime \<Rightarrow> nat \<Rightarrow> nat \<Rightarrow> (wallet_result \<times> ('w, 'z) sale_db_scheme) result" where
  "store_pay mk db now later actor i =
     (case try_bind (mk_scope mk (sx_world db) (shop_of db) i actor actor False) (\<lambda>_.
         case db_orders (shop_of db) i of
           None \<Rightarrow> Inl ErrNotFound
         | Some r \<Rightarrow>
             if or_user r \<noteq> actor then Inl ErrNotFound
             else try_bind (order_reader (shop_of db) actor False) (\<lambda>_. pay_reserved_wallet_order mk db r actor now later)) of
       Inl e \<Rightarrow> Inl (if e = ErrNamed ''ErrCapacity'' then ErrNamed ''ErrSubscriptionCapacity'' else e)
     | Inr x \<Rightarrow> Inr x)"

section \<open>What the shop's ledger sees of a payment\<close>

text \<open>An operation posts only entries under the given keys.\<close>

definition posts :: "string set \<Rightarrow> shop_db \<Rightarrow> shop_db \<Rightarrow> bool" where
  "posts K db db' \<longleftrightarrow> (\<exists>es. db_entries db' = db_entries db @ es \<and> (\<forall>e \<in> set es. en_key e \<in> K))"

lemma posts_refl [simp]: "posts K db db"
  by (simp add: posts_def)

lemma posts_same: "db_entries db' = db_entries db \<Longrightarrow> posts K db db'"
  by (simp add: posts_def)

lemma posts_trans: "posts K a b \<Longrightarrow> posts K b c \<Longrightarrow> posts K a c"
  unfolding posts_def by fastforce

lemma posts_new: "posts K db db' \<Longrightarrow> e \<in> set (db_entries db') \<Longrightarrow> e \<in> set (db_entries db) \<or> en_key e \<in> K"
  unfolding posts_def by auto

lemma posts_grows: "posts K db db' \<Longrightarrow> grows db db'"
  unfolding posts_def grows_def by auto

lemma append_posts:
  assumes "append_wallet_entry uc db src key kind reason bd rd now = Inr (i, db')" "key \<in> K"
  shows "posts K db db'"
  using assms by (auto simp: append_wallet_entry_def lock_wallet_account_def posts_def new_entry_def Let_def post_entry_def split: if_splits option.splits)

lemma change_posts: "append_wallet_change uc db r key kind reason bd rd now = Inr (i, db') \<Longrightarrow> key \<in> K \<Longrightarrow> posts K db db'"
  by (rule append_posts[OF change_is_entry])

lemma optional_posts:
  assumes "(if b then try_bind app (\<lambda>(_, db). Inr db) else Inr db) = Inr db1" "\<And>i. app = Inr (i, db1) \<Longrightarrow> posts K db db1"
  shows "posts K db db1"
  using assms by (auto split: if_splits)

text \<open>The keys of the entries an order itself writes, and of the refunds of settlements with numbers in a range.\<close>

definition order_tags :: "string set" where
  "order_tags = {''reserve-order:'', ''release-order:'', ''capture-order:'', ''reserve-entitlement-order:'', ''topup-order:''}"

definition order_keys :: "funding_env \<Rightarrow> string set" where
  "order_keys fe = {order_key fe t n | t n. t \<in> order_tags}"

definition sale_keys :: "funding_env \<Rightarrow> nat \<Rightarrow> nat \<Rightarrow> string set" where
  "sale_keys fe a b = order_keys fe \<union> {order_key fe ''change-refund:'' n | n. a < n \<and> n \<le> b}"

lemma posts_mono: "posts K db db' \<Longrightarrow> K \<subseteq> L \<Longrightarrow> posts L db db'"
  unfolding posts_def by blast

lemma sale_keys_mono: "a' \<le> a \<Longrightarrow> b \<le> b' \<Longrightarrow> sale_keys fe a b \<subseteq> sale_keys fe a' b'"
  unfolding sale_keys_def by auto

lemma order_tag_keys: "t \<in> order_tags \<Longrightarrow> order_key fe t n \<in> order_keys fe"
  unfolding order_keys_def by blast

lemma order_keysI:
  "order_key fe ''reserve-order:'' n \<in> order_keys fe" "order_key fe ''release-order:'' n \<in> order_keys fe"
  "order_key fe ''capture-order:'' n \<in> order_keys fe" "order_key fe ''reserve-entitlement-order:'' n \<in> order_keys fe"
  "order_key fe ''topup-order:'' n \<in> order_keys fe"
  by (rule order_tag_keys, simp add: order_tags_def)+

lemma release_posts:
  assumes "release_order_funding fe db r reason now = Inr db'"
  shows "posts (order_keys fe) db db'"
  using assms
proof (cases rule: release_order_funding_cases)
  case (2 f db1)
  have "posts (order_keys fe) db db1" by (rule optional_posts[OF 2(3)]) (erule change_posts, rule order_keysI)
  then show ?thesis by (rule posts_trans) (simp add: 2(4) posts_same)
qed simp

lemma capture_order_funding_cases:
  assumes "capture_order_funding fe db r now = Inr db'"
  obtains "db' = db" "find_order_funding fe db r = Inr None"
  | f db1 where "find_order_funding fe db r = Inr (Some f)" "fu_state f = ''reserved''"
    "(if fu_wallet f > 0
       then try_bind (append_wallet_change (we_unicode (fe_wallet fe)) db r (order_key fe ''capture-order:'' (or_id r)) ''purchase''
              purchase_text (sub64 0 (fu_wallet f)) (sub64 0 (fu_wallet f)) now) (\<lambda>(_, db). Inr db)
       else Inr db) = Inr db1" "db' = update_funding db1 (f\<lparr>fu_state := ''captured'', fu_captured := Some now\<rparr>)"
proof -
  obtain found where found: "find_order_funding fe db r = Inr found" using assms by (auto simp: capture_order_funding_def)
  show ?thesis
  proof (cases found)
    case None
    with found assms show ?thesis by (intro that(1)) (simp_all add: capture_order_funding_def)
  next
    case (Some f)
    with found assms have st: "fu_state f = ''reserved''" and rest: "try_bind (if fu_wallet f > 0
       then try_bind (append_wallet_change (we_unicode (fe_wallet fe)) db r (order_key fe ''capture-order:'' (or_id r)) ''purchase''
              purchase_text (sub64 0 (fu_wallet f)) (sub64 0 (fu_wallet f)) now) (\<lambda>(_, db). Inr db)
       else Inr db) (\<lambda>db. Inr (update_funding db (f\<lparr>fu_state := ''captured'', fu_captured := Some now\<rparr>))) = Inr db'"
      by (auto simp: capture_order_funding_def simp del: try_bind_Inr_iff split: if_splits) (auto split: if_splits)
    then show ?thesis unfolding try_bind_Inr_iff[of "if _ then _ else _"] using that(2)[OF found[unfolded Some] st] by blast
  qed
qed

lemma capture_posts:
  assumes "capture_order_funding fe db r now = Inr db'"
  shows "posts (order_keys fe) db db'"
  using assms
proof (cases rule: capture_order_funding_cases)
  case (2 f db1)
  have "posts (order_keys fe) db db1" by (rule optional_posts[OF 2(3)]) (erule change_posts, rule order_keysI)
  then show ?thesis by (rule posts_trans) (simp add: 2(4) posts_same)
qed simp

lemma reserve_posts:
  assumes "reserve_for_order fe db r n now = Inr db'"
  shows "posts (order_keys fe) db db'"
proof (cases "n > 0")
  case True
  with assms obtain i where "append_wallet_change (we_unicode (fe_wallet fe)) db r (order_key fe ''reserve-order:'' (or_id r)) ''reserve'' reserve_text 0 n now = Inr (i, db')"
    by (auto simp: reserve_for_order_def)
  then show ?thesis by (rule change_posts) (rule order_keysI)
qed (use assms in \<open>simp add: reserve_for_order_def\<close>)

lemma configure_posts:
  assumes "configure_order_funding fe db r use now = Inr db'"
  shows "posts (order_keys fe) db db'"
proof -
  obtain found where found: "find_order_funding fe db r = Inr found" using assms by (auto simp: configure_order_funding_def split: if_splits)
  show ?thesis
  proof (cases found)
    case (Some f)
    with found assms show ?thesis by (auto simp: configure_order_funding_def split: if_splits)
  next
    case None
    with found assms obtain n f db1 where "reserve_for_order fe db r n now = Inr db1"
      and db': "db' = audit (Some (or_user r)) ''commerce.funding.reserve'' (''order:'' @ show_nat (or_id r)) (db1\<lparr>db_fundings := db_fundings db1 @ [f]\<rparr>)"
      by (auto simp: configure_order_funding_def Let_def split: if_splits)
    then have "posts (order_keys fe) db db1" by (blast intro: reserve_posts)
    then show ?thesis by (rule posts_trans) (simp add: db' audit_def posts_same)
  qed
qed

lemma settle_wallet_posts:
  assumes "settle_replacement_wallet fe db r s row refunded now = Inr db'"
  shows "posts (order_keys fe \<union> {order_key fe ''change-refund:'' row}) db db'"
proof -
  let ?K = "order_keys fe \<union> {order_key fe ''change-refund:'' row}"
  let ?dbs = "db\<lparr>db_settlements := db_settlements db @ [\<lparr>vs_key = order_key fe ''full-change-order:'' (or_id r), vs_user = or_user r,
    vs_kind = ''change'', vs_applied = cs_applied s, vs_currency = or_currency r\<rparr>]\<rparr>"
  obtain dba where a: "(if refunded > 0 then try_bind (append_wallet_entry (we_unicode (fe_wallet fe)) ?dbs \<lparr>src_user = or_user r, src_currency = or_currency r, src_order = None\<rparr>
        (order_key fe ''change-refund:'' row) ''subscription_change_refund'' refund_text refunded 0 now) (\<lambda>(_, db). Inr db) else Inr ?dbs) = Inr dba"
    and b: "(if cs_applied s > 0 then try_bind (append_wallet_change (we_unicode (fe_wallet fe)) dba r (order_key fe ''reserve-entitlement-order:'' (or_id r)) ''reserve''
        applied_text 0 (cs_applied s) now) (\<lambda>(_, db). Inr db) else Inr dba) = Inr db'"
    using assms unfolding settle_replacement_wallet_def by (auto simp: Let_def split: if_splits)
  have "posts ?K db ?dbs" by (simp add: posts_same)
  moreover have "posts ?K ?dbs dba" by (rule optional_posts[OF a]) (erule append_posts, simp)
  moreover have "posts ?K dba db'" by (rule optional_posts[OF b]) (erule change_posts, simp add: order_keysI)
  ultimately show ?thesis by (blast intro: posts_trans)
qed

lemma order_key_not_refund:
  assumes "inj (we_hash (fe_wallet fe))"
  shows "order_key fe ''change-refund:'' n \<notin> order_keys fe"
proof
  assume "order_key fe ''change-refund:'' n \<in> order_keys fe"
  then obtain t m where t: "t \<in> order_tags" "''change-refund:'' @ show_nat n = t @ show_nat m" by (auto simp: order_keys_def order_key_eq[OF assms])
  from t(1)[unfolded order_tags_def] t(2) show False by (elim insertE emptyE) simp_all
qed

text \<open>Rows are found under their own number and hold 64-bit amounts; no settlement of a later number has posted its refund.\<close>

definition rows_ok :: "shop_db \<Rightarrow> bool" where
  "rows_ok shop \<longleftrightarrow> (\<forall>i r. db_orders shop i = Some r \<longrightarrow> or_id r = i \<and> or_paid r \<le> max64 \<and> or_payable r \<le> max64)"

definition sale_ok :: "'w market \<Rightarrow> ('w, 'z) sale_db_scheme \<Rightarrow> bool" where
  "sale_ok mk db \<longleftrightarrow> refunds_ok (mk_refund mk) (sx_books db) \<and> rows_ok (shop_of db)
     \<and> (\<forall>n > sx_settlement_seq db. order_key (mk_funding mk) ''change-refund:'' n \<notin> en_key ` set (db_entries (shop_of db)))"

text \<open>What every operation of this theory does to the books: steps that are already known, under its own keys.\<close>

definition sold :: "'w market \<Rightarrow> ('w, 'z) sale_db_scheme \<Rightarrow> ('w, 'z) sale_db_scheme \<Rightarrow> bool" where
  "sold mk db db' \<longleftrightarrow> (refund_step (mk_refund mk))\<^sup>*\<^sup>* (sx_books db) (sx_books db') \<and> rows_ok (shop_of db')
     \<and> sx_settlement_seq db \<le> sx_settlement_seq db'
     \<and> posts (sale_keys (mk_funding mk) (sx_settlement_seq db) (sx_settlement_seq db')) (shop_of db) (shop_of db')
     \<and> sale_db.more db' = sale_db.more db"

lemma sold_keeps:
  assumes "sold mk db db'" "sale_ok mk db" "inj (mk_hash mk)"
  shows "sale_ok mk db'"
proof -
  have r: "refunds_ok (mk_refund mk) (sx_books db')"
    using refund_history[of "mk_refund mk" "sx_books db" "sx_books db'"] assms by (simp add: sold_def sale_ok_def)
  have "order_key (mk_funding mk) ''change-refund:'' n \<notin> en_key ` set (db_entries (shop_of db'))" if n: "sx_settlement_seq db' < n" for n
  proof
    assume "order_key (mk_funding mk) ''change-refund:'' n \<in> en_key ` set (db_entries (shop_of db'))"
    then obtain e where e: "e \<in> set (db_entries (shop_of db'))" "en_key e = order_key (mk_funding mk) ''change-refund:'' n" by auto
    have p: "posts (sale_keys (mk_funding mk) (sx_settlement_seq db) (sx_settlement_seq db')) (shop_of db) (shop_of db')" "sx_settlement_seq db \<le> sx_settlement_seq db'"
      using assms(1) by (simp_all add: sold_def)
    from posts_new[OF p(1) e(1)] show False
    proof
      assume "e \<in> set (db_entries (shop_of db))"
      with e(2) have "order_key (mk_funding mk) ''change-refund:'' n \<in> en_key ` set (db_entries (shop_of db))" by (metis imageI)
      with assms(2) n p(2) show False by (simp add: sale_ok_def)
    next
      assume "en_key e \<in> sale_keys (mk_funding mk) (sx_settlement_seq db) (sx_settlement_seq db')"
      with e(2) order_key_not_refund[OF assms(3)] n show False
        by (auto simp: sale_keys_def order_key_eq[OF assms(3)] show_nat_inj)
    qed
  qed
  with r assms(1) show ?thesis by (simp add: sale_ok_def sold_def)
qed

lemma sold_refl: "rows_ok (shop_of db) \<Longrightarrow> sold mk db db"
  by (simp add: sold_def)

lemma sold_trans:
  assumes "sold mk a b" "sold mk b c"
  shows "sold mk a c"
proof -
  let ?k = "\<lambda>x y. sale_keys (mk_funding mk) (sx_settlement_seq x) (sx_settlement_seq y)"
  have le: "sx_settlement_seq a \<le> sx_settlement_seq b" "sx_settlement_seq b \<le> sx_settlement_seq c" using assms by (simp_all add: sold_def)
  have "posts (?k a b) (shop_of a) (shop_of b)" "posts (?k b c) (shop_of b) (shop_of c)" using assms by (simp_all add: sold_def)
  then have "posts (?k a c) (shop_of a) (shop_of b)" "posts (?k a c) (shop_of b) (shop_of c)"
    using sale_keys_mono le by (blast intro: posts_mono)+
  then have "posts (?k a c) (shop_of a) (shop_of c)" by (rule posts_trans)
  with le assms show ?thesis by (auto simp: sold_def)
qed

lemma with_shop_simps [simp]:
  "sx_books (with_shop db shop) = (sx_books db)\<lparr>rf_shop := shop\<rparr>" "sx_settlement_seq (with_shop db shop) = sx_settlement_seq db"
  "sx_order_seq (with_shop db shop) = sx_order_seq db" "sx_settled_roots (with_shop db shop) = sx_settled_roots db"
  "sx_world (with_shop db shop) = sx_world db" "sale_db.more (with_shop db shop) = sale_db.more db"
  by (simp_all add: with_shop_def)

lemma sold_shop:
  assumes "shop_step (mk_funding mk) (shop_of db) shop" "posts (order_keys (mk_funding mk)) (shop_of db) shop" "rows_ok shop"
  shows "sold mk db (with_shop db shop)"
proof -
  have "refund_step (mk_refund mk) (sx_books db) ((sx_books db)\<lparr>rf_shop := shop\<rparr>)" using assms(1) by (rule refund_step.elsewhere)
  then have "(refund_step (mk_refund mk))\<^sup>*\<^sup>* (sx_books db) ((sx_books db)\<lparr>rf_shop := shop\<rparr>)" by (rule r_into_rtranclp[of "refund_step (mk_refund mk)"])
  moreover have "order_keys (mk_funding mk) \<subseteq> sale_keys (mk_funding mk) a b" for a b by (simp add: sale_keys_def)
  ultimately show ?thesis using assms(2,3) by (auto simp: sold_def intro: posts_mono)
qed

lemma rows_ok_cong: "db_orders shop' = db_orders shop \<Longrightarrow> rows_ok shop' = rows_ok shop"
  by (simp add: rows_ok_def)

lemma update_row_ok:
  assumes "rows_ok shop" "\<And>x. or_id x = i \<Longrightarrow> or_payable x \<le> max64 \<Longrightarrow> or_paid x \<le> max64 \<Longrightarrow> or_id (f x) = i \<and> or_paid (f x) \<le> max64 \<and> or_payable (f x) \<le> max64"
  shows "rows_ok (update_row i f shop)"
  using assms unfolding rows_ok_def update_row_def by (auto split: if_splits)

lemma sold_rows:
  assumes "rows_ok shop" "\<exists>os. shop = (shop_of db)\<lparr>db_orders := os\<rparr>"
  shows "sold mk db (with_shop db shop)"
proof -
  obtain os where os: "shop = (shop_of db)\<lparr>db_orders := os\<rparr>" using assms(2) by blast
  show ?thesis unfolding os by (rule sold_shop[OF orders_elsewhere]) (use assms(1) os in \<open>simp_all add: posts_same\<close>)
qed

lemma sold_update:
  assumes "rows_ok (shop_of db)" "\<And>x. or_id x = i \<Longrightarrow> or_payable x \<le> max64 \<Longrightarrow> or_paid x \<le> max64 \<Longrightarrow> or_id (f x) = i \<and> or_paid (f x) \<le> max64 \<and> or_payable (f x) \<le> max64"
  shows "sold mk db (with_shop db (update_row i f (shop_of db)))"
  by (rule sold_rows[OF update_row_ok[OF assms]]) (auto simp: update_row_def)

lemma sold_audit:
  assumes "rows_ok (shop_of db)"
  shows "sold mk db (with_shop db (audit u act target (shop_of db)))"
proof (rule sold_shop)
  show "shop_step (mk_funding mk) (shop_of db) (audit u act target (shop_of db))"
    unfolding audit_def by (rule shop_step.wallet, rule book_step.audited)
qed (use assms in \<open>simp_all add: audit_def posts_same rows_ok_def\<close>)

lemma sold_world: "rows_ok (shop_of db) \<Longrightarrow> sold mk db (db\<lparr>sx_world := w\<rparr>)"
  by (simp add: sold_def)

lemma change_orders: "append_wallet_change uc db r key kind text bd rd now = Inr (i, db') \<Longrightarrow> db_orders db' = db_orders db"
  by (rule append_orders[OF change_is_entry])

lemma optional_orders:
  assumes "(if b then try_bind app (\<lambda>(_, db). Inr db) else Inr db) = Inr db1" "\<And>i. app = Inr (i, db1) \<Longrightarrow> db_orders db1 = db_orders db"
  shows "db_orders db1 = db_orders db"
  using assms by (auto split: if_splits)

lemma capture_orders:
  assumes "capture_order_funding fe db r now = Inr db'"
  shows "db_orders db' = db_orders db"
  using assms
proof (cases rule: capture_order_funding_cases)
  case (2 f db1)
  have "db_orders db1 = db_orders db" by (rule optional_orders[OF 2(3)]) (erule change_orders)
  then show ?thesis by (simp add: 2(4))
qed simp

lemma configure_orders:
  assumes "configure_order_funding fe db r use now = Inr db'"
  shows "db_orders db' = db_orders db"
proof -
  obtain found where found: "find_order_funding fe db r = Inr found" using assms by (auto simp: configure_order_funding_def split: if_splits)
  show ?thesis
  proof (cases found)
    case (Some f)
    with found assms show ?thesis by (auto simp: configure_order_funding_def split: if_splits)
  next
    case None
    with found assms obtain n f db1 where c: "reserve_for_order fe db r n now = Inr db1"
      and db': "db' = audit (Some (or_user r)) ''commerce.funding.reserve'' (''order:'' @ show_nat (or_id r)) (db1\<lparr>db_fundings := db_fundings db1 @ [f]\<rparr>)"
      by (auto simp: configure_order_funding_def Let_def split: if_splits)
    from c have "db_orders db1 = db_orders db" by (auto simp: reserve_for_order_def split: if_splits dest: change_orders)
    then show ?thesis by (simp add: db' audit_def)
  qed
qed

lemma settle_wallet_orders:
  assumes "settle_replacement_wallet fe db r s row refunded now = Inr db'"
  shows "db_orders db' = db_orders db"
proof -
  let ?dbs = "db\<lparr>db_settlements := db_settlements db @ [\<lparr>vs_key = order_key fe ''full-change-order:'' (or_id r), vs_user = or_user r,
    vs_kind = ''change'', vs_applied = cs_applied s, vs_currency = or_currency r\<rparr>]\<rparr>"
  obtain dba where a: "(if refunded > 0 then try_bind (append_wallet_entry (we_unicode (fe_wallet fe)) ?dbs \<lparr>src_user = or_user r, src_currency = or_currency r, src_order = None\<rparr>
        (order_key fe ''change-refund:'' row) ''subscription_change_refund'' refund_text refunded 0 now) (\<lambda>(_, db). Inr db) else Inr ?dbs) = Inr dba"
    and b: "(if cs_applied s > 0 then try_bind (append_wallet_change (we_unicode (fe_wallet fe)) dba r (order_key fe ''reserve-entitlement-order:'' (or_id r)) ''reserve''
        applied_text 0 (cs_applied s) now) (\<lambda>(_, db). Inr db) else Inr dba) = Inr db'"
    using assms unfolding settle_replacement_wallet_def by (auto simp: Let_def split: if_splits)
  have "db_orders dba = db_orders ?dbs" by (rule optional_orders[OF a]) (erule append_orders)
  moreover have "db_orders db' = db_orders dba" by (rule optional_orders[OF b]) (erule change_orders)
  ultimately show ?thesis by simp
qed

lemma sold_release:
  assumes "release_order_funding (mk_funding mk) (shop_of db) r reason now = Inr shop" "rows_ok (shop_of db)"
  shows "sold mk db (with_shop db shop)"
  by (rule sold_shop[OF shop_step.release[OF assms(1)] release_posts[OF assms(1)]])
    (use assms(2) rows_ok_cong[OF release_orders[OF assms(1)]] in simp)

lemma sold_capture:
  assumes "capture_order_funding (mk_funding mk) (shop_of db) r now = Inr shop" "rows_ok (shop_of db)"
  shows "sold mk db (with_shop db shop)"
  by (rule sold_shop[OF shop_step.capture[OF assms(1)] capture_posts[OF assms(1)]])
    (use assms(2) rows_ok_cong[OF capture_orders[OF assms(1)]] in simp)

lemma sold_configure:
  assumes "configure_order_funding (mk_funding mk) (shop_of db) r use now = Inr shop" "rows_ok (shop_of db)" "or_payable r \<le> max64"
  shows "sold mk db (with_shop db shop)"
  by (rule sold_shop[OF shop_step.configure[OF assms(1,3)] configure_posts[OF assms(1)]])
    (use assms(2) rows_ok_cong[OF configure_orders[OF assms(1)]] in simp)

lemma with_same_shop [simp]: "with_shop db (shop_of db) = db"
  by (simp add: with_shop_def)

lemma sold_missing:
  assumes "configure_missing (mk_funding mk) (shop_of db) r now = Inr shop" "rows_ok (shop_of db)" "or_payable r \<le> max64"
  shows "sold mk db (with_shop db shop)" "db_orders shop = db_orders (shop_of db)"
  using assms(1) sold_configure[OF _ assms(2,3)] sold_refl[OF assms(2)] configure_orders
  by (auto simp: configure_missing_def split: option.splits if_splits)

lemma supersede_orders_superseded:
  assumes "supersede_orders fe shop i a b now ps = Inr shop'"
  shows "superseded fe i shop shop' \<and> posts (order_keys fe) shop shop' \<and> (rows_ok shop \<longrightarrow> rows_ok shop')"
  using assms
proof (induction ps arbitrary: shop)
  case (Cons p ps)
  let ?unpaid = "or_status p = ''pending'' \<or> or_status p = ''failed''"
  show ?case
  proof (cases "or_id p = i \<or> or_sub_ended p \<noteq> None \<and> \<not> ?unpaid")
    case True
    with Cons show ?thesis by (simp add: Let_def)
  next
    case False
    then obtain s1 where s1: "(if ?unpaid then release_order_funding fe shop p ''subscription_changed'' now else Inr shop) = Inr s1"
      and rest: "supersede_orders fe (update_row (or_id p) (closed_by_change a b now ?unpaid) s1) i a b now ps = Inr shop'"
      using Cons.prems by (simp only: supersede_orders.simps Let_def if_False try_bind_Inr_iff) blast
    let ?s2 = "update_row (or_id p) (closed_by_change a b now ?unpaid) s1"
    have one: "superseded fe i shop s1" "posts (order_keys fe) shop s1" "db_orders s1 = db_orders shop"
    proof (atomize (full), cases ?unpaid)
      case True
      with s1 have rel: "release_order_funding fe shop p ''subscription_changed'' now = Inr s1" by simp
      from superseded_release[OF superseded_none _ rel] release_posts[OF rel] release_orders[OF rel] False
      show "superseded fe i shop s1 \<and> posts (order_keys fe) shop s1 \<and> db_orders s1 = db_orders shop" by blast
    next
      case no: False
      with s1 show "superseded fe i shop s1 \<and> posts (order_keys fe) shop s1 \<and> db_orders s1 = db_orders shop" by (simp add: superseded_none)
    qed
    have two: "?s2 = s1\<lparr>db_orders := db_orders ?s2, db_audit := db_audit s1\<rparr>" by (simp add: update_row_def)
    have "superseded fe i shop ?s2" by (subst two) (rule superseded_rows[OF one(1)])
    moreover have "superseded fe i a c" if "superseded fe i a b" "superseded fe i b c" for a b c
      using that(2,1) by (induction rule: superseded.induct) (blast intro: superseded.intros)+
    moreover have "rows_ok ?s2" if "rows_ok shop"
      using that rows_ok_cong[OF one(3)] by (intro update_row_ok) (auto simp: closed_by_change_def Let_def)
    moreover have "posts (order_keys fe) shop ?s2" by (rule posts_trans[OF one(2)]) (simp add: update_row_def posts_same)
    ultimately show ?thesis using Cons.IH[OF rest] by (blast intro: posts_trans)
  qed
qed (simp add: superseded_none)

lemma refund_sources_shop:
  assumes "refund_sources re db actor currency n ss orders now acc = Inr (t, db')" "\<forall>r \<in> set orders. db_orders (rf_shop db) (or_id r) \<noteq> None"
  shows "\<exists>os. rf_shop db' = (rf_shop db)\<lparr>db_orders := os\<rparr>" "rows_ok (rf_shop db) \<Longrightarrow> rows_ok (rf_shop db')"
proof (atomize (full), insert assms, induction ss arbitrary: db acc)
  case (Cons s ss)
  obtain i amount where s: "s = (i, amount)" by force
  from Cons.prems(1) s obtain r b db1 db2 acc' where lock: "lock_order_refund_budget re db r = Inr (b, db1)"
    and consume: "consume_order_refund_budget db1 r b amount now = Inr db2"
    and rest: "refund_sources re (db2\<lparr>rf_sources := rf_sources db2 @ [\<lparr>so_settlement = n, so_order = i, so_amount = amount\<rparr>]\<rparr>) actor currency n ss orders now acc' = Inr (t, db')"
    by (auto simp: Let_def split: option.splits if_splits)
  have one: "rf_shop db1 = rf_shop db" using lock by (auto simp: lock_order_refund_budget_def Let_def split: if_splits option.splits)
  obtain n f where two: "rf_shop db2 = update_row (or_id r) (\<lambda>x. x\<lparr>or_refund := n, or_refunded_at := f, or_updated := now\<rparr>) (rf_shop db)"
    using consume one by (auto simp: consume_order_refund_budget_def Let_def update_row_def split: if_splits)
  have "rows_ok (rf_shop db) \<Longrightarrow> rows_ok (rf_shop db2)" unfolding two by (rule update_row_ok) auto
  moreover have "\<forall>r \<in> set orders. db_orders (rf_shop db2) (or_id r) \<noteq> None" using Cons.prems(2) two by (auto simp: update_row_def)
  ultimately show ?case using Cons.IH[OF rest] two by (auto simp: update_row_def)
next
  case Nil
  have "rf_shop db' = (rf_shop db')\<lparr>db_orders := db_orders (rf_shop db')\<rparr>" by simp
  with Nil show ?case by (metis refund_sources.simps(1) sum.inject(2) prod.inject)
qed

lemma related_rows:
  assumes "rows_ok shop" "x \<in> set (related_orders shop n u sub)"
  shows "db_orders shop (or_id x) = Some x" "or_paid x \<le> max64"
proof -
  from assms(2) obtain i where "db_orders shop i = Some x" by (auto simp: related_orders_def List.map_filter_def)
  with assms(1) show "db_orders shop (or_id x) = Some x" "or_paid x \<le> max64" by (auto simp: rows_ok_def)
qed

lemma replacement_sold:
  assumes "settle_full_replacement mk db r s now = Inr db1" "shop2 = (shop_of db1)\<lparr>db_orders := os\<rparr>" "rows_ok (shop_of db1) \<Longrightarrow> rows_ok shop2"
    "capture_order_funding (mk_funding mk) shop2 r later = Inr shop3" "sale_ok mk db" "inj (mk_hash mk)"
  shows "sold mk db (with_shop (db1\<lparr>sx_world := w\<rparr>) shop3)"
proof -
  let ?fe = "mk_funding mk" and ?row = "Suc (sx_settlement_seq db)"
  have R: "refunds_ok (mk_refund mk) (sx_books db)" and rows: "rows_ok (shop_of db)"
    and absent: "\<And>n. sx_settlement_seq db < n \<Longrightarrow> order_key ?fe ''change-refund:'' n \<notin> en_key ` set (db_entries (shop_of db))"
    using assms(5) by (simp_all add: sale_ok_def)
  obtain sub refunded books sa sb a b where
    sources: "refund_value_sources (mk_refund mk) (sx_books db) (or_user r) (or_currency r) ?row (cs_sources s)
        (related_orders (shop_of db) (sx_order_seq db) (or_user r) sub) now = Inr (refunded, books)"
    and wallet: "settle_replacement_wallet ?fe (rf_shop books) r s ?row refunded now = Inr sa"
    and others: "supersede_orders ?fe sa (or_id r) a b now (related_orders (shop_of db) (sx_order_seq db) (or_user r) sub) = Inr sb"
    and db1: "db1 = db\<lparr>sx_books := books\<lparr>rf_shop := audit (Some (or_user r)) ''subscription.change.settle'' (''order:'' @ show_nat (or_id r)) sb\<rparr>,
        sx_settlement_seq := ?row, sx_settled_roots := sx_settled_roots db @ [cs_source_order s], sx_world := mk_stop_renewal mk (sx_world db) (sb_id sub) now\<rparr>"
    using assms(1) by (auto simp: settle_full_replacement_def Let_def simp del: append.simps split: option.splits if_splits prod.splits)
  have bound: "\<forall>x \<in> set (related_orders (shop_of db) (sx_order_seq db) (or_user r) sub). or_paid x \<le> max64"
    and known: "\<forall>x \<in> set (related_orders (shop_of db) (sx_order_seq db) (or_user r) sub). db_orders (shop_of db) (or_id x) \<noteq> None"
    using related_rows[OF rows] by auto
  note k = refund_sources_keeps[OF sources[unfolded refund_value_sources_def] R assms(6) bound]
  obtain os1 where os1: "rf_shop books = (shop_of db)\<lparr>db_orders := os1\<rparr>" and rows1: "rows_ok (rf_shop books)"
    using refund_sources_shop[OF sources[unfolded refund_value_sources_def] known] rows by blast
  have range: "0 \<le> refunded" "refunded \<le> max64" using k by (auto simp: max64_def)
  have fresh: "order_key ?fe ''change-refund:'' ?row \<notin> en_key ` set (db_entries (rf_shop books))" using absent[of ?row] os1 by simp
  note sup = supersede_orders_superseded[OF others]
  have shop2: "shop2 = sb\<lparr>db_orders := os, db_audit := db_audit (shop_of db1)\<rparr>" using assms(2) by (simp add: db1 audit_def)
  have closed: "superseded ?fe (or_id r) sa shop2" unfolding shop2 by (rule superseded_rows) (use sup in blast)
  have step: "shop_step ?fe (rf_shop books) shop3"
    by (rule shop_step.replacement[OF wallet closed assms(4) range fresh])
  have s1: "refund_step (mk_refund mk) (sx_books db) books" by (rule refund_step.settle[OF sources bound])
  have s2: "refund_step (mk_refund mk) books (books\<lparr>rf_shop := shop3\<rparr>)" by (rule refund_step.elsewhere[OF step])
  have chain: "(refund_step (mk_refund mk))\<^sup>*\<^sup>* (sx_books db) (books\<lparr>rf_shop := shop3\<rparr>)"
    by (rule rtranclp_trans[OF r_into_rtranclp[of "refund_step (mk_refund mk)", OF s1] r_into_rtranclp[of "refund_step (mk_refund mk)", OF s2]])
  have rows3: "rows_ok shop3"
  proof -
    have "rows_ok sb" using sup rows1 rows_ok_cong[OF settle_wallet_orders[OF wallet]] by simp
    then have "rows_ok (shop_of db1)" using rows_ok_cong[of "shop_of db1" sb] by (simp add: db1 audit_def)
    with assms(3) rows_ok_cong[OF capture_orders[OF assms(4)]] show ?thesis by simp
  qed
  let ?K = "sale_keys ?fe (sx_settlement_seq db) ?row"
  have sub: "order_keys ?fe \<subseteq> ?K" "order_keys ?fe \<union> {order_key ?fe ''change-refund:'' ?row} \<subseteq> ?K" by (auto simp: sale_keys_def)
  have "posts ?K (shop_of db) (rf_shop books)" by (rule posts_same) (simp add: os1)
  moreover have "posts ?K (rf_shop books) sa" by (rule posts_mono[OF settle_wallet_posts[OF wallet] sub(2)])
  moreover have "posts ?K sa sb" by (rule posts_mono[OF _ sub(1)]) (use sup in blast)
  moreover have "posts ?K sb shop2" by (rule posts_same) (simp add: shop2)
  moreover have "posts ?K shop2 shop3" by (rule posts_mono[OF capture_posts[OF assms(4)] sub(1)])
  ultimately have "posts ?K (shop_of db) shop3" by (blast intro: posts_trans)
  with chain rows3 show ?thesis by (simp add: sold_def db1)
qed

lemma close_terms_rows: "\<exists>os. fold close_term es shop = shop\<lparr>db_orders := os\<rparr>"
proof (induction es arbitrary: shop)
  case Nil
  have "shop = shop\<lparr>db_orders := db_orders shop\<rparr>" by simp
  then show ?case by (metis fold_simps(1))
next
  case (Cons e es)
  from Cons[of "close_term e shop"] show ?case by (auto simp: close_term_def update_row_def)
qed

lemma close_terms_ok: "rows_ok shop \<Longrightarrow> rows_ok (fold close_term es shop)"
proof (induction es arbitrary: shop)
  case (Cons e es)
  have "rows_ok (close_term e shop)" unfolding close_term_def by (rule update_row_ok[OF Cons.prems]) auto
  with Cons.IH show ?case by simp
qed simp

definition same_money :: "order \<Rightarrow> order \<Rightarrow> bool" where
  "same_money x y \<longleftrightarrow> or_id y = or_id x \<and> or_status y = or_status x \<and> or_paid y = or_paid x \<and> or_user y = or_user x \<and> or_currency y = or_currency x
     \<and> or_payable y = or_payable x \<and> or_refund y = or_refund x \<and> or_value_snapshot y = or_value_snapshot x"

lemma close_terms_money: "db_orders shop i = Some x \<Longrightarrow> \<exists>y. db_orders (fold close_term es shop) i = Some y \<and> same_money x y"
proof (induction es arbitrary: shop x)
  case (Cons e es)
  have "\<exists>y. db_orders (close_term e shop) i = Some y \<and> same_money x y"
    using Cons.prems by (cases "i = eo_order e") (simp_all add: close_term_def update_row_def same_money_def)
  then obtain y where y: "db_orders (close_term e shop) i = Some y" "same_money x y" by blast
  from Cons.IH[OF y(1)] obtain z where "db_orders (fold close_term es (close_term e shop)) i = Some z" "same_money y z" by blast
  with y(2) show ?case by (auto simp: same_money_def)
qed (simp add: same_money_def)

lemma with_shop_twice [simp]: "with_shop (with_shop db a) b = with_shop db b"
  by (simp add: with_shop_def)

lemma on_shop_Inr [simp]: "on_shop db x = Inr db' \<longleftrightarrow> (\<exists>shop. x = Inr shop \<and> db' = with_shop db shop)"
  by (auto simp: on_shop_def)

lemma evidence_sold:
  assumes "capture_entitlement_value mk db r i previous verified now = Inr (r', db')" "rows_ok (shop_of db)"
  obtains row payload where "sold mk db db'" "db_orders (shop_of db) (or_id r) = Some row" "or_status row \<noteq> ''paid''"
    "r' = r\<lparr>or_value_snapshot := payload\<rparr>" "db' = with_shop db (update_row (or_id r) (\<lambda>x. x\<lparr>or_value_snapshot := payload\<rparr>) (shop_of db))"
proof -
  obtain payload shop where w: "write_evidence (shop_of db) r payload = Inr (r', shop)" "db' = with_shop db shop"
    using assms(1) by (auto simp: capture_entitlement_value_def split: option.splits)
  then obtain row where row: "db_orders (shop_of db) (or_id r) = Some row" "or_status row \<noteq> ''paid''" "r' = r\<lparr>or_value_snapshot := payload\<rparr>"
    "shop = set_order (shop_of db) (row\<lparr>or_value_snapshot := payload\<rparr>)"
    by (auto simp: write_evidence_def split: option.splits if_splits)
  have "or_id row = or_id r" using assms(2) row(1) by (auto simp: rows_ok_def)
  then have shop: "shop = update_row (or_id r) (\<lambda>x. x\<lparr>or_value_snapshot := payload\<rparr>) (shop_of db)"
    using row(1,4) by (simp add: set_order_def update_row_def)
  have "sold mk db db'" unfolding w(2) shop by (rule sold_update[OF assms(2)]) simp
  then show ?thesis using row(1-3) w(2)[unfolded shop] by (rule that)
qed

lemma mark_sold:
  assumes "mark_order_paid mk db r sub now = Inr (r', db')" "rows_ok (shop_of db)" "or_payable r \<le> max64"
  obtains w where "sold mk db db'" "r' = paid_row r sub now r" "db' = with_shop (db\<lparr>sx_world := w\<rparr>) (update_row (or_id r) (paid_row r sub now) (shop_of db))"
proof -
  obtain w where w: "r' = paid_row r sub now r" "db' = with_shop (db\<lparr>sx_world := w\<rparr>) (update_row (or_id r) (paid_row r sub now) (shop_of db))"
    using assms(1) by (auto simp: mark_order_paid_def)
  have "sold mk (db\<lparr>sx_world := w\<rparr>) (with_shop (db\<lparr>sx_world := w\<rparr>) (update_row (or_id r) (paid_row r sub now) (shop_of (db\<lparr>sx_world := w\<rparr>))))"
    by (rule sold_update) (use assms(2,3) in \<open>simp_all add: paid_row_def\<close>)
  with sold_trans[OF sold_world[OF assms(2)]] have "sold mk db db'" by (simp add: w(2))
  then show ?thesis using w by (rule that)
qed

text \<open>The end of a payment, from the books as they are once the money was captured.\<close>

lemma grant_paid_cases:
  assumes "grant_paid mk db r replace policy now confirmed = Inr (r', db')"
  obtains g shop3 r2 db2 where "mk_fulfil mk (sx_world db) (paid_request r replace) policy now = Inr g"
    "capture_order_funding (mk_funding mk) (fold close_term (fm_ended g) (shop_of db)) r now = Inr shop3"
    "capture_entitlement_value mk (with_shop (db\<lparr>sx_world := fm_world g\<rparr>) shop3) r (sb_id (fm_sub g)) (fm_previous g) confirmed now = Inr (r2, db2)"
    "mark_order_paid mk db2 r2 (sb_id (fm_sub g)) now = Inr (r', db')"
  using assms by (auto simp: grant_paid_def Let_def split: sum.splits)

lemma grant_paid_sold:
  assumes "capture_entitlement_value mk dbc r i previous confirmed now = Inr (r2, db2)" "mark_order_paid mk db2 r2 i now = Inr (r', db')"
    "sold mk db dbc" "or_payable r \<le> max64"
  shows "sold mk db db'" "or_status r' = ''paid''" "or_id r' = or_id r" "or_paid r' = or_payable r" "or_subscription r' = i" "or_user r' = or_user r"
    "or_type r' = or_type r" "or_currency r' = or_currency r" "or_payable r' = or_payable r"
    "\<exists>y. db_orders (shop_of db') (or_id r) = Some y \<and> or_status y = ''paid'' \<and> or_paid y = or_payable r \<and> or_subscription y = i"
    "\<exists>row. db_orders (shop_of dbc) (or_id r) = Some row \<and> or_status row \<noteq> ''paid''" "\<And>j. j \<noteq> or_id r \<Longrightarrow> db_orders (shop_of db') j = db_orders (shop_of dbc) j"
    "db_entries (shop_of db') = db_entries (shop_of dbc)" "db_fundings (shop_of db') = db_fundings (shop_of dbc)" "db_accounts (shop_of db') = db_accounts (shop_of dbc)"
proof -
  have rows: "rows_ok (shop_of dbc)" using assms(3) by (simp add: sold_def)
  obtain row payload where e: "sold mk dbc db2" "db_orders (shop_of dbc) (or_id r) = Some row" "or_status row \<noteq> ''paid''"
    "r2 = r\<lparr>or_value_snapshot := payload\<rparr>" "db2 = with_shop dbc (update_row (or_id r) (\<lambda>x. x\<lparr>or_value_snapshot := payload\<rparr>) (shop_of dbc))"
    by (rule evidence_sold[OF assms(1) rows])
  have "rows_ok (shop_of db2)" "or_payable r2 \<le> max64" using e(1,4) assms(4) by (simp_all add: sold_def)
  then obtain w where m: "sold mk db2 db'" "r' = paid_row r2 i now r2"
    "db' = with_shop (db2\<lparr>sx_world := w\<rparr>) (update_row (or_id r2) (paid_row r2 i now) (shop_of db2))"
    by (rule mark_sold[OF assms(2)])
  show "sold mk db db'" by (rule sold_trans[OF sold_trans[OF assms(3) e(1)] m(1)])
  show "or_status r' = ''paid''" "or_id r' = or_id r" "or_paid r' = or_payable r" "or_subscription r' = i" "or_user r' = or_user r"
    "or_type r' = or_type r" "or_currency r' = or_currency r" "or_payable r' = or_payable r" by (simp_all add: m(2) e(4) paid_row_def)
  show "\<exists>y. db_orders (shop_of db') (or_id r) = Some y \<and> or_status y = ''paid'' \<and> or_paid y = or_payable r \<and> or_subscription y = i"
    "\<And>j. j \<noteq> or_id r \<Longrightarrow> db_orders (shop_of db') j = db_orders (shop_of dbc) j"
    using e(2) by (simp_all add: m(3) e(4,5) update_row_def paid_row_def)
  show "\<exists>row. db_orders (shop_of dbc) (or_id r) = Some row \<and> or_status row \<noteq> ''paid''" using e(2,3) by blast
  show "db_entries (shop_of db') = db_entries (shop_of dbc)" "db_fundings (shop_of db') = db_fundings (shop_of dbc)" "db_accounts (shop_of db') = db_accounts (shop_of dbc)"
    by (simp_all add: m(3) e(5) update_row_def)
qed

lemma paid_gates_cases:
  assumes "paid_gates mk db r now confirmed = Inr (full, found, db1)"
  obtains shop where "fe_require (mk_funding mk) r now = Inr ()" "full_replacement_snapshot (mk_funding mk) r = Inr full"
    "configure_missing (mk_funding mk) (shop_of db) r now = Inr shop" "db1 = with_shop db shop" "find_order_funding (mk_funding mk) shop r = Inr found"
    "\<And>f. found = Some f \<Longrightarrow> fu_state f = ''reserved'' \<and> now < fu_expires f \<and> (fu_wallet f > 0 \<longrightarrow> confirmed)"
proof -
  obtain shop where g: "fe_require (mk_funding mk) r now = Inr ()" "full_replacement_snapshot (mk_funding mk) r = Inr full"
    "configure_missing (mk_funding mk) (shop_of db) r now = Inr shop" "db1 = with_shop db shop" "find_order_funding (mk_funding mk) shop r = Inr found"
    and c: "(case found of None \<Rightarrow> Inr ()
          | Some f \<Rightarrow> if fu_state f \<noteq> ''reserved'' \<or> \<not> now < fu_expires f then Inl funding_conflict
                     else if fu_wallet f > 0 \<and> \<not> confirmed then Inl quote_error else Inr ()) = Inr ()"
    using assms by (auto simp: paid_gates_def Let_def split: if_splits)
  have "fu_state f = ''reserved'' \<and> now < fu_expires f \<and> (fu_wallet f > 0 \<longrightarrow> confirmed)" if "found = Some f" for f
    using c that by (auto split: if_splits)
  then show ?thesis by (rule that[OF g])
qed

lemma set_paid_cases:
  assumes "set_paid_with_funding mk db r now later confirmed = Inr (r', db')"
  obtains (again) "or_type r \<noteq> ''topup''" "or_status r = ''paid''" "r' = r" "db' = db"
  | (fresh) full found db1 policy db2 where "or_type r \<noteq> ''topup''" "or_status r \<noteq> ''paid''"
      "paid_gates mk db r now confirmed = Inr (full, found, db1)" "paid_policy mk db1 r found later = Inr policy"
      "(case full of None \<Rightarrow> Inr db1 | Some s \<Rightarrow> settle_full_replacement mk db1 r s later) = Inr db2"
      "grant_paid mk db2 r (full \<noteq> None) policy later confirmed = Inr (r', db')"
proof (cases "or_status r = ''paid''")
  case True
  with assms have "or_type r \<noteq> ''topup''" "r' = r" "db' = db" by (auto simp: set_paid_with_funding_def split: if_splits)
  with True show ?thesis by (intro again)
next
  case False
  with assms show ?thesis
    unfolding set_paid_with_funding_def by (auto simp del: not_None_eq intro: fresh simp: split_paired_all)
qed

text \<open>
  Once the money is captured, only rows change. Where nothing was replaced the capture is the ordinary one;
  after a replacement it completes the pending settlement.
\<close>

lemma set_paid_sold:
  assumes "set_paid_with_funding mk db r now later confirmed = Inr (r', db')" "or_status r \<noteq> ''paid''" "sale_ok mk db" "inj (mk_hash mk)" "or_payable r \<le> max64"
  obtains i where "sold mk db db'" "or_status r' = ''paid''" "or_id r' = or_id r" "or_paid r' = or_payable r" "or_subscription r' = i" "or_user r' = or_user r"
    "or_type r' = or_type r" "or_currency r' = or_currency r" "or_payable r' = or_payable r"
    "\<exists>y. db_orders (shop_of db') (or_id r) = Some y \<and> or_status y = ''paid'' \<and> or_paid y = or_payable r \<and> or_subscription y = i"
  using assms(1)
proof (cases rule: set_paid_cases)
  case again
  with assms(2) show ?thesis by simp
next
  case (fresh full found db1 policy db2)
  have rows: "rows_ok (shop_of db)" using assms(3) by (simp add: sale_ok_def)
  obtain shop where gate: "configure_missing (mk_funding mk) (shop_of db) r now = Inr shop" "db1 = with_shop db shop"
    by (rule paid_gates_cases[OF fresh(3)])
  have s1: "sold mk db db1" unfolding gate(2) by (rule sold_missing[OF gate(1) rows assms(5)])
  note ok1 = sold_keeps[OF s1 assms(3,4)]
  obtain g shop3 r2 db3 where g0: "mk_fulfil mk (sx_world db2) (paid_request r (full \<noteq> None)) policy later = Inr g"
    and g: "capture_order_funding (mk_funding mk) (fold close_term (fm_ended g) (shop_of db2)) r later = Inr shop3"
    "capture_entitlement_value mk (with_shop (db2\<lparr>sx_world := fm_world g\<rparr>) shop3) r (sb_id (fm_sub g)) (fm_previous g) confirmed later = Inr (r2, db3)"
    "mark_order_paid mk db3 r2 (sb_id (fm_sub g)) later = Inr (r', db')"
    by (rule grant_paid_cases[OF fresh(6)])
  have "sold mk db1 (with_shop (db2\<lparr>sx_world := fm_world g\<rparr>) shop3)"
  proof (cases full)
    case None
    with fresh(5) have db2: "db2 = db1" by simp
    let ?db = "(with_shop db1 (fold close_term (fm_ended g) (shop_of db1)))\<lparr>sx_world := fm_world g\<rparr>"
    have rows1: "rows_ok (shop_of db1)" using ok1 by (simp add: sale_ok_def)
    have a: "sold mk db1 (with_shop db1 (fold close_term (fm_ended g) (shop_of db1)))"
      by (rule sold_rows[OF close_terms_ok[OF rows1] close_terms_rows])
    have b: "sold mk (with_shop db1 (fold close_term (fm_ended g) (shop_of db1))) ?db" by (rule sold_world) (use close_terms_ok[OF rows1] in simp)
    have c: "sold mk ?db (with_shop ?db shop3)" by (rule sold_capture) (use g(1) db2 close_terms_ok[OF rows1] in simp_all)
    have "with_shop ?db shop3 = with_shop (db2\<lparr>sx_world := fm_world g\<rparr>) shop3" by (simp add: db2 with_shop_def)
    with sold_trans[OF sold_trans[OF a b] c] show ?thesis by simp
  next
    case (Some s)
    with fresh(5) have settled: "settle_full_replacement mk db1 r s later = Inr db2" by simp
    obtain os where os: "fold close_term (fm_ended g) (shop_of db2) = (shop_of db2)\<lparr>db_orders := os\<rparr>" using close_terms_rows by blast
    show ?thesis by (rule replacement_sold[OF settled os close_terms_ok g(1) ok1 assms(4)])
  qed
  then have s2: "sold mk db (with_shop (db2\<lparr>sx_world := fm_world g\<rparr>) shop3)" by (rule sold_trans[OF s1])
  note last = grant_paid_sold[OF g(2,3) s2 assms(5)]
  show ?thesis by (rule that[OF last(1-4) last(5) last(6-9) last(10)])
qed

end
