(* ===== verification/Payments.thy ===== *)
theory Payments
  imports Settlement
begin

text \<open>
  Payments of outside channels (\<^verbatim>\<open>commercestore/payment_facts.go\<close>, \<^verbatim>\<open>payment_receipts.go\<close>,
  \<^verbatim>\<open>payment_checkout.go\<close> and their services in \<^verbatim>\<open>commerce/\<close>): an attempt is granted before a
  channel may collect, a verified fact is recorded once, the money behind it becomes one receipt, and the receipt
  either pays its order, waits for review, or is credited to the wallet of the owner.
\<close>

section \<open>Facts, attempts, events and receipts\<close>

record payment_authority =
  pa_account :: nat
  pa_provider :: string
  pa_admin :: bool
  pa_attempt :: bool

record payment_fact =
  pf_order :: nat
  pf_event :: string
  pf_trade :: string
  pf_status :: string
  pf_amount :: int
  pf_currency :: string
  pf_occurred :: gotime

record payment_result =
  px_order :: nat
  px_status :: string
  px_fulfilled :: bool
  px_disposition :: string

record payment_attempt =
  at_order :: nat
  at_provider :: string
  at_amount :: int
  at_currency :: string

record payment_event =
  ev_order :: nat
  ev_provider :: string
  ev_event :: string
  ev_type :: string
  ev_amount :: int
  ev_payload :: string
  ev_processed :: "gotime option"
  ev_created :: gotime

record payment_receipt =
  pr_id :: nat
  pr_key :: string
  pr_provider :: string
  pr_trade :: string
  pr_resolver :: "nat option"
  pr_ticket :: "nat option"
  pr_reason :: string
  pr_resolved :: "gotime option"
  pr_order :: nat
  pr_amount :: int
  pr_currency :: string
  pr_disposition :: string
  pr_entry :: "nat option"
  pr_created :: gotime
  pr_processed :: gotime

record 'w payment_db = "'w sale_db" +
  py_attempts :: "payment_attempt list"
  py_events :: "payment_event list"
  py_receipts :: "payment_receipt list"
  py_receipt_seq :: nat

text \<open>The JSON text of a fact, and the check of the discount reservation behind an order whose money arrived.\<close>

record 'w payment_env =
  pe_encode :: "payment_fact \<Rightarrow> string result"
  pe_decode :: "string \<Rightarrow> payment_fact option"
  pe_damaged :: "'w \<Rightarrow> order \<Rightarrow> bool result"

text \<open>The readings of the clock within one transaction.\<close>

record payment_clock =
  ck_now :: gotime
  ck_paid :: gotime
  ck_failed :: gotime
  ck_done :: gotime

abbreviation payment_conflict :: go_error where "payment_conflict \<equiv> ErrNamed ''ErrPaymentFactConflict''"

abbreviation open_order :: "order \<Rightarrow> bool" where "open_order r \<equiv> or_status r = ''pending'' \<or> or_status r = ''failed''"

section \<open>The services\<close>

definition payment_facts_record :: "go_unicode \<Rightarrow> (payment_authority \<Rightarrow> payment_fact \<Rightarrow> 'a result) \<Rightarrow> gotime \<Rightarrow> payment_authority \<Rightarrow> payment_fact \<Rightarrow> 'a result" where
  "payment_facts_record uc record now authority pf =
     (let pf = pf\<lparr>pf_event := trim_space (pf_event pf), pf_trade := trim_space (pf_trade pf), pf_status := lower_trim uc (pf_status pf),
        pf_currency := upper_trim uc (pf_currency pf)\<rparr> in
      if pa_account authority = 0 \<or> trim_space (pa_provider authority) = [] \<or> length (pa_provider authority) > 32 \<or> pf_order pf = 0
         \<or> pf_event pf = [] \<or> length (pf_event pf) > 128 \<or> pf_trade pf = [] \<or> length (pf_trade pf) > 128
         \<or> (pf_status pf \<noteq> ''paid'' \<and> pf_status pf \<noteq> ''failed'') \<or> pf_amount pf \<le> 0 \<or> length (pf_currency pf) \<noteq> 3
         \<or> is_zero (pf_occurred pf) \<or> now + 600000000000 < pf_occurred pf
      then Inl (ErrValidation []) else record authority pf)"

definition payment_checkout_open :: "(nat \<Rightarrow> nat \<Rightarrow> string \<Rightarrow> 'a result) \<Rightarrow> nat \<Rightarrow> nat \<Rightarrow> string \<Rightarrow> 'a result" where
  "payment_checkout_open open actor i provider =
     (if actor = 0 \<or> i = 0 \<or> provider = [] \<or> length provider > 32 then Inl ErrOrderPermission else open actor i provider)"

record resolve_request =
  rv_receipt :: nat
  rv_ticket :: nat
  rv_decision :: string
  rv_reason :: string

definition payment_receipts_read :: "(nat \<Rightarrow> nat \<Rightarrow> bool \<Rightarrow> nat \<Rightarrow> int \<Rightarrow> 'a result) \<Rightarrow> nat \<Rightarrow> nat \<Rightarrow> bool \<Rightarrow> nat \<Rightarrow> int \<Rightarrow> 'a result" where
  "payment_receipts_read read actor i admin after lim =
     (if actor = 0 then Inl ErrOrderPermission
      else if i = 0 then Inl ErrNotFound
      else if lim < 1 \<or> lim > 100 then Inl (ErrValidation [])
      else read actor i admin after lim)"

definition payment_receipts_resolve :: "(nat \<Rightarrow> nat \<Rightarrow> resolve_request \<Rightarrow> 'a result) \<Rightarrow> nat \<Rightarrow> nat \<Rightarrow> resolve_request \<Rightarrow> 'a result" where
  "payment_receipts_resolve resolve actor i rq =
     (let rq = rq\<lparr>rv_reason := trim_space (rv_reason rq)\<rparr> in
      if actor = 0 then Inl ErrOrderPermission
      else if i = 0 \<or> rv_receipt rq = 0 \<or> rv_ticket rq = 0 \<or> length (rv_reason rq) < 3 \<or> length (rv_reason rq) > 500
         \<or> (rv_decision rq \<noteq> ''credit_wallet'' \<and> rv_decision rq \<noteq> ''already_applied'') then Inl (ErrValidation [])
      else resolve actor i rq)"

section \<open>Opening a checkout\<close>

definition open_attempt :: "nat \<Rightarrow> string \<Rightarrow> payment_attempt \<Rightarrow> bool" where
  "open_attempt i provider a \<longleftrightarrow> at_order a = i \<and> at_provider a = provider"

definition with_attempt :: "payment_attempt \<Rightarrow> 'w payment_db \<Rightarrow> 'w payment_db" where
  "with_attempt a db = (let shop = shop_of db in
     with_shop (db\<lparr>py_attempts := py_attempts db @ [a]\<rparr>) (shop\<lparr>db_attempts := db_attempts shop @ [at_order a]\<rparr>))"

definition still_reserved :: "order_funding option \<Rightarrow> gotime \<Rightarrow> bool" where
  "still_reserved found now = (case found of None \<Rightarrow> True | Some f \<Rightarrow> fu_state f = ''reserved'' \<and> now < fu_expires f)"

definition reopen_checkout :: "'w market \<Rightarrow> (nat \<Rightarrow> gotime) \<Rightarrow> order \<Rightarrow> int \<Rightarrow> order_funding option \<Rightarrow> payment_attempt \<Rightarrow> order result" where
  "reopen_checkout mk clock r cash found a =
     (if at_amount a \<noteq> cash \<or> at_currency a \<noteq> or_currency r then Inl payment_conflict
      else let closed = (open_order r \<and> (\<not> still_reserved found (clock 0) \<or> fe_require (mk_funding mk) r (clock 1) \<noteq> Inr ())) in
        Inr (r\<lparr>or_payable := cash, or_status := (if closed then ''canceled'' else or_status r)\<rparr>))"

definition first_checkout :: "'w market \<Rightarrow> 'w payment_db \<Rightarrow> (nat \<Rightarrow> gotime) \<Rightarrow> order \<Rightarrow> string \<Rightarrow> order_funding option \<Rightarrow>
    (order \<times> bool \<times> 'w payment_db) result" where
  "first_checkout mk db clock r provider found =
     (let fe = mk_funding mk in
      try_bind (if open_order r
          then try_bind (fe_require fe r (clock 0)) (\<lambda>_. try_bind (configure_missing fe (shop_of db) r (clock 1)) (\<lambda>shop.
                 try_bind (find_order_funding fe shop r) (\<lambda>found. Inr (shop, found))))
          else Inr (shop_of db, found)) (\<lambda>(shop, found).
      let db = with_shop db shop;
          cash = (case found of None \<Rightarrow> or_payable r | Some f \<Rightarrow> fu_cash f);
          ready = still_reserved found (clock 2);
          shown = r\<lparr>or_payable := cash, or_status := (if \<not> ready \<and> open_order r then ''canceled'' else or_status r)\<rparr>;
          bound = (or_status r = ''paid'' \<and> or_channel r = provider \<and> or_provider_trade_no r \<noteq> None)
      in if \<not> open_order r \<and> \<not> bound then Inr (shown, False, db)
         else if cash \<le> 0 \<or> \<not> ready \<and> \<not> bound then Inr (shown, False, db)
         else Inr (shown, True, with_attempt \<lparr>at_order = or_id r, at_provider = provider, at_amount = cash, at_currency = or_currency r\<rparr> db)))"

definition checkout_open :: "'w market \<Rightarrow> 'w payment_db \<Rightarrow> (nat \<Rightarrow> gotime) \<Rightarrow> nat \<Rightarrow> nat \<Rightarrow> string \<Rightarrow> (order \<times> bool \<times> 'w payment_db) result" where
  "checkout_open mk db clock actor i provider =
     (case db_orders (shop_of db) i of
        None \<Rightarrow> Inl ErrNotFound
      | Some r \<Rightarrow>
          if or_user r \<noteq> actor then Inl ErrNotFound
          else try_bind (order_reader (shop_of db) actor False) (\<lambda>_.
            try_bind (find_order_funding (mk_funding mk) (shop_of db) r) (\<lambda>found.
            case List.find (open_attempt i provider) (py_attempts db) of
              None \<Rightarrow> first_checkout mk db clock r provider found
            | Some a \<Rightarrow> try_bind (reopen_checkout mk clock r (case found of None \<Rightarrow> or_payable r | Some f \<Rightarrow> fu_cash f) found a) (\<lambda>shown.
                Inr (shown, True, db)))))"

section \<open>Receipts\<close>

definition payment_receipt_key :: "'w market \<Rightarrow> string \<Rightarrow> string \<Rightarrow> string" where
  "payment_receipt_key mk provider trade = mk_hash mk (provider @ [CHR 0x00] @ trade)"

definition receipt_credit_key :: "'w market \<Rightarrow> nat \<Rightarrow> string" where
  "receipt_credit_key mk n = mk_hash mk (''payment-receipt:'' @ show_nat n)"

definition find_receipt :: "'w payment_db \<Rightarrow> string \<Rightarrow> payment_receipt option" where
  "find_receipt db key = List.find (\<lambda>c. pr_key c = key) (py_receipts db)"

definition put_receipt :: "payment_receipt \<Rightarrow> 'w payment_db \<Rightarrow> 'w payment_db" where
  "put_receipt c db = db\<lparr>py_receipts := map (\<lambda>x. if pr_id x = pr_id c then c else x) (py_receipts db)\<rparr>"

definition accept_payment_receipt :: "'w market \<Rightarrow> 'w payment_db \<Rightarrow> order \<Rightarrow> string \<Rightarrow> payment_fact \<Rightarrow> gotime \<Rightarrow>
    (payment_receipt \<times> bool \<times> 'w payment_db) result" where
  "accept_payment_receipt mk db r provider pf now =
     (let key = payment_receipt_key mk provider (pf_trade pf) in
      case find_receipt db key of
        Some c \<Rightarrow>
          if pr_order c \<noteq> or_id r \<or> pr_provider c \<noteq> provider \<or> pr_trade c \<noteq> pf_trade pf \<or> pr_amount c \<noteq> pf_amount pf
             \<or> pr_currency c \<noteq> pf_currency pf then Inl payment_conflict
          else Inr (c, False, db)
      | None \<Rightarrow>
          let applied = (or_status r = ''paid'' \<and> or_channel r = provider \<and> or_provider_trade_no r = Some (pf_trade pf));
              c = \<lparr>pr_id = Suc (py_receipt_seq db), pr_key = key, pr_provider = provider, pr_trade = pf_trade pf, pr_resolver = None,
                   pr_ticket = None, pr_reason = [], pr_resolved = None, pr_order = or_id r, pr_amount = pf_amount pf, pr_currency = pf_currency pf,
                   pr_disposition = (if applied then ''legacy_applied'' else ''processing''), pr_entry = None, pr_created = now, pr_processed = now\<rparr>
          in Inr (c, \<not> applied, db\<lparr>py_receipts := py_receipts db @ [c], py_receipt_seq := Suc (py_receipt_seq db)\<rparr>))"

text \<open>The four reasons and texts an order or an entry is written with.\<close>

definition conditions_changed_text :: string where
  "conditions_changed_text = bytes [228, 187, 152, 230, 172, 190, 229, 183, 178, 230, 160, 184, 233, 170, 140, 239, 188, 140, 230, 157, 131, 231, 155, 138, 230, 157, 161, 228, 187, 182, 229, 183, 178, 229, 143, 152, 229, 140, 150, 239, 188, 140, 230, 172, 190, 233, 161, 185, 229, 183, 178, 232, 189, 172, 229, 133, 165, 231, 171, 153, 229, 134, 133, 228, 189, 153, 233, 162, 157, 239, 188, 140, 232, 175, 183, 233, 135, 141, 230, 150, 176, 231, 161, 174, 232, 174, 164, 232, 174, 162, 229, 141, 149, 227, 128, 130]"
definition target_missing_text :: string where
  "target_missing_text = bytes [228, 187, 152, 230, 172, 190, 229, 183, 178, 230, 160, 184, 233, 170, 140, 239, 188, 140, 228, 189, 134, 229, 142, 134, 229, 143, 178, 232, 174, 162, 229, 141, 149, 231, 188, 186, 229, 176, 145, 231, 139, 172, 231, 171, 139, 232, 174, 162, 233, 152, 133, 231, 155, 174, 230, 160, 135, 239, 188, 155, 230, 172, 190, 233, 161, 185, 229, 183, 178, 232, 189, 172, 229, 133, 165, 228, 189, 153, 233, 162, 157, 239, 188, 140, 232, 175, 183, 233, 128, 154, 232, 191, 135, 229, 183, 165, 229, 141, 149, 230, 160, 184, 229, 175, 185, 227, 128, 130]"
definition window_closed_text :: string where
  "window_closed_text = bytes [228, 187, 152, 230, 172, 190, 229, 183, 178, 230, 160, 184, 233, 170, 140, 239, 188, 140, 228, 189, 134, 232, 174, 162, 233, 152, 133, 229, 183, 178, 231, 187, 147, 230, 157, 159, 230, 136, 150, 229, 183, 178, 232, 182, 133, 232, 191, 135, 231, 187, 173, 232, 180, 185, 230, 129, 162, 229, 164, 141, 231, 170, 151, 229, 143, 163, 239, 188, 155, 230, 172, 190, 233, 161, 185, 229, 183, 178, 232, 189, 172, 229, 133, 165, 228, 189, 153, 233, 162, 157, 239, 188, 140, 232, 175, 183, 233, 135, 141, 230, 150, 176, 231, 161, 174, 232, 174, 164, 229, 143, 175, 229, 148, 174, 230, 147, 141, 228, 189, 156, 227, 128, 130]"
definition late_payment_text :: string where
  "late_payment_text = bytes [229, 183, 178, 230, 160, 184, 233, 170, 140, 231, 154, 132, 232, 191, 159, 229, 136, 176, 230, 136, 150, 233, 135, 141, 229, 164, 141, 230, 184, 160, 233, 129, 147, 228, 187, 152, 230, 172, 190, 232, 189, 172, 229, 133, 165, 228, 189, 153, 233, 162, 157]"
definition reviewed_payment_text :: string where
  "reviewed_payment_text = bytes [231, 174, 161, 231, 144, 134, 229, 145, 152, 230, 160, 184, 229, 175, 185, 230, 184, 160, 233, 129, 147, 230, 172, 190, 233, 161, 185, 229, 144, 142, 232, 189, 172, 229, 133, 165, 228, 189, 153, 233, 162, 157]"

definition failure_text :: "go_error \<Rightarrow> string" where
  "failure_text e = (if e = ErrQuoted grant_target_text then target_missing_text
     else if e = ErrQuoted renewal_window_text then window_closed_text else conditions_changed_text)"

text \<open>The trade number of a channel is unique among all orders.\<close>

definition trade_taken :: "'w payment_db \<Rightarrow> nat \<Rightarrow> string \<Rightarrow> bool" where
  "trade_taken db i trade \<longleftrightarrow> (\<exists>j \<in> set [1..<Suc (sx_order_seq db)]. j \<noteq> i
     \<and> (case db_orders (shop_of db) j of None \<Rightarrow> False | Some x \<Rightarrow> or_provider_trade_no x = Some trade))"

definition bind_trade :: "'w payment_db \<Rightarrow> nat \<Rightarrow> string \<Rightarrow> string \<Rightarrow> (order \<Rightarrow> order) \<Rightarrow> 'w payment_db result" where
  "bind_trade db i provider trade f =
     (if trade_taken db i trade then Inl (ErrNamed ''ErrDuplicatedKey'')
      else Inr (with_shop db (update_row i (\<lambda>x. (f x)\<lparr>or_channel := provider, or_provider_trade_no := Some trade\<rparr>) (shop_of db))))"

definition canceled_row :: "gotime \<Rightarrow> order \<Rightarrow> order" where
  "canceled_row now x = x\<lparr>or_status := ''canceled'', or_canceled_at := Some now, or_updated := now\<rparr>"

text \<open>The receipt pays its order: its disposition, the entry of a top-up, and the trade on the order.\<close>

definition fulfil_receipt :: "'w market \<Rightarrow> 'w payment_db \<Rightarrow> order \<Rightarrow> payment_receipt \<Rightarrow> (payment_receipt \<times> 'w payment_db) result" where
  "fulfil_receipt mk db r c =
     try_bind (if or_type r = ''topup'' then
          (case find_entry (shop_of db) (order_key (mk_funding mk) ''topup-order:'' (or_id r)) of
             None \<Rightarrow> Inl (ErrNamed ''ErrRecordNotFound'')
           | Some e \<Rightarrow> Inr (c\<lparr>pr_disposition := ''wallet_topup'', pr_entry := Some (en_id e)\<rparr>, db))
        else try_bind (if or_subscription r \<noteq> 0 then mk_publish mk (sx_world db) (or_subscription r) (or_user r) else Inr (sx_world db)) (\<lambda>w.
          Inr (c\<lparr>pr_disposition := ''fulfilled''\<rparr>, db\<lparr>sx_world := w\<rparr>))) (\<lambda>(c, db).
     try_bind (bind_trade db (or_id r) (pr_provider c) (pr_trade c) (\<lambda>x. x)) (\<lambda>db.
       Inr (c, db)))"

text \<open>The money of an order that cannot be fulfilled goes to its owner.\<close>

definition credit_receipt :: "'w market \<Rightarrow> 'w payment_db \<Rightarrow> order \<Rightarrow> payment_receipt \<Rightarrow> gotime \<Rightarrow> (payment_receipt \<times> 'w payment_db) result" where
  "credit_receipt mk db r c now =
     try_bind (release_order_funding (mk_funding mk) (shop_of db) r ''fulfillment_unavailable'' now) (\<lambda>shop.
     try_bind (append_wallet_credit (we_unicode (fe_wallet (mk_funding mk))) shop r (receipt_credit_key mk (pr_id c)) ''payment_credit''
         late_payment_text (pr_amount c) now) (\<lambda>(i, shop).
       Inr (c\<lparr>pr_disposition := ''wallet_credit'', pr_entry := Some i\<rparr>, with_shop db shop)))"

text \<open>Funds that are no longer reserved for this payment are released before anything else, and the order is closed.\<close>

definition expire_for_receipt :: "'w market \<Rightarrow> 'w payment_db \<Rightarrow> order \<Rightarrow> bool \<Rightarrow> gotime \<Rightarrow> (bool \<times> order \<times> 'w payment_db) result" where
  "expire_for_receipt mk db r unplanned now =
     (let fulfil = (open_order r \<or> or_type r = ''topup'' \<and> or_status r = ''canceled'') in
      try_bind (find_order_funding (mk_funding mk) (shop_of db) r) (\<lambda>found.
      if found \<noteq> None \<and> (unplanned \<or> \<not> still_reserved found now)
      then try_bind (on_shop db (release_order_funding (mk_funding mk) (shop_of db) r (if unplanned then ''funding_mismatch'' else ''expired'') now)) (\<lambda>db.
        if open_order r then Inr (False, canceled_row now r, with_shop db (update_row (or_id r) (canceled_row now) (shop_of db)))
        else Inr (False, r, db))
      else Inr (fulfil, r, db)))"

definition recoverable :: "go_error \<Rightarrow> bool" where
  "recoverable e \<longleftrightarrow> is_validation e \<or> e = ErrNamed ''ErrCapacity''"

text \<open>Fulfilment runs behind a savepoint: an error of the entitlement rolls it back and leaves the money.\<close>

definition settle_receipt :: "'w market \<Rightarrow> 'w payment_db \<Rightarrow> order \<Rightarrow> payment_receipt \<Rightarrow> payment_clock \<Rightarrow> (order \<times> payment_receipt \<times> gotime \<times> 'w payment_db) result" where
  "settle_receipt mk db r c ck =
     (case set_verified_paid mk db r (ck_now ck) (ck_paid ck) of
        Inr (r, db) \<Rightarrow> try_bind (fulfil_receipt mk db r c) (\<lambda>(c, db). Inr (r, c, ck_now ck, db))
      | Inl e \<Rightarrow>
          if \<not> recoverable e then Inl e
          else case db_orders (shop_of db) (or_id r) of
              None \<Rightarrow> Inl (ErrNamed ''ErrRecordNotFound'')
            | Some r \<Rightarrow>
                let close = (\<lambda>x. (canceled_row (ck_failed ck) x)\<lparr>or_failure := failure_text e\<rparr>) in
                try_bind (credit_receipt mk (with_shop db (update_row (or_id r) close (shop_of db))) (close r) c (ck_failed ck)) (\<lambda>(c, db).
                  Inr (close r, c, ck_failed ck, db)))"

definition legacy_payment :: "order \<Rightarrow> bool" where
  "legacy_payment r \<longleftrightarrow> or_paid r > 0 \<and> or_provider_trade_no r = None \<and> or_channel r \<noteq> ''wallet'' \<and> or_type r \<noteq> ''topup''"

definition apply_receipt :: "'w market \<Rightarrow> 'w payment_env \<Rightarrow> 'w payment_db \<Rightarrow> order \<Rightarrow> payment_receipt \<Rightarrow> payment_clock \<Rightarrow> bool \<Rightarrow>
    (order \<times> payment_receipt \<times> 'w payment_db) result" where
  "apply_receipt mk pe db r c ck unplanned =
     (let review = c\<lparr>pr_disposition := ''review_required''\<rparr> in
      try_bind (pe_damaged pe (sx_world db) r) (\<lambda>damaged.
      if damaged \<or> legacy_payment r then Inr (r, review, put_receipt review db)
      else try_bind (expire_for_receipt mk db r unplanned (ck_now ck)) (\<lambda>(fulfil, r, db).
        try_bind (if fulfil then settle_receipt mk db r c ck
            else try_bind (credit_receipt mk db r c (ck_now ck)) (\<lambda>(c, db). Inr (r, c, ck_now ck, db))) (\<lambda>(r, c, now, db).
          let c = c\<lparr>pr_processed := now\<rparr> in Inr (r, c, put_receipt c db)))))"

section \<open>Recording a fact\<close>

text \<open>What a fact must carry: the cash part of the order, except that an administrator may report the whole price.\<close>

definition expected_cash :: "funding_env \<Rightarrow> shop_db \<Rightarrow> order \<Rightarrow> (int \<times> bool) result" where
  "expected_cash fe shop r =
     try_bind (find_order_funding fe shop r) (\<lambda>found.
     try_bind (full_replacement_snapshot fe r) (\<lambda>full.
       Inr (case found of Some f \<Rightarrow> fu_cash f | None \<Rightarrow> (case full of None \<Rightarrow> or_payable r | Some s \<Rightarrow> sub64 (or_payable r) (cs_applied s)),
            found \<noteq> None \<or> full \<noteq> None)))"

definition unplanned_whole :: "payment_authority \<Rightarrow> payment_fact \<Rightarrow> order \<Rightarrow> int \<Rightarrow> bool \<Rightarrow> bool" where
  "unplanned_whole a pf r expected planned \<longleftrightarrow> planned \<and> pa_admin a \<and> \<not> pa_attempt a \<and> pf_status pf = ''paid''
     \<and> pf_amount pf = or_payable r \<and> pf_amount pf \<noteq> expected"

definition attempt_agrees :: "go_unicode \<Rightarrow> 'w payment_db \<Rightarrow> payment_authority \<Rightarrow> payment_fact \<Rightarrow> order \<Rightarrow> bool" where
  "attempt_agrees uc db a pf r \<longleftrightarrow> \<not> pa_attempt a
     \<or> (case List.find (open_attempt (or_id r) (pa_provider a)) (py_attempts db) of
          None \<Rightarrow> False
        | Some t \<Rightarrow> at_amount t = pf_amount pf \<and> equal_fold uc (at_currency t) (pf_currency pf))"

text \<open>A replay is the immutable fact, never its JSON spelling.\<close>

definition same_payment_fact :: "'w payment_env \<Rightarrow> string \<Rightarrow> payment_fact \<Rightarrow> bool" where
  "same_payment_fact pe payload pf = (pe_decode pe payload = Some pf)"

definition replay_fact :: "'w market \<Rightarrow> 'w payment_env \<Rightarrow> 'w payment_db \<Rightarrow> order \<Rightarrow> payment_authority \<Rightarrow> payment_fact \<Rightarrow> payment_event \<Rightarrow> payment_result result" where
  "replay_fact mk pe db r a pf ev =
     (if ev_order ev \<noteq> or_id r \<or> ev_type ev \<noteq> pf_status pf \<or> ev_amount ev \<noteq> pf_amount pf \<or> \<not> same_payment_fact pe (ev_payload ev) pf
      then Inl payment_conflict
      else Inr \<lparr>px_order = or_id r, px_status = or_status r, px_fulfilled = False,
        px_disposition = (if pf_status pf = ''paid'' then (case find_receipt db (payment_receipt_key mk (pa_provider a) (pf_trade pf)) of
            None \<Rightarrow> [] | Some c \<Rightarrow> pr_disposition c) else [])\<rparr>)"

definition provider_failure_text :: string where "provider_failure_text = ''payment provider reported failure''"

definition failed_row :: "gotime \<Rightarrow> order \<Rightarrow> order" where
  "failed_row now x = x\<lparr>or_status := ''failed'', or_failure := provider_failure_text, or_updated := now\<rparr>"

definition record_failure :: "'w market \<Rightarrow> 'w payment_db \<Rightarrow> order \<Rightarrow> payment_authority \<Rightarrow> payment_fact \<Rightarrow> gotime \<Rightarrow> 'w payment_db result" where
  "record_failure mk db r a pf now =
     (if (or_channel r \<noteq> [] \<and> or_channel r \<noteq> ''manual'' \<and> or_channel r \<noteq> pa_provider a)
         \<or> (case or_provider_trade_no r of None \<Rightarrow> False | Some t \<Rightarrow> t \<noteq> pf_trade pf) then Inl payment_conflict
      else if \<not> order_transition_allowed (or_status r) (pf_status pf) False then Inl (ErrNamed ''ErrOrderTransition'')
      else try_bind (bind_trade db (or_id r) (pa_provider a) (pf_trade pf)
             (failed_row now)) (\<lambda>db.
        on_shop db (release_order_funding (mk_funding mk) (shop_of db)
          ((failed_row now r)\<lparr>or_channel := pa_provider a, or_provider_trade_no := Some (pf_trade pf)\<rparr>) ''payment_failed'' now)))"

definition record_paid :: "'w market \<Rightarrow> 'w payment_env \<Rightarrow> 'w payment_db \<Rightarrow> order \<Rightarrow> payment_authority \<Rightarrow> payment_fact \<Rightarrow> payment_clock \<Rightarrow> bool \<Rightarrow>
    (payment_result \<times> 'w payment_db) result" where
  "record_paid mk pe db r a pf ck unplanned =
     try_bind (accept_payment_receipt mk db r (pa_provider a) pf (ck_now ck)) (\<lambda>(c, fresh, db).
     try_bind (if fresh then apply_receipt mk pe db r c ck unplanned else Inr (r, c, db)) (\<lambda>(r, c, db).
       Inr (\<lparr>px_order = or_id r, px_status = or_status r, px_fulfilled = (fresh \<and> (pr_disposition c = ''fulfilled'' \<or> pr_disposition c = ''wallet_topup'')),
         px_disposition = pr_disposition c\<rparr>, db)))"

definition find_event :: "'w payment_db \<Rightarrow> string \<Rightarrow> string \<Rightarrow> payment_event option" where
  "find_event db provider event = List.find (\<lambda>e. ev_provider e = provider \<and> ev_event e = event) (py_events db)"

definition new_event :: "payment_authority \<Rightarrow> payment_fact \<Rightarrow> string \<Rightarrow> payment_event" where
  "new_event a pf payload = \<lparr>ev_order = pf_order pf, ev_provider = pa_provider a, ev_event = pf_event pf, ev_type = pf_status pf,
     ev_amount = pf_amount pf, ev_payload = payload, ev_processed = None, ev_created = pf_occurred pf\<rparr>"

definition with_event :: "payment_event \<Rightarrow> 'w payment_db \<Rightarrow> 'w payment_db" where
  "with_event e db = (let shop = shop_of db in
     with_shop (db\<lparr>py_events := py_events db @ [e]\<rparr>) (shop\<lparr>db_events := db_events shop @ [ev_order e]\<rparr>))"

definition event_processed :: "payment_event \<Rightarrow> gotime \<Rightarrow> 'w payment_db \<Rightarrow> 'w payment_db" where
  "event_processed e t db = db\<lparr>py_events :=
     map (\<lambda>x. if ev_provider x = ev_provider e \<and> ev_event x = ev_event e then x\<lparr>ev_processed := Some t\<rparr> else x) (py_events db)\<rparr>"

definition record_new_fact :: "'w market \<Rightarrow> 'w payment_env \<Rightarrow> 'w payment_db \<Rightarrow> order \<Rightarrow> payment_authority \<Rightarrow> payment_fact \<Rightarrow> string \<Rightarrow> payment_clock \<Rightarrow>
    (payment_result \<times> 'w payment_db) result" where
  "record_new_fact mk pe db r a pf payload ck =
     (let fe = mk_funding mk; uc = we_unicode (fe_wallet fe) in
      try_bind (expected_cash fe (shop_of db) r) (\<lambda>(expected, planned).
      let unplanned = unplanned_whole a pf r expected planned in
      if (pf_amount pf \<noteq> expected \<and> \<not> unplanned) \<or> \<not> equal_fold uc (pf_currency pf) (or_currency r) then Inl payment_conflict
      else if \<not> attempt_agrees uc db a pf r then Inl payment_conflict
      else let e = new_event a pf payload; db = with_event e db in
        try_bind (if pf_status pf \<noteq> ''paid''
            then try_bind (record_failure mk db r a pf (ck_now ck)) (\<lambda>db.
              Inr (\<lparr>px_order = or_id r, px_status = ''failed'', px_fulfilled = False, px_disposition = []\<rparr>, db))
            else record_paid mk pe db r a pf ck unplanned) (\<lambda>(out, db).
        let db = event_processed e (ck_done ck) db in
        Inr (out, with_shop db (audit (Some (pa_account a)) ''commerce.payment.record'' (''order:'' @ show_nat (or_id r)) (shop_of db))))))"

definition record_payment :: "'w market \<Rightarrow> 'w payment_env \<Rightarrow> payment_clock \<Rightarrow> payment_authority \<Rightarrow> payment_fact \<Rightarrow> 'w payment_db \<Rightarrow>
    (payment_result \<times> 'w payment_db) result" where
  "record_payment mk pe ck a pf db =
     try_bind (pe_encode pe pf) (\<lambda>payload.
     case try_bind (mk_scope mk (sx_world db) (shop_of db) (pf_order pf) (pa_account a) (pa_account a) (pa_admin a)) (\<lambda>_.
         case db_orders (shop_of db) (pf_order pf) of
           None \<Rightarrow> Inl ErrOrderPermission
         | Some r \<Rightarrow>
             if or_user r \<noteq> pa_account a then Inl ErrOrderPermission
             else try_bind (order_reader (shop_of db) (pa_account a) (pa_admin a)) (\<lambda>_.
               case find_event db (pa_provider a) (pf_event pf) of
                 Some e \<Rightarrow> try_bind (replay_fact mk pe db r a pf e) (\<lambda>out. Inr (out, db))
               | None \<Rightarrow> record_new_fact mk pe db r a pf payload ck)) of
       Inl e \<Rightarrow> Inl (if e = ErrNamed ''ErrDuplicatedKey'' then payment_conflict else e)
     | Inr x \<Rightarrow> Inr x)"

section \<open>Reading and resolving receipts\<close>

record receipt_summary =
  rs_provider :: string
  rs_trade :: string
  rs_id :: nat
  rs_amount :: int
  rs_currency :: string
  rs_disposition :: string
  rs_entry :: "nat option"
  rs_created :: gotime
  rs_ticket :: "nat option"
  rs_reason :: string

definition summarize_receipt :: "payment_receipt \<Rightarrow> bool \<Rightarrow> receipt_summary" where
  "summarize_receipt c admin =
     \<lparr>rs_provider = (if admin then pr_provider c else []), rs_trade = (if admin then pr_trade c else []), rs_id = pr_id c, rs_amount = pr_amount c,
      rs_currency = pr_currency c, rs_disposition = pr_disposition c, rs_entry = pr_entry c, rs_created = pr_created c,
      rs_ticket = (if admin then pr_ticket c else None), rs_reason = (if admin then pr_reason c else [])\<rparr>"

definition read_receipts :: "'w payment_db \<Rightarrow> nat \<Rightarrow> nat \<Rightarrow> bool \<Rightarrow> nat \<Rightarrow> int \<Rightarrow> (receipt_summary list \<times> bool) result" where
  "read_receipts db actor i admin after lim =
     try_bind (order_reader (shop_of db) actor admin) (\<lambda>_.
     case db_orders (shop_of db) i of
       None \<Rightarrow> Inl ErrNotFound
     | Some r \<Rightarrow>
         if \<not> admin \<and> or_user r \<noteq> actor then Inl ErrNotFound
         else let rows = take (nat (lim + 1)) (rev (filter (\<lambda>c. pr_order c = i \<and> (after = 0 \<or> pr_id c < after)) (py_receipts db)));
                  extra = int (length rows) > lim;
                  rows = (if extra then take (nat lim) rows else rows)
              in Inr (map (\<lambda>c. summarize_receipt c admin) rows, extra))"

definition resolved_disposition :: "resolve_request \<Rightarrow> string" where
  "resolved_disposition rq = (if rv_decision rq = ''already_applied'' then ''legacy_applied'' else ''wallet_credit'')"

definition close_receipt :: "'w market \<Rightarrow> 'w payment_db \<Rightarrow> gotime \<Rightarrow> nat \<Rightarrow> order \<Rightarrow> payment_receipt \<Rightarrow> resolve_request \<Rightarrow>
    (receipt_summary \<times> 'w payment_db) result" where
  "close_receipt mk db now actor r c rq =
     (if db_tickets (shop_of db) (rv_ticket rq) \<noteq> Some (or_user r) then Inl (ErrValidation [])
      else try_bind (if rv_decision rq = ''credit_wallet''
          then try_bind (append_wallet_credit (we_unicode (fe_wallet (mk_funding mk))) (shop_of db) r (receipt_credit_key mk (pr_id c)) ''payment_credit''
                 reviewed_payment_text (pr_amount c) now) (\<lambda>(i, shop). Inr (Some i, shop))
          else Inr (pr_entry c, shop_of db)) (\<lambda>(entry, shop).
        let c = c\<lparr>pr_entry := entry, pr_disposition := resolved_disposition rq, pr_ticket := Some (rv_ticket rq), pr_reason := rv_reason rq,
              pr_resolver := Some actor, pr_resolved := Some now\<rparr>
        in Inr (summarize_receipt c True,
             with_shop (put_receipt c db) (audit (Some actor) ''commerce.payment.resolve'' (''receipt:'' @ show_nat (pr_id c)) shop))))"

definition resolve_receipt :: "'w market \<Rightarrow> gotime \<Rightarrow> nat \<Rightarrow> nat \<Rightarrow> resolve_request \<Rightarrow> 'w payment_db \<Rightarrow> (receipt_summary \<times> 'w payment_db) result" where
  "resolve_receipt mk now actor i rq db =
     (case db_orders (shop_of db) i of
        None \<Rightarrow> Inl ErrNotFound
      | Some r \<Rightarrow>
          try_bind (lock_settlement_users (shop_of db) (or_user r) actor) (\<lambda>_.
          case List.find (\<lambda>c. pr_id c = rv_receipt rq \<and> pr_order c = i) (py_receipts db) of
            None \<Rightarrow> Inl ErrNotFound
          | Some c \<Rightarrow>
              if pr_resolved c \<noteq> None then
                if pr_disposition c \<noteq> resolved_disposition rq \<or> pr_ticket c \<noteq> Some (rv_ticket rq) \<or> pr_reason c \<noteq> rv_reason rq
                then Inl payment_conflict else Inr (summarize_receipt c True, db)
              else if pr_disposition c \<noteq> ''review_required'' then Inl payment_conflict
              else close_receipt mk db now actor r c rq))"

end
