(* ===== verification/PaidOrders.thy ===== *)
theory PaidOrders
  imports Settlement
begin

text \<open>
  What the payments of \<^verbatim>\<open>Settlement\<close> guarantee: every way an order becomes paid leaves the books sound and
  the row settled, a balance payment takes exactly the price, a manual payment never touches reserved balance, and
  the policy a buyer confirmed at purchase does not follow later edits of the catalogue.
\<close>

section \<open>Every payment is a step of the books\<close>

lemma credit_top_up_orders: "credit_top_up env db now r = Inr (i, db') \<Longrightarrow> db_orders db' = db_orders db"
  by (auto simp: append_wallet_credit_def elim: change_orders dest!: credit_top_up_credit split: if_splits)

lemma credit_top_up_posts:
  assumes "credit_top_up (fe_wallet fe) db now r = Inr (i, db')"
  shows "posts (order_keys fe) db db'"
proof -
  have "append_wallet_change (we_unicode (fe_wallet fe)) db r (order_key fe ''topup-order:'' (or_id r)) ''topup'' topup_text (or_payable r) 0 now = Inr (i, db')"
    using credit_top_up_credit[OF assms] by (simp add: append_wallet_credit_def order_key_def del: append.simps split: if_splits)
  then show ?thesis by (rule change_posts) (rule order_keysI)
qed

lemma top_up_sold:
  assumes "credit_top_up (fe_wallet (mk_funding mk)) (shop_of db) now r = Inr (i, shop)" "rows_ok (shop_of db)" "or_payable r \<le> max64"
  shows "sold mk db (with_shop db shop)"
  by (rule sold_shop[OF shop_step.wallet[OF book_step.top_up[OF assms(1,3)]] credit_top_up_posts[OF assms(1)]])
    (use assms(2) rows_ok_cong[OF credit_top_up_orders[OF assms(1)]] in simp)

lemma verified_sold:
  assumes "set_verified_paid mk db r now later = Inr (r', db')" "or_status r \<noteq> ''paid''" "sale_ok mk db" "inj (mk_hash mk)" "or_payable r \<le> max64"
  obtains i where "sold mk db db'" "or_status r' = ''paid''" "or_id r' = or_id r" "or_paid r' = or_payable r" "or_subscription r' = i" "or_user r' = or_user r"
    "or_type r' = or_type r" "or_currency r' = or_currency r" "or_payable r' = or_payable r"
proof (cases "or_type r = ''topup''")
  case True
  have rows: "rows_ok (shop_of db)" using assms(3) by (simp add: sale_ok_def)
  obtain n shop where c: "credit_top_up (fe_wallet (mk_funding mk)) (shop_of db) now r = Inr (n, shop)"
    and m: "mark_order_paid mk (with_shop db shop) r 0 now = Inr (r', db')"
    using assms(1,2) True by (auto simp: set_verified_paid_def)
  note s1 = top_up_sold[OF c rows assms(5)]
  have "rows_ok (shop_of (with_shop db shop))" using s1 by (simp add: sold_def)
  then obtain w where w: "sold mk (with_shop db shop) db'" "r' = paid_row r 0 now r" by (rule mark_sold[OF m _ assms(5)])
  show ?thesis by (rule that[OF sold_trans[OF s1 w(1)]]) (simp_all add: w(2) paid_row_def)
next
  case False
  then have "set_paid_with_funding mk db r now later True = Inr (r', db')" using assms(1) by (simp add: set_verified_paid_def)
  then show ?thesis by (rule set_paid_sold[OF _ assms(2-5)]) (rule that)
qed

lemma settle_status_sold:
  assumes "settle_status mk db actor r st now later = Inr (r', fulfilled, db')" "sale_ok mk db" "inj (mk_hash mk)" "or_payable r \<le> max64"
  shows "sold mk db db'"
proof -
  have rows: "rows_ok (shop_of db)" using assms(2) by (simp add: sale_ok_def)
  consider (paid) dba w where "st = ''paid''" "set_paid_with_funding mk db r now later False = Inr (r', dba)" "or_status r \<noteq> ''paid''" "db' = dba\<lparr>sx_world := w\<rparr>"
    | (again) "st = ''paid''" "set_paid_with_funding mk db r now later False = Inr (r', db')" "or_status r = ''paid''"
    | (release) shop f where "release_order_funding (mk_funding mk) (shop_of db) r st now = Inr shop"
        "f = (\<lambda>x. x\<lparr>or_status := st, or_updated := now, or_canceled_at := Some now\<rparr>) \<or> f = (\<lambda>x. x\<lparr>or_status := st, or_updated := now\<rparr>)"
        "db' = with_shop db (update_row (or_id r) f shop)"
    | (row) f where "f = (\<lambda>x. x\<lparr>or_status := st, or_updated := now\<rparr>)" "db' = with_shop db (update_row (or_id r) f (shop_of db))"
    | (idle) "db' = db"
  proof (cases "st = ''paid''")
    case True
    with assms(1) show ?thesis by (cases "or_status r = ''paid''") (auto simp: settle_status_def intro: paid again)
  next
    case False
    let ?f = "\<lambda>x. if st = ''canceled'' then x\<lparr>or_status := st, or_updated := now, or_canceled_at := Some now\<rparr> else x\<lparr>or_status := st, or_updated := now\<rparr>"
    show ?thesis
    proof (cases "or_status r = st")
      case True
      with assms(1) False show ?thesis by (intro idle) (simp add: settle_status_def)
    next
      case other: False
      show ?thesis
      proof (cases "st = ''canceled'' \<or> st = ''failed''")
        case True
        with assms(1) False other obtain shop where "release_order_funding (mk_funding mk) (shop_of db) r st now = Inr shop"
          "db' = with_shop db (update_row (or_id r) ?f shop)"
          by (auto simp: settle_status_def Let_def)
        then show ?thesis by (intro release[where f = ?f]) (cases "st = ''canceled''"; simp)+
      next
        case last: False
        with assms(1) False other show ?thesis by (intro row) (auto simp: settle_status_def Let_def)
      qed
    qed
  qed
  then show ?thesis
  proof cases
    case paid
    obtain i where s: "sold mk db dba" by (rule set_paid_sold[OF paid(2,3) assms(2-4)])
    then have "rows_ok (shop_of dba)" by (simp add: sold_def)
    from sold_trans[OF s sold_world[OF this]] show ?thesis by (simp add: paid(4))
  next
    case again
    then have "db' = db" by (auto simp: set_paid_with_funding_def split: if_splits)
    with rows show ?thesis by (simp add: sold_refl)
  next
    case (release shop f)
    have s1: "sold mk db (with_shop db shop)" by (rule sold_release[OF release(1) rows])
    then have "rows_ok (shop_of (with_shop db shop))" by (simp add: sold_def)
    from sold_update[OF this, where i = "or_id r" and f = f] release(2)
    have "sold mk (with_shop db shop) (with_shop (with_shop db shop) (update_row (or_id r) f shop))" by auto
    from sold_trans[OF s1 this] show ?thesis by (simp add: release(3))
  next
    case row
    show ?thesis unfolding row by (rule sold_update[OF rows]) simp
  qed (use rows in \<open>simp add: sold_refl\<close>)
qed

lemma store_apply_cases:
  assumes "store_apply mk db now later actor c = Inr ((r', fulfilled), db')"
  obtains r r1 db1 memo mark where "db_orders (shop_of db) (sc_order c) = Some r" "order_transition_allowed (or_status r) (sc_status c) (sc_force c)"
    "settle_status mk db actor r (sc_status c) now later = Inr (r1, fulfilled, db1)" "memo = id \<or> (\<exists>raw. memo = (\<lambda>x. x\<lparr>or_raw_callback := raw, or_updated := now\<rparr>))"
    "r' = memo r1" "mark = id \<or> (\<exists>action. mark = audit (Some actor) action (''order:'' @ show_nat (or_id r)))"
    "db' = with_shop db1 (mark (update_row (or_id r) memo (shop_of db1)))"
proof -
  from assms obtain r where r: "db_orders (shop_of db) (sc_order c) = Some r" "order_transition_allowed (or_status r) (sc_status c) (sc_force c)"
    by (auto simp: store_apply_def split: option.splits if_splits)
  with assms obtain r1 db1 where s: "settle_status mk db actor r (sc_status c) now later = Inr (r1, fulfilled, db1)"
    by (auto simp: store_apply_def Let_def split: option.splits if_splits)
  define memo :: "order \<Rightarrow> order" where "memo = (case sc_callback c of None \<Rightarrow> id | Some raw \<Rightarrow> (\<lambda>x. x\<lparr>or_raw_callback := raw, or_updated := now\<rparr>))"
  define mark where "mark = (if or_status r \<noteq> or_status r1 then audit (Some actor) (if sc_callback c = None then ''order.pay'' else ''order.payment_result'') (''order:'' @ show_nat (or_id r)) else id)"
  have "r' = memo r1" "db' = with_shop db1 (mark (update_row (or_id r) memo (shop_of db1)))"
    using assms r s by (auto simp: store_apply_def Let_def memo_def mark_def simp del: append.simps)
  moreover have "memo = id \<or> (\<exists>raw. memo = (\<lambda>x. x\<lparr>or_raw_callback := raw, or_updated := now\<rparr>))" by (cases "sc_callback c") (auto simp: memo_def)
  moreover have "mark = id \<or> (\<exists>action. mark = audit (Some actor) action (''order:'' @ show_nat (or_id r)))" unfolding mark_def by (metis (no_types))
  ultimately show ?thesis using r s that by blast
qed

lemma store_apply_sold:
  assumes "store_apply mk db now later actor c = Inr ((r', fulfilled), db')" "sale_ok mk db" "inj (mk_hash mk)"
  shows "sold mk db db'"
proof -
  obtain r r1 db1 memo mark where a: "db_orders (shop_of db) (sc_order c) = Some r" "order_transition_allowed (or_status r) (sc_status c) (sc_force c)"
    "settle_status mk db actor r (sc_status c) now later = Inr (r1, fulfilled, db1)" "memo = id \<or> (\<exists>raw. memo = (\<lambda>x. x\<lparr>or_raw_callback := raw, or_updated := now\<rparr>))"
    "r' = memo r1" "mark = id \<or> (\<exists>action. mark = audit (Some actor) action (''order:'' @ show_nat (or_id r)))"
    "db' = with_shop db1 (mark (update_row (or_id r) memo (shop_of db1)))"
    by (rule store_apply_cases[OF assms(1)])
  have "or_payable r \<le> max64" using assms(2) a(1) by (auto simp: sale_ok_def rows_ok_def)
  note s = settle_status_sold[OF a(3) assms(2,3) this]
  have rows1: "rows_ok (shop_of db1)" using s by (simp add: sold_def)
  have u: "sold mk db1 (with_shop db1 (update_row (or_id r) memo (shop_of db1)))" by (rule sold_update[OF rows1]) (use a(4) in auto)
  then have rows2: "rows_ok (update_row (or_id r) memo (shop_of db1))" by (simp add: sold_def)
  have "sold mk (with_shop db1 (update_row (or_id r) memo (shop_of db1))) db'"
  proof (cases "mark = id")
    case True
    with rows2 a(7) show ?thesis by (simp add: sold_refl)
  next
    case False
    with a(6) obtain action where "mark = audit (Some actor) action (''order:'' @ show_nat (or_id r))" by blast
    with sold_audit[of "with_shop db1 (update_row (or_id r) memo (shop_of db1))"] rows2 a(7) show ?thesis by simp
  qed
  from sold_trans[OF s sold_trans[OF u this]] show ?thesis .
qed

lemma store_pay_cases:
  assumes "store_pay mk db now later actor i = Inr (v, db')"
  obtains r f where "db_orders (shop_of db) i = Some r" "or_user r = actor" "find_order_funding (mk_funding mk) (shop_of db) r = Inr (Some f)"
      "fu_cash f = 0" "or_type r \<noteq> ''topup''" "or_status r = ''paid''" "or_channel r = ''wallet''" "db' = db" "\<not> wr_fulfilled v"
  | r f r1 db1 w where "db_orders (shop_of db) i = Some r" "or_user r = actor" "find_order_funding (mk_funding mk) (shop_of db) r = Inr (Some f)"
      "fu_cash f = 0" "or_type r \<noteq> ''topup''" "or_status r \<noteq> ''paid''" "fu_state f = ''reserved''" "now < fu_expires f"
      "set_paid_with_funding mk db r now later True = Inr (r1, db1)" "wr_fulfilled v" "wr_order v = or_id r1" "wr_subscription v = or_subscription r1" "wr_status v = or_status r1"
      "db' = with_shop (db1\<lparr>sx_world := w\<rparr>) (audit (Some actor) ''commerce.wallet.pay'' (''order:'' @ show_nat (or_id r1))
         (update_row (or_id r1) (\<lambda>x. x\<lparr>or_channel := ''wallet''\<rparr>) (shop_of db1)))"
proof -
  from assms obtain r where r: "db_orders (shop_of db) i = Some r" "or_user r = actor" and p: "pay_reserved_wallet_order mk db r actor now later = Inr (v, db')"
    by (auto simp: store_pay_def split: sum.splits option.splits if_splits)
  from p obtain f where f: "find_order_funding (mk_funding mk) (shop_of db) r = Inr (Some f)" "fu_cash f = 0" "or_type r \<noteq> ''topup''"
    by (auto simp: pay_reserved_wallet_order_def split: option.splits if_splits)
  show ?thesis
  proof (cases "or_status r = ''paid'' \<and> fu_state f = ''captured'' \<and> or_channel r = ''wallet''")
    case True
    with p f show ?thesis by (intro that(1)[OF r f]) (auto simp: pay_reserved_wallet_order_def)
  next
    case False
    have s: "or_status r \<noteq> ''paid''" "fu_state f = ''reserved''" "now < fu_expires f"
      using p f False by (auto simp: pay_reserved_wallet_order_def split: if_splits)
    from p f False obtain r1 db1 w where q: "set_paid_with_funding mk db r now later True = Inr (r1, db1)"
      and v: "v = \<lparr>wr_order = or_id r1, wr_subscription = or_subscription r1, wr_status = or_status r1, wr_fulfilled = True\<rparr>"
      and d: "db' = with_shop ((with_shop db1 (update_row (or_id r1) (\<lambda>x. x\<lparr>or_channel := ''wallet''\<rparr>) (shop_of db1)))\<lparr>sx_world := w\<rparr>)
          (audit (Some actor) ''commerce.wallet.pay'' (''order:'' @ show_nat (or_id r1)) (update_row (or_id r1) (\<lambda>x. x\<lparr>or_channel := ''wallet''\<rparr>) (shop_of db1)))"
      by (auto simp: pay_reserved_wallet_order_def Let_def simp del: append.simps split: if_splits)
    show ?thesis by (rule that(2)[OF r f s q]) (simp_all add: v d with_shop_def)
  qed
qed

text \<open>Where nothing is replaced, a payment takes the wallet part of the funds it found, and nothing else moves.\<close>

lemma find_funding_rows: "find_order_funding fe (shop\<lparr>db_orders := os\<rparr>) r = find_order_funding fe shop r"
  by (simp add: find_order_funding_def)

lemma balance_cong: "db_accounts db' = db_accounts db \<Longrightarrow> balance_of db' u c = balance_of db u c \<and> reserved_of db' u c = reserved_of db u c"
  by (simp add: balance_of_def reserved_of_def)

definition wallet_part :: "order_funding option \<Rightarrow> int" where
  "wallet_part found = (case found of None \<Rightarrow> 0 | Some f \<Rightarrow> fu_wallet f)"

lemma set_paid_plain:
  assumes "set_paid_with_funding mk db r now later confirmed = Inr (r', db')" "or_status r \<noteq> ''paid''" "sale_ok mk db" "inj (mk_hash mk)"
    "full_replacement_snapshot (mk_funding mk) r = Inr None" "or_payable r \<le> max64"
  obtains found where "find_order_funding (mk_funding mk) (shop_of db) r = Inr found"
    "\<And>f. found = Some f \<Longrightarrow> fu_state f = ''reserved'' \<and> now < fu_expires f \<and> (fu_wallet f > 0 \<longrightarrow> confirmed)"
    "\<And>u c. let part = (if u = or_user r \<and> c = or_currency r then wallet_part found else 0)
       in balance_of (shop_of db') u c = balance_of (shop_of db) u c - part \<and> reserved_of (shop_of db') u c = reserved_of (shop_of db) u c - part"
    "or_status r' = ''paid''" "or_id r' = or_id r"
    "\<exists>y. db_orders (shop_of db') (or_id r) = Some y \<and> or_status y = ''paid'' \<and> or_paid y = or_payable r \<and> or_subscription y = or_subscription r'"
  using assms(1)
proof (cases rule: set_paid_cases)
  case again
  with assms(2) show ?thesis by simp
next
  case (fresh full found db1 policy db2)
  let ?fe = "mk_funding mk"
  obtain shop where gate: "fe_require ?fe r now = Inr ()" "full_replacement_snapshot ?fe r = Inr full" "configure_missing ?fe (shop_of db) r now = Inr shop"
    "db1 = with_shop db shop" "find_order_funding ?fe shop r = Inr found"
    "\<forall>f. found = Some f \<longrightarrow> fu_state f = ''reserved'' \<and> now < fu_expires f \<and> (fu_wallet f > 0 \<longrightarrow> confirmed)"
    by (rule paid_gates_cases[OF fresh(3)]) (rule that, assumption+, blast)
  have full: "full = None" using gate(2) assms(5) by simp
  then have db1: "db1 = db" and found: "find_order_funding ?fe (shop_of db) r = Inr found"
    using gate(3-5) assms(5) by (auto simp: configure_missing_def)
  have db2: "db2 = db" using fresh(5) full db1 by simp
  obtain g shop3 r2 db3 where g0: "mk_fulfil mk (sx_world db2) (paid_request r (full \<noteq> None)) policy later = Inr g"
    and g: "capture_order_funding ?fe (fold close_term (fm_ended g) (shop_of db2)) r later = Inr shop3"
    "capture_entitlement_value mk (with_shop (db2\<lparr>sx_world := fm_world g\<rparr>) shop3) r (sb_id (fm_sub g)) (fm_previous g) confirmed later = Inr (r2, db3)"
    "mark_order_paid mk db3 r2 (sb_id (fm_sub g)) later = Inr (r', db')"
    by (rule grant_paid_cases[OF fresh(6)])
  obtain os where os: "fold close_term (fm_ended g) (shop_of db) = (shop_of db)\<lparr>db_orders := os\<rparr>" using close_terms_rows by blast
  have rows: "rows_ok (shop_of db)" and F: "fundings_ok ?fe (shop_of db)" using assms(3) by (simp_all add: sale_ok_def refunds_ok_def)
  have cap: "capture_order_funding ?fe ((shop_of db)\<lparr>db_orders := os\<rparr>) r later = Inr shop3" using g(1) by (simp add: db2 os)
  have "rows_ok ((shop_of db)\<lparr>db_orders := os\<rparr>)" using close_terms_ok[OF rows, of "fm_ended g"] by (simp add: os)
  then have rows3: "rows_ok shop3" using rows_ok_cong[OF capture_orders[OF cap]] by simp
  have money: "\<And>u c. let part = (if u = or_user r \<and> c = or_currency r then wallet_part found else 0)
     in balance_of shop3 u c = balance_of (shop_of db) u c - part \<and> reserved_of shop3 u c = reserved_of (shop_of db) u c - part"
  proof (rule capture_order_funding_spec[OF cap _ assms(4)])
    show "fundings_ok ?fe ((shop_of db)\<lparr>db_orders := os\<rparr>)" using F fundings_ok_cong[of "(shop_of db)\<lparr>db_orders := os\<rparr>" "shop_of db" ?fe] by simp
  next
    fix u c assume "shop3 = (shop_of db)\<lparr>db_orders := os\<rparr>" "find_order_funding ?fe ((shop_of db)\<lparr>db_orders := os\<rparr>) r = Inr None"
    then show "?thesis u c" using found balance_cong[of shop3 "shop_of db" u c] by (simp add: find_funding_rows wallet_part_def Let_def)
  next
    fix u c f assume f: "find_order_funding ?fe ((shop_of db)\<lparr>db_orders := os\<rparr>) r = Inr (Some f)"
      "\<And>u c. balance_of shop3 u c = balance_of ((shop_of db)\<lparr>db_orders := os\<rparr>) u c - (if u = or_user r \<and> c = or_currency r then fu_wallet f else 0)"
      "\<And>u c. reserved_of shop3 u c = reserved_of ((shop_of db)\<lparr>db_orders := os\<rparr>) u c - (if u = or_user r \<and> c = or_currency r then fu_wallet f else 0)"
    then show "?thesis u c" using found balance_cong[of "(shop_of db)\<lparr>db_orders := os\<rparr>" "shop_of db" u c]
      by (simp add: find_funding_rows wallet_part_def Let_def)
  qed
  have refl: "sold mk (with_shop (db2\<lparr>sx_world := fm_world g\<rparr>) shop3) (with_shop (db2\<lparr>sx_world := fm_world g\<rparr>) shop3)"
    by (rule sold_refl) (use rows3 in simp)
  note last = grant_paid_sold[OF g(2,3) refl assms(6)]
  show ?thesis
  proof (rule that[OF found])
    show "\<And>f. found = Some f \<Longrightarrow> fu_state f = ''reserved'' \<and> now < fu_expires f \<and> (fu_wallet f > 0 \<longrightarrow> confirmed)" using gate(6) by blast
    fix u c
    have "balance_of (shop_of db') u c = balance_of shop3 u c \<and> reserved_of (shop_of db') u c = reserved_of shop3 u c"
      by (rule balance_cong) (use last(15) in simp)
    with money[of u c] show "let part = (if u = or_user r \<and> c = or_currency r then wallet_part found else 0)
       in balance_of (shop_of db') u c = balance_of (shop_of db) u c - part \<and> reserved_of (shop_of db') u c = reserved_of (shop_of db) u c - part"
      by (simp add: Let_def)
  qed (use last(2,3,5,10) in simp_all)
qed

section \<open>A sample sale\<close>

definition sample_sale_market :: "unit market" where
  "sample_sale_market = \<lparr>mk_refund = sample_refund_env,
     mk_codec = \<lparr>cd_json = (\<lambda>_. Inr []), cd_sha = (\<lambda>_. []), cd_compact = (\<lambda>_. None), cd_change = (\<lambda>_. None), cd_purchase = (\<lambda>_. None), cd_upper = (\<lambda>x. x)\<rparr>,
     mk_fields = (\<lambda>_. Some (\<lambda>k. if k \<in> set snapshot_keys then Some ''1'' else None)), mk_purchase = sample_purchase_text,
     mk_evidence = (\<lambda>_. Inr ''value''), mk_sub = (\<lambda>_ i. if i = 6 then Some sample_term else None),
     mk_plan = (\<lambda>_ _. Some \<lparr>pn_group = 1, pn_renewable = False, pn_family = 4, pn_reset = 1, pn_calc_mode = 2, pn_max_active = 0\<rparr>), mk_sku = (\<lambda>_ _. True),
     mk_renew_skus = (\<lambda>_ _. 0), mk_grace = (\<lambda>_. Inr 0), mk_agreement = (\<lambda>_ _ _ _. Inr (0, False)), mk_replacement_quote = (\<lambda>_ _ _ _ _. Inr ()),
     mk_change_quote = (\<lambda>_ _ _ _. Inr ()), mk_scope = (\<lambda>_ _ _ _ _ _. Inr ()), mk_budget = (\<lambda>_. Inr ()),
     mk_fulfil = (\<lambda>w _ _ _. Inr \<lparr>fm_sub = sample_term, fm_previous = None, fm_ended = [], fm_world = w\<rparr>),
     mk_event = (\<lambda>_ _ _. Some (9, 86400000000000)), mk_stop_renewal = (\<lambda>w _ _. w), mk_commit = (\<lambda>w _ _. Inr w), mk_publish = (\<lambda>w _ _. Inr w)\<rparr>"

definition sample_sale_db :: "shop_db \<Rightarrow> unit sale_db" where
  "sample_sale_db shop = \<lparr>sx_books = empty_refunds shop, sx_order_seq = 7, sx_settlement_seq = 0, sx_settled_roots = [], sx_world = ()\<rparr>"

definition sample_sale_shop :: shop_db where
  "sample_sale_shop = sample_market\<lparr>db_orders := (\<lambda>i. if i = 7 then Some sample_bought else None)\<rparr>"

abbreviation sale_time :: gotime where "sale_time \<equiv> 86400000000000"

definition no_change_refund :: "shop_db \<Rightarrow> bool" where
  "no_change_refund shop \<longleftrightarrow> list_all (\<lambda>e. take 6 (en_key e) \<noteq> ''change'') (db_entries shop)"

lemma sample_sale:
  obtains v db0 db1 out db2 out3 db3 where
    "credit_wallet sample_env 100 1 sample_credit sample_sale_shop = Inr (v, db0)"
    "configure_order_funding sample_funding_env db0 sample_bought True sale_time = Inr db1" "db_orders db1 7 = Some sample_bought" "no_change_refund db1" "no_change_refund db0" "balance_of db1 2 ''USD'' = 500"
    "store_pay sample_sale_market (sample_sale_db db1) sale_time sale_time 2 7 = Inr (out, db2)" "wr_fulfilled out" "balance_of (shop_of db2) 2 ''USD'' = 200"
    "store_apply sample_sale_market (sample_sale_db db0) sale_time sale_time 1 \<lparr>sc_order = 7, sc_status = ''paid'', sc_force = False, sc_callback = None\<rparr> = Inr ((out3, True), db3)"
    "balance_of (shop_of db3) 2 ''USD'' = 500" "db_orders db0 7 = Some sample_bought" "balance_of db0 2 ''USD'' = 500"
proof -
  have "(case credit_wallet sample_env 100 1 sample_credit sample_sale_shop of Inl _ \<Rightarrow> False | Inr x \<Rightarrow> (let db0 = snd x in
      db_orders db0 7 = Some sample_bought \<and> no_change_refund db0 \<and> balance_of db0 2 ''USD'' = 500 \<and>
      (case configure_order_funding sample_funding_env db0 sample_bought True sale_time of Inl _ \<Rightarrow> False | Inr db1 \<Rightarrow>
        db_orders db1 7 = Some sample_bought \<and> no_change_refund db1 \<and> balance_of db1 2 ''USD'' = 500 \<and>
        (case store_pay sample_sale_market (sample_sale_db db1) sale_time sale_time 2 7 of Inl _ \<Rightarrow> False | Inr y \<Rightarrow>
           wr_fulfilled (fst y) \<and> balance_of (shop_of (snd y)) 2 ''USD'' = 200)) \<and>
      (case store_apply sample_sale_market (sample_sale_db db0) sale_time sale_time 1 \<lparr>sc_order = 7, sc_status = ''paid'', sc_force = False, sc_callback = None\<rparr> of
         Inl _ \<Rightarrow> False | Inr y \<Rightarrow> snd (fst y) \<and> balance_of (shop_of (snd y)) 2 ''USD'' = 500)))" by code_simp
  then show ?thesis unfolding case_result_holds by (auto simp: Let_def intro: that)
qed

lemma sample_sale_parts [simp]:
  "mk_funding sample_sale_market = sample_funding_env" "mk_hash sample_sale_market = we_hash sample_env" "sx_books (sample_sale_db shop) = empty_refunds shop"
  "rf_shop (empty_refunds shop) = shop" "sx_settlement_seq (sample_sale_db shop) = 0" "fe_wallet sample_funding_env = sample_env"
  by (simp_all add: sample_sale_market_def sample_refund_env_def sample_funding_env_def sample_sale_db_def empty_refunds_def)

lemma sample_sale_inj: "inj (mk_hash sample_sale_market)"
  using sample_inj by simp

lemma sample_sale_ok:
  assumes "fundings_ok sample_funding_env shop" "db_orders shop = db_orders sample_sale_shop" "no_change_refund shop"
  shows "sale_ok sample_sale_market (sample_sale_db shop)"
proof -
  have "order_key sample_funding_env ''change-refund:'' n \<notin> en_key ` set (db_entries shop)" for n
  proof
    assume "order_key sample_funding_env ''change-refund:'' n \<in> en_key ` set (db_entries shop)"
    then obtain e where e: "e \<in> set (db_entries shop)" "en_key e = order_key sample_funding_env ''change-refund:'' n" by auto
    have "take 6 (en_key e) = ''change''" unfolding e(2) by (simp add: order_key_def sample_env_def)
    with assms(3) e(1) show False by (auto simp: no_change_refund_def list_all_iff)
  qed
  moreover have "rows_ok shop" using assms(2) by (auto simp: rows_ok_def sample_sale_shop_def sample_bought_def OrderFunding.sample_order_def max64_def split: if_splits)
  moreover have "refunds_ok (mk_refund sample_sale_market) (empty_refunds shop)"
    by (rule refunds_empty) (use assms(1) in simp)
  ultimately show ?thesis by (simp add: sale_ok_def)
qed

lemma sample_sale_history:
  assumes "credit_wallet sample_env 100 1 sample_credit sample_sale_shop = Inr (v, db0)"
  shows "fundings_ok sample_funding_env db0" "db_orders db0 = db_orders sample_sale_shop"
    "configure_order_funding sample_funding_env db0 sample_bought True now = Inr db1 \<Longrightarrow> fundings_ok sample_funding_env db1 \<and> db_orders db1 = db_orders sample_sale_shop"
proof -
  have start: "fundings_ok sample_funding_env sample_sale_shop"
    using fundings_ok_cong[of sample_sale_shop sample_market sample_funding_env] sample_funding_ok(2) by (simp add: sample_sale_shop_def)
  have "book_step (fe_wallet sample_funding_env) sample_sale_shop db0" using book_step.credit[OF assms] by simp
  then have s: "shop_step sample_funding_env sample_sale_shop db0" by (rule shop_step.wallet)
  show ok: "fundings_ok sample_funding_env db0" using shop_step_keeps[OF s start sample_funding_inj] by simp
  show o: "db_orders db0 = db_orders sample_sale_shop"
    using assms by (auto simp: credit_wallet_def wallet_adjustments_credit_def store_credit_def match_credit_def lock_wallet_account_def audit_def Let_def
        dest!: append_orders split: if_splits option.splits)
  assume c: "configure_order_funding sample_funding_env db0 sample_bought True now = Inr db1"
  have "shop_step sample_funding_env db0 db1" by (rule shop_step.configure[OF c]) (simp add: sample_bought_def OrderFunding.sample_order_def max64_def)
  with shop_step_keeps[OF this ok sample_funding_inj] configure_orders[OF c] o
  show "fundings_ok sample_funding_env db1 \<and> db_orders db1 = db_orders sample_sale_shop" by simp
qed

section \<open>Properties\<close>

text \<open>
  C6. Paying by balance takes exactly the price, once: when an order that replaces nothing is paid from the wallet, the
  buyer's balance and reserve fall by the payable amount and no other account changes, the order is paid by the
  channel \<open>wallet\<close> with exactly its price, the books stay sound, and paying again changes nothing.
\<close>
theorem balance_payment_exact:
  assumes "store_pay mk db now later actor i = Inr (v, db')" "wr_fulfilled v" "sale_ok mk db" "inj (mk_hash mk)"
    "db_orders (shop_of db) i = Some r" "full_replacement_snapshot (mk_funding mk) r = Inr None"
  shows "sale_ok mk db'
    \<and> (\<forall>u c. let part = (if u = or_user r \<and> c = or_currency r then or_payable r else 0)
         in balance_of (shop_of db') u c = balance_of (shop_of db) u c - part \<and> reserved_of (shop_of db') u c = reserved_of (shop_of db) u c - part)
    \<and> (\<exists>y. db_orders (shop_of db') i = Some y \<and> or_status y = ''paid'' \<and> or_paid y = or_payable r \<and> or_channel y = ''wallet'')
    \<and> (\<forall>mk2 at1 at2 x db2. store_pay mk2 db' at1 at2 actor i = Inr (x, db2) \<longrightarrow> db2 = db' \<and> \<not> wr_fulfilled x)"
proof (rule store_pay_cases[OF assms(1)])
  fix r' f assume "\<not> wr_fulfilled v"
  with assms(2) show ?thesis by simp
next
  fix r2 f r1 db1 w
  let ?fe = "mk_funding mk"
  assume h: "db_orders (shop_of db) i = Some r2" "or_user r2 = actor" "find_order_funding ?fe (shop_of db) r2 = Inr (Some f)"
    "fu_cash f = 0" "or_type r2 \<noteq> ''topup''" "or_status r2 \<noteq> ''paid''" "fu_state f = ''reserved''" "now < fu_expires f"
    "set_paid_with_funding mk db r2 now later True = Inr (r1, db1)" "wr_fulfilled v" "wr_order v = or_id r1" "wr_subscription v = or_subscription r1" "wr_status v = or_status r1"
    "db' = with_shop (db1\<lparr>sx_world := w\<rparr>) (audit (Some actor) ''commerce.wallet.pay'' (''order:'' @ show_nat (or_id r1))
       (update_row (or_id r1) (\<lambda>x. x\<lparr>or_channel := ''wallet''\<rparr>) (shop_of db1)))"
  have r: "r2 = r" using h(1) assms(5) by simp
  note h = h[unfolded r]
  have rows: "rows_ok (shop_of db)" using assms(3) by (simp add: sale_ok_def)
  then have big: "or_payable r \<le> max64" and id: "or_id r = i" using h(1) by (auto simp: rows_ok_def)
  obtain found where p: "find_order_funding ?fe (shop_of db) r = Inr found"
    "\<And>u c. let part = (if u = or_user r \<and> c = or_currency r then wallet_part found else 0)
       in balance_of (shop_of db1) u c = balance_of (shop_of db) u c - part \<and> reserved_of (shop_of db1) u c = reserved_of (shop_of db) u c - part"
    "or_id r1 = or_id r"
    "\<exists>y. db_orders (shop_of db1) (or_id r) = Some y \<and> or_status y = ''paid'' \<and> or_paid y = or_payable r \<and> or_subscription y = or_subscription r1"
    by (rule set_paid_plain[OF h(9,6) assms(3,4,6) big]) (rule that)
  have f: "fu_amount f = or_payable r" "0 \<le> fu_wallet f" "fu_wallet f \<le> fu_amount f" "sub64 (fu_amount f) (fu_wallet f) = 0"
    using funding_found(5,6)[OF h(3)] h(4) by (auto simp: funding_broken_def)
  then have "fu_wallet f = or_payable r" using sub64_nonneg[of "fu_wallet f" "fu_amount f"] big by simp
  then have part: "wallet_part found = or_payable r" using p(1) h(3) by (auto simp: wallet_part_def)
  have s1: "sold mk db db1" by (rule set_paid_sold[OF h(9,6) assms(3,4) big])
  then have rows1: "rows_ok (shop_of db1)" by (simp add: sold_def)
  let ?db2 = "with_shop db1 (update_row (or_id r1) (\<lambda>x. x\<lparr>or_channel := ''wallet''\<rparr>) (shop_of db1))"
  have s2: "sold mk db1 ?db2" by (rule sold_update[OF rows1]) simp
  then have rows2: "rows_ok (shop_of ?db2)" by (simp add: sold_def)
  have s3: "sold mk ?db2 (?db2\<lparr>sx_world := w\<rparr>)" by (rule sold_world[OF rows2])
  have s4: "sold mk (?db2\<lparr>sx_world := w\<rparr>) db'"
    using sold_audit[of "?db2\<lparr>sx_world := w\<rparr>" mk "Some actor" "''commerce.wallet.pay''" "''order:'' @ show_nat (or_id r1)"] rows2
    by (simp add: h(14) with_shop_def del: append.simps)
  have "sold mk db db'" by (rule sold_trans[OF s1 sold_trans[OF s2 sold_trans[OF s3 s4]]])
  then have ok: "sale_ok mk db'" by (rule sold_keeps[OF _ assms(3,4)])
  have money: "balance_of (shop_of db') u c = balance_of (shop_of db1) u c \<and> reserved_of (shop_of db') u c = reserved_of (shop_of db1) u c" for u c
    by (rule balance_cong) (simp add: h(14) audit_def update_row_def)
  have row: "\<exists>y. db_orders (shop_of db') i = Some y \<and> or_status y = ''paid'' \<and> or_paid y = or_payable r \<and> or_channel y = ''wallet''"
    using p(3,4) by (auto simp: h(14) audit_def update_row_def id)
  have again: "db2 = db' \<and> \<not> wr_fulfilled x" if "store_pay mk2 db' at1 at2 actor i = Inr (x, db2)" for mk2 at1 at2 x db2
    by (rule store_pay_cases[OF that]) (use row in auto)
  from ok p(2) part money row again show ?thesis by (simp add: Let_def)
qed

theorem balance_payment_exact_witness:
  "\<exists>(db :: unit sale_db) v db'. store_pay sample_sale_market db sale_time sale_time 2 7 = Inr (v, db') \<and> balance_of (shop_of db) 2 ''USD'' = 500 \<and> balance_of (shop_of db') 2 ''USD'' = 200
    \<and> sale_ok sample_sale_market db' \<and> (\<exists>y. db_orders (shop_of db') 7 = Some y \<and> or_status y = ''paid'' \<and> or_paid y = 300)"
proof -
  obtain v db0 db1 out db2 where h: "credit_wallet sample_env 100 1 sample_credit sample_sale_shop = Inr (v, db0)"
    "configure_order_funding sample_funding_env db0 sample_bought True sale_time = Inr db1" "db_orders db1 7 = Some sample_bought" "no_change_refund db1"
    "balance_of db1 2 ''USD'' = 500" "store_pay sample_sale_market (sample_sale_db db1) sale_time sale_time 2 7 = Inr (out, db2)" "wr_fulfilled out"
    by (rule sample_sale)
  have "sale_ok sample_sale_market (sample_sale_db db1)" using sample_sale_history(3)[OF h(1,2)] h(4) by (intro sample_sale_ok) simp_all
  moreover have "db_orders (shop_of (sample_sale_db db1)) 7 = Some sample_bought" using h(3) by simp
  moreover have "full_replacement_snapshot (mk_funding sample_sale_market) sample_bought = Inr None"
    by (simp add: full_replacement_snapshot_def sample_bought_def OrderFunding.sample_order_def)
  ultimately have p: "sale_ok sample_sale_market db2" "balance_of (shop_of db2) 2 ''USD'' = 200"
    "\<exists>y. db_orders (shop_of db2) 7 = Some y \<and> or_status y = ''paid'' \<and> or_paid y = 300"
    using balance_payment_exact[OF h(6,7) _ sample_sale_inj] h(5) by (auto simp: Let_def sample_bought_def OrderFunding.sample_order_def)
  show ?thesis using h(5,6) p by (intro exI[of _ "sample_sale_db db1"] exI[of _ out] exI[of _ db2]) simp
qed

text \<open>
  C9. A payment an administrator records by hand never spends a customer's money: when it settles an order that
  replaces nothing, no balance and no reserve of any account changes, the funds of the order hold no wallet part
  (otherwise it is refused), the order is paid with exactly its price, and the books stay sound.
\<close>
theorem manual_payment_spares_balance:
  assumes "store_apply mk db now later actor c = Inr ((r', True), db')" "sc_status c = ''paid''" "sale_ok mk db" "inj (mk_hash mk)"
    "db_orders (shop_of db) (sc_order c) = Some r" "full_replacement_snapshot (mk_funding mk) r = Inr None"
  shows "sale_ok mk db'
    \<and> (\<forall>u c. balance_of (shop_of db') u c = balance_of (shop_of db) u c \<and> reserved_of (shop_of db') u c = reserved_of (shop_of db) u c)
    \<and> (\<forall>f. find_order_funding (mk_funding mk) (shop_of db) r = Inr (Some f) \<longrightarrow> fu_wallet f = 0)
    \<and> (\<exists>y. db_orders (shop_of db') (sc_order c) = Some y \<and> or_status y = ''paid'' \<and> or_paid y = or_payable r)"
proof -
  obtain r0 r1 db1 memo mark where a: "db_orders (shop_of db) (sc_order c) = Some r0" "order_transition_allowed (or_status r0) (sc_status c) (sc_force c)"
    "settle_status mk db actor r0 (sc_status c) now later = Inr (r1, True, db1)" "memo = id \<or> (\<exists>raw. memo = (\<lambda>x. x\<lparr>or_raw_callback := raw, or_updated := now\<rparr>))"
    "r' = memo r1" "mark = id \<or> (\<exists>action. mark = audit (Some actor) action (''order:'' @ show_nat (or_id r0)))"
    "db' = with_shop db1 (mark (update_row (or_id r0) memo (shop_of db1)))"
    by (rule store_apply_cases[OF assms(1)])
  have r: "r0 = r" using a(1) assms(5) by simp
  note a = a[unfolded r]
  have "rows_ok (shop_of db)" using assms(3) by (simp add: sale_ok_def)
  then have big: "or_payable r \<le> max64" and id: "or_id r = sc_order c" using a(1) by (auto simp: rows_ok_def)
  obtain dba w where p: "set_paid_with_funding mk db r now later False = Inr (r1, dba)" "or_status r \<noteq> ''paid''" "db1 = dba\<lparr>sx_world := w\<rparr>"
    using a(3) assms(2) by (auto simp: settle_status_def split: if_splits)
  obtain found where q: "find_order_funding (mk_funding mk) (shop_of db) r = Inr found"
    "\<forall>f. found = Some f \<longrightarrow> fu_wallet f \<le> 0"
    "\<And>u c. let part = (if u = or_user r \<and> c = or_currency r then wallet_part found else 0)
       in balance_of (shop_of dba) u c = balance_of (shop_of db) u c - part \<and> reserved_of (shop_of dba) u c = reserved_of (shop_of db) u c - part"
    "\<exists>y. db_orders (shop_of dba) (or_id r) = Some y \<and> or_status y = ''paid'' \<and> or_paid y = or_payable r \<and> or_subscription y = or_subscription r1"
    by (rule set_paid_plain[OF p(1,2) assms(3,4,6) big]) (rule that, assumption, fastforce, assumption+)
  have none: "fu_wallet f = 0" if "found = Some f" for f
    using q(1,2) that funding_found(6)[of "mk_funding mk" "shop_of db" r f] by (auto simp: funding_broken_def)
  then have zero: "wallet_part found = 0" by (simp add: wallet_part_def split: option.splits)
  have shop: "db_accounts (shop_of db') = db_accounts (shop_of dba)" "db_orders (shop_of db') = (db_orders (shop_of dba))(or_id r := map_option memo (db_orders (shop_of dba) (or_id r)))"
    using a(6) by (auto simp: a(7) p(3) update_row_def audit_def)
  have money: "balance_of (shop_of db') u c = balance_of (shop_of dba) u c \<and> reserved_of (shop_of db') u c = reserved_of (shop_of dba) u c" for u c
    by (rule balance_cong) (rule shop(1))
  have row: "\<exists>y. db_orders (shop_of db') (sc_order c) = Some y \<and> or_status y = ''paid'' \<and> or_paid y = or_payable r"
    using q(4) a(4) by (auto simp: shop(2) id)
  have ok: "sale_ok mk db'" by (rule sold_keeps[OF store_apply_sold[OF assms(1,3,4)] assms(3,4)])
  show ?thesis using ok q(1,3) zero money none row by (simp add: Let_def)
qed

theorem manual_payment_spares_balance_witness:
  "\<exists>(db :: unit sale_db) x db'. store_apply sample_sale_market db sale_time sale_time 1 \<lparr>sc_order = 7, sc_status = ''paid'', sc_force = False, sc_callback = None\<rparr> = Inr (x, db')
    \<and> balance_of (shop_of db) 2 ''USD'' = 500 \<and> balance_of (shop_of db') 2 ''USD'' = 500 \<and> (\<exists>y. db_orders (shop_of db') 7 = Some y \<and> or_status y = ''paid'' \<and> or_paid y = 300)"
proof -
  let ?c = "\<lparr>sc_order = 7, sc_status = ''paid'', sc_force = False, sc_callback = None\<rparr>"
  obtain v db0 out3 db3 where h: "credit_wallet sample_env 100 1 sample_credit sample_sale_shop = Inr (v, db0)" "no_change_refund db0"
    "store_apply sample_sale_market (sample_sale_db db0) sale_time sale_time 1 ?c = Inr ((out3, True), db3)"
    "db_orders db0 7 = Some sample_bought" "balance_of db0 2 ''USD'' = 500"
    by (rule sample_sale)
  have ok: "sale_ok sample_sale_market (sample_sale_db db0)" using sample_sale_history(1,2)[OF h(1)] h(2) by (intro sample_sale_ok) simp_all
  have o: "db_orders (shop_of (sample_sale_db db0)) (sc_order ?c) = Some sample_bought" "sc_status ?c = ''paid''" using h(4) by simp_all
  have "full_replacement_snapshot (mk_funding sample_sale_market) sample_bought = Inr None"
    by (simp add: full_replacement_snapshot_def sample_bought_def OrderFunding.sample_order_def)
  from manual_payment_spares_balance[OF h(3) o(2) ok sample_sale_inj o(1) this] h(5)
  have p: "balance_of (shop_of db3) 2 ''USD'' = 500" "\<exists>y. db_orders (shop_of db3) 7 = Some y \<and> or_status y = ''paid'' \<and> or_paid y = 300"
    by (auto simp: sample_bought_def OrderFunding.sample_order_def)
  show ?thesis using h(3,5) p by (intro exI[of _ "sample_sale_db db0"] exI[of _ "(out3, True)"] exI[of _ db3]) simp
qed

text \<open>What the buyer confirmed overrides the four columns of the plan.\<close>

lemma snapshot_overrides:
  assumes "or_purchase_snapshot r \<noteq> []" "policy\<lparr>gp_renewable := a, gp_reset := b, gp_calc_mode := c, gp_family := d\<rparr> = other\<lparr>gp_renewable := a, gp_reset := b, gp_calc_mode := c, gp_family := d\<rparr>"
  shows "apply_purchase_snapshot mk r policy = apply_purchase_snapshot mk r other"
proof -
  have "policy\<lparr>gp_renewable := a', gp_reset := b', gp_calc_mode := c', gp_family := d'\<rparr> = other\<lparr>gp_renewable := a', gp_reset := b', gp_calc_mode := c', gp_family := d'\<rparr>" for a' b' c' d'
    using assms(2) by (cases policy; cases other) simp
  then show ?thesis using assms(1) by (simp add: apply_purchase_snapshot_def split: option.split)
qed

definition edit_catalogue :: "'w market \<Rightarrow> ('w \<Rightarrow> nat \<Rightarrow> plan_row option) \<Rightarrow> ('w \<Rightarrow> nat \<Rightarrow> nat) \<Rightarrow> 'w market" where
  "edit_catalogue mk plans skus = mk\<lparr>mk_plan := plans, mk_renew_skus := skus\<rparr>"

lemma edit_parts:
  "mk_refund (edit_catalogue mk plans skus) = mk_refund mk" "mk_codec (edit_catalogue mk plans skus) = mk_codec mk" "mk_fields (edit_catalogue mk plans skus) = mk_fields mk"
  "mk_purchase (edit_catalogue mk plans skus) = mk_purchase mk" "mk_sub (edit_catalogue mk plans skus) = mk_sub mk" "mk_grace (edit_catalogue mk plans skus) = mk_grace mk"
  "mk_agreement (edit_catalogue mk plans skus) = mk_agreement mk" "mk_replacement_quote (edit_catalogue mk plans skus) = mk_replacement_quote mk"
  "mk_change_quote (edit_catalogue mk plans skus) = mk_change_quote mk" "mk_sku (edit_catalogue mk plans skus) = mk_sku mk"
  "mk_plan (edit_catalogue mk plans skus) = plans" "mk_renew_skus (edit_catalogue mk plans skus) = skus"
  by (simp_all add: edit_catalogue_def)

lemma edit_keeps:
  "paid_grace (edit_catalogue mk plans skus) w r = paid_grace mk w r"
  "validate_target_quote (edit_catalogue mk plans skus) w shop r now = validate_target_quote mk w shop r now"
  "agreed_renewal_price (edit_catalogue mk plans skus) w shop r = agreed_renewal_price mk w shop r"
  "validate_renewal_target (edit_catalogue mk plans skus) w r = validate_renewal_target mk w r"
  "apply_purchase_snapshot (edit_catalogue mk plans skus) r policy = apply_purchase_snapshot mk r policy"
  unfolding paid_grace_def owned_subscription_def validate_target_quote_def agreed_renewal_price_def validate_renewal_target_def
      apply_purchase_snapshot_def discount_agrees_def edit_parts by (rule refl)+

text \<open>
  The terms of a paid order are those its buyer confirmed: for an order with a purchase snapshot, the policy of
  its grant is the same whatever an administrator later did to the renewability, reset policy, traffic mode and
  family limit of the plan, and to the number of its renewable specifications; a grant takes them from the snapshot.
\<close>
theorem purchase_policy_fixed:
  assumes "or_purchase_snapshot r \<noteq> []"
    "\<And>w i. (case (mk_plan mk w i, plans w i) of (Some p, Some q) \<Rightarrow> pn_group p = pn_group q \<and> pn_max_active p = pn_max_active q | (None, None) \<Rightarrow> True | _ \<Rightarrow> False)"
  shows "paid_policy (edit_catalogue mk plans skus) db r found later = paid_policy mk db r found later
    \<and> (\<forall>policy. paid_policy mk db r found later = Inr policy \<longrightarrow>
         (\<exists>p. mk_purchase mk (or_purchase_snapshot r) = Some p \<and> gp_renewable policy = ps_renewable p \<and> gp_reset policy = ps_policy p
            \<and> gp_calc_mode policy = ps_calc_mode p \<and> gp_family policy = ps_family p))"
proof
  show "paid_policy (edit_catalogue mk plans skus) db r found later = paid_policy mk db r found later"
  proof (cases "mk_plan mk (sx_world db) (or_plan r)")
    case None
    then have "plans (sx_world db) (or_plan r) = None" using assms(2)[of "sx_world db" "or_plan r"] by (auto split: option.splits)
    with None show ?thesis by (simp add: paid_policy_def edit_parts)
  next
    case (Some p)
    then obtain q where q: "plans (sx_world db) (or_plan r) = Some q" "pn_group p = pn_group q" "pn_max_active p = pn_max_active q"
      using assms(2)[of "sx_world db" "or_plan r"] by (auto split: option.splits)
    define confirmed where "confirmed g m n price = apply_purchase_snapshot mk r \<lparr>gp_grace = g, gp_max_active = m, gp_group = n, gp_renewable = False,
       gp_renewal_price = price, gp_family = 0, gp_reset = 0, gp_calc_mode = 0\<rparr>" for g m n price
    have same: "apply_purchase_snapshot mk r \<lparr>gp_grace = g, gp_max_active = m, gp_group = n, gp_renewable = a, gp_renewal_price = price, gp_family = b, gp_reset = c, gp_calc_mode = d\<rparr>
      = confirmed g m n price" for g m n a price b c d unfolding confirmed_def by (rule snapshot_overrides[OF assms(1)]) simp
    show ?thesis unfolding paid_policy_def Let_def edit_parts Some q(1) option.case edit_keeps same q(2,3) by (rule refl)
  qed
  show "\<forall>policy. paid_policy mk db r found later = Inr policy \<longrightarrow>
         (\<exists>p. mk_purchase mk (or_purchase_snapshot r) = Some p \<and> gp_renewable policy = ps_renewable p \<and> gp_reset policy = ps_policy p
            \<and> gp_calc_mode policy = ps_calc_mode p \<and> gp_family policy = ps_family p)"
  proof (intro allI impI)
    fix policy assume "paid_policy mk db r found later = Inr policy"
    then obtain base where "apply_purchase_snapshot mk r base = Inr policy" by (auto simp: paid_policy_def Let_def split: option.splits if_splits)
    with assms(1) show "\<exists>p. mk_purchase mk (or_purchase_snapshot r) = Some p \<and> gp_renewable policy = ps_renewable p \<and> gp_reset policy = ps_policy p
            \<and> gp_calc_mode policy = ps_calc_mode p \<and> gp_family policy = ps_family p"
      by (auto simp: apply_purchase_snapshot_def split: option.splits if_splits)
  qed
qed

theorem purchase_policy_fixed_witness:
  "\<exists>policy. paid_policy (edit_catalogue sample_sale_market (\<lambda>_ _. Some \<lparr>pn_group = 1, pn_renewable = False, pn_family = 99, pn_reset = 5, pn_calc_mode = 1, pn_max_active = 0\<rparr>) (\<lambda>_ _. 0))
      (sample_sale_db sample_sale_shop) sample_bought None sale_time = Inr policy \<and> gp_renewable policy \<and> gp_family policy = 0"
proof -
  let ?plans = "\<lambda>_ _. Some \<lparr>pn_group = 1, pn_renewable = False, pn_family = 99, pn_reset = 5, pn_calc_mode = 1, pn_max_active = 0\<rparr>"
  have "(case paid_policy sample_sale_market (sample_sale_db sample_sale_shop) sample_bought None sale_time of Inl _ \<Rightarrow> False | Inr p \<Rightarrow> gp_renewable p \<and> gp_family p = 0)" by code_simp
  then obtain p where p: "paid_policy sample_sale_market (sample_sale_db sample_sale_shop) sample_bought None sale_time = Inr p" "gp_renewable p" "gp_family p = 0"
    unfolding case_result_holds by blast
  have bought: "or_purchase_snapshot sample_bought \<noteq> []" by (simp add: sample_bought_def)
  have kept: "(case (mk_plan sample_sale_market w i, ?plans w i) of (Some p, Some q) \<Rightarrow> pn_group p = pn_group q \<and> pn_max_active p = pn_max_active q | (None, None) \<Rightarrow> True | _ \<Rightarrow> False)" for w i
    by (simp add: sample_sale_market_def)
  have "paid_policy (edit_catalogue sample_sale_market ?plans (\<lambda>_ _. 0)) (sample_sale_db sample_sale_shop) sample_bought None sale_time = Inr p"
    by (rule trans[OF conjunct1[OF purchase_policy_fixed[OF bought kept]] p(1)])
  with p show ?thesis by blast
qed

end
