(* ===== verification/Receipts.thy ===== *)
theory Receipts
  imports Payments PaidOrders
begin

text \<open>
  What the payments of \<^verbatim>\<open>Payments\<close> guarantee. Every collected payment is one receipt; a receipt is backed by
  exactly one entry of the ledger when its money went to the wallet and by none otherwise, in every history; a
  repeated fact moves nothing; a fresh one is accounted in full; a review is resolved once.
\<close>

section \<open>Keys of receipts\<close>

definition credit_keys :: "'w market \<Rightarrow> string set" where
  "credit_keys mk = range (receipt_credit_key mk)"

lemma receipt_key_order: "receipt_credit_key mk n = order_key (mk_funding mk) ''payment-receipt:'' n"
  by (simp only: receipt_credit_key_def order_key_def)

lemma receipt_key_inj: "inj (mk_hash mk) \<Longrightarrow> receipt_credit_key mk m = receipt_credit_key mk n \<longleftrightarrow> m = n"
  by (simp add: receipt_key_order order_key_eq show_nat_inj)

lemma receipt_key_apart:
  assumes "inj (mk_hash mk)"
  shows "receipt_credit_key mk n \<notin> sale_keys (mk_funding mk) a b" "receipt_credit_key mk n \<noteq> order_key (mk_funding mk) ''change-refund:'' m"
proof -
  show m: "receipt_credit_key mk n \<noteq> order_key (mk_funding mk) ''change-refund:'' m" for m by (simp add: receipt_key_order order_key_eq[OF assms])
  have "receipt_credit_key mk n \<notin> order_keys (mk_funding mk)"
  proof
    assume "receipt_credit_key mk n \<in> order_keys (mk_funding mk)"
    then obtain t k where t: "t \<in> order_tags" "''payment-receipt:'' @ show_nat n = t @ show_nat k"
      by (auto simp: receipt_key_order order_keys_def order_key_eq[OF assms])
    from t(1)[unfolded order_tags_def] t(2) show False by (elim insertE emptyE) simp_all
  qed
  with m show "receipt_credit_key mk n \<notin> sale_keys (mk_funding mk) a b" by (auto simp: sale_keys_def)
qed

section \<open>Backed receipts\<close>

definition receipt_backed :: "'w market \<Rightarrow> shop_db \<Rightarrow> payment_receipt \<Rightarrow> bool" where
  "receipt_backed mk shop c \<longleftrightarrow>
     (if pr_disposition c = ''wallet_credit''
      then \<exists>e \<in> set (db_entries shop). pr_entry c = Some (en_id e) \<and> en_key e = receipt_credit_key mk (pr_id c)
             \<and> en_balance_delta e = pr_amount c \<and> en_reserved_delta e = 0 \<and> en_order e = Some (pr_order c)
      else pr_disposition c \<in> {''fulfilled'', ''wallet_topup'', ''legacy_applied'', ''review_required'', ''processing''}
        \<and> receipt_credit_key mk (pr_id c) \<notin> en_key ` set (db_entries shop))"

definition receipts_ok :: "'w market \<Rightarrow> 'w payment_db \<Rightarrow> bool" where
  "receipts_ok mk db \<longleftrightarrow> distinct (map pr_id (py_receipts db)) \<and> distinct (map pr_key (py_receipts db))
     \<and> (\<forall>c \<in> set (py_receipts db). pr_id c \<le> py_receipt_seq db \<and> pr_amount c \<le> max64 \<and> pr_key c = payment_receipt_key mk (pr_provider c) (pr_trade c)
          \<and> receipt_backed mk (shop_of db) c)
     \<and> (\<forall>n > py_receipt_seq db. receipt_credit_key mk n \<notin> en_key ` set (db_entries (shop_of db)))"

definition pay_ok :: "'w market \<Rightarrow> 'w payment_db \<Rightarrow> bool" where
  "pay_ok mk db \<longleftrightarrow> sale_ok mk db \<and> receipts_ok mk db \<and> (\<forall>c \<in> set (py_receipts db). pr_disposition c \<noteq> ''processing'')"

text \<open>What other operations post never touches a receipt.\<close>

lemma backed_posts:
  assumes "receipt_backed mk shop c" "posts K shop shop'" "receipt_credit_key mk (pr_id c) \<notin> K"
  shows "receipt_backed mk shop' c"
proof (cases "pr_disposition c = ''wallet_credit''")
  case True
  with assms(1,2) show ?thesis unfolding receipt_backed_def posts_def by auto
next
  case False
  have "receipt_credit_key mk (pr_id c) \<notin> en_key ` set (db_entries shop')"
    using posts_new[OF assms(2)] assms(1,3) False by (force simp: receipt_backed_def)
  with assms(1) False show ?thesis by (simp add: receipt_backed_def)
qed

lemma receipts_posts:
  assumes "receipts_ok mk db" "posts K (shop_of db) (shop_of db')" "K \<inter> credit_keys mk = {}" "py_receipts db' = py_receipts db" "py_receipt_seq db' = py_receipt_seq db"
  shows "receipts_ok mk db'"
proof -
  have k: "receipt_credit_key mk n \<notin> K" for n using assms(3) by (auto simp: credit_keys_def)
  have "receipt_credit_key mk n \<notin> en_key ` set (db_entries (shop_of db'))" if "py_receipt_seq db < n" for n
  proof
    assume "receipt_credit_key mk n \<in> en_key ` set (db_entries (shop_of db'))"
    then obtain e where e: "e \<in> set (db_entries (shop_of db'))" "en_key e = receipt_credit_key mk n" by auto
    from posts_new[OF assms(2) e(1)] k e(2) have "e \<in> set (db_entries (shop_of db))" by metis
    with e(2) assms(1) that show False unfolding receipts_ok_def by (metis imageI)
  qed
  moreover have "receipt_backed mk (shop_of db') c" if "c \<in> set (py_receipts db)" for c
    using backed_posts[OF _ assms(2) k] assms(1) that by (auto simp: receipts_ok_def)
  ultimately show ?thesis using assms(1) unfolding receipts_ok_def assms(4,5) by auto
qed

lemma more_receipts:
  assumes "sale_db.more db' = sale_db.more db"
  shows "py_receipts db' = py_receipts db" "py_receipt_seq db' = py_receipt_seq db" "py_attempts db' = py_attempts db" "py_events db' = py_events db"
  using assms by (cases db, cases db', simp)+

lemma sold_receipts:
  assumes "sold mk db db'" "receipts_ok mk db" "inj (mk_hash mk)"
  shows "receipts_ok mk db'"
proof (rule receipts_posts[OF assms(2)])
  show "posts (sale_keys (mk_funding mk) (sx_settlement_seq db) (sx_settlement_seq db')) (shop_of db) (shop_of db')" using assms(1) by (simp add: sold_def)
  show "sale_keys (mk_funding mk) (sx_settlement_seq db) (sx_settlement_seq db') \<inter> credit_keys mk = {}"
    using receipt_key_apart(1)[OF assms(3)] by (auto simp: credit_keys_def)
  show "py_receipts db' = py_receipts db" "py_receipt_seq db' = py_receipt_seq db" using more_receipts[of db' db] assms(1) by (simp_all add: sold_def)
qed

lemma sold_pay:
  assumes "sold mk db db'" "pay_ok mk db" "inj (mk_hash mk)"
  shows "pay_ok mk db'"
  using sold_keeps[OF assms(1) _ assms(3)] sold_receipts[OF assms(1) _ assms(3)] assms(2) more_receipts(1)[of db' db] assms(1)
  by (simp add: pay_ok_def sold_def)

section \<open>Crediting a receipt\<close>

lemma credit_fresh:
  assumes "append_wallet_credit uc shop r key kind words amount now = Inr (i, shop')" "key \<notin> en_key ` set (db_entries shop)"
  obtains e where "db_entries shop' = db_entries shop @ [e]" "en_id e = i" "en_key e = key" "en_balance_delta e = amount" "en_reserved_delta e = 0"
    "en_order e = Some (or_id r)" "0 < amount" "db_orders shop' = db_orders shop"
proof -
  have app: "append_wallet_entry uc shop \<lparr>src_user = or_user r, src_currency = or_currency r, src_order = Some (or_id r)\<rparr> key kind words amount 0 now = Inr (i, shop')" "0 < amount"
    using assms(1) by (auto simp: append_wallet_credit_def append_wallet_change_def split: if_splits)
  obtain a shop1 where lock: "lock_wallet_account shop (or_user r) (or_currency r) = Inr (a, shop1)" using app(1) by (auto simp: append_wallet_entry_def split: if_splits)
  then have one: "db_entries shop1 = db_entries shop" "db_orders shop1 = db_orders shop" by (auto simp: lock_wallet_account_def Let_def split: if_splits option.splits)
  have none: "find_entry shop1 key = None" using assms(2) one by (auto simp: find_entry_def find_None_iff)
  from app(1) lock none obtain e where "db_entries shop' = db_entries shop1 @ [e]" "en_id e = i" "en_key e = key" "en_balance_delta e = amount" "en_reserved_delta e = 0"
    "en_order e = Some (or_id r)" "db_orders shop' = db_orders shop1"
    by (auto simp: append_wallet_entry_def Let_def split: if_splits option.splits)
  with one app(2) show ?thesis by (intro that) simp_all
qed

lemma receipt_credit_step:
  assumes "append_wallet_credit (we_unicode (fe_wallet (mk_funding mk))) shop r (receipt_credit_key mk n) kind words amount now = Inr (i, shop')" "amount \<le> max64"
  shows "shop_step (mk_funding mk) shop shop'"
proof (rule shop_step.wallet, rule book_step.receipt[OF _ assms(2)])
  show "append_wallet_credit (we_unicode (fe_wallet (mk_funding mk))) shop r (we_hash (fe_wallet (mk_funding mk)) (''payment-receipt:'' @ show_nat n)) kind words amount now = Inr (i, shop')"
    using assms(1) by (simp only: receipt_credit_key_def)
  show "take 8 (''payment-receipt:'' @ show_nat n) \<in> {''payment-'', ''consumpt''}" by simp
qed

text \<open>A credit under the key of a receipt keeps the sale part, and raises exactly the owner's balance.\<close>

lemma credit_sale:
  assumes "append_wallet_credit (we_unicode (fe_wallet (mk_funding mk))) (shop_of db) r (receipt_credit_key mk n) kind words amount now = Inr (i, shop)" "amount \<le> max64"
    "sale_ok mk db" "inj (mk_hash mk)" "receipt_credit_key mk n \<notin> en_key ` set (db_entries (shop_of db))"
  shows "sale_ok mk (with_shop db shop)"
    "balance_of shop u c = balance_of (shop_of db) u c + (if u = or_user r \<and> c = or_currency r then amount else 0)"
    "reserved_of shop u c = reserved_of (shop_of db) u c"
proof -
  let ?fe = "mk_funding mk"
  obtain e where e: "db_entries shop = db_entries (shop_of db) @ [e]" "en_key e = receipt_credit_key mk n" "db_orders shop = db_orders (shop_of db)"
    by (rule credit_fresh[OF assms(1,5)]) (rule that)
  have "refund_step (mk_refund mk) (sx_books db) ((sx_books db)\<lparr>rf_shop := shop\<rparr>)" by (rule refund_step.elsewhere[OF receipt_credit_step[OF assms(1,2)]])
  then have "refunds_ok (mk_refund mk) ((sx_books db)\<lparr>rf_shop := shop\<rparr>)" using refund_step_keeps assms(3,4) by (auto simp: sale_ok_def)
  moreover have "rows_ok shop" using rows_ok_cong[OF e(3)] assms(3) by (simp add: sale_ok_def)
  moreover have "order_key ?fe ''change-refund:'' m \<notin> en_key ` set (db_entries shop)" if "sx_settlement_seq db < m" for m
    using assms(3) that e(1,2) receipt_key_apart(2)[OF assms(4), of n m] by (auto simp: sale_ok_def)
  ultimately show "sale_ok mk (with_shop db shop)" by (simp add: sale_ok_def)
  have books: "books_ok (fe_wallet ?fe) (shop_of db)" using assms(3) by (simp add: sale_ok_def refunds_ok_def fundings_ok_def)
  have app: "append_wallet_credit (we_unicode (fe_wallet ?fe)) (shop_of db) r (we_hash (fe_wallet ?fe) (''payment-receipt:'' @ show_nat n)) kind words amount now = Inr (i, shop)"
    using assms(1) by (simp only: receipt_credit_key_def)
  have key: "we_hash (fe_wallet ?fe) (''payment-receipt:'' @ show_nat n) \<notin> en_key ` set (db_entries (shop_of db))" using assms(5) unfolding receipt_credit_key_def .
  have t: "take 11 (''payment-receipt:'' @ show_nat n) \<noteq> ''adjustment-''" "take 8 (''payment-receipt:'' @ show_nat n) \<noteq> ''reserve-''"
    "take 8 (''payment-receipt:'' @ show_nat n) \<noteq> ''release-''" "take 8 (''payment-receipt:'' @ show_nat n) \<noteq> ''capture-''" by simp_all
  note o = order_credit_cases[OF app books assms(4,2) t]
  show "reserved_of shop u c = reserved_of (shop_of db) u c" by (rule o(5))
  from o(6)[of u c] show "balance_of shop u c = balance_of (shop_of db) u c + (if u = or_user r \<and> c = or_currency r then amount else 0)"
    by (simp only: key not_False_eq_True simp_thms)
qed

section \<open>The receipt table\<close>

lemma put_receipts [simp]:
  "sx_books (put_receipt c db) = sx_books db" "sx_settlement_seq (put_receipt c db) = sx_settlement_seq db" "py_receipt_seq (put_receipt c db) = py_receipt_seq db"
  "sx_world (put_receipt c db) = sx_world db" "py_receipts (put_receipt c db) = map (\<lambda>x. if pr_id x = pr_id c then c else x) (py_receipts db)"
  "py_events (put_receipt c db) = py_events db" "py_attempts (put_receipt c db) = py_attempts db"
  by (simp_all add: put_receipt_def)

lemma with_shop_receipts [simp]:
  "py_receipts (with_shop db shop) = py_receipts db" "py_receipt_seq (with_shop db shop) = py_receipt_seq db" "py_events (with_shop db shop) = py_events db"
  "py_attempts (with_shop db shop) = py_attempts db"
  by (simp_all add: with_shop_def)

lemma put_sale [simp]: "sale_ok mk (put_receipt c db) = sale_ok mk db"
  by (simp add: sale_ok_def)

text \<open>The receipt \<open>c'\<close> is \<open>c\<close> with its outcome written in.\<close>

definition same_receipt :: "payment_receipt \<Rightarrow> payment_receipt \<Rightarrow> bool" where
  "same_receipt c c' \<longleftrightarrow> pr_id c' = pr_id c \<and> pr_key c' = pr_key c \<and> pr_provider c' = pr_provider c \<and> pr_trade c' = pr_trade c \<and> pr_amount c' = pr_amount c
     \<and> pr_order c' = pr_order c \<and> pr_currency c' = pr_currency c"

lemma same_receipt_refl [simp]: "same_receipt c c"
  by (simp add: same_receipt_def)

lemma put_list:
  assumes "distinct (map pr_id cs)" "c \<in> set cs" "same_receipt c c'"
  defines "cs' \<equiv> map (\<lambda>x. if pr_id x = pr_id c' then c' else x) cs"
  shows "map pr_id cs' = map pr_id cs" "map pr_key cs' = map pr_key cs" "set cs' = insert c' (set cs - {c})"
proof -
  have id: "pr_id x = pr_id c' \<longleftrightarrow> x = c" if "x \<in> set cs" for x
    using that assms(1-3) by (auto simp: same_receipt_def distinct_map dest: inj_onD)
  show "map pr_id cs' = map pr_id cs" by (simp add: cs'_def)
  show "map pr_key cs' = map pr_key cs" using id assms(3) by (auto simp: cs'_def same_receipt_def)
  show "set cs' = insert c' (set cs - {c})" using id assms(2) by (auto simp: cs'_def)
qed

lemma put_receipts_ok:
  assumes "receipts_ok mk db" "c \<in> set (py_receipts db)" "same_receipt c c'" "receipt_backed mk (shop_of db) c'"
  shows "receipts_ok mk (put_receipt c' db)"
proof -
  have d: "distinct (map pr_id (py_receipts db))" using assms(1) by (simp add: receipts_ok_def)
  note l = put_list[OF d assms(2,3)]
  have c: "pr_id c \<le> py_receipt_seq db" "pr_amount c \<le> max64" "pr_key c = payment_receipt_key mk (pr_provider c) (pr_trade c)"
    using assms(1,2) by (auto simp: receipts_ok_def)
  have "\<forall>x \<in> set (py_receipts (put_receipt c' db)). pr_id x \<le> py_receipt_seq db \<and> pr_amount x \<le> max64 \<and> pr_key x = payment_receipt_key mk (pr_provider x) (pr_trade x)
      \<and> receipt_backed mk (shop_of db) x"
    unfolding put_receipts l(3) using assms(1,3,4) c by (auto simp: receipts_ok_def same_receipt_def)
  moreover have "distinct (map pr_id (py_receipts (put_receipt c' db)))" "distinct (map pr_key (py_receipts (put_receipt c' db)))"
    unfolding put_receipts l(1,2) using assms(1) by (simp_all add: receipts_ok_def)
  ultimately show ?thesis using assms(1) unfolding receipts_ok_def put_receipts(1,3) by blast
qed

lemma credit_receipts:
  assumes "append_wallet_credit (we_unicode (fe_wallet (mk_funding mk))) (shop_of db) r (receipt_credit_key mk (pr_id c)) kind words (pr_amount c) now = Inr (i, shop)"
    "receipts_ok mk db" "c \<in> set (py_receipts db)" "pr_disposition c \<noteq> ''wallet_credit''" "pr_order c = or_id r" "inj (mk_hash mk)"
    "same_receipt c c'" "pr_disposition c' = ''wallet_credit''" "pr_entry c' = Some i"
  shows "receipts_ok mk (put_receipt c' (with_shop db shop))"
proof -
  have fresh: "receipt_credit_key mk (pr_id c) \<notin> en_key ` set (db_entries (shop_of db))" using assms(2-4) by (auto simp: receipts_ok_def receipt_backed_def)
  obtain e where e: "db_entries shop = db_entries (shop_of db) @ [e]" "en_id e = i" "en_key e = receipt_credit_key mk (pr_id c)" "en_balance_delta e = pr_amount c"
    "en_reserved_delta e = 0" "en_order e = Some (or_id r)" by (rule credit_fresh[OF assms(1) fresh]) (rule that)
  have d: "distinct (map pr_id (py_receipts db))" using assms(2) by (simp add: receipts_ok_def)
  note l = put_list[OF d assms(3,7)]
  have posts: "posts {receipt_credit_key mk (pr_id c)} (shop_of db) shop" using e(1,3) by (simp add: posts_def)
  have other: "receipt_backed mk shop x" if "x \<in> set (py_receipts db)" "x \<noteq> c" for x
  proof (rule backed_posts[OF _ posts])
    show "receipt_backed mk (shop_of db) x" using assms(2) that(1) by (simp add: receipts_ok_def)
    have "pr_id x \<noteq> pr_id c" using d assms(3) that by (auto simp: distinct_map dest: inj_onD)
    then show "receipt_credit_key mk (pr_id x) \<notin> {receipt_credit_key mk (pr_id c)}" by (simp add: receipt_key_inj[OF assms(6)])
  qed
  have mine: "receipt_backed mk shop c'" using e assms(5,7-9) by (auto simp: receipt_backed_def same_receipt_def)
  have c: "pr_id c \<le> py_receipt_seq db" "pr_amount c \<le> max64" "pr_key c = payment_receipt_key mk (pr_provider c) (pr_trade c)"
    using assms(2,3) by (auto simp: receipts_ok_def)
  have later: "receipt_credit_key mk n \<notin> en_key ` set (db_entries shop)" if n: "py_receipt_seq db < n" for n
  proof -
    have "receipt_credit_key mk n \<noteq> receipt_credit_key mk (pr_id c)" using n c(1) by (simp add: receipt_key_inj[OF assms(6)])
    moreover have "receipt_credit_key mk n \<notin> en_key ` set (db_entries (shop_of db))" using assms(2) n by (simp add: receipts_ok_def)
    ultimately show ?thesis using e(1,3) by simp
  qed
  have "\<forall>x \<in> set (py_receipts (put_receipt c' (with_shop db shop))). pr_id x \<le> py_receipt_seq db \<and> pr_amount x \<le> max64
      \<and> pr_key x = payment_receipt_key mk (pr_provider x) (pr_trade x) \<and> receipt_backed mk shop x"
    unfolding put_receipts with_shop_receipts l(3) using assms(2,7) c mine other by (auto simp: receipts_ok_def same_receipt_def)
  moreover have "distinct (map pr_id (py_receipts (put_receipt c' (with_shop db shop))))" "distinct (map pr_key (py_receipts (put_receipt c' (with_shop db shop))))"
    unfolding put_receipts with_shop_receipts l(1,2) using assms(2) by (simp_all add: receipts_ok_def)
  ultimately show ?thesis using later unfolding receipts_ok_def by simp
qed

text \<open>A receipt is accepted once for a trade of a channel.\<close>

lemma accept_cases:
  assumes "accept_payment_receipt mk db r provider pf now = Inr (c, fresh, db')"
  obtains (known) "find_receipt db (payment_receipt_key mk provider (pf_trade pf)) = Some c" "\<not> fresh" "db' = db" "c \<in> set (py_receipts db)"
      "pr_order c = or_id r" "pr_amount c = pf_amount pf"
  | (new) "find_receipt db (payment_receipt_key mk provider (pf_trade pf)) = None" "payment_receipt_key mk provider (pf_trade pf) \<notin> pr_key ` set (py_receipts db)"
      "pr_id c = Suc (py_receipt_seq db)" "pr_key c = payment_receipt_key mk provider (pf_trade pf)" "pr_provider c = provider" "pr_trade c = pf_trade pf"
      "pr_order c = or_id r" "pr_amount c = pf_amount pf" "pr_resolved c = None" "pr_disposition c = (if fresh then ''processing'' else ''legacy_applied'')"
      "db' = db\<lparr>py_receipts := py_receipts db @ [c], py_receipt_seq := Suc (py_receipt_seq db)\<rparr>"
proof (cases "find_receipt db (payment_receipt_key mk provider (pf_trade pf))")
  case None
  then have "payment_receipt_key mk provider (pf_trade pf) \<notin> pr_key ` set (py_receipts db)" by (auto simp: find_receipt_def find_None_iff)
  with None assms show ?thesis by (intro new) (auto simp: accept_payment_receipt_def Let_def split: if_splits)
next
  case (Some x)
  then have "x \<in> set (py_receipts db)" by (auto simp: find_receipt_def find_Some_iff)
  with Some assms show ?thesis by (intro known) (auto simp: accept_payment_receipt_def Let_def split: if_splits)
qed

lemma accept_keeps:
  assumes "accept_payment_receipt mk db r provider pf now = Inr (c, fresh, db')" "receipts_ok mk db" "pf_amount pf \<le> max64"
  shows "receipts_ok mk db'" "c \<in> set (py_receipts db')" "sx_books db' = sx_books db" "sx_world db' = sx_world db" "sx_settlement_seq db' = sx_settlement_seq db"
    "sx_order_seq db' = sx_order_seq db" "pr_order c = or_id r" "pr_amount c = pf_amount pf" "fresh \<Longrightarrow> pr_disposition c = ''processing''"
    "\<And>x. x \<in> set (py_receipts db') \<Longrightarrow> x \<in> set (py_receipts db) \<or> x = c" "\<not> fresh \<Longrightarrow> c \<in> set (py_receipts db) \<or> pr_disposition c = ''legacy_applied''"
proof -
  show "receipts_ok mk db'" using assms(1)
  proof (cases rule: accept_cases)
  case new
  have "receipt_credit_key mk (Suc (py_receipt_seq db)) \<notin> en_key ` set (db_entries (shop_of db))" using assms(2) by (simp add: receipts_ok_def)
  then have "receipt_backed mk (shop_of db) c" using new(3,10) by (simp add: receipt_backed_def)
  moreover have "pr_id c \<notin> pr_id ` set (py_receipts db)" using assms(2) new(3) by (fastforce simp: receipts_ok_def)
  ultimately show ?thesis using assms(2,3) new(2-6,8) by (auto simp: receipts_ok_def new(11))
  qed (use assms(2) in simp)
  show "c \<in> set (py_receipts db')" by (rule accept_cases[OF assms(1)]; auto)
  show "sx_books db' = sx_books db" by (rule accept_cases[OF assms(1)]; auto)
  show "sx_world db' = sx_world db" by (rule accept_cases[OF assms(1)]; auto)
  show "sx_settlement_seq db' = sx_settlement_seq db" by (rule accept_cases[OF assms(1)]; auto)
  show "sx_order_seq db' = sx_order_seq db" by (rule accept_cases[OF assms(1)]; auto)
  show "pr_order c = or_id r" by (rule accept_cases[OF assms(1)]; auto)
  show "pr_amount c = pf_amount pf" by (rule accept_cases[OF assms(1)]; auto)
  show "fresh \<Longrightarrow> pr_disposition c = ''processing''" by (rule accept_cases[OF assms(1)]; auto)
  show "\<And>x. x \<in> set (py_receipts db') \<Longrightarrow> x \<in> set (py_receipts db) \<or> x = c" by (rule accept_cases[OF assms(1)]; auto)
  show "\<not> fresh \<Longrightarrow> c \<in> set (py_receipts db) \<or> pr_disposition c = ''legacy_applied''" by (rule accept_cases[OF assms(1)]; auto)
qed

section \<open>Applying a receipt\<close>

text \<open>A step that moves no money and no entitlement: books and rows change, balances and the rest of the database do not.\<close>

definition moneyless :: "'w market \<Rightarrow> 'w payment_db \<Rightarrow> 'w payment_db \<Rightarrow> bool" where
  "moneyless mk db db' \<longleftrightarrow> sold mk db db' \<and> sx_world db' = sx_world db \<and> (\<forall>u c. balance_of (shop_of db') u c = balance_of (shop_of db) u c)"

lemma moneyless_trans: "moneyless mk a b \<Longrightarrow> moneyless mk b c \<Longrightarrow> moneyless mk a c"
  using sold_trans unfolding moneyless_def by auto

lemma moneyless_refl: "sale_ok mk db \<Longrightarrow> moneyless mk db db"
  by (simp add: moneyless_def sold_refl sale_ok_def)

lemma moneyless_release:
  assumes "release_order_funding (mk_funding mk) (shop_of db) r reason now = Inr shop" "sale_ok mk db" "inj (mk_hash mk)"
  shows "moneyless mk db (with_shop db shop)" "db_orders shop = db_orders (shop_of db)"
proof -
  have F: "fundings_ok (mk_funding mk) (shop_of db)" and rows: "rows_ok (shop_of db)" using assms(2) by (simp_all add: sale_ok_def refunds_ok_def)
  have "balance_of shop u c = balance_of (shop_of db) u c" for u c by (rule release_order_funding_spec[OF assms(1) F assms(3)]) simp_all
  with sold_release[OF assms(1) rows] show "moneyless mk db (with_shop db shop)" by (simp add: moneyless_def)
  show "db_orders shop = db_orders (shop_of db)" by (rule release_orders[OF assms(1)])
qed

lemma moneyless_row:
  assumes "sale_ok mk db" "\<And>x. or_id x = i \<Longrightarrow> or_payable x \<le> max64 \<Longrightarrow> or_paid x \<le> max64 \<Longrightarrow> or_id (f x) = i \<and> or_paid (f x) \<le> max64 \<and> or_payable (f x) \<le> max64"
  shows "moneyless mk db (with_shop db (update_row i f (shop_of db)))"
proof -
  have "rows_ok (shop_of db)" using assms(1) by (simp add: sale_ok_def)
  from sold_update[OF this assms(2)] balance_cong[of "update_row i f (shop_of db)" "shop_of db"] show ?thesis
    by (simp add: moneyless_def update_row_def)
qed

text \<open>The row of an order and what a payment reads from it.\<close>

definition same_buyer :: "order \<Rightarrow> order \<Rightarrow> bool" where
  "same_buyer r r' \<longleftrightarrow> or_id r' = or_id r \<and> or_user r' = or_user r \<and> or_currency r' = or_currency r \<and> or_payable r' = or_payable r \<and> or_type r' = or_type r"

lemma expire_spec:
  assumes "expire_for_receipt mk db r unplanned now = Inr (fulfil, r', db')" "sale_ok mk db" "inj (mk_hash mk)" "db_orders (shop_of db) (or_id r) = Some r"
  shows "moneyless mk db db'" "same_buyer r r'" "db_orders (shop_of db') (or_id r) = Some r'"
    "fulfil \<Longrightarrow> db' = db \<and> r' = r \<and> or_status r \<noteq> ''paid''"
proof -
  obtain found where found: "find_order_funding (mk_funding mk) (shop_of db) r = Inr found" using assms(1) by (auto simp: expire_for_receipt_def)
  have all: "moneyless mk db db' \<and> same_buyer r r' \<and> db_orders (shop_of db') (or_id r) = Some r' \<and> (fulfil \<longrightarrow> db' = db \<and> r' = r \<and> or_status r \<noteq> ''paid'')"
  proof (cases "found \<noteq> None \<and> (unplanned \<or> \<not> still_reserved found now)")
    case True
    define reason where "reason = (if unplanned then ''funding_mismatch'' else ''expired'')"
    have "try_bind (on_shop db (release_order_funding (mk_funding mk) (shop_of db) r reason now)) (\<lambda>db.
        if open_order r then Inr (False, canceled_row now r, with_shop db (update_row (or_id r) (canceled_row now) (shop_of db))) else Inr (False, r, db)) = Inr (fulfil, r', db')"
      using assms(1) found True unfolding expire_for_receipt_def Let_def reason_def by simp
    then obtain shop where rel: "release_order_funding (mk_funding mk) (shop_of db) r reason now = Inr shop"
      and raw: "(if open_order r then Inr (False, canceled_row now r, with_shop (with_shop db shop) (update_row (or_id r) (canceled_row now) shop))
        else Inr (False, r, with_shop db shop)) = (Inr (fulfil, r', db') :: (bool \<times> order \<times> 'a payment_db) result)"
      by (auto cong: if_cong)
    have out: "(fulfil, r', db') = (if open_order r then (False, canceled_row now r, with_shop db (update_row (or_id r) (canceled_row now) shop)) else (False, r, with_shop db shop))"
      using raw by (cases "open_order r") simp_all
    note m = moneyless_release[OF rel assms(2,3)]
    have ok: "sale_ok mk (with_shop db shop)" using m(1) assms(2,3) sold_keeps by (auto simp: moneyless_def)
    have row: "moneyless mk (with_shop db shop) (with_shop db (update_row (or_id r) (canceled_row now) shop))"
      using moneyless_row[OF ok, of "or_id r" "canceled_row now"] by (simp add: canceled_row_def)
    from out m assms(4) moneyless_trans[OF m(1) row]
    show ?thesis
      by (cases "open_order r") (simp_all add: same_buyer_def canceled_row_def update_row_def)
  next
    case False
    with assms(1) found have "db' = db" "r' = r" "fulfil = (open_order r \<or> or_type r = ''topup'' \<and> or_status r = ''canceled'')"
      by (auto simp: expire_for_receipt_def Let_def simp del: not_None_eq)
    with assms(4) moneyless_refl[OF assms(2)]
    show ?thesis
      by (auto simp: same_buyer_def)
  qed
  from all show "moneyless mk db db'" "same_buyer r r'" "db_orders (shop_of db') (or_id r) = Some r'" "fulfil \<Longrightarrow> db' = db \<and> r' = r \<and> or_status r \<noteq> ''paid''"
    by simp_all
qed

lemma credit_spec:
  assumes "credit_receipt mk db r c now = Inr (c', db')" "sale_ok mk db" "receipts_ok mk db" "inj (mk_hash mk)" "c \<in> set (py_receipts db)"
    "pr_disposition c = ''processing''" "pr_order c = or_id r"
  shows "sale_ok mk db'" "same_receipt c c'" "pr_disposition c' = ''wallet_credit''" "receipts_ok mk (put_receipt (c'\<lparr>pr_processed := t\<rparr>) db')"
    "balance_of (shop_of db') u v = balance_of (shop_of db) u v + (if u = or_user r \<and> v = or_currency r then pr_amount c else 0)"
    "sx_world db' = sx_world db" "py_receipts db' = py_receipts db" "db_orders (shop_of db') = db_orders (shop_of db)" "py_receipt_seq db' = py_receipt_seq db"
proof -
  obtain shop i shop2 where rel: "release_order_funding (mk_funding mk) (shop_of db) r ''fulfillment_unavailable'' now = Inr shop"
    and app: "append_wallet_credit (we_unicode (fe_wallet (mk_funding mk))) shop r (receipt_credit_key mk (pr_id c)) ''payment_credit'' late_payment_text (pr_amount c) now = Inr (i, shop2)"
    and out: "c' = c\<lparr>pr_disposition := ''wallet_credit'', pr_entry := Some i\<rparr>" "db' = with_shop db shop2"
    using assms(1) by (auto simp: credit_receipt_def)
  note m = moneyless_release[OF rel assms(2,4)]
  let ?db = "with_shop db shop"
  have s: "sold mk db ?db" using m(1) by (simp add: moneyless_def)
  have ok: "sale_ok mk ?db" "receipts_ok mk ?db" by (rule sold_keeps[OF s assms(2,4)], rule sold_receipts[OF s assms(3,4)])
  have big: "pr_amount c \<le> max64" using assms(3,5) by (auto simp: receipts_ok_def)
  have fresh: "receipt_credit_key mk (pr_id c) \<notin> en_key ` set (db_entries (shop_of ?db))" using ok(2) assms(5,6) by (auto simp: receipts_ok_def receipt_backed_def)
  have app2: "append_wallet_credit (we_unicode (fe_wallet (mk_funding mk))) (shop_of ?db) r (receipt_credit_key mk (pr_id c)) ''payment_credit'' late_payment_text (pr_amount c) now = Inr (i, shop2)"
    using app by simp
  note cs = credit_sale[OF app2 big ok(1) assms(4) fresh]
  show "sale_ok mk db'" using cs(1) by (simp add: out(2))
  show sr: "same_receipt c c'" "pr_disposition c' = ''wallet_credit''" by (simp_all add: out(1) same_receipt_def)
  have "receipts_ok mk (put_receipt (c'\<lparr>pr_processed := t\<rparr>) (with_shop ?db shop2))"
    by (rule credit_receipts[OF app2 ok(2) _ _ assms(7,4)]) (use assms(5,6) in \<open>simp_all add: out(1) same_receipt_def\<close>)
  then show "receipts_ok mk (put_receipt (c'\<lparr>pr_processed := t\<rparr>) db')" by (simp add: out(2))
  show "balance_of (shop_of db') u v = balance_of (shop_of db) u v + (if u = or_user r \<and> v = or_currency r then pr_amount c else 0)"
    using cs(2)[of u v] m(1) by (simp add: out(2) moneyless_def)
  show "sx_world db' = sx_world db" "py_receipts db' = py_receipts db" "py_receipt_seq db' = py_receipt_seq db" by (simp_all add: out(2))
  obtain e where "db_orders shop2 = db_orders shop" by (rule credit_fresh[OF app]) (use fresh in simp, rule that)
  then show "db_orders (shop_of db') = db_orders (shop_of db)" using m(2) by (simp add: out(2))
qed

lemma sold_balance_row: "db_accounts (shop_of db') = db_accounts (shop_of db) \<Longrightarrow> balance_of (shop_of db') u c = balance_of (shop_of db) u c"
  using balance_cong by blast

lemma bind_trade_cases:
  assumes "bind_trade db i provider trade f = Inr db'"
  obtains "\<not> trade_taken db i trade" "db' = with_shop db (update_row i (\<lambda>x. (f x)\<lparr>or_channel := provider, or_provider_trade_no := Some trade\<rparr>) (shop_of db))"
  using assms by (auto simp: bind_trade_def split: if_splits)

lemma fulfil_spec:
  assumes "fulfil_receipt mk db r c = Inr (c', db')" "rows_ok (shop_of db)"
  shows "sold mk db db'" "same_receipt c c'" "pr_disposition c' = (if or_type r = ''topup'' then ''wallet_topup'' else ''fulfilled'')"
    "db_orders (shop_of db') (or_id r) = map_option (\<lambda>x. x\<lparr>or_channel := pr_provider c, or_provider_trade_no := Some (pr_trade c)\<rparr>) (db_orders (shop_of db) (or_id r))"
    "balance_of (shop_of db') u v = balance_of (shop_of db) u v" "\<not> trade_taken db (or_id r) (pr_trade c)"
proof -
  obtain w c2 where c2: "c' = c2" "db' = with_shop (db\<lparr>sx_world := w\<rparr>) (update_row (or_id r) (\<lambda>x. x\<lparr>or_channel := pr_provider c, or_provider_trade_no := Some (pr_trade c)\<rparr>) (shop_of db))"
    and disp: "same_receipt c c2" "pr_disposition c2 = (if or_type r = ''topup'' then ''wallet_topup'' else ''fulfilled'')" and free: "\<not> trade_taken db (or_id r) (pr_trade c)"
  proof (cases "or_type r = ''topup''")
    case True
    let ?found = "find_entry (shop_of db) (order_key (mk_funding mk) ''topup-order:'' (or_id r))"
    have "?found \<noteq> None" using assms(1) True unfolding fulfil_receipt_def by (cases ?found) auto
    then obtain x where x: "?found = Some x" by blast
    have e: "bind_trade db (or_id r) (pr_provider c) (pr_trade c) (\<lambda>x. x) = Inr db'"
      "c' = c\<lparr>pr_disposition := ''wallet_topup'', pr_entry := Some (en_id x)\<rparr>"
      using assms(1) True x unfolding fulfil_receipt_def by auto
    have b: "\<not> trade_taken db (or_id r) (pr_trade c)"
      "db' = with_shop (db\<lparr>sx_world := sx_world db\<rparr>) (update_row (or_id r) (\<lambda>x. x\<lparr>or_channel := pr_provider c, or_provider_trade_no := Some (pr_trade c)\<rparr>) (shop_of db))"
      by (rule bind_trade_cases[OF e(1)]; simp)+
    show ?thesis by (rule that[OF refl b(2) _ _ b(1)]) (simp_all add: e(2) same_receipt_def True)
  next
    case False
    with assms(1) obtain w where e: "bind_trade (db\<lparr>sx_world := w\<rparr>) (or_id r) (pr_provider c) (pr_trade c) (\<lambda>x. x) = Inr db'"
      "c' = c\<lparr>pr_disposition := ''fulfilled''\<rparr>"
      by (auto simp: fulfil_receipt_def)
    have b: "\<not> trade_taken db (or_id r) (pr_trade c)"
      "db' = with_shop (db\<lparr>sx_world := w\<rparr>) (update_row (or_id r) (\<lambda>x. x\<lparr>or_channel := pr_provider c, or_provider_trade_no := Some (pr_trade c)\<rparr>) (shop_of db))"
      by (rule bind_trade_cases[OF e(1)]; simp add: trade_taken_def)+
    show ?thesis by (rule that[OF refl b(2) _ _ b(1)]) (simp_all add: e(2) same_receipt_def False)
  qed
  show "same_receipt c c'" "pr_disposition c' = (if or_type r = ''topup'' then ''wallet_topup'' else ''fulfilled'')" "\<not> trade_taken db (or_id r) (pr_trade c)"
    using disp free c2(1) by simp_all
  have s1: "sold mk db (db\<lparr>sx_world := w\<rparr>)" by (rule sold_world[OF assms(2)])
  have "rows_ok (shop_of (db\<lparr>sx_world := w\<rparr>))" using assms(2) by simp
  from sold_update[OF this, of "or_id r" "\<lambda>x. x\<lparr>or_channel := pr_provider c, or_provider_trade_no := Some (pr_trade c)\<rparr>" mk] sold_trans[OF s1]
  show "sold mk db db'" by (simp add: c2(2))
  show "db_orders (shop_of db') (or_id r) = map_option (\<lambda>x. x\<lparr>or_channel := pr_provider c, or_provider_trade_no := Some (pr_trade c)\<rparr>) (db_orders (shop_of db) (or_id r))"
    by (simp add: c2(2) update_row_def)
  show "balance_of (shop_of db') u v = balance_of (shop_of db) u v" by (rule sold_balance_row) (simp add: c2(2) update_row_def)
qed

lemma apply_outcomes:
  assumes "apply_receipt mk pe db r c ck unplanned = Inr (r', c', db')" "sale_ok mk db" "inj (mk_hash mk)" "db_orders (shop_of db) (or_id r) = Some r"
  obtains (review) "r' = r" "c' = c\<lparr>pr_disposition := ''review_required''\<rparr>" "db' = put_receipt c' db"
  | (fulfilled) db1 db2 c2 where "or_status r \<noteq> ''paid''" "set_verified_paid mk db r (ck_now ck) (ck_paid ck) = Inr (r', db1)" "fulfil_receipt mk db1 r' c = Inr (c2, db2)"
      "c' = c2\<lparr>pr_processed := ck_now ck\<rparr>" "db' = put_receipt c' db2"
  | (credited) dbx db2 c2 t where "moneyless mk db dbx" "same_buyer r r'" "db_orders (shop_of dbx) (or_id r) = Some r'" "credit_receipt mk dbx r' c t = Inr (c2, db2)"
      "c' = c2\<lparr>pr_processed := t\<rparr>" "db' = put_receipt c' db2"
proof -
  from assms(1) obtain damaged where damaged: "pe_damaged pe (sx_world db) r = Inr damaged" by (auto simp: apply_receipt_def Let_def)
  show ?thesis
  proof (cases "damaged \<or> legacy_payment r")
    case True
    with assms(1) damaged show ?thesis by (intro review) (auto simp: apply_receipt_def Let_def)
  next
    case False
    with assms(1) damaged obtain fulfil r1 db1 where ex: "expire_for_receipt mk db r unplanned (ck_now ck) = Inr (fulfil, r1, db1)" by (auto simp: apply_receipt_def Let_def)
    note e = expire_spec[OF ex assms(2-4)]
    show ?thesis
    proof (cases fulfil)
      case True
      note d = e(4)[OF True]
      from assms(1) damaged False ex d True obtain c2 t db2 where st: "settle_receipt mk db r c ck = Inr (r', c2, t, db2)" "c' = c2\<lparr>pr_processed := t\<rparr>" "db' = put_receipt c' db2"
        by (auto simp: apply_receipt_def Let_def)
      show ?thesis
      proof (cases "set_verified_paid mk db r (ck_now ck) (ck_paid ck)")
        case (Inr p)
        obtain rp dbp where p: "p = (rp, dbp)" by force
        from st(1) Inr p have "fulfil_receipt mk dbp rp c = Inr (c2, db2)" "r' = rp" "t = ck_now ck" by (auto simp: settle_receipt_def)
        with Inr p d st show ?thesis by (intro fulfilled) auto
      next
        case (Inl err)
        let ?close = "\<lambda>x. (canceled_row (ck_failed ck) x)\<lparr>or_failure := failure_text err\<rparr>"
        let ?dbx = "with_shop db (update_row (or_id r) ?close (shop_of db))"
        have out: "credit_receipt mk ?dbx (?close r) c (ck_failed ck) = Inr (c2, db2)" "r' = ?close r" "t = ck_failed ck"
          using st(1) Inl assms(4) by (auto simp: settle_receipt_def Let_def split: if_splits)
        have m: "moneyless mk db ?dbx" by (rule moneyless_row[OF assms(2)]) (simp add: canceled_row_def)
        show ?thesis by (rule credited[OF m _ _ _ st(2,3)]) (use out assms(4) in \<open>simp_all add: same_buyer_def canceled_row_def update_row_def\<close>)
      qed
    next
      case nf: False
      from assms(1) damaged False ex nf obtain c2 db2 where st: "credit_receipt mk db1 r1 c (ck_now ck) = Inr (c2, db2)" "r' = r1" "c' = c2\<lparr>pr_processed := ck_now ck\<rparr>" "db' = put_receipt c' db2"
        by (auto simp: apply_receipt_def Let_def)
      show ?thesis by (rule credited[OF e(1) _ _ _ st(3,4)]) (use st e in simp_all)
    qed
  qed
qed

lemma apply_keeps:
  assumes "apply_receipt mk pe db r c ck unplanned = Inr (r', c', db')" "sale_ok mk db" "receipts_ok mk db" "inj (mk_hash mk)"
    "db_orders (shop_of db) (or_id r) = Some r" "c \<in> set (py_receipts db)" "pr_disposition c = ''processing''" "pr_order c = or_id r"
  shows "sale_ok mk db' \<and> receipts_ok mk db' \<and> same_receipt c c' \<and> pr_disposition c' \<noteq> ''processing''
    \<and> py_receipts db' = map (\<lambda>x. if pr_id x = pr_id c then c' else x) (py_receipts db) \<and> or_id r' = or_id r"
  using assms(1,2,4,5)
proof (cases rule: apply_outcomes)
  case review
  have s: "same_receipt c c'" by (simp add: review(2) same_receipt_def)
  have "receipt_backed mk (shop_of db) c" using assms(3,6) by (simp add: receipts_ok_def)
  then have "receipt_backed mk (shop_of db) c'" using assms(7) by (simp add: receipt_backed_def review(2))
  from put_receipts_ok[OF assms(3,6) s this] show ?thesis using assms(2) s by (simp add: review)
next
  case (fulfilled db1 db2 c2)
  have big: "or_payable r \<le> max64" using assms(2,5) by (auto simp: sale_ok_def rows_ok_def)
  obtain i where v: "sold mk db db1" "or_id r' = or_id r" by (rule verified_sold[OF fulfilled(2,1) assms(2,4) big])
  have "rows_ok (shop_of db1)" using v(1) by (simp add: sold_def)
  note f = fulfil_spec[OF fulfilled(3) this]
  have s: "sold mk db db2" by (rule sold_trans[OF v(1) f(1)])
  have ok: "sale_ok mk db2" "receipts_ok mk db2" by (rule sold_keeps[OF s assms(2,4)], rule sold_receipts[OF s assms(3,4)])
  have same: "py_receipts db2 = py_receipts db" using s more_receipts(1)[of db2 db] by (simp add: sold_def)
  have sr: "same_receipt c c'" using f(2) by (simp add: fulfilled(4) same_receipt_def)
  have "receipt_backed mk (shop_of db2) c" using ok(2) assms(6) same by (simp add: receipts_ok_def)
  then have "receipt_backed mk (shop_of db2) c'" using assms(7) f(3) sr by (simp add: receipt_backed_def fulfilled(4) same_receipt_def)
  from put_receipts_ok[OF ok(2) _ sr this] show ?thesis using ok(1) sr same assms(6) v(2) f(3) by (simp add: fulfilled(4,5) same_receipt_def)
next
  case (credited dbx db2 c2 t)
  have s: "sold mk db dbx" using credited(1) by (simp add: moneyless_def)
  have ok: "sale_ok mk dbx" "receipts_ok mk dbx" by (rule sold_keeps[OF s assms(2,4)], rule sold_receipts[OF s assms(3,4)])
  have same: "py_receipts dbx = py_receipts db" using s more_receipts(1)[of dbx db] by (simp add: sold_def)
  have id: "or_id r' = or_id r" using credited(2) by (simp add: same_buyer_def)
  have c: "c \<in> set (py_receipts dbx)" "pr_order c = or_id r'" using assms(6,8) same id by simp_all
  note k = credit_spec[OF credited(4) ok assms(4) c(1) assms(7) c(2)]
  from k same id show ?thesis by (simp add: credited(5,6) same_receipt_def)
qed

section \<open>Recording, resolving, opening\<close>

text \<open>Writes beside the books: attempts, events and the audit.\<close>

lemma beside_keeps:
  assumes "sale_ok mk db" "receipts_ok mk db" "inj (mk_hash mk)"
    "sx_books db' = (sx_books db)\<lparr>rf_shop := (shop_of db)\<lparr>db_attempts := at, db_events := ev, db_audit := au\<rparr>\<rparr>"
    "sx_settlement_seq db' = sx_settlement_seq db" "py_receipts db' = py_receipts db" "py_receipt_seq db' = py_receipt_seq db"
  shows "sale_ok mk db'" "receipts_ok mk db'"
proof -
  let ?s1 = "(shop_of db)\<lparr>db_attempts := at, db_events := ev\<rparr>" and ?s2 = "(shop_of db)\<lparr>db_attempts := at, db_events := ev, db_audit := au\<rparr>"
  have "book_step (fe_wallet (mk_funding mk)) (shop_of db) ((shop_of db)\<lparr>db_users := db_users (shop_of db), db_tickets := db_tickets (shop_of db), db_orders := db_orders (shop_of db),
     db_attempts := at, db_events := ev, db_settlements := db_settlements (shop_of db)\<rparr>)" by (rule book_step.elsewhere)
  then have "shop_step (mk_funding mk) (shop_of db) ?s1" by (intro shop_step.wallet) simp
  then have r1: "refund_step (mk_refund mk) (sx_books db) ((sx_books db)\<lparr>rf_shop := ?s1\<rparr>)" by (rule refund_step.elsewhere)
  have "shop_step (mk_funding mk) ?s1 (?s1\<lparr>db_audit := au\<rparr>)" by (rule shop_step.wallet, rule book_step.audited)
  then have r2: "refund_step (mk_refund mk) ((sx_books db)\<lparr>rf_shop := ?s1\<rparr>) ((sx_books db)\<lparr>rf_shop := ?s2\<rparr>)"
    using refund_step.elsewhere[of "mk_refund mk" "(sx_books db)\<lparr>rf_shop := ?s1\<rparr>" "?s1\<lparr>db_audit := au\<rparr>"] by simp
  have "refunds_ok (mk_refund mk) ((sx_books db)\<lparr>rf_shop := ?s1\<rparr>)" using refund_step_keeps[OF r1 _ assms(3)] assms(1) by (simp add: sale_ok_def)
  from refund_step_keeps[OF r2 this assms(3)] assms(1) show "sale_ok mk db'" by (simp add: sale_ok_def assms(4,5) rows_ok_def)
  show "receipts_ok mk db'" by (rule receipts_posts[OF assms(2), of "{}"]) (simp_all add: assms(4,6,7) posts_same)
qed

lemma with_event_reads [simp]:
  "sx_books (with_event e db) = (sx_books db)\<lparr>rf_shop := (shop_of db)\<lparr>db_events := db_events (shop_of db) @ [ev_order e]\<rparr>\<rparr>" "sx_world (with_event e db) = sx_world db"
  "sx_settlement_seq (with_event e db) = sx_settlement_seq db" "sx_order_seq (with_event e db) = sx_order_seq db" "py_receipts (with_event e db) = py_receipts db"
  "py_receipt_seq (with_event e db) = py_receipt_seq db" "py_events (with_event e db) = py_events db @ [e]"
  by (simp_all add: with_event_def with_shop_def Let_def)

lemma with_event_keeps:
  assumes "sale_ok mk db" "receipts_ok mk db" "inj (mk_hash mk)"
  shows "sale_ok mk (with_event e db)" "receipts_ok mk (with_event e db)"
  by (rule beside_keeps[OF assms, where at = "db_attempts (shop_of db)" and au = "db_audit (shop_of db)"]; simp)+

definition finish_fact :: "payment_event \<Rightarrow> gotime \<Rightarrow> payment_authority \<Rightarrow> nat \<Rightarrow> 'w payment_db \<Rightarrow> 'w payment_db" where
  "finish_fact e t a i db = with_shop (event_processed e t db) (audit (Some (pa_account a)) ''commerce.payment.record'' (''order:'' @ show_nat i) (shop_of db))"

lemma finish_reads [simp]:
  "sx_world (finish_fact e t a i db) = sx_world db" "sx_settlement_seq (finish_fact e t a i db) = sx_settlement_seq db" "py_receipts (finish_fact e t a i db) = py_receipts db"
  "py_receipt_seq (finish_fact e t a i db) = py_receipt_seq db" "db_orders (shop_of (finish_fact e t a i db)) = db_orders (shop_of db)"
  "db_entries (shop_of (finish_fact e t a i db)) = db_entries (shop_of db)" "db_accounts (shop_of (finish_fact e t a i db)) = db_accounts (shop_of db)"
  by (simp_all add: finish_fact_def event_processed_def audit_def)

lemma finish_keeps:
  assumes "sale_ok mk db" "receipts_ok mk db" "inj (mk_hash mk)"
  shows "sale_ok mk (finish_fact e t a i db)" "receipts_ok mk (finish_fact e t a i db)"
  by (rule beside_keeps[OF assms, where at = "db_attempts (shop_of db)" and ev = "db_events (shop_of db)"]; simp add: finish_fact_def event_processed_def audit_def)+

lemma failure_sold:
  assumes "record_failure mk db r a pf now = Inr db'" "rows_ok (shop_of db)"
  shows "sold mk db db'"
proof -
  obtain db1 shop where b: "bind_trade db (or_id r) (pa_provider a) (pf_trade pf) (failed_row now) = Inr db1"
    and rel: "release_order_funding (mk_funding mk) (shop_of db1) ((failed_row now r)\<lparr>or_channel := pa_provider a, or_provider_trade_no := Some (pf_trade pf)\<rparr>) ''payment_failed'' now = Inr shop"
    and out: "db' = with_shop db1 shop"
    using assms(1) by (auto simp: record_failure_def split: if_splits)
  have db1: "db1 = with_shop db (update_row (or_id r) (\<lambda>x. (failed_row now x)\<lparr>or_channel := pa_provider a, or_provider_trade_no := Some (pf_trade pf)\<rparr>) (shop_of db))"
    by (rule bind_trade_cases[OF b])
  have s1: "sold mk db db1" unfolding db1 by (rule sold_update[OF assms(2)]) (simp add: failed_row_def)
  then have "rows_ok (shop_of db1)" by (simp add: sold_def)
  from sold_trans[OF s1 sold_release[OF rel this]] show ?thesis by (simp add: out)
qed

lemma record_payment_cases:
  assumes "record_payment mk pe ck a pf db = Inr (out, db')"
  obtains (replayed) r e where "db_orders (shop_of db) (pf_order pf) = Some r" "or_user r = pa_account a" "find_event db (pa_provider a) (pf_event pf) = Some e"
      "replay_fact mk pe db r a pf e = Inr out" "db' = db"
  | (failed) r payload db1 where "db_orders (shop_of db) (pf_order pf) = Some r" "or_user r = pa_account a" "find_event db (pa_provider a) (pf_event pf) = None"
      "pf_status pf \<noteq> ''paid''" "record_failure mk (with_event (new_event a pf payload) db) r a pf (ck_now ck) = Inr db1" "px_disposition out = []"
      "db' = finish_fact (new_event a pf payload) (ck_done ck) a (or_id r) db1"
  | (paid) r payload db1 unplanned where "db_orders (shop_of db) (pf_order pf) = Some r" "or_user r = pa_account a" "find_event db (pa_provider a) (pf_event pf) = None"
      "pf_status pf = ''paid''" "record_paid mk pe (with_event (new_event a pf payload) db) r a pf ck unplanned = Inr (out, db1)"
      "db' = finish_fact (new_event a pf payload) (ck_done ck) a (or_id r) db1"
proof -
  let ?run = "\<lambda>payload. try_bind (mk_scope mk (sx_world db) (shop_of db) (pf_order pf) (pa_account a) (pa_account a) (pa_admin a)) (\<lambda>_.
         case db_orders (shop_of db) (pf_order pf) of
           None \<Rightarrow> Inl ErrOrderPermission
         | Some r \<Rightarrow>
             if or_user r \<noteq> pa_account a then Inl ErrOrderPermission
             else try_bind (order_reader (shop_of db) (pa_account a) (pa_admin a)) (\<lambda>_.
               case find_event db (pa_provider a) (pf_event pf) of
                 Some e \<Rightarrow> try_bind (replay_fact mk pe db r a pf e) (\<lambda>out. Inr (out, db))
               | None \<Rightarrow> record_new_fact mk pe db r a pf payload ck))"
  from assms obtain payload where payload: "(case ?run payload of Inl e \<Rightarrow> Inl (if e = ErrNamed ''ErrDuplicatedKey'' then payment_conflict else e) | Inr x \<Rightarrow> Inr x) = Inr (out, db')"
    unfolding record_payment_def try_bind_Inr_iff by blast
  then have "?run payload = Inr (out, db')" by (cases "?run payload") (simp_all only: sum.case sum.simps)
  then obtain r where row: "db_orders (shop_of db) (pf_order pf) = Some r" "or_user r = pa_account a"
    and rest: "(case find_event db (pa_provider a) (pf_event pf) of
         Some e \<Rightarrow> try_bind (replay_fact mk pe db r a pf e) (\<lambda>out. Inr (out, db))
       | None \<Rightarrow> record_new_fact mk pe db r a pf payload ck) = Inr (out, db')"
    by (cases "db_orders (shop_of db) (pf_order pf)") (auto split: if_splits)
  show ?thesis
  proof (cases "find_event db (pa_provider a) (pf_event pf)")
    case (Some e)
    with rest row show ?thesis by (intro replayed) auto
  next
    case None
    with rest have new: "record_new_fact mk pe db r a pf payload ck = Inr (out, db')" by simp
    show ?thesis
    proof (cases "pf_status pf = ''paid''")
      case True
      with new obtain db1 unplanned where "record_paid mk pe (with_event (new_event a pf payload) db) r a pf ck unplanned = Inr (out, db1)"
        "db' = finish_fact (new_event a pf payload) (ck_done ck) a (or_id r) db1"
        by (auto simp: record_new_fact_def finish_fact_def event_processed_def Let_def simp del: append.simps split: if_splits)
      with row None True show ?thesis by (intro paid)
    next
      case False
      with new obtain db1 where "record_failure mk (with_event (new_event a pf payload) db) r a pf (ck_now ck) = Inr db1" "px_disposition out = []"
        "db' = finish_fact (new_event a pf payload) (ck_done ck) a (or_id r) db1"
        by (auto simp: record_new_fact_def finish_fact_def event_processed_def Let_def simp del: append.simps split: if_splits)
      with row None False show ?thesis by (intro failed)
    qed
  qed
qed

lemma record_paid_cases:
  assumes "record_paid mk pe db r a pf ck unplanned = Inr (out, db')"
  obtains (known) c db1 where "accept_payment_receipt mk db r (pa_provider a) pf (ck_now ck) = Inr (c, False, db1)" "db' = db1" "px_disposition out = pr_disposition c" "\<not> px_fulfilled out"
  | (fresh) c db1 r' c' where "accept_payment_receipt mk db r (pa_provider a) pf (ck_now ck) = Inr (c, True, db1)"
      "apply_receipt mk pe db1 r c ck unplanned = Inr (r', c', db')" "px_disposition out = pr_disposition c'"
proof -
  from assms obtain c fr db1 where acc: "accept_payment_receipt mk db r (pa_provider a) pf (ck_now ck) = Inr (c, fr, db1)" by (auto simp: record_paid_def)
  show ?thesis
  proof (cases fr)
    case True
    with acc assms show ?thesis by (auto simp: record_paid_def intro: fresh)
  next
    case False
    with acc assms show ?thesis by (auto simp: record_paid_def intro: known)
  qed
qed

lemma record_keeps:
  assumes "record_payment mk pe ck a pf db = Inr (out, db')" "pay_ok mk db" "inj (mk_hash mk)" "pf_amount pf \<le> max64"
  shows "pay_ok mk db'"
  using assms(1)
proof (cases rule: record_payment_cases)
  case replayed
  with assms(2) show ?thesis by simp
next
  case (failed r payload db1)
  note k = with_event_keeps[where e = "new_event a pf payload" and db = db and mk = mk]
  have k: "sale_ok mk (with_event (new_event a pf payload) db)" "receipts_ok mk (with_event (new_event a pf payload) db)"
    using k assms(2,3) by (simp_all add: pay_ok_def)
  then have s: "sold mk (with_event (new_event a pf payload) db) db1" using failure_sold[OF failed(5)] by (simp add: sale_ok_def)
  note f = finish_keeps[OF sold_keeps[OF s k(1) assms(3)] sold_receipts[OF s k(2) assms(3)] assms(3)]
  have "py_receipts db1 = py_receipts db" using more_receipts(1)[of db1 "with_event (new_event a pf payload) db"] s by (simp add: sold_def)
  with f assms(2) show ?thesis by (simp add: failed(7) pay_ok_def)
next
  case (paid r payload db1 unplanned)
  let ?db = "with_event (new_event a pf payload) db"
  have k: "sale_ok mk ?db" "receipts_ok mk ?db" using with_event_keeps[where e = "new_event a pf payload" and db = db and mk = mk] assms(2,3) by (simp_all add: pay_ok_def)
  have id: "or_id r = pf_order pf" using assms(2) paid(1) by (auto simp: pay_ok_def sale_ok_def rows_ok_def)
  have "sale_ok mk db1 \<and> receipts_ok mk db1 \<and> (\<forall>c \<in> set (py_receipts db1). pr_disposition c \<noteq> ''processing'')"
    using paid(5)
  proof (cases rule: record_paid_cases)
    case (known c db2)
    note ac = accept_keeps[OF known(1) k(2) assms(4)]
    have "\<forall>c \<in> set (py_receipts db2). pr_disposition c \<noteq> ''processing''" using ac(10,11) assms(2) by (fastforce simp: pay_ok_def)
    with ac k(1) known(2) show ?thesis by (simp add: sale_ok_def)
  next
    case (fresh c db2 r' c')
    note ac = accept_keeps[OF fresh(1) k(2) assms(4)]
    have row: "db_orders (shop_of db2) (or_id r) = Some r" using ac(3) paid(1) id by simp
    have ok: "sale_ok mk db2" using ac(3,5) k(1) by (simp add: sale_ok_def)
    have ap: "sale_ok mk db1 \<and> receipts_ok mk db1 \<and> same_receipt c c' \<and> pr_disposition c' \<noteq> ''processing''
        \<and> py_receipts db1 = map (\<lambda>x. if pr_id x = pr_id c then c' else x) (py_receipts db2) \<and> or_id r' = or_id r"
      by (rule apply_keeps[OF fresh(2) ok ac(1) assms(3) row ac(2) ac(9) ac(7)]) simp
    have d: "distinct (map pr_id (py_receipts db2))" using ac(1) by (simp add: receipts_ok_def)
    have "\<forall>x \<in> set (py_receipts db1). pr_disposition x \<noteq> ''processing''"
    proof
      fix x assume "x \<in> set (py_receipts db1)"
      then obtain y where y: "y \<in> set (py_receipts db2)" "x = (if pr_id y = pr_id c then c' else y)" using ap by auto
      show "pr_disposition x \<noteq> ''processing''"
      proof (cases "pr_id y = pr_id c")
        case True
        with y ap show ?thesis by simp
      next
        case False
        with y ac(10)[OF y(1)] assms(2) show ?thesis by (auto simp: pay_ok_def)
      qed
    qed
    with ap show ?thesis by blast
  qed
  then show ?thesis using finish_keeps[of mk db1] assms(3) by (simp add: paid(6) pay_ok_def)
qed

lemma resolve_cases:
  assumes "resolve_receipt mk now actor i rq db = Inr (v, db')"
  obtains (again) c where "c \<in> set (py_receipts db)" "pr_id c = rv_receipt rq" "pr_resolved c \<noteq> None" "pr_disposition c = resolved_disposition rq"
      "pr_ticket c = Some (rv_ticket rq)" "pr_reason c = rv_reason rq" "db' = db" "v = summarize_receipt c True"
  | (once) r c entry shop c' where "db_orders (shop_of db) i = Some r" "c \<in> set (py_receipts db)" "pr_id c = rv_receipt rq" "pr_order c = i" "pr_resolved c = None" "pr_disposition c = ''review_required''"
      "rv_decision rq = ''credit_wallet'' \<and> (\<exists>n. entry = Some n \<and> append_wallet_credit (we_unicode (fe_wallet (mk_funding mk))) (shop_of db) r (receipt_credit_key mk (pr_id c)) ''payment_credit''
             reviewed_payment_text (pr_amount c) now = Inr (n, shop)) \<or> rv_decision rq \<noteq> ''credit_wallet'' \<and> entry = pr_entry c \<and> shop = shop_of db"
      "c' = c\<lparr>pr_entry := entry, pr_disposition := resolved_disposition rq, pr_ticket := Some (rv_ticket rq), pr_reason := rv_reason rq, pr_resolver := Some actor, pr_resolved := Some now\<rparr>"
      "v = summarize_receipt c' True" "db' = with_shop (put_receipt c' db) (audit (Some actor) ''commerce.payment.resolve'' (''receipt:'' @ show_nat (pr_id c)) shop)"
proof -
  from assms obtain r where r: "db_orders (shop_of db) i = Some r" by (auto simp: resolve_receipt_def split: option.splits)
  with assms obtain c where c: "List.find (\<lambda>c. pr_id c = rv_receipt rq \<and> pr_order c = i) (py_receipts db) = Some c"
    and rest: "(if pr_resolved c \<noteq> None then
                if pr_disposition c \<noteq> resolved_disposition rq \<or> pr_ticket c \<noteq> Some (rv_ticket rq) \<or> pr_reason c \<noteq> rv_reason rq
                then Inl payment_conflict else Inr (summarize_receipt c True, db)
              else if pr_disposition c \<noteq> ''review_required'' then Inl payment_conflict
              else close_receipt mk db now actor r c rq) = Inr (v, db')"
    by (auto simp: resolve_receipt_def split: option.splits)
  have in_c: "c \<in> set (py_receipts db)" "pr_id c = rv_receipt rq" "pr_order c = i" using c by (auto simp: find_Some_iff)
  show ?thesis
  proof (cases "pr_resolved c = None")
    case False
    with rest in_c show ?thesis by (intro again[of c]) (auto split: if_splits)
  next
    case True
    with rest have rev: "pr_disposition c = ''review_required''" and cl: "close_receipt mk db now actor r c rq = Inr (v, db')" by (auto split: if_splits)
    show ?thesis
    proof (cases "rv_decision rq = ''credit_wallet''")
      case credit: True
      with cl obtain n shop where app: "append_wallet_credit (we_unicode (fe_wallet (mk_funding mk))) (shop_of db) r (receipt_credit_key mk (pr_id c)) ''payment_credit''
             reviewed_payment_text (pr_amount c) now = Inr (n, shop)"
        by (auto simp: close_receipt_def Let_def split: if_splits)
      with cl credit r in_c True rev show ?thesis
        by (intro once[of r c "Some n" shop]) (auto simp: close_receipt_def Let_def simp del: append.simps split: if_splits)
    next
      case False
      with cl r in_c True rev show ?thesis
        by (intro once[of r c "pr_entry c" "shop_of db"]) (auto simp: close_receipt_def Let_def simp del: append.simps split: if_splits)
    qed
  qed
qed

lemma resolve_keeps:
  assumes "resolve_receipt mk now actor i rq db = Inr (v, db')" "pay_ok mk db" "inj (mk_hash mk)" "rv_decision rq = ''credit_wallet'' \<or> rv_decision rq = ''already_applied''"
  shows "pay_ok mk db'"
  using assms(1)
proof (cases rule: resolve_cases)
  case again
  with assms(2) show ?thesis by simp
next
  case (once r c entry shop c')
  have ok: "sale_ok mk db" "receipts_ok mk db" using assms(2) by (simp_all add: pay_ok_def)
  have id: "or_id r = i" using ok(1) once(1) by (auto simp: sale_ok_def rows_ok_def)
  have big: "pr_amount c \<le> max64" and bk: "receipt_backed mk (shop_of db) c" using ok(2) once(2) by (auto simp: receipts_ok_def)
  have fresh: "receipt_credit_key mk (pr_id c) \<notin> en_key ` set (db_entries (shop_of db))" using bk once(6) by (simp add: receipt_backed_def)
  have sr: "same_receipt c c'" by (simp add: once(8) same_receipt_def)
  have mid: "sale_ok mk (put_receipt c' (with_shop db shop)) \<and> receipts_ok mk (put_receipt c' (with_shop db shop))"
    using once(7)
  proof
    assume h: "rv_decision rq = ''credit_wallet'' \<and> (\<exists>n. entry = Some n \<and> append_wallet_credit (we_unicode (fe_wallet (mk_funding mk))) (shop_of db) r
      (receipt_credit_key mk (pr_id c)) ''payment_credit'' reviewed_payment_text (pr_amount c) now = Inr (n, shop))"
    then obtain n where n: "entry = Some n" "append_wallet_credit (we_unicode (fe_wallet (mk_funding mk))) (shop_of db) r
      (receipt_credit_key mk (pr_id c)) ''payment_credit'' reviewed_payment_text (pr_amount c) now = Inr (n, shop)" by blast
    have disp: "pr_disposition c' = ''wallet_credit''" "pr_entry c' = Some n" using h n(1) by (simp_all add: once(8) resolved_disposition_def)
    have nc: "pr_disposition c \<noteq> ''wallet_credit''" "pr_order c = or_id r" using once(4,6) id by simp_all
    show ?thesis using credit_sale(1)[OF n(2) big ok(1) assms(3) fresh] credit_receipts[OF n(2) ok(2) once(2) nc assms(3) sr disp] by simp
  next
    assume h: "rv_decision rq \<noteq> ''credit_wallet'' \<and> entry = pr_entry c \<and> shop = shop_of db"
    then have "pr_disposition c' = ''legacy_applied''" using assms(4) by (simp add: once(8) resolved_disposition_def)
    then have "receipt_backed mk (shop_of db) c'" using fresh sr by (simp add: receipt_backed_def same_receipt_def)
    from put_receipts_ok[OF ok(2) once(2) sr this] ok(1) h show ?thesis by simp
  qed
  have f: "sale_ok mk db'" "receipts_ok mk db'"
    by (rule beside_keeps[OF conjunct1[OF mid] conjunct2[OF mid] assms(3), where at = "db_attempts shop" and ev = "db_events shop"]; simp add: once(10) audit_def)+
  have "pr_disposition c' \<noteq> ''processing''" by (simp add: once(8) resolved_disposition_def)
  with f assms(2) show ?thesis by (auto simp: pay_ok_def once(10) split: if_splits)
qed

lemma open_keeps:
  assumes "checkout_open mk db clock actor i provider = Inr (shown, allowed, db')" "pay_ok mk db" "inj (mk_hash mk)"
  shows "pay_ok mk db'"
proof -
  obtain r found where r: "db_orders (shop_of db) i = Some r" and found: "find_order_funding (mk_funding mk) (shop_of db) r = Inr found"
    and rest: "(case List.find (open_attempt i provider) (py_attempts db) of None \<Rightarrow> first_checkout mk db clock r provider found
            | Some a \<Rightarrow> try_bind (reopen_checkout mk clock r (case found of None \<Rightarrow> or_payable r | Some f \<Rightarrow> fu_cash f) found a) (\<lambda>shown. Inr (shown, True, db))) = Inr (shown, allowed, db')"
    using assms(1) unfolding checkout_open_def by (auto split: option.splits if_splits)
  show ?thesis
  proof (cases "List.find (open_attempt i provider) (py_attempts db)")
    case (Some a)
    with rest assms(2) show ?thesis by auto
  next
    case None
    have rows: "rows_ok (shop_of db)" and big: "or_payable r \<le> max64" using assms(2) r by (auto simp: pay_ok_def sale_ok_def rows_ok_def)
    from None rest have f: "first_checkout mk db clock r provider found = Inr (shown, allowed, db')" by simp
    then obtain shop found' where s: "(if open_order r
          then try_bind (fe_require (mk_funding mk) r (clock 0)) (\<lambda>_. try_bind (configure_missing (mk_funding mk) (shop_of db) r (clock 1)) (\<lambda>shop.
                 try_bind (find_order_funding (mk_funding mk) shop r) (\<lambda>found. Inr (shop, found)))) else Inr (shop_of db, found)) = Inr (shop, found')"
      and out: "db' = with_shop db shop \<or> (\<exists>a. db' = with_attempt a (with_shop db shop))"
      unfolding first_checkout_def Let_def by (force split: if_splits)
    have "sold mk db (with_shop db shop)"
    proof (cases "open_order r")
      case True
      with s have "configure_missing (mk_funding mk) (shop_of db) r (clock 1) = Inr shop" by auto
      from sold_missing(1)[OF this rows big] show ?thesis .
    next
      case False
      with s have "shop = shop_of db" by auto
      with rows show ?thesis by (simp add: sold_refl)
    qed
    note mid = sold_pay[OF this assms(2,3)]
    from out show ?thesis
    proof
      assume "db' = with_shop db shop"
      with mid show ?thesis by simp
    next
      assume "\<exists>a. db' = with_attempt a (with_shop db shop)"
      then obtain a where a: "db' = with_attempt a (with_shop db shop)" by blast
      have k: "sale_ok mk (with_shop db shop)" "receipts_ok mk (with_shop db shop)" using mid by (simp_all add: pay_ok_def)
      have "sale_ok mk db'" "receipts_ok mk db'"
        by (rule beside_keeps[OF k assms(3), where at = "db_attempts shop @ [at_order a]" and ev = "db_events shop" and au = "db_audit shop"];
            simp add: a with_attempt_def with_shop_def Let_def)+
      then show ?thesis using mid by (simp add: pay_ok_def a with_attempt_def with_shop_def Let_def)
    qed
  qed
qed

section \<open>Histories\<close>

definition resolve_payment :: "'w market \<Rightarrow> gotime \<Rightarrow> nat \<Rightarrow> nat \<Rightarrow> resolve_request \<Rightarrow> 'w payment_db \<Rightarrow> (receipt_summary \<times> 'w payment_db) result" where
  "resolve_payment mk now actor i rq db = payment_receipts_resolve (\<lambda>actor i rq. resolve_receipt mk now actor i rq db) actor i rq"

text \<open>
  A step is any operation of \<open>Settlement\<close> and \<open>Payments\<close>, a change of the world outside, or any other operation of
  the books (wallet, funding, refunds) that posts no entry under the keys of receipts and settlements.
\<close>

inductive pay_step :: "'w market \<Rightarrow> 'w payment_env \<Rightarrow> 'w payment_db \<Rightarrow> 'w payment_db \<Rightarrow> bool" for mk pe where
  settle: "store_apply mk db now later actor c = Inr ((v, fulfilled), db') \<Longrightarrow> pay_step mk pe db db'"
| balance: "store_pay mk db now later actor i = Inr (v, db') \<Longrightarrow> pay_step mk pe db db'"
| checkout: "checkout_open mk db clock actor i provider = Inr (shown, allowed, db') \<Longrightarrow> pay_step mk pe db db'"
| recorded: "record_payment mk pe ck a pf db = Inr (out, db') \<Longrightarrow> pf_amount pf \<le> max64 \<Longrightarrow> pay_step mk pe db db'"
| resolve: "resolve_payment mk now actor i rq db = Inr (v, db') \<Longrightarrow> pay_step mk pe db db'"
| books: "refund_step (mk_refund mk) (sx_books db) bk \<Longrightarrow> posts K (shop_of db) (rf_shop bk) \<Longrightarrow> K \<inter> credit_keys mk = {} \<Longrightarrow>
    (\<And>n. order_key (mk_funding mk) ''change-refund:'' n \<notin> K) \<Longrightarrow> rows_ok (rf_shop bk) \<Longrightarrow> pay_step mk pe db (db\<lparr>sx_books := bk\<rparr>)"
| outside: "pay_step mk pe db (db\<lparr>sx_world := w, sx_order_seq := n\<rparr>)"

lemma store_pay_sold:
  assumes "store_pay mk db now later actor i = Inr (v, db')" "sale_ok mk db" "inj (mk_hash mk)"
  shows "sold mk db db'"
proof (rule store_pay_cases[OF assms(1)])
  assume "db' = db"
  with assms(2) show ?thesis by (simp add: sold_refl sale_ok_def)
next
  fix r f r1 db1 w
  assume h: "db_orders (shop_of db) i = Some r" "or_status r \<noteq> ''paid''" "set_paid_with_funding mk db r now later True = Inr (r1, db1)"
    "db' = with_shop (db1\<lparr>sx_world := w\<rparr>) (audit (Some actor) ''commerce.wallet.pay'' (''order:'' @ show_nat (or_id r1))
         (update_row (or_id r1) (\<lambda>x. x\<lparr>or_channel := ''wallet''\<rparr>) (shop_of db1)))"
  have "or_payable r \<le> max64" using assms(2) h(1) by (auto simp: sale_ok_def rows_ok_def)
  then have s1: "sold mk db db1" by (rule set_paid_sold[OF h(3,2) assms(2,3)])
  then have rows1: "rows_ok (shop_of db1)" by (simp add: sold_def)
  let ?db2 = "with_shop db1 (update_row (or_id r1) (\<lambda>x. x\<lparr>or_channel := ''wallet''\<rparr>) (shop_of db1))"
  have s2: "sold mk db1 ?db2" by (rule sold_update[OF rows1]) simp
  then have rows2: "rows_ok (shop_of ?db2)" by (simp add: sold_def)
  have s4: "sold mk (?db2\<lparr>sx_world := w\<rparr>) db'"
    using sold_audit[of "?db2\<lparr>sx_world := w\<rparr>" mk "Some actor" "''commerce.wallet.pay''" "''order:'' @ show_nat (or_id r1)"] rows2
    by (simp add: h(4) with_shop_def del: append.simps)
  from sold_trans[OF s1 sold_trans[OF s2 sold_trans[OF sold_world[OF rows2] s4]]] show ?thesis .
qed

lemma pay_step_keeps:
  assumes "pay_step mk pe db db'" "pay_ok mk db" "inj (mk_hash mk)"
  shows "pay_ok mk db'"
  using assms(1)
proof cases
  case settle
  from sold_pay[OF store_apply_sold[OF settle _ assms(3)] assms(2,3)] assms(2) show ?thesis by (simp add: pay_ok_def)
next
  case balance
  from sold_pay[OF store_pay_sold[OF balance _ assms(3)] assms(2,3)] assms(2) show ?thesis by (simp add: pay_ok_def)
next
  case checkout
  then show ?thesis by (rule open_keeps[OF _ assms(2,3)])
next
  case recorded
  from record_keeps[OF recorded(1) assms(2,3) recorded(2)] show ?thesis .
next
  case (resolve now actor i rq v)
  let ?rq = "rq\<lparr>rv_reason := trim_space (rv_reason rq)\<rparr>"
  have "resolve_receipt mk now actor i ?rq db = Inr (v, db')" "rv_decision ?rq = ''credit_wallet'' \<or> rv_decision ?rq = ''already_applied''"
    using resolve by (auto simp: resolve_payment_def payment_receipts_resolve_def Let_def split: if_splits)
  then show ?thesis by (intro resolve_keeps[OF _ assms(2,3)])
next
  case (books bk K)
  have ok: "sale_ok mk db" "receipts_ok mk db" using assms(2) by (simp_all add: pay_ok_def)
  have "order_key (mk_funding mk) ''change-refund:'' n \<notin> en_key ` set (db_entries (rf_shop bk))" if n: "sx_settlement_seq db < n" for n
  proof
    assume "order_key (mk_funding mk) ''change-refund:'' n \<in> en_key ` set (db_entries (rf_shop bk))"
    then obtain e where e: "e \<in> set (db_entries (rf_shop bk))" "en_key e = order_key (mk_funding mk) ''change-refund:'' n" by auto
    from posts_new[OF books(3) e(1)] books(5) e(2) have "e \<in> set (db_entries (shop_of db))" by metis
    with e(2) ok(1) n show False unfolding sale_ok_def by (metis imageI)
  qed
  then have s: "sale_ok mk db'" using refund_step_keeps[OF books(2) _ assms(3)] ok(1) books(6) by (simp add: sale_ok_def books(1))
  have "receipts_ok mk db'" by (rule receipts_posts[OF ok(2), of K]) (use books in simp_all)
  with s assms(2) show ?thesis by (simp add: pay_ok_def books(1))
next
  case outside
  with assms(2) show ?thesis by (simp add: pay_ok_def sale_ok_def receipts_ok_def)
qed

lemma pay_history:
  assumes "(pay_step mk pe)\<^sup>*\<^sup>* db db'" "pay_ok mk db" "inj (mk_hash mk)"
  shows "pay_ok mk db'"
  using assms(1)
proof (induction rule: rtranclp_induct)
  case (step b c)
  from pay_step_keeps[OF step(2,3) assms(3)] show ?case .
qed (rule assms(2))

section \<open>A sample history\<close>

definition sample_pay_env :: "unit payment_env" where
  "sample_pay_env = \<lparr>pe_encode = (\<lambda>_. Inr ''fact''), pe_decode = (\<lambda>_. None), pe_damaged = (\<lambda>_ _. Inr False)\<rparr>"

definition sample_pay_shop :: shop_db where
  "sample_pay_shop = sample_market\<lparr>db_tickets := (\<lambda>t. if t = 5 then Some 2 else None), db_orders := (\<lambda>i. if i = 7 then Some sample_bought
     else if i = 8 then Some (sample_bought\<lparr>or_id := 8, or_status := ''paid'', or_paid := 300, or_channel := ''manual''\<rparr>) else None)\<rparr>"

definition sample_pay_db :: "unit payment_db" where
  "sample_pay_db = \<lparr>sx_books = empty_refunds sample_pay_shop, sx_order_seq = 8, sx_settlement_seq = 0, sx_settled_roots = [], sx_world = (),
     py_attempts = [], py_events = [], py_receipts = [], py_receipt_seq = 0\<rparr>"

definition sample_clock :: payment_clock where
  "sample_clock = \<lparr>ck_now = sale_time, ck_paid = sale_time, ck_failed = sale_time, ck_done = sale_time\<rparr>"

definition sample_channel :: payment_authority where
  "sample_channel = \<lparr>pa_account = 2, pa_provider = ''card'', pa_admin = False, pa_attempt = False\<rparr>"

definition sample_payment :: "nat \<Rightarrow> string \<Rightarrow> string \<Rightarrow> payment_fact" where
  "sample_payment i event trade = \<lparr>pf_order = i, pf_event = event, pf_trade = trade, pf_status = ''paid'', pf_amount = 300, pf_currency = ''USD'', pf_occurred = sale_time\<rparr>"

definition sample_resolution :: resolve_request where
  "sample_resolution = \<lparr>rv_receipt = 1, rv_ticket = 5, rv_decision = ''credit_wallet'', rv_reason = ''checked''\<rparr>"

abbreviation sample_record :: "payment_fact \<Rightarrow> unit payment_db \<Rightarrow> (payment_result \<times> unit payment_db) result" where
  "sample_record \<equiv> record_payment sample_sale_market sample_pay_env sample_clock sample_channel"

lemma sample_payments:
  obtains o1 db1 o2 db2 o3 db3 where
    "sample_record (sample_payment 7 ''e1'' ''t1'') sample_pay_db = Inr (o1, db1)" "px_disposition o1 = ''fulfilled''"
    "find_event db1 ''card'' ''e2'' = None" "find_receipt db1 (payment_receipt_key sample_sale_market ''card'' ''t2'') = None" "balance_of (shop_of db1) 2 ''USD'' = 0"
    "sample_record (sample_payment 7 ''e2'' ''t2'') db1 = Inr (o2, db2)" "px_disposition o2 = ''wallet_credit''"
    "find_event db2 ''card'' ''e3'' = None" "find_receipt db2 (payment_receipt_key sample_sale_market ''card'' ''t2'') \<noteq> None" "balance_of (shop_of db2) 2 ''USD'' = 300"
    "sample_record (sample_payment 7 ''e3'' ''t2'') db2 = Inr (o3, db3)" "map pr_disposition (py_receipts db2) = [''fulfilled'', ''wallet_credit'']"
proof -
  have "(case sample_record (sample_payment 7 ''e1'' ''t1'') sample_pay_db of Inl _ \<Rightarrow> False | Inr x \<Rightarrow>
      px_disposition (fst x) = ''fulfilled'' \<and> find_event (snd x) ''card'' ''e2'' = None \<and> find_receipt (snd x) (payment_receipt_key sample_sale_market ''card'' ''t2'') = None
      \<and> balance_of (shop_of (snd x)) 2 ''USD'' = 0 \<and>
      (case sample_record (sample_payment 7 ''e2'' ''t2'') (snd x) of Inl _ \<Rightarrow> False | Inr y \<Rightarrow>
        px_disposition (fst y) = ''wallet_credit'' \<and> find_event (snd y) ''card'' ''e3'' = None
        \<and> (case find_receipt (snd y) (payment_receipt_key sample_sale_market ''card'' ''t2'') of None \<Rightarrow> False | Some _ \<Rightarrow> True)
        \<and> balance_of (shop_of (snd y)) 2 ''USD'' = 300 \<and> map pr_disposition (py_receipts (snd y)) = [''fulfilled'', ''wallet_credit''] \<and>
        (case sample_record (sample_payment 7 ''e3'' ''t2'') (snd y) of Inl _ \<Rightarrow> False | Inr z \<Rightarrow> True)))" by code_simp
  then show ?thesis unfolding case_result_holds by (auto intro: that split: option.splits)
qed

lemma sample_review:
  obtains o1 db1 v db2 where
    "sample_record (sample_payment 8 ''e1'' ''t1'') sample_pay_db = Inr (o1, db1)" "px_disposition o1 = ''review_required''" "balance_of (shop_of db1) 2 ''USD'' = 0"
    "resolve_receipt sample_sale_market sale_time 1 8 sample_resolution db1 = Inr (v, db2)" "balance_of (shop_of db2) 2 ''USD'' = 300"
proof -
  have "(case sample_record (sample_payment 8 ''e1'' ''t1'') sample_pay_db of Inl _ \<Rightarrow> False | Inr x \<Rightarrow>
      px_disposition (fst x) = ''review_required'' \<and> balance_of (shop_of (snd x)) 2 ''USD'' = 0 \<and>
      (case resolve_receipt sample_sale_market sale_time 1 8 sample_resolution (snd x) of Inl _ \<Rightarrow> False | Inr y \<Rightarrow> balance_of (shop_of (snd y)) 2 ''USD'' = 300))" by code_simp
  then show ?thesis unfolding case_result_holds by (auto intro: that)
qed

lemma sample_pay_ok: "pay_ok sample_sale_market sample_pay_db"
proof -
  have start: "fundings_ok sample_funding_env sample_pay_shop"
    using fundings_ok_cong[of sample_pay_shop sample_market sample_funding_env] sample_funding_ok(2) by (simp add: sample_pay_shop_def)
  have none: "db_entries sample_pay_shop = []" by (simp add: sample_pay_shop_def sample_market_def empty_db_def)
  have "refunds_ok (mk_refund sample_sale_market) (empty_refunds sample_pay_shop)" by (rule refunds_empty) (use start in simp)
  moreover have "rows_ok sample_pay_shop" by (auto simp: rows_ok_def sample_pay_shop_def sample_bought_def OrderFunding.sample_order_def max64_def split: if_splits)
  ultimately show ?thesis by (simp add: pay_ok_def sale_ok_def receipts_ok_def sample_pay_db_def none)
qed

lemma sample_fact_reads [simp]:
  "pf_status (sample_payment i e t) = ''paid''" "pf_amount (sample_payment i e t) = 300" "pf_event (sample_payment i e t) = e" "pf_trade (sample_payment i e t) = t"
  "pf_order (sample_payment i e t) = i" "pa_provider sample_channel = ''card''" "pa_account sample_channel = 2"
  by (simp_all add: sample_payment_def sample_channel_def)

lemma sample_record_step: "sample_record (sample_payment i e t) db = Inr (out, db') \<Longrightarrow> pay_step sample_sale_market sample_pay_env db db'"
  by (rule pay_step.recorded, assumption) (simp add: max64_def)

lemma verified_row:
  assumes "set_verified_paid mk db r now later = Inr (r', db')" "or_status r \<noteq> ''paid''" "sale_ok mk db" "inj (mk_hash mk)" "or_payable r \<le> max64"
    "db_orders (shop_of db) (or_id r) \<noteq> None"
  shows "\<exists>y. db_orders (shop_of db') (or_id r) = Some y \<and> or_status y = ''paid'' \<and> or_paid y = or_payable r"
proof (cases "or_type r = ''topup''")
  case True
  have rows: "rows_ok (shop_of db)" using assms(3) by (simp add: sale_ok_def)
  obtain n shop where c: "credit_top_up (fe_wallet (mk_funding mk)) (shop_of db) now r = Inr (n, shop)"
    and m: "mark_order_paid mk (with_shop db shop) r 0 now = Inr (r', db')"
    using assms(1,2) True by (auto simp: set_verified_paid_def)
  have "rows_ok (shop_of (with_shop db shop))" using top_up_sold[OF c rows assms(5)] by (simp add: sold_def)
  then obtain w where "db' = with_shop ((with_shop db shop)\<lparr>sx_world := w\<rparr>) (update_row (or_id r) (paid_row r 0 now) (shop_of (with_shop db shop)))"
    by (rule mark_sold[OF m _ assms(5)])
  with assms(6) credit_top_up_orders[OF c] show ?thesis by (auto simp: update_row_def paid_row_def)
next
  case False
  then have "set_paid_with_funding mk db r now later True = Inr (r', db')" using assms(1) by (simp add: set_verified_paid_def)
  then show ?thesis by (rule set_paid_sold[OF _ assms(2-5)]) blast
qed

lemma count_key: "distinct (map f xs) \<Longrightarrow> length (filter (\<lambda>x. f x = k) xs) = (if k \<in> f ` set xs then 1 else 0)"
  by (induction xs) (auto simp: filter_empty_conv image_iff)

section \<open>Properties\<close>

text \<open>
  C4. Collected money is accounted exactly once: in every history of payments, checkouts, settlements, reviews and
  other operations of the books, a receipt exists once per channel and trade; exactly one entry of the ledger is
  posted under its key when it was credited to a wallet, for exactly the amount collected and for its order, and
  none when it paid its order, was already applied, or waits for review.
\<close>
theorem receipts_accounted:
  assumes "(pay_step mk pe)\<^sup>*\<^sup>* db db'" "sale_ok mk db" "py_receipts db = []" "db_entries (shop_of db) = []" "inj (mk_hash mk)" "c \<in> set (py_receipts db')"
  shows "length (filter (\<lambda>e. en_key e = receipt_credit_key mk (pr_id c)) (db_entries (shop_of db'))) = (if pr_disposition c = ''wallet_credit'' then 1 else 0)
    \<and> (\<forall>e \<in> set (db_entries (shop_of db')). en_key e = receipt_credit_key mk (pr_id c) \<longrightarrow>
         pr_entry c = Some (en_id e) \<and> en_balance_delta e = pr_amount c \<and> en_reserved_delta e = 0 \<and> en_order e = Some (pr_order c))
    \<and> pr_disposition c \<in> {''wallet_credit'', ''fulfilled'', ''wallet_topup'', ''legacy_applied'', ''review_required''}
    \<and> (\<forall>d \<in> set (py_receipts db'). pr_provider d = pr_provider c \<and> pr_trade d = pr_trade c \<longrightarrow> d = c)"
proof -
  have start: "pay_ok mk db" using assms(2-4) by (simp add: pay_ok_def receipts_ok_def)
  note ok = pay_history[OF assms(1) start assms(5)]
  have bk: "receipt_backed mk (shop_of db') c" and np: "pr_disposition c \<noteq> ''processing''" using ok assms(6) by (auto simp: pay_ok_def receipts_ok_def)
  have dk: "distinct (map en_key (db_entries (shop_of db')))" using ok by (simp add: pay_ok_def sale_ok_def refunds_ok_def fundings_ok_def books_ok_def ledger_ok_def)
  have keys: "distinct (map pr_key (py_receipts db'))" "\<And>d. d \<in> set (py_receipts db') \<Longrightarrow> pr_key d = payment_receipt_key mk (pr_provider d) (pr_trade d)"
    using ok by (simp_all add: pay_ok_def receipts_ok_def)
  have one: "d = c" if "d \<in> set (py_receipts db')" "pr_provider d = pr_provider c" "pr_trade d = pr_trade c" for d
    by (rule distinct_map_eq[OF keys(1) that(1) assms(6)]) (use that keys(2) assms(6) in simp)
  then have all_one: "\<forall>d \<in> set (py_receipts db'). pr_provider d = pr_provider c \<and> pr_trade d = pr_trade c \<longrightarrow> d = c" by blast
  show ?thesis
  proof (cases "pr_disposition c = ''wallet_credit''")
    case True
    with bk obtain e where e: "e \<in> set (db_entries (shop_of db'))" "pr_entry c = Some (en_id e)" "en_key e = receipt_credit_key mk (pr_id c)"
      "en_balance_delta e = pr_amount c" "en_reserved_delta e = 0" "en_order e = Some (pr_order c)" by (auto simp: receipt_backed_def)
    have same: "x = e" if "x \<in> set (db_entries (shop_of db'))" "en_key x = receipt_credit_key mk (pr_id c)" for x
      by (rule distinct_map_eq[OF dk that(1) e(1)]) (simp add: that(2) e(3))
    have "receipt_credit_key mk (pr_id c) \<in> en_key ` set (db_entries (shop_of db'))" using e(1,3) by (metis imageI)
    then have "length (filter (\<lambda>e. en_key e = receipt_credit_key mk (pr_id c)) (db_entries (shop_of db'))) = 1" by (simp only: count_key[OF dk] if_True)
    moreover have "\<forall>x \<in> set (db_entries (shop_of db')). en_key x = receipt_credit_key mk (pr_id c) \<longrightarrow>
        pr_entry c = Some (en_id x) \<and> en_balance_delta x = pr_amount c \<and> en_reserved_delta x = 0 \<and> en_order x = Some (pr_order c)" using same e by metis
    ultimately show ?thesis using True all_one by simp
  next
    case False
    with bk have "receipt_credit_key mk (pr_id c) \<notin> en_key ` set (db_entries (shop_of db'))" by (simp add: receipt_backed_def)
    then have "length (filter (\<lambda>e. en_key e = receipt_credit_key mk (pr_id c)) (db_entries (shop_of db'))) = 0"
      "\<forall>e \<in> set (db_entries (shop_of db')). en_key e \<noteq> receipt_credit_key mk (pr_id c)" by (simp only: count_key[OF dk] if_False, metis imageI)
    moreover have "pr_disposition c \<in> {''fulfilled'', ''wallet_topup'', ''legacy_applied'', ''review_required''}" using bk False np by (auto simp: receipt_backed_def)
    ultimately show ?thesis using all_one False by simp
  qed
qed

theorem receipts_accounted_witness:
  "\<exists>db c. (pay_step sample_sale_market sample_pay_env)\<^sup>*\<^sup>* sample_pay_db db \<and> c \<in> set (py_receipts db) \<and> pr_disposition c = ''wallet_credit''
    \<and> length (filter (\<lambda>e. en_key e = receipt_credit_key sample_sale_market (pr_id c)) (db_entries (shop_of db))) = 1"
proof -
  obtain o1 db1 o2 db2 where h: "sample_record (sample_payment 7 ''e1'' ''t1'') sample_pay_db = Inr (o1, db1)"
    "sample_record (sample_payment 7 ''e2'' ''t2'') db1 = Inr (o2, db2)" "map pr_disposition (py_receipts db2) = [''fulfilled'', ''wallet_credit'']"
    by (rule sample_payments)
  have "pay_step sample_sale_market sample_pay_env sample_pay_db db1" "pay_step sample_sale_market sample_pay_env db1 db2" using h(1,2) sample_record_step by blast+
  then have hist: "(pay_step sample_sale_market sample_pay_env)\<^sup>*\<^sup>* sample_pay_db db2" by (meson converse_rtranclp_into_rtranclp r_into_rtranclp)
  from h(3) obtain x c where "py_receipts db2 = [x, c]" "pr_disposition c = ''wallet_credit''" by auto
  then have c: "c \<in> set (py_receipts db2)" "pr_disposition c = ''wallet_credit''" by simp_all
  have start: "sale_ok sample_sale_market sample_pay_db" "py_receipts sample_pay_db = []" "db_entries (shop_of sample_pay_db) = []"
    using sample_pay_ok by (simp_all add: pay_ok_def sample_pay_db_def sample_pay_shop_def sample_market_def empty_db_def)
  from receipts_accounted[OF hist start sample_sale_inj c(1)] c hist show ?thesis by auto
qed

text \<open>
  C8. A repeated notification moves nothing: when the money of a trade is already a receipt, a further fact about the
  same trade, under the same or another event, changes no order, no ledger entry, no balance, no receipt and no
  entitlement, and reports the outcome of the first.
\<close>
theorem repeated_money_moves_nothing:
  assumes "record_payment mk pe ck a pf db = Inr (out, db')" "pf_status pf = ''paid''"
    "find_receipt db (payment_receipt_key mk (pa_provider a) (pf_trade pf)) = Some c"
  shows "db_orders (shop_of db') = db_orders (shop_of db) \<and> db_entries (shop_of db') = db_entries (shop_of db) \<and> db_accounts (shop_of db') = db_accounts (shop_of db)
    \<and> py_receipts db' = py_receipts db \<and> sx_world db' = sx_world db \<and> px_disposition out = pr_disposition c \<and> \<not> px_fulfilled out
    \<and> (\<exists>r. db_orders (shop_of db) (pf_order pf) = Some r \<and> (find_event db (pa_provider a) (pf_event pf) = None \<longrightarrow> pr_order c = or_id r \<and> pr_amount c = pf_amount pf))"
  using assms(1)
proof (cases rule: record_payment_cases)
  case (replayed r e)
  with assms(2,3) show ?thesis by (auto simp: replay_fact_def split: if_splits)
next
  case failed
  with assms(2) show ?thesis by simp
next
  case (paid r payload db1 unplanned)
  let ?db = "with_event (new_event a pf payload) db"
  have found: "find_receipt ?db (payment_receipt_key mk (pa_provider a) (pf_trade pf)) = Some c" using assms(3) by (simp add: find_receipt_def)
  from paid(5) show ?thesis
  proof (cases rule: record_paid_cases)
    case (known c2 db2)
    from known(1) show ?thesis
      by (rule accept_cases) (use found known paid(1,3,6) in auto)
  next
    case (fresh c2 db2 r' c')
    from fresh(1) show ?thesis by (rule accept_cases) (use found in auto)
  qed
qed

theorem repeated_money_moves_nothing_witness:
  "\<exists>db2 out db3. balance_of (shop_of db2) 2 ''USD'' = 300 \<and> sample_record (sample_payment 7 ''e3'' ''t2'') db2 = Inr (out, db3)
    \<and> db_entries (shop_of db3) = db_entries (shop_of db2) \<and> py_receipts db3 = py_receipts db2"
proof -
  obtain o1 db1 o2 db2 o3 db3 where h: "sample_record (sample_payment 7 ''e1'' ''t1'') sample_pay_db = Inr (o1, db1)"
    "find_receipt db2 (payment_receipt_key sample_sale_market ''card'' ''t2'') \<noteq> None" "balance_of (shop_of db2) 2 ''USD'' = 300"
    "sample_record (sample_payment 7 ''e3'' ''t2'') db2 = Inr (o3, db3)"
    by (rule sample_payments)
  from h(2) obtain c where "find_receipt db2 (payment_receipt_key sample_sale_market (pa_provider sample_channel) (pf_trade (sample_payment 7 ''e3'' ''t2''))) = Some c" by auto
  with repeated_money_moves_nothing[OF h(4), of c] h(3,4) show ?thesis by auto
qed

text \<open>
  C5. Fresh verified money is accounted in full: recording the first fact of a trade leaves one receipt for it with
  the collected amount, and exactly one of these happened: its order is paid with exactly its price, bound to the
  channel and trade; or the owner's balance rose by exactly the collected amount, no other balance changed and no
  entitlement was granted; or the receipt waits for review (or was applied before) and no balance changed.
\<close>
theorem fresh_money_accounted:
  assumes "record_payment mk pe ck a pf db = Inr (out, db')" "pay_ok mk db" "inj (mk_hash mk)" "pf_status pf = ''paid''" "pf_amount pf \<le> max64"
    "find_event db (pa_provider a) (pf_event pf) = None" "find_receipt db (payment_receipt_key mk (pa_provider a) (pf_trade pf)) = None"
    "db_orders (shop_of db) (pf_order pf) = Some r"
  shows "(\<exists>c \<in> set (py_receipts db'). pr_provider c = pa_provider a \<and> pr_trade c = pf_trade pf \<and> pr_amount c = pf_amount pf \<and> pr_order c = pf_order pf
        \<and> pr_disposition c = px_disposition out)
    \<and> (px_disposition out \<in> {''fulfilled'', ''wallet_topup''}
         \<and> (\<exists>y. db_orders (shop_of db') (pf_order pf) = Some y \<and> or_status y = ''paid'' \<and> or_paid y = or_payable r \<and> or_channel y = pa_provider a
              \<and> or_provider_trade_no y = Some (pf_trade pf))
       \<or> px_disposition out = ''wallet_credit'' \<and> sx_world db' = sx_world db
         \<and> (\<forall>u v. balance_of (shop_of db') u v = balance_of (shop_of db) u v + (if u = or_user r \<and> v = or_currency r then pf_amount pf else 0))
       \<or> px_disposition out \<in> {''review_required'', ''legacy_applied''} \<and> sx_world db' = sx_world db \<and> db_orders (shop_of db') = db_orders (shop_of db)
         \<and> (\<forall>u v. balance_of (shop_of db') u v = balance_of (shop_of db) u v))"
  using assms(1)
proof (cases rule: record_payment_cases)
  case replayed
  with assms(6) show ?thesis by simp
next
  case failed
  with assms(4) show ?thesis by simp
next
  case (paid r2 payload db1 unplanned)
  let ?db = "with_event (new_event a pf payload) db"
  have r: "r2 = r" using paid(1) assms(8) by simp
  note paid = paid[unfolded r]
  have id: "or_id r = pf_order pf" and big: "or_payable r \<le> max64" using assms(2) paid(1) by (auto simp: pay_ok_def sale_ok_def rows_ok_def)
  have k: "sale_ok mk ?db" "receipts_ok mk ?db" using with_event_keeps[where e = "new_event a pf payload" and db = db and mk = mk] assms(2,3) by (simp_all add: pay_ok_def)
  have none: "find_receipt ?db (payment_receipt_key mk (pa_provider a) (pf_trade pf)) = None" using assms(7) by (simp add: find_receipt_def)
  have base: "balance_of (shop_of ?db) u v = balance_of (shop_of db) u v" for u v by (simp add: balance_of_def)
  have last: "balance_of (shop_of db') u v = balance_of (shop_of db1) u v" for u v by (rule sold_balance_row) (simp add: paid(6))
  from paid(5) show ?thesis
  proof (cases rule: record_paid_cases)
    case (known c db2)
    from known(1) show ?thesis
    proof (cases rule: accept_cases)
      case new
      then have "c \<in> set (py_receipts db1)" "pr_disposition c = ''legacy_applied''" using known(2) by simp_all
      moreover have "balance_of (shop_of db1) u v = balance_of (shop_of db) u v" for u v by (rule sold_balance_row) (simp add: known(2) new(11))
      ultimately show ?thesis using new known last id by (auto simp: paid(6))
    qed (use none in simp)
  next
    case (fresh c db2 r' c')
    note ac = accept_keeps[OF fresh(1) k(2) assms(5)]
    have acc: "pr_provider c = pa_provider a" "pr_trade c = pf_trade pf" by (rule accept_cases[OF fresh(1)]; use none in simp)+
    have row: "db_orders (shop_of db2) (or_id r) = Some r" using ac(3) paid(1) id by simp
    have ok: "sale_ok mk db2" using ac(3,5) k(1) by (simp add: sale_ok_def)
    have proc: "pr_disposition c = ''processing''" by (rule ac(9)) simp
    note ap = apply_keeps[OF fresh(2) ok ac(1) assms(3) row ac(2) proc ac(7)]
    have in_c: "c' \<in> set (py_receipts db1)" using ap ac(2) by auto
    have here: "\<exists>c \<in> set (py_receipts db'). pr_provider c = pa_provider a \<and> pr_trade c = pf_trade pf \<and> pr_amount c = pf_amount pf \<and> pr_order c = pf_order pf
        \<and> pr_disposition c = px_disposition out"
      by (rule bexI[of _ c']) (use in_c ap acc ac(7,8) id fresh(3) in \<open>simp_all add: paid(6) same_receipt_def\<close>)
    have base2: "balance_of (shop_of db2) u v = balance_of (shop_of db) u v" for u v using ac(3) base by simp
    have world: "sx_world db2 = sx_world db" using ac(4) by simp
    from fresh(2) ok assms(3) row show ?thesis
    proof (cases rule: apply_outcomes)
      case review
      then have "balance_of (shop_of db') u v = balance_of (shop_of db) u v" for u v using last base2 by simp
      moreover have "db_orders (shop_of db') = db_orders (shop_of db)" "sx_world db' = sx_world db" using review ac(3) world by (simp_all add: paid(6))
      ultimately show ?thesis using here fresh(3) review(2) by simp
    next
      case (fulfilled dba dbb c2)
      have v: "sold mk db2 dba" "or_id r' = or_id r" by (rule verified_sold[OF fulfilled(2,1) ok assms(3) big]; assumption)+
      have "rows_ok (shop_of dba)" using v(1) by (simp add: sold_def)
      note f = fulfil_spec[OF fulfilled(3) this]
      obtain y where y: "db_orders (shop_of dba) (or_id r) = Some y" "or_status y = ''paid''" "or_paid y = or_payable r"
        using verified_row[OF fulfilled(2,1) ok assms(3) big] row by auto
      have "db_orders (shop_of db') (or_id r) = Some (y\<lparr>or_channel := pr_provider c, or_provider_trade_no := Some (pr_trade c)\<rparr>)"
        using f(4) y(1) v(2) by (simp add: paid(6) fulfilled(5))
      moreover have "px_disposition out \<in> {''fulfilled'', ''wallet_topup''}" using f(3) by (simp add: fresh(3) fulfilled(4))
      ultimately show ?thesis using here y(2,3) acc id by (intro conjI disjI1) auto
    next
      case (credited dbx dbb c2 t)
      have s: "sold mk db2 dbx" using credited(1) by (simp add: moneyless_def)
      have okx: "sale_ok mk dbx" "receipts_ok mk dbx" by (rule sold_keeps[OF s ok assms(3)], rule sold_receipts[OF s ac(1) assms(3)])
      have cx: "c \<in> set (py_receipts dbx)" "pr_order c = or_id r'"
        using s more_receipts(1)[of dbx db2] ac(2,7) credited(2) by (simp_all add: sold_def same_buyer_def)
      note cs = credit_spec[OF credited(4) okx assms(3) cx(1) proc cx(2)]
      have "balance_of (shop_of db') u v = balance_of (shop_of db) u v + (if u = or_user r \<and> v = or_currency r then pf_amount pf else 0)" for u v
        using cs(5)[of u v] credited(1,2) last[of u v] base2[of u v] ac(8) by (simp add: credited(6) moneyless_def same_buyer_def)
      moreover have "sx_world db' = sx_world db" using cs(6) credited(1) world by (simp add: paid(6) credited(6) moneyless_def)
      moreover have "px_disposition out = ''wallet_credit''" using cs(3) by (simp add: fresh(3) credited(5))
      ultimately show ?thesis using here by simp
    qed
  qed
qed

theorem fresh_money_accounted_witness:
  "\<exists>db1 out db2. sample_record (sample_payment 7 ''e2'' ''t2'') db1 = Inr (out, db2) \<and> px_disposition out = ''wallet_credit''
    \<and> balance_of (shop_of db1) 2 ''USD'' = 0 \<and> (\<exists>u v. balance_of (shop_of db2) u v = balance_of (shop_of db1) u v + 300)"
proof -
  obtain o1 db1 o2 db2 where h: "sample_record (sample_payment 7 ''e1'' ''t1'') sample_pay_db = Inr (o1, db1)"
    "find_event db1 ''card'' ''e2'' = None" "find_receipt db1 (payment_receipt_key sample_sale_market ''card'' ''t2'') = None" "balance_of (shop_of db1) 2 ''USD'' = 0"
    "sample_record (sample_payment 7 ''e2'' ''t2'') db1 = Inr (o2, db2)" "px_disposition o2 = ''wallet_credit''"
    by (rule sample_payments)
  have ok: "pay_ok sample_sale_market db1" by (rule pay_step_keeps[OF sample_record_step[OF h(1)] sample_pay_ok sample_sale_inj])
  obtain r where r: "db_orders (shop_of db1) (pf_order (sample_payment 7 ''e2'' ''t2'')) = Some r" by (rule record_payment_cases[OF h(5)]) (rule that, assumption)+
  have pre: "pf_status (sample_payment 7 ''e2'' ''t2'') = ''paid''" "pf_amount (sample_payment 7 ''e2'' ''t2'') \<le> max64"
    "find_event db1 (pa_provider sample_channel) (pf_event (sample_payment 7 ''e2'' ''t2'')) = None"
    "find_receipt db1 (payment_receipt_key sample_sale_market (pa_provider sample_channel) (pf_trade (sample_payment 7 ''e2'' ''t2''))) = None"
    using h(2,3) by (simp_all add: max64_def)
  from fresh_money_accounted[OF h(5) ok sample_sale_inj pre r] h(6)
  have "balance_of (shop_of db2) (or_user r) (or_currency r) = balance_of (shop_of db1) (or_user r) (or_currency r) + 300" by simp
  with h(4-6) show ?thesis by blast
qed

text \<open>
  A review is decided once: resolving a receipt under review credits its owner exactly the collected amount or,
  when it was already applied, nothing; afterwards the same decision only reads the outcome, and any other decision
  on that receipt is refused.
\<close>
theorem review_resolved_once:
  assumes "resolve_receipt mk now actor i rq db = Inr (v, db')" "pay_ok mk db" "inj (mk_hash mk)" "rv_decision rq = ''credit_wallet'' \<or> rv_decision rq = ''already_applied''"
    "db_orders (shop_of db) i = Some r"
  shows "(\<exists>c \<in> set (py_receipts db). pr_id c = rv_receipt rq \<and> (\<forall>u k. balance_of (shop_of db') u k = balance_of (shop_of db) u k
            + (if pr_resolved c = None \<and> rv_decision rq = ''credit_wallet'' \<and> u = or_user r \<and> k = or_currency r then pr_amount c else 0)))
    \<and> (\<forall>at who other x db2. rv_receipt other = rv_receipt rq \<longrightarrow> resolve_receipt mk at who i other db' = Inr (x, db2) \<longrightarrow>
         db2 = db' \<and> x = v \<and> resolved_disposition other = resolved_disposition rq \<and> rv_ticket other = rv_ticket rq \<and> rv_reason other = rv_reason rq)"
proof -
  have ok: "sale_ok mk db" "receipts_ok mk db" using assms(2) by (simp_all add: pay_ok_def)
  have ids: "distinct (map pr_id (py_receipts db))" using ok(2) by (simp add: receipts_ok_def)
  have decided: "db2 = db' \<and> x = v \<and> resolved_disposition other = resolved_disposition rq \<and> rv_ticket other = rv_ticket rq \<and> rv_reason other = rv_reason rq"
    if c: "c \<in> set (py_receipts db')" "distinct (map pr_id (py_receipts db'))" "pr_id c = rv_receipt rq" "pr_resolved c \<noteq> None" "pr_disposition c = resolved_disposition rq"
      "pr_ticket c = Some (rv_ticket rq)" "pr_reason c = rv_reason rq" "v = summarize_receipt c True"
      and o: "rv_receipt other = rv_receipt rq" "resolve_receipt mk at who i other db' = Inr (x, db2)" for c at who other x db2
  proof (rule resolve_cases[OF o(2)])
    fix d assume d: "d \<in> set (py_receipts db')" "pr_id d = rv_receipt other" "pr_disposition d = resolved_disposition other"
      "pr_ticket d = Some (rv_ticket other)" "pr_reason d = rv_reason other" "db2 = db'" "x = summarize_receipt d True"
    have "d = c" by (rule distinct_map_eq[OF c(2) d(1) c(1)]) (simp add: d(2) c(3) o(1))
    with c d show ?thesis by simp
  next
    fix d assume d: "d \<in> set (py_receipts db')" "pr_id d = rv_receipt other" "pr_resolved d = None"
    have "d = c" by (rule distinct_map_eq[OF c(2) d(1) c(1)]) (simp add: d(2) c(3) o(1))
    with c(4) d(3) show ?thesis by simp
  qed
  show ?thesis
    using assms(1)
  proof (cases rule: resolve_cases)
    case (again c)
    have c: "c \<in> set (py_receipts db')" "distinct (map pr_id (py_receipts db'))" using again(1,7) ids by simp_all
    show ?thesis using decided[OF c again(2-6,8)] again(1-3,7) by (intro conjI bexI[of _ c]) auto
  next
    case (once r2 c entry shop c')
    have r: "r2 = r" using once(1) assms(5) by simp
    note once = once[unfolded r]
    have big: "pr_amount c \<le> max64" and bk: "receipt_backed mk (shop_of db) c" using ok(2) once(2) by (auto simp: receipts_ok_def)
    have fresh: "receipt_credit_key mk (pr_id c) \<notin> en_key ` set (db_entries (shop_of db))" using bk once(6) by (simp add: receipt_backed_def)
    have sr: "same_receipt c c'" by (simp add: once(8) same_receipt_def)
    note l = put_list[OF ids once(2) sr]
    have rows: "py_receipts db' = map (\<lambda>x. if pr_id x = pr_id c' then c' else x) (py_receipts db)" by (simp add: once(10))
    have c: "c' \<in> set (py_receipts db')" "distinct (map pr_id (py_receipts db'))" unfolding rows l(1,3) using ids by simp_all
    have c': "pr_id c' = rv_receipt rq" "pr_resolved c' \<noteq> None" "pr_disposition c' = resolved_disposition rq" "pr_ticket c' = Some (rv_ticket rq)" "pr_reason c' = rv_reason rq"
      using once(3) by (simp_all add: once(8))
    have money: "balance_of (shop_of db') u k = balance_of (shop_of db) u k
      + (if pr_resolved c = None \<and> rv_decision rq = ''credit_wallet'' \<and> u = or_user r \<and> k = or_currency r then pr_amount c else 0)" for u k
    proof -
      have last: "balance_of (shop_of db') u k = balance_of shop u k" using balance_cong[of "shop_of db'" shop u k] by (simp add: once(10) audit_def)
      from once(7) show ?thesis
      proof
        assume h: "rv_decision rq = ''credit_wallet'' \<and> (\<exists>n. entry = Some n \<and> append_wallet_credit (we_unicode (fe_wallet (mk_funding mk))) (shop_of db) r
          (receipt_credit_key mk (pr_id c)) ''payment_credit'' reviewed_payment_text (pr_amount c) now = Inr (n, shop))"
        then obtain n where "append_wallet_credit (we_unicode (fe_wallet (mk_funding mk))) (shop_of db) r
          (receipt_credit_key mk (pr_id c)) ''payment_credit'' reviewed_payment_text (pr_amount c) now = Inr (n, shop)" by blast
        from credit_sale(2)[OF this big ok(1) assms(3) fresh, of u k] last h once(5) show ?thesis by auto
      qed (use last in simp)
    qed
    show ?thesis using money decided[OF c c' once(9)] once(2,3) by blast
  qed
qed

theorem review_resolved_once_witness:
  "\<exists>db v db'. resolve_receipt sample_sale_market sale_time 1 8 sample_resolution db = Inr (v, db') \<and> balance_of (shop_of db) 2 ''USD'' = 0 \<and> balance_of (shop_of db') 2 ''USD'' = 300
    \<and> (\<forall>at who x db2. resolve_receipt sample_sale_market at who 8 sample_resolution db' = Inr (x, db2) \<longrightarrow> db2 = db')"
proof -
  obtain o1 db1 v db2 where h: "sample_record (sample_payment 8 ''e1'' ''t1'') sample_pay_db = Inr (o1, db1)" "balance_of (shop_of db1) 2 ''USD'' = 0"
    "resolve_receipt sample_sale_market sale_time 1 8 sample_resolution db1 = Inr (v, db2)" "balance_of (shop_of db2) 2 ''USD'' = 300"
    by (rule sample_review)
  have ok: "pay_ok sample_sale_market db1" by (rule pay_step_keeps[OF sample_record_step[OF h(1)] sample_pay_ok sample_sale_inj])
  obtain r where r: "db_orders (shop_of db1) 8 = Some r" using h(3) by (auto simp: resolve_receipt_def split: option.splits)
  have d: "rv_decision sample_resolution = ''credit_wallet'' \<or> rv_decision sample_resolution = ''already_applied''" by (simp add: sample_resolution_def)
  from review_resolved_once[OF h(3) ok sample_sale_inj d r] h show ?thesis by blast
qed

end
