(* ===== verification/JobQueue.thy ===== *)
theory JobQueue
  imports GoStrings GoTime "HOL-Library.List_Lexorder" "HOL-Library.Char_ord"
begin

text \<open>
  The durable job queue (\<^verbatim>\<open>capabilities/jobs/jobs.go\<close>, \<^verbatim>\<open>jobstore/store.go\<close>, \<^verbatim>\<open>admission.go\<close>, \<^verbatim>\<open>history.go\<close>,
  \<^verbatim>\<open>cancellation.go\<close>, \<^verbatim>\<open>review.go\<close>, \<^verbatim>\<open>import.go\<close>): its tables, the submission of an intent, the claim of the next
  run under the global budget, the weighted choice of a lane, the completion behind a lease token, cancellation and
  the review of uncertain outcomes. Every operation that writes takes the lock on the budget row first, so a
  transaction is one step on the tables; an error rolls it back.
\<close>

section \<open>Tables\<close>

datatype job_state =
    Queued | RetryWait | Running | CancelRequested | Succeeded | Failed | Unknown | Yielded | Interrupted | Canceled

definition pending_state :: "job_state \<Rightarrow> bool" where "pending_state s \<longleftrightarrow> s = Queued \<or> s = RetryWait"
definition active_state :: "job_state \<Rightarrow> bool" where "active_state s \<longleftrightarrow> s = Running \<or> s = CancelRequested"

record submission =
  su_timeout :: int
  su_max_attempts :: int
  su_backoff :: int
  su_owner :: string
  su_key :: string
  su_handler :: string
  su_resource :: string
  su_group :: string
  su_payload :: string
  su_not_before :: gotime
  su_lane :: string

record job_run =
  ru_id :: string
  ru_owner :: string
  ru_key :: string
  ru_handler :: string
  ru_resource :: string
  ru_group :: string
  ru_lane :: string
  ru_payload :: string
  ru_fingerprint :: string
  ru_state :: job_state
  ru_not_before :: gotime
  ru_created :: gotime
  ru_finished :: "gotime option"
  ru_token :: string
  ru_worker :: string
  ru_expires :: "gotime option"
  ru_schedule :: string
  ru_planned :: "gotime option"
  ru_timeout_ms :: int
  ru_attempts :: int
  ru_max_attempts :: int
  ru_backoff_ms :: int

record job_attempt =
  ja_token :: string
  ja_run :: string
  ja_number :: int
  ja_worker :: string
  ja_state :: job_state
  ja_started :: gotime
  ja_expires :: gotime
  ja_finished :: "gotime option"

record job_schedule =
  sd_id :: string
  sd_owner :: string
  sd_name :: string
  sd_handler :: string
  sd_resource :: string
  sd_group :: string
  sd_revision :: string
  sd_interval_ms :: int
  sd_timeout_ms :: int
  sd_max_attempts :: int
  sd_backoff_ms :: int
  sd_zone :: string
  sd_misfire :: string
  sd_lane :: string
  sd_anchor :: "gotime option"
  sd_compact :: bool
  sd_compact_run :: string
  sd_next :: gotime
  sd_sequence :: nat
  sd_run :: string
  sd_runs :: nat
  sd_failures :: nat
  sd_missed :: nat
  sd_state :: "job_state option"
  sd_last_state :: "job_state option"
  sd_last_started :: "gotime option"
  sd_last_finished :: "gotime option"

text \<open>A budget row, the groups with their capacities, the virtual finish of each lane (0 when it has no row).\<close>

record job_db =
  jb_capacity :: int
  jb_revision :: nat
  jb_vtime :: nat
  jb_groups :: "(string \<times> int) list"
  jb_lanes :: "string \<Rightarrow> nat"
  jb_runs :: "job_run list"
  jb_attempts :: "job_attempt list"
  jb_schedules :: "job_schedule list"
  jb_admins :: "nat list"
  jb_audits :: "(nat \<times> string \<times> string) list"

record job_view =
  vw_id :: string
  vw_submission :: submission
  vw_state :: job_state
  vw_attempt :: int
  vw_planned :: "gotime option"
  vw_created :: gotime
  vw_finished :: "gotime option"

record job_claim =
  cl_run :: job_view
  cl_token :: string
  cl_worker :: string
  cl_expires :: gotime

text \<open>The JSON grammar, and the SHA-256 of the JSON text of an intent, whose structure leaves the lane out.\<close>

record job_env =
  je_valid_json :: "string \<Rightarrow> bool"
  je_fingerprint :: "submission \<Rightarrow> string"

abbreviation err_invalid :: go_error where "err_invalid \<equiv> ErrNamed ''ErrInvalid''"
abbreviation err_conflict :: go_error where "err_conflict \<equiv> ErrNamed ''ErrConflict''"
abbreviation err_empty :: go_error where "err_empty \<equiv> ErrNamed ''ErrEmpty''"
abbreviation err_lease_lost :: go_error where "err_lease_lost \<equiv> ErrNamed ''ErrLeaseLost''"
abbreviation err_backpressure :: go_error where "err_backpressure \<equiv> ErrNamed ''ErrBackpressure''"
abbreviation err_not_found :: go_error where "err_not_found \<equiv> ErrNamed ''ErrRecordNotFound''"

definition maintenance_resource :: string where "maintenance_resource = ''core:maintenance''"

definition max_pending :: nat where "max_pending = 4096"
definition max_plugin_pending :: nat where "max_plugin_pending = 1024"
definition max_plugin_owner_pending :: nat where "max_plugin_owner_pending = 128"

text \<open>\<open>t.Truncate(time.Millisecond)\<close>, \<open>d.Milliseconds()\<close> and \<open>time.Duration(ms) * time.Millisecond\<close>.\<close>

definition trunc_ms :: "gotime \<Rightarrow> gotime" where "trunc_ms t = t - t mod millisecond"
definition to_ms :: "int \<Rightarrow> int" where "to_ms d = quo d millisecond"
definition from_ms :: "int \<Rightarrow> int" where "from_ms n = mul64 n millisecond"
definition second :: int where "second = 1000000000"

definition update_runs :: "(job_run \<Rightarrow> bool) \<Rightarrow> (job_run \<Rightarrow> job_run) \<Rightarrow> job_db \<Rightarrow> job_db" where
  "update_runs P f db = db\<lparr>jb_runs := map (\<lambda>r. if P r then f r else r) (jb_runs db)\<rparr>"

definition update_attempts :: "(job_attempt \<Rightarrow> bool) \<Rightarrow> (job_attempt \<Rightarrow> job_attempt) \<Rightarrow> job_db \<Rightarrow> job_db" where
  "update_attempts P f db = db\<lparr>jb_attempts := map (\<lambda>a. if P a then f a else a) (jb_attempts db)\<rparr>"

definition update_schedules :: "(job_schedule \<Rightarrow> bool) \<Rightarrow> (job_schedule \<Rightarrow> job_schedule) \<Rightarrow> job_db \<Rightarrow> job_db" where
  "update_schedules P f db = db\<lparr>jb_schedules := map (\<lambda>s. if P s then f s else s) (jb_schedules db)\<rparr>"

section \<open>Submission\<close>

definition normalized_dispatch_lane :: "string \<Rightarrow> string \<Rightarrow> string \<Rightarrow> string" where
  "normalized_dispatch_lane owner grp lane =
     (let lane = trim_space lane in
      if lane \<noteq> [] then lane
      else if has_prefix ''plugin:'' owner then owner
      else if grp \<noteq> [] then ''group:'' @ grp
      else ''core'')"

definition dispatch_weight :: "string \<Rightarrow> nat" where
  "dispatch_weight lane = (if lane = ''core'' then 4 else if has_prefix ''group:'' lane then 2 else 1)"

definition submission_defaults :: "submission \<Rightarrow> submission" where
  "submission_defaults su =
     (let su = (if su_max_attempts su = 0 then su\<lparr>su_max_attempts := 1\<rparr> else su);
          su = (if su_max_attempts su > 1 \<and> su_backoff su = 0 then su\<lparr>su_backoff := second\<rparr> else su)
      in su\<lparr>su_lane := normalized_dispatch_lane (su_owner su) (su_group su) (su_lane su)\<rparr>)"

definition submission_bad :: "job_env \<Rightarrow> submission \<Rightarrow> bool" where
  "submission_bad je su \<longleftrightarrow>
     su_timeout su < 0 \<or> su_timeout su > hour \<or> (su_timeout su \<noteq> 0 \<and> su_timeout su < millisecond) \<or> rem (su_timeout su) millisecond \<noteq> 0
     \<or> su_max_attempts su < 1 \<or> su_max_attempts su > 10
     \<or> su_backoff su < 0 \<or> su_backoff su > hour \<or> rem (su_backoff su) millisecond \<noteq> 0 \<or> (su_max_attempts su = 1 \<and> su_backoff su \<noteq> 0)
     \<or> su_owner su = [] \<or> length (su_owner su) > 200 \<or> su_key su = [] \<or> length (su_key su) > 160 \<or> su_handler su = [] \<or> length (su_handler su) > 320
     \<or> length (su_group su) > 160 \<or> length (su_lane su) > 200 \<or> length (su_resource su) > 200
     \<or> length (su_payload su) > 65536 \<or> \<not> je_valid_json je (su_payload su)"

definition prepare_submission :: "job_env \<Rightarrow> gotime \<Rightarrow> string \<Rightarrow> submission \<Rightarrow> job_run result" where
  "prepare_submission je clock fresh su =
     (if su_resource su = maintenance_resource \<and> su_owner su \<noteq> ''system'' then Inl err_invalid
      else let su = submission_defaults su in
        if submission_bad je su then Inl err_invalid
        else let now = trunc_ms clock in
          Inr \<lparr>ru_id = fresh, ru_owner = su_owner su, ru_key = su_key su, ru_handler = su_handler su, ru_resource = su_resource su,
            ru_group = su_group su, ru_lane = su_lane su, ru_payload = su_payload su, ru_fingerprint = je_fingerprint je (su\<lparr>su_lane := []\<rparr>),
            ru_state = Queued, ru_not_before = (if is_zero (su_not_before su) then now else su_not_before su), ru_created = now,
            ru_finished = None, ru_token = [], ru_worker = [], ru_expires = None, ru_schedule = [], ru_planned = None,
            ru_timeout_ms = to_ms (su_timeout su), ru_attempts = 0, ru_max_attempts = su_max_attempts su, ru_backoff_ms = to_ms (su_backoff su)\<rparr>)"

definition count_runs :: "(job_run \<Rightarrow> bool) \<Rightarrow> job_db \<Rightarrow> nat" where
  "count_runs P db = length (filter P (jb_runs db))"

definition check_pending_admission :: "job_db \<Rightarrow> string \<Rightarrow> string \<Rightarrow> unit result" where
  "check_pending_admission db owner resource =
     (if resource = maintenance_resource
      then (if count_runs (\<lambda>r. pending_state (ru_state r) \<and> ru_resource r = resource) db > 0 then Inl err_backpressure else Inr ())
      else if count_runs (\<lambda>r. pending_state (ru_state r)) db \<ge> max_pending then Inl err_backpressure
      else if \<not> has_prefix ''plugin:'' owner then Inr ()
      else if count_runs (\<lambda>r. pending_state (ru_state r) \<and> has_prefix ''plugin:'' (ru_owner r)) db \<ge> max_plugin_pending then Inl err_backpressure
      else if count_runs (\<lambda>r. pending_state (ru_state r) \<and> ru_owner r = owner) db \<ge> max_plugin_owner_pending then Inl err_backpressure
      else Inr ())"

text \<open>The row of a run is not written when its identifier, or its slot of a schedule, is taken (\<open>ON CONFLICT DO NOTHING\<close>).\<close>

definition row_taken :: "job_run \<Rightarrow> job_db \<Rightarrow> bool" where
  "row_taken r db \<longleftrightarrow> (\<exists>x \<in> set (jb_runs db). ru_id x = ru_id r \<or> ru_planned r \<noteq> None \<and> ru_schedule x = ru_schedule r \<and> ru_planned x = ru_planned r)"

definition same_intent :: "string \<Rightarrow> string \<Rightarrow> job_run \<Rightarrow> bool" where
  "same_intent owner key r \<longleftrightarrow> ru_owner r = owner \<and> ru_key r = key"

definition insert_submission :: "job_run \<Rightarrow> job_db \<Rightarrow> (job_run \<times> job_db) result" where
  "insert_submission r db =
     (case List.find (same_intent (ru_owner r) (ru_key r)) (jb_runs db) of
        Some existing \<Rightarrow> if ru_fingerprint existing \<noteq> ru_fingerprint r then Inl err_conflict else Inr (existing, db)
      | None \<Rightarrow>
          try_bind (check_pending_admission db (ru_owner r) (ru_resource r)) (\<lambda>_.
          if ru_group r \<noteq> [] \<and> \<not> (\<exists>(g, c) \<in> set (jb_groups db). g = ru_group r \<and> c > 0) then Inl err_invalid
          else if row_taken r db then Inl err_not_found
          else Inr (r, db\<lparr>jb_runs := jb_runs db @ [r]\<rparr>)))"

definition lock_budget :: "job_db \<Rightarrow> job_db result" where
  "lock_budget db = (if jb_capacity db \<le> 0 then Inl err_invalid else Inr (db\<lparr>jb_revision := Suc (jb_revision db)\<rparr>))"

definition run_view :: "job_run \<Rightarrow> job_view" where
  "run_view r = \<lparr>vw_id = ru_id r,
     vw_submission = \<lparr>su_timeout = from_ms (ru_timeout_ms r), su_max_attempts = ru_max_attempts r, su_backoff = from_ms (ru_backoff_ms r),
       su_owner = ru_owner r, su_key = ru_key r, su_handler = ru_handler r, su_resource = ru_resource r, su_group = ru_group r,
       su_payload = ru_payload r, su_not_before = ru_not_before r, su_lane = ru_lane r\<rparr>,
     vw_state = ru_state r, vw_attempt = ru_attempts r, vw_planned = ru_planned r, vw_created = ru_created r, vw_finished = ru_finished r\<rparr>"

definition submit_locked :: "job_env \<Rightarrow> gotime \<Rightarrow> string \<Rightarrow> submission \<Rightarrow> job_db \<Rightarrow> (job_view \<times> job_db) result" where
  "submit_locked je clock fresh su db =
     try_bind (prepare_submission je clock fresh su) (\<lambda>r.
     try_bind (insert_submission r db) (\<lambda>(r, db). Inr (run_view r, db)))"

definition submit_job :: "job_env \<Rightarrow> gotime \<Rightarrow> string \<Rightarrow> submission \<Rightarrow> job_db \<Rightarrow> (job_view \<times> job_db) result" where
  "submit_job je clock fresh su db =
     try_bind (prepare_submission je clock fresh su) (\<lambda>r.
     try_bind (lock_budget db) (\<lambda>db.
     try_bind (insert_submission r db) (\<lambda>(r, db). Inr (run_view r, db))))"

section \<open>The choice of a lane\<close>

text \<open>The first of a list under an order, as \<open>sort.Slice\<close> or \<open>ORDER BY \<dots> LIMIT 1\<close> gives it.\<close>

fun least_by :: "('a \<Rightarrow> 'a \<Rightarrow> bool) \<Rightarrow> 'a list \<Rightarrow> 'a option" where
  "least_by before [] = None"
| "least_by before (x # xs) =
     (case least_by before xs of None \<Rightarrow> Some x | Some y \<Rightarrow> if before y x then Some y else Some x)"

record eligible_lane =
  el_lane :: string
  el_oldest :: gotime
  el_effective :: nat

definition lane_before :: "eligible_lane \<Rightarrow> eligible_lane \<Rightarrow> bool" where
  "lane_before a b \<longleftrightarrow>
     (if el_effective a \<noteq> el_effective b then el_effective a < el_effective b
      else if el_oldest a \<noteq> el_oldest b then el_oldest a < el_oldest b
      else el_lane a < el_lane b)"

definition add_u64 :: "nat \<Rightarrow> nat \<Rightarrow> nat" where "add_u64 a b = (a + b) mod 18446744073709551616"

definition dispatch_quantum :: "string \<Rightarrow> nat" where
  "dispatch_quantum lane = (1024 + dispatch_weight lane - 1) div dispatch_weight lane"

definition eligible_lanes :: "job_run list \<Rightarrow> (string \<Rightarrow> nat) \<Rightarrow> nat \<Rightarrow> eligible_lane list" where
  "eligible_lanes rows stored vtime =
     map (\<lambda>lane. \<lparr>el_lane = lane, el_oldest = Min (set (map ru_not_before (filter (\<lambda>r. ru_lane r = lane) rows))),
       el_effective = max (stored lane) vtime\<rparr>) (remdups (map ru_lane rows))"

definition select_dispatch_lane :: "job_run list \<Rightarrow> (string \<Rightarrow> nat) \<Rightarrow> nat \<Rightarrow> (string \<times> nat \<times> nat) option" where
  "select_dispatch_lane rows stored vtime =
     map_option (\<lambda>l. (el_lane l, el_effective l, add_u64 (el_effective l) (dispatch_quantum (el_lane l))))
       (least_by lane_before (eligible_lanes rows stored vtime))"

section \<open>Claim\<close>

definition expired :: "gotime \<Rightarrow> job_run \<Rightarrow> bool" where
  "expired now r \<longleftrightarrow> active_state (ru_state r) \<and> (case ru_expires r of None \<Rightarrow> False | Some t \<Rightarrow> t \<le> now)"

definition expire_leases :: "gotime \<Rightarrow> job_db \<Rightarrow> job_db" where
  "expire_leases now db =
     (let db = update_attempts (\<lambda>a. active_state (ja_state a) \<and> ja_expires a \<le> now) (\<lambda>a. a\<lparr>ja_state := Unknown, ja_finished := Some now\<rparr>) db;
          db = update_runs (expired now) (\<lambda>r. r\<lparr>ru_state := Unknown, ru_finished := Some now\<rparr>) db
      in update_schedules (\<lambda>s. (sd_state s = Some Running \<or> sd_state s = Some CancelRequested)
             \<and> (\<exists>r \<in> set (jb_runs db). ru_id r = sd_run s \<and> ru_state r = Unknown))
           (\<lambda>s. s\<lparr>sd_state := Some Unknown, sd_last_state := Some Unknown, sd_last_finished := Some now, sd_failures := Suc (sd_failures s)\<rparr>) db)"

definition active_count :: "job_db \<Rightarrow> nat" where "active_count db = count_runs (\<lambda>r. active_state (ru_state r)) db"

definition maintenance_count :: "job_db \<Rightarrow> nat" where
  "maintenance_count db = count_runs (\<lambda>r. ru_resource r = maintenance_resource
     \<and> (pending_state (ru_state r) \<or> active_state (ru_state r) \<or> ru_state r = Unknown)) db"

definition group_available :: "job_db \<Rightarrow> string \<Rightarrow> bool" where
  "group_available db grp \<longleftrightarrow> (\<exists>(g, c) \<in> set (jb_groups db). g = grp
     \<and> c > int (count_runs (\<lambda>r. ru_group r = grp \<and> active_state (ru_state r)) db))"

definition resource_busy :: "job_db \<Rightarrow> string \<Rightarrow> bool" where
  "resource_busy db resource \<longleftrightarrow> (\<exists>r \<in> set (jb_runs db). ru_resource r = resource \<and> (active_state (ru_state r) \<or> ru_state r = Unknown))"

definition eligible :: "job_db \<Rightarrow> gotime \<Rightarrow> string list \<Rightarrow> job_run \<Rightarrow> bool" where
  "eligible db now handlers r \<longleftrightarrow>
     (maintenance_count db = 0 \<or> ru_resource r = maintenance_resource \<and> ru_owner r = ''system'')
     \<and> pending_state (ru_state r) \<and> ru_not_before r \<le> now \<and> ru_handler r \<in> set handlers
     \<and> (ru_resource r = [] \<or> \<not> resource_busy db (ru_resource r))
     \<and> (ru_group r = [] \<or> group_available db (ru_group r))"

definition run_before :: "job_run \<Rightarrow> job_run \<Rightarrow> bool" where
  "run_before a b \<longleftrightarrow>
     (if ru_not_before a \<noteq> ru_not_before b then ru_not_before a < ru_not_before b
      else if ru_created a \<noteq> ru_created b then ru_created a < ru_created b
      else ru_id a < ru_id b)"

text \<open>The slots are taken, or maintenance waits for the queue to be idle and certain.\<close>

definition no_slot :: "job_db \<Rightarrow> bool" where
  "no_slot db \<longleftrightarrow> int (active_count db) \<ge> jb_capacity db
     \<or> maintenance_count db > 0 \<and> (active_count db > 0 \<or> count_runs (\<lambda>r. ru_state r = Unknown) db > 0)"

definition claim_timeout :: "job_db \<Rightarrow> job_run \<Rightarrow> int \<Rightarrow> int result" where
  "claim_timeout db r timeout =
     (if ru_timeout_ms r > 0
      then let t = from_ms (ru_timeout_ms r) in if t \<le> 0 \<or> t > hour then Inl err_invalid else Inr t
      else if ru_schedule r \<noteq> []
      then (case List.find (\<lambda>s. sd_id s = ru_schedule r) (jb_schedules db) of
              None \<Rightarrow> Inl err_not_found
            | Some s \<Rightarrow> let t = from_ms (sd_timeout_ms s) in if t \<le> 0 \<or> t > hour then Inl err_invalid else Inr t)
      else Inr timeout)"

definition start_run :: "string \<Rightarrow> string \<Rightarrow> gotime \<Rightarrow> job_run \<Rightarrow> job_run" where
  "start_run token worker expiry r =
     r\<lparr>ru_state := Running, ru_token := token, ru_worker := worker, ru_expires := Some expiry, ru_attempts := ru_attempts r + 1\<rparr>"

definition new_attempt :: "string \<Rightarrow> string \<Rightarrow> gotime \<Rightarrow> gotime \<Rightarrow> job_run \<Rightarrow> job_attempt" where
  "new_attempt token worker now expiry r = \<lparr>ja_token = token, ja_run = ru_id r, ja_number = ru_attempts r + 1, ja_worker = worker,
     ja_state = Running, ja_started = now, ja_expires = expiry, ja_finished = None\<rparr>"

definition attempt_taken :: "job_attempt \<Rightarrow> job_db \<Rightarrow> bool" where
  "attempt_taken a db \<longleftrightarrow> (\<exists>x \<in> set (jb_attempts db). ja_token x = ja_token a \<or> ja_run x = ja_run a \<and> ja_number x = ja_number a)"

definition grant_lease :: "string \<Rightarrow> string \<Rightarrow> gotime \<Rightarrow> gotime \<Rightarrow> job_run \<Rightarrow> string \<times> nat \<times> nat \<Rightarrow> job_db \<Rightarrow> (job_claim \<times> job_db) result" where
  "grant_lease token worker now expiry r pick db =
     (let (lane, start, finish) = pick; a = new_attempt token worker now expiry r in
      if attempt_taken a db then Inl (ErrNamed ''ErrDuplicatedKey'')
      else let db = update_runs (\<lambda>x. ru_id x = ru_id r) (start_run token worker expiry) db;
               db = db\<lparr>jb_attempts := jb_attempts db @ [a], jb_lanes := (jb_lanes db)(lane := finish), jb_vtime := start\<rparr>;
               db = (if ru_schedule r = [] then db
                     else update_schedules (\<lambda>s. sd_id s = ru_schedule r \<and> sd_run s = ru_id r)
                       (\<lambda>s. s\<lparr>sd_state := Some Running, sd_last_started := Some now, sd_runs := Suc (sd_runs s)\<rparr>) db)
      in Inr (\<lparr>cl_run = run_view (r\<lparr>ru_state := Running, ru_attempts := ru_attempts r + 1\<rparr>), cl_token = token, cl_worker = worker, cl_expires = expiry\<rparr>, db))"

definition claim_next :: "gotime \<Rightarrow> string \<Rightarrow> string list \<Rightarrow> int \<Rightarrow> string \<Rightarrow> job_db \<Rightarrow> (job_claim \<times> job_db) option result" where
  "claim_next now worker handlers timeout token db =
     (let rows = filter (eligible db now handlers) (jb_runs db) in
      case select_dispatch_lane rows (jb_lanes db) (jb_vtime db) of
        None \<Rightarrow> Inr None
      | Some pick \<Rightarrow>
          (case least_by run_before (filter (\<lambda>r. ru_lane r = fst pick) rows) of
             None \<Rightarrow> Inr None
           | Some r \<Rightarrow>
               try_bind (claim_timeout db r timeout) (\<lambda>timeout.
               map_sum id Some (grant_lease token worker now (now + timeout) r pick db))))"

definition claimable :: "gotime \<Rightarrow> string list \<Rightarrow> job_run \<Rightarrow> bool" where
  "claimable now handlers r \<longleftrightarrow> pending_state (ru_state r) \<and> ru_not_before r \<le> now \<and> ru_handler r \<in> set handlers \<or> expired now r"

text \<open>The second component is the state the transaction leaves, also when there was nothing to claim.\<close>

definition claim_job :: "gotime \<Rightarrow> gotime \<Rightarrow> string \<Rightarrow> string \<Rightarrow> string list \<Rightarrow> int \<Rightarrow> job_db \<Rightarrow> job_claim result \<times> job_db" where
  "claim_job probe clock token worker handlers timeout db =
     (if worker = [] \<or> length worker > 160 \<or> handlers = [] \<or> timeout \<le> 0 \<or> timeout > hour then (Inl err_invalid, db)
      else if \<not> (\<exists>r \<in> set (jb_runs db). claimable (trunc_ms probe) handlers r) then (Inl err_empty, db)
      else case lock_budget db of
        Inl e \<Rightarrow> (Inl e, db)
      | Inr locked \<Rightarrow>
          let now = trunc_ms clock; swept = expire_leases now locked in
          if no_slot swept then (Inl err_empty, swept)
          else case claim_next now worker handlers timeout token swept of
            Inl e \<Rightarrow> (Inl e, db)
          | Inr None \<Rightarrow> (Inl err_empty, swept)
          | Inr (Some (c, db')) \<Rightarrow> (Inr c, db'))"

section \<open>Completion\<close>

fun double_delay :: "nat \<Rightarrow> int \<Rightarrow> int" where
  "double_delay 0 delay = delay"
| "double_delay (Suc n) delay = (if delay < hour then double_delay n (mul64 delay 2) else delay)"

definition retry_delay :: "int \<Rightarrow> int \<Rightarrow> int" where
  "retry_delay backoff_ms attempt =
     (let delay = from_ms backoff_ms;
          delay = (if delay \<le> 0 then second else delay);
          delay = double_delay (nat (attempt - 1)) delay
      in if delay > hour then hour else delay)"

definition holds_lease :: "job_claim \<Rightarrow> job_run \<Rightarrow> bool" where
  "holds_lease c r \<longleftrightarrow> ru_id r = vw_id (cl_run c) \<and> ru_token r = cl_token c \<and> ru_worker r = cl_worker c \<and> active_state (ru_state r)"

definition lease_over :: "gotime \<Rightarrow> job_run \<Rightarrow> bool" where
  "lease_over now r \<longleftrightarrow> (case ru_expires r of None \<Rightarrow> True | Some t \<Rightarrow> \<not> now < t)"

text \<open>What the store makes of a reported outcome.\<close>

definition settled_state :: "gotime \<Rightarrow> job_run \<Rightarrow> job_state \<Rightarrow> job_state" where
  "settled_state now r state =
     (let state = (if lease_over now r then Unknown else state);
          state = (if ru_state r = CancelRequested then (if state = Succeeded \<or> state = Canceled then state else Unknown)
                   else if state = Canceled then Unknown else state)
      in if state = RetryWait \<and> ru_attempts r \<ge> ru_max_attempts r then Failed else state)"

definition settle_run :: "gotime \<Rightarrow> job_state \<Rightarrow> job_run \<Rightarrow> job_run" where
  "settle_run now state r =
     (if state = RetryWait
      then r\<lparr>ru_state := RetryWait, ru_not_before := now + retry_delay (ru_backoff_ms r) (ru_attempts r),
             ru_finished := None, ru_token := [], ru_worker := [], ru_expires := None\<rparr>
      else r\<lparr>ru_state := state, ru_finished := Some now\<rparr>)"

definition reportable :: "job_state \<Rightarrow> bool" where
  "reportable s \<longleftrightarrow> s = Succeeded \<or> s = Failed \<or> s = Unknown \<or> s = Yielded \<or> s = RetryWait \<or> s = Canceled"

definition finish_job :: "gotime \<Rightarrow> job_claim \<Rightarrow> job_state \<Rightarrow> job_db \<Rightarrow> unit result \<times> job_db" where
  "finish_job clock c reported db =
     (if \<not> reportable reported then (Inl err_invalid, db)
      else case lock_budget db of
        Inl e \<Rightarrow> (Inl e, db)
      | Inr locked \<Rightarrow>
          let now = trunc_ms clock in
          case List.find (holds_lease c) (jb_runs locked) of
            None \<Rightarrow> (Inl err_lease_lost, db)
          | Some r \<Rightarrow>
              let state = settled_state now r reported;
                  db = update_runs (\<lambda>x. ru_id x = ru_id r) (settle_run now state) locked;
                  db = (if ru_schedule r = [] then db
                        else update_schedules (\<lambda>s. sd_id s = ru_schedule r \<and> sd_run s = ru_id r)
                          (\<lambda>s. s\<lparr>sd_state := Some state, sd_last_state := Some state, sd_last_finished := Some now,
                             sd_failures := (if state = Failed \<or> state = Unknown then Suc (sd_failures s) else sd_failures s)\<rparr>) db);
                  db = update_attempts (\<lambda>a. ja_token a = cl_token c) (\<lambda>a. a\<lparr>ja_state := state, ja_finished := Some now\<rparr>) db
              in (if lease_over now r then Inl err_lease_lost else Inr (), db))"
end
