(* ===== verification/JobControl.thy ===== *)
theory JobControl
  imports JobQueue
begin

text \<open>
  What operators and the host do to runs of the job queue (\<^verbatim>\<open>jobstore/cancellation.go\<close>, \<^verbatim>\<open>history.go\<close>, \<^verbatim>\<open>review.go\<close>,
  \<^verbatim>\<open>import.go\<close>, \<^verbatim>\<open>resource_fence.go\<close>, \<^verbatim>\<open>queue.go\<close>, \<^verbatim>\<open>retention.go\<close> and their services in \<^verbatim>\<open>capabilities/jobs\<close>): reading,
  cancellation, the verified outcome of an uncertain run, the import of an old intent and the pruning of old runs.
\<close>

section \<open>Reading\<close>

definition newest_first :: "job_run list \<Rightarrow> job_run list" where
  "newest_first rows = rev (sort_key ru_created (sort_key ru_id rows))"

definition page :: "int \<Rightarrow> int \<Rightarrow> 'a list \<Rightarrow> 'a list" where
  "page lim offset xs = take (nat lim) (drop (nat offset) xs)"

definition list_runs :: "job_db \<Rightarrow> string \<Rightarrow> int \<Rightarrow> int \<Rightarrow> job_view list result" where
  "list_runs db owner lim offset =
     (if owner = [] \<or> lim < 1 \<or> lim > 100 \<or> offset < 0 then Inl err_invalid
      else Inr (map run_view (page lim offset (newest_first (filter (\<lambda>r. ru_owner r = owner) (jb_runs db))))))"

definition job_history :: "job_db \<Rightarrow> int \<Rightarrow> int \<Rightarrow> (job_view list \<times> nat) result" where
  "job_history db lim offset =
     (if lim < 1 \<or> lim > 50 \<or> offset < 0 \<or> offset > 1000000 then Inl err_invalid
      else Inr (map run_view (page lim offset (newest_first (jb_runs db))), length (jb_runs db)))"

definition job_attempts :: "job_db \<Rightarrow> string \<Rightarrow> int \<Rightarrow> int \<Rightarrow> (job_attempt list \<times> nat) result" where
  "job_attempts db run lim offset =
     (if run = [] \<or> lim < 1 \<or> lim > 50 \<or> offset < 0 then Inl err_invalid
      else let rows = filter (\<lambda>a. ja_run a = run) (jb_attempts db) in
        Inr (page lim offset (rev (sort_key ja_number rows)), length rows))"

definition has_unresolved_resource :: "job_db \<Rightarrow> string \<Rightarrow> bool" where
  "has_unresolved_resource db resource \<longleftrightarrow> count_runs (\<lambda>r. ru_resource r = resource
     \<and> (pending_state (ru_state r) \<or> active_state (ru_state r) \<or> ru_state r = Unknown)) db \<noteq> 0"

definition resource_fence_pending :: "(string \<Rightarrow> bool result) option \<Rightarrow> string \<Rightarrow> bool result" where
  "resource_fence_pending repository resource =
     (case repository of None \<Rightarrow> Inl err_invalid | Some unresolved \<Rightarrow> if resource = [] then Inl err_invalid else unresolved resource)"

definition history_page :: "(int \<Rightarrow> int \<Rightarrow> 'a result) option \<Rightarrow> int \<Rightarrow> int \<Rightarrow> 'a result" where
  "history_page repository lim offset =
     (case repository of None \<Rightarrow> Inl err_invalid
      | Some read \<Rightarrow> if lim < 1 \<or> lim > 50 \<or> offset < 0 \<or> offset > 1000000 then Inl err_invalid else read lim offset)"

definition history_attempts :: "(string \<Rightarrow> int \<Rightarrow> int \<Rightarrow> 'a result) option \<Rightarrow> string \<Rightarrow> int \<Rightarrow> int \<Rightarrow> 'a result" where
  "history_attempts repository run lim offset =
     (case repository of None \<Rightarrow> Inl err_invalid
      | Some read \<Rightarrow> if run = [] \<or> length run > 36 \<or> lim < 1 \<or> lim > 50 \<or> offset < 0 \<or> offset > 1000000 then Inl err_invalid else read run lim offset)"

definition submissions_submit :: "(submission \<Rightarrow> 'a result) option \<Rightarrow> submission \<Rightarrow> 'a result" where
  "submissions_submit repository su = (case repository of None \<Rightarrow> Inl err_invalid | Some submit \<Rightarrow> submit su)"

record queue_report =
  qs_pending_limit :: nat
  qs_plugin_limit :: nat
  qs_plugin_owner_limit :: nat
  qs_pending :: nat
  qs_running :: nat
  qs_delayed :: nat
  qs_unknown :: nat
  qs_reserved :: bool

definition queue_status :: "gotime \<Rightarrow> job_db \<Rightarrow> queue_report" where
  "queue_status clock db = (let now = trunc_ms clock in
     \<lparr>qs_pending_limit = max_pending, qs_plugin_limit = max_plugin_pending, qs_plugin_owner_limit = max_plugin_owner_pending,
      qs_pending = count_runs (\<lambda>r. pending_state (ru_state r) \<and> ru_not_before r \<le> now) db,
      qs_running = count_runs (\<lambda>r. active_state (ru_state r) \<and> (case ru_expires r of None \<Rightarrow> False | Some t \<Rightarrow> now < t)) db,
      qs_delayed = count_runs (\<lambda>r. pending_state (ru_state r) \<and> now < ru_not_before r) db,
      qs_unknown = count_runs (\<lambda>r. ru_state r = Unknown \<or> expired now r) db,
      qs_reserved = has_unresolved_resource db maintenance_resource\<rparr>)"

section \<open>Cancellation\<close>

definition update_canceled_schedule :: "job_run \<Rightarrow> job_state \<Rightarrow> gotime \<Rightarrow> job_db \<Rightarrow> job_db" where
  "update_canceled_schedule r state now db =
     (if ru_schedule r = [] then db
      else update_schedules (\<lambda>s. sd_id s = ru_schedule r \<and> sd_run s = ru_id r)
        (\<lambda>s. if state = Canceled then s\<lparr>sd_state := Some state, sd_last_state := Some state, sd_last_finished := Some now\<rparr>
             else s\<lparr>sd_state := Some state\<rparr>) db)"

definition audit_job :: "nat \<Rightarrow> string \<Rightarrow> string \<Rightarrow> job_db \<Rightarrow> job_db" where
  "audit_job actor action run db = db\<lparr>jb_audits := jb_audits db @ [(actor, action, ''job:'' @ run)]\<rparr>"

text \<open>A pending run ends at once; a running one keeps its lease and is asked to stop.\<close>

definition cancel_row :: "(job_state \<Rightarrow> bool) \<Rightarrow> gotime \<Rightarrow> job_run \<Rightarrow> job_db \<Rightarrow> job_db" where
  "cancel_row attempt_states now r db =
     (if pending_state (ru_state r)
      then update_canceled_schedule r Canceled now
        (update_runs (\<lambda>x. ru_id x = ru_id r \<and> ru_state x = ru_state r) (\<lambda>x. x\<lparr>ru_state := Canceled, ru_finished := Some now\<rparr>) db)
      else update_canceled_schedule r CancelRequested now
        (update_runs (\<lambda>x. ru_id x = ru_id r \<and> ru_state x = ru_state r) (\<lambda>x. x\<lparr>ru_state := CancelRequested\<rparr>)
          (if ru_token r = [] then db
           else update_attempts (\<lambda>a. ja_token a = ru_token r \<and> attempt_states (ja_state a)) (\<lambda>a. a\<lparr>ja_state := CancelRequested\<rparr>) db)))"

definition record_cancellation :: "gotime \<Rightarrow> nat \<Rightarrow> string \<Rightarrow> string \<Rightarrow> job_db \<Rightarrow> (job_state \<times> job_db) result" where
  "record_cancellation clock actor run reason db =
     (if actor = 0 \<or> run = [] \<or> trim_space reason = [] then Inl err_invalid
      else try_bind (lock_budget db) (\<lambda>db.
        if actor \<notin> set (jb_admins db) then Inl ErrPermission
        else case List.find (\<lambda>r. ru_id r = run) (jb_runs db) of
          None \<Rightarrow> Inl err_conflict
        | Some r \<Rightarrow>
            if ru_state r = CancelRequested then Inr (CancelRequested, db)
            else if \<not> pending_state (ru_state r) \<and> ru_state r \<noteq> Running then Inl err_conflict
            else Inr (if pending_state (ru_state r) then Canceled else CancelRequested,
              audit_job actor ''job.cancel'' run (cancel_row (\<lambda>s. s = Running) (trunc_ms clock) r db))))"

definition cancel_handler :: "gotime \<Rightarrow> string \<Rightarrow> job_db \<Rightarrow> job_db result" where
  "cancel_handler clock handler db =
     try_bind (lock_budget db) (\<lambda>db.
       Inr (fold (cancel_row active_state (trunc_ms clock))
         (filter (\<lambda>r. ru_handler r = handler \<and> (pending_state (ru_state r) \<or> active_state (ru_state r))) (jb_runs db)) db))"

definition cancellation_requested :: "job_db \<Rightarrow> job_claim \<Rightarrow> bool result" where
  "cancellation_requested db c =
     (if vw_id (cl_run c) = [] \<or> cl_token c = [] \<or> cl_worker c = [] then Inl err_invalid
      else Inr (count_runs (\<lambda>r. holds_lease c r \<and> ru_state r = CancelRequested) db = 1))"

text \<open>The services in front of cancellation and review.\<close>

definition reason_bad :: "string \<Rightarrow> bool" where
  "reason_bad reason \<longleftrightarrow> reason = [] \<or> \<not> utf8_valid reason \<or> rune_count reason > 500"

definition cancellation_service :: "(nat \<Rightarrow> string \<Rightarrow> string \<Rightarrow> (job_state \<times> 'db) result) option \<Rightarrow> nat \<Rightarrow> string \<Rightarrow> string \<Rightarrow> (job_state \<times> 'db) result" where
  "cancellation_service repository actor run reason =
     (let reason = trim_space reason in
      if actor = 0 then Inl ErrPermission
      else case repository of
        None \<Rightarrow> Inl err_invalid
      | Some record \<Rightarrow> if run = [] \<or> length run > 36 \<or> reason_bad reason then Inl err_invalid else record actor run reason)"

definition review_service :: "(nat \<Rightarrow> string \<Rightarrow> job_state \<Rightarrow> string \<Rightarrow> 'a result) \<Rightarrow> nat \<Rightarrow> string \<Rightarrow> job_state \<Rightarrow> string \<Rightarrow> 'a result" where
  "review_service record actor run outcome reason =
     (if actor = 0 then Inl ErrPermission
      else let reason = trim_space reason in
        if run = [] \<or> length run > 36 \<or> reason_bad reason \<or> (outcome \<noteq> Succeeded \<and> outcome \<noteq> Failed) then Inl err_invalid
        else record actor run outcome reason)"

section \<open>Verified outcomes and imports\<close>

definition resolve_job :: "gotime \<Rightarrow> string \<Rightarrow> job_state \<Rightarrow> job_db \<Rightarrow> job_db result" where
  "resolve_job clock run state db =
     (if state \<noteq> Succeeded \<and> state \<noteq> Failed then Inl err_invalid
      else try_bind (lock_budget db) (\<lambda>db.
        if count_runs (\<lambda>r. ru_id r = run \<and> ru_state r = Unknown) db \<noteq> 1 then Inl err_conflict
        else Inr (update_runs (\<lambda>r. ru_id r = run \<and> ru_state r = Unknown)
          (\<lambda>r. r\<lparr>ru_state := state, ru_finished := Some (trunc_ms clock)\<rparr>) db)))"

definition record_verified_outcome :: "gotime \<Rightarrow> nat \<Rightarrow> string \<Rightarrow> job_state \<Rightarrow> string \<Rightarrow> job_db \<Rightarrow> job_db result" where
  "record_verified_outcome clock actor run outcome reason db =
     (if actor \<notin> set (jb_admins db) then Inl ErrPermission
      else try_bind (resolve_job clock run outcome db) (\<lambda>db. Inr (audit_job actor ''job.resolve'' run db)))"

definition import_unknown :: "job_env \<Rightarrow> gotime \<Rightarrow> string \<Rightarrow> submission \<Rightarrow> gotime \<Rightarrow> job_db \<Rightarrow> (string \<times> bool \<times> job_db) result" where
  "import_unknown je clock fresh su created db =
     try_bind (lock_budget db) (\<lambda>db.
     case List.find (same_intent (su_owner su) (su_key su)) (jb_runs db) of
       Some r \<Rightarrow> Inr (ru_id r, False, db)
     | None \<Rightarrow>
         try_bind (submit_job je clock fresh su db) (\<lambda>(v, db).
         Inr (vw_id v, True, update_runs (\<lambda>r. ru_id r = vw_id v)
           (\<lambda>r. r\<lparr>ru_state := Unknown, ru_created := (if is_zero created then ru_created r else trunc_ms created)\<rparr>) db)))"

section \<open>Pruning of old scheduled runs\<close>

definition prune_batch :: nat where "prune_batch = 1000"

definition periodic_candidate :: "job_db \<Rightarrow> gotime \<Rightarrow> job_state \<Rightarrow> job_run \<Rightarrow> bool" where
  "periodic_candidate db before state r \<longleftrightarrow>
     ru_schedule r \<noteq> [] \<and> (case ru_finished r of None \<Rightarrow> False | Some t \<Rightarrow> t < before) \<and> ru_state r = state
     \<and> ru_id r \<notin> set (filter (\<lambda>x. x \<noteq> []) (map sd_run (jb_schedules db)))
     \<and> ru_id r \<notin> set (filter (\<lambda>x. x \<noteq> []) (map sd_compact_run (jb_schedules db)))"

definition prune_probe :: "job_db \<Rightarrow> gotime \<Rightarrow> job_state \<Rightarrow> nat \<Rightarrow> string list" where
  "prune_probe db before state lim =
     take lim (map ru_id (sort_key (\<lambda>r. case ru_finished r of None \<Rightarrow> 0 | Some t \<Rightarrow> t)
       (sort_key ru_id (filter (periodic_candidate db before state) (jb_runs db)))))"

definition prune_candidates :: "gotime \<Rightarrow> job_state \<Rightarrow> string list \<Rightarrow> job_db \<Rightarrow> nat \<times> job_db" where
  "prune_candidates before state candidates db =
     (let ids = map ru_id (sort_key ru_id (filter (\<lambda>r. periodic_candidate db before state r \<and> ru_id r \<in> set candidates) (jb_runs db)));
          tokens = take prune_batch (map ja_token (sort_key ja_run (sort_key ja_number (filter (\<lambda>a. ja_run a \<in> set ids) (jb_attempts db)))));
          attempts = filter (\<lambda>a. ja_token a \<notin> set tokens) (jb_attempts db);
          gone = (\<lambda>r. ru_id r \<in> set ids \<and> ru_id r \<notin> set (map ja_run attempts))
      in (count_runs gone db, db\<lparr>jb_attempts := attempts, jb_runs := filter (\<lambda>r. \<not> gone r) (jb_runs db)\<rparr>))"

fun prune_periodic_states :: "gotime \<Rightarrow> job_state list \<Rightarrow> nat \<Rightarrow> job_db \<Rightarrow> nat \<times> job_db" where
  "prune_periodic_states before [] deleted db = (deleted, db)"
| "prune_periodic_states before (s # states) deleted db =
     (if deleted \<ge> prune_batch then (deleted, db)
      else let candidates = prune_probe db before s (prune_batch - deleted) in
        if candidates = [] then prune_periodic_states before states deleted db
        else let (n, db) = prune_candidates before s candidates db in prune_periodic_states before states (deleted + n) db)"

definition outcome_states :: "bool \<Rightarrow> job_state list" where
  "outcome_states successful = (if successful then [Succeeded, Yielded] else [Failed, Canceled])"

definition prune_periodic_outcome :: "gotime \<Rightarrow> bool \<Rightarrow> job_db \<Rightarrow> nat \<times> job_db" where
  "prune_periodic_outcome before successful db = prune_periodic_states before (outcome_states successful) 0 db"

definition prune_periodic :: "gotime \<Rightarrow> job_db \<Rightarrow> nat \<times> job_db" where
  "prune_periodic before db = prune_periodic_states before [Succeeded, Yielded, Failed, Canceled] 0 db"

definition has_prunable_periodic :: "gotime \<Rightarrow> bool \<Rightarrow> job_db \<Rightarrow> bool" where
  "has_prunable_periodic before successful db \<longleftrightarrow> (\<exists>s \<in> set (outcome_states successful). prune_probe db before s 1 \<noteq> [])"

end
