(* ===== verification/JobSchedules.thy ===== *)
theory JobSchedules
  imports JobControl
begin

text \<open>
  Periodic plans (\<^verbatim>\<open>jobs/scheduling.go\<close>, \<^verbatim>\<open>jobstore/schedules.go\<close>, \<^verbatim>\<open>compact.go\<close>): a definition is reconciled with
  its stored plan, and a due plan writes one run for one planned slot. The next slot advances from the planned time,
  never from the time of completion.
\<close>

section \<open>Definitions and slots\<close>

record job_definition =
  jd_id :: string
  jd_owner :: string
  jd_name :: string
  jd_handler :: string
  jd_group :: string
  jd_resource :: string
  jd_revision :: string
  jd_interval :: int
  jd_timeout :: int
  jd_max_attempts :: int
  jd_backoff :: int
  jd_immediate :: bool
  jd_zone :: string
  jd_misfire :: string
  jd_first :: gotime
  jd_lane :: string
  jd_reconcile :: bool
  jd_suppress :: bool
  jd_compact :: bool

definition fire_once :: string where "fire_once = ''fire_once''"
definition fire_skip :: string where "fire_skip = ''skip''"

definition definition_defaults :: "job_definition \<Rightarrow> job_definition" where
  "definition_defaults d =
     (let d = (if jd_max_attempts d = 0 then d\<lparr>jd_max_attempts := 1\<rparr> else d);
          d = (if jd_max_attempts d > 1 \<and> jd_backoff d = 0 then d\<lparr>jd_backoff := second\<rparr> else d);
          d = (if jd_zone d = [] then d\<lparr>jd_zone := ''UTC''\<rparr> else d);
          d = (if jd_misfire d = [] then d\<lparr>jd_misfire := fire_once\<rparr> else d);
          d = d\<lparr>jd_lane := normalized_dispatch_lane (jd_owner d) (jd_group d) (jd_lane d)\<rparr>
      in if is_zero (jd_first d) then d else d\<lparr>jd_first := trunc_ms (jd_first d)\<rparr>)"

definition definition_bad :: "(string \<Rightarrow> bool) \<Rightarrow> job_definition \<Rightarrow> bool" where
  "definition_bad zone_known d \<longleftrightarrow> \<not> zone_known (jd_zone d)
     \<or> jd_id d = [] \<or> length (jd_id d) > 320 \<or> jd_owner d = [] \<or> jd_handler d = [] \<or> jd_interval d < millisecond
     \<or> jd_timeout d < millisecond \<or> jd_timeout d > hour \<or> jd_max_attempts d < 1 \<or> jd_max_attempts d > 10
     \<or> jd_backoff d < 0 \<or> jd_backoff d > hour \<or> rem (jd_backoff d) millisecond \<noteq> 0 \<or> (jd_max_attempts d = 1 \<and> jd_backoff d \<noteq> 0)
     \<or> length (jd_name d) > 160 \<or> length (jd_revision d) > 160 \<or> length (jd_zone d) > 64 \<or> length (jd_lane d) > 200
     \<or> (jd_misfire d \<noteq> fire_once \<and> jd_misfire d \<noteq> fire_skip)"

definition time_pointer :: "gotime \<Rightarrow> gotime option" where "time_pointer t = (if is_zero t then None else Some t)"

definition same_time :: "gotime option \<Rightarrow> gotime \<Rightarrow> bool" where
  "same_time v expected = (if is_zero expected then (case v of None \<Rightarrow> True | Some t \<Rightarrow> is_zero t) else v = Some expected)"

definition schedule_definition_matches :: "job_schedule \<Rightarrow> job_definition \<Rightarrow> bool" where
  "schedule_definition_matches s d \<longleftrightarrow>
     sd_compact s = jd_compact d \<and> sd_owner s = jd_owner d \<and> sd_name s = jd_name d \<and> sd_handler s = jd_handler d \<and> sd_resource s = jd_resource d
     \<and> sd_group s = jd_group d \<and> sd_revision s = jd_revision d \<and> sd_interval_ms s = to_ms (jd_interval d) \<and> sd_timeout_ms s = to_ms (jd_timeout d)
     \<and> sd_max_attempts s = jd_max_attempts d \<and> sd_backoff_ms s = to_ms (jd_backoff d) \<and> sd_zone s = jd_zone d \<and> sd_misfire s = jd_misfire d
     \<and> sd_lane s = jd_lane d \<and> same_time (sd_anchor s) (jd_first d)"

definition first_planned_at :: "job_definition \<Rightarrow> gotime \<Rightarrow> gotime" where
  "first_planned_at d now = (if \<not> is_zero (jd_first d) then jd_first d else if jd_immediate d then now else now + jd_interval d)"

text \<open>The planned slot, the next one, the slots passed over, and whether to run at all.\<close>

definition resolve_due_slot :: "gotime \<Rightarrow> gotime \<Rightarrow> int \<Rightarrow> string \<Rightarrow> gotime \<times> gotime \<times> nat \<times> bool" where
  "resolve_due_slot planned now interval policy =
     (let steps = quo (time_sub now planned) interval + 1;
          upcoming = planned + mul64 (wrap64 steps) interval
      in if policy = fire_skip \<and> steps > 1 then (0, upcoming, nat steps, False)
         else (planned + mul64 (wrap64 (steps - 1)) interval, upcoming, nat (steps - 1), True))"

section \<open>Reconciling a plan\<close>

definition new_schedule :: "job_definition \<Rightarrow> gotime \<Rightarrow> job_schedule" where
  "new_schedule d now = \<lparr>sd_id = jd_id d, sd_owner = jd_owner d, sd_name = jd_name d, sd_handler = jd_handler d, sd_resource = jd_resource d,
     sd_group = jd_group d, sd_revision = jd_revision d, sd_interval_ms = to_ms (jd_interval d), sd_timeout_ms = to_ms (jd_timeout d),
     sd_max_attempts = jd_max_attempts d, sd_backoff_ms = to_ms (jd_backoff d), sd_zone = jd_zone d, sd_misfire = jd_misfire d, sd_lane = jd_lane d,
     sd_anchor = time_pointer (jd_first d), sd_compact = False, sd_compact_run = [], sd_next = first_planned_at d now, sd_sequence = 0, sd_run = [],
     sd_runs = 0, sd_failures = 0, sd_missed = 0, sd_state = None, sd_last_state = None, sd_last_started = None, sd_last_finished = None\<rparr>"

record schedule_dispatch =
  dp_next :: gotime
  dp_runnable :: bool

definition open_run :: "job_definition \<Rightarrow> job_state \<Rightarrow> bool" where
  "open_run d s \<longleftrightarrow> pending_state s \<or> active_state s \<or> s = Unknown \<and> \<not> jd_reconcile d"

definition dispatch_of :: "job_definition \<Rightarrow> gotime \<Rightarrow> gotime \<Rightarrow> job_run \<Rightarrow> schedule_dispatch" where
  "dispatch_of d upcoming now r = \<lparr>dp_next = upcoming, dp_runnable = (\<not> jd_suppress d \<and> \<not> now < ru_not_before r \<and> pending_state (ru_state r))\<rparr>"

text \<open>The read before the transaction: a plan with nothing to do is left alone.\<close>

definition schedule_idle :: "job_definition \<Rightarrow> gotime \<Rightarrow> job_db \<Rightarrow> schedule_dispatch option result" where
  "schedule_idle d clock db =
     (case List.find (\<lambda>s. sd_id s = jd_id d) (jb_schedules db) of
        None \<Rightarrow> Inr None
      | Some s \<Rightarrow>
          if \<not> schedule_definition_matches s d then Inr None
          else if sd_run s = [] then Inr (if jd_suppress d \<or> clock < sd_next s then Some \<lparr>dp_next = sd_next s, dp_runnable = False\<rparr> else None)
          else (case List.find (\<lambda>r. ru_id r = sd_run s) (jb_runs db) of
                  None \<Rightarrow> Inl err_not_found
                | Some r \<Rightarrow> Inr (if open_run d (ru_state r) then Some (dispatch_of d (sd_next s) clock r) else None)))"

definition put_schedule :: "job_schedule \<Rightarrow> job_db \<Rightarrow> job_db" where
  "put_schedule s db = update_schedules (\<lambda>x. sd_id x = sd_id s) (\<lambda>_. s) db"

text \<open>The outcome of the last run is taken over into the plan; a run that yielded is continued soon.\<close>

definition adopt_outcome :: "gotime \<Rightarrow> job_run \<Rightarrow> job_schedule \<Rightarrow> job_schedule" where
  "adopt_outcome now r s =
     (let s = s\<lparr>sd_state := Some (ru_state r), sd_last_state := Some (ru_state r), sd_last_finished := ru_finished r, sd_run := []\<rparr> in
      if ru_state r = Yielded \<and> now + 100000000 < sd_next s then s\<lparr>sd_next := now + 100000000\<rparr> else s)"

definition apply_definition :: "job_definition \<Rightarrow> gotime \<Rightarrow> job_schedule \<Rightarrow> job_schedule" where
  "apply_definition d now s =
     (let s = (if schedule_definition_matches s d then s
               else s\<lparr>sd_compact_run := [], sd_revision := jd_revision d, sd_next := first_planned_at d now\<rparr>)
      in s\<lparr>sd_compact := jd_compact d, sd_name := jd_name d, sd_handler := jd_handler d, sd_resource := jd_resource d, sd_group := jd_group d,
        sd_interval_ms := to_ms (jd_interval d), sd_timeout_ms := to_ms (jd_timeout d), sd_max_attempts := jd_max_attempts d,
        sd_backoff_ms := to_ms (jd_backoff d), sd_zone := jd_zone d, sd_misfire := jd_misfire d, sd_lane := jd_lane d,
        sd_anchor := time_pointer (jd_first d)\<rparr>)"

text \<open>A clean success of a core plan is reused: its row and its lease give way to the next run.\<close>

definition reusable_run :: "job_schedule \<Rightarrow> job_run \<Rightarrow> bool" where
  "reusable_run s old \<longleftrightarrow> ru_schedule old = sd_id s \<and> ru_owner old = sd_owner s \<and> ru_handler old = sd_handler s \<and> ru_attempts old = 1
     \<and> ru_finished old \<noteq> None \<and> (ru_state old = Succeeded \<or> ru_state old = Yielded)"

definition reusable_attempt :: "job_run \<Rightarrow> job_attempt \<Rightarrow> bool" where
  "reusable_attempt old a \<longleftrightarrow> ja_token a = ru_token old \<and> ja_state a = ru_state old \<and> ja_finished a \<noteq> None"

definition slot_taken :: "job_run \<Rightarrow> job_db \<Rightarrow> bool" where
  "slot_taken r db \<longleftrightarrow> (\<exists>x \<in> set (jb_runs db). ru_id x \<noteq> ru_id r
     \<and> (ru_owner x = ru_owner r \<and> ru_key x = ru_key r \<or> ru_planned r \<noteq> None \<and> ru_schedule x = ru_schedule r \<and> ru_planned x = ru_planned r))"

definition reuse_periodic_success :: "job_schedule \<Rightarrow> job_run \<Rightarrow> job_db \<Rightarrow> (job_run \<times> job_db) option result" where
  "reuse_periodic_success s r db =
     (if \<not> sd_compact s \<or> sd_compact_run s = [] then Inr None
      else case List.find (\<lambda>x. ru_id x = sd_compact_run s) (jb_runs db) of
        None \<Rightarrow> Inr None
      | Some old \<Rightarrow>
          if \<not> reusable_run s old then Inr None
          else case List.find (\<lambda>a. ja_run a = ru_id old \<and> ja_number a = 1) (jb_attempts db) of
            None \<Rightarrow> Inr None
          | Some a \<Rightarrow>
              if \<not> reusable_attempt old a then Inr None
              else try_bind (check_pending_admission db (ru_owner r) (ru_resource r)) (\<lambda>_.
                let r = r\<lparr>ru_id := ru_id old\<rparr>; db = db\<lparr>jb_attempts := filter (\<lambda>x. ja_token x \<noteq> ja_token a) (jb_attempts db)\<rparr> in
                if slot_taken r db then Inl (ErrNamed ''ErrDuplicatedKey'')
                else Inr (Some (r, update_runs (\<lambda>x. ru_id x = ru_id old) (\<lambda>_. r) db))))"

text \<open>The SHA-256 of the plan's identifier with the planned time, and the JSON text of a revision.\<close>

record schedule_env =
  se_job :: job_env
  se_key :: "string \<Rightarrow> gotime \<Rightarrow> string"
  se_payload :: "string \<Rightarrow> string"
  se_zone :: "string \<Rightarrow> bool"

definition slot_submission :: "schedule_env \<Rightarrow> job_definition \<Rightarrow> gotime \<Rightarrow> submission" where
  "slot_submission se d planned = \<lparr>su_timeout = jd_timeout d, su_max_attempts = jd_max_attempts d, su_backoff = jd_backoff d, su_owner = jd_owner d,
     su_key = se_key se (jd_id d) planned, su_handler = jd_handler d, su_resource = jd_resource d, su_group = jd_group d,
     su_payload = se_payload se (jd_revision d), su_not_before = 0, su_lane = jd_lane d\<rparr>"

definition dispatch_slot :: "schedule_env \<Rightarrow> job_definition \<Rightarrow> gotime \<Rightarrow> string \<Rightarrow> gotime \<Rightarrow> job_schedule \<Rightarrow> job_db \<Rightarrow> (job_schedule \<times> job_db) result" where
  "dispatch_slot se d clock fresh planned s db =
     try_bind (prepare_submission (se_job se) clock fresh (slot_submission se d planned)) (\<lambda>r.
     let r = r\<lparr>ru_schedule := jd_id d, ru_planned := Some planned\<rparr> in
     try_bind (reuse_periodic_success s r db) (\<lambda>reused.
     try_bind (case reused of Some x \<Rightarrow> Inr x | None \<Rightarrow> insert_submission r db) (\<lambda>(r, db).
       Inr (s\<lparr>sd_run := ru_id r, sd_compact_run := (if jd_compact d then ru_id r else sd_compact_run s), sd_state := Some Queued\<rparr>, db))))"

definition plan_due :: "schedule_env \<Rightarrow> job_definition \<Rightarrow> gotime \<Rightarrow> gotime \<Rightarrow> string \<Rightarrow> job_schedule \<Rightarrow> job_db \<Rightarrow> (schedule_dispatch \<times> job_db) result" where
  "plan_due se d now clock fresh s db =
     (let s = apply_definition d now s in
      if now < sd_next s \<or> jd_suppress d
      then Inr (\<lparr>dp_next = sd_next s, dp_runnable = (sd_run s \<noteq> [] \<and> sd_state s = Some Queued \<and> \<not> jd_suppress d)\<rparr>, put_schedule s db)
      else let (planned, upcoming, missed, dispatch) = resolve_due_slot (sd_next s) now (jd_interval d) (jd_misfire d);
               s = s\<lparr>sd_next := upcoming, sd_missed := sd_missed s + missed\<rparr>
      in if \<not> dispatch then Inr (\<lparr>dp_next = sd_next s, dp_runnable = False\<rparr>, put_schedule s db)
         else try_bind (dispatch_slot se d clock fresh planned (s\<lparr>sd_sequence := Suc (sd_sequence s)\<rparr>) db) (\<lambda>(s, db).
           Inr (\<lparr>dp_next = sd_next s, dp_runnable = (sd_run s \<noteq> [])\<rparr>, put_schedule s db)))"

text \<open>A lost run of a reconciler is interrupted, its attempt keeps the unknown outcome.\<close>

definition interrupt_lost :: "job_definition \<Rightarrow> job_run \<Rightarrow> job_db \<Rightarrow> job_run \<times> job_db" where
  "interrupt_lost d r db =
     (if ru_state r = Unknown \<and> jd_reconcile d
      then (r\<lparr>ru_state := Interrupted\<rparr>, update_runs (\<lambda>x. ru_id x = ru_id r \<and> ru_state x = Unknown) (\<lambda>x. x\<lparr>ru_state := Interrupted\<rparr>) db)
      else (r, db))"

definition stored_schedule :: "job_definition \<Rightarrow> gotime \<Rightarrow> job_db \<Rightarrow> job_schedule \<times> job_db" where
  "stored_schedule d now db =
     (case List.find (\<lambda>s. sd_id s = jd_id d) (jb_schedules db) of
        Some s \<Rightarrow> (s, db)
      | None \<Rightarrow> let s = new_schedule d now in (s, db\<lparr>jb_schedules := jb_schedules db @ [s]\<rparr>))"

definition schedule_step :: "schedule_env \<Rightarrow> job_definition \<Rightarrow> gotime \<Rightarrow> gotime \<Rightarrow> string \<Rightarrow> job_db \<Rightarrow> (schedule_dispatch \<times> job_db) result" where
  "schedule_step se d now clock fresh db =
     (let (s, db) = stored_schedule d now db in
      if sd_owner s \<noteq> jd_owner d then Inl err_conflict
      else if sd_run s = [] then plan_due se d now clock fresh s db
      else case List.find (\<lambda>r. ru_id r = sd_run s) (jb_runs db) of
        None \<Rightarrow> Inl err_not_found
      | Some r \<Rightarrow>
          let (r, db) = interrupt_lost d r db in
          if pending_state (ru_state r) \<or> active_state (ru_state r) \<or> ru_state r = Unknown
          then Inr (dispatch_of d (sd_next s) now r, db)
          else plan_due se d now clock fresh (adopt_outcome now r s) db)"

lemma schedule_step_cases:
  assumes "schedule_step se d now clock fresh db = Inr (out, db')"
  obtains (idle) s db0 where "stored_schedule d now db = (s, db0)" "sd_owner s = jd_owner d" "sd_run s = []"
      "plan_due se d now clock fresh s db0 = Inr (out, db')"
  | (busy) s db0 r r' where "stored_schedule d now db = (s, db0)" "sd_owner s = jd_owner d" "sd_run s \<noteq> []"
      "List.find (\<lambda>r. ru_id r = sd_run s) (jb_runs db0) = Some r" "interrupt_lost d r db0 = (r', db')" "out = dispatch_of d (sd_next s) now r'"
      "pending_state (ru_state r') \<or> active_state (ru_state r') \<or> ru_state r' = Unknown"
  | (over) s db0 r r' db1 where "stored_schedule d now db = (s, db0)" "sd_owner s = jd_owner d" "sd_run s \<noteq> []"
      "List.find (\<lambda>r. ru_id r = sd_run s) (jb_runs db0) = Some r" "interrupt_lost d r db0 = (r', db1)"
      "\<not> pending_state (ru_state r')" "\<not> active_state (ru_state r')" "ru_state r' \<noteq> Unknown"
      "plan_due se d now clock fresh (adopt_outcome now r' s) db1 = Inr (out, db')"
proof -
  obtain s db0 where st: "stored_schedule d now db = (s, db0)" by fastforce
  show ?thesis
  proof (cases "sd_run s = []")
    case True
    with assms st show ?thesis by (intro idle[OF st]) (auto simp: schedule_step_def split: if_splits)
  next
    case False
    with assms st obtain r where r: "List.find (\<lambda>r. ru_id r = sd_run s) (jb_runs db0) = Some r" "sd_owner s = jd_owner d"
      by (auto simp: schedule_step_def split: if_splits option.splits)
    obtain r' db1 where i: "interrupt_lost d r db0 = (r', db1)" by fastforce
    have e: "schedule_step se d now clock fresh db =
        (if pending_state (ru_state r') \<or> active_state (ru_state r') \<or> ru_state r' = Unknown then Inr (dispatch_of d (sd_next s) now r', db1)
         else plan_due se d now clock fresh (adopt_outcome now r' s) db1)"
      using False st r i by (simp add: schedule_step_def)
    show ?thesis
    proof (cases "pending_state (ru_state r') \<or> active_state (ru_state r') \<or> ru_state r' = Unknown")
      case True
      with e assms have "db1 = db'" "out = dispatch_of d (sd_next s) now r'" by simp_all
      with True st r i False show ?thesis by (intro busy) simp_all
    next
      case no: False
      with e assms have "plan_due se d now clock fresh (adopt_outcome now r' s) db1 = Inr (out, db')" by simp
      with no st r i False show ?thesis by (intro over) simp_all
    qed
  qed
qed

lemma dispatch_slot_cases:
  assumes "dispatch_slot se d clock fresh planned s db = Inr (s', db')"
  obtains r0 r where "prepare_submission (se_job se) clock fresh (slot_submission se d planned) = Inr r0"
    "reuse_periodic_success s (r0\<lparr>ru_schedule := jd_id d, ru_planned := Some planned\<rparr>) db = Inr (Some (r, db'))
     \<or> reuse_periodic_success s (r0\<lparr>ru_schedule := jd_id d, ru_planned := Some planned\<rparr>) db = Inr None
       \<and> insert_submission (r0\<lparr>ru_schedule := jd_id d, ru_planned := Some planned\<rparr>) db = Inr (r, db')"
    "s' = s\<lparr>sd_run := ru_id r, sd_compact_run := (if jd_compact d then ru_id r else sd_compact_run s), sd_state := Some Queued\<rparr>"
proof -
  from assms obtain r0 where p: "prepare_submission (se_job se) clock fresh (slot_submission se d planned) = Inr r0"
    by (auto simp: dispatch_slot_def)
  let ?r = "r0\<lparr>ru_schedule := jd_id d, ru_planned := Some planned\<rparr>"
  from assms p obtain reused where u: "reuse_periodic_success s ?r db = Inr reused" by (auto simp: dispatch_slot_def Let_def)
  from assms p u obtain r where "(case reused of Some x \<Rightarrow> Inr x | None \<Rightarrow> insert_submission ?r db) = Inr (r, db')"
    "s' = s\<lparr>sd_run := ru_id r, sd_compact_run := (if jd_compact d then ru_id r else sd_compact_run s), sd_state := Some Queued\<rparr>"
    by (auto simp: dispatch_slot_def Let_def)
  with p u show ?thesis by (intro that[of r0 r]) (auto split: option.splits)
qed

definition schedule_job :: "schedule_env \<Rightarrow> job_definition \<Rightarrow> gotime \<Rightarrow> gotime \<Rightarrow> gotime \<Rightarrow> string \<Rightarrow> job_db \<Rightarrow> (schedule_dispatch \<times> job_db) result" where
  "schedule_job se d probe clock submitted fresh db =
     (if jd_resource d = maintenance_resource \<or> (jd_compact d \<and> (jd_owner d \<noteq> ''system'' \<or> \<not> jd_reconcile d \<or> jd_group d \<noteq> [])) then Inl err_invalid
      else let d = definition_defaults d in
        if definition_bad (se_zone se) d then Inl err_invalid
        else try_bind (schedule_idle d probe db) (\<lambda>idle.
          case idle of
            Some out \<Rightarrow> Inr (out, db)
          | None \<Rightarrow> try_bind (lock_budget db) (\<lambda>db. schedule_step se d (trunc_ms clock) submitted fresh db)))"

end
