(* ===== verification/JobExecutor.thy ===== *)
theory JobExecutor
  imports JobSchedules
begin

text \<open>
  The executor of a claimed run (\<^verbatim>\<open>jobs/jobs.go\<close>), the registry of the host's handlers and its gates
  (\<^verbatim>\<open>jobs/runtime.go\<close>, \<^verbatim>\<open>requests.go\<close>): how the error a handler returns, a panic, or a canceled
  context becomes the state the run is finished with.
\<close>

section \<open>Error trees\<close>

text \<open>
  A Go error is a package variable or text, a wrapper with \<open>Unwrap() error\<close>, a join with \<open>Unwrap() []error\<close>, or the
  declaration \<open>Retryable\<close>, as a value or behind a pointer. An absent cause is \<open>nil\<close>.
\<close>

datatype job_error =
    Plain string
  | Wrapped "job_error option"
  | Joined "job_error option list"
  | Retryable "job_error option"
  | RetryablePointer "job_error option"

definition nil_or :: "(job_error \<Rightarrow> bool) \<Rightarrow> job_error option \<Rightarrow> bool" where
  "nil_or p e = (case e of None \<Rightarrow> False | Some x \<Rightarrow> p x)"

lemma nil_or_cong [fundef_cong]: "e = e' \<Longrightarrow> (\<And>x. x \<in> set_option e' \<Longrightarrow> p x = q x) \<Longrightarrow> nil_or p e = nil_or q e'"
  by (auto simp: nil_or_def split: option.splits)

text \<open>\<open>errors.Is(err, target)\<close> for the variable \<open>target\<close>, \<open>errors.As(err, &retryable)\<close>.\<close>

fun errors_is :: "string \<Rightarrow> job_error \<Rightarrow> bool" where
  "errors_is t (Plain n) \<longleftrightarrow> n = t"
| "errors_is t (Wrapped e) \<longleftrightarrow> nil_or (errors_is t) e"
| "errors_is t (Joined es) \<longleftrightarrow> (\<exists>e \<in> set es. nil_or (errors_is t) e)"
| "errors_is t (Retryable e) \<longleftrightarrow> nil_or (errors_is t) e"
| "errors_is t (RetryablePointer e) \<longleftrightarrow> nil_or (errors_is t) e"

fun errors_as_retryable :: "job_error \<Rightarrow> bool" where
  "errors_as_retryable (Plain n) \<longleftrightarrow> False"
| "errors_as_retryable (Wrapped e) \<longleftrightarrow> nil_or errors_as_retryable e"
| "errors_as_retryable (Joined es) \<longleftrightarrow> (\<exists>e \<in> set es. nil_or errors_as_retryable e)"
| "errors_as_retryable (Retryable e) \<longleftrightarrow> True"
| "errors_as_retryable (RetryablePointer e) \<longleftrightarrow> nil_or errors_as_retryable e"

text \<open>\<open>found\<close> stays false when a join has only \<open>nil\<close> children.\<close>

fun only_continuation_causes :: "job_error \<Rightarrow> bool" where
  "only_continuation_causes (Plain n) \<longleftrightarrow> n = ''ErrContinue''"
| "only_continuation_causes (Wrapped e) \<longleftrightarrow> nil_or only_continuation_causes e"
| "only_continuation_causes (Joined es) \<longleftrightarrow> (\<exists>e \<in> set es. e \<noteq> None) \<and> (\<forall>e \<in> set es. e = None \<or> nil_or only_continuation_causes e)"
| "only_continuation_causes (Retryable e) \<longleftrightarrow> False"
| "only_continuation_causes (RetryablePointer e) \<longleftrightarrow> False"

definition is_continuation :: "job_error option \<Rightarrow> bool" where
  "is_continuation err = (case err of None \<Rightarrow> False | Some e \<Rightarrow> \<not> errors_as_retryable e \<and> only_continuation_causes e)"

definition retry_error :: "job_error option \<Rightarrow> job_error" where
  "retry_error err = Retryable (Some (case err of None \<Rightarrow> Plain ''job execution may be retried'' | Some e \<Rightarrow> e))"

section \<open>The outcome of an execution\<close>

datatype handler_outcome = Panicked | Returned "job_error option"

definition is_err :: "string \<Rightarrow> job_error option \<Rightarrow> bool" where "is_err t err = nil_or (errors_is t) err"

text \<open>The state first chosen, and the error left, before the deferred part looks at the context.\<close>

definition chosen_state :: "handler_outcome \<Rightarrow> job_state \<times> job_error option" where
  "chosen_state out = (case out of
       Panicked \<Rightarrow> (Unknown, Some (Plain ''job handler panicked; result requires verification''))
     | Returned err \<Rightarrow>
         if nil_or errors_as_retryable err then (RetryWait, err)
         else if is_continuation err then (Yielded, None)
         else if err = None then (Succeeded, None)
         else (Failed, err))"

definition execution_state :: "handler_outcome \<Rightarrow> bool \<Rightarrow> job_state" where
  "execution_state out ended =
     (let (state, err) = chosen_state out in
      if is_err ''ErrCanceled'' err then Canceled
      else if ended \<or> is_err ''ErrUncertain'' err \<or> is_err ''context.DeadlineExceeded'' err \<or> is_err ''context.Canceled'' err then Unknown
      else state)"

text \<open>A handler missing from the map is a call of \<open>nil\<close>, which panics.\<close>

definition execute_claim :: "(string \<times> (job_view \<Rightarrow> handler_outcome) option) list \<Rightarrow> bool \<Rightarrow> job_view \<Rightarrow> job_state" where
  "execute_claim handlers ended v =
     (case map_of handlers (su_handler (vw_submission v)) of
        Some (Some h) \<Rightarrow> execution_state (h v) ended
      | _ \<Rightarrow> execution_state Panicked ended)"

text \<open>
  One turn of a worker: a claim, the handler, and the completion, which is recorded even when the caller is gone.
  The store has moved on by \<open>meanwhile\<close> while the handler ran.
\<close>

definition run_one :: "gotime \<Rightarrow> gotime \<Rightarrow> gotime \<Rightarrow> string \<Rightarrow> string \<Rightarrow> (string \<times> (job_view \<Rightarrow> handler_outcome) option) list \<Rightarrow> int \<Rightarrow> bool \<Rightarrow>
    (job_db \<Rightarrow> job_db) \<Rightarrow> job_db \<Rightarrow> (job_claim \<times> job_state \<times> unit result) result \<times> job_db" where
  "run_one probe clock finished token worker handlers timeout ended meanwhile db =
     (if worker = [] \<or> timeout \<le> 0 \<or> handlers = [] \<or> (\<exists>(n, h) \<in> set handlers. h = None \<or> n = []) then (Inl err_invalid, db)
      else case claim_job probe clock token worker (map fst handlers) timeout db of
        (Inl e, db) \<Rightarrow> (Inl e, db)
      | (Inr c, db) \<Rightarrow>
          let state = execute_claim handlers ended (cl_run c); (out, db) = finish_job finished c state (meanwhile db) in
          (Inr (c, state, out), db))"

section \<open>The registry of the host\<close>

text \<open>A registration has an identity of its own: a handler removed and registered again is another one.\<close>

record job_registration =
  rg_serial :: nat
  rg_definition :: job_definition
  rg_maintenance :: bool
  rg_canceled :: bool

record job_runtime =
  rt_entries :: "string \<rightharpoonup> job_registration"
  rt_closed :: bool
  rt_draining :: bool
  rt_serial :: nat

definition register_entry :: "job_definition \<Rightarrow> bool \<Rightarrow> bool \<Rightarrow> job_runtime \<Rightarrow> job_runtime result" where
  "register_entry d has_handler maintenance rt =
     (if jd_id d = [] \<or> jd_handler d \<noteq> jd_id d \<or> \<not> has_handler \<or> jd_timeout d \<le> 0
         \<or> (jd_compact d \<and> (jd_owner d \<noteq> ''system'' \<or> \<not> jd_reconcile d \<or> jd_group d \<noteq> [] \<or> maintenance)) then Inl err_invalid
      else if rt_closed rt then Inl ErrCanceled
      else if rt_draining rt then Inl (ErrNamed ''ErrRuntimeDraining'')
      else if rt_entries rt (jd_id d) \<noteq> None then Inl err_conflict
      else Inr (rt\<lparr>rt_entries := (rt_entries rt)(jd_id d \<mapsto> \<lparr>rg_serial = rt_serial rt, rg_definition = d, rg_maintenance = maintenance, rg_canceled = False\<rparr>),
        rt_serial := Suc (rt_serial rt)\<rparr>))"

definition register_maintenance :: "job_definition \<Rightarrow> bool \<Rightarrow> job_runtime \<Rightarrow> job_runtime result" where
  "register_maintenance d has_handler rt =
     (if jd_owner d \<noteq> ''system'' \<or> jd_resource d \<noteq> maintenance_resource \<or> jd_interval d \<noteq> 0 then Inl err_invalid
      else register_entry d has_handler True rt)"

definition register_when :: "job_definition \<Rightarrow> bool \<Rightarrow> job_runtime \<Rightarrow> job_runtime result" where
  "register_when d has_handler rt = (if jd_resource d = maintenance_resource then Inl err_invalid else register_entry d has_handler False rt)"

definition deactivate_entry :: "gotime \<Rightarrow> string \<Rightarrow> job_runtime \<times> job_db \<Rightarrow> unit result \<times> job_runtime \<times> job_db" where
  "deactivate_entry clock i st =
     (let (rt, db) = st; rt' = rt\<lparr>rt_entries := (rt_entries rt)(i := None)\<rparr> in
      case cancel_handler clock i db of Inl e \<Rightarrow> (Inl e, rt', db) | Inr db' \<Rightarrow> (Inr (), rt', db'))"

definition detach_entry :: "string \<Rightarrow> job_runtime \<Rightarrow> job_runtime" where
  "detach_entry i rt = rt\<lparr>rt_entries := (rt_entries rt)(i := None)\<rparr>"

text \<open>A snapshot of the registry taken before a wait admits only the registrations that are still the current ones.\<close>

definition live_handlers :: "job_runtime \<Rightarrow> (string \<rightharpoonup> nat) option \<Rightarrow> string list \<Rightarrow> string list" where
  "live_handlers rt snapshot handlers = filter (\<lambda>i. case rt_entries rt i of
       None \<Rightarrow> False
     | Some g \<Rightarrow> \<not> rg_canceled g \<and> (case snapshot of None \<Rightarrow> True | Some serial_of \<Rightarrow> serial_of i = Some (rg_serial g))) handlers"

text \<open>A worker asks the store only for handlers still registered, and not again within a second of an empty answer.\<close>

definition runtime_claim :: "job_runtime \<Rightarrow> (string \<rightharpoonup> nat) option \<Rightarrow> gotime \<Rightarrow> gotime \<Rightarrow>
    (string list \<Rightarrow> job_claim result \<times> job_db) \<Rightarrow> string list \<Rightarrow> job_db \<Rightarrow> (job_claim result \<times> job_db) \<times> gotime" where
  "runtime_claim rt snapshot now empty_until claim handlers db =
     (let live = live_handlers rt snapshot handlers in
      if rt_draining rt \<or> live = [] \<or> now < empty_until then ((Inl err_empty, db), empty_until)
      else let (out, db) = claim live in
        ((out, db), if out = Inl err_empty then now + second else 0))"

text \<open>The gates a handler of the registry stands behind, in the order they are asked.\<close>

definition guarded_handler :: "(string \<Rightarrow> string option) \<Rightarrow> bool \<Rightarrow> bool \<Rightarrow> job_registration \<Rightarrow> (job_view \<Rightarrow> handler_outcome) \<Rightarrow> job_view \<Rightarrow> handler_outcome" where
  "guarded_handler revision_of host_ready paused g handler v =
     (if \<not> host_ready then Returned (Some (Plain ''context.Canceled''))
      else if paused \<and> \<not> rg_maintenance g then Returned (Some (Plain ''context.Canceled''))
      else if rg_maintenance g \<and> (su_owner (vw_submission v) \<noteq> ''system'' \<or> su_resource (vw_submission v) \<noteq> maintenance_resource)
      then Returned (Some (Plain ''ErrConflict''))
      else if revision_of (su_payload (vw_submission v)) \<noteq> Some (jd_revision (rg_definition g)) then Returned (Some (Plain ''ErrConflict''))
      else if rg_canceled g then Returned (Some (Plain ''context.Canceled''))
      else handler v)"

definition schedule_poll_interval :: "int \<Rightarrow> int" where
  "schedule_poll_interval interval = (if interval < 100000000 then 100000000 else if interval > 5000000000 then 5000000000 else interval)"

text \<open>A request for a registered handler submits only what its definition says.\<close>

definition request_submission :: "schedule_env \<Rightarrow> (string \<Rightarrow> string \<Rightarrow> string \<Rightarrow> string) \<Rightarrow> job_definition \<Rightarrow> string \<Rightarrow> string \<Rightarrow> submission" where
  "request_submission se digest d owner key = \<lparr>su_timeout = jd_timeout d, su_max_attempts = 0, su_backoff = 0, su_owner = owner,
     su_key = ''plugin-request:'' @ digest (jd_id d) (jd_revision d) key, su_handler = jd_handler d, su_resource = jd_resource d, su_group = jd_group d,
     su_payload = se_payload se (jd_revision d), su_not_before = 0, su_lane = []\<rparr>"

definition request_registered :: "schedule_env \<Rightarrow> (string \<Rightarrow> string \<Rightarrow> string \<Rightarrow> string) \<Rightarrow> job_runtime \<Rightarrow> gotime \<Rightarrow> string \<Rightarrow>
    string \<Rightarrow> string \<Rightarrow> string \<Rightarrow> string \<Rightarrow> job_db \<Rightarrow> (job_view \<times> job_db) result" where
  "request_registered se digest rt clock fresh owner i revision key db =
     (if owner = [] \<or> key = [] \<or> length key > 128 then Inl err_invalid
      else case rt_entries rt i of
        None \<Rightarrow> Inl err_conflict
      | Some g \<Rightarrow>
          if jd_owner (rg_definition g) \<noteq> owner \<or> jd_revision (rg_definition g) \<noteq> revision \<or> rg_maintenance g \<or> rg_canceled g then Inl err_conflict
          else submit_job (se_job se) clock fresh (request_submission se digest (rg_definition g) owner key) db)"

end
