(* ===== verification/JobHistory.thy ===== *)
theory JobHistory
  imports JobExecutor "HOL-Library.Multiset"
begin

text \<open>
  Histories of the job queue: the transactions of \<^verbatim>\<open>JobQueue\<close>, \<^verbatim>\<open>JobControl\<close> and \<^verbatim>\<open>JobSchedules\<close> in any order.
  The leases that are out form a multiset, which only a claim enlarges; from that follow the limits on what runs
  together, the fencing of completions and the bound on attempts.
\<close>

section \<open>Leases\<close>

definition lease_of :: "job_run \<Rightarrow> string \<times> string \<times> string \<times> string \<times> string" where
  "lease_of r = (ru_id r, ru_token r, ru_worker r, ru_resource r, ru_group r)"

definition leases_of :: "job_run list \<Rightarrow> (string \<times> string \<times> string \<times> string \<times> string) multiset" where
  "leases_of rows = image_mset lease_of (filter_mset (\<lambda>r. active_state (ru_state r)) (mset rows))"

definition leases :: "job_db \<Rightarrow> (string \<times> string \<times> string \<times> string \<times> string) multiset" where
  "leases db = leases_of (jb_runs db)"

lemma leases_of_simps [simp]:
  "leases_of [] = {#}"
  "leases_of (r # rows) = (if active_state (ru_state r) then add_mset (lease_of r) (leases_of rows) else leases_of rows)"
  "leases_of (xs @ ys) = leases_of xs + leases_of ys"
  by (simp_all add: leases_of_def)

lemma count_leases: "count_runs (\<lambda>r. active_state (ru_state r) \<and> Q (lease_of r)) db = size (filter_mset Q (leases db))"
proof -
  have "length (filter (\<lambda>r. active_state (ru_state r) \<and> Q (lease_of r)) rows) = size (filter_mset Q (leases_of rows))" for rows
    by (induction rows) simp_all
  then show ?thesis by (simp add: count_runs_def leases_def)
qed

text \<open>An update that starts nothing keeps at most the leases there were.\<close>

definition starts_nothing :: "(job_run \<Rightarrow> job_run) \<Rightarrow> bool" where
  "starts_nothing f \<longleftrightarrow> (\<forall>r. active_state (ru_state (f r)) \<longrightarrow> active_state (ru_state r) \<and> lease_of (f r) = lease_of r)"

lemma leases_map: "starts_nothing f \<Longrightarrow> leases_of (map f rows) \<subseteq># leases_of rows"
proof (induction rows)
  case (Cons r rows)
  then show ?case
    by (auto simp: starts_nothing_def intro: subset_mset.order_trans)
qed simp

lemma leases_filter: "leases_of (filter P rows) \<subseteq># leases_of rows"
  by (induction rows) (auto intro: subset_mset.order_trans)

definition calm :: "job_db \<Rightarrow> job_db \<Rightarrow> bool" where
  "calm db db' \<longleftrightarrow> leases db' \<subseteq># leases db \<and> jb_capacity db' = jb_capacity db \<and> jb_groups db' = jb_groups db
     \<and> jb_lanes db' = jb_lanes db \<and> jb_vtime db' = jb_vtime db"

lemma calm_refl [simp, intro]: "calm db db" by (simp add: calm_def)

lemma calm_trans [trans]: "calm a b \<Longrightarrow> calm b c \<Longrightarrow> calm a c"
  by (auto simp: calm_def intro: subset_mset.order_trans)

named_theorems calm_intros

lemma calm_update_runs [calm_intros]: "(\<And>r. P r \<Longrightarrow> active_state (ru_state (f r)) \<Longrightarrow> active_state (ru_state r) \<and> lease_of (f r) = lease_of r)
    \<Longrightarrow> calm db (update_runs P f db)"
  by (auto simp: calm_def leases_def update_runs_def starts_nothing_def intro!: leases_map)

lemma calm_update_attempts [simp, calm_intros]: "calm db (update_attempts P f db)"
  by (simp add: calm_def leases_def update_attempts_def)

lemma calm_update_schedules [simp, calm_intros]: "calm db (update_schedules P f db)"
  by (simp add: calm_def leases_def update_schedules_def)

lemma calm_lock: "lock_budget db = Inr db' \<Longrightarrow> calm db db'"
  by (auto simp: lock_budget_def calm_def leases_def split: if_splits)

lemma calm_insert: "insert_submission r db = Inr (x, db') \<Longrightarrow> ru_state r = Queued \<Longrightarrow> calm db db'"
  by (auto simp: insert_submission_def calm_def leases_def active_state_def split: if_splits option.splits)

lemma prepared_state: "prepare_submission je clock fresh su = Inr r \<Longrightarrow> ru_state r = Queued"
  by (auto simp: prepare_submission_def Let_def split: if_splits)

lemma calm_submit: "submit_job je clock fresh su db = Inr (v, db') \<Longrightarrow> calm db db'"
  by (auto simp: submit_job_def dest!: calm_lock calm_insert prepared_state intro: calm_trans)

lemma calm_expire: "calm db (expire_leases now db)"
  unfolding expire_leases_def Let_def
  by (rule calm_trans[OF _ calm_update_schedules], rule calm_trans[OF calm_update_attempts calm_update_runs]) (simp add: active_state_def)

lemma settle_run_inactive: "\<not> active_state state \<Longrightarrow> \<not> active_state (ru_state (settle_run now state r))"
  by (auto simp: settle_run_def active_state_def)

lemma settled_state_inactive: "reportable reported \<Longrightarrow> \<not> active_state (settled_state now r reported)"
  by (auto simp: settled_state_def active_state_def reportable_def Let_def)

lemma calm_finish: "finish_job clock c reported db = (out, db') \<Longrightarrow> calm db db'"
proof -
  assume f: "finish_job clock c reported db = (out, db')"
  show ?thesis
  proof (cases "reportable reported")
    case True
    then have i: "\<not> active_state (ru_state (settle_run now (settled_state now r reported) x))" for now r x
      by (rule settle_run_inactive[OF settled_state_inactive])
    have u: "calm locked (update_runs (\<lambda>x. ru_id x = ru_id r) (settle_run now (settled_state now r reported)) locked)" for locked now r
      by (rule calm_update_runs) (simp add: i)
    from f True show ?thesis
      by (auto simp: finish_job_def Let_def dest!: calm_lock intro!: calm_trans[OF _ calm_update_attempts] calm_trans[OF _ calm_update_schedules]
          intro: calm_trans[OF _ u] split: sum.splits option.splits if_splits)
  qed (use f in \<open>auto simp: finish_job_def split: if_splits\<close>)
qed

lemma calm_canceled_schedule [simp]: "calm db (update_canceled_schedule r s now db)"
  by (simp add: update_canceled_schedule_def)


lemma calm_cancel_row:
  assumes "pending_state (ru_state r) \<or> active_state (ru_state r)"
  shows "calm db (cancel_row states now r db)"
proof (cases "pending_state (ru_state r)")
  case True
  have "calm d (update_runs (\<lambda>x. ru_id x = ru_id r \<and> ru_state x = ru_state r) (\<lambda>x. x\<lparr>ru_state := Canceled, ru_finished := Some now\<rparr>) d)" for d
    by (rule calm_update_runs) (simp add: active_state_def)
  with True show ?thesis unfolding cancel_row_def by simp (rule calm_trans[OF _ calm_canceled_schedule], assumption)
next
  case False
  with assms have "calm d (update_runs (\<lambda>x. ru_id x = ru_id r \<and> ru_state x = ru_state r) (\<lambda>x. x\<lparr>ru_state := CancelRequested\<rparr>) d)" for d
    by (intro calm_update_runs) (simp add: lease_of_def)
  with False show ?thesis
    unfolding cancel_row_def by (simp split del: if_split) (rule calm_trans[OF _ calm_canceled_schedule], rule calm_trans[rotated], assumption, simp)
qed

lemma calm_audit [simp]: "calm db (audit_job actor action run db)"
  by (simp add: audit_job_def calm_def leases_def)

lemma calm_record_cancellation: "record_cancellation clock actor run reason db = Inr (s, db') \<Longrightarrow> calm db db'"
  by (auto simp: record_cancellation_def active_state_def dest!: calm_lock split: if_splits option.splits
      intro!: calm_trans[OF _ calm_audit] intro: calm_trans[OF _ calm_cancel_row])

lemma calm_cancel_rows: "\<forall>r \<in> set rows. pending_state (ru_state r) \<or> active_state (ru_state r) \<Longrightarrow> calm db (fold (cancel_row states now) rows db)"
  by (induction rows arbitrary: db) (auto intro: calm_trans[OF calm_cancel_row])

lemma calm_cancel_handler: "cancel_handler clock handler db = Inr db' \<Longrightarrow> calm db db'"
  by (auto simp: cancel_handler_def dest!: calm_lock intro!: calm_trans[OF _ calm_cancel_rows])

lemma calm_resolve: "resolve_job clock run s db = Inr db' \<Longrightarrow> calm db db'"
  by (auto simp: resolve_job_def active_state_def split: if_splits dest!: calm_lock intro!: calm_trans[OF _ calm_update_runs])

lemma calm_verified: "record_verified_outcome clock actor run outcome reason db = Inr db' \<Longrightarrow> calm db db'"
  by (auto simp: record_verified_outcome_def split: if_splits dest!: calm_resolve intro: calm_trans)

lemma calm_import: "import_unknown je clock fresh su created db = Inr (i, new, db') \<Longrightarrow> calm db db'"
proof -
  assume "import_unknown je clock fresh su created db = Inr (i, new, db')"
  moreover have "calm d (update_runs P (\<lambda>r. r\<lparr>ru_state := Unknown, ru_created := F r\<rparr>) d)" for d P F
    by (rule calm_update_runs) (simp add: active_state_def)
  ultimately show ?thesis
    by (auto simp: import_unknown_def dest!: calm_lock calm_submit split: option.splits intro: calm_trans)
qed

lemma calm_put_schedule [simp]: "calm db (put_schedule s db)"
  by (simp add: put_schedule_def)

lemma calm_interrupt: "interrupt_lost d r db = (r', db') \<Longrightarrow> calm db db'"
  by (auto simp: interrupt_lost_def active_state_def split: if_splits intro!: calm_update_runs)

lemma calm_reuse: "reuse_periodic_success s r db = Inr (Some (x, db')) \<Longrightarrow> ru_state r = Queued \<Longrightarrow> calm db db'"
  by (auto simp: reuse_periodic_success_def Let_def active_state_def calm_def leases_def update_runs_def starts_nothing_def
      intro!: leases_map split: if_splits option.splits)

lemma calm_dispatch: "dispatch_slot se d clock fresh planned s db = Inr (s', db') \<Longrightarrow> calm db db'"
proof (erule dispatch_slot_cases)
  fix r0 r assume p: "prepare_submission (se_job se) clock fresh (slot_submission se d planned) = Inr r0"
    "reuse_periodic_success s (r0\<lparr>ru_schedule := jd_id d, ru_planned := Some planned\<rparr>) db = Inr (Some (r, db'))
     \<or> reuse_periodic_success s (r0\<lparr>ru_schedule := jd_id d, ru_planned := Some planned\<rparr>) db = Inr None
       \<and> insert_submission (r0\<lparr>ru_schedule := jd_id d, ru_planned := Some planned\<rparr>) db = Inr (r, db')"
  have "ru_state (r0\<lparr>ru_schedule := jd_id d, ru_planned := Some planned\<rparr>) = Queued" using prepared_state[OF p(1)] by simp
  with p(2) show "calm db db'" by (blast intro: calm_reuse calm_insert)
qed

lemma calm_plan_due: "plan_due se d now clock fresh s db = Inr (out, db') \<Longrightarrow> calm db db'"
  by (auto simp: plan_due_def Let_def split: if_splits prod.splits dest!: calm_dispatch intro: calm_trans)

lemma calm_stored: "stored_schedule d now db = (s, db') \<Longrightarrow> calm db db'"
  by (auto simp: stored_schedule_def calm_def leases_def Let_def split: option.splits)

lemma calm_schedule_step: "schedule_step se d now clock fresh db = Inr (out, db') \<Longrightarrow> calm db db'"
  by (erule schedule_step_cases) (blast dest: calm_stored calm_interrupt calm_plan_due intro: calm_trans)+

lemma calm_schedule: "schedule_job se d probe clock submitted fresh db = Inr (out, db') \<Longrightarrow> calm db db'"
  by (auto simp: schedule_job_def Let_def split: if_splits option.splits dest!: calm_lock calm_schedule_step intro: calm_trans)

lemma calm_prune: "prune_candidates before state candidates db = (n, db') \<Longrightarrow> calm db db'"
  by (auto simp: prune_candidates_def Let_def calm_def leases_def leases_filter)


section \<open>Rows, attempts and plans\<close>

definition open_state :: "job_state \<Rightarrow> bool" where "open_state s \<longleftrightarrow> pending_state s \<or> active_state s"

definition row_key :: "job_run \<Rightarrow> string \<times> (string \<times> string) \<times> string \<times> gotime option" where
  "row_key r = (ru_id r, (ru_owner r, ru_key r), ru_schedule r, ru_planned r)"

definition attempt_key :: "job_attempt \<Rightarrow> string \<times> string \<times> int" where
  "attempt_key a = (ja_token a, ja_run a, ja_number a)"

definition plan_key :: "job_schedule \<Rightarrow> string \<times> string" where "plan_key s = (sd_id s, sd_run s)"

text \<open>What an update of a row may do: its identity and its count of attempts stay, nothing closed opens again.\<close>

definition progress :: "job_run \<Rightarrow> job_run \<Rightarrow> bool" where
  "progress r r' \<longleftrightarrow> row_key r' = row_key r \<and> ru_attempts r' = ru_attempts r \<and> ru_max_attempts r' = ru_max_attempts r
     \<and> (pending_state (ru_state r') \<longrightarrow> pending_state (ru_state r) \<or> ru_attempts r' < ru_max_attempts r')
     \<and> (open_state (ru_state r') \<longrightarrow> open_state (ru_state r))"

lemma progress_refl [simp, intro]: "progress r r" by (simp add: progress_def)
lemma progress_trans: "progress a b \<Longrightarrow> progress b c \<Longrightarrow> progress a c" by (auto simp: progress_def)

definition kept :: "job_db \<Rightarrow> job_db \<Rightarrow> bool" where
  "kept db db' \<longleftrightarrow> list_all2 progress (jb_runs db) (jb_runs db') \<and> map attempt_key (jb_attempts db') = map attempt_key (jb_attempts db)
     \<and> map plan_key (jb_schedules db') = map plan_key (jb_schedules db)"

lemma kept_refl [simp, intro]: "kept db db" by (simp add: kept_def list_all2_refl)

lemma kept_trans [trans]: "kept a b \<Longrightarrow> kept b c \<Longrightarrow> kept a c"
  unfolding kept_def by (auto elim: list_all2_trans[rotated] intro: progress_trans)

lemma kept_update_runs: "(\<And>r. r \<in> set (jb_runs db) \<Longrightarrow> P r \<Longrightarrow> progress r (f r)) \<Longrightarrow> kept db (update_runs P f db)"
  by (auto simp: kept_def update_runs_def list_all2_map2 list_all2_same)

lemma kept_update_attempts: "(\<And>a. attempt_key (f a) = attempt_key a) \<Longrightarrow> kept db (update_attempts P f db)"
  by (simp add: kept_def update_attempts_def list_all2_refl)

lemma kept_update_schedules: "(\<And>s. plan_key (f s) = plan_key s) \<Longrightarrow> kept db (update_schedules P f db)"
  by (simp add: kept_def update_schedules_def list_all2_refl)

lemma kept_lock: "lock_budget db = Inr db' \<Longrightarrow> kept db db'"
  by (auto simp: lock_budget_def kept_def list_all2_refl split: if_splits)

lemma kept_row: "kept db db' \<Longrightarrow> r \<in> set (jb_runs db) \<Longrightarrow> \<exists>r' \<in> set (jb_runs db'). progress r r'"
  by (auto simp: kept_def in_set_conv_nth list_all2_conv_all_nth) (metis nth_mem)

lemma kept_origin: "kept db db' \<Longrightarrow> r' \<in> set (jb_runs db') \<Longrightarrow> \<exists>r \<in> set (jb_runs db). progress r r'"
  by (auto simp: kept_def in_set_conv_nth list_all2_conv_all_nth) (metis nth_mem)

lemma kept_rows: "kept db db' \<Longrightarrow> map row_key (jb_runs db') = map row_key (jb_runs db)"
  by (auto simp: kept_def progress_def list_all2_conv_all_nth intro!: nth_equalityI)

definition keys_ok :: "(string \<times> (string \<times> string) \<times> string \<times> gotime option) list \<Rightarrow> bool" where
  "keys_ok ks \<longleftrightarrow> distinct (map fst ks) \<and> distinct (map (fst \<circ> snd) ks)
     \<and> (\<forall>x \<in> set ks. \<forall>y \<in> set ks. snd (snd (snd x)) \<noteq> None \<longrightarrow> snd (snd x) = snd (snd y) \<longrightarrow> fst x = fst y)"

definition attempts_ok :: "job_db \<Rightarrow> bool" where
  "attempts_ok db \<longleftrightarrow> distinct (map ja_token (jb_attempts db)) \<and> distinct (map (\<lambda>a. (ja_run a, ja_number a)) (jb_attempts db))
     \<and> (\<forall>a \<in> set (jb_attempts db). 1 \<le> ja_number a \<and> (\<exists>r \<in> set (jb_runs db). ru_id r = ja_run a \<and> ja_number a \<le> ru_attempts r))
     \<and> (\<forall>r \<in> set (jb_runs db). 0 \<le> ru_attempts r \<and> ru_attempts r \<le> ru_max_attempts r \<and> ru_max_attempts r \<le> 10
          \<and> (pending_state (ru_state r) \<longrightarrow> ru_attempts r < ru_max_attempts r))"

definition plans_ok :: "job_db \<Rightarrow> bool" where
  "plans_ok db \<longleftrightarrow> distinct (map sd_id (jb_schedules db)) \<and> (\<forall>r \<in> set (jb_runs db). ru_id r \<noteq> [])
     \<and> (\<forall>r \<in> set (jb_runs db). ru_schedule r \<noteq> [] \<and> open_state (ru_state r) \<longrightarrow> (ru_schedule r, ru_id r) \<in> plan_key ` set (jb_schedules db))"

definition rows_sound :: "job_db \<Rightarrow> bool" where
  "rows_sound db \<longleftrightarrow> keys_ok (map row_key (jb_runs db)) \<and> attempts_ok db \<and> plans_ok db"

lemma rows_sound_ids: "rows_sound db \<Longrightarrow> distinct (map ru_id (jb_runs db))"
  by (simp add: rows_sound_def keys_ok_def row_key_def comp_def)

lemma kept_attempts:
  assumes "kept db db'" "attempts_ok db" shows "attempts_ok db'"
proof -
  have k: "map attempt_key (jb_attempts db') = map attempt_key (jb_attempts db)" using assms(1) by (simp add: kept_def)
  have t: "map ja_token (jb_attempts db') = map ja_token (jb_attempts db)"
    using arg_cong[OF k, of "map fst"] by (simp add: attempt_key_def comp_def)
  have n: "map (\<lambda>a. (ja_run a, ja_number a)) (jb_attempts db') = map (\<lambda>a. (ja_run a, ja_number a)) (jb_attempts db)"
    using arg_cong[OF k, of "map snd"] by (simp add: attempt_key_def comp_def)
  note run = kept_row[OF assms(1)] and origin = kept_origin[OF assms(1)]
  have "\<forall>a \<in> set (jb_attempts db'). 1 \<le> ja_number a \<and> (\<exists>r \<in> set (jb_runs db'). ru_id r = ja_run a \<and> ja_number a \<le> ru_attempts r)"
  proof
    fix a assume "a \<in> set (jb_attempts db')"
    then have "(ja_run a, ja_number a) \<in> set (map (\<lambda>a. (ja_run a, ja_number a)) (jb_attempts db))" unfolding n[symmetric] by simp
    then obtain b where b: "b \<in> set (jb_attempts db)" "ja_run b = ja_run a" "ja_number b = ja_number a" by auto
    with assms(2) obtain r where "1 \<le> ja_number a" "r \<in> set (jb_runs db)" "ru_id r = ja_run a" "ja_number a \<le> ru_attempts r"
      by (auto simp: attempts_ok_def)
    with run[of r] show "1 \<le> ja_number a \<and> (\<exists>r \<in> set (jb_runs db'). ru_id r = ja_run a \<and> ja_number a \<le> ru_attempts r)"
      by (auto simp: progress_def row_key_def)
  qed
  moreover have "\<forall>r \<in> set (jb_runs db'). 0 \<le> ru_attempts r \<and> ru_attempts r \<le> ru_max_attempts r \<and> ru_max_attempts r \<le> 10
      \<and> (pending_state (ru_state r) \<longrightarrow> ru_attempts r < ru_max_attempts r)"
  proof
    fix r' assume "r' \<in> set (jb_runs db')"
    with origin obtain r where "r \<in> set (jb_runs db)" "progress r r'" by blast
    with assms(2) show "0 \<le> ru_attempts r' \<and> ru_attempts r' \<le> ru_max_attempts r' \<and> ru_max_attempts r' \<le> 10
        \<and> (pending_state (ru_state r') \<longrightarrow> ru_attempts r' < ru_max_attempts r')" by (auto simp: attempts_ok_def progress_def)
  qed
  ultimately show ?thesis using assms(2) t n by (simp add: attempts_ok_def)
qed

lemma kept_plans:
  assumes "kept db db'" "plans_ok db" shows "plans_ok db'"
proof -
  have k: "map plan_key (jb_schedules db') = map plan_key (jb_schedules db)" using assms(1) by (simp add: kept_def)
  then have ks: "plan_key ` set (jb_schedules db') = plan_key ` set (jb_schedules db)" by (metis set_map)
  have t: "map sd_id (jb_schedules db') = map sd_id (jb_schedules db)"
    using arg_cong[OF k, of "map fst"] by (simp add: plan_key_def comp_def)
  show ?thesis using kept_origin[OF assms(1)] assms(2) t ks by (fastforce simp: plans_ok_def progress_def row_key_def)
qed

lemma kept_sound: "kept db db' \<Longrightarrow> rows_sound db \<Longrightarrow> rows_sound db'"
  unfolding rows_sound_def by (metis kept_rows kept_attempts kept_plans)


lemmas progress_defs = progress_def row_key_def open_state_def pending_state_def active_state_def

lemma kept_expire: "kept db (expire_leases now db)"
  unfolding expire_leases_def Let_def
  by (rule kept_trans[OF _ kept_update_schedules], rule kept_trans[OF kept_update_attempts kept_update_runs])
    (auto simp: attempt_key_def plan_key_def progress_defs expired_def)

lemma settled_retry: "settled_state now r reported = RetryWait \<Longrightarrow> ru_attempts r < ru_max_attempts r"
  by (auto simp: settled_state_def Let_def split: if_splits)

lemma settled_not_queued: "reportable reported \<Longrightarrow> settled_state now r reported \<noteq> Queued"
  by (auto simp: settled_state_def reportable_def Let_def)

lemma progress_settle:
  assumes "active_state (ru_state r)" "reportable reported"
  shows "progress r (settle_run now (settled_state now' r reported) r)"
  using assms settled_retry[of now' r reported] settled_state_inactive[of reported now' r] settled_not_queued[of reported now' r]
  by (auto simp: settle_run_def progress_defs)

text \<open>The accepted and the refused report of an outcome.\<close>

lemma finish_cases:
  assumes "finish_job clock c reported db = (out, db')"
  obtains (refused) e where "out = Inl e" "db' = db"
  | (accepted) locked r where "lock_budget db = Inr locked" "List.find (holds_lease c) (jb_runs locked) = Some r" "reportable reported"
      "out = (if lease_over (trunc_ms clock) r then Inl err_lease_lost else Inr ())"
      "db' = update_attempts (\<lambda>a. ja_token a = cl_token c)
          (\<lambda>a. a\<lparr>ja_state := settled_state (trunc_ms clock) r reported, ja_finished := Some (trunc_ms clock)\<rparr>)
        (if ru_schedule r = [] then update_runs (\<lambda>x. ru_id x = ru_id r) (settle_run (trunc_ms clock) (settled_state (trunc_ms clock) r reported)) locked
         else update_schedules (\<lambda>s. sd_id s = ru_schedule r \<and> sd_run s = ru_id r)
            (\<lambda>s. s\<lparr>sd_state := Some (settled_state (trunc_ms clock) r reported), sd_last_state := Some (settled_state (trunc_ms clock) r reported),
               sd_last_finished := Some (trunc_ms clock),
               sd_failures := (if settled_state (trunc_ms clock) r reported = Failed \<or> settled_state (trunc_ms clock) r reported = Unknown
                 then Suc (sd_failures s) else sd_failures s)\<rparr>)
            (update_runs (\<lambda>x. ru_id x = ru_id r) (settle_run (trunc_ms clock) (settled_state (trunc_ms clock) r reported)) locked))"
proof (cases "reportable reported")
  case False
  with assms show ?thesis by (intro refused[of err_invalid]) (simp_all add: finish_job_def)
next
  case True
  show ?thesis
  proof (cases "lock_budget db")
    case (Inl e)
    with assms True show ?thesis by (intro refused[of e]) (simp_all add: finish_job_def)
  next
    case (Inr locked)
    show ?thesis
    proof (cases "List.find (holds_lease c) (jb_runs locked)")
      case None
      with assms True Inr show ?thesis by (intro refused[of err_lease_lost]) (simp_all add: finish_job_def Let_def)
    next
      case (Some r)
      with assms True Inr show ?thesis by (intro accepted[OF Inr Some True]) (simp_all add: finish_job_def Let_def)
    qed
  qed
qed

lemma same_id: "distinct (map ru_id rows) \<Longrightarrow> x \<in> set rows \<Longrightarrow> y \<in> set rows \<Longrightarrow> ru_id x = ru_id y \<Longrightarrow> x = y"
  by (rule distinct_map_eq)

lemma lock_tables: "lock_budget db = Inr db' \<Longrightarrow> jb_runs db' = jb_runs db \<and> jb_attempts db' = jb_attempts db \<and> jb_schedules db' = jb_schedules db
    \<and> jb_capacity db' = jb_capacity db \<and> jb_groups db' = jb_groups db \<and> jb_lanes db' = jb_lanes db \<and> jb_vtime db' = jb_vtime db \<and> 0 < jb_capacity db"
  by (auto simp: lock_budget_def split: if_splits)

lemma kept_finish:
  assumes "finish_job clock c reported db = (out, db')" "distinct (map ru_id (jb_runs db))"
  shows "kept db db'"
  using assms(1)
proof (cases rule: finish_cases)
  case (accepted locked r)
  have r: "r \<in> set (jb_runs locked)" "active_state (ru_state r)" using find_member[OF accepted(2)] by (auto simp: holds_lease_def)
  have d: "distinct (map ru_id (jb_runs locked))" using assms(2) lock_tables[OF accepted(1)] by simp
  have u: "kept locked (update_runs (\<lambda>x. ru_id x = ru_id r) (settle_run (trunc_ms clock) (settled_state (trunc_ms clock) r reported)) locked)"
    by (rule kept_update_runs) (use same_id[OF d _ r(1)] progress_settle[OF r(2) accepted(3)] in blast)
  note u = kept_trans[OF kept_lock[OF accepted(1)] u]
  show ?thesis
    unfolding accepted(5)
    by (rule kept_trans[OF _ kept_update_attempts]) (auto simp: attempt_key_def plan_key_def u intro!: kept_trans[OF u kept_update_schedules])
qed simp

lemma kept_canceled_schedule: "kept db (update_canceled_schedule r s now db)"
  by (auto simp: update_canceled_schedule_def plan_key_def intro!: kept_update_schedules)

lemma kept_cancel_row:
  assumes "open_state (ru_state r)"
  shows "kept db (cancel_row states now r db)"
proof -
  have a: "kept d (update_runs (\<lambda>x. ru_id x = ru_id r \<and> ru_state x = ru_state r) (\<lambda>x. x\<lparr>ru_state := Canceled, ru_finished := Some now\<rparr>) d)" for d
    by (rule kept_update_runs) (auto simp: progress_defs)
  have b: "kept d (update_runs (\<lambda>x. ru_id x = ru_id r \<and> ru_state x = ru_state r) (\<lambda>x. x\<lparr>ru_state := CancelRequested\<rparr>) d)" for d
    by (rule kept_update_runs) (use assms in \<open>auto simp: progress_defs\<close>)
  have c: "kept db (if ru_token r = [] then db
      else update_attempts (\<lambda>a. ja_token a = ru_token r \<and> states (ja_state a)) (\<lambda>a. a\<lparr>ja_state := CancelRequested\<rparr>) db)"
    by (auto simp: attempt_key_def intro!: kept_update_attempts)
  show ?thesis
    unfolding cancel_row_def
    by (cases "pending_state (ru_state r)") (simp_all only: if_True if_False kept_trans[OF a kept_canceled_schedule]
        kept_trans[OF kept_trans[OF c b] kept_canceled_schedule])
qed

lemma kept_audit [simp]: "kept db (audit_job actor action run db)"
  by (simp add: audit_job_def kept_def list_all2_refl)

lemma kept_record_cancellation:
  assumes "record_cancellation clock actor run reason db = Inr (s, db')" shows "kept db db'"
proof -
  from assms obtain locked where l: "lock_budget db = Inr locked"
    "db' = locked \<or> (\<exists>r. open_state (ru_state r) \<and> db' = audit_job actor ''job.cancel'' run (cancel_row (\<lambda>s. s = Running) (trunc_ms clock) r locked))"
    by (auto simp: record_cancellation_def open_state_def active_state_def split: if_splits option.splits)
  show ?thesis using l(2) kept_lock[OF l(1)] by (auto intro: kept_trans[OF _ kept_audit] kept_trans[OF _ kept_cancel_row])
qed

lemma kept_cancel_rows: "\<forall>r \<in> set rows. open_state (ru_state r) \<Longrightarrow> kept db (fold (cancel_row states now) rows db)"
  by (induction rows arbitrary: db) (auto intro: kept_trans[OF kept_cancel_row])

lemma kept_cancel_handler: "cancel_handler clock handler db = Inr db' \<Longrightarrow> kept db db'"
  by (auto simp: cancel_handler_def open_state_def dest!: kept_lock intro!: kept_trans[OF _ kept_cancel_rows])

lemma kept_resolve: "resolve_job clock run s db = Inr db' \<Longrightarrow> kept db db'"
  by (auto simp: resolve_job_def progress_defs split: if_splits dest!: kept_lock intro!: kept_trans[OF _ kept_update_runs])

lemma kept_verified: "record_verified_outcome clock actor run outcome reason db = Inr db' \<Longrightarrow> kept db db'"
  by (auto simp: record_verified_outcome_def split: if_splits dest!: kept_resolve intro: kept_trans)

section \<open>New rows\<close>

lemma prepared_row:
  assumes "prepare_submission je clock fresh su = Inr r"
  shows "ru_state r = Queued" "ru_attempts r = 0" "1 \<le> ru_max_attempts r" "ru_max_attempts r \<le> 10" "ru_schedule r = []" "ru_planned r = None"
    "ru_id r = fresh"
proof -
  from assms have "\<not> submission_bad je (submission_defaults su)" by (auto simp: prepare_submission_def Let_def split: if_splits)
  then have "1 \<le> su_max_attempts (submission_defaults su)" "su_max_attempts (submission_defaults su) \<le> 10"
    unfolding submission_bad_def by linarith+
  with assms show "ru_state r = Queued" "ru_attempts r = 0" "1 \<le> ru_max_attempts r" "ru_max_attempts r \<le> 10" "ru_schedule r = []" "ru_planned r = None"
    "ru_id r = fresh"
    by (auto simp: prepare_submission_def Let_def split: if_splits)
qed

definition fresh_row :: "job_run \<Rightarrow> bool" where
  "fresh_row r \<longleftrightarrow> ru_state r = Queued \<and> ru_attempts r = 0 \<and> 1 \<le> ru_max_attempts r \<and> ru_max_attempts r \<le> 10"

lemma insert_cases:
  assumes "insert_submission r db = Inr (x, db')"
  obtains (existing) "x \<in> set (jb_runs db)" "same_intent (ru_owner r) (ru_key r) x" "ru_fingerprint x = ru_fingerprint r" "db' = db"
  | (added) "x = r" "db' = db\<lparr>jb_runs := jb_runs db @ [r]\<rparr>" "List.find (same_intent (ru_owner r) (ru_key r)) (jb_runs db) = None" "\<not> row_taken r db"
      "check_pending_admission db (ru_owner r) (ru_resource r) = Inr ()"
proof (cases "List.find (same_intent (ru_owner r) (ru_key r)) (jb_runs db)")
  case None
  with assms obtain u where "check_pending_admission db (ru_owner r) (ru_resource r) = Inr u" "\<not> row_taken r db" "x = r" "db' = db\<lparr>jb_runs := jb_runs db @ [r]\<rparr>"
    unfolding insert_submission_def by (auto simp del: if_Inl_Inr_iff split: if_splits)
  with None show ?thesis by (intro added) simp_all
next
  case (Some e)
  then have "x = e" "ru_fingerprint e = ru_fingerprint r" "db' = db"
    using assms by (auto simp: insert_submission_def split: if_splits)
  with find_member[OF Some] show ?thesis by (intro existing) auto
qed

lemma added_keys:
  assumes "keys_ok (map row_key (jb_runs db))" "List.find (same_intent (ru_owner r) (ru_key r)) (jb_runs db) = None" "\<not> row_taken r db"
  shows "keys_ok (map row_key (jb_runs db @ [r]))"
proof -
  have "\<forall>x \<in> set (jb_runs db). ru_id x \<noteq> ru_id r \<and> (ru_planned r \<noteq> None \<longrightarrow> \<not> (ru_schedule x = ru_schedule r \<and> ru_planned x = ru_planned r))
      \<and> (ru_owner x, ru_key x) \<noteq> (ru_owner r, ru_key r)"
    using assms(2,3) by (auto simp: row_taken_def find_None_iff same_intent_def)
  then have "row_key r \<notin> set []" "ru_id r \<notin> ru_id ` set (jb_runs db)" "(ru_owner r, ru_key r) \<notin> (\<lambda>x. (ru_owner x, ru_key x)) ` set (jb_runs db)"
    and slot: "\<forall>x \<in> set (jb_runs db). ru_planned r \<noteq> None \<longrightarrow> (ru_schedule x, ru_planned x) \<noteq> (ru_schedule r, ru_planned r)"
    by force+
  then have "distinct (map fst (map row_key (jb_runs db @ [r])))" "distinct (map (fst \<circ> snd) (map row_key (jb_runs db @ [r])))"
    using assms(1) by (simp_all add: keys_ok_def row_key_def comp_def image_image)
  moreover have "\<forall>x \<in> set (map row_key (jb_runs db @ [r])). \<forall>y \<in> set (map row_key (jb_runs db @ [r])).
      snd (snd (snd x)) \<noteq> None \<longrightarrow> snd (snd x) = snd (snd y) \<longrightarrow> fst x = fst y"
  proof (intro ballI impI)
    fix x y assume "x \<in> set (map row_key (jb_runs db @ [r]))" "y \<in> set (map row_key (jb_runs db @ [r]))"
      and k: "snd (snd (snd x)) \<noteq> None" "snd (snd x) = snd (snd y)"
    then consider "x \<in> set (map row_key (jb_runs db))" "y \<in> set (map row_key (jb_runs db))" | "x = row_key r" "y = row_key r"
      | a where "x = row_key a" "a \<in> set (jb_runs db)" "y = row_key r" | a where "y = row_key a" "a \<in> set (jb_runs db)" "x = row_key r" by auto
    then show "fst x = fst y"
    proof cases
      case 1
      with assms(1) k show ?thesis unfolding keys_ok_def by blast
    next
      case 3
      with slot k show ?thesis by (auto simp: row_key_def)
    next
      case 4
      with slot k show ?thesis by (auto simp: row_key_def)
    qed simp
  qed
  ultimately show ?thesis by (simp only: keys_ok_def)
qed

lemma added_attempts:
  assumes "attempts_ok db" "fresh_row r"
  shows "attempts_ok (db\<lparr>jb_runs := jb_runs db @ [r]\<rparr>)"
  using assms by (auto simp: attempts_ok_def fresh_row_def)

lemma unplanned_plans:
  assumes "plans_ok db" "ru_schedule r = []" "ru_id r \<noteq> []"
  shows "plans_ok (db\<lparr>jb_runs := jb_runs db @ [r]\<rparr>)"
  using assms by (auto simp: plans_ok_def)

lemma sound_submit:
  assumes "submit_job je clock fresh su db = Inr (v, db')" "rows_sound db" "fresh \<noteq> []"
  shows "rows_sound db'"
proof -
  from assms(1) obtain r locked x where p: "prepare_submission je clock fresh su = Inr r" "lock_budget db = Inr locked" "insert_submission r locked = Inr (x, db')"
    by (auto simp: submit_job_def)
  have s: "rows_sound locked" by (rule kept_sound[OF kept_lock[OF p(2)] assms(2)])
  note f = prepared_row[OF p(1)]
  from p(3) show ?thesis
  proof (cases rule: insert_cases)
    case added
    have "fresh_row r" using f by (simp add: fresh_row_def)
    with s f(5,7) assms(3) added added_keys[OF _ added(3,4)] added_attempts[of locked r] unplanned_plans[of locked r] show ?thesis
      by (simp add: rows_sound_def)
  qed (use s in simp)
qed


lemma kept_unknown: "kept db (update_runs P (\<lambda>r. r\<lparr>ru_state := Unknown, ru_created := F r\<rparr>) db)"
  by (rule kept_update_runs) (simp add: progress_defs)

lemma sound_import:
  assumes "import_unknown je clock fresh su created db = Inr (i, new, db')" "rows_sound db" "fresh \<noteq> []"
  shows "rows_sound db'"
proof -
  from assms(1) obtain locked where l: "lock_budget db = Inr locked"
    "db' = locked \<or> (\<exists>v db1. submit_job je clock fresh su locked = Inr (v, db1) \<and> kept db1 db')"
    by (auto simp: import_unknown_def kept_unknown split: option.splits)
  have s: "rows_sound locked" by (rule kept_sound[OF kept_lock[OF l(1)] assms(2)])
  with l(2) assms(3) show ?thesis by (auto intro: kept_sound dest: sound_submit)
qed

section \<open>Reuse, plans and pruning\<close>

text \<open>One row replaced by another with its identifier.\<close>

definition replace_run :: "string \<Rightarrow> job_run \<Rightarrow> job_db \<Rightarrow> job_db" where
  "replace_run i r db = update_runs (\<lambda>x. ru_id x = i) (\<lambda>_. r) db"

lemma reuse_cases:
  assumes "reuse_periodic_success s r db = Inr (Some (x, db'))"
  obtains old a where "old \<in> set (jb_runs db)" "ru_id old = sd_compact_run s" "reusable_run s old" "a \<in> set (jb_attempts db)" "ja_run a = ru_id old"
    "ja_number a = 1" "ja_token a = ru_token old" "x = r\<lparr>ru_id := ru_id old\<rparr>" "\<not> slot_taken x db"
    "db' = replace_run (ru_id old) x (db\<lparr>jb_attempts := filter (\<lambda>y. ja_token y \<noteq> ja_token a) (jb_attempts db)\<rparr>)"
proof -
  from assms have c: "sd_compact s \<and> sd_compact_run s \<noteq> []" by (auto simp: reuse_periodic_success_def split: if_splits)
  with assms obtain old where o: "List.find (\<lambda>x. ru_id x = sd_compact_run s) (jb_runs db) = Some old" "reusable_run s old"
    by (auto simp: reuse_periodic_success_def split: if_splits option.splits)
  with assms c obtain a where a: "List.find (\<lambda>a. ja_run a = ru_id old \<and> ja_number a = 1) (jb_attempts db) = Some a" "reusable_attempt old a"
    by (auto simp: reuse_periodic_success_def split: if_splits option.splits)
  have "slot_taken y (db\<lparr>jb_attempts := as\<rparr>) = slot_taken y db" for y as by (simp add: slot_taken_def)
  with assms c o a have r: "x = r\<lparr>ru_id := ru_id old\<rparr>" "\<not> slot_taken x db"
    "db' = update_runs (\<lambda>x. ru_id x = ru_id old) (\<lambda>_. x) (db\<lparr>jb_attempts := filter (\<lambda>y. ja_token y \<noteq> ja_token a) (jb_attempts db)\<rparr>)"
    by (auto simp: reuse_periodic_success_def Let_def split: if_splits)
  show ?thesis
    by (rule that[OF _ _ o(2) _ _ _ _ r(1,2) r(3)[folded replace_run_def]])
      (use find_member[OF o(1)] find_member[OF a(1)] a(2) in \<open>simp_all add: reusable_attempt_def\<close>)
qed

lemma replaced_keys:
  assumes "keys_ok (map row_key (jb_runs db))" "\<not> slot_taken r db" "ru_id r = i"
  shows "keys_ok (map row_key (jb_runs (replace_run i r db)))"
proof -
  let ?f = "\<lambda>x. if ru_id x = i then r else x"
  have ids: "map ru_id (map ?f (jb_runs db)) = map ru_id (jb_runs db)" using assms(3) by simp
  have d: "distinct (map ru_id (jb_runs db))" "distinct (map (\<lambda>x. (ru_owner x, ru_key x)) (jb_runs db))"
    using assms(1) by (simp_all add: keys_ok_def row_key_def comp_def)
  have free: "(ru_owner x, ru_key x) \<noteq> (ru_owner r, ru_key r)" "ru_planned r \<noteq> None \<Longrightarrow> (ru_schedule x, ru_planned x) \<noteq> (ru_schedule r, ru_planned r)"
    if "x \<in> set (jb_runs db)" "ru_id x \<noteq> i" for x
    using assms(2,3) that by (auto simp: slot_taken_def)
  have inj: "inj_on (\<lambda>x. (ru_owner (?f x), ru_key (?f x))) (set (jb_runs db))"
  proof (rule inj_onI)
    fix x y assume m: "x \<in> set (jb_runs db)" "y \<in> set (jb_runs db)" and e: "(ru_owner (?f x), ru_key (?f x)) = (ru_owner (?f y), ru_key (?f y))"
    have kx: "ru_id x = i \<longleftrightarrow> ru_id y = i" using free(1)[OF m(1)] free(1)[OF m(2)] e by (auto split: if_splits)
    show "x = y"
    proof (cases "ru_id x = i")
      case True
      with kx show ?thesis by (intro same_id[OF d(1) m]) simp
    next
      case False
      with kx e show ?thesis by (intro distinct_map_eq[OF d(2) m]) simp
    qed
  qed
  have keys: "distinct (map (\<lambda>x. (ru_owner x, ru_key x)) (map ?f (jb_runs db)))"
    using inj d(1) by (simp add: distinct_map comp_def)
  have same: "fst x = fst y" if "x \<in> set (map row_key (map ?f (jb_runs db)))" "y \<in> set (map row_key (map ?f (jb_runs db)))"
    "snd (snd (snd x)) \<noteq> None" "snd (snd x) = snd (snd y)" for x y
  proof -
    from that(1) obtain a where a: "a \<in> set (jb_runs db)" "x = row_key (?f a)" by auto
    from that(2) obtain b where b: "b \<in> set (jb_runs db)" "y = row_key (?f b)" by auto
    consider "ru_id a = i" "ru_id b = i" | "ru_id a = i" "ru_id b \<noteq> i" | "ru_id a \<noteq> i" "ru_id b = i" | "ru_id a \<noteq> i" "ru_id b \<noteq> i" by blast
    then show ?thesis
    proof cases
      case 1
      with a b show ?thesis by simp
    next
      case 2
      with free(2)[OF b(1)] a b that(3,4) show ?thesis by (auto simp: row_key_def)
    next
      case 3
      with free(2)[OF a(1)] a b that(3,4) show ?thesis by (auto simp: row_key_def)
    next
      case 4
      then have "x = row_key a" "y = row_key b" using a b by simp_all
      moreover have "row_key a \<in> set (map row_key (jb_runs db))" "row_key b \<in> set (map row_key (jb_runs db))" using a b by simp_all
      ultimately show ?thesis using assms(1) that(3,4) unfolding keys_ok_def by metis
    qed
  qed
  have "distinct (map ru_id (map ?f (jb_runs db)))" using d(1) by (simp only: ids)
  moreover have "jb_runs (replace_run i r db) = map ?f (jb_runs db)" by (simp add: replace_run_def update_runs_def)
  moreover have "map fst (map row_key rows) = map ru_id rows" "map (fst \<circ> snd) (map row_key rows) = map (\<lambda>x. (ru_owner x, ru_key x)) rows" for rows
    by (simp_all add: row_key_def comp_def)
  moreover have "\<forall>x \<in> set (map row_key (map ?f (jb_runs db))). \<forall>y \<in> set (map row_key (map ?f (jb_runs db))).
      snd (snd (snd x)) \<noteq> None \<longrightarrow> snd (snd x) = snd (snd y) \<longrightarrow> fst x = fst y" using same by blast
  ultimately show ?thesis unfolding keys_ok_def using keys by (simp only:)
qed


lemma reused_attempts:
  assumes "attempts_ok db" "distinct (map ru_id (jb_runs db))" "old \<in> set (jb_runs db)" "ru_attempts old = 1"
    "a \<in> set (jb_attempts db)" "ja_run a = ru_id old" "ja_number a = 1" "fresh_row x" "ru_id x = ru_id old"
  shows "attempts_ok (replace_run (ru_id old) x (db\<lparr>jb_attempts := filter (\<lambda>y. ja_token y \<noteq> ja_token a) (jb_attempts db)\<rparr>))"
proof -
  have gone: "ja_token b = ja_token a" if b: "b \<in> set (jb_attempts db)" "ja_run b = ru_id old" for b
  proof -
    obtain r where "r \<in> set (jb_runs db)" "ru_id r = ja_run b" "1 \<le> ja_number b" "ja_number b \<le> ru_attempts r" using assms(1) b(1) by (auto simp: attempts_ok_def)
    moreover from this b(2) same_id[OF assms(2) _ assms(3)] have "r = old" by simp
    ultimately have "(ja_run b, ja_number b) = (ja_run a, ja_number a)" using assms(4,6,7) b(2) by simp
    moreover have "distinct (map (\<lambda>a. (ja_run a, ja_number a)) (jb_attempts db))" using assms(1) by (simp add: attempts_ok_def)
    ultimately have "b = a" by (intro distinct_map_eq[OF _ b(1) assms(5)])
    then show ?thesis by simp
  qed
  let ?db = "replace_run (ru_id old) x (db\<lparr>jb_attempts := filter (\<lambda>y. ja_token y \<noteq> ja_token a) (jb_attempts db)\<rparr>)"
  have runs: "jb_runs ?db = map (\<lambda>y. if ru_id y = ru_id old then x else y) (jb_runs db)"
    and as: "jb_attempts ?db = filter (\<lambda>y. ja_token y \<noteq> ja_token a) (jb_attempts db)" by (simp_all add: replace_run_def update_runs_def)
  have "\<forall>b \<in> set (jb_attempts ?db). 1 \<le> ja_number b \<and> (\<exists>r \<in> set (jb_runs ?db). ru_id r = ja_run b \<and> ja_number b \<le> ru_attempts r)"
  proof
    fix b assume "b \<in> set (jb_attempts ?db)"
    then have b: "b \<in> set (jb_attempts db)" "ja_token b \<noteq> ja_token a" by (simp_all add: as)
    obtain r where r: "r \<in> set (jb_runs db)" "ru_id r = ja_run b" "1 \<le> ja_number b" "ja_number b \<le> ru_attempts r" using assms(1) b(1) by (auto simp: attempts_ok_def)
    moreover have "ja_run b \<noteq> ru_id old" using gone b by blast
    then have "r \<in> set (jb_runs ?db)" using r(1,2) by (force simp: runs)
    ultimately show "1 \<le> ja_number b \<and> (\<exists>r \<in> set (jb_runs ?db). ru_id r = ja_run b \<and> ja_number b \<le> ru_attempts r)" by blast
  qed
  moreover have "\<forall>r \<in> set (jb_runs ?db). 0 \<le> ru_attempts r \<and> ru_attempts r \<le> ru_max_attempts r \<and> ru_max_attempts r \<le> 10
      \<and> (pending_state (ru_state r) \<longrightarrow> ru_attempts r < ru_max_attempts r)"
  proof
    fix r assume "r \<in> set (jb_runs ?db)"
    then have "r = x \<or> r \<in> set (jb_runs db)" by (auto simp: runs split: if_splits)
    with assms(1,8) show "0 \<le> ru_attempts r \<and> ru_attempts r \<le> ru_max_attempts r \<and> ru_max_attempts r \<le> 10
      \<and> (pending_state (ru_state r) \<longrightarrow> ru_attempts r < ru_max_attempts r)" by (auto simp: attempts_ok_def fresh_row_def)
  qed
  moreover have "distinct (map ja_token (jb_attempts ?db))" "distinct (map (\<lambda>a. (ja_run a, ja_number a)) (jb_attempts ?db))"
    using assms(1) unfolding as by (simp_all add: attempts_ok_def distinct_map_filter)
  ultimately show ?thesis by (simp only: attempts_ok_def)
qed

text \<open>All plans are sound but one, none of whose runs is open.\<close>

definition plans_but :: "string \<Rightarrow> job_db \<Rightarrow> bool" where
  "plans_but i db \<longleftrightarrow> distinct (map sd_id (jb_schedules db)) \<and> (\<forall>r \<in> set (jb_runs db). ru_id r \<noteq> [])
     \<and> (\<forall>r \<in> set (jb_runs db). ru_schedule r \<noteq> [] \<and> ru_schedule r \<noteq> i \<and> open_state (ru_state r) \<longrightarrow> (ru_schedule r, ru_id r) \<in> plan_key ` set (jb_schedules db))"

definition closed_plan :: "string \<Rightarrow> job_db \<Rightarrow> bool" where
  "closed_plan i db \<longleftrightarrow> (\<forall>r \<in> set (jb_runs db). ru_schedule r = i \<longrightarrow> \<not> open_state (ru_state r))"

lemma put_schedule_plans:
  assumes "plans_but (sd_id s) db" "sd_id s \<in> sd_id ` set (jb_schedules db)"
    "\<forall>r \<in> set (jb_runs db). ru_schedule r = sd_id s \<and> open_state (ru_state r) \<longrightarrow> ru_id r = sd_run s"
  shows "plans_ok (put_schedule s db)"
proof -
  let ?f = "\<lambda>x. if sd_id x = sd_id s then s else x"
  have ss: "jb_schedules (put_schedule s db) = map ?f (jb_schedules db)" "jb_runs (put_schedule s db) = jb_runs db"
    by (simp_all add: put_schedule_def update_schedules_def)
  have ids: "map sd_id (map ?f (jb_schedules db)) = map sd_id (jb_schedules db)" by simp
  have mine: "plan_key s \<in> plan_key ` set (map ?f (jb_schedules db))" using assms(2) by force
  have others: "k \<in> plan_key ` set (map ?f (jb_schedules db))" if "k \<in> plan_key ` set (jb_schedules db)" "fst k \<noteq> sd_id s" for k
  proof -
    from that(1) obtain x where x: "x \<in> set (jb_schedules db)" "k = plan_key x" by blast
    with that(2) have "?f x = x" by (simp add: plan_key_def)
    moreover have "?f x \<in> set (map ?f (jb_schedules db))" using x(1) unfolding set_map by (rule imageI)
    ultimately show ?thesis using x(2) by simp
  qed
  have "(ru_schedule r, ru_id r) \<in> plan_key ` set (map ?f (jb_schedules db))"
    if r: "r \<in> set (jb_runs db)" "ru_schedule r \<noteq> []" "open_state (ru_state r)" for r
  proof (cases "ru_schedule r = sd_id s")
    case True
    with assms(3) r have "(ru_schedule r, ru_id r) = plan_key s" by (simp add: plan_key_def)
    with mine show ?thesis by simp
  next
    case False
    with assms(1) r have "(ru_schedule r, ru_id r) \<in> plan_key ` set (jb_schedules db)" by (auto simp: plans_but_def)
    with others False show ?thesis by simp
  qed
  moreover have "distinct (map sd_id (map ?f (jb_schedules db)))" using assms(1) by (simp only: ids plans_but_def)
  ultimately show ?thesis using assms(1) by (auto simp: plans_ok_def plans_but_def ss)
qed


lemma sound_dispatch:
  assumes "dispatch_slot se d clock fresh planned s db = Inr (s', db')" "sd_id s = jd_id d" "jd_id d \<in> sd_id ` set (jb_schedules db)" "fresh \<noteq> []"
    "keys_ok (map row_key (jb_runs db))" "attempts_ok db" "plans_but (jd_id d) db" "closed_plan (jd_id d) db"
  shows "rows_sound (put_schedule s' db')"
  using assms(1)
proof (cases rule: dispatch_slot_cases)
  case (1 r0 r)
  let ?r = "r0\<lparr>ru_schedule := jd_id d, ru_planned := Some planned\<rparr>"
  have fresh: "fresh_row ?r" "ru_id ?r = fresh" "ru_schedule ?r = jd_id d" using prepared_row[OF 1(1)] by (simp_all add: fresh_row_def)
  have s': "sd_id s' = jd_id d" "sd_run s' = ru_id r" using 1(3) assms(2) by simp_all
  have ids: "distinct (map ru_id (jb_runs db))" using assms(5) by (simp add: keys_ok_def row_key_def comp_def)
  have same: "keys_ok (map row_key (jb_runs (put_schedule s' x))) = keys_ok (map row_key (jb_runs x))" "attempts_ok (put_schedule s' x) = attempts_ok x" for x
    by (simp_all add: put_schedule_def update_schedules_def attempts_ok_def)
  have "keys_ok (map row_key (jb_runs db')) \<and> attempts_ok db' \<and> jb_schedules db' = jb_schedules db
    \<and> (\<forall>x \<in> set (jb_runs db'). x \<in> set (jb_runs db) \<or> ru_id x = ru_id r \<and> ru_schedule x = jd_id d \<and> ru_id x \<noteq> [])"
    using 1(2)
  proof (elim disjE conjE)
    assume "reuse_periodic_success s ?r db = Inr (Some (r, db'))"
    then show ?thesis
    proof (cases rule: reuse_cases)
      case (1 old a)
      have x: "fresh_row r" "ru_id r = ru_id old" "ru_schedule r = jd_id d" using 1(8) fresh by (simp_all add: fresh_row_def)
      have runs: "jb_runs db' = map (\<lambda>y. if ru_id y = ru_id old then r else y) (jb_runs db)" by (simp add: 1(10) replace_run_def update_runs_def)
      have "keys_ok (map row_key (jb_runs db'))"
        using replaced_keys[OF assms(5) 1(9) x(2)] by (simp add: runs replace_run_def update_runs_def)
      moreover have "attempts_ok db'"
        unfolding 1(10) by (rule reused_attempts[OF assms(6) ids 1(1) _ 1(4-6) x(1,2)]) (use 1(3) in \<open>simp add: reusable_run_def\<close>)
      moreover have "jb_schedules db' = jb_schedules db" by (simp add: 1(10) replace_run_def update_runs_def)
      moreover have "ru_id old \<noteq> []" using assms(7) 1(1) by (simp add: plans_but_def)
      moreover have "\<forall>y \<in> set (jb_runs db'). y \<in> set (jb_runs db) \<or> y = r" by (auto simp: runs)
      ultimately show ?thesis using x by auto
    qed
  next
    assume "insert_submission ?r db = Inr (r, db')"
    then show ?thesis
    proof (cases rule: insert_cases)
      case existing
      with assms(5,6) show ?thesis by simp
    next
      case added
      have "keys_ok (map row_key (jb_runs db @ [?r]))" by (rule added_keys[OF assms(5) added(3,4)])
      moreover have "attempts_ok (db\<lparr>jb_runs := jb_runs db @ [?r]\<rparr>)" by (rule added_attempts[OF assms(6) fresh(1)])
      ultimately show ?thesis using added(1,2) fresh assms(4) by auto
    qed
  qed
  note k = this
  have "plans_ok (put_schedule s' db')"
  proof (rule put_schedule_plans)
    show "plans_but (sd_id s') db'" using k assms(7) s'(1) unfolding plans_but_def by (metis)
    show "sd_id s' \<in> sd_id ` set (jb_schedules db')" using k assms(3) s'(1) by simp
    show "\<forall>x \<in> set (jb_runs db'). ru_schedule x = sd_id s' \<and> open_state (ru_state x) \<longrightarrow> ru_id x = sd_run s'"
      using k assms(8) s' unfolding closed_plan_def by metis
  qed
  with k show ?thesis by (simp add: rows_sound_def same)
qed


lemma applied_plan [simp]: "sd_id (apply_definition d now s) = sd_id s" "sd_run (apply_definition d now s) = sd_run s"
  by (simp_all add: apply_definition_def Let_def)

lemma adopted_plan [simp]: "sd_id (adopt_outcome now r s) = sd_id s" "sd_run (adopt_outcome now r s) = []"
  by (simp_all add: adopt_outcome_def Let_def)

lemma sound_put:
  assumes "sd_id s = jd_id d" "jd_id d \<in> sd_id ` set (jb_schedules db)"
    "keys_ok (map row_key (jb_runs db))" "attempts_ok db" "plans_but (jd_id d) db" "closed_plan (jd_id d) db"
  shows "rows_sound (put_schedule s db)"
proof -
  have "plans_ok (put_schedule s db)"
    by (rule put_schedule_plans) (use assms in \<open>auto simp: closed_plan_def\<close>)
  moreover have "jb_runs (put_schedule s db) = jb_runs db" "jb_attempts (put_schedule s db) = jb_attempts db"
    by (simp_all add: put_schedule_def update_schedules_def)
  ultimately show ?thesis using assms(3,4) by (simp add: rows_sound_def attempts_ok_def)
qed

lemma plan_due_cases:
  assumes "plan_due se d now clock fresh s db = Inr (out, db')"
  obtains (stored) s' where "db' = put_schedule s' db" "sd_id s' = sd_id s"
  | (planned) planned upcoming missed s1 s2 db1 where "\<not> now < sd_next (apply_definition d now s)"
      "resolve_due_slot (sd_next (apply_definition d now s)) now (jd_interval d) (jd_misfire d) = (planned, upcoming, missed, True)"
      "s1 = (apply_definition d now s)\<lparr>sd_next := upcoming, sd_missed := sd_missed s + missed, sd_sequence := Suc (sd_sequence s)\<rparr>"
      "dispatch_slot se d clock fresh planned s1 db = Inr (s2, db1)" "db' = put_schedule s2 db1" "dp_next out = sd_next s2"
proof (cases "now < sd_next (apply_definition d now s) \<or> jd_suppress d")
  case True
  with assms show ?thesis by (intro stored[of "apply_definition d now s"]) (auto simp: plan_due_def Let_def split: if_splits)
next
  case False
  obtain planned upcoming missed go where r: "resolve_due_slot (sd_next (apply_definition d now s)) now (jd_interval d) (jd_misfire d) = (planned, upcoming, missed, go)"
    by (metis prod_cases4)
  have m: "sd_missed (apply_definition d now s) = sd_missed s" "sd_sequence (apply_definition d now s) = sd_sequence s"
    by (simp_all add: apply_definition_def Let_def)
  show ?thesis
  proof (cases go)
    case True
    with assms False r m obtain s2 db1 where "dispatch_slot se d clock fresh planned
        ((apply_definition d now s)\<lparr>sd_next := upcoming, sd_missed := sd_missed s + missed, sd_sequence := Suc (sd_sequence s)\<rparr>) db = Inr (s2, db1)"
      "db' = put_schedule s2 db1" "dp_next out = sd_next s2" by (auto simp: plan_due_def Let_def)
    with True False r show ?thesis by (intro planned) simp_all
  next
    case no: False
    with assms False r m show ?thesis
      by (intro stored[of "(apply_definition d now s)\<lparr>sd_next := upcoming, sd_missed := sd_missed s + missed\<rparr>"]) (auto simp: plan_due_def Let_def)
  qed
qed

lemma sound_plan_due:
  assumes "plan_due se d now clock fresh s db = Inr (out, db')" "sd_id s = jd_id d" "jd_id d \<in> sd_id ` set (jb_schedules db)" "fresh \<noteq> []"
    "keys_ok (map row_key (jb_runs db))" "attempts_ok db" "plans_but (jd_id d) db" "closed_plan (jd_id d) db"
  shows "rows_sound db'"
  using assms(1)
proof (cases rule: plan_due_cases)
  case (stored s')
  with assms show ?thesis by (auto intro: sound_put)
next
  case (planned planned upcoming missed s1 s2 db1)
  then show ?thesis by (simp only:) (rule sound_dispatch[OF planned(4) _ assms(3-8)], simp add: planned(3) assms(2))
qed

lemma stored_cases:
  assumes "stored_schedule d now db = (s, db0)"
  obtains (found) "s \<in> set (jb_schedules db)" "sd_id s = jd_id d" "db0 = db"
  | (created) "jd_id d \<notin> sd_id ` set (jb_schedules db)" "sd_id s = jd_id d" "sd_run s = []" "db0 = db\<lparr>jb_schedules := jb_schedules db @ [s]\<rparr>"
proof (cases "List.find (\<lambda>s. sd_id s = jd_id d) (jb_schedules db)")
  case None
  then have "jd_id d \<notin> sd_id ` set (jb_schedules db)" by (auto simp: find_None_iff)
  with None assms show ?thesis by (intro created) (auto simp: stored_schedule_def Let_def new_schedule_def)
next
  case (Some x)
  with assms find_member[OF Some] show ?thesis by (intro found) (auto simp: stored_schedule_def)
qed

lemma stored_sound:
  assumes "stored_schedule d now db = (s, db0)" "rows_sound db"
  shows "rows_sound db0 \<and> s \<in> set (jb_schedules db0) \<and> sd_id s = jd_id d"
  using assms(1)
proof (cases rule: stored_cases)
  case created
  with assms(2) show ?thesis by (auto simp: rows_sound_def plans_ok_def attempts_ok_def)
qed (use assms in simp)

lemma plan_runs:
  assumes "plans_ok db" "s \<in> set (jb_schedules db)" "r \<in> set (jb_runs db)" "ru_schedule r = sd_id s" "ru_schedule r \<noteq> []" "open_state (ru_state r)"
  shows "ru_id r = sd_run s"
proof -
  from assms obtain x where x: "x \<in> set (jb_schedules db)" "sd_id x = sd_id s" "sd_run x = ru_id r"
    by (force simp: plans_ok_def plan_key_def)
  moreover have "distinct (map sd_id (jb_schedules db))" using assms(1) by (simp add: plans_ok_def)
  ultimately have "x = s" by (intro distinct_map_eq[OF _ x(1) assms(2)])
  with x show ?thesis by simp
qed

lemma plans_but_ok: "plans_ok db \<Longrightarrow> plans_but i db" by (auto simp: plans_ok_def plans_but_def)

lemma kept_interrupt: "interrupt_lost d r db = (r', db') \<Longrightarrow> kept db db'"
  by (auto simp: interrupt_lost_def progress_defs split: if_splits intro!: kept_update_runs)

lemma sound_schedule_step:
  assumes "schedule_step se d now clock fresh db = Inr (out, db')" "rows_sound db" "jd_id d \<noteq> []" "fresh \<noteq> []"
  shows "rows_sound db'"
  using assms(1)
proof (cases rule: schedule_step_cases)
  case (idle s db0)
  have o: "rows_sound db0" "s \<in> set (jb_schedules db0)" "sd_id s = jd_id d" using stored_sound[OF idle(1) assms(2)] by simp_all
  have "closed_plan (jd_id d) db0"
    using plan_runs[of db0 s] o idle(3) assms(3) by (auto simp: closed_plan_def rows_sound_def plans_ok_def)
  moreover have "jd_id d \<in> sd_id ` set (jb_schedules db0)" using o(2,3) by (metis imageI)
  ultimately show ?thesis using o by (intro sound_plan_due[OF idle(4) o(3) _ assms(4)]) (auto simp: rows_sound_def intro: plans_but_ok)
next
  case (busy s db0 r r')
  have o: "rows_sound db0" using stored_sound[OF busy(1) assms(2)] by simp
  show ?thesis by (rule kept_sound[OF kept_interrupt[OF busy(5)] o])
next
  case (over s db0 r r' db1)
  have o: "rows_sound db0" "s \<in> set (jb_schedules db0)" "sd_id s = jd_id d" using stored_sound[OF over(1) assms(2)] by simp_all
  have k: "kept db0 db1" by (rule kept_interrupt[OF over(5)])
  have o1: "rows_sound db1" by (rule kept_sound[OF k o(1)])
  have r: "r \<in> set (jb_runs db0)" "ru_id r = sd_run s" using find_member[OF over(4)] by simp_all
  have member: "(sd_id s, sd_run s) \<in> plan_key ` set (jb_schedules db1)"
    using k o(2) by (metis kept_def plan_key_def image_eqI set_map)
  have shut: "\<not> open_state (ru_state x)" if x: "x \<in> set (jb_runs db1)" "ru_schedule x = jd_id d" for x
  proof
    assume op: "open_state (ru_state x)"
    from member obtain s1 where s1: "s1 \<in> set (jb_schedules db1)" "sd_id s1 = sd_id s" "sd_run s1 = sd_run s" by (auto simp: plan_key_def)
    have "ru_id x = ru_id r" using plan_runs[of db1 s1 x] o1 s1 x op o(3) r(2) assms(3) by (simp add: rows_sound_def)
    moreover obtain y where y: "y \<in> set (jb_runs db0)" "progress y x" using kept_origin[OF k x(1)] by blast
    moreover from y(2) have "ru_id x = ru_id y" by (simp add: progress_def row_key_def)
    ultimately have "y = r" by (intro same_id[OF rows_sound_ids[OF o(1)] y(1) r(1)]) simp
    with y(2) op have "open_state (ru_state r)" by (simp add: progress_def)
    moreover have "\<not> open_state (ru_state r)" using over(5-7)
      by (cases "ru_state r = Unknown") (auto simp: interrupt_lost_def open_state_def pending_state_def active_state_def split: if_splits)
    ultimately show False by simp
  qed
  have "jd_id d \<in> sd_id ` set (jb_schedules db1)" using member o(3) by (force simp: plan_key_def)
  with o1 shut show ?thesis
    by (intro sound_plan_due[OF over(9) _ _ assms(4)]) (auto simp: rows_sound_def closed_plan_def o(3) intro: plans_but_ok)
qed

lemma sound_schedule:
  assumes "schedule_job se d probe clock submitted fresh db = Inr (out, db')" "rows_sound db" "fresh \<noteq> []"
  shows "rows_sound db'"
proof -
  have i: "jd_id (definition_defaults d) = jd_id d" by (simp add: definition_defaults_def Let_def)
  from assms(1) have named: "jd_id d \<noteq> []" by (auto simp: schedule_job_def Let_def definition_bad_def i split: if_splits)
  from assms(1) consider "db' = db"
    | locked where "lock_budget db = Inr locked" "schedule_step se (definition_defaults d) (trunc_ms clock) submitted fresh locked = Inr (out, db')"
    by (auto simp: schedule_job_def Let_def split: if_splits option.splits)
  then show ?thesis
  proof cases
    case 2
    from sound_schedule_step[OF 2(2) kept_sound[OF kept_lock[OF 2(1)] assms(2)] _ assms(3)] named i show ?thesis by simp
  qed (use assms in simp)
qed

lemma sound_prune:
  assumes "prune_candidates before state candidates db = (n, db')" "rows_sound db"
  shows "rows_sound db'"
proof -
  define ids where "ids = map ru_id (sort_key ru_id (filter (\<lambda>r. periodic_candidate db before state r \<and> ru_id r \<in> set candidates) (jb_runs db)))"
  define tokens where "tokens = set (take prune_batch (map ja_token (sort_key ja_run (sort_key ja_number (filter (\<lambda>a. ja_run a \<in> set ids) (jb_attempts db))))))"
  define gone where "gone r \<longleftrightarrow> ru_id r \<in> set ids \<and> ru_id r \<notin> set (map ja_run (filter (\<lambda>a. ja_token a \<notin> tokens) (jb_attempts db)))" for r :: job_run
  have "db' = db\<lparr>jb_attempts := filter (\<lambda>a. ja_token a \<notin> tokens) (jb_attempts db), jb_runs := filter (\<lambda>r. \<not> gone r) (jb_runs db)\<rparr>"
    using assms(1) unfolding prune_candidates_def Let_def ids_def[symmetric] tokens_def[symmetric] gone_def[symmetric] by (rule sym[OF conjunct2[OF iffD1[OF prod.inject]]])
  then have p: "jb_attempts db' = filter (\<lambda>a. ja_token a \<notin> tokens) (jb_attempts db)" "jb_runs db' = filter (\<lambda>r. \<not> gone r) (jb_runs db)"
    "jb_schedules db' = jb_schedules db" "\<forall>r. gone r \<longrightarrow> ru_id r \<notin> ja_run ` set (jb_attempts db')"
    by (simp_all add: gone_def)
  have sub: "set (map row_key (jb_runs db')) \<subseteq> set (map row_key (jb_runs db))" by (auto simp: p(2))
  have "keys_ok (map row_key (jb_runs db))" using assms(2) by (simp add: rows_sound_def)
  then have "keys_ok (map row_key (jb_runs db'))" using sub
    unfolding keys_ok_def p(2) by (simp add: distinct_map_filter comp_def) blast
  moreover have "attempts_ok db'"
  proof -
    have a: "attempts_ok db" using assms(2) by (simp add: rows_sound_def)
    have "\<forall>b \<in> set (jb_attempts db'). 1 \<le> ja_number b \<and> (\<exists>r \<in> set (jb_runs db'). ru_id r = ja_run b \<and> ja_number b \<le> ru_attempts r)"
    proof
      fix b assume b: "b \<in> set (jb_attempts db')"
      with a obtain r where r: "r \<in> set (jb_runs db)" "ru_id r = ja_run b" "1 \<le> ja_number b" "ja_number b \<le> ru_attempts r"
        by (auto simp: attempts_ok_def p(1))
      have "\<not> gone r" using p(4) b r(2) by (metis imageI)
      with r show "1 \<le> ja_number b \<and> (\<exists>r \<in> set (jb_runs db'). ru_id r = ja_run b \<and> ja_number b \<le> ru_attempts r)" by (auto simp: p(2))
    qed
    moreover have "distinct (map ja_token (jb_attempts db'))" "distinct (map (\<lambda>a. (ja_run a, ja_number a)) (jb_attempts db'))"
      using a by (simp_all add: attempts_ok_def p(1) distinct_map_filter)
    moreover have "\<forall>r \<in> set (jb_runs db'). r \<in> set (jb_runs db)" by (simp add: p(2))
    ultimately show ?thesis using a unfolding attempts_ok_def by blast
  qed
  moreover have "plans_ok db'" using assms(2) by (auto simp: rows_sound_def plans_ok_def p(2,3))
  ultimately show ?thesis by (simp add: rows_sound_def)
qed

section \<open>The claim\<close>

lemma least_by_member: "least_by before xs = Some x \<Longrightarrow> x \<in> set xs"
  by (induction xs arbitrary: x) (auto split: option.splits if_splits)

lemma claim_next_cases:
  assumes "claim_next now worker handlers timeout token db = Inr (Some (c, db'))"
  obtains r pick t where "r \<in> set (jb_runs db)" "eligible db now handlers r" "ru_lane r = fst pick"
    "select_dispatch_lane (filter (eligible db now handlers) (jb_runs db)) (jb_lanes db) (jb_vtime db) = Some pick"
    "claim_timeout db r timeout = Inr t" "grant_lease token worker now (now + t) r pick db = Inr (c, db')"
proof -
  let ?rows = "filter (eligible db now handlers) (jb_runs db)"
  from assms obtain pick where p: "select_dispatch_lane ?rows (jb_lanes db) (jb_vtime db) = Some pick"
    by (auto simp: claim_next_def Let_def split: option.splits)
  with assms obtain r where r: "least_by run_before (filter (\<lambda>r. ru_lane r = fst pick) ?rows) = Some r"
    by (auto simp: claim_next_def Let_def split: option.splits)
  with assms p obtain t where t: "claim_timeout db r timeout = Inr t" "map_sum id Some (grant_lease token worker now (now + t) r pick db) = Inr (Some (c, db'))"
    by (auto simp: claim_next_def Let_def)
  from t(2) have g: "grant_lease token worker now (now + t) r pick db = Inr (c, db')" by (cases "grant_lease token worker now (now + t) r pick db") auto
  from least_by_member[OF r] show ?thesis by (intro that[OF _ _ _ p t(1) g]) simp_all
qed

lemma claim_cases:
  assumes "claim_job probe clock token worker handlers timeout db = (out, db')"
  obtains (unclaimed) e where "out = Inl e" "db' = db \<or> (\<exists>locked. lock_budget db = Inr locked \<and> db' = expire_leases (trunc_ms clock) locked)"
  | (leased) c locked where "out = Inr c" "lock_budget db = Inr locked" "\<not> no_slot (expire_leases (trunc_ms clock) locked)"
      "claim_next (trunc_ms clock) worker handlers timeout token (expire_leases (trunc_ms clock) locked) = Inr (Some (c, db'))"
      "worker \<noteq> []"
proof (cases "(worker = [] \<or> length worker > 160 \<or> handlers = [] \<or> timeout \<le> 0 \<or> timeout > hour)
    \<or> \<not> (\<exists>r \<in> set (jb_runs db). claimable (trunc_ms probe) handlers r)")
  case True
  then have "(\<exists>e. out = Inl e) \<and> db' = db" using assms by (auto simp: claim_job_def split: if_splits)
  then show ?thesis using unclaimed by blast
next
  case False
  then have go: "claim_job probe clock token worker handlers timeout db = (case lock_budget db of Inl e \<Rightarrow> (Inl e, db) | Inr locked \<Rightarrow>
      let now = trunc_ms clock; swept = expire_leases now locked in
      if no_slot swept then (Inl err_empty, swept)
      else case claim_next now worker handlers timeout token swept of Inl e \<Rightarrow> (Inl e, db) | Inr None \<Rightarrow> (Inl err_empty, swept) | Inr (Some (c, db')) \<Rightarrow> (Inr c, db'))"
    by (auto simp: claim_job_def)
  show ?thesis
  proof (cases "lock_budget db")
    case (Inl e)
    with assms go show ?thesis by (intro unclaimed[of e]) auto
  next
    case (Inr locked)
    let ?swept = "expire_leases (trunc_ms clock) locked"
    show ?thesis
    proof (cases "no_slot ?swept")
      case True
      with assms go Inr show ?thesis by (intro unclaimed[of err_empty]) (auto simp: Let_def)
    next
      case free: False
      show ?thesis
      proof (cases "claim_next (trunc_ms clock) worker handlers timeout token ?swept")
        case (Inl e)
        with assms go Inr free \<open>lock_budget db = Inr locked\<close> show ?thesis by (intro unclaimed[of e]) (auto simp: Let_def)
      next
        case (Inr found)
        show ?thesis
        proof (cases found)
          case None
          with assms go Inr free \<open>lock_budget db = Inr locked\<close> show ?thesis by (intro unclaimed[of err_empty]) (auto simp: Let_def)
        next
          case (Some x)
          obtain c db1 where x: "x = (c, db1)" by fastforce
          with assms go Inr free Some \<open>lock_budget db = Inr locked\<close> have "out = Inr c" "db' = db1" by (simp_all add: Let_def)
          with \<open>lock_budget db = Inr locked\<close> Inr Some x free False show ?thesis by (intro leased) simp_all
        qed
      qed
    qed
  qed
qed


lemma grant_facts:
  assumes "grant_lease token worker now expiry r pick db = Inr (c, db')"
  defines "runs \<equiv> map (\<lambda>x. if ru_id x = ru_id r then start_run token worker expiry x else x) (jb_runs db)"
  shows "jb_runs db' = runs" "jb_attempts db' = jb_attempts db @ [new_attempt token worker now expiry r]"
    "map plan_key (jb_schedules db') = map plan_key (jb_schedules db)" "jb_capacity db' = jb_capacity db" "jb_groups db' = jb_groups db"
    "jb_lanes db' = (jb_lanes db)(fst pick := snd (snd pick))" "jb_vtime db' = fst (snd pick)"
    "\<not> attempt_taken (new_attempt token worker now expiry r) db"
    "cl_token c = token" "cl_worker c = worker" "vw_id (cl_run c) = ru_id r" "su_lane (vw_submission (cl_run c)) = ru_lane r"
  using assms by (auto simp: grant_lease_def Let_def update_runs_def update_schedules_def plan_key_def run_view_def split: prod.splits if_splits)

lemma sound_grant:
  assumes "grant_lease token worker now expiry r pick db = Inr (c, db')" "rows_sound db" "r \<in> set (jb_runs db)" "pending_state (ru_state r)"
  shows "rows_sound db'"
proof -
  note g = grant_facts[OF assms(1)]
  let ?f = "\<lambda>x. if ru_id x = ru_id r then start_run token worker expiry x else x"
  have ids: "distinct (map ru_id (jb_runs db))" by (rule rows_sound_ids[OF assms(2)])
  have a: "attempts_ok db" and p: "plans_ok db" using assms(2) by (simp_all add: rows_sound_def)
  have key: "row_key (?f x) = row_key x" for x by (simp add: start_run_def row_key_def)
  then have "map row_key (jb_runs db') = map row_key (jb_runs db)" by (simp add: g(1))
  moreover have "attempts_ok db'"
  proof -
    have bounds: "0 \<le> ru_attempts r" "ru_attempts r < ru_max_attempts r" "ru_max_attempts r \<le> 10" using a assms(3,4) by (auto simp: attempts_ok_def)
    have "\<forall>x \<in> set (jb_attempts db). ja_token x \<noteq> token \<and> (ja_run x, ja_number x) \<noteq> (ru_id r, ru_attempts r + 1)"
      using g(8) by (auto simp: attempt_taken_def new_attempt_def)
    then have "distinct (map ja_token (jb_attempts db'))" "distinct (map (\<lambda>a. (ja_run a, ja_number a)) (jb_attempts db'))"
      using a by (auto simp: g(2) attempts_ok_def new_attempt_def)
    moreover have grown: "\<exists>y \<in> set (jb_runs db'). ru_id y = ru_id x \<and> ru_attempts x \<le> ru_attempts y" if "x \<in> set (jb_runs db)" for x
      by (rule bexI[of _ "?f x"]) (use that in \<open>auto simp: g(1) start_run_def\<close>)
    then have "\<forall>b \<in> set (jb_attempts db). 1 \<le> ja_number b \<and> (\<exists>y \<in> set (jb_runs db'). ru_id y = ja_run b \<and> ja_number b \<le> ru_attempts y)"
      using a unfolding attempts_ok_def by (metis order_trans)
    moreover have "\<exists>y \<in> set (jb_runs db'). ru_id y = ru_id r \<and> ru_attempts r + 1 \<le> ru_attempts y"
      by (rule bexI[of _ "?f r"]) (use assms(3) in \<open>auto simp: g(1) start_run_def\<close>)
    moreover have "\<forall>y \<in> set (jb_runs db'). 0 \<le> ru_attempts y \<and> ru_attempts y \<le> ru_max_attempts y \<and> ru_max_attempts y \<le> 10
        \<and> (pending_state (ru_state y) \<longrightarrow> ru_attempts y < ru_max_attempts y)"
    proof
      fix y assume "y \<in> set (jb_runs db')"
      then obtain x where x: "x \<in> set (jb_runs db)" "y = ?f x" by (auto simp: g(1))
      show "0 \<le> ru_attempts y \<and> ru_attempts y \<le> ru_max_attempts y \<and> ru_max_attempts y \<le> 10
        \<and> (pending_state (ru_state y) \<longrightarrow> ru_attempts y < ru_max_attempts y)"
      proof (cases "ru_id x = ru_id r")
        case True
        then have "x = r" by (rule same_id[OF ids x(1) assms(3)])
        with x bounds show ?thesis by (simp add: start_run_def pending_state_def)
      next
        case False
        with x a show ?thesis by (auto simp: attempts_ok_def)
      qed
    qed
    ultimately show ?thesis unfolding attempts_ok_def using bounds(1) by (simp add: g(2) new_attempt_def)
  qed
  moreover have "plans_ok db'"
  proof -
    have ks: "plan_key ` set (jb_schedules db') = plan_key ` set (jb_schedules db)" using g(3) by (metis set_map)
    have "map sd_id (jb_schedules db') = map sd_id (jb_schedules db)" using arg_cong[OF g(3), of "map fst"] by (simp add: plan_key_def comp_def)
    then have d: "distinct (map sd_id (jb_schedules db'))" using p by (simp add: plans_ok_def)
    have "ru_id y \<noteq> [] \<and> (ru_schedule y \<noteq> [] \<and> open_state (ru_state y) \<longrightarrow> (ru_schedule y, ru_id y) \<in> plan_key ` set (jb_schedules db))"
      if "y \<in> set (jb_runs db')" for y
    proof -
      from that obtain x where x: "x \<in> set (jb_runs db)" "y = ?f x" by (auto simp: g(1))
      have "open_state (ru_state y) \<Longrightarrow> open_state (ru_state x)"
        using x same_id[OF ids x(1) assms(3)] assms(4) by (cases "ru_id x = ru_id r") (simp_all add: open_state_def)
      moreover have "ru_id y = ru_id x" "ru_schedule y = ru_schedule x" using key[of x] x(2) by (simp_all add: row_key_def)
      ultimately show ?thesis using p x(1) by (auto simp: plans_ok_def)
    qed
    with d show ?thesis by (simp add: plans_ok_def ks)
  qed
  ultimately show ?thesis using assms(2) by (simp add: rows_sound_def)
qed

lemma sound_claim:
  assumes "claim_job probe clock token worker handlers timeout db = (out, db')" "rows_sound db"
  shows "rows_sound db'"
  using assms(1)
proof (cases rule: claim_cases)
  case (unclaimed e)
  then show ?thesis using assms(2) by (auto intro: kept_sound kept_expire kept_lock)
next
  case (leased c locked)
  let ?swept = "expire_leases (trunc_ms clock) locked"
  have s: "rows_sound ?swept" by (intro kept_sound[OF kept_expire] kept_sound[OF kept_lock[OF leased(2)]] assms(2))
  from leased(4) show ?thesis
    by (rule claim_next_cases) (rule sound_grant[OF _ s], auto simp: eligible_def)
qed


section \<open>What may run together\<close>

definition lease_resource :: "string \<times> string \<times> string \<times> string \<times> string \<Rightarrow> string" where "lease_resource l = fst (snd (snd (snd l)))"
definition lease_group :: "string \<times> string \<times> string \<times> string \<times> string \<Rightarrow> string" where "lease_group l = snd (snd (snd (snd l)))"

lemma lease_parts [simp]: "lease_resource (lease_of r) = ru_resource r" "lease_group (lease_of r) = ru_group r"
  by (simp_all add: lease_resource_def lease_group_def lease_of_def)

definition leases_ok :: "int \<Rightarrow> (string \<times> int) list \<Rightarrow> (string \<times> string \<times> string \<times> string \<times> string) multiset \<Rightarrow> bool" where
  "leases_ok capacity groups ls \<longleftrightarrow> (ls = {#} \<or> int (size ls) \<le> capacity)
     \<and> (\<forall>res. res \<noteq> [] \<longrightarrow> size {#l \<in># ls. lease_resource l = res#} \<le> 1)
     \<and> (\<forall>l \<in># ls. lease_group l \<noteq> [] \<longrightarrow> (\<exists>(g, c) \<in> set groups. g = lease_group l \<and> int (size {#x \<in># ls. lease_group x = g#}) \<le> c))
     \<and> (\<forall>l \<in># ls. lease_resource l = maintenance_resource \<longrightarrow> size ls = 1)"

lemma leases_ok_mono:
  assumes "leases_ok capacity groups ls" "ls' \<subseteq># ls"
  shows "leases_ok capacity groups ls'"
proof -
  have n: "size (filter_mset Q ls') \<le> size (filter_mset Q ls)" for Q
    by (intro size_mset_mono multiset_filter_mono assms(2))
  have z: "size ls' \<le> size ls" by (rule size_mset_mono[OF assms(2)])
  have "\<exists>(g, c) \<in> set groups. g = lease_group l \<and> int (size {#x \<in># ls'. lease_group x = g#}) \<le> c" if l: "l \<in># ls'" "lease_group l \<noteq> []" for l
  proof -
    from assms l obtain g c where "(g, c) \<in> set groups" "g = lease_group l" "int (size {#x \<in># ls. lease_group x = g#}) \<le> c"
      by (auto simp: leases_ok_def dest: mset_subset_eqD)
    with n[of "\<lambda>x. lease_group x = g"] show ?thesis by (intro bexI[of _ "(g, c)"]) auto
  qed
  moreover have "size ls' = 1" if l: "l \<in># ls'" "lease_resource l = maintenance_resource" for l
  proof -
    have "size ls = 1" using assms l by (auto simp: leases_ok_def dest: mset_subset_eqD)
    moreover have "0 < size ls'" using l(1) by (metis nonempty_has_size empty_iff set_mset_empty)
    ultimately show ?thesis using z by linarith
  qed
  moreover have "size {#l \<in># ls'. lease_resource l = res#} \<le> 1" if "res \<noteq> []" for res
    using assms(1) that n[of "\<lambda>l. lease_resource l = res"] by (auto simp: leases_ok_def intro: order_trans)
  moreover have "ls' = {#} \<or> int (size ls') \<le> capacity"
    using assms z by (auto simp: leases_ok_def)
  ultimately show ?thesis by (simp add: leases_ok_def)
qed

definition limits_ok :: "job_db \<Rightarrow> bool" where "limits_ok db \<longleftrightarrow> leases_ok (jb_capacity db) (jb_groups db) (leases db)"

lemma calm_limits: "calm db db' \<Longrightarrow> limits_ok db \<Longrightarrow> limits_ok db'"
  by (auto simp: limits_ok_def calm_def intro: leases_ok_mono)

lemma active_leases: "active_count db = size (leases db)"
  using count_leases[of "\<lambda>_. True" db] by (simp add: active_count_def)

lemma started_leases:
  assumes "distinct (map ru_id rows)" "r \<in> set rows" "\<not> active_state (ru_state r)"
  shows "leases_of (map (\<lambda>x. if ru_id x = ru_id r then start_run token worker expiry x else x) rows)
    = add_mset (ru_id r, token, worker, ru_resource r, ru_group r) (leases_of rows)"
  using assms(1,2)
proof (induction rows)
  case (Cons x rows)
  show ?case
  proof (cases "ru_id x = ru_id r")
    case True
    with Cons.prems have x: "x = r" by auto
    have "map (\<lambda>x. if ru_id x = ru_id r then start_run token worker expiry x else x) rows = rows"
    proof (rule map_idI)
      fix y assume "y \<in> set rows"
      then have "ru_id y \<in> ru_id ` set rows" by (rule imageI)
      with Cons.prems x have "ru_id y \<noteq> ru_id r" by auto
      then show "(if ru_id y = ru_id r then start_run token worker expiry y else y) = y" by simp
    qed
    with x assms(3) show ?thesis by (simp add: start_run_def lease_of_def active_state_def)
  next
    case False
    then show ?thesis using Cons by auto
  qed
qed simp

lemma limits_grant:
  assumes "grant_lease token worker now expiry r pick db = Inr (c, db')" "distinct (map ru_id (jb_runs db))" "r \<in> set (jb_runs db)"
    "eligible db now handlers r" "\<not> no_slot db" "limits_ok db"
  shows "limits_ok db' \<and> leases db' = add_mset (ru_id r, token, worker, ru_resource r, ru_group r) (leases db)"
proof -
  note g = grant_facts[OF assms(1)]
  let ?l = "(ru_id r, token, worker, ru_resource r, ru_group r)"
  have pending: "pending_state (ru_state r)" and waits: "maintenance_count db = 0 \<or> ru_resource r = maintenance_resource"
    and res: "ru_resource r = [] \<or> \<not> resource_busy db (ru_resource r)" and grp: "ru_group r = [] \<or> group_available db (ru_group r)"
    using assms(4) by (auto simp: eligible_def)
  then have "\<not> active_state (ru_state r)" by (auto simp: pending_state_def active_state_def)
  with started_leases[OF assms(2,3)] have new: "leases db' = add_mset ?l (leases db)" by (simp add: leases_def g(1))
  have part: "lease_resource ?l = ru_resource r" "lease_group ?l = ru_group r" by (simp_all add: lease_resource_def lease_group_def)
  have slots: "int (size (leases db)) < jb_capacity db" using assms(5) by (simp add: no_slot_def active_leases)
  have old: "leases_ok (jb_capacity db) (jb_groups db) (leases db)" using assms(6) by (simp add: limits_ok_def)
  have free: "{#l \<in># leases db. lease_resource l = ru_resource r#} = {#}" if "ru_resource r \<noteq> []"
  proof -
    have "count_runs (\<lambda>x. active_state (ru_state x) \<and> lease_resource (lease_of x) = ru_resource r) db = 0"
      using res that by (auto simp: resource_busy_def count_runs_def filter_empty_conv)
    then have "size {#l \<in># leases db. lease_resource l = ru_resource r#} = 0" by (simp only: count_leases[of "\<lambda>l. lease_resource l = ru_resource r"])
    then show ?thesis by (simp only: size_eq_0_iff_empty)
  qed
  have idle: "leases db = {#}" if "ru_resource r = maintenance_resource"
  proof -
    have "0 < maintenance_count db" using assms(3) pending that by (auto simp: maintenance_count_def count_runs_def filter_empty_conv)
    then have "active_count db = 0" using assms(5) by (auto simp: no_slot_def)
    then show ?thesis by (simp add: active_leases)
  qed
  have quiet: "lease_resource l \<noteq> maintenance_resource" if "l \<in># leases db" for l
  proof
    assume m: "lease_resource l = maintenance_resource"
    from that obtain x where x: "x \<in> set (jb_runs db)" "active_state (ru_state x)" "l = lease_of x" by (auto simp: leases_def leases_of_def)
    with m have "0 < maintenance_count db" by (auto simp: maintenance_count_def count_runs_def filter_empty_conv)
    with waits idle that show False by auto
  qed
  have group: "\<exists>(g, c) \<in> set (jb_groups db). g = ru_group r \<and> int (size {#x \<in># add_mset ?l (leases db). lease_group x = g#}) \<le> c" if "ru_group r \<noteq> []"
  proof -
    from grp that obtain c where c: "(ru_group r, c) \<in> set (jb_groups db)" "int (count_runs (\<lambda>x. ru_group x = ru_group r \<and> active_state (ru_state x)) db) < c"
      by (auto simp: group_available_def)
    have "count_runs (\<lambda>x. ru_group x = ru_group r \<and> active_state (ru_state x)) db = size {#l \<in># leases db. lease_group l = ru_group r#}"
      using count_leases[of "\<lambda>l. lease_group l = ru_group r" db] by (simp add: conj_commute)
    with c part show ?thesis by (intro bexI[OF _ c(1)]) simp
  qed
  have "leases_ok (jb_capacity db) (jb_groups db) (add_mset ?l (leases db))"
    unfolding leases_ok_def
  proof (intro conjI allI ballI impI)
    show "add_mset ?l (leases db) = {#} \<or> int (size (add_mset ?l (leases db))) \<le> jb_capacity db" using slots by simp
    show "size {#l \<in># add_mset ?l (leases db). lease_resource l = res#} \<le> 1" if "res \<noteq> []" for res
      using old free that part by (cases "res = ru_resource r") (auto simp: leases_ok_def)
    show "size (add_mset ?l (leases db)) = 1" if "l \<in># add_mset ?l (leases db)" "lease_resource l = maintenance_resource" for l
      using that idle quiet[of l] part by (cases "l \<in># leases db") auto
    show "\<exists>(g, c) \<in> set (jb_groups db). g = lease_group l \<and> int (size {#x \<in># add_mset ?l (leases db). lease_group x = g#}) \<le> c"
      if l: "l \<in># add_mset ?l (leases db)" "lease_group l \<noteq> []" for l
    proof (cases "lease_group l = ru_group r")
      case True
      with group l(2) show ?thesis by simp
    next
      case False
      with l part have "l \<in># leases db" by auto
      with old l(2) obtain g c where "(g, c) \<in> set (jb_groups db)" "g = lease_group l" "int (size {#x \<in># leases db. lease_group x = g#}) \<le> c"
        by (auto simp: leases_ok_def)
      with False part show ?thesis by (intro bexI[of _ "(g, c)"]) auto
    qed
  qed
  then show ?thesis using new by (simp add: limits_ok_def g(4,5))
qed


section \<open>Histories\<close>

text \<open>
  One committed transaction of the queue. Identifiers handed to new rows are not empty, tokens are fresh: none of the
  set \<open>T\<close> of tokens given out before is used again.
\<close>

inductive job_step :: "schedule_env \<Rightarrow> string set \<Rightarrow> job_db \<Rightarrow> job_db \<Rightarrow> bool" for se T where
  submit: "submit_job (se_job se) clock fresh su db = Inr (v, db') \<Longrightarrow> fresh \<noteq> [] \<Longrightarrow> job_step se T db db'"
| claim: "claim_job probe clock token worker handlers timeout db = (out, db') \<Longrightarrow> token \<noteq> [] \<Longrightarrow> token \<notin> T \<Longrightarrow> job_step se T db db'"
| finish: "finish_job clock c reported db = (out, db') \<Longrightarrow> job_step se T db db'"
| cancel: "record_cancellation clock actor run reason db = Inr (s, db') \<Longrightarrow> job_step se T db db'"
| withdraw: "cancel_handler clock handler db = Inr db' \<Longrightarrow> job_step se T db db'"
| resolve: "record_verified_outcome clock actor run outcome reason db = Inr db' \<Longrightarrow> job_step se T db db'"
| import: "import_unknown (se_job se) clock fresh su created db = Inr (i, new, db') \<Longrightarrow> fresh \<noteq> [] \<Longrightarrow> job_step se T db db'"
| plan: "schedule_job se d probe clock submitted fresh db = Inr (out, db') \<Longrightarrow> fresh \<noteq> [] \<Longrightarrow> job_step se T db db'"
| prune: "prune_candidates before state candidates db = (n, db') \<Longrightarrow> job_step se T db db'"

definition queue_ok :: "job_db \<Rightarrow> bool" where "queue_ok db \<longleftrightarrow> rows_sound db \<and> limits_ok db"

lemma calm_swept: "lock_budget db = Inr locked \<Longrightarrow> calm db (expire_leases now locked)"
  by (rule calm_trans[OF calm_lock calm_expire])

lemma claim_leases:
  assumes "claim_job probe clock token worker handlers timeout db = (out, db')" "queue_ok db"
  shows "limits_ok db' \<and> (calm db db' \<or> (\<exists>c (r :: job_run). out = Inr c \<and> cl_token c = token \<and> leases db' \<subseteq># add_mset (ru_id r, token, worker, ru_resource r, ru_group r) (leases db)))"
  using assms(1)
proof (cases rule: claim_cases)
  case (unclaimed e)
  then have "calm db db'" by (auto intro: calm_swept)
  with assms(2) show ?thesis by (auto simp: queue_ok_def intro: calm_limits)
next
  case (leased c locked)
  let ?swept = "expire_leases (trunc_ms clock) locked"
  have s: "rows_sound ?swept" using assms(2) by (intro kept_sound[OF kept_expire] kept_sound[OF kept_lock[OF leased(2)]]) (simp add: queue_ok_def)
  have k: "calm db ?swept" by (rule calm_swept[OF leased(2)])
  have l: "limits_ok ?swept" using assms(2) by (intro calm_limits[OF k]) (simp add: queue_ok_def)
  from leased(4) show ?thesis
  proof (rule claim_next_cases)
    fix r pick t assume r: "r \<in> set (jb_runs ?swept)" "eligible ?swept (trunc_ms clock) handlers r"
      "grant_lease token worker (trunc_ms clock) (trunc_ms clock + t) r pick ?swept = Inr (c, db')"
    note g = limits_grant[OF r(3) rows_sound_ids[OF s] r(1,2) leased(3) l]
    have "leases ?swept \<subseteq># leases db" using k by (simp add: calm_def)
    with g have "leases db' \<subseteq># add_mset (ru_id r, token, worker, ru_resource r, ru_group r) (leases db)" by simp
    with g leased(1) grant_facts(9)[OF r(3)] show ?thesis by blast
  qed
qed

lemma job_step_keeps:
  assumes "job_step se T db db'" "queue_ok db" shows "queue_ok db'"
proof -
  have o: "rows_sound db" "limits_ok db" using assms(2) by (simp_all add: queue_ok_def)
  note ids = rows_sound_ids[OF o(1)]
  from assms(1) show ?thesis
  proof cases
    case submit
    with o show ?thesis by (auto simp: queue_ok_def intro: sound_submit calm_limits[OF calm_submit])
  next
    case claim
    with o assms(2) show ?thesis by (auto simp: queue_ok_def dest: claim_leases intro: sound_claim)
  next
    case finish
    with o ids show ?thesis by (auto simp: queue_ok_def intro: kept_sound[OF kept_finish] calm_limits[OF calm_finish])
  next
    case cancel
    with o show ?thesis by (auto simp: queue_ok_def intro: kept_sound[OF kept_record_cancellation] calm_limits[OF calm_record_cancellation])
  next
    case withdraw
    with o show ?thesis by (auto simp: queue_ok_def intro: kept_sound[OF kept_cancel_handler] calm_limits[OF calm_cancel_handler])
  next
    case resolve
    with o show ?thesis by (auto simp: queue_ok_def intro: kept_sound[OF kept_verified] calm_limits[OF calm_verified])
  next
    case import
    with o show ?thesis by (auto simp: queue_ok_def intro: sound_import calm_limits[OF calm_import])
  next
    case plan
    with o show ?thesis by (auto simp: queue_ok_def intro: sound_schedule calm_limits[OF calm_schedule])
  next
    case prune
    with o show ?thesis by (auto simp: queue_ok_def intro: sound_prune calm_limits[OF calm_prune])
  qed
qed

lemma job_steps_keep: "(job_step se T)\<^sup>*\<^sup>* db db' \<Longrightarrow> queue_ok db \<Longrightarrow> queue_ok db'"
  by (induction rule: rtranclp_induct) (auto intro: job_step_keeps)

lemma empty_queue_ok: "jb_runs db = [] \<Longrightarrow> jb_attempts db = [] \<Longrightarrow> distinct (map sd_id (jb_schedules db)) \<Longrightarrow> queue_ok db"
  by (simp add: queue_ok_def rows_sound_def keys_ok_def attempts_ok_def plans_ok_def limits_ok_def leases_ok_def leases_def)

text \<open>The tables never change their capacities.\<close>

lemma job_step_limits: "job_step se T db db' \<Longrightarrow> queue_ok db \<Longrightarrow> jb_capacity db' = jb_capacity db \<and> jb_groups db' = jb_groups db"
proof (erule job_step.cases, goal_cases)
  case (2 probe clock token worker handlers timeout x out y)
  then have c: "claim_job probe clock token worker handlers timeout db = (out, db')" by simp
  then show ?case
  proof (cases rule: claim_cases)
    case (unclaimed e)
    then show ?thesis using calm_swept[of db] by (auto simp: calm_def)
  next
    case (leased d locked)
    have k: "calm db (expire_leases (trunc_ms clock) locked)" by (rule calm_swept[OF leased(2)])
    from leased(4) show ?thesis by (rule claim_next_cases) (use k grant_facts(4,5) in \<open>simp add: calm_def\<close>)
  qed
qed (auto simp: calm_def dest!: calm_submit calm_finish calm_record_cancellation calm_cancel_handler calm_verified calm_import calm_schedule calm_prune)

end
