(* ===== verification/JobLimits.thy ===== *)
theory JobLimits
  imports JobHistory
begin

text \<open>
  What holds of every history of the job queue: limits on what runs together, bounded attempts, one run per intent
  and per planned slot, completions fenced by the lease, and the replay of an execution only when its handler
  declared it safe.
\<close>

section \<open>A small queue\<close>

definition sample_job_env :: job_env where
  "sample_job_env = \<lparr>je_valid_json = (\<lambda>_. True), je_fingerprint = (\<lambda>su. su_handler su @ su_payload su)\<rparr>"

definition sample_schedule_env :: schedule_env where
  "sample_schedule_env = \<lparr>se_job = sample_job_env, se_key = (\<lambda>i t. ''slot:'' @ i @ show_nat (nat t)), se_payload = (\<lambda>r. r), se_zone = (\<lambda>_. True)\<rparr>"

definition empty_queue :: job_db where
  "empty_queue = \<lparr>jb_capacity = 1, jb_revision = 0, jb_vtime = 0, jb_groups = [(''g'', 1)], jb_lanes = (\<lambda>_. 0), jb_runs = [], jb_attempts = [],
     jb_schedules = [], jb_admins = [1], jb_audits = []\<rparr>"

definition sample_intent :: "string \<Rightarrow> submission" where
  "sample_intent key = \<lparr>su_timeout = 0, su_max_attempts = 2, su_backoff = 0, su_owner = ''system'', su_key = key, su_handler = ''h'', su_resource = ''res'',
     su_group = [], su_payload = ''p'', su_not_before = 0, su_lane = []\<rparr>"

lemma sample_queue:
  obtains v1 db1 v2 db2 c db3 where "submit_job sample_job_env 5000000000 ''r1'' (sample_intent ''k1'') empty_queue = Inr (v1, db1)"
    "submit_job sample_job_env 5000000000 ''r2'' (sample_intent ''k2'') db1 = Inr (v2, db2)"
    "claim_job 6000000000 6000000000 ''t1'' ''w'' [''h''] 1000000000 db2 = (Inr c, db3)"
    "(case finish_job 6500000000 c RetryWait db3 of (out, db4) \<Rightarrow> out = Inr () \<and> map ru_state (jb_runs db4) = [RetryWait, Queued])"
    "cl_token c = ''t1''" "vw_id (cl_run c) = ''r1''" "map ru_state (jb_runs db3) = [Running, Queued]" "map ru_id (jb_runs db3) = [''r1'', ''r2'']"
proof -
  have "(case submit_job sample_job_env 5000000000 ''r1'' (sample_intent ''k1'') empty_queue of
      Inl _ \<Rightarrow> False
    | Inr (v1, db1) \<Rightarrow> case submit_job sample_job_env 5000000000 ''r2'' (sample_intent ''k2'') db1 of
        Inl _ \<Rightarrow> False
      | Inr (v2, db2) \<Rightarrow> case claim_job 6000000000 6000000000 ''t1'' ''w'' [''h''] 1000000000 db2 of
          (Inl _, _) \<Rightarrow> False
        | (Inr c, db3) \<Rightarrow> (case finish_job 6500000000 c RetryWait db3 of (out, db4) \<Rightarrow> out = Inr () \<and> map ru_state (jb_runs db4) = [RetryWait, Queued])
            \<and> cl_token c = ''t1'' \<and> vw_id (cl_run c) = ''r1'' \<and> map ru_state (jb_runs db3) = [Running, Queued] \<and> map ru_id (jb_runs db3) = [''r1'', ''r2''])"
    by code_simp
  then show ?thesis unfolding case_result_holds split_paired_Ex prod.case
  proof (elim exE conjE, goal_cases)
    case (1 v1 db1 v2 db2)
    from 1(3) show ?case by (elim case_prodE exE conjE) (rule that[OF 1(1,2)], simp_all)
  qed
qed

lemma sample_steps:
  obtains c db3 where "(job_step sample_schedule_env {})\<^sup>*\<^sup>* empty_queue db3" "cl_token c = ''t1''" "vw_id (cl_run c) = ''r1''"
    "map ru_state (jb_runs db3) = [Running, Queued]" "map ru_id (jb_runs db3) = [''r1'', ''r2'']"
    "\<exists>db4. finish_job 6500000000 c RetryWait db3 = (Inr (), db4) \<and> map ru_state (jb_runs db4) = [RetryWait, Queued]"
proof -
  obtain v1 db1 v2 db2 c db3 where h: "submit_job sample_job_env 5000000000 ''r1'' (sample_intent ''k1'') empty_queue = Inr (v1, db1)"
    "submit_job sample_job_env 5000000000 ''r2'' (sample_intent ''k2'') db1 = Inr (v2, db2)"
    "claim_job 6000000000 6000000000 ''t1'' ''w'' [''h''] 1000000000 db2 = (Inr c, db3)"
    "(case finish_job 6500000000 c RetryWait db3 of (out, db4) \<Rightarrow> out = Inr () \<and> map ru_state (jb_runs db4) = [RetryWait, Queued])"
    "cl_token c = ''t1''" "vw_id (cl_run c) = ''r1''" "map ru_state (jb_runs db3) = [Running, Queued]" "map ru_id (jb_runs db3) = [''r1'', ''r2'']"
    by (rule sample_queue)
  have e: "se_job sample_schedule_env = sample_job_env" by (simp add: sample_schedule_env_def)
  have "job_step sample_schedule_env {} empty_queue db1" "job_step sample_schedule_env {} db1 db2"
    by (rule job_step.submit[OF h(1)[folded e]], simp, rule job_step.submit[OF h(2)[folded e]], simp)
  moreover have "job_step sample_schedule_env {} db2 db3" by (rule job_step.claim[OF h(3)]) simp_all
  ultimately have "(job_step sample_schedule_env {})\<^sup>*\<^sup>* empty_queue db3" by (meson converse_rtranclp_into_rtranclp r_into_rtranclp)
  moreover obtain out db4 where "finish_job 6500000000 c RetryWait db3 = (out, db4)" by fastforce
  ultimately show ?thesis using h(4-8) by (intro that) auto
qed

section \<open>A lease that has ended\<close>

definition lease_gone :: "job_claim \<Rightarrow> job_db \<Rightarrow> bool" where
  "lease_gone c db \<longleftrightarrow> (\<forall>l \<in># leases db. \<not> (fst l = vw_id (cl_run c) \<and> fst (snd l) = cl_token c))"

lemma lease_gone_refused: "lease_gone c db \<Longrightarrow> \<exists>e. finish_job clock c reported db = (Inl e, db)"
proof -
  assume g: "lease_gone c db"
  have "\<not> holds_lease c r" if "r \<in> set (jb_runs db)" for r
  proof
    assume h: "holds_lease c r"
    with that have "lease_of r \<in># leases db" by (auto simp: leases_def leases_of_def holds_lease_def)
    with g h show False by (auto simp: lease_gone_def lease_of_def holds_lease_def)
  qed
  then have "List.find (holds_lease c) (jb_runs db) = None" by (auto simp: find_None_iff)
  then show ?thesis by (cases "lock_budget db") (auto simp: finish_job_def Let_def dest!: lock_tables)
qed

lemma job_step_leases:
  assumes "job_step se T db db'" "queue_ok db"
  shows "calm db db' \<or> (\<exists>(r :: job_run) token worker. token \<notin> T \<and> leases db' \<subseteq># add_mset (ru_id r, token, worker, ru_resource r, ru_group r) (leases db))"
  using assms(1)
proof cases
  case (claim probe clock token worker handlers timeout out)
  from claim_leases[OF claim(1) assms(2)] claim(3) show ?thesis by blast
qed (auto dest: calm_submit calm_finish calm_record_cancellation calm_cancel_handler calm_verified calm_import calm_schedule calm_prune)

lemma lease_stays_gone:
  assumes "(job_step se {cl_token c})\<^sup>*\<^sup>* db db'" "queue_ok db" "lease_gone c db"
  shows "lease_gone c db'"
proof -
  have "queue_ok db' \<and> lease_gone c db'"
    using assms(1)
  proof (induction rule: rtranclp_induct)
    case (step db1 db2)
    from job_step_leases[OF step(2)] step(3) have "lease_gone c db2"
      by (fastforce simp: lease_gone_def calm_def dest: mset_subset_eqD)
    with step show ?case by (blast intro: job_step_keeps)
  qed (use assms in simp)
  then show ?thesis by simp
qed

lemma finish_ends_lease:
  assumes "finish_job clock c reported db = (Inr (), db')"
  shows "lease_gone c db'"
  using assms
proof (cases rule: finish_cases)
  case (accepted locked r)
  have r: "ru_id r = vw_id (cl_run c)" using find_member[OF accepted(2)] by (simp add: holds_lease_def)
  let ?s = "settled_state (trunc_ms clock) r reported"
  have runs: "jb_runs db' = map (\<lambda>x. if ru_id x = ru_id r then settle_run (trunc_ms clock) ?s x else x) (jb_runs locked)"
    by (simp add: accepted(5) update_attempts_def update_schedules_def update_runs_def)
  have quiet: "\<not> active_state (ru_state (settle_run (trunc_ms clock) ?s x))" for x
    by (rule settle_run_inactive[OF settled_state_inactive[OF accepted(3)]])
  have "ru_id x \<noteq> vw_id (cl_run c)" if "x \<in> set (jb_runs db')" "active_state (ru_state x)" for x
    using that quiet r by (auto simp: runs split: if_splits)
  then show ?thesis by (auto simp: lease_gone_def leases_def leases_of_def lease_of_def)
qed simp

section \<open>Properties\<close>

text \<open>
  C10. What runs together stays within the limits: in every history of the queue at most as many runs hold a lease as
  the budget has slots, at most one per resource, at most the capacity of an execution group in that group, and a
  maintenance run is alone.
\<close>
theorem running_jobs_limited:
  assumes "(job_step se T)\<^sup>*\<^sup>* db0 db" "jb_runs db0 = []" "jb_attempts db0 = []" "distinct (map sd_id (jb_schedules db0))" "0 < jb_capacity db0"
  shows "int (active_count db) \<le> jb_capacity db0
    \<and> (\<forall>res. res \<noteq> [] \<longrightarrow> count_runs (\<lambda>r. active_state (ru_state r) \<and> ru_resource r = res) db \<le> 1)
    \<and> (\<forall>r \<in> set (jb_runs db). active_state (ru_state r) \<and> ru_group r \<noteq> [] \<longrightarrow>
         (\<exists>c. (ru_group r, c) \<in> set (jb_groups db0) \<and> int (count_runs (\<lambda>x. active_state (ru_state x) \<and> ru_group x = ru_group r) db) \<le> c))
    \<and> (\<forall>r \<in> set (jb_runs db). active_state (ru_state r) \<and> ru_resource r = maintenance_resource \<longrightarrow> active_count db = 1)"
proof -
  have start: "queue_ok db0" by (rule empty_queue_ok[OF assms(2-4)])
  have "queue_ok db \<and> jb_capacity db = jb_capacity db0 \<and> jb_groups db = jb_groups db0"
    using assms(1) by (induction rule: rtranclp_induct) (auto simp: start dest: job_step_keeps job_step_limits)
  then have l: "leases_ok (jb_capacity db0) (jb_groups db0) (leases db)" by (metis queue_ok_def limits_ok_def)
  have held: "lease_of r \<in># leases db" if "r \<in> set (jb_runs db)" "active_state (ru_state r)" for r
    using that by (auto simp: leases_def leases_of_def)
  have n: "count_runs (\<lambda>r. active_state (ru_state r) \<and> ru_resource r = res) db = size {#l \<in># leases db. lease_resource l = res#}"
    "count_runs (\<lambda>r. active_state (ru_state r) \<and> ru_group r = res) db = size {#l \<in># leases db. lease_group l = res#}" for res
    using count_leases[of "\<lambda>l. lease_resource l = res" db] count_leases[of "\<lambda>l. lease_group l = res" db] by simp_all
  show ?thesis
  proof (intro conjI allI ballI impI)
    show "int (active_count db) \<le> jb_capacity db0" using l assms(5) by (auto simp: leases_ok_def active_leases)
    show "count_runs (\<lambda>r. active_state (ru_state r) \<and> ru_resource r = res) db \<le> 1" if "res \<noteq> []" for res
      using l that by (simp add: leases_ok_def n)
    show "\<exists>c. (ru_group r, c) \<in> set (jb_groups db0) \<and> int (count_runs (\<lambda>x. active_state (ru_state x) \<and> ru_group x = ru_group r) db) \<le> c"
      if "r \<in> set (jb_runs db)" "active_state (ru_state r) \<and> ru_group r \<noteq> []" for r
      using l held[of r] that unfolding n leases_ok_def by (force)
    show "active_count db = 1" if "r \<in> set (jb_runs db)" "active_state (ru_state r) \<and> ru_resource r = maintenance_resource" for r
      using l held[of r] that by (force simp: leases_ok_def active_leases)
  qed
qed

theorem running_jobs_limited_witness:
  "\<exists>db. (job_step sample_schedule_env {})\<^sup>*\<^sup>* empty_queue db \<and> map ru_state (jb_runs db) = [Running, Queued] \<and> int (active_count db) \<le> 1"
proof -
  obtain c db where h: "(job_step sample_schedule_env {})\<^sup>*\<^sup>* empty_queue db" "map ru_state (jb_runs db) = [Running, Queued]"
    by (rule sample_steps)
  have "jb_runs empty_queue = []" "jb_attempts empty_queue = []" "distinct (map sd_id (jb_schedules empty_queue))" "0 < jb_capacity empty_queue"
    by (simp_all add: empty_queue_def)
  from running_jobs_limited[OF h(1) this] h show ?thesis by (auto simp: empty_queue_def)
qed

lemma run_attempts:
  assumes ok: "queue_ok db" and r: "r \<in> set (jb_runs db)"
  shows "int (length (filter (\<lambda>a. ja_run a = ru_id r) (jb_attempts db))) \<le> ru_attempts r \<and> ru_attempts r \<le> ru_max_attempts r \<and> ru_max_attempts r \<le> 10
    \<and> distinct (map ja_number (filter (\<lambda>a. ja_run a = ru_id r) (jb_attempts db)))
    \<and> (pending_state (ru_state r) \<longrightarrow> ru_attempts r < ru_max_attempts r)"
proof -
  from ok have a: "attempts_ok db" and ids: "distinct (map ru_id (jb_runs db))" by (auto simp: queue_ok_def rows_sound_def intro: rows_sound_ids[unfolded rows_sound_def])
  let ?mine = "filter (\<lambda>a. ja_run a = ru_id r) (jb_attempts db)"
  have "distinct (map (\<lambda>a. (ja_run a, ja_number a)) ?mine)" using a by (simp add: attempts_ok_def distinct_map_filter)
  moreover have "map (\<lambda>a. (ja_run a, ja_number a)) ?mine = map (\<lambda>n. (ru_id r, n)) (map ja_number ?mine)" by simp
  ultimately have d: "distinct (map ja_number ?mine)" by (metis distinct_map)
  have "1 \<le> ja_number b \<and> ja_number b \<le> ru_attempts r" if "b \<in> set ?mine" for b
  proof -
    from that a obtain x where x: "x \<in> set (jb_runs db)" "ru_id x = ru_id r" "1 \<le> ja_number b" "ja_number b \<le> ru_attempts x" by (auto simp: attempts_ok_def)
    have "x = r" by (rule same_id[OF ids x(1) r x(2)])
    with x show ?thesis by simp
  qed
  then have "set (map ja_number ?mine) \<subseteq> {1..ru_attempts r}" by auto
  then have "card (set (map ja_number ?mine)) \<le> card {1..ru_attempts r}" by (rule card_mono[rotated]) simp
  moreover have "card (set (map ja_number ?mine)) = length ?mine" using distinct_card[OF d] by simp
  ultimately have "length ?mine \<le> nat (ru_attempts r)" by simp
  moreover have "0 \<le> ru_attempts r" using a r by (auto simp: attempts_ok_def)
  ultimately show ?thesis using d a r by (auto simp: attempts_ok_def)
qed

text \<open>
  C15. Attempts are bounded: in every history a run has at most its maximum of attempts, which is at most ten, its
  attempts carry different numbers, and a run that may still be claimed has one left.
\<close>
theorem attempts_bounded:
  assumes "(job_step se T)\<^sup>*\<^sup>* db0 db" "jb_runs db0 = []" "jb_attempts db0 = []" "distinct (map sd_id (jb_schedules db0))" "r \<in> set (jb_runs db)"
  shows "int (length (filter (\<lambda>a. ja_run a = ru_id r) (jb_attempts db))) \<le> ru_attempts r \<and> ru_attempts r \<le> ru_max_attempts r \<and> ru_max_attempts r \<le> 10
    \<and> distinct (map ja_number (filter (\<lambda>a. ja_run a = ru_id r) (jb_attempts db)))
    \<and> (pending_state (ru_state r) \<longrightarrow> ru_attempts r < ru_max_attempts r)"
  by (rule run_attempts[OF job_steps_keep[OF assms(1) empty_queue_ok[OF assms(2-4)]] assms(5)])

theorem attempts_bounded_witness:
  "\<exists>(db :: job_db) r. r \<in> set (jb_runs db) \<and> ru_id r = ''r1'' \<and> int (length (filter (\<lambda>a. ja_run a = ''r1'') (jb_attempts db))) \<le> 10"
proof -
  obtain c db where h: "(job_step sample_schedule_env {})\<^sup>*\<^sup>* empty_queue db" "map ru_id (jb_runs db) = [''r1'', ''r2'']"
    by (rule sample_steps)
  from h(2) obtain r rs where "jb_runs db = r # rs" "ru_id r = ''r1''" by (auto simp: map_eq_Cons_conv)
  then have r: "r \<in> set (jb_runs db)" "ru_id r = ''r1''" by simp_all
  have "jb_runs empty_queue = []" "jb_attempts empty_queue = []" "distinct (map sd_id (jb_schedules empty_queue))" by (simp_all add: empty_queue_def)
  from attempts_bounded[OF h(1) this r(1)] r(2) have "int (length (filter (\<lambda>a. ja_run a = ''r1'') (jb_attempts db))) \<le> 10" by simp
  with r show ?thesis by blast
qed


text \<open>
  C11. A lease ends once: after the completion of a claim was accepted, in every later history that does not hand out
  its token again each further completion of that claim is refused and changes nothing, whatever outcome it reports,
  also when the run has been claimed again by another worker.
\<close>
theorem lease_ends_once:
  assumes "(job_step se T)\<^sup>*\<^sup>* db0 db" "jb_runs db0 = []" "jb_attempts db0 = []" "distinct (map sd_id (jb_schedules db0))"
    "finish_job clock c reported db = (Inr (), db1)" "(job_step se {cl_token c})\<^sup>*\<^sup>* db1 db2"
  shows "\<exists>e. finish_job later c other db2 = (Inl e, db2)"
proof -
  have "queue_ok db" by (rule job_steps_keep[OF assms(1) empty_queue_ok[OF assms(2-4)]])
  then have "queue_ok db1" by (rule job_step_keeps[OF job_step.finish[OF assms(5)]])
  from lease_stays_gone[OF assms(6) this finish_ends_lease[OF assms(5)]] show ?thesis by (rule lease_gone_refused)
qed

theorem lease_ends_once_witness:
  "\<exists>c (db1 :: job_db). map ru_state (jb_runs db1) = [RetryWait, Queued] \<and> cl_token c = ''t1'' \<and> (\<exists>e. finish_job 7000000000 c Succeeded db1 = (Inl e, db1))"
proof -
  obtain c db db1 where h: "(job_step sample_schedule_env {})\<^sup>*\<^sup>* empty_queue db" "cl_token c = ''t1''"
    "finish_job 6500000000 c RetryWait db = (Inr (), db1)" "map ru_state (jb_runs db1) = [RetryWait, Queued]"
    by (rule sample_steps) (elim exE conjE, rule that)
  have start: "jb_runs empty_queue = []" "jb_attempts empty_queue = []" "distinct (map sd_id (jb_schedules empty_queue))" by (simp_all add: empty_queue_def)
  from lease_ends_once[OF h(1) start h(3) rtranclp.rtrancl_refl, of 7000000000 Succeeded] h(2,4) show ?thesis
    by (intro exI[of _ c] exI[of _ db1] conjI)
qed

text \<open>
  C13. Rows are unique: in every history two runs with the same owner and key are one, two runs for the same planned
  slot of a plan are one, and at most one run of a plan is pending or running.
\<close>
theorem runs_unique:
  assumes "(job_step se T)\<^sup>*\<^sup>* db0 db" "jb_runs db0 = []" "jb_attempts db0 = []" "distinct (map sd_id (jb_schedules db0))"
    "x \<in> set (jb_runs db)" "y \<in> set (jb_runs db)"
    "ru_owner x = ru_owner y \<and> ru_key x = ru_key y
     \<or> ru_planned x \<noteq> None \<and> ru_planned x = ru_planned y \<and> ru_schedule x = ru_schedule y
     \<or> ru_schedule x \<noteq> [] \<and> ru_schedule x = ru_schedule y \<and> open_state (ru_state x) \<and> open_state (ru_state y)"
  shows "x = y"
proof -
  have ok: "queue_ok db" by (rule job_steps_keep[OF assms(1) empty_queue_ok[OF assms(2-4)]])
  then have k: "keys_ok (map row_key (jb_runs db))" and p: "plans_ok db" and ids: "distinct (map ru_id (jb_runs db))"
    by (auto simp: queue_ok_def rows_sound_def intro: rows_sound_ids[unfolded rows_sound_def])
  have d: "distinct (map (\<lambda>r. (ru_owner r, ru_key r)) (jb_runs db))" using k by (simp add: keys_ok_def row_key_def comp_def)
  from assms(7) consider "ru_owner x = ru_owner y" "ru_key x = ru_key y"
    | "ru_planned x \<noteq> None" "ru_planned x = ru_planned y" "ru_schedule x = ru_schedule y"
    | "ru_schedule x \<noteq> []" "ru_schedule x = ru_schedule y" "open_state (ru_state x)" "open_state (ru_state y)" by blast
  then show ?thesis
  proof cases
    case 1
    then show ?thesis by (intro distinct_map_eq[OF d assms(5,6)]) simp
  next
    case 2
    have "row_key x \<in> set (map row_key (jb_runs db))" "row_key y \<in> set (map row_key (jb_runs db))" using assms(5,6) by simp_all
    with k 2 have "fst (row_key x) = fst (row_key y)" unfolding keys_ok_def by (metis row_key_def snd_conv)
    then show ?thesis by (intro same_id[OF ids assms(5,6)]) (simp add: row_key_def)
  next
    case 3
    then obtain s where s: "s \<in> set (jb_schedules db)" "sd_id s = ru_schedule x" "sd_run s = ru_id x"
      using p assms(5) by (force simp: plans_ok_def plan_key_def)
    have "ru_id y = sd_run s" by (rule plan_runs[OF p s(1) assms(6)]) (use 3 s in simp_all)
    with s show ?thesis by (intro same_id[OF ids assms(5,6)]) simp
  qed
qed

theorem runs_unique_witness:
  "\<exists>db :: job_db. map ru_id (jb_runs db) = [''r1'', ''r2''] \<and> (\<forall>x \<in> set (jb_runs db). \<forall>y \<in> set (jb_runs db). ru_owner x = ru_owner y \<and> ru_key x = ru_key y \<longrightarrow> x = y)"
proof -
  obtain c db where h: "(job_step sample_schedule_env {})\<^sup>*\<^sup>* empty_queue db" "map ru_id (jb_runs db) = [''r1'', ''r2'']"
    by (rule sample_steps)
  have start: "jb_runs empty_queue = []" "jb_attempts empty_queue = []" "distinct (map sd_id (jb_schedules empty_queue))" by (simp_all add: empty_queue_def)
  have "x = y" if "x \<in> set (jb_runs db)" "y \<in> set (jb_runs db)" "ru_owner x = ru_owner y \<and> ru_key x = ru_key y" for x y
    using runs_unique[OF h(1) start that(1,2)] that(3) by blast
  with h(2) show ?thesis by (intro exI[of _ db] conjI ballI impI)
qed

text \<open>
  C26. Submitting is idempotent: submitting an accepted intent again, at any time and under any new identifier, returns
  the same run and writes only the revision of the budget; submitting a different intent under its owner and key is a
  conflict.
\<close>
theorem submission_idempotent:
  assumes "submit_job je clock fresh su db = Inr (v, db')"
  shows "submit_job je clock2 fresh2 su db' = Inr (v, db'\<lparr>jb_revision := Suc (jb_revision db')\<rparr>)
    \<and> (\<forall>other r r2. su_owner other = su_owner su \<and> su_key other = su_key su \<and> prepare_submission je clock fresh su = Inr r
         \<and> prepare_submission je clock2 fresh2 other = Inr r2 \<and> ru_fingerprint r2 \<noteq> ru_fingerprint r \<longrightarrow>
         submit_job je clock2 fresh2 other db' = Inl err_conflict)"
proof -
  from assms obtain r locked x where s: "prepare_submission je clock fresh su = Inr r" "lock_budget db = Inr locked"
    "insert_submission r locked = Inr (x, db')" "v = run_view x" by (auto simp: submit_job_def)
  have prep: "\<exists>r2. prepare_submission je clock2 fresh2 su = Inr r2 \<and> ru_owner r2 = ru_owner r \<and> ru_key r2 = ru_key r \<and> ru_fingerprint r2 = ru_fingerprint r"
    using s(1) by (auto simp: prepare_submission_def Let_def split: if_splits)
  have key: "ru_owner r = su_owner su" "ru_key r = su_key su" "\<And>other r2. prepare_submission je clock2 fresh2 other = Inr r2 \<Longrightarrow> ru_owner r2 = su_owner other \<and> ru_key r2 = su_key other"
    using s(1) by (auto simp: prepare_submission_def submission_defaults_def Let_def split: if_splits)
  have found: "List.find (same_intent (ru_owner r) (ru_key r)) (jb_runs db') = Some x" "ru_fingerprint x = ru_fingerprint r"
  proof -
    have "List.find (same_intent (ru_owner r) (ru_key r)) (jb_runs db') = Some x \<and> ru_fingerprint x = ru_fingerprint r"
    proof (cases "List.find (same_intent (ru_owner r) (ru_key r)) (jb_runs locked)")
      case None
      with s(3) have "x = r" "jb_runs db' = jb_runs locked @ [r]"
        using find_member[of "same_intent (ru_owner r) (ru_key r)" "jb_runs locked"] by (cases rule: insert_cases, auto simp: find_None_iff)+
      moreover have "List.find P (xs @ [z]) = Some z" if "List.find P xs = None" "P z" for P z and xs :: "job_run list"
        using that by (induction xs) (auto split: if_splits)
      ultimately show ?thesis using None by (simp add: same_intent_def)
    next
      case (Some e)
      with s(3) show ?thesis by (auto simp: insert_submission_def split: if_splits)
    qed
    then show "List.find (same_intent (ru_owner r) (ru_key r)) (jb_runs db') = Some x" "ru_fingerprint x = ru_fingerprint r" by simp_all
  qed
  have cap: "0 < jb_capacity db'" using lock_tables[OF s(2)] calm_submit[OF assms] by (simp add: calm_def)
  then have lock: "lock_budget db' = Inr (db'\<lparr>jb_revision := Suc (jb_revision db')\<rparr>)" by (simp add: lock_budget_def)
  have "insert_submission r2 (db'\<lparr>jb_revision := n\<rparr>) = (if ru_fingerprint r2 = ru_fingerprint r then Inr (x, db'\<lparr>jb_revision := n\<rparr>) else Inl err_conflict)"
    if "ru_owner r2 = ru_owner r" "ru_key r2 = ru_key r" for r2 n using found that by (simp add: insert_submission_def)
  with prep key lock s(1,4) show ?thesis by (auto simp: submit_job_def)
qed

theorem submission_idempotent_witness:
  "\<exists>v db. submit_job sample_job_env 9000000000 ''r9'' (sample_intent ''k1'') db = Inr (v, db\<lparr>jb_revision := Suc (jb_revision db)\<rparr>)"
proof -
  obtain v db where "submit_job sample_job_env 5000000000 ''r1'' (sample_intent ''k1'') empty_queue = Inr (v, db)"
    by (rule sample_queue)
  from submission_idempotent[OF this, of 9000000000 "''r9''"] show ?thesis by blast
qed

end
