(* ===== verification/JobOutcomes.thy ===== *)
theory JobOutcomes
  imports JobLimits
begin

text \<open>
  When an execution is repeated: the state an error tree ends in, the delay before a retry, and the slot a periodic
  plan runs for.
\<close>

section \<open>Delays\<close>

lemma double_delay_pow:
  "0 < d \<Longrightarrow> d \<le> 2 * hour \<Longrightarrow> double_delay n d = d * 2 ^ n \<or> hour \<le> double_delay n d \<and> hour \<le> d * 2 ^ n"
proof (induction n arbitrary: d)
  case (Suc n)
  show ?case
  proof (cases "d < hour")
    case True
    then have m: "mul64 d 2 = d * 2" using Suc.prems(1) by (intro mul64_exact in64_nonneg) (simp_all add: hour_def max64_def)
    with True Suc.IH[of "d * 2"] Suc.prems show ?thesis by (simp add: mult.assoc)
  next
    case False
    have "1 \<le> (2 :: int) ^ Suc n" by (rule one_le_power) simp
    then have "d * 1 \<le> d * 2 ^ Suc n" using Suc.prems(1) by (intro mult_left_mono) simp_all
    with False show ?thesis by simp
  qed
qed simp

section \<open>Error trees\<close>

text \<open>Every cause of a tree: the leaves, and the absent causes of wrappers.\<close>

fun leaves :: "job_error \<Rightarrow> string set" where
  "leaves (Plain n) = {n}"
| "leaves (Wrapped e) = (case e of None \<Rightarrow> {} | Some x \<Rightarrow> leaves x)"
| "leaves (Joined es) = (\<Union>e \<in> set es. case e of None \<Rightarrow> {} | Some x \<Rightarrow> leaves x)"
| "leaves (Retryable e) = (case e of None \<Rightarrow> {} | Some x \<Rightarrow> leaves x)"
| "leaves (RetryablePointer e) = (case e of None \<Rightarrow> {} | Some x \<Rightarrow> leaves x)"

lemma errors_is_leaves: "errors_is t e \<longleftrightarrow> t \<in> leaves e"
  by (induction t e rule: errors_is.induct) (auto simp: nil_or_def split: option.splits)

lemma continuation_leaves: "only_continuation_causes e \<Longrightarrow> leaves e = {''ErrContinue''}"
proof (induction e rule: only_continuation_causes.induct)
  case (3 es)
  from 3(2) have ex: "\<exists>e \<in> set es. e \<noteq> None" and every: "\<forall>e \<in> set es. e = None \<or> nil_or only_continuation_causes e" by simp_all
  have part: "leaves y = {''ErrContinue''}" if "Some y \<in> set es" for y
  proof -
    from every that have "only_continuation_causes y" by (force simp: nil_or_def)
    with 3(1)[OF that] show ?thesis by simp
  qed
  obtain x where x: "Some x \<in> set es" using ex by (metis option.exhaust)
  have "leaves (Joined es) = (\<Union>y \<in> {y. Some y \<in> set es}. leaves y)"
  proof (rule set_eqI)
    show "z \<in> leaves (Joined es) \<longleftrightarrow> z \<in> (\<Union>y \<in> {y. Some y \<in> set es}. leaves y)" for z
      by (auto split: option.splits)
  qed
  also have "\<dots> = (\<Union>y \<in> {y. Some y \<in> set es}. {''ErrContinue''})" by (rule SUP_cong) (simp_all only: mem_Collect_eq part)
  also have "\<dots> = {''ErrContinue''}" using x by (simp only: UN_constant) (simp only: split: if_split, blast)
  finally show ?case .
qed (auto simp: nil_or_def split: option.splits)

definition uncertain_error :: "job_error \<Rightarrow> bool" where
  "uncertain_error e \<longleftrightarrow> errors_is ''ErrUncertain'' e \<or> errors_is ''context.DeadlineExceeded'' e \<or> errors_is ''context.Canceled'' e"

lemma continuation_certain: "only_continuation_causes e \<Longrightarrow> \<not> uncertain_error e \<and> \<not> errors_is ''ErrCanceled'' e"
  by (drule continuation_leaves) (simp add: uncertain_error_def errors_is_leaves)


lemma retry_state: "execution_state out ended = RetryWait \<longleftrightarrow>
    (\<exists>e. out = Returned (Some e) \<and> errors_as_retryable e \<and> \<not> errors_is ''ErrCanceled'' e \<and> \<not> ended \<and> \<not> uncertain_error e)"
proof (cases out)
  case Panicked
  have "\<not> errors_is ''ErrCanceled'' (Plain ''job handler panicked; result requires verification'')" by simp
  with Panicked show ?thesis by (simp add: execution_state_def chosen_state_def)
next
  case (Returned err)
  show ?thesis
  proof (cases err)
    case None
    with Returned show ?thesis by (simp add: execution_state_def chosen_state_def is_continuation_def nil_or_def is_err_def)
  next
    case (Some e)
    show ?thesis
    proof (cases "errors_as_retryable e")
      case True
      with Returned Some show ?thesis
        by (simp add: execution_state_def chosen_state_def nil_or_def is_err_def uncertain_error_def)
    next
      case False
      obtain st er where st: "chosen_state out = (st, er)" by fastforce
      with False have "st \<noteq> RetryWait" using Returned Some by (auto simp: chosen_state_def nil_or_def split: if_splits)
      with False Returned Some st show ?thesis by (simp add: execution_state_def)
    qed
  qed
qed

lemma settled_reported: "settled_state now r reported = RetryWait \<Longrightarrow> reported = RetryWait"
  by (auto simp: settled_state_def Let_def split: if_splits)

lemma finished_rows:
  assumes "finish_job clock c reported db = (Inr (), db')" "r \<in> set (jb_runs db')" "ru_id r = vw_id (cl_run c)" "pending_state (ru_state r)"
  shows "reported = RetryWait \<and> (\<exists>x. ru_attempts x < ru_max_attempts x \<and> holds_lease c x)"
  using assms(1)
proof (cases rule: finish_cases)
  case (accepted locked x)
  let ?s = "settled_state (trunc_ms clock) x reported"
  have x: "holds_lease c x" using find_member[OF accepted(2)] by simp
  have runs: "jb_runs db' = map (\<lambda>y. if ru_id y = ru_id x then settle_run (trunc_ms clock) ?s y else y) (jb_runs locked)"
    by (simp add: accepted(5) update_attempts_def update_schedules_def update_runs_def)
  from assms(2)[unfolded runs set_map] obtain y where y: "r = (if ru_id y = ru_id x then settle_run (trunc_ms clock) ?s y else y)" by (rule imageE)
  have "ru_id y = ru_id x"
  proof (rule ccontr)
    assume "ru_id y \<noteq> ru_id x"
    with y assms(3) x show False by (simp add: holds_lease_def)
  qed
  with y have "r = settle_run (trunc_ms clock) ?s y" by simp
  with assms(4) have "?s = RetryWait"
    using settled_not_queued[OF accepted(3), of "trunc_ms clock" x] by (auto simp: settle_run_def pending_state_def split: if_splits)
  with settled_reported settled_retry x show ?thesis by blast
qed simp

lemma time_sub_exact: "u \<le> t \<Longrightarrow> t - u \<le> max64 \<Longrightarrow> time_sub t u = t - u"
  by (simp add: time_sub_def min64_def max64_def)

lemma due_slot:
  assumes "0 < interval" "planned \<le> now" "now - planned + interval \<le> max64"
    "resolve_due_slot planned now interval policy = (slot, upcoming, missed, dispatch)"
  defines "k \<equiv> (now - planned) div interval"
  shows "upcoming = planned + (k + 1) * interval" "planned + k * interval \<le> now" "now < planned + (k + 1) * interval" "0 \<le> k"
    "dispatch \<longleftrightarrow> \<not> (policy = fire_skip \<and> 0 < k)" "dispatch \<Longrightarrow> slot = planned + k * interval \<and> missed = nat k"
    "\<not> dispatch \<Longrightarrow> missed = nat (k + 1)"
proof -
  have k: "0 \<le> k" "k * interval \<le> now - planned" "now - planned < (k + 1) * interval"
    using assms(1,2) div_bounds[OF assms(1), of "now - planned"] by (simp_all add: k_def pos_imp_zdiv_nonneg_iff mult.commute distrib_left)
  then show "planned + k * interval \<le> now" "now < planned + (k + 1) * interval" "0 \<le> k" by simp_all
  have q: "quo (time_sub now planned) interval = k"
    using assms by (simp add: time_sub_exact k_def)
  have "k * 1 \<le> k * interval" by (rule mult_left_mono) (use k(1) assms(1) in simp_all)
  then have small: "k \<le> now - planned" using k(2) by simp
  have w: "wrap64 (k + 1) = k + 1" "wrap64 k = k"
    by (rule wrap64_id, rule in64_nonneg, use k small assms(1,3) in simp_all)+
  have "(k + 1) * interval = k * interval + interval" by (simp add: distrib_right)
  then have le: "(k + 1) * interval \<le> max64" "k * interval \<le> max64" using k(2) assms(1,3) by simp_all
  have m: "mul64 (k + 1) interval = (k + 1) * interval" "mul64 k interval = k * interval"
    using k(1) assms(1) le by (auto intro!: mul64_exact in64_nonneg)
  show "upcoming = planned + (k + 1) * interval" "dispatch \<longleftrightarrow> \<not> (policy = fire_skip \<and> 0 < k)" "dispatch \<Longrightarrow> slot = planned + k * interval \<and> missed = nat k"
    "\<not> dispatch \<Longrightarrow> missed = nat (k + 1)"
    using assms(4) by (auto simp: resolve_due_slot_def Let_def q w m split: if_splits)
qed

section \<open>Properties\<close>



text \<open>
  The delay before a retry doubles with each attempt up to an hour: it is the backoff of the run times two to the
  number of earlier attempts, cut at one hour, for every backoff and attempt a run can have; the loop that computes it
  ends and no product wraps around.
\<close>
theorem retry_delay_doubles:
  assumes "0 < backoff" "backoff \<le> 3600000" "1 \<le> attempt"
  shows "retry_delay backoff attempt = min hour (backoff * millisecond * 2 ^ nat (attempt - 1))"
proof -
  have b: "from_ms backoff = backoff * millisecond" using assms(1,2)
    by (simp add: from_ms_def mul64_exact in64_nonneg millisecond_def max64_def)
  have d: "0 < backoff * millisecond" "backoff * millisecond \<le> 2 * hour" using assms(1,2) by (simp_all add: millisecond_def hour_def)
  from double_delay_pow[OF d, of "nat (attempt - 1)"] d show ?thesis
    by (auto simp: retry_delay_def Let_def b)
qed

theorem retry_delay_doubles_witness: "retry_delay 1000 3 = 4000000000"
  using retry_delay_doubles[of 1000 3] by (simp add: hour_def millisecond_def)



definition sample_definition :: job_definition where
  "sample_definition = \<lparr>jd_id = ''d'', jd_owner = ''system'', jd_name = [], jd_handler = ''d'', jd_group = [], jd_resource = [], jd_revision = ''1'',
     jd_interval = 10000000000, jd_timeout = 1000000000, jd_max_attempts = 1, jd_backoff = 0, jd_immediate = True, jd_zone = ''UTC'',
     jd_misfire = fire_once, jd_first = 0, jd_lane = ''core'', jd_reconcile = True, jd_suppress = False, jd_compact = False\<rparr>"


text \<open>
  A plan is accepted with a timeout that is no whole number of milliseconds, but the intent of each of its slots is then
  refused, so it never runs.
\<close>

lemma fractional_timeout_never_dispatched:
  assumes "rem (jd_timeout d) millisecond \<noteq> 0"
  shows "\<exists>e. dispatch_slot se d clock fresh planned s db = Inl e"
proof -
  have "su_timeout (submission_defaults (slot_submission se d planned)) = jd_timeout d"
    by (simp add: submission_defaults_def slot_submission_def Let_def)
  then have "submission_bad (se_job se) (submission_defaults (slot_submission se d planned))" using assms by (simp add: submission_bad_def)
  then show ?thesis by (simp add: dispatch_slot_def prepare_submission_def Let_def)
qed

lemma fractional_timeout_accepted:
  "\<not> definition_bad (\<lambda>_. True) (definition_defaults (sample_definition\<lparr>jd_timeout := 1500000\<rparr>)) \<and> rem 1500000 millisecond \<noteq> 0"
  by code_simp

end
