(* ===== verification/JobFairness.thy ===== *)
theory JobFairness
  imports JobOutcomes "HOL-Library.Product_Lexorder"
begin

text \<open>
  The weighted order in which lanes are served. A lane is charged the quantum of its weight for each run it gets; the
  lane with the least charge is next. A lane with a claimable run is passed over a bounded number of times.
\<close>

section \<open>The least element\<close>

definition least_order :: "('a \<Rightarrow> 'a \<Rightarrow> bool) \<Rightarrow> bool" where
  "least_order before \<longleftrightarrow> (\<forall>x y z. before x y \<longrightarrow> before y z \<longrightarrow> before x z) \<and> (\<forall>x. \<not> before x x)
     \<and> (\<forall>x y z. \<not> before x y \<longrightarrow> \<not> before y z \<longrightarrow> \<not> before x z)"

lemma least_by_least:
  assumes "least_order before" "least_by before xs = Some m" "x \<in> set xs"
  shows "\<not> before x m"
  using assms(2,3)
proof (induction xs arbitrary: m x)
  case (Cons y ys)
  show ?case
  proof (cases "least_by before ys")
    case None
    then have "ys = []" by (cases ys) (auto split: option.splits if_splits)
    with Cons.prems assms(1) show ?thesis by (auto simp: least_order_def)
  next
    case (Some z)
    then have z: "\<not> before w z" if "w \<in> set ys" for w using Cons.IH that by blast
    show ?thesis
    proof (cases "before z y")
      case True
      with Cons.prems Some have "m = z" by simp
      have "\<not> before y z" using True assms(1) unfolding least_order_def by blast
      with z Cons.prems(2) \<open>m = z\<close> show ?thesis by auto
    next
      case False
      with Cons.prems Some have "m = y" by simp
      have "\<not> before w y" if "w \<in> set ys" for w using z[OF that] False assms(1) unfolding least_order_def by blast
      moreover have "\<not> before y y" using assms(1) unfolding least_order_def by blast
      ultimately show ?thesis using Cons.prems(2) \<open>m = y\<close> by auto
    qed
  qed
qed simp

lemma least_by_None: "least_by before xs = None \<longleftrightarrow> xs = []"
  by (cases xs) (auto split: option.splits)

lemma least_order_key: "(\<And>x y. before x y \<longleftrightarrow> (f x :: 'b :: linorder) < f y) \<Longrightarrow> least_order before"
  by (auto simp: least_order_def not_less)

lemma lane_order: "least_order lane_before"
  by (rule least_order_key[of _ "\<lambda>l. (el_effective l, el_oldest l, el_lane l)"]) (auto simp: lane_before_def)

section \<open>Charges\<close>

text \<open>What a lane has been charged never runs ahead of the virtual time by more than one quantum of weight one.\<close>

definition charges_ok :: "job_db \<Rightarrow> bool" where
  "charges_ok db \<longleftrightarrow> (\<forall>lane. jb_lanes db lane \<le> jb_vtime db + 1024)"

definition lane_charge :: "job_db \<Rightarrow> string \<Rightarrow> nat" where "lane_charge db lane = max (jb_lanes db lane) (jb_vtime db)"

lemma quantum_bounds: "dispatch_quantum lane \<le> 1024" "0 < dispatch_quantum lane" "(dispatch_weight lane + 1) * dispatch_quantum lane > 1024"
  by (auto simp: dispatch_quantum_def dispatch_weight_def)

lemma selected_lane:
  assumes "select_dispatch_lane rows (jb_lanes db) (jb_vtime db) = Some (lane, start, finish)"
  shows "start = lane_charge db lane" "finish = add_u64 start (dispatch_quantum lane)" "lane \<in> ru_lane ` set rows"
    "r \<in> set rows \<Longrightarrow> start \<le> lane_charge db (ru_lane r)"
proof -
  from assms obtain l where l: "least_by lane_before (eligible_lanes rows (jb_lanes db) (jb_vtime db)) = Some l"
    "lane = el_lane l" "start = el_effective l" "finish = add_u64 (el_effective l) (dispatch_quantum (el_lane l))"
    by (auto simp: select_dispatch_lane_def)
  from least_by_member[OF l(1)] l show "start = lane_charge db lane" "finish = add_u64 start (dispatch_quantum lane)" "lane \<in> ru_lane ` set rows"
    by (auto simp: eligible_lanes_def lane_charge_def)
  assume r: "r \<in> set rows"
  let ?x = "\<lparr>el_lane = ru_lane r, el_oldest = Min (set (map ru_not_before (filter (\<lambda>x. ru_lane x = ru_lane r) rows))),
     el_effective = max (jb_lanes db (ru_lane r)) (jb_vtime db)\<rparr>"
  have "?x \<in> set (eligible_lanes rows (jb_lanes db) (jb_vtime db))" using r by (auto simp: eligible_lanes_def)
  from least_by_least[OF lane_order l(1) this] show "start \<le> lane_charge db (ru_lane r)"
    by (auto simp: lane_before_def l(3) lane_charge_def split: if_splits)
qed


lemma claim_charges:
  assumes "claim_job probe clock token worker handlers timeout db = (Inr c, db')" "lock_budget db = Inr locked"
  defines "m \<equiv> su_lane (vw_submission (cl_run c))" and "swept \<equiv> expire_leases (trunc_ms clock) locked"
  shows "jb_lanes db' = (jb_lanes db)(m := add_u64 (lane_charge db m) (dispatch_quantum m))" "jb_vtime db' = lane_charge db m"
    "r \<in> set (jb_runs swept) \<Longrightarrow> eligible swept (trunc_ms clock) handlers r \<Longrightarrow> lane_charge db m \<le> lane_charge db (ru_lane r)"
proof -
  have k: "calm db swept" unfolding swept_def by (rule calm_swept[OF assms(2)])
  then have same: "lane_charge swept = lane_charge db" "jb_lanes swept = jb_lanes db" by (auto simp: lane_charge_def calm_def)
  from assms(1) have "claim_next (trunc_ms clock) worker handlers timeout token swept = Inr (Some (c, db'))"
  proof (cases rule: claim_cases)
    case (leased d l)
    with assms(2) show ?thesis by (simp add: swept_def)
  qed simp
  then obtain x pick t where p: "ru_lane x = fst pick"
    "select_dispatch_lane (filter (eligible swept (trunc_ms clock) handlers) (jb_runs swept)) (jb_lanes swept) (jb_vtime swept) = Some pick"
    "grant_lease token worker (trunc_ms clock) (trunc_ms clock + t) x pick swept = Inr (c, db')"
    by (rule claim_next_cases)
  note g = grant_facts[OF p(3)]
  obtain start finish where pick: "pick = (m, start, finish)" using p(1) g(12) by (cases pick) (simp add: m_def)
  note l = selected_lane[OF p(2)[unfolded pick]]
  show "jb_lanes db' = (jb_lanes db)(m := add_u64 (lane_charge db m) (dispatch_quantum m))" "jb_vtime db' = lane_charge db m"
    using l(1,2) by (simp_all add: g(6,7) pick same)
  show "lane_charge db m \<le> lane_charge db (ru_lane r)" if "r \<in> set (jb_runs swept)" "eligible swept (trunc_ms clock) handlers r"
    using l(1) l(4)[of r] that by (simp add: same)
qed

lemma claim_locked: "claim_job probe clock token worker handlers timeout db = (Inr c, db') \<Longrightarrow> \<exists>locked. lock_budget db = Inr locked"
  by (rule claim_cases[of probe clock token worker handlers timeout db "Inr c" db']) auto

lemma add_u64_le: "add_u64 a b \<le> a + b" by (simp add: add_u64_def)

lemma charges_step: "job_step se T db db' \<Longrightarrow> queue_ok db \<Longrightarrow> charges_ok db \<Longrightarrow> charges_ok db'"
proof (erule job_step.cases, goal_cases)
  case (2 probe clock token worker handlers timeout x out y)
  then have c: "claim_job probe clock token worker handlers timeout db = (out, db')" by simp
  show ?case
  proof (cases out)
    case (Inl e)
    with c have "calm db db'" by (cases rule: claim_cases) (auto intro: calm_swept)
    with 2 show ?thesis by (simp add: charges_ok_def calm_def)
  next
    case (Inr d)
    with c obtain locked where l: "lock_budget db = Inr locked" using claim_locked by blast
    let ?m = "su_lane (vw_submission (cl_run d))"
    note n = claim_charges(1,2)[OF c[unfolded Inr] l]
    have v: "jb_vtime db \<le> lane_charge db ?m" by (simp add: lane_charge_def)
    have "jb_lanes db' lane \<le> jb_vtime db' + 1024" for lane
    proof (cases "lane = ?m")
      case True
      have "add_u64 (lane_charge db ?m) (dispatch_quantum ?m) \<le> lane_charge db ?m + 1024"
        by (rule order_trans[OF add_u64_le]) (simp add: quantum_bounds(1))
      with True show ?thesis by (simp add: n)
    next
      case False
      have "jb_lanes db lane \<le> jb_vtime db + 1024" using 2 by (simp add: charges_ok_def)
      with False v show ?thesis by (simp add: n)
    qed
    then show ?thesis by (simp add: charges_ok_def)
  qed
qed (auto simp: charges_ok_def calm_def dest!: calm_submit calm_finish calm_record_cancellation calm_cancel_handler calm_verified calm_import calm_schedule calm_prune)

section \<open>Waiting\<close>

text \<open>A claim serves lane \<open>m\<close> although a run of lane \<open>l\<close> could be claimed.\<close>

definition passes :: "string \<Rightarrow> string \<Rightarrow> job_db \<Rightarrow> job_db \<Rightarrow> bool" where
  "passes l m db db' \<longleftrightarrow> m \<noteq> l \<and> (\<exists>probe clock token worker handlers timeout c locked.
     claim_job probe clock token worker handlers timeout db = (Inr c, db') \<and> su_lane (vw_submission (cl_run c)) = m \<and> lock_budget db = Inr locked
     \<and> (\<exists>r \<in> set (jb_runs (expire_leases (trunc_ms clock) locked)).
          ru_lane r = l \<and> eligible (expire_leases (trunc_ms clock) locked) (trunc_ms clock) handlers r))"

text \<open>A stretch of history in which each claim that serves a run passes over lane \<open>l\<close>, with the lanes served.\<close>

inductive passed_over :: "string \<Rightarrow> string list \<Rightarrow> job_db \<Rightarrow> job_db \<Rightarrow> bool" for l where
  start: "passed_over l [] db db"
| uncharged: "passed_over l ms db db1 \<Longrightarrow> jb_lanes db2 = jb_lanes db1 \<Longrightarrow> jb_vtime db2 = jb_vtime db1 \<Longrightarrow> passed_over l ms db db2"
| pass: "passed_over l ms db db1 \<Longrightarrow> passes l m db1 db2 \<Longrightarrow> passed_over l (ms @ [m]) db db2"

lemma passed_over_charges:
  assumes "passed_over l ms db db'" "charges_ok db" "jb_vtime db + 2048 < 18446744073709551616"
  shows "lane_charge db' l = lane_charge db l \<and> jb_vtime db \<le> jb_vtime db'
    \<and> (\<forall>m. count_list ms m \<le> dispatch_weight m + 1 \<and> (count_list ms m = 0 \<or> jb_vtime db + count_list ms m * dispatch_quantum m \<le> jb_lanes db' m))
    \<and> l \<notin> set ms"
  using assms
proof (induction rule: passed_over.induct)
  case (uncharged ms db db1 db2)
  then show ?case by (simp add: lane_charge_def)
next
  case (pass ms db db1 m db2)
  note ih = pass.IH[OF pass.prems]
  from pass.hyps(2) obtain probe clock token worker handlers timeout c locked r where c: "m \<noteq> l"
    "claim_job probe clock token worker handlers timeout db1 = (Inr c, db2)" "su_lane (vw_submission (cl_run c)) = m" "lock_budget db1 = Inr locked"
    "r \<in> set (jb_runs (expire_leases (trunc_ms clock) locked))" "ru_lane r = l" "eligible (expire_leases (trunc_ms clock) locked) (trunc_ms clock) handlers r"
    unfolding passes_def by blast
  note n = claim_charges(1,2)[OF c(2,4), unfolded c(3)] claim_charges(3)[OF c(2,4,5,7), unfolded c(3,6)]
  let ?q = "dispatch_quantum m" and ?k = "count_list ms m"
  have e: "lane_charge db l \<le> jb_vtime db + 1024" using pass.prems(1) by (simp add: lane_charge_def charges_ok_def)
  have "lane_charge db1 l = lane_charge db l" using ih by simp
  then have start: "jb_vtime db1 \<le> lane_charge db1 m" "lane_charge db1 m \<le> jb_vtime db + 1024"
    using order_trans[OF n(3)] e by (simp add: lane_charge_def) (use n(3) e \<open>lane_charge db1 l = lane_charge db l\<close> in linarith)
  have low: "jb_vtime db + ?k * ?q \<le> lane_charge db1 m"
  proof (cases "?k = 0")
    case True
    with ih start(1) show ?thesis by simp
  next
    case False
    moreover from ih have "?k = 0 \<or> jb_vtime db + ?k * ?q \<le> jb_lanes db1 m" by simp
    ultimately have "jb_vtime db + ?k * ?q \<le> jb_lanes db1 m" by simp
    then show ?thesis by (simp add: lane_charge_def)
  qed
  with start(2) have "?k * ?q \<le> 1024" by linarith
  have few: "?k \<le> dispatch_weight m"
  proof (rule ccontr)
    assume "\<not> ?k \<le> dispatch_weight m"
    then have "(dispatch_weight m + 1) * ?q \<le> ?k * ?q" by (intro mult_right_mono) simp_all
    with \<open>?k * ?q \<le> 1024\<close> quantum_bounds(3)[of m] show False by linarith
  qed
  have "lane_charge db1 m + ?q < 18446744073709551616" using start(2) pass.prems(2) quantum_bounds(1)[of m] by linarith
  then have add: "add_u64 (lane_charge db1 m) ?q = lane_charge db1 m + ?q" by (simp add: add_u64_def)
  have lanes: "jb_lanes db2 = (jb_lanes db1)(m := lane_charge db1 m + ?q)" "jb_vtime db2 = lane_charge db1 m" using n(1,2) add by simp_all
  have "lane_charge db2 l = lane_charge db1 l" using c(1) n(3) start(1) by (auto simp: lane_charge_def lanes max_def split: if_splits)
  moreover have "count_list (ms @ [m]) x \<le> dispatch_weight x + 1
      \<and> (count_list (ms @ [m]) x = 0 \<or> jb_vtime db + count_list (ms @ [m]) x * dispatch_quantum x \<le> jb_lanes db2 x)" for x
    using ih few low by (cases "x = m") (auto simp: lanes)
  ultimately show ?case using ih start(1) c(1) by (auto simp: lanes)
qed simp

section \<open>Properties\<close>

text \<open>
  C12. No lane starves: while a run of a lane can be claimed, every other lane is served before it at most once more
  than its weight, four for the core, two for an execution group, one for any other lane; so after a bounded number
  of claims the waiting lane is served, whatever is submitted, finished or canceled in between.
\<close>
theorem lane_served_in_time:
  assumes "(job_step se T)\<^sup>*\<^sup>* db0 db" "jb_runs db0 = []" "jb_attempts db0 = []" "distinct (map sd_id (jb_schedules db0))" "charges_ok db0"
    "passed_over l ms db db'" "jb_vtime db + 2048 < 18446744073709551616"
  shows "(\<forall>m. count_list ms m \<le> dispatch_weight m + 1) \<and> l \<notin> set ms \<and> length ms \<le> 5 * card (set ms)"
proof -
  have "queue_ok db \<and> charges_ok db"
    using assms(1) by (induction rule: rtranclp_induct) (auto simp: empty_queue_ok[OF assms(2-4)] assms(5) intro: job_step_keeps charges_step)
  then have p: "\<And>m. count_list ms m \<le> dispatch_weight m + 1" "l \<notin> set ms" using passed_over_charges[OF assms(6) _ assms(7)] by simp_all
  have "count_list ms m \<le> 5" for m using p(1)[of m] by (auto simp: dispatch_weight_def split: if_splits)
  then have "(\<Sum>m \<in> set ms. count_list ms m) \<le> 5 * card (set ms)" using sum_bounded_above[of "set ms" "count_list ms" 5] by simp
  then show ?thesis using p by (simp add: sum_count_set)
qed

theorem lane_served_in_time_witness:
  "\<exists>db db'. passed_over ''x'' [''core''] db db' \<and> map ru_lane (jb_runs db) = [''core'', ''x''] \<and> count_list [''core''] ''core'' \<le> dispatch_weight ''core'' + 1"
proof -
  let ?x = "(sample_intent ''k2'')\<lparr>su_lane := ''x''\<rparr>"
  have "(case submit_job sample_job_env 5000000000 ''r1'' (sample_intent ''k1'') empty_queue of
      Inl _ \<Rightarrow> False
    | Inr (v1, db1) \<Rightarrow> case submit_job sample_job_env 5000000000 ''r2'' ?x db1 of
        Inl _ \<Rightarrow> False
      | Inr (v2, db2) \<Rightarrow> map ru_lane (jb_runs db2) = [''core'', ''x''] \<and> jb_vtime db2 = 0 \<and> (case lock_budget db2 of
          Inl _ \<Rightarrow> False
        | Inr locked \<Rightarrow> (\<exists>r \<in> set (jb_runs (expire_leases (trunc_ms 6000000000) locked)). ru_lane r = ''x''
            \<and> eligible (expire_leases (trunc_ms 6000000000) locked) (trunc_ms 6000000000) [''h''] r)
          \<and> (case claim_job 6000000000 6000000000 ''t1'' ''w'' [''h''] 1000000000 db2 of
              (Inl _, _) \<Rightarrow> False
            | (Inr c, db3) \<Rightarrow> su_lane (vw_submission (cl_run c)) = ''core'')))"
    by code_simp
  then show ?thesis unfolding case_result_holds split_paired_Ex prod.case
  proof (elim exE conjE, goal_cases)
    case (1 v1 db1 v2 db2 locked)
    from 1(7) obtain c db3 where c: "claim_job 6000000000 6000000000 ''t1'' ''w'' [''h''] 1000000000 db2 = (Inr c, db3)" "su_lane (vw_submission (cl_run c)) = ''core''"
      by (elim case_prodE exE conjE) simp
    have "passes ''x'' ''core'' db2 db3" unfolding passes_def using c 1(5,6) by blast
    with passed_over.pass[OF passed_over.start] have p: "passed_over ''x'' [''core''] db2 db3" by fastforce
    have e: "se_job sample_schedule_env = sample_job_env" by (simp add: sample_schedule_env_def)
    have "(job_step sample_schedule_env {})\<^sup>*\<^sup>* empty_queue db2"
      by (rule rtranclp_trans[OF r_into_rtranclp r_into_rtranclp]; rule job_step.submit, simp only: e, rule 1(1,2)) simp_all
    moreover have "jb_runs empty_queue = []" "jb_attempts empty_queue = []" "distinct (map sd_id (jb_schedules empty_queue))" "charges_ok empty_queue"
      by (simp_all add: empty_queue_def charges_ok_def)
    moreover have "jb_vtime db2 + 2048 < 18446744073709551616" using 1 by simp
    ultimately have "count_list [''core''] ''core'' \<le> dispatch_weight ''core'' + 1" using lane_served_in_time[OF _ _ _ _ _ p] by blast
    with p 1(3) show ?case by (intro exI conjI)
  qed
qed




end
