(* ===== verification/JobRetention.thy ===== *)
theory JobRetention
  imports JobOutcomes
begin

text \<open>
  The retention of finished runs of plans (\<^verbatim>\<open>jobstore/retention.go\<close>): repeated pruning ends with nothing left to
  prune, and takes only old runs of the chosen outcome that no plan refers to.
\<close>

section \<open>A batch\<close>

lemma probe_nonempty: "0 < lim \<Longrightarrow> prune_probe db before s lim \<noteq> [] \<longleftrightarrow> (\<exists>r \<in> set (jb_runs db). periodic_candidate db before s r)"
proof -
  have e: "sort_key f xs = [] \<longleftrightarrow> xs = []" for f :: "job_run \<Rightarrow> 'k :: linorder" and xs by (metis length_0_conv length_sort)
  assume "0 < lim"
  then show ?thesis by (auto simp: prune_probe_def e filter_empty_conv)
qed

lemma probe_candidate: "i \<in> set (prune_probe db before s lim) \<Longrightarrow> \<exists>r \<in> set (jb_runs db). periodic_candidate db before s r \<and> ru_id r = i"
  unfolding prune_probe_def by (drule in_set_takeD) auto

text \<open>The elements with the least key come first in a sorted list.\<close>

lemma least_first:
  fixes f :: "'a \<Rightarrow> 'b :: linorder"
  shows "sorted (map f xs) \<Longrightarrow> \<forall>x \<in> set xs. m \<le> f x \<Longrightarrow> length (filter (\<lambda>x. f x = m) xs) \<le> k \<Longrightarrow> x \<in> set xs \<Longrightarrow> f x = m
    \<Longrightarrow> x \<in> set (take k xs)"
proof (induction xs arbitrary: k)
  case (Cons y ys)
  show ?case
  proof (cases "f y = m")
    case True
    with Cons.prems obtain k' where "k = Suc k'" by (cases k) auto
    with True Cons show ?thesis by auto
  next
    case False
    with Cons.prems show ?thesis by force
  qed
qed simp

lemma few_attempts:
  assumes "queue_ok db" "r \<in> set (jb_runs db)"
  shows "length (filter (\<lambda>a. ja_run a = ru_id r) (jb_attempts db)) \<le> 10"
proof -
  note b = run_attempts[OF assms]
  have "int (length (filter (\<lambda>a. ja_run a = ru_id r) (jb_attempts db))) \<le> 10" using b by linarith
  then show ?thesis by simp
qed

lemma prune_takes:
  assumes "prune_candidates before s candidates db = (n, db')" "queue_ok db" "r \<in> set (jb_runs db)" "periodic_candidate db before s r" "ru_id r \<in> set candidates"
  shows "0 < n"
proof -
  define ids where "ids = map ru_id (sort_key ru_id (filter (\<lambda>r. periodic_candidate db before s r \<and> ru_id r \<in> set candidates) (jb_runs db)))"
  define mine where "mine = filter (\<lambda>a. ja_run a \<in> set ids) (jb_attempts db)"
  define rows where "rows = sort_key ja_run (sort_key ja_number mine)"
  define tokens where "tokens = set (take prune_batch (map ja_token rows))"
  define gone where "gone r \<longleftrightarrow> ru_id r \<in> set ids \<and> ru_id r \<notin> set (map ja_run (filter (\<lambda>a. ja_token a \<notin> tokens) (jb_attempts db)))" for r :: job_run
  have n: "n = count_runs gone db"
    using assms(1) unfolding prune_candidates_def Let_def ids_def[symmetric] mine_def[symmetric] rows_def[symmetric] tokens_def[symmetric] gone_def[symmetric]
    by simp
  have "ru_id r \<in> set ids" using assms(3-5) by (auto simp: ids_def)
  then have "Min (set ids) \<in> set ids" by (intro Min_in) auto
  then obtain x where x: "x \<in> set (jb_runs db)" "ru_id x = Min (set ids)" by (auto simp: ids_def)
  have min: "\<forall>a \<in> set rows. ru_id x \<le> ja_run a" unfolding x(2) rows_def by (auto simp: mine_def)
  have "filter (\<lambda>a. ja_run a = ru_id x) mine = filter (\<lambda>a. ja_run a = ru_id x) (jb_attempts db)"
    using \<open>Min (set ids) \<in> set ids\<close> by (auto simp: mine_def x(2) intro: filter_cong)
  moreover have "mset (filter (\<lambda>a. ja_run a = ru_id x) rows) = mset (filter (\<lambda>a. ja_run a = ru_id x) mine)" by (simp add: rows_def)
  ultimately have "length (filter (\<lambda>a. ja_run a = ru_id x) rows) \<le> 10" using few_attempts[OF assms(2) x(1)] by (metis mset_eq_length)
  then have few: "length (filter (\<lambda>a. ja_run a = ru_id x) rows) \<le> prune_batch" by (simp add: prune_batch_def)
  have "sorted (map ja_run rows)" by (simp add: rows_def)
  note first = least_first[OF this min few]
  have "ja_token a \<in> tokens" if "a \<in> set (jb_attempts db)" "ja_run a = ru_id x" for a
  proof -
    have "a \<in> set rows" using that \<open>Min (set ids) \<in> set ids\<close> by (simp add: rows_def mine_def x(2))
    from first[OF this that(2)] show ?thesis by (simp add: tokens_def take_map)
  qed
  then have "gone x" using \<open>Min (set ids) \<in> set ids\<close> x(2) by (auto simp: gone_def)
  with x(1) show ?thesis by (auto simp: n count_runs_def filter_empty_conv)
qed

lemma prune_batch_effect:
  assumes "prune_candidates before s candidates db = (n, db')"
  shows "length (jb_runs db) = length (jb_runs db') + n" "set (jb_runs db') \<subseteq> set (jb_runs db)" "jb_schedules db' = jb_schedules db"
    "r \<in> set (jb_runs db) \<Longrightarrow> r \<notin> set (jb_runs db') \<Longrightarrow> (\<exists>x \<in> set (jb_runs db). ru_id x = ru_id r \<and> periodic_candidate db before s x)"
proof -
  define ids where "ids = map ru_id (sort_key ru_id (filter (\<lambda>r. periodic_candidate db before s r \<and> ru_id r \<in> set candidates) (jb_runs db)))"
  obtain attempts where a: "prune_candidates before s candidates db = (let gone = (\<lambda>r. ru_id r \<in> set ids \<and> ru_id r \<notin> set (map ja_run attempts)) in
      (count_runs gone db, db\<lparr>jb_attempts := attempts, jb_runs := filter (\<lambda>r. \<not> gone r) (jb_runs db)\<rparr>))"
    unfolding prune_candidates_def Let_def ids_def by blast
  define gone where "gone r \<longleftrightarrow> ru_id r \<in> set ids \<and> ru_id r \<notin> set (map ja_run attempts)" for r :: job_run
  have g: "n = count_runs gone db" "db' = db\<lparr>jb_attempts := attempts, jb_runs := filter (\<lambda>r. \<not> gone r) (jb_runs db)\<rparr>"
    using assms unfolding a Let_def gone_def by simp_all
  have origin: "gone r \<Longrightarrow> \<exists>x \<in> set (jb_runs db). ru_id x = ru_id r \<and> periodic_candidate db before s x" for r
    by (auto simp: gone_def ids_def)
  show "length (jb_runs db) = length (jb_runs db') + n"
    using sum_length_filter_compl[of gone "jb_runs db"] by (simp add: g(1,2) count_runs_def)
  show "set (jb_runs db') \<subseteq> set (jb_runs db)" "jb_schedules db' = jb_schedules db" by (auto simp: g(2))
  show "\<exists>x \<in> set (jb_runs db). ru_id x = ru_id r \<and> periodic_candidate db before s x" if "r \<in> set (jb_runs db)" "r \<notin> set (jb_runs db')"
    using that origin[of r] by (simp add: g(2))
qed

section \<open>A sweep over the states\<close>

definition prunable :: "job_db \<Rightarrow> gotime \<Rightarrow> job_state list \<Rightarrow> job_run \<Rightarrow> bool" where
  "prunable db before states r \<longleftrightarrow> (\<exists>s \<in> set states. periodic_candidate db before s r)"

lemma sweep_effect:
  assumes "prune_periodic_states before states deleted db = (n, db')" "queue_ok db"
  shows "queue_ok db' \<and> deleted \<le> n \<and> n + length (jb_runs db') = deleted + length (jb_runs db) \<and> set (jb_runs db') \<subseteq> set (jb_runs db) \<and> jb_schedules db' = jb_schedules db
    \<and> (\<forall>r \<in> set (jb_runs db) - set (jb_runs db'). prunable db before states r)
    \<and> (deleted < prune_batch \<and> (\<exists>r \<in> set (jb_runs db). prunable db before states r) \<longrightarrow> deleted < n)"
  using assms
proof (induction before states deleted db arbitrary: n db' rule: prune_periodic_states.induct)
  case (2 before s states deleted db)
  let ?c = "prune_probe db before s (prune_batch - deleted)"
  show ?case
  proof (cases "deleted \<ge> prune_batch")
    case True
    with 2 show ?thesis by simp
  next
    case small: False
    show ?thesis
    proof (cases "?c = []")
      case True
      with small have "\<forall>r \<in> set (jb_runs db). \<not> periodic_candidate db before s r" using probe_nonempty[of "prune_batch - deleted" db before s] by simp
      then have same: "prunable db before (s # states) r = prunable db before states r" if "r \<in> set (jb_runs db)" for r
        using that by (auto simp: prunable_def)
      from 2(3) small True have "prune_periodic_states before states deleted db = (n, db')" by simp
      from 2(1)[OF small refl True this 2(4)] same show ?thesis by auto
    next
      case False
      obtain k db1 where p: "prune_candidates before s ?c db = (k, db1)" by fastforce
      obtain i where "i \<in> set ?c" using False by (meson last_in_set)
      with probe_candidate obtain r where r: "r \<in> set (jb_runs db)" "periodic_candidate db before s r" "ru_id r \<in> set ?c" by blast
      have "0 < k" by (rule prune_takes[OF p 2(4) r])
      have ok: "queue_ok db1" by (rule job_step_keeps[OF job_step.prune[OF p] 2(4)])
      note e = prune_batch_effect[OF p]
      have rec: "prune_periodic_states before states (deleted + k) db1 = (n, db')" using 2(3) small False p by simp
      note ih = 2(2)[OF small refl False p[symmetric] refl rec ok]
      have ids: "distinct (map ru_id (jb_runs db))" using 2(4) by (auto simp: queue_ok_def intro: rows_sound_ids)
      have "periodic_candidate db before s r" if "r \<in> set (jb_runs db)" "r \<notin> set (jb_runs db1)" for r
        using e(4)[OF that] same_id[OF ids _ that(1)] by blast
      moreover have "periodic_candidate db1 before t r = periodic_candidate db before t r" for t r by (simp add: periodic_candidate_def e(3))
      ultimately have taken: "\<forall>r \<in> set (jb_runs db) - set (jb_runs db'). prunable db before (s # states) r"
        using ih e(2) by (simp add: prunable_def) blast
      from ih \<open>0 < k\<close> have "deleted < n" by linarith
      with taken ih e(1-3) show ?thesis by auto
    qed
  qed
qed (simp add: prunable_def)

lemma sweep_outcome:
  fixes before successful
  assumes "queue_ok db"
  defines "db' \<equiv> snd (prune_periodic_outcome before successful db)"
  shows "queue_ok db'" "set (jb_runs db') \<subseteq> set (jb_runs db)" "jb_schedules db' = jb_schedules db"
    "r \<in> set (jb_runs db) \<Longrightarrow> r \<notin> set (jb_runs db') \<Longrightarrow> prunable db before (outcome_states successful) r"
    "has_prunable_periodic before successful db \<Longrightarrow> length (jb_runs db') < length (jb_runs db)"
proof -
  obtain n where p: "prune_periodic_states before (outcome_states successful) 0 db = (n, db')"
    by (cases "prune_periodic_states before (outcome_states successful) 0 db") (simp add: db'_def prune_periodic_outcome_def)
  note e = sweep_effect[OF p assms(1)]
  then show "queue_ok db'" "set (jb_runs db') \<subseteq> set (jb_runs db)" "jb_schedules db' = jb_schedules db"
    "r \<in> set (jb_runs db) \<Longrightarrow> r \<notin> set (jb_runs db') \<Longrightarrow> prunable db before (outcome_states successful) r" by auto
  assume "has_prunable_periodic before successful db"
  then have "\<exists>r \<in> set (jb_runs db). prunable db before (outcome_states successful) r"
    by (auto simp: has_prunable_periodic_def probe_nonempty prunable_def)
  with e have "0 < n" by (simp add: prune_batch_def)
  with e show "length (jb_runs db') < length (jb_runs db)" by linarith
qed

section \<open>Properties\<close>

abbreviation sweep :: "gotime \<Rightarrow> bool \<Rightarrow> job_db \<Rightarrow> job_db" where
  "sweep before successful db \<equiv> snd (prune_periodic_outcome before successful db)"

text \<open>
  C25. Retention ends and spares evidence: sweeping the queue again and again reaches, after at most as many sweeps as
  there are runs, a state with nothing left to prune, although a sweep takes only a batch; and every run it took was a
  run of a plan that had finished before the cutoff with an outcome of the chosen kind and that no plan refers to.
\<close>
theorem retention_ends:
  assumes "(job_step se T)\<^sup>*\<^sup>* db0 db" "jb_runs db0 = []" "jb_attempts db0 = []" "distinct (map sd_id (jb_schedules db0))"
  shows "\<exists>n db'. n \<le> length (jb_runs db) \<and> db' = (sweep before successful ^^ n) db \<and> \<not> has_prunable_periodic before successful db'
    \<and> set (jb_runs db') \<subseteq> set (jb_runs db)
    \<and> (\<forall>r \<in> set (jb_runs db) - set (jb_runs db'). ru_schedule r \<noteq> [] \<and> ru_state r \<in> set (outcome_states successful)
         \<and> (\<exists>t < before. ru_finished r = Some t) \<and> (\<forall>s \<in> set (jb_schedules db). ru_id r \<noteq> sd_run s \<and> ru_id r \<noteq> sd_compact_run s))"
proof -
  have "queue_ok db" by (rule job_steps_keep[OF assms(1) empty_queue_ok[OF assms(2-4)]])
  then have "\<exists>n db'. n \<le> length (jb_runs db) \<and> db' = (sweep before successful ^^ n) db \<and> \<not> has_prunable_periodic before successful db'
    \<and> set (jb_runs db') \<subseteq> set (jb_runs db) \<and> (\<forall>r \<in> set (jb_runs db) - set (jb_runs db'). prunable db before (outcome_states successful) r)"
  proof (induction "length (jb_runs db)" arbitrary: db rule: less_induct)
    case less
    show ?case
    proof (cases "has_prunable_periodic before successful db")
      case False
      then show ?thesis by (intro exI[of _ 0] exI[of _ db]) simp
    next
      case True
      let ?d = "sweep before successful db"
      note e = sweep_outcome[OF less.prems, where before = before and successful = successful]
      from less.hyps[OF e(5)[OF True] e(1)] obtain n db' where n: "n \<le> length (jb_runs ?d)" "db' = (sweep before successful ^^ n) ?d"
        "\<not> has_prunable_periodic before successful db'" "set (jb_runs db') \<subseteq> set (jb_runs ?d)"
        "\<forall>r \<in> set (jb_runs ?d) - set (jb_runs db'). prunable ?d before (outcome_states successful) r" by blast
      have same: "prunable ?d before t r = prunable db before t r" for t r by (simp add: prunable_def periodic_candidate_def e(3))
      have "db' = (sweep before successful ^^ Suc n) db" using n(2) by (simp only: funpow_Suc_right o_apply)
      moreover have "Suc n \<le> length (jb_runs db)" using n(1) e(5)[OF True] by simp
      moreover have "prunable db before (outcome_states successful) r" if "r \<in> set (jb_runs db)" "r \<notin> set (jb_runs db')" for r
        using that e(4)[OF that(1)] n(5) same by (cases "r \<in> set (jb_runs ?d)") auto
      ultimately show ?thesis using n(3,4) e(2) by (intro exI[of _ "Suc n"] exI[of _ db']) auto
    qed
  qed
  then obtain n db' where n: "n \<le> length (jb_runs db)" "db' = (sweep before successful ^^ n) db" "\<not> has_prunable_periodic before successful db'"
    "set (jb_runs db') \<subseteq> set (jb_runs db)" "\<forall>r \<in> set (jb_runs db) - set (jb_runs db'). prunable db before (outcome_states successful) r" by blast
  moreover have ids: "\<forall>r \<in> set (jb_runs db). ru_id r \<noteq> []" using \<open>queue_ok db\<close> by (auto simp: queue_ok_def rows_sound_def plans_ok_def)
  have "ru_schedule r \<noteq> [] \<and> ru_state r \<in> set (outcome_states successful) \<and> (\<exists>t < before. ru_finished r = Some t)
      \<and> (\<forall>s \<in> set (jb_schedules db). ru_id r \<noteq> sd_run s \<and> ru_id r \<noteq> sd_compact_run s)" if "r \<in> set (jb_runs db) - set (jb_runs db')" for r
  proof -
    from that have "r \<in> set (jb_runs db)" by simp
    with ids have "ru_id r \<noteq> []" by blast
    from n(5) that obtain s where "s \<in> set (outcome_states successful)" "periodic_candidate db before s r" by (auto simp: prunable_def)
    with \<open>ru_id r \<noteq> []\<close> show ?thesis by (cases "ru_finished r") (auto simp: periodic_candidate_def)
  qed
  ultimately show ?thesis by (intro exI[of _ n] exI[of _ db'] conjI ballI) simp_all
qed

theorem retention_ends_witness:
  "\<exists>db n. has_prunable_periodic 100000000000 True db \<and> map ru_id (jb_runs db) = [''r1'', ''r2''] \<and> n \<le> 2 \<and>
     \<not> has_prunable_periodic 100000000000 True ((sweep 100000000000 True ^^ n) db)"
proof -
  let ?se = sample_schedule_env
  have "(case schedule_job ?se sample_definition 5000000000 5000000000 5000000000 ''r1'' empty_queue of
      Inl _ \<Rightarrow> False
    | Inr (d1, db1) \<Rightarrow> case claim_job 6000000000 6000000000 ''t1'' ''w'' [''d''] 1000000000 db1 of
        (Inl _, _) \<Rightarrow> False
      | (Inr c, db2) \<Rightarrow> case finish_job 6500000000 c Succeeded db2 of
          (out, db3) \<Rightarrow> case schedule_job ?se sample_definition 26000000000 26000000000 26000000000 ''r2'' db3 of
            Inl _ \<Rightarrow> False
          | Inr (d2, db4) \<Rightarrow> has_prunable_periodic 100000000000 True db4 \<and> map ru_id (jb_runs db4) = [''r1'', ''r2''])"
    by code_simp
  then obtain d1 db1 c db2 out db3 d2 db4 where h: "schedule_job ?se sample_definition 5000000000 5000000000 5000000000 ''r1'' empty_queue = Inr (d1, db1)"
    "claim_job 6000000000 6000000000 ''t1'' ''w'' [''d''] 1000000000 db1 = (Inr c, db2)" "finish_job 6500000000 c Succeeded db2 = (out, db3)"
    "schedule_job ?se sample_definition 26000000000 26000000000 26000000000 ''r2'' db3 = Inr (d2, db4)"
    "has_prunable_periodic 100000000000 True db4" "map ru_id (jb_runs db4) = [''r1'', ''r2'']"
    unfolding case_result_holds split_paired_Ex prod.case by (elim exE conjE case_prodE) (auto split: sum.splits intro: that)
  have "job_step ?se {} empty_queue db1" "job_step ?se {} db1 db2" "job_step ?se {} db2 db3" "job_step ?se {} db3 db4"
    by (rule job_step.plan[OF h(1)], simp, rule job_step.claim[OF h(2)], simp, simp, rule job_step.finish[OF h(3)], rule job_step.plan[OF h(4)], simp)
  then have "(job_step ?se {})\<^sup>*\<^sup>* empty_queue db4" by (meson converse_rtranclp_into_rtranclp r_into_rtranclp)
  moreover have "jb_runs empty_queue = []" "jb_attempts empty_queue = []" "distinct (map sd_id (jb_schedules empty_queue))" by (simp_all add: empty_queue_def)
  ultimately obtain n where "n \<le> length (jb_runs db4)" "\<not> has_prunable_periodic 100000000000 True ((sweep 100000000000 True ^^ n) db4)"
    using retention_ends[of ?se "{}" empty_queue db4 100000000000 True] by blast
  moreover have "length (jb_runs db4) = 2" using arg_cong[OF h(6), of length] by simp
  ultimately show ?thesis using h(5,6) by (intro exI[of _ db4] exI[of _ n]) simp
qed

end
