(* ===== verification/MeterCharge.thy ===== *)
theory MeterCharge
  imports GoStrings
begin

text \<open>
  How traffic is charged (\<^verbatim>\<open>metering/accounting.go\<close>, \<^verbatim>\<open>flow_sample.go\<close>, \<^verbatim>\<open>flow_cursor.go\<close>): the bytes a mode
  counts, the multiplied and rounded amount, the cap at the quota, and a window of cumulative checkpoints charged
  point by point behind a durable cursor.
\<close>

section \<open>Charges\<close>

abbreviation meter_error :: "string \<Rightarrow> go_error" where "meter_error \<equiv> ErrNamed"

definition traffic_bytes_for_mode :: "int \<Rightarrow> int \<Rightarrow> int \<Rightarrow> int" where
  "traffic_bytes_for_mode up down mode = (if mode = 1 then up else if mode = 2 then down else add64 up down)"

definition checked_traffic_bytes :: "int \<Rightarrow> int \<Rightarrow> int \<Rightarrow> int result" where
  "checked_traffic_bytes up down mode =
     (if up < 0 \<or> down < 0 then Inl (meter_error ''negative cumulative traffic'')
      else if mode \<noteq> 1 \<and> mode \<noteq> 2 \<and> up > sub64 max64 down then Inl (meter_error ''cumulative traffic exceeds supported range'')
      else Inr (traffic_bytes_for_mode up down mode))"

definition billed_traffic_bytes :: "int \<Rightarrow> int \<Rightarrow> int result" where
  "billed_traffic_bytes raw multiplier =
     (if raw \<le> 0 \<or> multiplier \<le> 0 then Inr 0
      else let v = (raw * multiplier + 999) div 1000 in
        if in64 v then Inr v else Inl (meter_error ''calculated traffic exceeds supported range''))"

record flow_counters =
  fc_raw :: int
  fc_upload :: int
  fc_download :: int

record charge_delta =
  cd_raw :: int
  cd_upload :: int
  cd_download :: int
  cd_charged :: int
  cd_samples :: nat
  cd_first :: nat
  cd_rounding :: nat

definition remaining_quota :: "int \<Rightarrow> int \<Rightarrow> int" where
  "remaining_quota quota used = (if quota > used \<and> used \<ge> 0 then sub64 quota used else 0)"

definition counters_regress :: "flow_counters \<Rightarrow> flow_counters \<Rightarrow> bool" where
  "counters_regress current previous \<longleftrightarrow>
     fc_raw current < 0 \<or> fc_upload current < 0 \<or> fc_download current < 0 \<or> fc_raw previous < 0 \<or> fc_upload previous < 0 \<or> fc_download previous < 0
     \<or> fc_raw current < fc_raw previous \<or> fc_upload current < fc_upload previous \<or> fc_download current < fc_download previous"

definition calculate_charge :: "flow_counters \<Rightarrow> flow_counters \<Rightarrow> int \<Rightarrow> int \<Rightarrow> int \<Rightarrow> charge_delta result" where
  "calculate_charge current previous multiplier quota used =
     (if counters_regress current previous then Inl (meter_error ''flow cumulative counters cannot produce a negative delta'')
      else let raw = sub64 (fc_raw current) (fc_raw previous) in
        try_bind (billed_traffic_bytes raw multiplier) (\<lambda>billed.
          Inr \<lparr>cd_raw = raw, cd_upload = sub64 (fc_upload current) (fc_upload previous), cd_download = sub64 (fc_download current) (fc_download previous),
            cd_charged = (if billed > remaining_quota quota used then remaining_quota quota used else billed),
            cd_samples = 0, cd_first = 0, cd_rounding = 0\<rparr>))"

section \<open>Samples\<close>

record flow_checkpoint =
  ck_sequence :: nat
  ck_up :: int
  ck_down :: int
  ck_report :: string

record flow_sample =
  fs_node :: nat
  fs_source :: string
  fs_instance :: string
  fs_event :: string
  fs_flow :: string
  fs_principal :: string
  fs_type :: string
  fs_sequence :: nat
  fs_revision :: nat
  fs_up :: int
  fs_down :: int
  fs_occurred :: int
  fs_points :: "flow_checkpoint list"

definition bucket_prefix :: string where "bucket_prefix = ''bucket:v1:''"

fun checkpoints_ordered :: "flow_checkpoint list \<Rightarrow> bool" where
  "checkpoints_ordered [] \<longleftrightarrow> True"
| "checkpoints_ordered [p] \<longleftrightarrow> ck_report p \<noteq> [] \<and> ck_sequence p \<noteq> 0 \<and> 0 \<le> ck_up p \<and> 0 \<le> ck_down p"
| "checkpoints_ordered (p # q # ps) \<longleftrightarrow> ck_report p \<noteq> [] \<and> ck_sequence p \<noteq> 0 \<and> 0 \<le> ck_up p \<and> 0 \<le> ck_down p
     \<and> ck_sequence p < ck_sequence q \<and> ck_up p \<le> ck_up q \<and> ck_down p \<le> ck_down q \<and> checkpoints_ordered (q # ps)"

definition validate_flow_sample :: "flow_sample \<Rightarrow> unit result" where
  "validate_flow_sample s =
     (if fs_node s = 0 \<or> fs_event s = [] \<or> has_prefix bucket_prefix (fs_event s) \<or> fs_flow s = [] \<or> fs_principal s = [] \<or> fs_up s < 0 \<or> fs_down s < 0
      then Inl (meter_error ''invalid cumulative flow sample'')
      else if fs_points s = [] then Inr ()
      else if fs_instance s = [] \<or> length (fs_points s) > 2000 then Inl (meter_error ''invalid cumulative flow checkpoint window'')
      else if \<not> checkpoints_ordered (fs_points s) then Inl (meter_error ''invalid cumulative flow checkpoint order'')
      else if ck_report (last (fs_points s)) \<noteq> fs_event s \<or> ck_sequence (last (fs_points s)) \<noteq> fs_sequence s
              \<or> ck_up (last (fs_points s)) \<noteq> fs_up s \<or> ck_down (last (fs_points s)) \<noteq> fs_down s
      then Inl (meter_error ''flow checkpoint window does not end at sample'')
      else Inr ())"

text \<open>\<open>math.MaxUint64\<close> wrap-around of an unsigned counter.\<close>

definition add_uint :: "nat \<Rightarrow> nat \<Rightarrow> nat" where "add_uint a b = (a + b) mod 18446744073709551616"

definition rounding_part :: "int \<Rightarrow> int \<Rightarrow> nat" where
  "rounding_part raw multiplier =
     (if multiplier > 0 \<and> raw > 0
      then nat (rem (sub64 1000 (rem (mul64 (rem raw 1000) (rem multiplier 1000)) 1000)) 1000) else 0)"

definition zero_charge :: charge_delta where
  "zero_charge = \<lparr>cd_raw = 0, cd_upload = 0, cd_download = 0, cd_charged = 0, cd_samples = 0, cd_first = 0, cd_rounding = 0\<rparr>"

definition add_charge :: "flow_checkpoint \<Rightarrow> int \<Rightarrow> charge_delta \<Rightarrow> charge_delta \<Rightarrow> charge_delta" where
  "add_charge p multiplier c out =
     \<lparr>cd_raw = add64 (cd_raw out) (cd_raw c), cd_upload = add64 (cd_upload out) (cd_upload c), cd_download = add64 (cd_download out) (cd_download c),
      cd_charged = add64 (cd_charged out) (cd_charged c), cd_samples = add_uint (cd_samples out) 1,
      cd_first = (if cd_samples out = 0 then ck_sequence p else cd_first out),
      cd_rounding = add_uint (cd_rounding out) (rounding_part (cd_raw c) multiplier)\<rparr>"

definition point_settled :: "bool \<Rightarrow> nat \<Rightarrow> flow_counters \<Rightarrow> flow_checkpoint \<Rightarrow> bool" where
  "point_settled windowed sequence previous p \<longleftrightarrow> windowed
     \<and> (ck_sequence p \<le> sequence \<or> sequence = 0 \<and> ck_up p \<le> fc_upload previous \<and> ck_down p \<le> fc_download previous)"

text \<open>The loop over the points; \<open>used\<close>, \<open>previous\<close> and the result are its variables.\<close>

fun charge_points :: "bool \<Rightarrow> nat \<Rightarrow> int \<Rightarrow> int \<Rightarrow> int \<Rightarrow> flow_checkpoint list \<Rightarrow> int \<Rightarrow> flow_counters \<Rightarrow> charge_delta \<Rightarrow> charge_delta result" where
  "charge_points windowed sequence mode multiplier quota [] used previous out = Inr out"
| "charge_points windowed sequence mode multiplier quota (p # ps) used previous out =
     (if point_settled windowed sequence previous p then charge_points windowed sequence mode multiplier quota ps used previous out
      else try_bind (checked_traffic_bytes (ck_up p) (ck_down p) mode) (\<lambda>raw.
        let current = \<lparr>fc_raw = raw, fc_upload = ck_up p, fc_download = ck_down p\<rparr> in
        try_bind (calculate_charge current previous multiplier quota used) (\<lambda>c.
          charge_points windowed sequence mode multiplier quota ps (add64 used (cd_charged c)) current (add_charge p multiplier c out))))"

definition sample_points :: "flow_sample \<Rightarrow> flow_checkpoint list" where
  "sample_points s = (if fs_points s = [] then [\<lparr>ck_sequence = fs_sequence s, ck_up = fs_up s, ck_down = fs_down s, ck_report = fs_event s\<rparr>] else fs_points s)"

definition charge_sample :: "flow_sample \<Rightarrow> flow_counters \<Rightarrow> nat \<Rightarrow> int \<Rightarrow> int \<Rightarrow> int \<Rightarrow> int \<Rightarrow> charge_delta result" where
  "charge_sample s previous sequence mode multiplier quota used =
     charge_points (fs_points s \<noteq> []) sequence mode multiplier quota (sample_points s) used previous zero_charge"

section \<open>Cursors\<close>

definition runtime_prefix :: string where "runtime_prefix = ''v2:''"

text \<open>\<open>digest\<close> is the hexadecimal SHA-256 of the instance, a zero byte and the flow.\<close>

definition flow_usage_key :: "(string \<Rightarrow> string \<Rightarrow> string) \<Rightarrow> string \<Rightarrow> string \<Rightarrow> string" where
  "flow_usage_key digest instance_id flow =
     (let flow = trim_space flow; instance_id = trim_space instance_id in
      if flow = [] then [] else if instance_id = [] then flow else runtime_prefix @ digest instance_id flow)"

definition runtime_scoped_flow :: "string \<Rightarrow> bool" where
  "runtime_scoped_flow key \<longleftrightarrow> has_prefix runtime_prefix (trim_space key)"

record flow_cursor =
  fl_credential :: nat
  fl_revision :: nat
  fl_status :: string
  fl_counters :: flow_counters

definition continues_legacy_flow :: "flow_cursor \<Rightarrow> nat \<Rightarrow> nat \<Rightarrow> flow_counters \<Rightarrow> bool" where
  "continues_legacy_flow cursor credential revision current \<longleftrightarrow>
     fl_status cursor = ''active'' \<and> fl_credential cursor = credential \<and> fc_raw (fl_counters cursor) \<le> fc_raw current
     \<and> fc_upload (fl_counters cursor) \<le> fc_upload current \<and> fc_download (fl_counters cursor) \<le> fc_download current
     \<and> (revision = 0 \<or> fl_revision cursor \<le> revision)"

section \<open>What one charge is\<close>

lemma mode_range:
  assumes "checked_traffic_bytes up down mode = Inr raw" "up \<le> max64" "down \<le> max64"
  shows "0 \<le> up" "0 \<le> down" "0 \<le> raw" "raw \<le> max64" "raw = (if mode = 1 then up else if mode = 2 then down else up + down)"
proof -
  have d: "0 \<le> up" "0 \<le> down" using assms(1) by (auto simp: checked_traffic_bytes_def split: if_splits)
  have s: "sub64 max64 down = max64 - down" by (rule sub64_nonneg) (use d assms(3) in simp_all)
  have a: "add64 up down = up + down" if "up \<le> max64 - down" by (rule add64_exact, rule in64_nonneg) (use d that in simp_all)
  show "0 \<le> up" "0 \<le> down" by (rule d)+
  show "0 \<le> raw" "raw \<le> max64" "raw = (if mode = 1 then up else if mode = 2 then down else up + down)"
    using assms d a by (auto simp: checked_traffic_bytes_def traffic_bytes_for_mode_def s split: if_splits)
qed

lemma rounded_up: "(x + (1000 - x mod 1000) mod 1000) = 1000 * ((x + 999) div 1000)" for x :: int
proof (cases "x mod 1000 = 0")
  case True
  then obtain q where "x = 1000 * q" by (auto simp: mod_eq_0_iff_dvd)
  moreover have "(1000 * q + 999) div 1000 = q" by (simp add: div_mult_self4)
  ultimately show ?thesis by simp
next
  case False
  define q r where "q = x div 1000" and "r = x mod 1000"
  have x: "x = 1000 * q + r" and r: "0 < r" "r < 1000" using False pos_mod_sign[of 1000 x] pos_mod_bound[of 1000 x] by (simp_all add: q_def r_def)
  have "x + 999 = (r - 1) + 1000 * (q + 1)" by (simp add: x)
  then have "(x + 999) div 1000 = q + 1" using r by simp
  moreover have "(1000 - r) mod 1000 = 1000 - r" using r by (intro mod_pos_pos_trivial) simp_all
  ultimately have "x + (1000 - r) mod 1000 = 1000 * ((x + 999) div 1000)" using x by simp
  then show ?thesis unfolding r_def .
qed

lemma rounding_exact:
  assumes "0 < raw" "0 < m"
  shows "int (rounding_part raw m) = (1000 - raw * m mod 1000) mod 1000" "rounding_part raw m \<le> 999"
proof -
  let ?r = "(raw mod 1000) * (m mod 1000)"
  have "raw mod 1000 < 1000" "m mod 1000 < 1000" "0 \<le> raw mod 1000" "0 \<le> m mod 1000" by simp_all
  then have "0 \<le> ?r" "?r \<le> 999 * 999" using mult_mono[of "raw mod 1000" 999 "m mod 1000" 999] by simp_all
  then have "mul64 (rem raw 1000) (rem m 1000) = ?r" using assms by (simp add: mul64_exact in64_nonneg max64_def)
  moreover have "?r mod 1000 = raw * m mod 1000" by (simp add: mod_mult_eq)
  moreover have "sub64 1000 (raw * m mod 1000) = 1000 - raw * m mod 1000" by (rule sub64_nonneg) (auto simp: max64_def intro: less_imp_le)
  moreover have "0 \<le> 1000 - raw * m mod 1000" using pos_mod_bound[of 1000 "raw * m"] by linarith
  ultimately show e: "int (rounding_part raw m) = (1000 - raw * m mod 1000) mod 1000" using assms \<open>0 \<le> ?r\<close> by (simp add: rounding_part_def)
  have "(1000 - raw * m mod 1000) mod 1000 < 1000" by simp
  with e show "rounding_part raw m \<le> 999" by linarith
qed

text \<open>What a charge bills before the cap: the multiplied bytes, rounded up to a thousandth's whole.\<close>

lemma billed_exact:
  assumes "billed_traffic_bytes raw m = Inr b" "0 \<le> raw" "0 < m"
  shows "1000 * b = raw * m + int (rounding_part raw m)" "0 \<le> b" "rounding_part raw m \<le> 999"
proof -
  consider "raw = 0" | "0 < raw" using assms(2) by linarith
  then have "1000 * b = raw * m + int (rounding_part raw m) \<and> 0 \<le> b \<and> rounding_part raw m \<le> 999"
  proof cases
    case 1
    with assms(1) show ?thesis by (simp add: billed_traffic_bytes_def rounding_part_def)
  next
    case 2
    with assms(1,3) have b: "b = (raw * m + 999) div 1000" by (auto simp: billed_traffic_bytes_def Let_def split: if_splits)
    have "0 \<le> raw * m" using 2 assms(3) by simp
    with b have "0 \<le> b" by simp
    with b rounding_exact[OF 2 assms(3)] rounded_up[of "raw * m"] show ?thesis by simp
  qed
  then show "1000 * b = raw * m + int (rounding_part raw m)" "0 \<le> b" "rounding_part raw m \<le> 999" by simp_all
qed

lemma charge_facts:
  assumes "calculate_charge current previous m quota used = Inr c" "fc_raw current \<le> max64" "fc_upload current \<le> max64" "fc_download current \<le> max64"
    "0 \<le> used" "used \<le> quota" "quota \<le> max64" "0 < m"
  obtains b where "billed_traffic_bytes (fc_raw current - fc_raw previous) m = Inr b" "cd_charged c = min b (quota - used)" "0 \<le> cd_charged c"
    "cd_raw c = fc_raw current - fc_raw previous" "cd_upload c = fc_upload current - fc_upload previous" "cd_download c = fc_download current - fc_download previous"
    "\<not> counters_regress current previous"
proof -
  from assms(1) have n: "\<not> counters_regress current previous" by (auto simp: calculate_charge_def)
  then have e: "sub64 (fc_raw current) (fc_raw previous) = fc_raw current - fc_raw previous"
    "sub64 (fc_upload current) (fc_upload previous) = fc_upload current - fc_upload previous"
    "sub64 (fc_download current) (fc_download previous) = fc_download current - fc_download previous"
    using assms(2-4) by (auto simp: counters_regress_def intro!: sub64_nonneg)
  have r: "remaining_quota quota used = quota - used"
  proof (cases "used < quota")
    case True
    then have "sub64 quota used = quota - used" using assms(5-7) by (intro sub64_nonneg) simp_all
    with True assms(5) show ?thesis by (simp add: remaining_quota_def)
  next
    case False
    with assms(6) show ?thesis by (simp add: remaining_quota_def)
  qed
  from assms(1) n obtain b where b: "billed_traffic_bytes (fc_raw current - fc_raw previous) m = Inr b"
    "c = \<lparr>cd_raw = fc_raw current - fc_raw previous, cd_upload = fc_upload current - fc_upload previous, cd_download = fc_download current - fc_download previous,
       cd_charged = (if b > quota - used then quota - used else b), cd_samples = 0, cd_first = 0, cd_rounding = 0\<rparr>"
    by (auto simp: calculate_charge_def e r Let_def)
  have "0 \<le> fc_raw current - fc_raw previous" using n by (auto simp: counters_regress_def)
  from billed_exact(2)[OF b(1) this assms(8)] b(2) assms(6) n show ?thesis by (intro that[OF b(1)]) simp_all
qed

section \<open>What a window charges\<close>

lemma add_uint_small: "a + b < 18446744073709551616 \<Longrightarrow> add_uint a b = a + b"
  by (simp add: add_uint_def)

text \<open>What the loop carries from point to point, and what it adds from there.\<close>

definition loop_ok :: "nat \<Rightarrow> int \<Rightarrow> int \<Rightarrow> flow_counters \<Rightarrow> charge_delta \<Rightarrow> bool" where
  "loop_ok n quota used previous out \<longleftrightarrow> 0 \<le> used \<and> used \<le> quota \<and> quota \<le> max64
     \<and> 0 \<le> cd_raw out \<and> cd_raw out \<le> fc_raw previous \<and> 0 \<le> cd_upload out \<and> cd_upload out \<le> fc_upload previous
     \<and> 0 \<le> cd_download out \<and> cd_download out \<le> fc_download previous \<and> 0 \<le> cd_charged out \<and> cd_charged out + (quota - used) \<le> max64
     \<and> cd_rounding out \<le> 999 * cd_samples out \<and> cd_samples out + n \<le> 1000000"

definition adds :: "int \<Rightarrow> int \<Rightarrow> charge_delta \<Rightarrow> charge_delta \<Rightarrow> bool" where
  "adds multiplier room out d \<longleftrightarrow> (\<exists>b \<ge> 0. 1000 * b = (cd_raw d - cd_raw out) * multiplier + (int (cd_rounding d) - int (cd_rounding out))
     \<and> cd_charged d - cd_charged out = min b room)
     \<and> cd_raw out \<le> cd_raw d \<and> cd_upload out \<le> cd_upload d \<and> cd_download out \<le> cd_download d \<and> cd_rounding d \<le> 999 * cd_samples d"

lemma adds_step:
  assumes "adds m (room - (cd_charged d1 - cd_charged out)) d1 d" "1000 * b = (cd_raw d1 - cd_raw out) * m + (int (cd_rounding d1) - int (cd_rounding out))"
    "0 \<le> b" "cd_charged d1 - cd_charged out = min b room" "0 \<le> room"
    "cd_raw out \<le> cd_raw d1" "cd_upload out \<le> cd_upload d1" "cd_download out \<le> cd_download d1"
  shows "adds m room out d"
proof -
  from assms(1) obtain b2 where b2: "0 \<le> b2" "1000 * b2 = (cd_raw d - cd_raw d1) * m + (int (cd_rounding d) - int (cd_rounding d1))"
    "cd_charged d - cd_charged d1 = min b2 (room - (cd_charged d1 - cd_charged out))" by (auto simp: adds_def)
  have "1000 * (b + b2) = (cd_raw d - cd_raw out) * m + (int (cd_rounding d) - int (cd_rounding out))"
    using assms(2) b2(2) by (simp add: algebra_simps)
  moreover have "cd_charged d - cd_charged out = min (b + b2) room" using assms(3-5) b2(1,3) by (auto simp: min_def split: if_splits)
  ultimately show ?thesis using assms(1,3,6-8) b2(1) by (auto simp: adds_def intro!: exI[of _ "b + b2"])
qed

lemma point_charged:
  assumes "loop_ok (Suc n) quota used previous out" "0 < m" "ck_up p \<le> max64" "ck_down p \<le> max64"
    "checked_traffic_bytes (ck_up p) (ck_down p) mode = Inr raw"
    "calculate_charge \<lparr>fc_raw = raw, fc_upload = ck_up p, fc_download = ck_down p\<rparr> previous m quota used = Inr c"
  defines "d1 \<equiv> add_charge p m c out"
  shows "loop_ok n quota (add64 used (cd_charged c)) \<lparr>fc_raw = raw, fc_upload = ck_up p, fc_download = ck_down p\<rparr> d1"
    "add64 used (cd_charged c) = used + (cd_charged d1 - cd_charged out)"
    "\<exists>b \<ge> 0. 1000 * b = (cd_raw d1 - cd_raw out) * m + (int (cd_rounding d1) - int (cd_rounding out)) \<and> cd_charged d1 - cd_charged out = min b (quota - used)"
    "cd_raw d1 - cd_raw out = raw - fc_raw previous" "cd_upload d1 - cd_upload out = ck_up p - fc_upload previous"
    "cd_download d1 - cd_download out = ck_down p - fc_download previous"
    "cd_raw out \<le> cd_raw d1" "cd_upload out \<le> cd_upload d1" "cd_download out \<le> cd_download d1"
proof -
  let ?cur = "\<lparr>fc_raw = raw, fc_upload = ck_up p, fc_download = ck_down p\<rparr>"
  note o = assms(1)[unfolded loop_ok_def]
  have "raw \<le> max64" using mode_range(4)[OF assms(5,3,4)] .
  then obtain b where b: "billed_traffic_bytes (raw - fc_raw previous) m = Inr b" "cd_charged c = min b (quota - used)" "0 \<le> cd_charged c"
    "cd_raw c = raw - fc_raw previous" "cd_upload c = ck_up p - fc_upload previous" "cd_download c = ck_down p - fc_download previous"
    "\<not> counters_regress ?cur previous"
    using charge_facts[OF assms(6)] assms(2-4) o by (metis flow_counters.select_convs)
  have n: "fc_raw previous \<le> raw" "fc_upload previous \<le> ck_up p" "fc_download previous \<le> ck_down p" using b(7) by (simp_all add: counters_regress_def)
  have nn: "0 \<le> raw - fc_raw previous" using n by simp
  note e = billed_exact[OF b(1) nn assms(2)]
  have r: "cd_raw d1 = cd_raw out + (raw - fc_raw previous)" "cd_upload d1 = cd_upload out + (ck_up p - fc_upload previous)"
    "cd_download d1 = cd_download out + (ck_down p - fc_download previous)" "cd_charged d1 = cd_charged out + cd_charged c"
    using o n b(2,3) \<open>raw \<le> max64\<close> assms(3,4) by (auto simp: d1_def add_charge_def b(4-6) intro!: add64_exact in64_nonneg)
  have s: "cd_samples d1 = cd_samples out + 1" "cd_rounding d1 = cd_rounding out + rounding_part (raw - fc_raw previous) m"
    using o e(3) by (simp_all add: d1_def add_charge_def b(4) add_uint_def)
  have u: "add64 used (cd_charged c) = used + cd_charged c" using o b(2,3) by (intro add64_exact in64_nonneg) auto
  show "add64 used (cd_charged c) = used + (cd_charged d1 - cd_charged out)" by (simp add: u r)
  show "loop_ok n quota (add64 used (cd_charged c)) ?cur d1"
    unfolding loop_ok_def u using o b(2,3) n r s e(3) by simp
  show "\<exists>b \<ge> 0. 1000 * b = (cd_raw d1 - cd_raw out) * m + (int (cd_rounding d1) - int (cd_rounding out)) \<and> cd_charged d1 - cd_charged out = min b (quota - used)"
    using e b(2) by (intro exI[of _ b]) (simp add: r s)
  show "cd_raw d1 - cd_raw out = raw - fc_raw previous" "cd_upload d1 - cd_upload out = ck_up p - fc_upload previous"
    "cd_download d1 - cd_download out = ck_down p - fc_download previous" by (simp_all add: r)
  show "cd_raw out \<le> cd_raw d1" "cd_upload out \<le> cd_upload d1" "cd_download out \<le> cd_download d1" using n by (simp_all add: r)
qed

lemma points_charged:
  assumes "charge_points w sequence mode m quota ps used previous out = Inr d" "loop_ok (length ps) quota used previous out" "0 < m"
    "\<forall>p \<in> set ps. ck_up p \<le> max64 \<and> ck_down p \<le> max64"
  shows "adds m (quota - used) out d
    \<and> (ps \<noteq> [] \<and> (\<not> w \<or> 0 < sequence \<and> sequence < ck_sequence (last ps)) \<longrightarrow>
         cd_upload d - cd_upload out = ck_up (last ps) - fc_upload previous \<and> cd_download d - cd_download out = ck_down (last ps) - fc_download previous
         \<and> checked_traffic_bytes (ck_up (last ps)) (ck_down (last ps)) mode = Inr (fc_raw previous + (cd_raw d - cd_raw out)))"
  using assms
proof (induction ps arbitrary: used previous out)
  case Nil
  then show ?case by (auto simp: adds_def loop_ok_def)
next
  case (Cons p ps)
  show ?case
  proof (cases "point_settled w sequence previous p")
    case True
    have "loop_ok (length ps) quota used previous out" using Cons.prems(2) by (simp add: loop_ok_def)
    with Cons.IH[of used previous out] Cons.prems True show ?thesis by (cases "ps = []") (auto simp: point_settled_def)
  next
    case False
    with Cons.prems(1) obtain raw c where r: "checked_traffic_bytes (ck_up p) (ck_down p) mode = Inr raw"
      "calculate_charge \<lparr>fc_raw = raw, fc_upload = ck_up p, fc_download = ck_down p\<rparr> previous m quota used = Inr c"
      "charge_points w sequence mode m quota ps (add64 used (cd_charged c)) \<lparr>fc_raw = raw, fc_upload = ck_up p, fc_download = ck_down p\<rparr> (add_charge p m c out) = Inr d"
      by (auto simp: Let_def)
    let ?d1 = "add_charge p m c out"
    have ok: "loop_ok (Suc (length ps)) quota used previous out" using Cons.prems(2) by simp
    note f = point_charged[OF ok Cons.prems(3) _ _ r(1,2)]
    have lim: "ck_up p \<le> max64" "ck_down p \<le> max64" using Cons.prems(4) by simp_all
    note ih = Cons.IH[OF r(3) f(1)[OF lim] Cons.prems(3)]
    have ih: "adds m (quota - add64 used (cd_charged c)) ?d1 d"
      "ps \<noteq> [] \<Longrightarrow> \<not> w \<or> 0 < sequence \<and> sequence < ck_sequence (last ps) \<Longrightarrow> cd_upload d - cd_upload ?d1 = ck_up (last ps) - ck_up p
         \<and> cd_download d - cd_download ?d1 = ck_down (last ps) - ck_down p
         \<and> checked_traffic_bytes (ck_up (last ps)) (ck_down (last ps)) mode = Inr (raw + (cd_raw d - cd_raw ?d1))"
      using ih Cons.prems(4) by simp_all
    from f(3)[OF lim] obtain b where b: "0 \<le> b" "1000 * b = (cd_raw ?d1 - cd_raw out) * m + (int (cd_rounding ?d1) - int (cd_rounding out))"
      "cd_charged ?d1 - cd_charged out = min b (quota - used)" by blast
    have "adds m (quota - used - (cd_charged ?d1 - cd_charged out)) ?d1 d" using ih(1) f(2)[OF lim] by (simp add: algebra_simps)
    moreover have "0 \<le> quota - used" using ok by (simp add: loop_ok_def)
    ultimately have "adds m (quota - used) out d" by (rule adds_step[OF _ b(2,1,3) _ f(7-9)[OF lim]])
    moreover have "cd_upload d - cd_upload out = ck_up (last (p # ps)) - fc_upload previous \<and> cd_download d - cd_download out = ck_down (last (p # ps)) - fc_download previous
         \<and> checked_traffic_bytes (ck_up (last (p # ps))) (ck_down (last (p # ps))) mode = Inr (fc_raw previous + (cd_raw d - cd_raw out))"
      if "\<not> w \<or> 0 < sequence \<and> sequence < ck_sequence (last (p # ps))"
    proof (cases "ps = []")
      case True
      with r(3) have "d = ?d1" by simp
      with True r(1) f(4-6)[OF lim] show ?thesis by simp
    next
      case False
      with ih(2)[OF False] that f(4-6)[OF lim] show ?thesis by (simp add: algebra_simps)
    qed
    ultimately show ?thesis by blast
  qed
qed

section \<open>Properties\<close>

text \<open>
  C20. A window is charged exactly: the charge of an accepted sample is the smaller of what is left of the quota and the
  counted bytes times the multiplier, rounded up to whole bytes at each counted point; the recorded rounding accounts
  for every thousandth, less than one byte per point. Behind a cursor that has not reached the sample, the counted
  bytes are the growth of the counters since the cursor.
\<close>
theorem window_charged_exactly:
  assumes "charge_sample s previous sequence mode m quota used = Inr d" "validate_flow_sample s = Inr ()"
    "\<forall>p \<in> set (sample_points s). ck_up p \<le> max64 \<and> ck_down p \<le> max64" "0 \<le> fc_raw previous" "0 \<le> fc_upload previous" "0 \<le> fc_download previous"
    "0 \<le> used" "used \<le> quota" "quota \<le> max64" "0 < m"
  shows "1000 dvd cd_raw d * m + int (cd_rounding d) \<and> cd_charged d = min (quota - used) ((cd_raw d * m + int (cd_rounding d)) div 1000)
    \<and> cd_rounding d \<le> 999 * cd_samples d
    \<and> (fs_points s = [] \<or> 0 < sequence \<and> sequence < fs_sequence s \<longrightarrow>
         cd_upload d = fs_up s - fc_upload previous \<and> cd_download d = fs_down s - fc_download previous
         \<and> checked_traffic_bytes (fs_up s) (fs_down s) mode = Inr (fc_raw previous + cd_raw d))"
proof -
  have len: "length (sample_points s) \<le> 2000" using assms(2) by (auto simp: validate_flow_sample_def sample_points_def split: if_splits)
  have l: "ck_up (last (sample_points s)) = fs_up s" "ck_down (last (sample_points s)) = fs_down s" "ck_sequence (last (sample_points s)) = fs_sequence s"
    "sample_points s \<noteq> []"
    using assms(2) by (auto simp: validate_flow_sample_def sample_points_def split: if_splits)
  have "loop_ok (length (sample_points s)) quota used previous zero_charge" using assms(4-9) len by (simp add: loop_ok_def zero_charge_def)
  from points_charged[OF assms(1)[unfolded charge_sample_def] this assms(10,3)] l
  have a: "adds m (quota - used) zero_charge d" and g: "fs_points s = [] \<or> 0 < sequence \<and> sequence < fs_sequence s \<Longrightarrow>
         cd_upload d = fs_up s - fc_upload previous \<and> cd_download d = fs_down s - fc_download previous
         \<and> checked_traffic_bytes (fs_up s) (fs_down s) mode = Inr (fc_raw previous + cd_raw d)"
    by (auto simp: zero_charge_def)
  from a obtain b where b: "1000 * b = cd_raw d * m + int (cd_rounding d)" "cd_charged d = min b (quota - used)" "cd_rounding d \<le> 999 * cd_samples d"
    by (auto simp: adds_def zero_charge_def)
  have "1000 dvd cd_raw d * m + int (cd_rounding d)" "(cd_raw d * m + int (cd_rounding d)) div 1000 = b" unfolding b(1)[symmetric] by simp_all
  with b(2,3) g show ?thesis by (simp add: min.commute)
qed

definition sample_flow :: flow_sample where
  "sample_flow = \<lparr>fs_node = 1, fs_source = ''s'', fs_instance = ''i'', fs_event = ''e2'', fs_flow = ''f'', fs_principal = ''p'', fs_type = ''flow.updated'',
     fs_sequence = 7, fs_revision = 2, fs_up = 700, fs_down = 900, fs_occurred = 0,
     fs_points = [\<lparr>ck_sequence = 5, ck_up = 300, ck_down = 400, ck_report = ''e1''\<rparr>, \<lparr>ck_sequence = 7, ck_up = 700, ck_down = 900, ck_report = ''e2''\<rparr>]\<rparr>"

theorem window_charged_exactly_witness:
  "\<exists>d. charge_sample sample_flow \<lparr>fc_raw = 100, fc_upload = 50, fc_download = 50\<rparr> 3 0 1500 100000 10 = Inr d
     \<and> cd_charged d = (cd_raw d * 1500 + int (cd_rounding d)) div 1000 \<and> cd_upload d = 650 \<and> cd_raw d = 1500"
proof -
  have c: "charge_sample sample_flow \<lparr>fc_raw = 100, fc_upload = 50, fc_download = 50\<rparr> 3 0 1500 100000 10
      = Inr \<lparr>cd_raw = 1500, cd_upload = 650, cd_download = 850, cd_charged = 2250, cd_samples = 2, cd_first = 5, cd_rounding = 0\<rparr>"
    by code_simp
  have v: "validate_flow_sample sample_flow = Inr ()" by code_simp
  have p: "\<forall>p \<in> set (sample_points sample_flow). ck_up p \<le> max64 \<and> ck_down p \<le> max64" by (simp add: sample_flow_def sample_points_def max64_def)
  have n: "(0::int) \<le> 10" "(10::int) \<le> 100000" "100000 \<le> max64" "(0::int) < 1500" by (simp_all add: max64_def)
  from window_charged_exactly[OF c v p _ _ _ n] show ?thesis unfolding c by (intro exI conjI) (rule refl, simp_all add: sample_flow_def)
qed

section \<open>Resuming a window\<close>

definition money :: "charge_delta \<Rightarrow> int \<times> int \<times> int \<times> int" where
  "money d = (cd_raw d, cd_upload d, cd_download d, cd_charged d)"

fun moneys :: "charge_delta result \<Rightarrow> (int \<times> int \<times> int \<times> int) result" where
  "moneys (Inl e) = Inl e"
| "moneys (Inr d) = Inr (money d)"

definition counted :: "int \<Rightarrow> flow_counters \<Rightarrow> bool" where
  "counted mode cur \<longleftrightarrow> checked_traffic_bytes (fc_upload cur) (fc_download cur) mode = Inr (fc_raw cur) \<and> fc_upload cur \<le> max64 \<and> fc_download cur \<le> max64"

fun grows_from :: "flow_counters \<Rightarrow> flow_checkpoint list \<Rightarrow> bool" where
  "grows_from cur [] \<longleftrightarrow> True"
| "grows_from cur (p # ps) \<longleftrightarrow> fc_upload cur \<le> ck_up p \<and> fc_download cur \<le> ck_down p \<and> ck_up p \<le> max64 \<and> ck_down p \<le> max64
     \<and> grows_from \<lparr>fc_raw = 0, fc_upload = ck_up p, fc_download = ck_down p\<rparr> ps"

lemma grows_raw: "grows_from \<lparr>fc_raw = r, fc_upload = u, fc_download = d\<rparr> ps = grows_from \<lparr>fc_raw = r', fc_upload = u, fc_download = d\<rparr> ps"
  by (cases ps) simp_all

lemma same_point:
  assumes "counted mode cur" "ck_up p = fc_upload cur" "ck_down p = fc_download cur" "0 \<le> used" "quota \<le> max64"
  shows "checked_traffic_bytes (ck_up p) (ck_down p) mode = Inr (fc_raw cur)"
    "calculate_charge cur cur m quota used = Inr \<lparr>cd_raw = 0, cd_upload = 0, cd_download = 0, cd_charged = 0, cd_samples = 0, cd_first = 0, cd_rounding = 0\<rparr>"
proof -
  note c = assms(1)[unfolded counted_def]
  note r = mode_range[OF conjunct1[OF c]]
  have "\<not> remaining_quota quota used < 0"
  proof (cases "quota > used")
    case True
    then have "sub64 quota used = quota - used" using assms(4,5) by (intro sub64_nonneg) simp_all
    with True show ?thesis by (simp add: remaining_quota_def)
  qed (simp add: remaining_quota_def)
  moreover show "checked_traffic_bytes (ck_up p) (ck_down p) mode = Inr (fc_raw cur)" using c assms(2,3) by simp
  moreover have "sub64 x x = 0" for x by (simp add: sub64_def in64_def min64_def max64_def)
  ultimately show "calculate_charge cur cur m quota used = Inr \<lparr>cd_raw = 0, cd_upload = 0, cd_download = 0, cd_charged = 0, cd_samples = 0, cd_first = 0, cd_rounding = 0\<rparr>"
    using r c by (simp add: calculate_charge_def counters_regress_def billed_traffic_bytes_def)
qed

definition next_counters :: "int \<Rightarrow> flow_checkpoint \<Rightarrow> flow_counters" where
  "next_counters raw p = \<lparr>fc_raw = raw, fc_upload = ck_up p, fc_download = ck_down p\<rparr>"

text \<open>Points ahead of the cursor that are skipped because nothing grew add nothing, so skipping does not matter.\<close>

lemma skipping_is_free:
  assumes "loop_ok (length ps) quota used cur out" "loop_ok (length ps) quota used cur out'" "money out = money out'" "0 < m" "counted mode cur" "grows_from cur ps"
    "\<forall>p \<in> set ps. sequence < ck_sequence p"
  shows "moneys (charge_points True sequence mode m quota ps used cur out) = moneys (charge_points False 0 mode m quota ps used cur out')"
  using assms
proof (induction ps arbitrary: used cur out out')
  case Nil
  then show ?case by simp
next
  case (Cons p ps)
  have lim: "ck_up p \<le> max64" "ck_down p \<le> max64" using Cons.prems(6) by simp_all
  have ok: "loop_ok (Suc (length ps)) quota used cur out'" "loop_ok (Suc (length ps)) quota used cur out" using Cons.prems(1,2) by simp_all
  show ?case
  proof (cases "point_settled True sequence cur p")
    case True
    then have same: "ck_up p = fc_upload cur" "ck_down p = fc_download cur" using Cons.prems(6,7) by (auto simp: point_settled_def)
    have u: "0 \<le> used" "quota \<le> max64" using ok by (simp_all add: loop_ok_def)
    note n = same_point[OF Cons.prems(5) same u]
    let ?c = "\<lparr>cd_raw = 0, cd_upload = 0, cd_download = 0, cd_charged = 0, cd_samples = 0, cd_first = 0, cd_rounding = 0\<rparr>"
    have cur: "\<lparr>fc_raw = fc_raw cur, fc_upload = ck_up p, fc_download = ck_down p\<rparr> = cur" using same by simp
    note f = point_charged[OF ok(1) Cons.prems(4) lim n(1), unfolded cur, OF n(2)]
    have "in64 used" using u ok by (auto simp: loop_ok_def intro: in64_nonneg)
    then have "add64 used 0 = used" by simp
    have m': "money (add_charge p m ?c out') = money out'"
      using ok(1) by (auto simp: money_def add_charge_def loop_ok_def counted_def dest: mode_range intro!: add64_zero)
         (use Cons.prems(5) in \<open>auto simp: counted_def dest: mode_range intro!: in64_nonneg\<close>)
    from f(1) have l1: "loop_ok (length ps) quota used cur (add_charge p m ?c out')" using \<open>add64 used 0 = used\<close> by simp
    have l2: "loop_ok (length ps) quota used cur out" using ok(2) by (simp add: loop_ok_def)
    have g: "grows_from cur ps" using Cons.prems(6) same by (cases ps) simp_all
    have "moneys (charge_points True sequence mode m quota ps used cur out)
        = moneys (charge_points False 0 mode m quota ps used cur (add_charge p m ?c out'))"
      by (rule Cons.IH[OF l2 l1 _ Cons.prems(4,5) g]) (use Cons.prems(3,7) m' in simp_all)
    moreover have "charge_points True sequence mode m quota (p # ps) used cur out = charge_points True sequence mode m quota ps used cur out"
      using True by simp
    moreover have "charge_points False 0 mode m quota (p # ps) used cur out' = charge_points False 0 mode m quota ps used cur (add_charge p m ?c out')"
      using n \<open>add64 used 0 = used\<close> cur by (simp add: point_settled_def)
    ultimately show ?thesis by (simp only:)
  next
    case False
    show ?thesis
    proof (cases "checked_traffic_bytes (ck_up p) (ck_down p) mode")
      case (Inl e)
      with False show ?thesis by (simp add: point_settled_def[of False])
    next
      case raw: (Inr raw)
      let ?cur = "\<lparr>fc_raw = raw, fc_upload = ck_up p, fc_download = ck_down p\<rparr>"
      show ?thesis
      proof (cases "calculate_charge ?cur cur m quota used")
        case (Inl e)
        with False raw show ?thesis by (simp add: point_settled_def[of False])
      next
        case (Inr c)
        have "money (add_charge p m c out) = money (add_charge p m c out')" using Cons.prems(3) by (simp add: money_def add_charge_def)
        moreover have "counted mode ?cur" using raw lim by (simp add: counted_def)
        moreover have "grows_from ?cur ps" using Cons.prems(6) by (simp add: grows_raw[of raw _ _ ps 0])
        moreover have "\<forall>p \<in> set ps. sequence < ck_sequence p" using Cons.prems(7) by simp
        ultimately have "moneys (charge_points True sequence mode m quota ps (add64 used (cd_charged c)) ?cur (add_charge p m c out))
            = moneys (charge_points False 0 mode m quota ps (add64 used (cd_charged c)) ?cur (add_charge p m c out'))"
          using Cons.IH[OF point_charged(1)[OF ok(2) Cons.prems(4) lim raw Inr] point_charged(1)[OF ok(1) Cons.prems(4) lim raw Inr]] Cons.prems(4) by simp
        with False raw Inr show ?thesis by (simp add: point_settled_def[of False] Let_def)
      qed
    qed
  qed
qed

text \<open>Without skipping, a list of points is charged part by part.\<close>

lemma points_in_parts:
  assumes "charge_points False 0 mode m quota ps used cur out = Inr d1" "loop_ok (length ps + n) quota used cur out" "0 < m"
    "\<forall>p \<in> set ps. ck_up p \<le> max64 \<and> ck_down p \<le> max64" "ps \<noteq> []" "checked_traffic_bytes (ck_up (last ps)) (ck_down (last ps)) mode = Inr raw"
  shows "charge_points False 0 mode m quota (ps @ qs) used cur out
      = charge_points False 0 mode m quota qs (used + (cd_charged d1 - cd_charged out)) (next_counters raw (last ps)) d1
    \<and> loop_ok n quota (used + (cd_charged d1 - cd_charged out)) (next_counters raw (last ps)) d1"
  using assms
proof (induction ps arbitrary: used cur out)
  case (Cons p ps)
  have lim: "ck_up p \<le> max64" "ck_down p \<le> max64" using Cons.prems(4) by simp_all
  from Cons.prems(1) obtain r c where r: "checked_traffic_bytes (ck_up p) (ck_down p) mode = Inr r"
    "calculate_charge \<lparr>fc_raw = r, fc_upload = ck_up p, fc_download = ck_down p\<rparr> cur m quota used = Inr c"
    "charge_points False 0 mode m quota ps (add64 used (cd_charged c)) \<lparr>fc_raw = r, fc_upload = ck_up p, fc_download = ck_down p\<rparr> (add_charge p m c out) = Inr d1"
    by (auto simp: Let_def point_settled_def)
  have ok: "loop_ok (Suc (length ps + n)) quota used cur out" using Cons.prems(2) by simp
  note f = point_charged[OF ok Cons.prems(3) lim r(1,2)]
  have e: "charge_points False 0 mode m quota (p # ps @ qs) used cur out = charge_points False 0 mode m quota (ps @ qs)
      (used + (cd_charged (add_charge p m c out) - cd_charged out)) \<lparr>fc_raw = r, fc_upload = ck_up p, fc_download = ck_down p\<rparr> (add_charge p m c out)"
    using r(1,2) f(2) by (simp add: point_settled_def)
  show ?case
  proof (cases "ps = []")
    case True
    with r f Cons.prems(6) e show ?thesis by (simp add: next_counters_def)
  next
    case False
    have "\<forall>p \<in> set ps. ck_up p \<le> max64 \<and> ck_down p \<le> max64" using Cons.prems(4) by simp
    from Cons.IH[OF r(3)[unfolded f(2)] f(1)[unfolded f(2)] Cons.prems(3) this False] Cons.prems(6) False e
    show ?thesis by (simp add: algebra_simps)
  qed
qed simp

lemma charge_shift:
  assumes "charge_points False 0 mode m quota ps used cur out = Inr d" "loop_ok (length ps) quota used cur out" "loop_ok (length ps) quota used cur out'" "0 < m"
    "\<forall>p \<in> set ps. ck_up p \<le> max64 \<and> ck_down p \<le> max64"
  shows "\<exists>d'. charge_points False 0 mode m quota ps used cur out' = Inr d' \<and> cd_raw d - cd_raw out = cd_raw d' - cd_raw out'
    \<and> cd_upload d - cd_upload out = cd_upload d' - cd_upload out' \<and> cd_download d - cd_download out = cd_download d' - cd_download out'
    \<and> cd_charged d - cd_charged out = cd_charged d' - cd_charged out'"
  using assms
proof (induction ps arbitrary: used cur out out')
  case (Cons p ps)
  have lim: "ck_up p \<le> max64" "ck_down p \<le> max64" using Cons.prems(5) by simp_all
  from Cons.prems(1) obtain r c where r: "checked_traffic_bytes (ck_up p) (ck_down p) mode = Inr r"
    "calculate_charge \<lparr>fc_raw = r, fc_upload = ck_up p, fc_download = ck_down p\<rparr> cur m quota used = Inr c"
    "charge_points False 0 mode m quota ps (add64 used (cd_charged c)) \<lparr>fc_raw = r, fc_upload = ck_up p, fc_download = ck_down p\<rparr> (add_charge p m c out) = Inr d"
    by (auto simp: Let_def point_settled_def)
  have ok: "loop_ok (Suc (length ps)) quota used cur out" "loop_ok (Suc (length ps)) quota used cur out'" using Cons.prems(2,3) by simp_all
  note f = point_charged[OF ok(1) Cons.prems(4) lim r(1,2)] and g = point_charged[OF ok(2) Cons.prems(4) lim r(1,2)]
  have "\<forall>p \<in> set ps. ck_up p \<le> max64 \<and> ck_down p \<le> max64" using Cons.prems(5) by simp
  from Cons.IH[OF r(3) f(1) g(1) Cons.prems(4) this] obtain d' where d': "charge_points False 0 mode m quota ps (add64 used (cd_charged c))
      \<lparr>fc_raw = r, fc_upload = ck_up p, fc_download = ck_down p\<rparr> (add_charge p m c out') = Inr d'"
    "cd_raw d - cd_raw (add_charge p m c out) = cd_raw d' - cd_raw (add_charge p m c out')"
    "cd_upload d - cd_upload (add_charge p m c out) = cd_upload d' - cd_upload (add_charge p m c out')"
    "cd_download d - cd_download (add_charge p m c out) = cd_download d' - cd_download (add_charge p m c out')"
    "cd_charged d - cd_charged (add_charge p m c out) = cd_charged d' - cd_charged (add_charge p m c out')" by blast
  have "cd_charged (add_charge p m c out) - cd_charged out = cd_charged (add_charge p m c out') - cd_charged out'" using f(2) g(2) by simp
  with d' f(4-6) g(4-6) r(1,2) show ?case by (intro exI[of _ d']) (simp add: point_settled_def)
qed simp

lemma ordered_tail: "checkpoints_ordered (p # ps) \<Longrightarrow> checkpoints_ordered ps"
  by (cases ps) simp_all

lemma ordered_after: "checkpoints_ordered (p # ps) \<Longrightarrow> q \<in> set ps \<Longrightarrow> ck_sequence p < ck_sequence q"
  by (induction ps arbitrary: p) (auto dest: ordered_tail less_trans)

lemma ordered_append:
  assumes "checkpoints_ordered (ps @ qs)" "ps \<noteq> []"
  shows "(\<forall>p \<in> set ps. ck_sequence p \<le> ck_sequence (last ps)) \<and> (\<forall>q \<in> set qs. ck_sequence (last ps) < ck_sequence q)"
  using assms
proof (induction ps)
  case (Cons p ps)
  have t: "checkpoints_ordered (ps @ qs)" using Cons.prems(1) ordered_tail[of p "ps @ qs"] by simp
  have after: "\<forall>q \<in> set (ps @ qs). ck_sequence p < ck_sequence q" using ordered_after[of p "ps @ qs"] Cons.prems(1) by auto
  show ?case
  proof (cases "ps = []")
    case True
    with after show ?thesis by simp
  next
    case False
    then have "last ps \<in> set (ps @ qs)" by simp
    with after have "ck_sequence p < ck_sequence (last ps)" by blast
    with Cons.IH[OF t False] False show ?thesis by (simp add: less_imp_le)
  qed
qed simp

lemma ordered_prefix: "checkpoints_ordered (ps @ qs) \<Longrightarrow> checkpoints_ordered ps"
proof (induction ps)
  case (Cons p ps)
  then show ?case using ordered_tail[of p "ps @ qs"] by (cases ps; cases qs) auto
qed simp

lemma grows_parts: "grows_from cur (ps @ qs) \<Longrightarrow> grows_from cur ps \<and> (ps \<noteq> [] \<longrightarrow> grows_from (next_counters raw (last ps)) qs)"
proof (induction ps arbitrary: cur)
  case (Cons p ps)
  then show ?case using Cons.IH[of "\<lparr>fc_raw = 0, fc_upload = ck_up p, fc_download = ck_down p\<rparr>"]
    by (cases "ps = []") (auto simp: next_counters_def grows_raw[of raw _ _ qs 0])
qed simp

lemma ordered_grows:
  assumes "checkpoints_ordered ps" "\<forall>p \<in> set ps. ck_up p \<le> max64 \<and> ck_down p \<le> max64"
    "ps \<noteq> [] \<Longrightarrow> fc_upload cur \<le> ck_up (hd ps) \<and> fc_download cur \<le> ck_down (hd ps)"
  shows "grows_from cur ps"
  using assms
proof (induction ps arbitrary: cur)
  case (Cons p ps)
  have "grows_from \<lparr>fc_raw = 0, fc_upload = ck_up p, fc_download = ck_down p\<rparr> ps"
    by (rule Cons.IH) (use Cons.prems(1,2) in \<open>cases ps; simp\<close>)+
  with Cons.prems show ?case by simp
qed simp

lemma skip_settled: "\<forall>p \<in> set ps. ck_sequence p \<le> sequence \<Longrightarrow>
    charge_points True sequence mode m quota (ps @ qs) used cur out = charge_points True sequence mode m quota qs used cur out"
  by (induction ps) (simp_all add: point_settled_def)

text \<open>
  C21. A replayed window is charged once: when a first part of a window was charged and committed, charging the whole
  window again behind the cursor the first part left adds exactly what the rest of the window is worth; both charges
  together are the bytes and the amount the whole window would have been charged at once.
\<close>
theorem window_resumes_exactly:
  assumes "charge_points True sequence mode m quota (ps @ qs) used previous zero_charge = Inr d" "checkpoints_ordered (ps @ qs)" "ps \<noteq> []" "length (ps @ qs) \<le> 2000"
    "charge_points True sequence mode m quota ps used previous zero_charge = Inr d1"
    "\<forall>p \<in> set (ps @ qs). sequence < ck_sequence p \<and> ck_up p \<le> max64 \<and> ck_down p \<le> max64"
    "counted mode previous" "fc_upload previous \<le> ck_up (hd ps)" "fc_download previous \<le> ck_down (hd ps)"
    "0 \<le> used" "used \<le> quota" "quota \<le> max64" "0 < m"
  shows "\<exists>raw d2. checked_traffic_bytes (ck_up (last ps)) (ck_down (last ps)) mode = Inr raw
    \<and> charge_points True (ck_sequence (last ps)) mode m quota (ps @ qs) (used + cd_charged d1) (next_counters raw (last ps)) zero_charge = Inr d2
    \<and> cd_charged d = cd_charged d1 + cd_charged d2 \<and> cd_raw d = cd_raw d1 + cd_raw d2
    \<and> cd_upload d = cd_upload d1 + cd_upload d2 \<and> cd_download d = cd_download d1 + cd_download d2"
proof -
  have pr: "0 \<le> fc_raw previous" "0 \<le> fc_upload previous" "0 \<le> fc_download previous"
    using assms(7) by (auto simp: counted_def dest: mode_range)
  then have z: "loop_ok n quota used previous zero_charge" if "n \<le> 2000" for n using that assms(10-12) by (simp add: loop_ok_def zero_charge_def)
  have lim: "\<forall>p \<in> set (ps @ qs). ck_up p \<le> max64 \<and> ck_down p \<le> max64" using assms(6) by simp
  have hd: "hd (ps @ qs) = hd ps" using assms(3) by simp
  have grows: "grows_from previous (ps @ qs)" by (rule ordered_grows[OF assms(2) lim]) (simp add: hd assms(8,9))
  have "\<forall>p \<in> set (ps @ qs). sequence < ck_sequence p" using assms(6) by simp
  from skipping_is_free[OF z[OF assms(4)] z[OF assms(4)] refl assms(13,7) grows this] assms(1)
  obtain e where e: "charge_points False 0 mode m quota (ps @ qs) used previous zero_charge = Inr e" "money e = money d"
    by (cases "charge_points False 0 mode m quota (ps @ qs) used previous zero_charge") auto
  have "grows_from previous ps" using grows_parts[OF grows] by blast
  moreover have lp: "length ps \<le> 2000" "length ps + length qs \<le> 2000" using assms(4) by simp_all
  ultimately have "moneys (charge_points True sequence mode m quota ps used previous zero_charge)
      = moneys (charge_points False 0 mode m quota ps used previous zero_charge)"
    by (intro skipping_is_free[OF z z refl assms(13,7)]) (use assms(6) in simp_all)
  with assms(5) obtain e1 where e1: "charge_points False 0 mode m quota ps used previous zero_charge = Inr e1" "money e1 = money d1"
    by (cases "charge_points False 0 mode m quota ps used previous zero_charge") auto
  have limp: "\<forall>p \<in> set ps. ck_up p \<le> max64 \<and> ck_down p \<le> max64" using lim by simp
  from points_charged[OF e1(1) z[OF lp(1)] assms(13) limp] assms(3) obtain raw where raw: "checked_traffic_bytes (ck_up (last ps)) (ck_down (last ps)) mode = Inr raw"
    by auto
  have c0: "cd_charged zero_charge = 0" "cd_raw zero_charge = 0" "cd_upload zero_charge = 0" "cd_download zero_charge = 0" by (simp_all add: zero_charge_def)
  from points_in_parts[OF e1(1) z[OF lp(2)] assms(13) limp assms(3) raw, of qs] e(1)
  have part: "charge_points False 0 mode m quota qs (used + cd_charged e1) (next_counters raw (last ps)) e1 = Inr e"
    "loop_ok (length qs) quota (used + cd_charged e1) (next_counters raw (last ps)) e1" by (simp_all add: c0)
  have "last ps \<in> set ps" using assms(3) by simp
  then have cnt: "counted mode (next_counters raw (last ps))" using raw limp by (simp add: counted_def next_counters_def)
  have start: "loop_ok (length qs) quota (used + cd_charged e1) (next_counters raw (last ps)) zero_charge"
    using part(2) mode_range(1-3)[OF raw] limp \<open>last ps \<in> set ps\<close> by (auto simp: loop_ok_def zero_charge_def next_counters_def)
  have limq: "\<forall>q \<in> set qs. ck_up q \<le> max64 \<and> ck_down q \<le> max64" using lim by simp
  from charge_shift[OF part start assms(13) limq] obtain e2 where e2: "charge_points False 0 mode m quota qs (used + cd_charged e1) (next_counters raw (last ps)) zero_charge = Inr e2"
    "cd_raw e - cd_raw e1 = cd_raw e2" "cd_upload e - cd_upload e1 = cd_upload e2" "cd_download e - cd_download e1 = cd_download e2"
    "cd_charged e - cd_charged e1 = cd_charged e2" by (auto simp: c0)
  note after = conjunct1[OF ordered_append[OF assms(2,3)]] conjunct2[OF ordered_append[OF assms(2,3)]]
  have "grows_from (next_counters raw (last ps)) qs" using grows_parts[OF grows] assms(3) by blast
  from skipping_is_free[OF start start refl assms(13) cnt this after(2)] e2(1)
  obtain d2 where d2: "charge_points True (ck_sequence (last ps)) mode m quota qs (used + cd_charged e1) (next_counters raw (last ps)) zero_charge = Inr d2" "money d2 = money e2"
    by (cases "charge_points True (ck_sequence (last ps)) mode m quota qs (used + cd_charged e1) (next_counters raw (last ps)) zero_charge") auto
  have "cd_charged e1 = cd_charged d1" using e1(2) by (simp add: money_def)
  with d2(1) skip_settled[OF after(1)] have "charge_points True (ck_sequence (last ps)) mode m quota (ps @ qs) (used + cd_charged d1) (next_counters raw (last ps)) zero_charge = Inr d2"
    by simp
  with raw d2(2) e(2) e1(2) e2(2-5) show ?thesis by (auto simp: money_def intro!: exI[of _ raw] exI[of _ d2])
qed

theorem window_resumes_exactly_witness:
  "\<exists>d d2. charge_points True 3 0 1500 100000 (fs_points sample_flow) 10 \<lparr>fc_raw = 100, fc_upload = 50, fc_download = 50\<rparr> zero_charge = Inr d
     \<and> charge_points True 5 0 1500 100000 (fs_points sample_flow) (10 + 900) (next_counters 700 (hd (fs_points sample_flow))) zero_charge = Inr d2
     \<and> cd_charged d = 2250 \<and> cd_charged d = 900 + cd_charged d2"
proof -
  let ?prev = "\<lparr>fc_raw = 100, fc_upload = 50, fc_download = 50\<rparr>"
  let ?ps = "[hd (fs_points sample_flow)]" and ?qs = "tl (fs_points sample_flow)"
  have e: "?ps @ ?qs = fs_points sample_flow" by (simp add: sample_flow_def)
  have c: "charge_points True 3 0 1500 100000 (?ps @ ?qs) 10 ?prev zero_charge
      = Inr \<lparr>cd_raw = 1500, cd_upload = 650, cd_download = 850, cd_charged = 2250, cd_samples = 2, cd_first = 5, cd_rounding = 0\<rparr>"
    and c1: "charge_points True 3 0 1500 100000 ?ps 10 ?prev zero_charge
      = Inr \<lparr>cd_raw = 600, cd_upload = 250, cd_download = 350, cd_charged = 900, cd_samples = 1, cd_first = 5, cd_rounding = 0\<rparr>"
    by code_simp+
  have k: "checkpoints_ordered (?ps @ ?qs)" "?ps \<noteq> []" "length (?ps @ ?qs) \<le> 2000" by (simp_all add: sample_flow_def)
  have p: "\<forall>p \<in> set (?ps @ ?qs). 3 < ck_sequence p \<and> ck_up p \<le> max64 \<and> ck_down p \<le> max64" by (simp add: sample_flow_def max64_def)
  have g: "counted 0 ?prev" "fc_upload ?prev \<le> ck_up (hd ?ps)" "fc_download ?prev \<le> ck_down (hd ?ps)" by code_simp+
  have n: "(0::int) \<le> 10" "(10::int) \<le> 100000" "100000 \<le> max64" "(0::int) < 1500" by (simp_all add: max64_def)
  have r: "checked_traffic_bytes (ck_up (hd (fs_points sample_flow))) (ck_down (hd (fs_points sample_flow))) 0 = Inr 700" "ck_sequence (hd (fs_points sample_flow)) = 5" by code_simp+
  have "\<exists>raw d2. Inr 700 = (Inr raw :: int result)
      \<and> charge_points True 5 0 1500 100000 (?ps @ ?qs) (10 + 900) (next_counters raw (hd (fs_points sample_flow))) zero_charge = Inr d2
      \<and> 2250 = 900 + cd_charged d2"
    using window_resumes_exactly[OF c k c1 p g n] unfolding last.simps if_P[OF refl] charge_delta.simps r by blast
  then obtain d2 where
    d2: "charge_points True 5 0 1500 100000 (fs_points sample_flow) (10 + 900) (next_counters 700 (hd (fs_points sample_flow))) zero_charge = Inr d2" "2250 = 900 + cd_charged d2"
    unfolding e sum.inject by (elim exE conjE) simp
  show ?thesis using c[unfolded e] d2
    by (intro exI[of _ "\<lparr>cd_raw = 1500, cd_upload = 650, cd_download = 850, cd_charged = 2250, cd_samples = 2, cd_first = 5, cd_rounding = 0\<rparr>"] exI[of _ d2])
      (simp only: charge_delta.simps simp_thms)
qed

end
