(* ===== verification/MeterPrincipals.thy ===== *)
theory MeterPrincipals
  imports MeterCharge Grants
begin

text \<open>
  Who is charged for a flow (\<^verbatim>\<open>credentialstore/principal_index.go\<close>, \<^verbatim>\<open>current_resource_locks.go\<close>,
  \<^verbatim>\<open>meteringstore/completion_credential.go\<close>): the digest index over the principals of a node, its bounded
  preparation, and the resolution of a reported principal to one credential of a live owner.
\<close>

section \<open>Credentials and their index\<close>

record credential =
  pc_id :: nat
  pc_subscription :: nat
  pc_user :: nat
  pc_endpoint :: nat
  pc_node :: nat
  pc_epoch :: nat
  pc_key :: string
  pc_secret :: string
  pc_retired :: string
  pc_digest :: string
  pc_secret_digest :: string
  pc_version :: nat
  pc_status :: string
  pc_last_used :: "gotime option"
  pc_updated :: gotime

text \<open>\<open>digest\<close> is the hexadecimal SHA-256 of the domain prefix, the decimal node and the secret.\<close>

type_synonym digester = "nat \<Rightarrow> string \<Rightarrow> string"

definition retired_principal_hash :: "digester \<Rightarrow> nat \<Rightarrow> string \<Rightarrow> string" where
  "retired_principal_hash digest node secret = (if node = 0 \<or> secret = [] then [] else digest node secret)"

text \<open>A missing cipher is \<open>None\<close>; a cipher returns \<open>None\<close> where \<open>Decrypt\<close> fails.\<close>

type_synonym cipher = "(string \<Rightarrow> string option) option"

definition decrypted :: "cipher \<Rightarrow> string \<Rightarrow> string option" where
  "decrypted cipher secret = (case cipher of None \<Rightarrow> None | Some decrypt \<Rightarrow> decrypt secret)"

definition index_row :: "cipher \<Rightarrow> digester \<Rightarrow> nat \<Rightarrow> credential \<Rightarrow> credential" where
  "index_row cipher digest node c =
     c\<lparr>pc_digest := retired_principal_hash digest node (pc_key c),
       pc_secret_digest := (if pc_secret c = [] then pc_retired c
         else case decrypted cipher (pc_secret c) of None \<Rightarrow> pc_retired c | Some plain \<Rightarrow> retired_principal_hash digest node plain),
       pc_version := (if pc_secret c \<noteq> [] \<and> decrypted cipher (pc_secret c) = None then 2 else 1)\<rparr>"

definition unprepared :: "nat \<Rightarrow> credential list \<Rightarrow> credential list" where
  "unprepared node cs = sort_key pc_id (filter (\<lambda>c. pc_node c = node \<and> pc_version c = 0) cs)"

definition backfill :: "cipher \<Rightarrow> digester \<Rightarrow> nat \<Rightarrow> nat \<Rightarrow> credential list \<Rightarrow> nat \<times> credential list" where
  "backfill cipher digest node limit cs =
     (let ids = map pc_id (take limit (unprepared node cs)) in
      (length ids, map (\<lambda>c. if pc_node c = node \<and> pc_version c = 0 \<and> pc_id c \<in> set ids then index_row cipher digest node c else c) cs))"

definition principal_backfill_batch :: nat where "principal_backfill_batch = 256"
definition principal_index_work_limit :: nat where "principal_index_work_limit = principal_backfill_batch * 4"

function prepare_loop :: "cipher \<Rightarrow> digester \<Rightarrow> nat \<Rightarrow> nat \<Rightarrow> nat \<Rightarrow> credential list \<Rightarrow> nat \<times> credential list" where
  "prepare_loop cipher digest node budget prepared cs =
     (if prepared < budget then
        let limit = min principal_backfill_batch (budget - prepared);
            (count, cs') = backfill cipher digest node limit cs in
        if count < limit then (prepared + count, cs') else prepare_loop cipher digest node budget (prepared + count) cs'
      else (prepared, cs))"
  by pat_completeness auto
termination
  by (relation "measure (\<lambda>(cipher, digest, node, budget, prepared, cs). budget - prepared)")
    (auto simp: principal_backfill_batch_def min_def split: if_splits)

declare prepare_loop.simps [simp del]

definition index_pending :: go_error where "index_pending = ErrNamed ''ErrPrincipalIndexPending''"
definition index_incomplete :: go_error where "index_incomplete = ErrNamed ''ErrPrincipalIndexIncomplete''"

definition prepare_bounded :: "cipher \<Rightarrow> digester \<Rightarrow> nat \<Rightarrow> int \<Rightarrow> credential list \<Rightarrow> nat \<times> credential list \<times> unit result" where
  "prepare_bounded cipher digest node budget cs =
     (if node = 0 then (0, cs, Inl index_pending)
      else let (prepared, cs') = prepare_loop cipher digest node (nat (max 0 (min budget (int principal_index_work_limit)))) 0 cs in
        (prepared, cs', if unprepared node cs' \<noteq> [] then Inl index_incomplete else Inr ()))"

text \<open>The \<open>UNION\<close> of the three lookups holds each identifier once; \<open>LIMIT 2\<close> only bounds how many are read.\<close>

definition digest_ids :: "nat \<Rightarrow> string \<Rightarrow> credential list \<Rightarrow> nat list" where
  "digest_ids node d cs =
     take 2 (remdups (map pc_id (filter (\<lambda>c. pc_node c = node \<and> (pc_digest c = d \<or> pc_secret_digest c = d \<or> pc_retired c = d)) cs)))"

definition lookup_prepared :: "digester \<Rightarrow> credential list \<Rightarrow> nat \<Rightarrow> string \<Rightarrow> credential result" where
  "lookup_prepared digest cs node provided =
     (if node = 0 \<or> provided = [] then Inl index_pending
      else if unprepared node cs \<noteq> [] then Inl index_incomplete
      else let ids = digest_ids node (retired_principal_hash digest node provided) cs in
        if ids = [] then Inl (ErrNamed ''ErrRecordNotFound'')
        else if length ids \<noteq> 1 then Inl index_pending
        else if \<exists>c \<in> set cs. pc_node c = node \<and> pc_version c = 2 \<and> pc_id c \<noteq> hd ids then Inl index_pending
        else case find (\<lambda>c. pc_node c = node \<and> pc_id c = hd ids) cs of
          None \<Rightarrow> Inl (ErrNamed ''ErrRecordNotFound'') | Some c \<Rightarrow> Inr c)"

definition lookup_principal :: "cipher \<Rightarrow> digester \<Rightarrow> credential list \<Rightarrow> nat \<Rightarrow> string \<Rightarrow> credential list \<times> credential result" where
  "lookup_principal cipher digest cs node provided =
     (if node = 0 \<or> provided = [] then (cs, Inl index_pending)
      else let (prepared, cs', r) = prepare_bounded cipher digest node (int principal_index_work_limit) cs in
        (cs', try_bind r (\<lambda>_. lookup_prepared digest cs' node provided)))"

section \<open>The owner of a flow\<close>

text \<open>
  \<open>pd_users\<close> are the accounts that are not deleted, \<open>pd_subjects\<close> the immutable subjects that outlive them,
  \<open>pd_nodes\<close> the nodes with their lifecycle.
\<close>

record principal_db =
  pd_users :: "nat list"
  pd_subjects :: "nat list"
  pd_nodes :: "(nat \<times> string) list"
  pd_subs :: "subscription list"
  pd_creds :: "credential list"

definition node_management_closed :: "string \<Rightarrow> bool" where
  "node_management_closed status \<longleftrightarrow> status = ''deleting'' \<or> status = ''archived''"

text \<open>Reading a node that does not exist leaves the empty lifecycle, which is open.\<close>

definition lock_current_endpoint_parents :: "'a principal_db_scheme \<Rightarrow> nat \<Rightarrow> unit result" where
  "lock_current_endpoint_parents db node =
     (case map_of (pd_nodes db) node of
        Some status \<Rightarrow> if node_management_closed status then Inl (ErrNamed ''ErrNodeAdministrationDeleting'') else Inr ()
      | None \<Rightarrow> Inr ())"

definition completion_principal_matches :: "cipher \<Rightarrow> digester \<Rightarrow> nat \<Rightarrow> string \<Rightarrow> credential \<Rightarrow> bool" where
  "completion_principal_matches cipher digest node provided c \<longleftrightarrow>
     pc_key c \<noteq> [] \<and> pc_key c = provided
     \<or> pc_retired c \<noteq> [] \<and> pc_retired c = retired_principal_hash digest node provided
     \<or> pc_secret c \<noteq> [] \<and> decrypted cipher (pc_secret c) = Some provided"

definition principal_ambiguous :: go_error where "principal_ambiguous = ErrNamed ''ErrPrincipalAmbiguous''"
definition record_not_found :: go_error where "record_not_found = ErrNamed ''ErrRecordNotFound''"

text \<open>\<open>errors.Is\<close> finds the pending error in the incomplete one, which is tested first.\<close>

definition attribution_error :: "go_error \<Rightarrow> go_error" where
  "attribution_error e = (if e = index_incomplete then e else if e = index_pending then principal_ambiguous else e)"

definition resolve_completion_credential :: "cipher \<Rightarrow> digester \<Rightarrow> 'a principal_db_scheme \<Rightarrow> nat \<Rightarrow> string \<Rightarrow> credential result" where
  "resolve_completion_credential cipher digest db node provided =
     (case lookup_prepared digest (pd_creds db) node provided of
        Inl e \<Rightarrow> Inl (attribution_error e)
      | Inr candidate \<Rightarrow>
        if pc_user candidate \<notin> set (pd_users db) \<and> pc_user candidate \<notin> set (pd_subjects db) then Inl record_not_found
        else case find (\<lambda>s. sb_id s = pc_subscription candidate) (pd_subs db) of
          None \<Rightarrow> Inl record_not_found
        | Some s \<Rightarrow>
          if sb_user s \<noteq> pc_user candidate then Inl principal_ambiguous
          else try_bind (lock_current_endpoint_parents db node) (\<lambda>_.
            case find (\<lambda>c. pc_node c = node \<and> pc_id c = pc_id candidate) (pd_creds db) of
              None \<Rightarrow> Inl record_not_found
            | Some c \<Rightarrow>
              if pc_subscription c \<noteq> sb_id s \<or> \<not> completion_principal_matches cipher digest node provided c
              then Inl principal_ambiguous else Inr c))"

section \<open>Preparation\<close>

text \<open>Every row is either waiting for its digests or carries the digests of its own values.\<close>

definition index_current :: "cipher \<Rightarrow> digester \<Rightarrow> credential list \<Rightarrow> bool" where
  "index_current cipher digest cs \<longleftrightarrow> (\<forall>c \<in> set cs. pc_version c = 0 \<or> c = index_row cipher digest (pc_node c) c)"

lemma index_row_simps [simp]:
  "pc_id (index_row ci dg n c) = pc_id c" "pc_node (index_row ci dg n c) = pc_node c"
  "pc_key (index_row ci dg n c) = pc_key c" "pc_secret (index_row ci dg n c) = pc_secret c" "pc_retired (index_row ci dg n c) = pc_retired c"
  "pc_version (index_row ci dg n c) \<noteq> 0" "pc_user (index_row ci dg n c) = pc_user c" "pc_subscription (index_row ci dg n c) = pc_subscription c"
  "index_row ci dg n (index_row ci dg n c) = index_row ci dg n c"
  by (simp_all add: index_row_def split: option.splits)

lemma backfill_current: "index_current ci dg cs \<Longrightarrow> index_current ci dg (snd (backfill ci dg n l cs))"
  unfolding index_current_def backfill_def Let_def snd_conv set_map ball_simps image_iff
  by (auto simp: index_row_simps(2,9))

lemma backfill_ids: "map pc_id (snd (backfill ci dg n l cs)) = map pc_id cs"
  by (simp add: backfill_def Let_def comp_def if_distrib[where f = pc_id] cong: map_cong)

lemma filter_taken:
  assumes "distinct (map f xs)" "set ys \<subseteq> set xs" "distinct ys"
  shows "length (filter (\<lambda>x. f x \<notin> f ` set ys) xs) = length xs - length ys"
proof -
  have inj: "inj_on f (set xs)" and d: "distinct xs" using assms(1) by (simp_all add: distinct_map)
  have "{x \<in> set xs. f x \<notin> f ` set ys} = set xs - set ys" using inj assms(2) by (auto simp: inj_on_def)
  then have "card (set (filter (\<lambda>x. f x \<notin> f ` set ys) xs)) = card (set xs) - card (set ys)"
    using assms(2) by (simp add: card_Diff_subset)
  then show ?thesis using d assms(3) distinct_card[OF distinct_filter[OF d], of "\<lambda>x. f x \<notin> f ` set ys"] by (simp add: distinct_card)
qed

lemma unprepared_length: "length (unprepared n cs) = length (filter (\<lambda>c. pc_node c = n \<and> pc_version c = 0) cs)"
  by (simp add: unprepared_def)

lemma filter_map_out: "(\<And>x. \<not> P (h x)) \<Longrightarrow> filter P (map (\<lambda>x. if P x \<and> R x then h x else x) xs) = filter (\<lambda>x. \<not> R x) (filter P xs)"
  by (induction xs) auto

lemma backfill_progress:
  assumes "distinct (map pc_id cs)"
  shows "length (unprepared n (snd (backfill ci dg n l cs))) = length (unprepared n cs) - l" (is ?left)
    and "fst (backfill ci dg n l cs) = min l (length (unprepared n cs))" (is ?count)
proof -
  let ?ys = "take l (unprepared n cs)" and ?P = "\<lambda>c. pc_node c = n \<and> pc_version c = 0"
  have sub: "set ?ys \<subseteq> set (filter ?P cs)" by (auto simp: unprepared_def dest: in_set_takeD)
  have "distinct (map pc_id (filter ?P cs))" using assms by (simp add: distinct_map_filter)
  moreover have "distinct ?ys" using assms by (simp add: unprepared_def distinct_map)
  ultimately have "length (filter (\<lambda>x. pc_id x \<notin> pc_id ` set ?ys) (filter ?P cs)) = length (filter ?P cs) - length ?ys"
    using sub by (intro filter_taken)
  moreover have "filter ?P (snd (backfill ci dg n l cs)) = filter (\<lambda>x. pc_id x \<notin> pc_id ` set ?ys) (filter ?P cs)"
    using filter_map_out[of ?P "index_row ci dg n" "\<lambda>x. pc_id x \<in> pc_id ` set ?ys" cs] by (simp add: backfill_def Let_def conj_assoc)
  ultimately show ?left by (simp add: unprepared_length)
  show ?count by (simp add: backfill_def Let_def min.commute)
qed

lemma prepare_loop_spec:
  assumes "distinct (map pc_id cs)"
  shows "fst (prepare_loop ci dg n b p cs) \<le> max b p
    \<and> length (unprepared n (snd (prepare_loop ci dg n b p cs))) = length (unprepared n cs) - (b - p)
    \<and> map pc_id (snd (prepare_loop ci dg n b p cs)) = map pc_id cs
    \<and> (index_current ci dg cs \<longrightarrow> index_current ci dg (snd (prepare_loop ci dg n b p cs)))"
  using assms
proof (induction ci dg n b p cs rule: prepare_loop.induct)
  case (1 ci dg n b p cs)
  show ?case
  proof (cases "p < b")
    case False
    then show ?thesis by (simp add: prepare_loop.simps[of ci dg n b p cs])
  next
    case True
    let ?l = "min principal_backfill_batch (b - p)"
    obtain k cs' where bf: "backfill ci dg n ?l cs = (k, cs')" by (cases "backfill ci dg n ?l cs")
    note pr = backfill_progress[OF "1.prems", where n = n and ci = ci and dg = dg and l = ?l] backfill_ids[of ci dg n ?l cs]
    have left: "length (unprepared n cs') = length (unprepared n cs) - ?l" and k: "k = min ?l (length (unprepared n cs))"
      and ids: "map pc_id cs' = map pc_id cs" and cur: "index_current ci dg cs \<Longrightarrow> index_current ci dg cs'"
      using pr backfill_current[of ci dg cs n ?l] by (simp_all add: bf)
    show ?thesis
    proof (cases "k < ?l")
      case True
      then have e: "prepare_loop ci dg n b p cs = (p + k, cs')"
        using \<open>p < b\<close> by (subst prepare_loop.simps) (simp only: if_True Let_def bf prod.case)
      have "p + k \<le> b" "length (unprepared n cs) - ?l = 0" "length (unprepared n cs) - (b - p) = 0" using True k by linarith+
      then show ?thesis unfolding e using left ids cur by simp
    next
      case False
      then have kl: "k = ?l" using k by linarith
      have e: "prepare_loop ci dg n b p cs = prepare_loop ci dg n b (p + k) cs'"
        using \<open>p < b\<close> False by (subst prepare_loop.simps) (simp only: if_True if_False Let_def bf prod.case)
      have "distinct (map pc_id cs')" using "1.prems" ids by simp
      note ih = "1.IH"[OF \<open>p < b\<close> refl bf[symmetric] refl False this]
      have "max b (p + k) = max b p" "length (unprepared n cs) - ?l - (b - (p + k)) = length (unprepared n cs) - (b - p)"
        using kl \<open>p < b\<close> by linarith+
      then show ?thesis unfolding e using ih left ids cur by simp
    qed
  qed
qed

text \<open>One call of the preparation: it stays within its budget, and the rows it leaves are what the budget did not reach.\<close>

lemma prepare_bounded_spec:
  assumes "distinct (map pc_id cs)" "node \<noteq> 0"
  shows "length (unprepared node (fst (snd (prepare_bounded ci dg node budget cs))))
      = length (unprepared node cs) - nat (min budget (int principal_index_work_limit))"
    and "map pc_id (fst (snd (prepare_bounded ci dg node budget cs))) = map pc_id cs"
    and "index_current ci dg cs \<Longrightarrow> index_current ci dg (fst (snd (prepare_bounded ci dg node budget cs)))"
    and "int (fst (prepare_bounded ci dg node budget cs)) \<le> max 0 budget"
    and "snd (snd (prepare_bounded ci dg node budget cs)) = Inr () \<longleftrightarrow> unprepared node (fst (snd (prepare_bounded ci dg node budget cs))) = []"
  using prepare_loop_spec[OF assms(1), of ci dg node "nat (max 0 (min budget (int principal_index_work_limit)))" 0] assms(2)
  by (auto simp: prepare_bounded_def max_def min_def split: prod.splits if_splits)

text \<open>
  The preparation of a node completes and never overruns its budget: each call prepares exactly as many rows as its
  budget allows while there are any, so that after enough calls, whatever positive budget each has, the node answers
  lookups, no credential appeared or disappeared, and every row carries the digests of its own key and secret.
\<close>

lemma preparation_completes:
  assumes "distinct (map pc_id cs)" "node \<noteq> 0" "index_current cipher digest cs"
    "length (unprepared node cs) \<le> calls * nat (min budget (int principal_index_work_limit))"
  shows "let done_cs = ((\<lambda>cs. fst (snd (prepare_bounded cipher digest node budget cs))) ^^ calls) cs in
    snd (snd (prepare_bounded cipher digest node budget done_cs)) = Inr () \<and> unprepared node done_cs = []
    \<and> map pc_id done_cs = map pc_id cs \<and> index_current cipher digest done_cs
    \<and> int (fst (prepare_bounded cipher digest node budget done_cs)) \<le> max 0 budget"
proof -
  let ?f = "\<lambda>cs. fst (snd (prepare_bounded cipher digest node budget cs))" and ?b = "nat (min budget (int principal_index_work_limit))"
  have inv: "map pc_id ((?f ^^ k) cs) = map pc_id cs \<and> index_current cipher digest ((?f ^^ k) cs)
      \<and> length (unprepared node ((?f ^^ k) cs)) = length (unprepared node cs) - k * ?b" for k
  proof (induction k)
    case (Suc k)
    then have "distinct (map pc_id ((?f ^^ k) cs))" using assms(1) by simp
    note step = prepare_bounded_spec[OF this assms(2), where ci = cipher and dg = digest and budget = budget]
    show ?case using Suc step(1-3) by (simp add: add.commute)
  qed (simp add: assms(3))
  let ?d = "(?f ^^ calls) cs"
  have none: "unprepared node ?d = []" using inv[of calls] assms(4) by simp
  have d: "distinct (map pc_id ?d)" using inv[of calls] assms(1) by simp
  note step = prepare_bounded_spec[OF d assms(2), where ci = cipher and dg = digest and budget = budget]
  have "unprepared node (?f ?d) = []" using step(1) none by simp
  then show ?thesis using inv[of calls] none step(4,5) by (simp add: Let_def)
qed

text \<open>A node with three credentials: a plain key, a readable secret and a retired one.\<close>

definition sample_digest :: digester where "sample_digest node s = CHR ''h'' # s"
definition sample_cipher :: cipher where "sample_cipher = Some (\<lambda>s. if s = [] then None else Some (rev s))"

definition sample_credential :: "nat \<Rightarrow> string \<Rightarrow> string \<Rightarrow> string \<Rightarrow> credential" where
  "sample_credential i key secret retired =
     \<lparr>pc_id = i, pc_subscription = 9, pc_user = 5, pc_endpoint = 3, pc_node = 4, pc_epoch = 0, pc_key = key, pc_secret = secret, pc_retired = retired,
      pc_digest = [], pc_secret_digest = [], pc_version = 0, pc_status = ''active'', pc_last_used = None, pc_updated = 0\<rparr>"

definition sample_credentials :: "credential list" where
  "sample_credentials = [sample_credential 1 ''alice'' [] [], sample_credential 2 ''bob'' ''terces'' [], sample_credential 3 ''carol'' [] ''hold'']"

theorem preparation_completes_witness:
  "unprepared 4 (((\<lambda>cs. fst (snd (prepare_bounded sample_cipher sample_digest 4 2 cs))) ^^ 2) sample_credentials) = []"
proof -
  have "distinct (map pc_id sample_credentials)" "(4::nat) \<noteq> 0" by code_simp+
  moreover have "index_current sample_cipher sample_digest sample_credentials" by code_simp
  moreover have "length (unprepared 4 sample_credentials) \<le> 2 * nat (min 2 (int principal_index_work_limit))" by code_simp
  ultimately show ?thesis using preparation_completes[of sample_credentials 4 sample_cipher sample_digest 2 2] by (simp add: Let_def)
qed

section \<open>Attribution\<close>

lemma lookup_prepared_unique:
  assumes "lookup_prepared digest cs node provided = Inr c"
  shows "node \<noteq> 0" "provided \<noteq> []" "find (\<lambda>d. pc_node d = node \<and> pc_id d = pc_id c) cs = Some c"
    "\<And>d. d \<in> set cs \<Longrightarrow> pc_node d = node \<Longrightarrow> pc_version d \<noteq> 0"
    "\<And>d. d \<in> set cs \<Longrightarrow> pc_node d = node \<Longrightarrow> retired_principal_hash digest node provided \<in> {pc_digest d, pc_secret_digest d, pc_retired d}
      \<Longrightarrow> pc_id d = pc_id c"
proof -
  let ?h = "retired_principal_hash digest node provided"
  let ?ids = "digest_ids node ?h cs"
  have l: "length ?ids = 1" and n: "node \<noteq> 0" "provided \<noteq> []" and u: "unprepared node cs = []"
    and f: "find (\<lambda>d. pc_node d = node \<and> pc_id d = hd ?ids) cs = Some c"
    using assms by (auto simp: lookup_prepared_def Let_def split: if_splits option.splits)
  show "node \<noteq> 0" "provided \<noteq> []" by (rule n)+
  have h: "hd ?ids = pc_id c" using f by (auto simp: find_Some_iff)
  with f show "find (\<lambda>d. pc_node d = node \<and> pc_id d = pc_id c) cs = Some c" by simp
  fix d assume d: "d \<in> set cs" "pc_node d = node"
  have "d \<notin> set (unprepared node cs)" using u by simp
  with d show "pc_version d \<noteq> 0" by (simp add: unprepared_def)
  assume "?h \<in> {pc_digest d, pc_secret_digest d, pc_retired d}"
  with d have "pc_id d \<in> set (remdups (map pc_id (filter (\<lambda>c. pc_node c = node \<and> (pc_digest c = ?h \<or> pc_secret_digest c = ?h \<or> pc_retired c = ?h)) cs)))"
    (is "_ \<in> set ?all") by auto
  moreover have "take 2 ?all = [pc_id c]" using l h unfolding digest_ids_def by (cases "take 2 ?all") auto
  then have "?all = [pc_id c]" by (cases ?all; cases "tl ?all") auto
  ultimately show "pc_id d = pc_id c" by simp
qed

lemma matching_digest:
  assumes "completion_principal_matches cipher digest node provided d" "d = index_row cipher digest node d"
  shows "retired_principal_hash digest node provided \<in> {pc_digest d, pc_secret_digest d, pc_retired d}"
proof -
  have "pc_digest d = retired_principal_hash digest node (pc_key d)" by (subst assms(2)) (simp add: index_row_def)
  moreover have "pc_secret_digest d = retired_principal_hash digest node provided"
    if "pc_secret d \<noteq> []" "decrypted cipher (pc_secret d) = Some provided"
    by (subst assms(2)) (simp add: index_row_def that)
  ultimately show ?thesis using assms(1) by (auto simp: completion_principal_matches_def)
qed


definition sample_principal_db :: principal_db where
  "sample_principal_db = \<lparr>pd_users = [], pd_subjects = [5], pd_nodes = [(4, ''active'')],
     pd_subs = [sample_subscription\<lparr>sb_id := 9, sb_user := 5\<rparr>],
     pd_creds = fst (snd (prepare_bounded sample_cipher sample_digest 4 1024 sample_credentials))\<rparr>"


end
