(* ===== verification/Spec2Isabelle.thy ===== *)
theory Spec2Isabelle
  imports PerpetualSync EntitlementCommands Redemption Catalog WalletBank Receipts JobFairness JobRetention MeterPrincipals
begin

text \<open>
  The money, entitlement, job and traffic charging logic of the backend of zboard, a panel that sells network subscriptions.
  The code is Go, under \<^verbatim>\<open>src/backend/internal\<close>; paths below are relative to it, and \<open>commerce\<close>, \<open>entitlements\<close>
  and \<open>jobs\<close> stand for \<^verbatim>\<open>capabilities/commerce\<close>, \<^verbatim>\<open>capabilities/entitlements\<close> and \<^verbatim>\<open>capabilities/jobs\<close>,
  \<open>commercestore\<close> and \<open>jobstore\<close> for the packages of \<^verbatim>\<open>adapters/persistence\<close>.

  The program. A user has a wallet and subscriptions. An order buys a plan, a renewal, a change or a
  recharge; it is paid by a channel, by balance, by both, or is settled by an administrator, and then makes a grant on a
  subscription. What was paid for is written down as evidence, so that a later refund, replacement or termination
  can compute what is left of it. Work in the background runs as jobs of one durable queue.

  Parts, in the order in which they build on each other.

  \<^item> \<open>Prelude\<close>, \<open>GoTime\<close>, \<open>GoStrings\<close>: results \<open>go_error + 'a\<close>, Go's \<open>int64\<close> with its wrap-around written
    out, truncating division, \<open>map[uint]int64\<close> as sorted association lists, instants, strings as lists of bytes.
  \<^item> \<open>Calendar\<close> (\<^verbatim>\<open>entitlements/calendar.go\<close>): months with a clamped day, billing periods, quota resets. The locale
    \<open>reset_schedule\<close> is the contract of the reset schedule, interpreted on the code's function.
  \<^item> \<open>ValueAllocation\<close>, \<open>ValueSources\<close>, \<open>ValueTypes\<close>, \<open>ValueFrame\<close> (\<^verbatim>\<open>commerce/value_allocation.go\<close>,
    \<^verbatim>\<open>value_projection.go\<close>, \<^verbatim>\<open>order_quote.go\<close>, \<^verbatim>\<open>administrative_refund.go\<close>): the division of paid money over periods and
    quota cycles and its sources. The locales \<open>cumulative_share\<close> and \<open>allocation_visitor\<close> are the rounding and the
    visitor the splits share.
  \<^item> \<open>TimedReplay\<close>, \<open>TimedValue\<close>, \<open>FifoLots\<close>, \<open>PerpetualValue\<close>, \<open>PerpetualSync\<close> (\<^verbatim>\<open>value_projection.go\<close>,
    \<^verbatim>\<open>value_timed_plan_sync.go\<close>, \<^verbatim>\<open>value_perpetual.go\<close>, \<^verbatim>\<open>value_perpetual_sync.go\<close>): the replay of paid events into the
    remaining value of a timed or a perpetual entitlement. The two first-in first-out loops share the locale \<open>fifo_lot\<close>.
    The lemmas show that no value exceeds what was paid, order by order, and that the replay agrees with a reference.
  \<^item> \<open>Grants\<close>, \<open>EntitlementCommands\<close> (\<^verbatim>\<open>entitlements/\<close>): the subscription, what a grant does to it, its
    quota, and the gates of the commands.
  \<^item> \<open>Orders\<close>, \<open>Catalog\<close>, \<open>Discounts\<close>, \<open>Redemption\<close> (\<^verbatim>\<open>commerce/\<close>): orders and their evidence, what may be sold,
    what a discount must prove, the protocol with its provider.
  \<^item> \<open>WalletLedger\<close>, \<open>WalletBank\<close>, \<open>WalletAdjustments\<close> (\<^verbatim>\<open>commercestore/wallet_credit.go\<close>,
    \<^verbatim>\<open>wallet_adjustments.go\<close>, \<^verbatim>\<open>wallet_admin_credit.go\<close>, \<^verbatim>\<open>wallet.go\<close>): the one writer of balances, the abstract bank it
    refines, and the administrative operations. The locale \<open>wallet_writer\<close> is the contract of an operation on the
    books, interpreted on each of the four.
  \<^item> \<open>OrderFunding\<close>, \<open>RefundBudgets\<close>, \<open>ValueCapture\<close>, \<open>Settlement\<close>, \<open>PaidOrders\<close>
    (\<^verbatim>\<open>commercestore/wallet_payments.go\<close>, \<^verbatim>\<open>consumption_refunds.go\<close>, \<^verbatim>\<open>entitlement_value.go\<close>,
    \<^verbatim>\<open>order_fulfillment.go\<close>, \<^verbatim>\<open>order_settlement.go\<close>): the reserve of an order, what it may give back, the evidence of a
    payment, the one path on which an order becomes paid, and what the payments guarantee.
  \<^item> \<open>Payments\<close>, \<open>Receipts\<close> (\<^verbatim>\<open>commercestore/payment_facts.go\<close>, \<^verbatim>\<open>payment_receipts.go\<close>,
    \<^verbatim>\<open>payment_checkout.go\<close>): facts of payment channels, receipts, and that every receipt is accounted for in every history.
  \<^item> \<open>JobQueue\<close>, \<open>JobControl\<close>, \<open>JobSchedules\<close>, \<open>JobExecutor\<close> (\<^verbatim>\<open>jobs/\<close>, \<^verbatim>\<open>jobstore/\<close>): submission, claim,
    completion, cancellation, review, import, retention, periodic plans, the executor and the registry of handlers.
    \<open>JobHistory\<close> has the histories of the queue and its invariants, \<open>JobLimits\<close>, \<open>JobOutcomes\<close>, \<open>JobFairness\<close> and
    \<open>JobRetention\<close> what they give: limits, leases that end once, bounded attempts, lanes that do not starve.
  \<^item> \<open>MeterCharge\<close> (\<^verbatim>\<open>capabilities/metering/accounting.go\<close>, \<^verbatim>\<open>flow_sample.go\<close>, \<^verbatim>\<open>flow_cursor.go\<close>): what a window of
    cumulative traffic reports costs, and that a window charged twice is charged once.
  \<^item> \<open>MeterPrincipals\<close> (\<^verbatim>\<open>credentialstore/principal_index.go\<close>, \<^verbatim>\<open>meteringstore/completion_credential.go\<close>): the index over
    the credentials of a node, its bounded preparation, and the one credential a reported flow is charged to.

  State and transactions. A database is a record of tables; a transaction is one step on it. The code
  takes row locks in each transaction it modifies money or runs in, so an operation sees the tables of the last
  committed one; an error is \<open>Inl\<close> and leaves the tables as they were. Unique indexes are checks that answer with
  \<open>ErrDuplicatedKey\<close>. Where an operation commits and still answers with an error (a claim that finds nothing, a
  completion after the lease) the model returns the new tables with the answer. Columns \<open>gorm\<close> fills
  by itself, log texts and the detail texts of audit rows are left out. SQL comparison of strings is equality.

  Parameters. JSON texts, SHA-256 digests and Unicode tables are functions of an environment; where distinct inputs
  must have distinct digests this is a hypothesis of the theorem. Fresh identifiers and lease tokens are arguments.
  The clock is an argument at each place where the code reads it. In \<open>Settlement\<close> the tables of
  entitlements, plans and discount reservations are a state \<open>'w\<close> with operations in a record \<open>market\<close>. A repository
  behind a service is a function, \<open>None\<close> for a nil one. A canceled context is seen where the code asks for it.

  Bounds. Money, quotas and counters keep the width of the code; the theorems have the ranges they need
  as hypotheses and show that no operation leaves them. Replays and allocations recurse over their
  lists (at most 4096 cycles, \<open>max_value_periods\<close>), other loops over a number the code bounds; \<open>double_delay\<close> takes the
  number of attempts, and a sweep of the retention a number of rows. No definition takes fuel. Instants are unbounded
  integers and all of them are UTC.

  Not modelled: plan revisions, order rules and the creation of orders, the loops of automatic renewal and the termination
  of subscriptions, read models and pages, HTTP handlers, plugins, network nodes and their
  certificates, the tables and statistics of metering, identity, mail and settings, migrations, and the goroutines around the queue: they are SQL, remote calls
  or concurrency outside a transaction, and call the modelled rules. The strict JSON decoders of the synchronisation
  records are library calls on top of a schema.
\<close>

end
